(* ===== verification/SDK_Prelude.thy ===== *)
theory SDK_Prelude
  imports Main "HOL-Library.Word"
begin

text \<open>
  Shared vocabulary of the development: the machine integers of the crate as words, the
  error type every fallible function of \<open>src/src/math\<close> and \<open>src/src/units\<close> returns, the
  result monad that stands for the \<open>?\<close> operator, the checked and saturating operations of
  Rust's integers, and the lemmas that move a word computation to \<open>int\<close>.

  Unsigned integers and their signed twins are words of the same width; a signed value is read
  with \<open>sint\<close>. The plain operators wrap, which is what a release build does. \<open>i32\<close> ticks
  are \<open>int\<close>; where a tick computation can leave 32 bits the wrap is written out
  (\<open>wrap_i32\<close>). The text of an error message is not modelled, its variant and its numbers are.
\<close>

unbundle bit_operations_syntax

subsection \<open>Machine integers\<close>

type_synonym u32 = "32 word"
type_synonym u64 = "64 word"
type_synonym u128 = "128 word"
type_synonym i128 = "128 word"
type_synonym u256 = "256 word"
type_synonym i256 = "256 word"
type_synonym u512 = "512 word"
type_synonym i32 = int

text \<open>Collections the component proofs draw on: results of the monad, and words read as integers.\<close>

named_theorems result_simps
named_theorems word_to_int

subsection \<open>Errors as values\<close>

text \<open>
  \<open>ValidationError\<close> of \<open>src/src/errors/validation.rs\<close>, in the variants the modelled code
  produces. \<open>Panic\<close> stands for a Rust panic (\<open>expect\<close>, \<open>assert!\<close>, a primitive division
  by zero), which no caller receives as a value; keeping it apart makes ``never panics'' a statement.
\<close>

datatype error =
    InvalidPrice
  | InvalidMargin
  | InvalidLeverage
  | InvalidMarginRatio u32 u32 u32
  | InvalidTickRange i32 i32
  | InvalidShare
  | InvalidAmount
  | InvalidConfig
  | NoBandCapacity i32 i32
  | BlockMismatch u64 u64
  | DecodeFailed
  | Overflow
  | Panic

type_synonym 'a result = "error + 'a"

text \<open>The \<open>?\<close> operator: the first error returns, a value goes on.\<close>

definition rbind :: "'a result \<Rightarrow> ('a \<Rightarrow> 'b result) \<Rightarrow> 'b result" where
  "rbind m f = (case m of Inl e \<Rightarrow> Inl e | Inr x \<Rightarrow> f x)"

definition ok_or :: "error \<Rightarrow> 'a option \<Rightarrow> 'a result" where
  "ok_or e m = (case m of None \<Rightarrow> Inl e | Some x \<Rightarrow> Inr x)"

definition result_map :: "('a \<Rightarrow> 'b) \<Rightarrow> 'a result \<Rightarrow> 'b result" where
  "result_map f m = rbind m (\<lambda>x. Inr (f x))"

definition result_ok :: "'a result \<Rightarrow> 'a option" where
  "result_ok m = (case m of Inl _ \<Rightarrow> None | Inr x \<Rightarrow> Some x)"

text \<open>\<open>.expect(...)\<close> on a result: an error becomes a panic.\<close>

definition expect :: "'a result \<Rightarrow> 'a result" where
  "expect m = (case m of Inl _ \<Rightarrow> Inl Panic | Inr x \<Rightarrow> Inr x)"

text \<open>\<open>iter().map(f).collect::<Result<Vec<_>, _>>()\<close>: the first error, or every value.\<close>

fun collect :: "('a \<Rightarrow> 'b result) \<Rightarrow> 'a list \<Rightarrow> 'b list result" where
  "collect f [] = Inr []"
| "collect f (x # xs) = rbind (f x) (\<lambda>y. rbind (collect f xs) (\<lambda>ys. Inr (y # ys)))"

lemma rbind_simps [simp, result_simps]:
  "rbind (Inl e) f = Inl e"
  "rbind (Inr x) f = f x"
  by (simp_all add: rbind_def)

lemma rbind_eq_Inr [result_simps]:
  "rbind m f = Inr y \<longleftrightarrow> (\<exists>x. m = Inr x \<and> f x = Inr y)"
  by (cases m) simp_all

lemma rbind_eq_Inl [result_simps]:
  "rbind m f = Inl e \<longleftrightarrow> m = Inl e \<or> (\<exists>x. m = Inr x \<and> f x = Inl e)"
  by (cases m) simp_all

lemma rbind_cong [fundef_cong]:
  "m = m' \<Longrightarrow> (\<And>x. m' = Inr x \<Longrightarrow> f x = f' x) \<Longrightarrow> rbind m f = rbind m' f'"
  by (cases m') simp_all

lemma ok_or_simps [simp, result_simps]:
  "ok_or e None = Inl e"
  "ok_or e (Some x) = Inr x"
  by (simp_all add: ok_or_def)

lemma ok_or_eq_Inr [result_simps]: "ok_or e m = Inr x \<longleftrightarrow> m = Some x"
  by (cases m) simp_all

lemma ok_or_eq_Inl [result_simps]: "ok_or e m = Inl e' \<longleftrightarrow> m = None \<and> e = e'"
  by (cases m) auto

lemma result_map_simps [simp, result_simps]:
  "result_map f (Inl e) = Inl e"
  "result_map f (Inr x) = Inr (f x)"
  by (simp_all add: result_map_def)

lemma result_map_eq_Inr [result_simps]:
  "result_map f m = Inr y \<longleftrightarrow> (\<exists>x. m = Inr x \<and> y = f x)"
  by (cases m) auto

lemma result_map_eq_Inl [result_simps]: "result_map f m = Inl e \<longleftrightarrow> m = Inl e"
  by (cases m) auto

lemma result_ok_simps [simp, result_simps]:
  "result_ok (Inl e) = None"
  "result_ok (Inr x) = Some x"
  by (simp_all add: result_ok_def)

lemma result_ok_eq_Some [result_simps]: "result_ok m = Some x \<longleftrightarrow> m = Inr x"
  by (cases m) auto

lemma expect_simps [simp, result_simps]:
  "expect (Inl e) = Inl Panic"
  "expect (Inr x) = Inr x"
  by (simp_all add: expect_def)

lemma expect_eq_Inr [result_simps]: "expect m = Inr x \<longleftrightarrow> m = Inr x"
  by (cases m) simp_all

lemma collect_eq_Inr [result_simps]:
  "collect f xs = Inr ys \<longleftrightarrow> length ys = length xs \<and> (\<forall>i < length xs. f (xs ! i) = Inr (ys ! i))"
proof (induction xs arbitrary: ys)
  case (Cons x xs)
  show ?case
    by (cases ys) (auto simp: rbind_eq_Inr Cons.IH less_Suc_eq_0_disj)
qed auto

subsection \<open>Rust's checked and saturating integer operations\<close>

definition checked_add :: "'a::len word \<Rightarrow> 'a word \<Rightarrow> 'a word option" where
  "checked_add a b = (if uint a + uint b < 2 ^ LENGTH('a) then Some (a + b) else None)"

definition checked_sub :: "'a::len word \<Rightarrow> 'a word \<Rightarrow> 'a word option" where
  "checked_sub a b = (if uint b \<le> uint a then Some (a - b) else None)"

definition checked_mul :: "'a::len word \<Rightarrow> 'a word \<Rightarrow> 'a word option" where
  "checked_mul a b = (if uint a * uint b < 2 ^ LENGTH('a) then Some (a * b) else None)"

definition saturating_add :: "'a::len word \<Rightarrow> 'a word \<Rightarrow> 'a word" where
  "saturating_add a b = (if uint a + uint b < 2 ^ LENGTH('a) then a + b else - 1)"

definition saturating_sub :: "'a::len word \<Rightarrow> 'a word \<Rightarrow> 'a word" where
  "saturating_sub a b = (if b \<le> a then a - b else 0)"

definition saturating_mul :: "'a::len word \<Rightarrow> 'a word \<Rightarrow> 'a word" where
  "saturating_mul a b = (if uint a * uint b < 2 ^ LENGTH('a) then a * b else - 1)"

definition abs_diff :: "'a::len word \<Rightarrow> 'a word \<Rightarrow> 'a word" where
  "abs_diff a b = (if a < b then b - a else a - b)"

text \<open>\<open>div_ceil\<close>: the quotient, one more when there is a remainder.\<close>

definition div_ceil :: "'a::len word \<Rightarrow> 'a word \<Rightarrow> 'a word" where
  "div_ceil a b = (if a mod b = 0 then a div b else a div b + 1)"

text \<open>Signed readings: \<open>is_negative\<close>, \<open>unsigned_abs\<close>, and the checked signed sum and difference.\<close>

definition is_neg :: "'a::len word \<Rightarrow> bool" where
  "is_neg a \<longleftrightarrow> sint a < 0"

definition unsigned_abs :: "'a::len word \<Rightarrow> 'a word" where
  "unsigned_abs a = (if sint a < 0 then - a else a)"

definition in_signed :: "nat \<Rightarrow> int \<Rightarrow> bool" where
  "in_signed n x \<longleftrightarrow> - (2 ^ (n - 1)) \<le> x \<and> x < 2 ^ (n - 1)"

definition checked_add_s :: "'a::len word \<Rightarrow> 'a word \<Rightarrow> 'a word option" where
  "checked_add_s a b = (if in_signed LENGTH('a) (sint a + sint b) then Some (a + b) else None)"

definition checked_sub_s :: "'a::len word \<Rightarrow> 'a word \<Rightarrow> 'a word option" where
  "checked_sub_s a b = (if in_signed LENGTH('a) (sint a - sint b) then Some (a - b) else None)"

definition checked_neg_s :: "'a::len word \<Rightarrow> 'a word option" where
  "checked_neg_s a = (if in_signed LENGTH('a) (- sint a) then Some (- a) else None)"

text \<open>\<open>try_from\<close> between widths: the value is kept or the conversion fails.\<close>

definition narrow :: "'a::len word \<Rightarrow> 'b::len word option" where
  "narrow a = (if uint a < 2 ^ LENGTH('b) then Some (ucast a) else None)"

definition narrow_s :: "'a::len word \<Rightarrow> 'b::len word option" where
  "narrow_s a = (if in_signed LENGTH('b) (sint a) then Some (scast a) else None)"

text \<open>An unsigned value as a signed one of the same or a smaller width.\<close>

definition narrow_us :: "'a::len word \<Rightarrow> 'b::len word option" where
  "narrow_us a = (if uint a < 2 ^ (LENGTH('b) - 1) then Some (ucast a) else None)"

text \<open>A signed value as an unsigned one: refused when negative.\<close>

definition narrow_su :: "'a::len word \<Rightarrow> 'b::len word option" where
  "narrow_su a = (if 0 \<le> sint a \<and> sint a < 2 ^ LENGTH('b) then Some (scast a) else None)"

definition wrap_i32 :: "int \<Rightarrow> int" where
  "wrap_i32 x = (x + 2 ^ 31) mod 2 ^ 32 - 2 ^ 31"

lemma wrap_i32_id [simp]: "- (2 ^ 31) \<le> x \<Longrightarrow> x < 2 ^ 31 \<Longrightarrow> wrap_i32 x = x"
  by (simp add: wrap_i32_def)

subsection \<open>Words read as integers\<close>

text \<open>
  Each lemma gives the integer value of an operation under the bound that keeps it from wrapping;
  \<open>cdiv\<close> is division rounded up, the value \<open>div_ceil\<close> computes.
\<close>

lemma uint_below: "uint (a :: 'a::len word) < 2 ^ LENGTH('a)" by (fact uint_lt2p)

lemma uint_add_exact [word_to_int]:
  fixes a b :: "'a::len word"
  assumes "uint a + uint b < 2 ^ LENGTH('a)"
  shows "uint (a + b) = uint a + uint b"
  using assms by (simp add: uint_word_ariths)

lemma uint_sub_exact [word_to_int]:
  fixes a b :: "'a::len word"
  assumes "uint b \<le> uint a"
  shows "uint (a - b) = uint a - uint b"
proof -
  have "uint a - uint b < 2 ^ LENGTH('a)" using uint_below[of a] uint_ge_0[of b] by linarith
  then show ?thesis using assms by (simp add: uint_word_ariths)
qed

lemma uint_mult_exact [word_to_int]:
  fixes a b :: "'a::len word"
  assumes "uint a * uint b < 2 ^ LENGTH('a)"
  shows "uint (a * b) = uint a * uint b"
  using assms by (simp add: uint_word_ariths)

lemma uint_ucast_up [word_to_int]:
  fixes a :: "'a::len word"
  assumes "LENGTH('a) \<le> LENGTH('b::len)"
  shows "uint (ucast a :: 'b word) = uint a"
proof -
  have "uint a < 2 ^ LENGTH('b)"
    using uint_below[of a] assms power_increasing[of "LENGTH('a)" "LENGTH('b)" "2::int"] by linarith
  then show ?thesis by (simp add: unsigned_ucast_eq take_bit_int_eq_self)
qed

lemma uint_ucast_exact [word_to_int]:
  fixes a :: "'a::len word"
  assumes "uint a < 2 ^ LENGTH('b::len)"
  shows "uint (ucast a :: 'b word) = uint a"
  using assms by (simp add: unsigned_ucast_eq take_bit_int_eq_self)

lemma word_eq_uintI: "uint a = uint b \<Longrightarrow> a = b" by (simp add: word_uint_eq_iff)

definition cdiv :: "int \<Rightarrow> int \<Rightarrow> int" where
  "cdiv a b = (if a mod b = 0 then a div b else a div b + 1)"

lemma cdiv_le_iff:
  assumes "0 < b" shows "cdiv a b \<le> q \<longleftrightarrow> a \<le> q * b"
proof -
  have eq: "a = (a div b) * b + a mod b" by simp
  have r: "0 \<le> a mod b" "a mod b < b" using assms by simp_all
  show ?thesis
  proof (cases "a mod b = 0")
    case True
    then have "a = (a div b) * b" using eq by simp
    then show ?thesis using True assms unfolding cdiv_def
      by (metis mult_le_cancel_right_pos)
  next
    case False
    then have pos: "0 < a mod b" using r by linarith
    have "a div b + 1 \<le> q \<longleftrightarrow> a \<le> q * b"
    proof
      assume "a div b + 1 \<le> q"
      then have "(a div b + 1) * b \<le> q * b" using assms by simp
      then have "(a div b) * b + b \<le> q * b" by (simp add: distrib_right)
      then show "a \<le> q * b" using eq r by linarith
    next
      assume "a \<le> q * b"
      then have "(a div b) * b < q * b" using eq pos by linarith
      then show "a div b + 1 \<le> q" using assms by simp
    qed
    then show ?thesis using False by (simp add: cdiv_def)
  qed
qed

lemma fdiv_ge_iff:
  assumes "0 < b" shows "q \<le> a div b \<longleftrightarrow> q * b \<le> (a::int)"
proof
  assume "q \<le> a div b"
  then have "q * b \<le> a div b * b" using assms by simp
  also have "\<dots> \<le> a" using assms
    by (metis add.commute div_mult_mod_eq le_add_same_cancel2 pos_mod_sign)
  finally show "q * b \<le> a" .
next
  assume "q * b \<le> a"
  then show "q \<le> a div b" using assms zdiv_mono1[of "q * b" a b] by simp
qed

lemma sint_cases:
  fixes a :: "'a::len word"
  shows "sint a = (if uint a < 2 ^ (LENGTH('a) - 1) then uint a else uint a - 2 ^ LENGTH('a))"
proof -
  have L: "Suc (LENGTH('a) - Suc 0) = LENGTH('a)" by simp
  have b: "bit (uint a) (LENGTH('a) - Suc 0) \<longleftrightarrow> \<not> uint a < 2 ^ (LENGTH('a) - 1)"
  proof -
    have d: "0 \<le> uint a div 2 ^ (LENGTH('a) - Suc 0)" by (simp add: pos_imp_zdiv_nonneg_iff)
    have "uint a < 2 * 2 ^ (LENGTH('a) - Suc 0)" using uint_below[of a] L
      by (metis power_Suc)
    then have d2: "uint a div 2 ^ (LENGTH('a) - Suc 0) < 2"
      using fdiv_ge_iff[of "2 ^ (LENGTH('a) - Suc 0)" 2 "uint a"] by simp
    have "bit (uint a) (LENGTH('a) - Suc 0) \<longleftrightarrow> uint a div 2 ^ (LENGTH('a) - Suc 0) = 1"
    proof -
      have "k = 0 \<or> k = 1" if "0 \<le> k" "k < 2" for k :: int using that by auto
      from this[OF d d2] show ?thesis by (auto simp: bit_iff_odd)
    qed
    also have "\<dots> \<longleftrightarrow> \<not> uint a < 2 ^ (LENGTH('a) - 1)"
      using d d2 fdiv_ge_iff[of "2 ^ (LENGTH('a) - Suc 0)" 1 "uint a"] by auto
    finally show ?thesis .
  qed
  show ?thesis
    using b by (simp add: sint_uint signed_take_bit_eq_take_bit_minus L take_bit_int_eq_self)
qed

lemma sint_bounds: "- (2 ^ (LENGTH('a) - 1)) \<le> sint (a::'a::len word)" "sint a < 2 ^ (LENGTH('a) - 1)"
  using sint_ge sint_lt by blast+

lemma in_signed_sint [simp]: "in_signed LENGTH('a) (sint (a::'a::len word))"
  using sint_bounds[of a] by (simp add: in_signed_def)

lemma sint_nonneg_iff: "0 \<le> sint (a::'a::len word) \<longleftrightarrow> uint a < 2 ^ (LENGTH('a) - 1)"
proof (cases "uint a < 2 ^ (LENGTH('a) - 1)")
  case False
  then have "sint a = uint a - 2 ^ LENGTH('a)" by (simp add: sint_cases)
  then have "sint a < 0" using uint_below[of a] by linarith
  then show ?thesis using False by linarith
qed (simp add: sint_cases)

lemma sint_eq_uintI: "uint (a::'a::len word) < 2 ^ (LENGTH('a) - 1) \<Longrightarrow> sint a = uint a"
  by (simp add: sint_cases)

lemma sint_exactI:
  fixes c :: "'a::len word"
  assumes "in_signed LENGTH('a) x" "uint c mod 2 ^ LENGTH('a) = x mod 2 ^ LENGTH('a)"
  shows "sint c = x"
proof -
  let ?N = "2 ^ LENGTH('a) :: int" and ?H = "2 ^ (LENGTH('a) - 1) :: int"
  have N: "?N = 2 * ?H" by (metis len_gt_0 power_Suc Suc_diff_1)
  have u: "uint c = x mod ?N" using assms(2) by simp
  show ?thesis
  proof (cases "0 \<le> x")
    case True
    then have "x mod ?N = x" using assms(1) N by (simp add: in_signed_def)
    then show ?thesis using u assms(1) by (simp add: sint_cases in_signed_def)
  next
    case False
    have "(x + ?N) mod ?N = x + ?N" using False assms(1) N
      by (intro mod_pos_pos_trivial) (auto simp: in_signed_def)
    then have "uint c = x + ?N" using u by simp
    then show ?thesis using False assms(1) N by (simp add: sint_cases in_signed_def)
  qed
qed

lemma sint_mod: "sint (a::'a::len word) mod 2 ^ LENGTH('a) = uint a"
  by (simp add: sint_cases)

lemma sint_add_exact:
  fixes a b :: "'a::len word"
  assumes "in_signed LENGTH('a) (sint a + sint b)"
  shows "sint (a + b) = sint a + sint b"
  by (rule sint_exactI[OF assms]) (simp add: uint_word_ariths, metis mod_add_eq sint_mod)

lemma sint_sub_exact:
  fixes a b :: "'a::len word"
  assumes "in_signed LENGTH('a) (sint a - sint b)"
  shows "sint (a - b) = sint a - sint b"
  by (rule sint_exactI[OF assms]) (simp add: uint_word_ariths, metis mod_diff_eq sint_mod)

lemma sint_neg_exact:
  fixes a :: "'a::len word"
  assumes "in_signed LENGTH('a) (- sint a)"
  shows "sint (- a) = - sint a"
  by (rule sint_exactI[OF assms]) (simp add: uint_word_ariths, metis mod_minus_eq sint_mod)

lemma uint_unsigned_abs: "uint (unsigned_abs (a::'a::len word)) = \<bar>sint a\<bar>"
proof (cases "sint a < 0")
  case True
  then have "sint a = uint a - 2 ^ LENGTH('a)" by (auto simp: sint_cases split: if_splits)
  moreover have "0 < uint a" using True by (auto simp: sint_cases split: if_splits) (metis uint_ge_0 le_less zero_less_power zero_less_numeral)
  ultimately have "- uint a mod 2 ^ LENGTH('a) = - sint a"
    by (simp add: zmod_zminus1_eq_if)
  then show ?thesis using True by (simp add: unsigned_abs_def uint_word_ariths)
next
  case False
  then show ?thesis using sint_mod[of a] by (auto simp: unsigned_abs_def sint_cases split: if_splits)
qed

lemma checked_add_Some [word_to_int]:
  "checked_add a b = Some c \<longleftrightarrow> uint a + uint b = uint c"
  using uint_below[of c] by (auto simp: checked_add_def uint_add_exact intro!: word_eq_uintI)

lemma checked_sub_Some [word_to_int]:
  "checked_sub a b = Some c \<longleftrightarrow> uint a - uint b = uint c"
  by (auto simp: checked_sub_def uint_sub_exact intro!: word_eq_uintI)
    (use uint_ge_0[of c] in linarith)

lemma checked_mul_Some [word_to_int]:
  "checked_mul a b = Some c \<longleftrightarrow> uint a * uint b = uint c"
  using uint_below[of c] by (auto simp: checked_mul_def uint_mult_exact intro!: word_eq_uintI)

lemma sint_inject [simp]: "sint a = sint b \<longleftrightarrow> a = b" by (metis sint_mod word_eq_uintI)

lemma checked_add_s_Some [word_to_int]:
  "checked_add_s a b = Some c \<longleftrightarrow> sint a + sint b = sint c"
  by (auto simp: checked_add_s_def sint_add_exact)
    (metis sint_add_exact in_signed_sint sint_inject)+

lemma checked_sub_s_Some [word_to_int]:
  "checked_sub_s a b = Some c \<longleftrightarrow> sint a - sint b = sint c"
  by (auto simp: checked_sub_s_def sint_sub_exact)
    (metis sint_sub_exact in_signed_sint sint_inject)+

lemma checked_neg_s_Some [word_to_int]:
  "checked_neg_s a = Some c \<longleftrightarrow> - sint a = sint c"
  by (auto simp: checked_neg_s_def sint_neg_exact)
    (metis sint_neg_exact in_signed_sint sint_inject)+

lemma narrow_Some [word_to_int]:
  "narrow (a::'a::len word) = Some (b::'b::len word) \<longleftrightarrow> uint a = uint b"
  using uint_below[of b] by (auto simp: narrow_def uint_ucast_exact intro!: word_eq_uintI)

lemma uint_div_ceil [word_to_int]:
  assumes "uint b \<noteq> 0"
  shows "uint (div_ceil a b) = cdiv (uint a) (uint b)"
proof -
  have b: "0 < uint b" using assms uint_ge_0[of b] by linarith
  show ?thesis
  proof (cases "a mod b = 0")
    case True
    then have "uint a mod uint b = 0" by (metis uint_mod_distrib unsigned_0)
    then show ?thesis using True by (simp add: div_ceil_def cdiv_def uint_div_distrib)
  next
    case False
    then have m: "uint a mod uint b \<noteq> 0" by (metis uint_mod_distrib unsigned_0 word_eq_uintI)
    have "cdiv (uint a) (uint b) \<le> uint a"
      using b uint_ge_0[of a] by (simp add: cdiv_le_iff[OF b] mult_le_cancel_left1) 
    then have "uint (a div b) + uint (1::'a word) < 2 ^ LENGTH('a)"
      using m le_less_trans[OF _ uint_below[of a]] by (simp add: cdiv_def uint_div_distrib)
    from uint_add_exact[OF this] show ?thesis using False m by (simp add: div_ceil_def cdiv_def uint_div_distrib)
  qed
qed

lemma sint_scast_exact [word_to_int]:
  fixes a :: "'a::len word"
  assumes "in_signed LENGTH('b::len) (sint a)"
  shows "sint (scast a :: 'b word) = sint a"
  using assms by (simp add: signed_scast_eq signed_take_bit_int_eq_self in_signed_def)

lemma sint_scast_up [word_to_int]:
  fixes a :: "'a::len word"
  assumes "LENGTH('a) \<le> LENGTH('b::len)"
  shows "sint (scast a :: 'b word) = sint a"
proof (rule sint_scast_exact)
  have "(2::int) ^ (LENGTH('a) - 1) \<le> 2 ^ (LENGTH('b) - 1)" using assms by (intro power_increasing) auto
  then show "in_signed LENGTH('b) (sint a)" using sint_bounds[of a] unfolding in_signed_def by linarith
qed

lemma narrow_s_Some [word_to_int]:
  "narrow_s (a::'a::len word) = Some (b::'b::len word) \<longleftrightarrow> sint a = sint b"
  by (auto simp: narrow_s_def sint_scast_exact) (metis sint_scast_exact in_signed_sint sint_inject)+

lemma sint_ucast_small:
  fixes a :: "'a::len word"
  assumes "uint a < 2 ^ (LENGTH('b::len) - 1)"
  shows "sint (ucast a :: 'b word) = uint a"
proof -
  have "uint a < 2 ^ LENGTH('b)" using assms by (rule less_le_trans) (simp add: power_increasing)
  then have "uint (ucast a :: 'b word) = uint a" by (rule uint_ucast_exact)
  then show ?thesis using assms by (simp add: sint_cases)
qed

lemma narrow_us_Some [word_to_int]:
  "narrow_us (a::'a::len word) = Some (b::'b::len word) \<longleftrightarrow> uint a = sint b"
  using sint_bounds(2)[of b]
  by (auto simp: narrow_us_def sint_ucast_small simp flip: sint_inject)

lemma sint_word_of_int_of_uint:
  fixes a :: "'a::len word" and b :: "'b::len word"
  assumes "0 \<le> sint a" "sint a < 2 ^ LENGTH('b)"
  shows "uint (scast a :: 'b word) = sint a"
  using assms by (subst scast_eq) (simp only: uint_word_of_int mod_pos_pos_trivial)

lemma narrow_su_Some [word_to_int]:
  "narrow_su (a::'a::len word) = Some (b::'b::len word) \<longleftrightarrow> sint a = uint b"
  using uint_below[of b] uint_ge_0[of b]
  by (auto simp: narrow_su_def sint_word_of_int_of_uint intro!: word_eq_uintI simp del: uint_ge_0)

end
