(* ===== verification/Fixed_Point.thy ===== *)
theory Fixed_Point
  imports SDK_Prelude "HOL-Library.Signed_Division"
begin

text \<open>
  \<open>src/src/units/fixed_point.rs\<close>: the Solidity-compatible fixed-point primitives every port in
  the crate is built on. \<open>mul_div\<close> and \<open>s_full_mul_div\<close> are proved to be exact rational
  arithmetic with one rounding (\<open>rdiv\<close>, \<open>srdiv\<close>), with the exact conditions under which they
  fail; the rest of the development reasons through those two characterisations only.
\<close>

subsection \<open>The code\<close>

definition BIGINT_1E6 :: u256 where "BIGINT_1E6 = 1000000"

definition Q96 :: u256 where "Q96 = 2 ^ 96"

definition WAD :: u256 where "WAD = 1000000000000000000"

datatype rounding = TowardZero | Up

definition u512_to_u256 :: "u512 \<Rightarrow> u256 result" where
  "u512_to_u256 v = (if ucast (- 1 :: u256) < v then Inl Overflow else Inr (ucast v))"

definition widening_mul :: "u256 \<Rightarrow> u256 \<Rightarrow> u512" where
  "widening_mul a b = ucast a * ucast b"

definition mul_div :: "u256 \<Rightarrow> u256 \<Rightarrow> u256 \<Rightarrow> rounding \<Rightarrow> u256 result" where
  "mul_div a b d r =
     (if d = 0 then Inl Overflow
      else let product = widening_mul a b; divisor = ucast d :: u512;
               q = (case r of Up \<Rightarrow> div_ceil product divisor | TowardZero \<Rightarrow> product div divisor)
           in u512_to_u256 q)"

definition to_i256 :: "u256 \<Rightarrow> i256 result" where
  "to_i256 v = ok_or Overflow (narrow_us v)"

definition s_full_mul_div :: "i256 \<Rightarrow> i256 \<Rightarrow> u256 \<Rightarrow> rounding \<Rightarrow> i256 result" where
  "s_full_mul_div a b d r =
     (let negative = (is_neg a \<noteq> is_neg b);
          magnitude_rounding = (if r = Up \<and> \<not> negative then Up else TowardZero)
      in rbind (mul_div (unsigned_abs a) (unsigned_abs b) d magnitude_rounding) (\<lambda>magnitude.
         rbind (to_i256 magnitude) (\<lambda>magnitude.
         Inr (if negative then - magnitude else magnitude))))"

definition add_i :: "i256 \<Rightarrow> i256 \<Rightarrow> i256 result" where
  "add_i a b = ok_or Overflow (checked_add_s a b)"

definition sub_i :: "i256 \<Rightarrow> i256 \<Rightarrow> i256 result" where
  "sub_i a b = ok_or Overflow (checked_sub_s a b)"

definition add_u :: "u256 \<Rightarrow> u256 \<Rightarrow> u256 result" where
  "add_u a b = ok_or Overflow (checked_add a b)"

definition sub_u :: "u256 \<Rightarrow> u256 \<Rightarrow> u256 result" where
  "sub_u a b = ok_or Overflow (checked_sub a b)"

text \<open>
  Solady's \<open>expWad\<close>: the signed words wrap, \<open>asr\<close> is the arithmetic shift, division truncates.
  The two Horner chains \<open>p\<close> and \<open>q\<close> are bound in the order the code assigns them.
\<close>

definition EXP_SCALE :: u256 where
  "EXP_SCALE = 3822833074963236453042738258902158003155416615667"

definition asr96 :: "i256 \<Rightarrow> i256" where
  "asr96 x = signed_drop_bit 96 x"

definition wrapping_div :: "i256 \<Rightarrow> i256 \<Rightarrow> i256" where
  "wrapping_div a b = word_of_int (sint a sdiv sint b)"

definition exp_wad :: "i256 \<Rightarrow> u256 result" where
  "exp_wad x0 =
     (if sint x0 \<le> - 41446531673892822313 then Inr 0
      else if 135305999368893231589 \<le> sint x0 then Inl Overflow
      else
        let x1 = wrapping_div (push_bit 78 x0) (5 ^ 18);
            log2 = 54916777467707473351141471128;
            k = asr96 (wrapping_div (push_bit 96 x1) log2 + push_bit 95 1);
            x = x1 - k * log2;
            y0 = x + 1346386616545796478920950773328;
            y = asr96 (y0 * x) + 57155421227552351082224309758442;
            p0 = y + x - 94201549194550492254356042504812;
            p1 = asr96 (p0 * y) + 28719021644029726153956944680412240;
            p = p1 * x + push_bit 96 4385272521454847904659076985693276;
            q0 = x - 2855989394907223263936484059900;
            q1 = asr96 (q0 * x) + 50020603652535783019961831881945;
            q2 = asr96 (q1 * x) - 533845033583426703283633433725380;
            q3 = asr96 (q2 * x) + 3604857256930695427073651918091429;
            q4 = asr96 (q3 * x) - 14423608567350463180887372962807573;
            q = asr96 (q4 * x) + 26449188498355588339934803723976023;
            r = wrapping_div p q
        in if is_neg r then Inl Overflow
           else if \<not> in_signed 128 (sint k) then Inl Overflow
           else if 195 < sint k then Inl Overflow
           else Inr (drop_bit (nat (195 - sint k)) (r * EXP_SCALE)))"

subsection \<open>What they compute\<close>

definition rdiv :: "rounding \<Rightarrow> int \<Rightarrow> int \<Rightarrow> int" where
  "rdiv r a b = (case r of Up \<Rightarrow> cdiv a b | TowardZero \<Rightarrow> a div b)"

definition srdiv :: "rounding \<Rightarrow> int \<Rightarrow> int \<Rightarrow> int" where
  "srdiv r a b = (if a < 0 then - ((- a) div b) else rdiv r a b)"

lemma rdiv_simps [simp]:
  "rdiv Up a b = cdiv a b"
  "rdiv TowardZero a b = a div b"
  by (simp_all add: rdiv_def)

lemma uint_BIGINT_1E6 [simp]: "uint BIGINT_1E6 = 1000000"
  by (simp add: BIGINT_1E6_def)

lemma uint_Q96 [simp]: "uint Q96 = 2 ^ 96"
  by (simp add: Q96_def)

lemma uint_WAD [simp]: "uint WAD = 1000000000000000000"
  by (simp add: WAD_def)

lemma constants_nonzero [simp]: "Q96 \<noteq> 0" "WAD \<noteq> 0" "BIGINT_1E6 \<noteq> 0"
  by (simp_all add: Q96_def WAD_def BIGINT_1E6_def)

lemma uint_max_u256 [simp]: "uint (- 1 :: u256) = 2 ^ 256 - 1"
  by (simp add: unsigned_minus_1_eq_mask mask_eq_exp_minus_1)

lemma u512_to_u256_Inr [result_simps]: "u512_to_u256 v = Inr q \<longleftrightarrow> uint v = uint q"
  using uint_below[of q]
  by (auto simp: u512_to_u256_def word_less_def uint_ucast_up uint_ucast_exact intro!: word_eq_uintI)

lemma u512_to_u256_Inl [result_simps]: "u512_to_u256 v = Inl e \<longleftrightarrow> e = Overflow \<and> 2 ^ 256 \<le> uint v"
  by (auto simp: u512_to_u256_def word_less_def uint_ucast_up)

lemma uint_zero_iff: "uint (d :: 'a::len word) = 0 \<longleftrightarrow> d = 0"
  by (metis word_eq_uintI unsigned_0)

lemma uint_pos_iff: "0 < uint (d :: 'a::len word) \<longleftrightarrow> d \<noteq> 0"
  using uint_zero_iff[of d] uint_ge_0[of d] by linarith

lemma uint_ucast_512 [simp]: "uint (ucast (d :: u256) :: u512) = uint d"
  by (rule uint_ucast_up) simp

lemma uint_widening_mul: "uint (widening_mul a b) = uint a * uint b"
proof -
  have "uint a * uint b < 2 ^ 256 * 2 ^ 256"
    using uint_below[of a] uint_below[of b] by (intro mult_strict_mono) auto
  then have "uint a * uint b < 2 ^ 512" by simp
  then show ?thesis unfolding widening_mul_def
    by (subst uint_mult_exact) (simp_all add: uint_ucast_up)
qed

lemma mul_div_quotient:
  fixes d :: u256
  assumes "d \<noteq> 0"
  shows "uint (case r of Up \<Rightarrow> div_ceil (widening_mul a b) (ucast d :: u512)
                | TowardZero \<Rightarrow> widening_mul a b div ucast d) = rdiv r (uint a * uint b) (uint d)"
  using assms by (cases r)
    (simp_all add: uint_widening_mul uint_div_ceil uint_ucast_up uint_zero_iff uint_div_distrib)

lemma mul_div_Inr [result_simps]:
  "mul_div a b d r = Inr q \<longleftrightarrow> d \<noteq> 0 \<and> uint q = rdiv r (uint a * uint b) (uint d)"
  using mul_div_quotient[of d a b r] by (auto simp: mul_div_def Let_def u512_to_u256_Inr)

lemma mul_div_Inl [result_simps]:
  "mul_div a b d r = Inl e \<longleftrightarrow>
     e = Overflow \<and> (d = 0 \<or> 2 ^ 256 \<le> rdiv r (uint a * uint b) (uint d))"
  using mul_div_quotient[of d a b r] by (auto simp: mul_div_def Let_def u512_to_u256_Inl)

lemma to_i256_Inr [result_simps]: "to_i256 v = Inr w \<longleftrightarrow> uint v < 2 ^ 255 \<and> w = v"
  by (auto simp: to_i256_def narrow_us_def)

lemma to_i256_Inl [result_simps]: "to_i256 v = Inl e \<longleftrightarrow> 2 ^ 255 \<le> uint v \<and> e = Overflow"
  by (auto simp: to_i256_def narrow_us_def)

lemma add_i_Inr [result_simps]: "add_i a b = Inr c \<longleftrightarrow> sint c = sint a + sint b"
  by (auto simp: add_i_def result_simps checked_add_s_Some)

lemma sub_i_Inr [result_simps]: "sub_i a b = Inr c \<longleftrightarrow> sint c = sint a - sint b"
  by (auto simp: sub_i_def result_simps checked_sub_s_Some)

lemma add_u_Inr [result_simps]: "add_u a b = Inr c \<longleftrightarrow> uint c = uint a + uint b"
  by (auto simp: add_u_def result_simps checked_add_Some)

lemma sub_u_Inr [result_simps]: "sub_u a b = Inr c \<longleftrightarrow> uint c = uint a - uint b"
  by (auto simp: sub_u_def result_simps checked_sub_Some)

lemma sint_mult_sign:
  "is_neg a \<noteq> is_neg b \<Longrightarrow> sint a * sint b \<le> 0"
  "is_neg a = is_neg b \<Longrightarrow> 0 \<le> sint a * sint b"
  by (auto simp: is_neg_def mult_le_0_iff zero_le_mult_iff)

lemma abs_sint_mult: "\<bar>sint a\<bar> * \<bar>sint b\<bar> = \<bar>sint a * sint b\<bar>"
  by (simp add: abs_mult)


lemma srdiv_alt: "srdiv r a b = (if a < 0 then - (\<bar>a\<bar> div b) else rdiv r \<bar>a\<bar> b)"
  by (simp add: srdiv_def)

lemma rdiv_zero [simp]: "rdiv r 0 b = 0"
  by (cases r) (simp_all add: cdiv_def)

lemma s_full_mul_div_Inr [result_simps]:
  "s_full_mul_div a b d r = Inr q \<longleftrightarrow>
     d \<noteq> 0 \<and> sint q = srdiv r (sint a * sint b) (uint d)
     \<and> \<bar>srdiv r (sint a * sint b) (uint d)\<bar> < 2 ^ 255"
proof -
  define m where "m = (if r = Up \<and> is_neg a = is_neg b then Up else TowardZero)"
  define v where "v = rdiv m \<bar>sint a * sint b\<bar> (uint d)"
  have eq: "srdiv r (sint a * sint b) (uint d) = (if is_neg a = is_neg b then v else - v)"
  proof (cases "is_neg a = is_neg b")
    case True
    then have "m = r" by (cases r) (simp_all add: m_def)
    then show ?thesis using sint_mult_sign(2)[OF True] True by (simp add: v_def srdiv_alt)
  next
    case False
    then have "m = TowardZero" by (simp add: m_def)
    then show ?thesis using sint_mult_sign(1)[OF False] False
      by (cases "sint a * sint b = 0") (auto simp: v_def srdiv_alt)
  qed
  have code: "s_full_mul_div a b d r = Inr q \<longleftrightarrow>
      (\<exists>w. d \<noteq> 0 \<and> uint w = v \<and> uint w < 2 ^ 255 \<and> q = (if is_neg a = is_neg b then w else - w))"
    by (auto simp: s_full_mul_div_def Let_def result_simps m_def v_def uint_unsigned_abs abs_sint_mult)
  have neg: "sint (- w) = - uint w" if "uint w < 2 ^ 255" for w :: i256
    using that by (subst sint_neg_exact)
      (simp_all add: sint_cases in_signed_def, use uint_ge_0[of w] in linarith)
  have pos: "sint w = uint w" if "uint w < 2 ^ 255" for w :: i256
    using that by (simp add: sint_cases)
  have vpos: "0 \<le> v" if "d \<noteq> 0"
    using that uint_pos_iff[of d] unfolding v_def
    by (cases m) (auto simp: cdiv_def pos_imp_zdiv_nonneg_iff intro: add_nonneg_nonneg)
  show ?thesis
  proof
    assume "s_full_mul_div a b d r = Inr q"
    then obtain w where w: "d \<noteq> 0" "uint w = v" "uint w < 2 ^ 255"
      "q = (if is_neg a = is_neg b then w else - w)" using code by blast
    then show "d \<noteq> 0 \<and> sint q = srdiv r (sint a * sint b) (uint d)
        \<and> \<bar>srdiv r (sint a * sint b) (uint d)\<bar> < 2 ^ 255"
      using vpos by (auto simp: eq neg pos)
  next
    assume rhs: "d \<noteq> 0 \<and> sint q = srdiv r (sint a * sint b) (uint d)
        \<and> \<bar>srdiv r (sint a * sint b) (uint d)\<bar> < 2 ^ 255"
    define w :: u256 where "w = word_of_int v"
    have v: "0 \<le> v" "v < 2 ^ 255" using rhs vpos by (auto simp: eq split: if_splits)
    then have w: "uint w = v" by (simp add: w_def uint_word_of_int)
    have "sint q = sint (if is_neg a = is_neg b then w else - w)"
      using rhs v w by (simp add: eq neg pos)
    then have "q = (if is_neg a = is_neg b then w else - w)" by simp
    then show "s_full_mul_div a b d r = Inr q" using code rhs v w by auto
  qed
qed

text \<open>The two signed roundings, in the order of the rationals: never above the quotient rounded up.\<close>

lemma srdiv_TowardZero_bounds:
  assumes "0 < d"
  shows "\<bar>srdiv TowardZero x d\<bar> * d \<le> \<bar>x\<bar>" "\<bar>x\<bar> < (\<bar>srdiv TowardZero x d\<bar> + 1) * d"
proof -
  have "\<bar>srdiv TowardZero x d\<bar> = \<bar>x\<bar> div d"
    using assms by (simp add: srdiv_alt pos_imp_zdiv_nonneg_iff)
  then show "\<bar>srdiv TowardZero x d\<bar> * d \<le> \<bar>x\<bar>" "\<bar>x\<bar> < (\<bar>srdiv TowardZero x d\<bar> + 1) * d"
    using fdiv_ge_iff[OF assms, of "\<bar>x\<bar> div d" "\<bar>x\<bar>"] fdiv_ge_iff[OF assms, of "\<bar>x\<bar> div d + 1" "\<bar>x\<bar>"]
    by auto
qed

subsection \<open>Properties\<close>

text \<open>C23: \<open>mul_div\<close> is exact: it returns the rational \<open>a * b / d\<close> with one rounding, up or toward
  zero, whatever the width of the product, and fails exactly on a zero divisor or a quotient past
  256 bits.\<close>

theorem mul_div_exact:
  "mul_div a b d r = (if d = 0 \<or> 2 ^ 256 \<le> rdiv r (uint a * uint b) (uint d) then Inl Overflow
     else Inr (word_of_int (rdiv r (uint a * uint b) (uint d))))"
proof (cases "mul_div a b d r")
  case (Inl e)
  then show ?thesis by (auto simp: mul_div_Inl)
next
  case (Inr q)
  then have q: "d \<noteq> 0" "uint q = rdiv r (uint a * uint b) (uint d)" by (simp_all add: mul_div_Inr)
  moreover have "q = word_of_int (rdiv r (uint a * uint b) (uint d))" by (simp flip: q(2))
  ultimately show ?thesis using Inr uint_below[of q] by simp
qed

text \<open>\<open>s_full_mul_div\<close> is the signed twin: the magnitude rounds toward zero, except that a
  non-negative product asked to round up does, and the result is refused when it leaves 255 bits.\<close>

theorem s_full_mul_div_exact:
  "s_full_mul_div a b d r = Inr q \<longleftrightarrow>
     d \<noteq> 0 \<and> sint q = srdiv r (sint a * sint b) (uint d)
     \<and> \<bar>srdiv r (sint a * sint b) (uint d)\<bar> < 2 ^ 255"
  by (rule s_full_mul_div_Inr)

end
