(* ===== verification/Prices.thy ===== *)
theory Prices
  imports Fixed_Point
begin

text \<open>
  \<open>src/src/units/price.rs\<close>: a price and the square root of a price, both Q96 words. They are
  two types over the same word, as in the code, so that one cannot stand where the other belongs;
  \<open>squared\<close> is the way across. The order on each is the derived one, the order of the words.
\<close>

datatype price = Price (price_x96: u256)

datatype sqrt_price = SqrtPrice (sqrt_x96: u256)

instantiation price :: linorder
begin

definition less_eq_price :: "price \<Rightarrow> price \<Rightarrow> bool" where
  "less_eq_price a b \<longleftrightarrow> price_x96 a \<le> price_x96 b"

definition less_price :: "price \<Rightarrow> price \<Rightarrow> bool" where
  "less_price a b \<longleftrightarrow> price_x96 a < price_x96 b"

instance
  by standard (auto simp: less_eq_price_def less_price_def intro: price.expand)

end

instantiation sqrt_price :: linorder
begin

definition less_eq_sqrt_price :: "sqrt_price \<Rightarrow> sqrt_price \<Rightarrow> bool" where
  "less_eq_sqrt_price a b \<longleftrightarrow> sqrt_x96 a \<le> sqrt_x96 b"

definition less_sqrt_price :: "sqrt_price \<Rightarrow> sqrt_price \<Rightarrow> bool" where
  "less_sqrt_price a b \<longleftrightarrow> sqrt_x96 a < sqrt_x96 b"

instance
  by standard (auto simp: less_eq_sqrt_price_def less_sqrt_price_def intro: sqrt_price.expand)

end

lemmas price_order = less_eq_price_def less_price_def less_eq_sqrt_price_def less_sqrt_price_def

end
