(* ===== verification/Units.thy ===== *)
theory Units
  imports Prices
begin

text \<open>
  The units of account of \<open>src/src/units\<close>: the two assets and their signed twins
  (\<open>amount.rs\<close>), the pool's liquidity (\<open>liquidity.rs\<close>), the ratios (\<open>rates.rs\<close>), the sides
  (\<open>side.rs\<close>) and the cumulative accumulators (\<open>accumulators.rs\<close>). Each is a datatype over
  the word the code's newtype wraps. The operators a \<open>bounded_count!\<close> or \<open>delta!\<close> expansion gives
  (\<open>+\<close>, \<open>-\<close>, negation) are instances of Isabelle's classes and wrap, as the primitives do in a
  release build.
\<close>

subsection \<open>Counts and deltas\<close>

datatype usdc_atoms = UsdcAtoms (usdc: u128)

datatype perp_atoms = PerpAtoms (perp: u128)

datatype usdc_delta = UsdcDelta (usdc_d: i128)

datatype perp_delta = PerpDelta (perp_d: i128)

datatype l_units = LUnits (l_units: u128)

datatype l_delta = LDelta (l_delta: i128)

definition usdc_atoms_add :: "usdc_atoms \<Rightarrow> usdc_atoms \<Rightarrow> usdc_atoms" where
  "usdc_atoms_add a b = UsdcAtoms (usdc a + usdc b)"

instantiation usdc_atoms :: "{zero, plus, linorder}"
begin

definition zero_usdc_atoms :: usdc_atoms where
  "0 = UsdcAtoms 0"

definition plus_usdc_atoms :: "usdc_atoms \<Rightarrow> usdc_atoms \<Rightarrow> usdc_atoms" where
  "a + b = usdc_atoms_add a b"

definition less_eq_usdc_atoms :: "usdc_atoms \<Rightarrow> usdc_atoms \<Rightarrow> bool" where
  "less_eq_usdc_atoms a b \<longleftrightarrow> usdc a \<le> usdc b"

definition less_usdc_atoms :: "usdc_atoms \<Rightarrow> usdc_atoms \<Rightarrow> bool" where
  "less_usdc_atoms a b \<longleftrightarrow> usdc a < usdc b"

instance
  by standard (auto simp: less_eq_usdc_atoms_def less_usdc_atoms_def intro: usdc_atoms.expand)

end

definition perp_atoms_add :: "perp_atoms \<Rightarrow> perp_atoms \<Rightarrow> perp_atoms" where
  "perp_atoms_add a b = PerpAtoms (perp a + perp b)"

instantiation perp_atoms :: "{zero, plus, linorder}"
begin

definition zero_perp_atoms :: perp_atoms where
  "0 = PerpAtoms 0"

definition plus_perp_atoms :: "perp_atoms \<Rightarrow> perp_atoms \<Rightarrow> perp_atoms" where
  "a + b = perp_atoms_add a b"

definition less_eq_perp_atoms :: "perp_atoms \<Rightarrow> perp_atoms \<Rightarrow> bool" where
  "less_eq_perp_atoms a b \<longleftrightarrow> perp a \<le> perp b"

definition less_perp_atoms :: "perp_atoms \<Rightarrow> perp_atoms \<Rightarrow> bool" where
  "less_perp_atoms a b \<longleftrightarrow> perp a < perp b"

instance
  by standard (auto simp: less_eq_perp_atoms_def less_perp_atoms_def intro: perp_atoms.expand)

end

definition usdc_delta_add :: "usdc_delta \<Rightarrow> usdc_delta \<Rightarrow> usdc_delta" where
  "usdc_delta_add a b = UsdcDelta (usdc_d a + usdc_d b)"

definition usdc_delta_sub :: "usdc_delta \<Rightarrow> usdc_delta \<Rightarrow> usdc_delta" where
  "usdc_delta_sub a b = UsdcDelta (usdc_d a - usdc_d b)"

definition usdc_delta_neg :: "usdc_delta \<Rightarrow> usdc_delta" where
  "usdc_delta_neg a = UsdcDelta (- usdc_d a)"

instantiation usdc_delta :: "{zero, plus, minus, uminus}"
begin

definition zero_usdc_delta :: usdc_delta where
  "0 = UsdcDelta 0"

definition plus_usdc_delta :: "usdc_delta \<Rightarrow> usdc_delta \<Rightarrow> usdc_delta" where
  "a + b = usdc_delta_add a b"

definition minus_usdc_delta :: "usdc_delta \<Rightarrow> usdc_delta \<Rightarrow> usdc_delta" where
  "a - b = usdc_delta_sub a b"

definition uminus_usdc_delta :: "usdc_delta \<Rightarrow> usdc_delta" where
  "- a = usdc_delta_neg a"

instance ..

end

definition perp_delta_add :: "perp_delta \<Rightarrow> perp_delta \<Rightarrow> perp_delta" where
  "perp_delta_add a b = PerpDelta (perp_d a + perp_d b)"

definition perp_delta_sub :: "perp_delta \<Rightarrow> perp_delta \<Rightarrow> perp_delta" where
  "perp_delta_sub a b = PerpDelta (perp_d a - perp_d b)"

definition perp_delta_neg :: "perp_delta \<Rightarrow> perp_delta" where
  "perp_delta_neg a = PerpDelta (- perp_d a)"

instantiation perp_delta :: "{zero, plus, minus, uminus}"
begin

definition zero_perp_delta :: perp_delta where
  "0 = PerpDelta 0"

definition plus_perp_delta :: "perp_delta \<Rightarrow> perp_delta \<Rightarrow> perp_delta" where
  "a + b = perp_delta_add a b"

definition minus_perp_delta :: "perp_delta \<Rightarrow> perp_delta \<Rightarrow> perp_delta" where
  "a - b = perp_delta_sub a b"

definition uminus_perp_delta :: "perp_delta \<Rightarrow> perp_delta" where
  "- a = perp_delta_neg a"

instance ..

end

declare usdc_atoms_add_def [simp] perp_atoms_add_def [simp] usdc_delta_add_def [simp] usdc_delta_sub_def [simp]
  usdc_delta_neg_def [simp] perp_delta_add_def [simp] perp_delta_sub_def [simp] perp_delta_neg_def [simp]

lemmas unit_ops =
  zero_usdc_atoms_def plus_usdc_atoms_def less_eq_usdc_atoms_def less_usdc_atoms_def
  zero_perp_atoms_def plus_perp_atoms_def less_eq_perp_atoms_def less_perp_atoms_def
  zero_usdc_delta_def plus_usdc_delta_def minus_usdc_delta_def uminus_usdc_delta_def
  zero_perp_delta_def plus_perp_delta_def minus_perp_delta_def uminus_perp_delta_def

lemma unit_selectors [simp]:
  "usdc 0 = 0" "perp 0 = 0" "usdc_d 0 = 0" "perp_d 0 = 0"
  "usdc (a + b) = usdc a + usdc b" "perp (c + d) = perp c + perp d"
  "usdc_d (x + y) = usdc_d x + usdc_d y" "usdc_d (x - y) = usdc_d x - usdc_d y" "usdc_d (- x) = - usdc_d x"
  "perp_d (v + w) = perp_d v + perp_d w" "perp_d (v - w) = perp_d v - perp_d w" "perp_d (- v) = - perp_d v"
  by (simp_all add: unit_ops)

text \<open>\<open>checked_sub\<close> and \<open>saturating_sub\<close> of the \<open>count!\<close> macro, at the types the ports use them.\<close>

definition perp_checked_sub :: "perp_atoms \<Rightarrow> perp_atoms \<Rightarrow> perp_atoms option" where
  "perp_checked_sub a b = map_option PerpAtoms (checked_sub (perp a) (perp b))"

definition perp_saturating_sub :: "perp_atoms \<Rightarrow> perp_atoms \<Rightarrow> perp_atoms" where
  "perp_saturating_sub a b = PerpAtoms (saturating_sub (perp a) (perp b))"

definition usdc_magnitude :: "usdc_delta \<Rightarrow> usdc_atoms" where
  "usdc_magnitude d = UsdcAtoms (unsigned_abs (usdc_d d))"

definition perp_magnitude :: "perp_delta \<Rightarrow> perp_atoms" where
  "perp_magnitude d = PerpAtoms (unsigned_abs (perp_d d))"

text \<open>The widenings reinterpret the word (\<open>as i128\<close>); the narrowings check.\<close>

definition usdc_delta_from :: "usdc_atoms \<Rightarrow> usdc_delta" where
  "usdc_delta_from a = UsdcDelta (usdc a)"

definition perp_delta_from :: "perp_atoms \<Rightarrow> perp_delta" where
  "perp_delta_from a = PerpDelta (perp a)"

definition usdc_atoms_try_from_delta :: "usdc_delta \<Rightarrow> usdc_atoms result" where
  "usdc_atoms_try_from_delta d = ok_or Overflow (map_option UsdcAtoms (narrow_su (usdc_d d)))"

definition atoms_from_u256 :: "u256 \<Rightarrow> u128 result" where
  "atoms_from_u256 a = ok_or Overflow (narrow a)"

definition atoms_from_i256 :: "i256 \<Rightarrow> i128 result" where
  "atoms_from_i256 a = ok_or Overflow (narrow_s a)"

definition usdc_atoms_try_from :: "u256 \<Rightarrow> usdc_atoms result" where
  "usdc_atoms_try_from a = result_map UsdcAtoms (atoms_from_u256 a)"

definition l_units_try_from :: "u256 \<Rightarrow> l_units result" where
  "l_units_try_from a = ok_or Overflow (map_option LUnits (narrow a))"

subsection \<open>Crossing between the assets\<close>

definition perp_value_at :: "perp_atoms \<Rightarrow> price \<Rightarrow> usdc_atoms result" where
  "perp_value_at a p =
     rbind (mul_div (ucast (perp a)) (price_x96 p) Q96 TowardZero) (\<lambda>atoms.
     result_map UsdcAtoms (atoms_from_u256 atoms))"

definition usdc_perp_at :: "usdc_atoms \<Rightarrow> price \<Rightarrow> perp_atoms result" where
  "usdc_perp_at u p =
     (if price_x96 p = 0 then Inl InvalidPrice
      else rbind (mul_div (ucast (usdc u)) Q96 (price_x96 p) TowardZero) (\<lambda>atoms.
           result_map PerpAtoms (atoms_from_u256 atoms)))"

definition usdc_per :: "usdc_atoms \<Rightarrow> perp_atoms \<Rightarrow> price result" where
  "usdc_per u qty =
     (if perp qty = 0 then Inl InvalidPrice
      else result_map Price (mul_div (ucast (usdc u)) Q96 (ucast (perp qty)) TowardZero))"

definition perp_delta_value_at :: "perp_delta \<Rightarrow> price \<Rightarrow> usdc_delta result" where
  "perp_delta_value_at d p =
     rbind (to_i256 (price_x96 p)) (\<lambda>px.
     rbind (s_full_mul_div (scast (perp_d d)) px Q96 TowardZero) (\<lambda>atoms.
     result_map UsdcDelta (atoms_from_i256 atoms)))"

definition usdc_delta_perp_at :: "usdc_delta \<Rightarrow> price \<Rightarrow> perp_delta result" where
  "usdc_delta_perp_at d p =
     rbind (usdc_perp_at (usdc_magnitude d) p) (\<lambda>a.
     let magnitude = perp_delta_from a
     in Inr (if is_neg (usdc_d d) then - magnitude else magnitude))"

definition usdc_delta_per :: "usdc_delta \<Rightarrow> perp_delta \<Rightarrow> price result" where
  "usdc_delta_per d qty = usdc_per (usdc_magnitude d) (perp_magnitude qty)"

subsection \<open>Liquidity: every operation checked\<close>

definition l_checked_add_signed :: "l_units \<Rightarrow> l_delta \<Rightarrow> l_units result" where
  "l_checked_add_signed l d =
     ok_or Overflow (map_option LUnits
       (if is_neg (l_delta d) then checked_sub (l_units l) (unsigned_abs (l_delta d))
        else checked_add (l_units l) (l_delta d)))"

definition l_units_negated :: "l_units \<Rightarrow> l_delta result" where
  "l_units_negated l =
     ok_or Overflow (map_option (\<lambda>x. LDelta (- x)) (narrow_us (l_units l)))"

definition l_delta_negated :: "l_delta \<Rightarrow> l_delta result" where
  "l_delta_negated d = ok_or Overflow (map_option LDelta (checked_neg_s (l_delta d)))"

definition l_delta_checked_add :: "l_delta \<Rightarrow> l_delta \<Rightarrow> l_delta result" where
  "l_delta_checked_add a b = ok_or Overflow (map_option LDelta (checked_add_s (l_delta a) (l_delta b)))"

subsection \<open>Ratios\<close>

datatype ratio = Ratio (ratio_e6: u32)

definition MAX_E6 :: u32 where "MAX_E6 = 2 ^ 24 - 1"

definition ratio_from_e6 :: "u32 \<Rightarrow> ratio result" where
  "ratio_from_e6 e6 = (if e6 \<le> MAX_E6 then Inr (Ratio e6) else Inl (InvalidMarginRatio e6 0 MAX_E6))"

text \<open>\<open>for_leverage\<close> at a factor whose sign and WAD word are given: the reciprocal to the nearest millionth.\<close>

definition ratio_for_leverage :: "bool \<Rightarrow> u256 \<Rightarrow> ratio result" where
  "ratio_for_leverage negative wad =
     (if negative then Inl InvalidLeverage
      else if wad = 0 then Inl InvalidLeverage
      else let e6 = (BIGINT_1E6 * WAD + wad div 2) div wad
           in if e6 = 0 \<or> ucast MAX_E6 < e6 then Inl InvalidLeverage
              else ratio_from_e6 (ucast e6))"

subsection \<open>Sides\<close>

datatype side = Long | Short

definition BOTH :: "side list" where "BOTH = [Long, Short]"

fun opposite :: "side \<Rightarrow> side" where
  "opposite Long = Short"
| "opposite Short = Long"

definition long_if :: "bool \<Rightarrow> side" where
  "long_if p = (if p then Long else Short)"

fun side_sign :: "side \<Rightarrow> i32" where
  "side_sign Long = 1"
| "side_sign Short = - 1"

fun exposure :: "side \<Rightarrow> perp_atoms \<Rightarrow> perp_delta" where
  "exposure Long qty = perp_delta_from qty"
| "exposure Short qty = - perp_delta_from qty"

definition delta_side :: "perp_delta \<Rightarrow> side option" where
  "delta_side d =
     (if 0 < sint (perp_d d) then Some Long else if sint (perp_d d) < 0 then Some Short else None)"

datatype 'a per_side = PerSide (long: 'a) (short: 'a)

definition uniform :: "'a \<Rightarrow> 'a per_side" where
  "uniform v = PerSide v v"

fun on :: "'a per_side \<Rightarrow> side \<Rightarrow> 'a" where
  "on p Long = long p"
| "on p Short = short p"

text \<open>A write through \<open>on_mut\<close>.\<close>

fun set_on :: "side \<Rightarrow> 'a \<Rightarrow> 'a per_side \<Rightarrow> 'a per_side" where
  "set_on Long v p = PerSide v (short p)"
| "set_on Short v p = PerSide (long p) v"

definition zip_sides :: "'a per_side \<Rightarrow> 'b per_side \<Rightarrow> ('a \<times> 'b) per_side" where
  "zip_sides p q = PerSide (long p, long q) (short p, short q)"

definition total :: "'a::plus per_side \<Rightarrow> 'a" where
  "total p = long p + short p"

lemma on_set_on [simp]: "on (set_on s v p) s' = (if s' = s then v else on p s')"
  by (cases s; cases s') simp_all

lemma per_side_eqI: "(\<And>s. on p s = on q s) \<Longrightarrow> p = q"
  by (metis on.simps per_side.expand)

subsection \<open>Accumulators\<close>

datatype funding = Funding (funding_x96: i256)

datatype funding_per_sqrt = FundingPerSqrtPrice (fps_x96: i256)

datatype earnings = Earnings (earnings_x96: u256)

datatype fee_growth = FeeGrowth (fee_x128: u256)

definition funding_since :: "funding \<Rightarrow> funding \<Rightarrow> funding result" where
  "funding_since a checkpoint = result_map Funding (sub_i (funding_x96 a) (funding_x96 checkpoint))"

definition funding_advanced_by :: "funding \<Rightarrow> funding \<Rightarrow> funding result" where
  "funding_advanced_by a growth = result_map Funding (add_i (funding_x96 a) (funding_x96 growth))"

definition per_sqrt_price :: "funding \<Rightarrow> sqrt_price \<Rightarrow> funding_per_sqrt result" where
  "per_sqrt_price a p =
     result_map FundingPerSqrtPrice (s_full_mul_div (funding_x96 a) Q96 (sqrt_x96 p) TowardZero)"

definition fps_since :: "funding_per_sqrt \<Rightarrow> funding_per_sqrt \<Rightarrow> funding_per_sqrt result" where
  "fps_since a checkpoint = result_map FundingPerSqrtPrice (sub_i (fps_x96 a) (fps_x96 checkpoint))"

definition fps_advanced_by :: "funding_per_sqrt \<Rightarrow> funding_per_sqrt \<Rightarrow> funding_per_sqrt result" where
  "fps_advanced_by a growth = result_map FundingPerSqrtPrice (add_i (fps_x96 a) (fps_x96 growth))"

definition earnings_since :: "earnings \<Rightarrow> earnings \<Rightarrow> earnings result" where
  "earnings_since a checkpoint = result_map Earnings (sub_u (earnings_x96 a) (earnings_x96 checkpoint))"

definition earnings_advanced_by :: "earnings \<Rightarrow> earnings \<Rightarrow> earnings result" where
  "earnings_advanced_by a growth = result_map Earnings (add_u (earnings_x96 a) (earnings_x96 growth))"

text \<open>Fee growth is modular: the difference wraps and cannot fail.\<close>

definition fee_since :: "fee_growth \<Rightarrow> fee_growth \<Rightarrow> fee_growth" where
  "fee_since a checkpoint = FeeGrowth (fee_x128 a - fee_x128 checkpoint)"

subsection \<open>What the conversions and crossings compute\<close>

lemma uint_ucast_128_256 [simp]: "uint (ucast (a :: u128) :: u256) = uint a"
  by (rule uint_ucast_up) simp

lemma sint_scast_128_256 [simp]: "sint (scast (a :: i128) :: i256) = sint a"
  by (rule sint_scast_up) simp

lemma ucast_128_256_zero [simp]: "ucast (a :: u128) = (0 :: u256) \<longleftrightarrow> a = 0"
  by (metis uint_ucast_128_256 uint_zero_iff)

lemma atoms_from_u256_Inr [result_simps]: "atoms_from_u256 a = Inr b \<longleftrightarrow> uint a = uint b"
  by (simp add: atoms_from_u256_def result_simps narrow_Some)

lemma atoms_from_i256_Inr [result_simps]: "atoms_from_i256 a = Inr b \<longleftrightarrow> sint a = sint b"
  by (simp add: atoms_from_i256_def result_simps narrow_s_Some)

lemma l_units_try_from_Inr [result_simps]: "l_units_try_from a = Inr l \<longleftrightarrow> uint a = uint (l_units l)"
  by (cases l) (auto simp: l_units_try_from_def result_simps narrow_Some)

lemma usdc_atoms_try_from_Inr [result_simps]: "usdc_atoms_try_from a = Inr u \<longleftrightarrow> uint a = uint (usdc u)"
  by (cases u) (auto simp: usdc_atoms_try_from_def result_simps)

lemma usdc_atoms_try_from_delta_Inr [result_simps]:
  "usdc_atoms_try_from_delta d = Inr u \<longleftrightarrow> sint (usdc_d d) = uint (usdc u)"
  by (cases u) (auto simp: usdc_atoms_try_from_delta_def result_simps narrow_su_Some)

lemma word_with_value: "0 \<le> x \<Longrightarrow> x < 2 ^ LENGTH('a) \<Longrightarrow> \<exists>w :: 'a::len word. uint w = x"
  by (rule exI[of _ "word_of_int x"]) (simp add: uint_word_of_int)

lemma narrowed_through_u256:
  "(\<exists>w :: u256. uint w = n \<and> (\<exists>x :: u128. uint w = uint x \<and> P x)) \<longleftrightarrow> (\<exists>x. uint x = n \<and> P x)"
  "(\<exists>w :: u256. uint w = n \<and> uint w = uint (x :: u128)) \<longleftrightarrow> uint x = n"
  by (metis uint_ucast_128_256)+

lemma perp_value_at_Inr [result_simps]:
  "perp_value_at a p = Inr v \<longleftrightarrow> uint (usdc v) = uint (perp a) * uint (price_x96 p) div 2 ^ 96"
  by (cases v) (simp add: perp_value_at_def result_simps narrowed_through_u256)

lemma usdc_perp_at_Inr [result_simps]:
  "usdc_perp_at u p = Inr a \<longleftrightarrow>
     price_x96 p \<noteq> 0 \<and> uint (perp a) = uint (usdc u) * 2 ^ 96 div uint (price_x96 p)"
  by (cases a) (simp add: usdc_perp_at_def result_simps narrowed_through_u256)

lemma usdc_per_Inr [result_simps]:
  "usdc_per u q = Inr p \<longleftrightarrow>
     perp q \<noteq> 0 \<and> uint (price_x96 p) = uint (usdc u) * 2 ^ 96 div uint (perp q)"
  by (cases p) (auto simp: usdc_per_def result_simps)

lemma l_checked_add_signed_Inr [result_simps]:
  "l_checked_add_signed l d = Inr l' \<longleftrightarrow> uint (l_units l') = uint (l_units l) + sint (l_delta d)"
proof (cases "is_neg (l_delta d)")
  case True
  then have "uint (unsigned_abs (l_delta d)) = - sint (l_delta d)"
    by (simp add: uint_unsigned_abs is_neg_def)
  then show ?thesis using True
    by (cases l') (auto simp: l_checked_add_signed_def result_simps checked_sub_Some)
next
  case False
  then have "uint (l_delta d) = sint (l_delta d)"
    by (simp add: is_neg_def sint_nonneg_iff sint_eq_uintI linorder_not_less)
  then show ?thesis using False
    by (cases l') (auto simp: l_checked_add_signed_def result_simps checked_add_Some)
qed

lemma l_delta_negated_Inr [result_simps]:
  "l_delta_negated d = Inr d' \<longleftrightarrow> sint (l_delta d') = - sint (l_delta d)"
  by (cases d') (auto simp: l_delta_negated_def result_simps checked_neg_s_Some)

lemma l_delta_checked_add_Inr [result_simps]:
  "l_delta_checked_add a b = Inr c \<longleftrightarrow> sint (l_delta c) = sint (l_delta a) + sint (l_delta b)"
  by (cases c) (auto simp: l_delta_checked_add_def result_simps checked_add_s_Some)

lemma funding_since_Inr [result_simps]:
  "funding_since a c = Inr g \<longleftrightarrow> sint (funding_x96 g) = sint (funding_x96 a) - sint (funding_x96 c)"
  by (cases g) (auto simp: funding_since_def result_simps)

lemma funding_advanced_by_Inr [result_simps]:
  "funding_advanced_by a g = Inr b \<longleftrightarrow> sint (funding_x96 b) = sint (funding_x96 a) + sint (funding_x96 g)"
  by (cases b) (auto simp: funding_advanced_by_def result_simps)

lemma fps_since_Inr [result_simps]:
  "fps_since a c = Inr g \<longleftrightarrow> sint (fps_x96 g) = sint (fps_x96 a) - sint (fps_x96 c)"
  by (cases g) (auto simp: fps_since_def result_simps)

lemma fps_advanced_by_Inr [result_simps]:
  "fps_advanced_by a g = Inr b \<longleftrightarrow> sint (fps_x96 b) = sint (fps_x96 a) + sint (fps_x96 g)"
  by (cases b) (auto simp: fps_advanced_by_def result_simps)

lemma earnings_since_Inr [result_simps]:
  "earnings_since a c = Inr g \<longleftrightarrow> uint (earnings_x96 g) = uint (earnings_x96 a) - uint (earnings_x96 c)"
  by (cases g) (auto simp: earnings_since_def result_simps)

lemma earnings_advanced_by_Inr [result_simps]:
  "earnings_advanced_by a g = Inr b \<longleftrightarrow> uint (earnings_x96 b) = uint (earnings_x96 a) + uint (earnings_x96 g)"
  by (cases b) (auto simp: earnings_advanced_by_def result_simps)

end
