(* ===== verification/Shares.thy ===== *)
theory Shares
  imports Units "HOL-Library.Product_Lexorder"
begin

text \<open>
  \<open>src/src/units/share.rs\<close> and \<open>factor.rs\<close>: a share of a whole in millionths, the two splits of
  a count into pieces, and scaling by a factor. The splits are proved to conserve the count to the
  atom. What a quantity scales by is an interface (\<open>factor\<close>), which the share provides.
\<close>

subsection \<open>The code: shares and splits\<close>

datatype share = Share (share_e6: u32)

definition ONE_E6 :: u32 where "ONE_E6 = 1000000"

definition share_from_e6 :: "u32 \<Rightarrow> share result" where
  "share_from_e6 e6 = (if e6 \<le> ONE_E6 then Inr (Share e6) else Inl InvalidShare)"

definition complement :: "share \<Rightarrow> share" where
  "complement s = Share (ONE_E6 - share_e6 s)"

definition of_u128 :: "u128 \<Rightarrow> u128 \<Rightarrow> share option result" where
  "of_u128 part whole =
     (if whole = 0 \<or> whole < part then Inr None
      else let w = ucast whole :: u256;
               e6 = (ucast part * BIGINT_1E6 + w div 2) div w
           in rbind (ok_or Panic (narrow e6)) (\<lambda>e6. Inr (Some (Share e6))))"

definition split_u128 :: "u128 \<Rightarrow> u64 \<Rightarrow> u128 list" where
  "split_u128 x parts =
     (let n = ucast parts :: u128; each = x div n; extra = x mod n
      in map (\<lambda>i. each + of_bool (of_nat i < extra)) [0..<unat n])"

text \<open>\<open>pieces[i] += 1\<close> for every index of the list.\<close>

definition bump :: "nat \<Rightarrow> u128 list \<Rightarrow> u128 list" where
  "bump i ps = ps[i := ps ! i + 1]"

definition split_weighted_u128 :: "u128 \<Rightarrow> share list \<Rightarrow> u128 list result" where
  "split_weighted_u128 x weights =
     (let total = (\<Sum>w\<leftarrow>weights. ucast (share_e6 w)) :: u64 in
      if total \<noteq> ucast ONE_E6 then Inl InvalidShare
      else
        let scaled = map (\<lambda>w. (ucast x :: u256) * ucast (share_e6 w)) weights in
        if list_ex (\<lambda>s. (narrow (s div BIGINT_1E6) :: u128 option) = None) scaled then Inl Panic
        else
        let pieces = map (\<lambda>s. ucast (s div BIGINT_1E6)) scaled;
            remainders = map (\<lambda>s. s mod BIGINT_1E6) scaled;
            assigned = sum_list pieces;
            left = x - assigned;
            order = sort_key (\<lambda>i. (- uint (remainders ! i), i)) [0..<length pieces]
        in Inr (fold bump (take (unat left) order) pieces))"

text \<open>The signed twins split the magnitude and give each piece the sign.\<close>

definition signum :: "i128 \<Rightarrow> i128" where
  "signum d = (if sint d < 0 then - 1 else if 0 < sint d then 1 else 0)"

definition usdc_split :: "usdc_delta \<Rightarrow> u64 \<Rightarrow> usdc_delta list" where
  "usdc_split d parts =
     map (\<lambda>piece. UsdcDelta (signum (usdc_d d) * piece)) (split_u128 (unsigned_abs (usdc_d d)) parts)"

subsection \<open>Equal pieces\<close>

lemma sum_list_upt_of_bool: "k \<le> n \<Longrightarrow> (\<Sum>i\<leftarrow>[0..<n]. of_bool (i < k) :: int) = int k"
proof (induction n)
  case (Suc n)
  show ?case
  proof (cases "k \<le> n")
    case True
    then show ?thesis using Suc.IH by simp
  next
    case False
    then have k: "k = Suc n" using Suc.prems by simp
    have "map (\<lambda>i. of_bool (i < k) :: int) [0..<n] = map (\<lambda>i. 1) [0..<n]"
      using k by (intro map_cong) auto
    then have "(\<Sum>i\<leftarrow>[0..<n]. of_bool (i < k) :: int) = (\<Sum>i\<leftarrow>[0..<n]. 1)" by (rule arg_cong)
    then show ?thesis using k by (simp add: sum_list_triv del: of_bool_eq)
  qed
qed simp

lemma split_u128_nth:
  assumes "parts \<noteq> 0" "i < unat parts"
  shows "uint (split_u128 x parts ! i)
    = uint x div uint parts + of_bool (int i < uint x mod uint parts)"
proof -
  have n: "uint (ucast parts :: u128) = uint parts" by (rule uint_ucast_up) simp
  then have un: "unat (ucast parts :: u128) = unat parts" by (metis nat_uint_eq)
  have p: "0 < uint parts" using assms(1) uint_pos_iff by blast
  have "int i < int (unat parts)" using assms(2) by (simp only: of_nat_less_iff)
  also have "int (unat parts) < 2 ^ 64" using uint_below[of parts] by simp
  finally have "int i mod 2 ^ 128 = int i" by simp
  then have "uint (of_nat i :: u128) = int i" by (simp add: unsigned_of_nat take_bit_eq_mod)
  then have lt: "(of_nat i < x mod (ucast parts :: u128)) \<longleftrightarrow> int i < uint x mod uint parts"
    by (simp add: word_less_def uint_mod_distrib n)
  have "uint x div uint parts + of_bool (int i < uint x mod uint parts) < 2 ^ 128"
  proof (cases "int i < uint x mod uint parts")
    case True
    then have "0 < uint x mod uint parts" by simp
    then have "uint x div uint parts * uint parts < uint x"
      using div_mult_mod_eq[of "uint x" "uint parts"] by linarith
    moreover have "uint x div uint parts * 1 \<le> uint x div uint parts * uint parts"
      using p by (intro mult_left_mono) (simp_all add: pos_imp_zdiv_nonneg_iff)
    ultimately show ?thesis using uint_below[of x] True by simp
  next
    case False
    have "uint x div uint parts \<le> uint x" using p zdiv_mono2[of "uint x" 1 "uint parts"] by simp
    then show ?thesis using uint_below[of x] False by simp
  qed
  then have "uint (x div ucast parts + of_bool (int i < uint x mod uint parts))
      = uint x div uint parts + of_bool (int i < uint x mod uint parts)"
    by (cases "int i < uint x mod uint parts"; subst uint_add_exact) (simp_all add: uint_div_distrib n)
  then show ?thesis using assms(2) by (simp add: split_u128_def Let_def un lt)
qed

lemma length_split_u128 [simp]: "length (split_u128 x parts) = unat parts"
proof -
  have "uint (ucast parts :: u128) = uint parts" by (rule uint_ucast_up) simp
  then have "unat (ucast parts :: u128) = unat parts" by (metis nat_uint_eq)
  then show ?thesis by (simp add: split_u128_def Let_def)
qed

lemma split_u128_sum:
  assumes "parts \<noteq> 0"
  shows "(\<Sum>p\<leftarrow>split_u128 x parts. uint p) = uint x"
proof -
  have p: "0 < uint parts" using assms uint_pos_iff by blast
  have "map uint (split_u128 x parts)
      = map (\<lambda>i. uint x div uint parts + of_bool (i < nat (uint x mod uint parts))) [0..<unat parts]"
    using split_u128_nth[OF assms] p by (intro nth_equalityI) (auto simp: zless_nat_eq_int_zless)
  moreover have "nat (uint x mod uint parts) \<le> unat parts"
    using pos_mod_bound[OF p, of "uint x"] by (simp add: nat_le_iff)
  ultimately have "(\<Sum>p\<leftarrow>split_u128 x parts. uint p)
      = int (unat parts) * (uint x div uint parts) + int (nat (uint x mod uint parts))"
    by (simp only: sum_list_addf sum_list_triv sum_list_upt_of_bool length_upt diff_zero of_nat_mult)
  then show ?thesis using p by simp
qed


subsection \<open>Weighted pieces\<close>

lemma length_bump [simp]: "length (bump i ps) = length ps"
  by (simp add: bump_def)

lemma fold_bump:
  assumes "distinct ks" "set ks \<subseteq> {..<length ps}" "j < length ps"
  shows "fold bump ks ps ! j = ps ! j + of_bool (j \<in> set ks)"
  using assms by (induction ks arbitrary: ps) (auto simp: bump_def nth_list_update)

lemma length_fold_bump [simp]: "length (fold bump ks ps) = length ps"
  by (induction ks arbitrary: ps) simp_all

text \<open>The largest-remainder step on integers: the leftover is smaller than the number of pieces.\<close>

lemma sum_div_mod_split:
  fixes f :: "'a \<Rightarrow> int"
  shows "(\<Sum>w\<leftarrow>ws. f w) = (\<Sum>w\<leftarrow>ws. f w div m) * m + (\<Sum>w\<leftarrow>ws. f w mod m)"
  by (induction ws) (simp_all add: algebra_simps)

lemma sum_mod_less:
  fixes f :: "'a \<Rightarrow> int"
  assumes "0 < m" "ws \<noteq> []"
  shows "(\<Sum>w\<leftarrow>ws. f w mod m) < int (length ws) * m"
  using assms(2)
proof (induction ws rule: list_nonempty_induct)
  case (cons w ws)
  then show ?case using pos_mod_bound[OF assms(1), of "f w"] by (simp add: distrib_right)
qed (use assms in simp)

lemma sum_mod_nonneg: "0 < m \<Longrightarrow> 0 \<le> (\<Sum>w\<leftarrow>ws. (f w :: int) mod m)"
  by (induction ws) simp_all

lemma leftover:
  fixes f :: "'a \<Rightarrow> int"
  assumes "0 < m" "(\<Sum>w\<leftarrow>ws. f w) = x * m" "ws \<noteq> []"
  shows "0 \<le> x - (\<Sum>w\<leftarrow>ws. f w div m)" "x - (\<Sum>w\<leftarrow>ws. f w div m) < int (length ws)"
proof -
  have e: "(x - (\<Sum>w\<leftarrow>ws. f w div m)) * m = (\<Sum>w\<leftarrow>ws. f w mod m)"
    using sum_div_mod_split[of f ws m] assms(2) by (simp add: left_diff_distrib)
  have "0 \<le> (x - (\<Sum>w\<leftarrow>ws. f w div m)) * m"
    unfolding e by (rule sum_mod_nonneg[OF assms(1)])
  then show "0 \<le> x - (\<Sum>w\<leftarrow>ws. f w div m)" using assms(1) by (simp add: zero_le_mult_iff)
  have "(x - (\<Sum>w\<leftarrow>ws. f w div m)) * m < int (length ws) * m"
    unfolding e by (rule sum_mod_less[OF assms(1,3)])
  then show "x - (\<Sum>w\<leftarrow>ws. f w div m) < int (length ws)" using assms(1) by simp
qed

lemma uint_sum_list_exact:
  fixes f :: "'a \<Rightarrow> 'b::len word"
  assumes "(\<Sum>w\<leftarrow>ws. uint (f w)) < 2 ^ LENGTH('b)"
  shows "uint (\<Sum>w\<leftarrow>ws. f w) = (\<Sum>w\<leftarrow>ws. uint (f w))"
  using assms
proof (induction ws)
  case (Cons w ws)
  have "(\<Sum>w\<leftarrow>ws. uint (f w)) < 2 ^ LENGTH('b)"
    using Cons.prems uint_ge_0[of "f w"] by (simp only: list.map sum_list.Cons)
  then have IH: "uint (\<Sum>w\<leftarrow>ws. f w) = (\<Sum>w\<leftarrow>ws. uint (f w))" by (rule Cons.IH)
  then show ?case using Cons.prems by (simp add: uint_add_exact)
qed simp

text \<open>The code's list of weights as integers; each is a millionth count that its constructor bounds.\<close>

definition share_ok :: "share \<Rightarrow> bool" where
  "share_ok s \<longleftrightarrow> uint (share_e6 s) \<le> 1000000"

definition weight_sum :: "share list \<Rightarrow> int" where
  "weight_sum ws = (\<Sum>w\<leftarrow>ws. uint (share_e6 w))"

definition exact_piece :: "u128 \<Rightarrow> share \<Rightarrow> int" where
  "exact_piece x w = uint x * uint (share_e6 w)"

lemma share_from_e6_ok: "share_from_e6 e = Inr s \<Longrightarrow> share_ok s"
  by (auto simp: share_from_e6_def share_ok_def ONE_E6_def word_le_def split: if_splits)

lemma weight_total:
  assumes "length ws < 2 ^ 32"
  shows "uint (\<Sum>w\<leftarrow>ws. ucast (share_e6 w) :: u64) = weight_sum ws"
proof -
  have up: "uint (ucast (share_e6 w) :: u64) = uint (share_e6 w)" for w by (rule uint_ucast_up) simp
  have "weight_sum ws \<le> int (length ws) * 2 ^ 32" unfolding weight_sum_def
  proof (induction ws)
    case (Cons w ws)
    then show ?case using uint_below[of "share_e6 w"] by (simp add: distrib_right)
  qed simp
  also have "\<dots> < 2 ^ 32 * 2 ^ 32" using assms by (intro mult_strict_right_mono) simp_all
  finally show ?thesis
    by (subst uint_sum_list_exact) (simp_all add: up weight_sum_def)
qed

lemma sum_exact_piece: "(\<Sum>w\<leftarrow>ws. exact_piece x w) = uint x * weight_sum ws"
  by (simp add: exact_piece_def weight_sum_def sum_list_const_mult)


lemma exact_piece_bounds:
  assumes "share_ok w"
  shows "0 \<le> exact_piece x w" "exact_piece x w \<le> uint x * 1000000"
  using assms by (auto simp: exact_piece_def share_ok_def intro: mult_left_mono)

lemma uint_scaled:
  assumes "share_ok w"
  shows "uint ((ucast x :: u256) * ucast (share_e6 w)) = exact_piece x w"
proof -
  have up: "uint (ucast (share_e6 w) :: u256) = uint (share_e6 w)" by (rule uint_ucast_up) simp
  have "exact_piece x w < 2 ^ 256"
    using exact_piece_bounds[OF assms, of x] uint_below[of x] by simp
  then show ?thesis unfolding exact_piece_def
    by (subst uint_mult_exact) (simp_all add: up)
qed

lemma piece_fits:
  assumes "share_ok w"
  shows "exact_piece x w div 1000000 < 2 ^ 128"
proof -
  have "exact_piece x w div 1000000 \<le> uint x"
    using exact_piece_bounds(2)[OF assms, of x] zdiv_mono1[of _ "uint x * 1000000" 1000000] by fastforce
  then show ?thesis using uint_below[of x] by simp
qed

definition floors :: "u128 \<Rightarrow> share list \<Rightarrow> int" where
  "floors x ws = (\<Sum>w\<leftarrow>ws. exact_piece x w div 1000000)"

lemma floors_leftover:
  assumes "weight_sum ws = 1000000"
  shows "0 \<le> uint x - floors x ws" "uint x - floors x ws < int (length ws)"
proof -
  have "ws \<noteq> []" using assms by (auto simp: weight_sum_def)
  then show "0 \<le> uint x - floors x ws" "uint x - floors x ws < int (length ws)"
    using leftover[of 1000000 "exact_piece x" ws "uint x"] assms
    by (simp_all add: sum_exact_piece floors_def)
qed

text \<open>What the code returns when the weights are the whole: the floors, and one more for the chosen.\<close>

lemma split_weighted_unfold:
  assumes ok: "\<forall>w \<in> set ws. share_ok w" and len: "length ws < 2 ^ 32" and whole: "weight_sum ws = 1000000"
  obtains chosen ps where "split_weighted_u128 x ws = Inr ps" "length ps = length ws"
    "chosen \<subseteq> {..<length ws}" "int (card chosen) = uint x - floors x ws"
    "\<And>j. j < length ws \<Longrightarrow> uint (ps ! j) = exact_piece x (ws ! j) div 1000000 + of_bool (j \<in> chosen)"
proof -
  define scaled where "scaled = map (\<lambda>w. (ucast x :: u256) * ucast (share_e6 w)) ws"
  define pieces where "pieces = map (\<lambda>s. ucast (s div BIGINT_1E6) :: u128) scaled"
  define remainders where "remainders = map (\<lambda>s. s mod BIGINT_1E6) scaled"
  define order where "order = sort_key (\<lambda>i. (- uint (remainders ! i), i)) [0..<length pieces]"
  define left where "left = x - sum_list pieces"
  define ks where "ks = take (unat left) order"
  have ws: "share_ok (ws ! j)" if "j < length ws" for j using ok that by simp
  have fits: "uint (s div BIGINT_1E6) < 2 ^ 128" if "s \<in> set scaled" for s
    using that ok piece_fits[of _ x] by (auto simp: scaled_def uint_div_distrib uint_scaled)
  then have nopanic: "\<not> list_ex (\<lambda>s. (narrow (s div BIGINT_1E6) :: u128 option) = None) scaled"
    by (auto simp: list_ex_iff narrow_def)
  have piece: "uint (pieces ! j) = exact_piece x (ws ! j) div 1000000" if "j < length ws" for j
  proof -
    have "uint (ucast (scaled ! j div BIGINT_1E6) :: u128) = uint (scaled ! j div BIGINT_1E6)"
      using that fits[of "scaled ! j"] by (intro uint_ucast_exact) (simp_all add: scaled_def)
    then show ?thesis using that ws[OF that]
      by (simp add: pieces_def scaled_def uint_div_distrib uint_scaled)
  qed
  have len_p: "length pieces = length ws" by (simp add: pieces_def scaled_def)
  have "map uint pieces = map (\<lambda>w. exact_piece x w div 1000000) ws"
    using piece by (intro nth_equalityI) (simp_all add: len_p)
  then have sum_p: "(\<Sum>p\<leftarrow>pieces. uint p) = floors x ws" by (simp add: floors_def)
  have fl: "0 \<le> uint x - floors x ws" "uint x - floors x ws < int (length ws)"
    by (rule floors_leftover[OF whole])+
  have "uint (sum_list pieces) = floors x ws"
    using uint_sum_list_exact[of "\<lambda>p. p" pieces] sum_p fl uint_below[of x] by simp
  then have left: "uint left = uint x - floors x ws"
    using fl unfolding left_def by (subst uint_sub_exact) simp_all
  have order: "set order = {..<length ws}" "distinct order" "length order = length ws"
    by (auto simp: order_def len_p)
  have dis: "distinct ks" "set ks \<subseteq> {..<length pieces}"
    using order set_take_subset[of "unat left" order] by (auto simp: ks_def len_p)
  have "int (unat left) = uint left" by simp
  then have "int (unat left) < int (length ws)" using left fl by linarith
  then have "unat left < length ws" by (simp only: of_nat_less_iff)
  then have "length ks = unat left" using order by (simp add: ks_def)
  then have card: "int (card (set ks)) = uint left" using dis by (simp add: distinct_card)
  have res: "split_weighted_u128 x ws = Inr (fold bump ks pieces)"
    using weight_total[OF len] whole nopanic unfolding split_weighted_u128_def ks_def left_def order_def
      remainders_def pieces_def scaled_def
    by (simp add: Let_def ONE_E6_def word_uint_eq_iff)
  have val: "uint (fold bump ks pieces ! j) = exact_piece x (ws ! j) div 1000000 + of_bool (j \<in> set ks)"
    if j: "j < length ws" for j
  proof -
    have "exact_piece x (ws ! j) div 1000000 + of_bool (j \<in> set ks) < 2 ^ 128"
    proof (cases "j \<in> set ks")
      case True
      then have "1 \<le> uint left" using card by (metis card_gt_0_iff empty_iff finite_set int_one_le_iff_zero_less of_nat_0_less_iff)
      moreover have "exact_piece x (ws ! j) div 1000000 \<le> floors x ws" unfolding floors_def
        using ok j by (intro member_le_sum_list) (auto simp: exact_piece_bounds pos_imp_zdiv_nonneg_iff)
      ultimately show ?thesis using True left uint_below[of x] by simp
    qed (use piece_fits[OF ws[OF j], of x] in simp)
    then show ?thesis using fold_bump[OF dis, of j] piece[OF j] j
      by (cases "j \<in> set ks"; simp add: len_p; subst uint_add_exact; simp)
  qed
  show thesis
    by (rule that[OF res]) (use dis card left val len_p in auto)
qed

lemma split_weighted_sum:
  assumes "\<forall>w \<in> set ws. share_ok w" "length ws < 2 ^ 32" "weight_sum ws = 1000000"
  obtains ps where "split_weighted_u128 x ws = Inr ps" "length ps = length ws" "(\<Sum>p\<leftarrow>ps. uint p) = uint x"
    "\<And>j. j < length ws \<Longrightarrow> exact_piece x (ws ! j) div 1000000 \<le> uint (ps ! j)
       \<and> uint (ps ! j) \<le> exact_piece x (ws ! j) div 1000000 + 1"
proof -
  obtain chosen ps where s: "split_weighted_u128 x ws = Inr ps" "length ps = length ws"
    "chosen \<subseteq> {..<length ws}" "int (card chosen) = uint x - floors x ws"
    and v: "\<And>j. j < length ws \<Longrightarrow> uint (ps ! j) = exact_piece x (ws ! j) div 1000000 + of_bool (j \<in> chosen)"
    using split_weighted_unfold[OF assms] by metis
  have "(\<Sum>p\<leftarrow>ps. uint p) = (\<Sum>j<length ws. uint (ps ! j))"
    using s(2) by (simp add: sum_list_sum_nth atLeast0LessThan)
  also have "\<dots> = (\<Sum>j<length ws. exact_piece x (ws ! j) div 1000000) + (\<Sum>j<length ws. of_bool (j \<in> chosen))"
    by (simp add: v sum.distrib)
  also have "(\<Sum>j<length ws. exact_piece x (ws ! j) div 1000000) = floors x ws"
    by (simp add: floors_def sum_list_sum_nth atLeast0LessThan)
  also have "(\<Sum>j<length ws. of_bool (j \<in> chosen) :: int) = int (card chosen)"
    using s(3) by (simp add: Int_absorb2 Int_commute)
  finally show thesis using s v by (intro that[of ps]) auto
qed

subsection \<open>Properties\<close>

text \<open>Splitting a count into equal parts conserves it to the atom, and the pieces differ by at most
  one: the first \<open>x mod parts\<close> of them carry the extra atom.\<close>

theorem split_equal_conserves:
  assumes "parts \<noteq> 0"
  shows "length (split_u128 x parts) = unat parts
    \<and> (\<Sum>p\<leftarrow>split_u128 x parts. uint p) = uint x
    \<and> (\<forall>i < unat parts. uint (split_u128 x parts ! i)
         = uint x div uint parts + of_bool (int i < uint x mod uint parts))"
  using split_u128_sum[OF assms, of x] split_u128_nth[OF assms, of _ x] by simp

theorem split_equal_conserves_witness:
  "(\<Sum>p\<leftarrow>split_u128 10 3. uint p) = uint (10 :: u128) \<and> length (split_u128 10 3) = unat (3 :: u64)"
proof -
  have "(3 :: u64) \<noteq> 0" by simp
  from split_equal_conserves[OF this, of 10] show ?thesis by blast
qed

text \<open>A weighted split whose weights are the whole conserves the count to the atom, and no piece is
  off its exact share by a whole atom: each is the floor of its share or one more.\<close>

theorem split_weighted_conserves:
  assumes "\<forall>w \<in> set ws. share_ok w" "length ws < 2 ^ 32" "weight_sum ws = 1000000"
  shows "\<exists>ps. split_weighted_u128 x ws = Inr ps \<and> length ps = length ws
    \<and> (\<Sum>p\<leftarrow>ps. uint p) = uint x
    \<and> (\<forall>j < length ws. exact_piece x (ws ! j) div 1000000 \<le> uint (ps ! j)
         \<and> uint (ps ! j) \<le> exact_piece x (ws ! j) div 1000000 + 1)"
  using split_weighted_sum[OF assms, of x] by metis

theorem split_weighted_conserves_witness:
  "\<exists>ps. split_weighted_u128 100 [Share 333334, Share 333333, Share 333333] = Inr ps
    \<and> (\<Sum>p\<leftarrow>ps. uint p) = 100"
proof -
  have "\<forall>w \<in> set [Share 333334, Share 333333, Share 333333]. share_ok w" by (simp add: share_ok_def)
  moreover have "weight_sum [Share 333334, Share 333333, Share 333333] = 1000000" by (simp add: weight_sum_def)
  ultimately show ?thesis
    using split_weighted_conserves[of "[Share 333334, Share 333333, Share 333333]" 100] by auto
qed

end
