(* ===== verification/Scaling.thy ===== *)
theory Scaling
  imports Shares
begin

text \<open>
  \<open>src/src/units/factor.rs\<close>, the accruals of \<open>rates.rs\<close> and the health test of
  \<open>src/src/math/mod.rs\<close>. What a quantity is multiplied by is the crate's one open trait,
  \<open>Factor\<close>; its contract is the locale \<open>factor\<close> (an exact product, truncated), which the share
  and the WAD-scaled number both provide.
\<close>

subsection \<open>The code: factors\<close>

text \<open>\<open>scaled\<close>: a quotient past \<open>U256\<close> panics.\<close>

definition scaled :: "u256 \<Rightarrow> u256 \<Rightarrow> u256 \<Rightarrow> u256 result" where
  "scaled x numerator denominator = expect (mul_div x numerator denominator TowardZero)"

definition share_apply :: "share \<Rightarrow> u256 \<Rightarrow> u256 result" where
  "share_apply s x = scaled x (ucast (share_e6 s)) BIGINT_1E6"

text \<open>\<open>Factor for f64\<close> past the float: \<open>wad\<close> is its magnitude as the WAD word.\<close>

definition wad_apply :: "u128 \<Rightarrow> u256 \<Rightarrow> u256 result" where
  "wad_apply wad x = scaled x (ucast wad) WAD"

text \<open>A factor is its \<open>apply\<close> and its \<open>is_negative\<close>.\<close>

definition scale_count :: "(u256 \<Rightarrow> u256 result) \<Rightarrow> bool \<Rightarrow> u128 \<Rightarrow> u128 result" where
  "scale_count app negative x =
     (if negative then Inl Panic
      else rbind (app (ucast x)) (\<lambda>y. ok_or Panic (narrow y)))"

definition scale_delta :: "(u256 \<Rightarrow> u256 result) \<Rightarrow> bool \<Rightarrow> i128 \<Rightarrow> i128 result" where
  "scale_delta app negative x =
     rbind (app (ucast (unsigned_abs x))) (\<lambda>y.
     rbind (ok_or Panic (narrow y :: u128 option)) (\<lambda>magnitude.
     rbind (ok_or Panic (narrow_us magnitude)) (\<lambda>magnitude.
     Inr (if is_neg x \<noteq> negative then - magnitude else magnitude))))"

definition price_times :: "(u256 \<Rightarrow> u256 result) \<Rightarrow> bool \<Rightarrow> price \<Rightarrow> price result" where
  "price_times app negative p =
     (if negative then Inl Panic else result_map Price (app (price_x96 p)))"

subsection \<open>The code: rates over time\<close>

datatype funding_rate = FundingRate (funding_wad: i128)

datatype utilization_rate = UtilizationRate (utilization_wad: u64)

definition SECS_PER_DAY :: u64 where "SECS_PER_DAY = 86400"

definition accrued :: "u128 \<Rightarrow> u64 \<Rightarrow> usdc_atoms \<Rightarrow> u128 result" where
  "accrued wad secs notional =
     (let notional_seconds = (ucast (usdc notional) :: u256) * ucast secs
      in rbind (expect (mul_div notional_seconds (ucast wad) (WAD * ucast SECS_PER_DAY) TowardZero)) (\<lambda>atoms.
         ok_or Panic (narrow atoms)))"

definition funding_over :: "funding_rate \<Rightarrow> u64 \<Rightarrow> usdc_atoms \<Rightarrow> usdc_delta result" where
  "funding_over r secs notional =
     rbind (accrued (unsigned_abs (funding_wad r)) secs notional) (\<lambda>a.
     rbind (ok_or Panic (narrow_us a)) (\<lambda>m.
     let magnitude = UsdcDelta m
     in Inr (if is_neg (funding_wad r) then - magnitude else magnitude)))"

definition utilization_over :: "utilization_rate \<Rightarrow> u64 \<Rightarrow> usdc_atoms \<Rightarrow> usdc_atoms result" where
  "utilization_over r secs notional =
     result_map UsdcAtoms (accrued (ucast (utilization_wad r)) secs notional)"

subsection \<open>The code: what the math shares\<close>

record block_context =
  block_number :: u64
  block_hash :: u256
  block_timestamp :: u64

text \<open>How far behind the head the pinned reads stay.\<close>

definition SNAPSHOT_BLOCK_LAG :: u64 where "SNAPSHOT_BLOCK_LAG = 8"

record liquidation_prices =
  lp_mark :: price
  lp_below :: "price option"
  lp_above :: "price option"

subsection \<open>The code: the contract's health test\<close>

definition is_healthy :: "usdc_delta \<Rightarrow> usdc_atoms \<Rightarrow> ratio \<Rightarrow> bool result" where
  "is_healthy equity value ratio =
     (let e = usdc_d equity in
      rbind (if sint e \<le> 0 then Inr 0
             else expect (mul_div (ucast (unsigned_abs e)) BIGINT_1E6 (ucast (usdc value) + 1) TowardZero))
        (\<lambda>held. Inr (ucast (ratio_e6 ratio) \<le> held)))"

subsection \<open>The contract of a factor\<close>

lemma narrow_us_same: "narrow_us (a :: 'a::len word) = Some b \<longleftrightarrow> uint a < 2 ^ (LENGTH('a) - 1) \<and> b = a"
  by (auto simp: narrow_us_def)

locale factor =
  fixes app :: "u256 \<Rightarrow> u256 result" and num den :: int
  assumes den_pos: "0 < den"
    and num_nonneg: "0 \<le> num"
    and apply_exact: "app x = Inr y \<longleftrightarrow> uint y = uint x * num div den"
begin

lemma scale_count_exact:
  "scale_count app negative x = Inr y \<longleftrightarrow> \<not> negative \<and> uint y = uint x * num div den"
  by (simp add: scale_count_def result_simps apply_exact narrow_Some narrowed_through_u256)

lemma apply_mono:
  assumes "app x = Inr a" "app y = Inr b" "x \<le> y"
  shows "a \<le> b"
proof -
  have "uint x * num \<le> uint y * num"
    using assms(3) num_nonneg by (intro mult_right_mono) (simp_all add: word_le_def)
  then show ?thesis using assms den_pos
    by (simp add: apply_exact word_le_def zdiv_mono1)
qed

lemma apply_within:
  assumes "app x = Inr a" "num \<le> den"
  shows "a \<le> x"
proof -
  have "uint x * num div den \<le> uint x * den div den"
    using assms(2) den_pos by (intro zdiv_mono1 mult_left_mono) simp_all
  then show ?thesis using assms(1) den_pos by (simp add: apply_exact word_le_def)
qed

lemma scale_delta_exact:
  "scale_delta app negative x = Inr y \<longleftrightarrow>
     \<bar>sint x\<bar> * num div den < 2 ^ 127
     \<and> sint y = (if is_neg x \<noteq> negative then - (\<bar>sint x\<bar> * num div den) else \<bar>sint x\<bar> * num div den)"
  (is "?code \<longleftrightarrow> ?m < 2 ^ 127 \<and> sint y = ?s")
proof -
  have m0: "0 \<le> ?m" using den_pos num_nonneg by (simp add: pos_imp_zdiv_nonneg_iff)
  have abs: "uint (unsigned_abs x) = \<bar>sint x\<bar>" by (rule uint_unsigned_abs)
  have code: "?code \<longleftrightarrow> (\<exists>w :: u128. uint w = ?m \<and> uint w < 2 ^ 127
      \<and> y = (if is_neg x \<noteq> negative then - w else w))"
  proof -
    have "?code \<longleftrightarrow> (\<exists>v :: u256. uint v = ?m \<and> (\<exists>w :: u128. uint v = uint w \<and>
        (uint w < 2 ^ 127 \<and> y = (if is_neg x \<noteq> negative then - w else w))))"
      by (auto simp: scale_delta_def rbind_eq_Inr ok_or_eq_Inr apply_exact narrow_Some narrow_us_same abs)
    then show ?thesis by (simp only: narrowed_through_u256(1))
  qed
  have neg: "sint (- w) = - uint w" if "uint w < 2 ^ 127" for w :: u128
    using that by (subst sint_neg_exact)
      (simp_all add: sint_cases in_signed_def, use uint_ge_0[of w] in linarith)
  have pos: "sint w = uint w" if "uint w < 2 ^ 127" for w :: u128
    using that by (simp add: sint_cases)
  show ?thesis
  proof
    assume ?code
    then show "?m < 2 ^ 127 \<and> sint y = ?s" unfolding code by (auto simp: neg pos)
  next
    assume rhs: "?m < 2 ^ 127 \<and> sint y = ?s"
    define w :: u128 where "w = word_of_int ?m"
    have w: "uint w = ?m" using m0 rhs by (simp add: w_def uint_word_of_int)
    have "sint y = sint (if is_neg x \<noteq> negative then - w else w)"
      using rhs w by (simp add: neg pos)
    then have "y = (if is_neg x \<noteq> negative then - w else w)" by simp
    then show ?code unfolding code using w rhs by auto
  qed
qed

text \<open>The signed twin is odd: scaling the negation negates the result.\<close>

lemma scale_delta_odd:
  assumes "scale_delta app negative x = Inr y" "sint x \<noteq> - (2 ^ 127)"
  shows "scale_delta app negative (- x) = Inr (- y)"
proof -
  have x: "sint (- x) = - sint x"
    using assms(2) sint_bounds[of x] by (intro sint_neg_exact) (simp add: in_signed_def)
  have m0: "0 \<le> \<bar>sint x\<bar> * num div den"
    using den_pos num_nonneg by (simp add: pos_imp_zdiv_nonneg_iff)
  have b: "\<bar>sint x\<bar> * num div den < 2 ^ 127" and y: "sint y =
      (if is_neg x \<noteq> negative then - (\<bar>sint x\<bar> * num div den) else \<bar>sint x\<bar> * num div den)"
    using assms(1) by (simp_all add: scale_delta_exact)
  have "sint (- y) = - sint y" using b m0 y
    by (intro sint_neg_exact) (auto simp: in_signed_def split: if_splits)
  then show ?thesis using b y x
    by (cases "sint x = 0") (auto simp: scale_delta_exact is_neg_def split: if_splits)
qed

end

subsection \<open>The two providers\<close>

lemma scaled_Inr [result_simps]:
  "scaled x n d = Inr y \<longleftrightarrow> d \<noteq> 0 \<and> uint y = uint x * uint n div uint d"
  by (simp add: scaled_def result_simps)

lemma uint_ucast_32_256 [simp]: "uint (ucast (a :: u32) :: u256) = uint a"
  by (rule uint_ucast_up) simp

lemma uint_ucast_64_256 [simp]: "uint (ucast (a :: u64) :: u256) = uint a"
  by (rule uint_ucast_up) simp

interpretation share_factor: factor "share_apply s" "uint (share_e6 s)" 1000000 for s
  by unfold_locales (simp_all add: share_apply_def scaled_Inr)

interpretation wad_factor: factor "wad_apply w" "uint w" 1000000000000000000 for w
  by unfold_locales (simp_all add: wad_apply_def scaled_Inr)

subsection \<open>What accruals and the health test compute\<close>

lemma accrued_Inr [result_simps]:
  "accrued wad secs u = Inr a \<longleftrightarrow>
     uint a = uint (usdc u) * uint secs * uint wad div (86400 * 1000000000000000000)"
proof -
  have "uint (usdc u) * uint secs \<le> 2 ^ 128 * 2 ^ 64"
    using uint_below[of "usdc u"] uint_below[of secs] by (intro mult_mono) simp_all
  then have "uint ((ucast (usdc u) :: u256) * ucast secs) = uint (usdc u) * uint secs"
    by (subst uint_mult_exact) simp_all
  moreover have "uint (WAD * ucast SECS_PER_DAY) = 86400 * 1000000000000000000"
    by (simp add: WAD_def SECS_PER_DAY_def)
  moreover from this have "WAD * ucast SECS_PER_DAY \<noteq> 0" by (metis unsigned_0 zero_neq_numeral mult_eq_0_iff)
  ultimately show ?thesis
    by (simp add: accrued_def Let_def result_simps narrow_Some narrowed_through_u256)
qed

lemma is_healthy_eq:
  "is_healthy e v r = Inr (uint (ratio_e6 r) = 0
     \<or> 0 < sint (usdc_d e) \<and> uint (ratio_e6 r) * (uint (usdc v) + 1) \<le> sint (usdc_d e) * 1000000)"
proof (cases "sint (usdc_d e) \<le> 0")
  case True
  have "(ucast (ratio_e6 r) :: u256) \<le> 0 \<longleftrightarrow> uint (ratio_e6 r) = 0"
    using uint_ge_0[of "ratio_e6 r"] by (simp add: word_le_def del: uint_ge_0)
  then show ?thesis using True by (simp add: is_healthy_def)
next
  case False
  let ?d = "ucast (usdc v) + 1 :: u256"
  have d: "uint ?d = uint (usdc v) + 1"
    using uint_below[of "usdc v"] by (subst uint_add_exact) simp_all
  then have d0: "?d \<noteq> 0" using uint_ge_0[of "usdc v"] uint_pos_iff[of ?d] by linarith
  have e: "uint (unsigned_abs (usdc_d e)) = sint (usdc_d e)"
    using False by (simp add: uint_unsigned_abs)
  define q where "q = sint (usdc_d e) * 1000000 div (uint (usdc v) + 1)"
  have "q \<le> sint (usdc_d e) * 1000000" using False d uint_ge_0[of "usdc v"]
    unfolding q_def using zdiv_mono2[of "sint (usdc_d e) * 1000000" 1 "uint (usdc v) + 1"] by simp
  then have q: "0 \<le> q" "q < 2 ^ 256" using sint_bounds(2)[of "usdc_d e"] False
    by (auto simp: q_def pos_imp_zdiv_nonneg_iff)
  then obtain w :: u256 where w: "uint w = q" using word_with_value[of q, where 'a = 256] by auto
  then have "mul_div (ucast (unsigned_abs (usdc_d e))) BIGINT_1E6 ?d TowardZero = Inr w"
    by (simp add: mul_div_Inr d d0 e q_def)
  then have "is_healthy e v r = Inr (uint (ratio_e6 r) \<le> q)"
    using False w by (simp add: is_healthy_def word_le_def)
  moreover have "uint (ratio_e6 r) \<le> q \<longleftrightarrow> uint (ratio_e6 r) * (uint (usdc v) + 1) \<le> sint (usdc_d e) * 1000000"
    unfolding q_def using uint_ge_0[of "usdc v"] by (intro fdiv_ge_iff) linarith
  ultimately show ?thesis using False by auto
qed

subsection \<open>Properties\<close>

text \<open>The contract's health test is the exact comparison: with a positive ratio a position is healthy
  exactly when its equity is positive and covers the ratio of its value plus one atom; the
  arithmetic on the way never fails.\<close>

theorem is_healthy_exact:
  "is_healthy e v r = Inr (uint (ratio_e6 r) = 0
     \<or> 0 < sint (usdc_d e) \<and> uint (ratio_e6 r) * (uint (usdc v) + 1) \<le> sint (usdc_d e) * 1000000)"
  by (rule is_healthy_eq)

lemma signed_twin:
  fixes a m y :: int
  assumes "0 \<le> m" "y = (if a < 0 then - m else m)"
  shows "\<bar>y\<bar> = m \<and> 0 \<le> a * y"
  using assms by (auto simp: zero_le_mult_iff)

text \<open>Scaling a delta by a share is exact, truncated toward zero, keeps the sign and never fails:
  a share of a whole cannot leave the width.\<close>

theorem share_of_delta:
  assumes "share_ok s"
  shows "\<exists>y. scale_delta (share_apply s) False x = Inr y
    \<and> \<bar>sint y\<bar> = \<bar>sint x\<bar> * uint (share_e6 s) div 1000000 \<and> 0 \<le> sint x * sint y
    \<or> x = - (2 ^ 127)"
proof (cases "x = - (2 ^ 127)")
  case False
  let ?m = "\<bar>sint x\<bar> * uint (share_e6 s) div 1000000"
  have "sint x \<noteq> sint (- (2 ^ 127) :: i128)" using False by (simp only: sint_inject not_False_eq_True)
  then have "\<bar>sint x\<bar> < 2 ^ 127" using sint_bounds[of x] by (simp add: abs_less_iff)
  moreover have "?m \<le> \<bar>sint x\<bar> * 1000000 div 1000000" using assms
    by (intro zdiv_mono1 mult_left_mono) (simp_all add: share_ok_def)
  ultimately have m: "0 \<le> ?m" "?m < 2 ^ 127" by (simp_all add: pos_imp_zdiv_nonneg_iff)
  define y :: i128 where "y = word_of_int (if is_neg x then - ?m else ?m)"
  have y: "sint y = (if is_neg x then - ?m else ?m)" unfolding y_def using m
    by (intro sint_exactI) (auto simp: in_signed_def uint_word_of_int)
  have "scale_delta (share_apply s) False x = Inr y"
    using m y by (simp add: share_factor.scale_delta_exact)
  moreover have "\<bar>sint y\<bar> = ?m \<and> 0 \<le> sint x * sint y"
    by (rule signed_twin[OF m(1)]) (simp add: y is_neg_def)
  ultimately show ?thesis by blast
qed blast

theorem share_of_delta_witness:
  "\<exists>y. scale_delta (share_apply (Share 250000)) False (- 10) = Inr y \<and> sint y = - 2"
proof -
  have "share_ok (Share 250000)" by (simp add: share_ok_def)
  from share_of_delta[OF this, of "- 10"] obtain y where
    "scale_delta (share_apply (Share 250000)) False (- 10) = Inr y" "\<bar>sint y\<bar> = 2" "0 \<le> - 10 * sint y"
    by (auto simp: sint_cases)
  then show ?thesis by (intro exI[of _ y]) simp
qed

end
