(* ===== verification/Tick_Math.thy ===== *)
theory Tick_Math
  imports Prices Complex_Main
begin

text \<open>
  \<open>src/src/math/tick.rs\<close>: Uniswap's \<open>getSqrtRatioAtTick\<close> on native 128-bit words. The
  multiply-shift loop is modelled as the fold of the code's \<open>apply_bit_u128!\<close> over its table of
  twenty constants.
\<close>

subsection \<open>The code\<close>

definition UNISWAP_MIN_TICK :: i32 where "UNISWAP_MIN_TICK = - 887272"

definition UNISWAP_MAX_TICK :: i32 where "UNISWAP_MAX_TICK = 887272"

text \<open>The 128-bit product's upper half, from four 64-bit partial products and their carries.\<close>

definition overflowing_add :: "u128 \<Rightarrow> u128 \<Rightarrow> u128 \<times> bool" where
  "overflowing_add a b = (a + b, 2 ^ 128 \<le> uint a + uint b)"

definition mul_shift_128 :: "u128 \<Rightarrow> u128 \<Rightarrow> u128" where
  "mul_shift_128 a b =
     (let a_hi = ucast (drop_bit 64 a) :: u64; a_lo = ucast a :: u64;
          b_hi = ucast (drop_bit 64 b) :: u64; b_lo = ucast b :: u64;
          ll = (ucast a_lo :: u128) * ucast b_lo;
          lh = (ucast a_lo :: u128) * ucast b_hi;
          hl = (ucast a_hi :: u128) * ucast b_lo;
          hh = (ucast a_hi :: u128) * ucast b_hi;
          (cross, carry1) = overflowing_add lh hl;
          (mid, carry2) = overflowing_add cross (drop_bit 64 ll)
      in hh + drop_bit 64 mid + push_bit 64 (of_bool carry1 + of_bool carry2))"

definition TICK_MAGIC :: "(int \<times> u128) list" where
  "TICK_MAGIC =
    [(0x1, 0xfffcb933bd6fad37aa2d162d1a594001),
     (0x2, 0xfff97272373d413259a46990580e213a),
     (0x4, 0xfff2e50f5f656932ef12357cf3c7fdcc),
     (0x8, 0xffe5caca7e10e4e61c3624eaa0941cd0),
     (0x10, 0xffcb9843d60f6159c9db58835c926644),
     (0x20, 0xff973b41fa98c081472e6896dfb254c0),
     (0x40, 0xff2ea16466c96a3843ec78b326b52861),
     (0x80, 0xfe5dee046a99a2a811c461f1969c3053),
     (0x100, 0xfcbe86c7900a88aedcffc83b479aa3a4),
     (0x200, 0xf987a7253ac413176f2b074cf7815e54),
     (0x400, 0xf3392b0822b70005940c7a398e4b70f3),
     (0x800, 0xe7159475a2c29b7443b29c7fa6e889d9),
     (0x1000, 0xd097f3bdfd2022b8845ad8f792aa5825),
     (0x2000, 0xa9f746462d870fdf8a65dc1f90e061e5),
     (0x4000, 0x70d869a156d2a1b890bb3df62baf32f7),
     (0x8000, 0x31be135f97d08fd981231505542fcfa6),
     (0x10000, 0x9aa508b5b7a84e1c677de54f3e99bc9),
     (0x20000, 0x5d6af8dedb81196699c329225ee604),
     (0x40000, 0x2216e584f5fa1ea926041bedfe98),
     (0x80000, 0x48a170391f7dc42444e8fa2)]"

text \<open>One table entry: the state is the ratio and the flag that stands for a ratio of exactly \<open>2^128\<close>.\<close>

definition apply_bit :: "int \<Rightarrow> int \<times> u128 \<Rightarrow> u128 \<times> bool \<Rightarrow> u128 \<times> bool" where
  "apply_bit abs_tick entry state =
     (let (b, magic) = entry; (ratio, is_unit) = state
      in if abs_tick AND b \<noteq> 0
         then if is_unit then (magic, False) else (mul_shift_128 ratio magic, False)
         else (ratio, is_unit))"

definition get_sqrt_ratio_at_tick :: "i32 \<Rightarrow> sqrt_price result" where
  "get_sqrt_ratio_at_tick tick =
     (let abs_tick = \<bar>tick\<bar> in
      if UNISWAP_MAX_TICK < abs_tick then Inl (InvalidTickRange tick tick)
      else
        let (ratio, is_unit) = fold (apply_bit abs_tick) TICK_MAGIC (0, True);
            result = (if is_unit then 0x100000000000000000000000000000000 else ucast ratio) :: u256;
            result = (if 0 < tick then - 1 div result else result)
        in Inr (SqrtPrice (drop_bit 32 (result + 0xFFFFFFFF))))"

subsection \<open>The multiply-shift is the exact upper half of the product\<close>

lemma uint_drop_bit [word_to_int]: "uint (drop_bit n (a :: 'a::len word)) = uint a div 2 ^ n"
  by (subst unsigned_drop_bit_eq) (simp add: drop_bit_eq_div take_bit_int_eq_self uint_below)

lemma uint_of_bool [simp]: "uint (of_bool p :: u128) = of_bool p"
  by (cases p) simp_all

lemma half_product:
  fixes x y :: u64
  shows "uint ((ucast x :: u128) * ucast y) = uint x * uint y" "uint x * uint y \<le> (2 ^ 64 - 1) * (2 ^ 64 - 1)"
proof -
  have b: "uint x \<le> 2 ^ 64 - 1" "uint y \<le> 2 ^ 64 - 1"
    using uint_below[of x] uint_below[of y] by simp_all
  then show m: "uint x * uint y \<le> (2 ^ 64 - 1) * (2 ^ 64 - 1)"
    by (intro mult_mono) auto
  have u: "uint (ucast x :: u128) = uint x" "uint (ucast y :: u128) = uint y"
    by (rule uint_ucast_up; simp)+
  have "uint x * uint y < 2 ^ 128" using m by simp
  then show "uint ((ucast x :: u128) * ucast y) = uint x * uint y"
    by (subst uint_mult_exact) (simp_all add: u)
qed

lemma overflowing_add_value:
  assumes "overflowing_add a b = (s, c)"
  shows "uint a + uint b = uint s + of_bool c * 2 ^ 128"
proof -
  have sum: "uint (a + b) = (uint a + uint b) mod 2 ^ 128" by (simp add: uint_word_ariths)
  have lt: "uint a + uint b < 2 * 2 ^ 128" using uint_below[of a] uint_below[of b] by simp
  show ?thesis
  proof (cases c)
    case True
    then have "2 ^ 128 \<le> uint a + uint b" using assms by (auto simp: overflowing_add_def)
    then have "(uint a + uint b - 2 ^ 128) mod 2 ^ 128 = uint a + uint b - 2 ^ 128"
      using lt by (intro mod_pos_pos_trivial) linarith+
    then have "(uint a + uint b) mod 2 ^ 128 = uint a + uint b - 2 ^ 128"
      by (simp only: minus_mod_self2)
    then show ?thesis using assms sum True by (auto simp: overflowing_add_def)
  next
    case False
    then have "uint a + uint b < 2 ^ 128" using assms by (auto simp: overflowing_add_def)
    then show ?thesis using assms sum False by (auto simp: overflowing_add_def)
  qed
qed

lemma halves:
  "uint (ucast (drop_bit 64 a) :: u64) = uint (a :: u128) div 2 ^ 64"
  "uint (ucast a :: u64) = uint a mod 2 ^ 64"
proof -
  have "uint a div 2 ^ 64 < 2 ^ 64"
    using uint_below[of a] fdiv_ge_iff[of "2 ^ 64" "2 ^ 64" "uint a"] by simp
  then show "uint (ucast (drop_bit 64 a) :: u64) = uint a div 2 ^ 64"
    by (subst uint_ucast_exact) (simp_all add: uint_drop_bit)
  show "uint (ucast a :: u64) = uint a mod 2 ^ 64"
    by (simp add: unsigned_ucast_eq take_bit_eq_mod)
qed

lemma schoolbook:
  fixes ah al bh bl mid :: int
  assumes "al * bh + ah * bl + al * bl div 2 ^ 64 = mid + c * 2 ^ 128"
  shows "(ah * 2 ^ 64 + al) * (bh * 2 ^ 64 + bl) div 2 ^ 128 = ah * bh + mid div 2 ^ 64 + c * 2 ^ 64"
proof -
  have "(ah * 2 ^ 64 + al) * (bh * 2 ^ 64 + bl)
      = (ah * bh * 2 ^ 64 + (al * bh + ah * bl)) * 2 ^ 64 + al * bl"
    by (simp add: algebra_simps)
  then have "(ah * 2 ^ 64 + al) * (bh * 2 ^ 64 + bl) div 2 ^ 64
      = ah * bh * 2 ^ 64 + (al * bh + ah * bl) + al * bl div 2 ^ 64" by simp
  also have "\<dots> = mid + (ah * bh + c * 2 ^ 64) * 2 ^ 64" using assms by simp
  finally have "(ah * 2 ^ 64 + al) * (bh * 2 ^ 64 + bl) div 2 ^ 64 div 2 ^ 64
      = mid div 2 ^ 64 + (ah * bh + c * 2 ^ 64)" by simp
  moreover have "x div 2 ^ 64 div 2 ^ 64 = x div 2 ^ 128" for x :: int
    by (simp add: zdiv_zmult2_eq[symmetric])
  ultimately show ?thesis by simp
qed

lemma uint_mul_shift_128: "uint (mul_shift_128 a b) = uint a * uint b div 2 ^ 128"
proof -
  let ?ah = "ucast (drop_bit 64 a) :: u64" and ?al = "ucast a :: u64"
  let ?bh = "ucast (drop_bit 64 b) :: u64" and ?bl = "ucast b :: u64"
  let ?ll = "(ucast ?al :: u128) * ucast ?bl"
  let ?hh = "(ucast ?ah :: u128) * ucast ?bh"
  obtain cross c1 where 1: "overflowing_add ((ucast ?al :: u128) * ucast ?bh) (ucast ?ah * ucast ?bl) = (cross, c1)"
    by (cases "overflowing_add ((ucast ?al :: u128) * ucast ?bh) (ucast ?ah * ucast ?bl)")
  obtain mid c2 where 2: "overflowing_add cross (drop_bit 64 ?ll) = (mid, c2)"
    by (cases "overflowing_add cross (drop_bit 64 ?ll)")
  let ?c = "of_bool c1 + of_bool c2 :: u128"
  have ab: "uint a = uint ?ah * 2 ^ 64 + uint ?al" "uint b = uint ?bh * 2 ^ 64 + uint ?bl"
    unfolding halves(1)[of a] halves(2)[of a] halves(1)[of b] halves(2)[of b]
    by (simp_all only: div_mult_mod_eq)
  have c: "uint ?c = of_bool c1 + of_bool c2" by (cases c1; cases c2) simp_all
  have "uint ?al * uint ?bh + uint ?ah * uint ?bl + uint ?al * uint ?bl div 2 ^ 64 = uint mid + uint ?c * 2 ^ 128"
    using overflowing_add_value[OF 1] overflowing_add_value[OF 2]
    by (simp add: half_product uint_drop_bit c distrib_right)
  from schoolbook[OF this] have prod:
    "uint a * uint b div 2 ^ 128 = uint ?ah * uint ?bh + uint mid div 2 ^ 64 + uint ?c * 2 ^ 64"
    unfolding ab .
  have lt: "uint a * uint b div 2 ^ 128 < 2 ^ 128"
  proof -
    have "uint a * uint b < 2 ^ 128 * 2 ^ 128"
      using uint_below[of a] uint_below[of b] by (intro mult_strict_mono) auto
    then show ?thesis using fdiv_ge_iff[of "2 ^ 128" "2 ^ 128" "uint a * uint b"] by simp
  qed
  have nn: "0 \<le> uint mid div 2 ^ 64" "0 \<le> uint ?ah * uint ?bh" "0 \<le> uint ?c * 2 ^ 64"
    by (simp_all add: pos_imp_zdiv_nonneg_iff)
  have lt1: "uint ?ah * uint ?bh + uint mid div 2 ^ 64 < 2 ^ 128"
    using lt prod nn by linarith
  have push: "uint (push_bit 64 ?c) = uint ?c * 2 ^ 64"
    by (cases c1; cases c2) simp_all
  have s1: "uint (?hh + drop_bit 64 mid) = uint ?ah * uint ?bh + uint mid div 2 ^ 64"
    using lt1 by (subst uint_add_exact) (simp_all add: half_product uint_drop_bit)
  have s2: "uint (?hh + drop_bit 64 mid + push_bit 64 ?c)
      = uint ?ah * uint ?bh + uint mid div 2 ^ 64 + uint ?c * 2 ^ 64"
    using lt prod by (subst uint_add_exact) (simp_all add: s1 push)
  have "mul_shift_128 a b = ?hh + drop_bit 64 mid + push_bit 64 ?c"
    unfolding mul_shift_128_def Let_def 1 prod.case 2 ..
  then show ?thesis using s2 prod by simp
qed

subsection \<open>Properties\<close>

text \<open>The four 64-bit partial products of \<open>mul_shift_128\<close>, with their carries, give exactly the
  upper half of the 256-bit product.\<close>

theorem mul_shift_exact: "uint (mul_shift_128 a b) = uint a * uint b div 2 ^ 128"
  by (rule uint_mul_shift_128)

end
