(* ===== verification/Tick_Accuracy.thy ===== *)
theory Tick_Accuracy
  imports Tick_Math
begin

text \<open>
  The error analysis behind the order of \<open>get_sqrt_ratio_at_tick\<close>. The fold of truncated
  products is compared with the exact product of the table's constants over \<open>2 ^ 128\<close>: it is at most
  one unit low per entry, while one tick down shrinks the exact product by at least 4.9 parts in
  a hundred thousand. Twenty truncations cannot close that gap, so the computed ratio strictly
  falls with the distance from tick zero.
\<close>

subsection \<open>The fold on integers\<close>

fun ratio_from :: "int list \<Rightarrow> int \<Rightarrow> int \<Rightarrow> int" where
  "ratio_from [] n v = v"
| "ratio_from (m # ms) n v = ratio_from ms (n div 2) (if odd n then v * m div 2 ^ 128 else v)"

definition MAGIC :: "int list" where
  "MAGIC = map (\<lambda>(b, m). uint m) TICK_MAGIC"

definition state_ratio :: "u128 \<times> bool \<Rightarrow> int" where
  "state_ratio s = (if snd s then 2 ^ 128 else uint (fst s))"

lemma and_two_power: "n AND 2 ^ k \<noteq> 0 \<longleftrightarrow> odd (n div 2 ^ k)" for n :: int
  by (simp add: and_exp_eq_0_iff_not_bit bit_iff_odd)

lemma state_ratio_apply_bit:
  "state_ratio (apply_bit n (2 ^ k, m) s)
     = (if odd (n div 2 ^ k) then state_ratio s * uint m div 2 ^ 128 else state_ratio s)"
  by (cases s) (simp add: apply_bit_def Let_def and_two_power state_ratio_def uint_mul_shift_128)

lemma fold_apply_bit:
  "state_ratio (fold (apply_bit n) (zip (map (\<lambda>i. 2 ^ (k + i)) [0..<length ms]) ms) s)
     = ratio_from (map uint ms) (n div 2 ^ k) (state_ratio s)"
proof (induction ms arbitrary: k s)
  case (Cons m ms)
  have shift: "zip (map (\<lambda>i. 2 ^ (k + i)) [0..<length (m # ms)]) (m # ms)
      = (2 ^ k, m) # zip (map (\<lambda>i. 2 ^ (Suc k + i)) [0..<length ms]) ms"
    by (simp add: upt_conv_Cons map_Suc_upt[symmetric] comp_def del: upt_Suc map_Suc_upt)
  have "n div 2 ^ k div 2 = n div 2 ^ Suc k"
    by (simp only: power_Suc2 zdiv_zmult2_eq)
  then show ?case unfolding shift using Cons.IH[of "Suc k" "apply_bit n (2 ^ k, m) s"]
    by (simp add: state_ratio_apply_bit)
qed simp

lemma TICK_MAGIC_zip:
  "TICK_MAGIC = zip (map (\<lambda>i. 2 ^ (0 + i)) [0..<length (map snd TICK_MAGIC)]) (map snd TICK_MAGIC)"
  by (simp add: TICK_MAGIC_def upt_rec)

definition tick_ratio :: "int \<Rightarrow> int" where
  "tick_ratio n = ratio_from MAGIC n (2 ^ 128)"

lemma state_ratio_fold: "state_ratio (fold (apply_bit n) TICK_MAGIC (0, True)) = tick_ratio n"
proof -
  have "map uint (map snd TICK_MAGIC) = MAGIC" by (auto simp: MAGIC_def)
  then show ?thesis
    using fold_apply_bit[of n 0 "map snd TICK_MAGIC" "(0, True)"]
    unfolding TICK_MAGIC_zip[symmetric] by (simp add: tick_ratio_def state_ratio_def)
qed

subsection \<open>The exact product\<close>

fun exact_ratio :: "int list \<Rightarrow> int \<Rightarrow> real" where
  "exact_ratio [] n = 1"
| "exact_ratio (m # ms) n = (if odd n then m / 2 ^ 128 else 1) * exact_ratio ms (n div 2)"

lemma exact_ratio_bounds:
  "\<forall>m \<in> set ms. 0 < m \<and> m < 2 ^ 128 \<Longrightarrow> 0 < exact_ratio ms n \<and> exact_ratio ms n \<le> 1"
proof (induction ms arbitrary: n)
  case (Cons m ms)
  then have IH: "0 < exact_ratio ms (n div 2)" "exact_ratio ms (n div 2) \<le> 1"
    and m: "0 < real_of_int m" "real_of_int m < 2 ^ 128" by (simp_all del: of_int_less_numeral_power_cancel_iff) 
  then show ?case by (auto simp: mult_le_one divide_le_eq)
qed simp

lemma floor_div_real: "real_of_int (a div 2 ^ 128) \<le> a / 2 ^ 128" "a / 2 ^ 128 - 1 < real_of_int (a div 2 ^ 128)"
proof -
  have "a div 2 ^ 128 = \<lfloor>real_of_int a / real_of_int (2 ^ 128)\<rfloor>" by (simp only: floor_divide_of_int_eq)
  then show "real_of_int (a div 2 ^ 128) \<le> a / 2 ^ 128" "a / 2 ^ 128 - 1 < real_of_int (a div 2 ^ 128)"
    by simp_all
qed

lemma ratio_from_error:
  assumes "\<forall>m \<in> set ms. 0 < m \<and> m < 2 ^ 128" "0 \<le> d" "e - d \<le> real_of_int v" "v \<le> e"
  shows "e * exact_ratio ms n - (d + length ms) \<le> ratio_from ms n v \<and> ratio_from ms n v \<le> e * exact_ratio ms n"
  using assms
proof (induction ms arbitrary: n v e d)
  case (Cons m ms)
  define c :: real where "c = (if odd n then m / 2 ^ 128 else 1)"
  define w where "w = (if odd n then v * m div 2 ^ 128 else v)"
  have m: "0 < real_of_int m" "real_of_int m < 2 ^ 128"
    using Cons.prems(1) by (simp_all del: of_int_less_numeral_power_cancel_iff)
  then have c: "0 \<le> c" "c \<le> 1" by (simp_all add: c_def divide_le_eq)
  have up: "v * c \<le> e * c" using Cons.prems(4) c(1) by (rule mult_right_mono)
  have low: "e * c - d \<le> v * c"
  proof -
    have "(e - d) * c \<le> v * c" using Cons.prems(3) c(1) by (rule mult_right_mono)
    moreover have "d * c \<le> d" using Cons.prems(2) c by (simp add: mult_left_le)
    ultimately show ?thesis by (simp add: left_diff_distrib)
  qed
  have w: "real_of_int w \<le> v * c" "v * c - 1 \<le> w"
    using floor_div_real[of "v * m"] by (simp_all add: w_def c_def)
  have "e * c * exact_ratio ms (n div 2) - ((d + 1) + length ms) \<le> ratio_from ms (n div 2) w
      \<and> ratio_from ms (n div 2) w \<le> e * c * exact_ratio ms (n div 2)"
    by (rule Cons.IH) (use Cons.prems(1,2) up low w in auto)
  then show ?case by (simp add: w_def c_def algebra_simps split: if_splits)
qed simp

text \<open>
  One step of the counter clears a run of low ones and sets the next bit, so the exact product
  changes by that bit's constant over the run's constants. \<open>steps_below r\<close> says this is at most
  \<open>r\<close> for every position.
\<close>

fun steps_below :: "int list \<Rightarrow> real \<Rightarrow> bool" where
  "steps_below [] r \<longleftrightarrow> True"
| "steps_below (m # ms) r \<longleftrightarrow> m / 2 ^ 128 \<le> r \<and> steps_below ms (r * (m / 2 ^ 128))"

lemma exact_ratio_step:
  assumes "\<forall>m \<in> set ms. 0 < m \<and> m < 2 ^ 128" "steps_below ms r" "0 \<le> n" "n + 1 < 2 ^ length ms"
  shows "exact_ratio ms (n + 1) \<le> r * exact_ratio ms n"
  using assms
proof (induction ms arbitrary: n r)
  case (Cons m ms)
  have pos: "0 < exact_ratio ms (n div 2)" using exact_ratio_bounds Cons.prems(1) by simp
  show ?case
  proof (cases "odd n")
    case False
    then have "(n + 1) div 2 = n div 2" by presburger
    then show ?thesis using False Cons.prems(2) pos by (simp add: mult_right_mono)
  next
    case True
    then have d: "(n + 1) div 2 = n div 2 + 1" by presburger
    have "exact_ratio ms (n div 2 + 1) \<le> r * (m / 2 ^ 128) * exact_ratio ms (n div 2)"
    proof (rule Cons.IH)
      show "n div 2 + 1 < 2 ^ length ms" using Cons.prems(4) d
        fdiv_ge_iff[of 2 "2 ^ length ms" "n + 1"] by simp
      show "0 \<le> n div 2" using Cons.prems(3) by simp
    qed (use Cons.prems(1,2) in simp_all)
    then show ?thesis using True by (simp add: d)
  qed
qed simp


subsection \<open>The table\<close>

lemma MAGIC_eq:
  "MAGIC =
    [0xfffcb933bd6fad37aa2d162d1a594001, 0xfff97272373d413259a46990580e213a,
     0xfff2e50f5f656932ef12357cf3c7fdcc, 0xffe5caca7e10e4e61c3624eaa0941cd0,
     0xffcb9843d60f6159c9db58835c926644, 0xff973b41fa98c081472e6896dfb254c0,
     0xff2ea16466c96a3843ec78b326b52861, 0xfe5dee046a99a2a811c461f1969c3053,
     0xfcbe86c7900a88aedcffc83b479aa3a4, 0xf987a7253ac413176f2b074cf7815e54,
     0xf3392b0822b70005940c7a398e4b70f3, 0xe7159475a2c29b7443b29c7fa6e889d9,
     0xd097f3bdfd2022b8845ad8f792aa5825, 0xa9f746462d870fdf8a65dc1f90e061e5,
     0x70d869a156d2a1b890bb3df62baf32f7, 0x31be135f97d08fd981231505542fcfa6,
     0x9aa508b5b7a84e1c677de54f3e99bc9, 0x5d6af8dedb81196699c329225ee604,
     0x2216e584f5fa1ea926041bedfe98, 0x48a170391f7dc42444e8fa2]"
  by (simp add: MAGIC_def TICK_MAGIC_def)

lemma MAGIC_range: "\<forall>m \<in> set MAGIC. 0 < m \<and> m < 2 ^ 128"
  by (simp add: MAGIC_eq)

lemma length_MAGIC: "length MAGIC = 20"
  by (simp add: MAGIC_eq)

text \<open>The largest step is the first: one tick down shrinks the product by 4.9 parts in 100000.\<close>

lemma steps_below_mono: "\<forall>m \<in> set ms. 0 < m \<Longrightarrow> r \<le> r' \<Longrightarrow> steps_below ms r \<Longrightarrow> steps_below ms r'"
proof (induction ms arbitrary: r r')
  case (Cons m ms)
  have "r * (m / 2 ^ 128) \<le> r' * (m / 2 ^ 128)"
    using Cons.prems(1,2) by (intro mult_right_mono) simp_all
  then have "steps_below ms (r' * (m / 2 ^ 128))"
    using Cons.prems by (intro Cons.IH[of "r * (m / 2 ^ 128)" "r' * (m / 2 ^ 128)"]) simp_all
  moreover have "m / 2 ^ 128 \<le> r'" using Cons.prems(2,3) by simp
  ultimately show ?case by simp
qed simp

text \<open>The same check in 128-bit fixed point, with the running product truncated.\<close>

fun steps_below_int :: "int list \<Rightarrow> int \<Rightarrow> bool" where
  "steps_below_int [] p \<longleftrightarrow> True"
| "steps_below_int (m # ms) p \<longleftrightarrow> m \<le> p \<and> steps_below_int ms (p * m div 2 ^ 128)"

lemma steps_below_int:
  "\<forall>m \<in> set ms. 0 < m \<Longrightarrow> steps_below_int ms p \<Longrightarrow> steps_below ms (p / 2 ^ 128)"
proof (induction ms arbitrary: p)
  case (Cons m ms)
  have "real_of_int m \<le> p" using Cons.prems(2) by simp
  then have "m / 2 ^ 128 \<le> p / (2 ^ 128 :: real)" by (simp add: divide_right_mono)
  moreover have "steps_below ms (real_of_int (p * m div 2 ^ 128) / 2 ^ 128)"
    using Cons by simp
  then have "steps_below ms (p / 2 ^ 128 * (m / 2 ^ 128))"
    by (rule steps_below_mono[rotated 2])
      (use Cons.prems(1) floor_div_real(1)[of "p * m"] in \<open>simp_all add: divide_le_eq\<close>)
  ultimately show ?case by simp
qed simp

lemma MAGIC_steps_int: "steps_below_int MAGIC (999951 * 2 ^ 128 div 1000000)"
  by (simp add: MAGIC_eq)

lemma MAGIC_steps: "steps_below MAGIC (999951 / 1000000)"
proof (rule steps_below_mono[OF _ _ steps_below_int[OF _ MAGIC_steps_int]])
  show "real_of_int (999951 * 2 ^ 128 div 1000000) / 2 ^ 128 \<le> 999951 / 1000000" by simp
qed (use MAGIC_range in auto)

lemma exact_ratio_down:
  assumes "0 \<le> n" "n < 887272"
  shows "exact_ratio MAGIC (n + 1) \<le> 999951 / 1000000 * exact_ratio MAGIC n"
  by (rule exact_ratio_step) (use assms MAGIC_range MAGIC_steps in \<open>simp_all add: length_MAGIC\<close>)

lemma tick_ratio_error:
  "2 ^ 128 * exact_ratio MAGIC n - 20 \<le> tick_ratio n" "tick_ratio n \<le> 2 ^ 128 * exact_ratio MAGIC n"
  using ratio_from_error[OF MAGIC_range, of 0 "2 ^ 128" "2 ^ 128" n]
  by (simp_all add: tick_ratio_def length_MAGIC)

lemma tick_ratio_last: "2 ^ 63 \<le> tick_ratio 887272"
  by (simp add: tick_ratio_def MAGIC_eq)

lemma exact_ratio_last: "1 / 2 ^ 65 \<le> exact_ratio MAGIC 887272"
proof -
  have "real_of_int (2 ^ 63) \<le> tick_ratio 887272" using tick_ratio_last by (simp only: of_int_le_iff)
  then show ?thesis using tick_ratio_error(2)[of 887272] by simp
qed

lemma exact_ratio_antimono: "0 \<le> n \<Longrightarrow> n \<le> 887272 \<Longrightarrow> exact_ratio MAGIC 887272 \<le> exact_ratio MAGIC n"
proof (induction "nat (887272 - n)" arbitrary: n)
  case (Suc k)
  then have "exact_ratio MAGIC 887272 \<le> exact_ratio MAGIC (n + 1)" by simp
  also have "\<dots> \<le> 999951 / 1000000 * exact_ratio MAGIC n"
    using Suc.hyps(2) Suc.prems by (intro exact_ratio_down) auto
  also have "\<dots> \<le> exact_ratio MAGIC n"
    using exact_ratio_bounds[OF MAGIC_range, of n] by simp
  finally show ?case .
qed simp

subsection \<open>The computed ratio\<close>

lemma tick_ratio_bounds:
  assumes "0 \<le> n" "n \<le> 887272"
  shows "2 ^ 62 \<le> tick_ratio n" "tick_ratio n \<le> 2 ^ 128"
proof -
  have "1 / 2 ^ 65 \<le> exact_ratio MAGIC n"
    using exact_ratio_last exact_ratio_antimono[OF assms] by linarith
  then have "2 ^ 128 * (1 / 2 ^ 65) \<le> 2 ^ 128 * exact_ratio MAGIC n" by (intro mult_left_mono) auto
  then have "real_of_int (2 ^ 62) \<le> tick_ratio n" using tick_ratio_error(1)[of n] by simp
  then show "2 ^ 62 \<le> tick_ratio n" by (simp only: of_int_le_iff)
  have "2 ^ 128 * exact_ratio MAGIC n \<le> 2 ^ 128 * 1"
    using exact_ratio_bounds[OF MAGIC_range, of n] by (intro mult_left_mono) auto
  then have "tick_ratio n \<le> real_of_int (2 ^ 128)" using tick_ratio_error(2)[of n] by simp
  then show "tick_ratio n \<le> 2 ^ 128" by (simp only: of_int_le_iff)
qed

lemma tick_ratio_step:
  assumes "0 \<le> n" "n < 887272"
  shows "100000 * tick_ratio (n + 1) \<le> 99996 * tick_ratio n"
proof -
  have big: "real_of_int (2 ^ 62) \<le> tick_ratio n"
    using tick_ratio_bounds(1)[of n] assms by (simp only: of_int_le_iff)
  have "tick_ratio (n + 1) \<le> 999951 / 1000000 * (2 ^ 128 * exact_ratio MAGIC n)"
    using tick_ratio_error(2)[of "n + 1"] exact_ratio_down[OF assms] by simp
  also have "\<dots> \<le> 999951 / 1000000 * (tick_ratio n + 20)"
    using tick_ratio_error(1)[of n] by (intro mult_left_mono) auto
  finally have "100000 * real_of_int (tick_ratio (n + 1)) \<le> 99996 * tick_ratio n"
    using big by simp
  then have "real_of_int (100000 * tick_ratio (n + 1)) \<le> real_of_int (99996 * tick_ratio n)" by simp
  then show ?thesis by (simp only: of_int_le_iff)
qed

end
