(* ===== verification/Tick_Order.thy ===== *)
theory Tick_Order
  imports Tick_Accuracy
begin

text \<open>
  The rest of \<open>src/src/math/tick.rs\<close> on the integer side: the order of
  \<open>get_sqrt_ratio_at_tick\<close>, the binary search \<open>get_tick_at_sqrt_ratio\<close> that inverts it, and the
  alignment of a tick to the pool's spacing. The search is verified against the interface
  \<open>tick_grid\<close>: a strictly increasing price per tick over a range.
\<close>

subsection \<open>The code\<close>

function tick_search :: "sqrt_price \<Rightarrow> i32 \<Rightarrow> i32 \<Rightarrow> i32 result" where
  "tick_search sqrt_price lo hi =
     (if lo + 1 < hi then
        let mid = lo + (hi - lo) div 2 in
        rbind (get_sqrt_ratio_at_tick mid) (\<lambda>s.
          if s \<le> sqrt_price then tick_search sqrt_price mid hi else tick_search sqrt_price lo mid)
      else Inr lo)"
  by pat_completeness auto
termination
  by (relation "measure (\<lambda>(p, lo, hi). nat (hi - lo))") (auto simp: Let_def)

declare tick_search.simps [simp del]

definition get_tick_at_sqrt_ratio :: "sqrt_price \<Rightarrow> i32 result" where
  "get_tick_at_sqrt_ratio sqrt_price =
     rbind (get_sqrt_ratio_at_tick UNISWAP_MIN_TICK) (\<lambda>min.
     rbind (get_sqrt_ratio_at_tick UNISWAP_MAX_TICK) (\<lambda>max.
     if sqrt_price < min \<or> max \<le> sqrt_price then Inl InvalidPrice
     else tick_search sqrt_price UNISWAP_MIN_TICK UNISWAP_MAX_TICK))"

text \<open>
  \<open>rem_euclid\<close> panics on a zero spacing and where the quotient overflows; the difference and the
  sum wrap at 32 bits.
\<close>

definition align_tick_down :: "i32 \<Rightarrow> i32 \<Rightarrow> i32 result" where
  "align_tick_down tick spacing =
     (if spacing = 0 \<or> (spacing = - 1 \<and> tick = - (2 ^ 31)) then Inl Panic
      else Inr (wrap_i32 (tick - tick mod \<bar>spacing\<bar>)))"

definition align_tick_up :: "i32 \<Rightarrow> i32 \<Rightarrow> i32 result" where
  "align_tick_up tick spacing =
     (if spacing = 0 \<or> (spacing = - 1 \<and> tick = - (2 ^ 31)) then Inl Panic
      else let remainder = tick mod \<bar>spacing\<bar>
           in if remainder = 0 then Inr tick
              else Inr (wrap_i32 (tick + wrap_i32 (spacing - remainder))))"

subsection \<open>The value at a tick\<close>

definition tick_x96 :: "int \<Rightarrow> int" where
  "tick_x96 t = ((if 0 < t then (2 ^ 256 - 1) div tick_ratio \<bar>t\<bar> else tick_ratio \<bar>t\<bar>) + (2 ^ 32 - 1)) div 2 ^ 32"

definition on_grid :: "int \<Rightarrow> bool" where
  "on_grid t \<longleftrightarrow> UNISWAP_MIN_TICK \<le> t \<and> t \<le> UNISWAP_MAX_TICK"

lemma on_grid_abs: "on_grid t \<longleftrightarrow> \<bar>t\<bar> \<le> 887272"
  by (auto simp: on_grid_def UNISWAP_MIN_TICK_def UNISWAP_MAX_TICK_def)

lemma state_ratio_word:
  "uint (if snd s then 0x100000000000000000000000000000000 else ucast (fst s) :: u256) = state_ratio s"
  by (simp add: state_ratio_def uint_ucast_up)

lemma wide_quotient_bounds:
  assumes "on_grid t"
  shows "0 \<le> (if 0 < t then (2 ^ 256 - 1) div tick_ratio \<bar>t\<bar> else tick_ratio \<bar>t\<bar>)"
    and "(if 0 < t then (2 ^ 256 - 1) div tick_ratio \<bar>t\<bar> else tick_ratio \<bar>t\<bar>) < 2 ^ 195"
proof -
  have r: "2 ^ 62 \<le> tick_ratio \<bar>t\<bar>" "tick_ratio \<bar>t\<bar> \<le> 2 ^ 128"
    using assms tick_ratio_bounds[of "\<bar>t\<bar>"] by (simp_all add: on_grid_abs)
  have "(2 ^ 256 - 1) div tick_ratio \<bar>t\<bar> \<le> (2 ^ 256 - 1) div 2 ^ 62"
    using r by (intro zdiv_mono2) simp_all
  then have "(2 ^ 256 - 1) div tick_ratio \<bar>t\<bar> < 2 ^ 195" by simp
  then show "(if 0 < t then (2 ^ 256 - 1) div tick_ratio \<bar>t\<bar> else tick_ratio \<bar>t\<bar>) < 2 ^ 195"
    using r by (cases "0 < t") simp_all
  show "0 \<le> (if 0 < t then (2 ^ 256 - 1) div tick_ratio \<bar>t\<bar> else tick_ratio \<bar>t\<bar>)"
    using r by (cases "0 < t") (simp_all add: pos_imp_zdiv_nonneg_iff)
qed

lemma get_sqrt_ratio_at_tick_on_grid:
  assumes "on_grid t"
  obtains w where "get_sqrt_ratio_at_tick t = Inr (SqrtPrice w)" "uint w = tick_x96 t"
proof -
  define s where "s = fold (apply_bit \<bar>t\<bar>) TICK_MAGIC (0, True)"
  define r where "r = (if snd s then 0x100000000000000000000000000000000 else ucast (fst s) :: u256)"
  define res where "res = (if 0 < t then - 1 div r else r)"
  have r: "uint r = tick_ratio \<bar>t\<bar>" unfolding r_def state_ratio_word s_def state_ratio_fold ..
  have res: "uint res = (if 0 < t then (2 ^ 256 - 1) div tick_ratio \<bar>t\<bar> else tick_ratio \<bar>t\<bar>)"
    by (simp add: res_def r uint_div_distrib)
  have sum: "uint (res + 0xFFFFFFFF) = uint res + (2 ^ 32 - 1)"
    using wide_quotient_bounds[OF assms] by (subst uint_add_exact) (simp_all add: res)
  have "get_sqrt_ratio_at_tick t = Inr (SqrtPrice (drop_bit 32 (res + 0xFFFFFFFF)))"
    using assms unfolding get_sqrt_ratio_at_tick_def res_def r_def s_def on_grid_abs
    by (simp add: UNISWAP_MAX_TICK_def case_prod_unfold)
  moreover have "uint (drop_bit 32 (res + 0xFFFFFFFF)) = tick_x96 t"
    by (simp add: uint_drop_bit sum res tick_x96_def)
  ultimately show thesis by (rule that)
qed

lemma get_sqrt_ratio_at_tick_off_grid:
  "\<not> on_grid t \<Longrightarrow> get_sqrt_ratio_at_tick t = Inl (InvalidTickRange t t)"
  by (simp add: get_sqrt_ratio_at_tick_def on_grid_abs UNISWAP_MAX_TICK_def)

subsection \<open>Strictly increasing\<close>

lemma ceil_shift_strict:
  fixes a b :: int
  assumes "a + 2 ^ 32 \<le> b"
  shows "(a + (2 ^ 32 - 1)) div 2 ^ 32 < (b + (2 ^ 32 - 1)) div 2 ^ 32"
proof -
  have "(a + (2 ^ 32 - 1)) div 2 ^ 32 + 1 = (a + 2 ^ 32 + (2 ^ 32 - 1)) div 2 ^ 32" by simp
  also have "\<dots> \<le> (b + (2 ^ 32 - 1)) div 2 ^ 32" using assms by (intro zdiv_mono1) simp_all
  finally show ?thesis by simp
qed

lemma tick_ratio_gap:
  assumes "0 \<le> n" "n < 887272"
  shows "tick_ratio (n + 1) + 2 ^ 32 \<le> tick_ratio n"
  using tick_ratio_step[OF assms] tick_ratio_bounds(1)[of n] assms by simp

text \<open>Above tick zero the ratio is inverted, so a shrinking denominator widens the quotient.\<close>

lemma inverse_gap:
  fixes r r' :: int
  assumes "0 < r'" "100000 * r' \<le> 99996 * r" "r \<le> 2 ^ 128"
  shows "(2 ^ 256 - 1) div r + 2 ^ 32 \<le> (2 ^ 256 - 1) div r'"
proof -
  let ?M = "2 ^ 256 - 1 :: int" and ?q = "(2 ^ 256 - 1) div r"
  have r: "0 < r" using assms by linarith
  have qr: "?q * r \<le> ?M" using r fdiv_ge_iff[of r ?q ?M] by simp
  have "?M < (?q + 1) * r" using r fdiv_ge_iff[of r "?q + 1" ?M] by simp
  also have "\<dots> \<le> (?q + 1) * 2 ^ 128"
    using assms(3) r by (intro mult_left_mono) (simp_all add: pos_imp_zdiv_nonneg_iff add_nonneg_nonneg)
  finally have q: "2 ^ 127 \<le> ?q" by simp
  have "(?q + 2 ^ 32) * (100000 * r') \<le> (?q + 2 ^ 32) * (99996 * r)"
    using assms(2) q by (intro mult_left_mono) simp_all
  also have "\<dots> = (99996 * (?q + 2 ^ 32)) * r" by simp
  also have "\<dots> \<le> (100000 * ?q) * r" using q r by (intro mult_right_mono) simp_all
  also have "\<dots> = 100000 * (?q * r)" by simp
  also have "\<dots> \<le> 100000 * ?M" using qr by (intro mult_left_mono) simp_all
  finally have "100000 * ((?q + 2 ^ 32) * r') \<le> 100000 * ?M" by (simp only: mult.left_commute)
  then have "(?q + 2 ^ 32) * r' \<le> ?M" by (rule mult_left_le_imp_le) simp
  then show ?thesis using assms(1) fdiv_ge_iff[of r' "?q + 2 ^ 32" ?M] by blast
qed

lemma tick_x96_step:
  assumes "on_grid t" "on_grid (t + 1)"
  shows "tick_x96 t < tick_x96 (t + 1)"
proof (cases "t < 0")
  case True
  have a: "\<bar>t\<bar> = (- t - 1) + 1" "\<bar>t + 1\<bar> = - t - 1" using True by auto
  have "tick_ratio \<bar>t\<bar> + 2 ^ 32 \<le> tick_ratio \<bar>t + 1\<bar>"
    using tick_ratio_gap[of "- t - 1"] assms True unfolding a on_grid_abs by simp
  then show ?thesis using True by (simp add: tick_x96_def ceil_shift_strict)
next
  case False
  have a: "\<bar>t\<bar> = t" "\<bar>t + 1\<bar> = t + 1" using False by auto
  have t: "0 \<le> t" "t < 887272" using False assms(2) by (auto simp: on_grid_abs)
  have r: "0 < tick_ratio (t + 1)" "100000 * tick_ratio (t + 1) \<le> 99996 * tick_ratio t" "tick_ratio t \<le> 2 ^ 128"
    using tick_ratio_bounds(1)[of "t + 1"] tick_ratio_bounds(2)[of t] tick_ratio_step[OF t] t by simp_all
  have gap: "(2 ^ 256 - 1) div tick_ratio t + 2 ^ 32 \<le> (2 ^ 256 - 1) div tick_ratio (t + 1)"
    by (rule inverse_gap[OF r])
  show ?thesis
  proof (cases "t = 0")
    case True
    have "(2 ^ 256 - 1) div (99996 * 2 ^ 128 div 100000) \<le> (2 ^ 256 - 1) div tick_ratio 1"
      using r True by (intro zdiv_mono2) (simp_all add: tick_ratio_def MAGIC_eq)
    then have "2 ^ 128 + 2 ^ 32 \<le> (2 ^ 256 - 1) div tick_ratio 1" by simp
    moreover have "tick_ratio 0 = 2 ^ 128" by (simp add: tick_ratio_def MAGIC_eq)
    ultimately show ?thesis using ceil_shift_strict[of "2 ^ 128" "(2 ^ 256 - 1) div tick_ratio 1"]
      by (simp add: tick_x96_def True)
  next
    case False
    then show ?thesis using gap t by (simp add: tick_x96_def a ceil_shift_strict)
  qed
qed


subsection \<open>The search, over any strictly increasing grid\<close>

locale tick_grid =
  fixes price_at :: "int \<Rightarrow> 'p::linorder" and first last :: int
  assumes step: "first \<le> t \<Longrightarrow> t < last \<Longrightarrow> price_at t < price_at (t + 1)"
begin

lemma strict_mono: "first \<le> s \<Longrightarrow> s < t \<Longrightarrow> t \<le> last \<Longrightarrow> price_at s < price_at t"
proof (induction "nat (t - s)" arbitrary: t)
  case (Suc k)
  show ?case
  proof (cases "s = t - 1")
    case True
    then show ?thesis using step[of s] Suc.prems by simp
  next
    case False
    then have "price_at s < price_at (t - 1)" using Suc by (intro Suc.hyps(1)) auto
    also have "\<dots> < price_at t" using step[of "t - 1"] Suc.prems by simp
    finally show ?thesis .
  qed
qed simp

lemma less_iff: "first \<le> s \<Longrightarrow> s \<le> last \<Longrightarrow> first \<le> t \<Longrightarrow> t \<le> last \<Longrightarrow> price_at s < price_at t \<longleftrightarrow> s < t"
  using strict_mono[of s t] strict_mono[of t s] by (metis less_asym linorder_neqE)

lemma le_iff:
  assumes "first \<le> s" "s \<le> last" "first \<le> t" "t \<le> last"
  shows "price_at s \<le> price_at t \<longleftrightarrow> s \<le> t"
  using less_iff[OF assms(3,4,1,2)] linorder_not_less[of "price_at t" "price_at s"]
    linorder_not_less[of t s] by blast

text \<open>A bracket of width one around \<open>p\<close> is the greatest tick at or below \<open>p\<close>.\<close>

lemma bracket_greatest:
  assumes "first \<le> t" "t < last" "price_at t \<le> p" "p < price_at (t + 1)" "first \<le> s" "s \<le> last"
  shows "price_at s \<le> p \<longleftrightarrow> s \<le> t"
proof
  assume "price_at s \<le> p"
  then have "price_at s < price_at (t + 1)" using assms(4) by simp
  then show "s \<le> t" using less_iff[of s "t + 1"] assms by simp
next
  assume "s \<le> t"
  then show "price_at s \<le> p" using le_iff[of s t] assms by simp
qed

lemma bracket_unique:
  assumes "first \<le> t" "t < last" "price_at t \<le> p" "p < price_at (t + 1)"
    and "first \<le> s" "s < last" "price_at s \<le> p" "p < price_at (s + 1)"
  shows "s = t"
  using bracket_greatest[OF assms(1-4), of s] bracket_greatest[OF assms(5-8), of t] assms by simp

end

definition sqrt_at :: "int \<Rightarrow> sqrt_price" where
  "sqrt_at t = SqrtPrice (word_of_int (tick_x96 t))"

lemma get_sqrt_ratio_at_tick_eq:
  "get_sqrt_ratio_at_tick t = (if on_grid t then Inr (sqrt_at t) else Inl (InvalidTickRange t t))"
proof (cases "on_grid t")
  case True
  then obtain w where "get_sqrt_ratio_at_tick t = Inr (SqrtPrice w)" "uint w = tick_x96 t"
    by (rule get_sqrt_ratio_at_tick_on_grid)
  then show ?thesis using True by (simp add: sqrt_at_def flip: \<open>uint w = tick_x96 t\<close>)
qed (simp add: get_sqrt_ratio_at_tick_off_grid)

lemma uint_sqrt_at: "on_grid t \<Longrightarrow> uint (sqrt_x96 (sqrt_at t)) = tick_x96 t"
  by (rule get_sqrt_ratio_at_tick_on_grid[of t]) (simp_all add: get_sqrt_ratio_at_tick_eq)

interpretation sqrt_grid: tick_grid sqrt_at UNISWAP_MIN_TICK UNISWAP_MAX_TICK
proof unfold_locales
  fix t assume "UNISWAP_MIN_TICK \<le> t" "t < UNISWAP_MAX_TICK"
  then have "on_grid t" "on_grid (t + 1)" by (auto simp: on_grid_def)
  then show "sqrt_at t < sqrt_at (t + 1)"
    using tick_x96_step[of t] by (simp add: price_order word_less_def uint_sqrt_at)
qed

lemma tick_search_unfold:
  assumes "lo + 1 < hi" "on_grid (lo + (hi - lo) div 2)"
  shows "tick_search p lo hi =
    (if sqrt_at (lo + (hi - lo) div 2) \<le> p then tick_search p (lo + (hi - lo) div 2) hi
     else tick_search p lo (lo + (hi - lo) div 2))"
  using assms by (subst tick_search.simps) (simp add: Let_def get_sqrt_ratio_at_tick_eq)

lemma tick_search_bracket:
  assumes "UNISWAP_MIN_TICK \<le> lo" "lo < hi" "hi \<le> UNISWAP_MAX_TICK" "sqrt_at lo \<le> p" "p < sqrt_at hi"
  shows "\<exists>t. tick_search p lo hi = Inr t \<and> lo \<le> t \<and> t < hi \<and> sqrt_at t \<le> p \<and> p < sqrt_at (t + 1)"
  using assms
proof (induction "nat (hi - lo)" arbitrary: lo hi rule: less_induct)
  case less
  show ?case
  proof (cases "lo + 1 < hi")
    case True
    define mid where "mid = lo + (hi - lo) div 2"
    have mid: "lo < mid" "mid < hi" "on_grid mid" using True less.prems by (auto simp: mid_def on_grid_def)
    note unfold = tick_search_unfold[OF True, of p, folded mid_def, OF mid(3)]
    show ?thesis
    proof (cases "sqrt_at mid \<le> p")
      case le: True
      have "\<exists>t. tick_search p mid hi = Inr t \<and> mid \<le> t \<and> t < hi \<and> sqrt_at t \<le> p \<and> p < sqrt_at (t + 1)"
        by (rule less.hyps) (use le mid less.prems in simp_all)
      then show ?thesis using unfold le mid by auto
    next
      case gt: False
      have "\<exists>t. tick_search p lo mid = Inr t \<and> lo \<le> t \<and> t < mid \<and> sqrt_at t \<le> p \<and> p < sqrt_at (t + 1)"
        by (rule less.hyps) (use gt mid less.prems in simp_all)
      then show ?thesis using unfold gt mid by auto
    qed
  next
    case False
    then have "hi = lo + 1" using less.prems by simp
    then show ?thesis using less.prems by (auto simp: tick_search.simps)
  qed
qed

definition in_domain :: "sqrt_price \<Rightarrow> bool" where
  "in_domain p \<longleftrightarrow> sqrt_at UNISWAP_MIN_TICK \<le> p \<and> p < sqrt_at UNISWAP_MAX_TICK"

lemma ends_on_grid [simp]: "on_grid UNISWAP_MIN_TICK" "on_grid UNISWAP_MAX_TICK"
  by (simp_all add: on_grid_abs UNISWAP_MIN_TICK_def UNISWAP_MAX_TICK_def)

lemma get_tick_outside: "\<not> in_domain p \<Longrightarrow> get_tick_at_sqrt_ratio p = Inl InvalidPrice"
  by (auto simp: get_tick_at_sqrt_ratio_def get_sqrt_ratio_at_tick_eq in_domain_def)

lemma get_tick_inside:
  assumes "in_domain p"
  obtains t where "get_tick_at_sqrt_ratio p = Inr t" "UNISWAP_MIN_TICK \<le> t" "t < UNISWAP_MAX_TICK"
    "sqrt_at t \<le> p" "p < sqrt_at (t + 1)"
proof -
  have "UNISWAP_MIN_TICK < UNISWAP_MAX_TICK" by (simp add: UNISWAP_MIN_TICK_def UNISWAP_MAX_TICK_def)
  then obtain t where "tick_search p UNISWAP_MIN_TICK UNISWAP_MAX_TICK = Inr t"
    "UNISWAP_MIN_TICK \<le> t" "t < UNISWAP_MAX_TICK" "sqrt_at t \<le> p" "p < sqrt_at (t + 1)"
    using tick_search_bracket[of UNISWAP_MIN_TICK UNISWAP_MAX_TICK p] assms by (auto simp: in_domain_def)
  then show ?thesis using assms
    by (intro that[of t]) (auto simp: get_tick_at_sqrt_ratio_def get_sqrt_ratio_at_tick_eq in_domain_def)
qed

lemma get_tick_iff:
  "get_tick_at_sqrt_ratio p = Inr t \<longleftrightarrow>
     UNISWAP_MIN_TICK \<le> t \<and> t < UNISWAP_MAX_TICK \<and> sqrt_at t \<le> p \<and> p < sqrt_at (t + 1)"
proof
  assume a: "get_tick_at_sqrt_ratio p = Inr t"
  then have "in_domain p" using get_tick_outside by fastforce
  then show "UNISWAP_MIN_TICK \<le> t \<and> t < UNISWAP_MAX_TICK \<and> sqrt_at t \<le> p \<and> p < sqrt_at (t + 1)"
    using a by (auto elim: get_tick_inside)
next
  assume t: "UNISWAP_MIN_TICK \<le> t \<and> t < UNISWAP_MAX_TICK \<and> sqrt_at t \<le> p \<and> p < sqrt_at (t + 1)"
  have "sqrt_at UNISWAP_MIN_TICK \<le> sqrt_at t" "sqrt_at (t + 1) \<le> sqrt_at UNISWAP_MAX_TICK"
    using t sqrt_grid.le_iff[of UNISWAP_MIN_TICK t] sqrt_grid.le_iff[of "t + 1" UNISWAP_MAX_TICK] by auto
  then have "in_domain p" using t by (auto simp: in_domain_def)
  then obtain s where "get_tick_at_sqrt_ratio p = Inr s" "UNISWAP_MIN_TICK \<le> s" "s < UNISWAP_MAX_TICK"
    "sqrt_at s \<le> p" "p < sqrt_at (s + 1)" by (rule get_tick_inside)
  moreover from this t have "s = t" by (intro sqrt_grid.bracket_unique[of t p s]) auto
  ultimately show "get_tick_at_sqrt_ratio p = Inr t" by simp
qed

subsection \<open>Properties\<close>

text \<open>\<open>get_sqrt_ratio_at_tick\<close> answers exactly on the V4 domain, and its answers are strictly
  increasing in the tick: two ticks compare as their root prices do.\<close>

theorem sqrt_ratio_strictly_increasing:
  assumes "get_sqrt_ratio_at_tick s = Inr a" "get_sqrt_ratio_at_tick t = Inr b"
  shows "(a < b \<longleftrightarrow> s < t) \<and> UNISWAP_MIN_TICK \<le> s \<and> s \<le> UNISWAP_MAX_TICK"
proof -
  have "on_grid s" "on_grid t" "a = sqrt_at s" "b = sqrt_at t"
    using assms by (auto simp: get_sqrt_ratio_at_tick_eq split: if_splits)
  then show ?thesis using sqrt_grid.less_iff[of s t] by (simp add: on_grid_def)
qed

theorem sqrt_ratio_strictly_increasing_witness:
  "get_sqrt_ratio_at_tick 0 = Inr (SqrtPrice (2 ^ 96))
    \<and> get_sqrt_ratio_at_tick 30 = Inr (SqrtPrice 79347087983666005045280518415)
    \<and> (SqrtPrice (2 ^ 96) < SqrtPrice 79347087983666005045280518415 \<longleftrightarrow> (0::int) < 30)"
proof -
  have a: "get_sqrt_ratio_at_tick 0 = Inr (SqrtPrice (2 ^ 96))" by code_simp
  have b: "get_sqrt_ratio_at_tick 30 = Inr (SqrtPrice 79347087983666005045280518415)" by code_simp
  show ?thesis using a b sqrt_ratio_strictly_increasing[OF a b] by blast
qed

text \<open>C14: The binary search of \<open>get_tick_at_sqrt_ratio\<close> returns a tick exactly when that tick's price is
  at or below the given root price and the next tick's is above it: the greatest tick at or below,
  for every price of the domain, and an error outside it.\<close>

theorem tick_search_exact:
  "get_tick_at_sqrt_ratio p = Inr t \<longleftrightarrow>
     (\<exists>a b. get_sqrt_ratio_at_tick t = Inr a \<and> get_sqrt_ratio_at_tick (t + 1) = Inr b \<and> a \<le> p \<and> p < b)"
proof -
  have "UNISWAP_MIN_TICK \<le> t \<and> t < UNISWAP_MAX_TICK \<longleftrightarrow> on_grid t \<and> on_grid (t + 1)"
    by (auto simp: on_grid_def)
  then show ?thesis by (auto simp: get_tick_iff get_sqrt_ratio_at_tick_eq)
qed

text \<open>A tick survives the round trip through its own root price, and so does every price strictly
  between it and the next: the search inverts the tick map.\<close>

theorem tick_round_trip:
  assumes "get_sqrt_ratio_at_tick t = Inr p" "t < UNISWAP_MAX_TICK"
  shows "get_tick_at_sqrt_ratio p = Inr t"
proof -
  have "on_grid t" "on_grid (t + 1)" "p = sqrt_at t"
    using assms by (auto simp: get_sqrt_ratio_at_tick_eq on_grid_def split: if_splits)
  then show ?thesis using sqrt_grid.less_iff[of t "t + 1"] assms(2)
    by (simp add: get_tick_iff on_grid_def)
qed

theorem tick_round_trip_witness:
  "get_tick_at_sqrt_ratio (SqrtPrice 79347087983666005045280518415) = Inr 30"
proof -
  have "get_sqrt_ratio_at_tick 30 = Inr (SqrtPrice 79347087983666005045280518415)" by code_simp
  then show ?thesis by (rule tick_round_trip) (simp add: UNISWAP_MAX_TICK_def)
qed

text \<open>Alignment to a positive spacing: down gives the greatest multiple at or below the tick, up the
  least at or above it, for every tick more than one spacing from the ends of 32 bits.\<close>

theorem align_tick_nearest:
  assumes "0 < spacing" "- (2 ^ 31) + spacing \<le> t" "t < 2 ^ 31 - spacing"
  shows "align_tick_down t spacing = Inr (spacing * (t div spacing))
    \<and> align_tick_up t spacing = Inr (spacing * cdiv t spacing)"
proof -
  define r where "r = t mod spacing"
  have r: "0 \<le> r" "r < spacing" using assms(1) by (simp_all add: r_def)
  have wraps: "wrap_i32 (t - r) = t - r" "wrap_i32 (spacing - r) = spacing - r"
    "wrap_i32 (t + (spacing - r)) = t + (spacing - r)"
    by (rule wrap_i32_id; use r assms in simp)+
  have down: "t - r = spacing * (t div spacing)" by (simp add: r_def minus_mod_eq_mult_div)
  then have up: "t + (spacing - r) = spacing * (t div spacing + 1)" by (simp only: distrib_left)
  have abs: "\<bar>spacing\<bar> = spacing" "spacing \<noteq> 0" "spacing \<noteq> - 1" using assms(1) by simp_all
  show ?thesis
  proof (cases "r = 0")
    case True
    then show ?thesis using down wraps(1) abs
      by (simp add: align_tick_down_def align_tick_up_def cdiv_def flip: r_def)
  next
    case False
    then show ?thesis
      unfolding align_tick_down_def align_tick_up_def cdiv_def abs(1) r_def[symmetric] Let_def wraps
      using abs down up by (simp only: if_False simp_thms)
  qed
qed

theorem align_tick_nearest_witness:
  "align_tick_down (- 35) 30 = Inr (- 60) \<and> align_tick_up (- 35) 30 = Inr (- 30)"
  using align_tick_nearest[of 30 "- 35"] by (simp add: cdiv_def)

end
