(* ===== verification/Amount_Deltas.thy ===== *)
theory Amount_Deltas
  imports Tick_Order Units
begin

text \<open>
  The three Uniswap \<open>SqrtPriceMath\<close> primitives of \<open>src/src/math/swap.rs\<close>: the amount of each
  token between two root prices for a liquidity, and the root price a token0 amount moves to. Each
  is proved to be one rounding of the exact rational, so the nested divisions of the code lose
  nothing more, and the amount and the price it moves to are shown to invert each other.
\<close>

subsection \<open>The code\<close>

definition div_rounded :: "u256 \<Rightarrow> u256 \<Rightarrow> rounding \<Rightarrow> u256" where
  "div_rounded value d r = (case r of Up \<Rightarrow> div_ceil value d | TowardZero \<Rightarrow> value div d)"

definition amount0_delta :: "u256 \<Rightarrow> u256 \<Rightarrow> u128 \<Rightarrow> rounding \<Rightarrow> u256 result" where
  "amount0_delta a b liquidity r =
     (let (lower, upper) = (if a \<le> b then (a, b) else (b, a)) in
      if lower = 0 then Inl InvalidPrice
      else let numerator1 = push_bit 96 (ucast liquidity); numerator2 = upper - lower
           in rbind (mul_div numerator1 numerator2 upper r) (\<lambda>first.
              Inr (div_rounded first lower r)))"

definition amount1_delta :: "u256 \<Rightarrow> u256 \<Rightarrow> u128 \<Rightarrow> rounding \<Rightarrow> u256 result" where
  "amount1_delta a b liquidity r =
     (let diff = (if b \<le> a then a - b else b - a) in mul_div (ucast liquidity) diff Q96 r)"

definition next_sqrt_from_amount0 :: "u256 \<Rightarrow> u128 \<Rightarrow> u256 \<Rightarrow> bool \<Rightarrow> u256 result" where
  "next_sqrt_from_amount0 s liquidity amount add =
     (if amount = 0 then Inr s
      else let numerator = push_bit 96 (ucast liquidity) :: u256;
               product = widening_mul amount s;
               numerator_w = ucast numerator :: u512
           in rbind (if add then Inr (numerator_w + product)
                     else ok_or Overflow (checked_sub numerator_w product)) (\<lambda>denominator.
              if denominator = 0 then Inl Overflow
              else u512_to_u256 (div_ceil (widening_mul numerator s) denominator)))"

definition u256_to_i128 :: "u256 \<Rightarrow> i128 result" where
  "u256_to_i128 value = (if 2 ^ 127 - 1 < value then Inl Overflow else Inr (ucast value))"

subsection \<open>One rounding instead of two\<close>

lemma eq_by_upper_bounds: "(\<And>q :: int. x \<le> q \<longleftrightarrow> y \<le> q) \<Longrightarrow> x = y"
  by (meson order_antisym order_refl)

lemma cdiv_cdiv:
  assumes "0 < b" "0 < c"
  shows "cdiv (cdiv a b) c = cdiv a (b * c)"
  using assms by (intro eq_by_upper_bounds) (simp add: cdiv_le_iff algebra_simps)

lemma rdiv_rdiv:
  assumes "0 < b" "0 < c"
  shows "rdiv r (rdiv r a b) c = rdiv r a (b * c)"
  using assms by (cases r) (simp_all add: cdiv_cdiv zdiv_zmult2_eq)

lemma cdiv_nonneg: "0 \<le> a \<Longrightarrow> 0 < b \<Longrightarrow> 0 \<le> cdiv a b"
  by (simp add: cdiv_def pos_imp_zdiv_nonneg_iff add_nonneg_nonneg)

lemma rdiv_nonneg: "0 \<le> a \<Longrightarrow> 0 < b \<Longrightarrow> 0 \<le> rdiv r a b"
  by (cases r) (simp_all add: cdiv_nonneg pos_imp_zdiv_nonneg_iff)

lemma rdiv_le:
  assumes "0 < b" "a \<le> q * b"
  shows "rdiv r a b \<le> q"
proof (cases r)
  case TowardZero
  have "a div b \<le> q * b div b" using assms by (intro zdiv_mono1) simp_all
  then show ?thesis using TowardZero assms by simp
qed (use assms in \<open>simp add: cdiv_le_iff\<close>)

lemma div_le_cdiv: "a div b \<le> cdiv a b" and cdiv_le_Suc_div: "cdiv a b \<le> a div b + 1"
  by (simp_all add: cdiv_def)

lemma rdiv_TowardZero_le_Up: "rdiv TowardZero a b \<le> rdiv Up a b"
  by (simp add: div_le_cdiv)

lemma rdiv_mono:
  assumes "0 < b" "a \<le> a'"
  shows "rdiv r a b \<le> rdiv r a' b"
proof (cases r)
  case Up
  have "a' \<le> cdiv a' b * b" using cdiv_le_iff[OF assms(1), of a' "cdiv a' b"] by simp
  then show ?thesis using assms Up by (simp add: cdiv_le_iff)
qed (use assms in \<open>simp add: zdiv_mono1\<close>)

lemma uint_div_rounded:
  "d \<noteq> 0 \<Longrightarrow> uint (div_rounded v d r) = rdiv r (uint v) (uint d)"
  by (cases r) (simp_all add: div_rounded_def uint_div_ceil uint_zero_iff uint_div_distrib)

subsection \<open>The exact amounts\<close>

definition amount0 :: "rounding \<Rightarrow> int \<Rightarrow> int \<Rightarrow> int \<Rightarrow> int" where
  "amount0 r lo hi l = rdiv r (l * 2 ^ 96 * (hi - lo)) (hi * lo)"

definition amount1 :: "rounding \<Rightarrow> int \<Rightarrow> int \<Rightarrow> int \<Rightarrow> int" where
  "amount1 r lo hi l = rdiv r (l * (hi - lo)) (2 ^ 96)"

lemma uint_shifted_liquidity: "uint (push_bit 96 (ucast (l :: u128)) :: u256) = uint l * 2 ^ 96"
proof -
  have "uint l * 2 ^ 96 < 2 ^ 256" using uint_below[of l] by simp
  then have "uint ((ucast l :: u256) * 2 ^ 96) = uint l * 2 ^ 96"
    by (subst uint_mult_exact) simp_all
  then show ?thesis by (simp add: push_bit_eq_mult)
qed

lemma amount0_delta_sym: "amount0_delta a b l r = amount0_delta b a l r"
  by (cases "a = b") (auto simp: amount0_delta_def)

lemma amount1_delta_sym: "amount1_delta a b l r = amount1_delta b a l r"
  by (cases "a = b") (auto simp: amount1_delta_def)

lemma amount0_delta_zero [simp]: "amount0_delta 0 b l r = Inl InvalidPrice"
  by (simp add: amount0_delta_def)

lemma amount0_delta_total:
  assumes "a \<noteq> 0" "a \<le> b"
  obtains q where "amount0_delta a b l r = Inr q" "uint q = amount0 r (uint a) (uint b) (uint l)"
proof -
  let ?x = "uint l * 2 ^ 96 * (uint b - uint a)"
  have ab: "0 < uint a" "uint a \<le> uint b" using assms by (simp_all add: uint_pos_iff word_le_def)
  then have b0: "0 < uint b" "b \<noteq> 0" using uint_pos_iff[of b] by linarith+
  have diff: "uint (b - a) = uint b - uint a" using ab by (rule_tac uint_sub_exact) simp
  have x: "0 \<le> ?x" using ab by simp
  have "rdiv r ?x (uint b) \<le> uint l * 2 ^ 96"
    using ab b0 by (intro rdiv_le mult_left_mono) simp_all
  then have "rdiv r ?x (uint b) < 2 ^ 256" using uint_below[of l] by simp
  moreover have "0 \<le> rdiv r ?x (uint b)" using x b0 by (rule_tac rdiv_nonneg)
  ultimately obtain f :: u256 where f: "uint f = rdiv r ?x (uint b)"
    using word_with_value[where 'a = 256, of "rdiv r ?x (uint b)"] by auto
  then have "mul_div (push_bit 96 (ucast l)) (b - a) b r = Inr f"
    using b0 by (simp only: mul_div_Inr uint_shifted_liquidity diff) simp
  moreover have "uint (div_rounded f a r) = amount0 r (uint a) (uint b) (uint l)"
    using assms(1) ab b0 f by (simp add: uint_div_rounded amount0_def rdiv_rdiv)
  ultimately show thesis
    using assms by (intro that[of "div_rounded f a r"]) (simp_all add: amount0_delta_def)
qed

lemma amount0_delta_Inr:
  assumes "a \<noteq> 0" "a \<le> b"
  shows "amount0_delta a b l r = Inr q \<longleftrightarrow> uint q = amount0 r (uint a) (uint b) (uint l)"
  by (rule amount0_delta_total[OF assms, of l r]) (auto intro: word_eq_uintI)

lemma amount1_delta_Inr:
  assumes "a \<le> b"
  shows "amount1_delta a b l r = Inr q \<longleftrightarrow> uint q = amount1 r (uint a) (uint b) (uint l)"
proof -
  have "uint (b - a) = uint b - uint a" using assms by (intro uint_sub_exact) (simp add: word_le_def)
  then show ?thesis using assms
    by (cases "a = b") (auto simp: amount1_delta_def mul_div_Inr amount1_def)
qed

lemma amount0_nonneg: "0 < lo \<Longrightarrow> lo \<le> hi \<Longrightarrow> 0 \<le> l \<Longrightarrow> 0 \<le> amount0 r lo hi l"
  by (simp add: amount0_def rdiv_nonneg)

lemma amount1_nonneg: "lo \<le> hi \<Longrightarrow> 0 \<le> l \<Longrightarrow> 0 \<le> amount1 r lo hi l"
  by (simp add: amount1_def rdiv_nonneg)

lemma amount0_empty [simp]: "amount0 r lo lo l = 0" "amount0 r lo hi 0 = 0"
  by (simp_all add: amount0_def)

lemma amount1_empty [simp]: "amount1 r lo lo l = 0" "amount1 r lo hi 0 = 0"
  by (simp_all add: amount1_def)

lemma amount0_rounding: "amount0 TowardZero lo hi l \<le> amount0 Up lo hi l"
    "amount0 Up lo hi l \<le> amount0 TowardZero lo hi l + 1"
  by (simp_all add: amount0_def div_le_cdiv cdiv_le_Suc_div)

lemma amount1_rounding: "amount1 TowardZero lo hi l \<le> amount1 Up lo hi l"
    "amount1 Up lo hi l \<le> amount1 TowardZero lo hi l + 1"
  by (simp_all add: amount1_def div_le_cdiv cdiv_le_Suc_div)

lemma amount0_mono_liquidity:
  assumes "0 < lo" "lo \<le> hi" "l \<le> l'"
  shows "amount0 r lo hi l \<le> amount0 r lo hi l'"
  unfolding amount0_def using assms by (intro rdiv_mono mult_right_mono) simp_all

subsection \<open>The price an amount moves to\<close>

lemma uint_ucast_256_512_shifted:
  "uint (ucast (push_bit 96 (ucast (l :: u128)) :: u256) :: u512) = uint l * 2 ^ 96"
  by (simp add: uint_shifted_liquidity)

text \<open>The exact price: token0 put in (\<open>add\<close>) lowers it, taken out raises it; rounded up either way.\<close>

definition next_sqrt :: "bool \<Rightarrow> int \<Rightarrow> int \<Rightarrow> int \<Rightarrow> int" where
  "next_sqrt add s l x = cdiv (l * 2 ^ 96 * s) (if add then l * 2 ^ 96 + x * s else l * 2 ^ 96 - x * s)"

lemma next_sqrt_Inr:
  assumes x: "x \<noteq> 0" "uint x < 2 ^ 128" and l: "l \<noteq> 0"
    and room: "\<not> add \<Longrightarrow> uint x * uint s < uint l * 2 ^ 96"
  shows "next_sqrt_from_amount0 s l x add = Inr q \<longleftrightarrow> uint q = next_sqrt add (uint s) (uint l) (uint x)"
proof -
  define d where "d = (if add then uint l * 2 ^ 96 + uint x * uint s else uint l * 2 ^ 96 - uint x * uint s)"
  let ?n = "ucast (push_bit 96 (ucast l) :: u256) :: u512"
  let ?p = "widening_mul x s"
  have l0: "0 < uint l" using l by (simp add: uint_pos_iff)
  have p: "0 \<le> uint x * uint s" "uint x * uint s < 2 ^ 128 * 2 ^ 256"
    using x uint_below[of s] by (simp, intro mult_strict_mono') simp_all
  have "uint l * 2 ^ 96 < 2 ^ 224" using uint_below[of l] by simp
  then have sum: "uint ?n + uint ?p < 2 ^ 512" using p by (simp add: uint_shifted_liquidity uint_widening_mul)
  have d0: "0 < d" using room l0 p by (auto simp: d_def intro: add_pos_nonneg)
  have "\<exists>dw. (if add then Inr (?n + ?p) else ok_or Overflow (checked_sub ?n ?p)) = Inr dw \<and> uint dw = d"
  proof (cases add)
    case True
    then show ?thesis using sum
      by (simp add: uint_add_exact uint_shifted_liquidity uint_widening_mul d_def)
  next
    case False
    then show ?thesis using room
      by (simp add: checked_sub_def uint_sub_exact uint_shifted_liquidity uint_widening_mul d_def)
  qed
  then obtain dw where dw: "(if add then Inr (?n + ?p) else ok_or Overflow (checked_sub ?n ?p)) = Inr dw"
    "uint dw = d" by blast
  then have dw0: "dw \<noteq> 0" using d0 uint_pos_iff[of dw] by simp
  have "next_sqrt_from_amount0 s l x add = u512_to_u256 (div_ceil (widening_mul (push_bit 96 (ucast l)) s) dw)"
    using x dw dw0 by (simp add: next_sqrt_from_amount0_def Let_def)
  moreover have "uint (div_ceil (widening_mul (push_bit 96 (ucast l)) s) dw) = next_sqrt add (uint s) (uint l) (uint x)"
  proof -
    have "uint dw \<noteq> 0" using d0 dw(2) by simp
    from uint_div_ceil[OF this] show ?thesis
      by (simp only: uint_widening_mul uint_shifted_liquidity next_sqrt_def dw(2) d_def)
  qed
  ultimately show ?thesis by (auto simp: u512_to_u256_Inr)
qed

text \<open>
  An amount short of what a span holds stops inside the span: the two directions. This is what
  keeps a swap step from passing the price it is stepping toward.
\<close>

lemma next_sqrt_sell_inside:
  assumes "0 < t" "t \<le> s" "0 < l" "0 < x" "x < amount0 Up t s l"
  shows "t < next_sqrt True s l x" "next_sqrt True s l x \<le> s"
proof -
  let ?n = "l * 2 ^ 96" and ?d = "l * 2 ^ 96 + x * s"
  have d: "0 < ?d" using assms by (intro add_pos_nonneg mult_nonneg_nonneg) simp_all
  have "\<not> ?n * (s - t) \<le> x * (s * t)"
    using assms cdiv_le_iff[of "s * t" "?n * (s - t)" x] by (simp add: amount0_def)
  then have "t * ?d < ?n * s" by (simp add: algebra_simps)
  then show "t < next_sqrt True s l x"
    using cdiv_le_iff[OF d, of "?n * s" t] by (simp add: next_sqrt_def linorder_not_le[symmetric])
  have "0 \<le> x * s * s" using assms by simp
  then show "next_sqrt True s l x \<le> s"
    using cdiv_le_iff[OF d, of "?n * s" s] by (simp add: next_sqrt_def algebra_simps)
qed

lemma next_sqrt_buy_inside:
  assumes "0 < s" "s \<le> t" "0 < l" "0 < x" "x < amount0 TowardZero s t l"
  shows "x * s < l * 2 ^ 96" "s \<le> next_sqrt False s l x" "next_sqrt False s l x \<le> t"
proof -
  let ?n = "l * 2 ^ 96" and ?d = "l * 2 ^ 96 - x * s"
  have "x + 1 \<le> ?n * (t - s) div (t * s)" using assms by (simp add: amount0_def)
  then have "(x + 1) * (t * s) \<le> ?n * (t - s)"
    using assms fdiv_ge_iff[of "t * s" "x + 1" "?n * (t - s)"] by simp
  moreover have "0 < t * s" using assms by simp
  ultimately have key: "?n * s < t * ?d" by (simp add: algebra_simps)
  moreover have "0 \<le> ?n * s" using assms by simp
  ultimately have "0 < t * ?d" by linarith
  then have d: "0 < ?d" using assms by (simp add: zero_less_mult_iff)
  then show "x * s < l * 2 ^ 96" by simp
  show "next_sqrt False s l x \<le> t"
    using cdiv_le_iff[OF d, of "?n * s" t] key by (simp add: next_sqrt_def)
  have "(s - 1) * ?d < ?n * s"
  proof -
    have "(s - 1) * ?d \<le> (s - 1) * ?n"
      using assms by (intro mult_left_mono) simp_all
    also have "\<dots> < ?n * s" using assms by (simp add: algebra_simps)
    finally show ?thesis .
  qed
  then have "\<not> next_sqrt False s l x \<le> s - 1"
    using cdiv_le_iff[OF d, of "?n * s" "s - 1"] by (simp add: next_sqrt_def)
  then show "s \<le> next_sqrt False s l x" by simp
qed

lemma u256_to_i128_Inr [result_simps]:
  "u256_to_i128 v = Inr w \<longleftrightarrow> sint w = uint v"
proof -
  have "2 ^ 127 - 1 < v \<longleftrightarrow> \<not> uint v < 2 ^ 127" by (simp add: word_less_def, linarith)
  then have "u256_to_i128 v = ok_or Overflow (narrow_us v)"
    by (simp add: u256_to_i128_def narrow_us_def del: power_numeral)
  then show ?thesis by (auto simp: result_simps narrow_us_Some)
qed

end
