(* ===== verification/Range_Liquidity.thy ===== *)
theory Range_Liquidity
  imports Amount_Deltas
begin

text \<open>
  A maker's geometry (\<open>src/src/math/range.rs\<close>), the root of a price (\<open>units/price.rs\<close>), and the
  liquidity sizing and band amounts of \<open>src/src/math/liquidity.rs\<close>. A tick range is checked once,
  where it enters; the lemmas show that no later step on a range that passed can panic.
  \<open>ruint\<close>'s integer square root is a parameter (\<open>root2\<close>), specified by \<open>floor_root\<close>.
\<close>

subsection \<open>The code: prices and their roots\<close>

definition MIN_SQRT_PRICE_X96 :: u256 where
  "MIN_SQRT_PRICE_X96 = 79228162514264337593543951"

definition MAX_SQRT_PRICE_X96 :: u256 where
  "MAX_SQRT_PRICE_X96 = 79228162514264337593543950336000"

definition squared :: "sqrt_price \<Rightarrow> price result" where
  "squared p =
     (if sqrt_x96 p = 0 then Inl InvalidPrice
      else rbind (ok_or Overflow (checked_mul (sqrt_x96 p) (sqrt_x96 p))) (\<lambda>sq.
           Inr (Price (sq div Q96))))"

definition sqrt_price_try_from :: "(u512 \<Rightarrow> u512) \<Rightarrow> price \<Rightarrow> sqrt_price result" where
  "sqrt_price_try_from root2 p =
     (let root = root2 (ucast (price_x96 p) * ucast Q96) in
      if root < ucast MIN_SQRT_PRICE_X96 \<or> ucast MAX_SQRT_PRICE_X96 < root then Inl InvalidPrice
      else Inr (SqrtPrice (ucast root)))"

definition price_tick :: "(u512 \<Rightarrow> u512) \<Rightarrow> price \<Rightarrow> i32 result" where
  "price_tick root2 p = rbind (sqrt_price_try_from root2 p) get_tick_at_sqrt_ratio"

definition price_at_tick :: "i32 \<Rightarrow> price result" where
  "price_at_tick t = rbind (get_sqrt_ratio_at_tick t) squared"

subsection \<open>The code: tick ranges\<close>

record tick_range =
  lower :: i32
  upper :: i32

definition MIN_TICK :: i32 where "MIN_TICK = - 138180"

definition MAX_TICK :: i32 where "MAX_TICK = 138180"

definition TICK_SPACING :: i32 where "TICK_SPACING = 30"

definition tick_range_new :: "i32 \<Rightarrow> i32 \<Rightarrow> tick_range result" where
  "tick_range_new lo hi =
     (if hi \<le> lo \<or> lo < MIN_TICK \<or> MAX_TICK < hi then Inl (InvalidTickRange lo hi)
      else Inr \<lparr>lower = lo, upper = hi\<rparr>)"

definition tick_range_between :: "(u512 \<Rightarrow> u512) \<Rightarrow> price \<Rightarrow> price \<Rightarrow> tick_range result" where
  "tick_range_between root2 lo hi =
     rbind (price_tick root2 lo) (\<lambda>tl.
     rbind (align_tick_down tl TICK_SPACING) (\<lambda>al.
     rbind (price_tick root2 hi) (\<lambda>th.
     rbind (align_tick_up th TICK_SPACING) (\<lambda>ah.
     tick_range_new al ah))))"

definition range_contains :: "tick_range \<Rightarrow> i32 \<Rightarrow> bool" where
  "range_contains r tick \<longleftrightarrow> lower r \<le> tick \<and> tick < upper r"

definition is_boundary :: "tick_range \<Rightarrow> i32 \<Rightarrow> bool" where
  "is_boundary r tick \<longleftrightarrow> tick = lower r \<or> tick = upper r"

definition width :: "tick_range \<Rightarrow> i32" where
  "width r = wrap_i32 (upper r - lower r)"

definition sqrt_bounds :: "tick_range \<Rightarrow> (sqrt_price \<times> sqrt_price) result" where
  "sqrt_bounds r =
     rbind (expect (get_sqrt_ratio_at_tick (lower r))) (\<lambda>lo.
     rbind (expect (get_sqrt_ratio_at_tick (upper r))) (\<lambda>hi.
     Inr (lo, hi)))"

definition geomean :: "tick_range \<Rightarrow> price result" where
  "geomean r = rbind (sqrt_bounds r) (\<lambda>(lo, hi). Inr (Price (sqrt_x96 lo * sqrt_x96 hi div Q96)))"

record maker_band =
  band_range :: tick_range
  band_liquidity :: l_units

subsection \<open>The code: liquidity sizing and amounts\<close>

definition estimate_liquidity :: "tick_range \<Rightarrow> usdc_atoms \<Rightarrow> l_units result" where
  "estimate_liquidity rng usd =
     (if usdc usd = 0 then Inl InvalidMargin
      else rbind (sqrt_bounds rng) (\<lambda>(sl, su).
           let delta = sqrt_x96 su - sqrt_x96 sl in
           if delta = 0 then Inl Overflow
           else l_units_try_from (ucast (usdc usd) * Q96 div delta)))"

definition margin_for_liquidity :: "tick_range \<Rightarrow> l_units \<Rightarrow> usdc_atoms result" where
  "margin_for_liquidity rng liquidity =
     rbind (sqrt_bounds rng) (\<lambda>(sl, su).
     rbind (mul_div (ucast (l_units liquidity)) (sqrt_x96 su - sqrt_x96 sl) Q96 Up) (\<lambda>atoms.
     usdc_atoms_try_from atoms))"

definition clamp :: "'a::linorder \<Rightarrow> 'a \<Rightarrow> 'a \<Rightarrow> 'a" where
  "clamp lo hi x = (if x < lo then lo else if hi < x then hi else x)"

definition amounts_for_liquidity ::
    "sqrt_price \<Rightarrow> sqrt_price \<Rightarrow> sqrt_price \<Rightarrow> l_units \<Rightarrow> (perp_atoms \<times> usdc_atoms) result" where
  "amounts_for_liquidity p a b liquidity =
     (if sqrt_x96 p = 0 \<or> sqrt_x96 a = 0 \<or> sqrt_x96 b = 0 then Inl InvalidPrice
      else let (sa, sb) = (if a \<le> b then (sqrt_x96 a, sqrt_x96 b) else (sqrt_x96 b, sqrt_x96 a));
               sp = clamp sa sb (sqrt_x96 p); l = l_units liquidity
           in rbind (amount0_delta sp sb l TowardZero) (\<lambda>amt0.
              rbind (amount1_delta sa sp l TowardZero) (\<lambda>amt1.
              rbind (atoms_from_u256 amt0) (\<lambda>p0.
              rbind (atoms_from_u256 amt1) (\<lambda>u1.
              Inr (PerpAtoms p0, UsdcAtoms u1))))))"

definition band_amounts :: "sqrt_price \<Rightarrow> maker_band \<Rightarrow> (perp_atoms \<times> usdc_atoms) result" where
  "band_amounts p band =
     rbind (sqrt_bounds (band_range band)) (\<lambda>(sl, su).
     amounts_for_liquidity p sl su (band_liquidity band))"

definition change_rounding :: "l_delta \<Rightarrow> u128 \<times> rounding" where
  "change_rounding d =
     (let units = unsigned_abs (l_delta d) in
      if sint (l_delta d) < 0 then (units, TowardZero) else (units, Up))"

definition signed_leg :: "u256 \<Rightarrow> l_delta \<Rightarrow> i128 result" where
  "signed_leg amount d =
     rbind (ok_or Overflow (narrow_us amount)) (\<lambda>a.
     Inr (if sint (l_delta d) < 0 then a else - a))"

definition amount0_change :: "u256 \<Rightarrow> u256 \<Rightarrow> l_delta \<Rightarrow> i128 result" where
  "amount0_change a b d =
     (let (units, r) = change_rounding d in rbind (amount0_delta a b units r) (\<lambda>x. signed_leg x d))"

definition amount1_change :: "u256 \<Rightarrow> u256 \<Rightarrow> l_delta \<Rightarrow> i128 result" where
  "amount1_change a b d =
     (let (units, r) = change_rounding d in rbind (amount1_delta a b units r) (\<lambda>x. signed_leg x d))"

definition liquidity_change_delta ::
    "sqrt_price \<Rightarrow> i32 \<Rightarrow> tick_range \<Rightarrow> l_delta \<Rightarrow> (perp_delta \<times> usdc_delta) result" where
  "liquidity_change_delta p tick rng d =
     (if sqrt_x96 p = 0 then Inl InvalidPrice
      else rbind (sqrt_bounds rng) (\<lambda>(sl, su).
        let sa = sqrt_x96 sl; sb = sqrt_x96 su; sp = sqrt_x96 p in
        rbind (if tick < lower rng then rbind (amount0_change sa sb d) (\<lambda>x. Inr (x, 0))
               else if tick < upper rng then
                 rbind (amount0_change sp sb d) (\<lambda>x. rbind (amount1_change sa sp d) (\<lambda>y. Inr (x, y)))
               else rbind (amount1_change sa sb d) (\<lambda>y. Inr (0, y)))
          (\<lambda>(x, y). Inr (PerpDelta x, UsdcDelta y))))"

subsection \<open>A checked range cannot panic\<close>

definition range_ok :: "tick_range \<Rightarrow> bool" where
  "range_ok r \<longleftrightarrow> MIN_TICK \<le> lower r \<and> lower r < upper r \<and> upper r \<le> MAX_TICK"

lemmas tick_limits = MIN_TICK_def MAX_TICK_def UNISWAP_MIN_TICK_def UNISWAP_MAX_TICK_def

lemma tick_range_new_Inr [result_simps]:
  "tick_range_new lo hi = Inr r \<longleftrightarrow> r = \<lparr>lower = lo, upper = hi\<rparr> \<and> range_ok r"
  by (auto simp: tick_range_new_def range_ok_def)

lemma range_on_grid: "range_ok r \<Longrightarrow> on_grid (lower r)" "range_ok r \<Longrightarrow> on_grid (upper r)"
  by (auto simp: range_ok_def on_grid_def tick_limits)

lemma sqrt_bounds_ok: "range_ok r \<Longrightarrow> sqrt_bounds r = Inr (sqrt_at (lower r), sqrt_at (upper r))"
  by (simp add: sqrt_bounds_def get_sqrt_ratio_at_tick_eq range_on_grid)

lemma sqrt_at_less: "on_grid s \<Longrightarrow> on_grid t \<Longrightarrow> sqrt_at s < sqrt_at t \<longleftrightarrow> s < t"
  by (rule sqrt_grid.less_iff) (auto simp: on_grid_def)

lemma range_bounds_less:
  assumes "range_ok r"
  shows "sqrt_x96 (sqrt_at (lower r)) < sqrt_x96 (sqrt_at (upper r))"
  using sqrt_at_less[OF range_on_grid[OF assms]] assms by (simp add: price_order range_ok_def)

lemma tick_x96_pos:
  assumes "on_grid t" shows "0 < tick_x96 t"
proof -
  have low: "0 < tick_x96 s" if "on_grid s" "s \<le> 0" for s
  proof -
    have "2 ^ 62 \<le> tick_ratio \<bar>s\<bar>" using that tick_ratio_bounds[of "\<bar>s\<bar>"] by (simp add: on_grid_abs)
    then have "2 ^ 30 \<le> (tick_ratio \<bar>s\<bar> + (2 ^ 32 - 1)) div 2 ^ 32" by (subst fdiv_ge_iff) simp_all
    then show ?thesis using that by (simp add: tick_x96_def)
  qed
  show ?thesis
  proof (cases "t \<le> 0")
    case False
    then have "sqrt_at 0 < sqrt_at t" using assms by (simp add: sqrt_at_less on_grid_abs)
    then show ?thesis using assms low[of 0]
      by (simp add: price_order word_less_def uint_sqrt_at on_grid_abs)
  qed (use low assms in simp)
qed

lemma sqrt_at_nonzero [simp]: "on_grid t \<Longrightarrow> sqrt_x96 (sqrt_at t) \<noteq> 0"
  using tick_x96_pos[of t] uint_sqrt_at[of t] by (metis less_irrefl unsigned_0)

text \<open>The ends of the protocol's tick range, as the code computes them.\<close>

lemma ratio_at_MAX_TICK: "get_sqrt_ratio_at_tick MAX_TICK = Inr (SqrtPrice 79299443975792720780679863727831)"
  by code_simp

lemma sqrt_at_protocol_bound:
  assumes "on_grid t" "t \<le> MAX_TICK"
  shows "tick_x96 t < 2 ^ 106"
proof -
  have g: "on_grid MAX_TICK" by (simp add: on_grid_abs MAX_TICK_def)
  have "sqrt_at MAX_TICK = SqrtPrice 79299443975792720780679863727831"
    using ratio_at_MAX_TICK g by (simp add: get_sqrt_ratio_at_tick_eq)
  moreover have "sqrt_at t \<le> sqrt_at MAX_TICK"
    using assms g by (simp add: sqrt_grid.le_iff on_grid_def)
  ultimately have "uint (sqrt_x96 (sqrt_at t)) \<le> 79299443975792720780679863727831"
    by (simp add: price_order word_le_def)
  then show ?thesis using uint_sqrt_at[OF assms(1)] by simp
qed

subsection \<open>Sizing: liquidity from margin and back\<close>

text \<open>The width of a range in root price, and the two sizings against it.\<close>

definition sqrt_width :: "tick_range \<Rightarrow> int" where
  "sqrt_width r = tick_x96 (upper r) - tick_x96 (lower r)"

lemma sqrt_width_word:
  assumes "range_ok r"
  shows "uint (sqrt_x96 (sqrt_at (upper r)) - sqrt_x96 (sqrt_at (lower r))) = sqrt_width r"
    and "0 < sqrt_width r" and "sqrt_width r < 2 ^ 106"
proof -
  have less: "tick_x96 (lower r) < tick_x96 (upper r)"
    using range_bounds_less[OF assms] range_on_grid[OF assms] by (simp add: word_less_def uint_sqrt_at)
  then show "uint (sqrt_x96 (sqrt_at (upper r)) - sqrt_x96 (sqrt_at (lower r))) = sqrt_width r"
    using range_on_grid[OF assms] by (subst uint_sub_exact) (simp_all add: uint_sqrt_at sqrt_width_def)
  show "0 < sqrt_width r" using less by (simp add: sqrt_width_def)
  have "upper r \<le> MAX_TICK" using assms by (simp add: range_ok_def)
  then show "sqrt_width r < 2 ^ 106"
    using sqrt_at_protocol_bound[OF range_on_grid(2)[OF assms]] tick_x96_pos[OF range_on_grid(1)[OF assms]]
    by (simp add: sqrt_width_def)
qed

lemma estimate_liquidity_Inr:
  assumes "range_ok r"
  shows "estimate_liquidity r u = Inr l \<longleftrightarrow>
    usdc u \<noteq> 0 \<and> uint (l_units l) = uint (usdc u) * 2 ^ 96 div sqrt_width r"
proof -
  note w = sqrt_width_word[OF assms]
  have "sqrt_x96 (sqrt_at (upper r)) - sqrt_x96 (sqrt_at (lower r)) \<noteq> 0"
    using w(1,2) uint_pos_iff by metis
  moreover have "uint (ucast (usdc u) * Q96) = uint (usdc u) * 2 ^ 96"
    using uint_below[of "usdc u"] by (subst uint_mult_exact) simp_all
  ultimately show ?thesis
    by (auto simp: estimate_liquidity_def sqrt_bounds_ok[OF assms] Let_def result_simps uint_div_distrib w(1))
qed

lemma margin_for_liquidity_Inr:
  assumes "range_ok r"
  shows "margin_for_liquidity r l = Inr u \<longleftrightarrow>
    uint (usdc u) = cdiv (uint (l_units l) * sqrt_width r) (2 ^ 96)"
  using sqrt_width_word(1)[OF assms]
  by (cases u) (auto simp: margin_for_liquidity_def sqrt_bounds_ok[OF assms] result_simps
      usdc_atoms_try_from_def narrowed_through_u256)

text \<open>The two sizings are a Galois connection: margin is the least amount that buys the liquidity.\<close>

lemma sizing_galois:
  assumes "range_ok r" "estimate_liquidity r u = Inr l'" "margin_for_liquidity r l = Inr m"
  shows "uint (l_units l) \<le> uint (l_units l') \<longleftrightarrow> uint (usdc m) \<le> uint (usdc u)"
  using assms sqrt_width_word(2)[OF assms(1)]
  by (simp add: estimate_liquidity_Inr margin_for_liquidity_Inr fdiv_ge_iff cdiv_le_iff)

subsection \<open>What a band holds\<close>

lemma clamp_between: "lo \<le> hi \<Longrightarrow> lo \<le> clamp lo hi x" "lo \<le> hi \<Longrightarrow> clamp lo hi x \<le> hi"
  by (auto simp: clamp_def)

lemma ex_wider: "uint (x :: u128) = n \<Longrightarrow> \<exists>w :: u256. uint w = n"
  by (rule exI[of _ "ucast x"]) simp

lemma band_amounts_Inr:
  assumes "range_ok (band_range b)"
  defines "lo \<equiv> tick_x96 (lower (band_range b))" and "hi \<equiv> tick_x96 (upper (band_range b))"
    and "l \<equiv> uint (l_units (band_liquidity b))"
  shows "band_amounts p b = Inr (q, u) \<longleftrightarrow>
    sqrt_x96 p \<noteq> 0
    \<and> uint (perp q) = amount0 TowardZero (clamp lo hi (uint (sqrt_x96 p))) hi l
    \<and> uint (usdc u) = amount1 TowardZero lo (clamp lo hi (uint (sqrt_x96 p))) l"
proof -
  let ?r = "band_range b"
  define sa sb sp where "sa = sqrt_x96 (sqrt_at (lower ?r))" and "sb = sqrt_x96 (sqrt_at (upper ?r))"
    and "sp = clamp sa sb (sqrt_x96 p)"
  note g = range_on_grid[OF assms(1)]
  have ab: "sa < sb" using range_bounds_less[OF assms(1)] by (simp add: sa_def sb_def)
  have u: "uint sa = lo" "uint sb = hi" by (simp_all add: sa_def sb_def lo_def hi_def uint_sqrt_at g)
  have sp: "sa \<le> sp" "sp \<le> sb" using clamp_between[of sa sb] ab by (simp_all add: sp_def)
  have usp: "uint sp = clamp lo hi (uint (sqrt_x96 p))"
    by (simp add: sp_def clamp_def word_less_def flip: u)
  have sa0: "sa \<noteq> 0" "sb \<noteq> 0" using g by (simp_all add: sa_def sb_def)
  then have sp0: "sp \<noteq> 0" using sp by auto
  have "band_amounts p b = (if sqrt_x96 p = 0 then Inl InvalidPrice else
      rbind (amount0_delta sp sb (l_units (band_liquidity b)) TowardZero) (\<lambda>amt0.
      rbind (amount1_delta sa sp (l_units (band_liquidity b)) TowardZero) (\<lambda>amt1.
      rbind (atoms_from_u256 amt0) (\<lambda>p0. rbind (atoms_from_u256 amt1) (\<lambda>u1.
      Inr (PerpAtoms p0, UsdcAtoms u1))))))"
    using ab sa0 by (simp add: band_amounts_def sqrt_bounds_ok[OF assms(1)] amounts_for_liquidity_def
        sa_def sb_def sp_def price_order order.strict_implies_order Let_def)
  moreover obtain q0 where "amount0_delta sp sb (l_units (band_liquidity b)) TowardZero = Inr q0"
      "uint q0 = amount0 TowardZero (uint sp) (uint sb) l"
    unfolding l_def by (rule amount0_delta_total[OF sp0 sp(2)])
  ultimately show ?thesis using sp usp
    by (cases q; cases u)
      (auto simp: result_simps amount1_delta_Inr l_def intro: ex_wider simp flip: u)
qed

subsection \<open>Adding and removing liquidity\<close>

text \<open>The legs of a change of \<open>d\<close> units as integers: paid in rounded up, taken out rounded down.\<close>

definition leg :: "(rounding \<Rightarrow> int \<Rightarrow> int) \<Rightarrow> int \<Rightarrow> int" where
  "leg amt d = (if d < 0 then amt TowardZero (- d) else - amt Up d)"

lemma signed_leg_Inr:
  "signed_leg a d = Inr x \<longleftrightarrow> uint a < 2 ^ 127 \<and> sint x = (if sint (l_delta d) < 0 then uint a else - uint a)"
proof -
  have "(\<exists>w :: i128. uint a = sint w \<and> x = (if sint (l_delta d) < 0 then w else - w))
      \<longleftrightarrow> uint a < 2 ^ 127 \<and> sint x = (if sint (l_delta d) < 0 then uint a else - uint a)" (is "?L \<longleftrightarrow> ?R")
  proof
    assume ?L
    then obtain w :: i128 where w: "uint a = sint w" "x = (if sint (l_delta d) < 0 then w else - w)" by blast
    moreover have "0 \<le> sint w" using w(1) by (metis uint_ge_0)
    moreover from this have "sint (- w) = - sint w"
      using sint_bounds[of w] by (intro sint_neg_exact) (simp add: in_signed_def)
    ultimately show ?R using sint_bounds(2)[of w] by auto
  next
    assume R: ?R
    define w :: i128 where "w = ucast a"
    have w: "sint w = uint a" using R by (simp add: w_def sint_ucast_small)
    then have "0 \<le> sint w" by simp
    then have "sint (- w) = - sint w"
      using sint_bounds[of w] by (intro sint_neg_exact) (simp add: in_signed_def)
    then have "sint x = sint (if sint (l_delta d) < 0 then w else - w)" using R w by simp
    then have "x = (if sint (l_delta d) < 0 then w else - w)" by simp
    then show ?L using w by (intro exI[of _ w]) simp
  qed
  then show ?thesis by (auto simp: signed_leg_def result_simps narrow_us_Some eq_commute[of _ x])
qed

lemma change_rounding_eq:
  "change_rounding d = (unsigned_abs (l_delta d), if sint (l_delta d) < 0 then TowardZero else Up)"
  by (simp add: change_rounding_def Let_def)

lemma amount0_change_Inr:
  assumes "a \<noteq> 0" "a \<le> b"
  shows "amount0_change a b d = Inr x \<longleftrightarrow>
    sint x = leg (\<lambda>r. amount0 r (uint a) (uint b)) (sint (l_delta d)) \<and> \<bar>sint x\<bar> < 2 ^ 127"
proof -
  let ?r = "if sint (l_delta d) < 0 then TowardZero else Up"
  obtain q where q: "amount0_delta a b (unsigned_abs (l_delta d)) ?r = Inr q"
    "uint q = amount0 ?r (uint a) (uint b) \<bar>sint (l_delta d)\<bar>"
    using amount0_delta_total[OF assms, of "unsigned_abs (l_delta d)" ?r thesis] by (simp add: uint_unsigned_abs)
  have "0 \<le> uint q" by simp
  then show ?thesis
    using q by (auto simp: amount0_change_def change_rounding_eq signed_leg_Inr leg_def split: if_splits)
qed

lemma amount1_change_Inr:
  assumes "a \<le> b"
  shows "amount1_change a b d = Inr x \<longleftrightarrow>
    sint x = leg (\<lambda>r. amount1 r (uint a) (uint b)) (sint (l_delta d)) \<and> \<bar>sint x\<bar> < 2 ^ 127"
proof -
  let ?r = "if sint (l_delta d) < 0 then TowardZero else Up"
  let ?v = "amount1 ?r (uint a) (uint b) \<bar>sint (l_delta d)\<bar>"
  have v0: "0 \<le> ?v" using assms by (intro amount1_nonneg) (simp_all add: word_le_def)
  have "amount1_change a b d = Inr x \<longleftrightarrow> (\<exists>q. uint q = ?v \<and> signed_leg q d = Inr x)"
    by (auto simp: amount1_change_def change_rounding_eq result_simps amount1_delta_Inr[OF assms] uint_unsigned_abs)
  also have "\<dots> \<longleftrightarrow> ?v < 2 ^ 127 \<and> sint x = (if sint (l_delta d) < 0 then ?v else - ?v)"
  proof
    assume R: "?v < 2 ^ 127 \<and> sint x = (if sint (l_delta d) < 0 then ?v else - ?v)"
    then obtain q :: u256 where "uint q = ?v" using word_with_value[where 'a = 256, OF v0] by auto
    then show "\<exists>q. uint q = ?v \<and> signed_leg q d = Inr x" using R by (intro exI[of _ q]) (simp add: signed_leg_Inr)
  qed (auto simp: signed_leg_Inr)
  finally show ?thesis using v0 by (auto simp: leg_def split: if_splits)
qed

text \<open>The round trip of a leg: what comes back is what went in, or one atom less.\<close>

lemma leg_round_trip:
  assumes "\<And>l. amt TowardZero l \<le> amt Up l" "\<And>l. amt Up l \<le> amt TowardZero l + (1::int)" "0 < d"
  shows "leg amt d + leg amt (- d) \<in> {- 1, 0}"
  using assms(1)[of d] assms(2)[of d] assms(3) by (auto simp: leg_def)

lemma liquidity_change_delta_Inr:
  assumes "range_ok r"
  defines "lo \<equiv> tick_x96 (lower r)" and "hi \<equiv> tick_x96 (upper r)"
  shows "liquidity_change_delta p t r d = Inr (x, y) \<Longrightarrow>
    sqrt_x96 p \<noteq> 0
    \<and> sint (perp_d x) = (if t < lower r then leg (\<lambda>k. amount0 k lo hi) (sint (l_delta d))
        else if t < upper r then
          leg (\<lambda>k. amount0 k (min hi (uint (sqrt_x96 p))) (max hi (uint (sqrt_x96 p)))) (sint (l_delta d))
        else 0)
    \<and> sint (usdc_d y) = (if t < lower r then 0
        else if t < upper r then
          leg (\<lambda>k. amount1 k (min lo (uint (sqrt_x96 p))) (max lo (uint (sqrt_x96 p)))) (sint (l_delta d))
        else leg (\<lambda>k. amount1 k lo hi) (sint (l_delta d)))"
proof -
  define sa sb sp where "sa = sqrt_x96 (sqrt_at (lower r))" and "sb = sqrt_x96 (sqrt_at (upper r))"
    and "sp = sqrt_x96 p"
  note g = range_on_grid[OF assms(1)]
  have ab: "sa \<le> sb" using range_bounds_less[OF assms(1)] by (simp add: sa_def sb_def)
  have u: "uint sa = lo" "uint sb = hi" by (simp_all add: sa_def sb_def lo_def hi_def uint_sqrt_at g)
  have nz: "sa \<noteq> 0" "sb \<noteq> 0" using g by (simp_all add: sa_def sb_def)
  have sym0: "amount0_change sp sb d = amount0_change (min sb sp) (max sb sp) d"
    by (cases "sb \<le> sp") (simp_all add: amount0_change_def amount0_delta_sym[of sp] min_def max_def)
  have sym1: "amount1_change sa sp d = amount1_change (min sa sp) (max sa sp) d"
    by (cases "sa \<le> sp") (simp_all add: amount1_change_def amount1_delta_sym[of sa] min_def max_def)
  have mm: "uint (min a b) = min (uint a) (uint b)" "uint (max a b) = max (uint a) (uint b)" for a b :: u256
    by (simp_all add: min_def max_def word_le_def)
  have nz2: "min sb sp \<noteq> 0" if "sp \<noteq> 0" using nz that by (simp add: min_def)
  have mle: "min a b \<le> max a b" for a b :: u256 by (rule order_trans[OF min.cobounded1 max.cobounded1])
  assume run: "liquidity_change_delta p t r d = Inr (x, y)"
  have sp: "sp \<noteq> 0" using run by (auto simp: liquidity_change_delta_def sp_def)
  note legs = amount0_change_Inr[OF nz2[OF sp] mle] amount1_change_Inr[OF mle]
    amount0_change_Inr[OF nz(1) ab] amount1_change_Inr[OF ab]
  have "rbind (if t < lower r then rbind (amount0_change sa sb d) (\<lambda>x. Inr (x, 0))
      else if t < upper r then rbind (amount0_change (min sb sp) (max sb sp) d) (\<lambda>x.
        rbind (amount1_change (min sa sp) (max sa sp) d) (\<lambda>y. Inr (x, y)))
      else rbind (amount1_change sa sb d) (\<lambda>y. Inr (0, y)))
      (\<lambda>(x, y). Inr (PerpDelta x, UsdcDelta y)) = Inr (x, y)"
    unfolding sym0[symmetric] sym1[symmetric] unfolding sa_def sb_def sp_def
    using run sp[unfolded sp_def] by (simp add: liquidity_change_delta_def sqrt_bounds_ok[OF assms(1)] Let_def)
  then show ?thesis using sp
    by (auto simp: rbind_eq_Inr legs mm u simp flip: sp_def split: if_splits)
qed

subsection \<open>Roots and enclosing ranges\<close>

text \<open>What \<open>ruint\<close> documents of \<open>root(2)\<close>: the floor of the square root.\<close>

definition floor_root :: "(u512 \<Rightarrow> u512) \<Rightarrow> bool" where
  "floor_root root2 \<longleftrightarrow> (\<forall>w. uint (root2 w) ^ 2 \<le> uint w \<and> uint w < (uint (root2 w) + 1) ^ 2)"

lemma squared_Inr [result_simps]:
  "squared s = Inr p \<longleftrightarrow> sqrt_x96 s \<noteq> 0 \<and> uint (sqrt_x96 s) ^ 2 < 2 ^ 256
     \<and> uint (price_x96 p) = uint (sqrt_x96 s) ^ 2 div 2 ^ 96"
  by (cases p) (auto simp: squared_def result_simps checked_mul_Some power2_eq_square uint_div_distrib
      checked_mul_def uint_mult_exact intro!: word_eq_uintI)

lemma sqrt_try_from_Inr:
  assumes "floor_root root2" "sqrt_price_try_from root2 p = Inr s"
  shows "uint (sqrt_x96 s) ^ 2 \<le> uint (price_x96 p) * 2 ^ 96"
    "uint (price_x96 p) * 2 ^ 96 < (uint (sqrt_x96 s) + 1) ^ 2"
    "MIN_SQRT_PRICE_X96 \<le> sqrt_x96 s" "sqrt_x96 s \<le> MAX_SQRT_PRICE_X96"
proof -
  let ?w = "ucast (price_x96 p) * ucast Q96 :: u512"
  have w: "uint ?w = uint (price_x96 p) * 2 ^ 96"
    using uint_below[of "price_x96 p"] by (subst uint_mult_exact) simp_all
  have b: "uint MIN_SQRT_PRICE_X96 \<le> uint (root2 ?w)" "uint (root2 ?w) \<le> uint MAX_SQRT_PRICE_X96"
    and s: "s = SqrtPrice (ucast (root2 ?w))"
    using assms(2) by (auto simp: sqrt_price_try_from_def Let_def word_less_def split: if_splits)
  have "uint (root2 ?w) < 2 ^ 256" using b(2) by (simp add: MAX_SQRT_PRICE_X96_def)
  then have u: "uint (sqrt_x96 s) = uint (root2 ?w)" by (simp add: s uint_ucast_exact)
  show "uint (sqrt_x96 s) ^ 2 \<le> uint (price_x96 p) * 2 ^ 96"
    "uint (price_x96 p) * 2 ^ 96 < (uint (sqrt_x96 s) + 1) ^ 2"
    using assms(1) unfolding floor_root_def u w[symmetric] by blast+
  show "MIN_SQRT_PRICE_X96 \<le> sqrt_x96 s" "sqrt_x96 s \<le> MAX_SQRT_PRICE_X96"
    using b by (simp_all add: word_le_def u)
qed

lemma align_tick_down_spacing:
  "align_tick_down t TICK_SPACING = Inr a \<Longrightarrow> - (2 ^ 30) \<le> t \<Longrightarrow> t < 2 ^ 30
    \<Longrightarrow> a \<le> t \<and> t < a + TICK_SPACING \<and> a mod TICK_SPACING = 0"
  by (auto simp: align_tick_down_def TICK_SPACING_def wrap_i32_def mod_diff_left_eq)

end
