(* ===== verification/Capacity.thy ===== *)
theory Capacity
  imports Scaling Range_Liquidity
begin

text \<open>
  \<open>src/src/math/capacity.rs\<close>: the open interest a maker band can back on each side of the pool
  price, its inverse (the least liquidity that reaches a target), and a market's headroom and
  utilization. The two directions are shown to be one Galois connection, which is what the code's
  claim ``exact, not an estimate'' comes to.
\<close>

subsection \<open>The code\<close>

type_synonym capacity = "perp_atoms per_side"

record market_capacity =
  mc_block :: block_context
  mc_capacity :: capacity
  mc_open_interest :: "perp_atoms per_side"

definition headroom :: "market_capacity \<Rightarrow> side \<Rightarrow> perp_atoms" where
  "headroom m s = perp_saturating_sub (on (mc_capacity m) s) (on (mc_open_interest m) s)"

definition SCALE_1E6 :: u32 where "SCALE_1E6 = 1000000"

definition saturating_to_u32 :: "u256 \<Rightarrow> u32" where
  "saturating_to_u32 v = (if uint v < 2 ^ 32 then ucast v else - 1)"

definition utilization_e6 :: "market_capacity \<Rightarrow> side \<Rightarrow> u32 option" where
  "utilization_e6 m s =
     map_option saturating_to_u32 (result_ok
       (mul_div (ucast (perp (on (mc_open_interest m) s))) (ucast SCALE_1E6)
          (ucast (perp (on (mc_capacity m) s))) TowardZero))"

record priced_range =
  pr_lower :: u256
  pr_upper :: u256
  pr_clamped :: u256

definition priced_range_new :: "sqrt_price \<Rightarrow> tick_range \<Rightarrow> priced_range result" where
  "priced_range_new p r =
     (if sqrt_x96 p = 0 then Inl InvalidPrice
      else rbind (sqrt_bounds r) (\<lambda>(sl, su).
           Inr \<lparr>pr_lower = sqrt_x96 sl, pr_upper = sqrt_x96 su,
             pr_clamped = clamp (sqrt_x96 sl) (sqrt_x96 su) (sqrt_x96 p)\<rparr>))"

fun side_span :: "priced_range \<Rightarrow> side \<Rightarrow> u256 \<times> u256" where
  "side_span pr Long = (pr_clamped pr, pr_upper pr)"
| "side_span pr Short = (pr_lower pr, pr_clamped pr)"

definition priced_perp :: "priced_range \<Rightarrow> side \<Rightarrow> l_units \<Rightarrow> perp_atoms result" where
  "priced_perp pr s l =
     (let (lo, hi) = side_span pr s in
      rbind (amount0_delta lo hi (l_units l) TowardZero) (\<lambda>atoms.
      ok_or Overflow (map_option PerpAtoms (narrow atoms))))"

definition priced_capacity :: "priced_range \<Rightarrow> l_units \<Rightarrow> capacity result" where
  "priced_capacity pr l =
     rbind (priced_perp pr Long l) (\<lambda>lg. rbind (priced_perp pr Short l) (\<lambda>sh.
     Inr (PerSide lg sh)))"

definition band_capacity :: "sqrt_price \<Rightarrow> maker_band \<Rightarrow> capacity result" where
  "band_capacity p band =
     rbind (priced_range_new p (band_range band)) (\<lambda>pr. priced_capacity pr (band_liquidity band))"

definition liquidity_for_capacity :: "sqrt_price \<Rightarrow> tick_range \<Rightarrow> side \<Rightarrow> perp_atoms \<Rightarrow> l_units result" where
  "liquidity_for_capacity p r s target =
     rbind (priced_range_new p r) (\<lambda>priced.
     if perp target = 0 then Inr (LUnits 0)
     else let (lo, hi) = side_span priced s in
       if lo = hi then Inl (NoBandCapacity (lower r) (upper r))
       else
         let numerator = ucast (perp target) * ucast hi * ucast lo :: u512;
             denominator = ucast Q96 * ucast (hi - lo) :: u512;
             liquidity = div_ceil numerator denominator
         in if ucast (- 1 :: u128) < liquidity then Inl Overflow
            else let l = LUnits (ucast liquidity)
                 in rbind (priced_capacity priced l) (\<lambda>_. Inr l))"

declare side_span.simps [simp del]

subsection \<open>The span that backs a side\<close>

text \<open>The two ends of the span as integers: above the clamped price for longs, below it for shorts.\<close>

definition clamped_x96 :: "sqrt_price \<Rightarrow> tick_range \<Rightarrow> int" where
  "clamped_x96 p r = clamp (tick_x96 (lower r)) (tick_x96 (upper r)) (uint (sqrt_x96 p))"

fun span_x96 :: "sqrt_price \<Rightarrow> tick_range \<Rightarrow> side \<Rightarrow> int \<times> int" where
  "span_x96 p r Long = (clamped_x96 p r, tick_x96 (upper r))"
| "span_x96 p r Short = (tick_x96 (lower r), clamped_x96 p r)"

definition span_lo :: "sqrt_price \<Rightarrow> tick_range \<Rightarrow> side \<Rightarrow> int" where
  "span_lo p r s = fst (span_x96 p r s)"

definition span_hi :: "sqrt_price \<Rightarrow> tick_range \<Rightarrow> side \<Rightarrow> int" where
  "span_hi p r s = snd (span_x96 p r s)"

lemma priced_range_span:
  assumes "range_ok r" "sqrt_x96 p \<noteq> 0"
  obtains pr where "priced_range_new p r = Inr pr"
    "\<And>s. uint (fst (side_span pr s)) = span_lo p r s" "\<And>s. uint (snd (side_span pr s)) = span_hi p r s"
    "\<And>s. fst (side_span pr s) \<noteq> 0" "\<And>s. fst (side_span pr s) \<le> snd (side_span pr s)"
proof -
  let ?a = "sqrt_x96 (sqrt_at (lower r))" and ?b = "sqrt_x96 (sqrt_at (upper r))"
  let ?pr = "\<lparr>pr_lower = ?a, pr_upper = ?b, pr_clamped = clamp ?a ?b (sqrt_x96 p)\<rparr>"
  note g = range_on_grid[OF assms(1)]
  have ab: "?a \<le> ?b" using range_bounds_less[OF assms(1)] by simp
  have u: "uint ?a = tick_x96 (lower r)" "uint ?b = tick_x96 (upper r)" by (simp_all add: uint_sqrt_at g)
  have c: "uint (clamp ?a ?b (sqrt_x96 p)) = clamped_x96 p r"
    by (simp add: clamp_def clamped_x96_def word_less_def u)
  have le: "?a \<le> clamp ?a ?b (sqrt_x96 p)" "clamp ?a ?b (sqrt_x96 p) \<le> ?b"
    using clamp_between[OF ab] by simp_all
  have nz: "?a \<noteq> 0" using g by simp
  then have nz2: "clamp ?a ?b (sqrt_x96 p) \<noteq> 0" using le(1) by auto
  show thesis
  proof (rule that[of ?pr])
    show "priced_range_new p r = Inr ?pr" using assms by (simp add: priced_range_new_def sqrt_bounds_ok)
    fix s show "uint (fst (side_span ?pr s)) = span_lo p r s" "uint (snd (side_span ?pr s)) = span_hi p r s"
      "fst (side_span ?pr s) \<noteq> 0" "fst (side_span ?pr s) \<le> snd (side_span ?pr s)"
      using nz nz2 le by (cases s; simp add: side_span.simps span_lo_def span_hi_def u c)+
  qed
qed

lemma priced_perp_Inr:
  assumes "fst (side_span pr s) \<noteq> 0" "fst (side_span pr s) \<le> snd (side_span pr s)"
  shows "priced_perp pr s l = Inr a \<longleftrightarrow>
    uint (perp a) = amount0 TowardZero (uint (fst (side_span pr s))) (uint (snd (side_span pr s))) (uint (l_units l))"
proof -
  obtain q where "amount0_delta (fst (side_span pr s)) (snd (side_span pr s)) (l_units l) TowardZero = Inr q"
    "uint q = amount0 TowardZero (uint (fst (side_span pr s))) (uint (snd (side_span pr s))) (uint (l_units l))"
    by (rule amount0_delta_total[OF assms])
  then show ?thesis
    by (cases a) (auto simp: priced_perp_def result_simps narrow_Some case_prod_unfold)
qed

lemma band_capacity_Inr:
  assumes "range_ok (band_range b)"
  shows "band_capacity p b = Inr c \<longleftrightarrow> sqrt_x96 p \<noteq> 0 \<and>
    (\<forall>s. uint (perp (on c s)) = amount0 TowardZero (span_lo p (band_range b) s) (span_hi p (band_range b) s)
       (uint (l_units (band_liquidity b))))"
proof (cases "sqrt_x96 p = 0")
  case False
  obtain pr where pr: "priced_range_new p (band_range b) = Inr pr"
    and span: "\<And>s. uint (fst (side_span pr s)) = span_lo p (band_range b) s"
      "\<And>s. uint (snd (side_span pr s)) = span_hi p (band_range b) s"
      "\<And>s. fst (side_span pr s) \<noteq> 0" "\<And>s. fst (side_span pr s) \<le> snd (side_span pr s)"
    using priced_range_span[OF assms False] by blast
  have all: "(\<forall>s. P s) \<longleftrightarrow> P Long \<and> P Short" for P by (metis side.exhaust)
  show ?thesis using pr False
    by (cases c) (auto simp: band_capacity_def priced_capacity_def result_simps
        priced_perp_Inr[OF span(3,4)] span(1,2) all)
qed (simp add: band_capacity_def priced_range_new_def)

subsection \<open>The least liquidity for a target\<close>

lemma least_liquidity_galois:
  assumes "0 < lo" "lo < hi"
  shows "t \<le> amount0 TowardZero lo hi l \<longleftrightarrow> cdiv (t * hi * lo) (2 ^ 96 * (hi - lo)) \<le> l"
proof -
  have "t \<le> amount0 TowardZero lo hi l \<longleftrightarrow> t * (hi * lo) \<le> l * 2 ^ 96 * (hi - lo)"
    using assms fdiv_ge_iff[of "hi * lo"] by (simp add: amount0_def)
  also have "\<dots> \<longleftrightarrow> cdiv (t * hi * lo) (2 ^ 96 * (hi - lo)) \<le> l"
    using assms by (subst cdiv_le_iff) (simp_all add: algebra_simps)
  finally show ?thesis .
qed

lemma least_liquidity_word:
  fixes hi lo :: u256
  assumes "lo < hi" "uint hi < 2 ^ 160"
  shows "uint (div_ceil (ucast (t :: u128) * ucast hi * ucast lo :: u512) (ucast Q96 * ucast (hi - lo)))
    = cdiv (uint t * uint hi * uint lo) (2 ^ 96 * (uint hi - uint lo))"
proof -
  have d: "uint (hi - lo) = uint hi - uint lo" "uint lo < uint hi"
    using assms(1) by (simp_all add: word_less_def uint_sub_exact)
  have t: "uint (ucast t :: u512) = uint t" by (rule uint_ucast_up) simp
  have h: "uint t * uint hi < 2 ^ 128 * 2 ^ 160" using uint_below[of t] assms(2)
    by (intro mult_strict_mono') simp_all
  then have th: "uint (ucast t * ucast hi :: u512) = uint t * uint hi"
    by (subst uint_mult_exact) (simp_all add: t)
  have "uint t * uint hi * uint lo < 2 ^ 288 * 2 ^ 160" using h assms(2) d(2)
    by (intro mult_strict_mono') simp_all
  then have num: "uint (ucast t * ucast hi * ucast lo :: u512) = uint t * uint hi * uint lo"
    by (subst uint_mult_exact) (simp_all add: th)
  have den: "uint (ucast Q96 * ucast (hi - lo) :: u512) = 2 ^ 96 * (uint hi - uint lo)"
    using uint_below[of "hi - lo"] by (subst uint_mult_exact) (simp_all add: d(1))
  show ?thesis using d(2) by (subst uint_div_ceil) (simp_all add: num den)
qed

lemma span_bounds:
  assumes "range_ok r"
  shows "0 < span_lo p r s" "span_lo p r s \<le> span_hi p r s" "span_hi p r s < 2 ^ 106"
proof -
  have lo: "0 < tick_x96 (lower r)" using tick_x96_pos range_on_grid(1)[OF assms] .
  have le: "tick_x96 (lower r) \<le> tick_x96 (upper r)" using sqrt_width_word(2)[OF assms] by (simp add: sqrt_width_def)
  have hi: "tick_x96 (upper r) < 2 ^ 106"
    using assms range_on_grid(2)[OF assms] by (intro sqrt_at_protocol_bound) (simp_all add: range_ok_def)
  note c = clamp_between[OF le, of "uint (sqrt_x96 p)"]
  show "0 < span_lo p r s" "span_lo p r s \<le> span_hi p r s" "span_hi p r s < 2 ^ 106"
    using lo hi le c by (cases s; simp add: span_lo_def span_hi_def clamped_x96_def)+
qed

lemma liquidity_for_capacity_least:
  assumes "range_ok r" "liquidity_for_capacity p r s target = Inr l"
    and "band_capacity p \<lparr>band_range = r, band_liquidity = l'\<rparr> = Inr c"
  shows "uint (perp target) \<le> uint (perp (on c s)) \<longleftrightarrow> uint (l_units l) \<le> uint (l_units l')"
proof -
  have p: "sqrt_x96 p \<noteq> 0" using assms(3) by (simp add: band_capacity_Inr assms(1))
  have c: "uint (perp (on c s)) = amount0 TowardZero (span_lo p r s) (span_hi p r s) (uint (l_units l'))"
    using assms(3) by (simp add: band_capacity_Inr assms(1))
  obtain pr where pr: "priced_range_new p r = Inr pr"
    and sp: "uint (fst (side_span pr s)) = span_lo p r s" "uint (snd (side_span pr s)) = span_hi p r s"
    using priced_range_span[OF assms(1) p] by metis
  note b = span_bounds[OF assms(1), of p s]
  show ?thesis
  proof (cases "perp target = 0")
    case True
    then have "l = LUnits 0" using assms(2) pr by (simp add: liquidity_for_capacity_def)
    then show ?thesis using True by simp
  next
    case False
    let ?lo = "fst (side_span pr s)" and ?hi = "snd (side_span pr s)"
    let ?q = "div_ceil (ucast (perp target) * ucast ?hi * ucast ?lo :: u512) (ucast Q96 * ucast (?hi - ?lo))"
    have run: "?lo \<noteq> ?hi" "\<not> ucast (- 1 :: u128) < ?q" "l = LUnits (ucast ?q)"
      using assms(2) pr False
      by (auto simp: liquidity_for_capacity_def Let_def case_prod_unfold rbind_eq_Inr split: if_splits)
    have less: "?lo < ?hi" using run(1) b(2) sp by (auto simp: word_less_def) (metis order_le_imp_less_or_eq word_eq_uintI)
    then have "span_lo p r s < span_hi p r s" using sp by (simp add: word_less_def)
    moreover have "uint (ucast (- 1 :: u128) :: u512) = 2 ^ 128 - 1"
      by (subst uint_ucast_up) (simp_all add: unsigned_minus_1_eq_mask mask_eq_exp_minus_1)
    then have "uint ?q < 2 ^ 128" using run(2) by (simp add: word_less_def)
    then have "uint (l_units l) = uint ?q" using run(3) by (simp add: uint_ucast_exact)
    moreover have "uint ?q = cdiv (uint (perp target) * span_hi p r s * span_lo p r s)
        (2 ^ 96 * (span_hi p r s - span_lo p r s))"
      using least_liquidity_word[OF less] b(3) sp by simp
    ultimately show ?thesis using least_liquidity_galois[OF b(1), of "span_hi p r s"] c by simp
  qed
qed

lemma liquidity_for_capacity_opens:
  assumes "range_ok r" "liquidity_for_capacity p r s target = Inr l"
  obtains c where "band_capacity p \<lparr>band_range = r, band_liquidity = l\<rparr> = Inr c"
proof (cases "perp target = 0")
  case True
  then have l: "l = LUnits 0" and p: "sqrt_x96 p \<noteq> 0"
    using assms(2) by (auto simp: liquidity_for_capacity_def priced_range_new_def rbind_eq_Inr split: if_splits)
  have "on (PerSide (PerpAtoms 0) (PerpAtoms 0)) k = PerpAtoms 0" for k by (cases k) simp_all
  then show thesis using l p
    by (intro that[of "PerSide (PerpAtoms 0) (PerpAtoms 0)"]) (simp add: band_capacity_Inr assms(1))
next
  case False
  then show thesis using assms(2) that
    by (auto simp: liquidity_for_capacity_def band_capacity_def Let_def case_prod_unfold rbind_eq_Inr
        split: if_splits)
qed

lemma no_band_capacity_iff:
  assumes "range_ok r" "sqrt_x96 p \<noteq> 0"
  shows "liquidity_for_capacity p r s target = Inl (NoBandCapacity (lower r) (upper r)) \<longleftrightarrow>
    perp target \<noteq> 0 \<and> span_lo p r s = span_hi p r s"
proof -
  obtain pr where pr: "priced_range_new p r = Inr pr"
    and sp: "\<And>k. uint (fst (side_span pr k)) = span_lo p r k" "\<And>k. uint (snd (side_span pr k)) = span_hi p r k"
      "\<And>k. fst (side_span pr k) \<noteq> 0" "\<And>k. fst (side_span pr k) \<le> snd (side_span pr k)"
    using priced_range_span[OF assms] by blast
  have ne: "priced_perp pr k l \<noteq> Inl (NoBandCapacity a b)" for k l a b
  proof -
    obtain q where "amount0_delta (fst (side_span pr k)) (snd (side_span pr k)) (l_units l) TowardZero = Inr q"
      by (rule amount0_delta_total[OF sp(3,4)])
    then show ?thesis by (auto simp: priced_perp_def case_prod_unfold result_simps)
  qed
  have eq: "fst (side_span pr s) = snd (side_span pr s) \<longleftrightarrow> span_lo p r s = span_hi p r s"
    by (simp add: word_uint_eq_iff sp)
  show ?thesis using pr ne
    by (auto simp: liquidity_for_capacity_def case_prod_unfold Let_def eq priced_capacity_def rbind_eq_Inl
        split: if_splits)
qed

subsection \<open>Headroom and utilization\<close>

lemma uint_headroom:
  "uint (perp (headroom m s)) = max 0 (uint (perp (on (mc_capacity m) s)) - uint (perp (on (mc_open_interest m) s)))"
  by (auto simp: headroom_def perp_saturating_sub_def saturating_sub_def word_le_def uint_sub_exact)

lemma uint_saturating_to_u32: "uint (saturating_to_u32 w) = min (uint w) (2 ^ 32 - 1)"
proof (cases "uint w < 2 ^ 32")
  case True
  then show ?thesis by (simp add: saturating_to_u32_def uint_ucast_exact)
next
  case False
  then show ?thesis by (simp add: saturating_to_u32_def unsigned_minus_1_eq_mask mask_eq_exp_minus_1)
qed

lemma utilization_eq:
  "map_option uint (utilization_e6 m s) =
    (let oi = uint (perp (on (mc_open_interest m) s)); cap = uint (perp (on (mc_capacity m) s))
     in if cap = 0 then None else Some (min (oi * 1000000 div cap) (2 ^ 32 - 1)))"
proof -
  let ?oi = "perp (on (mc_open_interest m) s)" and ?cap = "perp (on (mc_capacity m) s)"
  have scale: "uint SCALE_1E6 = 1000000" by (simp add: SCALE_1E6_def)
  show ?thesis
  proof (cases "?cap = 0")
    case True
    then show ?thesis by (simp add: utilization_e6_def mul_div_def)
  next
    case False
    then have cap: "0 < uint ?cap" by (simp add: uint_pos_iff)
    let ?q = "uint ?oi * 1000000 div uint ?cap"
    have "?q \<le> uint ?oi * 1000000" using cap zdiv_mono2[of "uint ?oi * 1000000" 1 "uint ?cap"] by simp
    then have q: "0 \<le> ?q" "?q < 2 ^ 256" using cap uint_below[of ?oi] by (auto simp: pos_imp_zdiv_nonneg_iff)
    then obtain w :: u256 where w: "uint w = ?q" using word_with_value[where 'a = 256] by auto
    have "mul_div (ucast ?oi) (ucast SCALE_1E6) (ucast ?cap) TowardZero = Inr w"
      using False by (simp add: mul_div_Inr scale w)
    moreover have "uint (saturating_to_u32 w) = min ?q (2 ^ 32 - 1)"
      by (simp add: uint_saturating_to_u32 w)
    ultimately show ?thesis using False cap by (simp add: utilization_e6_def Let_def)
  qed
qed

end
