(* ===== verification/Ordered_Map.thy ===== *)
theory Ordered_Map
  imports SDK_Prelude
begin

text \<open>
  The standard library's \<open>BTreeMap\<close> as the crate uses it (the pool's initialized ticks): lookup,
  insertion, removal and the two neighbour queries its range iterators answer. The interface is the
  locale \<open>ordered_map\<close>; association lists kept in key order provide it.
\<close>

subsection \<open>The interface\<close>

locale ordered_map =
  fixes get :: "'m \<Rightarrow> 'k::linorder \<Rightarrow> 'v option"
    and put :: "'k \<Rightarrow> 'v \<Rightarrow> 'm \<Rightarrow> 'm"
    and del :: "'k \<Rightarrow> 'm \<Rightarrow> 'm"
    and entries :: "'m \<Rightarrow> ('k \<times> 'v) list"
    and ok :: "'m \<Rightarrow> bool"
  assumes get_put: "ok m \<Longrightarrow> get (put k v m) = (get m)(k \<mapsto> v)"
    and get_del: "ok m \<Longrightarrow> get (del k m) = (get m)(k := None)"
    and ok_put: "ok m \<Longrightarrow> ok (put k v m)"
    and ok_del: "ok m \<Longrightarrow> ok (del k m)"
    and entries_sorted: "ok m \<Longrightarrow> sorted_wrt (<) (map fst (entries m))"
    and entries_get: "ok m \<Longrightarrow> (k, v) \<in> set (entries m) \<longleftrightarrow> get m k = Some v"
begin

definition first_above :: "'m \<Rightarrow> 'k \<Rightarrow> ('k \<times> 'v) option" where
  "first_above m k = List.find (\<lambda>e. k < fst e) (entries m)"

definition last_upto :: "'m \<Rightarrow> 'k \<Rightarrow> ('k \<times> 'v) option" where
  "last_upto m k = List.find (\<lambda>e. fst e \<le> k) (rev (entries m))"

lemma first_above_Some:
  assumes "ok m" "first_above m k = Some (j, v)"
  shows "get m j = Some v" "k < j" "\<And>i. get m i \<noteq> None \<Longrightarrow> k < i \<Longrightarrow> j \<le> i"
proof -
  obtain n where n: "n < length (entries m)" "entries m ! n = (j, v)" "k < j"
    and first: "\<And>i. i < n \<Longrightarrow> \<not> k < fst (entries m ! i)"
    using assms(2) unfolding first_above_def find_Some_iff by (metis fst_conv)
  show "k < j" by fact
  show "get m j = Some v" using n entries_get[OF assms(1), of j v] by (metis nth_mem)
  fix i assume i: "get m i \<noteq> None" "k < i"
  then obtain w where "(i, w) \<in> set (entries m)" using entries_get[OF assms(1)] by auto
  then obtain l where l: "l < length (entries m)" "entries m ! l = (i, w)" by (auto simp: in_set_conv_nth)
  then have "\<not> l < n" using first[of l] i(2) by auto
  then show "j \<le> i" using sorted_wrt_nth_less[OF entries_sorted[OF assms(1)], of n l] n l
    by (cases "l = n") (auto simp: less_imp_le)
qed

lemma first_above_None:
  assumes "ok m" "first_above m k = None" "get m i \<noteq> None"
  shows "i \<le> k"
proof -
  obtain w where "(i, w) \<in> set (entries m)" using assms(1,3) entries_get by auto
  then show ?thesis using assms(2) by (fastforce simp: first_above_def find_None_iff)
qed

lemma last_upto_Some:
  assumes "ok m" "last_upto m k = Some (j, v)"
  shows "get m j = Some v" "j \<le> k" "\<And>i. get m i \<noteq> None \<Longrightarrow> i \<le> k \<Longrightarrow> i \<le> j"
proof -
  let ?r = "rev (entries m)"
  have sorted: "sorted_wrt (\<lambda>a b. b < a) (map fst ?r)"
    using entries_sorted[OF assms(1)] by (simp add: sorted_wrt_rev rev_map[symmetric])
  obtain n where n: "n < length ?r" "?r ! n = (j, v)" "j \<le> k"
    and first: "\<And>i. i < n \<Longrightarrow> \<not> fst (?r ! i) \<le> k"
    using assms(2) unfolding last_upto_def find_Some_iff by (metis fst_conv)
  show "j \<le> k" by fact
  show "get m j = Some v" using n entries_get[OF assms(1), of j v] by (metis nth_mem set_rev)
  fix i assume i: "get m i \<noteq> None" "i \<le> k"
  then obtain w where "(i, w) \<in> set ?r" using entries_get[OF assms(1)] by auto
  then obtain l where l: "l < length ?r" "?r ! l = (i, w)" unfolding in_set_conv_nth by blast
  then have "\<not> l < n" using first[of l] i(2) by auto
  then show "i \<le> j" using sorted_wrt_nth_less[OF sorted, of n l] n l
    by (cases "l = n") (auto simp: less_imp_le simp del: length_rev)
qed

lemma last_upto_None:
  assumes "ok m" "last_upto m k = None" "get m i \<noteq> None"
  shows "k < i"
proof -
  obtain w where "(i, w) \<in> set (entries m)" using assms(1,3) entries_get by auto
  then show ?thesis using assms(2) by (fastforce simp: last_upto_def find_None_iff)
qed

lemma put_get_id:
  assumes "ok m" "ok m'" "\<And>k. get m k = get m' k"
  shows "set (entries m) = set (entries m')"
  using assms entries_get by (metis (mono_tags, opaque_lifting) subrelI subset_antisym)

lemma distinct_keys: "ok m \<Longrightarrow> distinct (map fst (entries m))"
  using entries_sorted strict_sorted_iff by blast

end

subsection \<open>Association lists in key order\<close>

type_synonym ('k, 'v) omap = "('k \<times> 'v) list"

definition om_ok :: "('k::linorder, 'v) omap \<Rightarrow> bool" where
  "om_ok m \<longleftrightarrow> sorted_wrt (<) (map fst m)"

fun om_put :: "'k::linorder \<Rightarrow> 'v \<Rightarrow> ('k, 'v) omap \<Rightarrow> ('k, 'v) omap" where
  "om_put k v [] = [(k, v)]"
| "om_put k v ((k', v') # m) =
     (if k < k' then (k, v) # (k', v') # m
      else if k = k' then (k, v) # m
      else (k', v') # om_put k v m)"

definition om_del :: "'k::linorder \<Rightarrow> ('k, 'v) omap \<Rightarrow> ('k, 'v) omap" where
  "om_del k m = filter (\<lambda>e. fst e \<noteq> k) m"

definition om_first_above :: "('k::linorder, 'v) omap \<Rightarrow> 'k \<Rightarrow> ('k \<times> 'v) option" where
  "om_first_above m k = List.find (\<lambda>e. k < fst e) m"

definition om_last_upto :: "('k::linorder, 'v) omap \<Rightarrow> 'k \<Rightarrow> ('k \<times> 'v) option" where
  "om_last_upto m k = List.find (\<lambda>e. fst e \<le> k) (rev m)"

lemma set_om_put: "om_ok m \<Longrightarrow> fst ` set (om_put k v m) = insert k (fst ` set m)"
  by (induction k v m rule: om_put.induct) (auto simp: om_ok_def)

lemma om_ok_put: "om_ok m \<Longrightarrow> om_ok (om_put k v m)"
proof (induction k v m rule: om_put.induct)
  case (2 k v k' v' m)
  have "om_ok m" using 2(2) by (simp add: om_ok_def)
  then have "fst ` set (om_put k v m) = insert k (fst ` set m)" by (rule set_om_put)
  then show ?case using 2 by (auto simp: om_ok_def)
qed (simp add: om_ok_def)

lemma map_of_om_put: "om_ok m \<Longrightarrow> map_of (om_put k v m) = (map_of m)(k \<mapsto> v)"
proof (induction k v m rule: om_put.induct)
  case (2 k v k' v' m)
  then show ?case by (auto simp: om_ok_def fun_eq_iff)
qed simp

lemma map_of_om_del: "map_of (om_del k m) = (map_of m)(k := None)"
  by (induction m) (auto simp: om_del_def fun_eq_iff)

interpretation om: ordered_map map_of om_put om_del "\<lambda>m. m" om_ok
  rewrites "ordered_map.first_above (\<lambda>m. m) = om_first_above"
    and "ordered_map.last_upto (\<lambda>m. m) = om_last_upto"
proof -
  show om: "ordered_map map_of om_put om_del (\<lambda>m. m) (om_ok :: ('a::linorder, 'b) omap \<Rightarrow> bool)"
  proof unfold_locales
    fix m :: "('a, 'b) omap" and k :: 'a and v :: 'b
    assume m: "om_ok m"
    show "map_of (om_put k v m) = (map_of m)(k \<mapsto> v)" "om_ok (om_put k v m)"
      using m by (simp_all add: map_of_om_put om_ok_put)
    show "map_of (om_del k m) = (map_of m)(k := None)" by (rule map_of_om_del)
    show "om_ok (om_del k m)" using m
      by (simp add: om_ok_def om_del_def sorted_wrt_map sorted_wrt_filter)
    show "sorted_wrt (<) (map fst m)" using m by (simp add: om_ok_def)
    then have "distinct (map fst m)" using strict_sorted_iff by blast
    then show "(k, v) \<in> set m \<longleftrightarrow> map_of m k = Some v" by simp
  qed
  show "ordered_map.first_above (\<lambda>m. m) = (om_first_above :: ('a, 'b) omap \<Rightarrow> _)"
    using ordered_map.first_above_def[OF om] by (simp add: fun_eq_iff om_first_above_def)
  show "ordered_map.last_upto (\<lambda>m. m) = (om_last_upto :: ('a, 'b) omap \<Rightarrow> _)"
    using ordered_map.last_upto_def[OF om] by (simp add: fun_eq_iff om_last_upto_def)
qed

text \<open>Two lists in key order with the same lookups are the same list.\<close>

lemma omap_eqI:
  assumes "om_ok m" "om_ok m'" "map_of m = map_of m'"
  shows "m = m'"
proof -
  have "set m = set m'" using om.put_get_id[OF assms(1,2)] assms(3) by simp
  moreover have "sorted (map fst m)" "sorted (map fst m')" "distinct (map fst m)" "distinct (map fst m')"
    using assms strict_sorted_iff by (auto simp: om_ok_def)
  ultimately show ?thesis by (intro map_sorted_distinct_set_unique[of fst]) 
    (auto simp: distinct_map inj_on_def)
qed

end
