(* ===== verification/Swap.thy ===== *)
theory Swap
  imports Capacity Ordered_Map
begin

text \<open>
  \<open>src/src/math/swap.rs\<close>: the local simulation of a taker swap over a pool's initialized ticks,
  and the hypothetical liquidity change. The simulation's \<open>while\<close> loop runs with fuel, and
  the fuel \<open>simulate\<close> gives is proved to be enough on every input; the loop's price never passes the
  limit and never moves against the trade, and what it fills never exceeds what was asked.
\<close>

subsection \<open>The code: data\<close>

record tick_liquidity =
  gross :: l_units
  net :: l_delta

datatype quote_limit = Filled | TargetPrice | PriceImpact | TerminalPrice | MaxPerp | InsufficientLiquidity

record quote_constraints =
  enforce_price_impact :: bool
  max_perp :: "perp_atoms option"

record pool_snapshot =
  ps_block :: block_context
  ps_sqrt_price :: sqrt_price
  ps_tick :: i32
  ps_liquidity :: l_units
  ps_ticks :: "(i32, tick_liquidity) omap"
  protocol_sqrt_min :: sqrt_price
  protocol_sqrt_max :: sqrt_price
  impact_sqrt_min :: sqrt_price
  impact_sqrt_max :: sqrt_price

record taker_quote =
  requested_perp_delta :: perp_delta
  quote_perp_delta :: perp_delta
  quote_usd_delta :: usdc_delta
  sqrt_price_start :: sqrt_price
  sqrt_price_after :: sqrt_price
  quote_tick_after :: i32
  quote_liquidity_after :: l_units
  ticks_crossed :: "i32 list"
  quote_fully_filled :: bool
  price_impact_allowed :: bool
  quote_limit_hit :: quote_limit
  quote_block :: block_context

definition amt1_limit :: "taker_quote \<Rightarrow> u32 \<Rightarrow> usdc_atoms" where
  "amt1_limit q slippage_bps =
     (let amount = usdc (usdc_magnitude (quote_usd_delta q));
          bps = min (ucast slippage_bps) 10000
      in UsdcAtoms (if 0 < sint (perp_d (quote_perp_delta q))
           then saturating_add (saturating_mul amount (10000 + bps)) 9999 div 10000
           else saturating_mul amount (10000 - bps) div 10000))"

record step_result =
  step_sqrt :: u256
  step_used :: u256
  step_other :: u256

record simulation =
  sim_perp_delta :: i128
  sim_usd_delta :: i128
  sim_sqrt_after :: u256
  sim_tick_after :: i32
  sim_liquidity_after :: l_units
  sim_crossed :: "i32 list"
  sim_fully_filled :: bool
  sim_hit_limit :: bool

definition ON_TICK_SHIFT :: nat where "ON_TICK_SHIFT = 16"

subsection \<open>The code: the loop of a simulation\<close>

text \<open>The mutable locals of the loop.\<close>

record sim_state =
  remaining :: u256
  calculated :: u256
  sqrt_now :: u256
  tick_now :: i32
  liq_now :: l_units
  crossed :: "i32 list"

text \<open>One step towards \<open>target\<close>: what it uses, what it exchanges, where it stops.\<close>

definition swap_step :: "bool \<Rightarrow> u256 \<Rightarrow> u256 \<Rightarrow> l_units \<Rightarrow> u256 \<Rightarrow> step_result result" where
  "swap_step zero_for_one target s liquidity rem =
     (if l_units liquidity = 0 then Inr \<lparr>step_sqrt = target, step_used = 0, step_other = 0\<rparr>
      else let l = l_units liquidity in
      if zero_for_one then
        rbind (amount0_delta target s l Up) (\<lambda>to_target.
        if to_target \<le> rem then
          rbind (amount1_delta target s l TowardZero) (\<lambda>other.
          Inr \<lparr>step_sqrt = target, step_used = to_target, step_other = other\<rparr>)
        else
          rbind (next_sqrt_from_amount0 s l rem True) (\<lambda>after.
          rbind (amount1_delta after s l TowardZero) (\<lambda>other.
          Inr \<lparr>step_sqrt = after, step_used = rem, step_other = other\<rparr>)))
      else
        rbind (amount0_delta s target l TowardZero) (\<lambda>to_target.
        if to_target \<le> rem then
          rbind (amount1_delta s target l Up) (\<lambda>other.
          Inr \<lparr>step_sqrt = target, step_used = to_target, step_other = other\<rparr>)
        else
          rbind (next_sqrt_from_amount0 s l rem False) (\<lambda>after.
          rbind (amount1_delta s after l Up) (\<lambda>other.
          Inr \<lparr>step_sqrt = after, step_used = rem, step_other = other\<rparr>))))"

definition next_tick :: "(i32, tick_liquidity) omap \<Rightarrow> bool \<Rightarrow> i32 \<Rightarrow> i32" where
  "next_tick ticks zero_for_one t =
     (case (if zero_for_one then om_last_upto ticks t else om_first_above ticks t) of
        Some (k, _) \<Rightarrow> k
      | None \<Rightarrow> if zero_for_one then UNISWAP_MIN_TICK else UNISWAP_MAX_TICK)"

text \<open>The crossing at the end of a step: the liquidity, the ticks crossed, the tick, and whether one was crossed.\<close>

definition cross_tick ::
    "(i32, tick_liquidity) omap \<Rightarrow> bool \<Rightarrow> i32 \<Rightarrow> u256 \<Rightarrow> u256 \<Rightarrow> u256 \<Rightarrow> sim_state \<Rightarrow> (sim_state \<times> bool) result" where
  "cross_tick ticks zero_for_one nt sqrt_next start s st =
     (if s = sqrt_next then
        rbind (case map_of ticks nt of
            Some info \<Rightarrow>
              rbind (if zero_for_one then l_delta_negated (net info) else Inr (net info)) (\<lambda>n.
              rbind (l_checked_add_signed (liq_now st) n) (\<lambda>l.
              Inr (st\<lparr>liq_now := l, crossed := crossed st @ [nt]\<rparr>, True)))
          | None \<Rightarrow> Inr (st, False))
          (\<lambda>(st, c). Inr (st\<lparr>tick_now := (if zero_for_one then nt - 1 else nt)\<rparr>, c))
      else if s \<noteq> start then
        rbind (get_tick_at_sqrt_ratio (SqrtPrice s)) (\<lambda>t. Inr (st\<lparr>tick_now := t\<rparr>, False))
      else Inr (st, False))"

text \<open>One iteration of the body; the flag is whether it reached \<open>break\<close>.\<close>

definition sim_step ::
    "(i32, tick_liquidity) omap \<Rightarrow> bool \<Rightarrow> u256 \<Rightarrow> sim_state \<Rightarrow> (sim_state \<times> bool) result" where
  "sim_step ticks zero_for_one sqrt_limit st =
     (let nt = next_tick ticks zero_for_one (tick_now st) in
      rbind (get_sqrt_ratio_at_tick nt) (\<lambda>sn.
      let sqrt_next = sqrt_x96 sn;
          target = (if zero_for_one then max sqrt_next sqrt_limit else min sqrt_next sqrt_limit)
      in rbind (swap_step zero_for_one target (sqrt_now st) (liq_now st) (remaining st)) (\<lambda>step.
         let start = sqrt_now st;
             st = st\<lparr>remaining := remaining st - step_used step,
                     calculated := calculated st + step_other step,
                     sqrt_now := step_sqrt step\<rparr>
         in rbind (cross_tick ticks zero_for_one nt sqrt_next start (step_sqrt step) st) (\<lambda>(st, was_crossed).
            Inr (st, step_used step = 0 \<and> step_other step = 0 \<and> step_sqrt step = start \<and> \<not> was_crossed)))))"

text \<open>The loop; out of fuel is None.\<close>

fun sim_loop ::
    "nat \<Rightarrow> (i32, tick_liquidity) omap \<Rightarrow> bool \<Rightarrow> u256 \<Rightarrow> sim_state \<Rightarrow> sim_state result option" where
  "sim_loop fuel ticks zero_for_one sqrt_limit st =
     (if remaining st = 0 \<or> sqrt_now st = sqrt_limit then Some (Inr st)
      else case fuel of
        0 \<Rightarrow> None
      | Suc fuel \<Rightarrow>
          (case sim_step ticks zero_for_one sqrt_limit st of
             Inl e \<Rightarrow> Some (Inl e)
           | Inr (st, stop) \<Rightarrow> if stop then Some (Inr st) else sim_loop fuel ticks zero_for_one sqrt_limit st))"

declare sim_loop.simps [simp del]

definition sim_start :: "pool_snapshot \<Rightarrow> u256 \<Rightarrow> sim_state" where
  "sim_start p exact =
     \<lparr>remaining = exact, calculated = 0, sqrt_now = sqrt_x96 (ps_sqrt_price p),
      tick_now = ps_tick p, liq_now = ps_liquidity p, crossed = []\<rparr>"

definition sim_finish :: "bool \<Rightarrow> u256 \<Rightarrow> u256 \<Rightarrow> sim_state \<Rightarrow> simulation result" where
  "sim_finish zero_for_one exact sqrt_limit st =
     rbind (u256_to_i128 (exact - remaining st)) (\<lambda>filled.
     rbind (u256_to_i128 (calculated st)) (\<lambda>usd.
     Inr \<lparr>sim_perp_delta = (if zero_for_one then - filled else filled),
          sim_usd_delta = (if zero_for_one then usd else - usd),
          sim_sqrt_after = sqrt_now st, sim_tick_after = tick_now st,
          sim_liquidity_after = liq_now st, sim_crossed = crossed st,
          sim_fully_filled = (remaining st = 0), sim_hit_limit = (sqrt_now st = sqrt_limit)\<rparr>))"

definition sim_fuel :: "pool_snapshot \<Rightarrow> nat" where
  "sim_fuel p = length (ps_ticks p) + 1"

definition simulate :: "pool_snapshot \<Rightarrow> i128 \<Rightarrow> u256 \<Rightarrow> simulation result option" where
  "simulate p requested sqrt_limit =
     (let zero_for_one = (sint requested < 0);
          exact = ucast (unsigned_abs requested) :: u256
      in map_option (\<lambda>r. rbind r (sim_finish zero_for_one exact sqrt_limit))
           (sim_loop (sim_fuel p) (ps_ticks p) zero_for_one sqrt_limit (sim_start p exact)))"

definition finish_quote :: "pool_snapshot \<Rightarrow> i128 \<Rightarrow> simulation \<Rightarrow> quote_limit \<Rightarrow> taker_quote" where
  "finish_quote p requested sim reason =
     (let allowed = (sqrt_x96 (impact_sqrt_min p) \<le> sim_sqrt_after sim \<and> sim_sqrt_after sim \<le> sqrt_x96 (impact_sqrt_max p));
          reason = (if sim_fully_filled sim \<and> \<not> allowed then PriceImpact else reason)
      in \<lparr>requested_perp_delta = PerpDelta requested, quote_perp_delta = PerpDelta (sim_perp_delta sim),
          quote_usd_delta = UsdcDelta (sim_usd_delta sim), sqrt_price_start = ps_sqrt_price p,
          sqrt_price_after = SqrtPrice (sim_sqrt_after sim), quote_tick_after = sim_tick_after sim,
          quote_liquidity_after = sim_liquidity_after sim, ticks_crossed = sim_crossed sim,
          quote_fully_filled = sim_fully_filled sim, price_impact_allowed = allowed,
          quote_limit_hit = reason, quote_block = ps_block p\<rparr>)"

definition quote_perp :: "pool_snapshot \<Rightarrow> perp_delta \<Rightarrow> taker_quote result option" where
  "quote_perp p d =
     (let limit = (if sint (perp_d d) < 0 then sqrt_x96 (protocol_sqrt_min p) else sqrt_x96 (protocol_sqrt_max p))
      in map_option (result_map (\<lambda>sim.
           let reason = (if sim_fully_filled sim then Filled
                         else if sim_hit_limit sim then TerminalPrice else InsufficientLiquidity)
           in finish_quote p (perp_d d) sim reason)) (simulate p (perp_d d) limit))"

text \<open>The \<open>for\<close> loop over the ticks near the end of the quote, with its early returns.\<close>

fun first_on_tick :: "u256 \<Rightarrow> i32 list \<Rightarrow> i32 option result" where
  "first_on_tick end_x96 [] = Inr None"
| "first_on_tick end_x96 (tick # ticks) =
     rbind (get_sqrt_ratio_at_tick tick) (\<lambda>s.
     if abs_diff end_x96 (sqrt_x96 s) \<le> drop_bit ON_TICK_SHIFT (sqrt_x96 s) then Inr (Some tick)
     else first_on_tick end_x96 ticks)"

definition ends_on_tick :: "pool_snapshot \<Rightarrow> perp_delta \<Rightarrow> i32 option result option" where
  "ends_on_tick p d =
     (if perp_d d = 0 then Some (Inr None)
      else map_option (\<lambda>q. rbind q (\<lambda>quote.
        if \<not> quote_fully_filled quote then Inr None
        else
          let t = quote_tick_after quote;
              near = filter (\<lambda>e. t \<le> fst e \<and> fst e \<le> min (t + 1) (2 ^ 31 - 1)) (ps_ticks p)
          in first_on_tick (sqrt_x96 (sqrt_price_after quote)) (map fst near)))
        (quote_perp p d))"

text \<open>The price a target quote may run to, and why.\<close>

definition price_limit :: "pool_snapshot \<Rightarrow> sqrt_price \<Rightarrow> quote_constraints \<Rightarrow> u256 \<times> quote_limit" where
  "price_limit p target_price c =
     (let target = sqrt_x96 target_price; current = sqrt_x96 (ps_sqrt_price p); buy = (current < target);
          protocol_limit = (if buy then sqrt_x96 (protocol_sqrt_max p) else sqrt_x96 (protocol_sqrt_min p));
          limit = (if buy then min target protocol_limit else max target protocol_limit);
          reason = (if limit = protocol_limit \<and> target \<noteq> protocol_limit then TerminalPrice else TargetPrice)
      in if enforce_price_impact c then
           let bounded = (if buy then min limit (sqrt_x96 (impact_sqrt_max p)) else max limit (sqrt_x96 (impact_sqrt_min p)))
           in if bounded \<noteq> limit then (bounded, PriceImpact) else (limit, reason)
         else (limit, reason))"

definition signed_min :: "i128 \<Rightarrow> i128 \<Rightarrow> i128" where
  "signed_min a b = (if sint a \<le> sint b then a else b)"

definition signed_max :: "i128 \<Rightarrow> i128 \<Rightarrow> i128" where
  "signed_max a b = (if sint a \<le> sint b then b else a)"

definition cap_perp :: "bool \<Rightarrow> perp_atoms option \<Rightarrow> i128 \<Rightarrow> i128" where
  "cap_perp buy limit capacity =
     (case limit of
        None \<Rightarrow> capacity
      | Some m \<Rightarrow>
          let m = min (perp m) (2 ^ 127 - 1)
          in if buy then signed_min capacity m else signed_max capacity (- m))"

definition quote_to_price :: "pool_snapshot \<Rightarrow> sqrt_price \<Rightarrow> quote_constraints \<Rightarrow> taker_quote result option" where
  "quote_to_price p target_price c =
     (if target_price = ps_sqrt_price p then quote_perp p 0
      else
        let current = sqrt_x96 (ps_sqrt_price p); buy = (current < sqrt_x96 target_price);
            protocol_limit = (if buy then sqrt_x96 (protocol_sqrt_max p) else sqrt_x96 (protocol_sqrt_min p));
            (limit, reason) = price_limit p target_price c
        in if (buy \<and> limit \<le> current) \<or> (\<not> buy \<and> current \<le> limit) then
             map_option (result_map (\<lambda>q. q\<lparr>requested_perp_delta := 0, quote_limit_hit := PriceImpact\<rparr>)) (quote_perp p 0)
           else
             (case simulate p (if buy then 2 ^ 127 - 1 else - (2 ^ 127 - 1)) limit of
                None \<Rightarrow> None
              | Some (Inl e) \<Rightarrow> Some (Inl e)
              | Some (Inr probe) \<Rightarrow>
                  let capacity = sim_perp_delta probe;
                      capped = cap_perp buy (max_perp c) capacity;
                      reason = (if capped \<noteq> capacity then MaxPerp else reason)
                  in map_option (result_map (\<lambda>sim. finish_quote p capped sim reason)) (simulate p capped protocol_limit)))"

subsection \<open>The code: hypothetical liquidity\<close>

definition active_liquidity :: "(i32, tick_liquidity) omap \<Rightarrow> i32 \<Rightarrow> l_units result" where
  "active_liquidity ticks t =
     fold (\<lambda>e acc. rbind acc (\<lambda>l. l_checked_add_signed l (net (snd e)))) (filter (\<lambda>e. fst e \<le> t) ticks) (Inr (LUnits 0))"

definition apply_tick_delta ::
    "(i32, tick_liquidity) omap \<Rightarrow> i32 \<Rightarrow> l_delta \<Rightarrow> l_delta \<Rightarrow> (i32, tick_liquidity) omap result" where
  "apply_tick_delta ticks t net_delta gross_delta =
     (let entry = (case map_of ticks t of None \<Rightarrow> \<lparr>gross = LUnits 0, net = LDelta 0\<rparr> | Some e \<Rightarrow> e) in
      rbind (l_delta_checked_add (net entry) net_delta) (\<lambda>n.
      rbind (l_checked_add_signed (gross entry) gross_delta) (\<lambda>g.
      Inr (if l_units g = 0 then om_del t ticks else om_put t \<lparr>gross = g, net = n\<rparr> ticks))))"

definition with_liquidity_delta :: "pool_snapshot \<Rightarrow> i32 \<Rightarrow> i32 \<Rightarrow> l_delta \<Rightarrow> pool_snapshot result" where
  "with_liquidity_delta p lo hi d =
     (if hi \<le> lo then Inl (InvalidTickRange lo hi)
      else rbind (l_delta_negated d) (\<lambda>removed.
           rbind (apply_tick_delta (ps_ticks p) lo d d) (\<lambda>ticks.
           rbind (apply_tick_delta ticks hi removed d) (\<lambda>ticks.
           rbind (if lo \<le> ps_tick p \<and> ps_tick p < hi then l_checked_add_signed (ps_liquidity p) d
                  else Inr (ps_liquidity p)) (\<lambda>l.
           Inr (p\<lparr>ps_ticks := ticks, ps_liquidity := l\<rparr>))))))"

subsection \<open>One step of the simulation\<close>

lemma swap_step_used:
  assumes "swap_step zfo target s l rem = Inr r"
  shows "step_used r \<le> rem" "step_sqrt r = target \<or> step_used r = rem"
  using assms by (auto simp: swap_step_def rbind_eq_Inr Let_def split: if_splits)

text \<open>With liquidity or without, a step stays between where it starts and where it aims.\<close>

lemma swap_step_sell_between:
  assumes run: "swap_step True target s l rem = Inr r"
    and b: "target \<noteq> 0" "target \<le> s" "rem \<noteq> 0" "uint rem < 2 ^ 128"
  shows "target \<le> step_sqrt r" "step_sqrt r \<le> s"
proof -
  have "target \<le> step_sqrt r \<and> step_sqrt r \<le> s"
  proof (cases "step_sqrt r = target")
    case False
    then have l: "l_units l \<noteq> 0" using run by (auto simp: swap_step_def)
    obtain q where q: "amount0_delta target s (l_units l) Up = Inr q"
      "uint q = amount0 Up (uint target) (uint s) (uint (l_units l))"
      by (rule amount0_delta_total[OF b(1,2)])
    have rq: "\<not> q \<le> rem" and after: "next_sqrt_from_amount0 s (l_units l) rem True = Inr (step_sqrt r)"
      using run l q(1) False by (auto simp: swap_step_def rbind_eq_Inr Let_def split: if_splits)
    have "uint (step_sqrt r) = next_sqrt True (uint s) (uint (l_units l)) (uint rem)"
      using after next_sqrt_Inr[OF b(3,4) l, of True] by simp
    moreover have "0 < uint target" "uint target \<le> uint s" "0 < uint (l_units l)" "0 < uint rem"
      "uint rem < amount0 Up (uint target) (uint s) (uint (l_units l))"
      using b l rq q(2) by (simp_all add: uint_pos_iff word_le_def)
    ultimately show ?thesis
      using next_sqrt_sell_inside[of "uint target" "uint s" "uint (l_units l)" "uint rem"] by (simp add: word_le_def)
  qed (use b in simp)
  then show "target \<le> step_sqrt r" "step_sqrt r \<le> s" by simp_all
qed

lemma swap_step_buy_between:
  assumes run: "swap_step False target s l rem = Inr r"
    and b: "s \<noteq> 0" "s \<le> target" "rem \<noteq> 0" "uint rem < 2 ^ 128"
  shows "s \<le> step_sqrt r" "step_sqrt r \<le> target"
proof -
  have "s \<le> step_sqrt r \<and> step_sqrt r \<le> target"
  proof (cases "step_sqrt r = target")
    case False
    then have l: "l_units l \<noteq> 0" using run by (auto simp: swap_step_def)
    obtain q where q: "amount0_delta s target (l_units l) TowardZero = Inr q"
      "uint q = amount0 TowardZero (uint s) (uint target) (uint (l_units l))"
      by (rule amount0_delta_total[OF b(1,2)])
    have rq: "\<not> q \<le> rem" and after: "next_sqrt_from_amount0 s (l_units l) rem False = Inr (step_sqrt r)"
      using run l q(1) False by (auto simp: swap_step_def rbind_eq_Inr Let_def split: if_splits)
    have h: "0 < uint s" "uint s \<le> uint target" "0 < uint (l_units l)" "0 < uint rem"
      "uint rem < amount0 TowardZero (uint s) (uint target) (uint (l_units l))"
      using b l rq q(2) by (simp_all add: uint_pos_iff word_le_def)
    note inside = next_sqrt_buy_inside[OF h]
    have "uint (step_sqrt r) = next_sqrt False (uint s) (uint (l_units l)) (uint rem)"
      using after next_sqrt_Inr[OF b(3,4) l, of False] inside(1) by simp
    then show ?thesis using inside by (simp add: word_le_def)
  qed (use b in simp)
  then show "s \<le> step_sqrt r" "step_sqrt r \<le> target" by simp_all
qed

subsection \<open>The fuel is enough\<close>

text \<open>How many initialized ticks the trade still has ahead of it.\<close>

definition ahead :: "(i32, tick_liquidity) omap \<Rightarrow> bool \<Rightarrow> i32 \<Rightarrow> nat" where
  "ahead ticks zfo t = length (filter (\<lambda>e. if zfo then fst e \<le> t else t < fst e) ticks)"

lemma length_filter_strict:
  "x \<in> set xs \<Longrightarrow> Q x \<Longrightarrow> \<not> P x \<Longrightarrow> (\<And>y. P y \<Longrightarrow> Q y) \<Longrightarrow> length (filter P xs) < length (filter Q xs)"
proof (induction xs)
  case (Cons y xs)
  have le: "length (filter P xs) \<le> length (filter Q xs)"
    using Cons.prems(4) by (induction xs) (auto simp: le_SucI)
  show ?case
  proof (cases "x = y")
    case False
    then have "length (filter P xs) < length (filter Q xs)" using Cons by simp
    then show ?thesis using Cons.prems(4)[of y] by auto
  qed (use Cons.prems le in auto)
qed simp

lemma ahead_decreases:
  assumes "om_ok ticks" "(if zfo then om_last_upto ticks t else om_first_above ticks t) = Some (nt, v)"
  shows "ahead ticks zfo (if zfo then nt - 1 else nt) < ahead ticks zfo t"
proof (cases zfo)
  case True
  then have "om_last_upto ticks t = Some (nt, v)" using assms(2) by simp
  then have "map_of ticks nt = Some v" "nt \<le> t" using om.last_upto_Some(1,2)[OF assms(1)] by auto
  then show ?thesis using True unfolding ahead_def
    by (intro length_filter_strict[of "(nt, v)"]) (auto dest: map_of_SomeD)
next
  case False
  then have "om_first_above ticks t = Some (nt, v)" using assms(2) by simp
  then have "map_of ticks nt = Some v" "t < nt" using om.first_above_Some(1,2)[OF assms(1)] by auto
  then show ?thesis using False unfolding ahead_def
    by (intro length_filter_strict[of "(nt, v)"]) (auto dest: map_of_SomeD)
qed

text \<open>The prices a limit may name: strictly inside the ends of the tick domain.\<close>

definition limit_ok :: "u256 \<Rightarrow> bool" where
  "limit_ok limit \<longleftrightarrow> tick_x96 UNISWAP_MIN_TICK < uint limit \<and> uint limit < tick_x96 UNISWAP_MAX_TICK"

lemma default_tick_not_target:
  assumes "limit_ok limit" "(if zfo then om_last_upto ticks t else om_first_above ticks t) = None"
    "get_sqrt_ratio_at_tick (next_tick ticks zfo t) = Inr sn"
  shows "(if zfo then max (sqrt_x96 sn) limit else min (sqrt_x96 sn) limit) = limit \<and> limit \<noteq> sqrt_x96 sn"
proof -
  have nt: "next_tick ticks zfo t = (if zfo then UNISWAP_MIN_TICK else UNISWAP_MAX_TICK)"
    using assms(2) by (simp add: next_tick_def split: if_splits)
  then have "uint (sqrt_x96 sn) = tick_x96 (if zfo then UNISWAP_MIN_TICK else UNISWAP_MAX_TICK)"
    using assms(3) by (auto simp: get_sqrt_ratio_at_tick_eq uint_sqrt_at split: if_splits)
  then show ?thesis using assms(1) by (cases zfo) (auto simp: limit_ok_def max_def min_def word_le_def)
qed

lemma cross_tick_keeps:
  assumes "cross_tick ticks zfo nt sqrt_next start s st = Inr (st', c)"
  shows "remaining st' = remaining st" "sqrt_now st' = sqrt_now st" "calculated st' = calculated st"
    and "s = sqrt_next \<Longrightarrow> tick_now st' = (if zfo then nt - 1 else nt)"
  using assms by (auto simp: cross_tick_def rbind_eq_Inr split: if_splits option.splits)

lemma sim_step_unfold:
  assumes "sim_step ticks zfo limit st = Inr (st', stop)"
  obtains sn step c where "get_sqrt_ratio_at_tick (next_tick ticks zfo (tick_now st)) = Inr sn"
    "swap_step zfo (if zfo then max (sqrt_x96 sn) limit else min (sqrt_x96 sn) limit)
       (sqrt_now st) (liq_now st) (remaining st) = Inr step"
    "cross_tick ticks zfo (next_tick ticks zfo (tick_now st)) (sqrt_x96 sn) (sqrt_now st) (step_sqrt step)
       (st\<lparr>remaining := remaining st - step_used step, calculated := calculated st + step_other step,
           sqrt_now := step_sqrt step\<rparr>) = Inr (st', c)"
  using assms that by (auto simp: sim_step_def rbind_eq_Inr Let_def)

lemma sim_step_progress:
  assumes "om_ok ticks" "limit_ok limit" "sim_step ticks zfo limit st = Inr (st', stop)"
  shows "remaining st' = 0 \<or> sqrt_now st' = limit \<or> ahead ticks zfo (tick_now st') < ahead ticks zfo (tick_now st)"
proof -
  let ?nt = "next_tick ticks zfo (tick_now st)"
  obtain sn step c where sn: "get_sqrt_ratio_at_tick ?nt = Inr sn"
    and step: "swap_step zfo (if zfo then max (sqrt_x96 sn) limit else min (sqrt_x96 sn) limit)
       (sqrt_now st) (liq_now st) (remaining st) = Inr step"
    and cross: "cross_tick ticks zfo ?nt (sqrt_x96 sn) (sqrt_now st) (step_sqrt step)
       (st\<lparr>remaining := remaining st - step_used step, calculated := calculated st + step_other step,
           sqrt_now := step_sqrt step\<rparr>) = Inr (st', c)"
    by (rule sim_step_unfold[OF assms(3)])
  note keeps = cross_tick_keeps[OF cross]
  let ?target = "if zfo then max (sqrt_x96 sn) limit else min (sqrt_x96 sn) limit"
  consider "step_used step = remaining st" | "step_sqrt step = ?target" "?target = limit"
    | "step_sqrt step = ?target" "?target = sqrt_x96 sn" "?target \<noteq> limit"
    using swap_step_used(2)[OF step] by (cases "?target = limit") (auto simp: max_def min_def split: if_splits)
  then show ?thesis
  proof cases
    case 3
    then obtain v where "(if zfo then om_last_upto ticks (tick_now st) else om_first_above ticks (tick_now st)) = Some (?nt, v)"
      using default_tick_not_target[OF assms(2) _ sn] by (cases "if zfo then om_last_upto ticks (tick_now st) else om_first_above ticks (tick_now st)")
        (auto simp: next_tick_def)
    then show ?thesis using ahead_decreases[OF assms(1)] keeps(4) 3 by simp
  qed (use keeps in simp_all)
qed

lemma sim_loop_enough:
  assumes "om_ok ticks" "limit_ok limit" "ahead ticks zfo (tick_now st) < fuel"
  shows "sim_loop fuel ticks zfo limit st \<noteq> None"
  using assms(3)
proof (induction fuel arbitrary: st)
  case (Suc fuel)
  show ?case
  proof (cases "remaining st = 0 \<or> sqrt_now st = limit")
    case False
    show ?thesis
    proof (cases "sim_step ticks zfo limit st")
      case (Inr r)
      obtain st' stop where r: "r = (st', stop)" by (cases r)
      have "sim_loop fuel ticks zfo limit st' \<noteq> None"
      proof (cases "remaining st' = 0 \<or> sqrt_now st' = limit")
        case False
        then have "ahead ticks zfo (tick_now st') < ahead ticks zfo (tick_now st)"
          using sim_step_progress[OF assms(1,2), of zfo st st' stop] Inr r by simp
        then show ?thesis using Suc by (intro Suc.IH) simp
      qed (simp add: sim_loop.simps)
      then show ?thesis using False Inr r by (auto simp: sim_loop.simps)
    qed (use False in \<open>simp add: sim_loop.simps\<close>)
  qed (simp add: sim_loop.simps)
qed simp

lemma ahead_le: "ahead ticks zfo t \<le> length ticks"
  by (simp add: ahead_def)

lemma simulate_returns:
  assumes "om_ok (ps_ticks p)" "limit_ok limit"
  shows "simulate p requested limit \<noteq> None"
proof -
  let ?z = "sint requested < 0"
  let ?st = "sim_start p (ucast (unsigned_abs requested))"
  have "sim_loop (sim_fuel p) (ps_ticks p) ?z limit ?st \<noteq> None"
    using ahead_le[of "ps_ticks p" ?z "tick_now ?st"]
    by (intro sim_loop_enough[OF assms]) (simp add: sim_fuel_def)
  then show ?thesis by (simp add: simulate_def Let_def)
qed

subsection \<open>The price stays on course, the liquidity stays the map's\<close>

text \<open>The liquidity a tick map implies at a tick, as an integer.\<close>

definition net_upto :: "(i32, tick_liquidity) omap \<Rightarrow> i32 \<Rightarrow> int" where
  "net_upto ticks t = (\<Sum>e\<leftarrow>ticks. if fst e \<le> t then sint (l_delta (net (snd e))) else 0)"

lemma net_upto_step:
  assumes "t \<le> t'"
  shows "net_upto ticks t' = net_upto ticks t + (\<Sum>e\<leftarrow>ticks. if t < fst e \<and> fst e \<le> t' then sint (l_delta (net (snd e))) else 0)"
  unfolding net_upto_def using assms by (induction ticks) auto

lemma net_upto_gap:
  assumes "t \<le> t'" "\<And>k. map_of ticks k \<noteq> None \<Longrightarrow> \<not> (t < k \<and> k \<le> t')"
  shows "net_upto ticks t' = net_upto ticks t"
proof -
  have "(\<Sum>e\<leftarrow>ticks. if t < fst e \<and> fst e \<le> t' then sint (l_delta (net (snd e))) else 0) = (\<Sum>e\<leftarrow>ticks. 0)"
    using assms(2) by (intro arg_cong[where f = sum_list] map_cong) (auto simp: map_of_eq_None_iff image_iff)
  then show ?thesis by (simp add: net_upto_step[OF assms(1)])
qed

lemma sum_one_key:
  assumes "distinct (map fst ticks)" "map_of ticks k = Some v"
  shows "(\<Sum>e\<leftarrow>ticks. if fst e = k then f (snd e) else 0) = (f v :: int)"
  using assms
proof (induction ticks)
  case (Cons e ticks)
  show ?case
  proof (cases "fst e = k")
    case True
    then have "k \<notin> fst ` set ticks" using Cons.prems by auto
    then have "(\<Sum>e\<leftarrow>ticks. if fst e = k then f (snd e) else 0) = (\<Sum>e\<leftarrow>ticks. 0)"
      by (intro arg_cong[where f = sum_list] map_cong) auto
    then show ?thesis using True Cons.prems by (cases e) simp
  qed (use Cons in auto)
qed simp

lemma net_upto_cross:
  assumes "om_ok ticks" "map_of ticks k = Some v"
  shows "net_upto ticks k = net_upto ticks (k - 1) + sint (l_delta (net v))"
proof -
  have "(\<Sum>e\<leftarrow>ticks. if k - 1 < fst e \<and> fst e \<le> k then sint (l_delta (net (snd e))) else 0)
      = (\<Sum>e\<leftarrow>ticks. if fst e = k then sint (l_delta (net (snd e))) else 0)"
    by (intro arg_cong[where f = sum_list] map_cong) auto
  then show ?thesis
    using net_upto_step[of "k - 1" k ticks]
      sum_one_key[OF om.distinct_keys[OF assms(1)] assms(2), of "\<lambda>v. sint (l_delta (net v))"] by simp
qed

text \<open>
  A price and a tick that belong together: V4's tick is the price's own, or the one below a
  boundary the price stopped on.
\<close>

definition tick_fits :: "int \<Rightarrow> i32 \<Rightarrow> bool" where
  "tick_fits s t \<longleftrightarrow> UNISWAP_MIN_TICK \<le> t \<and> t < UNISWAP_MAX_TICK \<and> tick_x96 t \<le> s \<and> s \<le> tick_x96 (t + 1)"

lemma tick_x96_mono: "on_grid s \<Longrightarrow> on_grid t \<Longrightarrow> s \<le> t \<Longrightarrow> tick_x96 s \<le> tick_x96 t"
  using sqrt_grid.le_iff[of s t] by (simp add: on_grid_def price_order word_le_def uint_sqrt_at)

lemma tick_x96_less_iff: "on_grid s \<Longrightarrow> on_grid t \<Longrightarrow> tick_x96 s < tick_x96 t \<longleftrightarrow> s < t"
  using sqrt_at_less[of s t] by (simp add: price_order word_less_def uint_sqrt_at)

record sim_bounds =
  sb_ticks :: "(i32, tick_liquidity) omap"
  sb_start :: u256
  sb_limit :: u256
  sb_exact :: u256

definition sim_inv :: "sim_bounds \<Rightarrow> bool \<Rightarrow> sim_state \<Rightarrow> bool" where
  "sim_inv b zfo st \<longleftrightarrow>
     tick_fits (uint (sqrt_now st)) (tick_now st)
     \<and> remaining st \<le> sb_exact b
     \<and> (if zfo then sb_limit b \<le> sqrt_now st \<and> sqrt_now st \<le> sb_start b
        else sb_start b \<le> sqrt_now st \<and> sqrt_now st \<le> sb_limit b)
     \<and> uint (l_units (liq_now st)) = net_upto (sb_ticks b) (tick_now st)"

lemma get_tick_fits:
  assumes "get_tick_at_sqrt_ratio (SqrtPrice s) = Inr t"
  shows "UNISWAP_MIN_TICK \<le> t" "t < UNISWAP_MAX_TICK" "tick_x96 t \<le> uint s" "uint s < tick_x96 (t + 1)"
proof -
  have t: "UNISWAP_MIN_TICK \<le> t" "t < UNISWAP_MAX_TICK" "sqrt_at t \<le> SqrtPrice s" "SqrtPrice s < sqrt_at (t + 1)"
    using assms by (simp_all add: get_tick_iff)
  then have "on_grid t" "on_grid (t + 1)" by (auto simp: on_grid_def)
  then show "UNISWAP_MIN_TICK \<le> t" "t < UNISWAP_MAX_TICK" "tick_x96 t \<le> uint s" "uint s < tick_x96 (t + 1)"
    using t uint_sqrt_at by (auto simp: price_order word_le_def word_less_def)
qed

text \<open>Selling: the next tick's price is at or below the current one, with nothing initialized between.\<close>

lemma next_tick_sell:
  assumes "om_ok ticks" "tick_fits s t" "get_sqrt_ratio_at_tick (next_tick ticks True t) = Inr sn"
  shows "uint (sqrt_x96 sn) = tick_x96 (next_tick ticks True t)" "next_tick ticks True t \<le> t"
    "on_grid (next_tick ticks True t)" "tick_x96 (next_tick ticks True t) \<le> s"
    "\<And>k. map_of ticks k \<noteq> None \<Longrightarrow> k \<le> t \<Longrightarrow> k \<le> next_tick ticks True t"
proof -
  let ?nt = "next_tick ticks True t"
  show g: "on_grid ?nt" and "uint (sqrt_x96 sn) = tick_x96 ?nt"
    using assms(3) by (auto simp: get_sqrt_ratio_at_tick_eq uint_sqrt_at split: if_splits)
  show le: "?nt \<le> t"
  proof (cases "om_last_upto ticks t")
    case (Some e)
    then show ?thesis using om.last_upto_Some(2)[OF assms(1), of t "fst e" "snd e"] by (cases e) (simp add: next_tick_def)
  qed (use assms(2) in \<open>simp add: next_tick_def tick_fits_def\<close>)
  have "on_grid t" using assms(2) by (auto simp: tick_fits_def on_grid_def)
  then show "tick_x96 ?nt \<le> s" using tick_x96_mono[OF g _ le] assms(2) by (simp add: tick_fits_def)
  fix k assume k: "map_of ticks k \<noteq> None" "k \<le> t"
  show "k \<le> ?nt"
  proof (cases "om_last_upto ticks t")
    case None
    then show ?thesis using om.last_upto_None[OF assms(1) None k(1)] k(2) by simp
  next
    case (Some e)
    then show ?thesis using om.last_upto_Some(3)[OF assms(1), of t "fst e" "snd e" k] k by (cases e) (simp add: next_tick_def)
  qed
qed

text \<open>Buying: the next tick's price is at or above the current one.\<close>

lemma next_tick_buy:
  assumes "om_ok ticks" "tick_fits s t" "get_sqrt_ratio_at_tick (next_tick ticks False t) = Inr sn"
  shows "uint (sqrt_x96 sn) = tick_x96 (next_tick ticks False t)" "t < next_tick ticks False t"
    "on_grid (next_tick ticks False t)" "s \<le> tick_x96 (next_tick ticks False t)"
    "\<And>k. map_of ticks k \<noteq> None \<Longrightarrow> t < k \<Longrightarrow> next_tick ticks False t \<le> k"
proof -
  let ?nt = "next_tick ticks False t"
  show g: "on_grid ?nt" and "uint (sqrt_x96 sn) = tick_x96 ?nt"
    using assms(3) by (auto simp: get_sqrt_ratio_at_tick_eq uint_sqrt_at split: if_splits)
  show lt: "t < ?nt"
  proof (cases "om_first_above ticks t")
    case (Some e)
    then show ?thesis using om.first_above_Some(2)[OF assms(1), of t "fst e" "snd e"] by (cases e) (simp add: next_tick_def)
  qed (use assms(2) in \<open>simp add: next_tick_def tick_fits_def\<close>)
  have "on_grid (t + 1)" using assms(2) by (auto simp: tick_fits_def on_grid_def)
  then show "s \<le> tick_x96 ?nt" using tick_x96_mono[OF _ g, of "t + 1"] lt assms(2) by (simp add: tick_fits_def)
  fix k assume k: "map_of ticks k \<noteq> None" "t < k"
  show "?nt \<le> k"
  proof (cases "om_first_above ticks t")
    case None
    then show ?thesis using om.first_above_None[OF assms(1) None k(1)] k(2) by simp
  next
    case (Some e)
    then show ?thesis using om.first_above_Some(3)[OF assms(1), of t "fst e" "snd e" k] k by (cases e) (simp add: next_tick_def)
  qed
qed

lemma uint_remaining_le:
  assumes "rem \<le> (ex :: u256)" "used \<le> rem"
  shows "rem - used \<le> ex"
proof -
  have "uint (rem - used) = uint rem - uint used"
    using assms(2) by (intro uint_sub_exact) (simp add: word_le_def)
  then show ?thesis using assms uint_ge_0[of used] unfolding word_le_def by linarith
qed

text \<open>The three ways a step can end, with what each leaves in the state.\<close>

lemma cross_tick_cases:
  assumes "cross_tick ticks zfo nt sqrt_next start s st = Inr (st', c)"
  obtains (crossed) info n where "s = sqrt_next" "map_of ticks nt = Some info"
      "sint (l_delta n) = (if zfo then - sint (l_delta (net info)) else sint (l_delta (net info)))"
      "uint (l_units (liq_now st')) = uint (l_units (liq_now st)) + sint (l_delta n)"
      "tick_now st' = (if zfo then nt - 1 else nt)"
  | (boundary) "s = sqrt_next" "map_of ticks nt = None" "liq_now st' = liq_now st"
      "tick_now st' = (if zfo then nt - 1 else nt)"
  | (moved) "s \<noteq> sqrt_next" "s \<noteq> start" "get_tick_at_sqrt_ratio (SqrtPrice s) = Inr (tick_now st')"
      "liq_now st' = liq_now st"
  | (still) "s \<noteq> sqrt_next" "s = start" "tick_now st' = tick_now st" "liq_now st' = liq_now st"
proof (cases "s = sqrt_next")
  case True
  show thesis
  proof (cases "map_of ticks nt")
    case None
    then show thesis using True assms by (intro boundary) (auto simp: cross_tick_def)
  next
    case (Some info)
    then obtain n l where "(if zfo then l_delta_negated (net info) else Inr (net info)) = Inr n"
      "l_checked_add_signed (liq_now st) n = Inr l"
      "st' = st\<lparr>liq_now := l, crossed := crossed st @ [nt], tick_now := (if zfo then nt - 1 else nt)\<rparr>"
      using True assms by (auto simp: cross_tick_def rbind_eq_Inr split: if_splits)
    then show thesis using True Some
      by (intro crossed[of info n]) (auto simp: l_delta_negated_Inr l_checked_add_signed_Inr split: if_splits)
  qed
next
  case False
  then show thesis using assms moved still
    by (cases "s = start") (auto simp: cross_tick_def rbind_eq_Inr)
qed

lemma sim_step_inv_sell:
  assumes ok: "om_ok (sb_ticks b)" "limit_ok (sb_limit b)" and exact: "uint (sb_exact b) < 2 ^ 128"
    and inv: "sim_inv b True st" and more: "remaining st \<noteq> 0"
    and run: "sim_step (sb_ticks b) True (sb_limit b) st = Inr (st', stop)"
  shows "sim_inv b True st'"
proof -
  let ?t = "tick_now st" and ?s = "sqrt_now st" and ?nt = "next_tick (sb_ticks b) True (tick_now st)"
  let ?limit = "sb_limit b"
  obtain sn step c where sn: "get_sqrt_ratio_at_tick ?nt = Inr sn"
    and step: "swap_step True (max (sqrt_x96 sn) ?limit) ?s (liq_now st) (remaining st) = Inr step"
    and cross: "cross_tick (sb_ticks b) True ?nt (sqrt_x96 sn) ?s (step_sqrt step)
       (st\<lparr>remaining := remaining st - step_used step, calculated := calculated st + step_other step,
           sqrt_now := step_sqrt step\<rparr>) = Inr (st', c)"
    using sim_step_unfold[OF run] by (metis (full_types))
  have I: "tick_fits (uint ?s) ?t" "remaining st \<le> sb_exact b" "?limit \<le> ?s" "?s \<le> sb_start b"
    "uint (l_units (liq_now st)) = net_upto (sb_ticks b) ?t" using inv by (simp_all add: sim_inv_def)
  note nt = next_tick_sell[OF ok(1) I(1) sn]
  note keeps = cross_tick_keeps(1,2)[OF cross]
  let ?target = "max (sqrt_x96 sn) ?limit" and ?s' = "step_sqrt step"
  have target: "?target \<le> ?s" using nt(1,4) I(3) by (simp add: word_le_def)
  have "0 < tick_x96 ?nt" by (rule tick_x96_pos[OF nt(3)])
  then have "sqrt_x96 sn \<noteq> 0" using nt(1) uint_pos_iff by metis
  then have "?target \<noteq> 0" using max.cobounded1[of "sqrt_x96 sn" ?limit] by (metis word_le_0_iff)
  moreover have "uint (remaining st) < 2 ^ 128" using I(2) exact by (simp add: word_le_def)
  ultimately have between: "?target \<le> ?s'" "?s' \<le> ?s"
    using swap_step_sell_between[OF step _ target more] by simp_all
  then have course: "?limit \<le> ?s'" "?s' \<le> sb_start b" "sqrt_x96 sn \<le> ?s'" using I(4) by auto
  then have above_min: "tick_x96 UNISWAP_MIN_TICK < uint ?s'" using ok(2) by (auto simp: limit_ok_def word_le_def)
  have rem: "remaining st' \<le> sb_exact b"
    using keeps(1) uint_remaining_le[OF I(2) swap_step_used(1)[OF step]] by simp
  have fit: "tick_fits (uint ?s') (tick_now st') \<and> uint (l_units (liq_now st')) = net_upto (sb_ticks b) (tick_now st')"
    using cross
  proof (cases rule: cross_tick_cases)
    case (crossed info n)
    have nt_min: "UNISWAP_MIN_TICK < ?nt" using above_min crossed(1) nt(1,3)
      by (simp add: tick_x96_less_iff)
    then have grid: "on_grid (?nt - 1)" using nt(3) by (auto simp: on_grid_def)
    have "net_upto (sb_ticks b) ?t = net_upto (sb_ticks b) ?nt"
      using nt(2,5) by (intro net_upto_gap) (auto simp: not_less)
    then have "uint (l_units (liq_now st')) = net_upto (sb_ticks b) (?nt - 1)"
      using crossed(3,4) I(5) net_upto_cross[OF ok(1) crossed(2)] by simp
    moreover have "tick_x96 (?nt - 1) \<le> tick_x96 ?nt" using grid nt(3) by (simp add: tick_x96_mono)
    ultimately show ?thesis using crossed(1,5) nt(1) nt_min nt(3) by (auto simp: tick_fits_def on_grid_def)
  next
    case boundary
    then have "om_last_upto (sb_ticks b) ?t = None"
      using om.last_upto_Some(1)[OF ok(1), of ?t] by (cases "om_last_upto (sb_ticks b) ?t") (auto simp: next_tick_def)
    then have "?nt = UNISWAP_MIN_TICK" by (simp add: next_tick_def)
    then show ?thesis using above_min boundary(1) nt(1) by simp
  next
    case moved
    note t' = get_tick_fits[OF moved(3)]
    have "uint ?s' < uint ?s" using between(2) moved(2)
      by (simp add: word_le_def order_le_imp_less_or_eq) (metis order_le_imp_less_or_eq word_eq_uintI)
    then have "tick_x96 (tick_now st') < tick_x96 (?t + 1)" using t'(3) I(1) by (simp add: tick_fits_def)
    then have le: "tick_now st' \<le> ?t" using t'(1,2) I(1)
      by (subst (asm) tick_x96_less_iff) (auto simp: tick_fits_def on_grid_def)
    have "tick_x96 ?nt < tick_x96 (tick_now st' + 1)" using course(3) t'(4) nt(1) by (simp add: word_le_def)
    then have "?nt \<le> tick_now st'" using t'(1,2) nt(3)
      by (subst (asm) tick_x96_less_iff) (auto simp: on_grid_def)
    then have "net_upto (sb_ticks b) ?t = net_upto (sb_ticks b) (tick_now st')"
      using le nt(5) by (intro net_upto_gap) force+
    then show ?thesis using t' moved(4) I(5) by (simp add: tick_fits_def)
  next
    case still
    then show ?thesis using I by simp
  qed
  show ?thesis using rem course fit keeps(2) by (simp add: sim_inv_def)
qed

lemma sim_step_inv_buy:
  assumes ok: "om_ok (sb_ticks b)" "limit_ok (sb_limit b)" and exact: "uint (sb_exact b) < 2 ^ 128"
    and inv: "sim_inv b False st" and more: "remaining st \<noteq> 0"
    and run: "sim_step (sb_ticks b) False (sb_limit b) st = Inr (st', stop)"
  shows "sim_inv b False st'"
proof -
  let ?t = "tick_now st" and ?s = "sqrt_now st" and ?nt = "next_tick (sb_ticks b) False (tick_now st)"
  let ?limit = "sb_limit b"
  obtain sn step c where sn: "get_sqrt_ratio_at_tick ?nt = Inr sn"
    and step: "swap_step False (min (sqrt_x96 sn) ?limit) ?s (liq_now st) (remaining st) = Inr step"
    and cross: "cross_tick (sb_ticks b) False ?nt (sqrt_x96 sn) ?s (step_sqrt step)
       (st\<lparr>remaining := remaining st - step_used step, calculated := calculated st + step_other step,
           sqrt_now := step_sqrt step\<rparr>) = Inr (st', c)"
    using sim_step_unfold[OF run] by (metis (full_types))
  have I: "tick_fits (uint ?s) ?t" "remaining st \<le> sb_exact b" "sb_start b \<le> ?s" "?s \<le> ?limit"
    "uint (l_units (liq_now st)) = net_upto (sb_ticks b) ?t" using inv by (simp_all add: sim_inv_def)
  note nt = next_tick_buy[OF ok(1) I(1) sn]
  note keeps = cross_tick_keeps(1,2)[OF cross]
  let ?target = "min (sqrt_x96 sn) ?limit" and ?s' = "step_sqrt step"
  have target: "?s \<le> ?target" using nt(1,4) I(4) by (simp add: word_le_def)
  have "0 < tick_x96 ?t" using I(1) by (intro tick_x96_pos) (auto simp: tick_fits_def on_grid_def)
  then have "?s \<noteq> 0" using I(1) uint_pos_iff[of ?s] by (auto simp: tick_fits_def)
  moreover have "uint (remaining st) < 2 ^ 128" using I(2) exact by (simp add: word_le_def)
  ultimately have between: "?s \<le> ?s'" "?s' \<le> ?target"
    using swap_step_buy_between[OF step _ target more] by simp_all
  then have course: "?s' \<le> ?limit" "sb_start b \<le> ?s'" "?s' \<le> sqrt_x96 sn" using I(3) by auto
  then have below_max: "uint ?s' < tick_x96 UNISWAP_MAX_TICK" using ok(2) by (auto simp: limit_ok_def word_le_def)
  have rem: "remaining st' \<le> sb_exact b"
    using keeps(1) uint_remaining_le[OF I(2) swap_step_used(1)[OF step]] by simp
  have fit: "tick_fits (uint ?s') (tick_now st') \<and> uint (l_units (liq_now st')) = net_upto (sb_ticks b) (tick_now st')"
    using cross
  proof (cases rule: cross_tick_cases)
    case (crossed info n)
    have nt_max: "?nt < UNISWAP_MAX_TICK" using below_max crossed(1) nt(1,3)
      by (simp add: tick_x96_less_iff)
    then have grid: "on_grid (?nt + 1)" using nt(3) by (auto simp: on_grid_def)
    have "net_upto (sb_ticks b) (?nt - 1) = net_upto (sb_ticks b) ?t"
      using nt(2,5) by (intro net_upto_gap) force+
    then have "uint (l_units (liq_now st')) = net_upto (sb_ticks b) ?nt"
      using crossed(3,4) I(5) net_upto_cross[OF ok(1) crossed(2)] by simp
    moreover have "tick_x96 ?nt \<le> tick_x96 (?nt + 1)" using grid nt(3) by (simp add: tick_x96_mono)
    ultimately show ?thesis using crossed(1,5) nt(1) nt_max nt(3) by (auto simp: tick_fits_def on_grid_def)
  next
    case boundary
    then have "om_first_above (sb_ticks b) ?t = None"
      using om.first_above_Some(1)[OF ok(1), of ?t] by (cases "om_first_above (sb_ticks b) ?t") (auto simp: next_tick_def)
    then have "?nt = UNISWAP_MAX_TICK" by (simp add: next_tick_def)
    then show ?thesis using below_max boundary(1) nt(1) by simp
  next
    case moved
    note t' = get_tick_fits[OF moved(3)]
    have "tick_x96 ?t < tick_x96 (tick_now st' + 1)" using t'(4) between(1) I(1)
      by (simp add: tick_fits_def word_le_def)
    then have le: "?t \<le> tick_now st'" using t'(1,2) I(1)
      by (subst (asm) tick_x96_less_iff) (auto simp: tick_fits_def on_grid_def)
    have "uint ?s' < uint (sqrt_x96 sn)" using course(3) moved(1)
      by (simp add: word_le_def order_le_imp_less_or_eq) (metis order_le_imp_less_or_eq word_eq_uintI)
    then have "tick_x96 (tick_now st') < tick_x96 ?nt" using t'(3) nt(1) by simp
    then have "tick_now st' < ?nt" using t'(1,2) nt(3)
      by (subst (asm) tick_x96_less_iff) (auto simp: on_grid_def)
    then have "net_upto (sb_ticks b) (tick_now st') = net_upto (sb_ticks b) ?t"
      using le nt(5) by (intro net_upto_gap) force+
    then show ?thesis using t' moved(4) I(5) by (simp add: tick_fits_def)
  next
    case still
    then show ?thesis using I by simp
  qed
  show ?thesis using rem course fit keeps(2) by (simp add: sim_inv_def)
qed

lemma sim_loop_inv:
  assumes "om_ok (sb_ticks b)" "limit_ok (sb_limit b)" "uint (sb_exact b) < 2 ^ 128"
    and "sim_inv b zfo st" "sim_loop fuel (sb_ticks b) zfo (sb_limit b) st = Some (Inr st')"
  shows "sim_inv b zfo st'"
  using assms(4,5)
proof (induction fuel arbitrary: st)
  case (Suc fuel)
  show ?case
  proof (cases "remaining st = 0 \<or> sqrt_now st = sb_limit b")
    case False
    then obtain st1 stop where step: "sim_step (sb_ticks b) zfo (sb_limit b) st = Inr (st1, stop)"
      and rest: "if stop then st' = st1 else sim_loop fuel (sb_ticks b) zfo (sb_limit b) st1 = Some (Inr st')"
      using Suc.prems(2) by (subst (asm) sim_loop.simps) (auto split: sum.splits prod.splits if_splits)
    have "sim_inv b zfo st1"
      using sim_step_inv_sell[OF assms(1-3)] sim_step_inv_buy[OF assms(1-3)] Suc.prems(1) step False
      by (cases zfo) auto
    then show ?thesis using rest Suc.IH by (auto split: if_splits)
  qed (use Suc.prems in \<open>simp add: sim_loop.simps\<close>)
qed (auto simp: sim_loop.simps split: if_splits)

text \<open>A snapshot whose price, tick and liquidity belong to its tick map, and a limit on the trade's side.\<close>

definition pool_ok :: "pool_snapshot \<Rightarrow> bool" where
  "pool_ok p \<longleftrightarrow> om_ok (ps_ticks p)
     \<and> tick_fits (uint (sqrt_x96 (ps_sqrt_price p))) (ps_tick p)
     \<and> uint (l_units (ps_liquidity p)) = net_upto (ps_ticks p) (ps_tick p)"

definition limit_ahead :: "pool_snapshot \<Rightarrow> i128 \<Rightarrow> u256 \<Rightarrow> bool" where
  "limit_ahead p requested limit \<longleftrightarrow> limit_ok limit \<and>
     (if sint requested < 0 then limit \<le> sqrt_x96 (ps_sqrt_price p) else sqrt_x96 (ps_sqrt_price p) \<le> limit)"

lemma simulate_end:
  assumes "pool_ok p" "limit_ahead p requested limit" "simulate p requested limit = Some (Inr sim)"
  obtains st b where "sim_inv b (sint requested < 0) st" "sb_ticks b = ps_ticks p"
    "sb_start b = sqrt_x96 (ps_sqrt_price p)" "sb_limit b = limit"
    "sb_exact b = ucast (unsigned_abs requested)" "uint (sb_exact b) = \<bar>sint requested\<bar>"
    "sim_finish (sint requested < 0) (sb_exact b) limit st = Inr sim"
proof -
  define b where "b = \<lparr>sb_ticks = ps_ticks p, sb_start = sqrt_x96 (ps_sqrt_price p), sb_limit = limit,
    sb_exact = ucast (unsigned_abs requested)\<rparr>"
  obtain st where st: "sim_loop (sim_fuel p) (ps_ticks p) (sint requested < 0) limit
      (sim_start p (ucast (unsigned_abs requested))) = Some (Inr st)"
    and fin: "sim_finish (sint requested < 0) (ucast (unsigned_abs requested)) limit st = Inr sim"
    using assms(3) by (auto simp: simulate_def Let_def rbind_eq_Inr)
  have ex: "uint (sb_exact b) = \<bar>sint requested\<bar>" by (simp add: b_def uint_unsigned_abs)
  moreover have "\<bar>sint requested\<bar> < 2 ^ 128" using sint_bounds[of requested] by auto
  moreover have "sim_inv b (sint requested < 0) (sim_start p (ucast (unsigned_abs requested)))"
    using assms(1,2) by (simp add: sim_inv_def sim_start_def pool_ok_def limit_ahead_def b_def)
  ultimately have "sim_inv b (sint requested < 0) st"
    using sim_loop_inv[of b "sint requested < 0" _ "sim_fuel p" st] assms(1,2) st
    by (simp add: pool_ok_def limit_ahead_def b_def)
  then show thesis using fin ex by (intro that[of b st]) (simp_all add: b_def)
qed

lemma simulate_price:
  assumes "pool_ok p" "limit_ahead p requested limit" "simulate p requested limit = Some (Inr sim)"
  shows "if sint requested < 0
    then limit \<le> sim_sqrt_after sim \<and> sim_sqrt_after sim \<le> sqrt_x96 (ps_sqrt_price p)
    else sqrt_x96 (ps_sqrt_price p) \<le> sim_sqrt_after sim \<and> sim_sqrt_after sim \<le> limit"
    "tick_fits (uint (sim_sqrt_after sim)) (sim_tick_after sim)"
    "uint (l_units (sim_liquidity_after sim)) = net_upto (ps_ticks p) (sim_tick_after sim)"
proof -
  obtain st b where "sim_inv b (sint requested < 0) st" "sb_ticks b = ps_ticks p"
    "sb_start b = sqrt_x96 (ps_sqrt_price p)" "sb_limit b = limit"
    "sb_exact b = ucast (unsigned_abs requested)" "uint (sb_exact b) = \<bar>sint requested\<bar>"
    "sim_finish (sint requested < 0) (sb_exact b) limit st = Inr sim"
    by (rule simulate_end[OF assms])
  then show "if sint requested < 0
    then limit \<le> sim_sqrt_after sim \<and> sim_sqrt_after sim \<le> sqrt_x96 (ps_sqrt_price p)
    else sqrt_x96 (ps_sqrt_price p) \<le> sim_sqrt_after sim \<and> sim_sqrt_after sim \<le> limit"
    "tick_fits (uint (sim_sqrt_after sim)) (sim_tick_after sim)"
    "uint (l_units (sim_liquidity_after sim)) = net_upto (ps_ticks p) (sim_tick_after sim)"
    by (auto simp: sim_inv_def sim_finish_def rbind_eq_Inr)
qed

lemma simulate_fill:
  assumes "pool_ok p" "limit_ahead p requested limit" "simulate p requested limit = Some (Inr sim)"
  shows "\<bar>sint (sim_perp_delta sim)\<bar> \<le> \<bar>sint requested\<bar>"
    "0 \<le> sint (sim_perp_delta sim) * sint requested"
    "sim_fully_filled sim \<longleftrightarrow> sim_perp_delta sim = requested"
    "sint requested < 0 \<Longrightarrow> 0 \<le> sint (sim_usd_delta sim)"
    "0 \<le> sint requested \<Longrightarrow> sint (sim_usd_delta sim) \<le> 0"
proof -
  obtain st b where inv: "sim_inv b (sint requested < 0) st"
    and ex: "uint (sb_exact b) = \<bar>sint requested\<bar>"
    and fin: "sim_finish (sint requested < 0) (sb_exact b) limit st = Inr sim"
    by (rule simulate_end[OF assms])
  have le: "remaining st \<le> sb_exact b" using inv by (simp add: sim_inv_def)
  then have diff: "uint (sb_exact b - remaining st) = \<bar>sint requested\<bar> - uint (remaining st)"
    using ex by (subst uint_sub_exact) (simp_all add: word_le_def)
  obtain filled usd where f: "sint filled = \<bar>sint requested\<bar> - uint (remaining st)"
      "sint usd = uint (calculated st)"
    and sim: "sim_perp_delta sim = (if sint requested < 0 then - filled else filled)"
      "sim_usd_delta sim = (if sint requested < 0 then usd else - usd)"
      "sim_fully_filled sim \<longleftrightarrow> remaining st = 0"
    using fin by (auto simp: sim_finish_def rbind_eq_Inr u256_to_i128_Inr diff)
  have nn: "0 \<le> sint filled" "0 \<le> sint usd" "sint filled \<le> \<bar>sint requested\<bar>"
    using f le ex by (simp_all add: word_le_def)
  have neg: "sint (- filled) = - sint filled" "sint (- usd) = - sint usd"
    using nn sint_bounds(2)[of filled] sint_bounds(2)[of usd]
    by (auto intro!: sint_neg_exact simp: in_signed_def)
  show "\<bar>sint (sim_perp_delta sim)\<bar> \<le> \<bar>sint requested\<bar>" "0 \<le> sint (sim_perp_delta sim) * sint requested"
    using nn sim(1) neg(1) by (auto simp: zero_le_mult_iff)
  show "sint requested < 0 \<Longrightarrow> 0 \<le> sint (sim_usd_delta sim)"
    "0 \<le> sint requested \<Longrightarrow> sint (sim_usd_delta sim) \<le> 0"
    using nn sim(2) neg(2) by simp_all
  have "sim_perp_delta sim = requested \<longleftrightarrow> sint (sim_perp_delta sim) = sint requested" by simp
  also have "\<dots> \<longleftrightarrow> uint (remaining st) = 0" using sim(1) f(1) neg(1) by auto
  finally show "sim_fully_filled sim \<longleftrightarrow> sim_perp_delta sim = requested"
    using sim(3) by (simp add: uint_zero_iff)
qed

subsection \<open>Hypothetical liquidity\<close>

lemma active_liquidity_fold:
  "fold (\<lambda>e acc. rbind acc (\<lambda>l. l_checked_add_signed l (net (snd e)))) es (Inl err) = Inl err"
  by (induction es) simp_all

lemma active_liquidity_sum:
  "fold (\<lambda>e acc. rbind acc (\<lambda>l. l_checked_add_signed l (net (snd e)))) es (Inr l0) = Inr l
   \<Longrightarrow> uint (l_units l) = uint (l_units l0) + (\<Sum>e\<leftarrow>es. sint (l_delta (net (snd e))))"
proof (induction es arbitrary: l0)
  case (Cons e es)
  then obtain l1 where l1: "l_checked_add_signed l0 (net (snd e)) = Inr l1"
    by (cases "l_checked_add_signed l0 (net (snd e))") (auto simp: active_liquidity_fold)
  then have "uint (l_units l1) = uint (l_units l0) + sint (l_delta (net (snd e)))"
    by (simp add: l_checked_add_signed_Inr)
  then show ?case using Cons.IH[of l1] Cons.prems l1 by simp
qed simp

lemma net_upto_filter: "net_upto ticks t = (\<Sum>e\<leftarrow>filter (\<lambda>e. fst e \<le> t) ticks. sint (l_delta (net (snd e))))"
  unfolding net_upto_def by (induction ticks) simp_all

lemma active_liquidity_Inr:
  "active_liquidity ticks t = Inr l \<Longrightarrow> uint (l_units l) = net_upto ticks t"
  using active_liquidity_sum[of "filter (\<lambda>e. fst e \<le> t) ticks" "LUnits 0"]
  by (simp add: active_liquidity_def net_upto_filter)

text \<open>An entry as integers; an absent one is the default the code inserts.\<close>

definition gross_at :: "(i32, tick_liquidity) omap \<Rightarrow> i32 \<Rightarrow> int" where
  "gross_at ticks k = (case map_of ticks k of None \<Rightarrow> 0 | Some e \<Rightarrow> uint (l_units (gross e)))"

definition net_at :: "(i32, tick_liquidity) omap \<Rightarrow> i32 \<Rightarrow> int" where
  "net_at ticks k = (case map_of ticks k of None \<Rightarrow> 0 | Some e \<Rightarrow> sint (l_delta (net e)))"

lemma entry_at:
  "om_ok m \<Longrightarrow> gross_at (om_put t e m) k = (if k = t then uint (l_units (gross e)) else gross_at m k)"
  "om_ok m \<Longrightarrow> net_at (om_put t e m) k = (if k = t then sint (l_delta (net e)) else net_at m k)"
  "gross_at (om_del t m) k = (if k = t then 0 else gross_at m k)"
  "net_at (om_del t m) k = (if k = t then 0 else net_at m k)"
  by (simp_all add: gross_at_def net_at_def map_of_om_put map_of_om_del)

text \<open>A map a pool can hold: no empty entry, and each net change within its gross.\<close>

definition ticks_ok :: "(i32, tick_liquidity) omap \<Rightarrow> bool" where
  "ticks_ok ticks \<longleftrightarrow> om_ok ticks \<and> (\<forall>(k, e) \<in> set ticks. l_units (gross e) \<noteq> 0
     \<and> \<bar>sint (l_delta (net e))\<bar> \<le> uint (l_units (gross e)))"

lemma net_upto_put:
  "om_ok m \<Longrightarrow> net_upto (om_put k v m) t
     = net_upto m t + (if k \<le> t then sint (l_delta (net v)) - net_at m k else 0)"
proof (induction k v m rule: om_put.induct)
  case (2 k v k' v' m)
  have sub: "om_ok m" and above: "\<forall>j \<in> fst ` set m. k' < j" using 2(2) by (auto simp: om_ok_def)
  show ?case
  proof (cases "k < k'")
    case True
    then have "map_of m k = None" using above by (force simp: map_of_eq_None_iff)
    then show ?thesis using True by (simp add: net_upto_def net_at_def)
  next
    case False
    then show ?thesis using 2(1)[OF _ _ sub] by (cases "k = k'") (auto simp: net_upto_def net_at_def)
  qed
qed (simp add: net_upto_def net_at_def)

lemma net_upto_del:
  "om_ok m \<Longrightarrow> net_upto (om_del k m) t = net_upto m t - (if k \<le> t then net_at m k else 0)"
proof (induction m)
  case (Cons e m)
  have sub: "om_ok m" and "\<forall>j \<in> fst ` set m. fst e < j" using Cons(2) by (auto simp: om_ok_def)
  then have "map_of m (fst e) = None" by (force simp: map_of_eq_None_iff)
  then show ?case using Cons(1)[OF sub] by (cases e) (auto simp: net_upto_def net_at_def om_del_def)
qed (simp add: net_upto_def net_at_def om_del_def)

lemma apply_tick_delta_Inr:
  "apply_tick_delta ticks t nd gd = Inr ticks' \<longleftrightarrow>
     (\<exists>n g. sint (l_delta n) = net_at ticks t + sint (l_delta nd)
       \<and> uint (l_units g) = gross_at ticks t + sint (l_delta gd)
       \<and> ticks' = (if l_units g = 0 then om_del t ticks else om_put t \<lparr>gross = g, net = n\<rparr> ticks))"
  by (cases "map_of ticks t")
     (simp_all add: apply_tick_delta_def Let_def rbind_eq_Inr l_delta_checked_add_Inr l_checked_add_signed_Inr
        net_at_def gross_at_def eq_commute[of _ ticks'])

lemma ticks_ok_at:
  assumes "ticks_ok ticks"
  shows "\<bar>net_at ticks k\<bar> \<le> gross_at ticks k" "gross_at ticks k = 0 \<Longrightarrow> map_of ticks k = None"
  using assms by (auto simp: ticks_ok_def net_at_def gross_at_def uint_zero_iff
      dest!: map_of_SomeD split: option.splits)

lemma ticks_okI:
  assumes "om_ok ticks" "\<And>k e. map_of ticks k = Some e \<Longrightarrow> l_units (gross e) \<noteq> 0 \<and> \<bar>sint (l_delta (net e))\<bar> \<le> uint (l_units (gross e))"
  shows "ticks_ok ticks"
  using assms om.entries_get[OF assms(1)] by (auto simp: ticks_ok_def)

text \<open>A change that leaves the net within the gross keeps the map well formed, and moves every running sum above the tick.\<close>

lemma apply_tick_delta_within:
  assumes ok: "ticks_ok ticks" and run: "apply_tick_delta ticks t nd gd = Inr ticks'"
    and within: "\<bar>net_at ticks t + sint (l_delta nd)\<bar> \<le> gross_at ticks t + sint (l_delta gd)"
  shows "ticks_ok ticks'" "net_upto ticks' u = net_upto ticks u + (if t \<le> u then sint (l_delta nd) else 0)"
    "gross_at ticks' k = gross_at ticks k + (if k = t then sint (l_delta gd) else 0)"
    "net_at ticks' k = net_at ticks k + (if k = t then sint (l_delta nd) else 0)"
proof -
  have om: "om_ok ticks" using ok by (simp add: ticks_ok_def)
  obtain n g where n: "sint (l_delta n) = net_at ticks t + sint (l_delta nd)"
    and g: "uint (l_units g) = gross_at ticks t + sint (l_delta gd)"
    and t': "ticks' = (if l_units g = 0 then om_del t ticks else om_put t \<lparr>gross = g, net = n\<rparr> ticks)"
    using run unfolding apply_tick_delta_Inr by blast
  have b: "\<bar>sint (l_delta n)\<bar> \<le> uint (l_units g)" using n g within by simp
  have zero: "l_units g = 0 \<longleftrightarrow> uint (l_units g) = 0" by (simp add: uint_zero_iff)
  have gone: "net_at ticks t = - sint (l_delta nd)" "gross_at ticks t = - sint (l_delta gd)" if "l_units g = 0"
    using that b n g zero by auto
  show "ticks_ok ticks'"
    using om ok b t' by (intro ticks_okI)
      (auto simp: om.ok_put om.ok_del map_of_om_put map_of_om_del ticks_ok_def dest: map_of_SomeD split: if_splits)
  show "net_upto ticks' u = net_upto ticks u + (if t \<le> u then sint (l_delta nd) else 0)"
    using om t' n gone by (auto simp: net_upto_put net_upto_del)
  show "gross_at ticks' k = gross_at ticks k + (if k = t then sint (l_delta gd) else 0)"
    "net_at ticks' k = net_at ticks k + (if k = t then sint (l_delta nd) else 0)"
    using om t' n g gone by (auto simp: entry_at)
qed

text \<open>Adding liquidity does.\<close>

lemma apply_tick_delta_add:
  assumes ok: "ticks_ok ticks" and run: "apply_tick_delta ticks t nd gd = Inr ticks'"
    and add: "\<bar>sint (l_delta nd)\<bar> \<le> sint (l_delta gd)"
  shows "ticks_ok ticks'" "net_upto ticks' u = net_upto ticks u + (if t \<le> u then sint (l_delta nd) else 0)"
    "gross_at ticks' k = gross_at ticks k + (if k = t then sint (l_delta gd) else 0)"
    "net_at ticks' k = net_at ticks k + (if k = t then sint (l_delta nd) else 0)"
proof -
  have within: "\<bar>net_at ticks t + sint (l_delta nd)\<bar> \<le> gross_at ticks t + sint (l_delta gd)"
    using add ticks_ok_at(1)[OF ok, of t] by linarith
  note change = apply_tick_delta_within[OF ok run within]
  show "ticks_ok ticks'" "net_upto ticks' u = net_upto ticks u + (if t \<le> u then sint (l_delta nd) else 0)"
    "gross_at ticks' k = gross_at ticks k + (if k = t then sint (l_delta gd) else 0)"
    "net_at ticks' k = net_at ticks k + (if k = t then sint (l_delta nd) else 0)"
    by (fact change)+
qed

lemma with_liquidity_run:
  assumes "with_liquidity_delta p lo hi d = Inr p'"
  obtains removed ticks1 ticks2 l where "lo < hi" "sint (l_delta removed) = - sint (l_delta d)"
    "apply_tick_delta (ps_ticks p) lo d d = Inr ticks1" "apply_tick_delta ticks1 hi removed d = Inr ticks2"
    "uint (l_units l) = uint (l_units (ps_liquidity p)) + (if lo \<le> ps_tick p \<and> ps_tick p < hi then sint (l_delta d) else 0)"
    "p' = p\<lparr>ps_ticks := ticks2, ps_liquidity := l\<rparr>"
  using assms
  by (auto simp: with_liquidity_delta_def rbind_eq_Inr l_delta_negated_Inr l_checked_add_signed_Inr split: if_splits)

text \<open>A tick's gross and net tell the positions that start there from those that end there: half their sum is the liquidity of
  the first, half their difference that of the second. A change of a range is covered when what it takes out, if anything, was put there:
  positions starting at the lower tick hold it, and positions ending at the upper one do.\<close>

definition covers_change :: "(i32, tick_liquidity) omap \<Rightarrow> i32 \<Rightarrow> i32 \<Rightarrow> l_delta \<Rightarrow> bool" where
  "covers_change ticks lo hi d \<longleftrightarrow> - 2 * sint (l_delta d) \<le> gross_at ticks lo + net_at ticks lo
     \<and> - 2 * sint (l_delta d) \<le> gross_at ticks hi - net_at ticks hi"

lemma covers_add:
  "ticks_ok ticks \<Longrightarrow> 0 \<le> sint (l_delta d) \<Longrightarrow> covers_change ticks lo hi d"
  using ticks_ok_at(1)[of ticks lo] ticks_ok_at(1)[of ticks hi] unfolding covers_change_def by linarith

lemma with_liquidity_change:
  assumes run: "with_liquidity_delta p lo hi d = Inr p'" and ok: "ticks_ok (ps_ticks p)" and d: "covers_change (ps_ticks p) lo hi d"
  obtains removed ticks1 ticks2 l where "p' = p\<lparr>ps_ticks := ticks2, ps_liquidity := l\<rparr>" "sint (l_delta removed) = - sint (l_delta d)" "lo < hi"
    "apply_tick_delta (ps_ticks p) lo d d = Inr ticks1" "apply_tick_delta ticks1 hi removed d = Inr ticks2"
    "\<bar>net_at (ps_ticks p) lo + sint (l_delta d)\<bar> \<le> gross_at (ps_ticks p) lo + sint (l_delta d)"
    "\<bar>net_at ticks1 hi + sint (l_delta removed)\<bar> \<le> gross_at ticks1 hi + sint (l_delta d)"
    "ticks_ok ticks1" "ticks_ok ticks2"
    "\<And>u. net_upto ticks2 u = net_upto (ps_ticks p) u + (if lo \<le> u \<and> u < hi then sint (l_delta d) else 0)"
    "\<And>k. gross_at ticks2 k = gross_at (ps_ticks p) k + (if k = lo \<or> k = hi then sint (l_delta d) else 0)"
    "\<And>k. net_at ticks2 k = net_at (ps_ticks p) k
       + (if k = lo then sint (l_delta d) else if k = hi then - sint (l_delta d) else 0)"
    "pool_ok p \<Longrightarrow> pool_ok p'"
proof -
  obtain removed ticks1 ticks2 l where r: "lo < hi" "sint (l_delta removed) = - sint (l_delta d)"
    and a1: "apply_tick_delta (ps_ticks p) lo d d = Inr ticks1"
    and a2: "apply_tick_delta ticks1 hi removed d = Inr ticks2"
    and l: "uint (l_units l) = uint (l_units (ps_liquidity p)) + (if lo \<le> ps_tick p \<and> ps_tick p < hi then sint (l_delta d) else 0)"
    and p': "p' = p\<lparr>ps_ticks := ticks2, ps_liquidity := l\<rparr>"
    by (rule with_liquidity_run[OF run])
  have w1: "\<bar>net_at (ps_ticks p) lo + sint (l_delta d)\<bar> \<le> gross_at (ps_ticks p) lo + sint (l_delta d)"
    using d ticks_ok_at(1)[OF ok, of lo] unfolding covers_change_def by linarith
  note add1 = apply_tick_delta_within[OF ok a1 w1]
  have hi: "net_at ticks1 hi = net_at (ps_ticks p) hi" "gross_at ticks1 hi = gross_at (ps_ticks p) hi"
    using add1(3,4) r(1) by simp_all
  have w2: "\<bar>net_at ticks1 hi + sint (l_delta removed)\<bar> \<le> gross_at ticks1 hi + sint (l_delta d)"
    using d ticks_ok_at(1)[OF ok, of hi] unfolding covers_change_def hi r(2) by linarith
  note add2 = apply_tick_delta_within[OF add1(1) a2 w2]
  have nu: "net_upto ticks2 u = net_upto (ps_ticks p) u + (if lo \<le> u \<and> u < hi then sint (l_delta d) else 0)" for u
    using add1(2) add2(2) r by auto
  show thesis
  proof (rule that[OF p' r(2,1) a1 a2 w1 w2 add1(1) add2(1) nu])
    show "gross_at ticks2 k = gross_at (ps_ticks p) k + (if k = lo \<or> k = hi then sint (l_delta d) else 0)"
      "net_at ticks2 k = net_at (ps_ticks p) k
       + (if k = lo then sint (l_delta d) else if k = hi then - sint (l_delta d) else 0)" for k
      using add1(3,4) add2(3,4) r by auto
    show "pool_ok p'" if "pool_ok p" using that add2(1) l nu[of "ps_tick p"] p' by (simp add: pool_ok_def ticks_ok_def)
  qed
qed

lemma with_liquidity_add:
  assumes run: "with_liquidity_delta p lo hi d = Inr p'" and ok: "ticks_ok (ps_ticks p)" and d: "0 \<le> sint (l_delta d)"
  shows "ticks_ok (ps_ticks p')"
    "net_upto (ps_ticks p') u = net_upto (ps_ticks p) u + (if lo \<le> u \<and> u < hi then sint (l_delta d) else 0)"
    "pool_ok p \<Longrightarrow> pool_ok p'"
    "gross_at (ps_ticks p') k = gross_at (ps_ticks p) k + (if k = lo \<or> k = hi then sint (l_delta d) else 0)"
    "net_at (ps_ticks p') k = net_at (ps_ticks p) k
       + (if k = lo then sint (l_delta d) else if k = hi then - sint (l_delta d) else 0)"
  by (rule with_liquidity_change[OF run ok covers_add[OF ok d]]; simp)+

text \<open>Two well-formed maps with the same entries, absent ones read as empty, are the same map.\<close>

lemma ticks_eqI:
  assumes "ticks_ok a" "ticks_ok b" "\<And>k. gross_at a k = gross_at b k" "\<And>k. net_at a k = net_at b k"
  shows "a = b"
proof (rule omap_eqI)
  show "om_ok a" "om_ok b" using assms(1,2) by (simp_all add: ticks_ok_def)
  show "map_of a = map_of b"
  proof
    fix k
    show "map_of a k = map_of b k"
    proof (cases "map_of a k")
      case None
      then have "gross_at b k = 0" using assms(3)[of k] by (simp add: gross_at_def)
      then show ?thesis using None ticks_ok_at(2)[OF assms(2)] by simp
    next
      case (Some e)
      then have "gross_at a k \<noteq> 0" using ticks_ok_at(2)[OF assms(1), of k] by auto
      then obtain e' where e': "map_of b k = Some e'" using assms(3)[of k] by (cases "map_of b k") (auto simp: gross_at_def)
      have "l_units (gross e) = l_units (gross e')" "l_delta (net e) = l_delta (net e')"
        using assms(3,4)[of k] Some e' by (simp_all add: gross_at_def net_at_def word_uint_eq_iff)
      then show ?thesis using Some e' by (simp add: l_units.expand l_delta.expand)
    qed
  qed
qed

text \<open>Removing what was added: each end of the range goes back to what it held.\<close>

lemma apply_tick_delta_undo:
  assumes ok: "ticks_ok ticks" and add: "\<bar>sint (l_delta nd)\<bar> \<le> sint (l_delta gd)"
    and run: "apply_tick_delta ticks t nd gd = Inr ticks1" and ok1: "ticks_ok ticks'"
    and same: "gross_at ticks' t = gross_at ticks1 t" "net_at ticks' t = net_at ticks1 t"
    and neg: "sint (l_delta nd') = - sint (l_delta nd)" "sint (l_delta gd') = - sint (l_delta gd)"
  obtains ticks2 where "apply_tick_delta ticks' t nd' gd' = Inr ticks2" "ticks_ok ticks2"
    "\<And>k. gross_at ticks2 k = (if k = t then gross_at ticks t else gross_at ticks' k)"
    "\<And>k. net_at ticks2 k = (if k = t then net_at ticks t else net_at ticks' k)"
proof -
  have om: "om_ok ticks'" using ok1 by (simp add: ticks_ok_def)
  define e where "e = (case map_of ticks t of None \<Rightarrow> \<lparr>gross = LUnits 0, net = LDelta 0\<rparr> | Some e \<Rightarrow> e)"
  have e: "uint (l_units (gross e)) = gross_at ticks t" "sint (l_delta (net e)) = net_at ticks t"
    by (simp_all add: e_def gross_at_def net_at_def split: option.splits)
  define ticks2 where "ticks2 = (if l_units (gross e) = 0 then om_del t ticks' else om_put t \<lparr>gross = gross e, net = net e\<rparr> ticks')"
  note after = apply_tick_delta_add(3,4)[OF ok run add, of t]
  have "apply_tick_delta ticks' t nd' gd' = Inr ticks2" unfolding apply_tick_delta_Inr ticks2_def
    using e after same neg by (intro exI[of _ "net e"] exI[of _ "gross e"]) simp
  moreover have zero: "gross_at ticks t = 0 \<Longrightarrow> net_at ticks t = 0" using ticks_ok_at(1)[OF ok, of t] by simp
  have b: "\<bar>sint (l_delta (net e))\<bar> \<le> uint (l_units (gross e))" using e ticks_ok_at(1)[OF ok, of t] by simp
  have "ticks_ok ticks2" unfolding ticks2_def
    using om ok1 b by (intro ticks_okI)
      (auto simp: om.ok_put om.ok_del map_of_om_put map_of_om_del ticks_ok_def dest: map_of_SomeD split: if_splits)
  moreover have "gross_at ticks2 k = (if k = t then gross_at ticks t else gross_at ticks' k)"
    "net_at ticks2 k = (if k = t then net_at ticks t else net_at ticks' k)" for k
    using om e zero by (auto simp: ticks2_def entry_at)
  ultimately show thesis by (rule that)
qed

lemma with_liquidity_undo:
  assumes run: "with_liquidity_delta p lo hi d = Inr p'" and ok: "ticks_ok (ps_ticks p)"
    and d: "0 \<le> sint (l_delta d)" and neg: "l_delta_negated d = Inr d'"
  shows "with_liquidity_delta p' lo hi d' = Inr p"
proof -
  obtain removed ticks1 ticks2 l where r: "lo < hi" "sint (l_delta removed) = - sint (l_delta d)"
    and a1: "apply_tick_delta (ps_ticks p) lo d d = Inr ticks1"
    and a2: "apply_tick_delta ticks1 hi removed d = Inr ticks2"
    and l: "uint (l_units l) = uint (l_units (ps_liquidity p)) + (if lo \<le> ps_tick p \<and> ps_tick p < hi then sint (l_delta d) else 0)"
    and p': "p' = p\<lparr>ps_ticks := ticks2, ps_liquidity := l\<rparr>"
    by (rule with_liquidity_run[OF run])
  have d': "sint (l_delta d') = - sint (l_delta d)" using neg by (simp add: l_delta_negated_Inr)
  have dd: "\<bar>sint (l_delta d)\<bar> \<le> sint (l_delta d)" "\<bar>sint (l_delta removed)\<bar> \<le> sint (l_delta d)" using d r by simp_all
  note add1 = apply_tick_delta_add[OF ok a1 dd(1)]
  note add2 = apply_tick_delta_add[OF add1(1) a2 dd(2)]
  have same: "gross_at ticks2 lo = gross_at ticks1 lo" "net_at ticks2 lo = net_at ticks1 lo"
    using add2(3,4)[of lo] r by simp_all
  obtain t3 where t3: "apply_tick_delta ticks2 lo d' d' = Inr t3" "ticks_ok t3"
    "\<And>k. gross_at t3 k = (if k = lo then gross_at (ps_ticks p) lo else gross_at ticks2 k)"
    "\<And>k. net_at t3 k = (if k = lo then net_at (ps_ticks p) lo else net_at ticks2 k)"
    using apply_tick_delta_undo[OF ok dd(1) a1 add2(1) same d' d'] by metis
  have same3: "gross_at t3 hi = gross_at ticks2 hi" "net_at t3 hi = net_at ticks2 hi"
    using t3(3,4)[of hi] r by simp_all
  obtain t4 where t4: "apply_tick_delta t3 hi d d' = Inr t4" "ticks_ok t4"
    "\<And>k. gross_at t4 k = (if k = hi then gross_at ticks1 hi else gross_at t3 k)"
    "\<And>k. net_at t4 k = (if k = hi then net_at ticks1 hi else net_at t3 k)"
    using apply_tick_delta_undo[OF add1(1) dd(2) a2 t3(2) same3, of d d'] r d' by auto
  have "t4 = ps_ticks p"
    using t4(2) ok t4(3,4) t3(3,4) add1(3,4) add2(3,4) r
    by (intro ticks_eqI) auto
  moreover have "l_delta_negated d' = Inr d" using d' by (simp add: l_delta_negated_Inr)
  moreover have "(if lo \<le> ps_tick p \<and> ps_tick p < hi then l_checked_add_signed l d' else Inr l) = Inr (ps_liquidity p)"
    using l d' by (cases "ps_liquidity p"; cases l)
      (auto simp: l_checked_add_signed_Inr split: if_splits intro: word_eq_uintI)
  ultimately show ?thesis using t3(1) t4(1) r p'
    by (cases "lo \<le> ps_tick p \<and> ps_tick p < hi") (auto simp: with_liquidity_delta_def)
qed

end
