(* ===== verification/Quotes.thy ===== *)
theory Quotes
  imports Swap
begin

text \<open>
  What a quote promises, over the simulation of \<open>Swap\<close>: \<open>quote_perp\<close> and \<open>quote_to_price\<close> always return, their price
  stays inside the protocol's bounds, the quoted size inside the caller's cap; and what a hypothetical
  liquidity change promises. A snapshot is \<open>quotable\<close> when it belongs to its tick map and its price
  is inside protocol bounds that are strictly inside the tick domain.
\<close>

definition quotable :: "pool_snapshot \<Rightarrow> bool" where
  "quotable p \<longleftrightarrow> pool_ok p
     \<and> limit_ok (sqrt_x96 (protocol_sqrt_min p)) \<and> limit_ok (sqrt_x96 (protocol_sqrt_max p))
     \<and> sqrt_x96 (protocol_sqrt_min p) \<le> sqrt_x96 (ps_sqrt_price p)
     \<and> sqrt_x96 (ps_sqrt_price p) \<le> sqrt_x96 (protocol_sqrt_max p)"

subsection \<open>Quotes return\<close>

lemma current_in_domain:
  assumes "pool_ok p"
  shows "tick_x96 UNISWAP_MIN_TICK \<le> uint (sqrt_x96 (ps_sqrt_price p))"
    and "uint (sqrt_x96 (ps_sqrt_price p)) \<le> tick_x96 UNISWAP_MAX_TICK"
proof -
  have f: "tick_fits (uint (sqrt_x96 (ps_sqrt_price p))) (ps_tick p)" using assms by (simp add: pool_ok_def)
  then have g: "on_grid (ps_tick p)" "on_grid (ps_tick p + 1)" "on_grid UNISWAP_MIN_TICK" "on_grid UNISWAP_MAX_TICK"
    by (auto simp: tick_fits_def on_grid_def UNISWAP_MIN_TICK_def UNISWAP_MAX_TICK_def)
  show "tick_x96 UNISWAP_MIN_TICK \<le> uint (sqrt_x96 (ps_sqrt_price p))"
    using tick_x96_mono[OF g(3,1)] f by (simp add: tick_fits_def)
  show "uint (sqrt_x96 (ps_sqrt_price p)) \<le> tick_x96 UNISWAP_MAX_TICK"
    using tick_x96_mono[OF g(2,4)] f by (simp add: tick_fits_def)
qed

lemma price_limit_bounds:
  assumes "price_limit p target c = (limit, reason)"
  shows "sqrt_x96 (ps_sqrt_price p) < sqrt_x96 target \<Longrightarrow> limit \<le> sqrt_x96 (protocol_sqrt_max p)"
    and "\<not> sqrt_x96 (ps_sqrt_price p) < sqrt_x96 target \<Longrightarrow> sqrt_x96 (protocol_sqrt_min p) \<le> limit"
  using assms by (auto simp: price_limit_def Let_def min_le_iff_disj le_max_iff_disj split: if_splits)

lemma quote_perp_returns:
  assumes "quotable p" shows "quote_perp p d \<noteq> None"
  using assms simulate_returns[of p _ "perp_d d"]
  by (auto simp: quote_perp_def Let_def quotable_def pool_ok_def)

lemma target_limit_ok:
  assumes q: "quotable p" and l: "price_limit p target c = (limit, reason)"
    and ahead: "if sqrt_x96 (ps_sqrt_price p) < sqrt_x96 target then sqrt_x96 (ps_sqrt_price p) < limit
      else limit < sqrt_x96 (ps_sqrt_price p)"
  shows "limit_ok limit"
proof -
  have p: "pool_ok p" using q by (simp add: quotable_def)
  show ?thesis
    using price_limit_bounds[OF l] current_in_domain[OF p] ahead q
    by (auto simp: quotable_def limit_ok_def word_le_def word_less_def split: if_splits)
qed

lemma quote_to_price_returns:
  assumes "quotable p" shows "quote_to_price p target c \<noteq> None"
proof (cases "target = ps_sqrt_price p")
  case True
  then show ?thesis using quote_perp_returns[OF assms] by (simp add: quote_to_price_def)
next
  case False
  have om: "om_ok (ps_ticks p)" using assms by (simp add: quotable_def pool_ok_def)
  obtain limit reason where l: "price_limit p target c = (limit, reason)" by force
  let ?cur = "sqrt_x96 (ps_sqrt_price p)" and ?buy = "sqrt_x96 (ps_sqrt_price p) < sqrt_x96 target"
  show ?thesis
  proof (cases "(?buy \<and> limit \<le> ?cur) \<or> (\<not> ?buy \<and> ?cur \<le> limit)")
    case True
    then show ?thesis using False l quote_perp_returns[OF assms, of 0] by (auto simp: quote_to_price_def Let_def)
  next
    case far: False
    then have "limit_ok limit" using target_limit_ok[OF assms l] by (auto split: if_splits)
    then have s1: "simulate p r limit \<noteq> None" for r using simulate_returns om by blast
    have s2: "simulate p r (sqrt_x96 (protocol_sqrt_max p)) \<noteq> None" "simulate p r (sqrt_x96 (protocol_sqrt_min p)) \<noteq> None" for r
      using simulate_returns[OF om] assms by (simp_all add: quotable_def)
    show ?thesis using False far l s1 s2
      by (auto simp: quote_to_price_def Let_def simp del: not_None_eq split: option.split sum.split)
  qed
qed

subsection \<open>Quotes keep their bounds\<close>

lemma simulate_nothing:
  assumes "simulate p 0 limit = Some (Inr sim)"
  shows "sim_perp_delta sim = 0 \<and> sim_sqrt_after sim = sqrt_x96 (ps_sqrt_price p)"
proof -
  have "sim_loop (sim_fuel p) (ps_ticks p) False limit (sim_start p 0) = Some (Inr (sim_start p 0))"
    by (subst sim_loop.simps) (simp add: sim_start_def)
  then show ?thesis using assms
    by (auto simp: simulate_def Let_def sim_finish_def sim_start_def rbind_eq_Inr u256_to_i128_def unsigned_abs_def split: if_splits)
qed

lemma sint_zero_eq: "sint x = 0 \<longleftrightarrow> x = 0" for x :: i128
  using sint_inject[of x 0] by simp

text \<open>A simulation against the protocol bound of its own side stays between the bounds and fills at most what was asked.\<close>

lemma simulate_in_bounds:
  assumes q: "quotable p" and s: "simulate p r limit = Some (Inr sim)"
    and l: "sint r < 0 \<Longrightarrow> limit = sqrt_x96 (protocol_sqrt_min p)"
      "0 < sint r \<Longrightarrow> limit = sqrt_x96 (protocol_sqrt_max p)"
  shows "sqrt_x96 (protocol_sqrt_min p) \<le> sim_sqrt_after sim \<and> sim_sqrt_after sim \<le> sqrt_x96 (protocol_sqrt_max p)
    \<and> \<bar>sint (sim_perp_delta sim)\<bar> \<le> \<bar>sint r\<bar> \<and> 0 \<le> sint (sim_perp_delta sim) * sint r"
proof (cases "r = 0")
  case True
  then show ?thesis using simulate_nothing s q by (auto simp: quotable_def)
next
  case False
  then have nz: "sint r \<noteq> 0" by (simp add: sint_zero_eq)
  have p: "pool_ok p" and a: "limit_ahead p r limit"
    using q l nz by (auto simp: quotable_def limit_ahead_def not_less order_le_less)
  show ?thesis
    using simulate_price(1)[OF p a s] simulate_fill(1,2)[OF p a s] l nz q
    by (cases "sint r < 0") (auto simp: quotable_def)
qed

lemma cap_perp_bounds:
  assumes "if buy then 0 \<le> sint capacity else sint capacity \<le> 0"
  shows "if buy then 0 \<le> sint (cap_perp buy m capacity) else sint (cap_perp buy m capacity) \<le> 0"
    and "\<bar>sint (cap_perp buy m capacity)\<bar> \<le> \<bar>sint capacity\<bar>"
    and "m = Some k \<Longrightarrow> \<bar>sint (cap_perp buy m capacity)\<bar> \<le> uint (perp k)"
proof -
  define n :: "perp_atoms \<Rightarrow> i128" where "n = (\<lambda>k. min (perp k) (2 ^ 127 - 1))"
  have un: "uint (n k) = min (uint (perp k)) (2 ^ 127 - 1)" for k
    by (simp add: n_def min_def word_le_def)
  then have sn: "sint (n k) = uint (n k)" for k
    by (intro sint_eq_uintI) (simp add: min_def)
  have lo: "0 \<le> sint (n k)" "sint (n k) \<le> 2 ^ 127 - 1" for k by (simp_all add: sn un)
  have neg: "sint (- n k) = - sint (n k)" for k
    using lo[of k] by (intro sint_neg_exact) (simp add: in_signed_def)
  have "(if buy then 0 \<le> sint (cap_perp buy m capacity) else sint (cap_perp buy m capacity) \<le> 0)
    \<and> \<bar>sint (cap_perp buy m capacity)\<bar> \<le> \<bar>sint capacity\<bar>
    \<and> (m = Some k \<longrightarrow> \<bar>sint (cap_perp buy m capacity)\<bar> \<le> uint (perp k))"
  proof (cases m)
    case None
    then show ?thesis using assms by (simp add: cap_perp_def)
  next
    case (Some j)
    have c: "cap_perp buy (Some j) capacity = (if buy then signed_min capacity (n j) else signed_max capacity (- n j))"
      by (simp add: cap_perp_def n_def)
    have "sint (n j) \<le> uint (perp j)" by (simp add: sn un)
    with lo[of j] assms show ?thesis unfolding Some c
      by (cases buy) (auto simp: signed_min_def signed_max_def neg)
  qed
  then show "if buy then 0 \<le> sint (cap_perp buy m capacity) else sint (cap_perp buy m capacity) \<le> 0"
    and "\<bar>sint (cap_perp buy m capacity)\<bar> \<le> \<bar>sint capacity\<bar>"
    and "m = Some k \<Longrightarrow> \<bar>sint (cap_perp buy m capacity)\<bar> \<le> uint (perp k)" by blast+
qed

lemma quote_to_price_bounds:
  assumes q: "quotable p" and r: "quote_to_price p target c = Some (Inr quote)"
  shows "sqrt_x96 (protocol_sqrt_min p) \<le> sqrt_x96 (sqrt_price_after quote)
    \<and> sqrt_x96 (sqrt_price_after quote) \<le> sqrt_x96 (protocol_sqrt_max p)
    \<and> (\<forall>k. max_perp c = Some k \<longrightarrow> \<bar>sint (perp_d (quote_perp_delta quote))\<bar> \<le> uint (perp k))"
proof -
  let ?lo = "sqrt_x96 (protocol_sqrt_min p)" and ?hi = "sqrt_x96 (protocol_sqrt_max p)"
  have none: ?thesis if q0: "quote_perp p 0 = Some (Inr q0)" "sqrt_price_after quote = sqrt_price_after q0"
    "quote_perp_delta quote = quote_perp_delta q0" for q0
  proof -
    have z: "perp_d 0 = 0" by (simp add: zero_perp_delta_def)
    obtain sim where sim: "simulate p 0 ?hi = Some (Inr sim)" "\<exists>rs. q0 = finish_quote p 0 sim rs"
      using q0(1) by (auto simp: quote_perp_def Let_def z result_map_eq_Inr)
    then have "sim_sqrt_after sim = sqrt_x96 (sqrt_price_after q0)"
      "perp_d (quote_perp_delta q0) = sim_perp_delta sim" by (auto simp: finish_quote_def)
    with simulate_nothing[OF sim(1)] q0 q show ?thesis by (auto simp: quotable_def)
  qed
  obtain limit reason where l: "price_limit p target c = (limit, reason)" by force
  let ?cur = "sqrt_x96 (ps_sqrt_price p)" and ?buy = "sqrt_x96 (ps_sqrt_price p) < sqrt_x96 target"
  consider (same) "target = ps_sqrt_price p" | (beyond) "target \<noteq> ps_sqrt_price p" "(?buy \<and> limit \<le> ?cur) \<or> (\<not> ?buy \<and> ?cur \<le> limit)"
    | (far) "target \<noteq> ps_sqrt_price p" "\<not> ((?buy \<and> limit \<le> ?cur) \<or> (\<not> ?buy \<and> ?cur \<le> limit))" by blast
  then show ?thesis
  proof cases
    case same
    then show ?thesis using none[of quote] r by (simp add: quote_to_price_def)
  next
    case beyond
    then obtain q0 where "quote_perp p 0 = Some (Inr q0)"
      "quote = q0\<lparr>requested_perp_delta := 0, quote_limit_hit := PriceImpact\<rparr>"
      using r l by (auto simp: quote_to_price_def Let_def result_simps)
    then show ?thesis using none[of q0] by simp
  next
    case far
    let ?big = "if ?buy then 2 ^ 127 - 1 else - (2 ^ 127 - 1) :: i128"
    obtain probe where probe: "simulate p ?big limit = Some (Inr probe)"
      using r l far by (auto simp: quote_to_price_def Let_def split: option.splits sum.splits)
    let ?cap = "cap_perp ?buy (max_perp c) (sim_perp_delta probe)"
    obtain sim reason' where sim: "simulate p ?cap (if ?buy then ?hi else ?lo) = Some (Inr sim)"
      "quote = finish_quote p ?cap sim reason'"
      using r l far probe by (auto simp: quote_to_price_def Let_def result_simps)
    have big: "sint ?big = (if ?buy then 2 ^ 127 - 1 else - (2 ^ 127 - 1))" by simp
    have p: "pool_ok p" using q by (simp add: quotable_def)
    have "limit_ahead p ?big limit"
      using target_limit_ok[OF q l] far(2) big by (auto simp: limit_ahead_def)
    from simulate_fill(2)[OF p this probe] big
    have sign: "if ?buy then 0 \<le> sint (sim_perp_delta probe) else sint (sim_perp_delta probe) \<le> 0"
      by (simp add: zero_le_mult_iff split: if_splits)
    note cb = cap_perp_bounds[OF sign]
    have "sqrt_x96 (protocol_sqrt_min p) \<le> sim_sqrt_after sim \<and> sim_sqrt_after sim \<le> sqrt_x96 (protocol_sqrt_max p)
      \<and> \<bar>sint (sim_perp_delta sim)\<bar> \<le> \<bar>sint ?cap\<bar> \<and> 0 \<le> sint (sim_perp_delta sim) * sint ?cap"
      by (rule simulate_in_bounds[OF q sim(1)]) (use cb(1)[of "max_perp c"] in \<open>auto split: if_splits\<close>)
    then show ?thesis using sim(2) cb(3)[of "max_perp c"] by (force simp: finish_quote_def)
  qed
qed

subsection \<open>The properties\<close>

text \<open>A pool at tick 0 with one band around the price, and its protocol bounds at half and twice the root price.\<close>

definition sample_snapshot :: pool_snapshot where
  "sample_snapshot = \<lparr>ps_block = \<lparr>block_number = 7, block_hash = 0, block_timestamp = 70\<rparr>, ps_sqrt_price = SqrtPrice (2 ^ 96), ps_tick = 0,
     ps_liquidity = LUnits 1000000,
     ps_ticks = [(- 60, \<lparr>gross = LUnits 1000000, net = LDelta 1000000\<rparr>), (60, \<lparr>gross = LUnits 1000000, net = LDelta (- 1000000)\<rparr>)],
     protocol_sqrt_min = SqrtPrice (2 ^ 95), protocol_sqrt_max = SqrtPrice (2 ^ 97),
     impact_sqrt_min = SqrtPrice (2 ^ 95), impact_sqrt_max = SqrtPrice (2 ^ 97)\<rparr>"

lemma sample_ticks:
  "tick_x96 2 = 79236085330515764027303304732" "tick_x96 3 = 79240047035742135098198828268"
  "tick_x96 60 = 79466191966197645195421774833" "tick_x96 0 = 2 ^ 96" "tick_x96 1 = 79232123823359799118286999568"
  "tick_x96 UNISWAP_MIN_TICK = 4295128739" "tick_x96 UNISWAP_MAX_TICK = 1461446703485210103287273052203988822378723970342"
  by code_simp+

lemma sample_quotable: "quotable sample_snapshot"
proof -
  have "limit_ok (2 ^ 95)" "limit_ok (2 ^ 97)" by (simp_all add: limit_ok_def sample_ticks)
  then show ?thesis
    by (simp add: quotable_def pool_ok_def sample_snapshot_def sample_ticks tick_fits_def net_upto_def om_ok_def
      UNISWAP_MIN_TICK_def UNISWAP_MAX_TICK_def word_le_def)
qed

definition sample_sim :: simulation where
  "sample_sim = \<lparr>sim_perp_delta = 100, sim_usd_delta = - 101, sim_sqrt_after = 79236086122876625256069557292, sim_tick_after = 2,
     sim_liquidity_after = LUnits 1000000, sim_crossed = [], sim_fully_filled = True, sim_hit_limit = False\<rparr>"

text \<open>Buying a hundred atoms from it, and running it to the price that ends on.\<close>

lemma sample_simulated:
  "simulate sample_snapshot 100 (2 ^ 97) = Some (Inr sample_sim)"
  "simulate sample_snapshot (2 ^ 127 - 1) 79236086122876625256069557292
    = Some (Inr (sample_sim\<lparr>sim_fully_filled := False, sim_hit_limit := True\<rparr>))"
proof -
  have s60: "get_sqrt_ratio_at_tick 60 = Inr (SqrtPrice 79466191966197645195421774833)"
    by (simp add: get_sqrt_ratio_at_tick_eq on_grid_def sqrt_at_def sample_ticks UNISWAP_MIN_TICK_def UNISWAP_MAX_TICK_def)
  have t2: "get_tick_at_sqrt_ratio (SqrtPrice 79236086122876625256069557292) = Inr 2"
    by (simp add: get_tick_iff sqrt_at_def sample_ticks UNISWAP_MIN_TICK_def UNISWAP_MAX_TICK_def price_order word_le_def word_less_def)
  have a0: "amount0_delta (2 ^ 96) 79466191966197645195421774833 1000000 TowardZero = Inr 2995"
    and b0: "amount0_delta (2 ^ 96) 79236086122876625256069557292 1000000 TowardZero = Inr 100"
    by (simp_all add: amount0_delta_Inr amount0_def rdiv_def word_le_def)
  have a1: "amount1_delta (2 ^ 96) 79236086122876625256069557292 1000000 Up = Inr 101"
    by (simp add: amount1_delta_Inr amount1_def rdiv_def word_le_def cdiv_def)
  have a2: "next_sqrt_from_amount0 (2 ^ 96) 1000000 100 False = Inr 79236086122876625256069557292"
    by (simp add: next_sqrt_Inr next_sqrt_def cdiv_def)
  note evals = a0[simplified] b0[simplified] a1[simplified] a2[simplified] s60 t2 sim_step_def next_tick_def om_first_above_def
    sample_snapshot_def sim_start_def swap_step_def cross_tick_def min_def word_le_def
  let ?done_st = "\<lambda>st. st\<lparr>remaining := remaining st - 100, calculated := 101, sqrt_now := 79236086122876625256069557292, tick_now := 2\<rparr>"
  let ?st = "sim_start sample_snapshot 100" and ?st' = "sim_start sample_snapshot (2 ^ 127 - 1)"
  have "sim_step (ps_ticks sample_snapshot) False (2 ^ 97) ?st = Inr (?done_st ?st, False)" by (simp add: evals)
  then have l1: "sim_loop (sim_fuel sample_snapshot) (ps_ticks sample_snapshot) False (2 ^ 97) ?st = Some (Inr (?done_st ?st))"
    by (subst sim_loop.simps, subst sim_loop.simps) (simp add: sim_fuel_def sample_snapshot_def sim_start_def)
  have "sim_step (ps_ticks sample_snapshot) False 79236086122876625256069557292 ?st' = Inr (?done_st ?st', False)" by (simp add: evals)
  then have l2: "sim_loop (sim_fuel sample_snapshot) (ps_ticks sample_snapshot) False 79236086122876625256069557292 ?st' = Some (Inr (?done_st ?st'))"
    by (subst sim_loop.simps, subst sim_loop.simps) (simp add: sim_fuel_def sample_snapshot_def sim_start_def)
  note ends = simulate_def Let_def sim_finish_def sim_start_def u256_to_i128_def unsigned_abs_def sample_sim_def
  show "simulate sample_snapshot 100 (2 ^ 97) = Some (Inr sample_sim)"
    using l1 by (simp add: ends sample_snapshot_def)
  show "simulate sample_snapshot (2 ^ 127 - 1) 79236086122876625256069557292
      = Some (Inr (sample_sim\<lparr>sim_fully_filled := False, sim_hit_limit := True\<rparr>))"
    using l2 by (simp add: ends sample_snapshot_def)
qed

definition sample_target :: sqrt_price where
  "sample_target = SqrtPrice 79236086122876625256069557292"

lemma sample_quoted:
  "quote_perp sample_snapshot (PerpDelta 100) = Some (Inr (finish_quote sample_snapshot 100 sample_sim Filled))"
  "quote_to_price sample_snapshot sample_target \<lparr>enforce_price_impact = True, max_perp = None\<rparr>
    = Some (Inr (finish_quote sample_snapshot 100 sample_sim TargetPrice))"
proof -
  show "quote_perp sample_snapshot (PerpDelta 100) = Some (Inr (finish_quote sample_snapshot 100 sample_sim Filled))"
    using sample_simulated(1) by (simp add: quote_perp_def sample_snapshot_def) (simp add: sample_sim_def)
  show "quote_to_price sample_snapshot sample_target \<lparr>enforce_price_impact = True, max_perp = None\<rparr>
      = Some (Inr (finish_quote sample_snapshot 100 sample_sim TargetPrice))"
    using sample_simulated
    by (simp add: quote_to_price_def price_limit_def Let_def sample_target_def sample_snapshot_def word_less_def word_le_def min_def cap_perp_def)
      (simp add: sample_sim_def)
qed

text \<open>C20: A quote always returns. On every snapshot whose protocol bounds are inside the tick domain, \<open>quote_perp\<close>,
  for any signed size, and \<open>quote_to_price\<close>, for any target and any constraints, end with an answer or an error:
  the fuel of the simulation, one step for each initialized tick and one more, is never used up.\<close>

theorem quotes_return:
  assumes "quotable p"
  shows "quote_perp p d \<noteq> None \<and> quote_to_price p target c \<noteq> None"
  using quote_perp_returns[OF assms] quote_to_price_returns[OF assms] by blast

theorem quotes_return_witness: "\<exists>r. quote_to_price sample_snapshot (SqrtPrice 1) \<lparr>enforce_price_impact = False, max_perp = Some (PerpAtoms 5)\<rparr> = Some r"
  using quotes_return[OF sample_quotable] by blast

text \<open>The pool a quote leaves behind.\<close>

definition pool_after :: "pool_snapshot \<Rightarrow> taker_quote \<Rightarrow> pool_snapshot" where
  "pool_after p q = p\<lparr>ps_sqrt_price := sqrt_price_after q, ps_tick := quote_tick_after q, ps_liquidity := quote_liquidity_after q\<rparr>"

lemma quote_perp_sim:
  assumes "quotable p" "quote_perp p d = Some (Inr q)" "sint (perp_d d) \<noteq> 0"
  obtains sim rs limit where "pool_ok p" "limit_ahead p (perp_d d) limit" "simulate p (perp_d d) limit = Some (Inr sim)"
    "q = finish_quote p (perp_d d) sim rs"
    "limit = (if sint (perp_d d) < 0 then sqrt_x96 (protocol_sqrt_min p) else sqrt_x96 (protocol_sqrt_max p))"
  using assms by (auto simp: quote_perp_def Let_def quotable_def limit_ahead_def result_map_eq_Inr not_less split: if_splits)

text \<open>C8: The state a quote ends in is a consistent pool again: its tick is the one its price lies on, its liquidity
  is what the tick map sums to there, and its price is inside the protocol bounds. So a second swap can be quoted from where a
  first one ended. The price has not moved against the trade.\<close>

theorem quote_ends_on_consistent_pool:
  assumes "quotable p" "quote_perp p d = Some (Inr q)" "perp_d d \<noteq> 0"
  shows "quotable (pool_after p q)
    \<and> (if sint (perp_d d) < 0 then sqrt_x96 (sqrt_price_after q) \<le> sqrt_x96 (ps_sqrt_price p)
       else sqrt_x96 (ps_sqrt_price p) \<le> sqrt_x96 (sqrt_price_after q))"
proof -
  have nz: "sint (perp_d d) \<noteq> 0" using assms(3) by (simp add: sint_zero_eq)
  obtain sim rs limit where s: "pool_ok p" "limit_ahead p (perp_d d) limit" "simulate p (perp_d d) limit = Some (Inr sim)"
    and q: "q = finish_quote p (perp_d d) sim rs"
    and l: "limit = (if sint (perp_d d) < 0 then sqrt_x96 (protocol_sqrt_min p) else sqrt_x96 (protocol_sqrt_max p))"
    by (rule quote_perp_sim[OF assms(1,2) nz])
  note sp = simulate_price[OF s]
  show ?thesis
    using sp l assms(1) s(1)
    by (auto simp: quotable_def pool_ok_def pool_after_def q finish_quote_def Let_def split: if_splits)
qed

theorem quote_ends_on_consistent_pool_witness:
  "quotable (pool_after sample_snapshot (finish_quote sample_snapshot 100 sample_sim Filled))"
  using quote_ends_on_consistent_pool[OF sample_quotable sample_quoted(1)] by simp

text \<open>C11: What a quote exchanges: never more than asked and on the asked side, exactly what was asked if and only if it
  says it was filled, and the other leg has the opposite sign: a buyer never receives USD and a seller never pays it.\<close>

theorem quote_legs:
  assumes "quotable p" "quote_perp p d = Some (Inr q)" "perp_d d \<noteq> 0"
  shows "\<bar>sint (perp_d (quote_perp_delta q))\<bar> \<le> \<bar>sint (perp_d d)\<bar>
    \<and> 0 \<le> sint (perp_d (quote_perp_delta q)) * sint (perp_d d)
    \<and> (quote_fully_filled q \<longleftrightarrow> quote_perp_delta q = d)
    \<and> (if sint (perp_d d) < 0 then 0 \<le> sint (usdc_d (quote_usd_delta q)) else sint (usdc_d (quote_usd_delta q)) \<le> 0)"
proof -
  have nz: "sint (perp_d d) \<noteq> 0" using assms(3) by (simp add: sint_zero_eq)
  obtain sim rs limit where s: "pool_ok p" "limit_ahead p (perp_d d) limit" "simulate p (perp_d d) limit = Some (Inr sim)"
    and q: "q = finish_quote p (perp_d d) sim rs"
    by (rule quote_perp_sim[OF assms(1,2) nz])
  show ?thesis using simulate_fill[OF s] by (cases d) (auto simp: q finish_quote_def Let_def)
qed

theorem quote_legs_witness: "sint (usdc_d (quote_usd_delta (finish_quote sample_snapshot 100 sample_sim Filled))) \<le> 0"
  using quote_legs[OF sample_quotable sample_quoted(1)] by simp

text \<open>Whatever the target and the constraints, a quote to a price stays inside the protocol's bounds and fills at most
  the caller's cap.\<close>

theorem quote_to_price_stays_in_bounds:
  assumes "quotable p" "quote_to_price p target c = Some (Inr quote)"
  shows "sqrt_x96 (protocol_sqrt_min p) \<le> sqrt_x96 (sqrt_price_after quote)
    \<and> sqrt_x96 (sqrt_price_after quote) \<le> sqrt_x96 (protocol_sqrt_max p)
    \<and> (\<forall>k. max_perp c = Some k \<longrightarrow> \<bar>sint (perp_d (quote_perp_delta quote))\<bar> \<le> uint (perp k))"
  using assms by (rule quote_to_price_bounds)

theorem quote_to_price_stays_in_bounds_witness:
  "(2 ^ 95 :: u256) \<le> sqrt_x96 (sqrt_price_after (finish_quote sample_snapshot 100 sample_sim TargetPrice))"
  using quote_to_price_stays_in_bounds[OF sample_quotable sample_quoted(2)] by (simp add: sample_snapshot_def)

text \<open>C18: Hypothetical liquidity can be taken back. Adding liquidity to a range and removing it again gives
  the snapshot it started from, the tick map included; in between the pool is consistent, and the liquidity
  active at any tick has grown by the change inside the range and nowhere else.\<close>

theorem liquidity_change_undone:
  assumes "with_liquidity_delta p lo hi d = Inr p'" "ticks_ok (ps_ticks p)" "pool_ok p"
    and "0 \<le> sint (l_delta d)" "l_delta_negated d = Inr d'"
  shows "with_liquidity_delta p' lo hi d' = Inr p \<and> pool_ok p' \<and> ticks_ok (ps_ticks p')
    \<and> net_upto (ps_ticks p') u = net_upto (ps_ticks p) u + (if lo \<le> u \<and> u < hi then sint (l_delta d) else 0)"
  using with_liquidity_undo[OF assms(1,2,4,5)] with_liquidity_add(1,2)[OF assms(1,2,4)] with_liquidity_add(3)[OF assms(1,2,4,3)]
  by blast

theorem liquidity_change_undone_witness:
  "case with_liquidity_delta sample_snapshot (- 30) 60 (LDelta 500) of
     Inr p' \<Rightarrow> with_liquidity_delta p' (- 30) 60 (LDelta (- 500)) = Inr sample_snapshot \<and> length (ps_ticks p') = 3
   | Inl _ \<Rightarrow> False"
proof -
  have n: "l_delta_negated (LDelta 500) = Inr (LDelta (- 500))" by (simp add: l_delta_negated_Inr)
  obtain p' where p': "with_liquidity_delta sample_snapshot (- 30) 60 (LDelta 500) = Inr p'" "length (ps_ticks p') = 3"
    by (simp add: with_liquidity_delta_def n apply_tick_delta_def sample_snapshot_def l_delta_checked_add_def l_checked_add_signed_def
        Let_def checked_add_s_def checked_add_def is_neg_def unsigned_abs_def in_signed_def)
  have "ticks_ok (ps_ticks sample_snapshot)" by (simp add: ticks_ok_def om_ok_def sample_snapshot_def)
  then show ?thesis
    using liquidity_change_undone[OF p'(1) _ _ _ n] sample_quotable p' by (simp add: quotable_def)
qed

text \<open>The two sizings of a range are a Galois connection: the margin \<open>margin_for_liquidity\<close> asks for is the
  least amount for which \<open>estimate_liquidity\<close> answers at least that liquidity.\<close>

theorem margin_buys_liquidity:
  assumes "range_ok r" "estimate_liquidity r u = Inr l'" "margin_for_liquidity r l = Inr m"
  shows "uint (l_units l) \<le> uint (l_units l') \<longleftrightarrow> uint (usdc m) \<le> uint (usdc u)"
  using assms by (rule sizing_galois)

definition sample_range :: tick_range where
  "sample_range = \<lparr>lower = 0, upper = 60\<rparr>"

lemma sample_range_ok: "range_ok sample_range"
  by (simp add: range_ok_def sample_range_def tick_limits)

theorem margin_buys_liquidity_witness:
  "(332850 :: int) \<le> 332850 \<longleftrightarrow> (1000 :: int) \<le> 1000"
  using margin_buys_liquidity[OF sample_range_ok, of "UsdcAtoms 1000" "LUnits 332850" "LUnits 332850" "UsdcAtoms 1000"]
  by (simp add: estimate_liquidity_Inr margin_for_liquidity_Inr sample_range_ok)

text \<open>The liquidity a capacity target asks for is the least that backs it: a band of it opens and backs the target,
  and a band of the same range backs the target exactly when its liquidity is no less.\<close>

theorem capacity_needs_least_liquidity:
  assumes "range_ok r" "liquidity_for_capacity p r s target = Inr l"
  shows "(\<exists>c. band_capacity p \<lparr>band_range = r, band_liquidity = l\<rparr> = Inr c \<and> uint (perp target) \<le> uint (perp (on c s)))
    \<and> (\<forall>l' c. band_capacity p \<lparr>band_range = r, band_liquidity = l'\<rparr> = Inr c \<longrightarrow>
         (uint (perp target) \<le> uint (perp (on c s)) \<longleftrightarrow> uint (l_units l) \<le> uint (l_units l')))"
proof -
  obtain c where c: "band_capacity p \<lparr>band_range = r, band_liquidity = l\<rparr> = Inr c"
    by (rule liquidity_for_capacity_opens[OF assms])
  show ?thesis using c liquidity_for_capacity_least[OF assms] by blast
qed

theorem capacity_needs_least_liquidity_witness:
  "\<exists>c. band_capacity (SqrtPrice (2 ^ 96)) \<lparr>band_range = sample_range, band_liquidity = LUnits 333851\<rparr> = Inr c
    \<and> 1000 \<le> uint (perp (on c Long))"
proof -
  have b: "sqrt_bounds sample_range = Inr (SqrtPrice (2 ^ 96), SqrtPrice 79466191966197645195421774833)"
    using sample_range_ok by (simp add: sqrt_bounds_ok) (simp add: sample_range_def sqrt_at_def sample_ticks)
  have q: "div_ceil (ucast (1000 :: u128) * ucast (79466191966197645195421774833 :: u256) * ucast (2 ^ 96 :: u256) :: u512)
      (ucast Q96 * ucast (79466191966197645195421774833 - 2 ^ 96 :: u256)) = 333851"
    by (rule word_eq_uintI, subst least_liquidity_word) (simp_all add: word_less_def cdiv_def)
  have m: "uint (ucast (- 1 :: u128) :: u512) = 2 ^ 128 - 1"
    by (subst uint_ucast_up) (simp_all add: unsigned_minus_1_eq_mask mask_eq_exp_minus_1)
  have "priced_capacity \<lparr>pr_lower = 2 ^ 96, pr_upper = 79466191966197645195421774833, pr_clamped = 2 ^ 96\<rparr> (LUnits 333851)
      = Inr (PerSide (PerpAtoms 1000) (PerpAtoms 0))"
    by (simp add: priced_capacity_def priced_perp_Inr side_span.simps result_simps amount0_def rdiv_def word_le_def)
  then have "liquidity_for_capacity (SqrtPrice (2 ^ 96)) sample_range Long (PerpAtoms 1000) = Inr (LUnits 333851)"
    using q m by (simp add: liquidity_for_capacity_def priced_range_new_def b side_span.simps clamp_def word_less_def)
  from capacity_needs_least_liquidity[OF sample_range_ok this] show ?thesis by auto
qed

end
