(* ===== verification/Pricing.thy ===== *)
theory Pricing
  imports Capacity
begin

text \<open>
  \<open>src/src/math/pricing.rs\<close>: the EMAs of the pool price and the index, and the fair price the
  contract marks at. The overflow-free average is proved to be the exact one, and an advanced EMA
  to lie between what was stored and the spot.
\<close>

subsection \<open>The code\<close>

record price_pair =
  pair_amm :: u128
  pair_index :: u128

definition pair_try_from_x96 :: "u256 \<Rightarrow> u256 \<Rightarrow> price_pair result" where
  "pair_try_from_x96 amm index =
     rbind (ok_or Overflow (narrow amm)) (\<lambda>a.
     rbind (ok_or Overflow (narrow index)) (\<lambda>i.
     Inr \<lparr>pair_amm = a, pair_index = i\<rparr>))"

text \<open>One leg of an EMA step; \<open>to::<u128>()\<close> panics where the value does not fit.\<close>

definition ema_leg :: "u128 \<Rightarrow> u128 \<Rightarrow> u256 \<Rightarrow> u128 result" where
  "ema_leg stored spot alpha =
     (let one_minus = WAD - alpha
      in ok_or Panic (narrow ((ucast stored * alpha + ucast spot * one_minus) div WAD)))"

definition calculate_emas :: "price_pair \<Rightarrow> price_pair \<Rightarrow> u64 \<Rightarrow> u64 \<Rightarrow> u64 \<Rightarrow> price_pair result" where
  "calculate_emas stored spot last_touch timestamp ema_window =
     (if timestamp \<le> last_touch then Inr stored
      else if ema_window = 0 then Inl InvalidConfig
      else
        let dt = timestamp - last_touch in
        rbind (ok_or Overflow (checked_mul (ucast dt) WAD)) (\<lambda>scaled.
        let ratio_wad = scaled div ucast ema_window in
        rbind (to_i256 ratio_wad) (\<lambda>r.
        rbind (exp_wad (- r)) (\<lambda>alpha.
        rbind (ema_leg (pair_amm stored) (pair_amm spot) alpha) (\<lambda>a.
        rbind (ema_leg (pair_index stored) (pair_index spot) alpha) (\<lambda>i.
        Inr \<lparr>pair_amm = a, pair_index = i\<rparr>))))))"

definition avg :: "u256 \<Rightarrow> u256 \<Rightarrow> u256" where
  "avg a b = (a AND b) + drop_bit 1 (a XOR b)"

definition fair_price :: "price \<Rightarrow> price \<Rightarrow> price \<Rightarrow> price \<Rightarrow> price" where
  "fair_price pool_price index ema_pool_price ema_index =
     (let adjusted_index = saturating_add (price_x96 index) (price_x96 ema_pool_price);
          delta = saturating_sub adjusted_index (price_x96 ema_index)
      in Price (avg (price_x96 pool_price) delta))"

record mark =
  mark_block :: block_context
  mark_pool_price :: price
  mark_index :: price
  mark_emas :: price_pair

definition mark_advanced :: "block_context \<Rightarrow> price \<Rightarrow> price \<Rightarrow> price_pair \<Rightarrow> u64 \<Rightarrow> u64 \<Rightarrow> mark result" where
  "mark_advanced block pool_price index stored_emas last_touch ema_window =
     rbind (pair_try_from_x96 (price_x96 pool_price) (price_x96 index)) (\<lambda>spot.
     rbind (calculate_emas stored_emas spot last_touch (block_timestamp block) ema_window) (\<lambda>emas.
     Inr \<lparr>mark_block = block, mark_pool_price = pool_price, mark_index = index, mark_emas = emas\<rparr>))"

definition mark_fair_price :: "mark \<Rightarrow> price" where
  "mark_fair_price m =
     fair_price (mark_pool_price m) (mark_index m)
       (Price (ucast (pair_amm (mark_emas m)))) (Price (ucast (pair_index (mark_emas m))))"

record emas =
  emas_amm_price :: price
  emas_index :: price
  emas_last_touch :: u64

definition emas_stored :: "price_pair \<Rightarrow> u64 \<Rightarrow> emas" where
  "emas_stored pair last_touch =
     \<lparr>emas_amm_price = Price (ucast (pair_amm pair)), emas_index = Price (ucast (pair_index pair)),
       emas_last_touch = last_touch\<rparr>"

definition emas_pair :: "emas \<Rightarrow> price_pair result" where
  "emas_pair e = pair_try_from_x96 (price_x96 (emas_amm_price e)) (price_x96 (emas_index e))"

definition emas_advanced :: "emas \<Rightarrow> price \<Rightarrow> price \<Rightarrow> u64 \<Rightarrow> u64 \<Rightarrow> emas result" where
  "emas_advanced e pool_price index timestamp ema_window =
     rbind (pair_try_from_x96 (price_x96 pool_price) (price_x96 index)) (\<lambda>spot.
     rbind (emas_pair e) (\<lambda>pair.
     rbind (calculate_emas pair spot (emas_last_touch e) timestamp ema_window) (\<lambda>adv.
     Inr (emas_stored adv (max timestamp (emas_last_touch e))))))"

definition emas_mark :: "emas \<Rightarrow> price \<Rightarrow> price \<Rightarrow> u64 \<Rightarrow> u64 \<Rightarrow> price result" where
  "emas_mark e pool_price index timestamp ema_window =
     rbind (emas_advanced e pool_price index timestamp ema_window) (\<lambda>adv.
     Inr (fair_price pool_price index (emas_amm_price adv) (emas_index adv)))"

subsection \<open>The average\<close>

lemma and_xor_arith:
  fixes A B c d p q :: int
  assumes "2 * A + B = p + q" "X = c + 2 * A" "Z = d + 2 * B" "x = 2 * p + i" "y = 2 * q + j" "2 * c + d = i + j"
  shows "2 * X + Z = x + y"
  using assms by linarith

lemma int_and_xor_sum: "0 \<le> x \<Longrightarrow> 0 \<le> y \<Longrightarrow> 2 * (x AND y) + (x XOR y) = x + (y :: int)"
proof (induction "nat x" arbitrary: x y rule: less_induct)
  case less
  show ?case
  proof (cases "x = 0")
    case False
    then have x: "0 < x" using less.prems by simp
    have ih: "2 * (x div 2 AND y div 2) + (x div 2 XOR y div 2) = x div 2 + y div 2"
      using x less.prems by (intro less.hyps) (simp_all add: nat_less_iff pos_imp_zdiv_nonneg_iff)
    have a: "x AND y = of_bool (odd x \<and> odd y) + 2 * (x div 2 AND y div 2)" by (rule and_rec)
    have o: "x XOR y = of_bool (odd x \<noteq> odd y) + 2 * (x div 2 XOR y div 2)" by (rule xor_rec)
    have bits: "k = 2 * (k div 2) + of_bool (odd k)" for k :: int
      using mult_div_mod_eq[of 2 k] by (simp add: mod_2_eq_odd)
    have low: "2 * of_bool (odd x \<and> odd y) + of_bool (odd x \<noteq> odd y) = (of_bool (odd x) + of_bool (odd y) :: int)"
      by (cases "odd x"; cases "odd y") simp_all
    show ?thesis by (rule and_xor_arith[OF ih a o bits bits low])
  qed simp
qed

lemma uint_avg: "uint (avg a b) = (uint a + uint b) div 2"
proof -
  let ?i = "uint a AND uint b" and ?x = "uint a XOR uint b"
  have s: "2 * ?i + ?x = uint a + uint b" by (rule int_and_xor_sum) simp_all
  have d: "?i + ?x div 2 = (uint a + uint b) div 2" unfolding s[symmetric] by simp
  have v: "uint (a AND b) = ?i" "uint (drop_bit 1 (a XOR b)) = ?x div 2"
    by (simp_all only: uint_and uint_drop_bit uint_xor power_one_right)
  have "(uint a + uint b) div 2 < 2 ^ 256" using uint_below[of a] uint_below[of b] by simp
  then have "uint (a AND b) + uint (drop_bit 1 (a XOR b)) < 2 ^ LENGTH(256)" unfolding v d by simp
  from uint_add_exact[OF this] show ?thesis unfolding avg_def v d .
qed

subsection \<open>The EMA step\<close>

text \<open>A weighted mean of two integers, floored, lies between them.\<close>

lemma weighted_mean_between:
  fixes a b :: int
  assumes "0 \<le> w" "w \<le> n" "0 < n"
  shows "min a b \<le> (a * w + b * (n - w)) div n" "(a * w + b * (n - w)) div n \<le> max a b"
proof -
  have "min a b * w + min a b * (n - w) \<le> a * w + b * (n - w)"
    using assms by (intro add_mono mult_right_mono) simp_all
  then have "min a b * n \<le> a * w + b * (n - w)" by (simp add: algebra_simps)
  then show "min a b \<le> (a * w + b * (n - w)) div n" using fdiv_ge_iff[OF assms(3)] by blast
  have "a * w + b * (n - w) \<le> max a b * w + max a b * (n - w)"
    using assms by (intro add_mono mult_right_mono) simp_all
  then have "a * w + b * (n - w) \<le> max a b * n" by (simp add: algebra_simps)
  then show "(a * w + b * (n - w)) div n \<le> max a b"
    using zdiv_mono1[of _ "max a b * n" n] assms(3) by fastforce
qed

lemma ema_leg_Inr:
  assumes "alpha \<le> WAD"
  shows "ema_leg stored spot alpha = Inr (word_of_int ((uint stored * uint alpha
    + uint spot * (1000000000000000000 - uint alpha)) div 1000000000000000000))"
    and "min (uint stored) (uint spot) \<le> (uint stored * uint alpha
      + uint spot * (1000000000000000000 - uint alpha)) div 1000000000000000000"
    and "(uint stored * uint alpha + uint spot * (1000000000000000000 - uint alpha))
      div 1000000000000000000 \<le> max (uint stored) (uint spot)"
proof -
  let ?n = "1000000000000000000 :: int"
  let ?v = "uint stored * uint alpha + uint spot * (?n - uint alpha)"
  have al: "uint alpha \<le> ?n" using assms by (simp add: word_le_def)
  show b: "min (uint stored) (uint spot) \<le> ?v div ?n" "?v div ?n \<le> max (uint stored) (uint spot)"
    using weighted_mean_between[of "uint alpha" ?n "uint stored" "uint spot"] al by simp_all
  have om: "uint (WAD - alpha) = ?n - uint alpha" using al by (subst uint_sub_exact) simp_all
  have "uint stored * uint alpha \<le> 2 ^ 128 * ?n" "uint spot * (?n - uint alpha) \<le> 2 ^ 128 * ?n"
    using al uint_below[of stored] uint_below[of spot] by (intro mult_mono; simp)+
  then have l: "uint (ucast stored * alpha :: u256) = uint stored * uint alpha"
    "uint (ucast spot * (WAD - alpha) :: u256) = uint spot * (?n - uint alpha)"
    "uint stored * uint alpha + uint spot * (?n - uint alpha) < 2 ^ 256"
    by (simp_all add: uint_mult_exact om)
  have "uint (ucast stored * alpha + ucast spot * (WAD - alpha)) = ?v"
    using uint_add_exact[of "ucast stored * alpha :: u256" "ucast spot * (WAD - alpha)", unfolded l(1,2)] l(3)
    by (simp only: len_of_numeral_defs) simp
  then have "uint ((ucast stored * alpha + ucast spot * (WAD - alpha)) div WAD) = ?v div ?n"
    by (simp add: uint_div_distrib)
  moreover have "?v div ?n < 2 ^ 128" using b(2) uint_below[of stored] uint_below[of spot] by (simp add: max_def split: if_splits)
  moreover have "0 \<le> ?v div ?n" by (rule order_trans[OF _ b(1)]) simp
  ultimately show "ema_leg stored spot alpha = Inr (word_of_int (?v div ?n))"
    by (simp add: ema_leg_def ok_or_eq_Inr narrow_Some uint_word_of_int)
qed

lemma pair_try_from_x96_Inr [result_simps]:
  "pair_try_from_x96 a i = Inr p \<longleftrightarrow> uint a = uint (pair_amm p) \<and> uint i = uint (pair_index p)"
  by (cases p) (auto simp: pair_try_from_x96_def result_simps narrow_Some)

text \<open>The exponent of a step: elapsed time over the window, in WAD.\<close>

definition ema_exponent :: "u64 \<Rightarrow> u64 \<Rightarrow> u64 \<Rightarrow> u256" where
  "ema_exponent last_touch timestamp ema_window = - (ucast (timestamp - last_touch) * WAD div ucast ema_window)"

lemma calculate_emas_unfold:
  assumes "last_touch < timestamp" "ema_window \<noteq> 0"
  shows "calculate_emas stored spot last_touch timestamp ema_window =
    rbind (exp_wad (ema_exponent last_touch timestamp ema_window)) (\<lambda>alpha.
    rbind (ema_leg (pair_amm stored) (pair_amm spot) alpha) (\<lambda>a.
    rbind (ema_leg (pair_index stored) (pair_index spot) alpha) (\<lambda>i.
    Inr \<lparr>pair_amm = a, pair_index = i\<rparr>)))"
proof -
  let ?dt = "ucast (timestamp - last_touch) :: u256"
  have u: "uint (ucast (x :: u64) :: u256) = uint x" for x by (rule uint_ucast_up) simp
  have m: "uint ?dt * uint WAD \<le> 2 ^ 64 * 2 ^ 60" using uint_below[of "timestamp - last_touch"]
    by (intro mult_mono) (simp_all add: u)
  then have mul: "checked_mul ?dt WAD = Some (?dt * WAD)" "uint (?dt * WAD) = uint ?dt * uint WAD"
    by (simp_all add: checked_mul_def uint_mult_exact)
  have "uint (?dt * WAD div ucast ema_window) \<le> uint (?dt * WAD)"
    using assms(2) zdiv_mono2[of "uint (?dt * WAD)" 1 "uint ema_window"] uint_pos_iff[of ema_window]
    by (simp add: uint_div_distrib u)
  then have "uint (?dt * WAD div ucast ema_window) < 2 ^ 255" using m mul(2) by simp
  then have "to_i256 (?dt * WAD div ucast ema_window) = Inr (?dt * WAD div ucast ema_window)"
    by (simp add: to_i256_Inr)
  then show ?thesis using assms mul(1)
    by (simp add: calculate_emas_def Let_def ema_exponent_def not_le[THEN iffD2, OF assms(1)])
qed

subsection \<open>Properties\<close>

text \<open>The bitwise average of \<open>avg\<close> is the exact floor of the mean, for every pair of 256-bit words:
  it cannot overflow.\<close>

theorem avg_exact: "uint (avg a b) = (uint a + uint b) div 2"
  by (rule uint_avg)

text \<open>The fair price is the deployed formula over the integers whenever the index plus the EMA of the
  pool price fits a word, which it does for the contract's 128-bit prices.\<close>

theorem fair_price_exact:
  assumes "uint (price_x96 index) + uint (price_x96 ema_pool) < 2 ^ 256"
  shows "uint (price_x96 (fair_price pool index ema_pool ema_index)) =
    (uint (price_x96 pool)
      + max 0 (uint (price_x96 index) + uint (price_x96 ema_pool) - uint (price_x96 ema_index))) div 2"
proof -
  have "uint (saturating_add (price_x96 index) (price_x96 ema_pool)) = uint (price_x96 index) + uint (price_x96 ema_pool)"
    using assms by (simp add: saturating_add_def uint_add_exact)
  then have "uint (saturating_sub (saturating_add (price_x96 index) (price_x96 ema_pool)) (price_x96 ema_index))
      = max 0 (uint (price_x96 index) + uint (price_x96 ema_pool) - uint (price_x96 ema_index))"
    by (auto simp: saturating_sub_def word_le_def uint_sub_exact)
  then show ?thesis by (simp add: fair_price_def Let_def uint_avg)
qed

theorem fair_price_exact_witness:
  "uint (price_x96 (fair_price (Price 100) (Price 90) (Price 30) (Price 21))) = 99"
  using fair_price_exact[of "Price 90" "Price 30" "Price 100" "Price 21"] by simp

text \<open>An EMA advanced by \<open>calculate_emas\<close> never leaves the interval between the stored value and the
  spot, on both legs, and the narrowing after it never panics, whenever the decay factor
  the exponential returns is at most one.\<close>

theorem ema_stays_between:
  assumes "last_touch < timestamp" "ema_window \<noteq> 0"
    and "exp_wad (ema_exponent last_touch timestamp ema_window) = Inr alpha" "alpha \<le> WAD"
  shows "\<exists>r. calculate_emas stored spot last_touch timestamp ema_window = Inr r
    \<and> min (uint (pair_amm stored)) (uint (pair_amm spot)) \<le> uint (pair_amm r)
    \<and> uint (pair_amm r) \<le> max (uint (pair_amm stored)) (uint (pair_amm spot))
    \<and> min (uint (pair_index stored)) (uint (pair_index spot)) \<le> uint (pair_index r)
    \<and> uint (pair_index r) \<le> max (uint (pair_index stored)) (uint (pair_index spot))"
proof -
  have leg: "\<exists>v. ema_leg s t alpha = Inr v \<and> min (uint s) (uint t) \<le> uint v \<and> uint v \<le> max (uint s) (uint t)"
    for s t
  proof -
    let ?v = "(uint s * uint alpha + uint t * (1000000000000000000 - uint alpha)) div 1000000000000000000"
    note l = ema_leg_Inr[OF assms(4), of s t]
    have "0 \<le> ?v" by (rule order_trans[OF _ l(2)]) simp
    moreover have "?v < 2 ^ 128" using l(3) uint_below[of s] uint_below[of t] by (simp add: max_def split: if_splits)
    ultimately have "uint (word_of_int ?v :: u128) = ?v" by (simp add: uint_word_of_int)
    then show ?thesis using l by (intro exI[of _ "word_of_int ?v"]) simp
  qed
  obtain a i where "ema_leg (pair_amm stored) (pair_amm spot) alpha = Inr a"
    "min (uint (pair_amm stored)) (uint (pair_amm spot)) \<le> uint a \<and> uint a \<le> max (uint (pair_amm stored)) (uint (pair_amm spot))"
    "ema_leg (pair_index stored) (pair_index spot) alpha = Inr i"
    "min (uint (pair_index stored)) (uint (pair_index spot)) \<le> uint i \<and> uint i \<le> max (uint (pair_index stored)) (uint (pair_index spot))"
    using leg[of "pair_amm stored" "pair_amm spot"] leg[of "pair_index stored" "pair_index spot"] by blast
  then show ?thesis using calculate_emas_unfold[OF assms(1,2), of stored spot] assms(3) by simp
qed

theorem ema_stays_between_witness:
  "\<exists>r. calculate_emas \<lparr>pair_amm = 100, pair_index = 7\<rparr> \<lparr>pair_amm = 200, pair_index = 3\<rparr> 0 3600 3600 = Inr r
    \<and> 100 \<le> uint (pair_amm r) \<and> uint (pair_amm r) \<le> 200"
proof -
  have e: "exp_wad (ema_exponent 0 3600 3600) = Inr 367879441171442321" by code_simp
  have "(0 :: u64) < 3600" "(3600 :: u64) \<noteq> 0" "(367879441171442321 :: u256) \<le> WAD" by (simp_all add: WAD_def)
  from ema_stays_between[OF this(1,2) e this(3), of "\<lparr>pair_amm = 100, pair_index = 7\<rparr>" "\<lparr>pair_amm = 200, pair_index = 3\<rparr>"]
  show ?thesis by auto
qed

end
