(* ===== verification/Taker_Health.thy ===== *)
theory Taker_Health
  imports Scaling
begin

text \<open>
  \<open>src/src/math/taker.rs\<close>: the deployed eligibility test for liquidating a taker, in exact
  integers, and the search for the mark it turns at. The search (a gallop from the closed form, then
  a bisection) is proved against its contract in the locale \<open>turn_search\<close>, over any
  three-valued test; the position's own test is its interpretation.

  \<open>liquidation_prices\<close> carries fuel for the two gallops; the result is \<open>None\<close> only when it
  runs out, which \<open>gallop_fuel\<close> is proved to prevent.
\<close>

subsection \<open>The code: a position's health\<close>

record taker_market_snapshot =
  tms_block :: block_context
  tms_funding :: funding
  tms_util_payments :: "earnings per_side"
  tms_mark :: price

record taker_state =
  ts_delta_perp :: perp_delta
  ts_delta_usd :: usdc_delta
  ts_margin :: usdc_atoms
  ts_liquidation_margin_ratio :: ratio
  ts_last_cuml_funding :: funding
  ts_last_util_payments :: "earnings per_side"

record taker_health =
  th_block :: block_context
  th_mark :: price
  th_delta_perp :: perp_delta
  th_delta_usd :: usdc_delta
  th_margin :: usdc_atoms
  th_funding_owed :: usdc_delta
  th_util_owed :: usdc_atoms
  th_position_value :: usdc_atoms
  th_unrealized_pnl :: usdc_delta
  th_liquidation_margin_ratio :: ratio

definition to_usdc_atoms :: "u256 \<Rightarrow> usdc_atoms result" where
  "to_usdc_atoms v = ok_or Overflow (map_option UsdcAtoms (narrow v))"

definition to_usdc_delta :: "i256 \<Rightarrow> usdc_delta result" where
  "to_usdc_delta v = ok_or Overflow (map_option UsdcDelta (narrow_s v))"

definition util_owed_of :: "taker_market_snapshot \<Rightarrow> taker_state \<Rightarrow> usdc_atoms result" where
  "util_owed_of m t =
     (if perp_d (ts_delta_perp t) = 0 then Inr 0
      else let s = (if 0 < sint (perp_d (ts_delta_perp t)) then Long else Short) in
        rbind (earnings_since (on (tms_util_payments m) s) (on (ts_last_util_payments t) s)) (\<lambda>growth.
        rbind (mul_div (ucast (unsigned_abs (perp_d (ts_delta_perp t)))) (earnings_x96 growth) Q96 Up) (\<lambda>owed.
        to_usdc_atoms owed)))"

definition taker_health_at :: "taker_market_snapshot \<Rightarrow> taker_state \<Rightarrow> taker_health result" where
  "taker_health_at m t =
     (let perp = scast (perp_d (ts_delta_perp t)) :: i256 in
      rbind (to_i256 (price_x96 (tms_mark m))) (\<lambda>mark.
      rbind (s_full_mul_div perp mark Q96 TowardZero) (\<lambda>perp_val.
      rbind (to_usdc_atoms (unsigned_abs perp_val)) (\<lambda>position_value.
      rbind (add_i perp_val (scast (usdc_d (ts_delta_usd t)))) (\<lambda>pnl.
      rbind (to_usdc_delta pnl) (\<lambda>unrealized_pnl.
      rbind (funding_since (tms_funding m) (ts_last_cuml_funding t)) (\<lambda>since.
      rbind (s_full_mul_div perp (funding_x96 since) Q96 Up) (\<lambda>funding.
      rbind (to_usdc_delta funding) (\<lambda>funding_owed.
      rbind (util_owed_of m t) (\<lambda>util_owed.
      Inr \<lparr>th_block = tms_block m, th_mark = tms_mark m, th_delta_perp = ts_delta_perp t,
           th_delta_usd = ts_delta_usd t, th_margin = ts_margin t, th_funding_owed = funding_owed,
           th_util_owed = util_owed, th_position_value = position_value,
           th_unrealized_pnl = unrealized_pnl,
           th_liquidation_margin_ratio = ts_liquidation_margin_ratio t\<rparr>))))))))))"

definition settled_margin :: "taker_health \<Rightarrow> usdc_delta" where
  "settled_margin h = usdc_delta_from (th_margin h) - th_funding_owed h - usdc_delta_from (th_util_owed h)"

definition equity :: "taker_health \<Rightarrow> usdc_delta" where
  "equity h = settled_margin h + th_unrealized_pnl h"

definition is_liquidatable :: "taker_health \<Rightarrow> bool result" where
  "is_liquidatable h =
     result_map Not (is_healthy (equity h) (th_position_value h) (th_liquidation_margin_ratio h))"

subsection \<open>The code: the mark the test turns at\<close>

text \<open>The part of equity that does not move with the mark.\<close>

definition fixed_part :: "taker_health \<Rightarrow> i128" where
  "fixed_part h = usdc_d (settled_margin h) + usdc_d (th_delta_usd h)"

definition liquidation_mark :: "taker_health \<Rightarrow> price option" where
  "liquidation_mark h =
     (let perp = perp_d (th_delta_perp h); fixed = fixed_part h;
          ratio = ucast (ratio_e6 (th_liquidation_margin_ratio h)) :: u256;
          size = ucast (unsigned_abs perp) :: u256;
          numerator = ucast (unsigned_abs fixed) :: u256;
          finish = (\<lambda>scale. map_option Price
            (result_ok (mul_div (numerator * BIGINT_1E6) Q96 (size * scale) TowardZero)))
      in if perp = 0 then None
         else if 0 < sint perp then
           (if 0 \<le> sint fixed then None
            else case checked_sub BIGINT_1E6 ratio of None \<Rightarrow> None | Some scale \<Rightarrow> finish scale)
         else if sint fixed \<le> 0 then Some (Price 0)
         else finish (BIGINT_1E6 + ratio))"

text \<open>
  The health test never fails (\<open>is_healthy_eq\<close>), so turning its result into an option
  loses nothing.
\<close>

definition is_liquidatable_at :: "taker_health \<Rightarrow> u256 \<Rightarrow> bool option" where
  "is_liquidatable_at h mark = result_ok (
     rbind (to_i256 mark) (\<lambda>m.
     rbind (s_full_mul_div (scast (perp_d (th_delta_perp h))) m Q96 TowardZero) (\<lambda>perp_val.
     rbind (add_i (scast (fixed_part h)) perp_val) (\<lambda>e.
     rbind (to_usdc_delta e) (\<lambda>e.
     rbind (to_usdc_atoms (unsigned_abs perp_val)) (\<lambda>v.
     result_map Not (is_healthy e v (th_liquidation_margin_ratio h))))))))"

definition away :: "bool \<Rightarrow> u256 \<Rightarrow> u256 \<Rightarrow> u256" where
  "away up x w = (if up then saturating_add x w else saturating_sub x w)"

definition toward :: "bool \<Rightarrow> u256 \<Rightarrow> u256 \<Rightarrow> u256 \<Rightarrow> u256" where
  "toward up mark x w = (if up then max (saturating_sub x w) mark else min (saturating_add x w) mark)"

definition search_start :: "bool \<Rightarrow> u256 \<Rightarrow> u256 \<Rightarrow> u256" where
  "search_start up mark turn =
     (if up then max turn (saturating_add mark 1) else min turn (saturating_sub mark 1))"

text \<open>
  The gallops return the bracket \<open>(healthy, failing)\<close>; the inner option is the early return, the
  outer one the fuel.
\<close>

fun gallop_toward ::
    "nat \<Rightarrow> (u256 \<Rightarrow> bool option) \<Rightarrow> bool \<Rightarrow> u256 \<Rightarrow> u256 \<Rightarrow> u256 \<Rightarrow> u256 \<Rightarrow> (u256 \<times> u256) option option" where
  "gallop_toward 0 fails up mark start width failing = None"
| "gallop_toward (Suc n) fails up mark start width failing =
     (let nxt = toward up mark start width in
      case fails nxt of
        None \<Rightarrow> Some None
      | Some False \<Rightarrow> Some (Some (nxt, failing))
      | Some True \<Rightarrow> gallop_toward n fails up mark start (push_bit 1 width) nxt)"

fun gallop_away ::
    "nat \<Rightarrow> (u256 \<Rightarrow> bool option) \<Rightarrow> bool \<Rightarrow> u256 \<Rightarrow> u256 \<Rightarrow> u256 \<Rightarrow> (u256 \<times> u256) option option" where
  "gallop_away 0 fails up start width healthy = None"
| "gallop_away (Suc n) fails up start width healthy =
     (let nxt = away up start width in
      if nxt = healthy then Some None
      else case fails nxt of
        None \<Rightarrow> Some None
      | Some True \<Rightarrow> Some (Some (healthy, nxt))
      | Some False \<Rightarrow> gallop_away n fails up start (push_bit 1 width) nxt)"

function bisect :: "(u256 \<Rightarrow> bool option) \<Rightarrow> u256 \<Rightarrow> u256 \<Rightarrow> u256 option" where
  "bisect fails healthy failing =
     (if 1 < abs_diff healthy failing then
        let mid = min healthy failing + abs_diff healthy failing div 2 in
        case fails mid of
          None \<Rightarrow> None
        | Some True \<Rightarrow> bisect fails healthy mid
        | Some False \<Rightarrow> bisect fails mid failing
      else Some failing)"
  by pat_completeness auto

lemma uint_abs_diff: "uint (abs_diff a b) = \<bar>uint a - uint b\<bar>"
  by (auto simp: abs_diff_def word_less_def uint_sub_exact)

text \<open>The midpoint lies between the two ends.\<close>

lemma uint_mid:
  fixes h f :: u256
  shows "uint (min h f + abs_diff h f div 2) = min (uint h) (uint f) + \<bar>uint h - uint f\<bar> div 2"
proof -
  have m: "uint (min h f) = min (uint h) (uint f)" by (auto simp: min_def word_le_def)
  have d: "uint (abs_diff h f div 2) = \<bar>uint h - uint f\<bar> div 2" by (simp add: uint_div_distrib uint_abs_diff)
  have "min (uint h) (uint f) + \<bar>uint h - uint f\<bar> div 2 \<le> max (uint h) (uint f)" by (auto simp: min_def max_def)
  also have "max (uint h) (uint f) < 2 ^ 256" using uint_below[of h] uint_below[of f] by simp
  finally show ?thesis by (subst uint_add_exact) (simp_all add: m d)
qed

lemma mid_between:
  fixes h f :: u256
  assumes "1 < abs_diff h f"
  defines "mid \<equiv> min h f + abs_diff h f div 2"
  shows "min (uint h) (uint f) < uint mid" "uint mid < max (uint h) (uint f)"
proof -
  have far: "1 < \<bar>uint h - uint f\<bar>" using assms(1) by (simp add: word_less_def uint_abs_diff)
  have "uint mid = min (uint h) (uint f) + \<bar>uint h - uint f\<bar> div 2" unfolding mid_def by (rule uint_mid)
  moreover have "0 < k div 2" "k div 2 < k" if "1 < k" for k :: int using that by auto
  note this[OF far]
  moreover have "max (uint h) (uint f) = min (uint h) (uint f) + \<bar>uint h - uint f\<bar>" by (simp add: min_def max_def)
  ultimately show "min (uint h) (uint f) < uint mid" "uint mid < max (uint h) (uint f)" by linarith+
qed

termination bisect
proof (relation "measure (\<lambda>(_, h, f). nat \<bar>uint h - uint f\<bar>)", goal_cases)
  case (2 fails h f)
  then show ?case using mid_between[of h f] by (auto simp: nat_less_iff)
next
  case (3 fails h f)
  then show ?case using mid_between[of h f] by (auto simp: nat_less_iff)
qed simp

declare bisect.simps [simp del]

definition gallop_fuel :: nat where "gallop_fuel = 258"

definition first_failing :: "taker_health \<Rightarrow> price \<Rightarrow> bool \<Rightarrow> price option option" where
  "first_failing h turn up =
     (let mark = price_x96 (th_mark h); fails = is_liquidatable_at h;
          start = search_start up mark (price_x96 turn) in
      case fails start of
        None \<Rightarrow> Some None
      | Some f \<Rightarrow>
          map_option (\<lambda>bracket. case bracket of
              None \<Rightarrow> None
            | Some (healthy, failing) \<Rightarrow> map_option Price (bisect fails healthy failing))
            (if f then gallop_toward gallop_fuel fails up mark start 1 start
             else gallop_away gallop_fuel fails up start 1 start))"

definition find_liquidation_prices :: "taker_health \<Rightarrow> liquidation_prices result option" where
  "find_liquidation_prices h =
     (case is_liquidatable h of
        Inl e \<Rightarrow> Some (Inl e)
      | Inr True \<Rightarrow> Some (Inr \<lparr>lp_mark = th_mark h, lp_below = Some (th_mark h), lp_above = Some (th_mark h)\<rparr>)
      | Inr False \<Rightarrow>
          let up = sint (perp_d (th_delta_perp h)) < 0 in
          map_option (\<lambda>turn. Inr \<lparr>lp_mark = th_mark h, lp_below = (if up then None else turn),
              lp_above = (if up then turn else None)\<rparr>)
            (case liquidation_mark h of None \<Rightarrow> Some None | Some turn \<Rightarrow> first_failing h turn up))"


text \<open>What evaluates the arithmetic on concrete inputs.\<close>

lemmas evaluation = to_i256_def narrow_us_def s_full_mul_div_def mul_div_exact is_neg_def unsigned_abs_def Let_def
  cdiv_def to_usdc_atoms_def narrow_def add_i_def checked_add_s_def in_signed_def to_usdc_delta_def narrow_s_def
  funding_since_def sub_i_def checked_sub_s_def earnings_since_def sub_u_def checked_sub_def add_u_def checked_add_def
  funding_advanced_by_def fps_advanced_by_def earnings_advanced_by_def per_sqrt_price_def fps_since_def

subsection \<open>The search against its contract\<close>

text \<open>How far a mark lies from the position's, in the direction of the search.\<close>

definition dist :: "bool \<Rightarrow> u256 \<Rightarrow> u256 \<Rightarrow> int" where
  "dist up mark x = (if up then uint x - uint mark else uint mark - uint x)"

lemma uint_saturating_add: "uint (saturating_add a b :: 'a::len word) = min (uint a + uint b) (2 ^ LENGTH('a) - 1)"
  by (auto simp: saturating_add_def uint_add_exact unsigned_minus_1_eq_mask mask_eq_exp_minus_1 min_def)

lemma uint_saturating_sub: "uint (saturating_sub a b) = max 0 (uint a - uint b)"
  by (auto simp: saturating_sub_def word_le_def uint_sub_exact max_def)

lemma uint_min_max_word:
  "uint (min a b) = min (uint a) (uint b)" "uint (max a b) = max (uint a) (uint b)"
  by (auto simp: min_def max_def word_le_def)

lemma clamped_down: "0 \<le> m \<Longrightarrow> m \<le> x \<Longrightarrow> max (max 0 (x - w)) m - m = max 0 (x - m - w :: int)"
  by (auto simp: max_def)

lemma clamped_up: "x \<le> m \<Longrightarrow> m < k \<Longrightarrow> m - min (min (x + w) k) m = max 0 (m - x - w :: int)"
  by (auto simp: min_def max_def)

lemma dist_toward:
  assumes "uint mark < 2 ^ 255" "0 \<le> dist up mark x"
  shows "dist up mark (toward up mark x w) = max 0 (dist up mark x - uint w)"
proof (cases up)
  case True
  then show ?thesis using assms(2) clamped_down[of "uint mark" "uint x" "uint w"]
    by (simp add: dist_def toward_def uint_min_max_word uint_saturating_sub)
next
  case False
  then show ?thesis using assms clamped_up[of "uint x" "uint mark" "2 ^ 256 - 1" "uint w"]
    by (simp add: dist_def toward_def uint_min_max_word uint_saturating_add)
qed

lemma dist_away_mono: "uint v \<le> uint w \<Longrightarrow> dist up mark (away up x v) \<le> dist up mark (away up x w)"
  by (auto simp: dist_def away_def uint_saturating_add uint_saturating_sub)

lemma uint_doubled:
  assumes "uint w = 2 ^ i" "Suc i < 256"
  shows "uint (push_bit 1 w :: u256) = 2 ^ Suc i"
proof -
  have "(2 :: int) ^ Suc i < 2 ^ 256" using assms(2) by (intro power_strict_increasing) simp_all
  then show ?thesis using assms(1) by (simp add: push_bit_eq_mult uint_mult_exact mult.commute)
qed

lemma doubled_top:
  assumes "uint w = 2 ^ 255" shows "push_bit 1 w = (0 :: u256)"
  using assms by (intro word_eq_uintI) (simp add: push_bit_eq_mult uint_word_ariths)

lemma dist_inj: "dist up mark x = dist up mark y \<longleftrightarrow> x = y"
  by (auto simp: dist_def split: if_splits intro: word_eq_uintI)

text \<open>The two ends of a bracket: the near one healthy, the far one failing.\<close>

definition bracketed :: "(u256 \<Rightarrow> bool option) \<Rightarrow> bool \<Rightarrow> u256 \<Rightarrow> u256 \<Rightarrow> u256 \<Rightarrow> bool" where
  "bracketed fails up mark h f \<longleftrightarrow>
     fails h = Some False \<and> fails f = Some True \<and> 0 \<le> dist up mark h \<and> dist up mark h < dist up mark f"

text \<open>
  A test the search is run on: it answers within 255 bits only, and once \<open>armed\<close> it stays
  failing as the mark moves on.
\<close>

locale turn_search =
  fixes fails :: "u256 \<Rightarrow> bool option" and mark :: u256 and up armed :: bool
  assumes bounded: "fails x = Some b \<Longrightarrow> uint x < 2 ^ 255"
    and stays_failing: "armed \<Longrightarrow> fails x = Some True \<Longrightarrow> 0 \<le> dist up mark x \<Longrightarrow> dist up mark x \<le> dist up mark y
      \<Longrightarrow> fails y \<noteq> Some False"
begin

lemma gallop_toward_brackets:
  assumes "fails mark = Some False" "uint start < 2 ^ 255" "0 \<le> dist up mark start"
    and "fails failing = Some True" "uint width = 2 ^ i" "i < 256" "256 - i \<le> n"
    and "max 0 (dist up mark start - 2 ^ i) \<le> dist up mark failing"
  shows "gallop_toward n fails up mark start width failing = Some None
    \<or> (\<exists>h f. gallop_toward n fails up mark start width failing = Some (Some (h, f)) \<and> bracketed fails up mark h f)"
  using assms(4-8)
proof (induction n arbitrary: width failing i)
  case (Suc n)
  let ?nxt = "toward up mark start width"
  have m: "uint mark < 2 ^ 255" by (rule bounded[OF assms(1)])
  have d: "dist up mark ?nxt = max 0 (dist up mark start - 2 ^ i)"
    using dist_toward[OF m assms(3), of width] Suc.prems(2) by simp
  show ?case
  proof (cases "fails ?nxt")
    case (Some b)
    show ?thesis
    proof (cases b)
      case True
      have far: "dist up mark start < 2 ^ 255" using assms(2) m by (auto simp: dist_def) (smt (verit) uint_ge_0)+
      have "i \<noteq> 255"
      proof
        assume "i = 255"
        then have "dist up mark ?nxt = dist up mark mark" using d far by (simp add: dist_def)
        then have "?nxt = mark" by (simp only: dist_inj)
        then show False using Some True assms(1) by simp
      qed
      then have i: "Suc i < 256" using Suc.prems(3) by simp
      have w: "uint (push_bit 1 width) = 2 ^ Suc i" by (rule uint_doubled[OF Suc.prems(2) i])
      have "max 0 (dist up mark start - 2 ^ Suc i) \<le> dist up mark ?nxt"
        unfolding d by (intro max.mono) (simp_all add: power_Suc)
      then show ?thesis using Suc.IH[of ?nxt "push_bit 1 width" "Suc i"] Some True w i Suc.prems(4)
        by (simp add: Let_def)
    next
      case False
      then have "?nxt \<noteq> failing" using Some Suc.prems(1) by auto
      then have "dist up mark ?nxt \<noteq> dist up mark failing" by (simp add: dist_inj)
      then have "dist up mark ?nxt < dist up mark failing" "0 \<le> dist up mark ?nxt" using Suc.prems(5) d by linarith+
      then show ?thesis using Some False Suc.prems(1) by (simp add: Let_def bracketed_def)
    qed
  qed (simp add: Let_def)
qed simp

text \<open>A width that has left the word is zero: the gallop comes back to its start and gives up.\<close>

lemma gallop_away_exhausted:
  assumes "fails start = Some False" "2 \<le> n"
  shows "gallop_away n fails up start 0 healthy = Some None"
proof -
  have z: "away up start 0 = start" by (rule word_eq_uintI)
    (use uint_below[of start] in \<open>auto simp: away_def uint_saturating_add uint_saturating_sub\<close>)
  obtain m where "n = Suc (Suc m)" using assms(2) by (metis numeral_2_eq_2 Suc_le_D Suc_le_mono)
  then show ?thesis using assms(1) z by (simp add: Let_def)
qed

lemma gallop_away_brackets:
  assumes "fails start = Some False"
    and "fails healthy = Some False" "uint width = 2 ^ i" "i < 256" "258 - i \<le> n"
    and "0 \<le> dist up mark healthy" "dist up mark healthy \<le> dist up mark (away up start width)"
  shows "gallop_away n fails up start width healthy = Some None
    \<or> (\<exists>h f. gallop_away n fails up start width healthy = Some (Some (h, f)) \<and> bracketed fails up mark h f)"
  using assms(2-7)
proof (induction n arbitrary: width healthy i)
  case (Suc n)
  let ?nxt = "away up start width"
  show ?case
  proof (cases "?nxt = healthy \<or> fails ?nxt = None")
    case False
    then obtain b where b: "fails ?nxt = Some b" "?nxt \<noteq> healthy" by blast
    have d: "dist up mark healthy < dist up mark ?nxt"
      using Suc.prems(6) b(2) dist_inj[of up mark healthy ?nxt] by (auto simp: order_le_less)
    show ?thesis
    proof (cases b)
      case True
      then show ?thesis using b d Suc.prems(1,5) by (simp add: Let_def bracketed_def)
    next
      case F: False
      show ?thesis
      proof (cases "i = 255")
        case True
        have "push_bit 1 width = 0" by (rule doubled_top) (use Suc.prems(2) True in simp)
        then show ?thesis using b F gallop_away_exhausted[OF assms(1), of n ?nxt] Suc.prems(4) True by (simp add: Let_def)
      next
        case False
        then have i: "Suc i < 256" using Suc.prems(3) by simp
        have w: "uint (push_bit 1 width) = 2 ^ Suc i" by (rule uint_doubled[OF Suc.prems(2) i])
        have "dist up mark ?nxt \<le> dist up mark (away up start (push_bit 1 width))"
          by (rule dist_away_mono, unfold w Suc.prems(2)) simp
        then show ?thesis using Suc.IH[of ?nxt "push_bit 1 width" "Suc i"] b F w i Suc.prems(4,5) d
          by (simp add: Let_def)
      qed
    qed
  qed (auto simp: Let_def)
qed simp

lemma bisect_threshold:
  assumes "bracketed fails up mark h f" "bisect fails h f = Some p"
  shows "fails p = Some True \<and> (\<exists>q. fails q = Some False \<and> 0 \<le> dist up mark q \<and> dist up mark p = dist up mark q + 1)"
  using assms
proof (induction fails h f rule: bisect.induct)
  case (1 fails h f)
  let ?mid = "min h f + abs_diff h f div 2"
  show ?case
  proof (cases "1 < abs_diff h f")
    case True
    have btw: "dist up mark h < dist up mark ?mid" "dist up mark ?mid < dist up mark f"
      using mid_between[OF True] "1.prems"(1) by (auto simp: bracketed_def dist_def split: if_splits)
    show ?thesis
    proof (cases "fails ?mid")
      case None
      then show ?thesis using True "1.prems"(2) by (subst (asm) bisect.simps) (simp add: Let_def)
    next
      case (Some b)
      show ?thesis
      proof (cases b)
        case True
        have "bracketed fails up mark h ?mid" using "1.prems"(1) Some True btw by (simp add: bracketed_def)
        moreover have "bisect fails h ?mid = Some p" using "1.prems"(2) Some True \<open>1 < abs_diff h f\<close>
          by (subst (asm) bisect.simps) (simp add: Let_def)
        ultimately show ?thesis using "1.IH"(1)[OF \<open>1 < abs_diff h f\<close> refl, of True] Some True by simp
      next
        case False
        have "bracketed fails up mark ?mid f" using "1.prems"(1) Some False btw by (simp add: bracketed_def)
        moreover have "bisect fails ?mid f = Some p" using "1.prems"(2) Some False \<open>1 < abs_diff h f\<close>
          by (subst (asm) bisect.simps) (simp add: Let_def)
        ultimately show ?thesis using "1.IH"(2)[OF \<open>1 < abs_diff h f\<close> refl, of False] Some False by simp
      qed
    qed
  next
    case False
    then have p: "p = f" using "1.prems"(2) by (subst (asm) bisect.simps) simp
    have "\<bar>uint h - uint f\<bar> \<le> 1" using False by (simp add: word_less_def uint_abs_diff)
    then have "dist up mark f = dist up mark h + 1" using "1.prems"(1) by (auto simp: bracketed_def dist_def split: if_splits)
    then show ?thesis using "1.prems"(1) p by (auto simp: bracketed_def)
  qed
qed

text \<open>Once armed, the end of the bracket is the exact threshold.\<close>

lemma threshold_exact:
  assumes armed "fails p = Some True" "fails q = Some False" "0 \<le> dist up mark q" "dist up mark p = dist up mark q + 1"
    and "0 \<le> dist up mark x" "fails x = Some b"
  shows "b \<longleftrightarrow> dist up mark p \<le> dist up mark x"
proof
  assume b
  show "dist up mark p \<le> dist up mark x"
  proof (rule ccontr)
    assume "\<not> ?thesis"
    then have "dist up mark x \<le> dist up mark q" using assms(5) by simp
    from stays_failing[OF assms(1) _ assms(6) this] show False using assms(3,7) \<open>b\<close> by simp
  qed
next
  assume "dist up mark p \<le> dist up mark x"
  from stays_failing[OF assms(1,2) _ this] show b using assms(4,5,7) by auto
qed

lemma gallop_toward_answers:
  assumes "\<And>w. fails (toward up mark start w) \<noteq> None"
  shows "gallop_toward n fails up mark start width failing \<noteq> Some None"
proof (induction n arbitrary: width failing)
  case (Suc n)
  obtain b where "fails (toward up mark start width) = Some b" using assms by blast
  then show ?case using Suc by (cases b) (simp_all add: Let_def)
qed simp

text \<open>Downwards, where every mark answers and the lowest fails, the search always finds a turn.\<close>

lemma gallop_away_finds:
  assumes "\<not> up" "uint start < 2 ^ 255" "fails 0 = Some True" "\<And>x. x \<le> start \<Longrightarrow> fails x \<noteq> None"
    and "fails healthy = Some False" "uint width = 2 ^ i" "i < 256" "256 - i \<le> n"
    and "uint (away up start width) < uint healthy"
  shows "gallop_away n fails up start width healthy \<noteq> Some None"
  using assms(5-9)
proof (induction n arbitrary: width healthy i)
  case (Suc n)
  let ?nxt = "away up start width"
  have v: "uint ?nxt = max 0 (uint start - 2 ^ i)" using assms(1) Suc.prems(2)
    by (simp add: away_def uint_saturating_sub)
  then have "?nxt \<le> start" by (simp add: word_le_def)
  then obtain b where b: "fails ?nxt = Some b" using assms(4) by blast
  have ne: "?nxt \<noteq> healthy" using Suc.prems(5) by auto
  show ?case
  proof (cases b)
    case False
    then have "?nxt \<noteq> 0" using assms(3) b by auto
    then have pos: "0 < uint start - 2 ^ i" using v uint_pos_iff[of ?nxt] by (simp add: max_def split: if_splits)
    then have "i \<noteq> 255" using assms(2) by auto
    then have i: "Suc i < 256" using Suc.prems(3) by simp
    have w: "uint (push_bit 1 width) = 2 ^ Suc i" by (rule uint_doubled[OF Suc.prems(2) i])
    have "uint (away up start (push_bit 1 width)) < uint ?nxt"
      using pos v assms(1) w by (simp add: away_def uint_saturating_sub)
    then show ?thesis using Suc.IH[of ?nxt "push_bit 1 width" "Suc i"] b False w i Suc.prems(4) ne by (simp add: Let_def)
  qed (use b ne in \<open>simp add: Let_def\<close>)
qed simp

lemma bisect_answers:
  assumes "\<And>x. min h f \<le> x \<Longrightarrow> x \<le> max h f \<Longrightarrow> fails x \<noteq> None"
  shows "bisect fails h f \<noteq> None"
  using assms
proof (induction fails h f rule: bisect.induct)
  case (1 fails h f)
  let ?mid = "min h f + abs_diff h f div 2"
  show ?case
  proof (cases "1 < abs_diff h f")
    case True
    have btw: "min h f \<le> ?mid" "?mid \<le> max h f" using mid_between[OF True]
      by (simp_all add: word_le_def uint_min_max_word)
    then obtain b where b: "fails ?mid = Some b" using "1.prems" by blast
    have lo: "min h f \<le> x \<and> x \<le> max h f" if "min h ?mid \<le> x" "x \<le> max h ?mid" for x
      using that btw by (auto simp: min_def max_def split: if_splits)
    have hi: "min h f \<le> x \<and> x \<le> max h f" if "min ?mid f \<le> x" "x \<le> max ?mid f" for x
      using that btw by (auto simp: min_def max_def split: if_splits)
    show ?thesis
    proof (cases b)
      case True
      with "1.IH"(1)[OF \<open>1 < abs_diff h f\<close> refl b] lo "1.prems" show ?thesis
        using b \<open>1 < abs_diff h f\<close> by (subst bisect.simps) (simp add: Let_def)
    next
      case False
      with "1.IH"(2)[OF \<open>1 < abs_diff h f\<close> refl b] hi "1.prems" show ?thesis
        using b \<open>1 < abs_diff h f\<close> by (subst bisect.simps) (simp add: Let_def)
    qed
  qed (subst bisect.simps, simp)
qed

end

subsection \<open>The position's test\<close>

text \<open>The exposure at a mark, as the contract rounds it.\<close>

definition value_at_mark :: "taker_health \<Rightarrow> u256 \<Rightarrow> int" where
  "value_at_mark h x = srdiv TowardZero (sint (perp_d (th_delta_perp h)) * uint x) (2 ^ 96)"

definition fails_test :: "taker_health \<Rightarrow> u256 \<Rightarrow> bool" where
  "fails_test h x =
     (let r = uint (ratio_e6 (th_liquidation_margin_ratio h)); v = value_at_mark h x;
          e = sint (fixed_part h) + v
      in \<not> (r = 0 \<or> 0 < e \<and> r * (\<bar>v\<bar> + 1) \<le> e * 1000000))"

definition answers :: "taker_health \<Rightarrow> u256 \<Rightarrow> bool" where
  "answers h x \<longleftrightarrow> uint x < 2 ^ 255 \<and> in_signed 128 (sint (fixed_part h) + value_at_mark h x)
     \<and> \<bar>value_at_mark h x\<bar> < 2 ^ 128"

lemma to_usdc_atoms_Inr [result_simps]: "to_usdc_atoms v = Inr a \<longleftrightarrow> uint (usdc a) = uint v"
  by (cases a) (auto simp: to_usdc_atoms_def result_simps narrow_Some)

lemma to_usdc_delta_Inr [result_simps]: "to_usdc_delta v = Inr a \<longleftrightarrow> sint (usdc_d a) = sint v"
  by (cases a) (auto simp: to_usdc_delta_def result_simps narrow_s_Some)

lemma in_signed_word: "in_signed LENGTH('a) x \<longleftrightarrow> (\<exists>w :: 'a::len word. sint w = x)"
proof
  assume "in_signed LENGTH('a) x"
  then have "sint (word_of_int x :: 'a word) = x" by (intro sint_exactI) (simp_all add: uint_word_of_int)
  then show "\<exists>w :: 'a word. sint w = x" by blast
qed auto

lemma is_liquidatable_at_answers:
  assumes "answers h x"
  shows "is_liquidatable_at h x = Some (fails_test h x)"
proof -
  let ?v = "value_at_mark h x" and ?e = "sint (fixed_part h) + value_at_mark h x"
  have x: "uint x < 2 ^ 255" and v: "\<bar>?v\<bar> < 2 ^ 128" and e: "in_signed 128 ?e"
    using assms by (simp_all add: answers_def)
  have mark: "sint x = uint x" using x by (simp add: sint_cases)
  have "in_signed LENGTH(256) ?v" using v by (auto simp: in_signed_def)
  then obtain pv :: i256 where pv: "sint pv = ?v" unfolding in_signed_word by blast
  have "in_signed LENGTH(256) ?e" using e by (auto simp: in_signed_def)
  then obtain ew :: i256 where ew: "sint ew = ?e" unfolding in_signed_word by blast
  have "in_signed LENGTH(128) ?e" using e by simp
  then obtain e' :: i128 where e': "sint e' = ?e" unfolding in_signed_word by blast
  obtain v' :: u128 where v': "uint v' = \<bar>?v\<bar>" using word_with_value[of "\<bar>?v\<bar>", where 'a = 128] v by auto
  have "to_i256 x = Inr x" using x by (simp add: to_i256_Inr)
  moreover have "s_full_mul_div (scast (perp_d (th_delta_perp h))) x Q96 TowardZero = Inr pv"
    using v pv mark by (simp add: s_full_mul_div_Inr value_at_mark_def)
  moreover have "add_i (scast (fixed_part h)) pv = Inr ew" using pv ew by (simp add: add_i_Inr)
  moreover have "to_usdc_delta ew = Inr (UsdcDelta e')" using e' ew by (simp add: to_usdc_delta_Inr)
  moreover have "to_usdc_atoms (unsigned_abs pv) = Inr (UsdcAtoms v')" using v' pv
    by (simp add: to_usdc_atoms_Inr uint_unsigned_abs)
  ultimately show ?thesis using e' v'
    by (simp add: is_liquidatable_at_def is_healthy_eq fails_test_def Let_def)
qed

lemma is_liquidatable_at_Some_answers:
  assumes "is_liquidatable_at h x = Some b"
  shows "answers h x"
proof -
  let ?v = "value_at_mark h x" and ?e = "sint (fixed_part h) + value_at_mark h x"
  have mark: "sint x = uint x" if "uint x < 2 ^ 255" using that by (simp add: sint_cases)
  obtain pv ew e v where r: "uint x < 2 ^ 255" "s_full_mul_div (scast (perp_d (th_delta_perp h))) x Q96 TowardZero = Inr pv"
    "add_i (scast (fixed_part h)) pv = Inr ew" "to_usdc_delta ew = Inr e" "to_usdc_atoms (unsigned_abs pv) = Inr v"
    using assms by (auto simp: is_liquidatable_at_def result_ok_eq_Some rbind_eq_Inr to_i256_Inr)
  have pv: "sint pv = ?v" using r(1,2) mark by (simp add: s_full_mul_div_Inr value_at_mark_def)
  then have e: "sint (usdc_d e) = ?e" using r(3,4) by (simp add: add_i_Inr to_usdc_delta_Inr)
  have "uint (usdc v) = \<bar>?v\<bar>" using r(5) pv by (simp add: to_usdc_atoms_Inr uint_unsigned_abs)
  then have "\<bar>?v\<bar> < 2 ^ 128" using uint_below[of "usdc v"] by simp
  moreover have "in_signed LENGTH(128) ?e" unfolding in_signed_word using e by blast
  ultimately show ?thesis using r(1) by (simp add: answers_def)
qed

lemma is_liquidatable_at_eq:
  "is_liquidatable_at h x = (if answers h x then Some (fails_test h x) else None)"
  using is_liquidatable_at_answers[of h x] is_liquidatable_at_Some_answers[of h x]
  by (cases "is_liquidatable_at h x") auto

text \<open>Where the search is run: a short, or a long whose USD leg outweighs its margin.\<close>

definition is_short :: "taker_health \<Rightarrow> bool" where
  "is_short h \<longleftrightarrow> sint (perp_d (th_delta_perp h)) < 0"

definition searched :: "taker_health \<Rightarrow> bool" where
  "searched h \<longleftrightarrow> is_short h \<or> 0 < sint (perp_d (th_delta_perp h)) \<and> sint (fixed_part h) < 0"

lemma value_at_mark_long: "\<not> is_short h \<Longrightarrow> value_at_mark h x = sint (perp_d (th_delta_perp h)) * uint x div 2 ^ 96"
  by (simp add: value_at_mark_def srdiv_def is_short_def mult_less_0_iff)

lemma value_at_mark_short:
  "is_short h \<Longrightarrow> value_at_mark h x = - (\<bar>sint (perp_d (th_delta_perp h))\<bar> * uint x div 2 ^ 96)"
  by (cases "x = 0") (simp_all add: value_at_mark_def srdiv_def is_short_def mult_less_0_iff uint_pos_iff)

text \<open>Equity over value is monotone in the size of the value, in the two shapes the search meets.\<close>

lemma long_test_mono:
  fixes f v v' r :: int
  assumes "v \<le> v'" "0 \<le> v" "f < 0" "0 < f + v" "r * (v + 1) \<le> (f + v) * 1000000"
  shows "0 < f + v' \<and> r * (v' + 1) \<le> (f + v') * 1000000"
proof -
  have "r * (v + 1) < 1000000 * (v + 1)" using assms by simp
  then have "r \<le> 1000000" using mult_right_less_imp_less[of r "v + 1" 1000000] assms(2) by simp
  then have "r * (v' - v) \<le> 1000000 * (v' - v)" using assms(1) by (intro mult_right_mono) simp_all
  then show ?thesis using assms by (simp add: algebra_simps)
qed

lemma short_test_mono:
  fixes f v v' r :: int
  assumes "v \<le> v'" "0 \<le> r" "0 < f - v'" "r * (v' + 1) \<le> (f - v') * 1000000"
  shows "0 < f - v \<and> r * (v + 1) \<le> (f - v) * 1000000"
proof -
  have "r * (v + 1) \<le> r * (v' + 1)" using assms(1,2) by (intro mult_left_mono) simp_all
  then show ?thesis using assms by simp
qed

lemma fails_test_mono:
  assumes "searched h" "fails_test h x" "dist (is_short h) m x \<le> dist (is_short h) m y"
  shows "fails_test h y"
proof -
  let ?a = "sint (perp_d (th_delta_perp h))" and ?f = "sint (fixed_part h)"
  let ?r = "uint (ratio_e6 (th_liquidation_margin_ratio h))"
  show ?thesis
  proof (cases "is_short h")
    case True
    define v where "v z = \<bar>?a\<bar> * uint z div 2 ^ 96" for z :: u256
    have "uint x \<le> uint y" using assms(3) True by (simp add: dist_def)
    then have "v x \<le> v y" unfolding v_def by (intro zdiv_mono1 mult_left_mono) simp_all
    moreover have v0: "0 \<le> v z" for z by (simp add: v_def pos_imp_zdiv_nonneg_iff)
    have "value_at_mark h z = - v z" for z unfolding v_def by (rule value_at_mark_short[OF True])
    ultimately show ?thesis using assms(2) short_test_mono[of "v x" "v y" ?r ?f] v0
      by (auto simp: fails_test_def Let_def)
  next
    case False
    define v where "v z = ?a * uint z div 2 ^ 96" for z :: u256
    have a: "0 < ?a" "?f < 0" using assms(1) False by (auto simp: searched_def)
    have "uint y \<le> uint x" using assms(3) False by (simp add: dist_def)
    then have "v y \<le> v x" unfolding v_def using a by (intro zdiv_mono1 mult_left_mono) simp_all
    moreover have v0: "0 \<le> v z" for z using a by (simp add: v_def pos_imp_zdiv_nonneg_iff)
    have "value_at_mark h z = v z" for z unfolding v_def by (rule value_at_mark_long[OF False])
    ultimately show ?thesis using assms(2) a(2) long_test_mono[of "v y" "v x" ?f ?r] v0
      by (auto simp: fails_test_def Let_def)
  qed
qed

interpretation turn: turn_search "is_liquidatable_at h" "price_x96 (th_mark h)" "is_short h" "searched h" for h
proof
  fix x b assume "is_liquidatable_at h x = Some b"
  then show "uint x < 2 ^ 255" using is_liquidatable_at_Some_answers[of h x b] by (simp add: answers_def)
next
  fix x y assume "searched h" "is_liquidatable_at h x = Some True" "dist (is_short h) (price_x96 (th_mark h)) x
    \<le> dist (is_short h) (price_x96 (th_mark h)) y"
  then show "is_liquidatable_at h y \<noteq> Some False"
    using fails_test_mono[of h x "price_x96 (th_mark h)" y] by (auto simp: is_liquidatable_at_eq split: if_splits)
qed


text \<open>
  What \<open>taker_health_at\<close> makes of a row: the value and the PnL are the exposure at the mark. The
  equity at the mark must fit the width for the two tests to agree.
\<close>

definition valued :: "taker_health \<Rightarrow> bool" where
  "valued h \<longleftrightarrow> answers h (price_x96 (th_mark h))
     \<and> uint (usdc (th_position_value h)) = \<bar>value_at_mark h (price_x96 (th_mark h))\<bar>
     \<and> sint (usdc_d (th_unrealized_pnl h)) = value_at_mark h (price_x96 (th_mark h)) + sint (usdc_d (th_delta_usd h))"

lemma sint_congI:
  fixes c d :: "'a::len word"
  assumes "in_signed LENGTH('a) (sint d + x)" "c = d + word_of_int x"
  shows "sint c = sint d + x"
proof (rule sint_exactI[OF assms(1)])
  have "uint c mod 2 ^ LENGTH('a) = (sint d mod 2 ^ LENGTH('a) + x) mod 2 ^ LENGTH('a)"
    unfolding assms(2) sint_mod by (simp add: uint_word_ariths uint_word_of_int mod_add_right_eq)
  then show "uint c mod 2 ^ LENGTH('a) = (sint d + x) mod 2 ^ LENGTH('a)" by (simp only: mod_add_left_eq)
qed

lemma sint_equity:
  assumes "valued h"
  shows "sint (usdc_d (equity h)) = sint (fixed_part h) + value_at_mark h (price_x96 (th_mark h))"
proof -
  let ?v = "value_at_mark h (price_x96 (th_mark h))"
  have "usdc_d (th_unrealized_pnl h) = word_of_int (sint (usdc_d (th_unrealized_pnl h)))" by simp
  also have "\<dots> = word_of_int ?v + usdc_d (th_delta_usd h)" using assms by (simp add: valued_def)
  finally have "usdc_d (equity h) = fixed_part h + word_of_int ?v" by (simp add: equity_def fixed_part_def)
  moreover have "in_signed LENGTH(128) (sint (fixed_part h) + ?v)" using assms by (simp add: valued_def answers_def)
  ultimately show ?thesis by (rule sint_congI[rotated])
qed

lemma is_liquidatable_now:
  assumes "valued h"
  shows "is_liquidatable h = Inr (fails_test h (price_x96 (th_mark h)))"
    "is_liquidatable_at h (price_x96 (th_mark h)) = Some (fails_test h (price_x96 (th_mark h)))"
proof -
  show "is_liquidatable_at h (price_x96 (th_mark h)) = Some (fails_test h (price_x96 (th_mark h)))"
    using assms by (intro is_liquidatable_at_answers) (simp add: valued_def)
  show "is_liquidatable h = Inr (fails_test h (price_x96 (th_mark h)))"
    using assms by (simp add: is_liquidatable_def is_healthy_eq sint_equity fails_test_def Let_def valued_def)
qed

lemma dist_start:
  assumes "uint mark < 2 ^ 255"
  shows "0 \<le> dist up mark (search_start up mark turn)"
  using assms by (auto simp: dist_def search_start_def uint_min_max_word uint_saturating_add uint_saturating_sub
      min_le_iff_disj le_max_iff_disj)

text \<open>The two ways the search goes, with what its gallop returns.\<close>

definition brackets :: "taker_health \<Rightarrow> bool \<Rightarrow> (u256 \<times> u256) option option \<Rightarrow> bool" where
  "brackets h up g \<longleftrightarrow> g = Some None
     \<or> (\<exists>a b. g = Some (Some (a, b)) \<and> bracketed (is_liquidatable_at h) up (price_x96 (th_mark h)) a b)"

definition finish_search :: "taker_health \<Rightarrow> (u256 \<times> u256) option option \<Rightarrow> price option option" where
  "finish_search h = map_option (\<lambda>br. case br of None \<Rightarrow> None
     | Some (a, b) \<Rightarrow> map_option Price (bisect (is_liquidatable_at h) a b))"

lemma first_failing_cases:
  fixes t :: price
  assumes "is_liquidatable_at h (price_x96 (th_mark h)) = Some False"
  defines "mark \<equiv> price_x96 (th_mark h)"
  defines "start \<equiv> search_start (is_short h) mark (price_x96 t)"
  obtains (silent) "is_liquidatable_at h start = None" "first_failing h t (is_short h) = Some None"
  | (inward) g where "is_liquidatable_at h start = Some True" "brackets h (is_short h) g"
      "g = gallop_toward gallop_fuel (is_liquidatable_at h) (is_short h) mark start 1 start"
      "first_failing h t (is_short h) = finish_search h g"
  | (outward) g where "is_liquidatable_at h start = Some False" "brackets h (is_short h) g"
      "g = gallop_away gallop_fuel (is_liquidatable_at h) (is_short h) start 1 start"
      "first_failing h t (is_short h) = finish_search h g"
proof (cases "is_liquidatable_at h start")
  case None
  then show thesis by (intro silent) (simp_all add: first_failing_def Let_def mark_def start_def)
next
  case (Some b)
  have m: "uint mark < 2 ^ 255" unfolding mark_def by (rule turn.bounded[OF assms(1)])
  have s: "uint start < 2 ^ 255" by (rule turn.bounded[OF Some])
  have s0: "0 \<le> dist (is_short h) mark start" unfolding start_def by (rule dist_start[OF m])
  show thesis
  proof (cases b)
    case True
    have "brackets h (is_short h) (gallop_toward gallop_fuel (is_liquidatable_at h) (is_short h) mark start 1 start)"
      unfolding brackets_def mark_def
      by (rule turn.gallop_toward_brackets[where i = 0])
        (use assms(1) s s0 Some True in \<open>simp_all add: mark_def gallop_fuel_def\<close>)
    from inward[OF _ this refl] show thesis
      using Some True by (simp add: first_failing_def Let_def mark_def start_def finish_search_def)
  next
    case False
    have "dist (is_short h) mark start \<le> dist (is_short h) mark (away (is_short h) start 1)"
      using dist_away_mono[of 0 1 "is_short h" mark start] uint_below[of start]
      by (auto simp: dist_def away_def uint_saturating_add uint_saturating_sub)
    then have "brackets h (is_short h) (gallop_away gallop_fuel (is_liquidatable_at h) (is_short h) start 1 start)"
      unfolding brackets_def mark_def
      by (intro turn.gallop_away_brackets[where i = 0])
        (use s0 Some False in \<open>simp_all add: mark_def gallop_fuel_def\<close>)
    from outward[OF _ this refl] show thesis
      using Some False by (simp add: first_failing_def Let_def mark_def start_def finish_search_def)
  qed
qed

text \<open>The search returns, and what it returns is the end of a bracket.\<close>

definition turn_at :: "taker_health \<Rightarrow> bool \<Rightarrow> u256 \<Rightarrow> bool" where
  "turn_at h up p \<longleftrightarrow> is_liquidatable_at h p = Some True
     \<and> (\<exists>q. is_liquidatable_at h q = Some False \<and> 0 \<le> dist up (price_x96 (th_mark h)) q
         \<and> dist up (price_x96 (th_mark h)) p = dist up (price_x96 (th_mark h)) q + 1)"

lemma finish_search_bracket:
  assumes "brackets h (is_short h) g"
  shows "finish_search h g = Some None \<or> (\<exists>p. finish_search h g = Some (Some (Price p)) \<and> turn_at h (is_short h) p)"
  using assms unfolding brackets_def
proof (elim disjE exE conjE)
  fix a b assume br: "g = Some (Some (a, b))" "bracketed (is_liquidatable_at h) (is_short h) (price_x96 (th_mark h)) a b"
  show ?thesis
  proof (cases "bisect (is_liquidatable_at h) a b")
    case (Some p)
    with turn.bisect_threshold[OF br(2) Some] br(1) show ?thesis by (auto simp: turn_at_def finish_search_def)
  qed (use br in \<open>simp add: finish_search_def\<close>)
qed (simp add: finish_search_def)

lemma first_failing_bracket:
  assumes "is_liquidatable_at h (price_x96 (th_mark h)) = Some False"
  shows "first_failing h t (is_short h) = Some None
    \<or> (\<exists>p. first_failing h t (is_short h) = Some (Some (Price p)) \<and> turn_at h (is_short h) p)"
  using first_failing_cases[OF assms, of t] finish_search_bracket by metis

text \<open>The answer, when the position is not liquidatable now: one side is the search's, the other \<open>None\<close>.\<close>

lemma find_liquidation_prices_healthy:
  assumes "valued h" "is_liquidatable h = Inr False"
  obtains t where "find_liquidation_prices h = Some (Inr \<lparr>lp_mark = th_mark h,
      lp_below = (if is_short h then None else t), lp_above = (if is_short h then t else None)\<rparr>)"
    and "\<And>p. t = Some p \<Longrightarrow> searched h \<and> turn_at h (is_short h) (price_x96 p)"
    and "t = None \<Longrightarrow> liquidation_mark h = None
      \<or> (\<exists>turn. liquidation_mark h = Some turn \<and> first_failing h turn (is_short h) = Some None)"
proof -
  have now: "is_liquidatable_at h (price_x96 (th_mark h)) = Some False"
    using is_liquidatable_now[OF assms(1)] assms(2) by simp
  have up: "(sint (perp_d (th_delta_perp h)) < 0) = is_short h" by (simp add: is_short_def)
  have searched: "searched h" if "liquidation_mark h = Some turn" for turn
    using that by (auto simp: liquidation_mark_def searched_def is_short_def Let_def not_less order_le_less
        split: if_splits simp flip: sint_inject)
  show thesis
  proof (cases "liquidation_mark h")
    case None
    then show thesis using assms(2)
      by (intro that[of None]) (simp_all add: find_liquidation_prices_def up Let_def)
  next
    case (Some turn)
    have code: "find_liquidation_prices h = Some (Inr \<lparr>lp_mark = th_mark h,
      lp_below = (if is_short h then None else t), lp_above = (if is_short h then t else None)\<rparr>)"
      if "first_failing h turn (is_short h) = Some t" for t
      using that assms(2) Some by (simp add: find_liquidation_prices_def up Let_def)
    show thesis
      using first_failing_bracket[OF now, of turn] code Some searched[OF Some]
      by (elim disjE exE conjE) (rule that, assumption, auto)+
  qed
qed


lemma search_start_le: "\<not> up \<Longrightarrow> search_start up mark turn \<le> mark"
  by (auto simp: search_start_def word_le_def uint_min_max_word uint_saturating_sub min_le_iff_disj)

text \<open>Below a mark that answers, every mark answers a long with a negative fixed part.\<close>

lemma long_answers_below:
  assumes "\<not> is_short h" "0 < sint (perp_d (th_delta_perp h))" "sint (fixed_part h) < 0" "answers h m" "x \<le> m"
  shows "answers h x"
proof -
  let ?a = "sint (perp_d (th_delta_perp h))"
  have x: "uint x \<le> uint m" using assms(5) by (simp add: word_le_def)
  have "value_at_mark h x \<le> value_at_mark h m" "0 \<le> value_at_mark h x"
    unfolding value_at_mark_long[OF assms(1)] using x assms(2)
    by (auto intro!: zdiv_mono1 mult_left_mono simp: pos_imp_zdiv_nonneg_iff)
  then show ?thesis using assms(3,4) x sint_bounds(1)[of "fixed_part h"]
    by (auto simp: answers_def in_signed_def)
qed

lemma long_fails_at_zero:
  assumes "\<not> is_short h" "sint (fixed_part h) \<le> 0" "ratio_e6 (th_liquidation_margin_ratio h) \<noteq> 0"
  shows "is_liquidatable_at h 0 = Some True"
proof -
  have v: "value_at_mark h 0 = 0" by (simp add: value_at_mark_def srdiv_def)
  have "answers h 0" using v assms(2) sint_bounds[of "fixed_part h"] by (simp add: answers_def in_signed_def)
  moreover have "fails_test h 0" using v assms(2,3) by (simp add: fails_test_def uint_zero_iff)
  ultimately show ?thesis by (simp add: is_liquidatable_at_eq)
qed

lemma first_failing_long_finds:
  assumes "\<not> is_short h" "0 < sint (perp_d (th_delta_perp h))" "sint (fixed_part h) < 0"
    and "ratio_e6 (th_liquidation_margin_ratio h) \<noteq> 0"
    and "is_liquidatable_at h (price_x96 (th_mark h)) = Some False"
  shows "first_failing h t False \<noteq> Some None"
proof -
  let ?fails = "is_liquidatable_at h" and ?m = "price_x96 (th_mark h)"
  let ?s = "search_start False ?m (price_x96 t)"
  have s: "?s \<le> ?m" by (rule search_start_le) simp
  have zero: "?fails 0 = Some True" using assms by (intro long_fails_at_zero) simp_all
  have ans: "?fails x \<noteq> None" if "x \<le> ?m" for x
    using long_answers_below[OF assms(1-3) is_liquidatable_at_Some_answers[OF assms(5)] that] by (simp add: is_liquidatable_at_eq)
  have up: "is_short h = False" using assms(1) by simp
  have bis: "finish_search h g \<noteq> Some None" if g: "brackets h False g" "g \<noteq> Some None" for g
  proof -
    obtain x y where xy: "g = Some (Some (x, y))" "bracketed ?fails False ?m x y"
      using g by (auto simp: brackets_def)
    have "bisect ?fails x y \<noteq> None"
    proof (rule turn.bisect_answers)
      fix z assume "z \<le> max x y"
      also have "max x y \<le> ?m" using xy(2) by (simp add: bracketed_def dist_def word_le_def uint_min_max_word)
      finally show "?fails z \<noteq> None" by (rule ans)
    qed
    then show ?thesis using xy(1) by (auto simp: finish_search_def)
  qed
  show ?thesis using first_failing_cases[OF assms(5), of t, unfolded up]
  proof cases
    case 1
    then show ?thesis using ans[OF s] by simp
  next
    case (2 g)
    have "g \<noteq> Some None" unfolding 2(3)
      using turn.gallop_toward_answers[where h = h, unfolded up] ans by (simp add: toward_def)
    then show ?thesis using bis[OF 2(2)] 2(4) by simp
  next
    case (3 g)
    have "?s \<noteq> 0" using zero 3(1) by auto
    then have near: "uint (away False ?s 1) < uint ?s" using uint_pos_iff[of ?s] by (simp add: away_def uint_saturating_sub)
    have "g \<noteq> Some None" unfolding 3(3)
      using turn.gallop_away_finds[of h ?s ?s 1 0 gallop_fuel, unfolded up] turn.bounded[OF 3(1)] zero 3(1) near
        ans s order_trans[of _ ?s ?m] by (auto simp: gallop_fuel_def)
    then show ?thesis using bis[OF 3(2)] 3(4) by simp
  qed
qed


lemma liquidation_mark_long:
  assumes "0 < sint (perp_d (th_delta_perp h))" "sint (fixed_part h) < 0"
    and "uint (ratio_e6 (th_liquidation_margin_ratio h)) < 1000000"
  shows "liquidation_mark h \<noteq> None"
proof -
  let ?a = "perp_d (th_delta_perp h)" and ?f = "fixed_part h" and ?r = "ratio_e6 (th_liquidation_margin_ratio h)"
  let ?n = "ucast (unsigned_abs ?f) * BIGINT_1E6 :: u256"
  obtain scale where sc: "checked_sub BIGINT_1E6 (ucast ?r) = Some scale" "uint scale = 1000000 - uint ?r"
    using assms(3) by (auto simp: checked_sub_def uint_sub_exact)
  let ?d = "ucast (unsigned_abs ?a) * scale :: u256"
  have f: "uint (ucast (unsigned_abs ?f) :: u256) \<le> 2 ^ 127" using sint_bounds[of ?f] assms(2)
    by (simp add: uint_unsigned_abs)
  then have n: "uint ?n = uint (ucast (unsigned_abs ?f) :: u256) * 1000000" by (subst uint_mult_exact) simp_all
  have a: "uint (ucast (unsigned_abs ?a) :: u256) < 2 ^ 127" "0 < uint (ucast (unsigned_abs ?a) :: u256)"
    using sint_bounds[of ?a] assms(1) by (simp_all add: uint_unsigned_abs)
  have le: "uint (ucast (unsigned_abs ?a) :: u256) * uint scale \<le> 2 ^ 127 * 1000000"
    using a sc(2) assms(3) by (intro mult_mono) simp_all
  then have "uint ?d = uint (ucast (unsigned_abs ?a) :: u256) * uint scale" by (subst uint_mult_exact) simp_all
  then have d: "0 < uint ?d" using a(2) sc(2) assms(3) by simp
  have "uint ?n * 2 ^ 96 div uint ?d \<le> uint ?n * 2 ^ 96"
    using zdiv_mono2[of "uint ?n * 2 ^ 96" 1 "uint ?d"] d by simp
  also have "\<dots> < 2 ^ 256" using n f by simp
  finally obtain m where "mul_div ?n Q96 ?d TowardZero = Inr m"
    using d by (simp add: mul_div_exact uint_pos_iff not_le)
  then show ?thesis using assms(1,2) sc(1) by (auto simp: liquidation_mark_def Let_def)
qed


lemma turn_at_threshold:
  assumes "searched h" "turn_at h (is_short h) p"
    and "0 \<le> dist (is_short h) (price_x96 (th_mark h)) x" "is_liquidatable_at h x = Some b"
  shows "b \<longleftrightarrow> dist (is_short h) (price_x96 (th_mark h)) p \<le> dist (is_short h) (price_x96 (th_mark h)) x"
  using assms turn.threshold_exact[of h p _ x b] unfolding turn_at_def by blast

lemma turn_at_off_mark: "turn_at h up p \<Longrightarrow> 0 < dist up (price_x96 (th_mark h)) p"
  by (auto simp: turn_at_def)

lemma long_healthy_ratio:
  assumes "\<not> fails_test h x" "\<not> is_short h" "0 < sint (perp_d (th_delta_perp h))" "sint (fixed_part h) < 0"
    and "ratio_e6 (th_liquidation_margin_ratio h) \<noteq> 0"
  shows "uint (ratio_e6 (th_liquidation_margin_ratio h)) < 1000000"
proof -
  let ?r = "uint (ratio_e6 (th_liquidation_margin_ratio h))"
  define v where "v = value_at_mark h x"
  have v0: "0 \<le> v" unfolding v_def value_at_mark_long[OF assms(2)] using assms(3) by (simp add: pos_imp_zdiv_nonneg_iff)
  have "?r * (v + 1) \<le> (sint (fixed_part h) + v) * 1000000"
    using assms(1,5) v0 by (auto simp: fails_test_def Let_def v_def[symmetric] uint_zero_iff)
  then have "?r * (v + 1) < 1000000 * (v + 1)" using assms(4) by simp
  then show ?thesis using mult_right_less_imp_less[of ?r "v + 1" 1000000] v0 by simp
qed

subsection \<open>Properties\<close>

text \<open>A long that the witnesses share: one perp at a mark of one, bought on a tenth of margin.\<close>

definition sample_long :: taker_health where
  "sample_long = \<lparr>th_block = \<lparr>block_number = 1, block_hash = 0, block_timestamp = 1\<rparr>, th_mark = Price (2 ^ 96),
     th_delta_perp = PerpDelta 1000000, th_delta_usd = UsdcDelta (- 1000000), th_margin = UsdcAtoms 100000,
     th_funding_owed = UsdcDelta 0, th_util_owed = UsdcAtoms 0, th_position_value = UsdcAtoms 1000000,
     th_unrealized_pnl = UsdcDelta 0, th_liquidation_margin_ratio = Ratio 50000\<rparr>"

lemma sample_long_facts:
  "fixed_part sample_long = - 900000" "sint (fixed_part sample_long) = - 900000"
  "value_at_mark sample_long (2 ^ 96) = 1000000" "valued sample_long"
  "\<not> is_short sample_long" "is_liquidatable sample_long = Inr False"
proof -
  show f: "fixed_part sample_long = - 900000"
    by (simp add: fixed_part_def settled_margin_def sample_long_def usdc_delta_from_def)
  then show f': "sint (fixed_part sample_long) = - 900000" by simp
  have u: "uint (2 ^ 96 :: u256) = 2 ^ 96" by simp
  show v: "value_at_mark sample_long (2 ^ 96) = 1000000"
    by (simp add: value_at_mark_def srdiv_def sample_long_def u)
  show val: "valued sample_long"
    using v f' by (simp add: valued_def answers_def in_signed_def sample_long_def)
  show "\<not> is_short sample_long" by (simp add: is_short_def sample_long_def)
  have "price_x96 (th_mark sample_long) = 2 ^ 96" by (simp add: sample_long_def)
  then show "is_liquidatable sample_long = Inr False"
    unfolding is_liquidatable_now(1)[OF val] using v f'
    by (simp add: fails_test_def Let_def) (simp add: sample_long_def)
qed


lemma taker_legs:
  assumes "taker_health_at m t = Inr h"
  shows "uint (usdc (th_position_value h)) = \<bar>value_at_mark h (price_x96 (th_mark h))\<bar>
    \<and> sint (usdc_d (th_unrealized_pnl h)) = value_at_mark h (price_x96 (th_mark h)) + sint (usdc_d (ts_delta_usd t))
    \<and> sint (usdc_d (th_funding_owed h)) = srdiv Up (sint (perp_d (ts_delta_perp t))
        * (sint (funding_x96 (tms_funding m)) - sint (funding_x96 (ts_last_cuml_funding t)))) (2 ^ 96)
    \<and> uint (usdc (th_util_owed h)) = (if perp_d (ts_delta_perp t) = 0 then 0
        else let s = long_if (0 < sint (perp_d (ts_delta_perp t))) in
          cdiv (\<bar>sint (perp_d (ts_delta_perp t))\<bar> * (uint (earnings_x96 (on (tms_util_payments m) s))
            - uint (earnings_x96 (on (ts_last_util_payments t) s)))) (2 ^ 96))
    \<and> th_mark h = tms_mark m \<and> th_margin h = ts_margin t \<and> th_delta_perp h = ts_delta_perp t"
proof -
  have mark: "sint x = uint x" if "uint x < 2 ^ 255" for x :: u256 using that by (simp add: sint_cases)
  have util: "uint (usdc u) = (if perp_d (ts_delta_perp t) = 0 then 0
        else let s = long_if (0 < sint (perp_d (ts_delta_perp t))) in
          cdiv (\<bar>sint (perp_d (ts_delta_perp t))\<bar> * (uint (earnings_x96 (on (tms_util_payments m) s))
            - uint (earnings_x96 (on (ts_last_util_payments t) s)))) (2 ^ 96))"
    if "util_owed_of m t = Inr u" for u
    using that by (auto simp: util_owed_of_def result_simps Let_def uint_unsigned_abs long_if_def split: if_splits)
  have fund: "sint (usdc_d f) = srdiv Up (sint (perp_d (ts_delta_perp t))
        * (sint (funding_x96 (tms_funding m)) - sint (funding_x96 (ts_last_cuml_funding t)))) (2 ^ 96)"
    if "funding_since (tms_funding m) (ts_last_cuml_funding t) = Inr g"
      "s_full_mul_div (scast (perp_d (ts_delta_perp t))) (funding_x96 g) Q96 Up = Inr w" "to_usdc_delta w = Inr f" for g w f
    using that by (simp add: funding_since_Inr s_full_mul_div_Inr to_usdc_delta_Inr)
  obtain px pv v e d g w f u where o: "uint (price_x96 (tms_mark m)) < 2 ^ 255"
      "s_full_mul_div (scast (perp_d (ts_delta_perp t))) (price_x96 (tms_mark m)) Q96 TowardZero = Inr pv"
      "to_usdc_atoms (unsigned_abs pv) = Inr v" "add_i pv (scast (usdc_d (ts_delta_usd t))) = Inr e"
      "to_usdc_delta e = Inr d" "funding_since (tms_funding m) (ts_last_cuml_funding t) = Inr g"
      "s_full_mul_div (scast (perp_d (ts_delta_perp t))) (funding_x96 g) Q96 Up = Inr w" "to_usdc_delta w = Inr f"
      "util_owed_of m t = Inr u"
    and h: "h = \<lparr>th_block = tms_block m, th_mark = tms_mark m, th_delta_perp = ts_delta_perp t,
           th_delta_usd = ts_delta_usd t, th_margin = ts_margin t, th_funding_owed = f,
           th_util_owed = u, th_position_value = v, th_unrealized_pnl = d,
           th_liquidation_margin_ratio = ts_liquidation_margin_ratio t\<rparr>"
    using assms unfolding taker_health_at_def Let_def rbind_eq_Inr to_i256_Inr by auto
  have pv: "sint pv = value_at_mark h (price_x96 (th_mark h))"
    using o(1,2) by (simp add: h s_full_mul_div_Inr value_at_mark_def mark)
  note util = util[OF o(9)] and fund = fund[OF o(6-8)]
  have "uint (usdc v) = \<bar>value_at_mark h (price_x96 (th_mark h))\<bar>"
    using o(3) pv by (simp add: to_usdc_atoms_Inr uint_unsigned_abs)
  moreover have "sint (usdc_d d) = value_at_mark h (price_x96 (th_mark h)) + sint (usdc_d (ts_delta_usd t))"
    using o(4,5) pv by (simp add: add_i_Inr to_usdc_delta_Inr)
  ultimately show ?thesis using util fund by (simp only: h taker_health.select_convs)
qed

text \<open>C17: The health of a taker's row is the contract's, leg by leg: the value and the PnL truncate the exposure
  at the mark toward zero, funding rounds up in the position's disfavour, the utilization fee rounds
  up on the side the exposure is on, and the rest is carried over.\<close>

theorem taker_health_legs:
  assumes "taker_health_at m t = Inr h"
  shows "uint (usdc (th_position_value h)) = \<bar>value_at_mark h (price_x96 (th_mark h))\<bar>
    \<and> sint (usdc_d (th_unrealized_pnl h)) = value_at_mark h (price_x96 (th_mark h)) + sint (usdc_d (ts_delta_usd t))
    \<and> sint (usdc_d (th_funding_owed h)) = srdiv Up (sint (perp_d (ts_delta_perp t))
        * (sint (funding_x96 (tms_funding m)) - sint (funding_x96 (ts_last_cuml_funding t)))) (2 ^ 96)
    \<and> uint (usdc (th_util_owed h)) = (if perp_d (ts_delta_perp t) = 0 then 0
        else let s = long_if (0 < sint (perp_d (ts_delta_perp t))) in
          cdiv (\<bar>sint (perp_d (ts_delta_perp t))\<bar> * (uint (earnings_x96 (on (tms_util_payments m) s))
            - uint (earnings_x96 (on (ts_last_util_payments t) s)))) (2 ^ 96))
    \<and> th_mark h = tms_mark m \<and> th_margin h = ts_margin t \<and> th_delta_perp h = ts_delta_perp t"
  by (rule taker_legs[OF assms])

definition sample_market :: taker_market_snapshot where
  "sample_market = \<lparr>tms_block = \<lparr>block_number = 1, block_hash = 0, block_timestamp = 1\<rparr>,
     tms_funding = Funding 7, tms_util_payments = PerSide (Earnings 9) (Earnings 5), tms_mark = Price (2 ^ 96)\<rparr>"

definition sample_taker :: taker_state where
  "sample_taker = \<lparr>ts_delta_perp = PerpDelta 1000000, ts_delta_usd = UsdcDelta (- 1000000),
     ts_margin = UsdcAtoms 100000, ts_liquidation_margin_ratio = Ratio 50000,
     ts_last_cuml_funding = Funding 3, ts_last_util_payments = PerSide (Earnings 9) (Earnings 2)\<rparr>"

theorem taker_health_legs_witness:
  "\<exists>h. taker_health_at sample_market sample_taker = Inr h \<and> sint (usdc_d (th_funding_owed h)) = 1"
proof -
  have "\<not> (case taker_health_at sample_market sample_taker of Inl _ \<Rightarrow> True | Inr _ \<Rightarrow> False)"
    by (simp add: taker_health_at_def sample_market_def sample_taker_def util_owed_of_def evaluation)
  then obtain h where h: "taker_health_at sample_market sample_taker = Inr h" by (cases "taker_health_at sample_market sample_taker") simp_all
  from taker_health_legs[OF h] have "sint (usdc_d (th_funding_owed h)) = 1"
    by (simp add: sample_market_def sample_taker_def srdiv_def cdiv_def)
  then show ?thesis using h by blast
qed

text \<open>The two forms of the eligibility test agree: at the position's own mark the test with the mark moved
  answers, and answers what \<open>is_liquidatable\<close> does.\<close>

theorem eligibility_agrees:
  assumes "valued h"
  shows "is_liquidatable_at h (price_x96 (th_mark h)) = result_ok (is_liquidatable h)
    \<and> is_liquidatable h \<noteq> Inl Panic"
  using is_liquidatable_now[OF assms] by simp

theorem eligibility_agrees_witness:
  "is_liquidatable_at sample_long (price_x96 (th_mark sample_long)) = Some False"
  using eligibility_agrees[OF sample_long_facts(4)] sample_long_facts(6) by simp

text \<open>The search for the liquidation prices returns on every position: the doublings of its two gallops
  and the halvings of its bisection always end, with an answer that names the mark asked about.\<close>

theorem liquidation_search_returns:
  assumes "valued h"
  shows "\<exists>r. find_liquidation_prices h = Some (Inr r) \<and> lp_mark r = th_mark h
    \<and> (is_liquidatable h = Inr True \<longrightarrow> lp_below r = Some (th_mark h) \<and> lp_above r = Some (th_mark h))"
proof (cases "is_liquidatable h = Inr False")
  case True
  from find_liquidation_prices_healthy[OF assms True] show ?thesis using True by (metis liquidation_prices.select_convs(1) Inr_inject)
next
  case False
  then have "is_liquidatable h = Inr True" using is_liquidatable_now(1)[OF assms] by auto
  then show ?thesis by (simp add: find_liquidation_prices_def)
qed

theorem liquidation_search_returns_witness:
  "\<exists>r. find_liquidation_prices sample_long = Some (Inr r) \<and> lp_mark r = Price (2 ^ 96)"
  using liquidation_search_returns[OF sample_long_facts(4)] by (auto simp: sample_long_def)

text \<open>C1: A liquidation price is the exact threshold of the integer test. On a position that is not liquidatable
  now, the price below is strictly below the mark and, of the marks up to the current one that the
  test can value, it fails exactly those at or under it; the price above is its mirror image.\<close>

theorem liquidation_price_is_threshold:
  assumes "valued h" "is_liquidatable h = Inr False"
  shows "\<exists>r. find_liquidation_prices h = Some (Inr r)
    \<and> (\<forall>p. lp_below r = Some p \<longrightarrow> p < th_mark h \<and> is_liquidatable_at h (price_x96 p) = Some True
        \<and> (\<forall>x b. x \<le> th_mark h \<longrightarrow> is_liquidatable_at h (price_x96 x) = Some b \<longrightarrow> (b \<longleftrightarrow> x \<le> p)))
    \<and> (\<forall>p. lp_above r = Some p \<longrightarrow> th_mark h < p \<and> is_liquidatable_at h (price_x96 p) = Some True
        \<and> (\<forall>x b. th_mark h \<le> x \<longrightarrow> is_liquidatable_at h (price_x96 x) = Some b \<longrightarrow> (b \<longleftrightarrow> p \<le> x)))"
proof -
  obtain t where t: "find_liquidation_prices h = Some (Inr \<lparr>lp_mark = th_mark h,
      lp_below = (if is_short h then None else t), lp_above = (if is_short h then t else None)\<rparr>)"
    "\<And>p. t = Some p \<Longrightarrow> searched h \<and> turn_at h (is_short h) (price_x96 p)"
    using find_liquidation_prices_healthy[OF assms] by metis
  have thr: "b \<longleftrightarrow> dist (is_short h) (price_x96 (th_mark h)) (price_x96 p) \<le> dist (is_short h) (price_x96 (th_mark h)) (price_x96 x)"
    if "t = Some p" "0 \<le> dist (is_short h) (price_x96 (th_mark h)) (price_x96 x)" "is_liquidatable_at h (price_x96 x) = Some b" for p x b
    using t(2)[OF that(1)] turn_at_threshold that(2,3) by blast
  have off: "0 < dist (is_short h) (price_x96 (th_mark h)) (price_x96 p)"
    "is_liquidatable_at h (price_x96 p) = Some True" if "t = Some p" for p
    using t(2)[OF that] turn_at_off_mark by (auto simp: turn_at_def)
  show ?thesis
  proof (cases "is_short h")
    case True
    then show ?thesis using thr off by (auto simp: t(1) dist_def price_order word_le_def word_less_def)
  next
    case False
    then show ?thesis using thr off by (auto simp: t(1) dist_def price_order word_le_def word_less_def)
  qed
qed

theorem liquidation_price_is_threshold_witness:
  "\<exists>r. find_liquidation_prices sample_long = Some (Inr r) \<and> (\<forall>p. lp_below r = Some p \<longrightarrow> p < Price (2 ^ 96))"
  using liquidation_price_is_threshold[OF sample_long_facts(4,6)] by (auto simp: sample_long_def)

text \<open>A healthy long whose USD leg outweighs its settled margin always has a liquidation price below the mark,
  when its ratio is positive: the search finds it, however far down it lies.\<close>

theorem leveraged_long_has_a_price:
  assumes "valued h" "is_liquidatable h = Inr False" "0 < sint (perp_d (th_delta_perp h))"
    and "sint (fixed_part h) < 0" "ratio_e6 (th_liquidation_margin_ratio h) \<noteq> 0"
  shows "\<exists>r p. find_liquidation_prices h = Some (Inr r) \<and> lp_below r = Some p \<and> lp_above r = None"
proof -
  have up: "\<not> is_short h" "is_short h = False" using assms(3) by (simp_all add: is_short_def)
  have now: "is_liquidatable_at h (price_x96 (th_mark h)) = Some False" "\<not> fails_test h (price_x96 (th_mark h))"
    using is_liquidatable_now[OF assms(1)] assms(2) by simp_all
  have m: "liquidation_mark h \<noteq> None"
    using liquidation_mark_long[OF assms(3,4)] long_healthy_ratio[OF now(2) up(1) assms(3-5)] by blast
  have f: "first_failing h turn (is_short h) \<noteq> Some None" for turn
    using first_failing_long_finds[OF up(1) assms(3-5) now(1)] up by simp
  from find_liquidation_prices_healthy[OF assms(1,2)] obtain t where t: "find_liquidation_prices h = Some (Inr \<lparr>lp_mark = th_mark h,
      lp_below = (if is_short h then None else t), lp_above = (if is_short h then t else None)\<rparr>)"
    "t = None \<Longrightarrow> liquidation_mark h = None
      \<or> (\<exists>turn. liquidation_mark h = Some turn \<and> first_failing h turn (is_short h) = Some None)" by metis
  then have "t \<noteq> None" using m f by auto
  then show ?thesis using t(1) up by auto
qed

theorem leveraged_long_has_a_price_witness:
  "\<exists>r p. find_liquidation_prices sample_long = Some (Inr r) \<and> lp_below r = Some p"
  using leveraged_long_has_a_price[OF sample_long_facts(4,6)] sample_long_facts(2) by (auto simp: sample_long_def)

text \<open>C24: A long whose settled margin exactly covers its USD leg is reported with no liquidation price on either
  side, yet the test fails at a mark of zero when its ratio is positive: the documented ``no fall
  of the mark can liquidate'' holds only past equality.\<close>

theorem covered_long_fails_at_zero:
  assumes "valued h" "is_liquidatable h = Inr False" "0 < sint (perp_d (th_delta_perp h))"
    and "fixed_part h = 0" "ratio_e6 (th_liquidation_margin_ratio h) \<noteq> 0"
  shows "find_liquidation_prices h = Some (Inr \<lparr>lp_mark = th_mark h, lp_below = None, lp_above = None\<rparr>)
    \<and> is_liquidatable_at h 0 = Some True"
proof -
  have "\<not> is_short h" using assms(3) by (simp add: is_short_def)
  then have "is_liquidatable_at h 0 = Some True" using assms(4,5) by (intro long_fails_at_zero) simp_all
  moreover have "perp_d (th_delta_perp h) \<noteq> 0" using assms(3) by auto
  then have "liquidation_mark h = None" using assms(3,4) by (simp add: liquidation_mark_def Let_def)
  then have "find_liquidation_prices h = Some (Inr \<lparr>lp_mark = th_mark h, lp_below = None, lp_above = None\<rparr>)"
    using assms(2,3) by (simp add: find_liquidation_prices_def Let_def)
  ultimately show ?thesis by simp
qed

definition covered_long :: taker_health where
  "covered_long = sample_long\<lparr>th_margin := UsdcAtoms 1000000\<rparr>"

theorem covered_long_fails_at_zero_witness:
  "find_liquidation_prices covered_long = Some (Inr \<lparr>lp_mark = Price (2 ^ 96), lp_below = None, lp_above = None\<rparr>)
    \<and> is_liquidatable_at covered_long 0 = Some True"
proof -
  have f: "fixed_part covered_long = 0"
    by (simp add: fixed_part_def settled_margin_def sample_long_def covered_long_def usdc_delta_from_def)
  have v: "value_at_mark covered_long (2 ^ 96) = 1000000"
    using sample_long_facts(3) by (simp add: value_at_mark_def covered_long_def)
  have val: "valued covered_long"
    using v f by (simp add: valued_def answers_def in_signed_def covered_long_def sample_long_def)
  have m: "price_x96 (th_mark covered_long) = 2 ^ 96" by (simp add: covered_long_def sample_long_def)
  have "is_liquidatable covered_long = Inr False"
    unfolding is_liquidatable_now(1)[OF val] m using v f
    by (simp add: fails_test_def Let_def) (simp add: covered_long_def sample_long_def)
  from covered_long_fails_at_zero[OF val this _ f] show ?thesis by (simp add: covered_long_def sample_long_def)
qed

end
