(* ===== verification/Maker_Equity.thy ===== *)
theory Maker_Equity
  imports Taker_Health Capacity
begin

text \<open>
  \<open>src/src/math/maker_equity.rs\<close>: what the contract would settle for an open maker position. The
  accrual replay of a market, the settle preview of one maker (funding, utilization earnings, LP
  fees, inventory PnL), its revaluation along a price shock and the search for the marks its health
  test turns at. The bound on every component, which construction and deserialization both enforce,
  is shown to keep every sum of them exact.

  The integer square root of \<open>ruint\<close> is the parameter \<open>root2\<close>, as in \<open>Range_Liquidity\<close>.
\<close>

subsection \<open>The code: data\<close>

record tick_funding =
  tf_cuml_funding_opp :: funding
  tf_cuml_funding_div_sqrt_p_opp :: funding_per_sqrt

record maker_market =
  mm_block :: block_context
  mm_funding :: funding
  mm_funding_div_sqrt_p :: funding_per_sqrt
  mm_util_earnings :: "earnings per_side"
  mm_tick :: i32
  mm_sqrt_price :: sqrt_price
  mm_mark :: price

record accrual_inputs =
  ai_funding_per_day :: funding_rate
  ai_util_fee_per_day :: "utilization_rate per_side"
  ai_last_touch :: u64
  ai_accrue_to :: u64
  ai_open_interest :: "perp_atoms per_side"
  ai_capacity :: "perp_atoms per_side"

record maker_state =
  ms_margin :: usdc_atoms
  ms_liquidation_margin_ratio :: ratio
  ms_delta_perp :: perp_delta
  ms_delta_usd :: usdc_delta
  ms_last_cuml_funding :: funding
  ms_tick_lower :: i32
  ms_tick_upper :: i32
  ms_liquidity :: l_units
  ms_last_util_earnings :: "earnings per_side"
  ms_capacity :: "perp_atoms per_side"
  ms_last_below :: funding
  ms_last_within :: funding
  ms_last_div_sqrt_within :: funding_per_sqrt
  ms_tick_lower_funding :: tick_funding
  ms_tick_upper_funding :: tick_funding
  ms_fee_growth_inside1 :: fee_growth
  ms_fee_growth_inside1_last :: fee_growth

record maker_exposure =
  ex_sqrt_lower :: sqrt_price
  ex_sqrt_upper :: sqrt_price
  ex_liquidity :: l_units
  ex_delta_perp :: perp_delta
  ex_delta_usd :: usdc_delta

record maker_breakdown =
  mb_margin :: usdc_delta
  mb_funding_owed :: usdc_delta
  mb_util_earnings :: "usdc_delta per_side"
  mb_lp_fees :: usdc_delta
  mb_unrealized_pnl :: usdc_delta
  mb_position_value :: usdc_atoms
  mb_liquidation_margin_ratio :: ratio
  mb_mark :: price
  mb_sqrt_price :: sqrt_price
  mb_exposure :: maker_exposure
  mb_capacity :: "perp_atoms per_side"
  mb_block :: block_context

definition MAX_COMPONENT_ATOMS :: u128 where
  "MAX_COMPONENT_ATOMS = 2 ^ 120 - 1"

definition INTERVAL :: u64 where "INTERVAL = 86400"

definition settle_atoms :: "i256 \<Rightarrow> i128 result" where
  "settle_atoms v = (case narrow_s v of
     None \<Rightarrow> Inl Overflow
   | Some a \<Rightarrow> if unsigned_abs a \<le> MAX_COMPONENT_ATOMS then Inr a else Inl Overflow)"

subsection \<open>The code: valuing a band\<close>

definition exposure_valued :: "maker_exposure \<Rightarrow> sqrt_price \<Rightarrow> price \<Rightarrow> (u256 \<times> i256) result" where
  "exposure_valued x sp mark =
     rbind (amounts_for_liquidity sp (ex_sqrt_lower x) (ex_sqrt_upper x) (ex_liquidity x)) (\<lambda>(perps, usd).
     rbind (mul_div (ucast (perp perps)) (price_x96 mark) Q96 TowardZero) (\<lambda>perp_val.
     rbind (add_u perp_val (ucast (usdc usd))) (\<lambda>liquidity_val.
     rbind (to_i256 (price_x96 mark)) (\<lambda>m.
     rbind (s_full_mul_div (scast (perp_d (ex_delta_perp x))) m Q96 TowardZero) (\<lambda>residual.
     rbind (add_i residual (scast (usdc_d (ex_delta_usd x)))) (\<lambda>residual_val.
     rbind (to_i256 liquidity_val) (\<lambda>l.
     rbind (add_i l residual_val) (\<lambda>unrealized.
     Inr (liquidity_val, unrealized)))))))))"

definition valued_atoms :: "maker_exposure \<Rightarrow> sqrt_price \<Rightarrow> price \<Rightarrow> (usdc_atoms \<times> usdc_delta) result" where
  "valued_atoms x sp mark =
     rbind (exposure_valued x sp mark) (\<lambda>(v, unrealized).
     rbind (to_i256 v) (\<lambda>v.
     rbind (settle_atoms v) (\<lambda>v.
     rbind (settle_atoms unrealized) (\<lambda>u.
     Inr (UsdcAtoms (unsigned_abs v), UsdcDelta u)))))"

text \<open>Deserialization: the shadow type has the same fields, so a raw breakdown is the same record.\<close>

definition bounded :: "usdc_delta \<Rightarrow> usdc_delta result" where
  "bounded v = (if usdc (usdc_magnitude v) \<le> MAX_COMPONENT_ATOMS then Inr v else Inl Overflow)"

definition breakdown_try_from :: "maker_breakdown \<Rightarrow> maker_breakdown result" where
  "breakdown_try_from raw =
     rbind (valued_atoms (mb_exposure raw) (mb_sqrt_price raw) (mb_mark raw)) (\<lambda>(v, u).
     if (v, u) \<noteq> (mb_position_value raw, mb_unrealized_pnl raw) then Inl DecodeFailed
     else rbind (bounded (mb_margin raw)) (\<lambda>margin.
       rbind (bounded (mb_funding_owed raw)) (\<lambda>funding.
       rbind (bounded (long (mb_util_earnings raw))) (\<lambda>ul.
       rbind (bounded (short (mb_util_earnings raw))) (\<lambda>us.
       rbind (bounded (mb_lp_fees raw)) (\<lambda>fees.
       Inr \<lparr>mb_margin = margin, mb_funding_owed = funding, mb_util_earnings = PerSide ul us,
            mb_lp_fees = fees, mb_unrealized_pnl = u, mb_position_value = v,
            mb_liquidation_margin_ratio = mb_liquidation_margin_ratio raw, mb_mark = mb_mark raw,
            mb_sqrt_price = mb_sqrt_price raw, mb_exposure = mb_exposure raw,
            mb_capacity = mb_capacity raw, mb_block = mb_block raw\<rparr>))))))"

subsection \<open>The code: a breakdown's sums and its revaluation along a shock\<close>

definition maker_settled_margin :: "maker_breakdown \<Rightarrow> usdc_delta" where
  "maker_settled_margin b = mb_margin b - mb_funding_owed b + total (mb_util_earnings b) + mb_lp_fees b"

definition maker_equity_of :: "maker_breakdown \<Rightarrow> usdc_delta" where
  "maker_equity_of b = maker_settled_margin b + mb_unrealized_pnl b"

definition accrued_income :: "maker_breakdown \<Rightarrow> usdc_delta" where
  "accrued_income b = total (mb_util_earnings b) + mb_lp_fees b - mb_funding_owed b"

definition maker_is_liquidatable :: "maker_breakdown \<Rightarrow> bool result" where
  "maker_is_liquidatable b =
     result_map Not (is_healthy (maker_equity_of b) (mb_position_value b) (mb_liquidation_margin_ratio b))"

definition shock_valued :: "maker_breakdown \<Rightarrow> sqrt_price \<Rightarrow> price \<Rightarrow> sqrt_price \<Rightarrow> (usdc_atoms \<times> usdc_delta) result" where
  "shock_valued b own_root mark mark_root =
     rbind (mul_div (sqrt_x96 (mb_sqrt_price b)) (sqrt_x96 mark_root) (sqrt_x96 own_root) TowardZero) (\<lambda>s.
     valued_atoms (mb_exposure b) (SqrtPrice s) mark)"

definition valued_at :: "(u512 \<Rightarrow> u512) \<Rightarrow> maker_breakdown \<Rightarrow> price \<Rightarrow> (usdc_atoms \<times> usdc_delta) result" where
  "valued_at root2 b mark =
     rbind (sqrt_price_try_from root2 (mb_mark b)) (\<lambda>own.
     rbind (sqrt_price_try_from root2 mark) (\<lambda>root.
     shock_valued b own mark root))"

definition liquidatable :: "maker_breakdown \<Rightarrow> sqrt_price \<Rightarrow> price \<Rightarrow> sqrt_price \<Rightarrow> bool result" where
  "liquidatable b own_root mark mark_root =
     rbind (shock_valued b own_root mark mark_root) (\<lambda>(v, unrealized).
     result_map Not (is_healthy (maker_settled_margin b + unrealized) v (mb_liquidation_margin_ratio b)))"

definition equity_at :: "(u512 \<Rightarrow> u512) \<Rightarrow> maker_breakdown \<Rightarrow> price \<Rightarrow> usdc_delta result" where
  "equity_at root2 b mark = result_map (\<lambda>vu. maker_settled_margin b + snd vu) (valued_at root2 b mark)"

definition position_value_at :: "(u512 \<Rightarrow> u512) \<Rightarrow> maker_breakdown \<Rightarrow> price \<Rightarrow> usdc_atoms result" where
  "position_value_at root2 b mark = result_map fst (valued_at root2 b mark)"

definition maker_is_liquidatable_at :: "(u512 \<Rightarrow> u512) \<Rightarrow> maker_breakdown \<Rightarrow> price \<Rightarrow> bool result" where
  "maker_is_liquidatable_at root2 b mark =
     rbind (sqrt_price_try_from root2 (mb_mark b)) (\<lambda>own.
     rbind (sqrt_price_try_from root2 mark) (\<lambda>root.
     liquidatable b own mark root))"

subsection \<open>The code: where the test turns\<close>

definition stepped :: "price \<Rightarrow> nat \<Rightarrow> bool \<Rightarrow> price result" where
  "stepped mark k up =
     (let grain = ucast (512 :: u32) :: u256; factor = ucast (512 + push_bit k 1 :: u32) :: u256 in
      result_map Price (if up then mul_div (price_x96 mark) factor grain TowardZero
                        else mul_div (price_x96 mark) grain factor TowardZero))"

text \<open>The outward steps: the last healthy price, and the first liquidatable one if a step reached one.\<close>

fun bracket_turn ::
    "(u512 \<Rightarrow> u512) \<Rightarrow> maker_breakdown \<Rightarrow> sqrt_price \<Rightarrow> bool \<Rightarrow> nat list \<Rightarrow> price \<Rightarrow> (price \<times> price option) result" where
  "bracket_turn root2 b own_root up [] healthy = Inr (healthy, None)"
| "bracket_turn root2 b own_root up (k # ks) healthy =
     rbind (stepped (mb_mark b) k up) (\<lambda>price.
     case sqrt_price_try_from root2 price of
       Inl _ \<Rightarrow> Inr (healthy, None)
     | Inr price_root \<Rightarrow>
         rbind (liquidatable b own_root price price_root) (\<lambda>turned.
         if turned then Inr (healthy, Some price)
         else bracket_turn root2 b own_root up ks price))"

function turn_bisect :: "(price \<Rightarrow> bool result) \<Rightarrow> u256 \<Rightarrow> u256 \<Rightarrow> u256 result" where
  "turn_bisect test healthy turned =
     (if 1 < abs_diff healthy turned then
        let mid = min healthy turned + abs_diff healthy turned div 2 in
        case test (Price mid) of
          Inl e \<Rightarrow> Inl e
        | Inr True \<Rightarrow> turn_bisect test healthy mid
        | Inr False \<Rightarrow> turn_bisect test mid turned
      else Inr turned)"
  by pat_completeness auto

termination turn_bisect
proof (relation "measure (\<lambda>(_, h, t). nat \<bar>uint h - uint t\<bar>)", goal_cases)
  case (2 test h t)
  then show ?case using mid_between[of h t] by (auto simp: nat_less_iff)
next
  case (3 test h t)
  then show ?case using mid_between[of h t] by (auto simp: nat_less_iff)
qed simp

declare turn_bisect.simps [simp del]

definition first_turn ::
    "(u512 \<Rightarrow> u512) \<Rightarrow> maker_breakdown \<Rightarrow> sqrt_price \<Rightarrow> bool \<Rightarrow> price option result" where
  "first_turn root2 b own_root up =
     rbind (bracket_turn root2 b own_root up [0..<17] (mb_mark b)) (\<lambda>(healthy, turned).
     case turned of
       None \<Rightarrow> Inr None
     | Some t \<Rightarrow> result_map (\<lambda>x. Some (Price x))
         (turn_bisect (\<lambda>p. rbind (sqrt_price_try_from root2 p) (liquidatable b own_root p))
            (price_x96 healthy) (price_x96 t)))"

definition maker_liquidation_prices :: "(u512 \<Rightarrow> u512) \<Rightarrow> maker_breakdown \<Rightarrow> liquidation_prices result" where
  "maker_liquidation_prices root2 b =
     rbind (maker_is_liquidatable b) (\<lambda>now.
     if now then Inr \<lparr>lp_mark = mb_mark b, lp_below = Some (mb_mark b), lp_above = Some (mb_mark b)\<rparr>
     else rbind (sqrt_price_try_from root2 (mb_mark b)) (\<lambda>own.
       rbind (first_turn root2 b own False) (\<lambda>below.
       rbind (first_turn root2 b own True) (\<lambda>above.
       Inr \<lparr>lp_mark = mb_mark b, lp_below = below, lp_above = above\<rparr>))))"

subsection \<open>The code: the accrual replay\<close>

definition accrue_side ::
    "accrual_inputs \<Rightarrow> u256 \<Rightarrow> side \<Rightarrow> earnings per_side \<Rightarrow> earnings per_side result" where
  "accrue_side a dt_days_mult_mark s es =
     (let capacity = on (ai_capacity a) s in
      if perp capacity = 0 then Inr es
      else
        rbind (mul_div (ucast (utilization_wad (on (ai_util_fee_per_day a) s))) dt_days_mult_mark WAD TowardZero) (\<lambda>acc.
        rbind (mul_div acc (ucast (perp (on (ai_open_interest a) s))) (ucast (perp capacity)) TowardZero) (\<lambda>growth.
        rbind (earnings_advanced_by (on es s) (Earnings growth)) (\<lambda>e.
        Inr (set_on s e es)))))"

definition maker_accrued :: "maker_market \<Rightarrow> accrual_inputs \<Rightarrow> maker_market result" where
  "maker_accrued m a =
     (if ai_accrue_to a < ai_last_touch a then Inl InvalidConfig
      else let dt = ai_accrue_to a - ai_last_touch a in
        if dt = 0 then Inr m
        else
          rbind (mul_div (ucast dt) Q96 (ucast INTERVAL) TowardZero) (\<lambda>dt_days.
          rbind (to_i256 dt_days) (\<lambda>days.
          rbind (s_full_mul_div (scast (funding_wad (ai_funding_per_day a))) days WAD TowardZero) (\<lambda>f.
          let funding_accrued = Funding f in
          rbind (funding_advanced_by (mm_funding m) funding_accrued) (\<lambda>funding.
          rbind (per_sqrt_price funding_accrued (mm_sqrt_price m)) (\<lambda>div_growth.
          rbind (fps_advanced_by (mm_funding_div_sqrt_p m) div_growth) (\<lambda>div_sqrt.
          rbind (mul_div dt_days (price_x96 (mm_mark m)) Q96 TowardZero) (\<lambda>dt_mark.
          rbind (accrue_side a dt_mark Long (mm_util_earnings m)) (\<lambda>es.
          rbind (accrue_side a dt_mark Short es) (\<lambda>es.
          Inr (m\<lparr>mm_funding := funding, mm_funding_div_sqrt_p := div_sqrt, mm_util_earnings := es\<rparr>)))))))))))"

text \<open>\<open>AccruedMakerSnapshot\<close> is a wrapper: a market that \<open>maker_accrued\<close> returned.\<close>

definition with_mark :: "maker_market \<Rightarrow> price \<Rightarrow> maker_market" where
  "with_mark m mark = m\<lparr>mm_mark := mark\<rparr>"

definition tick_side :: "maker_market \<Rightarrow> i32 \<Rightarrow> tick_funding \<Rightarrow> (funding \<times> funding_per_sqrt) result" where
  "tick_side m tick f =
     (if tick \<le> mm_tick m then Inr (tf_cuml_funding_opp f, tf_cuml_funding_div_sqrt_p_opp f)
      else rbind (funding_since (mm_funding m) (tf_cuml_funding_opp f)) (\<lambda>a.
           rbind (fps_since (mm_funding_div_sqrt_p m) (tf_cuml_funding_div_sqrt_p_opp f)) (\<lambda>b.
           Inr (a, b))))"

definition maker_cuml_funding :: "maker_market \<Rightarrow> maker_state \<Rightarrow> (funding \<times> funding \<times> funding_per_sqrt) result" where
  "maker_cuml_funding m s =
     rbind (tick_side m (ms_tick_lower s) (ms_tick_lower_funding s)) (\<lambda>(below, div_below_lower).
     rbind (tick_side m (ms_tick_upper s) (ms_tick_upper_funding s)) (\<lambda>(below_upper, div_below_upper).
     rbind (funding_since below_upper below) (\<lambda>within_band.
     rbind (fps_since div_below_upper div_below_lower) (\<lambda>div_within.
     Inr (below, within_band, div_within)))))"

definition fee_growth_inside1 :: "fee_growth \<Rightarrow> fee_growth \<Rightarrow> fee_growth \<Rightarrow> i32 \<Rightarrow> i32 \<Rightarrow> i32 \<Rightarrow> fee_growth" where
  "fee_growth_inside1 growth outside_lower outside_upper tick_lower tick_upper current_tick =
     (let below = (if tick_lower \<le> current_tick then outside_lower else fee_since growth outside_lower);
          above = (if current_tick < tick_upper then outside_upper else fee_since growth outside_upper)
      in fee_since (fee_since growth below) above)"

subsection \<open>The code: the settle preview\<close>

text \<open>\<open>makerFeesAccrued\<close>: the three legs of accrued funding.\<close>

definition maker_funding :: "maker_market \<Rightarrow> maker_state \<Rightarrow> sqrt_price \<Rightarrow> sqrt_price \<Rightarrow>
    (funding \<times> funding \<times> funding_per_sqrt) \<Rightarrow> i256 result" where
  "maker_funding m s sqrt_l sqrt_u mf =
     (case mf of (mf_below, mf_within, mf_div_sqrt_within) \<Rightarrow>
        rbind (funding_since (mm_funding m) (ms_last_cuml_funding s)) (\<lambda>d.
        rbind (s_full_mul_div (scast (perp_d (ms_delta_perp s))) (funding_x96 d) Q96 Up) (\<lambda>base_funding.
        rbind (amount0_delta (sqrt_x96 sqrt_l) (sqrt_x96 sqrt_u) (l_units (ms_liquidity s)) TowardZero) (\<lambda>amt.
        rbind (to_i256 amt) (\<lambda>perp_below.
        rbind (funding_since mf_below (ms_last_below s)) (\<lambda>d_below.
        rbind (s_full_mul_div perp_below (funding_x96 d_below) Q96 Up) (\<lambda>funding_below.
        rbind (fps_since mf_div_sqrt_within (ms_last_div_sqrt_within s)) (\<lambda>div_amm.
        rbind (funding_since mf_within (ms_last_within s)) (\<lambda>d_within.
        rbind (per_sqrt_price d_within sqrt_u) (\<lambda>div_upper.
        rbind (sub_i (fps_x96 div_amm) (fps_x96 div_upper)) (\<lambda>components.
        rbind (s_full_mul_div (ucast (l_units (ms_liquidity s))) components Q96 Up) (\<lambda>funding_within.
        rbind (add_i base_funding funding_below) (\<lambda>f.
        add_i f funding_within)))))))))))))"

definition maker_util :: "maker_market \<Rightarrow> maker_state \<Rightarrow> side \<Rightarrow> u256 result" where
  "maker_util m s d =
     rbind (earnings_since (on (mm_util_earnings m) d) (on (ms_last_util_earnings s) d)) (\<lambda>growth.
     mul_div (ucast (perp (on (ms_capacity s) d))) (earnings_x96 growth) Q96 TowardZero)"

definition maker_lp_fees :: "maker_state \<Rightarrow> u256 result" where
  "maker_lp_fees s =
     (let d = fee_since (ms_fee_growth_inside1 s) (ms_fee_growth_inside1_last s) in
      u512_to_u256 (drop_bit 128 (ucast (l_units (ms_liquidity s)) * ucast (fee_x128 d))))"

definition settle_delta :: "i256 \<Rightarrow> usdc_delta result" where
  "settle_delta v = result_map UsdcDelta (settle_atoms v)"

definition maker_equity :: "maker_market \<Rightarrow> maker_state \<Rightarrow> maker_breakdown result" where
  "maker_equity m s =
     (if ms_tick_upper s \<le> ms_tick_lower s then Inl (InvalidTickRange (ms_tick_lower s) (ms_tick_upper s))
      else
        rbind (get_sqrt_ratio_at_tick (ms_tick_lower s)) (\<lambda>sqrt_l.
        rbind (get_sqrt_ratio_at_tick (ms_tick_upper s)) (\<lambda>sqrt_u.
        rbind (maker_cuml_funding m s) (\<lambda>mf.
        rbind (maker_funding m s sqrt_l sqrt_u mf) (\<lambda>funding.
        rbind (maker_util m s Long) (\<lambda>ul.
        rbind (maker_util m s Short) (\<lambda>us.
        rbind (maker_lp_fees s) (\<lambda>fees.
        let x = \<lparr>ex_sqrt_lower = sqrt_l, ex_sqrt_upper = sqrt_u, ex_liquidity = ms_liquidity s,
                 ex_delta_perp = ms_delta_perp s, ex_delta_usd = ms_delta_usd s\<rparr> in
        rbind (valued_atoms x (mm_sqrt_price m) (mm_mark m)) (\<lambda>(v, u).
        rbind (rbind (to_i256 (ucast (usdc (ms_margin s)))) settle_delta) (\<lambda>margin.
        rbind (settle_delta funding) (\<lambda>funding.
        rbind (rbind (to_i256 ul) settle_delta) (\<lambda>ul.
        rbind (rbind (to_i256 us) settle_delta) (\<lambda>us.
        rbind (rbind (to_i256 fees) settle_delta) (\<lambda>fees.
        Inr \<lparr>mb_margin = margin, mb_funding_owed = funding, mb_util_earnings = PerSide ul us,
             mb_lp_fees = fees, mb_unrealized_pnl = u, mb_position_value = v,
             mb_liquidation_margin_ratio = ms_liquidation_margin_ratio s, mb_mark = mm_mark m,
             mb_sqrt_price = mm_sqrt_price m, mb_exposure = x, mb_capacity = ms_capacity s,
             mb_block = mm_block m\<rparr>))))))))))))))"

subsection \<open>The bound on a component\<close>

definition component_ok :: "usdc_delta \<Rightarrow> bool" where
  "component_ok d \<longleftrightarrow> \<bar>sint (usdc_d d)\<bar> < 2 ^ 120"

definition breakdown_ok :: "maker_breakdown \<Rightarrow> bool" where
  "breakdown_ok b \<longleftrightarrow> component_ok (mb_margin b) \<and> component_ok (mb_funding_owed b)
     \<and> component_ok (long (mb_util_earnings b)) \<and> component_ok (short (mb_util_earnings b))
     \<and> component_ok (mb_lp_fees b) \<and> component_ok (mb_unrealized_pnl b)
     \<and> uint (usdc (mb_position_value b)) < 2 ^ 120"

lemma uint_MAX_COMPONENT_ATOMS [simp]: "uint MAX_COMPONENT_ATOMS = 2 ^ 120 - 1"
  by (simp add: MAX_COMPONENT_ATOMS_def)

lemma settle_atoms_Inr [result_simps]:
  "settle_atoms v = Inr a \<longleftrightarrow> sint a = sint v \<and> \<bar>sint v\<bar> < 2 ^ 120"
proof -
  have "settle_atoms v = Inr a \<longleftrightarrow> narrow_s v = Some a \<and> unsigned_abs a \<le> MAX_COMPONENT_ATOMS"
    by (auto simp: settle_atoms_def split: option.splits if_splits)
  then show ?thesis by (auto simp: narrow_s_Some word_le_def uint_unsigned_abs)
qed

lemma settle_delta_Inr [result_simps]:
  "settle_delta v = Inr d \<longleftrightarrow> sint (usdc_d d) = sint v \<and> component_ok d"
  by (cases d) (auto simp: settle_delta_def result_simps component_ok_def)

lemma bounded_Inr [result_simps]: "bounded v = Inr w \<longleftrightarrow> w = v \<and> component_ok v"
  by (auto simp: bounded_def word_le_def usdc_magnitude_def uint_unsigned_abs component_ok_def)

lemma valued_atoms_bounds:
  assumes "valued_atoms x sp mark = Inr (v, u)"
  shows "uint (usdc v) < 2 ^ 120" "component_ok u"
  using assms by (auto simp: valued_atoms_def result_simps component_ok_def uint_unsigned_abs)

lemma maker_equity_parts:
  assumes "maker_equity m s = Inr b"
  obtains ul us fees f sl su mf where "ms_tick_lower s < ms_tick_upper s"
    "get_sqrt_ratio_at_tick (ms_tick_lower s) = Inr sl" "get_sqrt_ratio_at_tick (ms_tick_upper s) = Inr su"
    "maker_cuml_funding m s = Inr mf" "maker_funding m s sl su mf = Inr f"
    "maker_util m s Long = Inr ul" "maker_util m s Short = Inr us" "maker_lp_fees s = Inr fees"
    "mb_exposure b = \<lparr>ex_sqrt_lower = sl, ex_sqrt_upper = su, ex_liquidity = ms_liquidity s,
       ex_delta_perp = ms_delta_perp s, ex_delta_usd = ms_delta_usd s\<rparr>"
    "mb_sqrt_price b = mm_sqrt_price m" "mb_mark b = mm_mark m" "mb_block b = mm_block m" "mb_capacity b = ms_capacity s"
    "valued_atoms (mb_exposure b) (mb_sqrt_price b) (mb_mark b) = Inr (mb_position_value b, mb_unrealized_pnl b)"
    "sint (usdc_d (mb_margin b)) = uint (usdc (ms_margin s))" "component_ok (mb_margin b)"
    "sint (usdc_d (mb_funding_owed b)) = sint f" "component_ok (mb_funding_owed b)"
    "sint (usdc_d (long (mb_util_earnings b))) = uint ul" "component_ok (long (mb_util_earnings b))"
    "sint (usdc_d (short (mb_util_earnings b))) = uint us" "component_ok (short (mb_util_earnings b))"
    "sint (usdc_d (mb_lp_fees b)) = uint fees" "component_ok (mb_lp_fees b)"
proof -
  have pos: "sint v = uint v" if "uint v < 2 ^ 255" for v :: i256 using that by (simp add: sint_cases)
  show thesis using assms
    by (auto simp: maker_equity_def Let_def rbind_eq_Inr to_i256_Inr settle_delta_Inr pos not_le split: if_splits
        intro!: that)
qed

lemma maker_equity_ok:
  assumes "maker_equity m s = Inr b"
  shows "breakdown_ok b"
  using maker_equity_parts[OF assms] valued_atoms_bounds unfolding breakdown_ok_def by metis

lemma breakdown_try_from_Inr [result_simps]:
  "breakdown_try_from raw = Inr b \<longleftrightarrow> b = raw
     \<and> valued_atoms (mb_exposure raw) (mb_sqrt_price raw) (mb_mark raw) = Inr (mb_position_value raw, mb_unrealized_pnl raw)
     \<and> component_ok (mb_margin raw) \<and> component_ok (mb_funding_owed raw) \<and> component_ok (mb_lp_fees raw)
     \<and> component_ok (long (mb_util_earnings raw)) \<and> component_ok (short (mb_util_earnings raw))"
  by (cases "valued_atoms (mb_exposure raw) (mb_sqrt_price raw) (mb_mark raw)")
    (auto simp: breakdown_try_from_def rbind_eq_Inr bounded_Inr split: if_splits)

text \<open>Sums of bounded components stay exact: six terms under \<open>2 ^ 120\<close> fit \<open>i128\<close>.\<close>

lemma breakdown_sums:
  assumes "breakdown_ok b"
  shows "sint (usdc_d (maker_settled_margin b)) = sint (usdc_d (mb_margin b)) - sint (usdc_d (mb_funding_owed b))
      + (sint (usdc_d (long (mb_util_earnings b))) + sint (usdc_d (short (mb_util_earnings b)))) + sint (usdc_d (mb_lp_fees b))"
    and "sint (usdc_d (maker_equity_of b)) = sint (usdc_d (maker_settled_margin b)) + sint (usdc_d (mb_unrealized_pnl b))"
    and "sint (usdc_d (accrued_income b)) = sint (usdc_d (long (mb_util_earnings b))) + sint (usdc_d (short (mb_util_earnings b)))
      + sint (usdc_d (mb_lp_fees b)) - sint (usdc_d (mb_funding_owed b))"
    and "\<bar>sint (usdc_d (maker_settled_margin b))\<bar> < 5 * 2 ^ 120"
proof -
  define m f l s e u where "m = usdc_d (mb_margin b)" and "f = usdc_d (mb_funding_owed b)"
    and "l = usdc_d (long (mb_util_earnings b))" and "s = usdc_d (short (mb_util_earnings b))"
    and "e = usdc_d (mb_lp_fees b)" and "u = usdc_d (mb_unrealized_pnl b)"
  note parts = m_def f_def l_def s_def e_def u_def
  have sm: "\<bar>sint m\<bar> < 2 ^ 120" "\<bar>sint f\<bar> < 2 ^ 120" "\<bar>sint l\<bar> < 2 ^ 120" "\<bar>sint s\<bar> < 2 ^ 120"
    "\<bar>sint e\<bar> < 2 ^ 120" "\<bar>sint u\<bar> < 2 ^ 120"
    using assms by (simp_all add: breakdown_ok_def component_ok_def parts)
  have fits: "in_signed LENGTH(128) x" if "\<bar>x\<bar> < 7 * 2 ^ 120" for x :: int using that by (auto simp: in_signed_def)
  have ls: "sint (l + s) = sint l + sint s" using sm by (intro sint_add_exact fits) simp
  have mf: "sint (m - f) = sint m - sint f" using sm by (intro sint_sub_exact fits) simp
  have mfls: "sint (m - f + (l + s)) = sint m - sint f + (sint l + sint s)"
    unfolding ls[symmetric] mf[symmetric] by (intro sint_add_exact fits) (unfold ls mf, use sm in linarith)
  have set: "sint (m - f + (l + s) + e) = sint m - sint f + (sint l + sint s) + sint e"
    unfolding mfls[symmetric] by (intro sint_add_exact fits) (unfold mfls, use sm in linarith)
  have eq: "sint (m - f + (l + s) + e + u) = sint (m - f + (l + s) + e) + sint u"
    using sm set by (intro sint_add_exact fits) simp
  have lse: "sint (l + s + e) = sint l + sint s + sint e"
    unfolding ls[symmetric] by (intro sint_add_exact fits) (unfold ls, use sm in linarith)
  have inc: "sint (l + s + e - f) = sint l + sint s + sint e - sint f"
    unfolding lse[symmetric] by (intro sint_sub_exact fits) (unfold lse, use sm in linarith)
  show "sint (usdc_d (maker_settled_margin b)) = sint (usdc_d (mb_margin b)) - sint (usdc_d (mb_funding_owed b))
      + (sint (usdc_d (long (mb_util_earnings b))) + sint (usdc_d (short (mb_util_earnings b)))) + sint (usdc_d (mb_lp_fees b))"
    using set by (simp add: maker_settled_margin_def total_def parts)
  show "\<bar>sint (usdc_d (maker_settled_margin b))\<bar> < 5 * 2 ^ 120"
    using set sm by (simp add: maker_settled_margin_def total_def flip: parts)
  show "sint (usdc_d (maker_equity_of b)) = sint (usdc_d (maker_settled_margin b)) + sint (usdc_d (mb_unrealized_pnl b))"
    using eq by (simp add: maker_equity_of_def maker_settled_margin_def total_def parts)
  show "sint (usdc_d (accrued_income b)) = sint (usdc_d (long (mb_util_earnings b))) + sint (usdc_d (short (mb_util_earnings b)))
      + sint (usdc_d (mb_lp_fees b)) - sint (usdc_d (mb_funding_owed b))"
    using inc by (simp add: accrued_income_def total_def parts)
qed

subsection \<open>Along a shock\<close>

text \<open>A breakdown that reproduces its own value and PnL, as construction and deserialization require.\<close>

definition self_valued :: "maker_breakdown \<Rightarrow> bool" where
  "self_valued b \<longleftrightarrow>
     valued_atoms (mb_exposure b) (mb_sqrt_price b) (mb_mark b) = Inr (mb_position_value b, mb_unrealized_pnl b)"

lemma maker_equity_self_valued: "maker_equity m s = Inr b \<Longrightarrow> self_valued b"
  using maker_equity_parts[of m s b] unfolding self_valued_def by metis

lemma sqrt_price_nonzero:
  assumes "sqrt_price_try_from root2 p = Inr r"
  shows "sqrt_x96 r \<noteq> 0"
proof
  assume z: "sqrt_x96 r = 0"
  let ?w = "root2 (ucast (price_x96 p) * ucast Q96)"
  have b: "ucast MIN_SQRT_PRICE_X96 \<le> ?w" "?w \<le> ucast MAX_SQRT_PRICE_X96" "r = SqrtPrice (ucast ?w)"
    using assms by (auto simp: sqrt_price_try_from_def Let_def not_less split: if_splits)
  have "uint (ucast MAX_SQRT_PRICE_X96 :: u512) < 2 ^ 256" by (simp add: MAX_SQRT_PRICE_X96_def)
  then have "uint ?w < 2 ^ LENGTH(256)" using b(2) by (simp add: word_le_def)
  then have "uint (sqrt_x96 r) = uint ?w" using b(3) by (simp add: uint_ucast_exact)
  moreover have "0 < uint (ucast MIN_SQRT_PRICE_X96 :: u512)" by (simp add: MIN_SQRT_PRICE_X96_def)
  ultimately show False using b(1) z by (simp add: word_le_def)
qed

lemma shock_at_own_mark:
  assumes "sqrt_x96 r \<noteq> 0" "self_valued b"
  shows "shock_valued b r (mb_mark b) r = Inr (mb_position_value b, mb_unrealized_pnl b)"
proof -
  have "mul_div (sqrt_x96 (mb_sqrt_price b)) (sqrt_x96 r) (sqrt_x96 r) TowardZero = Inr (sqrt_x96 (mb_sqrt_price b))"
    using assms(1) by (simp add: mul_div_Inr uint_zero_iff)
  then show ?thesis using assms(2) by (simp add: shock_valued_def self_valued_def)
qed

lemma liquidatable_at_own_mark:
  assumes "sqrt_x96 r \<noteq> 0" "self_valued b"
  shows "liquidatable b r (mb_mark b) r = maker_is_liquidatable b"
  using shock_at_own_mark[OF assms]
  by (simp add: liquidatable_def maker_is_liquidatable_def maker_equity_of_def)

subsection \<open>The search outward\<close>

text \<open>The test the search runs: the mark's root, then the contract's test.\<close>

definition shock_test :: "(u512 \<Rightarrow> u512) \<Rightarrow> maker_breakdown \<Rightarrow> sqrt_price \<Rightarrow> price \<Rightarrow> bool result" where
  "shock_test root2 b own p = rbind (sqrt_price_try_from root2 p) (liquidatable b own p)"

definition beyond :: "bool \<Rightarrow> price \<Rightarrow> price \<Rightarrow> bool" where
  "beyond up a p \<longleftrightarrow> (if up then price_x96 a \<le> price_x96 p else price_x96 p \<le> price_x96 a)"

lemma step_factor:
  assumes "k < 17"
  shows "uint (ucast (512 + push_bit k 1 :: u32) :: u256) = 512 + 2 ^ k"
proof -
  have k: "(2 :: int) ^ k \<le> 2 ^ 16" using assms by (intro power_increasing) simp_all
  have "take_bit LENGTH(32) (push_bit k 1 :: int) = 2 ^ k" using k assms
    by (simp add: push_bit_eq_mult take_bit_int_eq_self)
  then have pb: "uint (push_bit k 1 :: u32) = 2 ^ k" unfolding unsigned_push_bit_eq unsigned_1 .
  show ?thesis using k pb by (simp add: uint_add_exact)
qed

lemma stepped_Inr:
  assumes "k < 17"
  shows "stepped m k up = Inr p \<longleftrightarrow> uint (price_x96 p)
    = (if up then uint (price_x96 m) * (512 + 2 ^ k) div 512 else uint (price_x96 m) * 512 div (512 + 2 ^ k))"
proof -
  let ?f = "ucast (512 + push_bit k 1 :: u32) :: u256"
  have f: "uint ?f = 512 + 2 ^ k" by (rule step_factor[OF assms])
  have "0 < uint ?f" unfolding f by (simp add: add_pos_nonneg)
  then have nz: "?f \<noteq> 0" by (rule uint_pos_iff[THEN iffD1])
  have "(\<exists>x. P x \<and> p = Price x) \<longleftrightarrow> P (price_x96 p)" for P by (metis price.exhaust_sel price.sel)
  then show ?thesis unfolding stepped_def Let_def result_map_eq_Inr
    by (cases up) (simp_all only: if_True if_False mul_div_Inr f rdiv_simps nz not_False_eq_True simp_thms, simp_all)
qed

text \<open>Each step lies further from the mark than those before it.\<close>

lemma stepped_beyond:
  assumes "stepped m k up = Inr p" "k < 17"
  shows "beyond up m p"
proof (cases up)
  case True
  have "uint (price_x96 m) * 512 \<le> uint (price_x96 m) * (512 + 2 ^ k)" by (rule mult_left_mono) simp_all
  then have "uint (price_x96 m) \<le> uint (price_x96 m) * (512 + 2 ^ k) div 512" by (subst fdiv_ge_iff) simp_all
  then show ?thesis using assms(1) True by (simp add: stepped_Inr[OF assms(2)] beyond_def word_le_def)
next
  case False
  have "uint (price_x96 m) * 512 div (512 + 2 ^ k) \<le> uint (price_x96 m) * (512 + 2 ^ k) div (512 + 2 ^ k)"
    by (intro zdiv_mono1 mult_left_mono) (simp_all add: add_pos_nonneg)
  moreover have "(512 + 2 ^ k :: int) \<noteq> 0" using zero_less_power[of "2 :: int" k] by linarith
  ultimately show ?thesis using assms(1) False by (simp add: stepped_Inr[OF assms(2)] beyond_def word_le_def)
qed

lemma stepped_outward:
  assumes "stepped m j up = Inr p" "stepped m k up = Inr q" "j \<le> k" "k < 17"
  shows "beyond up p q"
proof -
  have jk: "(512 + 2 ^ j :: int) \<le> 512 + 2 ^ k" using assms(3) by (simp add: power_increasing)
  have j: "j < 17" using assms(3,4) by simp
  have pos: "(0 :: int) < 512 + 2 ^ j" by (simp add: add_pos_nonneg)
  show ?thesis
  proof (cases up)
    case True
    have "uint (price_x96 m) * (512 + 2 ^ j) div 512 \<le> uint (price_x96 m) * (512 + 2 ^ k) div 512"
      by (intro zdiv_mono1 mult_left_mono jk) simp_all
    then show ?thesis using assms(1,2) True by (simp add: stepped_Inr[OF j] stepped_Inr[OF assms(4)] beyond_def word_le_def)
  next
    case False
    have "uint (price_x96 m) * 512 div (512 + 2 ^ k) \<le> uint (price_x96 m) * 512 div (512 + 2 ^ j)"
      by (rule zdiv_mono2[OF _ pos jk]) simp
    then show ?thesis using assms(1,2) False by (simp add: stepped_Inr[OF j] stepped_Inr[OF assms(4)] beyond_def word_le_def)
  qed
qed

lemma bracket_turn_ends:
  assumes "bracket_turn root2 b own up ks h = Inr (healthy, Some t)" "set ks \<subseteq> {..<17}" "sorted ks"
    and "\<And>k q. k \<in> set ks \<Longrightarrow> stepped (mb_mark b) k up = Inr q \<Longrightarrow> beyond up h q"
    and "shock_test root2 b own h = Inr False" "beyond up (mb_mark b) h"
  shows "shock_test root2 b own healthy = Inr False \<and> shock_test root2 b own t = Inr True
    \<and> beyond up (mb_mark b) healthy \<and> beyond up healthy t"
  using assms
proof (induction ks arbitrary: h)
  case (Cons k ks)
  obtain price where p: "stepped (mb_mark b) k up = Inr price" using Cons.prems(1) by (auto simp: rbind_eq_Inr)
  then have bey: "beyond up (mb_mark b) price" using Cons.prems(2) by (intro stepped_beyond) auto
  obtain r where r: "sqrt_price_try_from root2 price = Inr r"
    using Cons.prems(1) p by (auto simp: rbind_eq_Inr split: sum.splits)
  obtain l where l: "liquidatable b own price r = Inr l"
    using Cons.prems(1) p r by (auto simp: rbind_eq_Inr)
  have test: "shock_test root2 b own price = Inr l" using r l by (simp add: shock_test_def)
  show ?case
  proof (cases l)
    case True
    then show ?thesis using Cons.prems(1,5,6) Cons.prems(4)[OF _ p] p r l test by auto
  next
    case False
    have "beyond up price q" if "j \<in> set ks" "stepped (mb_mark b) j up = Inr q" for j q
      using that Cons.prems(2,3) by (intro stepped_outward[OF p that(2)]) auto
    then show ?thesis using Cons.prems(1-3) p r l test bey False by (intro Cons.IH[of price]) simp_all
  qed
qed simp

text \<open>The bisection keeps one end healthy and the other not, and ends with them adjacent: the atom before the one it returns, on
  the way from the healthy end, still passes.\<close>

lemma turn_bisect_edge:
  assumes "turn_bisect test h t = Inr p" "test (Price h) = Inr False" "test (Price t) = Inr True"
    and "if up then uint h \<le> uint t else uint t \<le> uint h"
  shows "test (Price p) = Inr True \<and> (if up then test (Price (p - 1)) = Inr False \<and> uint h < uint p \<and> uint p \<le> uint t
    else test (Price (p + 1)) = Inr False \<and> uint t \<le> uint p \<and> uint p < uint h)"
  using assms
proof (induction test h t rule: turn_bisect.induct)
  case (1 test h t)
  let ?mid = "min h t + abs_diff h t div 2"
  show ?case
  proof (cases "1 < abs_diff h t")
    case True
    have mid: "if up then uint h < uint ?mid \<and> uint ?mid < uint t else uint t < uint ?mid \<and> uint ?mid < uint h"
      using mid_between[OF True] "1.prems"(4) by (auto split: if_splits)
    obtain l where l: "test (Price ?mid) = Inr l"
      using "1.prems"(1) True by (subst (asm) turn_bisect.simps) (auto simp: Let_def split: sum.splits)
    show ?thesis
    proof (cases l)
      case True
      have "turn_bisect test h ?mid = Inr p" using "1.prems"(1) l True \<open>1 < abs_diff h t\<close>
        by (subst (asm) turn_bisect.simps) (simp add: Let_def)
      then show ?thesis using "1.IH"(1)[OF \<open>1 < abs_diff h t\<close> refl l] l True "1.prems"(2) mid by (auto split: if_splits)
    next
      case False
      have "turn_bisect test ?mid t = Inr p" using "1.prems"(1) l False \<open>1 < abs_diff h t\<close>
        by (subst (asm) turn_bisect.simps) (simp add: Let_def)
      then show ?thesis using "1.IH"(2)[OF \<open>1 < abs_diff h t\<close> refl l] l False "1.prems"(3) mid by (auto split: if_splits)
    qed
  next
    case False
    then have p: "p = t" using "1.prems"(1) by (subst (asm) turn_bisect.simps) simp
    have "\<bar>uint h - uint t\<bar> \<le> 1" using False by (simp add: word_less_def uint_abs_diff)
    moreover have "h \<noteq> t" using "1.prems" by auto
    then have "uint h \<noteq> uint t" using word_eq_uintI by blast
    ultimately have d: "if up then uint t = uint h + 1 else uint h = uint t + 1"
      using "1.prems"(4) by (auto split: if_splits)
    have "t - 1 = h" if up using that d by (intro word_eq_uintI) (simp add: uint_sub_exact)
    moreover have "t + 1 = h" if "\<not> up" using that d uint_below[of h] by (intro word_eq_uintI) (simp add: uint_add_exact)
    ultimately show ?thesis using "1.prems"(2,3) p d by auto
  qed
qed

text \<open>A price the search reports fails, beyond the mark, and one atom back towards the mark the test passes.\<close>

definition before_turn :: "bool \<Rightarrow> price \<Rightarrow> price" where
  "before_turn up p = Price (if up then price_x96 p - 1 else price_x96 p + 1)"

lemma first_turn_edge:
  assumes "first_turn root2 b own up = Inr (Some p)" "shock_test root2 b own (mb_mark b) = Inr False"
  shows "shock_test root2 b own p = Inr True \<and> shock_test root2 b own (before_turn up p) = Inr False
    \<and> (if up then mb_mark b < p else p < mb_mark b)"
proof -
  obtain h t x where o: "bracket_turn root2 b own up [0..<17] (mb_mark b) = Inr (h, Some t)"
    "turn_bisect (shock_test root2 b own) (price_x96 h) (price_x96 t) = Inr x" "p = Price x"
    using assms(1) by (auto simp: first_turn_def shock_test_def[abs_def] rbind_eq_Inr result_simps split: option.splits)
  have "beyond up (mb_mark b) (mb_mark b)" by (simp add: beyond_def)
  then have e: "shock_test root2 b own h = Inr False" "shock_test root2 b own t = Inr True"
    "beyond up (mb_mark b) h" "beyond up h t"
    using bracket_turn_ends[OF o(1) _ _ _ assms(2)] by (auto simp: lessThan_atLeast0 intro: stepped_beyond)
  have "if up then uint (price_x96 h) \<le> uint (price_x96 t) else uint (price_x96 t) \<le> uint (price_x96 h)"
    using e(4) by (simp add: beyond_def word_le_def split: if_splits)
  from turn_bisect_edge[OF o(2) _ _ this] e(1-3) show ?thesis
    unfolding o(3) by (auto simp: beyond_def before_turn_def price_order word_le_def word_less_def split: if_splits)
qed

subsection \<open>The legs as integers\<close>

lemma sint_nonneg_word: "uint (x :: 'a::len word) < 2 ^ (LENGTH('a) - 1) \<Longrightarrow> sint x = uint x"
  by (simp add: sint_cases)

lemma exposure_valued_parts:
  assumes "exposure_valued x sp mark = Inr (v, u)"
  obtains p q where "amounts_for_liquidity sp (ex_sqrt_lower x) (ex_sqrt_upper x) (ex_liquidity x) = Inr (p, q)"
    "uint v = uint (perp p) * uint (price_x96 mark) div 2 ^ 96 + uint (usdc q)"
    "sint u = uint v + (srdiv TowardZero (sint (perp_d (ex_delta_perp x)) * uint (price_x96 mark)) (2 ^ 96)
       + sint (usdc_d (ex_delta_usd x)))"
    "uint (price_x96 mark) < 2 ^ 255"
  using assms
  by (auto simp: exposure_valued_def rbind_eq_Inr mul_div_Inr add_u_Inr s_full_mul_div_Inr add_i_Inr to_i256_Inr sint_nonneg_word
      intro!: that)

lemma valued_atoms_parts:
  assumes "valued_atoms x sp mark = Inr (v, u)"
  obtains p q where "amounts_for_liquidity sp (ex_sqrt_lower x) (ex_sqrt_upper x) (ex_liquidity x) = Inr (p, q)"
    "uint (usdc v) = uint (perp p) * uint (price_x96 mark) div 2 ^ 96 + uint (usdc q)"
    "sint (usdc_d u) = uint (usdc v) + srdiv TowardZero (sint (perp_d (ex_delta_perp x)) * uint (price_x96 mark)) (2 ^ 96)
       + sint (usdc_d (ex_delta_usd x))"
    "uint (price_x96 mark) < 2 ^ 255"
proof -
  obtain w y a b where o: "exposure_valued x sp mark = Inr (w, y)" "uint w < 2 ^ 255" "settle_atoms w = Inr a"
    "settle_atoms y = Inr b" "v = UsdcAtoms (unsigned_abs a)" "u = UsdcDelta b"
    using assms by (auto simp: valued_atoms_def rbind_eq_Inr to_i256_Inr)
  have "sint a = uint w" "sint b = sint y" using o(2-4) by (simp_all add: settle_atoms_Inr sint_nonneg_word)
  then have "uint (usdc v) = uint w" "sint (usdc_d u) = sint y" using o(5,6) by (simp_all add: uint_unsigned_abs)
  then have vu: "uint (usdc v) = uint w" "sint (usdc_d u) = sint y" .
  show thesis by (rule exposure_valued_parts[OF o(1)], rule that) (simp_all add: vu)
qed

lemma maker_util_Inr:
  "maker_util m s d = Inr v \<longleftrightarrow> uint (earnings_x96 (on (ms_last_util_earnings s) d)) \<le> uint (earnings_x96 (on (mm_util_earnings m) d))
     \<and> uint v = uint (perp (on (ms_capacity s) d))
        * (uint (earnings_x96 (on (mm_util_earnings m) d)) - uint (earnings_x96 (on (ms_last_util_earnings s) d))) div 2 ^ 96"
proof -
  let ?c = "uint (earnings_x96 (on (mm_util_earnings m) d))" and ?l = "uint (earnings_x96 (on (ms_last_util_earnings s) d))"
  have "maker_util m s d = Inr v \<longleftrightarrow> (\<exists>g. uint (earnings_x96 g) = ?c - ?l
      \<and> uint v = uint (perp (on (ms_capacity s) d)) * (?c - ?l) div 2 ^ 96)"
    by (auto simp: maker_util_def rbind_eq_Inr earnings_since_Inr mul_div_Inr)
  also have "(\<exists>g. uint (earnings_x96 g) = ?c - ?l) \<longleftrightarrow> ?l \<le> ?c"
  proof
    assume "?l \<le> ?c"
    then have "uint (earnings_x96 (on (mm_util_earnings m) d) - earnings_x96 (on (ms_last_util_earnings s) d)) = ?c - ?l"
      by (rule uint_sub_exact)
    then show "\<exists>g. uint (earnings_x96 g) = ?c - ?l" by (metis earnings.sel)
  next
    assume "\<exists>g. uint (earnings_x96 g) = ?c - ?l"
    then show "?l \<le> ?c" by (metis diff_ge_0_iff_ge uint_ge_0)
  qed
  ultimately show ?thesis by auto
qed

lemma maker_lp_fees_Inr:
  "maker_lp_fees s = Inr v \<longleftrightarrow> uint v = uint (l_units (ms_liquidity s))
     * ((uint (fee_x128 (ms_fee_growth_inside1 s)) - uint (fee_x128 (ms_fee_growth_inside1_last s))) mod 2 ^ 256) div 2 ^ 128"
proof -
  let ?l = "l_units (ms_liquidity s)" and ?d = "fee_x128 (ms_fee_growth_inside1 s) - fee_x128 (ms_fee_growth_inside1_last s)"
  have l: "uint (ucast ?l :: u512) = uint ?l" by (rule uint_ucast_up) simp
  have "uint ?l * uint ?d \<le> 2 ^ 128 * 2 ^ 256" using uint_below[of ?l] uint_below[of ?d] by (intro mult_mono) simp_all
  then have p: "uint ((ucast ?l :: u512) * ucast ?d) = uint ?l * uint ?d" by (subst uint_mult_exact) (simp_all add: l)
  have "maker_lp_fees s = Inr v \<longleftrightarrow> uint ?l * uint ?d div 2 ^ 128 = uint v"
    by (simp add: maker_lp_fees_def Let_def u512_to_u256_Inr fee_since_def uint_drop_bit p)
  moreover have "uint ?d = (uint (fee_x128 (ms_fee_growth_inside1 s)) - uint (fee_x128 (ms_fee_growth_inside1_last s))) mod 2 ^ 256"
    by (simp add: uint_word_ariths)
  ultimately show ?thesis by (simp add: eq_commute)
qed

subsection \<open>The replay as integers\<close>

definition side_growth :: "accrual_inputs \<Rightarrow> int \<Rightarrow> side \<Rightarrow> int" where
  "side_growth a dt_mark s =
     (if perp (on (ai_capacity a) s) = 0 then 0
      else (uint (utilization_wad (on (ai_util_fee_per_day a) s)) * dt_mark div 1000000000000000000)
        * uint (perp (on (ai_open_interest a) s)) div uint (perp (on (ai_capacity a) s)))"

lemma accrue_side_Inr:
  assumes "accrue_side a d s es = Inr es'"
  shows "uint (earnings_x96 (on es' t)) = uint (earnings_x96 (on es t)) + (if t = s then side_growth a (uint d) s else 0)"
proof (cases "perp (on (ai_capacity a) s) = 0")
  case True
  then show ?thesis using assms by (simp add: accrue_side_def side_growth_def)
next
  case False
  then show ?thesis using assms
    by (auto simp: accrue_side_def Let_def rbind_eq_Inr mul_div_Inr earnings_advanced_by_Inr side_growth_def)
qed

lemma side_growth_nonneg: "0 \<le> d \<Longrightarrow> 0 \<le> side_growth a d s"
  by (simp add: side_growth_def pos_imp_zdiv_nonneg_iff uint_pos_iff zero_le_mult_iff)

definition days_x96 :: "accrual_inputs \<Rightarrow> int" where
  "days_x96 a = (uint (ai_accrue_to a) - uint (ai_last_touch a)) * 2 ^ 96 div 86400"

definition funding_growth :: "accrual_inputs \<Rightarrow> int" where
  "funding_growth a = srdiv TowardZero (sint (funding_wad (ai_funding_per_day a)) * days_x96 a) 1000000000000000000"

lemma maker_accrued_Inr:
  assumes "maker_accrued m a = Inr m'" "ai_last_touch a < ai_accrue_to a"
  shows "sint (funding_x96 (mm_funding m')) = sint (funding_x96 (mm_funding m)) + funding_growth a
    \<and> sint (fps_x96 (mm_funding_div_sqrt_p m')) = sint (fps_x96 (mm_funding_div_sqrt_p m))
        + srdiv TowardZero (funding_growth a * 2 ^ 96) (uint (sqrt_x96 (mm_sqrt_price m)))
    \<and> (\<forall>s. uint (earnings_x96 (on (mm_util_earnings m') s)) = uint (earnings_x96 (on (mm_util_earnings m) s))
        + side_growth a (days_x96 a * uint (price_x96 (mm_mark m)) div 2 ^ 96) s)
    \<and> mm_block m' = mm_block m \<and> mm_tick m' = mm_tick m \<and> mm_sqrt_price m' = mm_sqrt_price m \<and> mm_mark m' = mm_mark m"
proof -
  have lt: "uint (ai_last_touch a) < uint (ai_accrue_to a)" using assms(2) by (simp add: word_less_def)
  then have dt: "uint (ai_accrue_to a - ai_last_touch a) = uint (ai_accrue_to a) - uint (ai_last_touch a)"
    by (intro uint_sub_exact) simp
  have dt0: "ai_accrue_to a - ai_last_touch a \<noteq> 0" using dt lt by (metis eq_iff_diff_eq_0 less_irrefl unsigned_0)
  obtain days f g dv dg dm es1 es2 where o:
    "mul_div (ucast (ai_accrue_to a - ai_last_touch a)) Q96 (ucast INTERVAL) TowardZero = Inr days" "uint days < 2 ^ 255"
    "s_full_mul_div (scast (funding_wad (ai_funding_per_day a))) days WAD TowardZero = Inr f"
    "funding_advanced_by (mm_funding m) (Funding f) = Inr g"
    "per_sqrt_price (Funding f) (mm_sqrt_price m) = Inr dv" "fps_advanced_by (mm_funding_div_sqrt_p m) dv = Inr dg"
    "mul_div days (price_x96 (mm_mark m)) Q96 TowardZero = Inr dm"
    "accrue_side a dm Long (mm_util_earnings m) = Inr es1" "accrue_side a dm Short es1 = Inr es2"
    "m' = m\<lparr>mm_funding := g, mm_funding_div_sqrt_p := dg, mm_util_earnings := es2\<rparr>"
    using assms dt0 by (auto simp: maker_accrued_def Let_def rbind_eq_Inr to_i256_Inr split: if_splits)
  have days: "uint days = days_x96 a" using o(1) by (simp add: mul_div_Inr dt days_x96_def INTERVAL_def)
  then have f: "sint f = funding_growth a" using o(2,3) by (simp add: s_full_mul_div_Inr funding_growth_def sint_nonneg_word)
  have dm: "uint dm = days_x96 a * uint (price_x96 (mm_mark m)) div 2 ^ 96" using o(7) days by (simp add: mul_div_Inr)
  have es: "uint (earnings_x96 (on es2 s)) = uint (earnings_x96 (on (mm_util_earnings m) s)) + side_growth a (uint dm) s" for s
    using accrue_side_Inr[OF o(8), of s] accrue_side_Inr[OF o(9), of s] by (cases s) simp_all
  have q: "sint Q96 = 2 ^ 96" by (simp add: Q96_def)
  show ?thesis using o(4-6) f es dm q
    by (auto simp: o(10) funding_advanced_by_Inr fps_advanced_by_Inr per_sqrt_price_def result_map_eq_Inr s_full_mul_div_Inr)
qed

subsection \<open>Properties\<close>

definition sample_maker_market :: maker_market where
  "sample_maker_market = \<lparr>mm_block = \<lparr>block_number = 7, block_hash = 0, block_timestamp = 86400\<rparr>,
     mm_funding = Funding 5, mm_funding_div_sqrt_p = FundingPerSqrtPrice 3,
     mm_util_earnings = PerSide (Earnings 11) (Earnings 13), mm_tick = 0,
     mm_sqrt_price = SqrtPrice (2 ^ 96), mm_mark = Price (2 ^ 96)\<rparr>"

definition sample_accrual :: accrual_inputs where
  "sample_accrual = \<lparr>ai_funding_per_day = FundingRate (- 20000000000000000),
     ai_util_fee_per_day = PerSide (UtilizationRate 10000000000000000) (UtilizationRate 30000000000000000),
     ai_last_touch = 0, ai_accrue_to = 86400,
     ai_open_interest = PerSide (PerpAtoms 500000) (PerpAtoms 700000),
     ai_capacity = PerSide (PerpAtoms 1000000) (PerpAtoms 0)\<rparr>"

definition sample_maker :: maker_state where
  "sample_maker = \<lparr>ms_margin = UsdcAtoms 5000000, ms_liquidation_margin_ratio = Ratio 50000,
     ms_delta_perp = PerpDelta (- 1000), ms_delta_usd = UsdcDelta (- 2000), ms_last_cuml_funding = Funding 5,
     ms_tick_lower = - 30, ms_tick_upper = 30, ms_liquidity = LUnits 1000000,
     ms_last_util_earnings = PerSide (Earnings 11) (Earnings 12), ms_capacity = PerSide (PerpAtoms 1000) (PerpAtoms 1000),
     ms_last_below = Funding 0, ms_last_within = Funding 0, ms_last_div_sqrt_within = FundingPerSqrtPrice 0,
     ms_tick_lower_funding = \<lparr>tf_cuml_funding_opp = Funding 0, tf_cuml_funding_div_sqrt_p_opp = FundingPerSqrtPrice 0\<rparr>,
     ms_tick_upper_funding = \<lparr>tf_cuml_funding_opp = Funding 5, tf_cuml_funding_div_sqrt_p_opp = FundingPerSqrtPrice 3\<rparr>,
     ms_fee_growth_inside1 = FeeGrowth (2 ^ 128), ms_fee_growth_inside1_last = FeeGrowth 0\<rparr>"

lemma sample_bounds:
  "get_sqrt_ratio_at_tick (- 30) = Inr (SqrtPrice 79109415290437042302807587396)"
  "get_sqrt_ratio_at_tick 30 = Inr (SqrtPrice 79347087983666005045280518415)"
  by code_simp+

definition sample_breakdown :: maker_breakdown where
  "sample_breakdown = \<lparr>mb_margin = UsdcDelta 5000000, mb_funding_owed = UsdcDelta 0,
     mb_util_earnings = PerSide (UsdcDelta 0) (UsdcDelta 0), mb_lp_fees = UsdcDelta 1000000,
     mb_unrealized_pnl = UsdcDelta (- 4), mb_position_value = UsdcAtoms 2996,
     mb_liquidation_margin_ratio = Ratio 50000, mb_mark = Price (2 ^ 96), mb_sqrt_price = SqrtPrice (2 ^ 96),
     mb_exposure = \<lparr>ex_sqrt_lower = SqrtPrice 79109415290437042302807587396,
       ex_sqrt_upper = SqrtPrice 79347087983666005045280518415, ex_liquidity = LUnits 1000000,
       ex_delta_perp = PerpDelta (- 1000), ex_delta_usd = UsdcDelta (- 2000)\<rparr>,
     mb_capacity = PerSide (PerpAtoms 1000) (PerpAtoms 1000),
     mb_block = \<lparr>block_number = 7, block_hash = 0, block_timestamp = 86400\<rparr>\<rparr>"

lemma sample_maker_computes: "maker_equity sample_maker_market sample_maker = Inr sample_breakdown"
  by (simp add: maker_equity_def maker_cuml_funding_def tick_side_def maker_funding_def maker_util_def maker_lp_fees_def
        valued_atoms_def exposure_valued_def amounts_for_liquidity_def clamp_def amount0_delta_def amount1_delta_def
        div_rounded_def atoms_from_u256_def settle_delta_def settle_atoms_def u512_to_u256_def fee_since_def word_less_def
        evaluation sample_maker_market_def sample_maker_def sample_breakdown_def Q96_def sample_bounds price_order
        MAX_COMPONENT_ATOMS_def)

lemma sample_accrual_computes: obtains m where "maker_accrued sample_maker_market sample_accrual = Inr m"
proof -
  have "\<not> isl (maker_accrued sample_maker_market sample_accrual)"
    by (simp add: maker_accrued_def accrue_side_def evaluation sample_maker_market_def sample_accrual_def WAD_def Q96_def INTERVAL_def)
  then show thesis using that by (cases "maker_accrued sample_maker_market sample_accrual") simp_all
qed

text \<open>C16: The accrual replay is the contract's: over a positive interval the funding cumulative moves by the daily
  rate times the elapsed days, truncated toward zero, its quotient by the root price by that
  growth's, each side's earnings by the utilization fee on the open interest shared over the
  capacity (nothing where there is no capacity), and nothing else changes.\<close>

theorem accrual_replay_exact:
  assumes "maker_accrued m a = Inr m'" "ai_last_touch a < ai_accrue_to a"
  shows "sint (funding_x96 (mm_funding m')) = sint (funding_x96 (mm_funding m)) + funding_growth a
    \<and> sint (fps_x96 (mm_funding_div_sqrt_p m')) = sint (fps_x96 (mm_funding_div_sqrt_p m))
        + srdiv TowardZero (funding_growth a * 2 ^ 96) (uint (sqrt_x96 (mm_sqrt_price m)))
    \<and> (\<forall>s. uint (earnings_x96 (on (mm_util_earnings m') s)) = uint (earnings_x96 (on (mm_util_earnings m) s))
        + side_growth a (days_x96 a * uint (price_x96 (mm_mark m)) div 2 ^ 96) s)
    \<and> mm_block m' = mm_block m \<and> mm_tick m' = mm_tick m \<and> mm_sqrt_price m' = mm_sqrt_price m \<and> mm_mark m' = mm_mark m"
  by (rule maker_accrued_Inr[OF assms])

theorem accrual_replay_exact_witness:
  "\<exists>m'. maker_accrued sample_maker_market sample_accrual = Inr m'
    \<and> uint (earnings_x96 (short (mm_util_earnings m'))) = 13"
proof -
  obtain m' where m: "maker_accrued sample_maker_market sample_accrual = Inr m'" by (rule sample_accrual_computes)
  have "ai_last_touch sample_accrual < ai_accrue_to sample_accrual" by (simp add: sample_accrual_def)
  from accrual_replay_exact[OF m this] have
    "\<forall>s. uint (earnings_x96 (on (mm_util_earnings m') s)) = uint (earnings_x96 (on (mm_util_earnings sample_maker_market) s))
        + side_growth sample_accrual (days_x96 sample_accrual * uint (price_x96 (mm_mark sample_maker_market)) div 2 ^ 96) s"
    by blast
  from spec[OF this, of Short] show ?thesis using m
    by (simp add: side_growth_def sample_accrual_def sample_maker_market_def)
qed

text \<open>Replaying never moves a utilization cumulative backwards, replaying to the last touch changes nothing, and
  a target before it is refused as an invalid configuration.\<close>

theorem accrual_monotone:
  "(ai_accrue_to a < ai_last_touch a \<longrightarrow> maker_accrued m a = Inl InvalidConfig)
    \<and> (ai_accrue_to a = ai_last_touch a \<longrightarrow> maker_accrued m a = Inr m)
    \<and> (\<forall>m' s. maker_accrued m a = Inr m' \<longrightarrow> earnings_x96 (on (mm_util_earnings m) s) \<le> earnings_x96 (on (mm_util_earnings m') s))"
proof (intro conjI allI impI)
  fix m' s assume r: "maker_accrued m a = Inr m'"
  show "earnings_x96 (on (mm_util_earnings m) s) \<le> earnings_x96 (on (mm_util_earnings m') s)"
  proof (cases "ai_last_touch a < ai_accrue_to a")
    case True
    then have "uint (ai_last_touch a) \<le> uint (ai_accrue_to a)" by (simp add: word_less_def)
    then have "0 \<le> days_x96 a * uint (price_x96 (mm_mark m)) div 2 ^ 96"
      by (simp add: days_x96_def pos_imp_zdiv_nonneg_iff)
    then show ?thesis using maker_accrued_Inr[OF r True] side_growth_nonneg by (simp add: word_le_def)
  next
    case False
    then have "maker_accrued m a = Inr m \<or> maker_accrued m a = Inl InvalidConfig"
      by (cases "ai_accrue_to a = ai_last_touch a") (simp_all add: maker_accrued_def Let_def)
    then show ?thesis using r by auto
  qed
qed (simp_all add: maker_accrued_def Let_def)

theorem accrual_monotone_witness:
  "maker_accrued sample_maker_market (sample_accrual\<lparr>ai_accrue_to := 0\<rparr>) = Inr sample_maker_market"
  using accrual_monotone[of "sample_accrual\<lparr>ai_accrue_to := 0\<rparr>" sample_maker_market] by (simp add: sample_accrual_def)

text \<open>The settle preview of a maker is the contract's: utilization earnings are the capacity times the growth
  since the checkpoint, LP fees the liquidity times the modular fee growth, the position value the
  band's amounts at the mark, the PnL that value plus the signed deposit residual, and the margin is
  the stored one; a checkpoint ahead of the market is never settled.\<close>

theorem maker_preview_legs:
  assumes "maker_equity m s = Inr b"
  shows "(\<forall>d. uint (earnings_x96 (on (ms_last_util_earnings s) d)) \<le> uint (earnings_x96 (on (mm_util_earnings m) d))
      \<and> sint (usdc_d (on (mb_util_earnings b) d)) = uint (perp (on (ms_capacity s) d))
        * (uint (earnings_x96 (on (mm_util_earnings m) d)) - uint (earnings_x96 (on (ms_last_util_earnings s) d))) div 2 ^ 96)
    \<and> sint (usdc_d (mb_lp_fees b)) = uint (l_units (ms_liquidity s))
        * ((uint (fee_x128 (ms_fee_growth_inside1 s)) - uint (fee_x128 (ms_fee_growth_inside1_last s))) mod 2 ^ 256) div 2 ^ 128
    \<and> sint (usdc_d (mb_margin b)) = uint (usdc (ms_margin s))
    \<and> (\<exists>p q. amounts_for_liquidity (mm_sqrt_price m) (ex_sqrt_lower (mb_exposure b)) (ex_sqrt_upper (mb_exposure b)) (ms_liquidity s) = Inr (p, q)
        \<and> uint (usdc (mb_position_value b)) = uint (perp p) * uint (price_x96 (mm_mark m)) div 2 ^ 96 + uint (usdc q)
        \<and> sint (usdc_d (mb_unrealized_pnl b)) = uint (usdc (mb_position_value b))
            + srdiv TowardZero (sint (perp_d (ms_delta_perp s)) * uint (price_x96 (mm_mark m))) (2 ^ 96)
            + sint (usdc_d (ms_delta_usd s)))"
proof (rule maker_equity_parts[OF assms], goal_cases)
  case (1 ul us fees f sl su mf)
  have u: "maker_util m s d = Inr (if d = Long then ul else us)" for d using 1(6,7) by (cases d) simp_all
  have e: "sint (usdc_d (on (mb_util_earnings b) d)) = uint (if d = Long then ul else us)" for d
    using 1(19,21) by (cases d) simp_all
  have "\<exists>p q. amounts_for_liquidity (mm_sqrt_price m) sl su (ms_liquidity s) = Inr (p, q)
        \<and> uint (usdc (mb_position_value b)) = uint (perp p) * uint (price_x96 (mm_mark m)) div 2 ^ 96 + uint (usdc q)
        \<and> sint (usdc_d (mb_unrealized_pnl b)) = uint (usdc (mb_position_value b))
            + srdiv TowardZero (sint (perp_d (ms_delta_perp s)) * uint (price_x96 (mm_mark m))) (2 ^ 96)
            + sint (usdc_d (ms_delta_usd s))"
    by (rule valued_atoms_parts[OF 1(14)]) (use 1(9-11) in auto)
  then show ?case using u e 1(8,9,15,23) by (auto simp: maker_util_Inr maker_lp_fees_Inr)
qed

theorem maker_preview_legs_witness:
  "sint (usdc_d (mb_lp_fees sample_breakdown)) = 1000000 \<and> sint (usdc_d (mb_margin sample_breakdown)) = 5000000"
  using maker_preview_legs[OF sample_maker_computes] by (simp add: sample_maker_def)

text \<open>Every component of a preview is bounded by the token supply, so the derived sums (settled margin,
  equity, income) are the exact integers: their \<open>i128\<close> additions never wrap.\<close>

theorem preview_sums_never_overflow:
  assumes "maker_equity m s = Inr b"
  shows "breakdown_ok b
    \<and> sint (usdc_d (maker_equity_of b)) = sint (usdc_d (mb_margin b)) - sint (usdc_d (mb_funding_owed b))
      + sint (usdc_d (long (mb_util_earnings b))) + sint (usdc_d (short (mb_util_earnings b)))
      + sint (usdc_d (mb_lp_fees b)) + sint (usdc_d (mb_unrealized_pnl b))
    \<and> sint (usdc_d (accrued_income b)) = sint (usdc_d (maker_settled_margin b)) - sint (usdc_d (mb_margin b))"
  using breakdown_sums[OF maker_equity_ok[OF assms]] maker_equity_ok[OF assms] by simp

theorem preview_sums_never_overflow_witness: "breakdown_ok sample_breakdown"
  using preview_sums_never_overflow[OF sample_maker_computes] by simp

text \<open>A preview survives serialization: deserializing a computed breakdown returns it unchanged, and whatever
  deserialization accepts is what it was given, within the component bound and reproducing its own
  value and PnL.\<close>

theorem breakdown_round_trip:
  "(\<forall>m s b. maker_equity m s = Inr b \<longrightarrow> breakdown_try_from b = Inr b)
    \<and> (\<forall>raw b. breakdown_try_from raw = Inr b \<longrightarrow> b = raw \<and> breakdown_ok b \<and> self_valued b)"
proof (intro conjI allI impI)
  fix m s b assume b: "maker_equity m s = Inr b"
  show "breakdown_try_from b = Inr b"
    using maker_equity_ok[OF b] maker_equity_self_valued[OF b] by (simp add: breakdown_try_from_Inr breakdown_ok_def self_valued_def)
next
  fix raw b assume r: "breakdown_try_from raw = Inr b"
  then show "b = raw" by (simp add: breakdown_try_from_Inr)
  show "self_valued b" using r by (simp add: breakdown_try_from_Inr self_valued_def)
  then have "uint (usdc (mb_position_value b)) < 2 ^ 120" "component_ok (mb_unrealized_pnl b)"
    unfolding self_valued_def by (fact valued_atoms_bounds)+
  then show "breakdown_ok b" using r by (auto simp: breakdown_try_from_Inr breakdown_ok_def)
qed

theorem breakdown_round_trip_witness: "breakdown_try_from sample_breakdown = Inr sample_breakdown"
  using breakdown_round_trip sample_maker_computes by blast

text \<open>Along a price shock the preview's own mark is a fixed point: revaluing there gives back exactly its value,
  its equity and its liquidation test, whatever root the library computes for the mark.\<close>

theorem shock_fixed_at_own_mark:
  assumes "self_valued b" "sqrt_price_try_from root2 (mb_mark b) = Inr r"
  shows "position_value_at root2 b (mb_mark b) = Inr (mb_position_value b)
    \<and> equity_at root2 b (mb_mark b) = Inr (maker_equity_of b)
    \<and> maker_is_liquidatable_at root2 b (mb_mark b) = maker_is_liquidatable b"
  using shock_at_own_mark[OF sqrt_price_nonzero[OF assms(2)] assms(1)]
    liquidatable_at_own_mark[OF sqrt_price_nonzero[OF assms(2)] assms(1)] assms(2)
  by (simp add: position_value_at_def equity_at_def valued_at_def maker_is_liquidatable_at_def maker_equity_of_def)

text \<open>The witnesses' root: exact on the one price they use.\<close>

lemma unit_root: "sqrt_price_try_from (\<lambda>_. ucast Q96) (Price Q96) = Inr (SqrtPrice Q96)"
  by (simp add: sqrt_price_try_from_def Let_def MIN_SQRT_PRICE_X96_def MAX_SQRT_PRICE_X96_def Q96_def word_less_def)

lemma sample_breakdown_mark: "mb_mark sample_breakdown = Price Q96"
  by (simp add: sample_breakdown_def Q96_def)

theorem shock_fixed_at_own_mark_witness:
  "equity_at (\<lambda>_. ucast Q96) sample_breakdown (mb_mark sample_breakdown) = Inr (maker_equity_of sample_breakdown)"
  using shock_fixed_at_own_mark[OF maker_equity_self_valued[OF sample_maker_computes], of "\<lambda>_. ucast Q96" "SqrtPrice Q96"]
    unit_root by (simp add: sample_breakdown_mark)

end
