(* ===== verification/Maker_Edge.thy ===== *)
theory Maker_Edge
  imports Maker_Equity
begin

text \<open>
  The liquidation prices of a maker (\<open>src/src/math/maker_equity/\<close>, the search of \<open>Maker_Equity\<close>): what a reported price is, and a
  leveraged maker for which the search reports one on either side of the mark. The root it uses there is the integer square root,
  computed digit by digit.
\<close>

subsection \<open>The integer square root\<close>

primrec root_bits :: "nat \<Rightarrow> int \<Rightarrow> int" where
  "root_bits 0 w = 0"
| "root_bits (Suc k) w = (let r = 2 * root_bits k (w div 4) in if (r + 1) * (r + 1) \<le> w then r + 1 else r)"

definition floor_root :: "u512 \<Rightarrow> u512" where
  "floor_root w = word_of_int (root_bits 256 (uint w))"

lemma root_bits_floor:
  "0 \<le> w \<Longrightarrow> w < 4 ^ k \<Longrightarrow>
     0 \<le> root_bits k w \<and> root_bits k w * root_bits k w \<le> w \<and> w < (root_bits k w + 1) * (root_bits k w + 1)"
proof (induction k arbitrary: w)
  case (Suc k)
  define r where "r = root_bits k (w div 4)"
  have "w div 4 < 4 ^ k" using Suc.prems by simp
  then have r: "0 \<le> r" "r * r \<le> w div 4" "w div 4 < (r + 1) * (r + 1)" using Suc.IH[of "w div 4"] Suc.prems by (simp_all add: r_def)
  have "4 * (r * r) \<le> w" using r(2) by linarith
  moreover have "w < 4 * ((r + 1) * (r + 1))" using r(3) by linarith
  ultimately have "2 * r * (2 * r) \<le> w" "w < (2 * r + 2) * (2 * r + 2)" by (simp_all add: algebra_simps)
  moreover have "2 * r + 1 + 1 = 2 * r + 2" by simp
  ultimately show ?case using r(1) by (simp add: r_def[symmetric] Let_def add.commute)
qed simp

lemma floor_root_floor:
  shows "uint (floor_root w) * uint (floor_root w) \<le> uint w" "uint w < (uint (floor_root w) + 1) * (uint (floor_root w) + 1)"
proof -
  let ?r = "root_bits 256 (uint w)"
  have "uint w < 4 ^ 256" using uint_below[of w] by simp
  then have r: "0 \<le> ?r" "?r * ?r \<le> uint w" "uint w < (?r + 1) * (?r + 1)" using root_bits_floor[of "uint w" 256] by simp_all
  have "?r < 2 ^ 512"
  proof (rule ccontr)
    assume "\<not> ?r < 2 ^ 512"
    then have big: "2 ^ 512 \<le> ?r" by simp
    then have "?r * 1 \<le> ?r * ?r" using r(1) by (intro mult_left_mono) simp_all
    then show False using big r(2) uint_below[of w] by simp
  qed
  then have "uint (floor_root w) = ?r" using r(1) by (simp add: floor_root_def uint_word_of_int)
  then show "uint (floor_root w) * uint (floor_root w) \<le> uint w" "uint w < (uint (floor_root w) + 1) * (uint (floor_root w) + 1)"
    using r by simp_all
qed

lemma square_below: "a * a \<le> n \<Longrightarrow> n < (c + 1) * (c + 1) \<Longrightarrow> 0 \<le> c \<Longrightarrow> a \<le> c" for a c n :: int
  using mult_mono[of "c + 1" a "c + 1" a] by linarith

lemma floor_root_price:
  assumes "2 ^ 95 \<le> uint x" "uint x < 2 ^ 97"
  obtains r where "sqrt_price_try_from floor_root (Price x) = Inr (SqrtPrice r)"
    "uint r * uint r \<le> uint x * 2 ^ 96" "uint x * 2 ^ 96 < (uint r + 1) * (uint r + 1)"
proof -
  let ?w = "ucast x * ucast Q96 :: u512"
  let ?r = "floor_root ?w"
  have w: "uint ?w = uint x * 2 ^ 96" using assms(2) by (subst uint_mult_exact) simp_all
  note fl = floor_root_floor[of ?w, unfolded w]
  have hi: "uint ?r \<le> 2 ^ 97" using assms(2) by (intro square_below[OF fl(1)]) simp_all
  have lo: "2 ^ 95 \<le> uint ?r"
    using assms(1) by (intro square_below[of "2 ^ 95", OF _ fl(2)]) simp_all
  have "sqrt_price_try_from floor_root (Price x) = Inr (SqrtPrice (ucast ?r))"
    using lo hi by (simp add: sqrt_price_try_from_def Let_def MIN_SQRT_PRICE_X96_def MAX_SQRT_PRICE_X96_def word_less_def)
  moreover have "uint (ucast ?r :: u256) = uint ?r" using hi by (intro uint_ucast_exact) simp
  ultimately show thesis using that fl by metis
qed

subsection \<open>The property\<close>

text \<open>C21: A liquidation price of a maker is an edge of its test to the atom: on a position that is healthy now, the
  price reported below lies under the mark, the one above over it, the test fails there, and one atom back towards
  the mark it passes.\<close>

theorem maker_price_is_edge:
  assumes "self_valued b" "maker_is_liquidatable b = Inr False" "maker_liquidation_prices root2 b = Inr r"
  shows "lp_mark r = mb_mark b
    \<and> (\<forall>p. lp_below r = Some p \<longrightarrow> p < mb_mark b \<and> maker_is_liquidatable_at root2 b p = Inr True
        \<and> maker_is_liquidatable_at root2 b (Price (price_x96 p + 1)) = Inr False)
    \<and> (\<forall>p. lp_above r = Some p \<longrightarrow> mb_mark b < p \<and> maker_is_liquidatable_at root2 b p = Inr True
        \<and> maker_is_liquidatable_at root2 b (Price (price_x96 p - 1)) = Inr False)"
proof -
  obtain own below above where o: "sqrt_price_try_from root2 (mb_mark b) = Inr own"
    "first_turn root2 b own False = Inr below" "first_turn root2 b own True = Inr above"
    "r = \<lparr>lp_mark = mb_mark b, lp_below = below, lp_above = above\<rparr>"
    using assms(2,3) by (auto simp: maker_liquidation_prices_def rbind_eq_Inr)
  have test: "shock_test root2 b own p = maker_is_liquidatable_at root2 b p" for p
    using o(1) by (simp add: shock_test_def maker_is_liquidatable_at_def)
  have "shock_test root2 b own (mb_mark b) = Inr False"
    using o(1) liquidatable_at_own_mark[OF sqrt_price_nonzero[OF o(1)] assms(1)] assms(2) by (simp add: shock_test_def)
  note edge = first_turn_edge[OF _ this]
  show ?thesis using edge[of False] edge[of True] o(2,3) unfolding o(4) test
    by (simp add: before_turn_def)
qed

subsection \<open>A leveraged maker\<close>

definition leveraged_maker :: maker_state where
  "leveraged_maker = sample_maker\<lparr>ms_margin := UsdcAtoms 51400, ms_tick_lower := - 1, ms_tick_upper := 1,
     ms_liquidity := LUnits 10000000000, ms_delta_perp := PerpDelta (- 500000), ms_delta_usd := UsdcDelta (- 500000),
     ms_fee_growth_inside1 := FeeGrowth 0\<rparr>"

definition leveraged_breakdown :: maker_breakdown where
  "leveraged_breakdown = sample_breakdown\<lparr>mb_margin := UsdcDelta 51400, mb_lp_fees := UsdcDelta 0,
     mb_unrealized_pnl := UsdcDelta (- 76), mb_position_value := UsdcAtoms 999924,
     mb_exposure := \<lparr>ex_sqrt_lower = SqrtPrice 79224201403219477170569942574,
       ex_sqrt_upper = SqrtPrice 79232123823359799118286999568, ex_liquidity = LUnits 10000000000,
       ex_delta_perp = PerpDelta (- 500000), ex_delta_usd = UsdcDelta (- 500000)\<rparr>\<rparr>"

lemma narrow_bounds:
  "get_sqrt_ratio_at_tick (- 1) = Inr (SqrtPrice 79224201403219477170569942574)"
  "get_sqrt_ratio_at_tick 1 = Inr (SqrtPrice 79232123823359799118286999568)"
  by code_simp+

lemma leveraged_maker_computes: "maker_equity sample_maker_market leveraged_maker = Inr leveraged_breakdown"
  by (simp add: maker_equity_def maker_cuml_funding_def tick_side_def maker_funding_def maker_util_def maker_lp_fees_def
        valued_atoms_def exposure_valued_def amounts_for_liquidity_def clamp_def amount0_delta_def amount1_delta_def
        div_rounded_def atoms_from_u256_def settle_delta_def settle_atoms_def u512_to_u256_def fee_since_def word_less_def
        evaluation sample_maker_market_def leveraged_maker_def leveraged_breakdown_def sample_maker_def sample_breakdown_def
        Q96_def narrow_bounds price_order MAX_COMPONENT_ATOMS_def)

text \<open>Small amounts valued at a price of the size of the mark: no step of the valuation overflows.\<close>

lemma signed_with_value:
  assumes "- (2 ^ (LENGTH('a) - 1)) \<le> x" "x < 2 ^ (LENGTH('a) - 1)"
  shows "\<exists>w :: 'a::len word. sint w = x"
  using assms by (intro exI[of _ "word_of_int x"] sint_exactI) (simp_all add: in_signed_def uint_word_of_int)

lemma signed_small: "\<bar>x\<bar> < 2 ^ 35 \<Longrightarrow> \<exists>w :: i256. sint w = x" "\<bar>x\<bar> < 2 ^ 35 \<Longrightarrow> \<exists>w :: i128. sint w = x"
  by (rule signed_with_value; simp)+

lemma scaled_small:
  fixes a x :: int
  assumes "0 \<le> a" "a < 2 ^ 32" "0 \<le> x" "x < 2 ^ 97"
  shows "0 \<le> a * x div 2 ^ 96" "a * x div 2 ^ 96 < 2 ^ 33"
proof -
  have "a * x \<le> 2 ^ 32 * x" using assms by (intro mult_right_mono) simp_all
  also have "\<dots> < 2 ^ 33 * 2 ^ 96" using assms by simp
  finally show "a * x div 2 ^ 96 < 2 ^ 33" by (simp add: div_less_iff_less_mult)
  show "0 \<le> a * x div 2 ^ 96" using assms by (simp add: pos_imp_zdiv_nonneg_iff)
qed

lemma valued_atoms_small:
  assumes amounts: "amounts_for_liquidity sp (ex_sqrt_lower x) (ex_sqrt_upper x) (ex_liquidity x) = Inr (PerpAtoms p, UsdcAtoms q)"
    and small: "uint p < 2 ^ 32" "uint q < 2 ^ 32" "uint m < 2 ^ 97"
    and residual: "perp_d (ex_delta_perp x) = - 500000" "usdc_d (ex_delta_usd x) = - 500000"
  obtains v u where "valued_atoms x sp (Price m) = Inr (UsdcAtoms v, UsdcDelta u)" "uint v = uint p * uint m div 2 ^ 96 + uint q"
    "sint u = uint v - 500000 * uint m div 2 ^ 96 - 500000" "uint v < 2 ^ 34" "\<bar>sint u\<bar> < 2 ^ 35"
proof -
  define a d where "a = uint p * uint m div 2 ^ 96" and "d = 500000 * uint m div 2 ^ 96"
  have ab: "0 \<le> a" "a < 2 ^ 33" unfolding a_def by (rule scaled_small[OF uint_ge_0 small(1) uint_ge_0 small(3)])+
  have db: "0 \<le> d" "d < 2 ^ 33" unfolding d_def by (rule scaled_small[OF _ _ uint_ge_0 small(3)]; simp)+
  obtain pv :: u256 where pv: "uint pv = a" using word_with_value[where 'a = 256, OF ab(1)] ab(2) by auto
  obtain lv :: u256 where lv: "uint lv = a + uint q"
    using word_with_value[where 'a = 256, of "a + uint q"] ab small(2) by auto
  obtain rs :: i256 where rs: "sint rs = - d" using signed_with_value[where 'a = 256, of "- d"] db by auto
  obtain rv :: i256 where rv: "sint rv = - d - 500000" using signed_with_value[where 'a = 256, of "- d - 500000"] db by auto
  have lb: "uint lv < 2 ^ 34" "sint lv = uint lv" using lv ab small(2) by (simp_all add: sint_nonneg_word)
  have ub: "\<bar>uint lv - d - 500000\<bar> < 2 ^ 35" using lb(1) db by (simp add: abs_less_iff) (use uint_ge_0[of lv] in linarith)
  then obtain un :: i256 where un: "sint un = uint lv - d - 500000" using signed_small(1) by blast
  have m: "sint m = uint m" using small(3) by (simp add: sint_nonneg_word)
  have sd: "srdiv TowardZero (- 500000 * uint m) (2 ^ 96) = - d" "\<bar>- d\<bar> < 2 ^ 255"
    using db uint_ge_0[of m] by (auto simp: srdiv_def d_def)
  have dp: "sint (scast (- 500000 :: i128) :: i256) = - 500000" by simp
  have steps: "mul_div (ucast p) m Q96 TowardZero = Inr pv" "add_u pv (ucast q) = Inr lv" "to_i256 m = Inr m"
      "s_full_mul_div (scast (- 500000 :: i128)) m Q96 TowardZero = Inr rs" "add_i rs (scast (- 500000 :: i128)) = Inr rv"
      "to_i256 lv = Inr lv" "add_i lv rv = Inr un"
    using small(3) lb pv lv rs rv un sd
    by (simp_all only: mul_div_Inr add_u_Inr to_i256_Inr s_full_mul_div_Inr add_i_Inr dp m uint_Q96) (simp_all add: uint_ucast_up a_def)
  then have e: "exposure_valued x sp (Price m) = Inr (lv, un)" by (simp add: exposure_valued_def amounts residual)
  obtain va :: i128 where va: "sint va = uint lv" using signed_with_value[where 'a = 128, of "uint lv"] lb(1) uint_ge_0[of lv] by auto
  obtain vu :: i128 where vu: "sint vu = sint un" using signed_small(2)[of "sint un"] ub un by auto
  have "settle_atoms lv = Inr va" "settle_atoms un = Inr vu" using va vu lb ub un by (simp_all add: settle_atoms_Inr)
  then have r: "valued_atoms x sp (Price m) = Inr (UsdcAtoms (unsigned_abs va), UsdcDelta vu)"
    by (simp add: valued_atoms_def e steps(6))
  have "uint (unsigned_abs va) = uint lv" using va by (simp add: uint_unsigned_abs)
  then show thesis using that[OF r] lv lb(1) vu un ub by (simp add: a_def d_def)
qed

text \<open>The test on the leveraged maker, with the amounts its band holds at the price's root.\<close>

definition leveraged_fails :: "int \<Rightarrow> int \<Rightarrow> int \<Rightarrow> bool" where
  "leveraged_fails p q x =
     (let v = p * x div 2 ^ 96 + q; e = v - 500000 * x div 2 ^ 96 - 448600
      in \<not> (0 < e \<and> 50000 * (v + 1) \<le> e * 1000000))"

lemma leveraged_test:
  assumes x: "2 ^ 95 \<le> uint x" "uint x < 2 ^ 97" and r: "sqrt_price_try_from floor_root (Price x) = Inr (SqrtPrice r)"
    and amounts: "amounts_for_liquidity (SqrtPrice r) (ex_sqrt_lower (mb_exposure leveraged_breakdown))
      (ex_sqrt_upper (mb_exposure leveraged_breakdown)) (ex_liquidity (mb_exposure leveraged_breakdown)) = Inr (PerpAtoms p, UsdcAtoms q)"
    and small: "uint p < 2 ^ 32" "uint q < 2 ^ 32"
  shows "shock_test floor_root leveraged_breakdown (SqrtPrice Q96) (Price x) = Inr (leveraged_fails (uint p) (uint q) (uint x))"
proof -
  obtain v u where vu: "valued_atoms (mb_exposure leveraged_breakdown) (SqrtPrice r) (Price x) = Inr (UsdcAtoms v, UsdcDelta u)"
      "uint v = uint p * uint x div 2 ^ 96 + uint q" "sint u = uint v - 500000 * uint x div 2 ^ 96 - 500000" "uint v < 2 ^ 34" "\<bar>sint u\<bar> < 2 ^ 35"
    by (rule valued_atoms_small[OF amounts small x(2)]) (simp_all add: leveraged_breakdown_def)
  have m: "mul_div (sqrt_x96 (mb_sqrt_price leveraged_breakdown)) r Q96 TowardZero = Inr r"
    by (simp add: mul_div_Inr leveraged_breakdown_def sample_breakdown_def)
  have s: "usdc_d (maker_settled_margin leveraged_breakdown) = 51400"
    by (simp add: maker_settled_margin_def total_def leveraged_breakdown_def sample_breakdown_def)
  have e: "sint (51400 + u) = 51400 + sint u" using vu(5) by (subst sint_add_exact) (auto simp: in_signed_def abs_less_iff)
  have l: "mb_liquidation_margin_ratio leveraged_breakdown = Ratio 50000" by (simp add: leveraged_breakdown_def sample_breakdown_def)
  show ?thesis
    by (simp add: shock_test_def r liquidatable_def shock_valued_def m vu(1) s l is_healthy_eq leveraged_fails_def Let_def)
      (simp add: e vu(2,3), simp add: algebra_simps)
qed

lemma leveraged_below:
  assumes "2 ^ 95 \<le> uint x" "uint x \<le> 79073721651663432452036067391"
  shows "shock_test floor_root leveraged_breakdown (SqrtPrice Q96) (Price x) = Inr (leveraged_fails 999950 0 (uint x))"
proof -
  have x: "uint x < 2 ^ 97" using assms(2) by simp
  obtain r where r: "sqrt_price_try_from floor_root (Price x) = Inr (SqrtPrice r)"
    "uint r * uint r \<le> uint x * 2 ^ 96" "uint x * 2 ^ 96 < (uint r + 1) * (uint r + 1)"
    by (rule floor_root_price[OF assms(1) x])
  have "uint r \<le> 79224201403219477170569942574" using assms(2) by (intro square_below[OF r(2)]) simp_all
  then have le: "r \<le> 79224201403219477170569942574" by (simp add: word_le_def)
  have "2 ^ 95 \<le> uint r" using assms(1) by (intro square_below[of "2 ^ 95", OF _ r(3)]) simp_all
  then have "r \<noteq> 0" by auto
  moreover have "clamp 79224201403219477170569942574 79232123823359799118286999568 r = 79224201403219477170569942574"
    using le by (auto simp: clamp_def word_le_def word_less_def word_uint_eq_iff)
  ultimately have "amounts_for_liquidity (SqrtPrice r) (ex_sqrt_lower (mb_exposure leveraged_breakdown))
      (ex_sqrt_upper (mb_exposure leveraged_breakdown)) (ex_liquidity (mb_exposure leveraged_breakdown)) = Inr (PerpAtoms 999950, UsdcAtoms 0)"
    by (simp add: leveraged_breakdown_def amounts_for_liquidity_def price_order
        amount0_delta_def amount1_delta_def div_rounded_def atoms_from_u256_def u512_to_u256_def evaluation Q96_def)
  from leveraged_test[OF assms(1) x r(1) this] show ?thesis by simp
qed

lemma leveraged_above:
  assumes "79382905019175010127906340864 \<le> uint x" "uint x < 2 ^ 97"
  shows "shock_test floor_root leveraged_breakdown (SqrtPrice Q96) (Price x) = Inr (leveraged_fails 0 999950 (uint x))"
proof -
  have x: "2 ^ 95 \<le> uint x" using assms(1) by simp
  obtain r where r: "sqrt_price_try_from floor_root (Price x) = Inr (SqrtPrice r)"
    "uint r * uint r \<le> uint x * 2 ^ 96" "uint x * 2 ^ 96 < (uint r + 1) * (uint r + 1)"
    by (rule floor_root_price[OF x assms(2)])
  have "79232123823359799118286999568 \<le> uint r"
    using assms(1) by (intro square_below[of 79232123823359799118286999568, OF _ r(3)]) simp_all
  then have le: "79232123823359799118286999568 \<le> r" by (simp add: word_le_def)
  have "r \<noteq> 0" using le by auto
  moreover have "clamp 79224201403219477170569942574 79232123823359799118286999568 r = 79232123823359799118286999568"
    using le by (auto simp: clamp_def word_le_def word_less_def word_uint_eq_iff)
  ultimately have "amounts_for_liquidity (SqrtPrice r) (ex_sqrt_lower (mb_exposure leveraged_breakdown))
      (ex_sqrt_upper (mb_exposure leveraged_breakdown)) (ex_liquidity (mb_exposure leveraged_breakdown)) = Inr (PerpAtoms 0, UsdcAtoms 999950)"
    by (simp add: leveraged_breakdown_def amounts_for_liquidity_def price_order
        amount0_delta_def amount1_delta_def div_rounded_def atoms_from_u256_def u512_to_u256_def evaluation Q96_def)
  from leveraged_test[OF x assms(2) r(1) this] show ?thesis by simp
qed

text \<open>A bisection whose test never errors returns.\<close>

lemma turn_bisect_returns:
  assumes "\<And>x. min (uint h) (uint t) \<le> uint x \<Longrightarrow> uint x \<le> max (uint h) (uint t) \<Longrightarrow> \<exists>v. test (Price x) = Inr v"
  obtains p where "turn_bisect test h t = Inr p"
proof -
  have "\<exists>p. turn_bisect test h t = Inr p" using assms
  proof (induction test h t rule: turn_bisect.induct)
    case (1 test h t)
    let ?mid = "min h t + abs_diff h t div 2"
    show ?case
    proof (cases "1 < abs_diff h t")
      case True
      note mid = mid_between[OF True]
      obtain l where l: "test (Price ?mid) = Inr l" using "1.prems"[of ?mid] mid by auto
      show ?thesis
      proof (cases l)
        case True
        have "\<exists>p. turn_bisect test h ?mid = Inr p"
          by (rule "1.IH"(1)[OF \<open>1 < abs_diff h t\<close> refl l]) (use mid True in \<open>auto intro!: "1.prems"\<close>)
        then show ?thesis using l True \<open>1 < abs_diff h t\<close> by (subst turn_bisect.simps) (simp add: Let_def)
      next
        case False
        have "\<exists>p. turn_bisect test ?mid t = Inr p"
          by (rule "1.IH"(2)[OF \<open>1 < abs_diff h t\<close> refl l]) (use mid False in \<open>auto intro!: "1.prems"\<close>)
        then show ?thesis using l False \<open>1 < abs_diff h t\<close> by (subst turn_bisect.simps) (simp add: Let_def)
      qed
    next
      case False
      then show ?thesis by (subst turn_bisect.simps) simp
    qed
  qed
  then show thesis using that by blast
qed

text \<open>The search finds a price on either side: the first step away from the mark is healthy, the second is not.\<close>

lemma leveraged_mark: "mb_mark leveraged_breakdown = Price Q96"
  by (simp add: leveraged_breakdown_def sample_breakdown_def Q96_def)

lemma leveraged_root: "sqrt_price_try_from floor_root (Price Q96) = Inr (SqrtPrice Q96)"
proof -
  obtain r where r: "sqrt_price_try_from floor_root (Price Q96) = Inr (SqrtPrice r)"
    "uint r * uint r \<le> uint Q96 * 2 ^ 96" "uint Q96 * 2 ^ 96 < (uint r + 1) * (uint r + 1)"
    by (rule floor_root_price[of Q96]) simp_all
  have "uint r \<le> 2 ^ 96" by (intro square_below[OF r(2)]) simp_all
  moreover have "2 ^ 96 \<le> uint r" by (intro square_below[of "2 ^ 96", OF _ r(3)]) simp_all
  ultimately have "r = Q96" by (intro word_eq_uintI) simp
  then show ?thesis using r(1) by simp
qed

lemma leveraged_steps:
  "stepped (Price Q96) 0 False = Inr (Price 79073721651663432452036067391)" "stepped (Price Q96) 1 False = Inr (Price 78919881726271091143763623680)"
  "stepped (Price Q96) 0 True = Inr (Price 79382905019175010127906340864)" "stepped (Price Q96) 1 True = Inr (Price 79537647524085682662268731392)"
  by (simp_all add: stepped_Inr)

lemma leveraged_brackets:
  "bracket_turn floor_root leveraged_breakdown (SqrtPrice Q96) False [0..<17] (Price Q96)
     = Inr (Price 79073721651663432452036067391, Some (Price 78919881726271091143763623680))"
  "bracket_turn floor_root leveraged_breakdown (SqrtPrice Q96) True [0..<17] (Price Q96)
     = Inr (Price 79382905019175010127906340864, Some (Price 79537647524085682662268731392))"
proof -
  have ks: "[0..<17] = 0 # 1 # [2..<17]" by (simp add: upt_rec)
  have step: "bracket_turn floor_root leveraged_breakdown (SqrtPrice Q96) up (k # ks) h
      = (if v then Inr (h, Some (Price x)) else bracket_turn floor_root leveraged_breakdown (SqrtPrice Q96) up ks (Price x))"
    if "stepped (Price Q96) k up = Inr (Price x)" "shock_test floor_root leveraged_breakdown (SqrtPrice Q96) (Price x) = Inr v" for up k ks h x v
    using that by (cases "sqrt_price_try_from floor_root (Price x)") (auto simp: leveraged_mark shock_test_def)
  have t: "shock_test floor_root leveraged_breakdown (SqrtPrice Q96) (Price 79073721651663432452036067391) = Inr False"
    "shock_test floor_root leveraged_breakdown (SqrtPrice Q96) (Price 78919881726271091143763623680) = Inr True"
    "shock_test floor_root leveraged_breakdown (SqrtPrice Q96) (Price 79382905019175010127906340864) = Inr False"
    "shock_test floor_root leveraged_breakdown (SqrtPrice Q96) (Price 79537647524085682662268731392) = Inr True"
    by (simp_all add: leveraged_below leveraged_above leveraged_fails_def)
  show "bracket_turn floor_root leveraged_breakdown (SqrtPrice Q96) False [0..<17] (Price Q96)
     = Inr (Price 79073721651663432452036067391, Some (Price 78919881726271091143763623680))"
    unfolding ks by (simp only: step[OF leveraged_steps(1) t(1)] step[OF leveraged_steps(2) t(2)] if_True if_False)
  show "bracket_turn floor_root leveraged_breakdown (SqrtPrice Q96) True [0..<17] (Price Q96)
     = Inr (Price 79382905019175010127906340864, Some (Price 79537647524085682662268731392))"
    unfolding ks by (simp only: step[OF leveraged_steps(3) t(3)] step[OF leveraged_steps(4) t(4)] if_True if_False)
qed

lemma leveraged_turns:
  obtains pb pa where "first_turn floor_root leveraged_breakdown (SqrtPrice Q96) False = Inr (Some (Price pb))"
    "first_turn floor_root leveraged_breakdown (SqrtPrice Q96) True = Inr (Some (Price pa))"
proof -
  let ?test = "shock_test floor_root leveraged_breakdown (SqrtPrice Q96)"
  obtain pb where pb: "turn_bisect ?test 79073721651663432452036067391 78919881726271091143763623680 = Inr pb"
    by (rule turn_bisect_returns[of 79073721651663432452036067391 78919881726271091143763623680 ?test]) (simp add: leveraged_below)
  obtain pa where pa: "turn_bisect ?test 79382905019175010127906340864 79537647524085682662268731392 = Inr pa"
    by (rule turn_bisect_returns[of 79382905019175010127906340864 79537647524085682662268731392 ?test]) (simp add: leveraged_above)
  show thesis using pb pa
    by (intro that) (simp_all add: first_turn_def leveraged_mark leveraged_brackets shock_test_def[abs_def])
qed

lemma leveraged_healthy: "maker_is_liquidatable leveraged_breakdown = Inr False"
  by (simp add: maker_is_liquidatable_def is_healthy_eq maker_equity_of_def maker_settled_margin_def total_def
      leveraged_breakdown_def sample_breakdown_def)

theorem maker_price_is_edge_witness:
  "\<exists>pb pa. maker_liquidation_prices floor_root leveraged_breakdown = Inr \<lparr>lp_mark = Price Q96, lp_below = Some (Price pb), lp_above = Some (Price pa)\<rparr>
    \<and> pb < Q96 \<and> Q96 < pa
    \<and> maker_is_liquidatable_at floor_root leveraged_breakdown (Price pb) = Inr True
    \<and> maker_is_liquidatable_at floor_root leveraged_breakdown (Price (pb + 1)) = Inr False
    \<and> maker_is_liquidatable_at floor_root leveraged_breakdown (Price pa) = Inr True
    \<and> maker_is_liquidatable_at floor_root leveraged_breakdown (Price (pa - 1)) = Inr False"
proof -
  obtain pb pa where t: "first_turn floor_root leveraged_breakdown (SqrtPrice Q96) False = Inr (Some (Price pb))"
    "first_turn floor_root leveraged_breakdown (SqrtPrice Q96) True = Inr (Some (Price pa))" by (rule leveraged_turns)
  have l: "maker_liquidation_prices floor_root leveraged_breakdown
      = Inr \<lparr>lp_mark = Price Q96, lp_below = Some (Price pb), lp_above = Some (Price pa)\<rparr>"
    by (simp add: maker_liquidation_prices_def leveraged_healthy leveraged_mark leveraged_root t)
  from maker_price_is_edge[OF maker_equity_self_valued[OF leveraged_maker_computes] leveraged_healthy l] show ?thesis
    using l by (simp add: leveraged_mark price_order)
qed

end
