(* ===== verification/Maker_Close.thy ===== *)
theory Maker_Close
  imports Maker_Equity
begin

text \<open>
  \<open>src/src/math/maker_equity/close.rs\<close>: a maker's full close. Removing all of a band's liquidity pays
  the position out when no perp is left, or leaves it open as a taker. The close is shown to change
  the position's form and not its worth, and to be refused exactly when one of the contract's checks
  fails.
\<close>

subsection \<open>The code\<close>

datatype remainder = Payout usdc_delta | TakerLeft taker_health

datatype close_refusal =
  LongUtilizationExceeded | ShortUtilizationExceeded | MarginRatioTooLow | NegativeMargin

fun utilization_refusal :: "side \<Rightarrow> close_refusal" where
  "utilization_refusal Long = LongUtilizationExceeded"
| "utilization_refusal Short = ShortUtilizationExceeded"

record full_close =
  fc_remainder :: remainder
  fc_refusal :: "close_refusal option"

fun perp_left_of :: "remainder \<Rightarrow> perp_delta" where
  "perp_left_of (Payout _) = 0"
| "perp_left_of (TakerLeft t) = th_delta_perp t"

definition perp_left :: "full_close \<Rightarrow> perp_delta" where
  "perp_left c = perp_left_of (fc_remainder c)"

definition exceeded :: "perp_atoms per_side \<Rightarrow> perp_atoms per_side \<Rightarrow> close_refusal option" where
  "exceeded open_interest cap =
     map_option utilization_refusal (List.find (\<lambda>s. on cap s < on open_interest s) BOTH)"

definition or_else :: "'a option \<Rightarrow> 'a option \<Rightarrow> 'a option" where
  "or_else a b = (case a of None \<Rightarrow> b | Some x \<Rightarrow> Some x)"

definition capacity_left :: "maker_breakdown \<Rightarrow> market_capacity \<Rightarrow> perp_atoms per_side result" where
  "capacity_left b market =
     rbind (ok_or Overflow (perp_checked_sub (on (mc_capacity market) Long) (on (mb_capacity b) Long))) (\<lambda>l.
     rbind (ok_or Overflow (perp_checked_sub (on (mc_capacity market) Short) (on (mb_capacity b) Short))) (\<lambda>s.
     Inr (PerSide l s)))"

text \<open>\<open>normalizeMargin\<close>: a negative settle moves into the USD leg.\<close>

definition normalize_margin :: "usdc_delta \<Rightarrow> usdc_delta \<Rightarrow> usdc_atoms \<times> usdc_delta" where
  "normalize_margin settled delta_usd =
     (case usdc_atoms_try_from_delta settled of
        Inr margin \<Rightarrow> (margin, delta_usd)
      | Inl _ \<Rightarrow> (0, delta_usd + settled))"

definition converted_taker :: "maker_breakdown \<Rightarrow> perp_delta \<Rightarrow> usdc_delta \<Rightarrow> ratio \<Rightarrow> taker_health result" where
  "converted_taker b delta_perp delta_usd taker_liquidation =
     (let (margin, delta_usd) = normalize_margin (maker_settled_margin b) delta_usd
      in taker_health_at
           \<lparr>tms_block = mb_block b, tms_funding = Funding 0,
            tms_util_payments = uniform (Earnings 0), tms_mark = mb_mark b\<rparr>
           \<lparr>ts_delta_perp = delta_perp, ts_delta_usd = delta_usd, ts_margin = margin,
            ts_liquidation_margin_ratio = taker_liquidation, ts_last_cuml_funding = Funding 0,
            ts_last_util_payments = uniform (Earnings 0)\<rparr>)"

definition close_maker :: "maker_breakdown \<Rightarrow> market_capacity \<Rightarrow> ratio \<Rightarrow> full_close result" where
  "close_maker b market taker_liquidation =
     (if mc_block market \<noteq> mb_block b
      then Inl (BlockMismatch (block_number (mb_block b)) (block_number (mc_block market)))
      else
        rbind (capacity_left b market) (\<lambda>cap.
        let refusal = exceeded (mc_open_interest market) cap; x = mb_exposure b in
        rbind (amounts_for_liquidity (mb_sqrt_price b) (ex_sqrt_lower x) (ex_sqrt_upper x) (ex_liquidity x)) (\<lambda>(p, q).
        let delta_perp = ex_delta_perp x + perp_delta_from p;
            delta_usd = ex_delta_usd x + usdc_delta_from q;
            settled = maker_settled_margin b in
        case delta_side delta_perp of
          None \<Rightarrow>
            let payout = settled + delta_usd in
            Inr \<lparr>fc_remainder = Payout payout,
                 fc_refusal = or_else refusal (if is_neg (usdc_d payout) then Some NegativeMargin else None)\<rparr>
        | Some s \<Rightarrow>
            rbind (converted_taker b delta_perp delta_usd taker_liquidation) (\<lambda>t.
            rbind (is_liquidatable t) (\<lambda>bad.
            let open_interest = set_on s (on (mc_open_interest market) s + perp_magnitude delta_perp) (mc_open_interest market)
            in Inr \<lparr>fc_remainder = TakerLeft t,
                    fc_refusal = or_else (or_else refusal (if bad then Some MarginRatioTooLow else None))
                      (exceeded open_interest cap)\<rparr>)))))"

subsection \<open>The checks\<close>

definition backed :: "perp_atoms per_side \<Rightarrow> perp_atoms per_side \<Rightarrow> bool" where
  "backed open_interest cap \<longleftrightarrow> (\<forall>s. on open_interest s \<le> on cap s)"

lemma exceeded_None: "exceeded oi cap = None \<longleftrightarrow> backed oi cap"
proof -
  have "(\<forall>s. on oi s \<le> on cap s) \<longleftrightarrow> on oi Long \<le> on cap Long \<and> on oi Short \<le> on cap Short"
    using side.exhaust by metis
  then show ?thesis by (auto simp: exceeded_def backed_def BOTH_def not_less[symmetric])
qed

lemma or_else_None: "or_else a b = None \<longleftrightarrow> a = None \<and> b = None"
  by (auto simp: or_else_def split: option.splits)

lemma capacity_left_Inr:
  "capacity_left b market = Inr cap \<longleftrightarrow>
     (\<forall>s. uint (perp (on cap s)) = uint (perp (on (mc_capacity market) s)) - uint (perp (on (mb_capacity b) s)))"
proof -
  have sub: "perp_checked_sub x y = Some z \<longleftrightarrow> uint (perp z) = uint (perp x) - uint (perp y)" for x y z
    by (cases z) (auto simp: perp_checked_sub_def checked_sub_Some)
  have all: "(\<forall>s. P s) \<longleftrightarrow> P Long \<and> P Short" for P using side.exhaust by metis
  show ?thesis by (cases cap) (auto simp: capacity_left_def rbind_eq_Inr ok_or_eq_Inr sub all)
qed

text \<open>The shape of a close that is computed, whichever form it leaves.\<close>

lemma close_maker_parts:
  assumes "close_maker b market r = Inr c"
  obtains cap p q where "mc_block market = mb_block b" "capacity_left b market = Inr cap"
    "amounts_for_liquidity (mb_sqrt_price b) (ex_sqrt_lower (mb_exposure b)) (ex_sqrt_upper (mb_exposure b))
       (ex_liquidity (mb_exposure b)) = Inr (p, q)"
    "delta_side (ex_delta_perp (mb_exposure b) + perp_delta_from p) = None
       \<and> c = (let payout = maker_settled_margin b + (ex_delta_usd (mb_exposure b) + usdc_delta_from q) in
           \<lparr>fc_remainder = Payout payout, fc_refusal = or_else (exceeded (mc_open_interest market) cap)
              (if is_neg (usdc_d payout) then Some NegativeMargin else None)\<rparr>)
     \<or> (\<exists>s t bad. delta_side (ex_delta_perp (mb_exposure b) + perp_delta_from p) = Some s
         \<and> converted_taker b (ex_delta_perp (mb_exposure b) + perp_delta_from p)
             (ex_delta_usd (mb_exposure b) + usdc_delta_from q) r = Inr t
         \<and> is_liquidatable t = Inr bad
         \<and> c = \<lparr>fc_remainder = TakerLeft t,
             fc_refusal = or_else (or_else (exceeded (mc_open_interest market) cap) (if bad then Some MarginRatioTooLow else None))
               (exceeded (set_on s (on (mc_open_interest market) s
                   + perp_magnitude (ex_delta_perp (mb_exposure b) + perp_delta_from p)) (mc_open_interest market)) cap)\<rparr>)"
proof -
  have block: "mc_block market = mb_block b" using assms by (auto simp: close_maker_def split: if_splits)
  from assms show thesis
    by (auto simp: close_maker_def block rbind_eq_Inr Let_def split: option.splits intro!: that)
qed

subsection \<open>The worth of what is left\<close>

text \<open>The deposit residual and the band's perp are token counts, far inside \<open>i128\<close>.\<close>

definition close_fits :: "maker_breakdown \<Rightarrow> bool" where
  "close_fits b \<longleftrightarrow> \<bar>sint (perp_d (ex_delta_perp (mb_exposure b)))\<bar> < 2 ^ 120
     \<and> \<bar>sint (usdc_d (ex_delta_usd (mb_exposure b)))\<bar> < 2 ^ 120
     \<and> (\<forall>p q. amounts_for_liquidity (mb_sqrt_price b) (ex_sqrt_lower (mb_exposure b)) (ex_sqrt_upper (mb_exposure b))
           (ex_liquidity (mb_exposure b)) = Inr (p, q) \<longrightarrow> uint (perp p) < 2 ^ 120)"

lemma in_signed_128: "\<bar>x\<bar> < 2 ^ 127 \<Longrightarrow> in_signed LENGTH(128) x"
  by (auto simp: in_signed_def)

text \<open>Truncating two parts apart or their sum together differs by at most one.\<close>

lemma floor_split:
  fixes a b d :: int
  assumes "0 < d"
  shows "a div d + b div d \<le> (a + b) div d" "(a + b) div d \<le> a div d + b div d + 1"
proof -
  have "0 \<le> (a mod d + b mod d) div d" using assms by (simp add: pos_imp_zdiv_nonneg_iff)
  moreover have "(a mod d + b mod d) div d < 2"
    using assms fdiv_ge_iff[of d 2 "a mod d + b mod d"] pos_mod_bound[of d a] pos_mod_bound[of d b] by linarith
  ultimately show "a div d + b div d \<le> (a + b) div d" "(a + b) div d \<le> a div d + b div d + 1"
    using div_add1_eq[of a b d] by linarith+
qed

lemma srdiv_split:
  assumes "0 \<le> x" "0 < d"
  shows "\<bar>srdiv TowardZero (x + y) d - (x div d + srdiv TowardZero y d)\<bar> \<le> 1"
    and "x + y = 0 \<Longrightarrow> srdiv TowardZero (x + y) d = x div d + srdiv TowardZero y d"
proof -
  show "\<bar>srdiv TowardZero (x + y) d - (x div d + srdiv TowardZero y d)\<bar> \<le> 1"
    using floor_split[OF assms(2), of x y] floor_split[OF assms(2), of "x + y" "- y"]
      floor_split[OF assms(2), of "- (x + y)" x] assms(1)
    by (auto simp: srdiv_def)
  show "x + y = 0 \<Longrightarrow> srdiv TowardZero (x + y) d = x div d + srdiv TowardZero y d"
  proof -
    assume z: "x + y = 0"
    then have y: "y = - x" by simp
    show ?thesis using assms by (cases "x = 0") (simp_all add: y srdiv_def)
  qed
qed

lemma maker_worth:
  assumes "self_valued b" "breakdown_ok b"
    and "amounts_for_liquidity (mb_sqrt_price b) (ex_sqrt_lower (mb_exposure b)) (ex_sqrt_upper (mb_exposure b))
       (ex_liquidity (mb_exposure b)) = Inr (p, q)"
  shows "sint (usdc_d (maker_equity_of b)) = sint (usdc_d (maker_settled_margin b))
      + uint (perp p) * uint (price_x96 (mb_mark b)) div 2 ^ 96
      + srdiv TowardZero (sint (perp_d (ex_delta_perp (mb_exposure b))) * uint (price_x96 (mb_mark b))) (2 ^ 96)
      + uint (usdc q) + sint (usdc_d (ex_delta_usd (mb_exposure b)))"
    and "uint (usdc q) < 2 ^ 120" "uint (perp p) * uint (price_x96 (mb_mark b)) div 2 ^ 96 < 2 ^ 120"
    and "\<bar>sint (usdc_d (maker_settled_margin b))\<bar> < 5 * 2 ^ 120" "\<bar>sint (usdc_d (maker_equity_of b))\<bar> < 6 * 2 ^ 120"
proof -
  note val = assms(1)[unfolded self_valued_def]
  show set: "\<bar>sint (usdc_d (maker_settled_margin b))\<bar> < 5 * 2 ^ 120" using breakdown_sums(4)[OF assms(2)] .
  have v: "uint (usdc (mb_position_value b)) = uint (perp p) * uint (price_x96 (mb_mark b)) div 2 ^ 96 + uint (usdc q)"
    "sint (usdc_d (mb_unrealized_pnl b)) = uint (usdc (mb_position_value b))
       + srdiv TowardZero (sint (perp_d (ex_delta_perp (mb_exposure b))) * uint (price_x96 (mb_mark b))) (2 ^ 96)
       + sint (usdc_d (ex_delta_usd (mb_exposure b)))"
    by (rule valued_atoms_parts[OF val], use assms(3) in simp)+
  show "sint (usdc_d (maker_equity_of b)) = sint (usdc_d (maker_settled_margin b))
      + uint (perp p) * uint (price_x96 (mb_mark b)) div 2 ^ 96
      + srdiv TowardZero (sint (perp_d (ex_delta_perp (mb_exposure b))) * uint (price_x96 (mb_mark b))) (2 ^ 96)
      + uint (usdc q) + sint (usdc_d (ex_delta_usd (mb_exposure b)))"
    using breakdown_sums(2)[OF assms(2)] v by simp
  have pos: "0 \<le> uint (perp p) * uint (price_x96 (mb_mark b)) div 2 ^ 96" by (simp add: pos_imp_zdiv_nonneg_iff)
  have b: "uint (usdc (mb_position_value b)) < 2 ^ 120" "\<bar>sint (usdc_d (mb_unrealized_pnl b))\<bar> < 2 ^ 120"
    using assms(2) by (simp_all add: breakdown_ok_def component_ok_def)
  show "uint (usdc q) < 2 ^ 120" using v(1) b(1) pos by linarith
  show "uint (perp p) * uint (price_x96 (mb_mark b)) div 2 ^ 96 < 2 ^ 120"
    using v(1) b(1) uint_ge_0[of "usdc q"] by linarith
  show "\<bar>sint (usdc_d (maker_equity_of b))\<bar> < 6 * 2 ^ 120"
    using breakdown_sums(2)[OF assms(2)] set b(2) by linarith
qed

lemma usdc_atoms_try_from_delta_eq:
  "usdc_atoms_try_from_delta d = (if 0 \<le> sint (usdc_d d) then Inr (UsdcAtoms (usdc_d d)) else Inl Overflow)"
proof (cases "0 \<le> sint (usdc_d d)")
  case True
  then have "sint (usdc_d d) = uint (usdc_d d)" using uint_below[of "usdc_d d"]
    by (auto simp: sint_cases split: if_splits)
  then have "narrow_su (usdc_d d) = Some (usdc_d d)" by (simp add: narrow_su_Some)
  then show ?thesis using True by (simp add: usdc_atoms_try_from_delta_def)
qed (simp add: usdc_atoms_try_from_delta_def narrow_su_def)

lemma converted_taker_worth:
  assumes "converted_taker b dp du r = Inr t"
    and "\<bar>sint (usdc_d (maker_settled_margin b))\<bar> < 5 * 2 ^ 120" "\<bar>sint (usdc_d du)\<bar> < 2 ^ 122"
    and "\<bar>sint (usdc_d (maker_settled_margin b)) + srdiv TowardZero (sint (perp_d dp) * uint (price_x96 (mb_mark b))) (2 ^ 96)
      + sint (usdc_d du)\<bar> < 2 ^ 127"
  shows "sint (usdc_d (equity t)) = sint (usdc_d (maker_settled_margin b))
      + srdiv TowardZero (sint (perp_d dp) * uint (price_x96 (mb_mark b))) (2 ^ 96) + sint (usdc_d du)"
    and "th_delta_perp t = dp"
proof -
  let ?s = "maker_settled_margin b"
  define margin du' where "margin = fst (normalize_margin ?s du)" and "du' = snd (normalize_margin ?s du)"
  have legs: "sint (usdc_d (th_unrealized_pnl t)) = value_at_mark t (price_x96 (th_mark t)) + sint (usdc_d du')"
    "sint (usdc_d (th_funding_owed t)) = 0" "uint (usdc (th_util_owed t)) = 0"
    "th_mark t = mb_mark b" "th_margin t = margin" "th_delta_perp t = dp"
    using taker_legs[OF assms(1)[unfolded converted_taker_def Let_def case_prod_beta]]
    by (simp_all add: margin_def du'_def srdiv_def cdiv_def uniform_def Let_def long_if_def)
  show "th_delta_perp t = dp" by (rule legs(6))
  have z: "usdc_d (th_funding_owed t) = 0" "usdc (th_util_owed t) = 0"
    using legs(2,3) by (metis sint_inject sint_0, metis uint_zero_iff)
  have word: "usdc_d (equity t) = usdc margin + usdc_d (th_unrealized_pnl t)"
    by (simp add: equity_def settled_margin_def usdc_delta_from_def z legs(5))
  have v: "value_at_mark t (price_x96 (th_mark t)) = srdiv TowardZero (sint (perp_d dp) * uint (price_x96 (mb_mark b))) (2 ^ 96)"
    by (simp add: value_at_mark_def legs(4,6))
  show "sint (usdc_d (equity t)) = sint (usdc_d ?s)
      + srdiv TowardZero (sint (perp_d dp) * uint (price_x96 (mb_mark b))) (2 ^ 96) + sint (usdc_d du)"
  proof (cases "0 \<le> sint (usdc_d ?s)")
    case True
    then have n: "margin = UsdcAtoms (usdc_d ?s)" "du' = du"
      by (simp_all add: margin_def du'_def normalize_margin_def usdc_atoms_try_from_delta_eq)
    have "sint (usdc_d ?s + usdc_d (th_unrealized_pnl t)) = sint (usdc_d ?s) + sint (usdc_d (th_unrealized_pnl t))"
      using assms(4) legs(1) v n(2) by (intro sint_add_exact in_signed_128) (simp only: add.assoc)
    then show ?thesis using word n legs(1) v by simp
  next
    case False
    then have n: "margin = 0" "du' = du + ?s"
      by (simp_all add: margin_def du'_def normalize_margin_def usdc_atoms_try_from_delta_eq)
    have "sint (usdc_d du + usdc_d ?s) = sint (usdc_d du) + sint (usdc_d ?s)"
      using assms(2,3) by (intro sint_add_exact in_signed_128) simp
    then show ?thesis using word n legs(1) v by simp
  qed
qed

lemma converted_taker_delta:
  "converted_taker b dp du r = Inr t \<Longrightarrow> th_delta_perp t = dp"
  unfolding converted_taker_def Let_def case_prod_beta by (drule taker_legs) simp

lemma small_sum:
  fixes a u :: int
  assumes "\<bar>a\<bar> < 2 ^ 120" "0 \<le> u" "u < 2 ^ 120"
  shows "\<bar>a + u\<bar> < 2 ^ 122" "in_signed LENGTH(128) (a + u)"
  using assms by (auto simp: in_signed_def)

lemma close_residual:
  assumes "close_fits b" "amounts_for_liquidity (mb_sqrt_price b) (ex_sqrt_lower (mb_exposure b)) (ex_sqrt_upper (mb_exposure b))
       (ex_liquidity (mb_exposure b)) = Inr (p, q)" "uint (usdc q) < 2 ^ 120"
  shows "sint (perp_d (ex_delta_perp (mb_exposure b) + perp_delta_from p)) = sint (perp_d (ex_delta_perp (mb_exposure b))) + uint (perp p)"
    and "sint (usdc_d (ex_delta_usd (mb_exposure b) + usdc_delta_from q)) = sint (usdc_d (ex_delta_usd (mb_exposure b))) + uint (usdc q)"
    and "\<bar>sint (usdc_d (ex_delta_usd (mb_exposure b) + usdc_delta_from q))\<bar> < 2 ^ 122"
proof -
  have p: "uint (perp p) < 2 ^ 120" using assms(1,2) by (auto simp: close_fits_def)
  then have sp: "sint (perp p) = uint (perp p)" and sq: "sint (usdc q) = uint (usdc q)"
    using assms(3) by (simp_all add: sint_cases)
  have d: "\<bar>sint (perp_d (ex_delta_perp (mb_exposure b)))\<bar> < 2 ^ 120" "\<bar>sint (usdc_d (ex_delta_usd (mb_exposure b)))\<bar> < 2 ^ 120"
    using assms(1) by (simp_all add: close_fits_def)
  have "sint (perp_d (ex_delta_perp (mb_exposure b)) + perp p) = sint (perp_d (ex_delta_perp (mb_exposure b))) + sint (perp p)"
    unfolding sp[symmetric] by (rule sint_add_exact) (unfold sp, rule small_sum(2)[OF d(1) uint_ge_0 p])
  then show "sint (perp_d (ex_delta_perp (mb_exposure b) + perp_delta_from p)) = sint (perp_d (ex_delta_perp (mb_exposure b))) + uint (perp p)"
    using sp by (simp add: perp_delta_from_def)
  have "sint (usdc_d (ex_delta_usd (mb_exposure b)) + usdc q) = sint (usdc_d (ex_delta_usd (mb_exposure b))) + sint (usdc q)"
    unfolding sq[symmetric] by (rule sint_add_exact) (unfold sq, rule small_sum(2)[OF d(2) uint_ge_0 assms(3)])
  then show u: "sint (usdc_d (ex_delta_usd (mb_exposure b) + usdc_delta_from q)) = sint (usdc_d (ex_delta_usd (mb_exposure b))) + uint (usdc q)"
    using sq by (simp add: usdc_delta_from_def)
  show "\<bar>sint (usdc_d (ex_delta_usd (mb_exposure b) + usdc_delta_from q))\<bar> < 2 ^ 122"
    unfolding u by (rule small_sum(1)[OF d(2) uint_ge_0 assms(3)])
qed

subsection \<open>Properties\<close>

text \<open>C12: A close changes the position's form and not its worth: with no perp left it pays out exactly the maker's
  equity, and a conversion leaves a taker whose equity is the maker's to within the one atom the
  merged rounding can move, holding what the residual and the band's perp come to.\<close>

theorem close_conserves_worth:
  assumes "close_maker b market r = Inr c" "self_valued b" "breakdown_ok b" "close_fits b"
  shows "case fc_remainder c of
      Payout x \<Rightarrow> x = maker_equity_of b \<and> perp_left c = 0
    | TakerLeft t \<Rightarrow> \<bar>sint (usdc_d (equity t)) - sint (usdc_d (maker_equity_of b))\<bar> \<le> 1 \<and> perp_d (perp_left c) \<noteq> 0"
proof (rule close_maker_parts[OF assms(1)])
  fix cap p q
  let ?x = "mb_exposure b" and ?m = "uint (price_x96 (mb_mark b))" and ?s = "maker_settled_margin b"
  let ?dp = "ex_delta_perp ?x + perp_delta_from p" and ?du = "ex_delta_usd ?x + usdc_delta_from q"
  assume am: "amounts_for_liquidity (mb_sqrt_price b) (ex_sqrt_lower ?x) (ex_sqrt_upper ?x) (ex_liquidity ?x) = Inr (p, q)"
    and cases: "delta_side ?dp = None \<and> c = (let payout = ?s + ?du in \<lparr>fc_remainder = Payout payout,
        fc_refusal = or_else (exceeded (mc_open_interest market) cap) (if is_neg (usdc_d payout) then Some NegativeMargin else None)\<rparr>)
     \<or> (\<exists>s t bad. delta_side ?dp = Some s \<and> converted_taker b ?dp ?du r = Inr t \<and> is_liquidatable t = Inr bad
         \<and> c = \<lparr>fc_remainder = TakerLeft t,
             fc_refusal = or_else (or_else (exceeded (mc_open_interest market) cap) (if bad then Some MarginRatioTooLow else None))
               (exceeded (set_on s (on (mc_open_interest market) s + perp_magnitude ?dp) (mc_open_interest market)) cap)\<rparr>)"
  note worth = maker_worth[OF assms(2,3) am]
  note res = close_residual[OF assms(4) am worth(2)]
  have split: "sint (perp_d ?dp) * ?m = uint (perp p) * ?m + sint (perp_d (ex_delta_perp ?x)) * ?m"
    unfolding res(1) by (simp add: algebra_simps)
  note round = srdiv_split[of "uint (perp p) * ?m" "2 ^ 96" "sint (perp_d (ex_delta_perp ?x)) * ?m", folded split]
  from cases show ?thesis
  proof (elim disjE exE conjE)
    assume none: "delta_side ?dp = None" and c: "c = (let payout = ?s + ?du in \<lparr>fc_remainder = Payout payout,
        fc_refusal = or_else (exceeded (mc_open_interest market) cap) (if is_neg (usdc_d payout) then Some NegativeMargin else None)\<rparr>)"
    have z: "sint (perp_d ?dp) = 0" using none by (auto simp: delta_side_def split: if_splits)
    have "sint (usdc_d (?s + ?du)) = sint (usdc_d ?s) + sint (usdc_d ?du)"
      using worth(4) res(3) by (simp only: unit_selectors(7), intro sint_add_exact in_signed_128) simp
    also have "\<dots> = sint (usdc_d (maker_equity_of b))"
      using worth(1) res(2) round(2) z by (simp add: srdiv_def)
    finally have "?s + ?du = maker_equity_of b" by (simp add: usdc_delta.expand)
    then show ?thesis using c by (simp add: Let_def perp_left_def)
  next
    fix s t bad
    assume some: "delta_side ?dp = Some s" and t: "converted_taker b ?dp ?du r = Inr t"
      and c: "c = \<lparr>fc_remainder = TakerLeft t,
             fc_refusal = or_else (or_else (exceeded (mc_open_interest market) cap) (if bad then Some MarginRatioTooLow else None))
               (exceeded (set_on s (on (mc_open_interest market) s + perp_magnitude ?dp) (mc_open_interest market)) cap)\<rparr>"
    let ?v = "srdiv TowardZero (sint (perp_d ?dp) * ?m) (2 ^ 96)"
    have near: "\<bar>(sint (usdc_d ?s) + ?v + sint (usdc_d ?du)) - sint (usdc_d (maker_equity_of b))\<bar> \<le> 1"
      using round(1) worth(1) res(2) by simp
    then have "\<bar>sint (usdc_d ?s) + ?v + sint (usdc_d ?du)\<bar> < 2 ^ 127" using worth(5) by simp
    note ct = converted_taker_worth[OF t worth(4) res(3) this]
    have "perp_d ?dp \<noteq> 0" using some by (auto simp: delta_side_def)
    then show ?thesis using ct near c by (simp add: perp_left_def)
  qed
qed

definition sample_capacity :: market_capacity where
  "sample_capacity = \<lparr>mc_block = mb_block sample_breakdown, mc_capacity = PerSide (PerpAtoms 3000) (PerpAtoms 3000),
     mc_open_interest = PerSide (PerpAtoms 500) (PerpAtoms 700)\<rparr>"

lemma sample_band:
  "amounts_for_liquidity (mb_sqrt_price sample_breakdown) (ex_sqrt_lower (mb_exposure sample_breakdown))
     (ex_sqrt_upper (mb_exposure sample_breakdown)) (ex_liquidity (mb_exposure sample_breakdown))
   = Inr (PerpAtoms 1498, UsdcAtoms 1498)"
  by (simp add: amounts_for_liquidity_def clamp_def amount0_delta_def amount1_delta_def div_rounded_def
      atoms_from_u256_def evaluation sample_breakdown_def Q96_def price_order)

lemma sample_close_computes: "\<exists>t. close_maker sample_breakdown sample_capacity (Ratio 50000)
    = Inr \<lparr>fc_remainder = TakerLeft t, fc_refusal = None\<rparr> \<and> th_delta_perp t = PerpDelta 498"
  using sample_band
  by (simp add: close_maker_def sample_capacity_def capacity_left_def perp_checked_sub_def checked_sub_def exceeded_def BOTH_def
      less_perp_atoms_def delta_side_def converted_taker_def normalize_margin_def usdc_atoms_try_from_delta_eq Let_def
      maker_settled_margin_def total_def taker_health_at_def util_owed_of_def uniform_def evaluation sample_breakdown_def
      perp_delta_from_def usdc_delta_from_def is_liquidatable_def is_healthy_eq equity_def settled_margin_def
      or_else_def perp_magnitude_def plus_perp_atoms_def plus_perp_delta_def Q96_def)

lemma sample_breakdown_fits: "close_fits sample_breakdown" "breakdown_ok sample_breakdown" "self_valued sample_breakdown"
  using sample_band maker_equity_ok[OF sample_maker_computes] maker_equity_self_valued[OF sample_maker_computes]
  by (auto simp: close_fits_def) (simp_all add: sample_breakdown_def)

theorem close_conserves_worth_witness:
  "\<exists>t. close_maker sample_breakdown sample_capacity (Ratio 50000) = Inr \<lparr>fc_remainder = TakerLeft t, fc_refusal = None\<rparr>
    \<and> \<bar>sint (usdc_d (equity t)) - sint (usdc_d (maker_equity_of sample_breakdown))\<bar> \<le> 1"
proof -
  obtain t where t: "close_maker sample_breakdown sample_capacity (Ratio 50000) = Inr \<lparr>fc_remainder = TakerLeft t, fc_refusal = None\<rparr>"
    using sample_close_computes by blast
  from close_conserves_worth[OF t sample_breakdown_fits(3,2,1)] show ?thesis using t by auto
qed

text \<open>C13: A computed close is accepted exactly when every check of the contract passes: the open interest is backed
  by the capacity the band leaves, a payout is not negative, and a conversion leaves a taker that is not
  liquidatable and whose exposure, added to its side, is still backed.\<close>

theorem close_accepted_iff:
  assumes "close_maker b market r = Inr c"
  shows "fc_refusal c = None \<longleftrightarrow> (\<exists>cap.
      (\<forall>s. uint (perp (on cap s)) = uint (perp (on (mc_capacity market) s)) - uint (perp (on (mb_capacity b) s)))
      \<and> backed (mc_open_interest market) cap
      \<and> (case fc_remainder c of
           Payout x \<Rightarrow> 0 \<le> sint (usdc_d x)
         | TakerLeft t \<Rightarrow> is_liquidatable t = Inr False
             \<and> (\<exists>s. delta_side (perp_left c) = Some s
                 \<and> backed (set_on s (on (mc_open_interest market) s + perp_magnitude (perp_left c)) (mc_open_interest market)) cap)))"
proof (rule close_maker_parts[OF assms])
  fix cap p q
  let ?dp = "ex_delta_perp (mb_exposure b) + perp_delta_from p"
  assume cap: "capacity_left b market = Inr cap"
  let ?cap_ok = "\<lambda>cap. \<forall>s. uint (perp (on cap s)) = uint (perp (on (mc_capacity market) s)) - uint (perp (on (mb_capacity b) s))"
  have uniq: "?cap_ok cap' \<longleftrightarrow> cap' = cap" for cap' using cap capacity_left_Inr by (metis Inr_inject)
  have one: "(\<exists>cap'. ?cap_ok cap' \<and> P cap') \<longleftrightarrow> P cap" for P using uniq by auto
  assume "delta_side ?dp = None
       \<and> c = (let payout = maker_settled_margin b + (ex_delta_usd (mb_exposure b) + usdc_delta_from q) in
           \<lparr>fc_remainder = Payout payout, fc_refusal = or_else (exceeded (mc_open_interest market) cap)
              (if is_neg (usdc_d payout) then Some NegativeMargin else None)\<rparr>)
     \<or> (\<exists>s t bad. delta_side ?dp = Some s
         \<and> converted_taker b ?dp (ex_delta_usd (mb_exposure b) + usdc_delta_from q) r = Inr t
         \<and> is_liquidatable t = Inr bad
         \<and> c = \<lparr>fc_remainder = TakerLeft t,
             fc_refusal = or_else (or_else (exceeded (mc_open_interest market) cap) (if bad then Some MarginRatioTooLow else None))
               (exceeded (set_on s (on (mc_open_interest market) s + perp_magnitude ?dp) (mc_open_interest market)) cap)\<rparr>)"
  then show ?thesis unfolding one
  proof (elim disjE exE conjE, goal_cases)
    case 1
    then show ?case by (auto simp: Let_def or_else_None exceeded_None is_neg_def)
  next
    case (2 s t bad)
    then show ?case using converted_taker_delta[OF 2(2)]
      by (auto simp: or_else_None exceeded_None perp_left_def)
  qed
qed

theorem close_accepted_iff_witness:
  "\<exists>cap. (\<forall>s. uint (perp (on cap s)) = 2000) \<and> backed (mc_open_interest sample_capacity) cap"
proof -
  obtain t where t: "close_maker sample_breakdown sample_capacity (Ratio 50000) = Inr \<lparr>fc_remainder = TakerLeft t, fc_refusal = None\<rparr>"
    using sample_close_computes by blast
  have c: "uint (perp (on (mc_capacity sample_capacity) s)) - uint (perp (on (mb_capacity sample_breakdown) s)) = 2000" for s
    by (cases s) (simp_all add: sample_capacity_def sample_breakdown_def)
  show ?thesis using close_accepted_iff[OF t] unfolding c by auto
qed

text \<open>Inputs that no single block produces are errors and not closes: a market read at another block is a
  mismatch naming both, and a band backing more than its market on either side is an overflow.\<close>

theorem close_input_errors:
  "(mc_block market \<noteq> mb_block b \<longrightarrow>
      close_maker b market r = Inl (BlockMismatch (block_number (mb_block b)) (block_number (mc_block market))))
    \<and> (mc_block market = mb_block b \<and> on (mc_capacity market) s < on (mb_capacity b) s \<longrightarrow>
      close_maker b market r = Inl Overflow)"
proof (intro conjI impI)
  assume a: "mc_block market = mb_block b \<and> on (mc_capacity market) s < on (mb_capacity b) s"
  have "capacity_left b market = Inl Overflow"
    using a by (cases s) (auto simp: capacity_left_def perp_checked_sub_def checked_sub_def less_perp_atoms_def word_less_def
        rbind_eq_Inl ok_or_eq_Inl)
  then show "close_maker b market r = Inl Overflow" using a by (simp add: close_maker_def)
qed (simp add: close_maker_def)

theorem close_input_errors_witness:
  "close_maker sample_breakdown (sample_capacity\<lparr>mc_capacity := PerSide (PerpAtoms 0) (PerpAtoms 3000)\<rparr>) (Ratio 50000) = Inl Overflow"
proof -
  have "on (mc_capacity (sample_capacity\<lparr>mc_capacity := PerSide (PerpAtoms 0) (PerpAtoms 3000)\<rparr>)) Long < on (mb_capacity sample_breakdown) Long"
    by (simp add: sample_breakdown_def less_perp_atoms_def)
  then show ?thesis
    using close_input_errors[of "sample_capacity\<lparr>mc_capacity := PerSide (PerpAtoms 0) (PerpAtoms 3000)\<rparr>" sample_breakdown "Ratio 50000" Long]
    by (simp add: sample_capacity_def)
qed

end
