(* ===== verification/Circuit_Breaker.thy ===== *)
theory Circuit_Breaker
  imports SDK_Prelude
begin

text \<open>
  \<open>src/src/transport/health.rs\<close> and \<open>fault.rs\<close>: the circuit breaker of one RPC endpoint and the
  classification of a failed request. The smoothed error rate is a float and is not modelled; it
  feeds no decision. Timestamps and durations are milliseconds, as the code compares them.
\<close>

subsection \<open>The code: health of an endpoint\<close>

record breaker_config =
  failure_threshold :: u32
  recovery_timeout_ms :: u64
  half_open_max_requests :: u32

datatype reserved = Freely | Probe

datatype circuit_state =
    Closed
  | Open (since_ms: u64)
  | HalfOpen (probes_in_flight: u32)

record endpoint_health =
  eh_state :: circuit_state
  eh_config :: breaker_config
  eh_avg_latency_ns :: u64
  eh_total_requests :: u64
  eh_consecutive_failures :: u32

definition health_new :: "breaker_config \<Rightarrow> endpoint_health" where
  "health_new c = \<lparr>eh_state = Closed, eh_config = c, eh_avg_latency_ns = 0, eh_total_requests = 0,
     eh_consecutive_failures = 0\<rparr>"

definition reserve :: "u64 \<Rightarrow> endpoint_health \<Rightarrow> reserved option \<times> endpoint_health" where
  "reserve now_ms h =
     (case eh_state h of
        Closed \<Rightarrow> (Some Freely, h)
      | Open since \<Rightarrow>
          if recovery_timeout_ms (eh_config h) \<le> saturating_sub now_ms since
          then (Some Probe, h\<lparr>eh_state := HalfOpen 1\<rparr>) else (None, h)
      | HalfOpen n \<Rightarrow>
          if n < half_open_max_requests (eh_config h)
          then (Some Probe, h\<lparr>eh_state := HalfOpen (n + 1)\<rparr>) else (None, h))"

definition is_callable :: "u64 \<Rightarrow> endpoint_health \<Rightarrow> bool \<times> endpoint_health" where
  "is_callable now_ms h = (let (r, h) = reserve now_ms h in (r \<noteq> None, h))"

definition release_probe :: "endpoint_health \<Rightarrow> endpoint_health" where
  "release_probe h = (case eh_state h of
      HalfOpen n \<Rightarrow> h\<lparr>eh_state := HalfOpen (saturating_sub n 1)\<rparr>
    | _ \<Rightarrow> h)"

definition record_answered :: "endpoint_health \<Rightarrow> endpoint_health" where
  "record_answered h = release_probe (h\<lparr>eh_consecutive_failures := 0\<rparr>)"

definition record_success :: "u64 \<Rightarrow> endpoint_health \<Rightarrow> endpoint_health" where
  "record_success latency_ns h =
     h\<lparr>eh_avg_latency_ns := (if eh_total_requests h = 0 then latency_ns
           else saturating_add (saturating_mul (eh_avg_latency_ns h) 4) latency_ns div 5),
       eh_total_requests := eh_total_requests h + 1,
       eh_consecutive_failures := 0,
       eh_state := Closed\<rparr>"

definition record_failure :: "u64 \<Rightarrow> endpoint_health \<Rightarrow> endpoint_health" where
  "record_failure now_ms h =
     (let failures = eh_consecutive_failures h + 1 in
      h\<lparr>eh_consecutive_failures := failures,
        eh_state := (case eh_state h of
            Closed \<Rightarrow> if failure_threshold (eh_config h) \<le> failures then Open now_ms else Closed
          | HalfOpen _ \<Rightarrow> Open now_ms
          | Open _ \<Rightarrow> Open now_ms)\<rparr>)"

subsection \<open>The code: whose fault\<close>

datatype fault_class = EndpointFault | RequestFault

text \<open>
  Alloy's transport error in the distinctions \<open>fault\<close> draws. \<open>ErrorPayload::is_retry_err\<close> is
  Alloy's; it is the parameter \<open>retry_err\<close>, of the code and the message.
\<close>

datatype transport_error =
    ErrorResp int string
  | HttpError u32
  | SerError
  | DeserError
  | UnsupportedFeature
  | LocalUsage string
  | OtherError

definition is_rate_limit :: "(int \<Rightarrow> string \<Rightarrow> bool) \<Rightarrow> int \<Rightarrow> string \<Rightarrow> bool" where
  "is_rate_limit retry_err code message =
     (if code \<noteq> - 32005 then retry_err code message else retry_err 0 message)"

fun fault :: "(int \<Rightarrow> string \<Rightarrow> bool) \<Rightarrow> transport_error \<Rightarrow> fault_class" where
  "fault retry_err (ErrorResp code message) =
     (if is_rate_limit retry_err code message then EndpointFault else RequestFault)"
| "fault retry_err (HttpError status) =
     (if status = 408 \<or> status = 429 \<or> status = 503 then EndpointFault
      else if status = 401 \<or> status = 403 then EndpointFault
      else if 500 \<le> status \<and> status \<le> 599 then EndpointFault
      else RequestFault)"
| "fault retry_err SerError = RequestFault"
| "fault retry_err DeserError = EndpointFault"
| "fault retry_err UnsupportedFeature = RequestFault"
| "fault retry_err (LocalUsage _) = EndpointFault"
| "fault retry_err OtherError = EndpointFault"

definition record_error :: "(int \<Rightarrow> string \<Rightarrow> bool) \<Rightarrow> u64 \<Rightarrow> transport_error \<Rightarrow> endpoint_health \<Rightarrow> endpoint_health" where
  "record_error retry_err now_ms e h =
     (case fault retry_err e of
        EndpointFault \<Rightarrow> record_failure now_ms h
      | RequestFault \<Rightarrow> record_answered h)"

subsection \<open>The code: the packed mirror of the state\<close>

definition TAG_CLOSED :: u64 where "TAG_CLOSED = 0"

definition TAG_OPEN :: u64 where "TAG_OPEN = push_bit 62 1"

definition TAG_HALFOPEN :: u64 where "TAG_HALFOPEN = push_bit 62 2"

definition TAG_MASK :: u64 where "TAG_MASK = push_bit 62 3"

fun pack_state :: "circuit_state \<Rightarrow> u64" where
  "pack_state Closed = TAG_CLOSED"
| "pack_state (Open since) = TAG_OPEN OR (since AND NOT TAG_MASK)"
| "pack_state (HalfOpen n) = TAG_HALFOPEN OR ucast n"

subsection \<open>The breaker\<close>

lemmas breaker_ops = reserve_def release_probe_def record_answered_def record_success_def record_failure_def

text \<open>How many probe slots are taken.\<close>

fun probes :: "circuit_state \<Rightarrow> nat" where
  "probes (HalfOpen n) = unat n"
| "probes _ = 0"

lemma unat_Suc_below:
  fixes n m :: u32
  assumes "n < m" shows "unat (n + 1) = Suc (unat n)"
proof -
  have "unat n < unat m" using assms by (simp add: word_less_nat_alt)
  then have "Suc (unat n) < 2 ^ 32" using unsigned_less[of m, where 'a = nat] by simp
  then show ?thesis by (simp add: unat_word_ariths)
qed

lemma unat_pred: "unat (saturating_sub (n :: u32) 1) = unat n - 1"
proof (cases "n = 0")
  case False
  then have "1 \<le> n" by (simp add: word_le_nat_alt unat_gt_0 Suc_le_eq)
  then show ?thesis by (simp add: saturating_sub_def unat_sub)
qed (simp add: saturating_sub_def)

lemma reserve_probes:
  assumes "reserve now h = (r, h')"
  shows "eh_config h' = eh_config h"
    and "r = Some Probe \<Longrightarrow> probes (eh_state h') = Suc (probes (eh_state h))"
    and "r \<noteq> Some Probe \<Longrightarrow> h' = h"
    and "r = Some Freely \<longleftrightarrow> eh_state h = Closed"
  using assms by (auto simp: reserve_def unat_Suc_below split: circuit_state.splits if_splits)

lemma release_probe_probes [simp]:
  "probes (eh_state (release_probe h)) = probes (eh_state h) - 1"
  "eh_config (release_probe h) = eh_config h"
  by (simp_all add: release_probe_def unat_pred split: circuit_state.splits)

lemma record_answered_probes [simp]:
  "probes (eh_state (record_answered h)) = probes (eh_state h) - 1"
  "eh_config (record_answered h) = eh_config h"
  by (simp_all add: record_answered_def)

lemma record_success_probes [simp]:
  "probes (eh_state (record_success l h)) = 0" "eh_state (record_success l h) = Closed"
  "eh_config (record_success l h) = eh_config h"
  by (simp_all add: record_success_def)

lemma record_failure_probes [simp]:
  "probes (eh_state (record_failure t h)) = 0"
  "eh_config (record_failure t h) = eh_config h"
  by (simp_all add: record_failure_def Let_def split: circuit_state.splits)

lemma record_error_probes:
  "probes (eh_state (record_error re t e h)) \<le> probes (eh_state h) - 1"
  "eh_config (record_error re t e h) = eh_config h"
  by (simp_all add: record_error_def split: fault_class.splits)

text \<open>Half-open never lets more probes out than the configuration allows.\<close>

definition health_ok :: "endpoint_health \<Rightarrow> bool" where
  "health_ok h \<longleftrightarrow> probes (eh_state h) \<le> unat (half_open_max_requests (eh_config h))"

lemma health_ok_reserve:
  assumes "health_ok h" "0 < half_open_max_requests (eh_config h)" "reserve now h = (r, h')"
  shows "health_ok h'"
  using assms by (auto simp: health_ok_def reserve_def unat_Suc_below word_less_nat_alt
      split: circuit_state.splits if_splits)

text \<open>The mirror's tag tells a closed circuit from every other state.\<close>

lemma bit_TAG_MASK: "bit TAG_MASK n \<longleftrightarrow> 62 \<le> n \<and> n < 64"
proof -
  have "(3 :: u64) = mask 2" by (simp add: mask_eq_exp_minus_1)
  then have m: "TAG_MASK = push_bit 62 (mask 2)" by (simp only: TAG_MASK_def)
  show ?thesis unfolding m bit_push_bit_iff bit_mask_iff by auto
qed

lemma bit_TAG_OPEN: "bit TAG_OPEN n \<longleftrightarrow> n = 62"
  unfolding TAG_OPEN_def bit_push_bit_iff by (auto simp: bit_1_iff)

lemma bit_TAG_HALFOPEN: "bit TAG_HALFOPEN n \<longleftrightarrow> n = 63"
proof -
  have m: "TAG_HALFOPEN = push_bit 63 1" by (simp add: TAG_HALFOPEN_def push_bit_eq_mult)
  show ?thesis unfolding m bit_push_bit_iff by (auto simp: bit_1_iff)
qed

lemma pack_state_tag:
  "pack_state s AND TAG_MASK = (case s of Closed \<Rightarrow> TAG_CLOSED | Open _ \<Rightarrow> TAG_OPEN | HalfOpen _ \<Rightarrow> TAG_HALFOPEN)"
proof (cases s)
  case Closed
  then show ?thesis by (simp add: TAG_CLOSED_def)
next
  case (Open since)
  have "(TAG_OPEN OR (since AND NOT TAG_MASK)) AND TAG_MASK = TAG_OPEN"
    by (rule bit_eqI) (auto simp: bit_and_iff bit_or_iff bit_not_iff bit_TAG_MASK bit_TAG_OPEN)
  then show ?thesis using Open by simp
next
  case (HalfOpen n)
  have "(TAG_HALFOPEN OR ucast n) AND TAG_MASK = TAG_HALFOPEN"
    by (rule bit_eqI) (auto simp: bit_and_iff bit_or_iff bit_TAG_MASK bit_TAG_HALFOPEN bit_ucast_iff dest: bit_imp_le_length)
  then show ?thesis using HalfOpen by simp
qed

lemma tags_distinct [simp]: "TAG_OPEN \<noteq> TAG_CLOSED" "TAG_HALFOPEN \<noteq> TAG_CLOSED" "TAG_OPEN \<noteq> TAG_HALFOPEN"
  by (simp_all add: TAG_OPEN_def TAG_HALFOPEN_def TAG_CLOSED_def push_bit_eq_mult)

lemma pack_state_closed: "pack_state s AND TAG_MASK = TAG_CLOSED \<longleftrightarrow> s = Closed"
  unfolding pack_state_tag by (simp split: circuit_state.split)

end
