(* ===== verification/Endpoint_Pool.thy ===== *)
theory Endpoint_Pool
  imports Circuit_Breaker "HOL-Library.Multiset"
begin

text \<open>
  \<open>EndpointPool\<close> of \<open>src/src/transport/provider.rs\<close>: endpoints with a mutex-guarded health and
  lock-free mirrors of it, probe permits, and the selection strategies. A permit is the index of
  the endpoint whose probe slot it holds, or \<open>None\<close>; dropping it is \<open>drop_permit\<close>, resolving
  it has no effect of its own. An index is below the number of endpoints wherever it comes from a
  selection (\<open>select_runs\<close> and \<open>select_n_runs\<close> show it); the code would panic above it.

  The second half is the protocol the operations follow: steps on one endpoint at a time, each under
  its lock, interleaved in any order by any number of requests, with the permits that are out as a
  multiset. Selections are runs of the protocol, so its invariants hold of every schedule.
\<close>

subsection \<open>The code: one endpoint\<close>

record endpoint =
  ep_url :: string
  ep_health :: endpoint_health
  ep_latency :: u64
  ep_state :: u64

definition ep_record_success :: "u64 \<Rightarrow> endpoint \<Rightarrow> endpoint" where
  "ep_record_success latency_ns e =
     (let h = record_success latency_ns (ep_health e) in
      e\<lparr>ep_health := h, ep_latency := eh_avg_latency_ns h, ep_state := pack_state (eh_state h)\<rparr>)"

definition ep_release_probe :: "endpoint \<Rightarrow> endpoint" where
  "ep_release_probe e =
     (let h = release_probe (ep_health e) in e\<lparr>ep_health := h, ep_state := pack_state (eh_state h)\<rparr>)"

definition ep_record_answered :: "endpoint \<Rightarrow> endpoint" where
  "ep_record_answered e =
     (let h = record_answered (ep_health e) in e\<lparr>ep_health := h, ep_state := pack_state (eh_state h)\<rparr>)"

definition ep_record_failure :: "u64 \<Rightarrow> endpoint \<Rightarrow> endpoint" where
  "ep_record_failure now_ms e =
     (let h = record_failure now_ms (ep_health e) in e\<lparr>ep_health := h, ep_state := pack_state (eh_state h)\<rparr>)"

definition mirror_closed :: "endpoint \<Rightarrow> bool" where
  "mirror_closed e \<longleftrightarrow> ep_state e AND TAG_MASK = TAG_CLOSED"

subsection \<open>The code: the pool\<close>

record pool =
  endpoints :: "endpoint list"
  round_robin :: u64

text \<open>\<open>held\<close> of a \<open>ProbePermit\<close>.\<close>

type_synonym permit = "nat option"

definition endpoint_new :: "breaker_config \<Rightarrow> string \<Rightarrow> endpoint" where
  "endpoint_new cb_config url =
     \<lparr>ep_url = url, ep_health = health_new cb_config, ep_latency = 0, ep_state = TAG_CLOSED\<rparr>"

text \<open>Whether a URL parses is the \<open>url\<close> crate's, the parameter \<open>parses\<close>.\<close>

definition from_urls :: "(string \<Rightarrow> bool) \<Rightarrow> string list \<Rightarrow> breaker_config \<Rightarrow> pool result" where
  "from_urls parses urls cb_config =
     rbind (collect (\<lambda>url. if parses url then Inr (endpoint_new cb_config url) else Inl InvalidConfig) urls)
       (\<lambda>es. Inr \<lparr>endpoints = es, round_robin = 0\<rparr>)"

definition at_endpoint :: "nat \<Rightarrow> (endpoint \<Rightarrow> endpoint) \<Rightarrow> pool \<Rightarrow> pool" where
  "at_endpoint i f p = p\<lparr>endpoints := (endpoints p)[i := f (endpoints p ! i)]\<rparr>"

definition drop_permit :: "permit \<Rightarrow> pool \<Rightarrow> pool" where
  "drop_permit held p = (case held of None \<Rightarrow> p | Some i \<Rightarrow> at_endpoint i ep_release_probe p)"

definition reserve_at :: "nat \<Rightarrow> u64 \<Rightarrow> pool \<Rightarrow> permit option \<times> pool" where
  "reserve_at i now_ms p =
     (let (reserved, h) = reserve now_ms (ep_health (endpoints p ! i));
          p = at_endpoint i (\<lambda>e. e\<lparr>ep_health := h, ep_state := pack_state (eh_state h),
                                    ep_latency := eh_avg_latency_ns h\<rparr>) p
      in (case reserved of
            None \<Rightarrow> (None, p)
          | Some Probe \<Rightarrow> (Some (Some i), p)
          | Some Freely \<Rightarrow> (Some None, p)))"

fun first_reserved :: "u64 \<Rightarrow> nat list \<Rightarrow> pool \<Rightarrow> (nat \<times> permit) option \<times> pool" where
  "first_reserved now_ms [] p = (None, p)"
| "first_reserved now_ms (i # is) p =
     (case reserve_at i now_ms p of
        (Some permit, p) \<Rightarrow> (Some (i, permit), p)
      | (None, p) \<Rightarrow> first_reserved now_ms is p)"

text \<open>\<open>(start + i) % n\<close> for \<open>i\<close> from \<open>0\<close>, in a machine word.\<close>

definition scan_order :: "u64 \<Rightarrow> nat \<Rightarrow> nat list" where
  "scan_order start n = map (\<lambda>i. unat ((start + of_nat i) mod of_nat n)) [0..<n]"

definition select_round_robin :: "u64 \<Rightarrow> pool \<Rightarrow> (nat \<times> permit) option \<times> pool" where
  "select_round_robin now_ms p =
     (let order = scan_order (round_robin p) (length (endpoints p));
          p = p\<lparr>round_robin := round_robin p + 1\<rparr>
      in (case List.find (\<lambda>i. mirror_closed (endpoints p ! i)) order of
            Some i \<Rightarrow> (Some (i, None), p)
          | None \<Rightarrow> first_reserved now_ms order p))"

fun best_closed :: "nat \<Rightarrow> endpoint list \<Rightarrow> (nat \<times> u64) option \<Rightarrow> (nat \<times> u64) option" where
  "best_closed i [] best = best"
| "best_closed i (e # es) best =
     best_closed (i + 1) es
       (if mirror_closed e \<and> (case best of None \<Rightarrow> True | Some (_, l) \<Rightarrow> ep_latency e < l)
        then Some (i, ep_latency e) else best)"

fun best_reserved :: "u64 \<Rightarrow> nat list \<Rightarrow> (nat \<times> u64 \<times> permit) option \<Rightarrow> pool
    \<Rightarrow> (nat \<times> u64 \<times> permit) option \<times> pool" where
  "best_reserved now_ms [] best p = (best, p)"
| "best_reserved now_ms (i # is) best p =
     (case reserve_at i now_ms p of
        (None, p) \<Rightarrow> best_reserved now_ms is best p
      | (Some permit, p) \<Rightarrow>
          let latency = ep_latency (endpoints p ! i) in
          (case best of
             None \<Rightarrow> best_reserved now_ms is (Some (i, latency, permit)) p
           | Some (_, best_latency, best_permit) \<Rightarrow>
               if best_latency \<le> latency
               then best_reserved now_ms is best (drop_permit permit p)
               else best_reserved now_ms is (Some (i, latency, permit)) (drop_permit best_permit p)))"

definition select_latency_based :: "u64 \<Rightarrow> pool \<Rightarrow> (nat \<times> permit) option \<times> pool" where
  "select_latency_based now_ms p =
     (case best_closed 0 (endpoints p) None of
        Some (i, _) \<Rightarrow> (Some (i, None), p)
      | None \<Rightarrow>
          if (\<forall>e \<in> set (endpoints p). mirror_closed e) then (None, p)
          else (let (best, p) = best_reserved now_ms [0..<length (endpoints p)] None p in
            (map_option (\<lambda>(i, _, permit). (i, permit)) best, p)))"

fun open_candidates :: "u64 \<Rightarrow> nat list \<Rightarrow> pool \<Rightarrow> (nat \<times> u64 \<times> permit) list \<times> pool" where
  "open_candidates now_ms [] p = ([], p)"
| "open_candidates now_ms (i # is) p =
     (if mirror_closed (endpoints p ! i) then open_candidates now_ms is p
      else (case reserve_at i now_ms p of
          (None, p) \<Rightarrow> open_candidates now_ms is p
        | (Some permit, p) \<Rightarrow>
            let (cs, p') = open_candidates now_ms is p in
            ((i, ep_latency (endpoints p ! i), permit) # cs, p')))"

definition closed_candidates :: "pool \<Rightarrow> (nat \<times> u64 \<times> permit) list" where
  "closed_candidates p =
     map (\<lambda>i. (i, ep_latency (endpoints p ! i), None))
       (filter (\<lambda>i. mirror_closed (endpoints p ! i)) [0..<length (endpoints p)])"

text \<open>\<open>sort_unstable_by_key\<close> leaves the order of equal latencies open: the sort is a parameter.\<close>

definition select_n :: "((nat \<times> u64 \<times> permit) list \<Rightarrow> (nat \<times> u64 \<times> permit) list)
    \<Rightarrow> nat \<Rightarrow> u64 \<Rightarrow> pool \<Rightarrow> (nat \<times> permit) list \<times> pool" where
  "select_n sort_by_latency n now_ms p =
     (let closed = closed_candidates p;
          any_non_closed = (\<exists>e \<in> set (endpoints p). \<not> mirror_closed e);
          (opened, p) = (if length closed < n \<and> any_non_closed
             then open_candidates now_ms [0..<length (endpoints p)] p else ([], p));
          candidates = sort_by_latency (closed @ opened)
      in (map (\<lambda>(i, _, permit). (i, permit)) (take n candidates),
          fold (\<lambda>(_, _, permit). drop_permit permit) (drop n candidates) p))"

datatype strategy = RoundRobin | LatencyBased | Hedged nat

definition select :: "strategy \<Rightarrow> u64 \<Rightarrow> pool \<Rightarrow> (nat \<times> permit) option \<times> pool" where
  "select s now_ms p = (case s of
      RoundRobin \<Rightarrow> select_round_robin now_ms p
    | _ \<Rightarrow> select_latency_based now_ms p)"

definition pool_record_success :: "nat \<Rightarrow> u64 \<Rightarrow> pool \<Rightarrow> pool" where
  "pool_record_success i latency_ns = at_endpoint i (ep_record_success latency_ns)"

definition pool_record_failure :: "nat \<Rightarrow> u64 \<Rightarrow> pool \<Rightarrow> pool" where
  "pool_record_failure i now_ms = at_endpoint i (ep_record_failure now_ms)"

definition pool_record_error :: "(int \<Rightarrow> string \<Rightarrow> bool) \<Rightarrow> nat \<Rightarrow> u64 \<Rightarrow> transport_error \<Rightarrow> pool \<Rightarrow> pool" where
  "pool_record_error retry_err i now_ms e =
     (case fault retry_err e of
        EndpointFault \<Rightarrow> pool_record_failure i now_ms
      | RequestFault \<Rightarrow> at_endpoint i ep_record_answered)"

definition healthy_count :: "pool \<Rightarrow> nat" where
  "healthy_count p = length (filter mirror_closed (endpoints p))"

record endpoint_status =
  es_state :: circuit_state
  es_avg_latency_ns :: u64
  es_total_requests :: u64
  es_consecutive_failures :: u32

definition status :: "endpoint_health \<Rightarrow> endpoint_status" where
  "status h = \<lparr>es_state = eh_state h, es_avg_latency_ns = eh_avg_latency_ns h,
     es_total_requests = eh_total_requests h, es_consecutive_failures = eh_consecutive_failures h\<rparr>"

definition health_status :: "pool \<Rightarrow> endpoint_status list" where
  "health_status p = map (\<lambda>e. status (ep_health e)) (endpoints p)"

subsection \<open>The permit protocol\<close>

text \<open>
  A ticket is the right to send one request: the endpoint and the permit that came with it. The state is
  the pool and the tickets that are out. \<open>Take\<close> and \<open>Refuse\<close> are \<open>reserve\<close> under the endpoint's
  lock, \<open>Fast\<close> is the lock-free path, which may act on a stale mirror, and the others end a request.
\<close>

type_synonym protocol_state = "pool \<times> (nat \<times> permit) multiset"

inductive pool_step :: "(int \<Rightarrow> string \<Rightarrow> bool) \<Rightarrow> protocol_state \<Rightarrow> protocol_state \<Rightarrow> bool"
  for retry_err where
  Turn: "pool_step retry_err (p, M) (p\<lparr>round_robin := r\<rparr>, M)"
| Fast: "i < length (endpoints p) \<Longrightarrow> pool_step retry_err (p, M) (p, add_mset (i, None) M)"
| Take: "i < length (endpoints p) \<Longrightarrow> reserve_at i now_ms p = (Some permit, p')
    \<Longrightarrow> pool_step retry_err (p, M) (p', add_mset (i, permit) M)"
| Refuse: "i < length (endpoints p) \<Longrightarrow> reserve_at i now_ms p = (None, p')
    \<Longrightarrow> pool_step retry_err (p, M) (p', M)"
| Drop: "pool_step retry_err (p, add_mset (i, permit) M) (drop_permit permit p, M)"
| Succeed: "pool_step retry_err (p, add_mset (i, permit) M) (pool_record_success i latency_ns p, M)"
| Fail: "pool_step retry_err (p, add_mset (i, permit) M) (pool_record_failure i now_ms p, M)"
| Decline: "pool_step retry_err (p, add_mset (i, permit) M) (pool_record_error retry_err i now_ms e p, M)"

abbreviation pool_steps :: "(int \<Rightarrow> string \<Rightarrow> bool) \<Rightarrow> protocol_state \<Rightarrow> protocol_state \<Rightarrow> bool" where
  "pool_steps retry_err \<equiv> (pool_step retry_err)\<^sup>*\<^sup>*"

text \<open>A pool as \<open>from_urls\<close> leaves it: every circuit closed, one configuration for all.\<close>

definition fresh_pool :: "breaker_config \<Rightarrow> pool \<Rightarrow> bool" where
  "fresh_pool c p \<longleftrightarrow> (\<forall>e \<in> set (endpoints p). ep_health e = health_new c \<and> ep_latency e = 0
     \<and> ep_state e = TAG_CLOSED)"

definition reachable :: "(int \<Rightarrow> string \<Rightarrow> bool) \<Rightarrow> breaker_config \<Rightarrow> protocol_state \<Rightarrow> bool" where
  "reachable retry_err c s \<longleftrightarrow> (\<exists>p. fresh_pool c p \<and> pool_steps retry_err (p, {#}) s)"

subsection \<open>The invariant\<close>

text \<open>The slots taken on endpoint \<open>i\<close>, and the permits out for it.\<close>

definition slots :: "pool \<Rightarrow> nat \<Rightarrow> nat" where
  "slots p i = probes (eh_state (ep_health (endpoints p ! i)))"

definition held :: "(nat \<times> permit) multiset \<Rightarrow> nat \<Rightarrow> nat" where
  "held M i = count (image_mset snd M) (Some i)"

definition synced :: "endpoint \<Rightarrow> bool" where
  "synced e \<longleftrightarrow> ep_state e = pack_state (eh_state (ep_health e)) \<and> ep_latency e = eh_avg_latency_ns (ep_health e)"

definition endpoint_ok :: "breaker_config \<Rightarrow> endpoint \<Rightarrow> bool" where
  "endpoint_ok c e \<longleftrightarrow> synced e \<and> eh_config (ep_health e) = c
     \<and> (0 < half_open_max_requests c \<longrightarrow> health_ok (ep_health e))"

definition pool_inv :: "breaker_config \<Rightarrow> protocol_state \<Rightarrow> bool" where
  "pool_inv c s \<longleftrightarrow>
     (\<forall>e \<in> set (endpoints (fst s)). endpoint_ok c e)
     \<and> (\<forall>i < length (endpoints (fst s)). slots (fst s) i \<le> held (snd s) i)
     \<and> (\<forall>t \<in># snd s. fst t < length (endpoints (fst s)) \<and> (snd t = None \<or> snd t = Some (fst t)))"

lemma length_at_endpoint [simp]: "length (endpoints (at_endpoint i f p)) = length (endpoints p)"
  by (simp add: at_endpoint_def)

lemma nth_at_endpoint:
  "j < length (endpoints p) \<Longrightarrow>
     endpoints (at_endpoint i f p) ! j = (if i = j then f (endpoints p ! j) else endpoints p ! j)"
  by (simp add: at_endpoint_def nth_list_update)

lemma slots_at_endpoint:
  "j < length (endpoints p) \<Longrightarrow>
     slots (at_endpoint i f p) j = (if i = j then probes (eh_state (ep_health (f (endpoints p ! j)))) else slots p j)"
  by (simp add: slots_def nth_at_endpoint)

lemma held_simps [simp]:
  "held {#} i = 0"
  "held (add_mset (j, permit) M) i = (if permit = Some i then 1 else 0) + held M i"
  "held (M + N) i = held M i + held N i"
  by (simp_all add: held_def)

lemmas endpoint_ops = ep_record_success_def ep_release_probe_def ep_record_answered_def ep_record_failure_def Let_def

lemma endpoint_op_probes:
  "probes (eh_state (ep_health (ep_release_probe e))) = probes (eh_state (ep_health e)) - 1"
  "probes (eh_state (ep_health (ep_record_answered e))) = probes (eh_state (ep_health e)) - 1"
  "probes (eh_state (ep_health (ep_record_success l e))) = 0"
  "probes (eh_state (ep_health (ep_record_failure t e))) = 0"
  by (simp_all add: endpoint_ops)

lemma latency_kept [simp]:
  "eh_avg_latency_ns (release_probe h) = eh_avg_latency_ns h"
  "eh_avg_latency_ns (record_answered h) = eh_avg_latency_ns h"
  "eh_avg_latency_ns (record_failure t h) = eh_avg_latency_ns h"
  by (simp_all add: record_answered_def release_probe_def record_failure_def Let_def split: circuit_state.splits)

lemma endpoint_op_ok:
  assumes "endpoint_ok c e"
  shows "endpoint_ok c (ep_release_probe e)" "endpoint_ok c (ep_record_answered e)"
    and "endpoint_ok c (ep_record_success l e)" "endpoint_ok c (ep_record_failure t e)"
  using assms by (auto simp: endpoint_ok_def synced_def endpoint_ops health_ok_def)

lemma reserve_at_cases:
  assumes "reserve_at i now p = (r, p')"
  obtains q h where "reserve now (ep_health (endpoints p ! i)) = (q, h)"
    and "p' = at_endpoint i (\<lambda>e. e\<lparr>ep_health := h, ep_state := pack_state (eh_state h), ep_latency := eh_avg_latency_ns h\<rparr>) p"
    and "r = (case q of None \<Rightarrow> None | Some Probe \<Rightarrow> Some (Some i) | Some Freely \<Rightarrow> Some None)"
  using assms by (auto simp: reserve_at_def Let_def split: prod.splits option.splits reserved.splits)

lemma pool_invD:
  assumes "pool_inv c (p, M)"
  shows "i < length (endpoints p) \<Longrightarrow> endpoint_ok c (endpoints p ! i)"
    and "i < length (endpoints p) \<Longrightarrow> probes (eh_state (ep_health (endpoints p ! i))) \<le> held M i"
    and "(i, permit) \<in># M \<Longrightarrow> i < length (endpoints p) \<and> (permit = None \<or> permit = Some i)"
  using assms by (force simp: pool_inv_def slots_def)+

lemma pool_inv_at:
  assumes "pool_inv c (p, M)"
    and "i < length (endpoints p) \<Longrightarrow> endpoint_ok c (f (endpoints p ! i))"
    and "i < length (endpoints p) \<Longrightarrow> probes (eh_state (ep_health (f (endpoints p ! i)))) \<le> held N i"
    and "\<And>j. j \<noteq> i \<Longrightarrow> held M j \<le> held N j"
    and "\<And>t. t \<in># N \<Longrightarrow> fst t < length (endpoints p) \<and> (snd t = None \<or> snd t = Some (fst t))"
  shows "pool_inv c (at_endpoint i f p, N)"
proof -
  have "endpoint_ok c e" if "e \<in> set (endpoints (at_endpoint i f p))" for e
    using that assms(2) pool_invD(1)[OF assms(1)] by (auto simp: in_set_conv_nth nth_at_endpoint)
  moreover have "slots (at_endpoint i f p) j \<le> held N j" if "j < length (endpoints p)" for j
    using that assms(1,3) assms(4)[of j] by (fastforce simp: pool_inv_def slots_at_endpoint)
  ultimately show ?thesis using assms(5) by (simp add: pool_inv_def)
qed

text \<open>An outcome settles its ticket: whatever slot the ticket held is free again.\<close>

lemma pool_inv_settle:
  assumes inv: "pool_inv c (p, add_mset (i, permit) M)"
    and ok: "\<And>e. endpoint_ok c e \<Longrightarrow> endpoint_ok c (f e)"
    and pr: "\<And>e. probes (eh_state (ep_health (f e))) \<le> probes (eh_state (ep_health e)) - 1"
  shows "pool_inv c (at_endpoint i f p, M)"
proof (rule pool_inv_at[OF inv])
  note d = pool_invD[OF inv]
  from d(3)[of i permit] have p: "permit = None \<or> permit = Some i" by simp
  show "endpoint_ok c (f (endpoints p ! i))" if "i < length (endpoints p)" using ok d(1)[OF that] .
  show "probes (eh_state (ep_health (f (endpoints p ! i)))) \<le> held M i" if "i < length (endpoints p)"
    using d(2)[OF that] pr[of "endpoints p ! i"] by (simp split: if_splits)
  show "held (add_mset (i, permit) M) j \<le> held M j" if "j \<noteq> i" for j using p that by auto
  show "fst t < length (endpoints p) \<and> (snd t = None \<or> snd t = Some (fst t))" if "t \<in># M" for t
    using that d(3)[of "fst t" "snd t"] by simp
qed

lemma pool_inv_forget:
  assumes "pool_inv c (p, add_mset (i, None) M)" shows "pool_inv c (p, M)"
  using assms by (simp add: pool_inv_def)

lemma reserve_endpoint_ok:
  assumes "endpoint_ok c e" "reserve now (ep_health e) = (q, h)"
  shows "endpoint_ok c (e\<lparr>ep_health := h, ep_state := pack_state (eh_state h), ep_latency := eh_avg_latency_ns h\<rparr>)"
  using assms reserve_probes(1)[OF assms(2)] health_ok_reserve[OF _ _ assms(2)]
  by (simp add: endpoint_ok_def synced_def)

lemma pool_inv_reserve:
  assumes inv: "pool_inv c (p, M)" and i: "i < length (endpoints p)" and r: "reserve_at i now p = (r, p')"
  shows "pool_inv c (p', case r of None \<Rightarrow> M | Some permit \<Rightarrow> add_mset (i, permit) M)"
proof -
  note d = pool_invD[OF inv]
  from r obtain q h where q: "reserve now (ep_health (endpoints p ! i)) = (q, h)"
    and p': "p' = at_endpoint i (\<lambda>e. e\<lparr>ep_health := h, ep_state := pack_state (eh_state h), ep_latency := eh_avg_latency_ns h\<rparr>) p"
    and r': "r = (case q of None \<Rightarrow> None | Some Probe \<Rightarrow> Some (Some i) | Some Freely \<Rightarrow> Some None)"
    by (rule reserve_at_cases)
  note rp = reserve_probes[OF q]
  show ?thesis unfolding p'
  proof (rule pool_inv_at[OF inv])
    show "probes (eh_state (ep_health ((endpoints p ! i)\<lparr>ep_health := h, ep_state := pack_state (eh_state h),
        ep_latency := eh_avg_latency_ns h\<rparr>))) \<le> held (case r of None \<Rightarrow> M | Some permit \<Rightarrow> add_mset (i, permit) M) i"
      if "i < length (endpoints p)"
      using d(2)[OF that] rp(2,3) r' by (auto split: option.splits reserved.splits)
    show "fst t < length (endpoints p) \<and> (snd t = None \<or> snd t = Some (fst t))"
      if "t \<in># (case r of None \<Rightarrow> M | Some permit \<Rightarrow> add_mset (i, permit) M)" for t
      using that r' i d(3)[of "fst t" "snd t"] by (cases t) (auto split: option.splits reserved.splits)
  qed (use r' d(1) reserve_endpoint_ok q in \<open>auto split: option.splits reserved.splits\<close>)
qed

lemma pool_inv_step:
  assumes "pool_step retry_err s s'" "pool_inv c s" shows "pool_inv c s'"
  using assms
proof (induction rule: pool_step.induct)
  case (Turn p M r)
  then show ?case by (simp add: pool_inv_def slots_def)
next
  case (Fast i p M)
  then show ?case by (auto simp: pool_inv_def)
next
  case (Take i p now permit p' M)
  then show ?case using pool_inv_reserve[OF Take.prems Take.hyps] by simp
next
  case (Refuse i p now p' M)
  then show ?case using pool_inv_reserve[OF Refuse.prems Refuse.hyps] by simp
next
  case (Drop p i permit M)
  then have "permit = None \<or> permit = Some i" using pool_invD(3)[of c p _ i permit] by auto
  then show ?case
  proof
    assume "permit = None"
    then show ?thesis using pool_inv_forget Drop by (simp add: drop_permit_def)
  next
    assume "permit = Some i"
    then show ?thesis using pool_inv_settle[OF Drop, of ep_release_probe]
      by (simp add: drop_permit_def endpoint_op_ok endpoint_op_probes)
  qed
next
  case (Succeed p i permit M l)
  then show ?case unfolding pool_record_success_def
    by (rule pool_inv_settle) (simp_all add: endpoint_op_ok endpoint_op_probes)
next
  case (Fail p i permit M now)
  then show ?case unfolding pool_record_failure_def
    by (rule pool_inv_settle) (simp_all add: endpoint_op_ok endpoint_op_probes)
next
  case (Decline p i permit M now e)
  show ?case unfolding pool_record_error_def pool_record_failure_def
    by (cases "fault retry_err e")
      (use pool_inv_settle[OF Decline] in \<open>simp_all add: endpoint_op_ok endpoint_op_probes\<close>)
qed

lemma pool_inv_steps:
  assumes "pool_steps retry_err s s'" "pool_inv c s" shows "pool_inv c s'"
  using assms by (induction rule: rtranclp_induct) (simp_all add: pool_inv_step)

lemma pool_inv_fresh: "fresh_pool c p \<Longrightarrow> pool_inv c (p, {#})"
  by (auto simp: pool_inv_def fresh_pool_def endpoint_ok_def synced_def health_new_def health_ok_def slots_def)

lemma reachable_inv: "reachable retry_err c s \<Longrightarrow> pool_inv c s"
  unfolding reachable_def using pool_inv_fresh pool_inv_steps by blast

subsection \<open>Selections are runs of the protocol\<close>

lemma length_reserve_at: "reserve_at i now p = (r, p') \<Longrightarrow> length (endpoints p') = length (endpoints p)"
  by (auto elim!: reserve_at_cases)

lemma length_drop_permit [simp]: "length (endpoints (drop_permit permit p)) = length (endpoints p)"
  by (simp add: drop_permit_def split: option.splits)

lemma length_records [simp]:
  "length (endpoints (pool_record_success i l p)) = length (endpoints p)"
  "length (endpoints (pool_record_failure i t p)) = length (endpoints p)"
  "length (endpoints (pool_record_error retry_err i t e p)) = length (endpoints p)"
  by (simp_all add: pool_record_success_def pool_record_failure_def pool_record_error_def split: fault_class.splits)

lemma length_pool_step: "pool_step retry_err s s' \<Longrightarrow> length (endpoints (fst s')) = length (endpoints (fst s))"
  by (induction rule: pool_step.induct) (simp_all add: length_reserve_at)

lemma length_pool_steps: "pool_steps retry_err s s' \<Longrightarrow> length (endpoints (fst s')) = length (endpoints (fst s))"
  by (induction rule: rtranclp_induct) (simp_all add: length_pool_step)

definition ticket :: "nat \<times> u64 \<times> permit \<Rightarrow> nat \<times> permit" where
  "ticket c = (case c of (i, _, permit) \<Rightarrow> (i, permit))"

lemma ticket_simps [simp]: "ticket (i, l, permit) = (i, permit)"
  by (simp add: ticket_def)

lemma ticket_fun: "(\<lambda>(i, _, permit). (i, permit)) = ticket"
  by (auto simp: ticket_def)

definition taken :: "'t option \<Rightarrow> 't multiset" where
  "taken t = (case t of None \<Rightarrow> {#} | Some x \<Rightarrow> {#x#})"

lemma taken_simps [simp]: "taken None = {#}" "taken (Some x) = {#x#}"
  by (simp_all add: taken_def)

lemma reserve_at_runs:
  assumes "i < length (endpoints p)" "reserve_at i now p = (r, p')"
  shows "pool_step retry_err (p, M) (p', taken (map_option (Pair i) r) + M)"
  using assms by (cases r) (auto intro: Take Refuse)

lemma drop_runs: "pool_step retry_err (p, add_mset (i, permit) M) (drop_permit permit p, M)"
  by (rule Drop)

lemma steps_trans: "pool_step retry_err s s' \<Longrightarrow> pool_steps retry_err s' s'' \<Longrightarrow> pool_steps retry_err s s''"
  by (rule converse_rtranclp_into_rtranclp)

lemma first_reserved_runs:
  assumes "\<forall>i \<in> set is. i < length (endpoints p)" "first_reserved now is p = (r, p')"
  shows "pool_steps retry_err (p, M) (p', taken r + M)"
  using assms
proof (induction "now" "is" p rule: first_reserved.induct)
  case (2 "now" i "is" p)
  obtain q p1 where q: "reserve_at i now p = (q, p1)" by force
  then have s: "pool_step retry_err (p, M) (p1, taken (map_option (Pair i) q) + M)"
    using 2 by (intro reserve_at_runs) auto
  show ?case
  proof (cases q)
    case None
    then have "pool_steps retry_err (p1, M) (p', taken r + M)"
      using 2 q by (intro 2(1)[OF q[symmetric]]) (auto simp: length_reserve_at)
    then show ?thesis using s None by (auto intro: steps_trans)
  next
    case (Some permit)
    then show ?thesis using s 2 q by auto
  qed
qed auto

lemma best_reserved_runs:
  assumes "\<forall>i \<in> set is. i < length (endpoints p)" "best_reserved now is best p = (best', p')"
  shows "pool_steps retry_err (p, taken (map_option ticket best) + M) (p', taken (map_option ticket best') + M)"
  using assms
proof (induction "is" arbitrary: best p)
  case (Cons i "is")
  obtain q p1 where q: "reserve_at i now p = (q, p1)" by force
  have len: "length (endpoints p1) = length (endpoints p)" using length_reserve_at q .
  have s: "pool_step retry_err (p, taken (map_option ticket best) + M)
      (p1, taken (map_option (Pair i) q) + (taken (map_option ticket best) + M))"
    using Cons.prems q by (intro reserve_at_runs) auto
  show ?case
  proof (cases q)
    case None
    then show ?thesis using s Cons q len by (auto intro!: steps_trans[OF s])
  next
    case (Some permit)
    let ?l = "ep_latency (endpoints p1 ! i)"
    show ?thesis
    proof (cases best)
      case None
      then show ?thesis
        using s Cons.prems q len Some Cons.IH[of p1 "Some (i, ?l, permit)"] by (auto intro: steps_trans)
    next
      case b: (Some b)
      obtain bi bl bp where bb: "b = (bi, bl, bp)" by (cases b)
      have s1: "pool_step retry_err (p, add_mset (bi, bp) M) (p1, add_mset (i, permit) (add_mset (bi, bp) M))"
        using s Some b bb by (simp add: add_mset_commute)
      show ?thesis
      proof (cases "bl \<le> ?l")
        case True
        have "pool_step retry_err (p1, add_mset (i, permit) (add_mset (bi, bp) M)) (drop_permit permit p1, add_mset (bi, bp) M)"
          by (rule Drop)
        moreover have "pool_steps retry_err (drop_permit permit p1, add_mset (bi, bp) M) (p', taken (map_option ticket best') + M)"
          using Cons.IH[of "drop_permit permit p1" best] Cons.prems q len Some b bb True by simp
        ultimately show ?thesis using s1 b bb by (auto intro: steps_trans)
      next
        case False
        have "pool_step retry_err (p1, add_mset (bi, bp) (add_mset (i, permit) M)) (drop_permit bp p1, add_mset (i, permit) M)"
          by (rule Drop)
        moreover have "pool_steps retry_err (drop_permit bp p1, add_mset (i, permit) M) (p', taken (map_option ticket best') + M)"
          using Cons.IH[of "drop_permit bp p1" "Some (i, ?l, permit)"] Cons.prems q len Some b bb False by simp
        moreover have "pool_step retry_err (p, add_mset (bi, bp) M) (p1, add_mset (bi, bp) (add_mset (i, permit) M))"
          using s1 by (simp add: add_mset_commute)
        ultimately show ?thesis using b bb by (auto intro: steps_trans)
      qed
    qed
  qed
qed simp

lemma scan_order_below: "i \<in> set (scan_order start n) \<Longrightarrow> n < 2 ^ 64 \<Longrightarrow> i < n"
proof -
  assume i: "i \<in> set (scan_order start n)" and n: "n < 2 ^ 64"
  then have "0 < n" by (auto simp: scan_order_def)
  with n have u: "unat (of_nat n :: u64) = n" by (simp add: unat_of_nat)
  from i obtain k where "i = unat ((start + of_nat k) mod of_nat n)" by (auto simp: scan_order_def)
  then have "i = unat (start + of_nat k) mod n" by (simp add: unat_mod_distrib u)
  with \<open>0 < n\<close> show "i < n" by simp
qed

lemma best_closed_below:
  "best_closed k es best = Some (i, l) \<Longrightarrow> best = Some (i, l) \<or> (k \<le> i \<and> i < k + length es)"
  by (induction k es best rule: best_closed.induct) (auto split: if_splits option.splits)

text \<open>Selecting an endpoint is a run of the protocol that ends with the permit it returns, and no other, out.\<close>

lemma select_runs:
  assumes "select st now p = (r, p')" "length (endpoints p) < 2 ^ 64"
  shows "pool_steps retry_err (p, M) (p', taken r + M)"
proof -
  have rr: "pool_steps retry_err (p, M) (p', taken r + M)" if s: "select_round_robin now p = (r, p')"
  proof -
    let ?order = "scan_order (round_robin p) (length (endpoints p))"
    let ?p = "p\<lparr>round_robin := round_robin p + 1\<rparr>"
    have below: "\<forall>i \<in> set ?order. i < length (endpoints ?p)" using assms(2) scan_order_below by auto
    have turn: "pool_step retry_err (p, M) (?p, M)" by (rule Turn)
    show ?thesis
    proof (cases "List.find (\<lambda>i. mirror_closed (endpoints p ! i)) ?order")
      case None
      then show ?thesis using s first_reserved_runs[OF below] turn
        by (auto simp: select_round_robin_def Let_def intro: steps_trans)
    next
      case (Some i)
      then have "i < length (endpoints ?p)" using below by (auto simp: find_Some_iff)
      then have "pool_step retry_err (?p, M) (?p, add_mset (i, None) M)" by (rule Fast)
      then show ?thesis using s Some turn
        by (auto simp: select_round_robin_def Let_def intro: steps_trans)
    qed
  qed
  have lb: "pool_steps retry_err (p, M) (p', taken r + M)" if s: "select_latency_based now p = (r, p')"
  proof (cases "best_closed 0 (endpoints p) None")
    case None
    show ?thesis
    proof (cases "\<forall>e \<in> set (endpoints p). mirror_closed e")
      case True
      then show ?thesis using s None by (simp add: select_latency_based_def)
    next
      case False
      obtain b p1 where b: "best_reserved now [0..<length (endpoints p)] None p = (b, p1)" by force
      then have "r = map_option ticket b" "p' = p1"
        using s None False by (auto simp: select_latency_based_def ticket_fun)
      then show ?thesis using best_reserved_runs[OF _ b, of retry_err M] by simp
    qed
  next
    case (Some t)
    then have "fst t < length (endpoints p)" using best_closed_below[of 0 "endpoints p" None "fst t" "snd t"] by simp
    then show ?thesis using s Some Fast[of "fst t" p retry_err M]
      by (auto simp: select_latency_based_def split: prod.splits)
  qed
  show ?thesis using assms(1) rr lb by (simp add: select_def split: strategy.splits)
qed

lemma open_candidates_runs:
  assumes "\<forall>i \<in> set is. i < length (endpoints p)" "open_candidates now is p = (cs, p')"
  shows "pool_steps retry_err (p, M) (p', mset (map ticket cs) + M)"
  using assms
proof (induction "is" arbitrary: p cs M p')
  case (Cons i "is")
  show ?case
  proof (cases "mirror_closed (endpoints p ! i)")
    case True
    then show ?thesis using Cons by simp
  next
    case False
    obtain q p1 where q: "reserve_at i now p = (q, p1)" by force
    have len: "length (endpoints p1) = length (endpoints p)" using length_reserve_at q .
    have s: "pool_step retry_err (p, M) (p1, taken (map_option (Pair i) q) + M)"
      using Cons.prems q by (intro reserve_at_runs) auto
    show ?thesis
    proof (cases q)
      case None
      then show ?thesis using s Cons q len False by (auto intro!: steps_trans[OF s])
    next
      case (Some permit)
      obtain cs1 p2 where cs1: "open_candidates now is p1 = (cs1, p2)" by force
      have "pool_steps retry_err (p1, add_mset (i, permit) M) (p2, mset (map ticket cs1) + add_mset (i, permit) M)"
        using Cons.IH[OF _ cs1, of "add_mset (i, permit) M"] Cons.prems(1) len by simp
      then show ?thesis using s Cons.prems q Some False cs1 by (auto simp: Let_def intro: steps_trans)
    qed
  qed
qed simp

lemma drops_run:
  "pool_steps retry_err (p, mset (map ticket cs) + M) (fold (\<lambda>(_, _, permit). drop_permit permit) cs p, M)"
proof (induction cs arbitrary: p)
  case (Cons c cs)
  obtain i l permit where c: "c = (i, l, permit)" by (cases c)
  then show ?case using Cons.IH[of "drop_permit permit p"]
    by (auto intro: steps_trans[OF drop_runs])
qed simp

lemma closed_candidates_run:
  assumes "set cs \<subseteq> set (closed_candidates p)"
  shows "pool_steps retry_err (p, M) (p, mset (map ticket cs) + M)"
  using assms
proof (induction cs arbitrary: M)
  case (Cons c cs)
  then obtain i where "c = (i, ep_latency (endpoints p ! i), None)" "i < length (endpoints p)"
    by (auto simp: closed_candidates_def)
  then have "pool_step retry_err (p, M) (p, add_mset (ticket c) M)" by (auto intro: Fast)
  moreover have "pool_steps retry_err (p, add_mset (ticket c) M) (p, mset (map ticket cs) + add_mset (ticket c) M)"
    using Cons.IH[of "add_mset (ticket c) M"] Cons.prems by simp
  ultimately show ?case by (auto intro: steps_trans)
qed simp

text \<open>A hedged selection ends with the permits it returns out: those truncated away are given back.\<close>

lemma select_n_runs:
  assumes s: "select_n srt n now p = (ts, p')" and srt: "\<And>cs. mset (srt cs) = mset cs"
  shows "pool_steps retry_err (p, M) (p', mset ts + M)"
proof -
  let ?cl = "closed_candidates p"
  have cl: "pool_steps retry_err (p, M) (p, mset (map ticket ?cl) + M)" by (rule closed_candidates_run) simp
  obtain op p1 where op: "(if length ?cl < n \<and> (\<exists>e \<in> set (endpoints p). \<not> mirror_closed e)
      then open_candidates now [0..<length (endpoints p)] p else ([], p)) = (op, p1)" by force
  have o1: "pool_steps retry_err (p, mset (map ticket ?cl) + M) (p1, mset (map ticket op) + (mset (map ticket ?cl) + M))"
    using open_candidates_runs[of "[0..<length (endpoints p)]" p] op by (auto split: if_splits)
  let ?all = "srt (?cl @ op)"
  have ts: "ts = map ticket (take n ?all)" and p': "p' = fold (\<lambda>(_, _, permit). drop_permit permit) (drop n ?all) p1"
    using s op by (auto simp: select_n_def Let_def ticket_fun)
  have "mset (map ticket op) + (mset (map ticket ?cl) + M) = mset (map ticket ?all) + M"
    by (simp only: mset_map srt mset_append image_mset_union ac_simps)
  also have "mset (map ticket ?all) = mset (map ticket (take n ?all @ drop n ?all))" by simp
  also have "\<dots> = mset (map ticket (drop n ?all)) + mset ts"
    unfolding ts map_append mset_append by (rule add.commute)
  finally have eq: "mset (map ticket op) + (mset (map ticket ?cl) + M) = mset (map ticket (drop n ?all)) + (mset ts + M)"
    by (simp only: add.assoc)
  show ?thesis
    using cl o1 drops_run[of retry_err p1 "drop n ?all" "mset ts + M"] unfolding eq p'[symmetric] by (meson rtranclp_trans)
qed

subsection \<open>An endpoint that can take a request is found\<close>

definition reservable :: "u64 \<Rightarrow> endpoint_health \<Rightarrow> bool" where
  "reservable now_ms h \<longleftrightarrow> (case eh_state h of
      Closed \<Rightarrow> True
    | Open since \<Rightarrow> recovery_timeout_ms (eh_config h) \<le> saturating_sub now_ms since
    | HalfOpen n \<Rightarrow> n < half_open_max_requests (eh_config h))"

definition ready :: "u64 \<Rightarrow> pool \<Rightarrow> nat \<Rightarrow> bool" where
  "ready now_ms p i \<longleftrightarrow> i < length (endpoints p) \<and> reservable now_ms (ep_health (endpoints p ! i))"

lemma reserve_at_refuses: "reserve_at i now p = (r, p') \<Longrightarrow> r = None \<longleftrightarrow> \<not> reservable now (ep_health (endpoints p ! i))"
  by (auto simp: reserve_at_def reserve_def reservable_def Let_def
      split: prod.splits option.splits reserved.splits circuit_state.splits if_splits)

lemma ready_at_other: "i \<noteq> j \<Longrightarrow> ready now (at_endpoint j f p) i = ready now p i"
  by (auto simp: ready_def nth_at_endpoint)

lemma ready_reserve_other: "reserve_at j now p = (r, p') \<Longrightarrow> i \<noteq> j \<Longrightarrow> ready now p' i = ready now p i"
  by (auto elim!: reserve_at_cases simp: ready_at_other)

lemma ready_reserve_refused: "reserve_at j now p = (None, p') \<Longrightarrow> ready now p i \<Longrightarrow> i \<noteq> j"
  using reserve_at_refuses[of j "now" p None p'] by (auto simp: ready_def)

lemma first_reserved_finds:
  "i \<in> set is \<Longrightarrow> ready now p i \<Longrightarrow> fst (first_reserved now is p) \<noteq> None"
proof (induction "is" arbitrary: p)
  case (Cons j "is")
  obtain q p1 where q: "reserve_at j now p = (q, p1)" by force
  show ?case
  proof (cases q)
    case None
    then show ?thesis
      using Cons.IH[of p1] Cons.prems q ready_reserve_refused[of j "now" p p1 i]
      by (auto simp: ready_reserve_other simp del: not_None_eq)
  qed (use q in simp)
qed simp

lemma best_reserved_keeps: "best \<noteq> None \<Longrightarrow> fst (best_reserved now is best p) \<noteq> None"
proof (induction "is" arbitrary: best p)
  case (Cons j "is")
  then show ?case by (auto simp: Let_def simp del: not_None_eq split: prod.splits option.splits)
qed simp

lemma best_reserved_finds:
  "i \<in> set is \<Longrightarrow> ready now p i \<Longrightarrow> fst (best_reserved now is best p) \<noteq> None"
proof (induction "is" arbitrary: best p)
  case (Cons j "is")
  obtain q p1 where q: "reserve_at j now p = (q, p1)" by force
  show ?case
  proof (cases q)
    case None
    then show ?thesis
      using Cons.IH[of p1 best] Cons.prems q ready_reserve_refused[of j "now" p p1 i]
      by (auto simp: ready_reserve_other simp del: not_None_eq)
  next
    case (Some permit)
    then show ?thesis using q
      by (auto simp: Let_def best_reserved_keeps simp del: not_None_eq split: prod.splits option.splits)
  qed
qed simp

lemma scan_order_covers:
  assumes "uint start + int n < 2 ^ 64" "i < n" shows "i \<in> set (scan_order start n)"
proof -
  define s where "s = unat start"
  have "int (s + n) = uint start + int n" by (simp add: s_def)
  then have "int (s + n) < int (2 ^ 64)" using assms(1) by simp
  then have s: "s + n < 2 ^ 64" by (simp only: of_nat_less_iff)
  define k where "k = (i + (n - s mod n)) mod n"
  have k: "k < n" using assms(2) by (simp add: k_def)
  have "(s + k) mod n = (s mod n + (i + (n - s mod n))) mod n"
    unfolding k_def by (simp only: mod_add_left_eq mod_add_right_eq)
  also have "s mod n + (i + (n - s mod n)) = i + n"
    using assms(2) mod_less_divisor[of n s] by arith
  also have "(i + n) mod n = i" using assms(2) by simp
  finally have sk: "(s + k) mod n = i" .
  have u: "unat (start + of_nat k) = s + k"
  proof -
    have "unat (of_nat k :: u64) = k" using s k by (simp add: unat_of_nat)
    then show ?thesis using s k by (simp add: unat_word_ariths(1) s_def[symmetric])
  qed
  have "unat (of_nat n :: u64) = n" using s by (simp add: unat_of_nat)
  then have "unat ((start + of_nat k) mod of_nat n) = i" by (simp add: unat_mod_distrib u sk)
  then show ?thesis using k by (auto simp: scan_order_def)
qed

lemma best_closed_None: "best_closed k es best = None \<longleftrightarrow> best = None \<and> (\<forall>e \<in> set es. \<not> mirror_closed e)"
proof (induction es arbitrary: k best)
  case (Cons e es)
  show ?case unfolding best_closed.simps Cons.IH by (cases best) auto
qed simp

lemma select_finds:
  assumes "ready now p i" "\<forall>e \<in> set (endpoints p). synced e"
    and "uint (round_robin p) + int (length (endpoints p)) < 2 ^ 64"
  shows "fst (select st now p) \<noteq> None"
proof -
  have i: "i < length (endpoints p)" using assms(1) by (simp add: ready_def)
  have "fst (select_round_robin now p) \<noteq> None"
    using first_reserved_finds[OF scan_order_covers[OF assms(3) i], of "now" "p\<lparr>round_robin := round_robin p + 1\<rparr>"] assms(1)
    by (auto simp: select_round_robin_def Let_def ready_def split: option.splits)
  moreover have "fst (select_latency_based now p) \<noteq> None"
  proof (cases "mirror_closed (endpoints p ! i)")
    case True
    then have "best_closed 0 (endpoints p) None \<noteq> None" using i by (auto simp: best_closed_None simp del: not_None_eq)
    then show ?thesis by (auto simp: select_latency_based_def)
  next
    case False
    have "fst (best_reserved now [0..<length (endpoints p)] None p) \<noteq> None"
      using best_reserved_finds[of i _ "now" p] assms(1) i by simp
    then show ?thesis using False i
      by (auto simp: select_latency_based_def split: option.splits prod.splits)
  qed
  ultimately show ?thesis by (simp add: select_def split: strategy.splits)
qed

subsection \<open>The latency-based choice\<close>

lemma best_closed_least:
  assumes "best_closed k es best = Some (i, l)"
  shows "(\<forall>j < length es. mirror_closed (es ! j) \<longrightarrow> l \<le> ep_latency (es ! j))
    \<and> (\<forall>bi bl. best = Some (bi, bl) \<longrightarrow> l \<le> bl)
    \<and> (best = Some (i, l) \<or> k \<le> i \<and> i < k + length es \<and> mirror_closed (es ! (i - k)) \<and> l = ep_latency (es ! (i - k)))"
  using assms
proof (induction k es best rule: best_closed.induct)
  case (2 k e es best)
  let ?b = "if mirror_closed e \<and> (case best of None \<Rightarrow> True | Some (_, l) \<Rightarrow> ep_latency e < l)
        then Some (k, ep_latency e) else best"
  note IH = "2.IH"[OF "2.prems"[unfolded best_closed.simps]]
  have e: "mirror_closed e \<Longrightarrow> l \<le> ep_latency e"
    using IH by (cases best) (auto split: if_splits)
  have all: "\<forall>j < length (e # es). mirror_closed ((e # es) ! j) \<longrightarrow> l \<le> ep_latency ((e # es) ! j)"
    using IH e by (simp add: less_Suc_eq_0_disj nth_Cons split: nat.split)
  have b: "\<forall>bi bl. best = Some (bi, bl) \<longrightarrow> l \<le> bl"
    using IH by (cases best) (auto split: if_splits)
  have m: "best = Some (i, l) \<or> k \<le> i \<and> i < k + length (e # es)
      \<and> mirror_closed ((e # es) ! (i - k)) \<and> l = ep_latency ((e # es) ! (i - k))"
  proof (cases "?b = Some (i, l)")
    case True
    then show ?thesis by (auto split: if_splits)
  next
    case False
    then have i: "k + 1 \<le> i" and r: "i < k + 1 + length es" "mirror_closed (es ! (i - (k + 1)))"
      "l = ep_latency (es ! (i - (k + 1)))" using IH by blast+
    from i have "i - k = Suc (i - (k + 1))" by simp
    with i r show ?thesis by simp
  qed
  from all b m show ?case by blast
qed simp

definition latency :: "pool \<Rightarrow> nat \<Rightarrow> u64" where
  "latency p i = ep_latency (endpoints p ! i)"

lemma latency_reserve:
  assumes "reserve_at j now p = (r, p')" "\<forall>e \<in> set (endpoints p). synced e" "i < length (endpoints p)"
  shows "latency p' i = latency p i"
  using assms
  by (auto elim!: reserve_at_cases simp: latency_def nth_at_endpoint synced_def reserve_def
      split: circuit_state.splits if_splits)

lemma synced_reserve:
  assumes "reserve_at j now p = (r, p')" "\<forall>e \<in> set (endpoints p). synced e"
  shows "\<forall>e \<in> set (endpoints p'). synced e"
  using assms
  by (auto elim!: reserve_at_cases simp: at_endpoint_def synced_def dest!: set_update_subset_insert[THEN subsetD])

lemma latency_drop [simp]:
  "i < length (endpoints p) \<Longrightarrow> latency (drop_permit permit p) i = latency p i"
  by (cases permit) (auto simp: latency_def drop_permit_def nth_at_endpoint ep_release_probe_def Let_def)

lemma synced_drop:
  assumes "\<forall>e \<in> set (endpoints p). synced e"
  shows "\<forall>e \<in> set (endpoints (drop_permit permit p)). synced e"
  using assms
  by (cases permit) (force simp: drop_permit_def in_set_conv_nth nth_at_endpoint synced_def endpoint_ops)+

lemma best_reserved_least:
  assumes "best_reserved now is best p = (Some (i, l, permit), p')"
    and "distinct is" "\<forall>j \<in> set is. j < length (endpoints p)" "\<forall>e \<in> set (endpoints p). synced e"
    and "\<forall>bi bl bp. best = Some (bi, bl, bp) \<longrightarrow> bi < length (endpoints p) \<and> bl = latency p bi \<and> (bp = None \<or> bp = Some bi)"
    and "\<forall>bi bl bp. best = Some (bi, bl, bp) \<longrightarrow> bi \<notin> set is"
  shows "(\<forall>j \<in> set is. ready now p j \<longrightarrow> l \<le> latency p j)
    \<and> (\<forall>bi bl bp. best = Some (bi, bl, bp) \<longrightarrow> l \<le> bl)
    \<and> l = latency p i \<and> (best = Some (i, l, permit) \<or> i \<in> set is \<and> ready now p i)"
  using assms
proof (induction "is" arbitrary: best p)
  case (Cons j "is")
  obtain q p1 where q: "reserve_at j now p = (q, p1)" by force
  have jn: "j < length (endpoints p)" "j \<notin> set is" "distinct is" using Cons.prems(2,3) by auto
  have below: "\<forall>k \<in> set is. k < length (endpoints p)" using Cons.prems(3) by simp
  note len = length_reserve_at[OF q]
  have sy: "\<forall>e \<in> set (endpoints p1). synced e" using synced_reserve[OF q Cons.prems(4)] .
  have lat: "k < length (endpoints p) \<Longrightarrow> latency p1 k = latency p k" for k
    using latency_reserve[OF q Cons.prems(4)] .
  have rdy: "k \<in> set is \<Longrightarrow> ready now p1 k = ready now p k" for k
    using ready_reserve_other[OF q, of k] jn by auto
  have refuse: "q = None \<longleftrightarrow> \<not> ready now p j" using reserve_at_refuses[OF q] jn by (simp add: ready_def)
  have syd: "\<forall>e \<in> set (endpoints (drop_permit pm p1)). synced e" for pm
    using synced_drop[OF sy] .
  have rdyd: "pm = None \<or> pm = Some m \<Longrightarrow> m \<notin> set is \<Longrightarrow> k \<in> set is \<Longrightarrow> ready now (drop_permit pm p1) k = ready now p k" for pm m k
    using rdy[of k] ready_at_other[of k m "now" ep_release_probe p1] by (cases "k = m") (auto simp: drop_permit_def)
  show ?case
  proof (cases q)
    case None
    then show ?thesis
      using Cons.IH[of best p1] Cons.prems q jn below len sy lat rdy refuse by auto
  next
    case (Some pm)
    have pm: "pm = None \<or> pm = Some j" using q Some by (auto elim!: reserve_at_cases split: option.splits reserved.splits)
    have rj: "ready now p j" using refuse Some by simp
    show ?thesis
    proof (cases best)
      case None
      have "best_reserved now is (Some (j, latency p1 j, pm)) p1 = (Some (i, l, permit), p')"
        using Cons.prems(1) q Some None by (simp add: latency_def)
      note IH = Cons.IH[OF this jn(3)]
      show ?thesis using IH below len sy jn pm lat rdy rj None by auto
    next
      case b: (Some b)
      obtain bi bl bp where bb: "b = (bi, bl, bp)" by (cases b)
      have bi: "bi < length (endpoints p)" "bl = latency p bi" "bp = None \<or> bp = Some bi" "bi \<notin> set is"
        using Cons.prems(5,6) b bb by auto
      show ?thesis
      proof (cases "bl \<le> latency p1 j")
        case True
        have "best_reserved now is best (drop_permit pm p1) = (Some (i, l, permit), p')"
          using Cons.prems(1) q Some b bb True by (simp add: latency_def)
        note IH = Cons.IH[OF this jn(3)]
        have "(\<forall>k \<in> set is. ready now (drop_permit pm p1) k \<longrightarrow> l \<le> latency (drop_permit pm p1) k)
            \<and> (\<forall>bi bl bp. best = Some (bi, bl, bp) \<longrightarrow> l \<le> bl)
            \<and> l = latency (drop_permit pm p1) i \<and> (best = Some (i, l, permit) \<or> i \<in> set is \<and> ready now (drop_permit pm p1) i)"
          by (rule IH) (use below len syd[of pm] bi b bb lat in simp_all)
        then have A: "\<forall>k \<in> set is. ready now (drop_permit pm p1) k \<longrightarrow> l \<le> latency (drop_permit pm p1) k"
          and B: "l \<le> bl" and C: "l = latency (drop_permit pm p1) i"
          and D: "best = Some (i, l, permit) \<or> i \<in> set is \<and> ready now (drop_permit pm p1) i" using b bb by blast+
        have i: "i < length (endpoints p)" using D bi(1) b bb below by auto
        have r: "\<forall>k \<in> set is. ready now p k \<longrightarrow> l \<le> latency p k"
          using A rdyd[OF pm jn(2)] lat below len by simp
        have "l \<le> latency p j" using B True lat[OF jn(1)] by simp
        moreover have "l = latency p i" using C i len lat[OF i] by simp
        ultimately show ?thesis using r B D rdyd[OF pm jn(2)] b bb by auto
      next
        case False
        have "best_reserved now is (Some (j, latency p1 j, pm)) (drop_permit bp p1) = (Some (i, l, permit), p')"
          using Cons.prems(1) q Some b bb False by (simp add: latency_def)
        note IH = Cons.IH[OF this jn(3)]
        have "(\<forall>k \<in> set is. ready now (drop_permit bp p1) k \<longrightarrow> l \<le> latency (drop_permit bp p1) k)
            \<and> (\<forall>mi ml mp. Some (j, latency p1 j, pm) = Some (mi, ml, mp) \<longrightarrow> l \<le> ml)
            \<and> l = latency (drop_permit bp p1) i \<and> (Some (j, latency p1 j, pm) = Some (i, l, permit) \<or> i \<in> set is \<and> ready now (drop_permit bp p1) i)"
          by (rule IH) (use below len syd[of bp] jn pm lat in simp_all)
        then have A: "\<forall>k \<in> set is. ready now (drop_permit bp p1) k \<longrightarrow> l \<le> latency (drop_permit bp p1) k"
          and B: "l \<le> latency p1 j" and C: "l = latency (drop_permit bp p1) i"
          and D: "j = i \<or> i \<in> set is \<and> ready now (drop_permit bp p1) i" by blast+
        have i: "i < length (endpoints p)" using D jn(1) below by auto
        have r: "\<forall>k \<in> set is. ready now p k \<longrightarrow> l \<le> latency p k"
          using A rdyd[OF bi(3,4)] lat below len by simp
        have "l \<le> latency p j" "l \<le> bl" using B False lat[OF jn(1)] by simp_all
        moreover have "l = latency p i" using C i len lat[OF i] by simp
        ultimately show ?thesis using r D rdyd[OF bi(3,4)] b bb rj by auto
      qed
    qed
  qed
qed auto

lemma latency_selection:
  assumes "select_latency_based now p = (Some (i, permit), p')" "\<forall>e \<in> set (endpoints p). synced e"
  shows "if \<exists>e \<in> set (endpoints p). eh_state (ep_health e) = Closed
     then i < length (endpoints p) \<and> eh_state (ep_health (endpoints p ! i)) = Closed \<and> permit = None \<and> p' = p
       \<and> (\<forall>j < length (endpoints p). eh_state (ep_health (endpoints p ! j)) = Closed \<longrightarrow> latency p i \<le> latency p j)
     else ready now p i \<and> (\<forall>j < length (endpoints p). ready now p j \<longrightarrow> latency p i \<le> latency p j)"
proof -
  have mirror: "e \<in> set (endpoints p) \<Longrightarrow> mirror_closed e \<longleftrightarrow> eh_state (ep_health e) = Closed" for e
    using assms(2) by (simp add: mirror_closed_def synced_def pack_state_closed)
  have nth_mirror: "j < length (endpoints p) \<Longrightarrow> mirror_closed (endpoints p ! j) \<longleftrightarrow> eh_state (ep_health (endpoints p ! j)) = Closed" for j
    by (rule mirror) simp
  show ?thesis
  proof (cases "best_closed 0 (endpoints p) None")
    case None
    then have none: "\<not> (\<exists>e \<in> set (endpoints p). eh_state (ep_health e) = Closed)"
      using mirror by (auto simp: best_closed_None)
    obtain b p1 where b: "best_reserved now [0..<length (endpoints p)] None p = (b, p1)" by force
    then obtain l where l: "b = Some (i, l, permit)"
      using assms(1) None by (auto simp: select_latency_based_def split: if_splits)
    from best_reserved_least[OF b[unfolded l]] assms(2) none show ?thesis by auto
  next
    case (Some t)
    then obtain l where l: "best_closed 0 (endpoints p) None = Some (i, l)" and "permit = None" "p' = p"
      using assms(1) Some by (cases t) (simp add: select_latency_based_def)
    with best_closed_least[OF l] nth_mirror show ?thesis
      by (auto simp: latency_def)
  qed
qed

subsection \<open>Properties\<close>

lemma accounted:
  assumes "reachable retry_err c (p, M)" "i < length (endpoints p)"
  shows "slots p i \<le> held M i"
    and "0 < half_open_max_requests c \<Longrightarrow> slots p i \<le> unat (half_open_max_requests c)"
    and "mirror_closed (endpoints p ! i) \<longleftrightarrow> eh_state (ep_health (endpoints p ! i)) = Closed"
    and "ep_latency (endpoints p ! i) = eh_avg_latency_ns (ep_health (endpoints p ! i))"
    and "synced (endpoints p ! i)" "eh_config (ep_health (endpoints p ! i)) = c"
proof -
  note inv = reachable_inv[OF assms(1)]
  show "slots p i \<le> held M i" using inv assms(2) by (simp add: pool_inv_def)
  from pool_invD(1)[OF inv assms(2)] have ok: "endpoint_ok c (endpoints p ! i)" .
  then show "0 < half_open_max_requests c \<Longrightarrow> slots p i \<le> unat (half_open_max_requests c)"
    by (auto simp: endpoint_ok_def health_ok_def slots_def)
  show "mirror_closed (endpoints p ! i) \<longleftrightarrow> eh_state (ep_health (endpoints p ! i)) = Closed"
    using ok by (simp add: endpoint_ok_def synced_def mirror_closed_def pack_state_closed)
  show "ep_latency (endpoints p ! i) = eh_avg_latency_ns (ep_health (endpoints p ! i))"
    "synced (endpoints p ! i)" "eh_config (ep_health (endpoints p ! i)) = c"
    using ok by (simp_all add: endpoint_ok_def synced_def)
qed

lemma recovers:
  assumes r: "reachable retry_err c (p, M)" and i: "i < length (endpoints p)"
    and h: "held M i = 0" "0 < half_open_max_requests c"
    and o: "\<And>since. eh_state (ep_health (endpoints p ! i)) = Open since
      \<Longrightarrow> recovery_timeout_ms c \<le> saturating_sub now since"
    and n: "uint (round_robin p) + int (length (endpoints p)) < 2 ^ 64"
  shows "fst (select st now p) \<noteq> None"
proof (rule select_finds[OF _ _ n])
  note a = accounted[OF r i]
  have "n = 0" if "eh_state (ep_health (endpoints p ! i)) = HalfOpen n" for n
    using a(1) h(1) that by (simp add: slots_def unat_eq_0)
  then show "ready now p i" using i h(2) o a(6)
    by (auto simp: ready_def reservable_def split: circuit_state.split)
  show "\<forall>e \<in> set (endpoints p). synced e" using accounted(5)[OF r] by (auto simp: in_set_conv_nth)
qed

text \<open>Sample pools for the witnesses.\<close>

definition sample_breaker :: breaker_config where
  "sample_breaker = \<lparr>failure_threshold = 1, recovery_timeout_ms = 0, half_open_max_requests = 1\<rparr>"

definition sample_pool :: pool where
  "sample_pool = \<lparr>endpoints = [endpoint_new sample_breaker ''a'', endpoint_new sample_breaker ''b''], round_robin = 0\<rparr>"

lemma fresh_sample: "fresh_pool sample_breaker sample_pool"
  by (simp add: fresh_pool_def sample_pool_def endpoint_new_def)

lemma reachable_sample: "reachable retry_err sample_breaker (sample_pool, {#})"
  unfolding reachable_def using fresh_sample by blast

text \<open>C7: The permit accounting of a pool, over every interleaving of requests: the probe slots taken on an
  endpoint never exceed the permits out for it, so a slot always has somebody who will give it
  back, and never exceed the configured maximum; the lock-free mirrors of state and latency agree
  with the health they mirror.
\<close>

theorem probe_slots_accounted:
  assumes "reachable retry_err c (p, M)" "i < length (endpoints p)"
  shows "slots p i \<le> held M i
    \<and> (half_open_max_requests c = 0 \<or> slots p i \<le> unat (half_open_max_requests c))
    \<and> (mirror_closed (endpoints p ! i) \<longleftrightarrow> eh_state (ep_health (endpoints p ! i)) = Closed)
    \<and> ep_latency (endpoints p ! i) = eh_avg_latency_ns (ep_health (endpoints p ! i))"
proof -
  have "half_open_max_requests c = 0 \<or> 0 < half_open_max_requests c" by (auto simp: word_gt_0)
  then show ?thesis using accounted(1-4)[OF assms] by blast
qed

theorem probe_slots_accounted_witness:
  "slots sample_pool 1 \<le> held {#} 1 \<and> (mirror_closed (endpoints sample_pool ! 1) \<longleftrightarrow>
     eh_state (ep_health (endpoints sample_pool ! 1)) = Closed)"
proof -
  have i: "1 < length (endpoints sample_pool)" by (simp add: sample_pool_def)
  show ?thesis using probe_slots_accounted[OF reachable_sample i] by blast
qed

text \<open>C25: No probe slot is stranded: in every reachable state, an endpoint with no permit out for it
  whose circuit is closed, half-open, or open for the recovery time makes every selection strategy
  find an endpoint (as long as at least one probe is configured, and the round-robin counter has
  not come within the number of endpoints of its wrap).
\<close>

theorem no_probe_slot_stranded:
  assumes "reachable retry_err c (p, M)" "i < length (endpoints p)"
    and "held M i = 0" "0 < half_open_max_requests c"
    and "\<And>since. eh_state (ep_health (endpoints p ! i)) = Open since
      \<Longrightarrow> recovery_timeout_ms c \<le> saturating_sub now_ms since"
    and "uint (round_robin p) + int (length (endpoints p)) < 2 ^ 64"
  shows "fst (select st now_ms p) \<noteq> None"
  using assms by (rule recovers)

theorem no_probe_slot_stranded_witness: "fst (select RoundRobin 0 sample_pool) \<noteq> None"
  by (rule no_probe_slot_stranded[OF reachable_sample, where i = 0])
    (simp_all add: sample_pool_def sample_breaker_def endpoint_new_def health_new_def)

text \<open>The latency-based choice: with a closed circuit in the pool it is a closed one of least
  average latency, takes no slot and changes nothing; with none it is, among the endpoints that
  could take a request, one of least latency.
\<close>

theorem latency_selection_least:
  assumes "select_latency_based now_ms p = (Some (i, permit), p')" "\<forall>e \<in> set (endpoints p). synced e"
  shows "if \<exists>e \<in> set (endpoints p). eh_state (ep_health e) = Closed
     then i < length (endpoints p) \<and> eh_state (ep_health (endpoints p ! i)) = Closed \<and> permit = None \<and> p' = p
       \<and> (\<forall>j < length (endpoints p). eh_state (ep_health (endpoints p ! j)) = Closed \<longrightarrow> latency p i \<le> latency p j)
     else ready now_ms p i \<and> (\<forall>j < length (endpoints p). ready now_ms p j \<longrightarrow> latency p i \<le> latency p j)"
  using assms by (rule latency_selection)

definition sample_open_pool :: pool where
  "sample_open_pool = pool_record_failure 1 7 (pool_record_failure 0 5 (pool_record_success 0 40 sample_pool))"

lemmas sample_pool_simps = sample_open_pool_def sample_pool_def sample_breaker_def endpoint_new_def health_new_def
  pool_record_failure_def pool_record_success_def at_endpoint_def endpoint_ops record_success_def record_failure_def

theorem latency_selection_least_witness:
  "select_latency_based 9 sample_open_pool = (Some (1, Some 1), snd (select_latency_based 9 sample_open_pool))
   \<and> latency sample_open_pool 1 \<le> latency sample_open_pool 0"
proof -
  have s: "select_latency_based 9 sample_open_pool = (Some (1, Some 1), snd (select_latency_based 9 sample_open_pool))"
    by (simp add: select_latency_based_def sample_pool_simps mirror_closed_def pack_state_closed
        reserve_at_def reserve_def saturating_sub_def drop_permit_def
        pack_state_closed[of "Open _", simplified])
  have sy: "\<forall>e \<in> set (endpoints sample_open_pool). synced e"
    by (simp add: sample_pool_simps synced_def)
  have "ready 9 sample_open_pool 0"
    by (simp add: ready_def reservable_def sample_pool_simps saturating_sub_def)
  moreover have "\<not> (\<exists>e \<in> set (endpoints sample_open_pool). eh_state (ep_health e) = Closed)"
    by (simp add: sample_pool_simps)
  ultimately show ?thesis using latency_selection_least[OF s sy] s by (auto simp: ready_def)
qed

text \<open>C26: The limit on probes is kept by the counter but not by the requests: a request sent while the circuit
  was closed, and declined after it has gone half-open, gives back a slot it never took. With one
  probe configured, two permits for one half-open endpoint can then be out at once.
\<close>

theorem probe_limit_exceeded_by_late_decline:
  "\<exists>p M. reachable retry_err sample_breaker (p, M) \<and> half_open_max_requests sample_breaker = 1 \<and> held M 0 = 2"
proof -
  let ?p0 = sample_pool
  let ?p1 = "pool_record_failure 0 0 ?p0"
  let ?p2 = "snd (reserve_at 0 0 ?p1)"
  let ?p3 = "pool_record_error retry_err 0 0 SerError ?p2"
  let ?p4 = "snd (reserve_at 0 0 ?p3)"
  have len: "0 < length (endpoints ?p0)" "0 < length (endpoints ?p1)" "0 < length (endpoints ?p3)"
    by (simp_all add: sample_pool_simps pool_record_error_def reserve_at_def reserve_def saturating_sub_def)
  have r1: "reserve_at 0 0 ?p1 = (Some (Some 0), ?p2)"
    by (simp add: sample_pool_simps reserve_at_def reserve_def saturating_sub_def)
  have r2: "reserve_at 0 0 ?p3 = (Some (Some 0), ?p4)"
    by (simp add: sample_pool_simps reserve_at_def reserve_def saturating_sub_def pool_record_error_def
        ep_record_answered_def record_answered_def release_probe_def)
  have "pool_steps retry_err (?p0, {#}) (?p4, {#(0, Some 0), (0, Some 0)#})"
    using Fast[OF len(1), of retry_err "{#}"] Fast[OF len(1), of retry_err "{#(0, None)#}"]
      Fail[of retry_err ?p0 0 None "{#(0, None)#}" 0] Take[OF len(2) r1, of retry_err "{#(0, None)#}"]
      Decline[of retry_err ?p2 0 None "{#(0, Some 0)#}" 0 SerError] Take[OF len(3) r2, of retry_err "{#(0, Some 0)#}"]
    by (auto simp: add_mset_commute intro!: converse_rtranclp_into_rtranclp)
  then have "reachable retry_err sample_breaker (?p4, {#(0, Some 0), (0, Some 0)#})"
    unfolding reachable_def using fresh_sample by blast
  moreover have "half_open_max_requests sample_breaker = 1" by (simp add: sample_breaker_def)
  moreover have "held {#(0, Some 0), (0, Some 0)#} 0 = 2" by simp
  ultimately show ?thesis by blast
qed

end
