(* ===== verification/Rpc_Router.thy ===== *)
theory Rpc_Router
  imports Endpoint_Pool
begin

text \<open>
  The transport's configuration (\<open>src/src/transport/config.rs\<close>) and its router
  (\<open>Router\<close> and \<open>HftTransport\<close> of \<open>provider.rs\<close>): which pool a request goes to, the retries of
  a standard request and the fan-out of a hedged read. The network is a record of functions, a
  parameter of every definition here: what an endpoint answers to the call of an attempt, how long
  it took, what the clock says, in which order hedged requests report. Labels, redaction and tracing are
  not modelled; a request is its method names.
\<close>

subsection \<open>The code: configuration\<close>

record retry_config =
  max_retries :: u32
  base_delay_ns :: nat

record transport_config =
  shared_endpoints :: "string list"
  read_endpoints :: "string list"
  write_endpoints :: "string list"
  ws_endpoint :: "string option"
  request_timeout_ms :: nat
  cfg_strategy :: strategy
  circuit_breaker :: breaker_config
  read_retry :: retry_config
  write_retry :: retry_config

definition config_default :: transport_config where
  "config_default = \<lparr>shared_endpoints = [], read_endpoints = [], write_endpoints = [], ws_endpoint = None,
     request_timeout_ms = 5000, cfg_strategy = LatencyBased,
     circuit_breaker = \<lparr>failure_threshold = 3, recovery_timeout_ms = 30000, half_open_max_requests = 1\<rparr>,
     read_retry = \<lparr>max_retries = 2, base_delay_ns = 100000000\<rparr>,
     write_retry = \<lparr>max_retries = 3, base_delay_ns = 500000000\<rparr>\<rparr>"

definition config_build :: "transport_config \<Rightarrow> transport_config result" where
  "config_build b =
     (let total = length (shared_endpoints b) + length (read_endpoints b) + length (write_endpoints b) in
      if total = 0 then Inl InvalidConfig
      else if write_endpoints b = [] \<and> shared_endpoints b = [] then Inl InvalidConfig
      else if (case cfg_strategy b of Hedged n \<Rightarrow> n < 2 | _ \<Rightarrow> False) then Inl InvalidConfig
      else Inr b)"

subsection \<open>The code: the router\<close>

datatype pool_name = Shared | Read | Write

record router =
  rt_shared :: pool
  rt_read :: pool
  rt_write :: pool
  rt_config :: transport_config
  get_proof_unsupported :: bool

definition transport_new :: "(string \<Rightarrow> bool) \<Rightarrow> transport_config \<Rightarrow> router result" where
  "transport_new parses config =
     (let cb = circuit_breaker config in
      rbind (from_urls parses (shared_endpoints config) cb) (\<lambda>shared.
      rbind (from_urls parses (read_endpoints config) cb) (\<lambda>read.
      rbind (from_urls parses (write_endpoints config) cb) (\<lambda>write.
      Inr \<lparr>rt_shared = shared, rt_read = read, rt_write = write, rt_config = config,
           get_proof_unsupported = False\<rparr>))))"

fun pool_of :: "pool_name \<Rightarrow> router \<Rightarrow> pool" where
  "pool_of Shared r = rt_shared r"
| "pool_of Read r = rt_read r"
| "pool_of Write r = rt_write r"

fun set_pool :: "pool_name \<Rightarrow> pool \<Rightarrow> router \<Rightarrow> router" where
  "set_pool Shared p r = r\<lparr>rt_shared := p\<rparr>"
| "set_pool Read p r = r\<lparr>rt_read := p\<rparr>"
| "set_pool Write p r = r\<lparr>rt_write := p\<rparr>"

definition transport_health :: "router \<Rightarrow> endpoint_status list" where
  "transport_health r = health_status (rt_shared r) @ health_status (rt_read r) @ health_status (rt_write r)"

definition transport_healthy_count :: "router \<Rightarrow> nat" where
  "transport_healthy_count r = healthy_count (rt_shared r) + healthy_count (rt_read r) + healthy_count (rt_write r)"

definition supports_get_proof :: "router \<Rightarrow> bool" where
  "supports_get_proof r = (\<not> get_proof_unsupported r)"

definition note_get_proof_unsupported :: "router \<Rightarrow> router" where
  "note_get_proof_unsupported r = r\<lparr>get_proof_unsupported := True\<rparr>"

definition is_write_method_name :: "string \<Rightarrow> bool" where
  "is_write_method_name m \<longleftrightarrow> m = ''eth_sendRawTransaction'' \<or> m = ''eth_sendTransaction''"

datatype request = Single string | Batch "string list"

fun is_write_method :: "request \<Rightarrow> bool" where
  "is_write_method (Single call) = is_write_method_name call"
| "is_write_method (Batch calls) = list_ex is_write_method_name calls"

definition select_for :: "bool \<Rightarrow> u64 \<Rightarrow> router \<Rightarrow> (pool_name \<times> nat \<times> permit) option \<times> router" where
  "select_for is_write now_ms r =
     (let strategy = cfg_strategy (rt_config r);
          dedicated = (if is_write then Write else Read);
          (chosen, r) = (if endpoints (pool_of dedicated r) = [] then (None, r)
             else (let (t, p) = select strategy now_ms (pool_of dedicated r) in (t, set_pool dedicated p r)))
      in (case chosen of
            Some t \<Rightarrow> (Some (dedicated, t), r)
          | None \<Rightarrow> (let (t, p) = select strategy now_ms (rt_shared r) in
              (map_option (Pair Shared) t, set_pool Shared p r))))"

definition read_pool :: "router \<Rightarrow> pool_name" where
  "read_pool r = (if 0 < healthy_count (rt_read r) then Read else Shared)"

subsection \<open>The code: a standard request\<close>

text \<open>
  \<open>'r\<close> is the type of responses; \<open>first_error_code\<close> says which carry a JSON-RPC error. \<open>clock\<close> and
  \<open>elapsed\<close> are read at each attempt. A hedged fan-out to a list of endpoints reports as \<open>reports\<close> says.
\<close>

datatype 'r answer = Answered 'r | Erred transport_error | TimedOut

datatype 'r report = Reported nat "'r answer" u64 | Cancelled | TaskPanicked

record 'r network =
  clock :: "nat \<Rightarrow> u64"
  answer_at :: "nat \<Rightarrow> pool_name \<Rightarrow> nat \<Rightarrow> 'r answer"
  elapsed_at :: "nat \<Rightarrow> u64"
  reports_of :: "nat list \<Rightarrow> 'r report list"
  retry_err_of :: "int \<Rightarrow> string \<Rightarrow> bool"
  first_error_code :: "'r \<Rightarrow> int option"
  unstable_sort :: "(nat \<times> u64 \<times> permit) list \<Rightarrow> (nat \<times> u64 \<times> permit) list"

datatype 'r routed = Response 'r | Failed transport_error | RoutePanic

definition is_retriable :: "'r network \<Rightarrow> 'r \<Rightarrow> bool" where
  "is_retriable w resp \<longleftrightarrow> first_error_code w resp \<noteq> None"

text \<open>
  \<open>base_delay * 2u32.saturating_pow(attempt)\<close>, which panics when the product has more than 64 bits of
  seconds.
\<close>

definition backoff :: "nat \<Rightarrow> nat \<Rightarrow> nat option" where
  "backoff base attempt =
     (let d = base * (if attempt < 32 then 2 ^ attempt else 2 ^ 32 - 1) in
      if d < 2 ^ 64 * 10 ^ 9 then Some d else None)"

text \<open>
  The body of the retry loop up to the backoff: whether the request is over, and with what, or goes
  on with the last error. The call sent, if any, is what the network sees.
\<close>

datatype 'r turn_over = Done "'r routed" | Again "transport_error option"

definition attempt_once :: "'r network \<Rightarrow> bool \<Rightarrow> nat \<Rightarrow> nat \<Rightarrow> transport_error option \<Rightarrow> router
    \<Rightarrow> 'r turn_over \<times> (pool_name \<times> nat) list \<times> router" where
  "attempt_once w is_write max_attempts attempt last_err r =
     (let now_ms = clock w attempt in
      case select_for is_write now_ms r of
        (None, r) \<Rightarrow> (Done (Failed (LocalUsage ''all RPC endpoints unavailable (circuits open)'')), [], r)
      | (Some (name, i, permit), r) \<Rightarrow>
          let on_pool = (\<lambda>f. set_pool name (f (pool_of name r)) r);
              sent = [(name, i)]
          in (case answer_at w attempt name i of
                Answered resp \<Rightarrow>
                  if is_write \<and> is_retriable w resp then
                    (if attempt + 1 < max_attempts then (Again last_err, sent, on_pool (drop_permit permit))
                     else (Done (Response resp), sent, on_pool (drop_permit permit)))
                  else (Done (Response resp), sent, on_pool (pool_record_success i (elapsed_at w attempt)))
              | Erred e \<Rightarrow>
                  let r = on_pool (pool_record_error (retry_err_of w) i now_ms e) in
                  if \<not> is_write \<and> fault (retry_err_of w) e = RequestFault then (Done (Failed e), sent, r)
                  else (Again (Some e), sent, r)
              | TimedOut \<Rightarrow>
                  (Again (Some (LocalUsage ''request timed out'')), sent, on_pool (pool_record_failure i now_ms))))"

text \<open>The attempts from \<open>attempt\<close> on, with \<open>left\<close> of them to go, and all calls sent, oldest first.\<close>

fun attempts :: "'r network \<Rightarrow> bool \<Rightarrow> nat \<Rightarrow> nat \<Rightarrow> nat \<Rightarrow> nat \<Rightarrow> transport_error option \<Rightarrow> router
    \<Rightarrow> 'r routed \<times> (pool_name \<times> nat) list \<times> router" where
  "attempts w is_write max_attempts base 0 attempt last_err r =
     (Failed (case last_err of Some e \<Rightarrow> e | None \<Rightarrow> LocalUsage ''no endpoints available''), [], r)"
| "attempts w is_write max_attempts base (Suc left) attempt last_err r =
     (case attempt_once w is_write max_attempts attempt last_err r of
        (Done res, sent, r) \<Rightarrow> (res, sent, r)
      | (Again last_err, sent, r) \<Rightarrow>
          if attempt + 1 < max_attempts \<and> backoff base attempt = None then (RoutePanic, sent, r)
          else (let (res, more, r) = attempts w is_write max_attempts base left (attempt + 1) last_err r
                in (res, sent @ more, r)))"

subsection \<open>The code: a hedged read\<close>

definition swap_remove :: "nat \<Rightarrow> 'a list \<Rightarrow> 'a list" where
  "swap_remove k xs = (if k < length xs then butlast (xs[k := last xs]) else xs)"

text \<open>\<open>resolve\<close>: the first permit of endpoint \<open>i\<close> leaves the list without being dropped.\<close>

definition resolve :: "(nat \<times> permit) list \<Rightarrow> nat \<Rightarrow> (nat \<times> permit) list" where
  "resolve permits i =
     (case List.find (\<lambda>k. fst (permits ! k) = i) [0..<length permits] of
        Some k \<Rightarrow> swap_remove k permits
      | None \<Rightarrow> permits)"

definition drop_permits :: "(nat \<times> permit) list \<Rightarrow> pool \<Rightarrow> pool" where
  "drop_permits permits = fold (\<lambda>(_, permit). drop_permit permit) permits"

definition record_answer :: "'r network \<Rightarrow> u64 \<Rightarrow> nat \<Rightarrow> 'r answer \<Rightarrow> u64 \<Rightarrow> pool \<Rightarrow> pool" where
  "record_answer w now_ms i a latency_ns = (case a of
      Answered resp \<Rightarrow> pool_record_success i latency_ns
    | Erred e \<Rightarrow> pool_record_error (retry_err_of w) i now_ms e
    | TimedOut \<Rightarrow> pool_record_failure i now_ms)"

fun hedge_loop :: "'r network \<Rightarrow> u64 \<Rightarrow> 'r report list \<Rightarrow> (nat \<times> permit) list \<Rightarrow> transport_error option \<Rightarrow> pool
    \<Rightarrow> 'r routed \<times> pool" where
  "hedge_loop w now_ms [] permits last_err p =
     (Failed (case last_err of Some e \<Rightarrow> e | None \<Rightarrow> LocalUsage ''all hedged requests failed''),
      drop_permits permits p)"
| "hedge_loop w now_ms (Reported i (Answered resp) latency_ns # rs) permits last_err p =
     (Response resp, drop_permits (resolve permits i) (pool_record_success i latency_ns p))"
| "hedge_loop w now_ms (Reported i (Erred e) latency_ns # rs) permits last_err p =
     hedge_loop w now_ms rs (resolve permits i) (Some e) (pool_record_error (retry_err_of w) i now_ms e p)"
| "hedge_loop w now_ms (Reported i TimedOut latency_ns # rs) permits last_err p =
     (let e = LocalUsage ''request timed out'' in
      hedge_loop w now_ms rs (resolve permits i) (Some e) (pool_record_error (retry_err_of w) i now_ms e p))"
| "hedge_loop w now_ms (Cancelled # rs) permits last_err p = hedge_loop w now_ms rs permits last_err p"
| "hedge_loop w now_ms (TaskPanicked # rs) permits last_err p =
     hedge_loop w now_ms rs permits (Some (LocalUsage ''hedged request task panicked'')) p"

definition hedged_request :: "'r network \<Rightarrow> nat \<Rightarrow> pool_name \<Rightarrow> pool
    \<Rightarrow> 'r routed \<times> (pool_name \<times> nat) list \<times> pool" where
  "hedged_request w fan_out name p =
     (let now_ms = clock w 0;
          (permits, p) = select_n (unstable_sort w) fan_out now_ms p;
          sent = map (Pair name \<circ> fst) permits
      in (case permits of
            [] \<Rightarrow> (Failed (LocalUsage ''all RPC endpoints unavailable (circuits open)''), [], p)
          | [(i, permit)] \<Rightarrow>
              let a = answer_at w 0 name i in
              (case a of Answered resp \<Rightarrow> Response resp | Erred e \<Rightarrow> Failed e
                 | TimedOut \<Rightarrow> Failed (LocalUsage ''request timed out''),
               sent, record_answer w now_ms i a (elapsed_at w 0) p)
          | _ \<Rightarrow>
              let (res, p) = hedge_loop w now_ms (reports_of w (map fst permits)) permits None p
              in (res, sent, p)))"

subsection \<open>The code: routing\<close>

definition route_request :: "'r network \<Rightarrow> request \<Rightarrow> router \<Rightarrow> 'r routed \<times> (pool_name \<times> nat) list \<times> router" where
  "route_request w req r =
     (let is_write = is_write_method req;
          retry = (if is_write then write_retry (rt_config r) else read_retry (rt_config r));
          max_attempts = unat (1 + max_retries retry);
          standard = attempts w is_write max_attempts (base_delay_ns retry) max_attempts 0 None r
      in (case cfg_strategy (rt_config r) of
            Hedged n \<Rightarrow>
              if is_write then standard
              else (let name = read_pool r;
                        (res, sent, p) = hedged_request w n name (pool_of name r)
                    in (res, sent, set_pool name p r))
          | _ \<Rightarrow> standard))"

subsection \<open>Routing refines the permit protocol\<close>

lemma pool_of_set_pool [simp]: "pool_of n (set_pool m p r) = (if n = m then p else pool_of n r)"
  by (cases n; cases m) simp_all

lemma rt_config_set_pool [simp]: "rt_config (set_pool m p r) = rt_config r"
  by (cases m) simp_all

text \<open>What a run does to the pools of a router, one ticket more or less in a named pool.\<close>

type_synonym outstanding = "pool_name \<Rightarrow> (nat \<times> permit) multiset"

definition router_steps :: "(int \<Rightarrow> string \<Rightarrow> bool) \<Rightarrow> router \<Rightarrow> outstanding \<Rightarrow> router \<Rightarrow> outstanding \<Rightarrow> bool" where
  "router_steps retry_err r M r' M' \<longleftrightarrow>
     (\<forall>n. pool_steps retry_err (pool_of n r, M n) (pool_of n r', M' n)) \<and> rt_config r' = rt_config r"

definition small :: "router \<Rightarrow> bool" where
  "small r \<longleftrightarrow> (\<forall>n. length (endpoints (pool_of n r)) < 2 ^ 64)"

lemma router_steps_refl: "router_steps retry_err r M r M"
  by (simp add: router_steps_def)

lemma router_steps_trans:
  "router_steps retry_err r M r' M' \<Longrightarrow> router_steps retry_err r' M' r'' M'' \<Longrightarrow> router_steps retry_err r M r'' M''"
  unfolding router_steps_def by (metis rtranclp_trans)

lemma router_steps_small: "router_steps retry_err r M r' M' \<Longrightarrow> small r \<Longrightarrow> small r'"
  unfolding router_steps_def small_def by (metis length_pool_steps fst_conv)

lemma router_steps_pool:
  assumes "pool_steps retry_err (pool_of n r, M n) (p, N)"
  shows "router_steps retry_err r M (set_pool n p r) (M(n := N))"
  using assms by (simp add: router_steps_def)

lemma select_for_runs:
  assumes s: "select_for wr now r = (t, r')" and small: "small r"
  shows "router_steps retry_err r M r'
    (case t of None \<Rightarrow> M | Some (n, i, permit) \<Rightarrow> M(n := add_mset (i, permit) (M n)))"
proof -
  let ?st = "cfg_strategy (rt_config r)"
  define d where "d = (if wr then Write else Read)"
  have run: "pool_steps retry_err (pool_of n q, M n) (p, taken x + M n)"
    if "select ?st now (pool_of n q) = (x, p)" "small q" for n q x p
    using select_runs[OF that(1)] that(2) by (simp add: small_def)
  obtain x p where x: "select ?st now (pool_of d r) = (x, p)" by force
  have at: "router_steps retry_err q M (set_pool n p q) (M(n := taken x + M n))"
    if "select ?st now (pool_of n q) = (x, p)" "small q" for n q x p
    by (rule router_steps_pool) (rule run[OF that])
  show ?thesis
  proof (cases "endpoints (pool_of d r) = [] \<or> x = None")
    case True
    define q where "q = (if endpoints (pool_of d r) = [] then r else set_pool d p r)"
    have q: "router_steps retry_err r M q M"
      using True x at[OF x small] by (cases x) (auto simp: q_def router_steps_refl)
    obtain y p2 where y: "select ?st now (pool_of Shared q) = (y, p2)" by force
    have r': "r' = set_pool Shared p2 q" "t = map_option (Pair Shared) y"
      using s x y True by (auto simp: select_for_def d_def[symmetric] q_def Let_def split: if_splits)
    have "router_steps retry_err q M (set_pool Shared p2 q) (M(Shared := taken y + M Shared))"
      using at[OF y router_steps_small[OF q small]] .
    with q r' show ?thesis by (cases y) (auto intro: router_steps_trans)
  next
    case False
    then obtain i permit where t: "x = Some (i, permit)" by auto
    have "r' = set_pool d p r" "t = Some (d, i, permit)"
      using s x False t by (auto simp: select_for_def d_def[symmetric] Let_def)
    with at[OF x small] t show ?thesis by simp
  qed
qed

lemma router_settles:
  assumes "\<And>M. pool_step retry_err (pool_of n r, add_mset (i, permit) M) (p, M)"
  shows "router_steps retry_err r (M(n := add_mset (i, permit) (M n))) (set_pool n p r) M"
  using assms[of "M n"] by (auto simp: router_steps_def)

lemma attempt_once_runs:
  assumes s: "attempt_once w wr maxa attempt le r = (out, sent, r')" and small: "small r"
  shows "router_steps (retry_err_of w) r M r' M"
proof -
  obtain t r1 where t: "select_for wr (clock w attempt) r = (t, r1)" by force
  note run = select_for_runs[OF t small, of "retry_err_of w" M]
  show ?thesis
  proof (cases t)
    case None
    then show ?thesis using s t run by (simp add: attempt_once_def)
  next
    case (Some x)
    obtain n i permit where x: "x = (n, i, permit)" by (cases x)
    let ?M = "M(n := add_mset (i, permit) (M n))"
    have settle: "router_steps (retry_err_of w) r1 ?M (set_pool n p r1) M"
      if "\<And>M. pool_step (retry_err_of w) (pool_of n r1, add_mset (i, permit) M) (p, M)" for p
      using router_settles[OF that] .
    have "router_steps (retry_err_of w) r1 ?M r' M"
      using s t Some x
        settle[OF Drop] settle[OF Succeed, of "elapsed_at w attempt"] settle[OF Fail, of "clock w attempt"]
        settle[OF Decline, of "clock w attempt"]
      by (auto simp: attempt_once_def Let_def split: answer.splits if_splits)
    with run Some x show ?thesis by (auto intro: router_steps_trans)
  qed
qed

lemma attempts_runs:
  assumes "attempts w wr maxa base left attempt le r = (res, sent, r')" "small r"
  shows "router_steps (retry_err_of w) r M r' M"
  using assms
proof (induction left arbitrary: attempt le r res sent r')
  case 0
  then show ?case by (simp add: router_steps_refl)
next
  case (Suc left)
  obtain out s1 r1 where o: "attempt_once w wr maxa attempt le r = (out, s1, r1)" by (metis prod_cases3)
  note run = attempt_once_runs[OF o Suc.prems(2), of M]
  show ?case
  proof (cases out)
    case (Done res1)
    then show ?thesis using Suc.prems o run by simp
  next
    case (Again e)
    obtain res2 more r2 where a: "attempts w wr maxa base left (attempt + 1) e r1 = (res2, more, r2)" by (metis prod_cases3)
    have "router_steps (retry_err_of w) r1 M r2 M"
      using Suc.IH[OF a] router_steps_small[OF run Suc.prems(2)] .
    then show ?thesis using Suc.prems(1) o Again a run
      by (auto split: if_splits intro: router_steps_trans)
  qed
qed

lemma mset_swap_remove: "k < length xs \<Longrightarrow> mset xs = add_mset (xs ! k) (mset (swap_remove k xs))"
proof -
  assume k: "k < length xs"
  then obtain ys y where xs: "xs = ys @ [y]" by (metis append_butlast_last_id list.size(3) not_less_zero)
  show ?thesis
  proof (cases "k < length ys")
    case True
    then have "ys ! k \<in># mset ys" by simp
    then show ?thesis using True xs
      by (simp add: swap_remove_def list_update_append mset_update nth_append insert_DiffM)
  next
    case False
    then show ?thesis using k xs by (simp add: swap_remove_def nth_append list_update_append)
  qed
qed

lemma resolve_settles:
  assumes "i \<in> fst ` set permits"
  obtains permit where "mset permits = add_mset (i, permit) (mset (resolve permits i))"
proof -
  obtain k0 where k0: "k0 < length permits" "fst (permits ! k0) = i" using assms by (auto simp: in_set_conv_nth)
  then obtain k where f: "List.find (\<lambda>k. fst (permits ! k) = i) [0..<length permits] = Some k"
    by (cases "List.find (\<lambda>k. fst (permits ! k) = i) [0..<length permits]") (auto simp: find_None_iff)
  then have k: "k < length permits" "fst (permits ! k) = i" by (auto simp: find_Some_iff)
  have "permits ! k = (i, snd (permits ! k))" using k(2) by (metis prod.collapse)
  then have "mset permits = add_mset (i, snd (permits ! k)) (mset (resolve permits i))"
    using mset_swap_remove[OF k(1)] f by (simp add: resolve_def)
  then show ?thesis by (rule that)
qed

lemma drop_permits_run: "pool_steps retry_err (p, mset ts + M) (drop_permits ts p, M)"
proof (induction ts arbitrary: p)
  case (Cons t ts)
  obtain i permit where t: "t = (i, permit)" by (cases t)
  then show ?case using Cons.IH[of "drop_permit permit p"]
    by (auto simp: drop_permits_def intro: steps_trans[OF drop_runs])
qed (simp add: drop_permits_def)

fun reported :: "'r report list \<Rightarrow> nat list" where
  "reported [] = []"
| "reported (Reported i a l # rs) = i # reported rs"
| "reported (_ # rs) = reported rs"

text \<open>What the code relies on of a \<open>JoinSet\<close>: a spawned task reports at most once, and no other does.\<close>

definition joins :: "nat list \<Rightarrow> 'r report list \<Rightarrow> bool" where
  "joins is rs \<longleftrightarrow> distinct (reported rs) \<and> set (reported rs) \<subseteq> set is"

lemma joins_simps:
  "joins is (Reported i a l # rs) \<longleftrightarrow> i \<in> set is \<and> i \<notin> set (reported rs) \<and> joins is rs"
  "joins is (Cancelled # rs) = joins is rs"
  "joins is (TaskPanicked # rs) = joins is rs"
  by (auto simp: joins_def)

lemma joins_resolved:
  assumes "joins (map fst permits) (Reported i a l # rs)"
  shows "joins (map fst (resolve permits i)) rs"
proof -
  from assms have "i \<in> fst ` set permits" by (auto simp: joins_simps)
  then obtain permit where "mset permits = add_mset (i, permit) (mset (resolve permits i))" by (rule resolve_settles)
  then have "set permits = insert (i, permit) (set (resolve permits i))" by (metis set_mset_mset set_mset_add_mset_insert)
  then show ?thesis using assms by (auto simp: joins_def)
qed

lemma report_settles:
  assumes "joins (map fst permits) (Reported i a l # rs)"
    and "\<And>permit M. pool_step retry_err (p, add_mset (i, permit) M) (q, M)"
    and "pool_steps retry_err (q, mset (resolve permits i) + M) s"
  shows "pool_steps retry_err (p, mset permits + M) s"
proof -
  from assms(1) have "i \<in> fst ` set permits" by (auto simp: joins_simps)
  then obtain permit where e: "mset permits = add_mset (i, permit) (mset (resolve permits i))" by (rule resolve_settles)
  show ?thesis using assms(2)[of permit "mset (resolve permits i) + M"] assms(3) unfolding e
    by (auto intro: steps_trans)
qed

lemma hedge_loop_runs:
  assumes "hedge_loop w now rs permits le p = (res, p')" "joins (map fst permits) rs"
  shows "pool_steps (retry_err_of w) (p, mset permits + M) (p', M)"
  using assms
proof (induction w "now" rs permits le p rule: hedge_loop.induct)
  case (1 w "now" permits le p)
  then show ?case using drop_permits_run[of "retry_err_of w" p permits M] by auto
next
  case (2 w "now" i resp l rs permits le p)
  then have "p' = drop_permits (resolve permits i) (pool_record_success i l p)" by auto
  then show ?case using report_settles[OF 2(2) Succeed] drop_permits_run by fast
next
  case (3 w "now" i e l rs permits le p)
  then show ?case using report_settles[OF 3(3) Decline] joins_resolved[OF 3(3)] by auto
next
  case (4 w "now" i l rs permits le p)
  then show ?case using report_settles[OF 4(3) Decline] joins_resolved[OF 4(3)] by (auto simp: Let_def)
qed (simp_all add: joins_simps)

lemma hedged_request_runs:
  assumes h: "hedged_request w n name p = (res, sent, p')"
    and srt: "\<And>cs. mset (unstable_sort w cs) = mset cs" and j: "\<And>is. joins is (reports_of w is)"
  shows "pool_steps (retry_err_of w) (p, M) (p', M)"
proof -
  obtain ts p1 where s: "select_n (unstable_sort w) n (clock w 0) p = (ts, p1)" by force
  note run = select_n_runs[OF s srt, of "retry_err_of w" M]
  consider "ts = []" | i permit where "ts = [(i, permit)]" | "2 \<le> length ts"
    by (cases ts; cases "tl ts") (auto simp: Suc_le_eq)
  then show ?thesis
  proof cases
    case 1
    then show ?thesis using run h s by (simp add: hedged_request_def)
  next
    case 2
    have "pool_step (retry_err_of w) (p1, add_mset (i, permit) M)
        (record_answer w (clock w 0) i (answer_at w 0 name i) (elapsed_at w 0) p1, M)"
      by (auto simp: record_answer_def intro: Succeed Fail Decline split: answer.split)
    then show ?thesis using run h s 2 by (auto simp: hedged_request_def Let_def)
  next
    case 3
    obtain res2 p2 where l: "hedge_loop w (clock w 0) (reports_of w (map fst ts)) ts None p1 = (res2, p2)" by force
    from 3 have "p' = p2" using h s l
      by (auto simp: hedged_request_def Let_def split: list.splits)
    then show ?thesis using run hedge_loop_runs[OF l j, of M] by (simp add: rtranclp_trans)
  qed
qed

lemma route_request_runs:
  assumes q: "route_request w req r = (res, sent, r')" and small: "small r"
    and srt: "\<And>cs. mset (unstable_sort w cs) = mset cs" and j: "\<And>is. joins is (reports_of w is)"
  shows "router_steps (retry_err_of w) r M r' M"
proof -
  define wr where "wr = is_write_method req"
  define rc where "rc = (if wr then write_retry (rt_config r) else read_retry (rt_config r))"
  let ?m = "unat (1 + max_retries rc)"
  let ?std = "attempts w wr ?m (base_delay_ns rc) ?m 0 None r"
  let ?p = "pool_of (read_pool r) r"
  consider (std) "?std = (res, sent, r')"
    | (hedge) n res1 p1 where "hedged_request w n (read_pool r) ?p = (res1, sent, p1)" "r' = set_pool (read_pool r) p1 r"
    using q unfolding route_request_def Let_def wr_def[symmetric] rc_def[symmetric]
    by (auto split: strategy.splits if_splits prod.splits)
  then show ?thesis
  proof cases
    case std
    show ?thesis using attempts_runs[OF std small] .
  next
    case hedge
    have "pool_steps (retry_err_of w) (?p, M (read_pool r)) (p1, M (read_pool r))"
      by (rule hedged_request_runs[OF hedge(1) srt j])
    then have "router_steps (retry_err_of w) r M r' (M(read_pool r := M (read_pool r)))"
      unfolding hedge(2) by (rule router_steps_pool)
    then show ?thesis by simp
  qed
qed

subsection \<open>What the retries do\<close>

text \<open>The answers after which a request of its kind is sent again.\<close>

definition retried :: "'r network \<Rightarrow> bool \<Rightarrow> 'r answer \<Rightarrow> bool" where
  "retried w is_write a = (case a of
      Answered resp \<Rightarrow> is_write \<and> is_retriable w resp
    | Erred e \<Rightarrow> is_write \<or> fault (retry_err_of w) e = EndpointFault
    | TimedOut \<Rightarrow> True)"

definition heard :: "'r network \<Rightarrow> nat \<Rightarrow> pool_name \<times> nat \<Rightarrow> 'r answer" where
  "heard w attempt call = answer_at w attempt (fst call) (snd call)"

lemma attempt_once_cases:
  assumes "attempt_once w wr maxa attempt le r = (out, sent, r')"
  obtains (unavailable) "out = Done (Failed (LocalUsage ''all RPC endpoints unavailable (circuits open)''))" "sent = []"
  | (answered) call resp where "out = Done (Response resp)" "sent = [call]" "heard w attempt call = Answered resp"
      "retried w wr (heard w attempt call) \<Longrightarrow> maxa \<le> attempt + 1"
  | (declined) call e where "out = Done (Failed e)" "sent = [call]" "heard w attempt call = Erred e"
      "\<not> wr" "fault (retry_err_of w) e = RequestFault"
  | (again) call e where "out = Again e" "sent = [call]" "retried w wr (heard w attempt call)"
proof -
  obtain t r1 where t: "select_for wr (clock w attempt) r = (t, r1)" by force
  show ?thesis
  proof (cases t)
    case None
    then show ?thesis using assms t unavailable by (simp add: attempt_once_def)
  next
    case (Some x)
    obtain n i permit where x: "x = (n, i, permit)" by (cases x)
    have f: "f = EndpointFault \<or> f = RequestFault" for f by (cases f) auto
    show ?thesis
      using assms t Some x answered[of _ "(n, i)"] declined[of _ "(n, i)"] again[of _ "(n, i)"]
        f[of "fault (retry_err_of w) e" for e]
      by (auto simp: attempt_once_def Let_def heard_def retried_def split: answer.splits if_splits)
  qed
qed

definition trace_ok :: "'r network \<Rightarrow> bool \<Rightarrow> nat \<Rightarrow> nat \<Rightarrow> 'r routed \<Rightarrow> (pool_name \<times> nat) list \<Rightarrow> bool" where
  "trace_ok w wr left attempt res sent \<longleftrightarrow>
     length sent \<le> left
     \<and> (\<forall>k. k + 1 < length sent \<longrightarrow> retried w wr (heard w (attempt + k) (sent ! k)))
     \<and> (\<forall>resp. res = Response resp \<longrightarrow> sent \<noteq> []
          \<and> heard w (attempt + (length sent - 1)) (sent ! (length sent - 1)) = Answered resp
          \<and> (wr \<and> is_retriable w resp \<longrightarrow> length sent = left))"

lemma attempts_trace:
  assumes "attempts w wr maxa base left attempt le r = (res, sent, r')" "attempt + left = maxa"
  shows "trace_ok w wr left attempt res sent"
  using assms
proof (induction left arbitrary: attempt le r res sent r')
  case 0
  then show ?case by (auto simp: trace_ok_def)
next
  case (Suc left)
  obtain out s1 r1 where o: "attempt_once w wr maxa attempt le r = (out, s1, r1)" by (metis prod_cases3)
  from o show ?case
  proof (cases rule: attempt_once_cases)
    case (again call e)
    obtain res2 more r2 where a: "attempts w wr maxa base left (attempt + 1) e r1 = (res2, more, r2)" by (metis prod_cases3)
    have IH: "trace_ok w wr left (attempt + 1) res2 more" using Suc.IH[OF a] Suc.prems(2) by simp
    have "sent = [call] \<and> res = RoutePanic \<or> sent = call # more \<and> res = res2"
      using Suc.prems(1) o again a by (auto split: if_splits)
    then show ?thesis
    proof
      assume "sent = call # more \<and> res = res2"
      then show ?thesis using IH again(3)
        by (auto simp: trace_ok_def nth_Cons Suc_less_eq2 gr0_conv_Suc split: nat.split)
    qed (simp add: trace_ok_def)
  qed (use Suc.prems o in \<open>auto simp: trace_ok_def retried_def\<close>)
qed

lemma route_request_trace:
  assumes q: "route_request w req r = (res, sent, r')"
    and st: "is_write_method req \<or> (\<forall>n. cfg_strategy (rt_config r) \<noteq> Hedged n)"
  shows "trace_ok w (is_write_method req)
    (unat (1 + max_retries (if is_write_method req then write_retry (rt_config r) else read_retry (rt_config r)))) 0 res sent"
proof -
  define wr where "wr = is_write_method req"
  define rc where "rc = (if wr then write_retry (rt_config r) else read_retry (rt_config r))"
  let ?m = "unat (1 + max_retries rc)"
  have "attempts w wr ?m (base_delay_ns rc) ?m 0 None r = (res, sent, r')"
    using q st unfolding route_request_def Let_def wr_def[symmetric] rc_def[symmetric]
    by (auto split: strategy.splits prod.splits)
  from attempts_trace[OF this] show ?thesis by (simp add: wr_def rc_def)
qed

subsection \<open>Properties\<close>

definition sample_router :: router where
  "sample_router = \<lparr>rt_shared = sample_pool, rt_read = \<lparr>endpoints = [], round_robin = 0\<rparr>,
     rt_write = \<lparr>endpoints = [], round_robin = 0\<rparr>,
     rt_config = config_default\<lparr>shared_endpoints := [''a'', ''b''], circuit_breaker := sample_breaker\<rparr>,
     get_proof_unsupported = False\<rparr>"

text \<open>A network on which every request times out.\<close>

definition sample_network :: "nat network" where
  "sample_network = \<lparr>clock = (\<lambda>k. of_nat k), answer_at = (\<lambda>_ _ _. TimedOut), elapsed_at = (\<lambda>_. 0),
     reports_of = (\<lambda>is. map (\<lambda>i. Reported i TimedOut 0) (remdups is)), retry_err_of = (\<lambda>_ _. False),
     first_error_code = (\<lambda>_. None), unstable_sort = sort_key (\<lambda>(_, l, _). l)\<rparr>"

lemma sample_joins: "joins is (reports_of sample_network is)"
proof -
  have "reported (map (\<lambda>i. Reported i TimedOut 0 :: nat report) is) = is" for "is" by (induction "is") simp_all
  then show ?thesis by (simp add: joins_def sample_network_def)
qed

text \<open>C22: Routing refines the permit protocol: whatever the network answers, and in whatever order hedged
  requests report, a request is a run of the protocol on each pool that begins and ends with the same permits
  out. Every slot a request takes, on the endpoints it tries, passes over or abandons, is settled when it returns.
\<close>

theorem route_request_refines_protocol:
  assumes "route_request w req r = (res, sent, r')"
    and "\<And>n. length (endpoints (pool_of n r)) < 2 ^ 64"
    and "\<And>cs. mset (unstable_sort w cs) = mset cs"
    and "\<And>is. joins is (reports_of w is)"
  shows "pool_steps (retry_err_of w) (pool_of n r, M) (pool_of n r', M)"
  using route_request_runs[OF assms(1) _ assms(3,4), of "\<lambda>_. M"] assms(2) by (simp add: router_steps_def small_def)

theorem route_request_refines_protocol_witness:
  "pool_steps (\<lambda>_ _. False) (sample_pool, {#})
     (rt_shared (snd (snd (route_request sample_network (Single ''eth_call'') sample_router))), {#})"
proof -
  obtain res sent r' where r: "route_request sample_network (Single ''eth_call'') sample_router = (res, sent, r')"
    by (metis prod_cases3)
  have "pool_steps (retry_err_of sample_network) (pool_of Shared sample_router, {#}) (pool_of Shared r', {#})"
  proof (rule route_request_refines_protocol[OF r])
    show "length (endpoints (pool_of n sample_router)) < 2 ^ 64" for n
      by (cases n) (simp_all add: sample_router_def sample_pool_def)
    show "mset (unstable_sort sample_network cs) = mset cs" for cs by (simp add: sample_network_def)
    show "joins is (reports_of sample_network is)" for "is" by (rule sample_joins)
  qed
  then show ?thesis using r by (simp add: sample_network_def sample_router_def)
qed

text \<open>C27: The retry policy of a request that is not a hedged read: it is sent at most once more than the
  configured retries; every call but the last was answered by an endpoint fault or a timeout or, for a
  write, by any error, so a declined read is never sent again; a response returned is the answer to the last
  call, and one that carries an error of a write is returned only when no attempt is left.
\<close>

theorem retries_follow_policy:
  assumes "route_request w req r = (res, sent, r')"
    and "is_write_method req \<or> (\<forall>n. cfg_strategy (rt_config r) \<noteq> Hedged n)"
    and "left = unat (1 + max_retries (if is_write_method req then write_retry (rt_config r) else read_retry (rt_config r)))"
  shows "length sent \<le> left
    \<and> (\<forall>k. k + 1 < length sent \<longrightarrow> retried w (is_write_method req) (heard w k (sent ! k)))
    \<and> (\<forall>resp. res = Response resp \<longrightarrow> sent \<noteq> []
         \<and> heard w (length sent - 1) (sent ! (length sent - 1)) = Answered resp
         \<and> (is_write_method req \<and> is_retriable w resp \<longrightarrow> length sent = left))"
  using route_request_trace[OF assms(1,2)] unfolding trace_ok_def assms(3) by simp

theorem retries_follow_policy_witness:
  "length (fst (snd (route_request sample_network (Single ''eth_call'') sample_router))) \<le> 3"
proof -
  obtain res sent r' where r: "route_request sample_network (Single ''eth_call'') sample_router = (res, sent, r')"
    by (metis prod_cases3)
  have "length sent \<le> 3"
    using retries_follow_policy[OF r, of 3] by (simp add: sample_router_def config_default_def is_write_method_name_def)
  then show ?thesis using r by simp
qed

text \<open>A write that timed out, whose fate is unknown, is sent again.\<close>

lemma attempts_rec:
  assumes "0 < left"
  shows "attempts w wr maxa base left attempt le r =
     (case attempt_once w wr maxa attempt le r of
        (Done res, sent, r) \<Rightarrow> (res, sent, r)
      | (Again last_err, sent, r) \<Rightarrow>
          if attempt + 1 < maxa \<and> backoff base attempt = None then (RoutePanic, sent, r)
          else (let (res, more, r) = attempts w wr maxa base (left - 1) (attempt + 1) last_err r
                in (res, sent @ more, r)))"
proof -
  obtain k where "left = Suc k" using assms by (cases left) simp_all
  show ?thesis unfolding \<open>left = Suc k\<close> attempts.simps diff_Suc_1 ..
qed

lemma write_resent_after_timeout:
  "is_write_method (Single ''eth_sendRawTransaction'')
   \<and> answer_at sample_network 0 Shared 0 = TimedOut
   \<and> take 2 (fst (snd (route_request sample_network (Single ''eth_sendRawTransaction'') sample_router))) = [(Shared, 0), (Shared, 1)]"
proof -
  have 1: "attempt_once sample_network True 4 0 None sample_router
      = (Again (Some (LocalUsage ''request timed out'')), [(Shared, 0)], set_pool Shared (pool_record_failure 0 0 sample_pool) sample_router)"
    by (simp add: attempt_once_def select_for_def select_def select_latency_based_def sample_router_def config_default_def
        sample_network_def sample_pool_simps mirror_closed_def pack_state_closed[of Closed, simplified])
  have 2: "fst (attempt_once sample_network True 4 1 (Some (LocalUsage ''request timed out'')) (set_pool Shared (pool_record_failure 0 0 sample_pool) sample_router))
      = Again (Some (LocalUsage ''request timed out''))"
    "fst (snd (attempt_once sample_network True 4 1 (Some (LocalUsage ''request timed out'')) (set_pool Shared (pool_record_failure 0 0 sample_pool) sample_router)))
      = [(Shared, 1)]"
    by (simp_all add: attempt_once_def select_for_def select_def select_latency_based_def sample_router_def config_default_def
        sample_network_def sample_pool_simps mirror_closed_def pack_state_closed[of Closed, simplified] pack_state_closed[of "Open 0", simplified])
  then obtain r2 where r2: "attempt_once sample_network True 4 1 (Some (LocalUsage ''request timed out''))
      (set_pool Shared (pool_record_failure 0 0 sample_pool) sample_router) = (Again (Some (LocalUsage ''request timed out'')), [(Shared, 1)], r2)"
    by (metis prod.collapse)
  have b: "backoff 500000000 0 \<noteq> None" "backoff 500000000 1 \<noteq> None" by (simp_all add: backoff_def)
  have "take 2 (fst (snd (attempts sample_network True 4 500000000 4 0 None sample_router))) = [(Shared, 0), (Shared, 1)]"
    using b r2 by (simp add: attempts_rec[where left = 4] attempts_rec[where left = 3] 1 split: prod.splits turn_over.splits)
  then show ?thesis
    by (simp add: route_request_def is_write_method_name_def config_default_def sample_router_def sample_network_def)
qed

end
