(* ===== verification/State_Cache.thy ===== *)
theory State_Cache
  imports Units Shares "HOL-Library.Mapping"
begin

text \<open>
  \<open>src/src/hft/state_cache.rs\<close>: the two-tier cache of chain state, each layer a map from keys to values
  that expire. A \<open>HashMap\<close> is a \<open>mapping\<close>. Prices, funding rates and the bounds' margin and leverages
  are floats the cache only carries: their type is the parameter \<open>'f\<close>.

  The locale \<open>ttl_cache\<close> states what any timed cache of the crate promises; its lemmas are shared with the
  fee and gas-limit caches of \<open>Gas\<close>.
\<close>

subsection \<open>The contract of a timed cache\<close>

text \<open>
  \<open>answer s k v\<close> is what a lookup gives for a value \<open>v\<close> written under \<open>k\<close>, \<open>fresh s t now\<close> whether a
  value written at \<open>t\<close> is still served at \<open>now\<close>.
\<close>

locale ttl_cache =
  fixes get :: "'s \<Rightarrow> 'k \<Rightarrow> u64 \<Rightarrow> 'w option"
    and put :: "'s \<Rightarrow> 'k \<Rightarrow> 'v \<Rightarrow> u64 \<Rightarrow> 's"
    and answer :: "'s \<Rightarrow> 'k \<Rightarrow> 'v \<Rightarrow> 'w"
    and fresh :: "'s \<Rightarrow> u64 \<Rightarrow> u64 \<Rightarrow> bool"
  assumes get_put: "get (put s k v t) k' now =
      (if k' = k then (if fresh s t now then Some (answer s k v) else None) else get s k' now)"
    and fresh_put: "fresh (put s k v t) = fresh s"
    and answer_put: "answer (put s k v t) = answer s"
    and fresh_earlier: "now \<le> now' \<Longrightarrow> fresh s t now' \<Longrightarrow> fresh s t now"
begin

lemma puts_keep:
  "fresh (fold (\<lambda>(k, v, t) s. put s k v t) ws s) = fresh s"
  "answer (fold (\<lambda>(k, v, t) s. put s k v t) ws s) = answer s"
  by (induction ws arbitrary: s) (auto simp: fresh_put answer_put)

text \<open>After any writes a lookup answers with the last one of its key, while that is fresh, and else as before.\<close>

lemma last_write:
  "get (fold (\<lambda>(k, v, t) s. put s k v t) ws s) k now =
     (case List.find (\<lambda>w. fst w = k) (rev ws) of
        Some (_, v, t) \<Rightarrow> if fresh s t now then Some (answer s k v) else None
      | None \<Rightarrow> get s k now)"
proof (induction ws rule: rev_induct)
  case (snoc w ws)
  obtain k' v t where w: "w = (k', v, t)" by (cases w)
  show ?case using snoc puts_keep[of ws s]
    by (simp add: w get_put)
qed simp

text \<open>An answer is a value that was put, and once a put value is stale it stays so.\<close>

lemma served_then_served_before:
  assumes "get (put s k v t) k now' = Some w" "now \<le> now'"
  shows "get (put s k v t) k now = Some w"
  using assms fresh_earlier[of "now" now' s t] by (simp add: get_put split: if_splits)

end

subsection \<open>The code\<close>

type_synonym address = "160 word"
type_synonym hash = "256 word"

record 'a cached_value =
  cv_value :: 'a
  expires_at :: u64

definition cached_valid :: "'a cached_value \<Rightarrow> u64 \<Rightarrow> bool" where
  "cached_valid cv now_ts \<longleftrightarrow> now_ts < expires_at cv"

record cached_fees =
  creator_fee :: ratio
  insurance_fee :: ratio
  lp_fee :: ratio
  liquidation_fee :: ratio

record 'f cached_bounds =
  min_margin :: 'f
  min_taker_leverage :: 'f
  max_taker_leverage :: 'f
  liquidation_taker_ratio :: ratio

record state_cache_config =
  cfg_slow_ttl :: u64
  cfg_fast_ttl :: u64

definition state_cache_default :: state_cache_config where
  "state_cache_default = \<lparr>cfg_slow_ttl = 60, cfg_fast_ttl = 2\<rparr>"

record balance_key =
  bk_token :: address
  bk_holder :: address

record 'f state_cache =
  sc_fees :: "(address, cached_fees cached_value) mapping"
  sc_bounds :: "(address, 'f cached_bounds cached_value) mapping"
  pool_prices :: "(hash, 'f cached_value) mapping"
  funding_rates :: "(hash, 'f cached_value) mapping"
  balances :: "(balance_key, usdc_atoms cached_value) mapping"
  slow_ttl :: u64
  fast_ttl :: u64

definition state_cache_new :: "state_cache_config \<Rightarrow> 'f state_cache" where
  "state_cache_new config = \<lparr>sc_fees = Mapping.empty, sc_bounds = Mapping.empty, pool_prices = Mapping.empty,
     funding_rates = Mapping.empty, balances = Mapping.empty,
     slow_ttl = cfg_slow_ttl config, fast_ttl = cfg_fast_ttl config\<rparr>"

text \<open>The body every getter and every setter of the cache repeats.\<close>

definition lookup_valid :: "('k, 'v cached_value) mapping \<Rightarrow> 'k \<Rightarrow> u64 \<Rightarrow> 'v option" where
  "lookup_valid m k now_ts = (case Mapping.lookup m k of
      None \<Rightarrow> None
    | Some cv \<Rightarrow> if cached_valid cv now_ts then Some (cv_value cv) else None)"

definition insert_until :: "u64 \<Rightarrow> 'k \<Rightarrow> 'v \<Rightarrow> u64 \<Rightarrow> ('k, 'v cached_value) mapping \<Rightarrow> ('k, 'v cached_value) mapping" where
  "insert_until ttl k v now_ts m =
     Mapping.update k \<lparr>cv_value = v, expires_at = saturating_add now_ts ttl\<rparr> m"

definition get_fees :: "'f state_cache \<Rightarrow> address \<Rightarrow> u64 \<Rightarrow> cached_fees option" where
  "get_fees s addr now_ts = lookup_valid (sc_fees s) addr now_ts"

definition put_fees :: "'f state_cache \<Rightarrow> address \<Rightarrow> cached_fees \<Rightarrow> u64 \<Rightarrow> 'f state_cache" where
  "put_fees s addr v now_ts = s\<lparr>sc_fees := insert_until (slow_ttl s) addr v now_ts (sc_fees s)\<rparr>"

definition get_bounds :: "'f state_cache \<Rightarrow> address \<Rightarrow> u64 \<Rightarrow> 'f cached_bounds option" where
  "get_bounds s addr now_ts = lookup_valid (sc_bounds s) addr now_ts"

definition put_bounds :: "'f state_cache \<Rightarrow> address \<Rightarrow> 'f cached_bounds \<Rightarrow> u64 \<Rightarrow> 'f state_cache" where
  "put_bounds s addr v now_ts = s\<lparr>sc_bounds := insert_until (slow_ttl s) addr v now_ts (sc_bounds s)\<rparr>"

definition get_pool_price :: "'f state_cache \<Rightarrow> hash \<Rightarrow> u64 \<Rightarrow> 'f option" where
  "get_pool_price s perp_id now_ts = lookup_valid (pool_prices s) perp_id now_ts"

definition put_pool_price :: "'f state_cache \<Rightarrow> hash \<Rightarrow> 'f \<Rightarrow> u64 \<Rightarrow> 'f state_cache" where
  "put_pool_price s perp_id v now_ts = s\<lparr>pool_prices := insert_until (fast_ttl s) perp_id v now_ts (pool_prices s)\<rparr>"

definition get_funding_rate :: "'f state_cache \<Rightarrow> hash \<Rightarrow> u64 \<Rightarrow> 'f option" where
  "get_funding_rate s perp_id now_ts = lookup_valid (funding_rates s) perp_id now_ts"

definition put_funding_rate :: "'f state_cache \<Rightarrow> hash \<Rightarrow> 'f \<Rightarrow> u64 \<Rightarrow> 'f state_cache" where
  "put_funding_rate s perp_id v now_ts = s\<lparr>funding_rates := insert_until (fast_ttl s) perp_id v now_ts (funding_rates s)\<rparr>"

definition get_balance :: "'f state_cache \<Rightarrow> balance_key \<Rightarrow> u64 \<Rightarrow> usdc_atoms option" where
  "get_balance s key now_ts = lookup_valid (balances s) key now_ts"

definition put_balance :: "'f state_cache \<Rightarrow> balance_key \<Rightarrow> usdc_atoms \<Rightarrow> u64 \<Rightarrow> 'f state_cache" where
  "put_balance s key v now_ts = s\<lparr>balances := insert_until (fast_ttl s) key v now_ts (balances s)\<rparr>"

definition invalidate_fast_layer :: "'f state_cache \<Rightarrow> 'f state_cache" where
  "invalidate_fast_layer s = s\<lparr>pool_prices := Mapping.empty, funding_rates := Mapping.empty, balances := Mapping.empty\<rparr>"

definition invalidate_all :: "'f state_cache \<Rightarrow> 'f state_cache" where
  "invalidate_all s = invalidate_fast_layer (s\<lparr>sc_fees := Mapping.empty, sc_bounds := Mapping.empty\<rparr>)"

subsection \<open>Every layer keeps the contract\<close>

lemmas cache_getters = get_fees_def get_bounds_def get_pool_price_def get_funding_rate_def get_balance_def
lemmas cache_putters = put_fees_def put_bounds_def put_pool_price_def put_funding_rate_def put_balance_def

definition live_until :: "u64 \<Rightarrow> u64 \<Rightarrow> u64 \<Rightarrow> bool" where
  "live_until ttl t now \<longleftrightarrow> now < saturating_add t ttl"

lemma lookup_insert:
  "lookup_valid (insert_until ttl k v t m) k' now =
     (if k' = k then (if live_until ttl t now then Some v else None) else lookup_valid m k' now)"
  by (simp add: lookup_valid_def insert_until_def cached_valid_def live_until_def lookup_update')

lemma live_earlier: "now \<le> now' \<Longrightarrow> live_until ttl t now' \<Longrightarrow> live_until ttl t now"
  by (simp add: live_until_def)

interpretation fees: ttl_cache get_fees put_fees "\<lambda>_ _ v. v" "\<lambda>s. live_until (slow_ttl s)"
  by unfold_locales (auto simp: cache_getters cache_putters lookup_insert live_earlier)

interpretation bounds: ttl_cache get_bounds put_bounds "\<lambda>_ _ v. v" "\<lambda>s. live_until (slow_ttl s)"
  by unfold_locales (auto simp: cache_getters cache_putters lookup_insert live_earlier)

interpretation pool_price: ttl_cache get_pool_price put_pool_price "\<lambda>_ _ v. v" "\<lambda>s. live_until (fast_ttl s)"
  by unfold_locales (auto simp: cache_getters cache_putters lookup_insert live_earlier)

interpretation funding_rate: ttl_cache get_funding_rate put_funding_rate "\<lambda>_ _ v. v" "\<lambda>s. live_until (fast_ttl s)"
  by unfold_locales (auto simp: cache_getters cache_putters lookup_insert live_earlier)

interpretation balance: ttl_cache get_balance put_balance "\<lambda>_ _ v. v" "\<lambda>s. live_until (fast_ttl s)"
  by unfold_locales (auto simp: cache_getters cache_putters lookup_insert live_earlier)

text \<open>The layers do not touch one another, and a new block clears the fast ones only.\<close>

lemma layers_apart:
  "get_fees (put_bounds s a b t) = get_fees s" "get_fees (put_pool_price s i x t) = get_fees s"
  "get_fees (put_funding_rate s i x t) = get_fees s" "get_fees (put_balance s k n t) = get_fees s"
  "get_bounds (put_fees s a f t) = get_bounds s" "get_bounds (put_pool_price s i x t) = get_bounds s"
  "get_pool_price (put_fees s a f t) = get_pool_price s" "get_pool_price (put_funding_rate s i x t) = get_pool_price s"
  "get_funding_rate (put_pool_price s i x t) = get_funding_rate s" "get_balance (put_pool_price s i x t) = get_balance s"
  by (intro ext; simp add: cache_getters cache_putters)+

lemma invalidated:
  "get_fees (invalidate_fast_layer s) = get_fees s" "get_bounds (invalidate_fast_layer s) = get_bounds s"
  "get_pool_price (invalidate_fast_layer s) i now = None" "get_funding_rate (invalidate_fast_layer s) i now = None"
  "get_balance (invalidate_fast_layer s) k now = None"
  "get_fees (invalidate_all s) a now = None" "get_bounds (invalidate_all s) a now = None"
  by (simp_all add: cache_getters invalidate_fast_layer_def invalidate_all_def lookup_valid_def fun_eq_iff)

text \<open>A balance read from the cache is the last one written for that token and holder, and only while its
  time to live has not run out; a new block's invalidation empties the fast layer and leaves the fees.\<close>

theorem cached_balance_is_last_write:
  "get_balance (fold (\<lambda>(k, v, t) s. put_balance s k v t) ws (state_cache_new config :: 'f state_cache)) k now =
     (case List.find (\<lambda>w. fst w = k) (rev ws) of
        Some (_, v, t) \<Rightarrow> if now < saturating_add t (cfg_fast_ttl config) then Some v else None
      | None \<Rightarrow> None)
   \<and> get_balance (invalidate_fast_layer s) k now = None
   \<and> get_fees (invalidate_fast_layer s) a now = get_fees s a now"
proof -
  have "get_balance (state_cache_new config :: 'f state_cache) k now = None" "slow_ttl (state_cache_new config :: 'f state_cache) = cfg_slow_ttl config"
    "fast_ttl (state_cache_new config :: 'f state_cache) = cfg_fast_ttl config"
    by (simp_all add: state_cache_new_def get_balance_def lookup_valid_def)
  then show ?thesis using balance.last_write[of ws "state_cache_new config :: 'f state_cache" k "now"]
    by (simp add: invalidated live_until_def split: option.split)
qed

end
