(* ===== verification/Gas.thy ===== *)
theory Gas
  imports State_Cache
begin

text \<open>
  \<open>src/src/hft/gas.rs\<close>: the gas bounds of the known entrypoints, the cache of gas estimates, and the cache
  of EIP-1559 fees with its scaling by urgency. The buffer of an estimate and the out-of-gas share are
  float products; they are parameters, as is the table of function selectors, which a macro computes.
\<close>

subsection \<open>The code: gas limits\<close>

type_synonym selector = u32

definition GAS_OPEN_TAKER :: u64 where "GAS_OPEN_TAKER = 700000"
definition GAS_OPEN_MAKER :: u64 where "GAS_OPEN_MAKER = 800000"
definition GAS_ADJUST_NOTIONAL :: u64 where "GAS_ADJUST_NOTIONAL = 500000"
definition GAS_LIQUIDATE :: u64 where "GAS_LIQUIDATE = 3000000"

record selectors =
  sel_open_taker :: selector
  sel_open_maker :: selector
  sel_adjust_taker :: selector
  sel_adjust_maker :: selector
  sel_liquidate_taker :: selector
  sel_liquidate_maker :: selector
  sel_liquidate_taker_v022 :: selector
  sel_liquidate_maker_v022 :: selector

definition estimate_floor :: "selectors \<Rightarrow> selector \<Rightarrow> u64 option" where
  "estimate_floor t s =
     (if s = sel_open_taker t then Some GAS_OPEN_TAKER
      else if s = sel_open_maker t then Some GAS_OPEN_MAKER
      else if s = sel_adjust_taker t \<or> s = sel_adjust_maker t then Some GAS_ADJUST_NOTIONAL
      else if s = sel_liquidate_taker t \<or> s = sel_liquidate_maker t
           \<or> s = sel_liquidate_taker_v022 t \<or> s = sel_liquidate_maker_v022 t then Some GAS_LIQUIDATE
      else None)"

definition is_out_of_gas :: "(u64 \<Rightarrow> u64 \<Rightarrow> bool) \<Rightarrow> u64 \<Rightarrow> u64 \<Rightarrow> bool" where
  "is_out_of_gas at_ratio gas_used gas_limit \<longleftrightarrow> 0 < gas_limit \<and> at_ratio gas_used gas_limit"

record cached_estimate =
  ce_gas_limit :: u64
  ce_cached_at_ms :: u64

record gas_limit_cache =
  estimates :: "(selector, cached_estimate) mapping"
  gc_ttl_ms :: u64
  gc_buffer :: "u64 \<Rightarrow> u64"

definition DEFAULT_ESTIMATE_TTL_MS :: u64 where "DEFAULT_ESTIMATE_TTL_MS = 3600000"

definition gas_with_config :: "u64 \<Rightarrow> (u64 \<Rightarrow> u64) \<Rightarrow> gas_limit_cache" where
  "gas_with_config ttl_ms buffer = \<lparr>estimates = Mapping.empty, gc_ttl_ms = ttl_ms, gc_buffer = buffer\<rparr>"

definition gas_new :: "(u64 \<Rightarrow> u64) \<Rightarrow> gas_limit_cache" where
  "gas_new default_buffer = gas_with_config DEFAULT_ESTIMATE_TTL_MS default_buffer"

definition gas_get :: "gas_limit_cache \<Rightarrow> selector \<Rightarrow> u64 \<Rightarrow> u64 option" where
  "gas_get c s now_ms = (case Mapping.lookup (estimates c) s of
      None \<Rightarrow> None
    | Some e \<Rightarrow> if saturating_sub now_ms (ce_cached_at_ms e) < gc_ttl_ms c then Some (ce_gas_limit e) else None)"

definition gas_put :: "selectors \<Rightarrow> gas_limit_cache \<Rightarrow> selector \<Rightarrow> u64 \<Rightarrow> u64 \<Rightarrow> gas_limit_cache" where
  "gas_put t c s raw_estimate now_ms =
     (let buffered = gc_buffer c raw_estimate;
          gas_limit = max buffered (case estimate_floor t s of None \<Rightarrow> 0 | Some f \<Rightarrow> f)
      in c\<lparr>estimates := Mapping.update s \<lparr>ce_gas_limit = gas_limit, ce_cached_at_ms = now_ms\<rparr> (estimates c)\<rparr>)"

definition gas_invalidate :: "gas_limit_cache \<Rightarrow> selector \<Rightarrow> gas_limit_cache" where
  "gas_invalidate c s = c\<lparr>estimates := Mapping.delete s (estimates c)\<rparr>"

definition gas_set_ttl :: "gas_limit_cache \<Rightarrow> u64 \<Rightarrow> gas_limit_cache" where
  "gas_set_ttl c ttl_ms = c\<lparr>gc_ttl_ms := ttl_ms\<rparr>"

subsection \<open>The code: fees\<close>

datatype urgency = Low | Normal | High | Critical

record gas_fees =
  gf_base_fee :: u64
  max_priority_fee_per_gas :: u64
  max_fee_per_gas :: u64
  gf_updated_at_ms :: u64

record fee_cache =
  fc_current :: "gas_fees option"
  fc_ttl_ms :: u64
  default_priority_fee :: u64

definition fee_cache_new :: "u64 \<Rightarrow> u64 \<Rightarrow> fee_cache" where
  "fee_cache_new ttl_ms priority = \<lparr>fc_current = None, fc_ttl_ms = ttl_ms, default_priority_fee = priority\<rparr>"

definition fee_update :: "fee_cache \<Rightarrow> u64 \<Rightarrow> u64 \<Rightarrow> fee_cache" where
  "fee_update c base_fee now_ms = c\<lparr>fc_current := Some
     \<lparr>gf_base_fee = base_fee, max_priority_fee_per_gas = default_priority_fee c,
      max_fee_per_gas = saturating_add (saturating_mul 2 base_fee) (default_priority_fee c),
      gf_updated_at_ms = now_ms\<rparr>\<rparr>"

definition fee_is_valid :: "fee_cache \<Rightarrow> u64 \<Rightarrow> bool" where
  "fee_is_valid c now_ms = (case fc_current c of
      None \<Rightarrow> False
    | Some f \<Rightarrow> saturating_sub now_ms (gf_updated_at_ms f) < fc_ttl_ms c)"

definition fee_get :: "fee_cache \<Rightarrow> u64 \<Rightarrow> gas_fees option" where
  "fee_get c now_ms = (case fc_current c of
      None \<Rightarrow> None
    | Some f \<Rightarrow> if saturating_sub now_ms (gf_updated_at_ms f) < fc_ttl_ms c then Some f else None)"

definition fee_set_ttl :: "fee_cache \<Rightarrow> u64 \<Rightarrow> fee_cache" where
  "fee_set_ttl c ttl_ms = c\<lparr>fc_ttl_ms := ttl_ms\<rparr>"

definition fee_base_fee :: "fee_cache \<Rightarrow> u64 option" where
  "fee_base_fee c = map_option gf_base_fee (fc_current c)"

definition fees_for :: "fee_cache \<Rightarrow> urgency \<Rightarrow> u64 \<Rightarrow> gas_fees option" where
  "fees_for c u now_ms = (case fee_get c now_ms of
      None \<Rightarrow> None
    | Some base \<Rightarrow>
        let bf = gf_base_fee base; pf = default_priority_fee c;
            (max_fee, priority) = (case u of
                Low \<Rightarrow> (saturating_add bf pf, pf)
              | Normal \<Rightarrow> (saturating_add (saturating_mul 2 bf) pf, pf)
              | High \<Rightarrow> (saturating_add (saturating_mul 3 bf) (saturating_mul 2 pf), saturating_mul 2 pf)
              | Critical \<Rightarrow> (saturating_add (saturating_mul 4 bf) (saturating_mul 5 pf), saturating_mul 5 pf))
        in Some \<lparr>gf_base_fee = bf, max_priority_fee_per_gas = priority, max_fee_per_gas = max_fee,
                 gf_updated_at_ms = gf_updated_at_ms base\<rparr>)"

subsection \<open>Both caches keep the contract of a timed cache\<close>

definition aged :: "u64 \<Rightarrow> u64 \<Rightarrow> u64 \<Rightarrow> bool" where
  "aged ttl t now \<longleftrightarrow> saturating_sub now t < ttl"

lemma aged_earlier:
  assumes "now \<le> now'" "aged ttl t now'" shows "aged ttl t now"
proof -
  have "saturating_sub now t \<le> saturating_sub now' t"
  proof (cases "t \<le> now")
    case True
    then have "t \<le> now'" using assms(1) by simp
    have "unat (now - t) \<le> unat (now' - t)"
      unfolding unat_sub[OF True] unat_sub[OF \<open>t \<le> now'\<close>] using assms(1) by (simp add: word_le_nat_alt diff_le_mono)
    then show ?thesis using True \<open>t \<le> now'\<close> by (simp add: saturating_sub_def word_le_nat_alt)
  qed (simp add: saturating_sub_def)
  with assms(2) show ?thesis by (simp add: aged_def)
qed

interpretation gas_limits: ttl_cache gas_get "gas_put sels"
    "\<lambda>c s raw. max (gc_buffer c raw) (case estimate_floor sels s of None \<Rightarrow> 0 | Some f \<Rightarrow> f)" "\<lambda>c. aged (gc_ttl_ms c)"
  for sels
  by unfold_locales (auto simp: gas_get_def gas_put_def Let_def lookup_update' aged_def fun_eq_iff
      intro: aged_earlier[unfolded aged_def] split: option.split)

interpretation base_fee: ttl_cache "\<lambda>c (_ :: unit) now. map_option gf_base_fee (fee_get c now)"
    "\<lambda>c _. fee_update c" "\<lambda>_ _ bf. bf" "\<lambda>c. aged (fc_ttl_ms c)"
  by unfold_locales (auto simp: fee_get_def fee_update_def aged_def fun_eq_iff
      intro: aged_earlier[unfolded aged_def])

text \<open>A gas limit read from the cache is the last estimate written for that selector, buffered and raised
  to the bound of the entrypoint, and only within the time to live; so no served limit of a known
  entrypoint is below its bound.
\<close>

theorem cached_gas_limit_is_last_estimate:
  assumes "List.find (\<lambda>w. fst w = s) (rev ws) = Some (s, raw, t)"
  shows "gas_get (fold (\<lambda>(k, v, t) c. gas_put sels c k v t) ws c) s now_ms =
      (if saturating_sub now_ms t < gc_ttl_ms c
       then Some (max (gc_buffer c raw) (case estimate_floor sels s of None \<Rightarrow> 0 | Some f \<Rightarrow> f)) else None)
    \<and> (s = sel_open_taker sels \<longrightarrow>
        (\<forall>l. gas_get (fold (\<lambda>(k, v, t) c. gas_put sels c k v t) ws c) s now_ms = Some l \<longrightarrow> GAS_OPEN_TAKER \<le> l))"
  using gas_limits.last_write[of sels ws c s now_ms] assms
  by (auto simp: aged_def estimate_floor_def le_max_iff_disj split: if_splits)

definition sample_selectors :: selectors where
  "sample_selectors = \<lparr>sel_open_taker = 1, sel_open_maker = 2, sel_adjust_taker = 3, sel_adjust_maker = 4,
     sel_liquidate_taker = 5, sel_liquidate_maker = 6, sel_liquidate_taker_v022 = 7, sel_liquidate_maker_v022 = 8\<rparr>"

theorem cached_gas_limit_is_last_estimate_witness:
  "gas_get (gas_put sample_selectors (gas_put sample_selectors (gas_new (\<lambda>x. x)) 1 900000 5) 1 580000 10) 1 3600009 = Some 700000"
  using cached_gas_limit_is_last_estimate[of 1 "[(1, 900000, 5), (1, 580000, 10)]" 580000 10 sample_selectors "gas_new (\<lambda>x. x)" 3600009]
  by (simp add: sample_selectors_def estimate_floor_def GAS_OPEN_TAKER_def gas_new_def gas_with_config_def
      DEFAULT_ESTIMATE_TTL_MS_def saturating_sub_def max_def)

lemma uint_sat_add: "uint (saturating_add a b) = min (uint a + uint b) (2 ^ 64 - 1)" for a b :: u64
  using uint_lt2p[of a] uint_lt2p[of b]
  by (auto simp: saturating_add_def uint_word_ariths min_def unsigned_minus_1_eq_mask mask_eq_exp_minus_1 zmod_trivial_iff)

lemma uint_sat_mul: "uint (saturating_mul a b) = min (uint a * uint b) (2 ^ 64 - 1)" for a b :: u64
  by (auto simp: saturating_mul_def uint_word_ariths min_def unsigned_minus_1_eq_mask mask_eq_exp_minus_1 zmod_trivial_iff)

text \<open>Each formula at a glance: the fee cap and the tip as capped integers.\<close>

fun base_factor :: "urgency \<Rightarrow> int" where
  "base_factor Low = 1" | "base_factor Normal = 2" | "base_factor High = 3" | "base_factor Critical = 4"

fun tip_factor :: "urgency \<Rightarrow> int" where
  "tip_factor Low = 1" | "tip_factor Normal = 1" | "tip_factor High = 2" | "tip_factor Critical = 5"

definition capped :: "int \<Rightarrow> int" where
  "capped x = min x (2 ^ 64 - 1)"

lemma capped_sum: "0 \<le> x \<Longrightarrow> 0 \<le> y \<Longrightarrow> capped (capped x + capped y) = capped (x + y)"
  by (auto simp: capped_def min_def)

lemma fees_for_formula:
  assumes "fees_for c u now = Some f"
  obtains g where "fee_get c now = Some g" "gf_base_fee f = gf_base_fee g" "gf_updated_at_ms f = gf_updated_at_ms g"
    and "uint (max_priority_fee_per_gas f) = capped (tip_factor u * uint (default_priority_fee c))"
    and "uint (max_fee_per_gas f) = capped (base_factor u * uint (gf_base_fee g) + tip_factor u * uint (default_priority_fee c))"
proof -
  obtain g where g: "fee_get c now = Some g" using assms by (auto simp: fees_for_def split: option.splits)
  have one: "uint x = capped (uint x)" for x :: u64
    using uint_lt2p[of x] by (simp add: capped_def min_def)
  have sums: "uint (saturating_add a b) = capped (uint a + uint b)" for a b :: u64
    by (simp add: uint_sat_add capped_def)
  have muls: "uint (saturating_mul a b) = capped (uint a * uint b)" for a b :: u64
    by (simp add: uint_sat_mul capped_def)
  have "uint (max_priority_fee_per_gas f) = capped (tip_factor u * uint (default_priority_fee c))"
    using assms g one[of "default_priority_fee c"] by (cases u) (auto simp: fees_for_def Let_def muls)
  moreover have "uint (max_fee_per_gas f) = capped (base_factor u * uint (gf_base_fee g) + tip_factor u * uint (default_priority_fee c))"
    using assms g capped_sum[of "base_factor u * uint (gf_base_fee g)" "tip_factor u * uint (default_priority_fee c)"]
      one[of "default_priority_fee c"] one[of "gf_base_fee g"]
    by (cases u) (auto simp: fees_for_def Let_def muls sums)
  moreover have "gf_base_fee f = gf_base_fee g" "gf_updated_at_ms f = gf_updated_at_ms g"
    using assms g by (auto simp: fees_for_def Let_def split: urgency.splits)
  ultimately show ?thesis using that g by blast
qed

text \<open>Fees are served with the base fee they were computed from, and only within its time to live. At every
  urgency the cap is at least the tip and covers base fee plus tip, unless that is beyond a machine word, where
  the cap is the largest word; and a more urgent transaction bids no less, in cap and in tip.\<close>

theorem fee_cap_covers:
  assumes "fees_for c u now_ms = Some f"
  shows "fee_is_valid c now_ms \<and> fee_base_fee c = Some (gf_base_fee f)
    \<and> max_priority_fee_per_gas f \<le> max_fee_per_gas f
    \<and> min (uint (gf_base_fee f) + uint (max_priority_fee_per_gas f)) (2 ^ 64 - 1) \<le> uint (max_fee_per_gas f)
    \<and> (\<exists>g. fees_for c Critical now_ms = Some g \<and> max_fee_per_gas f \<le> max_fee_per_gas g
          \<and> max_priority_fee_per_gas f \<le> max_priority_fee_per_gas g)"
proof -
  from assms obtain b where b: "fee_get c now_ms = Some b" "gf_base_fee f = gf_base_fee b"
    and pr: "uint (max_priority_fee_per_gas f) = capped (tip_factor u * uint (default_priority_fee c))"
    and mx: "uint (max_fee_per_gas f) = capped (base_factor u * uint (gf_base_fee b) + tip_factor u * uint (default_priority_fee c))"
    by (rule fees_for_formula)
  have k: "1 \<le> base_factor u" "base_factor u \<le> 4" "1 \<le> tip_factor u" "tip_factor u \<le> 5" by (cases u; simp)+
  define B where "B = uint (gf_base_fee b)"
  define P where "P = uint (default_priority_fee c)"
  have nn: "0 \<le> B" "0 \<le> P" by (simp_all add: B_def P_def)
  have B1: "B \<le> base_factor u * B" "base_factor u * B \<le> 4 * B"
    using k nn mult_right_mono[of 1 "base_factor u" B] mult_right_mono[of "base_factor u" 4 B] by simp_all
  have P1: "0 \<le> tip_factor u * P" "tip_factor u * P \<le> 5 * P"
    using k nn mult_right_mono[of "tip_factor u" 5 P] by simp_all
  obtain g where g: "fees_for c Critical now_ms = Some g" using b by (simp add: fees_for_def Let_def)
  then obtain b' where "fee_get c now_ms = Some b'"
    and gp: "uint (max_priority_fee_per_gas g) = capped (tip_factor Critical * P)"
    and gm: "uint (max_fee_per_gas g) = capped (base_factor Critical * uint (gf_base_fee b') + tip_factor Critical * P)"
    unfolding P_def by (rule fees_for_formula)
  then have gm: "uint (max_fee_per_gas g) = capped (4 * B + 5 * P)" using b(1) by (simp add: B_def)
  have "fee_is_valid c now_ms" "fee_base_fee c = Some (gf_base_fee f)"
    using b by (auto simp: fee_get_def fee_is_valid_def fee_base_fee_def split: option.splits if_splits)
  moreover have "max_priority_fee_per_gas f \<le> max_fee_per_gas f"
    unfolding word_le_def pr mx B_def[symmetric] P_def[symmetric] using B1 nn by (simp add: capped_def min_def)
  moreover have "min (uint (gf_base_fee f) + uint (max_priority_fee_per_gas f)) (2 ^ 64 - 1) \<le> uint (max_fee_per_gas f)"
    unfolding pr mx b(2) B_def[symmetric] P_def[symmetric] using B1 nn by (simp add: capped_def min_def)
  moreover have "max_fee_per_gas f \<le> max_fee_per_gas g" "max_priority_fee_per_gas f \<le> max_priority_fee_per_gas g"
    unfolding word_le_def pr mx gp gm B_def[symmetric] P_def[symmetric] using B1 P1 by (simp_all add: capped_def min_def)
  ultimately show ?thesis using g by blast
qed

theorem fee_cap_covers_witness:
  "\<exists>f. fees_for (fee_update (fee_cache_new 2000 1000000000) 50000000 1000) High 1500 = Some f
     \<and> max_priority_fee_per_gas f \<le> max_fee_per_gas f"
proof -
  obtain f where f: "fees_for (fee_update (fee_cache_new 2000 1000000000) 50000000 1000) High 1500 = Some f"
    by (simp add: fees_for_def fee_get_def fee_update_def fee_cache_new_def saturating_sub_def Let_def)
  show ?thesis using fee_cap_covers[OF f] f by blast
qed

end
