(* ===== verification/Tx_Pipeline.thy ===== *)
theory Tx_Pipeline
  imports Gas "HOL-Library.Multiset"
begin

text \<open>
  \<open>src/src/hft/nonce.rs\<close> and \<open>pipeline.rs\<close>: the nonce counter, the pipeline that prepares transactions
  from it and the fee cache, and the desync flag. A \<open>HashMap\<close> is a \<open>mapping\<close>; transaction hashes are
  \<open>256 word\<close>. Atomics are plain fields: each operation here is one atomic step of the code.

  The protocol of the second half adds what the callers hold: the nonces between \<open>prepare\<close> and the call
  that settles them. Its steps are the pipeline's operations, in any order by any number of senders.
\<close>

subsection \<open>The code: nonces\<close>

record pending_tx =
  pt_tx_hash :: hash
  pt_nonce :: u64
  pt_submitted_at_ms :: u64

record nonce_manager =
  nm_next :: u64
  nm_pending :: "(u64, pending_tx) mapping"

definition nonce_new :: "u64 \<Rightarrow> nonce_manager" where
  "nonce_new on_chain_nonce = \<lparr>nm_next = on_chain_nonce, nm_pending = Mapping.empty\<rparr>"

definition acquire :: "nonce_manager \<Rightarrow> u64 \<times> nonce_manager" where
  "acquire m = (nm_next m, m\<lparr>nm_next := nm_next m + 1\<rparr>)"

definition nonce_peek :: "nonce_manager \<Rightarrow> u64" where
  "nonce_peek m = nm_next m"

definition track :: "u64 \<Rightarrow> hash \<Rightarrow> u64 \<Rightarrow> nonce_manager \<Rightarrow> nonce_manager" where
  "track nonce tx_hash submitted_at_ms m = m\<lparr>nm_pending := Mapping.update nonce
     \<lparr>pt_tx_hash = tx_hash, pt_nonce = nonce, pt_submitted_at_ms = submitted_at_ms\<rparr> (nm_pending m)\<rparr>"

definition confirm :: "u64 \<Rightarrow> nonce_manager \<Rightarrow> pending_tx option \<times> nonce_manager" where
  "confirm nonce m = (Mapping.lookup (nm_pending m) nonce, m\<lparr>nm_pending := Mapping.delete nonce (nm_pending m)\<rparr>)"

definition release :: "u64 \<Rightarrow> nonce_manager \<Rightarrow> bool \<times> nonce_manager" where
  "release nonce m =
     (let m = m\<lparr>nm_pending := Mapping.delete nonce (nm_pending m)\<rparr> in
      if nm_next m = nonce + 1 then (True, m\<lparr>nm_next := nonce\<rparr>) else (False, m))"

definition resync :: "u64 \<Rightarrow> nonce_manager \<Rightarrow> nonce_manager" where
  "resync on_chain_nonce m = m\<lparr>nm_next := on_chain_nonce, nm_pending := Mapping.empty\<rparr>"

definition pending_count :: "nonce_manager \<Rightarrow> nat" where
  "pending_count m = Mapping.size (nm_pending m)"

subsection \<open>The code: the pipeline\<close>

datatype tx_error =
    TooManyInFlight nat nat
  | GasUnavailable
  | NonceDesynced nat
  | SimulationReverted
  | SimulationFailed
  | ZeroGasLimit
  | RpcFailed
  | SigningFailed
  | BroadcastFailed hash
  | ReceiptTimeout hash
  | OutOfGas hash u64 u64
  | Reverted hash
  | SendPanic

record tx_request =
  rq_to :: address
  rq_calldata :: "8 word list"
  rq_value :: u128
  rq_gas_limit :: u64
  rq_urgency :: urgency

record prepared_tx =
  pr_nonce :: u64
  pr_gas_limit :: u64
  pr_gas_fees :: gas_fees
  pr_request :: tx_request

record in_flight_tx =
  if_nonce :: u64
  if_tx_hash :: hash
  if_request :: tx_request
  if_submitted_at_ms :: u64
  if_gas_fees :: gas_fees

record bump_params =
  bp_nonce :: u64
  bp_gas_limit :: u64
  new_max_priority_fee :: u64
  new_max_fee :: u64
  original_tx_hash :: hash

record pipeline_config =
  max_in_flight :: nat
  stuck_timeout_ms :: u64

definition pipeline_default :: pipeline_config where
  "pipeline_default = \<lparr>max_in_flight = 16, stuck_timeout_ms = 30000\<rparr>"

record tx_pipeline =
  nonce_mgr :: nonce_manager
  pl_config :: pipeline_config
  in_flight :: "(hash, in_flight_tx) mapping"
  desynced :: bool
  preparing :: u64

definition pipeline_new :: "u64 \<Rightarrow> pipeline_config \<Rightarrow> tx_pipeline" where
  "pipeline_new starting_nonce config = \<lparr>nonce_mgr = nonce_new starting_nonce, pl_config = config,
     in_flight = Mapping.empty, desynced = False, preparing = 0\<rparr>"

definition in_flight_count :: "tx_pipeline \<Rightarrow> nat" where
  "in_flight_count pl = Mapping.size (in_flight pl)"

definition prepare :: "tx_request \<Rightarrow> fee_cache \<Rightarrow> u64 \<Rightarrow> tx_pipeline \<Rightarrow> (tx_error + prepared_tx) \<times> tx_pipeline" where
  "prepare request fees now_ms pl =
     (if max_in_flight (pl_config pl) \<le> in_flight_count pl
      then (Inl (TooManyInFlight (in_flight_count pl) (max_in_flight (pl_config pl))), pl)
      else (case fees_for fees (rq_urgency request) now_ms of
          None \<Rightarrow> (Inl GasUnavailable, pl)
        | Some gas \<Rightarrow>
            let (nonce, m) = acquire (nonce_mgr pl) in
            (Inr \<lparr>pr_nonce = nonce, pr_gas_limit = rq_gas_limit request, pr_gas_fees = gas, pr_request = request\<rparr>,
             pl\<lparr>nonce_mgr := m, preparing := preparing pl + 1\<rparr>)))"

definition record_submission :: "hash \<Rightarrow> prepared_tx \<Rightarrow> u64 \<Rightarrow> tx_pipeline \<Rightarrow> tx_pipeline" where
  "record_submission tx_hash p now_ms pl = pl\<lparr>preparing := preparing pl - 1,
     nonce_mgr := track (pr_nonce p) tx_hash now_ms (nonce_mgr pl),
     in_flight := Mapping.update tx_hash \<lparr>if_nonce = pr_nonce p, if_tx_hash = tx_hash, if_request = pr_request p,
       if_submitted_at_ms = now_ms, if_gas_fees = pr_gas_fees p\<rparr> (in_flight pl)\<rparr>"

definition resolve_tx :: "hash \<Rightarrow> tx_pipeline \<Rightarrow> tx_pipeline" where
  "resolve_tx tx_hash pl = (case Mapping.lookup (in_flight pl) tx_hash of
      None \<Rightarrow> pl
    | Some tx \<Rightarrow> pl\<lparr>in_flight := Mapping.delete tx_hash (in_flight pl),
                   nonce_mgr := snd (confirm (if_nonce tx) (nonce_mgr pl))\<rparr>)"

definition fail_tx :: "hash \<Rightarrow> tx_pipeline \<Rightarrow> tx_pipeline" where
  "fail_tx tx_hash pl = (case Mapping.lookup (in_flight pl) tx_hash of
      None \<Rightarrow> pl
    | Some tx \<Rightarrow> pl\<lparr>in_flight := Mapping.delete tx_hash (in_flight pl),
                   nonce_mgr := snd (release (if_nonce tx) (nonce_mgr pl))\<rparr>)"

definition abandon_prepared :: "u64 \<Rightarrow> tx_pipeline \<Rightarrow> tx_pipeline" where
  "abandon_prepared nonce pl =
     (let (rewound, m) = release nonce (nonce_mgr pl);
          pl = pl\<lparr>preparing := preparing pl - 1, nonce_mgr := m\<rparr>
      in if rewound then pl else pl\<lparr>desynced := True\<rparr>)"

definition mark_desynced_prepared :: "tx_pipeline \<Rightarrow> tx_pipeline" where
  "mark_desynced_prepared pl = pl\<lparr>preparing := preparing pl - 1, desynced := True\<rparr>"

definition mark_desynced :: "tx_pipeline \<Rightarrow> tx_pipeline" where
  "mark_desynced pl = pl\<lparr>desynced := True\<rparr>"

definition can_resync :: "tx_pipeline \<Rightarrow> bool" where
  "can_resync pl \<longleftrightarrow> Mapping.is_empty (in_flight pl) \<and> preparing pl = 0"

definition resync_nonce :: "u64 \<Rightarrow> tx_pipeline \<Rightarrow> tx_pipeline" where
  "resync_nonce on_chain_nonce pl = pl\<lparr>nonce_mgr := resync on_chain_nonce (nonce_mgr pl), desynced := False\<rparr>"

text \<open>The code lists the hashes in the order of a hash map's iteration, which is none in particular: a set.\<close>

definition stuck_txs :: "u64 \<Rightarrow> tx_pipeline \<Rightarrow> hash set" where
  "stuck_txs now_ms pl =
     (\<lambda>h. if_tx_hash (the (Mapping.lookup (in_flight pl) h))) `
       Set.filter (\<lambda>h. stuck_timeout_ms (pl_config pl)
           \<le> saturating_sub now_ms (if_submitted_at_ms (the (Mapping.lookup (in_flight pl) h))))
         (Mapping.keys (in_flight pl))"

definition prepare_bump :: "hash \<Rightarrow> u64 \<Rightarrow> tx_pipeline \<Rightarrow> bump_params option" where
  "prepare_bump tx_hash multiplier pl = (case Mapping.lookup (in_flight pl) tx_hash of
      None \<Rightarrow> None
    | Some tx \<Rightarrow> Some \<lparr>bp_nonce = if_nonce tx, bp_gas_limit = rq_gas_limit (if_request tx),
        new_max_priority_fee = saturating_mul (max_priority_fee_per_gas (if_gas_fees tx)) multiplier,
        new_max_fee = saturating_mul (max_fee_per_gas (if_gas_fees tx)) multiplier,
        original_tx_hash = tx_hash\<rparr>)"

subsection \<open>The protocol of the senders\<close>

text \<open>
  The state: the pipeline, the nonces senders hold between preparing and settling, the nonce the sequence
  last started from, and the nonces that were broadcast and are no longer tracked. A counter at the
  largest word is not advanced (EIP-2681 stops below it), and a hash is new when it is recorded.
  \<open>Fail\<close>, which the client exposes but its own send path never takes, is a step only with \<open>fails\<close>.
\<close>

type_synonym tx_world = "tx_pipeline \<times> u64 multiset \<times> u64 \<times> u64 set"

inductive tx_step :: "bool \<Rightarrow> tx_world \<Rightarrow> tx_world \<Rightarrow> bool" for fails where
  Prepare: "prepare request fees now_ms pl = (Inr p, pl') \<Longrightarrow> nm_next (nonce_mgr pl) \<noteq> - 1
    \<Longrightarrow> tx_step fails (pl, H, b, D) (pl', add_mset (pr_nonce p) H, b, D)"
| Refuse: "prepare request fees now_ms pl = (Inl e, pl') \<Longrightarrow> tx_step fails (pl, H, b, D) (pl', H, b, D)"
| Submit: "Mapping.lookup (in_flight pl) h = None
    \<Longrightarrow> tx_step fails (pl, add_mset (pr_nonce p) H, b, D) (record_submission h p now_ms pl, H, b, D)"
| Abandon: "tx_step fails (pl, add_mset n H, b, D) (abandon_prepared n pl, H, b, D)"
| Lose: "tx_step fails (pl, add_mset n H, b, D) (mark_desynced_prepared pl, H, b, D)"
| Doubt: "tx_step fails (pl, H, b, D) (mark_desynced pl, H, b, D)"
| Settle: "Mapping.lookup (in_flight pl) h = Some tx
    \<Longrightarrow> tx_step fails (pl, H, b, D) (resolve_tx h pl, H, b, insert (if_nonce tx) D)"
| Resync: "can_resync pl \<Longrightarrow> tx_step fails (pl, H, b, D) (resync_nonce n pl, H, n, {})"
| Fail: "fails \<Longrightarrow> Mapping.lookup (in_flight pl) h = Some tx
    \<Longrightarrow> tx_step fails (pl, H, b, D) (fail_tx h pl, H, b, D)"

definition tx_reachable :: "bool \<Rightarrow> tx_world \<Rightarrow> bool" where
  "tx_reachable fails s \<longleftrightarrow> (\<exists>n config. (tx_step fails)\<^sup>*\<^sup>* (pipeline_new n config, {#}, n, {}) s)"

subsection \<open>Its invariant\<close>

definition flying :: "tx_pipeline \<Rightarrow> u64 set" where
  "flying pl = {n. \<exists>h tx. Mapping.lookup (in_flight pl) h = Some tx \<and> if_nonce tx = n}"

definition next_nonce :: "tx_pipeline \<Rightarrow> u64" where
  "next_nonce pl = nm_next (nonce_mgr pl)"

text \<open>Every nonce out is out once: no two senders and no two transactions in flight share one.\<close>

definition out_once :: "tx_pipeline \<Rightarrow> u64 multiset \<Rightarrow> bool" where
  "out_once pl H \<longleftrightarrow>
     (\<forall>n. count H n \<le> 1) \<and> (\<forall>n \<in># H. n \<notin> flying pl)
     \<and> (\<forall>h h' tx tx'. Mapping.lookup (in_flight pl) h = Some tx \<longrightarrow> Mapping.lookup (in_flight pl) h' = Some tx'
          \<longrightarrow> if_nonce tx = if_nonce tx' \<longrightarrow> h = h')"

definition tx_inv :: "bool \<Rightarrow> tx_world \<Rightarrow> bool" where
  "tx_inv fails s = (case s of (pl, H, b, D) \<Rightarrow>
     out_once pl H
     \<and> b \<le> next_nonce pl \<and> (\<forall>n. n \<in># H \<or> n \<in> flying pl \<longrightarrow> b \<le> n \<and> n < next_nonce pl)
     \<and> preparing pl = of_nat (size H)
     \<and> Mapping.keys (nm_pending (nonce_mgr pl)) = flying pl
     \<and> (fails \<or> (\<forall>n \<in> D. b \<le> n \<and> n < next_nonce pl \<and> n \<notin># H \<and> n \<notin> flying pl)
         \<and> (desynced pl \<or> (\<forall>n. b \<le> n \<and> n < next_nonce pl \<longrightarrow> n \<in># H \<or> n \<in> flying pl \<or> n \<in> D))))"

lemma below_Suc: "x \<noteq> - 1 \<Longrightarrow> n < x + 1 \<longleftrightarrow> n \<le> x" for x n :: u64
proof -
  assume "x \<noteq> - 1"
  then have "1 + x \<noteq> 0" using eq_neg_iff_add_eq_0[of x 1] by (simp add: add.commute)
  then have "unat (x + 1) = Suc (unat x)" using unatSuc[of x] by (simp add: add.commute)
  then show ?thesis by (simp add: word_less_nat_alt word_le_nat_alt less_Suc_eq_le)
qed

lemma flying_simps [simp]:
  "flying (pl\<lparr>preparing := x\<rparr>) = flying pl" "flying (pl\<lparr>desynced := y\<rparr>) = flying pl" "flying (pl\<lparr>nonce_mgr := m\<rparr>) = flying pl"
  by (simp_all add: flying_def)

lemma flying_insert:
  assumes "Mapping.lookup (in_flight pl) h = None"
  shows "flying (pl\<lparr>in_flight := Mapping.update h tx (in_flight pl)\<rparr>) = insert (if_nonce tx) (flying pl)"
  using assms by (auto simp: flying_def lookup_update') (metis option.distinct(1))

lemma lookup_delete_if: "Mapping.lookup (Mapping.delete k m) k' = (if k' = k then None else Mapping.lookup m k')"
  by (simp add: lookup_delete lookup_delete_neq)

lemma flying_delete:
  assumes "out_once pl H" "Mapping.lookup (in_flight pl) h = Some tx"
  shows "flying (pl\<lparr>in_flight := Mapping.delete h (in_flight pl)\<rparr>) = flying pl - {if_nonce tx}"
  using assms by (auto simp: flying_def out_once_def lookup_delete_if split: if_splits) (metis option.inject)+

lemmas tx_ops = prepare_def acquire_def record_submission_def track_def resolve_tx_def confirm_def
  abandon_prepared_def release_def mark_desynced_prepared_def mark_desynced_def resync_nonce_def resync_def fail_tx_def

lemma out_once_cong:
  "in_flight pl' = in_flight pl \<Longrightarrow> out_once pl' H = out_once pl H"
  by (simp add: out_once_def flying_def)

lemma inv_prepare:
  assumes "prepare request fees now pl = (Inr p, pl')" "next_nonce pl \<noteq> - 1" "tx_inv fails (pl, H, b, D)"
  shows "tx_inv fails (pl', add_mset (pr_nonce p) H, b, D)"
proof -
  let ?n = "next_nonce pl"
  have p: "pr_nonce p = ?n" and pl': "pl' = pl\<lparr>nonce_mgr := (nonce_mgr pl)\<lparr>nm_next := ?n + 1\<rparr>, preparing := preparing pl + 1\<rparr>"
    using assms(1) by (auto simp: prepare_def acquire_def next_nonce_def split: if_splits option.splits)
  have n': "next_nonce pl' = ?n + 1" and fl: "flying pl' = flying pl" and ds: "desynced pl' = desynced pl"
    and kp: "nm_pending (nonce_mgr pl') = nm_pending (nonce_mgr pl)" and pp: "preparing pl' = preparing pl + 1"
    by (simp_all add: pl' next_nonce_def flying_def)
  have fresh: "?n \<notin># H" "?n \<notin> flying pl" "fails \<or> ?n \<notin> D" using assms(3) by (auto simp: tx_inv_def)
  have oo: "out_once pl' (add_mset ?n H)"
  proof -
    have "out_once pl H" using assms(3) by (simp add: tx_inv_def)
    then show ?thesis using fresh unfolding out_once_def fl
      by (auto simp: pl' not_in_iff)
  qed
  note bs = below_Suc[OF assms(2)]
  have le: "n < ?n + 1 \<longleftrightarrow> n < ?n \<or> n = ?n" for n using bs[of n] by auto
  have "b \<le> ?n" using assms(3) by (simp add: tx_inv_def)
  then have "b \<le> ?n + 1" using le[of ?n] by simp
  then show ?thesis using assms(3) oo fresh unfolding tx_inv_def prod.case p n' fl ds kp pp le
    by auto
qed

lemma inv_submit:
  assumes "Mapping.lookup (in_flight pl) h = None" "tx_inv fails (pl, add_mset (pr_nonce p) H, b, D)"
  shows "tx_inv fails (record_submission h p now pl, H, b, D)"
proof -
  let ?pl = "record_submission h p now pl"
  have fl: "flying ?pl = insert (pr_nonce p) (flying pl)"
    using flying_insert[OF assms(1)] by (simp add: record_submission_def flying_def)
  have rest: "next_nonce ?pl = next_nonce pl" "desynced ?pl = desynced pl" "preparing ?pl = preparing pl - 1"
    "Mapping.keys (nm_pending (nonce_mgr ?pl)) = insert (pr_nonce p) (Mapping.keys (nm_pending (nonce_mgr pl)))"
    by (simp_all add: record_submission_def track_def next_nonce_def)
  have oo: "out_once pl (add_mset (pr_nonce p) H)" using assms(2) by (simp add: tx_inv_def)
  have "out_once ?pl H"
  proof -
    have "pr_nonce p \<notin> flying pl" "pr_nonce p \<notin># H"
      using oo by (auto simp: out_once_def not_in_iff dest!: spec[of _ "pr_nonce p"])
    moreover have "count H n \<le> 1" for n using oo by (auto simp: out_once_def not_in_iff split: if_splits dest!: spec[of _ n])
    moreover have "if_nonce tx = if_nonce tx' \<longrightarrow> g = g'"
      if "Mapping.lookup (in_flight pl) g = Some tx" "Mapping.lookup (in_flight pl) g' = Some tx'" for g g' tx tx'
      using oo that unfolding out_once_def by blast
    moreover have "n \<notin> flying pl" if "n \<in># H" for n using oo that by (auto simp: out_once_def)
    moreover have "if_nonce tx \<noteq> pr_nonce p" if "Mapping.lookup (in_flight pl) g = Some tx" for g tx
      using that \<open>pr_nonce p \<notin> flying pl\<close> by (auto simp: flying_def)
    ultimately show ?thesis unfolding out_once_def fl
      by (auto simp: record_submission_def lookup_update' split: if_splits) metis+
  qed
  then show ?thesis using assms(2) unfolding tx_inv_def prod.case fl rest by auto
qed

lemma size_below:
  assumes "\<forall>n. count H n \<le> 1" "\<forall>n \<in># H. n < (x :: u64)"
  shows "size H \<le> unat x"
proof -
  have "size H = (\<Sum>n \<in> set_mset H. count H n)" by (simp add: size_multiset_overloaded_eq)
  also have "\<dots> \<le> (\<Sum>n \<in> set_mset H. 1)" using assms(1) by (intro sum_mono) simp
  also have "\<dots> = card (unat ` set_mset H)"
  proof -
    have "inj_on unat (set_mset H)" by (simp add: inj_on_def word_unat_eq_iff)
    then show ?thesis by (simp add: card_image)
  qed
  also have "\<dots> \<le> card {..<unat x}" using assms(2) by (intro card_mono) (auto simp: word_less_nat_alt)
  finally show ?thesis by simp
qed

lemma inv_idle:
  assumes "tx_inv fails (pl, H, b, D)"
  shows "preparing pl = 0 \<longleftrightarrow> H = {#}"
proof -
  have "size H \<le> unat (next_nonce pl)" using assms by (intro size_below) (auto simp: tx_inv_def out_once_def)
  also have "\<dots> < 2 ^ 64" using unsigned_less[of "next_nonce pl", where 'a = nat] by simp
  finally have "unat (of_nat (size H) :: u64) = size H" by (simp add: unat_of_nat)
  moreover have "preparing pl = of_nat (size H)" using assms by (simp add: tx_inv_def)
  ultimately show ?thesis by (metis size_eq_0_iff_empty unat_eq_0 size_empty)
qed

lemma released:
  assumes "release n m = (r, m')"
  shows "Mapping.keys (nm_pending m') = Mapping.keys (nm_pending m) - {n}"
    and "nm_next m' = (if nm_next m = n + 1 then n else nm_next m)" and "r \<longleftrightarrow> nm_next m = n + 1"
  using assms by (auto simp: release_def Let_def split: if_splits)

lemma inv_abandon:
  assumes "tx_inv fails (pl, add_mset n H, b, D)"
  shows "tx_inv fails (abandon_prepared n pl, H, b, D)"
proof -
  obtain r m where rel: "release n (nonce_mgr pl) = (r, m)" by force
  note rd = released[OF rel]
  let ?pl = "abandon_prepared n pl"
  have oo: "out_once pl (add_mset n H)" using assms by (simp add: tx_inv_def)
  have nb: "b \<le> n" "n < next_nonce pl" "n \<notin> flying pl" "n \<notin># H"
    using assms oo by (auto simp: tx_inv_def out_once_def not_in_iff dest!: spec[of _ n])
  have same: "in_flight ?pl = in_flight pl" "preparing ?pl = preparing pl - 1" "nonce_mgr ?pl = m"
    "desynced ?pl \<longleftrightarrow> desynced pl \<or> \<not> r"
    by (simp_all add: abandon_prepared_def rel Let_def)
  have fl: "flying ?pl = flying pl" by (simp add: flying_def same)
  have oo': "out_once ?pl H"
  proof -
    have "count H k \<le> 1" for k using oo by (auto simp: out_once_def not_in_iff split: if_splits dest!: spec[of _ k])
    then show ?thesis using oo unfolding out_once_def fl same by auto
  qed
  have keys: "Mapping.keys (nm_pending m) = flying pl" using rd(1) assms nb(3) by (auto simp: tx_inv_def)
  show ?thesis
  proof (cases r)
    case True
    then have nx: "next_nonce pl = n + 1" "next_nonce ?pl = n" using rd(2,3) by (simp_all add: next_nonce_def same)
    have "n \<noteq> - 1" using nb(2) nx(1) by auto
    then have lt: "k < next_nonce pl \<longleftrightarrow> k < n \<or> k = n" for k unfolding nx using below_Suc[of n k] by auto
    show ?thesis using assms nb oo' keys True unfolding tx_inv_def prod.case fl same nx(2) lt by auto
  next
    case False
    then have "next_nonce ?pl = next_nonce pl" using rd(2,3) by (simp add: next_nonce_def same)
    then show ?thesis using assms nb oo' keys False unfolding tx_inv_def prod.case fl same by auto
  qed
qed

lemma inv_lose:
  assumes "tx_inv fails (pl, add_mset n H, b, D)"
  shows "tx_inv fails (mark_desynced_prepared pl, H, b, D)"
proof -
  have oo: "out_once pl (add_mset n H)" using assms by (simp add: tx_inv_def)
  have "count H k \<le> 1" for k using oo by (auto simp: out_once_def not_in_iff split: if_splits dest!: spec[of _ k])
  then have "out_once (mark_desynced_prepared pl) H"
    using oo by (auto simp: out_once_def mark_desynced_prepared_def)
  then show ?thesis using assms by (auto simp: tx_inv_def mark_desynced_prepared_def next_nonce_def)
qed

lemma inv_settle:
  assumes "Mapping.lookup (in_flight pl) h = Some tx" "tx_inv fails (pl, H, b, D)"
    and pl': "in_flight pl' = Mapping.delete h (in_flight pl)" "preparing pl' = preparing pl" "desynced pl' = desynced pl"
    and keys: "Mapping.keys (nm_pending (nonce_mgr pl')) = flying pl - {if_nonce tx}"
    and nx: "next_nonce pl' = next_nonce pl \<or> fails \<and> next_nonce pl = if_nonce tx + 1 \<and> next_nonce pl' = if_nonce tx"
    and D': "D' = insert (if_nonce tx) D \<or> fails"
  shows "tx_inv fails (pl', H, b, D')"
proof -
  let ?n = "if_nonce tx"
  have oo: "out_once pl H" using assms(2) by (simp add: tx_inv_def)
  have n: "?n \<in> flying pl" using assms(1) by (auto simp: flying_def)
  have fl: "flying pl' = flying pl - {?n}" using flying_delete[OF oo assms(1)] by (simp add: flying_def pl')
  have oo': "out_once pl' H"
    using oo unfolding out_once_def fl by (auto simp: pl'(1) lookup_delete_if split: if_splits)
  have nb: "b \<le> ?n" "?n < next_nonce pl" "?n \<notin># H" using assms(2) n oo by (auto simp: tx_inv_def out_once_def)
  show ?thesis
  proof (cases "next_nonce pl' = next_nonce pl")
    case True
    then show ?thesis using assms(2) nb n oo' D' unfolding tx_inv_def prod.case fl pl'(2,3) keys True by auto
  next
    case False
    then have f: fails and nx: "next_nonce pl = ?n + 1" "next_nonce pl' = ?n" using nx by auto
    have "?n \<noteq> - 1" using nb(2) nx(1) by auto
    then have lt: "k < next_nonce pl \<longleftrightarrow> k < ?n \<or> k = ?n" for k unfolding nx using below_Suc[of ?n k] by auto
    show ?thesis using assms(2) nb oo' f unfolding tx_inv_def prod.case fl pl'(2,3) keys nx(2) lt by auto
  qed
qed

lemma inv_resync:
  assumes "can_resync pl" "tx_inv fails (pl, H, b, D)"
  shows "tx_inv fails (resync_nonce n pl, H, n, {})"
proof -
  have H: "H = {#}" using assms inv_idle[OF assms(2)] by (simp add: can_resync_def)
  have "Mapping.lookup (in_flight pl) h = None" for h
    using assms(1) by (simp add: can_resync_def Mapping.is_empty_def keys_dom_lookup)
  then show ?thesis using H assms
    by (auto simp: tx_inv_def out_once_def flying_def resync_nonce_def resync_def next_nonce_def can_resync_def)
qed

lemma inv_step:
  assumes "tx_step fails s s'" "tx_inv fails s" shows "tx_inv fails s'"
  using assms
proof (induction rule: tx_step.induct)
  case (Prepare request fees now_ms pl p pl' H b D)
  then show ?case using inv_prepare by (simp add: next_nonce_def)
next
  case (Refuse request fees now_ms pl e pl' H b D)
  then have "pl' = pl" by (auto simp: prepare_def acquire_def split: if_splits option.splits)
  then show ?case using Refuse by simp
next
  case (Doubt pl H b D)
  then show ?case by (auto simp: tx_inv_def out_once_def mark_desynced_def next_nonce_def)
next
  case (Settle pl h tx H b D)
  have "resolve_tx h pl = pl\<lparr>in_flight := Mapping.delete h (in_flight pl), nonce_mgr := snd (confirm (if_nonce tx) (nonce_mgr pl))\<rparr>"
    using Settle.hyps by (simp add: resolve_tx_def)
  then show ?case using Settle.prems
    by (intro inv_settle[OF Settle]) (auto simp: confirm_def next_nonce_def tx_inv_def)
next
  case (Fail pl h tx H b D)
  obtain r m where rel: "release (if_nonce tx) (nonce_mgr pl) = (r, m)" by force
  then have "fail_tx h pl = pl\<lparr>in_flight := Mapping.delete h (in_flight pl), nonce_mgr := m\<rparr>"
    using Fail.hyps by (simp add: fail_tx_def)
  then show ?case using Fail released[OF rel]
    by (intro inv_settle[OF Fail.hyps(2) Fail.prems]) (auto simp: next_nonce_def tx_inv_def)
qed (simp_all add: inv_submit inv_abandon inv_lose inv_resync)

lemma inv_reachable: "tx_reachable fails s \<Longrightarrow> tx_inv fails s"
  unfolding tx_reachable_def
proof (elim exE)
  fix n config
  assume "(tx_step fails)\<^sup>*\<^sup>* (pipeline_new n config, {#}, n, {}) s"
  then show "tx_inv fails s"
  proof (induction rule: rtranclp_induct)
    case base
    show ?case by (auto simp: tx_inv_def out_once_def flying_def pipeline_new_def nonce_new_def next_nonce_def)
  qed (rule inv_step)
qed

subsection \<open>Where a silent hole comes from\<close>

text \<open>A nonce below the counter that nobody accounts for, and no flag that says so.\<close>

definition silent_hole :: "tx_world \<Rightarrow> u64 \<Rightarrow> bool" where
  "silent_hole s n \<longleftrightarrow> (case s of (pl, H, b, D) \<Rightarrow>
     \<not> desynced pl \<and> b \<le> n \<and> n < next_nonce pl \<and> n \<notin># H \<and> n \<notin> flying pl \<and> n \<notin> D)"

text \<open>Every step but failing a transaction below the last one leaves no new one.\<close>

lemma silent_hole_step:
  assumes "tx_step True s s'" "tx_inv True s" "silent_hole s' n"
  shows "silent_hole s n \<or> (\<exists>pl H b D h tx. s = (pl, H, b, D) \<and> s' = (fail_tx h pl, H, b, D)
    \<and> Mapping.lookup (in_flight pl) h = Some tx \<and> if_nonce tx = n \<and> n + 1 \<noteq> next_nonce pl)"
  using assms
proof (induction rule: tx_step.induct)
  case (Prepare request fees now_ms pl p pl' H b D)
  have p: "pr_nonce p = next_nonce pl" and pl': "pl' = pl\<lparr>nonce_mgr := (nonce_mgr pl)\<lparr>nm_next := next_nonce pl + 1\<rparr>, preparing := preparing pl + 1\<rparr>"
    using Prepare.hyps(1) by (auto simp: prepare_def acquire_def next_nonce_def split: if_splits option.splits)
  have "next_nonce pl \<noteq> - 1" using Prepare.hyps(2) by (simp add: next_nonce_def)
  note lt = below_Suc[OF this]
  have "next_nonce pl' = next_nonce pl + 1" by (simp add: pl' next_nonce_def)
  then show ?case using Prepare.prems(2) p by (auto simp: silent_hole_def lt order_le_less pl')
next
  case (Refuse request fees now_ms pl e pl' H b D)
  then have "pl' = pl" by (auto simp: prepare_def acquire_def split: if_splits option.splits)
  then show ?case using Refuse by simp
next
  case (Submit pl h p H b D now_ms)
  have "flying (record_submission h p now_ms pl) = insert (pr_nonce p) (flying pl)"
    using flying_insert[OF Submit.hyps] by (simp add: record_submission_def flying_def)
  then show ?case using Submit.prems(2) by (auto simp: silent_hole_def record_submission_def track_def next_nonce_def)
next
  case (Abandon pl m H b D)
  obtain r m' where rel: "release m (nonce_mgr pl) = (r, m')" by force
  have same: "in_flight (abandon_prepared m pl) = in_flight pl" "nonce_mgr (abandon_prepared m pl) = m'"
    "desynced (abandon_prepared m pl) \<longleftrightarrow> desynced pl \<or> \<not> r"
    by (simp_all add: abandon_prepared_def rel Let_def)
  have "r" using Abandon.prems(2) same(3) by (simp add: silent_hole_def)
  then have nx: "next_nonce pl = m + 1" "next_nonce (abandon_prepared m pl) = m"
    using released[OF rel] by (simp_all add: next_nonce_def same)
  have "m < next_nonce pl" using Abandon.prems(1) by (simp add: tx_inv_def)
  then have "m \<noteq> - 1" unfolding nx(1) by auto
  note lt = below_Suc[OF this]
  have "flying (abandon_prepared m pl) = flying pl" by (simp add: flying_def same)
  then show ?case using Abandon.prems(2) same(3) by (auto simp: silent_hole_def nx lt)
next
  case (Settle pl h tx H b D)
  have r: "resolve_tx h pl = pl\<lparr>in_flight := Mapping.delete h (in_flight pl), nonce_mgr := snd (confirm (if_nonce tx) (nonce_mgr pl))\<rparr>"
    using Settle.hyps by (simp add: resolve_tx_def)
  have "out_once pl H" using Settle.prems(1) by (simp add: tx_inv_def)
  from flying_delete[OF this Settle.hyps] have "flying (resolve_tx h pl) = flying pl - {if_nonce tx}" by (simp add: r flying_def)
  then show ?case using Settle.prems(2) by (auto simp: silent_hole_def r confirm_def next_nonce_def)
next
  case (Resync pl m H b D)
  then show ?case by (auto simp: silent_hole_def resync_nonce_def resync_def next_nonce_def)
next
  case (Fail pl h tx H b D)
  obtain r m where rel: "release (if_nonce tx) (nonce_mgr pl) = (r, m)" by force
  have f: "fail_tx h pl = pl\<lparr>in_flight := Mapping.delete h (in_flight pl), nonce_mgr := m\<rparr>"
    using Fail.hyps rel by (simp add: fail_tx_def)
  have oo: "out_once pl H" and lt': "if_nonce tx < next_nonce pl" using Fail by (auto simp: tx_inv_def flying_def)
  from flying_delete[OF oo Fail.hyps(2)] have fl: "flying (fail_tx h pl) = flying pl - {if_nonce tx}" by (simp add: f flying_def)
  have ds: "desynced (fail_tx h pl) = desynced pl" by (simp add: f)
  show ?case
  proof (cases r)
    case True
    then have nx: "next_nonce pl = if_nonce tx + 1" "next_nonce (fail_tx h pl) = if_nonce tx"
      using released[OF rel] by (simp_all add: next_nonce_def f)
    have "if_nonce tx \<noteq> - 1" using lt' unfolding nx(1) by auto
    note lt = below_Suc[OF this]
    show ?thesis using Fail.prems(2) by (auto simp: silent_hole_def nx fl lt ds)
  next
    case False
    then have nx: "next_nonce (fail_tx h pl) = next_nonce pl" "if_nonce tx + 1 \<noteq> next_nonce pl"
      using released[OF rel] by (auto simp: next_nonce_def f)
    have "silent_hole (pl, H, b, D) n \<or> if_nonce tx = n" using Fail.prems(2) by (auto simp: silent_hole_def nx(1) fl ds)
    then show ?thesis using Fail.hyps(2) nx(2) by blast
  qed
qed (auto simp: silent_hole_def mark_desynced_prepared_def mark_desynced_def next_nonce_def)

lemma silent_hole_traced:
  assumes "tx_reachable True s" "silent_hole s n"
  shows "\<exists>pl H b D h tx. tx_reachable True (pl, H, b, D) \<and> Mapping.lookup (in_flight pl) h = Some tx
    \<and> if_nonce tx = n \<and> n + 1 \<noteq> next_nonce pl \<and> (tx_step True)\<^sup>*\<^sup>* (fail_tx h pl, H, b, D) s"
proof -
  obtain k config where run: "(tx_step True)\<^sup>*\<^sup>* (pipeline_new k config, {#}, k, {}) s"
    using assms(1) unfolding tx_reachable_def by blast
  from run assms(2) show ?thesis
  proof (induction rule: rtranclp_induct)
    case base
    then have "k \<le> n" "n < k" by (simp_all add: silent_hole_def pipeline_new_def nonce_new_def next_nonce_def)
    then show ?case by simp
  next
    case (step s s')
    have at: "tx_reachable True s" using step.hyps(1) unfolding tx_reachable_def by blast
    from silent_hole_step[OF step.hyps(2) inv_reachable[OF at] step.prems] show ?case
    proof (elim disjE exE conjE)
      assume "silent_hole s n"
      then show ?thesis using step.IH step.hyps(2) by (meson rtranclp.rtrancl_into_rtrancl)
    next
      fix pl H b D h tx
      assume "s = (pl, H, b, D)" "s' = (fail_tx h pl, H, b, D)" "Mapping.lookup (in_flight pl) h = Some tx" "if_nonce tx = n" "n + 1 \<noteq> next_nonce pl"
      then show ?thesis using at by blast
    qed
  qed
qed

subsection \<open>Properties\<close>

text \<open>C2: Whatever the senders do, and in whatever order, a nonce is out once: no two of the nonces held between
  preparing and settling and of those in flight are equal, all are below the counter, and the pending map tracks
  exactly those in flight; and a resync is allowed exactly when no nonce is out.\<close>

theorem nonces_out_once:
  assumes "tx_reachable fails (pl, H, b, D)"
  shows "(\<forall>n. count H n \<le> 1) \<and> set_mset H \<inter> flying pl = {}
    \<and> (\<forall>n \<in> set_mset H \<union> flying pl. n < next_nonce pl)
    \<and> Mapping.keys (nm_pending (nonce_mgr pl)) = flying pl
    \<and> (can_resync pl \<longleftrightarrow> H = {#} \<and> flying pl = {})"
proof -
  note inv = inv_reachable[OF assms]
  have "Mapping.is_empty (in_flight pl) \<longleftrightarrow> (\<forall>h. Mapping.lookup (in_flight pl) h = None)"
    by (auto simp: Mapping.is_empty_def keys_dom_lookup)
  also have "\<dots> \<longleftrightarrow> flying pl = {}"
  proof
    assume "flying pl = {}"
    then have no: "Mapping.lookup (in_flight pl) h \<noteq> Some tx" for h tx by (auto simp: flying_def)
    then show "\<forall>h. Mapping.lookup (in_flight pl) h = None" by (metis option.exhaust)
  qed (simp add: flying_def)
  finally have "Mapping.is_empty (in_flight pl) \<longleftrightarrow> flying pl = {}" .
  then have "can_resync pl \<longleftrightarrow> H = {#} \<and> flying pl = {}" using inv_idle[OF inv] unfolding can_resync_def by blast
  moreover have "out_once pl H" "\<forall>n. n \<in># H \<or> n \<in> flying pl \<longrightarrow> b \<le> n \<and> n < next_nonce pl"
    "Mapping.keys (nm_pending (nonce_mgr pl)) = flying pl"
    using inv by (simp_all add: tx_inv_def)
  ultimately show ?thesis unfolding out_once_def by blast
qed

text \<open>C15: A hole in the nonce sequence, a nonce between where the sequence started and the counter that no sender holds, that is not in
  flight and was not broadcast and settled, is never silent while the client's own operations run: the pipeline is flagged as desynced.
  Where callers use \<open>fail\<close> too, a silent hole is always the nonce of a transaction that was failed while it was not the
  last one handed out, in a state the run went through.\<close>

theorem no_silent_hole:
  "(tx_reachable False s \<longrightarrow> \<not> silent_hole s n)
   \<and> (tx_reachable True s \<and> silent_hole s n \<longrightarrow>
        (\<exists>pl H b D h tx. tx_reachable True (pl, H, b, D) \<and> Mapping.lookup (in_flight pl) h = Some tx
           \<and> if_nonce tx = n \<and> n + 1 \<noteq> next_nonce pl \<and> (tx_step True)\<^sup>*\<^sup>* (fail_tx h pl, H, b, D) s))"
proof (intro conjI impI)
  assume "tx_reachable False s"
  then show "\<not> silent_hole s n" using inv_reachable[of False s] by (cases s) (auto simp: silent_hole_def tx_inv_def)
next
  assume "tx_reachable True s \<and> silent_hole s n"
  then show "\<exists>pl H b D h tx. tx_reachable True (pl, H, b, D) \<and> Mapping.lookup (in_flight pl) h = Some tx
           \<and> if_nonce tx = n \<and> n + 1 \<noteq> next_nonce pl \<and> (tx_step True)\<^sup>*\<^sup>* (fail_tx h pl, H, b, D) s"
    using silent_hole_traced by blast
qed

text \<open>A pipeline with one transaction prepared, and one with two in flight.\<close>

definition sample_fees :: fee_cache where
  "sample_fees = fee_update (fee_cache_new 2000 1000000000) 50000000 1000"

definition sample_request :: tx_request where
  "sample_request = \<lparr>rq_to = 1, rq_calldata = [], rq_value = 0, rq_gas_limit = 21000, rq_urgency = Normal\<rparr>"

definition sample_prepared :: "u64 \<Rightarrow> prepared_tx" where
  "sample_prepared n = \<lparr>pr_nonce = n, pr_gas_limit = 21000, pr_gas_fees = the (fees_for sample_fees Normal 1500),
     pr_request = sample_request\<rparr>"

definition prepared_pipeline :: tx_pipeline where
  "prepared_pipeline = snd (prepare sample_request sample_fees 1500 (pipeline_new 5 pipeline_default))"

lemma sample_prepares:
  assumes "in_flight_count pl < max_in_flight (pl_config pl)"
  shows "prepare sample_request sample_fees 1500 pl =
    (Inr (sample_prepared (next_nonce pl)), pl\<lparr>nonce_mgr := (nonce_mgr pl)\<lparr>nm_next := next_nonce pl + 1\<rparr>, preparing := preparing pl + 1\<rparr>)"
  using assms
  by (simp add: prepare_def acquire_def next_nonce_def sample_prepared_def sample_request_def sample_fees_def
      fees_for_def fee_get_def fee_update_def fee_cache_new_def saturating_sub_def Let_def)

lemma new_pipeline_empty [simp]:
  "in_flight_count (pipeline_new n c) = 0" "pl_config (pipeline_new n c) = c" "next_nonce (pipeline_new n c) = n"
  by (simp_all add: in_flight_count_def pipeline_new_def next_nonce_def nonce_new_def)

lemma prepared_reachable: "tx_reachable False (prepared_pipeline, {#5#}, 5, {})"
proof -
  have "prepare sample_request sample_fees 1500 (pipeline_new 5 pipeline_default) = (Inr (sample_prepared 5), prepared_pipeline)"
    unfolding prepared_pipeline_def by (subst (1 2) sample_prepares) (simp_all add: pipeline_default_def)
  from Prepare[OF this, of False "{#}" 5 "{}"]
  have "tx_step False (pipeline_new 5 pipeline_default, {#}, 5, {}) (prepared_pipeline, {#5#}, 5, {})"
    by (simp add: pipeline_new_def nonce_new_def sample_prepared_def)
  then show ?thesis unfolding tx_reachable_def by blast
qed

lemma prepared_next: "next_nonce prepared_pipeline = 6" "\<not> desynced prepared_pipeline"
proof -
  let ?pl = "pipeline_new 5 pipeline_default"
  have p: "prepared_pipeline = ?pl\<lparr>nonce_mgr := (nonce_mgr ?pl)\<lparr>nm_next := 5 + 1\<rparr>, preparing := preparing ?pl + 1\<rparr>"
    unfolding prepared_pipeline_def by (subst sample_prepares) (simp_all add: pipeline_default_def)
  show "next_nonce prepared_pipeline = 6" "\<not> desynced prepared_pipeline"
    unfolding p by (simp_all add: next_nonce_def pipeline_new_def)
qed

theorem nonces_out_once_witness: "\<not> can_resync prepared_pipeline \<and> flying prepared_pipeline \<inter> {5} = {}"
  using nonces_out_once[OF prepared_reachable] by auto

text \<open>Failing a transaction that is not the last one leaves a hole and no flag: a nonce below the counter that
  no one holds, that is not in flight and that the chain may never see.\<close>

lemma fail_leaves_silent_hole:
  "\<exists>pl. tx_reachable True (pl, {#6#}, 5, {}) \<and> \<not> desynced pl \<and> 5 < next_nonce pl \<and> 5 \<notin> flying pl"
proof -
  let ?p0 = "pipeline_new 5 pipeline_default"
  let ?p2 = "record_submission 1 (sample_prepared 5) 1500 prepared_pipeline"
  obtain p3 where p3: "p3 = ?p2\<lparr>nonce_mgr := (nonce_mgr ?p2)\<lparr>nm_next := next_nonce ?p2 + 1\<rparr>, preparing := preparing ?p2 + 1\<rparr>"
    by blast
  let ?p4 = "fail_tx 1 p3"
  have p0: "prepare sample_request sample_fees 1500 ?p0 = (Inr (sample_prepared 5), prepared_pipeline)"
    unfolding prepared_pipeline_def by (subst (1 2) sample_prepares) (simp_all add: pipeline_default_def)
  have pp: "prepared_pipeline = ?p0\<lparr>nonce_mgr := (nonce_mgr ?p0)\<lparr>nm_next := 5 + 1\<rparr>, preparing := preparing ?p0 + 1\<rparr>"
    unfolding prepared_pipeline_def by (subst sample_prepares) (simp_all add: pipeline_default_def)
  have e: "Mapping.lookup (in_flight prepared_pipeline) 1 = None" by (simp add: pp pipeline_new_def)
  have n2: "next_nonce ?p2 = 6"
    using prepared_next(1) by (simp add: next_nonce_def record_submission_def track_def)
  have c2: "in_flight_count ?p2 < max_in_flight (pl_config ?p2)"
    by (simp add: in_flight_count_def Mapping.size_def record_submission_def pp pipeline_new_def pipeline_default_def)
  have p2: "prepare sample_request sample_fees 1500 ?p2 = (Inr (sample_prepared 6), p3)"
    using sample_prepares[OF c2] n2 p3 by simp
  have s1: "tx_step True (?p0, {#}, 5, {}) (prepared_pipeline, {#5#}, 5, {})"
    using Prepare[OF p0, of True "{#}" 5 "{}"] by (simp add: pipeline_new_def nonce_new_def sample_prepared_def)
  have s2: "tx_step True (prepared_pipeline, {#5#}, 5, {}) (?p2, {#}, 5, {})"
    using Submit[OF e, of True "sample_prepared 5" "{#}" 5 "{}" 1500] by (simp add: sample_prepared_def)
  have s3: "tx_step True (?p2, {#}, 5, {}) (p3, {#6#}, 5, {})"
    using Prepare[OF p2, of True "{#}" 5 "{}"] n2 by (simp add: next_nonce_def sample_prepared_def)
  have l3: "Mapping.lookup (in_flight p3) 1 = Some \<lparr>if_nonce = 5, if_tx_hash = 1, if_request = sample_request,
      if_submitted_at_ms = 1500, if_gas_fees = the (fees_for sample_fees Normal 1500)\<rparr>"
    unfolding p3 by (simp add: record_submission_def sample_prepared_def)
  have s4: "tx_step True (p3, {#6#}, 5, {}) (?p4, {#6#}, 5, {})" by (rule Fail[OF TrueI l3])
  have "tx_reachable True (?p4, {#6#}, 5, {})"
    unfolding tx_reachable_def using s1 s2 s3 s4 by (meson rtranclp.rtrancl_into_rtrancl rtranclp.rtrancl_refl)
  moreover have "in_flight ?p4 = Mapping.delete 1 (in_flight p3)" "desynced ?p4 = desynced p3" "nonce_mgr ?p4 = snd (release 5 (nonce_mgr p3))"
    using l3 by (simp_all add: fail_tx_def)
  moreover have "in_flight p3 = in_flight ?p2" "\<not> desynced p3" "next_nonce p3 = 7"
    using prepared_next(2) n2 unfolding p3 by (simp_all add: record_submission_def next_nonce_def)
  moreover have "flying ?p4 = {}"
  proof -
    have "in_flight ?p2 = Mapping.update 1 \<lparr>if_nonce = 5, if_tx_hash = 1, if_request = sample_request,
      if_submitted_at_ms = 1500, if_gas_fees = the (fees_for sample_fees Normal 1500)\<rparr> Mapping.empty"
      by (simp add: record_submission_def sample_prepared_def pp pipeline_new_def)
    then show ?thesis using calculation by (auto simp: flying_def lookup_delete_if lookup_update')
  qed
  moreover have "next_nonce ?p4 = 7"
    using calculation by (simp add: next_nonce_def release_def Let_def)
  ultimately show ?thesis by (intro exI[of _ ?p4]) simp
qed

text \<open>In a run of the client's own operations the nonce prepared last is accounted for; where a transaction was failed under another,
  the hole it left is traced back to it.\<close>

theorem no_silent_hole_witness:
  "5 < next_nonce prepared_pipeline \<and> \<not> silent_hole (prepared_pipeline, {#5#}, 5, {}) 5
   \<and> (\<exists>s. silent_hole s 5 \<and> (\<exists>pl H b D h tx. tx_reachable True (pl, H, b, D) \<and> Mapping.lookup (in_flight pl) h = Some tx
        \<and> if_nonce tx = 5 \<and> 5 + 1 \<noteq> next_nonce pl \<and> (tx_step True)\<^sup>*\<^sup>* (fail_tx h pl, H, b, D) s))"
proof -
  obtain pl where pl: "tx_reachable True (pl, {#6#}, 5, {})" "\<not> desynced pl" "5 < next_nonce pl" "5 \<notin> flying pl"
    using fail_leaves_silent_hole by blast
  then have hole: "silent_hole (pl, {#6#}, 5, {}) 5" by (simp add: silent_hole_def)
  show ?thesis using no_silent_hole[of "(prepared_pipeline, {#5#}, 5, {})" 5] no_silent_hole[of "(pl, {#6#}, 5, {})" 5]
    prepared_reachable prepared_next pl(1) hole by fastforce
qed

end
