(* ===== verification/Tx_Send.thy ===== *)
theory Tx_Send
  imports Tx_Pipeline
begin

text \<open>
  The send path of \<open>src/src/client/transactions.rs\<close>: repairing the nonce sequence, resolving a gas limit
  by simulation, preparing, signing, broadcasting and waiting for the receipt. The node, the signer and
  the receipt poll are a record of replies, a parameter of every definition here. The clock is read once per
  send, as in the code. Between its awaits a send touches the shared pipeline in the steps of
  \<open>Tx_Pipeline\<close>'s protocol, which is where the interleaving of several senders is treated.
\<close>

subsection \<open>The code\<close>

record rpc_failure =
  rf_text :: string
  rf_code :: "int option"

record receipt =
  rc_status :: bool
  rc_gas_used :: u64

record send_env =
  transaction_count :: "u64 option"
  call_reply :: "u64 \<Rightarrow> rpc_failure option"
  estimate_reply :: "rpc_failure + u64"
  signed_hash :: "prepared_tx \<Rightarrow> hash option"
  broadcast_ok :: "hash \<Rightarrow> bool"
  receipt_of :: "hash \<Rightarrow> receipt option"
  carries_revert :: "string \<Rightarrow> bool"
  selector_table :: selectors
  at_gas_ratio :: "u64 \<Rightarrow> u64 \<Rightarrow> bool"

record client =
  cl_pipeline :: tx_pipeline
  cl_gas_limits :: gas_limit_cache
  cl_fees :: fee_cache

record tx_builder =
  tb_to :: address
  tb_calldata :: "8 word list"
  tb_value :: u128
  tb_gas_limit :: "u64 option"
  tb_urgency :: urgency

definition tx_new :: "address \<Rightarrow> 8 word list \<Rightarrow> tx_builder" where
  "tx_new to calldata = \<lparr>tb_to = to, tb_calldata = calldata, tb_value = 0, tb_gas_limit = None, tb_urgency = Normal\<rparr>"

definition is_execution_outcome :: "int \<Rightarrow> bool" where
  "is_execution_outcome code \<longleftrightarrow> code = 3 \<or> code = - 32000"

definition classify_simulation_failure :: "send_env \<Rightarrow> rpc_failure \<Rightarrow> tx_error" where
  "classify_simulation_failure w e =
     (if carries_revert w (rf_text e) then SimulationReverted
      else if (case rf_code e of Some code \<Rightarrow> is_execution_outcome code | None \<Rightarrow> False) then SimulationFailed
      else GasUnavailable)"

definition preflight_call :: "send_env \<Rightarrow> u64 \<Rightarrow> tx_error + unit" where
  "preflight_call w limit = (case call_reply w limit of
      None \<Rightarrow> Inr () | Some e \<Rightarrow> Inl (classify_simulation_failure w e))"

definition estimate_gas :: "send_env \<Rightarrow> tx_error + u64" where
  "estimate_gas w = (case estimate_reply w of
      Inr raw \<Rightarrow> Inr raw | Inl e \<Rightarrow> Inl (classify_simulation_failure w e))"

definition selector_of :: "8 word list \<Rightarrow> selector option" where
  "selector_of calldata = (if length calldata < 4 then None else Some (word_rcat (take 4 calldata)))"

text \<open>The tail of \<open>simulate\<close>: an estimate is cached with its buffer and read back.\<close>

definition fresh_estimate :: "send_env \<Rightarrow> selector \<Rightarrow> u64 \<Rightarrow> client \<Rightarrow> (tx_error + u64) \<times> client" where
  "fresh_estimate w s now_ms c = (case estimate_gas w of
      Inl e \<Rightarrow> (Inl e, c)
    | Inr raw \<Rightarrow>
        let g = gas_put (selector_table w) (cl_gas_limits c) s raw now_ms in
        ((case gas_get g s now_ms of Some buffered \<Rightarrow> Inr buffered | None \<Rightarrow> Inl SendPanic), c\<lparr>cl_gas_limits := g\<rparr>))"

definition simulate_tx :: "send_env \<Rightarrow> 8 word list \<Rightarrow> u64 \<Rightarrow> client \<Rightarrow> (tx_error + u64) \<times> client" where
  "simulate_tx w calldata now_ms c = (case selector_of calldata of
      None \<Rightarrow> (case estimate_gas w of Inl e \<Rightarrow> (Inl e, c) | Inr raw \<Rightarrow> (Inr (raw + raw div 5), c))
    | Some s \<Rightarrow>
        (case gas_get (cl_gas_limits c) s now_ms of
          None \<Rightarrow> fresh_estimate w s now_ms c
        | Some limit \<Rightarrow>
            (case preflight_call w limit of
              Inr _ \<Rightarrow> (Inr limit, c)
            | Inl e \<Rightarrow>
                if e = SimulationFailed
                then fresh_estimate w s now_ms (c\<lparr>cl_gas_limits := gas_invalidate (cl_gas_limits c) s\<rparr>)
                else (Inl e, c))))"

definition repair_nonce :: "send_env \<Rightarrow> client \<Rightarrow> tx_error option \<times> client" where
  "repair_nonce w c =
     (let pl = cl_pipeline c in
      if desynced pl then
        if \<not> can_resync pl then (Some (NonceDesynced (in_flight_count pl)), c)
        else (case transaction_count w of
            None \<Rightarrow> (Some RpcFailed, c)
          | Some on_chain \<Rightarrow>
              (None, if desynced pl \<and> can_resync pl then c\<lparr>cl_pipeline := resync_nonce on_chain pl\<rparr> else c))
      else (None, c))"

definition resolve_gas :: "send_env \<Rightarrow> tx_builder \<Rightarrow> u64 \<Rightarrow> client \<Rightarrow> (tx_error + u64) \<times> client" where
  "resolve_gas w tb now_ms c = (case tb_gas_limit tb of
      Some limit \<Rightarrow>
        if limit = 0 then (Inl ZeroGasLimit, c)
        else (case preflight_call w limit of Inl e \<Rightarrow> (Inl e, c) | Inr _ \<Rightarrow> (Inr limit, c))
    | None \<Rightarrow> simulate_tx w (tb_calldata tb) now_ms c)"

text \<open>From the receipt on: what a mined transaction is answered with.\<close>

definition conclude :: "send_env \<Rightarrow> 8 word list \<Rightarrow> u64 \<Rightarrow> hash \<Rightarrow> receipt \<Rightarrow> client \<Rightarrow> (tx_error + receipt) \<times> client" where
  "conclude w calldata gas_limit h r c =
     (if \<not> rc_status r \<and> is_out_of_gas (at_gas_ratio w) (rc_gas_used r) gas_limit
      then (Inl (OutOfGas h (rc_gas_used r) gas_limit),
            case selector_of calldata of
              None \<Rightarrow> c | Some s \<Rightarrow> c\<lparr>cl_gas_limits := gas_invalidate (cl_gas_limits c) s\<rparr>)
      else if \<not> rc_status r then (Inl (Reverted h), c)
      else (Inr r, c))"

text \<open>From the prepared transaction on.\<close>

definition dispatch :: "send_env \<Rightarrow> 8 word list \<Rightarrow> prepared_tx \<Rightarrow> u64 \<Rightarrow> client \<Rightarrow> (tx_error + receipt) \<times> client" where
  "dispatch w calldata p now_ms c = (case signed_hash w p of
      None \<Rightarrow> (Inl SigningFailed, c\<lparr>cl_pipeline := abandon_prepared (pr_nonce p) (cl_pipeline c)\<rparr>)
    | Some h \<Rightarrow>
        if \<not> broadcast_ok w h
        then (Inl (BroadcastFailed h), c\<lparr>cl_pipeline := mark_desynced_prepared (cl_pipeline c)\<rparr>)
        else
          let c = c\<lparr>cl_pipeline := record_submission h p now_ms (cl_pipeline c)\<rparr> in
          (case receipt_of w h of
            None \<Rightarrow> (Inl (ReceiptTimeout h), c\<lparr>cl_pipeline := mark_desynced (resolve_tx h (cl_pipeline c))\<rparr>)
          | Some r \<Rightarrow> conclude w calldata (pr_gas_limit p) h r (c\<lparr>cl_pipeline := resolve_tx h (cl_pipeline c)\<rparr>)))"

definition send :: "send_env \<Rightarrow> tx_builder \<Rightarrow> u64 \<Rightarrow> client \<Rightarrow> (tx_error + receipt) \<times> client" where
  "send w tb now_ms c = (case repair_nonce w c of
      (Some e, c) \<Rightarrow> (Inl e, c)
    | (None, c) \<Rightarrow>
        (case resolve_gas w tb now_ms c of
          (Inl e, c) \<Rightarrow> (Inl e, c)
        | (Inr gas_limit, c) \<Rightarrow>
            let request = \<lparr>rq_to = tb_to tb, rq_calldata = tb_calldata tb, rq_value = tb_value tb,
                           rq_gas_limit = gas_limit, rq_urgency = tb_urgency tb\<rparr>
            in (case prepare request (cl_fees c) now_ms (cl_pipeline c) of
                (Inl e, pl) \<Rightarrow> (Inl e, c\<lparr>cl_pipeline := pl\<rparr>)
              | (Inr p, pl) \<Rightarrow> dispatch w (tb_calldata tb) p now_ms (c\<lparr>cl_pipeline := pl\<rparr>))))"

subsection \<open>A send is a run of the protocol\<close>

lemma pipeline_kept [simp]:
  "cl_pipeline (snd (fresh_estimate w s now c)) = cl_pipeline c"
  "cl_pipeline (snd (simulate_tx w cd now c)) = cl_pipeline c"
  "cl_pipeline (snd (resolve_gas w tb now c)) = cl_pipeline c"
  "cl_pipeline (snd (conclude w cd gl h rc c)) = cl_pipeline c"
proof -
  show f: "cl_pipeline (snd (fresh_estimate w s now c)) = cl_pipeline c" for s c
    by (simp add: fresh_estimate_def Let_def split: sum.split)
  show s: "cl_pipeline (snd (simulate_tx w cd now c)) = cl_pipeline c" for cd
    by (simp add: simulate_tx_def f split: option.split sum.split)
  show "cl_pipeline (snd (resolve_gas w tb now c)) = cl_pipeline c"
    by (simp add: resolve_gas_def s split: option.split sum.split)
  show "cl_pipeline (snd (conclude w cd gl h rc c)) = cl_pipeline c"
    by (simp add: conclude_def split: option.split)
qed

abbreviation tx_steps :: "tx_world \<Rightarrow> tx_world \<Rightarrow> bool" where
  "tx_steps \<equiv> (tx_step False)\<^sup>*\<^sup>*"

lemma dispatch_runs:
  assumes d: "dispatch w cd p now c = (res, c')"
    and new: "\<And>h. signed_hash w p = Some h \<Longrightarrow> Mapping.lookup (in_flight (cl_pipeline c)) h = None"
  shows "\<exists>D'. tx_steps (cl_pipeline c, add_mset (pr_nonce p) H, b, D) (cl_pipeline c', H, b, D')"
    and "(\<exists>h. res = Inl (BroadcastFailed h) \<or> res = Inl (ReceiptTimeout h)) \<Longrightarrow> desynced (cl_pipeline c')"
proof -
  let ?pl = "cl_pipeline c"
  have "(\<exists>D'. tx_steps (?pl, add_mset (pr_nonce p) H, b, D) (cl_pipeline c', H, b, D'))
    \<and> ((\<exists>h. res = Inl (BroadcastFailed h) \<or> res = Inl (ReceiptTimeout h)) \<longrightarrow> desynced (cl_pipeline c'))"
  proof (cases "signed_hash w p")
    case None
    then have "c' = c\<lparr>cl_pipeline := abandon_prepared (pr_nonce p) ?pl\<rparr>" "res = Inl SigningFailed"
      using d by (auto simp: dispatch_def)
    then show ?thesis using Abandon[of False ?pl "pr_nonce p" H b D] by auto
  next
    case (Some h)
    show ?thesis
    proof (cases "broadcast_ok w h")
      case False
      then have "c' = c\<lparr>cl_pipeline := mark_desynced_prepared ?pl\<rparr>" using d Some by (simp add: dispatch_def)
      then show ?thesis using Lose[of False ?pl "pr_nonce p" H b D] by (auto simp: mark_desynced_prepared_def)
    next
      case True
      let ?sub = "record_submission h p now ?pl"
      have s1: "tx_step False (?pl, add_mset (pr_nonce p) H, b, D) (?sub, H, b, D)" by (rule Submit[OF new[OF Some]])
      obtain tx where tx: "Mapping.lookup (in_flight ?sub) h = Some tx" by (simp add: record_submission_def)
      note s2 = Settle[OF tx, of False H b D]
      show ?thesis
      proof (cases "receipt_of w h")
        case None
        then have "c' = c\<lparr>cl_pipeline := mark_desynced (resolve_tx h ?sub)\<rparr>"
          using d Some True by (simp add: dispatch_def)
        moreover have "tx_step False (resolve_tx h ?sub, H, b, insert (if_nonce tx) D)
            (mark_desynced (resolve_tx h ?sub), H, b, insert (if_nonce tx) D)" by (rule Doubt)
        ultimately show ?thesis using s1 s2
          by (auto simp: mark_desynced_def intro!: exI[of _ "insert (if_nonce tx) D"] intro: converse_rtranclp_into_rtranclp)
      next
        case r: (Some r)
        then have co: "conclude w cd (pr_gas_limit p) h r (c\<lparr>cl_pipeline := resolve_tx h ?sub\<rparr>) = (res, c')"
          using d Some True by (simp add: dispatch_def)
        have "cl_pipeline c' = resolve_tx h ?sub"
          using pipeline_kept(4)[of w cd "pr_gas_limit p" h r "c\<lparr>cl_pipeline := resolve_tx h ?sub\<rparr>"] by (simp add: co)
        moreover have "\<not> (\<exists>h. res = Inl (BroadcastFailed h) \<or> res = Inl (ReceiptTimeout h))"
          using co by (auto simp: conclude_def split: if_splits)
        ultimately show ?thesis using s1 s2
          by (auto intro!: exI[of _ "insert (if_nonce tx) D"] intro: converse_rtranclp_into_rtranclp)
      qed
    qed
  qed
  then show "\<exists>D'. tx_steps (?pl, add_mset (pr_nonce p) H, b, D) (cl_pipeline c', H, b, D')"
    and "(\<exists>h. res = Inl (BroadcastFailed h) \<or> res = Inl (ReceiptTimeout h)) \<Longrightarrow> desynced (cl_pipeline c')" by blast+
qed

lemma repair_runs:
  assumes "repair_nonce w c = (e, c')"
  shows "\<exists>b' D'. tx_steps (cl_pipeline c, H, b, D) (cl_pipeline c', H, b', D')"
    and "e = None \<Longrightarrow> \<not> desynced (cl_pipeline c')"
    and "in_flight (cl_pipeline c') = in_flight (cl_pipeline c)"
    and "next_nonce (cl_pipeline c') = next_nonce (cl_pipeline c) \<or> transaction_count w = Some (next_nonce (cl_pipeline c'))"
proof -
  let ?pl = "cl_pipeline c"
  have "c' = c \<or> (\<exists>n. can_resync ?pl \<and> transaction_count w = Some n \<and> c' = c\<lparr>cl_pipeline := resync_nonce n ?pl\<rparr>)"
    and r: "e = None \<longrightarrow> \<not> desynced (cl_pipeline c')"
    using assms by (auto simp: repair_nonce_def Let_def resync_nonce_def split: if_splits option.splits)
  then consider "c' = c" | n where "can_resync ?pl" "transaction_count w = Some n" "c' = c\<lparr>cl_pipeline := resync_nonce n ?pl\<rparr>" by blast
  then have "(\<exists>b' D'. tx_steps (?pl, H, b, D) (cl_pipeline c', H, b', D'))
    \<and> in_flight (cl_pipeline c') = in_flight ?pl
    \<and> (next_nonce (cl_pipeline c') = next_nonce ?pl \<or> transaction_count w = Some (next_nonce (cl_pipeline c')))"
  proof cases
    case 1
    then show ?thesis by auto
  next
    case 2
    then show ?thesis using Resync[OF 2(1), of False H b D n]
      by (auto simp: resync_nonce_def resync_def next_nonce_def)
  qed
  with r show "\<exists>b' D'. tx_steps (cl_pipeline c, H, b, D) (cl_pipeline c', H, b', D')"
    and "e = None \<Longrightarrow> \<not> desynced (cl_pipeline c')" "in_flight (cl_pipeline c') = in_flight (cl_pipeline c)"
    and "next_nonce (cl_pipeline c') = next_nonce (cl_pipeline c) \<or> transaction_count w = Some (next_nonce (cl_pipeline c'))"
    by blast+
qed

lemma send_runs:
  assumes s: "send w tb now c = (res, c')"
    and new: "\<And>p h. signed_hash w p = Some h \<Longrightarrow> Mapping.lookup (in_flight (cl_pipeline c)) h = None"
    and top: "next_nonce (cl_pipeline c) \<noteq> - 1" "transaction_count w \<noteq> Some (- 1)"
  shows "(\<exists>b' D'. tx_steps (cl_pipeline c, H, b, D) (cl_pipeline c', H, b', D'))
    \<and> ((\<exists>h. res = Inl (BroadcastFailed h) \<or> res = Inl (ReceiptTimeout h)) \<longrightarrow> desynced (cl_pipeline c'))"
proof -
  obtain e c1 where r: "repair_nonce w c = (e, c1)" by force
  obtain b1 D1 where run1: "tx_steps (cl_pipeline c, H, b, D) (cl_pipeline c1, H, b1, D1)"
    using repair_runs(1)[OF r] by blast
  have new1: "signed_hash w p = Some h \<Longrightarrow> Mapping.lookup (in_flight (cl_pipeline c1)) h = None" for p h
    using new repair_runs(3)[OF r] by simp
  have top1: "next_nonce (cl_pipeline c1) \<noteq> - 1" using repair_runs(4)[OF r] top by auto
  show ?thesis
  proof (cases e)
    case (Some err)
    then have "res = Inl err" "c' = c1" using s r by (auto simp: send_def)
    moreover have "\<not> (\<exists>h. err = BroadcastFailed h \<or> err = ReceiptTimeout h)"
      using r Some by (auto simp: repair_nonce_def Let_def split: if_splits option.splits)
    ultimately show ?thesis using run1 by auto
  next
    case None
    obtain g c2 where g: "resolve_gas w tb now c1 = (g, c2)" by force
    have pl2: "cl_pipeline c2 = cl_pipeline c1" using pipeline_kept(3)[of w tb "now" c1] by (simp add: g)
    show ?thesis
    proof (cases g)
      case (Inl err)
      then have "res = Inl err" "c' = c2" using s r None g by (auto simp: send_def)
      moreover have "\<not> (\<exists>h. err = BroadcastFailed h \<or> err = ReceiptTimeout h)"
        using g Inl by (auto simp: resolve_gas_def simulate_tx_def fresh_estimate_def estimate_gas_def preflight_call_def
            classify_simulation_failure_def Let_def split: option.splits sum.splits if_splits)
      ultimately show ?thesis using run1 pl2 by auto
    next
      case (Inr gas_limit)
      define rq where "rq = \<lparr>rq_to = tb_to tb, rq_calldata = tb_calldata tb, rq_value = tb_value tb,
        rq_gas_limit = gas_limit, rq_urgency = tb_urgency tb\<rparr>"
      obtain q pl where q: "prepare rq (cl_fees c2) now (cl_pipeline c2) = (q, pl)" by force
      have s': "(case (q, pl) of (Inl e, pl) \<Rightarrow> (Inl e, c2\<lparr>cl_pipeline := pl\<rparr>)
          | (Inr p, pl) \<Rightarrow> dispatch w (tb_calldata tb) p now (c2\<lparr>cl_pipeline := pl\<rparr>)) = (res, c')"
        using s r None g Inr q by (simp add: send_def rq_def)
      show ?thesis
      proof (cases q)
        case (Inl err)
        have "tx_step False (cl_pipeline c1, H, b1, D1) (pl, H, b1, D1)"
          using Refuse q Inl pl2 by metis
        note run2 = rtranclp.rtrancl_into_rtrancl[OF run1 this]
        have "\<not> (\<exists>h. err = BroadcastFailed h \<or> err = ReceiptTimeout h)"
          using q Inl by (auto simp: prepare_def acquire_def split: if_splits option.splits)
        moreover have "res = Inl err" "cl_pipeline c' = pl" using s' Inl by auto
        ultimately show ?thesis using run2 by blast
      next
        case (Inr p)
        have same: "in_flight pl = in_flight (cl_pipeline c2)"
          using q Inr by (auto simp: prepare_def acquire_def split: if_splits option.splits)
        have "tx_step False (cl_pipeline c1, H, b1, D1) (pl, add_mset (pr_nonce p) H, b1, D1)"
          using q Inr pl2 top1 by (intro Prepare) (auto simp: next_nonce_def)
        note run2 = rtranclp.rtrancl_into_rtrancl[OF run1 this]
        have d: "dispatch w (tb_calldata tb) p now (c2\<lparr>cl_pipeline := pl\<rparr>) = (res, c')" using s' Inr by simp
        have "signed_hash w p = Some h \<Longrightarrow> Mapping.lookup (in_flight (cl_pipeline (c2\<lparr>cl_pipeline := pl\<rparr>))) h = None" for h
          using new1 same pl2 by simp
        note dr = dispatch_runs[OF d this]
        obtain D' where "tx_steps (pl, add_mset (pr_nonce p) H, b1, D1) (cl_pipeline c', H, b1, D')"
          using dr(1)[where H = H and b = b1 and D = D1] by auto
        with run2 have "tx_steps (cl_pipeline c, H, b, D) (cl_pipeline c', H, b1, D')" by (rule rtranclp_trans)
        with dr(2) show ?thesis by blast
      qed
    qed
  qed
qed

subsection \<open>Properties\<close>

definition sample_env :: send_env where
  "sample_env = \<lparr>transaction_count = Some 9, call_reply = (\<lambda>_. None), estimate_reply = Inr 100000,
     signed_hash = (\<lambda>_. Some 77), broadcast_ok = (\<lambda>_. False), receipt_of = (\<lambda>_. None),
     carries_revert = (\<lambda>_. False), selector_table = sample_selectors, at_gas_ratio = (\<lambda>_ _. False)\<rparr>"

definition sample_client :: client where
  "sample_client = \<lparr>cl_pipeline = pipeline_new 5 pipeline_default, cl_gas_limits = gas_new (\<lambda>x. x), cl_fees = sample_fees\<rparr>"

text \<open>C19: A send is a run of the senders' protocol that ends with the nonces held as they were, whichever of
  its exits it takes: no nonce stays behind in the preparing count. A send whose broadcast failed or whose receipt
  never came leaves the pipeline flagged; and while a flagged pipeline has nonces out, a send fails at once
  and touches nothing.\<close>

theorem send_refines_protocol:
  assumes "send w tb now_ms c = (res, c')"
    and "\<And>p h. signed_hash w p = Some h \<Longrightarrow> Mapping.lookup (in_flight (cl_pipeline c)) h = None"
    and "next_nonce (cl_pipeline c) \<noteq> - 1" "transaction_count w \<noteq> Some (- 1)"
  shows "(\<exists>b' D'. tx_steps (cl_pipeline c, H, b, D) (cl_pipeline c', H, b', D'))
    \<and> ((\<exists>h. res = Inl (BroadcastFailed h) \<or> res = Inl (ReceiptTimeout h)) \<longrightarrow> desynced (cl_pipeline c'))
    \<and> (desynced (cl_pipeline c) \<and> \<not> can_resync (cl_pipeline c)
         \<longrightarrow> res = Inl (NonceDesynced (in_flight_count (cl_pipeline c))) \<and> c' = c)"
proof -
  have "desynced (cl_pipeline c) \<and> \<not> can_resync (cl_pipeline c)
      \<longrightarrow> res = Inl (NonceDesynced (in_flight_count (cl_pipeline c))) \<and> c' = c"
    using assms(1) by (auto simp: send_def repair_nonce_def Let_def)
  moreover have "(\<exists>b' D'. tx_steps (cl_pipeline c, H, b, D) (cl_pipeline c', H, b', D'))
    \<and> ((\<exists>h. res = Inl (BroadcastFailed h) \<or> res = Inl (ReceiptTimeout h)) \<longrightarrow> desynced (cl_pipeline c'))"
    by (rule send_runs[OF assms(1) _ assms(3,4)]) (rule assms(2))
  ultimately show ?thesis by blast
qed

theorem send_refines_protocol_witness:
  "\<exists>b' D'. tx_steps (pipeline_new 5 pipeline_default, {#}, 5, {})
     (cl_pipeline (snd (send sample_env (tx_new 1 [1, 2, 3, 4]) 1500 sample_client)), {#}, b', D')"
proof -
  obtain res c' where r: "send sample_env (tx_new 1 [1, 2, 3, 4]) 1500 sample_client = (res, c')" by force
  have "\<exists>b' D'. tx_steps (cl_pipeline sample_client, {#}, 5, {}) (cl_pipeline c', {#}, b', D')"
  proof (rule send_refines_protocol[OF r, THEN conjunct1])
    show "Mapping.lookup (in_flight (cl_pipeline sample_client)) h = None" for h
      by (simp add: sample_client_def pipeline_new_def)
  qed (simp_all add: sample_client_def sample_env_def)
  then show ?thesis unfolding r snd_conv by (simp add: sample_client_def)
qed

end
