(* ===== verification/Chain_Fold.thy ===== *)
theory Chain_Fold
  imports SDK_Prelude
begin

text \<open>
  \<open>src/src/history/fold/mod.rs\<close> and \<open>shapes.rs\<close>: folds over a market's events in chain order. The law every
  fold is promised to keep, that the fold of a tape is the combination of the folds of its segments, is the
  locale \<open>segment_fold\<close>: a fold has to show it for one event only, and has it then for every cut of every tape. The
  three shapes a fold's state takes and the chain-order guard provide it here, the market's folds in the theories after this one.
\<close>

subsection \<open>The code: points and samples\<close>

datatype chain_point = ChainPoint (cp_block: u64) (cp_log_index: u64)

instantiation chain_point :: linorder
begin

definition less_eq_chain_point :: "chain_point \<Rightarrow> chain_point \<Rightarrow> bool" where
  "less_eq_chain_point a b \<longleftrightarrow> cp_block a < cp_block b \<or> cp_block a = cp_block b \<and> cp_log_index a \<le> cp_log_index b"

definition less_chain_point :: "chain_point \<Rightarrow> chain_point \<Rightarrow> bool" where
  "less_chain_point a b \<longleftrightarrow> cp_block a < cp_block b \<or> cp_block a = cp_block b \<and> cp_log_index a < cp_log_index b"

instance
  by standard (auto simp: less_eq_chain_point_def less_chain_point_def intro: chain_point.expand)

end

record 'a sample =
  sm_point :: chain_point
  sm_timestamp :: u64
  sm_value :: 'a

definition sample_origin :: "'a \<Rightarrow> 'a sample" where
  "sample_origin v = \<lparr>sm_point = ChainPoint 0 0, sm_timestamp = 0, sm_value = v\<rparr>"

definition sample_with :: "'a sample \<Rightarrow> 'b \<Rightarrow> 'b sample" where
  "sample_with s v = \<lparr>sm_point = sm_point s, sm_timestamp = sm_timestamp s, sm_value = v\<rparr>"

subsection \<open>The code: the three shapes\<close>

datatype 'a latest = Latest (latest_get: "'a option")

definition latest_default :: "'a latest" where
  "latest_default = Latest None"

definition latest_stated :: "'a \<Rightarrow> 'a latest" where
  "latest_stated v = Latest (Some v)"

definition latest_set :: "'a \<Rightarrow> 'a latest \<Rightarrow> 'a latest" where
  "latest_set v l = Latest (Some v)"

definition latest_combine :: "'a latest \<Rightarrow> 'a latest \<Rightarrow> 'a latest" where
  "latest_combine l later = (if latest_get later \<noteq> None then Latest (latest_get later) else l)"

datatype 'a first = First (first_get: "'a option")

definition first_default :: "'a first" where
  "first_default = First None"

definition first_set :: "'a \<Rightarrow> 'a first \<Rightarrow> 'a first" where
  "first_set v f = (if first_get f = None then First (Some v) else f)"

definition first_is_set :: "'a first \<Rightarrow> bool" where
  "first_is_set f \<longleftrightarrow> first_get f \<noteq> None"

definition first_combine :: "'a first \<Rightarrow> 'a first \<Rightarrow> 'a first" where
  "first_combine f later = (if first_get f = None then First (first_get later) else f)"

record ('t, 's) stated =
  st_value :: "'t option"
  st_stated :: bool
  st_since :: 's

definition stated_default :: "('t, 's::zero) stated" where
  "stated_default = \<lparr>st_value = None, st_stated = False, st_since = 0\<rparr>"

definition stated_with :: "'t \<Rightarrow> ('t, 's::zero) stated" where
  "stated_with v = \<lparr>st_value = Some v, st_stated = True, st_since = 0\<rparr>"

definition stated_state :: "'t \<Rightarrow> ('t, 's::zero) stated \<Rightarrow> ('t, 's) stated" where
  "stated_state v s = \<lparr>st_value = Some v, st_stated = True, st_since = 0\<rparr>"

definition stated_combine :: "('t, 's::plus) stated \<Rightarrow> ('t, 's) stated \<Rightarrow> ('t, 's) stated" where
  "stated_combine s later = (if st_stated later then later else s\<lparr>st_since := st_since s + st_since later\<rparr>)"

lemmas shape_defs = latest_default_def latest_stated_def latest_set_def latest_combine_def
  first_default_def first_set_def first_is_set_def first_combine_def
  stated_default_def stated_with_def stated_state_def stated_combine_def

subsection \<open>The law\<close>

text \<open>
  \<open>follows s b\<close> says that the events \<open>b\<close> may come after the state \<open>s\<close>: what a fold relies on of the tape it is fed.
\<close>

locale segment_fold =
  fixes init :: 's
    and apply_event :: "'s \<Rightarrow> 'e \<Rightarrow> 's"
    and combine :: "'s \<Rightarrow> 's \<Rightarrow> 's"
    and follows :: "'s \<Rightarrow> 'e list \<Rightarrow> bool"
  assumes follows_prefix: "follows s (b @ [e]) \<Longrightarrow> follows s b"
    and combine_init: "follows s [] \<Longrightarrow> combine s init = s"
    and combine_apply: "follows s (b @ [e]) \<Longrightarrow>
      combine s (apply_event (foldl apply_event init b) e) = apply_event (combine s (foldl apply_event init b)) e"
begin

lemma segment: "follows s b \<Longrightarrow> combine s (foldl apply_event init b) = foldl apply_event s b"
proof (induction b rule: rev_induct)
  case Nil
  then show ?case by (simp add: combine_init)
next
  case (snoc e b)
  show ?case using combine_apply[OF snoc.prems] snoc.IH[OF follows_prefix[OF snoc.prems]] by simp
qed

text \<open>The fold of a tape is the combination of the folds of its two segments, wherever it is cut.\<close>

lemma cut: "follows (foldl apply_event init a) b \<Longrightarrow>
    foldl apply_event init (a @ b) = combine (foldl apply_event init a) (foldl apply_event init b)"
  by (simp add: segment)

text \<open>Of three segments, either cut may be merged first.\<close>

lemma three_segments:
  assumes "follows s (b @ c)" "follows s b" "follows (foldl apply_event s b) c" "follows (foldl apply_event init b) c"
  shows "combine (combine s (foldl apply_event init b)) (foldl apply_event init c)
    = combine s (combine (foldl apply_event init b) (foldl apply_event init c))"
proof -
  have "combine (combine s (foldl apply_event init b)) (foldl apply_event init c) = foldl apply_event s (b @ c)"
    by (simp add: segment assms)
  also have "\<dots> = combine s (foldl apply_event init (b @ c))" by (simp only: segment[OF assms(1)])
  finally show ?thesis using assms(4) by (simp add: segment)
qed

end

text \<open>A field that every event moves by its own step moves so along a tape.\<close>

lemma foldl_field:
  assumes "\<And>s e. field (f s e) = step (field s) (g e)"
  shows "field (foldl f s es) = foldl step (field s) (map g es)"
  by (induction es arbitrary: s) (simp_all add: assms)

text \<open>The shapes keep the law over the statements made to them: \<open>None\<close> is an event that makes none.\<close>

definition latest_step :: "'a latest \<Rightarrow> 'a option \<Rightarrow> 'a latest" where
  "latest_step l e = (case e of None \<Rightarrow> l | Some v \<Rightarrow> latest_set v l)"

definition first_step :: "'a first \<Rightarrow> 'a option \<Rightarrow> 'a first" where
  "first_step f e = (case e of None \<Rightarrow> f | Some v \<Rightarrow> first_set v f)"

text \<open>For a stated total: a statement, or what accrued.\<close>

definition stated_step :: "('t, 's::monoid_add) stated \<Rightarrow> 't + 's \<Rightarrow> ('t, 's) stated" where
  "stated_step s e = (case e of Inl v \<Rightarrow> stated_state v s | Inr d \<Rightarrow> s\<lparr>st_since := st_since s + d\<rparr>)"

abbreviation anywhere :: "'s \<Rightarrow> 'e list \<Rightarrow> bool" where
  "anywhere s b \<equiv> True"

interpretation latest: segment_fold latest_default latest_step latest_combine anywhere
  by unfold_locales (auto simp: latest_step_def shape_defs split: option.splits)

interpretation first: segment_fold first_default first_step first_combine anywhere
  by unfold_locales (auto simp: first_step_def shape_defs intro: first.expand split: option.splits)

interpretation stated: segment_fold stated_default stated_step stated_combine anywhere
  by unfold_locales (auto simp: stated_step_def shape_defs add.assoc split: sum.splits)

subsection \<open>The code: the chain-order guard\<close>

record 'f sequenced =
  sq_inner :: 'f
  sq_last :: "chain_point latest"
  sq_refused :: u32

definition sequenced_new :: "'f \<Rightarrow> 'f sequenced" where
  "sequenced_new inner = \<lparr>sq_inner = inner, sq_last = latest_default, sq_refused = 0\<rparr>"

definition standing_at :: "'f \<Rightarrow> chain_point \<Rightarrow> 'f sequenced" where
  "standing_at inner p = \<lparr>sq_inner = inner, sq_last = latest_stated p, sq_refused = 0\<rparr>"

definition accept :: "('f \<Rightarrow> 'e \<Rightarrow> 'f) \<Rightarrow> ('e \<Rightarrow> chain_point) \<Rightarrow> 'f sequenced \<Rightarrow> 'e \<Rightarrow> bool \<times> 'f sequenced" where
  "accept f point s e =
     (if (case latest_get (sq_last s) of None \<Rightarrow> False | Some l \<Rightarrow> point e \<le> l)
      then (False, s\<lparr>sq_refused := sq_refused s + 1\<rparr>)
      else (True, s\<lparr>sq_last := latest_set (point e) (sq_last s), sq_inner := f (sq_inner s) e\<rparr>))"

definition stand_at :: "chain_point \<Rightarrow> 'f sequenced \<Rightarrow> 'f sequenced" where
  "stand_at p s =
     (if (case latest_get (sq_last s) of None \<Rightarrow> True | Some l \<Rightarrow> l < p)
      then s\<lparr>sq_last := latest_set p (sq_last s)\<rparr> else s)"

definition sequenced_apply :: "('f \<Rightarrow> 'e \<Rightarrow> 'f) \<Rightarrow> ('e \<Rightarrow> chain_point) \<Rightarrow> 'f sequenced \<Rightarrow> 'e \<Rightarrow> 'f sequenced" where
  "sequenced_apply f point s e = snd (accept f point s e)"

definition sequenced_combine :: "('f \<Rightarrow> 'f \<Rightarrow> 'f) \<Rightarrow> 'f sequenced \<Rightarrow> 'f sequenced \<Rightarrow> 'f sequenced" where
  "sequenced_combine c s later =
     \<lparr>sq_inner = c (sq_inner s) (sq_inner later), sq_last = latest_combine (sq_last s) (sq_last later),
      sq_refused = sq_refused s + sq_refused later\<rparr>"

subsection \<open>What the guard lets through\<close>

text \<open>The events taken from a tape, each after the last one taken.\<close>

fun taken :: "('e \<Rightarrow> chain_point) \<Rightarrow> chain_point option \<Rightarrow> 'e list \<Rightarrow> 'e list" where
  "taken point prev [] = []"
| "taken point prev (e # es) =
     (if (case prev of None \<Rightarrow> False | Some l \<Rightarrow> point e \<le> l) then taken point prev es
      else e # taken point (Some (point e)) es)"

definition after_point :: "chain_point option \<Rightarrow> chain_point \<Rightarrow> bool" where
  "after_point prev p \<longleftrightarrow> (case prev of None \<Rightarrow> True | Some l \<Rightarrow> l < p)"

definition in_order :: "('e \<Rightarrow> chain_point) \<Rightarrow> chain_point option \<Rightarrow> 'e list \<Rightarrow> bool" where
  "in_order point prev es \<longleftrightarrow> sorted_wrt (\<lambda>a b. point a < point b) es \<and> (\<forall>e \<in> set es. after_point prev (point e))"

lemma in_order_Cons: "in_order point prev (e # es) \<longleftrightarrow> after_point prev (point e) \<and> in_order point (Some (point e)) es"
  by (fastforce simp: in_order_def after_point_def split: option.splits)

lemma taken_in_order: "in_order point prev (taken point prev es)"
  by (induction point prev es rule: taken.induct)
    (auto simp: in_order_Cons after_point_def not_le split: option.splits, simp add: in_order_def)

lemma taken_ordered: "in_order point prev es \<Longrightarrow> taken point prev es = es"
  by (induction point prev es rule: taken.induct)
    (auto simp: in_order_Cons after_point_def split: option.splits)

lemma length_taken: "length (taken point prev es) \<le> length es"
  by (induction point prev es rule: taken.induct) (auto split: option.splits)

lemma sequenced_taken:
  "foldl (sequenced_apply f point) s es =
    \<lparr>sq_inner = foldl f (sq_inner s) (taken point (latest_get (sq_last s)) es),
     sq_last = (case taken point (latest_get (sq_last s)) es of [] \<Rightarrow> sq_last s | ts \<Rightarrow> Latest (Some (point (last ts)))),
     sq_refused = sq_refused s + of_nat (length es - length (taken point (latest_get (sq_last s)) es))\<rparr>"
proof (induction es arbitrary: s)
  case (Cons e es)
  let ?late = "case latest_get (sq_last s) of None \<Rightarrow> False | Some l \<Rightarrow> point e \<le> l"
  show ?case
  proof (cases ?late)
    case True
    then have "sequenced_apply f point s e = s\<lparr>sq_refused := sq_refused s + 1\<rparr>"
      by (simp add: sequenced_apply_def accept_def)
    then show ?thesis using True length_taken[of point "latest_get (sq_last s)" es]
      by (simp add: Cons.IH Suc_diff_le split: list.split)
  next
    case False
    then have "sequenced_apply f point s e = s\<lparr>sq_last := Latest (Some (point e)), sq_inner := f (sq_inner s) e\<rparr>"
      by (simp add: sequenced_apply_def accept_def latest_set_def)
    then show ?thesis using False by (simp add: Cons.IH split: list.split)
  qed
qed simp

text \<open>A guarded fold keeps the law of the fold behind the guard.\<close>

locale point_fold = segment_fold init apply_event combine follows
  for init :: 's and apply_event :: "'s \<Rightarrow> 'e \<Rightarrow> 's" and combine :: "'s \<Rightarrow> 's \<Rightarrow> 's" and follows :: "'s \<Rightarrow> 'e list \<Rightarrow> bool" +
  fixes point :: "'e \<Rightarrow> chain_point"
begin

sublocale guarded: segment_fold "sequenced_new init" "sequenced_apply apply_event point" "sequenced_combine combine"
  "\<lambda>s b. follows (sq_inner s) b \<and> in_order point (latest_get (sq_last s)) b"
proof
  fix s :: "'s sequenced" and b :: "'e list" and e
  let ?f = "\<lambda>s b. follows (sq_inner s) b \<and> in_order point (latest_get (sq_last s)) b"
  show "?f s b" if "?f s (b @ [e])"
    using that follows_prefix by (auto simp: in_order_def sorted_wrt_append)
  show "sequenced_combine combine s (sequenced_new init) = s" if "?f s []"
    using that by (simp add: sequenced_combine_def sequenced_new_def shape_defs combine_init)
  show "sequenced_combine combine s (sequenced_apply apply_event point (foldl (sequenced_apply apply_event point) (sequenced_new init) b) e)
      = sequenced_apply apply_event point (sequenced_combine combine s (foldl (sequenced_apply apply_event point) (sequenced_new init) b)) e"
    if f: "?f s (b @ [e])"
  proof -
    have b: "in_order point None b" and e: "\<And>x. x \<in> set b \<Longrightarrow> point x < point e" "after_point (latest_get (sq_last s)) (point e)"
      using f by (auto simp: in_order_def sorted_wrt_append after_point_def split: option.splits)
    let ?t = "foldl (sequenced_apply apply_event point) (sequenced_new init) b"
    have t: "sq_inner ?t = foldl apply_event init b" "sq_refused ?t = 0"
      "sq_last ?t = (case b of [] \<Rightarrow> Latest None | _ \<Rightarrow> Latest (Some (point (last b))))"
      by (simp_all add: sequenced_taken sequenced_new_def latest_default_def taken_ordered[OF b] split: list.split)
    have "last b \<in> set b" if "b \<noteq> []" using that by simp
    with e have "(case latest_get (sq_last ?t) of None \<Rightarrow> False | Some l \<Rightarrow> point e \<le> l) = False"
      "(case latest_get (sq_last (sequenced_combine combine s ?t)) of None \<Rightarrow> False | Some l \<Rightarrow> point e \<le> l) = False"
      by (auto simp: t sequenced_combine_def shape_defs after_point_def not_le split: list.splits option.splits)
    then show ?thesis using combine_apply f
      by (simp add: sequenced_apply_def accept_def sequenced_combine_def t latest_set_def latest_combine_def)
  qed
qed

end

end
