(* ===== verification/Value_Series.thy ===== *)
theory Value_Series
  imports Chain_Fold
begin

text \<open>
  \<open>src/src/history/fold/series.rs\<close>: a value that holds between updates (\<open>series\<close>) and a point process (\<open>arrivals\<close>),
  each with the retention it trims itself to and the point it is known through. Here are the definitions, the closed
  form of what a run of events leaves in each, and the segment law that follows from it; what their questions answer is
  in \<open>Series_Queries\<close>.

  \<open>partition_point\<close> of the standard library is specified on a slice whose elements satisfying the
  predicate all come first, where it is the length of that prefix, and every use here is on such a slice while the events come in
  chain order.
\<close>

subsection \<open>The code: windows, readings\<close>

datatype window = Window (window_secs: u64)

definition window_minutes :: "u64 \<Rightarrow> window" where
  "window_minutes m = Window (m * 60)"

definition window_hours :: "u64 \<Rightarrow> window" where
  "window_hours h = window_minutes (h * 60)"

definition window_days :: "u64 \<Rightarrow> window" where
  "window_days d = window_hours (d * 24)"

datatype retention = RetainAll | RetainLast window

record span =
  span_from :: chain_point
  span_to :: chain_point

record 'a reading =
  rd_value :: 'a
  rd_point :: chain_point
  rd_timestamp :: u64
  rd_moved_by :: "span option"

definition reading_of :: "'a \<Rightarrow> chain_point \<Rightarrow> 'b sample \<Rightarrow> 'a reading" where
  "reading_of v fst_point lst =
     \<lparr>rd_value = v, rd_point = sm_point lst, rd_timestamp = sm_timestamp lst,
      rd_moved_by = Some \<lparr>span_from = fst_point, span_to = sm_point lst\<rparr>\<rparr>"

definition reading_ending :: "'a \<Rightarrow> unit sample \<Rightarrow> span option \<Rightarrow> 'a reading" where
  "reading_ending v until moved_by =
     \<lparr>rd_value = v, rd_point = sm_point until, rd_timestamp = sm_timestamp until, rd_moved_by = moved_by\<rparr>"

record 'a change =
  ch_from :: 'a
  ch_to :: 'a

definition later_of :: "unit sample option \<Rightarrow> unit sample option \<Rightarrow> unit sample option" where
  "later_of a b = (case (a, b) of
      (Some a, Some b) \<Rightarrow> Some (if sm_point a < sm_point b then b else a)
    | (None, b) \<Rightarrow> b
    | (a, None) \<Rightarrow> a)"

definition partition_point :: "('a \<Rightarrow> bool) \<Rightarrow> 'a list \<Rightarrow> nat" where
  "partition_point P xs = length (takeWhile P xs)"

definition window_start :: "unit sample \<Rightarrow> window \<Rightarrow> u64" where
  "window_start until w = saturating_sub (sm_timestamp until) (window_secs w)"

subsection \<open>The code: a series\<close>

record 'a series =
  sr_samples :: "'a sample list"
  sr_retention :: retention
  sr_trimmed :: bool
  sr_through :: "unit sample option"

definition series_default :: "'a series" where
  "series_default = \<lparr>sr_samples = [], sr_retention = RetainAll, sr_trimmed = False, sr_through = None\<rparr>"

definition series_stated :: "'a sample \<Rightarrow> 'a series" where
  "series_stated s = series_default\<lparr>sr_samples := [s], sr_through := Some (sample_with s ())\<rparr>"

definition series_trim :: "'a series \<Rightarrow> 'a series" where
  "series_trim s = (case (sr_retention s, sr_through s) of
      (RetainLast w, Some through) \<Rightarrow>
        let keep_from = partition_point (\<lambda>x. sm_timestamp x < window_start through w) (sr_samples s) - 1
        in if 0 < keep_from then s\<lparr>sr_samples := drop keep_from (sr_samples s), sr_trimmed := True\<rparr> else s
    | _ \<Rightarrow> s)"

definition series_advance :: "unit sample \<Rightarrow> 'a series \<Rightarrow> 'a series" where
  "series_advance p s = series_trim (s\<lparr>sr_through := later_of (sr_through s) (Some p)\<rparr>)"

definition series_push :: "'a sample \<Rightarrow> 'a series \<Rightarrow> bool \<times> 'a series" where
  "series_push x s =
     (if sr_samples s \<noteq> [] \<and> sm_point x \<le> sm_point (last (sr_samples s)) then (False, s)
      else (True, series_advance (sample_with x ()) (s\<lparr>sr_samples := sr_samples s @ [x]\<rparr>)))"

definition series_retain :: "retention \<Rightarrow> 'a series \<Rightarrow> 'a series" where
  "series_retain r s = series_trim (s\<lparr>sr_retention := r\<rparr>)"

definition series_combine :: "'a series \<Rightarrow> 'a series \<Rightarrow> 'a series" where
  "series_combine s later =
     (let s = foldl (\<lambda>s x. snd (series_push x s)) s (sr_samples later);
          s = s\<lparr>sr_trimmed := sr_trimmed s \<or> sr_trimmed later\<rparr>
      in case sr_through later of None \<Rightarrow> s | Some through \<Rightarrow> series_advance through s)"

definition series_value :: "'a series \<Rightarrow> 'a option" where
  "series_value s = (if sr_samples s = [] then None else Some (sm_value (last (sr_samples s))))"

subsection \<open>The code: a point process\<close>

record 'm arrival =
  ar_point :: chain_point
  ar_timestamp :: u64
  ar_tx :: u256
  ar_mark :: 'm

record 'm arrivals =
  av_arrivals :: "'m arrival list"
  av_retention :: retention
  av_complete_from :: "u64 option"
  av_through :: "unit sample option"

definition arrivals_default :: "'m arrivals" where
  "arrivals_default = \<lparr>av_arrivals = [], av_retention = RetainAll, av_complete_from = None, av_through = None\<rparr>"

definition arrivals_from_genesis :: "'m arrivals" where
  "arrivals_from_genesis = arrivals_default\<lparr>av_complete_from := Some 0\<rparr>"

definition arrivals_after :: "unit sample \<Rightarrow> 'm arrivals" where
  "arrivals_after p = arrivals_default\<lparr>av_complete_from := Some (sm_timestamp p + 1), av_through := Some p\<rparr>"

definition arrivals_trim :: "'m arrivals \<Rightarrow> 'm arrivals" where
  "arrivals_trim a = (case (av_retention a, av_through a) of
      (RetainLast w, Some through) \<Rightarrow>
        let start = window_start through w
        in a\<lparr>av_arrivals := drop (partition_point (\<lambda>x. ar_timestamp x < start) (av_arrivals a)) (av_arrivals a),
             av_complete_from := map_option (max start) (av_complete_from a)\<rparr>
    | _ \<Rightarrow> a)"

definition arrivals_advance :: "unit sample \<Rightarrow> 'm arrivals \<Rightarrow> 'm arrivals" where
  "arrivals_advance p a =
     (let a = (case av_complete_from a of None \<Rightarrow> a\<lparr>av_complete_from := Some (sm_timestamp p + 1)\<rparr> | Some _ \<Rightarrow> a)
      in arrivals_trim (a\<lparr>av_through := later_of (av_through a) (Some p)\<rparr>))"

definition arrival_sample :: "'m arrival \<Rightarrow> unit sample" where
  "arrival_sample x = \<lparr>sm_point = ar_point x, sm_timestamp = ar_timestamp x, sm_value = ()\<rparr>"

definition arrivals_push :: "'m arrival \<Rightarrow> 'm arrivals \<Rightarrow> bool \<times> 'm arrivals" where
  "arrivals_push x a =
     (if av_arrivals a \<noteq> [] \<and> ar_point x \<le> ar_point (last (av_arrivals a)) then (False, a)
      else (True, arrivals_advance (arrival_sample x) (a\<lparr>av_arrivals := av_arrivals a @ [x]\<rparr>)))"

definition arrivals_retain :: "retention \<Rightarrow> 'm arrivals \<Rightarrow> 'm arrivals" where
  "arrivals_retain r a = arrivals_trim (a\<lparr>av_retention := r\<rparr>)"

definition arrivals_drop_where :: "('m arrival \<Rightarrow> bool) \<Rightarrow> 'm arrivals \<Rightarrow> 'm arrivals" where
  "arrivals_drop_where unwanted a = a\<lparr>av_arrivals := filter (\<lambda>x. \<not> unwanted x) (av_arrivals a)\<rparr>"

definition arrivals_combine :: "'m arrivals \<Rightarrow> 'm arrivals \<Rightarrow> 'm arrivals" where
  "arrivals_combine a later =
     (let a = (if av_complete_from a = None then a\<lparr>av_complete_from := av_complete_from later\<rparr> else a);
          a = foldl (\<lambda>a x. snd (arrivals_push x a)) a (av_arrivals later)
      in case av_through later of None \<Rightarrow> a | Some through \<Rightarrow> arrivals_advance through a)"

subsection \<open>Tapes\<close>

text \<open>
  Chain order: points strictly increase and block times never go back. An event tells a series or a process where it
  stands and, perhaps, a value or a mark there; it is advanced on every event.
\<close>

abbreviation before :: "'a sample \<Rightarrow> 'b sample \<Rightarrow> bool" where
  "before x y \<equiv> sm_point x < sm_point y \<and> sm_timestamp x \<le> sm_timestamp y"

definition after_through :: "unit sample option \<Rightarrow> 'a sample list \<Rightarrow> bool" where
  "after_through through es \<longleftrightarrow> sorted_wrt before es \<and> (case through of None \<Rightarrow> True | Some u \<Rightarrow> \<forall>e \<in> set es. before u e)"

definition series_step :: "'a series \<Rightarrow> 'a option sample \<Rightarrow> 'a series" where
  "series_step s e = series_advance (sample_with e ())
     (case sm_value e of None \<Rightarrow> s | Some v \<Rightarrow> snd (series_push (sample_with e v) s))"

definition known_through :: "'a sample list \<Rightarrow> unit sample option \<Rightarrow> bool" where
  "known_through xs through \<longleftrightarrow> sorted_wrt before xs \<and>
     (case through of None \<Rightarrow> xs = [] | Some u \<Rightarrow> \<forall>x \<in> set xs. sm_point x \<le> sm_point u \<and> sm_timestamp x \<le> sm_timestamp u)"

definition series_ok :: "'a series \<Rightarrow> bool" where
  "series_ok s \<longleftrightarrow> known_through (sr_samples s) (sr_through s)"

definition series_follows :: "'a series \<Rightarrow> 'a option sample list \<Rightarrow> bool" where
  "series_follows s es \<longleftrightarrow> series_ok s \<and> after_through (sr_through s) es"

fun news :: "'a option sample list \<Rightarrow> 'a sample list" where
  "news [] = []"
| "news (e # es) = (case sm_value e of None \<Rightarrow> news es | Some v \<Rightarrow> sample_with e v # news es)"

lemma sample_with_simps [simp]:
  "sm_point (sample_with x v) = sm_point x" "sm_timestamp (sample_with x v) = sm_timestamp x"
  "sm_value (sample_with x v) = v" "sample_with (sample_with x v) w = sample_with x w"
  "sample_with (u :: unit sample) () = u"
  by (simp_all add: sample_with_def)

lemma news_append [simp]: "news (a @ b) = news a @ news b"
  by (induction a) (auto split: option.splits)

lemma news_before: "\<forall>e \<in> set es. before u e \<Longrightarrow> \<forall>x \<in> set (news es). before u x"
  by (induction es) (auto split: option.splits)

lemma news_sorted: "sorted_wrt before es \<Longrightarrow> sorted_wrt before (news es)"
proof (induction es)
  case (Cons e es)
  then show ?case using news_before[of es "sample_with e ()"] by (auto split: option.splits)
qed simp

subsection \<open>What a run of events leaves in a series\<close>

text \<open>Trimming late is trimming once: what an earlier, narrower trim dropped, the later one would have dropped as well.\<close>

definition kept_from :: "u64 \<Rightarrow> 'a sample list \<Rightarrow> nat" where
  "kept_from from_ts xs = partition_point (\<lambda>x. sm_timestamp x < from_ts) xs - 1"

lemma partition_drop:
  assumes "k \<le> partition_point P xs"
  shows "partition_point P (drop k xs) = partition_point P xs - k"
  using assms
proof (induction xs arbitrary: k)
  case (Cons x xs)
  then show ?case by (cases k) (auto simp: partition_point_def split: if_splits)
qed (simp add: partition_point_def)

lemma partition_append_le: "partition_point P xs \<le> partition_point P (xs @ ys)"
  by (induction xs) (auto simp: partition_point_def)

lemma partition_mono: "(\<And>x. P x \<Longrightarrow> Q x) \<Longrightarrow> partition_point P xs \<le> partition_point Q xs"
  by (induction xs) (auto simp: partition_point_def)

lemma partition_le_length: "partition_point P xs \<le> length xs"
  by (simp add: partition_point_def length_takeWhile_le)

lemma kept_from_later:
  assumes "f \<le> g"
  shows "kept_from f xs \<le> kept_from g (xs @ ys)"
    and "drop (kept_from g (drop (kept_from f xs) xs @ ys)) (drop (kept_from f xs) xs @ ys) = drop (kept_from g (xs @ ys)) (xs @ ys)"
    and "0 < kept_from f xs \<or> 0 < kept_from g (drop (kept_from f xs) xs @ ys) \<longleftrightarrow> 0 < kept_from g (xs @ ys)"
proof -
  let ?k = "kept_from f xs" and ?p = "partition_point (\<lambda>x. sm_timestamp x < g) (xs @ ys)"
  have "partition_point (\<lambda>x. sm_timestamp x < f) xs \<le> partition_point (\<lambda>x. sm_timestamp x < g) xs"
    using assms by (intro partition_mono) auto
  then have le: "partition_point (\<lambda>x. sm_timestamp x < f) xs \<le> ?p" using partition_append_le order_trans by blast
  then show k: "?k \<le> kept_from g (xs @ ys)" unfolding kept_from_def by (rule diff_le_mono)
  have kp: "?k \<le> ?p" using le by (simp add: kept_from_def)
  have "?k \<le> length xs" using partition_le_length[of "\<lambda>x. sm_timestamp x < f" xs] by (simp add: kept_from_def)
  then have d: "drop ?k xs @ ys = drop ?k (xs @ ys)" by simp
  have g: "kept_from g (drop ?k (xs @ ys)) = kept_from g (xs @ ys) - ?k"
    unfolding kept_from_def[of g] using partition_drop[OF kp] by simp
  show "drop (kept_from g (drop ?k xs @ ys)) (drop ?k xs @ ys) = drop (kept_from g (xs @ ys)) (xs @ ys)"
    unfolding d using k by (simp add: g del: drop_append)
  show "0 < ?k \<or> 0 < kept_from g (drop ?k xs @ ys) \<longleftrightarrow> 0 < kept_from g (xs @ ys)"
    unfolding d g using k by linarith
qed

definition series_settle :: "'a series \<Rightarrow> 'a sample list \<Rightarrow> unit sample \<Rightarrow> 'a series" where
  "series_settle s xs u = series_trim (s\<lparr>sr_samples := xs, sr_through := Some u\<rparr>)"

lemma series_trim_Last:
  "sr_retention s = RetainLast w \<Longrightarrow> sr_through s = Some u \<Longrightarrow>
    series_trim s = s\<lparr>sr_samples := drop (kept_from (window_start u w) (sr_samples s)) (sr_samples s),
      sr_trimmed := sr_trimmed s \<or> 0 < kept_from (window_start u w) (sr_samples s)\<rparr>"
  by (cases s) (auto simp: series_trim_def kept_from_def Let_def)

lemma series_trim_All: "sr_retention s = RetainAll \<Longrightarrow> series_trim s = s"
  by (simp add: series_trim_def)

lemma window_start_mono: "sm_timestamp u \<le> sm_timestamp v \<Longrightarrow> window_start u w \<le> window_start v w"
  by (auto simp: window_start_def saturating_sub_def word_le_def word_less_def uint_sub_exact split: if_splits)

lemma series_settle_simps [simp]:
  "sr_through (series_settle s xs u) = Some u" "sr_retention (series_settle s xs u) = sr_retention s"
  by (cases "sr_retention s"; simp add: series_settle_def series_trim_Last series_trim_All)+

lemma series_settle_twice:
  assumes "sm_timestamp u \<le> sm_timestamp v"
  shows "series_settle (series_settle s xs u) (sr_samples (series_settle s xs u) @ ys) v = series_settle s (xs @ ys) v"
proof (cases "sr_retention s")
  case RetainAll
  then show ?thesis by (simp add: series_settle_def series_trim_All)
next
  case (RetainLast w)
  note k = kept_from_later[OF window_start_mono[OF assms, of w], of xs ys]
  show ?thesis using RetainLast k(2,3) by (auto simp: series_settle_def series_trim_Last)
qed

lemma series_advance_settle:
  assumes "case sr_through s of None \<Rightarrow> True | Some t \<Rightarrow> sm_point t < sm_point u"
  shows "series_advance u s = series_settle s (sr_samples s) u"
  using assms by (auto simp: series_advance_def series_settle_def later_of_def split: option.splits)

lemma series_settle_samples: "set (sr_samples (series_settle s xs u)) \<subseteq> set xs"
  by (cases "sr_retention s") (auto simp: series_settle_def series_trim_Last series_trim_All dest: in_set_dropD)

lemma series_settle_again:
  "series_advance u (series_settle s xs u) = series_settle s xs u"
proof -
  have "series_advance u (series_settle s xs u) = series_settle (series_settle s xs u) (sr_samples (series_settle s xs u) @ []) u"
    by (simp add: series_advance_def later_of_def) (simp add: series_settle_def)
  then show ?thesis using series_settle_twice[of u u s xs "[]"] by simp
qed

lemma series_push_settle:
  assumes "series_ok s" "case sr_through s of None \<Rightarrow> True | Some t \<Rightarrow> before t x"
  shows "snd (series_push x s) = series_settle s (sr_samples s @ [x]) (sample_with x ())"
proof -
  have "\<not> (sr_samples s \<noteq> [] \<and> sm_point x \<le> sm_point (last (sr_samples s)))"
  proof
    assume a: "sr_samples s \<noteq> [] \<and> sm_point x \<le> sm_point (last (sr_samples s))"
    then have l: "last (sr_samples s) \<in> set (sr_samples s)" by simp
    from a assms obtain t where "sr_through s = Some t" "sm_point t < sm_point x"
      by (auto simp: series_ok_def known_through_def split: option.splits)
    moreover from this l assms(1) have "sm_point (last (sr_samples s)) \<le> sm_point t"
      by (auto simp: series_ok_def known_through_def)
    ultimately show False using a by (meson leD le_less_trans)
  qed
  moreover have "series_advance (sample_with x ()) (s\<lparr>sr_samples := sr_samples s @ [x]\<rparr>)
      = series_settle s (sr_samples s @ [x]) (sample_with x ())"
    using assms(2) by (subst series_advance_settle) (auto simp: series_settle_def split: option.splits)
  ultimately show ?thesis by (auto simp: series_push_def)
qed

lemma series_step_settle:
  assumes "series_follows s [e]"
  shows "series_step s e = series_settle s (sr_samples s @ news [e]) (sample_with e ())"
proof -
  have b: "case sr_through s of None \<Rightarrow> True | Some t \<Rightarrow> before t e" "series_ok s"
    using assms by (auto simp: series_follows_def after_through_def split: option.splits)
  show ?thesis
  proof (cases "sm_value e")
    case None
    then show ?thesis using b by (simp add: series_step_def series_advance_settle split: option.splits)
  next
    case (Some v)
    then have "snd (series_push (sample_with e v) s) = series_settle s (sr_samples s @ [sample_with e v]) (sample_with e ())"
      using series_push_settle[OF b(2), of "sample_with e v"] b(1) by (auto split: option.splits)
    then show ?thesis using Some by (simp add: series_step_def series_settle_again)
  qed
qed

lemma series_settle_ok:
  assumes "sorted_wrt before xs" "\<forall>x \<in> set xs. sm_point x \<le> sm_point u \<and> sm_timestamp x \<le> sm_timestamp u"
  shows "series_ok (series_settle s xs u)"
proof -
  have "sorted_wrt before (sr_samples (series_settle s xs u))"
    using assms(1) by (cases "sr_retention s") (simp_all add: series_settle_def series_trim_Last series_trim_All sorted_wrt_drop)
  then show ?thesis using assms(2) series_settle_samples[of s xs u]
    by (auto simp: series_ok_def known_through_def)
qed

lemma series_run_ok:
  assumes "series_follows s (es @ [e])"
  shows "sorted_wrt before (sr_samples s @ news (es @ [e]))"
    and "\<forall>x \<in> set (sr_samples s @ news (es @ [e])). sm_point x \<le> sm_point e \<and> sm_timestamp x \<le> sm_timestamp e"
proof -
  let ?es = "es @ [e]"
  have es: "sorted_wrt before ?es" and s: "known_through (sr_samples s) (sr_through s)"
    and u: "case sr_through s of None \<Rightarrow> True | Some u \<Rightarrow> \<forall>e \<in> set ?es. before u e"
    using assms by (auto simp: series_follows_def series_ok_def after_through_def)
  have new: "\<forall>x \<in> set (news ?es). case sr_through s of None \<Rightarrow> True | Some u \<Rightarrow> before u x"
    using u news_before[of ?es] by (auto split: option.splits)
  show "sorted_wrt before (sr_samples s @ news ?es)"
  proof (cases "sr_through s")
    case None
    then show ?thesis using s news_sorted[OF es] by (simp add: known_through_def)
  next
    case (Some t)
    then have "before x y" if "x \<in> set (sr_samples s)" "y \<in> set (news ?es)" for x y
      using s new that by (fastforce simp: known_through_def intro: order.strict_trans1 order_trans)
    then show ?thesis using s Some news_sorted[OF es] by (simp add: known_through_def sorted_wrt_append del: news_append)
  qed
  have "\<forall>x \<in> set es. sm_point x \<le> sm_point e \<and> sm_timestamp x \<le> sm_timestamp e"
    using es by (auto simp: sorted_wrt_append)
  then have "\<forall>x \<in> set (news ?es). sm_point x \<le> sm_point e \<and> sm_timestamp x \<le> sm_timestamp e"
    by (induction es) (auto split: option.splits)
  moreover have "\<forall>x \<in> set (sr_samples s). sm_point x \<le> sm_point e \<and> sm_timestamp x \<le> sm_timestamp e"
  proof (cases "sr_through s")
    case (Some t)
    then show ?thesis using s u by (fastforce simp: known_through_def)
  qed (use s in \<open>simp add: known_through_def\<close>)
  ultimately show "\<forall>x \<in> set (sr_samples s @ news ?es). sm_point x \<le> sm_point e \<and> sm_timestamp x \<le> sm_timestamp e"
    by auto
qed

text \<open>The closed form: everything stated so far, trimmed once, at the last event.\<close>

lemma series_run:
  assumes "series_follows s (es @ [e])"
  shows "foldl series_step s (es @ [e]) = series_settle s (sr_samples s @ news (es @ [e])) (sample_with e ())"
  using assms
proof (induction es arbitrary: e rule: rev_induct)
  case Nil
  then show ?case by (simp add: series_step_settle)
next
  case (snoc d es)
  have p: "series_follows s (es @ [d])" and de: "before d e"
    using snoc.prems by (auto simp: series_follows_def after_through_def sorted_wrt_append split: option.splits)
  let ?s = "series_settle s (sr_samples s @ news (es @ [d])) (sample_with d ())"
  have "series_ok ?s" using series_settle_ok[OF series_run_ok(1)[OF p]] series_run_ok(2)[OF p] by simp
  then have "series_follows ?s [e]" using de by (simp add: series_follows_def after_through_def)
  then have "series_step ?s e = series_settle s (sr_samples s @ news (es @ [d]) @ news [e]) (sample_with e ())"
    using de series_settle_twice[of "sample_with d ()" "sample_with e ()" s "sr_samples s @ news (es @ [d])" "news [e]"]
    by (simp add: series_step_settle del: news.simps)
  then show ?case using snoc.IH[OF p] by (simp split: option.split)
qed

subsection \<open>A series keeps the law\<close>

lemma series_follows_run:
  assumes "series_follows s (es @ [e])"
  shows "series_follows (foldl series_step s es) [e]"
proof (cases es rule: rev_exhaust)
  case Nil
  then show ?thesis using assms by simp
next
  case (snoc ds d)
  have p: "series_follows s (ds @ [d])" and de: "before d e"
    using assms by (auto simp: snoc series_follows_def after_through_def sorted_wrt_append split: option.splits)
  show ?thesis
    unfolding snoc series_run[OF p] using series_settle_ok[OF series_run_ok(1)[OF p]] series_run_ok(2)[OF p] de
    by (simp add: series_follows_def after_through_def)
qed

lemma series_follows_prefix: "series_follows s (a @ b) \<Longrightarrow> series_follows s a"
  by (auto simp: series_follows_def after_through_def sorted_wrt_append split: option.splits)

definition stating :: "'a sample \<Rightarrow> 'a option sample" where
  "stating x = sample_with x (Some (sm_value x))"

lemma stating_simps [simp]:
  "sm_point (stating x) = sm_point x" "sm_timestamp (stating x) = sm_timestamp x" "sm_value (stating x) = Some (sm_value x)"
  "sample_with (stating x) v = sample_with x v" "sample_with x (sm_value x) = x"
  by (simp_all add: stating_def sample_with_def)

lemma news_stating: "news (map stating xs) = xs"
  by (induction xs) simp_all

lemma series_pushes:
  "series_follows s (map stating xs) \<Longrightarrow> foldl (\<lambda>s x. snd (series_push x s)) s xs = foldl series_step s (map stating xs)"
proof (induction xs rule: rev_induct)
  case (snoc x xs)
  let ?s = "foldl series_step s (map stating xs)"
  have f: "series_follows ?s [stating x]" using series_follows_run snoc.prems by simp
  then have "series_ok ?s" "case sr_through ?s of None \<Rightarrow> True | Some t \<Rightarrow> before t x"
    by (auto simp: series_follows_def after_through_def split: option.splits)
  then have "snd (series_push x ?s) = series_step ?s (stating x)"
    using series_step_settle[OF f] by (simp add: series_push_settle)
  moreover have "foldl (\<lambda>s x. snd (series_push x s)) s xs = ?s"
    using snoc.IH series_follows_prefix[of s "map stating xs" "[stating x]"] snoc.prems by simp
  ultimately show ?case by simp
qed simp

lemma news_follows:
  "after_through u es \<Longrightarrow> after_through u (map stating (news es))"
  using news_sorted[of es] news_before[of es]
  by (auto simp: after_through_def sorted_wrt_map split: option.splits)

lemma series_default_run:
  assumes "sorted_wrt before (es @ [e])"
  shows "foldl series_step series_default (es @ [e])
    = \<lparr>sr_samples = news (es @ [e]), sr_retention = RetainAll, sr_trimmed = False, sr_through = Some (sample_with e ())\<rparr>"
proof -
  have "series_follows series_default (es @ [e])"
    using assms by (simp add: series_follows_def series_ok_def known_through_def series_default_def after_through_def)
  from series_run[OF this] show ?thesis
    by (simp add: series_settle_def series_trim_All series_default_def del: news_append foldl_append)
qed

lemma series_segment:
  assumes "series_follows s b"
  shows "series_combine s (foldl series_step series_default b) = foldl series_step s b"
proof (cases b rule: rev_exhaust)
  case Nil
  then show ?thesis by (simp add: series_combine_def series_default_def)
next
  case (snoc es e)
  have f: "series_follows s (es @ [e])" and sorted: "sorted_wrt before (es @ [e])"
    using assms snoc by (simp_all add: series_follows_def after_through_def)
  let ?n = "news (es @ [e])"
  have fn: "series_follows s (map stating ?n)"
    using f news_follows[of "sr_through s" "es @ [e]"] by (simp add: series_follows_def)
  let ?t = "foldl series_step series_default (es @ [e])"
  have t: "sr_samples ?t = ?n" "sr_trimmed ?t = False" "sr_through ?t = Some (sample_with e ())"
    using series_default_run[OF sorted] by simp_all
  have "series_advance (sample_with e ()) (foldl series_step s (map stating ?n))
      = series_settle s (sr_samples s @ ?n) (sample_with e ())"
  proof (cases ?n rule: rev_exhaust)
    case Nil
    then show ?thesis using f
      by (subst series_advance_settle) (auto simp: series_follows_def after_through_def split: option.splits)
  next
    case n: (snoc ns m)
    have run: "foldl series_step s (map stating ?n) = series_settle s (sr_samples s @ ?n) (sample_with m ())"
      using fn series_run[of s "map stating ns" "stating m"] news_stating[of "ns @ [m]"] n
      by (simp del: news_append foldl_append)
    show ?thesis
    proof (cases "sm_value e")
      case (Some v)
      then have "m = sample_with e v" using n by simp
      then show ?thesis unfolding run by (simp add: series_settle_again del: news_append)
    next
      case None
      then have "m \<in> set (news es)" using n by simp
      moreover have "\<forall>x \<in> set es. before x e" using sorted by (simp add: sorted_wrt_append)
      then have "\<forall>x \<in> set (news es). before x e" by (induction es) (auto split: option.splits)
      ultimately have "before m e" by blast
      then show ?thesis unfolding run
        using series_settle_twice[of "sample_with m ()" "sample_with e ()" s "sr_samples s @ ?n" "[]"]
        by (subst series_advance_settle) (auto simp del: news_append)
    qed
  qed
  then show ?thesis using t series_run[OF f]
    by (simp add: snoc series_combine_def series_pushes[OF fn] del: news_append foldl_append)
qed

interpretation series: segment_fold series_default series_step series_combine series_follows
proof
  fix s :: "'a series" and b e
  show "series_follows s b" if "series_follows s (b @ [e])" using that by (rule series_follows_prefix)
  show "series_combine s series_default = s" if "series_follows s []" using series_segment[OF that] by simp
  show "series_combine s (series_step (foldl series_step series_default b) e)
      = series_step (series_combine s (foldl series_step series_default b)) e" if "series_follows s (b @ [e])"
    using series_segment[OF that] series_segment[OF series_follows_prefix[OF that]] by simp
qed

end
