(* ===== verification/Point_Process.thy ===== *)
theory Point_Process
  imports Value_Series
begin

text \<open>
  The point processes of \<open>src/src/history/fold/series.rs\<close>, defined in \<open>Value_Series\<close>: the closed form of what a run of
  events leaves in one, and the segment law. The proofs follow those for a series; what differs is that a process keeps no arrival before its
  window and moves the time it is complete from.
\<close>

definition arrival_with :: "'m arrival \<Rightarrow> 'n \<Rightarrow> 'n arrival" where
  "arrival_with x m = \<lparr>ar_point = ar_point x, ar_timestamp = ar_timestamp x, ar_tx = ar_tx x, ar_mark = m\<rparr>"

text \<open>An event says where the process stands, and perhaps that something arrived there.\<close>

definition arrivals_step :: "'m arrivals \<Rightarrow> 'm option arrival \<Rightarrow> 'm arrivals" where
  "arrivals_step a e = arrivals_advance (arrival_sample e)
     (case ar_mark e of None \<Rightarrow> a | Some m \<Rightarrow> snd (arrivals_push (arrival_with e m) a))"

definition arrivals_ok :: "'m arrivals \<Rightarrow> bool" where
  "arrivals_ok a \<longleftrightarrow> known_through (map arrival_sample (av_arrivals a)) (av_through a)
     \<and> (av_through a \<noteq> None \<longrightarrow> av_complete_from a \<noteq> None)"

definition arrivals_follow :: "'m arrivals \<Rightarrow> 'n arrival list \<Rightarrow> bool" where
  "arrivals_follow a es \<longleftrightarrow> arrivals_ok a \<and> after_through (av_through a) (map arrival_sample es)"

fun newcomers :: "'m option arrival list \<Rightarrow> 'm arrival list" where
  "newcomers [] = []"
| "newcomers (e # es) = (case ar_mark e of None \<Rightarrow> newcomers es | Some m \<Rightarrow> arrival_with e m # newcomers es)"

lemma arrival_with_simps [simp]:
  "ar_point (arrival_with x m) = ar_point x" "ar_timestamp (arrival_with x m) = ar_timestamp x"
  "ar_tx (arrival_with x m) = ar_tx x" "ar_mark (arrival_with x m) = m"
  "arrival_sample (arrival_with x m) = arrival_sample x" "arrival_with (arrival_with x m) n = arrival_with x n"
  "sm_point (arrival_sample x) = ar_point x" "sm_timestamp (arrival_sample x) = ar_timestamp x"
  by (simp_all add: arrival_with_def arrival_sample_def)

lemma newcomers_append [simp]: "newcomers (a @ b) = newcomers a @ newcomers b"
  by (induction a) (auto split: option.splits)

lemma newcomers_news:
  "map arrival_sample (newcomers es) = news (map (\<lambda>e. sample_with (arrival_sample e) (map_option (\<lambda>_. ()) (ar_mark e))) es)"
  by (induction es) (auto split: option.splits)

subsection \<open>What a run of events leaves\<close>

definition arrivals_settle :: "'m arrivals \<Rightarrow> u64 \<Rightarrow> 'm arrival list \<Rightarrow> unit sample \<Rightarrow> 'm arrivals" where
  "arrivals_settle a c xs u = arrivals_trim (a\<lparr>av_arrivals := xs, av_complete_from := Some c, av_through := Some u\<rparr>)"

lemma drop_partition: "drop (partition_point P xs) xs = dropWhile P xs"
  by (induction xs) (auto simp: partition_point_def)

lemma arrivals_settle_All:
  "av_retention a = RetainAll \<Longrightarrow> arrivals_settle a c xs u = a\<lparr>av_arrivals := xs, av_complete_from := Some c, av_through := Some u\<rparr>"
  by (simp add: arrivals_settle_def arrivals_trim_def)

lemma arrivals_settle_Last:
  "av_retention a = RetainLast w \<Longrightarrow> arrivals_settle a c xs u =
    a\<lparr>av_arrivals := dropWhile (\<lambda>x. ar_timestamp x < window_start u w) xs,
      av_complete_from := Some (max (window_start u w) c), av_through := Some u\<rparr>"
  by (simp add: arrivals_settle_def arrivals_trim_def Let_def drop_partition)

lemma arrivals_settle_simps [simp]:
  "av_through (arrivals_settle a c xs u) = Some u" "av_retention (arrivals_settle a c xs u) = av_retention a"
  by (cases "av_retention a"; simp add: arrivals_settle_Last arrivals_settle_All)+

lemma arrivals_settle_complete: "\<exists>d. av_complete_from (arrivals_settle a c xs u) = Some d"
  by (cases "av_retention a") (simp_all add: arrivals_settle_Last arrivals_settle_All)

lemma dropWhile_twice:
  assumes "\<And>x. P x \<Longrightarrow> Q x"
  shows "dropWhile Q (dropWhile P xs @ ys) = dropWhile Q (xs @ ys)"
  using assms by (induction xs) auto

lemma arrivals_settle_twice:
  assumes "sm_timestamp u \<le> sm_timestamp v" "av_complete_from (arrivals_settle a c xs u) = Some d"
  shows "arrivals_settle (arrivals_settle a c xs u) d (av_arrivals (arrivals_settle a c xs u) @ ys) v = arrivals_settle a c (xs @ ys) v"
proof (cases "av_retention a")
  case RetainAll
  then show ?thesis using assms(2) by (simp add: arrivals_settle_All)
next
  case (RetainLast w)
  have m: "window_start u w \<le> window_start v w" using assms(1) by (rule window_start_mono)
  then have "dropWhile (\<lambda>x. ar_timestamp x < window_start v w) (dropWhile (\<lambda>x. ar_timestamp x < window_start u w) xs @ ys)
      = dropWhile (\<lambda>x. ar_timestamp x < window_start v w) (xs @ ys)"
    by (intro dropWhile_twice) auto
  moreover have "max (window_start v w) (max (window_start u w) c) = max (window_start v w) c"
    using m by (simp add: max_absorb1 flip: max.assoc)
  ultimately show ?thesis using RetainLast assms(2) by (auto simp: arrivals_settle_Last)
qed

lemma arrivals_advance_settle:
  assumes "case av_through a of None \<Rightarrow> True | Some t \<Rightarrow> sm_point t < sm_point u"
  shows "arrivals_advance u a
    = arrivals_settle a (case av_complete_from a of None \<Rightarrow> sm_timestamp u + 1 | Some c \<Rightarrow> c) (av_arrivals a) u"
  using assms
  by (cases a) (auto simp: arrivals_advance_def arrivals_settle_def later_of_def Let_def split: option.splits)

lemma arrivals_settle_again: "arrivals_advance u (arrivals_settle a c xs u) = arrivals_settle a c xs u"
proof -
  obtain d where d: "av_complete_from (arrivals_settle a c xs u) = Some d" using arrivals_settle_complete by blast
  have "arrivals_advance u (arrivals_settle a c xs u)
      = arrivals_settle (arrivals_settle a c xs u) d (av_arrivals (arrivals_settle a c xs u) @ []) u"
    by (simp add: arrivals_advance_def later_of_def Let_def d) (simp add: arrivals_settle_def[of "arrivals_settle a c xs u"] d[symmetric])
  then show ?thesis using arrivals_settle_twice[OF order_refl d, of "[]"] by simp
qed

text \<open>The time a process is complete from once it has been told of an event.\<close>

definition watching_from :: "'m arrivals \<Rightarrow> 'n arrival \<Rightarrow> u64" where
  "watching_from a e = (case av_complete_from a of None \<Rightarrow> ar_timestamp e + 1 | Some c \<Rightarrow> c)"

lemma watching_from_with [simp]: "watching_from a (arrival_with e m) = watching_from a e"
  by (simp add: watching_from_def split: option.split)

lemma arrivals_push_settle:
  assumes "arrivals_follow a [x]"
  shows "snd (arrivals_push x a) = arrivals_settle a (watching_from a x) (av_arrivals a @ [x]) (arrival_sample x)"
proof -
  have t: "case av_through a of None \<Rightarrow> True | Some t \<Rightarrow> sm_point t < ar_point x"
    using assms by (auto simp: arrivals_follow_def after_through_def split: option.splits)
  have "\<not> (av_arrivals a \<noteq> [] \<and> ar_point x \<le> ar_point (last (av_arrivals a)))"
  proof
    assume l: "av_arrivals a \<noteq> [] \<and> ar_point x \<le> ar_point (last (av_arrivals a))"
    then have m: "last (av_arrivals a) \<in> set (av_arrivals a)" by simp
    from l assms t obtain u where "av_through a = Some u" "sm_point u < ar_point x"
      by (auto simp: arrivals_follow_def arrivals_ok_def known_through_def split: option.splits)
    moreover from this m assms have "ar_point (last (av_arrivals a)) \<le> sm_point u"
      by (auto simp: arrivals_follow_def arrivals_ok_def known_through_def)
    ultimately show False using l by (meson leD le_less_trans)
  qed
  moreover have "arrivals_advance (arrival_sample x) (a\<lparr>av_arrivals := av_arrivals a @ [x]\<rparr>)
      = arrivals_settle a (watching_from a x) (av_arrivals a @ [x]) (arrival_sample x)"
    using t by (subst arrivals_advance_settle) (auto simp: arrivals_settle_def watching_from_def split: option.splits)
  ultimately show ?thesis by (auto simp: arrivals_push_def)
qed

lemma arrivals_follow_mark: "arrivals_follow a [arrival_with e m] = arrivals_follow a [e]"
  by (simp add: arrivals_follow_def)

lemma arrivals_step_settle:
  assumes "arrivals_follow a [e]"
  shows "arrivals_step a e = arrivals_settle a (watching_from a e) (av_arrivals a @ newcomers [e]) (arrival_sample e)"
proof (cases "ar_mark e")
  case None
  have "case av_through a of None \<Rightarrow> True | Some t \<Rightarrow> sm_point t < ar_point e"
    using assms by (auto simp: arrivals_follow_def after_through_def split: option.splits)
  then show ?thesis using None arrivals_advance_settle[of "arrival_sample e" a]
    by (cases "av_through a"; cases "av_complete_from a") (simp_all add: arrivals_step_def watching_from_def)
next
  case (Some m)
  then show ?thesis using arrivals_push_settle[of a "arrival_with e m"] assms arrivals_settle_again
    by (simp add: arrivals_step_def arrivals_follow_mark)
qed

lemma arrivals_follow_prefix: "arrivals_follow a (b @ c) \<Longrightarrow> arrivals_follow a b"
  by (auto simp: arrivals_follow_def after_through_def sorted_wrt_append ball_Un split: option.splits)

text \<open>A process's times and points are a series's, so the order of its record is what \<open>Value_Series\<close> has shown.\<close>

abbreviation as_events :: "'m option arrival list \<Rightarrow> unit option sample list" where
  "as_events \<equiv> map (\<lambda>e. sample_with (arrival_sample e) (map_option (\<lambda>_. ()) (ar_mark e)))"

definition as_series :: "'m arrivals \<Rightarrow> unit series" where
  "as_series a = \<lparr>sr_samples = map arrival_sample (av_arrivals a), sr_retention = RetainAll, sr_trimmed = False, sr_through = av_through a\<rparr>"

lemma arrivals_follow_series: "arrivals_follow a es \<Longrightarrow> series_follows (as_series a) (as_events es)"
  by (auto simp: arrivals_follow_def arrivals_ok_def series_follows_def series_ok_def as_series_def after_through_def sorted_wrt_map
      split: option.splits)

lemma arrivals_run_ok:
  assumes "arrivals_follow a (es @ [e])"
  shows "sorted_wrt before (map arrival_sample (av_arrivals a @ newcomers (es @ [e])))"
    and "\<forall>x \<in> set (av_arrivals a @ newcomers (es @ [e])). ar_point x \<le> ar_point e \<and> ar_timestamp x \<le> ar_timestamp e"
proof -
  have f: "series_follows (as_series a) (as_events (es @ [e]))" by (rule arrivals_follow_series[OF assms])
  have s: "sr_samples (as_series a) @ news (as_events (es @ [e])) = map arrival_sample (av_arrivals a @ newcomers (es @ [e]))"
    by (simp add: as_series_def newcomers_news del: newcomers_append newcomers.simps)
  note f = f[unfolded map_append list.map] and s = s[unfolded map_append[of _ es] list.map]
  show "sorted_wrt before (map arrival_sample (av_arrivals a @ newcomers (es @ [e])))"
    using series_run_ok(1)[OF f] unfolding s .
  show "\<forall>x \<in> set (av_arrivals a @ newcomers (es @ [e])). ar_point x \<le> ar_point e \<and> ar_timestamp x \<le> ar_timestamp e"
    using series_run_ok(2)[OF f] unfolding s by (auto simp: ball_Un simp del: newcomers_append)
qed

lemma arrivals_settle_ok:
  assumes "sorted_wrt before (map arrival_sample xs)"
    "\<forall>x \<in> set xs. ar_point x \<le> sm_point u \<and> ar_timestamp x \<le> sm_timestamp u"
  shows "arrivals_ok (arrivals_settle a c xs u)"
proof (cases "av_retention a")
  case RetainAll
  then show ?thesis using assms by (simp add: arrivals_ok_def known_through_def arrivals_settle_All)
next
  case (RetainLast w)
  have "sorted_wrt before (map arrival_sample (dropWhile P xs))" for P
    using assms(1) by (simp add: sorted_wrt_map dropWhile_eq_drop sorted_wrt_drop)
  then show ?thesis using RetainLast assms(2)
    by (auto simp: arrivals_ok_def known_through_def arrivals_settle_Last dest: set_dropWhileD)
qed

lemma arrivals_run:
  assumes "arrivals_follow a (es @ [e])"
  shows "foldl arrivals_step a (es @ [e])
    = arrivals_settle a (watching_from a (hd (es @ [e]))) (av_arrivals a @ newcomers (es @ [e])) (arrival_sample e)"
  using assms
proof (induction es arbitrary: e rule: rev_induct)
  case Nil
  then show ?case by (simp add: arrivals_step_settle)
next
  case (snoc d es)
  have p: "arrivals_follow a (es @ [d])" and de: "before (arrival_sample d) (arrival_sample e)"
    using snoc.prems by (auto simp: arrivals_follow_def after_through_def sorted_wrt_append split: option.splits)
  let ?c = "watching_from a (hd (es @ [d]))"
  let ?s = "arrivals_settle a ?c (av_arrivals a @ newcomers (es @ [d])) (arrival_sample d)"
  obtain k where k: "av_complete_from ?s = Some k" using arrivals_settle_complete by blast
  have "arrivals_ok ?s" using arrivals_settle_ok[OF arrivals_run_ok(1)[OF p]] arrivals_run_ok(2)[OF p] by simp
  then have "arrivals_follow ?s [e]" using de by (simp add: arrivals_follow_def after_through_def)
  then have "arrivals_step ?s e = arrivals_settle ?s k (av_arrivals ?s @ newcomers [e]) (arrival_sample e)"
    using k by (simp add: arrivals_step_settle watching_from_def del: newcomers.simps)
  also have "\<dots> = arrivals_settle a ?c (av_arrivals a @ newcomers (es @ [d]) @ newcomers [e]) (arrival_sample e)"
    using arrivals_settle_twice[OF _ k, of "arrival_sample e" "newcomers [e]"] de by simp
  finally have "foldl arrivals_step a ((es @ [d]) @ [e])
      = arrivals_settle a ?c (av_arrivals a @ newcomers ((es @ [d]) @ [e])) (arrival_sample e)"
    using snoc.IH[OF p] by (simp split: option.split)
  moreover have "hd (es @ [d]) = hd ((es @ [d]) @ [e])" by (cases es) simp_all
  ultimately show ?case by metis
qed

subsection \<open>A process keeps the law\<close>

definition arriving :: "'m arrival \<Rightarrow> 'm option arrival" where
  "arriving x = arrival_with x (Some (ar_mark x))"

lemma arriving_simps [simp]:
  "ar_point (arriving x) = ar_point x" "ar_timestamp (arriving x) = ar_timestamp x" "ar_mark (arriving x) = Some (ar_mark x)"
  "arrival_with (arriving x) m = arrival_with x m" "arrival_with x (ar_mark x) = x" "arrival_sample (arriving x) = arrival_sample x"
  by (simp_all add: arriving_def arrival_with_def arrival_sample_def)

lemma watching_from_arriving [simp]: "watching_from a (arriving x) = watching_from a x"
  by (simp add: watching_from_def split: option.split)

lemma newcomers_arriving: "newcomers (map arriving xs) = xs"
  by (induction xs) simp_all

lemma arrivals_follow_run:
  assumes "arrivals_follow a (es @ [e])"
  shows "arrivals_follow (foldl arrivals_step a es) [e]"
proof (cases es rule: rev_exhaust)
  case Nil
  then show ?thesis using assms by simp
next
  case (snoc ds d)
  have p: "arrivals_follow a (ds @ [d])" and de: "before (arrival_sample d) (arrival_sample e)"
    using assms by (auto simp: snoc arrivals_follow_def after_through_def sorted_wrt_append split: option.splits)
  show ?thesis
    unfolding snoc arrivals_run[OF p] using arrivals_settle_ok[OF arrivals_run_ok(1)[OF p]] arrivals_run_ok(2)[OF p] de
    by (simp add: arrivals_follow_def after_through_def)
qed

lemma arrivals_pushes:
  "arrivals_follow a (map arriving xs) \<Longrightarrow> foldl (\<lambda>a x. snd (arrivals_push x a)) a xs = foldl arrivals_step a (map arriving xs)"
proof (induction xs rule: rev_induct)
  case (snoc x xs)
  let ?s = "foldl arrivals_step a (map arriving xs)"
  have f: "arrivals_follow ?s [arriving x]" using arrivals_follow_run snoc.prems by simp
  then have "arrivals_follow ?s [x]" by (simp add: arrivals_follow_def)
  then have "snd (arrivals_push x ?s) = arrivals_step ?s (arriving x)"
    by (simp add: arrivals_push_settle arrivals_step_settle[OF f])
  moreover have "foldl (\<lambda>a x. snd (arrivals_push x a)) a xs = ?s"
    using snoc.IH arrivals_follow_prefix[of a "map arriving xs" "[arriving x]"] snoc.prems by simp
  ultimately show ?case by simp
qed simp

lemma arrivals_default_run:
  assumes "sorted_wrt before (map arrival_sample (es @ [e]))"
  shows "foldl arrivals_step arrivals_default (es @ [e])
    = \<lparr>av_arrivals = newcomers (es @ [e]), av_retention = RetainAll,
       av_complete_from = Some (ar_timestamp (hd (es @ [e])) + 1), av_through = Some (arrival_sample e)\<rparr>"
proof -
  have "arrivals_follow arrivals_default (es @ [e])"
    using assms by (simp add: arrivals_follow_def arrivals_ok_def known_through_def arrivals_default_def after_through_def)
  from arrivals_run[OF this] show ?thesis
    by (simp add: arrivals_settle_All arrivals_default_def watching_from_def del: newcomers_append foldl_append)
qed

lemma newcomers_before: "\<forall>e \<in> set es. P (arrival_sample e) \<Longrightarrow> \<forall>x \<in> set (newcomers es). P (arrival_sample x)"
  by (induction es) (auto split: option.splits)

lemma newcomers_follow:
  assumes "arrivals_follow a es" shows "arrivals_follow a (map arriving (newcomers es))"
proof -
  have "sorted_wrt before (map arrival_sample es)" using assms by (simp add: arrivals_follow_def after_through_def)
  then have "sorted_wrt before (map arrival_sample (newcomers es))"
  proof (induction es)
    case (Cons e es)
    then show ?case using newcomers_before[of es "before (arrival_sample e)"] by (auto split: option.splits)
  qed simp
  moreover have "\<forall>x \<in> set (newcomers es). before u (arrival_sample x)" if "av_through a = Some u" for u
    using assms that newcomers_before[of es "before u"] by (auto simp: arrivals_follow_def after_through_def)
  ultimately show ?thesis using assms
    by (auto simp: arrivals_follow_def after_through_def comp_def split: option.splits)
qed

lemma arrivals_segment:
  assumes "arrivals_follow a b"
  shows "arrivals_combine a (foldl arrivals_step arrivals_default b) = foldl arrivals_step a b"
proof (cases b rule: rev_exhaust)
  case Nil
  then show ?thesis by (cases a) (simp add: arrivals_combine_def arrivals_default_def)
next
  case (snoc es e)
  have f: "arrivals_follow a (es @ [e])" using assms snoc by simp
  have sorted: "sorted_wrt before (map arrival_sample (es @ [e]))"
    using f by (simp add: arrivals_follow_def after_through_def)
  let ?n = "newcomers (es @ [e])" and ?c = "watching_from a (hd (es @ [e]))"
  let ?a = "a\<lparr>av_complete_from := Some ?c\<rparr>"
  have ok: "arrivals_follow ?a c \<longleftrightarrow> arrivals_follow a c" for c :: "'b arrival list"
    using f by (auto simp: arrivals_follow_def arrivals_ok_def)
  have settle: "arrivals_settle ?a c xs u = arrivals_settle a c xs u" for c xs u by (simp add: arrivals_settle_def)
  have w: "watching_from ?a x = ?c" for x :: "'c arrival" by (simp add: watching_from_def)
  have fn: "arrivals_follow ?a (map arriving ?n)" using newcomers_follow[OF f] ok by blast
  let ?t = "foldl arrivals_step arrivals_default (es @ [e])"
  have t: "av_arrivals ?t = ?n" "av_complete_from ?t = Some (ar_timestamp (hd (es @ [e])) + 1)" "av_through ?t = Some (arrival_sample e)"
    using arrivals_default_run[OF sorted] by simp_all
  have cf: "(if av_complete_from a = None then a\<lparr>av_complete_from := av_complete_from ?t\<rparr> else a) = ?a"
    by (cases "av_complete_from a") (simp_all add: t watching_from_def del: foldl_append)
  have "arrivals_advance (arrival_sample e) (foldl arrivals_step ?a (map arriving ?n))
      = arrivals_settle a ?c (av_arrivals a @ ?n) (arrival_sample e)"
  proof (cases ?n rule: rev_exhaust)
    case Nil
    have "case av_through ?a of None \<Rightarrow> True | Some t \<Rightarrow> sm_point t < sm_point (arrival_sample e)"
      using f by (auto simp: arrivals_follow_def after_through_def split: option.splits)
    then show ?thesis using Nil by (subst arrivals_advance_settle) (simp_all add: settle)
  next
    case n: (snoc ns m)
    have "foldl arrivals_step ?a (map arriving ns @ [arriving m])
        = arrivals_settle ?a ?c (av_arrivals ?a @ newcomers (map arriving (ns @ [m]))) (arrival_sample m)"
      using arrivals_run[of ?a "map arriving ns" "arriving m"] fn n by (simp add: w del: newcomers_append foldl_append)
    then have run: "foldl arrivals_step ?a (map arriving ?n) = arrivals_settle a ?c (av_arrivals a @ ?n) (arrival_sample m)"
      unfolding newcomers_arriving settle n by simp
    obtain k where k: "av_complete_from (arrivals_settle a ?c (av_arrivals a @ ?n) (arrival_sample m)) = Some k"
      using arrivals_settle_complete by blast
    show ?thesis
    proof (cases "ar_mark e")
      case (Some v)
      then have "m = arrival_with e v" using n by simp
      then show ?thesis unfolding run by (simp add: arrivals_settle_again del: newcomers_append)
    next
      case None
      then have "m \<in> set (newcomers es)" using n by simp
      moreover have "\<forall>x \<in> set es. before (arrival_sample x) (arrival_sample e)" using sorted by (simp add: sorted_wrt_append)
      ultimately have "before (arrival_sample m) (arrival_sample e)"
        using newcomers_before[of es "\<lambda>x. before x (arrival_sample e)"] by blast
      then show ?thesis unfolding run
        using arrivals_settle_twice[OF _ k, where v = "arrival_sample e" and ys = "[]"]
        by (subst arrivals_advance_settle) (simp_all add: k del: newcomers_append)
    qed
  qed
  then show ?thesis using t arrivals_run[OF f]
    by (simp add: snoc arrivals_combine_def cf arrivals_pushes[OF fn] del: newcomers_append foldl_append)
qed

interpretation arrivals: segment_fold arrivals_default arrivals_step arrivals_combine arrivals_follow
proof
  fix a :: "'m arrivals" and b :: "'m option arrival list" and e
  show "arrivals_follow a b" if "arrivals_follow a (b @ [e])" using that by (rule arrivals_follow_prefix)
  show "arrivals_combine a arrivals_default = a" if "arrivals_follow a ([] :: 'm option arrival list)" using arrivals_segment[OF that] by simp
  show "arrivals_combine a (arrivals_step (foldl arrivals_step arrivals_default b) e)
      = arrivals_step (arrivals_combine a (foldl arrivals_step arrivals_default b)) e" if "arrivals_follow a (b @ [e])"
    using arrivals_segment[OF that] arrivals_segment[OF arrivals_follow_prefix[OF that]] by simp
qed

end
