(* ===== verification/Series_Queries.thy ===== *)
theory Series_Queries
  imports Point_Process
begin

text \<open>
  What the series and the point processes of \<open>src/src/history/fold/series.rs\<close> answer: the value at a point or a time, the
  change and the peak over a window, the arrivals in a window, their count and the densest window. The lemmas give each
  answer by the record it is drawn from, and show that retention loses answers and changes none.
\<close>

subsection \<open>The code: questions to a series\<close>

definition sample_reading :: "'a sample \<Rightarrow> 'a reading" where
  "sample_reading x = reading_of (sm_value x) (sm_point x) x"

definition series_latest :: "'a series \<Rightarrow> 'a reading option" where
  "series_latest s = (if sr_samples s = [] then None else Some (sample_reading (last (sr_samples s))))"

definition series_at :: "chain_point \<Rightarrow> 'a series \<Rightarrow> 'a reading option" where
  "series_at p s = (let index = partition_point (\<lambda>x. sm_point x \<le> p) (sr_samples s)
     in if index = 0 then None else Some (sample_reading (sr_samples s ! (index - 1))))"

definition series_at_time :: "u64 \<Rightarrow> 'a series \<Rightarrow> 'a reading option" where
  "series_at_time t s = (let index = partition_point (\<lambda>x. sm_timestamp x \<le> t) (sr_samples s)
     in if index = 0 then None else Some (sample_reading (sr_samples s ! (index - 1))))"

definition series_since :: "u64 \<Rightarrow> 'a series \<Rightarrow> 'a sample list option" where
  "series_since t s = (let start = partition_point (\<lambda>x. sm_timestamp x < t) (sr_samples s)
     in if start = 0 \<and> sr_trimmed s then None else Some (drop start (sr_samples s)))"

definition series_known :: "'a series \<Rightarrow> unit sample \<Rightarrow> bool" where
  "series_known s until = (case sr_through s of None \<Rightarrow> False | Some through \<Rightarrow> sm_point until \<le> sm_point through)"

definition series_bounds :: "'a series \<Rightarrow> unit sample \<Rightarrow> window \<Rightarrow> 'a sample list \<times> nat" where
  "series_bounds s until w =
     (let before_end = take (partition_point (\<lambda>x. sm_point x \<le> sm_point until) (sr_samples s)) (sr_samples s)
      in (before_end, partition_point (\<lambda>x. sm_timestamp x < window_start until w) before_end))"

definition until_window :: "'a series \<Rightarrow> unit sample \<Rightarrow> window \<Rightarrow> 'a sample list" where
  "until_window s until w =
     (if series_known s until then (case series_bounds s until w of (samples, start) \<Rightarrow> drop start samples) else [])"

definition until_change_over :: "'a series \<Rightarrow> unit sample \<Rightarrow> window \<Rightarrow> 'a change reading option" where
  "until_change_over s until w =
     (if series_known s until then
        (case (series_at_time (window_start until w) s, series_at (sm_point until) s) of
           (Some earlier, Some now) \<Rightarrow> Some (reading_ending \<lparr>ch_from = rd_value earlier, ch_to = rd_value now\<rparr> until
             (Some \<lparr>span_from = rd_point earlier, span_to = rd_point now\<rparr>))
         | _ \<Rightarrow> None)
      else None)"

definition peak_step :: "'a::linorder sample option \<Rightarrow> 'a sample \<Rightarrow> 'a sample option" where
  "peak_step best x = (case best of Some b \<Rightarrow> if sm_value x \<le> sm_value b then Some b else Some x | None \<Rightarrow> Some x)"

definition held_in :: "'a series \<Rightarrow> unit sample \<Rightarrow> window \<Rightarrow> 'a sample list" where
  "held_in s until w = (case series_bounds s until w of (samples, start) \<Rightarrow>
     let standing = 0 < start \<and> (start < length samples \<longrightarrow> window_start until w < sm_timestamp (samples ! start))
     in drop (if standing then start - 1 else start) samples)"

definition until_peak :: "'a::linorder series \<Rightarrow> unit sample \<Rightarrow> window \<Rightarrow> 'a reading option" where
  "until_peak s until w =
     (if series_known s until then
        (let held = held_in s until w in
         if held = [] then None
         else case foldl peak_step None held of
           None \<Rightarrow> None
         | Some peak \<Rightarrow> Some (reading_ending (sm_value peak) until
             (Some \<lparr>span_from = sm_point (hd held), span_to = sm_point peak\<rparr>)))
      else None)"

definition series_window :: "'a series \<Rightarrow> window \<Rightarrow> 'a sample list" where
  "series_window s w = (case sr_through s of None \<Rightarrow> [] | Some until \<Rightarrow> until_window s until w)"

definition series_change_over :: "'a series \<Rightarrow> window \<Rightarrow> 'a change reading option" where
  "series_change_over s w = (case sr_through s of None \<Rightarrow> None | Some until \<Rightarrow> until_change_over s until w)"

definition series_peak :: "'a::linorder series \<Rightarrow> window \<Rightarrow> 'a reading option" where
  "series_peak s w = (case sr_through s of None \<Rightarrow> None | Some until \<Rightarrow> until_peak s until w)"

subsection \<open>The code: questions to a process\<close>

definition arrivals_until_window :: "'m arrivals \<Rightarrow> unit sample \<Rightarrow> window \<Rightarrow> 'm arrival list option" where
  "arrivals_until_window a until w =
     (let from_ts = window_start until w;
          complete = (case av_complete_from a of None \<Rightarrow> False | Some start \<Rightarrow> start \<le> from_ts)
            \<and> (case av_through a of None \<Rightarrow> False | Some through \<Rightarrow> sm_point until \<le> sm_point through)
      in if \<not> complete then None
         else let upto = take (partition_point (\<lambda>x. ar_point x \<le> sm_point until) (av_arrivals a)) (av_arrivals a)
              in Some (drop (partition_point (\<lambda>x. ar_timestamp x < from_ts) upto) upto))"

definition arrivals_until_count :: "'m arrivals \<Rightarrow> unit sample \<Rightarrow> window \<Rightarrow> u32 reading option" where
  "arrivals_until_count a until w = map_option (\<lambda>inside.
     reading_ending (of_nat (length inside)) until
       (if inside = [] then None else Some \<lparr>span_from = ar_point (hd inside), span_to = ar_point (last inside)\<rparr>))
     (arrivals_until_window a until w)"

definition arrivals_window :: "'m arrivals \<Rightarrow> window \<Rightarrow> 'm arrival list option" where
  "arrivals_window a w = (case av_through a of None \<Rightarrow> None | Some until \<Rightarrow> arrivals_until_window a until w)"

definition arrivals_count_in :: "'m arrivals \<Rightarrow> window \<Rightarrow> u32 reading option" where
  "arrivals_count_in a w = (case av_through a of None \<Rightarrow> None | Some until \<Rightarrow> arrivals_until_count a until w)"

text \<open>The window slides: its start moves up while the arrival at its end is too far from it. At the end itself the distance is 0.\<close>

function slide_start :: "u64 \<Rightarrow> 'm arrival list \<Rightarrow> nat \<Rightarrow> nat \<Rightarrow> nat" where
  "slide_start secs xs e start =
     (if start < e \<and> secs < ar_timestamp (xs ! e) - ar_timestamp (xs ! start) then slide_start secs xs e (start + 1) else start)"
  by pat_completeness auto
termination by (relation "measure (\<lambda>(secs, xs, e, start). e - start)") auto

declare slide_start.simps [simp del]

definition busiest_step :: "u64 \<Rightarrow> 'm arrival list \<Rightarrow> nat \<times> (nat \<times> nat) option \<Rightarrow> nat \<Rightarrow> nat \<times> (nat \<times> nat) option" where
  "busiest_step secs xs st e = (case st of (start, best) \<Rightarrow>
     let start = slide_start secs xs e start
     in (start, case best of
          None \<Rightarrow> Some (start, e + 1)
        | Some (b_start, b_end) \<Rightarrow> if b_end - b_start < e + 1 - start then Some (start, e + 1) else best))"

definition busiest :: "'m arrivals \<Rightarrow> window \<Rightarrow> 'm arrival list option" where
  "busiest a w = (let xs = av_arrivals a
     in map_option (\<lambda>(start, stop). take (stop - start) (drop start xs))
          (snd (foldl (busiest_step (window_secs w) xs) (0, None) [0..<length xs])))"

subsection \<open>A prefix cut off a sorted record\<close>

lemma takeWhile_closed: "sorted_wrt (\<lambda>x y. P y \<longrightarrow> P x) xs \<Longrightarrow> takeWhile P xs = filter P xs"
proof (induction xs)
  case (Cons x xs)
  show ?case
  proof (cases "P x")
    case False
    then have "filter P xs = []" using Cons.prems by (auto simp: filter_empty_conv)
    then show ?thesis using False by simp
  qed (use Cons in simp)
qed simp

lemma take_partition: "take (partition_point P xs) xs = takeWhile P xs"
  by (induction xs) (auto simp: partition_point_def)

lemma dropWhile_closed: "sorted_wrt (\<lambda>x y. P y \<longrightarrow> P x) xs \<Longrightarrow> dropWhile P xs = filter (\<lambda>x. \<not> P x) xs"
proof (induction xs)
  case (Cons x xs)
  then show ?case by (auto simp: filter_id_conv)
qed simp

lemma last_partition:
  "(if partition_point P xs = 0 then None else Some (f (xs ! (partition_point P xs - 1))))
    = (if takeWhile P xs = [] then None else Some (f (last (takeWhile P xs))))"
proof (cases "takeWhile P xs = []")
  case False
  then have "last (takeWhile P xs) = xs ! (length (takeWhile P xs) - 1)"
    by (simp add: last_conv_nth takeWhile_nth)
  then show ?thesis using False by (simp add: partition_point_def)
qed (simp add: partition_point_def)

subsection \<open>What a series answers\<close>

definition last_where :: "('a sample \<Rightarrow> bool) \<Rightarrow> 'a sample list \<Rightarrow> 'a reading option" where
  "last_where P xs = (let ys = filter P xs in if ys = [] then None else Some (sample_reading (last ys)))"

lemma known_closed:
  assumes "sorted_wrt before (xs :: 'a sample list)"
  shows "sorted_wrt (\<lambda>x y. sm_point y \<le> p \<longrightarrow> sm_point x \<le> p) xs"
    "sorted_wrt (\<lambda>x y. sm_timestamp y \<le> t \<longrightarrow> sm_timestamp x \<le> t) xs"
    "sorted_wrt (\<lambda>x y. sm_timestamp y < t \<longrightarrow> sm_timestamp x < t) xs"
  by (rule sorted_wrt_mono_rel[OF _ assms]; auto)+

lemma series_at_answers:
  assumes "series_ok s"
  shows "series_at p s = last_where (\<lambda>x. sm_point x \<le> p) (sr_samples s)"
    and "series_at_time t s = last_where (\<lambda>x. sm_timestamp x \<le> t) (sr_samples s)"
  using known_closed(1,2)[of "sr_samples s"] assms
  by (simp_all add: series_at_def series_at_time_def Let_def last_partition last_where_def takeWhile_closed series_ok_def known_through_def)

lemma series_latest_last: "series_latest s = last_where (\<lambda>x. True) (sr_samples s)"
  by (simp add: series_latest_def last_where_def)

lemma series_since_answers:
  assumes "series_ok s"
  shows "series_since t s = (let xs = filter (\<lambda>x. t \<le> sm_timestamp x) (sr_samples s)
    in if xs = sr_samples s \<and> sr_trimmed s then None else Some xs)"
proof -
  let ?P = "\<lambda>x :: 'a sample. sm_timestamp x < t"
  have "drop (partition_point ?P (sr_samples s)) (sr_samples s) = filter (\<lambda>x. t \<le> sm_timestamp x) (sr_samples s)"
    using known_closed(3)[of "sr_samples s" t] assms
    by (simp add: drop_partition dropWhile_closed series_ok_def known_through_def not_less)
  moreover have "partition_point ?P (sr_samples s) = 0 \<longleftrightarrow> drop (partition_point ?P (sr_samples s)) (sr_samples s) = sr_samples s"
    using partition_le_length[of ?P "sr_samples s"] by (auto dest: arg_cong[of _ _ length])
  ultimately show ?thesis by (simp add: series_since_def Let_def)
qed

text \<open>The samples in a window.\<close>

lemma series_bounds_answers:
  assumes "series_ok s"
  shows "series_bounds s until w = (filter (\<lambda>x. sm_point x \<le> sm_point until) (sr_samples s),
    length (filter (\<lambda>x. sm_point x \<le> sm_point until \<and> sm_timestamp x < window_start until w) (sr_samples s)))"
proof -
  let ?xs = "sr_samples s"
  have s: "sorted_wrt before ?xs" using assms by (simp add: series_ok_def known_through_def)
  have "sorted_wrt before (filter Q ?xs)" for Q using s by (rule sorted_wrt_filter)
  from known_closed(3)[OF this] show ?thesis
    by (simp add: series_bounds_def Let_def take_partition takeWhile_closed[OF known_closed(1)[OF s]])
      (simp add: partition_point_def takeWhile_closed conj_commute)
qed

lemma until_window_answers:
  assumes "series_ok s"
  shows "until_window s until w = (if series_known s until
    then filter (\<lambda>x. sm_point x \<le> sm_point until \<and> window_start until w \<le> sm_timestamp x) (sr_samples s) else [])"
proof -
  let ?xs = "filter (\<lambda>x. sm_point x \<le> sm_point until) (sr_samples s)" and ?P = "\<lambda>x :: 'a sample. sm_timestamp x < window_start until w"
  have "sorted_wrt before ?xs" using assms by (simp add: series_ok_def known_through_def sorted_wrt_filter)
  note c = known_closed(3)[OF this, of "window_start until w"]
  have l: "length (filter (\<lambda>x. sm_point x \<le> sm_point until \<and> ?P x) (sr_samples s)) = partition_point ?P ?xs"
    by (simp add: partition_point_def takeWhile_closed[OF c] conj_commute)
  have "drop (partition_point ?P ?xs) ?xs = filter (\<lambda>x. \<not> ?P x) ?xs" by (simp only: drop_partition dropWhile_closed[OF c])
  then show ?thesis by (simp add: until_window_def series_bounds_answers[OF assms] l not_less conj_commute)
qed

lemma foldl_peak:
  "foldl peak_step best xs = (case best of None \<Rightarrow> foldl peak_step None xs | Some b \<Rightarrow> foldl peak_step (Some b) xs)"
  by (cases best) simp_all

lemma peak_run:
  "\<exists>p. foldl peak_step (Some b) xs = Some p \<and> p \<in> insert b (set xs) \<and> (\<forall>x \<in> insert b (set xs). sm_value x \<le> sm_value p)"
proof (induction xs arbitrary: b)
  case (Cons x xs)
  let ?b = "if sm_value x \<le> sm_value b then b else x"
  have step: "peak_step (Some b) x = Some ?b" by (simp add: peak_step_def)
  obtain p where p: "foldl peak_step (Some ?b) xs = Some p" "p \<in> insert ?b (set xs)" "\<forall>y \<in> insert ?b (set xs). sm_value y \<le> sm_value p"
    using Cons.IH[of ?b] by blast
  have "\<forall>y \<in> insert b (set (x # xs)). sm_value y \<le> sm_value p"
    using p(3) by (auto split: if_splits intro: order_trans)
  moreover have "p \<in> insert b (set (x # xs))" using p(2) by (auto split: if_splits)
  ultimately show ?case using p(1) step by (intro exI[of _ p]) simp
qed simp

text \<open>The peak is the greatest of the samples held in the window, and one of them.\<close>

lemma until_peak_greatest:
  assumes "until_peak s until w = Some r"
  obtains x where "x \<in> set (held_in s until w)" "rd_value r = sm_value x"
    "\<And>y. y \<in> set (held_in s until w) \<Longrightarrow> sm_value y \<le> rd_value r"
proof -
  obtain b xs where h: "held_in s until w = b # xs"
    using assms by (cases "held_in s until w") (simp_all add: until_peak_def Let_def split: if_splits)
  obtain p where p: "foldl peak_step (Some b) xs = Some p" "p \<in> insert b (set xs)" "\<forall>x \<in> insert b (set xs). sm_value x \<le> sm_value p"
    using peak_run by blast
  then have "rd_value r = sm_value p"
    using assms h by (auto simp: until_peak_def peak_step_def reading_ending_def split: if_splits)
  then show ?thesis using that[of p] p h by auto
qed

lemma until_peak_None:
  "until_peak s until w = None \<longleftrightarrow> \<not> series_known s until \<or> held_in s until w = []"
proof (cases "held_in s until w")
  case (Cons b xs)
  then show ?thesis using peak_run[of b xs] by (auto simp: until_peak_def peak_step_def)
qed (simp add: until_peak_def)

subsection \<open>What a process answers\<close>

definition complete_over :: "'m arrivals \<Rightarrow> unit sample \<Rightarrow> window \<Rightarrow> bool" where
  "complete_over a until w \<longleftrightarrow> (\<exists>start through. av_complete_from a = Some start \<and> start \<le> window_start until w
     \<and> av_through a = Some through \<and> sm_point until \<le> sm_point through)"

lemma arrivals_closed:
  assumes "sorted_wrt before (map arrival_sample xs)"
  shows "sorted_wrt (\<lambda>x y. ar_point y \<le> p \<longrightarrow> ar_point x \<le> p) xs"
    "sorted_wrt (\<lambda>x y. ar_timestamp y < t \<longrightarrow> ar_timestamp x < t) xs"
  using assms unfolding sorted_wrt_map by (rule sorted_wrt_mono_rel[rotated]; auto)+

lemma arrivals_until_window_answers:
  assumes "sorted_wrt before (map arrival_sample (av_arrivals a))"
  shows "arrivals_until_window a until w = (if complete_over a until w
    then Some (filter (\<lambda>x. ar_point x \<le> sm_point until \<and> window_start until w \<le> ar_timestamp x) (av_arrivals a)) else None)"
proof -
  let ?xs = "filter (\<lambda>x. ar_point x \<le> sm_point until) (av_arrivals a)" and ?P = "\<lambda>x :: 'm arrival. ar_timestamp x < window_start until w"
  have "sorted_wrt (\<lambda>x y. ?P y \<longrightarrow> ?P x) ?xs" by (rule sorted_wrt_filter[OF arrivals_closed(2)[OF assms]])
  note c = this
  have "drop (partition_point ?P ?xs) ?xs = filter (\<lambda>x. \<not> ?P x) ?xs" by (simp only: drop_partition dropWhile_closed[OF c])
  then show ?thesis
    by (auto simp: arrivals_until_window_def complete_over_def Let_def take_partition takeWhile_closed[OF arrivals_closed(1)[OF assms]]
        not_less conj_commute split: option.splits)
qed

subsection \<open>The densest window\<close>

definition within_secs :: "u64 \<Rightarrow> 'm arrival list \<Rightarrow> nat \<Rightarrow> nat \<Rightarrow> bool" where
  "within_secs secs xs i j \<longleftrightarrow> i \<le> j \<and> j < length xs \<and> uint (ar_timestamp (xs ! j)) - uint (ar_timestamp (xs ! i)) \<le> uint secs"

definition timed :: "'m arrival list \<Rightarrow> bool" where
  "timed xs \<longleftrightarrow> sorted_wrt (\<lambda>x y. ar_timestamp x \<le> ar_timestamp y) xs"

lemma timed_nth: "timed xs \<Longrightarrow> i \<le> j \<Longrightarrow> j < length xs \<Longrightarrow> ar_timestamp (xs ! i) \<le> ar_timestamp (xs ! j)"
  by (cases "i = j") (auto simp: timed_def sorted_wrt_iff_nth_less)

lemma slide_exceeds:
  assumes "timed xs" "i \<le> j" "j < length xs"
  shows "secs < ar_timestamp (xs ! j) - ar_timestamp (xs ! i) \<longleftrightarrow> \<not> within_secs secs xs i j"
  using timed_nth[OF assms] assms(2,3) by (auto simp: within_secs_def word_less_def word_le_def uint_sub_lem)

lemma within_later: "timed xs \<Longrightarrow> i \<le> j \<Longrightarrow> within_secs secs xs i (Suc j) \<Longrightarrow> within_secs secs xs i j"
  using timed_nth[of xs j "Suc j"] by (auto simp: within_secs_def word_le_def)

lemma slide_start_least:
  assumes "timed xs" "e < length xs" "start \<le> e" "\<And>i. i < start \<Longrightarrow> \<not> within_secs secs xs i e"
  shows "slide_start secs xs e start \<le> e \<and> within_secs secs xs (slide_start secs xs e start) e
    \<and> (\<forall>i < slide_start secs xs e start. \<not> within_secs secs xs i e)"
  using assms
proof (induction secs xs e start rule: slide_start.induct)
  case (1 secs xs e start)
  have x: "secs < ar_timestamp (xs ! e) - ar_timestamp (xs ! start) \<longleftrightarrow> \<not> within_secs secs xs start e"
    using slide_exceeds[of xs start e secs] "1.prems" by simp
  show ?case
  proof (cases "start < e \<and> \<not> within_secs secs xs start e")
    case True
    then have "i < Suc start \<Longrightarrow> \<not> within_secs secs xs i e" for i using "1.prems"(4) by (auto simp: less_Suc_eq)
    then show ?thesis using "1.IH" "1.prems" True x by (subst (1 2 3) slide_start.simps) auto
  next
    case False
    then have "slide_start secs xs e start = start" using x by (subst slide_start.simps) auto
    moreover have "within_secs secs xs start e" using False "1.prems" by (cases "start = e") (auto simp: within_secs_def)
    ultimately show ?thesis using "1.prems" by auto
  qed
qed

definition densest :: "u64 \<Rightarrow> 'm arrival list \<Rightarrow> nat \<Rightarrow> nat \<times> (nat \<times> nat) option \<Rightarrow> bool" where
  "densest secs xs n st \<longleftrightarrow> (if n = 0 then st = (0, None)
     else fst st < n \<and> (\<forall>i < fst st. \<not> within_secs secs xs i (n - 1))
       \<and> (\<exists>b c. snd st = Some (b, c) \<and> b < c \<and> c \<le> n \<and> within_secs secs xs b (c - 1)
          \<and> (\<forall>i j. within_secs secs xs i j \<longrightarrow> j < n \<longrightarrow> j + 1 - i \<le> c - b)))"

lemma densest_step:
  assumes t: "timed xs" and n: "n < length xs" and d: "densest secs xs n st"
  shows "densest secs xs (Suc n) (busiest_step secs xs st n)"
proof -
  obtain start best where st: "st = (start, best)" by force
  have "start \<le> n" using d by (auto simp: densest_def st split: if_splits)
  moreover have "\<not> within_secs secs xs i n" if "i < start" for i
  proof -
    from d that obtain k where "n = Suc k" "i \<le> k" "\<not> within_secs secs xs i k"
      by (cases n) (auto simp: densest_def st)
    then show ?thesis using within_later[OF t, of i k secs] by blast
  qed
  ultimately have "start \<le> n" "\<And>i. i < start \<Longrightarrow> \<not> within_secs secs xs i n" by blast+
  note sl = slide_start_least[OF t n this]
  let ?s = "slide_start secs xs n start"
  have new: "n + 1 - i \<le> n + 1 - ?s" if "within_secs secs xs i n" for i using sl that by (meson diff_le_mono2 not_less)
  show ?thesis
  proof (cases best)
    case None
    then have "n = 0" using d by (auto simp: densest_def st split: if_splits)
    then show ?thesis using sl None new by (auto simp: densest_def st busiest_step_def Let_def within_secs_def)
  next
    case (Some x)
    obtain b c where x: "x = (b, c)" by force
    have old: "n > 0" "b < c" "c \<le> n" "within_secs secs xs b (c - 1)" "\<And>i j. within_secs secs xs i j \<Longrightarrow> j < n \<Longrightarrow> j + 1 - i \<le> c - b"
      using d by (auto simp: densest_def st Some x split: if_splits)
    have all: "j + 1 - i \<le> max (c - b) (n + 1 - ?s)" if "within_secs secs xs i j" "j < Suc n" for i j
      using old(5)[OF that(1)] new that by (cases "j = n") (auto simp: le_max_iff_disj)
    show ?thesis
    proof (cases "c - b < n + 1 - ?s")
      case True
      then show ?thesis using sl all by (auto simp: densest_def st Some x busiest_step_def Let_def max_def less_Suc_eq_le)
    next
      case False
      then show ?thesis using sl all old by (auto simp: densest_def st Some x busiest_step_def Let_def max_def less_Suc_eq_le)
    qed
  qed
qed

lemma densest_run: "timed xs \<Longrightarrow> n \<le> length xs \<Longrightarrow> densest secs xs n (foldl (busiest_step secs xs) (0, None) [0..<n])"
proof (induction n)
  case 0
  then show ?case by (simp add: densest_def)
next
  case (Suc n)
  then show ?case by (simp add: densest_step)
qed

lemma busiest_densest:
  assumes t: "timed (av_arrivals a)"
  shows "av_arrivals a = [] \<Longrightarrow> busiest a w = None"
    and "av_arrivals a \<noteq> [] \<Longrightarrow> \<exists>b c. busiest a w = Some (take (c - b) (drop b (av_arrivals a))) \<and> b < c
      \<and> within_secs (window_secs w) (av_arrivals a) b (c - 1)
      \<and> (\<forall>i j. within_secs (window_secs w) (av_arrivals a) i j \<longrightarrow> j + 1 - i \<le> c - b)"
proof -
  let ?xs = "av_arrivals a" and ?r = "foldl (busiest_step (window_secs w) (av_arrivals a)) (0, None) [0..<length (av_arrivals a)]"
  show "?xs = [] \<Longrightarrow> busiest a w = None" by (simp add: busiest_def)
  assume "?xs \<noteq> []"
  moreover have "densest (window_secs w) ?xs (length ?xs) ?r" by (rule densest_run[OF t]) simp
  ultimately obtain b c where "snd ?r = Some (b, c)" "b < c" "within_secs (window_secs w) ?xs b (c - 1)"
    "\<forall>i j. within_secs (window_secs w) ?xs i j \<longrightarrow> j < length ?xs \<longrightarrow> j + 1 - i \<le> c - b"
    by (auto simp: densest_def)
  then show "\<exists>b c. busiest a w = Some (take (c - b) (drop b ?xs)) \<and> b < c \<and> within_secs (window_secs w) ?xs b (c - 1)
      \<and> (\<forall>i j. within_secs (window_secs w) ?xs i j \<longrightarrow> j + 1 - i \<le> c - b)"
    by (intro exI[of _ b] exI[of _ c]) (auto simp: busiest_def within_secs_def)
qed

subsection \<open>Retention forgets and never lies\<close>

lemma last_where_drop:
  "last_where P (drop k xs) = None \<or> last_where P (drop k xs) = last_where P xs"
  "\<exists>x \<in> set (drop k xs). P x \<Longrightarrow> last_where P (drop k xs) = last_where P xs"
proof -
  have f: "filter P xs = filter P (take k xs) @ filter P (drop k xs)" by (metis append_take_drop_id filter_append)
  show "last_where P (drop k xs) = None \<or> last_where P (drop k xs) = last_where P xs"
    unfolding last_where_def Let_def f by auto
  assume "\<exists>x \<in> set (drop k xs). P x"
  then have "filter P (drop k xs) \<noteq> []" by (auto simp: filter_empty_conv)
  then show "last_where P (drop k xs) = last_where P xs" unfolding last_where_def Let_def f by auto
qed

text \<open>What retention leaves of a series is a suffix of what it would have been without.\<close>

lemma series_retained:
  assumes "sorted_wrt before es"
  obtains k where "sr_samples (foldl series_step (series_retain r series_default) es) = drop k (sr_samples (foldl series_step series_default es))"
    and "sr_trimmed (foldl series_step (series_retain r series_default) es) \<longleftrightarrow> 0 < k"
    and "sr_through (foldl series_step (series_retain r series_default) es) = sr_through (foldl series_step series_default es)"
    and "\<And>w u. r = RetainLast w \<Longrightarrow> sr_through (foldl series_step series_default es) = Some u \<Longrightarrow>
        k = kept_from (window_start u w) (sr_samples (foldl series_step series_default es))"
    and "r = RetainAll \<Longrightarrow> k = 0" and "\<not> sr_trimmed (foldl series_step series_default es)"
proof -
  have r: "series_retain r series_default = (series_default :: 'a series)\<lparr>sr_retention := r\<rparr>"
    by (simp add: series_retain_def series_trim_def series_default_def split: retention.split)
  show thesis
  proof (cases es rule: rev_exhaust)
    case Nil
    then show ?thesis using that[of 0] unfolding r by (simp add: series_default_def)
  next
    case (snoc ds e)
    have f: "series_follows (series_default\<lparr>sr_retention := r\<rparr>) (ds @ [e])"
      using assms snoc by (simp add: series_follows_def series_ok_def known_through_def series_default_def after_through_def)
    have full: "foldl series_step series_default es = \<lparr>sr_samples = news es, sr_retention = RetainAll, sr_trimmed = False, sr_through = Some (sample_with e ())\<rparr>"
      using series_default_run assms unfolding snoc by blast
    have kept: "foldl series_step (series_retain r series_default) es = series_settle (series_default\<lparr>sr_retention := r\<rparr>) (news es) (sample_with e ())"
      unfolding r snoc series_run[OF f] by (simp add: series_default_def)
    define k where "k = (case r of RetainAll \<Rightarrow> 0 | RetainLast w \<Rightarrow> kept_from (window_start (sample_with e ()) w) (news es))"
    let ?K = "series_settle (series_default\<lparr>sr_retention := r\<rparr>) (news es) (sample_with e ())"
    have K: "sr_samples ?K = drop k (news es)" "sr_trimmed ?K \<longleftrightarrow> 0 < k" "sr_through ?K = Some (sample_with e ())"
      by (cases r; simp add: k_def series_settle_def series_trim_All series_trim_Last series_default_def)+
    show ?thesis by (rule that[of k]) (simp_all add: full kept K, simp_all add: k_def)
  qed
qed

lemma series_run_sorted: "sorted_wrt before es \<Longrightarrow> series_ok (foldl series_step (series_retain r series_default) es)"
proof (cases es rule: rev_exhaust)
  case Nil
  then show ?thesis by (simp add: series_retain_def series_trim_def series_default_def series_ok_def known_through_def split: retention.split)
next
  case (snoc ds e)
  assume s: "sorted_wrt before es"
  have r: "series_retain r series_default = (series_default :: 'a series)\<lparr>sr_retention := r\<rparr>"
    by (simp add: series_retain_def series_trim_def series_default_def split: retention.split)
  have f: "series_follows (series_retain r series_default) (ds @ [e])"
    using s unfolding r snoc by (simp add: series_follows_def series_ok_def known_through_def series_default_def after_through_def)
  show ?thesis unfolding snoc series_run[OF f]
    by (rule series_settle_ok) (use series_run_ok[OF f] in simp_all)
qed

lemma retain_all: "series_retain RetainAll series_default = series_default"
  by (simp add: series_retain_def series_trim_def series_default_def)

lemma kept_from_next:
  assumes "0 < kept_from f xs" shows "kept_from f xs < length xs" "sm_timestamp (xs ! kept_from f xs) < f"
proof -
  let ?t = "takeWhile (\<lambda>x. sm_timestamp x < f) xs"
  have k: "kept_from f xs < length ?t" using assms by (simp add: kept_from_def partition_point_def)
  then show "kept_from f xs < length xs" using length_takeWhile_le[of "\<lambda>x. sm_timestamp x < f" xs] by linarith
  have "?t ! kept_from f xs \<in> set ?t" using k by (rule nth_mem)
  then show "sm_timestamp (xs ! kept_from f xs) < f" using takeWhile_nth[OF k] by (auto dest: set_takeWhileD)
qed

lemma series_since_drop:
  assumes "series_ok s" "series_ok s'" "sr_samples s' = drop k (sr_samples s)" "sr_trimmed s' \<longleftrightarrow> 0 < k" "\<not> sr_trimmed s"
  shows "series_since t s' = None \<or> series_since t s' = series_since t s"
proof (cases "k = 0")
  case True
  then show ?thesis using assms by (simp add: series_since_def)
next
  case False
  let ?xs = "sr_samples s" and ?P = "\<lambda>x :: 'a sample. t \<le> sm_timestamp x"
  show ?thesis
  proof (cases "filter ?P (drop k ?xs) = drop k ?xs")
    case True
    then show ?thesis using False assms by (simp add: series_since_answers[OF assms(2)] Let_def)
  next
    case ne: False
    then obtain y where y: "y \<in> set (drop k ?xs)" "sm_timestamp y < t" by (auto simp: filter_id_conv)
    have "sorted_wrt before (take k ?xs @ drop k ?xs)" using assms(1) by (simp add: series_ok_def known_through_def)
    then have "before x y" if "x \<in> set (take k ?xs)" for x using that y(1) unfolding sorted_wrt_append by blast
    then have "filter ?P (take k ?xs) = []" using y(2) by (fastforce simp: filter_empty_conv)
    then have "filter ?P ?xs = filter ?P (drop k ?xs)" by (metis append_take_drop_id filter_append self_append_conv2)
    then show ?thesis using assms(3-5) by (simp add: series_since_answers[OF assms(1)] series_since_answers[OF assms(2)] Let_def)
  qed
qed

lemma series_at_drop:
  assumes "series_ok s" "series_ok s'" "sr_samples s' = drop k (sr_samples s)"
  shows "series_at p s' = None \<or> series_at p s' = series_at p s"
    and "series_at_time t s' = None \<or> series_at_time t s' = series_at_time t s"
  by (simp_all add: series_at_answers[OF assms(1)] series_at_answers[OF assms(2)] assms(3) last_where_drop(1))

lemma series_at_time_kept:
  assumes "series_ok s" "series_ok s'" "sr_samples s' = drop (kept_from f (sr_samples s)) (sr_samples s)" "f \<le> t"
  shows "series_at_time t s' = series_at_time t s"
proof (cases "0 < kept_from f (sr_samples s)")
  case True
  let ?k = "kept_from f (sr_samples s)"
  have "drop ?k (sr_samples s) ! 0 \<in> set (drop ?k (sr_samples s))" using kept_from_next(1)[OF True] by (intro nth_mem) simp
  then have "sr_samples s ! ?k \<in> set (drop ?k (sr_samples s))" using kept_from_next(1)[OF True] by simp
  moreover have "sm_timestamp (sr_samples s ! ?k) \<le> t" using kept_from_next(2)[OF True] assms(4) by auto
  ultimately show ?thesis
    using last_where_drop(2)[of ?k "sr_samples s" "\<lambda>x. sm_timestamp x \<le> t"]
    by (auto simp: series_at_answers(2)[OF assms(1)] series_at_answers(2)[OF assms(2)] assms(3))
next
  case False
  then show ?thesis by (simp add: series_at_answers(2)[OF assms(1)] series_at_answers(2)[OF assms(2)] assms(3))
qed

lemma arrivals_retained:
  fixes es :: "'m option arrival list"
  assumes "sorted_wrt before (map arrival_sample (es @ [e]))"
  shows "foldl arrivals_step (arrivals_retain r arrivals_from_genesis) (es @ [e])
    = arrivals_settle ((arrivals_from_genesis :: 'm arrivals)\<lparr>av_retention := r\<rparr>) 0 (newcomers (es @ [e])) (arrival_sample e)"
proof -
  have r: "arrivals_retain r arrivals_from_genesis = (arrivals_from_genesis :: 'm arrivals)\<lparr>av_retention := r\<rparr>"
    by (simp add: arrivals_retain_def arrivals_trim_def arrivals_from_genesis_def arrivals_default_def split: retention.split)
  have "arrivals_follow ((arrivals_from_genesis :: 'm arrivals)\<lparr>av_retention := r\<rparr>) (es @ [e])"
    using assms by (simp add: arrivals_follow_def arrivals_ok_def known_through_def arrivals_from_genesis_def arrivals_default_def after_through_def)
  note run = arrivals_run[OF this]
  have "av_arrivals (arrivals_from_genesis :: 'm arrivals) = []" "av_complete_from (arrivals_from_genesis :: 'm arrivals) = Some 0"
    by (simp_all add: arrivals_from_genesis_def arrivals_default_def)
  then show ?thesis unfolding r using run by (simp add: watching_from_def del: newcomers_append foldl_append)
qed

text \<open>A window a process answers holds what arrived in it, whatever has been forgotten since.\<close>

lemma window_of_the_tape:
  fixes es :: "'m option arrival list"
  assumes "sorted_wrt before (map arrival_sample (es @ [e]))"
  shows "arrivals_until_window (foldl arrivals_step (arrivals_retain r arrivals_from_genesis) (es @ [e])) until w
    = (if sm_point until \<le> ar_point e \<and> (\<forall>v. r = RetainLast v \<longrightarrow> window_start (arrival_sample e) v \<le> window_start until w)
       then Some (filter (\<lambda>x. ar_point x \<le> sm_point until \<and> window_start until w \<le> ar_timestamp x) (newcomers (es @ [e]))) else None)"
proof -
  let ?g = "(arrivals_from_genesis :: 'm arrivals)\<lparr>av_retention := r\<rparr>" and ?n = "newcomers (es @ [e])"
  let ?a = "arrivals_settle ?g 0 ?n (arrival_sample e)"
  have f: "arrivals_follow ?g (es @ [e])"
    using assms by (simp add: arrivals_follow_def arrivals_ok_def known_through_def arrivals_from_genesis_def arrivals_default_def after_through_def)
  have sorted: "sorted_wrt before (map arrival_sample ?n)"
    using arrivals_run_ok(1)[OF f] by (simp add: arrivals_from_genesis_def arrivals_default_def del: newcomers_append)
  show ?thesis
  proof (cases r)
    case RetainAll
    then have "av_arrivals ?a = ?n" "complete_over ?a until w \<longleftrightarrow> sm_point until \<le> ar_point e"
      by (simp_all add: arrivals_settle_All complete_over_def)
    then show ?thesis using arrivals_until_window_answers[of ?a until w] sorted RetainAll
      by (simp add: arrivals_retained[OF assms] del: newcomers_append foldl_append)
  next
    case (RetainLast v)
    let ?f = "window_start (arrival_sample e) v"
    have arr: "av_arrivals ?a = filter (\<lambda>x. ?f \<le> ar_timestamp x) ?n"
      using RetainLast dropWhile_closed[OF arrivals_closed(2)[OF sorted, of ?f]] by (simp add: arrivals_settle_Last not_less del: newcomers_append)
    have c: "complete_over ?a until w \<longleftrightarrow> sm_point until \<le> ar_point e \<and> ?f \<le> window_start until w"
      using RetainLast by (auto simp: arrivals_settle_Last complete_over_def)
    have "sorted_wrt before (map arrival_sample (av_arrivals ?a))"
      using sorted unfolding arr sorted_wrt_map by (rule sorted_wrt_filter)
    note a = arrivals_until_window_answers[OF this, of until w]
    have q: "(\<forall>v. r = RetainLast v \<longrightarrow> window_start (arrival_sample e) v \<le> window_start until w) \<longleftrightarrow> ?f \<le> window_start until w"
      by (simp add: RetainLast)
    have "filter (\<lambda>x. (ar_point x \<le> sm_point until \<and> window_start until w \<le> ar_timestamp x) \<and> ?f \<le> ar_timestamp x) ?n
        = filter (\<lambda>x. ar_point x \<le> sm_point until \<and> window_start until w \<le> ar_timestamp x) ?n" if "?f \<le> window_start until w"
      using that by (intro filter_cong) auto
    then show ?thesis using a unfolding arrivals_retained[OF assms] q c arr filter_filter by (simp add: conj_ac del: newcomers_append)
  qed
qed

subsection \<open>Properties\<close>

text \<open>C30: A series folded from a tape under any retention answers about a point, about a time, or since a time, either nothing or what
  the series that forgets nothing answers; and about every time inside its retention it answers the same.\<close>

theorem retention_changes_no_answer:
  fixes es :: "'a option sample list"
  assumes "sorted_wrt before es"
  shows "let full = foldl series_step series_default es; kept = foldl series_step (series_retain r series_default) es in
    (series_at p kept = None \<or> series_at p kept = series_at p full)
    \<and> (series_at_time t kept = None \<or> series_at_time t kept = series_at_time t full)
    \<and> (series_since t kept = None \<or> series_since t kept = series_since t full)
    \<and> (case (r, sr_through kept) of
         (RetainLast w, Some through) \<Rightarrow> window_start through w \<le> t \<longrightarrow> series_at_time t kept = series_at_time t full
       | _ \<Rightarrow> series_at_time t kept = series_at_time t full)"
proof -
  let ?full = "foldl series_step series_default es" and ?kept = "foldl series_step (series_retain r series_default) es"
  have ok: "series_ok ?full" "series_ok ?kept"
    using series_run_sorted[OF assms, of RetainAll] series_run_sorted[OF assms, of r] by (simp_all add: retain_all)
  obtain k where k: "sr_samples ?kept = drop k (sr_samples ?full)" "sr_trimmed ?kept \<longleftrightarrow> 0 < k" "sr_through ?kept = sr_through ?full"
    "\<And>w u. r = RetainLast w \<Longrightarrow> sr_through ?full = Some u \<Longrightarrow> k = kept_from (window_start u w) (sr_samples ?full)"
    "r = RetainAll \<Longrightarrow> k = 0" "\<not> sr_trimmed ?full"
    using series_retained[OF assms, of r] by metis
  have all: "series_at_time t ?kept = series_at_time t ?full" if "k = 0"
    using k(1) unfolding that by (simp add: series_at_time_def Let_def)
  have none: "series_at_time t ?kept = series_at_time t ?full" if "sr_through ?full = None"
  proof -
    have "sr_samples ?full = []" using ok(1) that by (simp add: series_ok_def known_through_def)
    then show ?thesis using k(1) by (simp add: series_at_time_def Let_def)
  qed
  have inside: "series_at_time t ?kept = series_at_time t ?full"
    if "r = RetainLast w" "sr_through ?full = Some u" "window_start u w \<le> t" for w u
    using series_at_time_kept[OF ok _ that(3)] k(1) k(4)[OF that(1,2)] by blast
  show ?thesis
    unfolding Let_def k(3)
    using series_at_drop[OF ok k(1)] series_since_drop[OF ok k(1,2,6)] all[OF k(5)] none inside
    by (auto split: retention.split option.split)
qed

theorem retention_changes_no_answer_witness:
  "let at = (\<lambda>b t v. \<lparr>sm_point = ChainPoint b 0, sm_timestamp = t, sm_value = v\<rparr>);
       es = [at 1 100 (Some (7 :: nat)), at 2 150 None, at 3 200 (Some 8), at 4 300 (Some 9)];
       kept = foldl series_step (series_retain (RetainLast (Window 60)) series_default) es
   in series_at_time 250 kept = series_at_time 250 (foldl series_step series_default es)
     \<and> map_option rd_value (series_at_time 250 kept) = Some 8"
proof -
  let ?at = "\<lambda>b t v. \<lparr>sm_point = ChainPoint b 0, sm_timestamp = t, sm_value = v\<rparr>"
  let ?es = "[?at 1 100 (Some (7 :: nat)), ?at 2 150 None, ?at 3 200 (Some 8), ?at 4 300 (Some 9)]"
  let ?kept = "foldl series_step (series_retain (RetainLast (Window 60)) series_default) ?es"
  have "sorted_wrt before ?es" by (simp add: less_chain_point_def)
  moreover have v: "map_option rd_value (series_at_time 250 ?kept) = Some 8" by code_simp
  ultimately show ?thesis
    using retention_changes_no_answer[where es = ?es and r = "RetainLast (Window 60)" and t = 250] unfolding Let_def by auto
qed

text \<open>C31: A process folded from the genesis of a market under any retention, asked for a count over a window, answers the number of arrivals
  of the whole tape in that window, or nothing; it answers exactly when the window ends by the last event and does not start
  before its retention.\<close>

theorem windows_count_the_tape:
  fixes es :: "'m option arrival list"
  assumes "sorted_wrt before (map arrival_sample (es @ [e]))"
  shows "map_option rd_value (arrivals_until_count (foldl arrivals_step (arrivals_retain r arrivals_from_genesis) (es @ [e])) until w)
    = (if sm_point until \<le> ar_point e \<and> (\<forall>v. r = RetainLast v \<longrightarrow> window_start (arrival_sample e) v \<le> window_start until w)
       then Some (of_nat (length (filter (\<lambda>x. ar_point x \<le> sm_point until \<and> window_start until w \<le> ar_timestamp x)
         (newcomers (es @ [e]))))) else None)"
  unfolding arrivals_until_count_def window_of_the_tape[OF assms] by (simp add: reading_ending_def)

theorem windows_count_the_tape_witness:
  "let at = (\<lambda>b t m. \<lparr>ar_point = ChainPoint b 0, ar_timestamp = t, ar_tx = 0, ar_mark = m\<rparr>);
       es = [at 1 100 (Some (1 :: nat)), at 2 150 (Some 2), at 3 200 None]; e = at 4 210 (Some 3)
   in map_option rd_value (arrivals_until_count (foldl arrivals_step (arrivals_retain (RetainLast (Window 100)) arrivals_from_genesis)
     (es @ [e])) (arrival_sample e) (Window 70)) = Some 2"
  unfolding Let_def
  by (subst windows_count_the_tape) (simp_all add: less_chain_point_def less_eq_chain_point_def arrival_sample_def window_start_def saturating_sub_def)

text \<open>The densest window of a process is a run of its arrivals no longer than the window, and no such run holds more.\<close>

theorem busiest_is_densest:
  assumes "timed (av_arrivals a)" "av_arrivals a \<noteq> []"
  shows "\<exists>b c. busiest a w = Some (take (c - b) (drop b (av_arrivals a))) \<and> b < c \<and> within_secs (window_secs w) (av_arrivals a) b (c - 1)
    \<and> (\<forall>i j. within_secs (window_secs w) (av_arrivals a) i j \<longrightarrow> j + 1 - i \<le> c - b)"
  by (rule busiest_densest(2)[OF assms])

theorem busiest_is_densest_witness:
  "let xs = map (\<lambda>t. \<lparr>ar_point = ChainPoint t 0, ar_timestamp = t, ar_tx = 0, ar_mark = ()\<rparr>) [10, 40, 45, 50, 90 :: u64];
       a = arrivals_default\<lparr>av_arrivals := xs\<rparr>
   in (\<exists>b c. busiest a (Window 10) = Some (take (c - b) (drop b xs)) \<and> within_secs 10 xs b (c - 1)
       \<and> (\<forall>i j. within_secs 10 xs i j \<longrightarrow> j + 1 - i \<le> c - b)) \<and> busiest a (Window 10) = Some (take 3 (drop 1 xs))"
proof -
  let ?xs = "map (\<lambda>t. \<lparr>ar_point = ChainPoint t 0, ar_timestamp = t, ar_tx = 0, ar_mark = ()\<rparr>) [10, 40, 45, 50, 90 :: u64]"
  have "timed ?xs" by (simp add: timed_def)
  moreover have "busiest (arrivals_default\<lparr>av_arrivals := ?xs\<rparr>) (Window 10) = Some (take 3 (drop 1 ?xs))" by code_simp
  ultimately show ?thesis
    using busiest_is_densest[of "arrivals_default\<lparr>av_arrivals := ?xs\<rparr>" "Window 10"] unfolding Let_def by auto
qed

end
