(* ===== verification/Market_Events.thy ===== *)
theory Market_Events
  imports Pricing Swap Chain_Fold
begin

text \<open>
  \<open>src/src/events.rs\<close>, the unpacking of \<open>src/src/convert.rs\<close> and the stamped event of \<open>src/src/history/tape/mod.rs\<close>:
  what a market emitted, in the units the crate holds it in. The ABI decoding of a log is alloy's, so a decoded log comes in as a
  \<open>raw_event\<close>, one constructor for each event binding, its fields at the widths the bindings give them. Two
  constructors of the same event are the shapes of two contract builds.
\<close>

subsection \<open>The vocabulary\<close>

type_synonym account = "160 word"

record swap_info =
  si_perp_delta :: perp_delta
  si_usd_delta :: usdc_delta
  si_pool_price :: price
  si_total_fee :: usdc_delta
  si_lp_fee :: usdc_atoms
  si_protocol_fee :: usdc_atoms
  si_creator_fee :: usdc_atoms
  si_insurance_fee :: usdc_atoms

record maker_settle =
  mst_funding :: usdc_delta
  mst_util_fees :: "usdc_atoms per_side"
  mst_lp_fees :: usdc_atoms

record cumulatives =
  cu_funding :: funding
  cu_funding_div_sqrt_p :: funding_per_sqrt
  cu_util_payments :: "earnings per_side"
  cu_util_earnings :: "earnings per_side"

datatype module_kind = BeaconModule | FeesModule | FundingModule | MarginRatiosModule | PriceImpactModule | PricingModule

datatype (plugins only: code size) market_event =
    MakerOpened u256
  | MakerAdjusted u256 maker_settle
  | MakerConverted u256 maker_settle usdc_atoms bool
  | MakerClosed u256 maker_settle usdc_atoms bool
  | MakerLiquidated u256 l_units usdc_atoms
  | MakerBackstopped u256 usdc_atoms account maker_settle
  | TakerOpened u256 swap_info
  | TakerAdjusted u256 swap_info usdc_delta usdc_atoms
  | TakerClosed u256 swap_info usdc_delta usdc_atoms usdc_atoms bool
  | TakerLiquidated u256 perp_atoms usdc_atoms
  | TakerBackstopped u256 usdc_atoms account usdc_delta usdc_atoms
  | CapacityUpdated capacity
  | OpenInterestUpdated "perp_atoms per_side"
  | CumulativesAccrued cumulatives
  | RatesAndEmasRefreshed funding_rate "utilization_rate per_side" u64 price price
  | TicksCrossed i32 i32 bool
  | TickInitialized i32 funding funding_per_sqrt
  | TickDeleted i32
  | Donated account usdc_atoms usdc_atoms usdc_atoms
  | BadDebtAccounted usdc_atoms usdc_atoms usdc_atoms
  | LossSocialized usdc_atoms usdc_atoms usdc_atoms
  | MarginTransferred usdc_delta usdc_atoms
  | IndexUpdated price
  | PoolInitialized u256 sqrt_price i32
  | PoolSwapped u256 account sqrt_price l_units i32
  | ModifyLiquidity u256 account i32 i32 l_delta u256
  | PositionTransferred account account u256
  | ModuleSet module_kind account

record tape_event =
  te_block_number :: u64
  te_block_hash :: u256
  te_log_index :: u64
  te_timestamp :: u64
  te_tx_hash :: u256
  te_event :: market_event

definition te_point :: "tape_event \<Rightarrow> chain_point" where
  "te_point e = ChainPoint (te_block_number e) (te_log_index e)"

definition te_sample :: "tape_event \<Rightarrow> 'a \<Rightarrow> 'a sample" where
  "te_sample e v = \<lparr>sm_point = te_point e, sm_timestamp = te_timestamp e, sm_value = v\<rparr>"

lemma te_sample_simps [simp]:
  "sm_point (te_sample e v) = te_point e" "sm_timestamp (te_sample e v) = te_timestamp e" "sm_value (te_sample e v) = v"
  "sample_with (te_sample e v) w = te_sample e w"
  by (simp_all add: te_sample_def sample_with_def)

subsection \<open>Decoding\<close>

record raw_swap =
  rs_delta :: i256
  rs_amm_price :: u256
  rs_total_fee :: i256
  rs_lp_fee :: u256
  rs_protocol_fee :: u256
  rs_creator_fee :: u256
  rs_insurance_fee :: u256

record raw_settle =
  rt_funding :: i256
  rt_long_util_fees :: u256
  rt_short_util_fees :: u256
  rt_lp_fees :: u256

record raw_cumulatives =
  rc_funding :: i256
  rc_funding_div_sqrt_p :: i256
  rc_long_util_payments :: u256
  rc_short_util_payments :: u256
  rc_long_util_earnings :: u256
  rc_short_util_earnings :: u256

datatype (plugins only: code size) raw_event =
    RawMakerOpened u256
  | RawMakerAdjusted u256 raw_settle
  | RawMakerConverted u256 raw_settle
  | RawMakerClosed u256 raw_settle
  | RawMakerConvertedTailed u256 raw_settle u256 bool
  | RawMakerClosedTailed u256 raw_settle u256 bool
  | RawMakerLiquidated u256 u128 u256
  | RawMakerBackstopped u256 u128 account raw_settle
  | RawTakerOpened u256 raw_swap
  | RawTakerAdjusted u256 raw_swap i256 u256
  | RawTakerClosed u256 raw_swap i256 u256 u256 bool
  | RawTakerClosedUntailed u256 raw_swap i256 u256
  | RawTakerLiquidated u256 u128 u256
  | RawTakerBackstopped u256 u128 account i256 u256
  | RawCapacityUpdated u128 u128
  | RawOpenInterestUpdated u128 u128
  | RawCumulativesAccrued raw_cumulatives
  | RawRatesAndEmasRefreshed "88 word" u64 u64 "40 word" u128 u128
  | RawTicksCrossed "24 word" "24 word" bool
  | RawTickInitialized "24 word" i256 i256
  | RawTickDeleted "24 word"
  | RawDonated account u128 u128 "80 word"
  | RawBadDebtAccounted u256 u256 u128
  | RawLossSocialized u256 u256 u128
  | RawMarginTransferred i128 u128
  | RawIndexUpdated u256
  | RawInitialize u256 "160 word" "24 word"
  | RawSwap u256 account "160 word" u128 "24 word"
  | RawModifyLiquidity u256 account "24 word" "24 word" i256 u256
  | RawTransfer account account u256
  | RawSetModule module_kind account

definition unpack_balance_delta :: "i256 \<Rightarrow> i128 \<times> i128" where
  "unpack_balance_delta delta = (ucast (drop_bit 128 delta), ucast (delta AND ucast (- 1 :: u128)))"

definition i256_usdc :: "i256 \<Rightarrow> usdc_delta result" where
  "i256_usdc v = ok_or DecodeFailed (map_option UsdcDelta (narrow_s v))"

definition u256_usdc :: "u256 \<Rightarrow> usdc_atoms result" where
  "u256_usdc v = ok_or DecodeFailed (map_option UsdcAtoms (narrow v))"

definition swap_info_of :: "raw_swap \<Rightarrow> swap_info result" where
  "swap_info_of sr =
     (let (p, u) = unpack_balance_delta (rs_delta sr) in
      rbind (i256_usdc (rs_total_fee sr)) (\<lambda>total.
      rbind (u256_usdc (rs_lp_fee sr)) (\<lambda>lp.
      rbind (u256_usdc (rs_protocol_fee sr)) (\<lambda>protocol.
      rbind (u256_usdc (rs_creator_fee sr)) (\<lambda>creator.
      rbind (u256_usdc (rs_insurance_fee sr)) (\<lambda>insurance.
      Inr \<lparr>si_perp_delta = PerpDelta p, si_usd_delta = UsdcDelta u, si_pool_price = Price (rs_amm_price sr),
           si_total_fee = total, si_lp_fee = lp, si_protocol_fee = protocol, si_creator_fee = creator,
           si_insurance_fee = insurance\<rparr>))))))"

definition maker_settle_of :: "raw_settle \<Rightarrow> maker_settle result" where
  "maker_settle_of r =
     rbind (i256_usdc (rt_funding r)) (\<lambda>fund.
     rbind (u256_usdc (rt_long_util_fees r)) (\<lambda>l.
     rbind (u256_usdc (rt_short_util_fees r)) (\<lambda>s.
     rbind (u256_usdc (rt_lp_fees r)) (\<lambda>lp.
     Inr \<lparr>mst_funding = fund, mst_util_fees = PerSide l s, mst_lp_fees = lp\<rparr>))))"

definition cumulatives_of :: "raw_cumulatives \<Rightarrow> cumulatives" where
  "cumulatives_of c =
     \<lparr>cu_funding = Funding (rc_funding c), cu_funding_div_sqrt_p = FundingPerSqrtPrice (rc_funding_div_sqrt_p c),
      cu_util_payments = PerSide (Earnings (rc_long_util_payments c)) (Earnings (rc_short_util_payments c)),
      cu_util_earnings = PerSide (Earnings (rc_long_util_earnings c)) (Earnings (rc_short_util_earnings c))\<rparr>"

primrec event_of :: "raw_event \<Rightarrow> market_event result" where
  "event_of (RawMakerOpened p) = Inr (MakerOpened p)"
| "event_of (RawMakerAdjusted p st) = rbind (maker_settle_of st) (\<lambda>st. Inr (MakerAdjusted p st))"
| "event_of (RawMakerConverted p st) = rbind (maker_settle_of st) (\<lambda>st. Inr (MakerConverted p st 0 False))"
| "event_of (RawMakerClosed p st) = rbind (maker_settle_of st) (\<lambda>st. Inr (MakerClosed p st 0 False))"
| "event_of (RawMakerConvertedTailed p st fee liq) =
     rbind (maker_settle_of st) (\<lambda>st. rbind (u256_usdc fee) (\<lambda>fee. Inr (MakerConverted p st fee liq)))"
| "event_of (RawMakerClosedTailed p st fee liq) =
     rbind (maker_settle_of st) (\<lambda>st. rbind (u256_usdc fee) (\<lambda>fee. Inr (MakerClosed p st fee liq)))"
| "event_of (RawMakerLiquidated p l fee) = rbind (u256_usdc fee) (\<lambda>fee. Inr (MakerLiquidated p (LUnits l) fee))"
| "event_of (RawMakerBackstopped p m to st) =
     rbind (maker_settle_of st) (\<lambda>st. Inr (MakerBackstopped p (UsdcAtoms m) to st))"
| "event_of (RawTakerOpened p sr) = rbind (swap_info_of sr) (\<lambda>sw. Inr (TakerOpened p sw))"
| "event_of (RawTakerAdjusted p sr fund util) =
     rbind (swap_info_of sr) (\<lambda>sw. rbind (i256_usdc fund) (\<lambda>fund. rbind (u256_usdc util) (\<lambda>util.
     Inr (TakerAdjusted p sw fund util))))"
| "event_of (RawTakerClosed p sr fund util fee liq) =
     rbind (swap_info_of sr) (\<lambda>sw. rbind (i256_usdc fund) (\<lambda>fund. rbind (u256_usdc util) (\<lambda>util.
     rbind (u256_usdc fee) (\<lambda>fee. Inr (TakerClosed p sw fund util fee liq)))))"
| "event_of (RawTakerClosedUntailed p sr fund util) =
     rbind (swap_info_of sr) (\<lambda>sw. rbind (i256_usdc fund) (\<lambda>fund. rbind (u256_usdc util) (\<lambda>util.
     Inr (TakerClosed p sw fund util 0 False))))"
| "event_of (RawTakerLiquidated p a fee) = rbind (u256_usdc fee) (\<lambda>fee. Inr (TakerLiquidated p (PerpAtoms a) fee))"
| "event_of (RawTakerBackstopped p m to fund util) =
     rbind (i256_usdc fund) (\<lambda>fund. rbind (u256_usdc util) (\<lambda>util. Inr (TakerBackstopped p (UsdcAtoms m) to fund util)))"
| "event_of (RawCapacityUpdated l s) = Inr (CapacityUpdated (PerSide (PerpAtoms l) (PerpAtoms s)))"
| "event_of (RawOpenInterestUpdated l s) = Inr (OpenInterestUpdated (PerSide (PerpAtoms l) (PerpAtoms s)))"
| "event_of (RawCumulativesAccrued c) = Inr (CumulativesAccrued (cumulatives_of c))"
| "event_of (RawRatesAndEmasRefreshed f l s touch amm idx) =
     rbind (ok_or DecodeFailed (narrow_s f)) (\<lambda>f. Inr (RatesAndEmasRefreshed (FundingRate f)
       (PerSide (UtilizationRate l) (UtilizationRate s)) (ucast touch) (Price (ucast amm)) (Price (ucast idx))))"
| "event_of (RawTicksCrossed a b zfo) = Inr (TicksCrossed (sint a) (sint b) zfo)"
| "event_of (RawTickInitialized t a b) = Inr (TickInitialized (sint t) (Funding a) (FundingPerSqrtPrice b))"
| "event_of (RawTickDeleted t) = Inr (TickDeleted (sint t))"
| "event_of (RawDonated who a d i) = Inr (Donated who (UsdcAtoms a) (UsdcAtoms d) (UsdcAtoms (ucast i)))"
| "event_of (RawBadDebtAccounted d i a) =
     rbind (u256_usdc d) (\<lambda>d. rbind (u256_usdc i) (\<lambda>i. Inr (BadDebtAccounted d i (UsdcAtoms a))))"
| "event_of (RawLossSocialized o' f a) =
     rbind (u256_usdc o') (\<lambda>o'. rbind (u256_usdc f) (\<lambda>f. Inr (LossSocialized o' f (UsdcAtoms a))))"
| "event_of (RawMarginTransferred d t) = Inr (MarginTransferred (UsdcDelta d) (UsdcAtoms t))"
| "event_of (RawIndexUpdated i) = Inr (IndexUpdated (Price i))"
| "event_of (RawInitialize pool s t) = Inr (PoolInitialized pool (SqrtPrice (ucast s)) (sint t))"
| "event_of (RawSwap pool who s l t) = Inr (PoolSwapped pool who (SqrtPrice (ucast s)) (LUnits l) (sint t))"
| "event_of (RawModifyLiquidity pool who lo up d salt) =
     rbind (ok_or DecodeFailed (narrow_s d)) (\<lambda>d. Inr (ModifyLiquidity pool who (sint lo) (sint up) (LDelta d) salt))"
| "event_of (RawTransfer a b p) = Inr (PositionTransferred a b p)"
| "event_of (RawSetModule k a) = Inr (ModuleSet k a)"

text \<open>
  A log as the decoder sees it: its topics, and what alloy makes of them, either nothing this vocabulary names, a
  shape that will not decode, or a raw event. The flag says whether the topic is \<open>Transfer\<close>'s, which the arity decides.
\<close>

record raw_log =
  rl_topics :: nat
  rl_is_transfer :: bool
  rl_decoded :: "unit + raw_event"
  rl_known :: bool

definition ERC20_TRANSFER_TOPICS :: nat where "ERC20_TRANSFER_TOPICS = 3"

definition decode_log :: "raw_log \<Rightarrow> market_event option result" where
  "decode_log l =
     (if rl_topics l = 0 \<or> \<not> rl_known l then Inr None
      else if rl_is_transfer l \<and> rl_topics l = ERC20_TRANSFER_TOPICS then Inr None
      else case rl_decoded l of
        Inl _ \<Rightarrow> Inl DecodeFailed
      | Inr raw \<Rightarrow> result_map Some (event_of raw))"

subsection \<open>What decoding promises\<close>

text \<open>The two halves of a packed balance delta come back as packed, the low one's sign not reaching the high one.\<close>

lemma unpack_balance_delta_packed:
  "unpack_balance_delta (word_cat (a :: i128) (b :: i128)) = (a, b)"
proof -
  have "ucast (drop_bit 128 (word_cat a b :: i256)) = a"
    by (rule bit_word_eqI) (simp add: bit_simps word_size)
  moreover have "ucast ((word_cat a b :: i256) AND ucast (- 1 :: u128)) = b"
    by (rule bit_word_eqI) (simp add: bit_simps word_size)
  ultimately show ?thesis by (simp add: unpack_balance_delta_def)
qed

text \<open>A value is decoded exactly or not at all: nothing is truncated.\<close>

lemma usdc_words_exact:
  "i256_usdc v = Inr d \<longleftrightarrow> sint (usdc_d d) = sint v"
  "u256_usdc w = Inr a \<longleftrightarrow> uint (usdc a) = uint w"
  by (cases d; auto simp: i256_usdc_def result_simps narrow_s_Some)
    (cases a; auto simp: u256_usdc_def result_simps narrow_Some)

text \<open>Decoding fails in one way only, and every event without a word to narrow decodes.\<close>

lemma decode_fails_only: "decode_log l = Inl e \<Longrightarrow> e = DecodeFailed"
proof -
  have w: "i256_usdc v = Inl e \<Longrightarrow> e = DecodeFailed" "u256_usdc u = Inl e \<Longrightarrow> e = DecodeFailed" for v u
    by (auto simp: i256_usdc_def u256_usdc_def ok_or_def split: option.splits)
  have s: "swap_info_of sr = Inl e \<Longrightarrow> e = DecodeFailed" for sr
    using w by (auto simp: swap_info_of_def Let_def rbind_def split: sum.splits prod.splits)
  have m: "maker_settle_of r = Inl e \<Longrightarrow> e = DecodeFailed" for r
    using w by (auto simp: maker_settle_of_def rbind_def split: sum.splits)
  have "event_of raw = Inl e \<Longrightarrow> e = DecodeFailed" for raw
    using w s m by (cases raw) (auto simp: rbind_def ok_or_def split: sum.splits option.splits)
  then show "decode_log l = Inl e \<Longrightarrow> e = DecodeFailed"
    by (auto simp: decode_log_def result_map_def rbind_def split: if_splits sum.splits)
qed

end
