(* ===== verification/Market_Fold.thy ===== *)
theory Market_Fold
  imports Market_Events Point_Process
begin

text \<open>
  \<open>src/src/history/replay/market.rs\<close> and \<open>pool.rs\<close>: the totals a market emits and the pool's liquidity by tick, each a
  fold over the market's events. Every one of them provides the segment law of \<open>Chain_Fold\<close>.
\<close>

subsection \<open>The code: prices, rates, utilization\<close>

record market_prices =
  mp_pool :: "price series"
  mp_index :: "price series"
  mp_emas :: "emas latest"

definition prices_default :: market_prices where
  "prices_default = \<lparr>mp_pool = series_default, mp_index = series_default, mp_emas = latest_default\<rparr>"

definition prices_seeded :: "unit sample \<Rightarrow> price \<Rightarrow> price \<Rightarrow> emas \<Rightarrow> market_prices" where
  "prices_seeded p pool index em =
     \<lparr>mp_pool = series_stated (sample_with p pool), mp_index = series_stated (sample_with p index), mp_emas = latest_stated em\<rparr>"

definition prices_retain :: "retention \<Rightarrow> market_prices \<Rightarrow> market_prices" where
  "prices_retain r p = p\<lparr>mp_pool := series_retain r (mp_pool p), mp_index := series_retain r (mp_index p)\<rparr>"

definition prices_advance :: "unit sample \<Rightarrow> market_prices \<Rightarrow> market_prices" where
  "prices_advance u p = p\<lparr>mp_pool := series_advance u (mp_pool p), mp_index := series_advance u (mp_index p)\<rparr>"

definition mark_at :: "market_prices \<Rightarrow> block_context \<Rightarrow> u64 \<Rightarrow> mark option result" where
  "mark_at p block ema_window =
     (case (series_value (mp_pool p), series_value (mp_index p), latest_get (mp_emas p)) of
        (Some pool, Some index, Some em) \<Rightarrow>
          rbind (emas_pair em) (\<lambda>pair.
          result_map Some (mark_advanced block pool index pair (emas_last_touch em) ema_window))
      | _ \<Rightarrow> Inr None)"

definition push_pool :: "tape_event \<Rightarrow> price \<Rightarrow> market_prices \<Rightarrow> market_prices" where
  "push_pool e v p = p\<lparr>mp_pool := snd (series_push (te_sample e v) (mp_pool p))\<rparr>"

definition prices_apply :: "market_prices \<Rightarrow> tape_event \<Rightarrow> market_prices" where
  "prices_apply p e = prices_advance (te_sample e ()) (case te_event e of
      TakerOpened _ sw \<Rightarrow> push_pool e (si_pool_price sw) p
    | TakerAdjusted _ sw _ _ \<Rightarrow> push_pool e (si_pool_price sw) p
    | TakerClosed _ sw _ _ _ _ \<Rightarrow> push_pool e (si_pool_price sw) p
    | IndexUpdated index \<Rightarrow> p\<lparr>mp_index := snd (series_push (te_sample e index) (mp_index p))\<rparr>
    | RatesAndEmasRefreshed _ _ touch pool_ema index_ema \<Rightarrow>
        p\<lparr>mp_emas := latest_set \<lparr>emas_amm_price = pool_ema, emas_index = index_ema, emas_last_touch = touch\<rparr> (mp_emas p)\<rparr>
    | _ \<Rightarrow> p)"

definition prices_combine :: "market_prices \<Rightarrow> market_prices \<Rightarrow> market_prices" where
  "prices_combine p later =
     \<lparr>mp_pool = series_combine (mp_pool p) (mp_pool later), mp_index = series_combine (mp_index p) (mp_index later),
      mp_emas = latest_combine (mp_emas p) (mp_emas later)\<rparr>"

record market_rates =
  mr_funding_per_day :: "funding_rate latest"
  mr_util_fee_per_day :: "utilization_rate per_side latest"
  mr_cumulatives :: "cumulatives latest"

definition rates_default :: market_rates where
  "rates_default = \<lparr>mr_funding_per_day = latest_default, mr_util_fee_per_day = latest_default, mr_cumulatives = latest_default\<rparr>"

definition rates_seeded :: "funding_rate \<Rightarrow> utilization_rate per_side \<Rightarrow> cumulatives \<Rightarrow> market_rates" where
  "rates_seeded f u c =
     \<lparr>mr_funding_per_day = latest_stated f, mr_util_fee_per_day = latest_stated u, mr_cumulatives = latest_stated c\<rparr>"

definition rates_apply :: "market_rates \<Rightarrow> tape_event \<Rightarrow> market_rates" where
  "rates_apply r e = (case te_event e of
      RatesAndEmasRefreshed f u _ _ _ \<Rightarrow>
        r\<lparr>mr_funding_per_day := latest_set f (mr_funding_per_day r), mr_util_fee_per_day := latest_set u (mr_util_fee_per_day r)\<rparr>
    | CumulativesAccrued c \<Rightarrow> r\<lparr>mr_cumulatives := latest_set c (mr_cumulatives r)\<rparr>
    | _ \<Rightarrow> r)"

definition rates_combine :: "market_rates \<Rightarrow> market_rates \<Rightarrow> market_rates" where
  "rates_combine r later =
     \<lparr>mr_funding_per_day = latest_combine (mr_funding_per_day r) (mr_funding_per_day later),
      mr_util_fee_per_day = latest_combine (mr_util_fee_per_day r) (mr_util_fee_per_day later),
      mr_cumulatives = latest_combine (mr_cumulatives r) (mr_cumulatives later)\<rparr>"

record utilization =
  ut_capacity :: "capacity series"
  ut_open_interest :: "perp_atoms per_side series"

definition utilization_default :: utilization where
  "utilization_default = \<lparr>ut_capacity = series_default, ut_open_interest = series_default\<rparr>"

definition utilization_genesis :: utilization where
  "utilization_genesis =
     \<lparr>ut_capacity = series_stated (sample_origin (PerSide 0 0)), ut_open_interest = series_stated (sample_origin (PerSide 0 0))\<rparr>"

definition utilization_seeded :: "unit sample \<Rightarrow> market_capacity \<Rightarrow> utilization" where
  "utilization_seeded p m =
     \<lparr>ut_capacity = series_stated (sample_with p (mc_capacity m)),
      ut_open_interest = series_stated (sample_with p (mc_open_interest m))\<rparr>"

definition utilization_retain :: "retention \<Rightarrow> utilization \<Rightarrow> utilization" where
  "utilization_retain r u =
     u\<lparr>ut_capacity := series_retain r (ut_capacity u), ut_open_interest := series_retain r (ut_open_interest u)\<rparr>"

definition utilization_advance :: "unit sample \<Rightarrow> utilization \<Rightarrow> utilization" where
  "utilization_advance p u =
     u\<lparr>ut_capacity := series_advance p (ut_capacity u), ut_open_interest := series_advance p (ut_open_interest u)\<rparr>"

definition utilization_at :: "utilization \<Rightarrow> block_context \<Rightarrow> market_capacity option" where
  "utilization_at u block = (case (series_value (ut_capacity u), series_value (ut_open_interest u)) of
      (Some c, Some oi) \<Rightarrow> Some \<lparr>mc_block = block, mc_capacity = c, mc_open_interest = oi\<rparr>
    | _ \<Rightarrow> None)"

definition utilization_apply :: "utilization \<Rightarrow> tape_event \<Rightarrow> utilization" where
  "utilization_apply u e = utilization_advance (te_sample e ()) (case te_event e of
      CapacityUpdated c \<Rightarrow> u\<lparr>ut_capacity := snd (series_push (te_sample e c) (ut_capacity u))\<rparr>
    | OpenInterestUpdated oi \<Rightarrow> u\<lparr>ut_open_interest := snd (series_push (te_sample e oi) (ut_open_interest u))\<rparr>
    | _ \<Rightarrow> u)"

definition utilization_combine :: "utilization \<Rightarrow> utilization \<Rightarrow> utilization" where
  "utilization_combine u later =
     \<lparr>ut_capacity = series_combine (ut_capacity u) (ut_capacity later),
      ut_open_interest = series_combine (ut_open_interest u) (ut_open_interest later)\<rparr>"

subsection \<open>The code: the modules in force\<close>

text \<open>The array of six, by the index of a kind.\<close>

type_synonym modules = "account latest list"

fun module_index :: "module_kind \<Rightarrow> nat" where
  "module_index BeaconModule = 0"
| "module_index FeesModule = 1"
| "module_index FundingModule = 2"
| "module_index MarginRatiosModule = 3"
| "module_index PriceImpactModule = 4"
| "module_index PricingModule = 5"

definition modules_default :: modules where
  "modules_default = replicate 6 latest_default"

definition module_get :: "modules \<Rightarrow> module_kind \<Rightarrow> account option" where
  "module_get m k = latest_get (m ! module_index k)"

definition modules_apply :: "modules \<Rightarrow> tape_event \<Rightarrow> modules" where
  "modules_apply m e = (case te_event e of
      ModuleSet k a \<Rightarrow> m[module_index k := latest_set a (m ! module_index k)] | _ \<Rightarrow> m)"

definition modules_combine :: "modules \<Rightarrow> modules \<Rightarrow> modules" where
  "modules_combine m later = map2 latest_combine m later"

definition modules_seeded :: "account \<Rightarrow> account \<Rightarrow> account \<Rightarrow> account \<Rightarrow> account \<Rightarrow> account \<Rightarrow> modules" where
  "modules_seeded b f fu mr imp pr =
     fold (\<lambda>(k, a) m. m[module_index k := latest_set a (m ! module_index k)])
       [(BeaconModule, b), (FeesModule, f), (FundingModule, fu), (MarginRatiosModule, mr), (PriceImpactModule, imp), (PricingModule, pr)]
       modules_default"

subsection \<open>The code: the pool by tick\<close>

record tick_sums =
  tks_net :: i128
  tks_gross :: i128

definition sums_add :: "tick_sums \<Rightarrow> i128 \<Rightarrow> i128 \<Rightarrow> tick_sums" where
  "sums_add s n g = \<lparr>tks_net = tks_net s + n, tks_gross = tks_gross s + g\<rparr>"

definition sums_zero :: "tick_sums \<Rightarrow> bool" where
  "sums_zero s \<longleftrightarrow> tks_net s = 0 \<and> tks_gross s = 0"

record pool_fold =
  pf_ticks :: "(i32, tick_sums) omap"
  pf_tick :: "i32 latest"
  pf_whole :: bool

definition pool_fold_default :: pool_fold where
  "pool_fold_default = \<lparr>pf_ticks = [], pf_tick = latest_default, pf_whole = False\<rparr>"

definition pool_fold_genesis :: pool_fold where
  "pool_fold_genesis = pool_fold_default\<lparr>pf_whole := True\<rparr>"

definition pool_fold_seeded :: "(i32, tick_liquidity) omap \<Rightarrow> i32 \<Rightarrow> pool_fold result" where
  "pool_fold_seeded ticks t =
     (if list_all (\<lambda>(_, l). uint (l_units (gross l)) < 2 ^ 127) ticks
      then Inr \<lparr>pf_ticks = map (\<lambda>(k, l). (k, \<lparr>tks_net = l_delta (net l), tks_gross = l_units (gross l)\<rparr>)) ticks,
                pf_tick = latest_stated t, pf_whole = True\<rparr>
      else Inl Overflow)"

definition pool_fold_ticks :: "pool_fold \<Rightarrow> (i32, tick_liquidity) omap option" where
  "pool_fold_ticks p =
     (if \<not> pf_whole p then None
      else if list_all (\<lambda>(_, s). 0 \<le> sint (tks_gross s)) (pf_ticks p)
      then Some (map (\<lambda>(k, s). (k, \<lparr>gross = LUnits (tks_gross s), net = LDelta (tks_net s)\<rparr>)) (pf_ticks p))
      else None)"

definition pool_fold_liquidity :: "pool_fold \<Rightarrow> l_units option" where
  "pool_fold_liquidity p =
     (if \<not> pf_whole p then None
      else case latest_get (pf_tick p) of
        None \<Rightarrow> None
      | Some t \<Rightarrow>
          let active = foldl (\<lambda>a e. a + tks_net (snd e)) 0 (filter (\<lambda>e. fst e \<le> t) (pf_ticks p))
          in if 0 \<le> sint active then Some (LUnits active) else None)"

definition changed :: "i32 \<Rightarrow> i128 \<Rightarrow> i128 \<Rightarrow> (i32, tick_sums) omap \<Rightarrow> (i32, tick_sums) omap" where
  "changed t n g ticks =
     (let s = sums_add (case map_of ticks t of None \<Rightarrow> \<lparr>tks_net = 0, tks_gross = 0\<rparr> | Some s \<Rightarrow> s) n g
      in if sums_zero s then om_del t (om_put t s ticks) else om_put t s ticks)"

definition pool_fold_apply :: "pool_fold \<Rightarrow> tape_event \<Rightarrow> pool_fold" where
  "pool_fold_apply p e = (case te_event e of
      ModifyLiquidity _ _ lo up d _ \<Rightarrow>
        p\<lparr>pf_ticks := changed up (- l_delta d) (l_delta d) (changed lo (l_delta d) (l_delta d) (pf_ticks p))\<rparr>
    | TicksCrossed _ ending _ \<Rightarrow> p\<lparr>pf_tick := latest_set ending (pf_tick p)\<rparr>
    | _ \<Rightarrow> p)"

definition pool_fold_combine :: "pool_fold \<Rightarrow> pool_fold \<Rightarrow> pool_fold" where
  "pool_fold_combine p later =
     p\<lparr>pf_ticks := foldl (\<lambda>m (t, s). changed t (tks_net s) (tks_gross s) m) (pf_ticks p) (pf_ticks later),
       pf_tick := latest_combine (pf_tick p) (pf_tick later)\<rparr>"

subsection \<open>Prices, rates and utilization keep the law\<close>

text \<open>What an event states for each field.\<close>

definition pool_statement :: "market_event \<Rightarrow> price option" where
  "pool_statement ev = (case ev of
      TakerOpened _ sw \<Rightarrow> Some (si_pool_price sw) | TakerAdjusted _ sw _ _ \<Rightarrow> Some (si_pool_price sw)
    | TakerClosed _ sw _ _ _ _ \<Rightarrow> Some (si_pool_price sw) | _ \<Rightarrow> None)"

definition index_statement :: "market_event \<Rightarrow> price option" where
  "index_statement ev = (case ev of IndexUpdated i \<Rightarrow> Some i | _ \<Rightarrow> None)"

definition emas_statement :: "market_event \<Rightarrow> emas option" where
  "emas_statement ev = (case ev of
      RatesAndEmasRefreshed _ _ touch a i \<Rightarrow> Some \<lparr>emas_amm_price = a, emas_index = i, emas_last_touch = touch\<rparr> | _ \<Rightarrow> None)"

abbreviation stating_event :: "(market_event \<Rightarrow> 'a option) \<Rightarrow> tape_event \<Rightarrow> 'a option sample" where
  "stating_event f e \<equiv> te_sample e (f (te_event e))"

lemma prices_apply_fields:
  "mp_pool (prices_apply p e) = series_step (mp_pool p) (stating_event pool_statement e)"
  "mp_index (prices_apply p e) = series_step (mp_index p) (stating_event index_statement e)"
  "mp_emas (prices_apply p e) = latest_step (mp_emas p) (emas_statement (te_event e))"
  by (cases "te_event e"; simp add: prices_apply_def prices_advance_def push_pool_def series_step_def latest_step_def
      pool_statement_def index_statement_def emas_statement_def)+

lemma prices_fold_fields:
  "mp_pool (foldl prices_apply p b) = foldl series_step (mp_pool p) (map (stating_event pool_statement) b)"
  "mp_index (foldl prices_apply p b) = foldl series_step (mp_index p) (map (stating_event index_statement) b)"
  "mp_emas (foldl prices_apply p b) = foldl latest_step (mp_emas p) (map (\<lambda>e. emas_statement (te_event e)) b)"
  by (rule foldl_field, rule prices_apply_fields)+

definition prices_follow :: "market_prices \<Rightarrow> tape_event list \<Rightarrow> bool" where
  "prices_follow p b \<longleftrightarrow> series_follows (mp_pool p) (map (stating_event pool_statement) b)
     \<and> series_follows (mp_index p) (map (stating_event index_statement) b)"

lemmas prices_fields = prices_fold_fields prices_apply_fields prices_default_def prices_combine_def prices_follow_def

interpretation prices: point_fold prices_default prices_apply prices_combine prices_follow te_point
proof
  fix p b e
  show "prices_follow p b" if "prices_follow p (b @ [e])"
    using that series_follows_prefix by (auto simp: prices_follow_def)
  show "prices_combine p prices_default = p" if "prices_follow p []"
    using that series.combine_init[of "mp_pool p"] series.combine_init[of "mp_index p"] latest.combine_init[of "mp_emas p"]
    by (simp add: prices_fields)
  show "prices_combine p (prices_apply (foldl prices_apply prices_default b) e)
      = prices_apply (prices_combine p (foldl prices_apply prices_default b)) e" if "prices_follow p (b @ [e])"
    using that series.combine_apply[of "mp_pool p" "map (stating_event pool_statement) b" "stating_event pool_statement e"]
      series.combine_apply[of "mp_index p" "map (stating_event index_statement) b" "stating_event index_statement e"]
      latest.combine_apply[of "mp_emas p" "map (\<lambda>e. emas_statement (te_event e)) b" "emas_statement (te_event e)"]
    by (intro market_prices.equality) (simp_all add: prices_fields)
qed

definition capacity_statement :: "market_event \<Rightarrow> capacity option" where
  "capacity_statement ev = (case ev of CapacityUpdated c \<Rightarrow> Some c | _ \<Rightarrow> None)"

definition interest_statement :: "market_event \<Rightarrow> perp_atoms per_side option" where
  "interest_statement ev = (case ev of OpenInterestUpdated c \<Rightarrow> Some c | _ \<Rightarrow> None)"

lemma utilization_apply_fields:
  "ut_capacity (utilization_apply u e) = series_step (ut_capacity u) (stating_event capacity_statement e)"
  "ut_open_interest (utilization_apply u e) = series_step (ut_open_interest u) (stating_event interest_statement e)"
  by (cases "te_event e"; simp add: utilization_apply_def utilization_advance_def series_step_def
      capacity_statement_def interest_statement_def)+

lemma utilization_fold_fields:
  "ut_capacity (foldl utilization_apply u b) = foldl series_step (ut_capacity u) (map (stating_event capacity_statement) b)"
  "ut_open_interest (foldl utilization_apply u b) = foldl series_step (ut_open_interest u) (map (stating_event interest_statement) b)"
  by (rule foldl_field, rule utilization_apply_fields)+

definition utilization_follows :: "utilization \<Rightarrow> tape_event list \<Rightarrow> bool" where
  "utilization_follows u b \<longleftrightarrow> series_follows (ut_capacity u) (map (stating_event capacity_statement) b)
     \<and> series_follows (ut_open_interest u) (map (stating_event interest_statement) b)"

lemmas utilization_fields = utilization_fold_fields utilization_apply_fields utilization_default_def
  utilization_combine_def utilization_follows_def

interpretation utilization: point_fold utilization_default utilization_apply utilization_combine utilization_follows te_point
proof
  fix u b e
  show "utilization_follows u b" if "utilization_follows u (b @ [e])"
    using that series_follows_prefix by (auto simp: utilization_follows_def)
  show "utilization_combine u utilization_default = u" if "utilization_follows u []"
    using that series.combine_init[of "ut_capacity u"] series.combine_init[of "ut_open_interest u"]
    by (simp add: utilization_fields)
  show "utilization_combine u (utilization_apply (foldl utilization_apply utilization_default b) e)
      = utilization_apply (utilization_combine u (foldl utilization_apply utilization_default b)) e"
    if "utilization_follows u (b @ [e])"
    using that series.combine_apply[of "ut_capacity u" "map (stating_event capacity_statement) b" "stating_event capacity_statement e"]
      series.combine_apply[of "ut_open_interest u" "map (stating_event interest_statement) b" "stating_event interest_statement e"]
    by (intro utilization.equality) (simp_all add: utilization_fields)
qed

definition refresh_statement :: "market_event \<Rightarrow> (funding_rate \<times> utilization_rate per_side) option" where
  "refresh_statement ev = (case ev of RatesAndEmasRefreshed f u _ _ _ \<Rightarrow> Some (f, u) | _ \<Rightarrow> None)"

definition accrual_statement :: "market_event \<Rightarrow> cumulatives option" where
  "accrual_statement ev = (case ev of CumulativesAccrued c \<Rightarrow> Some c | _ \<Rightarrow> None)"

lemma rates_apply_fields:
  "mr_funding_per_day (rates_apply r e) = latest_step (mr_funding_per_day r) (map_option fst (refresh_statement (te_event e)))"
  "mr_util_fee_per_day (rates_apply r e) = latest_step (mr_util_fee_per_day r) (map_option snd (refresh_statement (te_event e)))"
  "mr_cumulatives (rates_apply r e) = latest_step (mr_cumulatives r) (accrual_statement (te_event e))"
  by (cases "te_event e"; simp add: rates_apply_def latest_step_def refresh_statement_def accrual_statement_def)+

lemma rates_fold_fields:
  "mr_funding_per_day (foldl rates_apply r b) = foldl latest_step (mr_funding_per_day r) (map (\<lambda>e. map_option fst (refresh_statement (te_event e))) b)"
  "mr_util_fee_per_day (foldl rates_apply r b) = foldl latest_step (mr_util_fee_per_day r) (map (\<lambda>e. map_option snd (refresh_statement (te_event e))) b)"
  "mr_cumulatives (foldl rates_apply r b) = foldl latest_step (mr_cumulatives r) (map (\<lambda>e. accrual_statement (te_event e)) b)"
  by (rule foldl_field, rule rates_apply_fields)+

lemmas rates_fields = rates_fold_fields rates_apply_fields rates_default_def rates_combine_def

interpretation rates: point_fold rates_default rates_apply rates_combine anywhere te_point
proof
  fix r b e
  show "rates_combine r rates_default = r" by (simp add: rates_combine_def rates_default_def shape_defs)
  show "rates_combine r (rates_apply (foldl rates_apply rates_default b) e) = rates_apply (rates_combine r (foldl rates_apply rates_default b)) e"
    by (intro market_rates.equality) (simp_all add: rates_fields latest.combine_apply)
qed simp

lemma module_index_less [simp]: "module_index k < 6"
  by (cases k) simp_all

interpretation modules: point_fold modules_default modules_apply modules_combine "\<lambda>m b. length m = 6" te_point
proof
  fix m :: modules and b e
  have len: "length (foldl modules_apply modules_default b) = 6"
    by (induction b rule: rev_induct) (simp_all add: modules_default_def modules_apply_def split: market_event.split)
  show "modules_combine m modules_default = m" if "length m = 6"
    using that by (auto simp: modules_combine_def modules_default_def shape_defs intro!: nth_equalityI)
  show "modules_combine m (modules_apply (foldl modules_apply modules_default b) e)
      = modules_apply (modules_combine m (foldl modules_apply modules_default b)) e" if "length m = 6"
  proof (cases "te_event e")
    case (ModuleSet k a)
    then show ?thesis using that len
      by (auto simp: modules_apply_def modules_combine_def shape_defs nth_list_update intro!: nth_equalityI)
  qed (simp_all add: modules_apply_def)
qed

subsection \<open>The pool keeps the law\<close>

text \<open>The two sums at a tick; an absent tick is two zeros, and no present one is.\<close>

definition net_sum :: "(i32, tick_sums) omap \<Rightarrow> i32 \<Rightarrow> i128" where
  "net_sum m t = (case map_of m t of None \<Rightarrow> 0 | Some s \<Rightarrow> tks_net s)"

definition gross_sum :: "(i32, tick_sums) omap \<Rightarrow> i32 \<Rightarrow> i128" where
  "gross_sum m t = (case map_of m t of None \<Rightarrow> 0 | Some s \<Rightarrow> tks_gross s)"

definition sums_ok :: "(i32, tick_sums) omap \<Rightarrow> bool" where
  "sums_ok m \<longleftrightarrow> om_ok m \<and> (\<forall>t s. map_of m t = Some s \<longrightarrow> \<not> sums_zero s)"

lemma changed_at:
  assumes "om_ok m"
  shows "net_sum (changed t n g m) u = net_sum m u + (if u = t then n else 0)"
    and "gross_sum (changed t n g m) u = gross_sum m u + (if u = t then g else 0)"
  using assms
  by (cases "map_of m t"; auto simp: changed_def Let_def net_sum_def gross_sum_def sums_add_def sums_zero_def
      map_of_om_put map_of_om_del)+

lemma changed_ok: "sums_ok m \<Longrightarrow> sums_ok (changed t n g m)"
  by (auto simp: changed_def Let_def sums_ok_def om.ok_put om.ok_del map_of_om_put map_of_om_del)

lemma sums_eqI:
  assumes "sums_ok m" "sums_ok m'" "\<And>t. net_sum m t = net_sum m' t" "\<And>t. gross_sum m t = gross_sum m' t"
  shows "m = m'"
proof (rule omap_eqI)
  show "map_of m = map_of m'"
  proof
    fix t
    show "map_of m t = map_of m' t"
      using assms(1,2) assms(3,4)[of t]
      by (cases "map_of m t"; cases "map_of m' t")
        (auto simp: sums_ok_def net_sum_def gross_sum_def sums_zero_def intro: tick_sums.equality)
  qed
qed (use assms in \<open>simp_all add: sums_ok_def\<close>)

abbreviation merge_ticks :: "(i32, tick_sums) omap \<Rightarrow> (i32, tick_sums) omap \<Rightarrow> (i32, tick_sums) omap" where
  "merge_ticks \<equiv> foldl (\<lambda>m (t, s). changed t (tks_net s) (tks_gross s) m)"

lemma merge_ok: "sums_ok m \<Longrightarrow> sums_ok (merge_ticks m l)"
  by (induction l arbitrary: m) (auto simp: changed_ok)

lemma merge_at:
  assumes "sums_ok m" "om_ok l"
  shows "net_sum (merge_ticks m l) u = net_sum m u + net_sum l u" "gross_sum (merge_ticks m l) u = gross_sum m u + gross_sum l u"
proof -
  have "net_sum (merge_ticks m l) u = net_sum m u + net_sum l u \<and> gross_sum (merge_ticks m l) u = gross_sum m u + gross_sum l u"
    using assms
  proof (induction l arbitrary: m)
    case (Cons e l)
    obtain t s where e: "e = (t, s)" by force
    have om: "om_ok m" "om_ok l" and t: "map_of l t = None"
      using Cons.prems by (force simp: e om_ok_def sums_ok_def map_of_eq_None_iff)+
    have "net_sum (merge_ticks m (e # l)) u = net_sum (changed t (tks_net s) (tks_gross s) m) u + net_sum l u
        \<and> gross_sum (merge_ticks m (e # l)) u = gross_sum (changed t (tks_net s) (tks_gross s) m) u + gross_sum l u"
      using Cons.IH[OF changed_ok[OF Cons.prems(1)] om(2)] by (simp add: e)
    then show ?case using t by (auto simp: e changed_at[OF om(1)] net_sum_def[of "_ # _"] gross_sum_def[of "_ # _"] net_sum_def[of l] gross_sum_def[of l])
  qed (simp add: net_sum_def gross_sum_def)
  then show "net_sum (merge_ticks m l) u = net_sum m u + net_sum l u" "gross_sum (merge_ticks m l) u = gross_sum m u + gross_sum l u"
    by blast+
qed

definition pool_fold_follows :: "pool_fold \<Rightarrow> tape_event list \<Rightarrow> bool" where
  "pool_fold_follows p b \<longleftrightarrow> sums_ok (pf_ticks p)"

lemma pool_fold_apply_ok: "sums_ok (pf_ticks p) \<Longrightarrow> sums_ok (pf_ticks (pool_fold_apply p e))"
  by (cases "te_event e") (simp_all add: pool_fold_apply_def changed_ok)

lemma pool_fold_run_ok: "sums_ok (pf_ticks p) \<Longrightarrow> sums_ok (pf_ticks (foldl pool_fold_apply p b))"
  by (induction b arbitrary: p) (simp_all add: pool_fold_apply_ok)

lemma sums_ok_empty: "sums_ok []"
  by (simp add: sums_ok_def om_ok_def)

interpretation pool_fold: point_fold pool_fold_default pool_fold_apply pool_fold_combine pool_fold_follows te_point
proof
  fix p b e
  show "pool_fold_follows p b" if "pool_fold_follows p (b @ [e])" using that by (simp add: pool_fold_follows_def)
  show "pool_fold_combine p pool_fold_default = p" if "pool_fold_follows p []"
    by (simp add: pool_fold_combine_def pool_fold_default_def shape_defs)
  show "pool_fold_combine p (pool_fold_apply (foldl pool_fold_apply pool_fold_default b) e)
      = pool_fold_apply (pool_fold_combine p (foldl pool_fold_apply pool_fold_default b)) e"
    if f: "pool_fold_follows p (b @ [e])"
  proof -
    let ?t = "foldl pool_fold_apply pool_fold_default b"
    have ok: "sums_ok (pf_ticks p)" "sums_ok (pf_ticks ?t)"
      using f pool_fold_run_ok[of pool_fold_default b] by (simp_all add: pool_fold_follows_def pool_fold_default_def sums_ok_empty)
    have om: "om_ok m" if "sums_ok m" for m using that by (simp add: sums_ok_def)
    have "merge_ticks (pf_ticks p) (changed t n g (changed t' n' g' (pf_ticks ?t)))
        = changed t n g (changed t' n' g' (merge_ticks (pf_ticks p) (pf_ticks ?t)))" for t n g t' n' g'
      using ok by (intro sums_eqI) (simp_all add: merge_ok changed_ok om merge_at changed_at add.assoc)
    then show ?thesis
      by (cases "te_event e") (simp_all add: pool_fold_apply_def pool_fold_combine_def shape_defs)
  qed
qed

subsection \<open>The replayed pool is the simulated one\<close>

definition as_sums :: "(i32, tick_liquidity) omap \<Rightarrow> (i32, tick_sums) omap" where
  "as_sums ticks = map (\<lambda>(k, l). (k, \<lparr>tks_net = l_delta (net l), tks_gross = l_units (gross l)\<rparr>)) ticks"

lemma map_of_as_sums:
  "map_of (as_sums ticks) k = map_option (\<lambda>l. \<lparr>tks_net = l_delta (net l), tks_gross = l_units (gross l)\<rparr>) (map_of ticks k)"
  by (induction ticks) (auto simp: as_sums_def)

lemma net_as_sums: "net_sum (as_sums m) u = (case map_of m u of None \<Rightarrow> 0 | Some l \<Rightarrow> l_delta (net l))"
  and gross_as_sums: "gross_sum (as_sums m) u = (case map_of m u of None \<Rightarrow> 0 | Some l \<Rightarrow> l_units (gross l))"
  by (cases "map_of m u"; simp add: net_sum_def gross_sum_def map_of_as_sums)+

lemma om_ok_as_sums: "om_ok (as_sums ticks) = om_ok ticks"
  by (simp add: om_ok_def as_sums_def case_prod_unfold comp_def)

lemma sint_small: "uint w < 2 ^ 127 \<Longrightarrow> 0 \<le> sint w" for w :: u128
  using sint_eq_uintI[of w] by simp

lemma sint_large: "\<not> uint w < 2 ^ 127 \<Longrightarrow> sint w < 0" for w :: u128
  using uint_lt2p[of w] by (simp add: sint_cases)

text \<open>The fold reads its map back as the pool's while every gross fits a signed word, and not at all once one does not.\<close>

lemma pool_fold_ticks_as_sums:
  assumes "pf_whole p" "pf_ticks p = as_sums ticks"
  shows "pool_fold_ticks p = (if \<forall>(k, l) \<in> set ticks. uint (l_units (gross l)) < 2 ^ 127 then Some ticks else None)"
proof -
  have "\<lparr>gross = gross l, net = net l\<rparr> = l" for l :: tick_liquidity by simp
  then have "map (\<lambda>x. (fst x, \<lparr>gross = gross (snd x), net = net (snd x)\<rparr>)) ticks = ticks" by (intro map_idI) auto
  moreover have "0 \<le> sint w \<longleftrightarrow> uint w < 2 ^ 127" for w :: u128 using sint_small[of w] sint_large[of w] by linarith
  ultimately show ?thesis using assms
    by (simp add: pool_fold_ticks_def as_sums_def list_all_iff case_prod_unfold comp_def del: sint_0)
qed

text \<open>Seeding from the pool read and reading it back.\<close>

lemma pool_fold_seeded_read:
  assumes "pool_fold_seeded ticks t = Inr p"
  shows "pool_fold_ticks p = Some ticks" and "latest_get (pf_tick p) = Some t" and "pf_ticks p = as_sums ticks" and "pf_whole p"
proof -
  have small: "\<forall>(k, l) \<in> set ticks. uint (l_units (gross l)) < 2 ^ 127"
    and p: "p = \<lparr>pf_ticks = as_sums ticks, pf_tick = latest_stated t, pf_whole = True\<rparr>"
    using assms by (auto simp: pool_fold_seeded_def as_sums_def list_all_iff split: if_splits)
  show "pool_fold_ticks p = Some ticks" using small pool_fold_ticks_as_sums[of p ticks] by (simp add: p)
  show "latest_get (pf_tick p) = Some t" "pf_ticks p = as_sums ticks" "pf_whole p" by (simp_all add: p shape_defs)
qed

lemma word_of_int_sint_id: "word_of_int (sint w) = w" for w :: i128
  by (simp add: of_int_sint)

lemma sint_uminusI: "sint a = - sint b \<Longrightarrow> a = - b" for a b :: i128
proof -
  assume "sint a = - sint b"
  then have "word_of_int (sint a) = (word_of_int (- sint b) :: i128)" by (rule arg_cong)
  then show "a = - b" by (simp only: word_of_int_sint_id wi_hom_neg[symmetric])
qed

text \<open>One tick's change, as the simulation makes it and as the fold does.\<close>

lemma apply_tick_delta_words:
  assumes "apply_tick_delta ticks t nd gd = Inr ticks'"
  obtains n g where "l_delta n = net_sum (as_sums ticks) t + l_delta nd" "l_units g = gross_sum (as_sums ticks) t + l_delta gd"
    "ticks' = (if l_units g = 0 then om_del t ticks else om_put t \<lparr>gross = g, net = n\<rparr> ticks)"
proof -
  let ?e = "case map_of ticks t of None \<Rightarrow> \<lparr>gross = LUnits 0, net = LDelta 0\<rparr> | Some e \<Rightarrow> e"
  obtain n g where n: "l_delta_checked_add (net ?e) nd = Inr n" and g: "l_checked_add_signed (gross ?e) gd = Inr g"
    and t': "ticks' = (if l_units g = 0 then om_del t ticks else om_put t \<lparr>gross = g, net = n\<rparr> ticks)"
    using assms by (auto simp: apply_tick_delta_def Let_def rbind_eq_Inr)
  have "l_delta n = l_delta (net ?e) + l_delta nd"
    using n by (auto simp: l_delta_checked_add_def ok_or_def checked_add_s_def split: option.splits if_splits)
  moreover have "l_units g = l_units (gross ?e) + l_delta gd"
    using g by (auto simp: l_checked_add_signed_def ok_or_def checked_sub_def checked_add_def is_neg_def unsigned_abs_def
        split: option.splits if_splits)
  ultimately show thesis using that t'
    by (cases "map_of ticks t") (auto simp: net_sum_def gross_sum_def map_of_as_sums)
qed

lemma changed_as_sums:
  assumes run: "apply_tick_delta ticks t nd gd = Inr ticks'" and ok: "ticks_ok ticks" "ticks_ok ticks'"
    and within: "\<bar>net_at ticks t + sint (l_delta nd)\<bar> \<le> gross_at ticks t + sint (l_delta gd)"
  shows "changed t (l_delta nd) (l_delta gd) (as_sums ticks) = as_sums ticks'"
proof (rule sums_eqI)
  have s: "sums_ok (as_sums m)" if "ticks_ok m" for m
    using that by (fastforce simp: sums_ok_def om_ok_as_sums ticks_ok_def map_of_as_sums sums_zero_def dest!: map_of_SomeD)
  show "sums_ok (changed t (l_delta nd) (l_delta gd) (as_sums ticks))" "sums_ok (as_sums ticks')"
    using s ok changed_ok by blast+
  have om: "om_ok ticks" "om_ok (as_sums ticks)" using ok by (simp_all add: ticks_ok_def om_ok_as_sums)
  obtain n g where n: "l_delta n = net_sum (as_sums ticks) t + l_delta nd" and g: "l_units g = gross_sum (as_sums ticks) t + l_delta gd"
    and t': "ticks' = (if l_units g = 0 then om_del t ticks else om_put t \<lparr>gross = g, net = n\<rparr> ticks)"
    by (rule apply_tick_delta_words[OF run])
  have zero: "net_sum (as_sums ticks) t + l_delta nd = 0" if "l_units g = 0"
  proof -
    have "gross_at ticks' t = 0" using that t' om by (simp add: entry_at)
    then have "sint (l_delta nd) = - net_at ticks t" using within apply_tick_delta_within(3)[OF ok(1) run within, of t] by simp
    moreover have "sint (net_sum (as_sums ticks) t) = net_at ticks t"
      by (cases "map_of ticks t") (simp_all add: net_sum_def net_at_def map_of_as_sums)
    ultimately have "sint (l_delta nd) = - sint (net_sum (as_sums ticks) t)" by simp
    then have "l_delta nd = - net_sum (as_sums ticks) t" by (rule sint_uminusI)
    then show ?thesis by simp
  qed
  show "net_sum (changed t (l_delta nd) (l_delta gd) (as_sums ticks)) u = net_sum (as_sums ticks') u" for u
    using n t' zero om by (auto simp: changed_at net_as_sums map_of_om_put map_of_om_del)
  show "gross_sum (changed t (l_delta nd) (l_delta gd) (as_sums ticks)) u = gross_sum (as_sums ticks') u" for u
    using g t' om by (auto simp: changed_at gross_as_sums map_of_om_put map_of_om_del)
qed

text \<open>A change of liquidity replayed from the tape, an add or a covered removal, leaves the map the simulation leaves.\<close>

lemma replayed_change:
  assumes run: "with_liquidity_delta s lo up d = Inr s'" and ok: "ticks_ok (ps_ticks s)" and d: "covers_change (ps_ticks s) lo up d"
    and e: "te_event e = ModifyLiquidity pool who lo up d salt" and p: "pf_ticks p = as_sums (ps_ticks s)"
  shows "pf_ticks (pool_fold_apply p e) = as_sums (ps_ticks s')"
proof (rule with_liquidity_change[OF run ok d])
  fix removed ticks1 ticks2 l
  assume s': "s' = s\<lparr>ps_ticks := ticks2, ps_liquidity := l\<rparr>" and r: "sint (l_delta removed) = - sint (l_delta d)" "lo < up"
    and a: "apply_tick_delta (ps_ticks s) lo d d = Inr ticks1" "apply_tick_delta ticks1 up removed d = Inr ticks2"
    and within: "\<bar>net_at (ps_ticks s) lo + sint (l_delta d)\<bar> \<le> gross_at (ps_ticks s) lo + sint (l_delta d)"
      "\<bar>net_at ticks1 up + sint (l_delta removed)\<bar> \<le> gross_at ticks1 up + sint (l_delta d)"
    and okt: "ticks_ok ticks1" "ticks_ok ticks2"
  have neg: "l_delta removed = - l_delta d" by (rule sint_uminusI[OF r(1)])
  have "changed lo (l_delta d) (l_delta d) (as_sums (ps_ticks s)) = as_sums ticks1"
    by (rule changed_as_sums[OF a(1) ok okt(1) within(1)])
  moreover have "changed up (l_delta removed) (l_delta d) (as_sums ticks1) = as_sums ticks2"
    by (rule changed_as_sums[OF a(2) okt within(2)])
  ultimately show ?thesis by (simp add: pool_fold_apply_def e p s' neg)
qed

text \<open>The active liquidity the fold reports is what the tick map sums to.\<close>

lemma active_sum:
  "sint (foldl (\<lambda>a e. a + tks_net (snd e)) a (filter (\<lambda>e. fst e \<le> t) (as_sums ticks)))
    = sint (word_of_int (sint a + net_upto ticks t) :: i128)"
proof (induction ticks arbitrary: a)
  case (Cons x ticks)
  obtain k l where x: "x = (k, l)" by force
  have w: "word_of_int (sint (a + l_delta (net l)) + n) = (word_of_int (sint a + (sint (l_delta (net l)) + n)) :: i128)" for n
    by (simp only: wi_hom_add[symmetric] word_of_int_sint_id add.assoc)
  show ?case
  proof (cases "k \<le> t")
    case True
    then show ?thesis using Cons.IH[of "a + l_delta (net l)"] by (simp add: x as_sums_def net_upto_def w del: of_int_add)
  next
    case False
    then show ?thesis using Cons.IH[of a] by (simp add: x as_sums_def net_upto_def del: of_int_add)
  qed
qed (simp add: as_sums_def net_upto_def word_of_int_sint_id)

lemma pool_fold_liquidity_is_active:
  assumes p: "pf_whole p" "pf_ticks p = as_sums (ps_ticks s)" "latest_get (pf_tick p) = Some (ps_tick s)" and s: "pool_ok s"
  shows "pool_fold_liquidity p = (if uint (l_units (ps_liquidity s)) < 2 ^ 127 then Some (ps_liquidity s) else None)"
proof -
  let ?a = "foldl (\<lambda>a e. a + tks_net (snd e)) 0 (filter (\<lambda>e. fst e \<le> ps_tick s) (as_sums (ps_ticks s)))"
  have n: "net_upto (ps_ticks s) (ps_tick s) = uint (l_units (ps_liquidity s))" using s by (simp add: pool_ok_def)
  have "sint ?a = sint (l_units (ps_liquidity s))" unfolding active_sum n by simp
  then have "?a = l_units (ps_liquidity s)" by (rule sint_inject[THEN iffD1])
  moreover have "0 \<le> sint w \<longleftrightarrow> uint w < 2 ^ 127" for w :: u128 using sint_small[of w] sint_large[of w] by linarith
  ultimately show ?thesis by (simp add: pool_fold_liquidity_def p Let_def)
qed

end
