(* ===== verification/Activity_Fold.thy ===== *)
theory Activity_Fold
  imports Market_Events Point_Process
begin

text \<open>
  \<open>src/src/history/replay/activity.rs\<close>, with the marks of \<open>src/src/history/tape/lenses.rs\<close>: the market's point processes, and the
  progress of the current transaction that a liquidation is recorded from. A cut may fall inside a transaction;
  \<open>activity_combine\<close> repairs what the later segment could not know, and the segment law of \<open>Chain_Fold\<close> says the repair is exact
  as long as the earlier segment's transaction is not taken up again after another.
\<close>

subsection \<open>The code: marks\<close>

datatype swap_action = Opened | Adjusted | Closed

record taker_swap =
  tsw_pos_id :: u256
  tsw_action :: swap_action
  tsw_info :: swap_info

definition taker_swap_of :: "market_event \<Rightarrow> taker_swap option" where
  "taker_swap_of ev = (case ev of
      TakerOpened p sw \<Rightarrow> Some \<lparr>tsw_pos_id = p, tsw_action = Opened, tsw_info = sw\<rparr>
    | TakerAdjusted p sw _ _ \<Rightarrow> Some \<lparr>tsw_pos_id = p, tsw_action = Adjusted, tsw_info = sw\<rparr>
    | TakerClosed p sw _ _ _ _ \<Rightarrow> Some \<lparr>tsw_pos_id = p, tsw_action = Closed, tsw_info = sw\<rparr>
    | _ \<Rightarrow> None)"

definition position_of :: "market_event \<Rightarrow> u256 option" where
  "position_of ev = (case ev of
      MakerOpened p \<Rightarrow> Some p | MakerAdjusted p _ \<Rightarrow> Some p | MakerConverted p _ _ _ \<Rightarrow> Some p
    | MakerClosed p _ _ _ \<Rightarrow> Some p | MakerLiquidated p _ _ \<Rightarrow> Some p | MakerBackstopped p _ _ _ \<Rightarrow> Some p
    | TakerOpened p _ \<Rightarrow> Some p | TakerAdjusted p _ _ _ \<Rightarrow> Some p | TakerClosed p _ _ _ _ _ \<Rightarrow> Some p
    | TakerLiquidated p _ _ \<Rightarrow> Some p | TakerBackstopped p _ _ _ _ \<Rightarrow> Some p | PositionTransferred _ _ p \<Rightarrow> Some p
    | _ \<Rightarrow> None)"

datatype position_role = TakerRole | MakerRole

record liquidation =
  lq_pos_id :: u256
  lq_role :: position_role
  lq_fee :: usdc_atoms
  lq_pool_price_before :: "price option"
  lq_pool_price_after :: "price option"
  lq_index_then :: "price option"

record settlement =
  sl_pos_id :: u256
  sl_role :: position_role
  sl_funding :: usdc_delta
  sl_util_fees :: usdc_atoms
  sl_lp_fees :: usdc_atoms

definition settlement_maker :: "u256 \<Rightarrow> maker_settle \<Rightarrow> settlement" where
  "settlement_maker p s =
     \<lparr>sl_pos_id = p, sl_role = MakerRole, sl_funding = mst_funding s,
      sl_util_fees = long (mst_util_fees s) + short (mst_util_fees s), sl_lp_fees = mst_lp_fees s\<rparr>"

definition settlement_taker :: "u256 \<Rightarrow> usdc_delta \<Rightarrow> usdc_atoms \<Rightarrow> settlement" where
  "settlement_taker p fund util =
     \<lparr>sl_pos_id = p, sl_role = TakerRole, sl_funding = fund, sl_util_fees = util, sl_lp_fees = 0\<rparr>"

definition te_arrival :: "tape_event \<Rightarrow> 'm \<Rightarrow> 'm arrival" where
  "te_arrival e m = \<lparr>ar_point = te_point e, ar_timestamp = te_timestamp e, ar_tx = te_tx_hash e, ar_mark = m\<rparr>"

subsection \<open>The code: one transaction's progress\<close>

record in_tx =
  it_tx :: "u256 option"
  it_price_at_start :: "price option"
  it_swaps :: "(u256 \<times> price) list"
  it_liquidated :: "u256 list"

definition in_tx_default :: in_tx where
  "in_tx_default = \<lparr>it_tx = None, it_price_at_start = None, it_swaps = [], it_liquidated = []\<rparr>"

definition enter :: "u256 \<Rightarrow> price option \<Rightarrow> in_tx \<Rightarrow> in_tx" where
  "enter tx pool_price i =
     (if it_tx i \<noteq> Some tx then \<lparr>it_tx = Some tx, it_price_at_start = pool_price, it_swaps = [], it_liquidated = []\<rparr> else i)"

fun upsert :: "'k \<Rightarrow> 'v \<Rightarrow> ('k \<times> 'v) list \<Rightarrow> ('k \<times> 'v) list" where
  "upsert k v [] = [(k, v)]"
| "upsert k v ((k', v') # xs) = (if k' = k then (k', v) # xs else (k', v') # upsert k v xs)"

definition in_tx_swapped :: "u256 \<Rightarrow> price \<Rightarrow> in_tx \<Rightarrow> in_tx" where
  "in_tx_swapped p after i = i\<lparr>it_swaps := upsert p after (it_swaps i)\<rparr>"

definition swap_of :: "in_tx \<Rightarrow> u256 \<Rightarrow> price option" where
  "swap_of i p = map_of (it_swaps i) p"

definition liquidate :: "u256 \<Rightarrow> in_tx \<Rightarrow> bool \<times> in_tx" where
  "liquidate p i = (if p \<in> set (it_liquidated i) then (False, i) else (True, i\<lparr>it_liquidated := it_liquidated i @ [p]\<rparr>))"

definition in_tx_liquidated :: "in_tx \<Rightarrow> u256 \<Rightarrow> u256 \<Rightarrow> bool" where
  "in_tx_liquidated i tx p \<longleftrightarrow> it_tx i = Some tx \<and> p \<in> set (it_liquidated i)"

definition in_tx_combine :: "in_tx \<Rightarrow> in_tx \<Rightarrow> price option \<Rightarrow> in_tx" where
  "in_tx_combine i later price_before_later = (case (it_tx i, it_tx later) of
      (_, None) \<Rightarrow> i
    | (mine, Some theirs) \<Rightarrow>
        if mine = Some theirs
        then foldl (\<lambda>i p. snd (liquidate p i)) (foldl (\<lambda>i (p, after). in_tx_swapped p after i) i (it_swaps later)) (it_liquidated later)
        else if it_price_at_start later = None then later\<lparr>it_price_at_start := price_before_later\<rparr> else later)"

subsection \<open>The code: the market's point processes\<close>

record activity =
  ac_swaps :: "taker_swap arrivals"
  ac_liquidations :: "liquidation arrivals"
  ac_settlements :: "settlement arrivals"
  ac_prints :: "price arrivals"
  ac_pool_price :: "price latest"
  ac_index :: "price latest"
  ac_in_tx :: in_tx

definition activity_default :: activity where
  "activity_default =
     \<lparr>ac_swaps = arrivals_default, ac_liquidations = arrivals_default, ac_settlements = arrivals_default, ac_prints = arrivals_default,
      ac_pool_price = latest_default, ac_index = latest_default, ac_in_tx = in_tx_default\<rparr>"

definition activity_genesis :: activity where
  "activity_genesis = activity_default
     \<lparr>ac_swaps := arrivals_from_genesis, ac_liquidations := arrivals_from_genesis,
      ac_settlements := arrivals_from_genesis, ac_prints := arrivals_from_genesis\<rparr>"

definition activity_seeded :: "unit sample \<Rightarrow> price \<Rightarrow> price \<Rightarrow> activity" where
  "activity_seeded p pool index = activity_default
     \<lparr>ac_swaps := arrivals_after p, ac_liquidations := arrivals_after p,
      ac_settlements := arrivals_after p, ac_prints := arrivals_after p,
      ac_pool_price := latest_stated pool, ac_index := latest_stated index\<rparr>"

definition activity_retain :: "retention \<Rightarrow> activity \<Rightarrow> activity" where
  "activity_retain r a = a
     \<lparr>ac_swaps := arrivals_retain r (ac_swaps a), ac_liquidations := arrivals_retain r (ac_liquidations a),
      ac_settlements := arrivals_retain r (ac_settlements a), ac_prints := arrivals_retain r (ac_prints a)\<rparr>"

definition activity_advance :: "unit sample \<Rightarrow> activity \<Rightarrow> activity" where
  "activity_advance p a = a
     \<lparr>ac_swaps := arrivals_advance p (ac_swaps a), ac_liquidations := arrivals_advance p (ac_liquidations a),
      ac_settlements := arrivals_advance p (ac_settlements a), ac_prints := arrivals_advance p (ac_prints a)\<rparr>"

definition activity_liquidated :: "tape_event \<Rightarrow> u256 \<Rightarrow> position_role \<Rightarrow> usdc_atoms \<Rightarrow> price option \<Rightarrow> activity \<Rightarrow> activity" where
  "activity_liquidated e p role fee after a =
     (let (first_time, i) = liquidate p (enter (te_tx_hash e) (latest_get (ac_pool_price a)) (ac_in_tx a));
          a = a\<lparr>ac_in_tx := i\<rparr>
      in if \<not> first_time then a
         else a\<lparr>ac_liquidations := snd (arrivals_push (te_arrival e
                \<lparr>lq_pos_id = p, lq_role = role, lq_fee = fee, lq_pool_price_before = it_price_at_start i,
                 lq_pool_price_after = (case after of None \<Rightarrow> swap_of i p | Some v \<Rightarrow> Some v),
                 lq_index_then = latest_get (ac_index a)\<rparr>) (ac_liquidations a))\<rparr>)"

definition activity_swapped :: "tape_event \<Rightarrow> u256 \<Rightarrow> swap_action \<Rightarrow> swap_info \<Rightarrow> activity \<Rightarrow> activity" where
  "activity_swapped e p action info a = a
     \<lparr>ac_in_tx := in_tx_swapped p (si_pool_price info) (enter (te_tx_hash e) (latest_get (ac_pool_price a)) (ac_in_tx a)),
      ac_swaps := snd (arrivals_push (te_arrival e \<lparr>tsw_pos_id = p, tsw_action = action, tsw_info = info\<rparr>) (ac_swaps a)),
      ac_pool_price := latest_set (si_pool_price info) (ac_pool_price a)\<rparr>"

definition activity_settled :: "tape_event \<Rightarrow> settlement \<Rightarrow> activity \<Rightarrow> activity" where
  "activity_settled e s a = a\<lparr>ac_settlements := snd (arrivals_push (te_arrival e s) (ac_settlements a))\<rparr>"

definition activity_apply :: "activity \<Rightarrow> tape_event \<Rightarrow> activity" where
  "activity_apply a e = activity_advance (te_sample e ()) (case te_event e of
      TakerOpened p sw \<Rightarrow> activity_swapped e p Opened sw a
    | TakerAdjusted p sw fund util \<Rightarrow> activity_settled e (settlement_taker p fund util) (activity_swapped e p Adjusted sw a)
    | TakerClosed p sw fund util fee liq \<Rightarrow>
        activity_settled e (settlement_taker p fund util) (activity_swapped e p Closed sw
          (if liq then activity_liquidated e p TakerRole fee (Some (si_pool_price sw)) a else a))
    | TakerLiquidated p _ fee \<Rightarrow> activity_liquidated e p TakerRole fee None a
    | TakerBackstopped p _ _ fund util \<Rightarrow> activity_settled e (settlement_taker p fund util) a
    | MakerAdjusted p st \<Rightarrow> activity_settled e (settlement_maker p st) a
    | MakerBackstopped p _ _ st \<Rightarrow> activity_settled e (settlement_maker p st) a
    | MakerConverted p st fee liq \<Rightarrow>
        activity_settled e (settlement_maker p st) (if liq then activity_liquidated e p MakerRole fee None a else a)
    | MakerClosed p st fee liq \<Rightarrow>
        activity_settled e (settlement_maker p st) (if liq then activity_liquidated e p MakerRole fee None a else a)
    | MakerLiquidated p _ fee \<Rightarrow> activity_liquidated e p MakerRole fee None a
    | IndexUpdated index \<Rightarrow>
        a\<lparr>ac_prints := snd (arrivals_push (te_arrival e index) (ac_prints a)), ac_index := latest_set index (ac_index a)\<rparr>
    | _ \<Rightarrow> a)"

definition repaired :: "activity \<Rightarrow> liquidation arrival \<Rightarrow> liquidation arrival" where
  "repaired a x =
     (let m = ar_mark x; same_tx = it_tx (ac_in_tx a) = Some (ar_tx x);
          m = (if lq_pool_price_before m = None
               then m\<lparr>lq_pool_price_before := if same_tx then it_price_at_start (ac_in_tx a) else latest_get (ac_pool_price a)\<rparr> else m);
          m = (if lq_pool_price_after m = None \<and> same_tx then m\<lparr>lq_pool_price_after := swap_of (ac_in_tx a) (lq_pos_id m)\<rparr> else m);
          m = (if lq_index_then m = None then m\<lparr>lq_index_then := latest_get (ac_index a)\<rparr> else m)
      in x\<lparr>ar_mark := m\<rparr>)"

definition activity_combine :: "activity \<Rightarrow> activity \<Rightarrow> activity" where
  "activity_combine a later =
     (let l = arrivals_drop_where (\<lambda>x. in_tx_liquidated (ac_in_tx a) (ar_tx x) (lq_pos_id (ar_mark x))) (ac_liquidations later);
          l = l\<lparr>av_arrivals := map (repaired a) (av_arrivals l)\<rparr>
      in \<lparr>ac_swaps = arrivals_combine (ac_swaps a) (ac_swaps later), ac_liquidations = arrivals_combine (ac_liquidations a) l,
          ac_settlements = arrivals_combine (ac_settlements a) (ac_settlements later),
          ac_prints = arrivals_combine (ac_prints a) (ac_prints later),
          ac_pool_price = latest_combine (ac_pool_price a) (ac_pool_price later),
          ac_index = latest_combine (ac_index a) (ac_index later),
          ac_in_tx = in_tx_combine (ac_in_tx a) (ac_in_tx later) (latest_get (ac_pool_price a))\<rparr>)"

subsection \<open>What an event does, one step for each field\<close>

text \<open>What an event says of a liquidation: the position, its side, the fee and the price after, where the event carries it.\<close>

definition liquidation_said :: "market_event \<Rightarrow> (u256 \<times> position_role \<times> usdc_atoms \<times> price option) option" where
  "liquidation_said ev = (case ev of
      TakerClosed p sw _ _ fee liq \<Rightarrow> if liq then Some (p, TakerRole, fee, Some (si_pool_price sw)) else None
    | TakerLiquidated p _ fee \<Rightarrow> Some (p, TakerRole, fee, None)
    | MakerConverted p _ fee liq \<Rightarrow> if liq then Some (p, MakerRole, fee, None) else None
    | MakerClosed p _ fee liq \<Rightarrow> if liq then Some (p, MakerRole, fee, None) else None
    | MakerLiquidated p _ fee \<Rightarrow> Some (p, MakerRole, fee, None)
    | _ \<Rightarrow> None)"

definition settlement_said :: "market_event \<Rightarrow> settlement option" where
  "settlement_said ev = (case ev of
      TakerAdjusted p _ fund util \<Rightarrow> Some (settlement_taker p fund util)
    | TakerClosed p _ fund util _ _ \<Rightarrow> Some (settlement_taker p fund util)
    | TakerBackstopped p _ _ fund util \<Rightarrow> Some (settlement_taker p fund util)
    | MakerAdjusted p st \<Rightarrow> Some (settlement_maker p st)
    | MakerBackstopped p _ _ st \<Rightarrow> Some (settlement_maker p st)
    | MakerConverted p st _ _ \<Rightarrow> Some (settlement_maker p st)
    | MakerClosed p st _ _ \<Rightarrow> Some (settlement_maker p st)
    | _ \<Rightarrow> None)"

definition print_said :: "market_event \<Rightarrow> price option" where
  "print_said ev = (case ev of IndexUpdated i \<Rightarrow> Some i | _ \<Rightarrow> None)"

text \<open>What the progress of the current transaction becomes, and the record a liquidation leaves of it.\<close>

definition in_tx_step :: "price option \<Rightarrow> in_tx \<Rightarrow> tape_event \<Rightarrow> in_tx" where
  "in_tx_step pool i e =
     (let i1 = (case liquidation_said (te_event e) of None \<Rightarrow> i | Some (p, _) \<Rightarrow> snd (liquidate p (enter (te_tx_hash e) pool i)))
      in case taker_swap_of (te_event e) of
        None \<Rightarrow> i1
      | Some sw \<Rightarrow> in_tx_swapped (tsw_pos_id sw) (si_pool_price (tsw_info sw)) (enter (te_tx_hash e) pool i1))"

definition liquidation_recorded :: "activity \<Rightarrow> tape_event \<Rightarrow> liquidation option" where
  "liquidation_recorded a e = (case liquidation_said (te_event e) of
      None \<Rightarrow> None
    | Some (p, role, fee, after) \<Rightarrow>
        let i = enter (te_tx_hash e) (latest_get (ac_pool_price a)) (ac_in_tx a)
        in if p \<in> set (it_liquidated i) then None
           else Some \<lparr>lq_pos_id = p, lq_role = role, lq_fee = fee, lq_pool_price_before = it_price_at_start i,
                 lq_pool_price_after = (case after of None \<Rightarrow> swap_of i p | Some v \<Rightarrow> Some v),
                 lq_index_then = latest_get (ac_index a)\<rparr>)"

lemmas activity_step_defs = activity_apply_def activity_advance_def activity_settled_def activity_swapped_def activity_liquidated_def
  liquidation_said_def settlement_said_def print_said_def taker_swap_of_def in_tx_step_def liquidation_recorded_def

lemma te_arrival_simps [simp]:
  "arrival_sample (te_arrival e m) = te_sample e ()" "ar_mark (te_arrival e m) = m" "ar_point (te_arrival e m) = te_point e"
  "ar_timestamp (te_arrival e m) = te_timestamp e" "ar_tx (te_arrival e m) = te_tx_hash e"
  "arrival_with (te_arrival e m) n = te_arrival e n"
  by (simp_all add: te_arrival_def arrival_sample_def te_sample_def arrival_with_def)

lemma enter_simps [simp]: "it_tx (enter tx pp i) = Some tx" "enter tx pp (enter tx pp' i) = enter tx pp' i"
  by (simp_all add: enter_def)

lemma liquidate_simps [simp]:
  "it_tx (snd (liquidate p i)) = it_tx i" "it_price_at_start (snd (liquidate p i)) = it_price_at_start i"
  "it_swaps (snd (liquidate p i)) = it_swaps i" "swap_of (snd (liquidate p i)) q = swap_of i q"
  "fst (liquidate p i) \<longleftrightarrow> p \<notin> set (it_liquidated i)"
  by (simp_all add: liquidate_def swap_of_def)

lemma activity_apply_said:
  "activity_apply a e = activity_advance (te_sample e ())
     (let a = (case liquidation_said (te_event e) of None \<Rightarrow> a | Some (p, role, fee, after) \<Rightarrow> activity_liquidated e p role fee after a);
          a = (case taker_swap_of (te_event e) of None \<Rightarrow> a | Some sw \<Rightarrow> activity_swapped e (tsw_pos_id sw) (tsw_action sw) (tsw_info sw) a);
          a = (case settlement_said (te_event e) of None \<Rightarrow> a | Some s \<Rightarrow> activity_settled e s a)
      in case print_said (te_event e) of None \<Rightarrow> a
       | Some v \<Rightarrow> a\<lparr>ac_prints := snd (arrivals_push (te_arrival e v) (ac_prints a)), ac_index := latest_set v (ac_index a)\<rparr>)"
  unfolding activity_apply_def liquidation_said_def settlement_said_def print_said_def taker_swap_of_def Let_def
  by (cases "te_event e"; simp)

lemma activity_liquidated_fields:
  assumes "liquidation_said (te_event e) = Some (p, role, fee, after)"
  shows "activity_liquidated e p role fee after a = a
    \<lparr>ac_in_tx := snd (liquidate p (enter (te_tx_hash e) (latest_get (ac_pool_price a)) (ac_in_tx a))),
     ac_liquidations := (case liquidation_recorded a e of None \<Rightarrow> ac_liquidations a
       | Some m \<Rightarrow> snd (arrivals_push (te_arrival e m) (ac_liquidations a)))\<rparr>"
  by (cases after) (simp_all add: activity_liquidated_def liquidation_recorded_def assms liquidate_def Let_def swap_of_def)

lemma taker_swap_eta [simp]: "\<lparr>tsw_pos_id = tsw_pos_id x, tsw_action = tsw_action x, tsw_info = tsw_info x\<rparr> = x"
  by simp

lemma activity_apply_fields:
  "ac_swaps (activity_apply a e) = arrivals_step (ac_swaps a) (te_arrival e (taker_swap_of (te_event e)))" (is ?swaps)
  "ac_liquidations (activity_apply a e) = arrivals_step (ac_liquidations a) (te_arrival e (liquidation_recorded a e))" (is ?liq)
  "ac_settlements (activity_apply a e) = arrivals_step (ac_settlements a) (te_arrival e (settlement_said (te_event e)))" (is ?set)
  "ac_prints (activity_apply a e) = arrivals_step (ac_prints a) (te_arrival e (print_said (te_event e)))" (is ?print)
  "ac_pool_price (activity_apply a e) = latest_step (ac_pool_price a) (map_option (\<lambda>sw. si_pool_price (tsw_info sw)) (taker_swap_of (te_event e)))" (is ?pool)
  "ac_index (activity_apply a e) = latest_step (ac_index a) (print_said (te_event e))" (is ?index)
  "ac_in_tx (activity_apply a e) = in_tx_step (latest_get (ac_pool_price a)) (ac_in_tx a) e" (is ?in_tx)
proof -
  have "?swaps \<and> ?liq \<and> ?set \<and> ?print \<and> ?pool \<and> ?index \<and> ?in_tx"
  proof (cases "liquidation_said (te_event e)")
    case None
    then have "liquidation_recorded a e = None" by (simp add: liquidation_recorded_def)
    then show ?thesis using None
      by (cases "taker_swap_of (te_event e)"; cases "settlement_said (te_event e)"; cases "print_said (te_event e)")
        (simp_all add: activity_apply_said activity_advance_def activity_swapped_def activity_settled_def in_tx_step_def
          arrivals_step_def latest_step_def)
  next
    case (Some x)
    then obtain p role fee after where x: "liquidation_said (te_event e) = Some (p, role, fee, after)" by (cases x) auto
    note l = activity_liquidated_fields[OF x]
    show ?thesis
      by (cases "taker_swap_of (te_event e)"; cases "settlement_said (te_event e)"; cases "print_said (te_event e)"; cases "liquidation_recorded a e")
        (simp_all add: activity_apply_said x l activity_advance_def activity_swapped_def activity_settled_def in_tx_step_def
          arrivals_step_def latest_step_def)
  qed
  then show ?swaps ?liq ?set ?print ?pool ?index ?in_tx by blast+
qed

subsection \<open>The progress of a transaction across a cut\<close>

text \<open>The events of a transaction that the earlier segment stands in come first, if they come at all.\<close>

definition tx_first :: "u256 option \<Rightarrow> tape_event list \<Rightarrow> bool" where
  "tx_first tx b \<longleftrightarrow> (case tx of None \<Rightarrow> True
    | Some t \<Rightarrow> \<forall>e \<in> set (dropWhile (\<lambda>e. te_tx_hash e = t) b). te_tx_hash e \<noteq> t)"

lemma tx_first_snoc:
  "tx_first tx (b @ [e]) \<longleftrightarrow> tx_first tx b \<and> (case tx of None \<Rightarrow> True | Some t \<Rightarrow> te_tx_hash e = t \<longrightarrow> (\<forall>d \<in> set b. te_tx_hash d = t))"
proof (cases tx)
  case (Some t)
  show ?thesis
  proof (cases "\<forall>d \<in> set b. te_tx_hash d = t")
    case True
    then show ?thesis using Some by (auto simp: tx_first_def dropWhile_append2 dropWhile_eq_Nil_conv[THEN iffD2])
  next
    case False
    then obtain d where "d \<in> set b" "te_tx_hash d \<noteq> t" by blast
    then have "dropWhile (\<lambda>e. te_tx_hash e = t) (b @ [e]) = dropWhile (\<lambda>e. te_tx_hash e = t) b @ [e]"
      by (rule dropWhile_append1)
    then show ?thesis using False Some by (auto simp: tx_first_def)
  qed
qed (simp add: tx_first_def)

lemma upsert_keys: "fst ` set (upsert k v m) = insert k (fst ` set m)"
  by (induction k v m rule: upsert.induct) auto

lemma upsert_distinct: "distinct (map fst m) \<Longrightarrow> distinct (map fst (upsert k v m))"
proof (induction k v m rule: upsert.induct)
  case (2 k v k' v' xs)
  then show ?case using upsert_keys[of k v xs] by auto
qed simp

lemma map_of_upsert: "map_of (upsert k v m) q = (if q = k then Some v else map_of m q)"
  by (induction k v m rule: upsert.induct) auto

lemma upsert_twice [simp]: "upsert k v (upsert k w m) = upsert k v m"
  by (induction k w m rule: upsert.induct) auto

lemma upsert_commute: "k \<noteq> k' \<Longrightarrow> k \<in> fst ` set m \<Longrightarrow> upsert k v (upsert k' w m) = upsert k' w (upsert k v m)"
  by (induction k v m rule: upsert.induct) auto

abbreviation upserts :: "('k \<times> 'v) list \<Rightarrow> ('k \<times> 'v) list \<Rightarrow> ('k \<times> 'v) list" where
  "upserts m xs \<equiv> foldl (\<lambda>m (k, v). upsert k v m) m xs"

lemma upserts_present: "k \<in> fst ` set m \<Longrightarrow> k \<notin> fst ` set xs \<Longrightarrow> upsert k v (upserts m xs) = upserts (upsert k v m) xs"
proof (induction xs arbitrary: m)
  case (Cons x xs)
  then show ?case by (cases x) (simp add: upsert_keys upsert_commute)
qed simp

lemma upserts_upsert: "distinct (map fst xs) \<Longrightarrow> upserts m (upsert k v xs) = upsert k v (upserts m xs)"
proof (induction k v xs arbitrary: m rule: upsert.induct)
  case (2 k v k' v' xs)
  then show ?case
  proof (cases "k' = k")
    case True
    then have "k \<notin> fst ` set xs" using 2(2) by auto
    then show ?thesis using True upserts_present[of k "upsert k v' m" xs v] by (simp add: upsert_keys)
  qed simp
qed simp

lemma map_of_upserts: "distinct (map fst xs) \<Longrightarrow> map_of (upserts m xs) q = (case map_of xs q of None \<Rightarrow> map_of m q | Some v \<Rightarrow> Some v)"
proof (induction xs arbitrary: m)
  case (Cons x xs)
  then have "map_of xs (fst x) = None" by (simp add: map_of_eq_None_iff)
  then show ?case using Cons by (cases x) (auto simp: map_of_upsert split: option.splits)
qed simp

abbreviation noted :: "u256 list \<Rightarrow> u256 list \<Rightarrow> u256 list" where
  "noted l ps \<equiv> foldl (\<lambda>l p. if p \<in> set l then l else l @ [p]) l ps"

lemma set_noted: "set (noted l ps) = set l \<union> set ps"
  by (induction ps arbitrary: l) auto

text \<open>The merge of two parts of one transaction, field by field.\<close>

lemma in_tx_merged:
  "foldl (\<lambda>i p. snd (liquidate p i)) i ps = i\<lparr>it_liquidated := noted (it_liquidated i) ps\<rparr>"
  "foldl (\<lambda>i (p, after). in_tx_swapped p after i) i xs = i\<lparr>it_swaps := upserts (it_swaps i) xs\<rparr>"
  by (induction ps arbitrary: i; simp add: liquidate_def) (induction xs arbitrary: i; auto simp: in_tx_swapped_def)

lemma in_tx_combine_cases:
  "in_tx_combine i later pp =
    (if it_tx later = None then i
     else if it_tx i = it_tx later
     then i\<lparr>it_swaps := upserts (it_swaps i) (it_swaps later), it_liquidated := noted (it_liquidated i) (it_liquidated later)\<rparr>
     else later\<lparr>it_price_at_start := (if it_price_at_start later = None then pp else it_price_at_start later)\<rparr>)"
  by (cases "it_tx later"; cases "it_tx i") (simp_all add: in_tx_combine_def in_tx_merged)

definition acted :: "market_event \<Rightarrow> in_tx \<Rightarrow> in_tx" where
  "acted ev i = i
     \<lparr>it_liquidated := (case liquidation_said ev of None \<Rightarrow> it_liquidated i | Some (p, _) \<Rightarrow> noted (it_liquidated i) [p]),
      it_swaps := (case taker_swap_of ev of None \<Rightarrow> it_swaps i
        | Some sw \<Rightarrow> upsert (tsw_pos_id sw) (si_pool_price (tsw_info sw)) (it_swaps i))\<rparr>"

lemma enter_within [simp]: "it_tx i = Some tx \<Longrightarrow> enter tx pp i = i"
  by (simp add: enter_def)

lemma in_tx_step_acted:
  "in_tx_step pool i e =
    (if liquidation_said (te_event e) = None \<and> taker_swap_of (te_event e) = None then i
     else acted (te_event e) (enter (te_tx_hash e) pool i))"
  by (cases "liquidation_said (te_event e)"; cases "taker_swap_of (te_event e)")
    (auto simp: in_tx_step_def acted_def in_tx_swapped_def liquidate_def Let_def)

lemma acted_simps [simp]: "it_tx (acted ev i) = it_tx i" "it_price_at_start (acted ev i) = it_price_at_start i"
  by (simp_all add: acted_def)

lemma noted_one: "noted l (noted m [p]) = noted (noted l m) [p]"
proof (cases "p \<in> set m")
  case True
  then have "p \<in> set (noted l m)" by (simp add: set_noted)
  then show ?thesis using True by simp
qed simp

lemma acted_across:
  assumes "distinct (map fst (it_swaps i))" "it_tx i \<noteq> None"
  shows "acted ev (in_tx_combine p i pp) = in_tx_combine p (acted ev i) pp"
  using assms noted_one
  by (cases "liquidation_said ev"; cases "taker_swap_of ev")
    (auto simp: in_tx_combine_cases acted_def upserts_upsert)

text \<open>What the progress of a later segment is worth: nothing before it enters a transaction, and no price at the start of a first one.\<close>

definition progress_ok :: "u256 option \<Rightarrow> activity \<Rightarrow> bool" where
  "progress_ok tx d \<longleftrightarrow> distinct (map fst (it_swaps (ac_in_tx d)))
     \<and> (it_tx (ac_in_tx d) = None \<longrightarrow> latest_get (ac_pool_price d) = None)
     \<and> (it_tx (ac_in_tx d) \<noteq> None \<and> it_tx (ac_in_tx d) = tx \<longrightarrow> it_price_at_start (ac_in_tx d) = None)"

lemma enter_across:
  assumes d: "it_tx (ac_in_tx d) = None \<longrightarrow> latest_get (ac_pool_price d) = None"
    and fresh: "it_tx (ac_in_tx p) = Some tx \<Longrightarrow> it_tx (ac_in_tx d) \<in> {None, Some tx}"
  shows "enter tx (latest_get (latest_combine (ac_pool_price p) (ac_pool_price d)))
      (in_tx_combine (ac_in_tx p) (ac_in_tx d) (latest_get (ac_pool_price p)))
    = in_tx_combine (ac_in_tx p) (enter tx (latest_get (ac_pool_price d)) (ac_in_tx d)) (latest_get (ac_pool_price p))"
  using assms by (auto simp: in_tx_combine_cases enter_def latest_combine_def)

abbreviation activity_run :: "activity \<Rightarrow> tape_event list \<Rightarrow> activity" where
  "activity_run \<equiv> foldl activity_apply"

lemma activity_latest_run:
  "ac_pool_price (activity_run a b) = foldl latest_step (ac_pool_price a) (map (\<lambda>e. map_option (\<lambda>sw. si_pool_price (tsw_info sw)) (taker_swap_of (te_event e))) b)"
  "ac_index (activity_run a b) = foldl latest_step (ac_index a) (map (\<lambda>e. print_said (te_event e)) b)"
  by (rule foldl_field, rule activity_apply_fields)+

lemma activity_latest_across:
  "ac_pool_price (activity_run p b) = latest_combine (ac_pool_price p) (ac_pool_price (activity_run activity_default b))"
  "ac_index (activity_run p b) = latest_combine (ac_index p) (ac_index (activity_run activity_default b))"
  by (simp_all add: activity_latest_run activity_default_def latest.segment)

lemma in_tx_run_tx:
  "it_tx (ac_in_tx (activity_run activity_default b)) \<in> insert None ((\<lambda>e. Some (te_tx_hash e)) ` set b)"
proof (induction b rule: rev_induct)
  case (snoc e b)
  then show ?case by (auto simp: activity_apply_fields in_tx_step_acted)
qed (simp add: activity_default_def in_tx_default_def)

lemma progress_run:
  assumes "tx_first tx b"
  shows "progress_ok tx (activity_run activity_default b)"
  using assms
proof (induction b rule: rev_induct)
  case Nil
  then show ?case by (simp add: progress_ok_def activity_default_def in_tx_default_def latest_default_def)
next
  case (snoc e b)
  let ?d = "activity_run activity_default b"
  have ok: "progress_ok tx ?d" using snoc by (simp add: tx_first_snoc)
  have fresh: "it_tx (ac_in_tx ?d) \<in> {None, tx}" if "tx = Some (te_tx_hash e)"
    using snoc.prems in_tx_run_tx[of b] that by (auto simp: tx_first_snoc)
  show ?case
  proof (cases "liquidation_said (te_event e) = None \<and> taker_swap_of (te_event e) = None")
    case True
    then show ?thesis using ok by (auto simp: progress_ok_def activity_apply_fields in_tx_step_acted latest_step_def)
  next
    case False
    have "distinct (map fst (it_swaps (acted ev i)))" if "distinct (map fst (it_swaps i))" for ev i
      using that by (simp add: acted_def upsert_distinct split: option.split)
    moreover have "distinct (map fst (it_swaps (enter t pp i)))" if "distinct (map fst (it_swaps i))" for t pp i
      using that by (simp add: enter_def)
    ultimately show ?thesis using ok False fresh
      by (auto simp: progress_ok_def activity_apply_fields in_tx_step_acted enter_def)
  qed
qed

lemma in_tx_across:
  assumes "tx_first (it_tx (ac_in_tx p)) b"
  shows "ac_in_tx (activity_run p b)
    = in_tx_combine (ac_in_tx p) (ac_in_tx (activity_run activity_default b)) (latest_get (ac_pool_price p))"
  using assms
proof (induction b rule: rev_induct)
  case Nil
  then show ?case by (simp add: activity_default_def in_tx_default_def in_tx_combine_cases)
next
  case (snoc e b)
  let ?d = "activity_run activity_default b"
  have f: "tx_first (it_tx (ac_in_tx p)) b" using snoc.prems by (simp add: tx_first_snoc)
  have ok: "progress_ok (it_tx (ac_in_tx p)) ?d" by (rule progress_run[OF f])
  have fresh: "it_tx (ac_in_tx ?d) \<in> {None, Some (te_tx_hash e)}" if "it_tx (ac_in_tx p) = Some (te_tx_hash e)"
    using snoc.prems in_tx_run_tx[of b] that by (auto simp: tx_first_snoc)
  have dist: "distinct (map fst (it_swaps (enter (te_tx_hash e) (latest_get (ac_pool_price ?d)) (ac_in_tx ?d))))"
    using ok by (simp add: progress_ok_def enter_def)
  have ent: "enter (te_tx_hash e) (latest_get (ac_pool_price (activity_run p b))) (ac_in_tx (activity_run p b))
    = in_tx_combine (ac_in_tx p) (enter (te_tx_hash e) (latest_get (ac_pool_price ?d)) (ac_in_tx ?d)) (latest_get (ac_pool_price p))"
    unfolding snoc.IH[OF f] activity_latest_across(1)[of p b]
    by (rule enter_across) (use ok fresh in \<open>auto simp: progress_ok_def\<close>)
  show ?case
    by (simp add: activity_apply_fields in_tx_step_acted snoc.IH[OF f] ent[unfolded snoc.IH[OF f]] acted_across[OF dist])
qed

subsection \<open>The liquidations across a cut\<close>

definition repaired_mark :: "activity \<Rightarrow> u256 \<Rightarrow> liquidation \<Rightarrow> liquidation" where
  "repaired_mark a tx m = m
     \<lparr>lq_pool_price_before := (case lq_pool_price_before m of Some v \<Rightarrow> Some v
        | None \<Rightarrow> if it_tx (ac_in_tx a) = Some tx then it_price_at_start (ac_in_tx a) else latest_get (ac_pool_price a)),
      lq_pool_price_after := (case lq_pool_price_after m of Some v \<Rightarrow> Some v
        | None \<Rightarrow> if it_tx (ac_in_tx a) = Some tx then swap_of (ac_in_tx a) (lq_pos_id m) else None),
      lq_index_then := (case lq_index_then m of Some v \<Rightarrow> Some v | None \<Rightarrow> latest_get (ac_index a))\<rparr>"

lemma repaired_with: "repaired a x = arrival_with x (repaired_mark a (ar_tx x) (ar_mark x))"
  by (cases "lq_pool_price_before (ar_mark x)"; cases "lq_pool_price_after (ar_mark x)"; cases "lq_index_then (ar_mark x)")
    (simp_all add: repaired_def repaired_mark_def arrival_with_def Let_def)

text \<open>The record a later segment made of an event, as the fold of both would have made it.\<close>

definition repaired_record :: "activity \<Rightarrow> u256 \<Rightarrow> liquidation option \<Rightarrow> liquidation option" where
  "repaired_record a tx r = (case r of None \<Rightarrow> None
    | Some m \<Rightarrow> if in_tx_liquidated (ac_in_tx a) tx (lq_pos_id m) then None else Some (repaired_mark a tx m))"

lemma map_of_swaps_across:
  assumes "distinct (map fst (it_swaps i))" "it_tx p = it_tx i" "it_tx i \<noteq> None"
  shows "swap_of (in_tx_combine p i pp) q = (case swap_of i q of None \<Rightarrow> swap_of p q | Some v \<Rightarrow> Some v)"
  using assms by (auto simp: in_tx_combine_cases swap_of_def map_of_upserts split: option.split)

lemma liquidation_recorded_across:
  assumes "tx_first (it_tx (ac_in_tx p)) (b @ [e])"
  shows "liquidation_recorded (activity_run p b) e
    = repaired_record p (te_tx_hash e) (liquidation_recorded (activity_run activity_default b) e)"
proof (cases "liquidation_said (te_event e)")
  case None
  then show ?thesis by (simp add: liquidation_recorded_def repaired_record_def)
next
  case (Some x)
  then obtain pos role fee after where x: "liquidation_said (te_event e) = Some (pos, role, fee, after)" by (cases x) auto
  let ?d = "activity_run activity_default b" and ?q = "activity_run p b" and ?tx = "te_tx_hash e" and ?pp = "latest_get (ac_pool_price p)"
  have f: "tx_first (it_tx (ac_in_tx p)) b" using assms by (simp add: tx_first_snoc)
  have ok: "progress_ok (it_tx (ac_in_tx p)) ?d" by (rule progress_run[OF f])
  have fresh: "it_tx (ac_in_tx ?d) \<in> {None, Some ?tx}" if "it_tx (ac_in_tx p) = Some ?tx"
    using assms in_tx_run_tx[of b] that by (auto simp: tx_first_snoc)
  let ?i = "enter ?tx (latest_get (ac_pool_price ?d)) (ac_in_tx ?d)"
  have ent: "enter ?tx (latest_get (ac_pool_price ?q)) (ac_in_tx ?q) = in_tx_combine (ac_in_tx p) ?i ?pp"
    unfolding in_tx_across[OF f] activity_latest_across(1)[of p b]
    by (rule enter_across) (use ok fresh in \<open>auto simp: progress_ok_def\<close>)
  have dist: "distinct (map fst (it_swaps ?i))" using ok by (simp add: progress_ok_def enter_def)
  have first: "it_price_at_start ?i = None" if "it_tx (ac_in_tx p) = Some ?tx"
    using ok fresh[OF that] that by (auto simp: progress_ok_def enter_def)
  have idx: "latest_get (ac_index ?q) = (case latest_get (ac_index ?d) of None \<Rightarrow> latest_get (ac_index p) | Some v \<Rightarrow> Some v)"
    by (simp add: activity_latest_across(2)[of p b] latest_combine_def split: option.split)
  have mine: "(pos \<in> set (it_liquidated (in_tx_combine (ac_in_tx p) ?i ?pp)))
      = (pos \<in> set (it_liquidated ?i) \<or> in_tx_liquidated (ac_in_tx p) ?tx pos)"
    by (auto simp: in_tx_combine_cases set_noted in_tx_liquidated_def)
  have start: "it_price_at_start (in_tx_combine (ac_in_tx p) ?i ?pp) = (case it_price_at_start ?i of Some v \<Rightarrow> Some v
      | None \<Rightarrow> if it_tx (ac_in_tx p) = Some ?tx then it_price_at_start (ac_in_tx p) else ?pp)"
    using first by (cases "it_price_at_start ?i") (auto simp: in_tx_combine_cases)
  have swaps: "swap_of (in_tx_combine (ac_in_tx p) ?i ?pp) pos = (case swap_of ?i pos of Some v \<Rightarrow> Some v
      | None \<Rightarrow> if it_tx (ac_in_tx p) = Some ?tx then swap_of (ac_in_tx p) pos else None)"
    using map_of_swaps_across[OF dist, of "ac_in_tx p" ?pp pos]
    by (cases "it_tx (ac_in_tx p) = Some ?tx") (auto simp: in_tx_combine_cases swap_of_def split: option.splits)
  show ?thesis
    unfolding liquidation_recorded_def x option.case prod.case Let_def ent mine start swaps idx
    by (cases after) (auto simp: repaired_record_def repaired_mark_def split: option.splits)
qed

text \<open>Repairing a process record by record.\<close>

definition repaired_event :: "activity \<Rightarrow> liquidation option arrival \<Rightarrow> liquidation option arrival" where
  "repaired_event a x = arrival_with x (repaired_record a (ar_tx x) (ar_mark x))"

definition repaired_process :: "activity \<Rightarrow> liquidation arrivals \<Rightarrow> liquidation arrivals" where
  "repaired_process a l =
     (let l = arrivals_drop_where (\<lambda>x. in_tx_liquidated (ac_in_tx a) (ar_tx x) (lq_pos_id (ar_mark x))) l
      in l\<lparr>av_arrivals := map (repaired a) (av_arrivals l)\<rparr>)"

lemma repaired_event_simps [simp]:
  "arrival_sample (repaired_event a x) = arrival_sample x" "ar_timestamp (repaired_event a x) = ar_timestamp x"
  by (simp_all add: repaired_event_def)

lemma newcomers_repaired:
  "newcomers (map (repaired_event a) es)
    = map (repaired a) (filter (\<lambda>x. \<not> in_tx_liquidated (ac_in_tx a) (ar_tx x) (lq_pos_id (ar_mark x))) (newcomers es))"
proof (induction es)
  case (Cons e es)
  then show ?case
    by (cases "ar_mark e") (simp_all add: repaired_event_def repaired_record_def repaired_with)
qed simp

lemma repaired_process_run:
  assumes "sorted_wrt before (map arrival_sample es)"
  shows "repaired_process a (foldl arrivals_step arrivals_default es) = foldl arrivals_step arrivals_default (map (repaired_event a) es)"
proof (cases es rule: rev_exhaust)
  case Nil
  then show ?thesis by (simp add: repaired_process_def arrivals_drop_where_def arrivals_default_def)
next
  case (snoc ds d)
  have h: "ar_timestamp (hd (map (repaired_event a) (ds @ [d]))) = ar_timestamp (hd (ds @ [d]))" by (cases ds) simp_all
  have s: "sorted_wrt before (map arrival_sample (map (repaired_event a) ds @ [repaired_event a d]))"
    using assms by (simp add: snoc sorted_wrt_map sorted_wrt_append)
  show ?thesis
    using arrivals_default_run[OF assms[unfolded snoc]] arrivals_default_run[OF s] h newcomers_repaired[of a "ds @ [d]"]
    by (simp add: snoc repaired_process_def arrivals_drop_where_def del: newcomers_append foldl_append)
qed

subsection \<open>The law\<close>

abbreviation quiet_arrivals :: "tape_event list \<Rightarrow> unit arrival list" where
  "quiet_arrivals b \<equiv> map (\<lambda>e. te_arrival e ()) b"

definition activity_follows :: "activity \<Rightarrow> tape_event list \<Rightarrow> bool" where
  "activity_follows a b \<longleftrightarrow> arrivals_follow (ac_swaps a) (quiet_arrivals b) \<and> arrivals_follow (ac_liquidations a) (quiet_arrivals b)
     \<and> arrivals_follow (ac_settlements a) (quiet_arrivals b) \<and> arrivals_follow (ac_prints a) (quiet_arrivals b)
     \<and> tx_first (it_tx (ac_in_tx a)) b"

lemma arrivals_follow_samples:
  "map arrival_sample es = map arrival_sample es' \<Longrightarrow> arrivals_follow a es = arrivals_follow a es'"
  by (simp add: arrivals_follow_def)

lemma activity_processes_run:
  "ac_swaps (activity_run a b) = foldl arrivals_step (ac_swaps a) (map (\<lambda>e. te_arrival e (taker_swap_of (te_event e))) b)"
  "ac_settlements (activity_run a b) = foldl arrivals_step (ac_settlements a) (map (\<lambda>e. te_arrival e (settlement_said (te_event e))) b)"
  "ac_prints (activity_run a b) = foldl arrivals_step (ac_prints a) (map (\<lambda>e. te_arrival e (print_said (te_event e))) b)"
  by (rule foldl_field, rule activity_apply_fields)+

text \<open>The records made along a run, event by event.\<close>

fun records :: "activity \<Rightarrow> tape_event list \<Rightarrow> liquidation option arrival list" where
  "records a [] = []"
| "records a (e # b) = te_arrival e (liquidation_recorded a e) # records (activity_apply a e) b"

lemma records_snoc: "records a (b @ [e]) = records a b @ [te_arrival e (liquidation_recorded (activity_run a b) e)]"
  by (induction a b rule: records.induct) simp_all

lemma records_samples: "map arrival_sample (records a b) = map arrival_sample (quiet_arrivals b)"
  by (induction a b rule: records.induct) simp_all

lemma activity_liquidations_run: "ac_liquidations (activity_run a b) = foldl arrivals_step (ac_liquidations a) (records a b)"
  by (induction a b rule: records.induct) (simp_all add: activity_apply_fields)

lemma records_across:
  "tx_first (it_tx (ac_in_tx p)) b \<Longrightarrow> map (repaired_event p) (records activity_default b) = records p b"
proof (induction b rule: rev_induct)
  case (snoc e b)
  then show ?case
    by (simp add: records_snoc tx_first_snoc repaired_event_def liquidation_recorded_across[OF snoc.prems])
qed simp

lemma activity_segment:
  assumes "activity_follows p b"
  shows "activity_combine p (activity_run activity_default b) = activity_run p b"
proof (rule activity.equality)
  let ?d = "activity_run activity_default b"
  have fol: "arrivals_follow (ac_swaps p) (quiet_arrivals b)" "arrivals_follow (ac_liquidations p) (quiet_arrivals b)"
    "arrivals_follow (ac_settlements p) (quiet_arrivals b)" "arrivals_follow (ac_prints p) (quiet_arrivals b)"
    and tx: "tx_first (it_tx (ac_in_tx p)) b" using assms by (simp_all add: activity_follows_def)
  have seg: "arrivals_combine a (foldl arrivals_step arrivals_default es) = foldl arrivals_step a es"
    if "arrivals_follow a (quiet_arrivals b)" "map arrival_sample es = map arrival_sample (quiet_arrivals b)" for a :: "'m arrivals" and es
    by (rule arrivals_segment) (use that arrivals_follow_samples in blast)
  show "ac_swaps (activity_combine p ?d) = ac_swaps (activity_run p b)"
    unfolding activity_processes_run(1)[of p] using seg[OF fol(1)] activity_processes_run(1)[of activity_default b]
    by (simp add: activity_combine_def Let_def activity_default_def comp_def)
  show "ac_settlements (activity_combine p ?d) = ac_settlements (activity_run p b)"
    unfolding activity_processes_run(2)[of p] using seg[OF fol(3)] activity_processes_run(2)[of activity_default b]
    by (simp add: activity_combine_def Let_def activity_default_def comp_def)
  show "ac_prints (activity_combine p ?d) = ac_prints (activity_run p b)"
    unfolding activity_processes_run(3)[of p] using seg[OF fol(4)] activity_processes_run(3)[of activity_default b]
    by (simp add: activity_combine_def Let_def activity_default_def comp_def)
  have sorted: "sorted_wrt before (map arrival_sample (records activity_default b))"
    using fol(2) by (simp add: records_samples arrivals_follow_def after_through_def)
  have "ac_liquidations (activity_combine p ?d) = arrivals_combine (ac_liquidations p) (repaired_process p (ac_liquidations ?d))"
    by (simp add: activity_combine_def Let_def repaired_process_def)
  also have "ac_liquidations ?d = foldl arrivals_step arrivals_default (records activity_default b)"
    by (simp add: activity_liquidations_run activity_default_def)
  also have "repaired_process p \<dots> = foldl arrivals_step arrivals_default (records p b)"
    unfolding repaired_process_run[OF sorted] records_across[OF tx] ..
  also have "arrivals_combine (ac_liquidations p) \<dots> = foldl arrivals_step (ac_liquidations p) (records p b)"
    by (rule seg[OF fol(2) records_samples])
  finally show "ac_liquidations (activity_combine p ?d) = ac_liquidations (activity_run p b)"
    by (simp only: activity_liquidations_run)
  show "ac_pool_price (activity_combine p ?d) = ac_pool_price (activity_run p b)"
    unfolding activity_latest_across(1)[of p b] by (simp add: activity_combine_def Let_def)
  show "ac_index (activity_combine p ?d) = ac_index (activity_run p b)"
    unfolding activity_latest_across(2)[of p b] by (simp add: activity_combine_def Let_def)
  show "ac_in_tx (activity_combine p ?d) = ac_in_tx (activity_run p b)"
    unfolding in_tx_across[OF tx] by (simp add: activity_combine_def Let_def)
qed simp

interpretation activity: point_fold activity_default activity_apply activity_combine activity_follows te_point
proof
  fix a b e
  show pre: "activity_follows a b" if "activity_follows a (b @ [e])"
    using that by (auto simp: activity_follows_def tx_first_snoc dest: arrivals_follow_prefix)
  show "activity_combine a activity_default = a" if "activity_follows a []" using activity_segment[OF that] by simp
  show "activity_combine a (activity_apply (activity_run activity_default b) e) = activity_apply (activity_combine a (activity_run activity_default b)) e"
    if "activity_follows a (b @ [e])"
    using activity_segment[OF that] activity_segment[OF pre[OF that]] by simp
qed

end
