(* ===== verification/Solvency_Fold.thy ===== *)
theory Solvency_Fold
  imports Activity_Fold
begin

text \<open>
  \<open>src/src/history/replay/solvency.rs\<close>: the margin total and the bad debt as the contract last stated them, and what moved
  each since without an event saying so. A cut may fall between a withdrawal's transfer and its swap; \<open>solvency_combine\<close> takes back the fees
  the later segment removed, and the segment law of \<open>Chain_Fold\<close> says that it takes back exactly those.
\<close>

subsection \<open>The code\<close>

record solvency_state =
  ss_bad_debt :: usdc_atoms
  ss_total_margin :: usdc_atoms

record books =
  bk_perp :: account
  bk_block :: block_context
  bk_solvency :: solvency_state

instance usdc_atoms :: comm_monoid_add
  by standard (auto simp: plus_usdc_atoms_def zero_usdc_atoms_def add_ac)

datatype margin_since = MarginSince (ms_fees_removed: usdc_atoms) (ms_unemitted: u32)

definition margin_since_add :: "margin_since \<Rightarrow> margin_since \<Rightarrow> margin_since" where
  [simp]: "margin_since_add a b = MarginSince (ms_fees_removed a + ms_fees_removed b) (ms_unemitted a + ms_unemitted b)"

instantiation margin_since :: comm_monoid_add
begin

definition zero_margin_since :: margin_since where
  "zero_margin_since = MarginSince 0 0"

definition plus_margin_since :: "margin_since \<Rightarrow> margin_since \<Rightarrow> margin_since" where
  "plus_margin_since a b = margin_since_add a b"

instance
  by standard (auto simp: plus_margin_since_def zero_margin_since_def add_ac)

end

record tx_opening =
  op_tx :: "u256 option"
  op_provisional :: usdc_atoms

definition opening_default :: tx_opening where
  "opening_default = \<lparr>op_tx = None, op_provisional = 0\<rparr>"

definition opening_combine :: "tx_opening \<Rightarrow> tx_opening \<Rightarrow> bool \<Rightarrow> bool \<Rightarrow> tx_opening" where
  "opening_combine o' later later_stated transfer_seen = (case op_tx o' of
      None \<Rightarrow> later
    | Some tx \<Rightarrow>
        if later_stated then o'\<lparr>op_provisional := op_provisional later\<rparr>
        else if op_tx later = Some tx \<and> \<not> transfer_seen then o'\<lparr>op_provisional := op_provisional o' + op_provisional later\<rparr>
        else o')"

record solvency =
  sv_margin :: "(usdc_atoms, margin_since) stated"
  sv_debt :: "(usdc_atoms, u32) stated"
  sv_transfer_in_tx :: "(u256 \<times> bool) latest"
  sv_opening :: tx_opening
  sv_margin_stated :: "usdc_atoms series"
  sv_debt_stated :: "usdc_atoms series"
  sv_deposited :: usdc_atoms

definition solvency_default :: solvency where
  "solvency_default = \<lparr>sv_margin = stated_default, sv_debt = stated_default, sv_transfer_in_tx = latest_default,
     sv_opening = opening_default, sv_margin_stated = series_default, sv_debt_stated = series_default, sv_deposited = 0\<rparr>"

definition solvency_seeded :: "unit sample \<Rightarrow> solvency_state \<Rightarrow> solvency" where
  "solvency_seeded p r = \<lparr>sv_margin = stated_with (ss_total_margin r), sv_debt = stated_with (ss_bad_debt r),
     sv_transfer_in_tx = latest_default, sv_opening = opening_default,
     sv_margin_stated = series_stated (sample_with p (ss_total_margin r)),
     sv_debt_stated = series_stated (sample_with p (ss_bad_debt r)), sv_deposited = 0\<rparr>"

definition solvency_genesis :: solvency where
  "solvency_genesis = solvency_seeded (sample_origin ()) \<lparr>ss_bad_debt = 0, ss_total_margin = 0\<rparr>"

definition solvency_read :: "unit sample \<Rightarrow> solvency_state \<Rightarrow> solvency \<Rightarrow> solvency" where
  "solvency_read p r s = s\<lparr>sv_margin := stated_with (ss_total_margin r), sv_debt := stated_with (ss_bad_debt r),
     sv_opening := opening_default,
     sv_margin_stated := snd (series_push (sample_with p (ss_total_margin r)) (sv_margin_stated s)),
     sv_debt_stated := snd (series_push (sample_with p (ss_bad_debt r)) (sv_debt_stated s))\<rparr>"

definition solvency_retain :: "retention \<Rightarrow> solvency \<Rightarrow> solvency" where
  "solvency_retain r s =
     s\<lparr>sv_margin_stated := series_retain r (sv_margin_stated s), sv_debt_stated := series_retain r (sv_debt_stated s)\<rparr>"

definition solvency_advance :: "unit sample \<Rightarrow> solvency \<Rightarrow> solvency" where
  "solvency_advance p s =
     s\<lparr>sv_margin_stated := series_advance p (sv_margin_stated s), sv_debt_stated := series_advance p (sv_debt_stated s)\<rparr>"

definition debt_restated :: "tape_event \<Rightarrow> usdc_atoms \<Rightarrow> solvency \<Rightarrow> solvency" where
  "debt_restated e debt s =
     s\<lparr>sv_debt := stated_state debt (sv_debt s), sv_debt_stated := snd (series_push (te_sample e debt) (sv_debt_stated s))\<rparr>"

definition usdc_saturating_sub :: "usdc_atoms \<Rightarrow> usdc_atoms \<Rightarrow> usdc_atoms" where
  "usdc_saturating_sub a b = UsdcAtoms (saturating_sub (usdc a) (usdc b))"

definition solvency_books :: "solvency \<Rightarrow> solvency_state option" where
  "solvency_books s = (case (st_value (sv_debt s), st_value (sv_margin s)) of
      (Some debt, Some margin) \<Rightarrow>
        Some \<lparr>ss_bad_debt = debt, ss_total_margin = usdc_saturating_sub margin (ms_fees_removed (st_since (sv_margin s)))\<rparr>
    | _ \<Rightarrow> None)"

record silences =
  si_total_margin_unemitted :: u32
  si_bad_debt_unemitted :: u32

definition solvency_silences :: "solvency \<Rightarrow> silences" where
  "solvency_silences s =
     (let debt_stands = (case st_value (sv_debt s) of None \<Rightarrow> False | Some debt \<Rightarrow> debt \<noteq> 0);
          silent_swaps = (if debt_stands then st_since (sv_debt s) else 0)
      in \<lparr>si_total_margin_unemitted = ms_unemitted (st_since (sv_margin s)) + silent_swaps,
          si_bad_debt_unemitted = silent_swaps\<rparr>)"

definition is_taker_opened :: "market_event \<Rightarrow> bool" where
  "is_taker_opened ev = (case ev of TakerOpened _ _ \<Rightarrow> True | _ \<Rightarrow> False)"

definition fees_removed_after_statement :: "solvency \<Rightarrow> tape_event \<Rightarrow> bool" where
  "fees_removed_after_statement s e \<longleftrightarrow> is_taker_opened (te_event e) \<or>
     \<not> (case latest_get (sv_transfer_in_tx s) of None \<Rightarrow> False | Some (tx, nonpositive) \<Rightarrow> tx = te_tx_hash e \<and> nonpositive)"

definition add_since :: "margin_since \<Rightarrow> solvency \<Rightarrow> solvency" where
  "add_since d s = s\<lparr>sv_margin := (sv_margin s)\<lparr>st_since := st_since (sv_margin s) + d\<rparr>\<rparr>"

definition solvency_swap :: "u256 \<Rightarrow> tape_event \<Rightarrow> swap_info \<Rightarrow> solvency \<Rightarrow> solvency" where
  "solvency_swap opening_tx e sw s =
     (let s = (if si_insurance_fee sw \<noteq> 0 then s\<lparr>sv_debt := (sv_debt s)\<lparr>st_since := st_since (sv_debt s) + 1\<rparr>\<rparr> else s);
          removed = si_protocol_fee sw + si_creator_fee sw + si_insurance_fee sw
      in if removed \<noteq> 0 \<and> fees_removed_after_statement s e
         then let s = add_since (MarginSince removed 0) s;
                  unseen = (case latest_get (sv_transfer_in_tx s) of None \<Rightarrow> True | Some (tx, _) \<Rightarrow> tx \<noteq> te_tx_hash e)
              in if te_tx_hash e = opening_tx \<and> unseen \<and> \<not> is_taker_opened (te_event e)
                 then s\<lparr>sv_opening := (sv_opening s)\<lparr>op_provisional := op_provisional (sv_opening s) + removed\<rparr>\<rparr>
                 else s
         else s)"

definition margin_transferred :: "tape_event \<Rightarrow> usdc_delta \<Rightarrow> usdc_atoms \<Rightarrow> solvency \<Rightarrow> solvency" where
  "margin_transferred e d total_margin s = s
     \<lparr>sv_margin := stated_state total_margin (sv_margin s),
      sv_opening := (sv_opening s)\<lparr>op_provisional := 0\<rparr>,
      sv_margin_stated := snd (series_push (te_sample e total_margin) (sv_margin_stated s)),
      sv_deposited := (if \<not> is_neg (usdc_d d) then sv_deposited s + usdc_magnitude d else sv_deposited s),
      sv_transfer_in_tx := latest_set (te_tx_hash e, is_neg (usdc_d d) \<or> usdc_d d = 0) (sv_transfer_in_tx s)\<rparr>"

definition solvency_apply :: "solvency \<Rightarrow> tape_event \<Rightarrow> solvency" where
  "solvency_apply s e =
     (let opening_tx = (case op_tx (sv_opening s) of None \<Rightarrow> te_tx_hash e | Some tx \<Rightarrow> tx);
          s = s\<lparr>sv_opening := (sv_opening s)\<lparr>op_tx := Some opening_tx\<rparr>\<rparr>
      in solvency_advance (te_sample e ()) (case te_event e of
        TakerOpened _ sw \<Rightarrow> solvency_swap opening_tx e sw s
      | TakerAdjusted _ sw _ _ \<Rightarrow> solvency_swap opening_tx e sw s
      | TakerClosed _ sw _ _ _ _ \<Rightarrow> solvency_swap opening_tx e sw s
      | MarginTransferred d total_margin \<Rightarrow> margin_transferred e d total_margin s
      | BadDebtAccounted _ _ after \<Rightarrow> add_since (MarginSince 0 1) (debt_restated e after s)
      | LossSocialized _ _ after \<Rightarrow> debt_restated e after s
      | Donated _ _ debt _ \<Rightarrow> add_since (MarginSince 0 1) (debt_restated e debt s)
      | _ \<Rightarrow> s))"

definition solvency_combine :: "solvency \<Rightarrow> solvency \<Rightarrow> solvency" where
  "solvency_combine s later =
     (let transfer_in_opening = (case (latest_get (sv_transfer_in_tx s), op_tx (sv_opening later)) of
            (Some (tx, nonpositive), Some first_tx) \<Rightarrow> if tx = first_tx then Some nonpositive else None
          | _ \<Rightarrow> None);
          m = sv_margin later;
          m = (if transfer_in_opening = Some True
               then m\<lparr>st_since := MarginSince (usdc_saturating_sub (ms_fees_removed (st_since m)) (op_provisional (sv_opening later)))
                      (ms_unemitted (st_since m))\<rparr>
               else m)
      in \<lparr>sv_margin = stated_combine (sv_margin s) m,
          sv_debt = stated_combine (sv_debt s) (sv_debt later),
          sv_transfer_in_tx = latest_combine (sv_transfer_in_tx s) (sv_transfer_in_tx later),
          sv_opening = opening_combine (sv_opening s) (sv_opening later) (st_value m \<noteq> None) (transfer_in_opening \<noteq> None),
          sv_margin_stated = series_combine (sv_margin_stated s) (sv_margin_stated later),
          sv_debt_stated = series_combine (sv_debt_stated s) (sv_debt_stated later),
          sv_deposited = sv_deposited s + sv_deposited later\<rparr>)"

subsection \<open>What an event does, one step for each field\<close>

definition removed_of :: "market_event \<Rightarrow> usdc_atoms" where
  "removed_of ev = (case taker_swap_of ev of None \<Rightarrow> 0
    | Some sw \<Rightarrow> si_protocol_fee (tsw_info sw) + si_creator_fee (tsw_info sw) + si_insurance_fee (tsw_info sw))"

definition margin_said :: "market_event \<Rightarrow> usdc_atoms option" where
  "margin_said ev = (case ev of MarginTransferred _ total_margin \<Rightarrow> Some total_margin | _ \<Rightarrow> None)"

definition debt_said :: "market_event \<Rightarrow> usdc_atoms option" where
  "debt_said ev = (case ev of BadDebtAccounted _ _ after \<Rightarrow> Some after | LossSocialized _ _ after \<Rightarrow> Some after
    | Donated _ _ debt _ \<Rightarrow> Some debt | _ \<Rightarrow> None)"

definition transfer_said :: "tape_event \<Rightarrow> (u256 \<times> bool) option" where
  "transfer_said e = (case te_event e of MarginTransferred d _ \<Rightarrow> Some (te_tx_hash e, is_neg (usdc_d d) \<or> usdc_d d = 0) | _ \<Rightarrow> None)"

definition deposit_said :: "market_event \<Rightarrow> usdc_atoms" where
  "deposit_said ev = (case ev of MarginTransferred d _ \<Rightarrow> if is_neg (usdc_d d) then 0 else usdc_magnitude d | _ \<Rightarrow> 0)"

definition insured_swap :: "market_event \<Rightarrow> u32" where
  "insured_swap ev = (case taker_swap_of ev of None \<Rightarrow> 0 | Some sw \<Rightarrow> if si_insurance_fee (tsw_info sw) \<noteq> 0 then 1 else 0)"

definition unemitted_of :: "market_event \<Rightarrow> u32" where
  "unemitted_of ev = (case ev of BadDebtAccounted _ _ _ \<Rightarrow> 1 | Donated _ _ _ _ \<Rightarrow> 1 | _ \<Rightarrow> 0)"

text \<open>The fees a swap removes after the last transfer \<open>tr\<close>, and whether the transfer is of its own transaction.\<close>

definition removal :: "(u256 \<times> bool) option \<Rightarrow> tape_event \<Rightarrow> usdc_atoms" where
  "removal tr e = (if \<not> is_taker_opened (te_event e) \<and> tr = Some (te_tx_hash e, True) then 0 else removed_of (te_event e))"

definition provisional_removal :: "(u256 \<times> bool) option \<Rightarrow> u256 \<Rightarrow> tape_event \<Rightarrow> usdc_atoms" where
  "provisional_removal tr first_tx e =
     (if te_tx_hash e = first_tx \<and> map_option fst tr \<noteq> Some (te_tx_hash e) \<and> \<not> is_taker_opened (te_event e)
      then removal tr e else 0)"

definition margin_step :: "(u256 \<times> bool) option \<Rightarrow> (usdc_atoms, margin_since) stated \<Rightarrow> tape_event \<Rightarrow> (usdc_atoms, margin_since) stated" where
  "margin_step tr m e = stated_step m (case margin_said (te_event e) of Some v \<Rightarrow> Inl v
     | None \<Rightarrow> Inr (MarginSince (removal tr e) (unemitted_of (te_event e))))"

definition opening_step :: "(u256 \<times> bool) option \<Rightarrow> tx_opening \<Rightarrow> tape_event \<Rightarrow> tx_opening" where
  "opening_step tr o' e =
     (let first_tx = (case op_tx o' of None \<Rightarrow> te_tx_hash e | Some tx \<Rightarrow> tx)
      in \<lparr>op_tx = Some first_tx,
          op_provisional = (if margin_said (te_event e) \<noteq> None then 0 else op_provisional o' + provisional_removal tr first_tx e)\<rparr>)"

lemma solvency_swap_fields:
  assumes "taker_swap_of (te_event e) = Some \<lparr>tsw_pos_id = p, tsw_action = act, tsw_info = sw\<rparr>"
  shows "solvency_swap first_tx e sw s = s
    \<lparr>sv_debt := (sv_debt s)\<lparr>st_since := st_since (sv_debt s) + insured_swap (te_event e)\<rparr>,
     sv_margin := (sv_margin s)\<lparr>st_since := st_since (sv_margin s) + MarginSince (removal (latest_get (sv_transfer_in_tx s)) e) 0\<rparr>,
     sv_opening := (sv_opening s)\<lparr>op_provisional := op_provisional (sv_opening s)
       + provisional_removal (latest_get (sv_transfer_in_tx s)) first_tx e\<rparr>\<rparr>"
proof -
  have z: "MarginSince 0 0 = 0" by (simp add: zero_margin_since_def)
  show ?thesis using assms
    by (cases "latest_get (sv_transfer_in_tx s)")
      (auto simp: solvency_swap_def fees_removed_after_statement_def add_since_def removal_def provisional_removal_def
        removed_of_def insured_swap_def z Let_def)
qed

lemma solvency_apply_fields:
  "sv_margin (solvency_apply s e) = margin_step (latest_get (sv_transfer_in_tx s)) (sv_margin s) e" (is ?margin)
  "sv_debt (solvency_apply s e) = stated_step (sv_debt s) (case debt_said (te_event e) of Some v \<Rightarrow> Inl v | None \<Rightarrow> Inr (insured_swap (te_event e)))" (is ?debt)
  "sv_transfer_in_tx (solvency_apply s e) = latest_step (sv_transfer_in_tx s) (transfer_said e)" (is ?transfer)
  "sv_opening (solvency_apply s e) = opening_step (latest_get (sv_transfer_in_tx s)) (sv_opening s) e" (is ?open)
  "sv_margin_stated (solvency_apply s e) = series_step (sv_margin_stated s) (te_sample e (margin_said (te_event e)))" (is ?margins)
  "sv_debt_stated (solvency_apply s e) = series_step (sv_debt_stated s) (te_sample e (debt_said (te_event e)))" (is ?debts)
  "sv_deposited (solvency_apply s e) = sv_deposited s + deposit_said (te_event e)" (is ?deposit)
proof -
  have z: "MarginSince 0 0 = 0" by (simp add: zero_margin_since_def)
  note said = margin_said_def debt_said_def transfer_said_def deposit_said_def unemitted_of_def
  have "?margin \<and> ?debt \<and> ?transfer \<and> ?open \<and> ?margins \<and> ?debts \<and> ?deposit"
  proof (cases "taker_swap_of (te_event e)")
    case (Some sw)
    obtain p act info where sw: "sw = \<lparr>tsw_pos_id = p, tsw_action = act, tsw_info = info\<rparr>" by (cases sw) auto
    note f = solvency_swap_fields[OF Some[unfolded sw]]
    show ?thesis using Some sw f
      by (cases "te_event e")
        (simp_all add: taker_swap_of_def said margin_step_def opening_step_def stated_step_def latest_step_def series_step_def
          solvency_apply_def solvency_advance_def Let_def)
  next
    case None
    then have n: "removed_of (te_event e) = 0" "insured_swap (te_event e) = 0" by (simp_all add: removed_of_def insured_swap_def)
    then have r: "removal tr e = 0" "provisional_removal tr x e = 0" for tr x by (simp_all add: removal_def provisional_removal_def)
    show ?thesis using None
      by (cases "te_event e")
        (simp_all add: taker_swap_of_def said insured_swap_def r z margin_step_def opening_step_def stated_step_def latest_step_def series_step_def
          solvency_apply_def solvency_advance_def add_since_def debt_restated_def margin_transferred_def Let_def)
  qed
  then show ?margin ?debt ?transfer ?open ?margins ?debts ?deposit by blast+
qed

subsection \<open>The later segment on its own\<close>

abbreviation solvency_run :: "solvency \<Rightarrow> tape_event list \<Rightarrow> solvency" where
  "solvency_run \<equiv> foldl solvency_apply"

definition first_tx_of :: "tape_event list \<Rightarrow> u256 option" where
  "first_tx_of b = (if b = [] then None else Some (te_tx_hash (hd b)))"

lemma first_tx_of_snoc: "first_tx_of (b @ [e]) = Some (case first_tx_of b of None \<Rightarrow> te_tx_hash e | Some t \<Rightarrow> t)"
  by (simp add: first_tx_of_def)

text \<open>All the fees swaps could remove over a segment, as an integer.\<close>

definition removable :: "tape_event list \<Rightarrow> int" where
  "removable b = sum_list (map (\<lambda>e. uint (usdc (removed_of (te_event e)))) b)"

lemma removable_snoc: "removable (b @ [e]) = removable b + uint (usdc (removed_of (te_event e)))"
  by (simp add: removable_def)

text \<open>The tapes the law is kept on: a transaction is not taken up again after another, and a segment's fees fit their width.\<close>

definition solvency_follows :: "solvency \<Rightarrow> tape_event list \<Rightarrow> bool" where
  "solvency_follows s b \<longleftrightarrow>
     series_follows (sv_margin_stated s) (map (\<lambda>e. te_sample e (margin_said (te_event e))) b)
     \<and> series_follows (sv_debt_stated s) (map (\<lambda>e. te_sample e (debt_said (te_event e))) b)
     \<and> tx_first (map_option fst (latest_get (sv_transfer_in_tx s))) b \<and> tx_first (op_tx (sv_opening s)) b
     \<and> tx_first (first_tx_of b) b \<and> removable b < 2 ^ 128
     \<and> (op_tx (sv_opening s) = None \<longrightarrow> sv_opening s = opening_default
          \<and> (\<forall>e \<in> set b. map_option fst (latest_get (sv_transfer_in_tx s)) \<noteq> Some (te_tx_hash e)))"

lemma removable_nonneg: "0 \<le> removable b"
  by (induction b) (simp_all add: removable_def)

lemma first_tx_snoc:
  "tx_first (first_tx_of (b @ [e])) (b @ [e]) \<longleftrightarrow>
    tx_first (first_tx_of b) b \<and> (first_tx_of b = Some (te_tx_hash e) \<longrightarrow> (\<forall>d \<in> set b. te_tx_hash d = te_tx_hash e))"
proof (cases b)
  case (Cons x xs)
  then have "first_tx_of (b @ [e]) = first_tx_of b" by (simp add: first_tx_of_def)
  moreover have "first_tx_of b = Some (te_tx_hash x)" by (simp add: Cons first_tx_of_def)
  ultimately show ?thesis by (auto simp: tx_first_snoc)
qed (simp add: first_tx_of_def tx_first_def)

lemma solvency_follows_snoc:
  assumes "solvency_follows s (b @ [e])"
  shows "solvency_follows s b"
    and "\<And>d. map_option fst (latest_get (sv_transfer_in_tx s)) = Some (te_tx_hash e) \<Longrightarrow> d \<in> set b \<Longrightarrow> te_tx_hash d = te_tx_hash e"
    and "\<And>d. op_tx (sv_opening s) = Some (te_tx_hash e) \<Longrightarrow> d \<in> set b \<Longrightarrow> te_tx_hash d = te_tx_hash e"
    and "\<And>d. first_tx_of b = Some (te_tx_hash e) \<Longrightarrow> d \<in> set b \<Longrightarrow> te_tx_hash d = te_tx_hash e"
    and "op_tx (sv_opening s) = None \<Longrightarrow> map_option fst (latest_get (sv_transfer_in_tx s)) \<noteq> Some (te_tx_hash e)"
    and "removable (b @ [e]) < 2 ^ 128"
proof -
  note a = assms[unfolded solvency_follows_def]
  have "series_follows (sv_margin_stated s) (map (\<lambda>e. te_sample e (margin_said (te_event e))) b)"
    "series_follows (sv_debt_stated s) (map (\<lambda>e. te_sample e (debt_said (te_event e))) b)"
    using a series_follows_prefix unfolding map_append by blast+
  moreover have "removable b < 2 ^ 128"
    using a uint_ge_0[of "usdc (removed_of (te_event e))"] unfolding removable_snoc by linarith
  moreover have "tx_first (first_tx_of b) b" using a unfolding first_tx_snoc by blast
  ultimately show "solvency_follows s b"
    using a unfolding solvency_follows_def tx_first_snoc set_append by blast
  show "\<And>d. first_tx_of b = Some (te_tx_hash e) \<Longrightarrow> d \<in> set b \<Longrightarrow> te_tx_hash d = te_tx_hash e"
    using a unfolding first_tx_snoc by blast
  have b: "tx_first (map_option fst (latest_get (sv_transfer_in_tx s))) (b @ [e])" "tx_first (op_tx (sv_opening s)) (b @ [e])"
    using a by blast+
  show "\<And>d. map_option fst (latest_get (sv_transfer_in_tx s)) = Some (te_tx_hash e) \<Longrightarrow> d \<in> set b \<Longrightarrow> te_tx_hash d = te_tx_hash e"
    using b(1) by (cases "latest_get (sv_transfer_in_tx s)") (auto simp: tx_first_snoc)
  show "\<And>d. op_tx (sv_opening s) = Some (te_tx_hash e) \<Longrightarrow> d \<in> set b \<Longrightarrow> te_tx_hash d = te_tx_hash e"
    using b(2) by (simp add: tx_first_snoc)
  show "op_tx (sv_opening s) = None \<Longrightarrow> map_option fst (latest_get (sv_transfer_in_tx s)) \<noteq> Some (te_tx_hash e)"
    using a by auto
  show "removable (b @ [e]) < 2 ^ 128" using a by blast
qed

lemma uint_add_fits: "uint a + uint b < 2 ^ 128 \<Longrightarrow> uint (a + b) = uint a + uint b" for a b :: u128
  by (simp add: uint_word_ariths mod_pos_pos_trivial)

lemma transfer_said_iff: "transfer_said e = None \<longleftrightarrow> margin_said (te_event e) = None" "transfer_said e = Some t \<Longrightarrow> fst t = te_tx_hash e"
  by (cases "te_event e"; simp add: transfer_said_def margin_said_def) (auto simp: transfer_said_def split: market_event.splits)

definition later_ok :: "tape_event list \<Rightarrow> solvency \<Rightarrow> bool" where
  "later_ok b d \<longleftrightarrow> op_tx (sv_opening d) = first_tx_of b \<and>
     (case latest_get (sv_transfer_in_tx d) of
        None \<Rightarrow> st_value (sv_margin d) = None \<and> \<not> st_stated (sv_margin d)
          \<and> usdc (op_provisional (sv_opening d)) \<le> usdc (ms_fees_removed (st_since (sv_margin d)))
          \<and> uint (usdc (ms_fees_removed (st_since (sv_margin d)))) \<le> removable b
      | Some t \<Rightarrow> st_value (sv_margin d) \<noteq> None \<and> st_stated (sv_margin d) \<and> op_provisional (sv_opening d) = 0
          \<and> (\<exists>x \<in> set b. te_tx_hash x = fst t))"

text \<open>An event that states no margin total.\<close>

lemma unstated_step:
  assumes "margin_said (te_event e) = None"
  shows "latest_get (sv_transfer_in_tx (solvency_apply s e)) = latest_get (sv_transfer_in_tx s)"
    and "sv_margin (solvency_apply s e) = (sv_margin s)\<lparr>st_since := st_since (sv_margin s)
      + MarginSince (removal (latest_get (sv_transfer_in_tx s)) e) (unemitted_of (te_event e))\<rparr>"
    and "sv_opening (solvency_apply s e) =
      \<lparr>op_tx = Some (case op_tx (sv_opening s) of None \<Rightarrow> te_tx_hash e | Some tx \<Rightarrow> tx),
       op_provisional = op_provisional (sv_opening s) + provisional_removal (latest_get (sv_transfer_in_tx s))
         (case op_tx (sv_opening s) of None \<Rightarrow> te_tx_hash e | Some tx \<Rightarrow> tx) e\<rparr>"
  using assms transfer_said_iff(1)[of e]
  by (simp_all add: solvency_apply_fields latest_step_def margin_step_def stated_step_def opening_step_def Let_def)

text \<open>One that does.\<close>

lemma stated_total_step:
  assumes "margin_said (te_event e) = Some v"
  shows "\<exists>t. latest_get (sv_transfer_in_tx (solvency_apply s e)) = Some t \<and> fst t = te_tx_hash e"
    and "sv_margin (solvency_apply s e) = \<lparr>st_value = Some v, st_stated = True, st_since = 0\<rparr>"
    and "sv_opening (solvency_apply s e) =
      \<lparr>op_tx = Some (case op_tx (sv_opening s) of None \<Rightarrow> te_tx_hash e | Some tx \<Rightarrow> tx), op_provisional = 0\<rparr>"
proof -
  obtain t where "transfer_said e = Some t" using assms transfer_said_iff(1)[of e] by fastforce
  then show "\<exists>t. latest_get (sv_transfer_in_tx (solvency_apply s e)) = Some t \<and> fst t = te_tx_hash e"
    using transfer_said_iff(2)[of e t] by (simp add: solvency_apply_fields latest_step_def latest_set_def)
  show "sv_margin (solvency_apply s e) = \<lparr>st_value = Some v, st_stated = True, st_since = 0\<rparr>"
    "sv_opening (solvency_apply s e) =
      \<lparr>op_tx = Some (case op_tx (sv_opening s) of None \<Rightarrow> te_tx_hash e | Some tx \<Rightarrow> tx), op_provisional = 0\<rparr>"
    using assms by (simp_all add: solvency_apply_fields margin_step_def stated_step_def stated_state_def opening_step_def Let_def)
qed

lemma ms_simps [simp]:
  "ms_fees_removed (a + b) = ms_fees_removed a + ms_fees_removed b" "ms_unemitted (a + b) = ms_unemitted a + ms_unemitted b"
  "ms_fees_removed 0 = 0" "ms_unemitted 0 = 0"
  by (simp_all add: plus_margin_since_def zero_margin_since_def)

lemma usdc_simps [simp]: "usdc (a + b) = usdc a + usdc b" "usdc 0 = 0"
  by (simp_all add: plus_usdc_atoms_def zero_usdc_atoms_def)

text \<open>A later segment that has seen a transfer removes nothing on the strength of having seen none.\<close>

lemma seen_no_provisional:
  assumes "later_ok b d" "latest_get (sv_transfer_in_tx d) = Some t"
    and "\<And>x. first_tx_of b = Some (te_tx_hash e) \<Longrightarrow> x \<in> set b \<Longrightarrow> te_tx_hash x = te_tx_hash e"
  shows "provisional_removal (Some t) (case op_tx (sv_opening d) of None \<Rightarrow> te_tx_hash e | Some tx \<Rightarrow> tx) e = 0"
proof -
  obtain y where y: "y \<in> set b" "te_tx_hash y = fst t" and tx: "op_tx (sv_opening d) = first_tx_of b"
    using assms by (auto simp: later_ok_def)
  then obtain x where x: "first_tx_of b = Some x" by (cases b) (simp_all add: first_tx_of_def)
  have "fst t = te_tx_hash e" if "x = te_tx_hash e" using assms(3)[OF _ y(1)] y(2) x that by simp
  then show ?thesis by (auto simp: provisional_removal_def tx x)
qed

lemma later_run:
  assumes "solvency_follows s b"
  shows "later_ok b (solvency_run solvency_default b)"
  using assms
proof (induction b rule: rev_induct)
  case Nil
  then show ?case
    by (simp add: later_ok_def solvency_default_def opening_default_def latest_default_def stated_default_def first_tx_of_def
        removable_def)
next
  case (snoc e b)
  let ?d = "solvency_run solvency_default b"
  note f = solvency_follows_snoc[OF snoc.prems]
  have ok: "later_ok b ?d" using snoc.IH f(1) by blast
  have tx: "op_tx (sv_opening ?d) = first_tx_of b" using ok by (simp add: later_ok_def)
  show ?case
  proof (cases "margin_said (te_event e)")
    case (Some v)
    show ?thesis using stated_total_step[OF Some, of ?d] by (auto simp: later_ok_def tx first_tx_of_snoc)
  next
    case None
    note u = unstated_step[OF None, of ?d]
    show ?thesis
    proof (cases "latest_get (sv_transfer_in_tx ?d)")
      case (Some t)
      show ?thesis using ok Some u seen_no_provisional[OF ok Some f(4)]
        by (simp add: later_ok_def tx first_tx_of_snoc)
    next
      case tn: None
      let ?fees = "usdc (ms_fees_removed (st_since (sv_margin ?d)))" and ?prov = "usdc (op_provisional (sv_opening ?d))"
        and ?r = "usdc (removed_of (te_event e))"
      have r: "removal None e = removed_of (te_event e)" by (simp add: removal_def)
      have small: "uint ?fees + uint ?r < 2 ^ 128" and le: "uint ?prov \<le> uint ?fees" "uint ?fees \<le> removable b"
        using ok tn f(6) by (simp_all add: later_ok_def removable_snoc word_le_def)
      then have sum: "uint (?fees + ?r) = uint ?fees + uint ?r" by (intro uint_add_fits)
      have "uint (?prov + ?r) = uint ?prov + uint ?r" using small le(1) by (intro uint_add_fits) linarith
      then have "uint (?prov + ?r) \<le> uint (?fees + ?r)" using le(1) unfolding sum by linarith
      moreover have "uint ?prov \<le> uint (?fees + ?r)" using le(1) uint_ge_0[of ?r] unfolding sum by linarith
      ultimately have "uint (?prov + x) \<le> uint (?fees + ?r)" if "x = 0 \<or> x = ?r" for x
        using that by (elim disjE) simp_all
      then have "?prov + usdc (provisional_removal None z e) \<le> ?fees + ?r" for z
        by (simp add: word_le_def provisional_removal_def r)
      then show ?thesis using ok tn u sum le(2) by (simp add: later_ok_def tx first_tx_of_snoc r removable_snoc)
    qed
  qed
qed

subsection \<open>The law\<close>

text \<open>What combining takes back of the later segment's removals.\<close>

definition taken_back :: "(u256 \<times> bool) option \<Rightarrow> solvency \<Rightarrow> usdc_atoms" where
  "taken_back tr later = (if op_tx (sv_opening later) \<noteq> None \<and> tr = map_option (\<lambda>t. (t, True)) (op_tx (sv_opening later))
     then op_provisional (sv_opening later) else 0)"

lemma usdc_saturating_sub_0 [simp]: "usdc_saturating_sub a 0 = a"
  by (simp add: usdc_saturating_sub_def saturating_sub_def)

lemma solvency_combine_fields:
  "sv_margin (solvency_combine s later) = stated_combine (sv_margin s) ((sv_margin later)
     \<lparr>st_since := MarginSince (usdc_saturating_sub (ms_fees_removed (st_since (sv_margin later)))
         (taken_back (latest_get (sv_transfer_in_tx s)) later)) (ms_unemitted (st_since (sv_margin later)))\<rparr>)" (is ?m)
  "sv_opening (solvency_combine s later) = opening_combine (sv_opening s) (sv_opening later) (st_value (sv_margin later) \<noteq> None)
     (op_tx (sv_opening later) \<noteq> None \<and> map_option fst (latest_get (sv_transfer_in_tx s)) = op_tx (sv_opening later))" (is ?o)
proof -
  have eta: "m\<lparr>st_since := MarginSince (ms_fees_removed (st_since m)) (ms_unemitted (st_since m))\<rparr> = m" for m :: "(usdc_atoms, margin_since) stated"
    by simp
  have "?m \<and> ?o"
  proof (cases "op_tx (sv_opening later)")
    case None
    then show ?thesis by (simp add: solvency_combine_def taken_back_def eta Let_def option.case_eq_if split: prod.split)
  next
    case (Some first)
    show ?thesis
    proof (cases "latest_get (sv_transfer_in_tx s)")
      case None
      then show ?thesis using Some by (simp add: solvency_combine_def taken_back_def eta Let_def)
    next
      case t: (Some t)
      obtain tx np where "t = (tx, np)" by force
      then show ?thesis using Some t by (cases np; cases "tx = first") (simp_all add: solvency_combine_def taken_back_def eta Let_def ex_bool_eq)
    qed
  qed
  then show ?m ?o by blast+
qed

lemma transfer_across:
  "latest_get (sv_transfer_in_tx (solvency_run p b)) = (case latest_get (sv_transfer_in_tx (solvency_run solvency_default b)) of
     None \<Rightarrow> latest_get (sv_transfer_in_tx p) | Some t \<Rightarrow> Some t)"
proof -
  have run: "sv_transfer_in_tx (solvency_run s b) = foldl latest_step (sv_transfer_in_tx s) (map transfer_said b)" for s
    by (rule foldl_field, rule solvency_apply_fields)
  have "sv_transfer_in_tx (solvency_run p b) = latest_combine (sv_transfer_in_tx p) (sv_transfer_in_tx (solvency_run solvency_default b))"
    unfolding run by (simp add: solvency_default_def latest.segment)
  then show ?thesis by (auto simp: latest_combine_def split: option.split)
qed

lemma usdc_saturating_sub_le: "usdc b \<le> usdc a \<Longrightarrow> usdc_saturating_sub a b = UsdcAtoms (usdc a - usdc b)"
  by (simp add: usdc_saturating_sub_def saturating_sub_def)

lemma usdc_zero_saturating_sub [simp]: "usdc_saturating_sub 0 b = 0"
  by (simp add: usdc_saturating_sub_def saturating_sub_def zero_usdc_atoms_def)

text \<open>One event's removal, taken back or kept.\<close>

lemma removal_across:
  assumes fol: "solvency_follows p (b @ [e])" and none: "margin_said (te_event e) = None"
  defines "d \<equiv> solvency_run solvency_default b" and "tp \<equiv> latest_get (sv_transfer_in_tx p)"
  shows "usdc_saturating_sub (ms_fees_removed (st_since (sv_margin (solvency_apply d e)))) (taken_back tp (solvency_apply d e))
    = usdc_saturating_sub (ms_fees_removed (st_since (sv_margin d))) (taken_back tp d)
      + removal (latest_get (sv_transfer_in_tx (solvency_run p b))) e"
proof -
  note f = solvency_follows_snoc[OF fol]
  have ok: "later_ok b d" and ok': "later_ok (b @ [e]) (solvency_apply d e)"
    using later_run[OF f(1)] later_run[OF fol] by (simp_all add: d_def)
  have tx: "op_tx (sv_opening d) = first_tx_of b" using ok by (simp add: later_ok_def)
  note u = unstated_step[OF none, of d]
  show ?thesis
  proof (cases "latest_get (sv_transfer_in_tx d)")
    case (Some t)
    have "op_provisional (sv_opening d) = 0" "op_provisional (sv_opening (solvency_apply d e)) = 0"
      using ok ok' Some u(1) by (simp_all add: later_ok_def)
    then have "taken_back tp d = 0" "taken_back tp (solvency_apply d e) = 0" by (simp_all add: taken_back_def)
    then show ?thesis using Some u(2) transfer_across[of p b] by (simp add: d_def)
  next
    case td: None
    let ?X = "te_tx_hash e" and ?R = "removed_of (te_event e)"
    let ?T = "case first_tx_of b of None \<Rightarrow> ?X | Some t \<Rightarrow> t"
    have tq: "latest_get (sv_transfer_in_tx (solvency_run p b)) = tp" using td transfer_across[of p b] by (simp add: d_def tp_def)
    have le: "usdc (op_provisional (sv_opening d)) \<le> usdc (ms_fees_removed (st_since (sv_margin d)))"
      "usdc (op_provisional (sv_opening (solvency_apply d e))) \<le> usdc (ms_fees_removed (st_since (sv_margin (solvency_apply d e))))"
      using ok ok' td u(1) by (simp_all add: later_ok_def)
    have r: "removal None e = ?R" by (simp add: removal_def)
    have F: "ms_fees_removed (st_since (sv_margin (solvency_apply d e))) = ms_fees_removed (st_since (sv_margin d)) + ?R"
      using u(2) td by (simp add: r)
    have O: "op_tx (sv_opening (solvency_apply d e)) = Some ?T"
      "op_provisional (sv_opening (solvency_apply d e)) = op_provisional (sv_opening d) + provisional_removal None ?T e"
      using u(3) td by (simp_all add: tx)
    have fresh: "op_provisional (sv_opening d) = 0" if "first_tx_of b = None"
      using that by (simp add: d_def first_tx_of_def solvency_default_def opening_default_def split: if_splits)
    show ?thesis
    proof (cases "tp = Some (?T, True)")
      case True
      have B: "taken_back tp d = op_provisional (sv_opening d)" "taken_back tp (solvency_apply d e) = op_provisional (sv_opening (solvency_apply d e))"
        using True fresh by (auto simp: taken_back_def tx O split: option.splits)
      have "removal tp e = (if ?X = ?T \<and> \<not> is_taker_opened (te_event e) then 0 else ?R)"
        "provisional_removal None ?T e = (if ?X = ?T \<and> \<not> is_taker_opened (te_event e) then ?R else 0)"
        using True by (auto simp: removal_def provisional_removal_def)
      then show ?thesis
        unfolding B tq using le by (auto simp: usdc_saturating_sub_le F O plus_usdc_atoms_def zero_usdc_atoms_def)
    next
      case False
      have "taken_back tp d = 0" "taken_back tp (solvency_apply d e) = 0"
        using False by (auto simp: taken_back_def tx O split: option.splits)
      moreover have "removal tp e = ?R"
      proof -
        have "?T = ?X" if "tp = Some (?X, True)"
          using f(2) that by (cases b) (auto simp: tp_def first_tx_of_def)
        then show ?thesis using False by (auto simp: removal_def)
      qed
      ultimately show ?thesis by (simp add: tq F)
    qed
  qed
qed

lemma margin_across:
  assumes "solvency_follows p b"
  shows "sv_margin (solvency_run p b) = sv_margin (solvency_combine p (solvency_run solvency_default b))"
  using assms
proof (induction b rule: rev_induct)
  case Nil
  then show ?case
    by (simp add: solvency_combine_fields solvency_default_def opening_default_def stated_combine_def stated_default_def taken_back_def
        zero_margin_since_def[symmetric])
next
  case (snoc e b)
  let ?d = "solvency_run solvency_default b" and ?q = "solvency_run p b"
  note f = solvency_follows_snoc[OF snoc.prems]
  note IH = snoc.IH[OF f(1)]
  show ?case
  proof (cases "margin_said (te_event e)")
    case (Some v)
    show ?thesis
      using stated_total_step(2)[OF Some, of ?d] stated_total_step(2)[OF Some, of ?q]
      by (simp add: solvency_combine_fields stated_combine_def zero_margin_since_def[symmetric])
  next
    case None
    have "sv_margin (solvency_apply ?q e) = (sv_margin ?q)\<lparr>st_since := st_since (sv_margin ?q)
        + MarginSince (removal (latest_get (sv_transfer_in_tx ?q)) e) (unemitted_of (te_event e))\<rparr>"
      by (rule unstated_step(2)[OF None])
    then show ?thesis
      using removal_across[OF snoc.prems None] unstated_step(2)[OF None, of ?d]
      by (simp add: IH solvency_combine_fields stated_combine_def plus_margin_since_def add.assoc)
  qed
qed

lemma opening_across:
  assumes "solvency_follows p b"
  shows "sv_opening (solvency_run p b) = sv_opening (solvency_combine p (solvency_run solvency_default b))"
  using assms
proof (induction b rule: rev_induct)
  case Nil
  then show ?case
    by (cases "op_tx (sv_opening p)")
      (simp_all add: solvency_combine_fields solvency_default_def opening_combine_def opening_default_def stated_default_def solvency_follows_def)
next
  case (snoc e b)
  let ?d = "solvency_run solvency_default b" and ?q = "solvency_run p b" and ?X = "te_tx_hash e"
  note f = solvency_follows_snoc[OF snoc.prems]
  note IH = snoc.IH[OF f(1)]
  have ok: "later_ok b ?d" using later_run[OF f(1)] .
  have tx: "op_tx (sv_opening ?d) = first_tx_of b" using ok by (simp add: later_ok_def)
  show ?case
  proof (cases "margin_said (te_event e)")
    case (Some v)
    show ?thesis
      using stated_total_step(2,3)[OF Some, of ?d] stated_total_step(3)[OF Some, of ?q]
      by (auto simp: solvency_combine_fields opening_combine_def IH tx split: option.splits)
  next
    case None
    note d = unstated_step[OF None, of ?d] and q = unstated_step[OF None, of ?q]
    let ?T = "case first_tx_of b of None \<Rightarrow> ?X | Some t \<Rightarrow> t" and ?tp = "latest_get (sv_transfer_in_tx p)"
    have d': "sv_opening (solvency_apply ?d e) = \<lparr>op_tx = Some ?T,
        op_provisional = op_provisional (sv_opening ?d) + provisional_removal (latest_get (sv_transfer_in_tx ?d)) ?T e\<rparr>"
      "st_value (sv_margin (solvency_apply ?d e)) = st_value (sv_margin ?d)" using d(2,3) by (simp_all add: tx)
    show ?thesis
    proof (cases "op_tx (sv_opening p)")
      case none: None
      have "provisional_removal (latest_get (sv_transfer_in_tx ?q)) ?T e = provisional_removal (latest_get (sv_transfer_in_tx ?d)) ?T e"
        using f(5)[OF none] transfer_across[of p b]
        by (cases "latest_get (sv_transfer_in_tx ?d)") (auto simp: provisional_removal_def removal_def)
      then show ?thesis using none q(3) by (simp add: IH solvency_combine_fields opening_combine_def d' tx)
    next
      case P: (Some P)
      show ?thesis
      proof (cases "latest_get (sv_transfer_in_tx ?d)")
        case (Some t)
        have stated: "st_value (sv_margin ?d) \<noteq> None" "op_provisional (sv_opening ?d) = 0" using ok Some by (simp_all add: later_ok_def)
        have "provisional_removal (Some t) P e = 0"
          using ok Some f(3) P by (force simp: later_ok_def provisional_removal_def)
        then show ?thesis
          using P Some q(3) stated transfer_across[of p b] seen_no_provisional[OF ok Some f(4)]
          by (simp add: IH solvency_combine_fields opening_combine_def d' tx)
      next
        case td: None
        have unstated: "st_value (sv_margin ?d) = None" using ok td by (simp add: later_ok_def)
        have tq: "latest_get (sv_transfer_in_tx ?q) = ?tp" using td transfer_across[of p b] by simp
        have fresh: "op_provisional (sv_opening ?d) = 0" if "first_tx_of b = None"
          using that by (simp add: first_tx_of_def solvency_default_def opening_default_def split: if_splits)
        have q': "sv_opening (solvency_apply ?q e) = \<lparr>op_tx = Some P,
            op_provisional = op_provisional (sv_opening ?q) + provisional_removal ?tp P e\<rparr>"
          using q(3) P by (simp add: IH tq solvency_combine_fields opening_combine_def)
        show ?thesis
        proof (cases "?X = P")
          case True
          then have T: "?T = P" "first_tx_of b \<noteq> None \<Longrightarrow> first_tx_of b = Some P"
            using f(3) P by (auto simp: first_tx_of_def)
          have "provisional_removal ?tp P e = (if map_option fst ?tp = Some P then 0 else provisional_removal None P e)"
            using True by (auto simp: provisional_removal_def removal_def)
          then show ?thesis using T P unstated fresh td
            by (cases "first_tx_of b") (auto simp: q' IH solvency_combine_fields opening_combine_def d' tx add.assoc)
        next
          case False
          then have "provisional_removal ?tp P e = 0" "provisional_removal None P e = 0" by (simp_all add: provisional_removal_def)
          then show ?thesis using P unstated False td
            by (cases "first_tx_of b") (auto simp: q' IH solvency_combine_fields opening_combine_def d' tx)
        qed
      qed
    qed
  qed
qed

lemma solvency_segment:
  assumes "solvency_follows p b"
  shows "solvency_combine p (solvency_run solvency_default b) = solvency_run p b"
proof (rule solvency.equality)
  let ?d = "solvency_run solvency_default b"
  have run: "sv_debt (solvency_run s b) = foldl stated_step (sv_debt s)
      (map (\<lambda>e. case debt_said (te_event e) of Some v \<Rightarrow> Inl v | None \<Rightarrow> Inr (insured_swap (te_event e))) b)"
    "sv_transfer_in_tx (solvency_run s b) = foldl latest_step (sv_transfer_in_tx s) (map transfer_said b)"
    "sv_margin_stated (solvency_run s b) = foldl series_step (sv_margin_stated s) (map (\<lambda>e. te_sample e (margin_said (te_event e))) b)"
    "sv_debt_stated (solvency_run s b) = foldl series_step (sv_debt_stated s) (map (\<lambda>e. te_sample e (debt_said (te_event e))) b)"
    "sv_deposited (solvency_run s b) = foldl (+) (sv_deposited s) (map (\<lambda>e. deposit_said (te_event e)) b)" for s
    by (rule foldl_field, rule solvency_apply_fields)+
  have fol: "series_follows (sv_margin_stated p) (map (\<lambda>e. te_sample e (margin_said (te_event e))) b)"
    "series_follows (sv_debt_stated p) (map (\<lambda>e. te_sample e (debt_said (te_event e))) b)"
    using assms by (simp_all add: solvency_follows_def)
  show "sv_margin (solvency_combine p ?d) = sv_margin (solvency_run p b)" using margin_across[OF assms] by simp
  show "sv_opening (solvency_combine p ?d) = sv_opening (solvency_run p b)" using opening_across[OF assms] by simp
  show "sv_debt (solvency_combine p ?d) = sv_debt (solvency_run p b)"
    unfolding run(1)[of p] using stated.segment run(1)[of solvency_default] by (simp add: solvency_combine_def Let_def solvency_default_def)
  show "sv_transfer_in_tx (solvency_combine p ?d) = sv_transfer_in_tx (solvency_run p b)"
    unfolding run(2)[of p] using latest.segment run(2)[of solvency_default] by (simp add: solvency_combine_def Let_def solvency_default_def)
  show "sv_margin_stated (solvency_combine p ?d) = sv_margin_stated (solvency_run p b)"
    unfolding run(3)[of p] using series_segment[OF fol(1)] run(3)[of solvency_default]
    by (simp add: solvency_combine_def Let_def solvency_default_def)
  show "sv_debt_stated (solvency_combine p ?d) = sv_debt_stated (solvency_run p b)"
    unfolding run(4)[of p] using series_segment[OF fol(2)] run(4)[of solvency_default]
    by (simp add: solvency_combine_def Let_def solvency_default_def)
  have "foldl (+) (a + c) xs = a + foldl (+) c xs" for a c :: usdc_atoms and xs
    by (induction xs arbitrary: c) (simp_all add: add.assoc)
  from this[of "sv_deposited p" 0] show "sv_deposited (solvency_combine p ?d) = sv_deposited (solvency_run p b)"
    unfolding run(5)[of p] using run(5)[of solvency_default] by (simp add: solvency_combine_def Let_def solvency_default_def)
qed simp

interpretation solvency: point_fold solvency_default solvency_apply solvency_combine solvency_follows te_point
proof
  fix p b e
  show pre: "solvency_follows p b" if "solvency_follows p (b @ [e])" by (rule solvency_follows_snoc(1)[OF that])
  show "solvency_combine p solvency_default = p" if "solvency_follows p []" using solvency_segment[OF that] by simp
  show "solvency_combine p (solvency_apply (solvency_run solvency_default b) e) = solvency_apply (solvency_combine p (solvency_run solvency_default b)) e"
    if "solvency_follows p (b @ [e])"
    using solvency_segment[OF that] solvency_segment[OF pre[OF that]] by simp
qed

end
