(* ===== verification/Market_Tape.thy ===== *)
theory Market_Tape
  imports Market_Events Value_Series
begin

text \<open>
  \<open>src/src/history/tape/mod.rs\<close>, \<open>view.rs\<close> and \<open>custody.rs\<close>: the record of a market in chain order, the runs it is cut
  into, the lookups over it, and the custody of positions folded from it. A tape is its list of rows; what \<open>Tape::new\<close> checks is
  \<open>tape_ok\<close>, and everything after rests on it.
\<close>

subsection \<open>The code: the tape\<close>

datatype tape_refusal = SecondRow | NotAfter | SecondHash | SecondTimestamp | EarlierTimestamp

record invalid_tape =
  iv_block :: u64
  iv_log_index :: u64
  iv_reason :: tape_refusal

record mined_log =
  ml_block_number :: "u64 option"
  ml_block_hash :: "u256 option"
  ml_log_index :: "u64 option"
  ml_tx_hash :: "u256 option"

definition stamped :: "mined_log \<Rightarrow> market_event \<Rightarrow> u64 \<Rightarrow> tape_event result" where
  "stamped l ev timestamp = (case (ml_block_number l, ml_block_hash l, ml_log_index l, ml_tx_hash l) of
      (Some n, Some h, Some i, Some t) \<Rightarrow>
        Inr \<lparr>te_block_number = n, te_block_hash = h, te_log_index = i, te_timestamp = timestamp, te_tx_hash = t, te_event = ev\<rparr>
    | _ \<Rightarrow> Inl DecodeFailed)"

definition refusal :: "tape_event \<Rightarrow> tape_event \<Rightarrow> tape_refusal option" where
  "refusal prior row =
     (let same_block = te_block_number row = te_block_number prior in
      if te_point row = te_point prior then Some SecondRow
      else if te_point row < te_point prior then Some NotAfter
      else if same_block \<and> te_block_hash row \<noteq> te_block_hash prior then Some SecondHash
      else if same_block \<and> te_timestamp row \<noteq> te_timestamp prior then Some SecondTimestamp
      else if te_timestamp row < te_timestamp prior then Some EarlierTimestamp
      else None)"

definition row_follows :: "tape_event \<Rightarrow> tape_event \<Rightarrow> invalid_tape + unit" where
  "row_follows prior row = (case refusal prior row of
      Some reason \<Rightarrow> Inl \<lparr>iv_block = te_block_number row, iv_log_index = te_log_index row, iv_reason = reason\<rparr>
    | None \<Rightarrow> Inr ())"

fun check_rows :: "tape_event list \<Rightarrow> invalid_tape + unit" where
  "check_rows (a # b # rows) = (case row_follows a b of Inl e \<Rightarrow> Inl e | Inr _ \<Rightarrow> check_rows (b # rows))"
| "check_rows _ = Inr ()"

definition tape_new :: "tape_event list \<Rightarrow> invalid_tape + tape_event list" where
  "tape_new rows = (case check_rows rows of Inl e \<Rightarrow> Inl e | Inr _ \<Rightarrow> Inr rows)"

definition tape_push :: "tape_event \<Rightarrow> tape_event list \<Rightarrow> bool \<times> tape_event list" where
  "tape_push row t = (if t \<noteq> [] \<and> row_follows (last t) row \<noteq> Inr () then (False, t) else (True, t @ [row]))"

definition tape_append :: "tape_event list \<Rightarrow> tape_event list \<Rightarrow> invalid_tape + tape_event list" where
  "tape_append t later =
     (if t \<noteq> [] \<and> later \<noteq> [] then (case row_follows (last t) (hd later) of Inl e \<Rightarrow> Inl e | Inr _ \<Rightarrow> Inr (t @ later))
      else Inr (t @ later))"

definition tape_collect :: "tape_event list \<Rightarrow> invalid_tape + tape_event list" where
  "tape_collect rows = tape_new (remdups_adj (sort_key te_point rows))"

subsection \<open>The code: runs of a tape\<close>

definition tape_span :: "tape_event list \<Rightarrow> (chain_point \<times> chain_point) option" where
  "tape_span t = (if t = [] then None else Some (te_point (hd t), te_point (last t)))"

fun chunk_by :: "('a \<Rightarrow> 'a \<Rightarrow> bool) \<Rightarrow> 'a list \<Rightarrow> 'a list list" where
  "chunk_by P [] = []"
| "chunk_by P [x] = [[x]]"
| "chunk_by P (x # y # xs) = (case chunk_by P (y # xs) of
      [] \<Rightarrow> [[x]]
    | c # cs \<Rightarrow> if P x y then (x # c) # cs else [x] # c # cs)"

definition tape_blocks :: "tape_event list \<Rightarrow> tape_event list list" where
  "tape_blocks = chunk_by (\<lambda>a b. te_block_number a = te_block_number b)"

definition tape_transactions :: "tape_event list \<Rightarrow> tape_event list list" where
  "tape_transactions = chunk_by (\<lambda>a b. te_block_number a = te_block_number b \<and> te_tx_hash a = te_tx_hash b)"

function tape_windows :: "u64 \<Rightarrow> tape_event list \<Rightarrow> tape_event list list" where
  "tape_windows secs t =
     (if t = [] then []
      else let n = max 1 (partition_point (\<lambda>row. te_timestamp row < saturating_add (te_timestamp (hd t)) secs) t)
           in take n t # tape_windows secs (drop n t))"
  by pat_completeness auto
termination by (relation "measure (length \<circ> snd)") auto

text \<open>The walk that moves a cut to the end of its block.\<close>

function block_edge :: "tape_event list \<Rightarrow> nat \<Rightarrow> nat" where
  "block_edge t n =
     (if n < length t \<and> te_block_number (t ! n) = te_block_number (t ! (n - 1)) then block_edge t (n + 1) else n)"
  by pat_completeness auto
termination by (relation "measure (\<lambda>(t, n). length t - n)") auto

lemma block_edge_ge: "n \<le> block_edge t n"
proof (induction t n rule: block_edge.induct)
  case (1 t n)
  then show ?case by (subst block_edge.simps) (auto simp del: block_edge.simps)
qed

declare block_edge.simps [simp del] tape_windows.simps [simp del]

function cut_segments :: "nat \<Rightarrow> tape_event list \<Rightarrow> tape_event list list" where
  "cut_segments target t =
     (if t = [] then []
      else let n = block_edge t (min (max 1 target) (length t))
           in take n t # cut_segments target (drop n t))"
  by pat_completeness auto
termination
proof (relation "measure (length \<circ> snd)")
  fix target and t :: "tape_event list" and n
  assume "t \<noteq> []" "n = block_edge t (min (max 1 target) (length t))"
  then have "1 \<le> n" using block_edge_ge[of "min (max 1 target) (length t)" t] by (cases t) simp_all
  then show "((target, drop n t), target, t) \<in> measure (length \<circ> snd)" using \<open>t \<noteq> []\<close> by (cases t) simp_all
qed simp

definition tape_segments :: "nat \<Rightarrow> tape_event list \<Rightarrow> tape_event list list" where
  "tape_segments parts t = cut_segments (max 1 ((length t + (max 1 parts - 1)) div max 1 parts)) t"

text \<open>Lookups. The binary search of a slice finds the row at the point, which a tape has at most once.\<close>

definition tape_at :: "chain_point \<Rightarrow> tape_event list \<Rightarrow> tape_event option" where
  "tape_at p t = (let i = partition_point (\<lambda>row. te_point row < p) t
     in if i < length t \<and> te_point (t ! i) = p then Some (t ! i) else None)"

datatype 'k bound = Included 'k | Excluded 'k | Unbounded

definition tape_within :: "'k::linorder bound \<Rightarrow> 'k bound \<Rightarrow> (tape_event \<Rightarrow> 'k) \<Rightarrow> tape_event list \<Rightarrow> tape_event list" where
  "tape_within lo hi key t =
     (let start = (case lo of Included k \<Rightarrow> partition_point (\<lambda>row. key row < k) t
            | Excluded k \<Rightarrow> partition_point (\<lambda>row. key row \<le> k) t | Unbounded \<Rightarrow> 0);
          stop = (case hi of Included k \<Rightarrow> partition_point (\<lambda>row. key row \<le> k) t
            | Excluded k \<Rightarrow> partition_point (\<lambda>row. key row < k) t | Unbounded \<Rightarrow> length t)
      in take (max start stop - start) (drop start t))"

definition tape_between :: "chain_point bound \<Rightarrow> chain_point bound \<Rightarrow> tape_event list \<Rightarrow> tape_event list" where
  "tape_between lo hi = tape_within lo hi te_point"

definition tape_in_blocks :: "u64 bound \<Rightarrow> u64 bound \<Rightarrow> tape_event list \<Rightarrow> tape_event list" where
  "tape_in_blocks lo hi = tape_within lo hi te_block_number"

definition tape_in_time :: "u64 bound \<Rightarrow> u64 bound \<Rightarrow> tape_event list \<Rightarrow> tape_event list" where
  "tape_in_time lo hi = tape_within lo hi te_timestamp"

declare cut_segments.simps [simp del]

subsection \<open>What the checks establish\<close>

definition follows_row :: "tape_event \<Rightarrow> tape_event \<Rightarrow> bool" where
  "follows_row a b \<longleftrightarrow> te_point a < te_point b \<and> te_timestamp a \<le> te_timestamp b
     \<and> (te_block_number a = te_block_number b \<longrightarrow> te_block_hash a = te_block_hash b \<and> te_timestamp a = te_timestamp b)"

definition tape_ok :: "tape_event list \<Rightarrow> bool" where
  "tape_ok t \<longleftrightarrow> sorted_wrt follows_row t"

lemma refusal_None: "refusal a b = None \<longleftrightarrow> follows_row a b"
proof (cases "te_point a < te_point b")
  case True
  then have "te_point b \<noteq> te_point a" "\<not> te_point b < te_point a" by auto
  then show ?thesis using True
    by (cases "te_block_number b = te_block_number a"; cases "te_block_hash b = te_block_hash a"; cases "te_timestamp b = te_timestamp a")
      (auto simp: refusal_def follows_row_def Let_def not_less)
next
  case False
  then have "te_point b = te_point a \<or> te_point b < te_point a" by auto
  then show ?thesis using False by (auto simp: refusal_def follows_row_def Let_def)
qed

lemma row_follows_Inr: "row_follows a b = Inr () \<longleftrightarrow> follows_row a b"
  by (auto simp: row_follows_def refusal_None[symmetric] split: option.split)

lemma point_less_block: "te_point a < te_point b \<Longrightarrow> te_block_number a \<le> te_block_number b"
  by (auto simp: te_point_def less_chain_point_def)

lemma follows_row_trans: "follows_row a b \<Longrightarrow> follows_row b c \<Longrightarrow> follows_row a c"
proof -
  assume a: "follows_row a b" "follows_row b c"
  then have "te_block_number a \<le> te_block_number b" "te_block_number b \<le> te_block_number c"
    by (simp_all add: follows_row_def point_less_block)
  then have "te_block_number b = te_block_number c" if "te_block_number a = te_block_number c" using that by simp
  moreover have "te_point a < te_point c" using a by (auto simp: follows_row_def)
  moreover have "te_timestamp a \<le> te_timestamp c" using a by (auto simp: follows_row_def)
  ultimately show "follows_row a c" using a by (simp add: follows_row_def)
qed

lemma tape_ok_Cons: "tape_ok (a # t) \<longleftrightarrow> (t = [] \<or> follows_row a (hd t)) \<and> tape_ok t"
proof (cases t)
  case (Cons b t')
  then show ?thesis using follows_row_trans by (auto simp: tape_ok_def)
qed (simp add: tape_ok_def)

lemma tape_ok_append: "tape_ok (a @ b) \<longleftrightarrow> tape_ok a \<and> tape_ok b \<and> (a = [] \<or> b = [] \<or> follows_row (last a) (hd b))"
proof (induction a)
  case (Cons x a)
  then show ?case by (cases a; cases b) (auto simp: tape_ok_Cons)
qed (simp add: tape_ok_def)

lemma check_rows_Inr: "check_rows rows = Inr () \<longleftrightarrow> tape_ok rows"
proof (induction rows rule: check_rows.induct)
  case (1 a b rows)
  then show ?case
    by (cases "row_follows a b") (simp_all add: tape_ok_Cons[of a] row_follows_Inr[symmetric])
qed (simp_all add: tape_ok_def)

lemma tape_new_Inr: "tape_new rows = Inr t \<longleftrightarrow> tape_ok rows \<and> t = rows"
  using check_rows_Inr[of rows] by (auto simp: tape_new_def split: sum.splits)

text \<open>A refusal names the first row that does not follow the one before it.\<close>

lemma check_rows_Inl:
  "check_rows rows = Inl e \<longleftrightarrow> (\<exists>xs a b ys. rows = xs @ a # b # ys \<and> tape_ok (xs @ [a]) \<and> row_follows a b = Inl e)"
proof (induction rows rule: check_rows.induct)
  case (1 a b rows)
  show ?case
  proof (cases "row_follows a b")
    case (Inl f)
    then have n: "\<not> follows_row a b" by (simp add: row_follows_Inr[symmetric])
    show ?thesis
    proof
      assume "check_rows (a # b # rows) = Inl e"
      then have "a # b # rows = [] @ a # b # rows \<and> tape_ok ([] @ [a]) \<and> row_follows a b = Inl e" using Inl by (simp add: tape_ok_def)
      then show "\<exists>xs c d ys. a # b # rows = xs @ c # d # ys \<and> tape_ok (xs @ [c]) \<and> row_follows c d = Inl e" by blast
    next
      assume "\<exists>xs c d ys. a # b # rows = xs @ c # d # ys \<and> tape_ok (xs @ [c]) \<and> row_follows c d = Inl e"
      then obtain xs c d ys where x: "a # b # rows = xs @ c # d # ys" "tape_ok (xs @ [c])" "row_follows c d = Inl e" by blast
      have "xs = []"
      proof (rule ccontr)
        assume "xs \<noteq> []"
        then obtain xs' where xs': "xs = a # xs'" using x(1) by (cases xs) auto
        then have "hd (xs' @ [c]) = b" using x(1) by (cases xs') auto
        then show False using x(2) n by (simp add: xs' tape_ok_Cons)
      qed
      then show "check_rows (a # b # rows) = Inl e" using x by simp
    qed
  next
    case (Inr u)
    then have f: "follows_row a b" by (simp add: row_follows_Inr[symmetric])
    have "(\<exists>xs c d ys. a # b # rows = xs @ c # d # ys \<and> tape_ok (xs @ [c]) \<and> row_follows c d = Inl e)
      \<longleftrightarrow> (\<exists>xs c d ys. b # rows = xs @ c # d # ys \<and> tape_ok (xs @ [c]) \<and> row_follows c d = Inl e)" (is "?l \<longleftrightarrow> ?r")
    proof
      assume ?l
      then obtain xs c d ys where x: "a # b # rows = xs @ c # d # ys" "tape_ok (xs @ [c])" "row_follows c d = Inl e" by blast
      then obtain xs' where "xs = a # xs'" using Inr by (cases xs) auto
      then show ?r using x by (auto simp: tape_ok_Cons)
    next
      assume ?r
      then obtain xs c d ys where x: "b # rows = xs @ c # d # ys" "tape_ok (xs @ [c])" "row_follows c d = Inl e" by blast
      have "hd (xs @ [c]) = b" using x(1) by (cases xs) auto
      then have "tape_ok ((a # xs) @ [c])" using x(2) f by (simp add: tape_ok_Cons)
      then show ?l using x by (metis append_Cons)
    qed
    then show ?thesis using 1 Inr by (cases u) simp
  qed
qed auto

lemma tape_push_ok:
  assumes "tape_ok t"
  shows "tape_push row t = (if tape_ok (t @ [row]) then (True, t @ [row]) else (False, t))"
  using assms by (auto simp: tape_push_def row_follows_Inr tape_ok_append tape_ok_def[of "[row]"])

lemma tape_append_ok:
  assumes "tape_ok t" "tape_ok later"
  shows "tape_append t later = Inr t' \<longleftrightarrow> tape_ok (t @ later) \<and> t' = t @ later"
proof -
  have "row_follows (last t) (hd later) = Inr u \<longleftrightarrow> follows_row (last t) (hd later)" for u
    using row_follows_Inr by (cases u) simp
  then show ?thesis
    using assms by (auto simp: tape_append_def tape_ok_append split: sum.splits)
qed

subsection \<open>Collecting\<close>

lemma tape_points_sorted: "tape_ok t \<Longrightarrow> sorted_wrt (<) (map te_point t)"
  by (auto simp: tape_ok_def sorted_wrt_map follows_row_def elim: sorted_wrt_mono_rel[rotated])

lemma tape_points_distinct: "tape_ok t \<Longrightarrow> inj_on te_point (set t)"
  using tape_points_sorted[of t] by (simp add: strict_sorted_iff distinct_map)

lemma remdups_adj_strict:
  "sorted (map f xs) \<Longrightarrow> inj_on f (set xs) \<Longrightarrow> sorted_wrt (\<lambda>x y. f x < f y) (remdups_adj xs)"
proof (induction xs rule: remdups_adj.induct)
  case (3 x y xs)
  then show ?case
  proof (cases "x = y")
    case True
    then show ?thesis using 3 by (simp add: inj_on_def)
  next
    case False
    then have "f x < f y" using 3(3,4) by (auto simp: less_le inj_on_def)
    moreover have "\<forall>z \<in> set (y # xs). f y \<le> f z" using 3(3) by auto
    ultimately have "\<forall>z \<in> set (y # xs). f x < f z" using less_le_trans by blast
    moreover have "sorted (map f (y # xs))" "inj_on f (set (y # xs))" using 3(3,4) by (simp_all add: inj_on_def)
    ultimately show ?thesis using 3(2)[OF False] False by simp
  qed
qed simp_all

lemma tape_collect_Inr: "tape_collect rows = Inr t \<longleftrightarrow> tape_ok t \<and> set t = set rows"
proof
  assume "tape_collect rows = Inr t"
  then show "tape_ok t \<and> set t = set rows" by (auto simp: tape_collect_def tape_new_Inr)
next
  assume t: "tape_ok t \<and> set t = set rows"
  let ?s = "remdups_adj (sort_key te_point rows)"
  have inj: "inj_on te_point (set rows)" and st: "sorted_wrt (<) (map te_point t)"
    using t tape_points_distinct[of t] tape_points_sorted[of t] by auto
  have "sorted_wrt (\<lambda>x y. te_point x < te_point y) ?s" by (rule remdups_adj_strict) (use inj in simp_all)
  then have "sorted_wrt (<) (map te_point ?s)" by (simp add: sorted_wrt_map)
  moreover have "set (map te_point ?s) = set (map te_point t)" using t by simp
  ultimately have m: "map te_point ?s = map te_point t" using st by (intro strict_sorted_equal) blast+
  have "?s = t" by (rule map_inj_on[OF m]) (use t inj in simp)
  then show "tape_collect rows = Inr t" using t by (simp add: tape_collect_def tape_new_Inr)
qed

subsection \<open>Runs\<close>

lemma concat_chunk_by: "concat (chunk_by P xs) = xs"
  by (induction P xs rule: chunk_by.induct) (auto split: list.splits)

lemma chunk_by_nonempty: "c \<in> set (chunk_by P xs) \<Longrightarrow> c \<noteq> []"
proof (induction P xs arbitrary: c rule: chunk_by.induct)
  case (3 P x y xs)
  then show ?case by (auto split: list.splits if_splits)
qed auto

text \<open>Within a run neighbours are alike, across a border they are not.\<close>

lemma chunk_by_alike: "c \<in> set (chunk_by P xs) \<Longrightarrow> Suc i < length c \<Longrightarrow> P (c ! i) (c ! Suc i)"
proof (induction P xs arbitrary: c i rule: chunk_by.induct)
  case (3 P x y xs)
  have "chunk_by P (y # xs) \<noteq> []" using concat_chunk_by[of P "y # xs"] by fastforce
  then obtain d ds where d: "chunk_by P (y # xs) = d # ds" by (auto simp: neq_Nil_conv)
  have "d \<noteq> []" using chunk_by_nonempty[of d P "y # xs"] d by simp
  then have "hd d = y" using concat_chunk_by[of P "y # xs"] d by (cases d) auto
  then have "d ! 0 = y" using \<open>d \<noteq> []\<close> by (simp add: hd_conv_nth)
  then show ?case using 3 d by (cases i) (auto split: if_splits)
qed auto

lemma concat_tape_windows: "concat (tape_windows secs t) = t"
proof (induction secs t rule: tape_windows.induct)
  case (1 secs t)
  then show ?case by (subst tape_windows.simps) (auto simp: Let_def)
qed

lemma tape_windows_span:
  "w \<in> set (tape_windows secs t) \<Longrightarrow> w \<noteq> [] \<and>
    (\<forall>row \<in> set (tl w). te_timestamp row < saturating_add (te_timestamp (hd w)) secs)"
proof (induction secs t rule: tape_windows.induct)
  case (1 secs t)
  show ?case
  proof (cases "t = []")
    case True
    then show ?thesis using 1(2) by (simp add: tape_windows.simps)
  next
    case False
    let ?P = "\<lambda>row. te_timestamp row < saturating_add (te_timestamp (hd t)) secs"
    let ?n = "max 1 (partition_point ?P t)"
    consider "w = take ?n t" | "w \<in> set (tape_windows secs (drop ?n t))"
      using 1(2) False by (subst (asm) tape_windows.simps) (auto simp: Let_def)
    then show ?thesis
    proof cases
      case w: 1
      have ne: "w \<noteq> []" and hd: "hd w = hd t" using False w by (cases t; simp)+
      have "set (tl w) \<subseteq> set (takeWhile ?P t)"
      proof (cases "partition_point ?P t = 0")
        case True
        then have "w = [hd t]" using w False by (cases t) simp_all
        then show ?thesis by simp
      next
        case nz: False
        then have "?n = length (takeWhile ?P t)" unfolding partition_point_def by (intro max_absorb2) (simp add: Suc_le_eq)
        then have "w = takeWhile ?P t" using w by (simp only: takeWhile_eq_take[symmetric])
        then show ?thesis by (cases "takeWhile ?P t") auto
      qed
      then show ?thesis using ne unfolding hd by (auto dest: set_takeWhileD)
    next
      case 2
      then show ?thesis using 1(1)[OF False refl] by blast
    qed
  qed
qed

subsection \<open>Segments\<close>

lemma block_edge_le: "n \<le> length t \<Longrightarrow> block_edge t n \<le> length t"
proof (induction t n rule: block_edge.induct)
  case (1 t n)
  then show ?case by (subst block_edge.simps) auto
qed

lemma block_edge_cuts:
  "block_edge t n < length t \<Longrightarrow> te_block_number (t ! block_edge t n) \<noteq> te_block_number (t ! (block_edge t n - 1))"
proof (induction t n rule: block_edge.induct)
  case (1 t n)
  show ?case
  proof (cases "n < length t \<and> te_block_number (t ! n) = te_block_number (t ! (n - 1))")
    case True
    then have "block_edge t n = block_edge t (n + 1)" by (simp add: block_edge.simps[of t n])
    then show ?thesis using 1(1)[OF True] 1(2) by simp
  next
    case False
    then have "block_edge t n = n" by (subst block_edge.simps) (rule if_not_P)
    then show ?thesis using False 1(2) by simp
  qed
qed

lemma concat_cut_segments: "concat (cut_segments target t) = t"
proof (induction target t rule: cut_segments.induct)
  case (1 target t)
  then show ?case by (subst cut_segments.simps) (auto simp: Let_def)
qed

lemma cut_segments_nonempty: "s \<in> set (cut_segments target t) \<Longrightarrow> s \<noteq> []"
proof (induction target t rule: cut_segments.induct)
  case (1 target t)
  let ?n = "block_edge t (min (max 1 target) (length t))"
  have "1 \<le> ?n" if "t \<noteq> []" using block_edge_ge[of "min (max 1 target) (length t)" t] that by (cases t) simp_all
  then show ?case using 1 by (subst (asm) (2) cut_segments.simps) (auto simp: Let_def split: if_splits)
qed

text \<open>Every segment but the last has the target length, so there are as many as asked for at most.\<close>

lemma cut_segments_count: "target * (length (cut_segments target t) - 1) < length t \<or> t = []"
proof (induction target t rule: cut_segments.induct)
  case (1 target t)
  let ?n = "block_edge t (min (max 1 target) (length t))"
  show ?case
  proof (cases "t = []")
    case False
    have c: "cut_segments target t = take ?n t # cut_segments target (drop ?n t)" using False by (subst cut_segments.simps) (simp add: Let_def)
    show ?thesis
    proof (cases "drop ?n t = []")
      case True
      then show ?thesis using False by (simp add: c cut_segments.simps[of target "[]"])
    next
      case rest: False
      then have "target \<le> ?n" using block_edge_ge[of "min (max 1 target) (length t)" t] by (auto simp: min_def max_def split: if_splits)
      moreover have "target * (length (cut_segments target (drop ?n t)) - 1) < length t - ?n"
        using 1[OF False refl] rest by simp
      moreover have "length (cut_segments target (drop ?n t)) \<noteq> 0" using rest by (subst cut_segments.simps) (simp add: Let_def)
      ultimately have "target * length (cut_segments target (drop ?n t)) < length t"
        by (cases "length (cut_segments target (drop ?n t))") auto
      then show ?thesis by (simp add: c)
    qed
  qed simp
qed

lemma tape_segments_count: "length (tape_segments parts t) \<le> max 1 parts"
proof (cases "t = []")
  case True
  then show ?thesis by (simp add: tape_segments_def cut_segments.simps)
next
  case False
  let ?p = "max 1 parts"
  let ?target = "max 1 ((length t + (?p - 1)) div ?p)"
  have "length t \<le> ?p * ((length t + (?p - 1)) div ?p)"
  proof -
    have "length t + (?p - 1) < ?p + ?p * ((length t + (?p - 1)) div ?p)" by (rule dividend_less_times_div) simp
    then show ?thesis by linarith
  qed
  then have le: "length t \<le> ?p * ?target" by (metis le_trans max.cobounded2 mult_le_mono2)
  have "?target * (length (tape_segments parts t) - 1) < length t"
    using cut_segments_count[of ?target t] False by (simp add: tape_segments_def)
  then have "?target * (length (tape_segments parts t) - 1) < ?target * ?p"
    using le unfolding mult.commute[of ?p] by (rule less_le_trans)
  then have "length (tape_segments parts t) - 1 < ?p" by (simp only: mult_less_cancel1)
  then show ?thesis by linarith
qed

text \<open>A cut never falls inside a block: what comes after a segment is of other blocks.\<close>

lemma cut_segments_blocks:
  "tape_ok t \<Longrightarrow> cut_segments target t = xs @ s # ys \<Longrightarrow> a \<in> set s \<Longrightarrow> b \<in> set (concat ys) \<Longrightarrow> te_block_number a < te_block_number b"
proof (induction target t arbitrary: xs rule: cut_segments.induct)
  case (1 target t)
  let ?n = "block_edge t (min (max 1 target) (length t))"
  have ne: "t \<noteq> []" using 1(3) by (auto simp: cut_segments.simps)
  have c: "cut_segments target t = take ?n t # cut_segments target (drop ?n t)" using ne by (subst cut_segments.simps) (simp add: Let_def)
  have ok: "tape_ok (take ?n t)" "tape_ok (drop ?n t)"
    using 1(2) tape_ok_append[of "take ?n t" "drop ?n t"] by simp_all
  show ?case
  proof (cases xs)
    case Nil
    then have s: "s = take ?n t" "concat ys = drop ?n t" using 1(3) c concat_cut_segments[of target "drop ?n t"] by simp_all
    have n: "?n < length t" "0 < ?n"
      using 1(4,5) s by (auto simp: neq_Nil_conv intro: ccontr)
    have mono: "te_block_number (t ! i) \<le> te_block_number (t ! j)" if "i \<le> j" "j < length t" for i j
    proof (cases "i = j")
      case False
      then have "follows_row (t ! i) (t ! j)" using 1(2) that by (simp add: tape_ok_def sorted_wrt_iff_nth_less)
      then show ?thesis by (simp add: follows_row_def point_less_block)
    qed simp
    obtain i where i: "a = t ! i" "i < ?n" using 1(4) s by (auto simp: in_set_conv_nth)
    obtain j where j: "b = t ! (?n + j)" "?n + j < length t" using 1(5) s by (auto simp: in_set_conv_nth)
    have "te_block_number (t ! i) \<le> te_block_number (t ! (?n - 1))" using i n mono[of i "?n - 1"] by simp
    also have "\<dots> < te_block_number (t ! ?n)"
      using block_edge_cuts[OF n(1)] mono[of "?n - 1" ?n] n by simp
    also have "\<dots> \<le> te_block_number (t ! (?n + j))" using j mono[of ?n "?n + j"] by simp
    finally show ?thesis using i j by simp
  next
    case (Cons x xs')
    then show ?thesis using 1(1)[OF ne refl ok(2), of xs'] 1(3-5) c by simp
  qed
qed

subsection \<open>Lookups\<close>

text \<open>On a monotone key the rows before a bound are a prefix, so a search splits a tape as a filter does.\<close>

lemma partition_filter:
  "sorted_wrt (\<lambda>a b. P b \<longrightarrow> P a) t \<Longrightarrow> take (partition_point P t) t = filter P t \<and> drop (partition_point P t) t = filter (\<lambda>x. \<not> P x) t"
proof (induction t)
  case (Cons x t)
  show ?case
  proof (cases "P x")
    case True
    then show ?thesis using Cons by (simp add: partition_point_def)
  next
    case False
    then have "\<forall>y \<in> set t. \<not> P y" using Cons.prems by auto
    then show ?thesis using False by (simp add: partition_point_def filter_id_conv filter_empty_conv)
  qed
qed (simp add: partition_point_def)

lemma partition_drop_point:
  "sorted_wrt (\<lambda>a b. P b \<longrightarrow> P a) t \<Longrightarrow> partition_point P (drop n t) = partition_point P t - n"
proof (induction t arbitrary: n)
  case (Cons x t)
  have "partition_point P t = 0" if "\<not> P x" using Cons.prems that by (cases t) (auto simp: partition_point_def)
  then show ?case using Cons by (cases n) (auto simp: partition_point_def)
qed (simp add: partition_point_def)

definition in_bounds :: "'k::linorder bound \<Rightarrow> 'k bound \<Rightarrow> 'k \<Rightarrow> bool" where
  "in_bounds lo hi k \<longleftrightarrow> (case lo of Included l \<Rightarrow> l \<le> k | Excluded l \<Rightarrow> l < k | Unbounded \<Rightarrow> True)
     \<and> (case hi of Included h \<Rightarrow> k \<le> h | Excluded h \<Rightarrow> k < h | Unbounded \<Rightarrow> True)"

lemma tape_within_filter:
  assumes "sorted (map key t)"
  shows "tape_within lo hi key t = filter (\<lambda>row. in_bounds lo hi (key row)) t"
proof -
  define low where "low = (\<lambda>row. case lo of Included l \<Rightarrow> key row < l | Excluded l \<Rightarrow> key row \<le> l | Unbounded \<Rightarrow> False)"
  define high where "high = (\<lambda>row. case hi of Included h \<Rightarrow> key row \<le> h | Excluded h \<Rightarrow> key row < h | Unbounded \<Rightarrow> True)"
  have k: "sorted_wrt (\<lambda>a b. key a \<le> key b) t" using assms by (simp add: sorted_map)
  have mono: "sorted_wrt (\<lambda>a b. low b \<longrightarrow> low a) t" "sorted_wrt (\<lambda>a b. high b \<longrightarrow> high a) t"
    by (rule sorted_wrt_mono_rel[OF _ k]; auto simp: low_def high_def split: bound.split)+
  have const: "partition_point (\<lambda>_. False) t = 0" "partition_point (\<lambda>_. True) t = length t"
    by (simp_all add: partition_point_def takeWhile_eq_all_conv[THEN iffD2] takeWhile_eq_Nil_iff)
  have "tape_within lo hi key t = take (max (partition_point low t) (partition_point high t) - partition_point low t) (drop (partition_point low t) t)"
    by (cases lo; cases hi) (simp_all add: tape_within_def low_def high_def const Let_def)
  also have "\<dots> = take (partition_point high (drop (partition_point low t) t)) (drop (partition_point low t) t)"
    by (cases "partition_point low t \<le> partition_point high t") (simp_all add: partition_drop_point[OF mono(2)])
  also have "\<dots> = filter high (drop (partition_point low t) t)"
    using partition_filter[OF sorted_wrt_drop[OF mono(2)]] by blast
  also have "\<dots> = filter high (filter (\<lambda>row. \<not> low row) t)" using partition_filter[OF mono(1)] by simp
  also have "\<dots> = filter (\<lambda>row. in_bounds lo hi (key row)) t"
    by (auto simp: in_bounds_def low_def high_def not_less not_le conj_commute intro!: filter_cong split: bound.split)
  finally show ?thesis .
qed

lemma tape_keys_sorted:
  assumes "tape_ok t"
  shows "sorted (map te_point t)" "sorted (map te_block_number t)" "sorted (map te_timestamp t)"
  using assms unfolding tape_ok_def sorted_map
  by (auto elim!: sorted_wrt_mono_rel[rotated] simp: follows_row_def point_less_block)

lemma tape_lookups:
  assumes "tape_ok t"
  shows "tape_between lo hi t = filter (\<lambda>row. in_bounds lo hi (te_point row)) t"
    and "tape_in_blocks l h t = filter (\<lambda>row. in_bounds l h (te_block_number row)) t"
    and "tape_in_time l h t = filter (\<lambda>row. in_bounds l h (te_timestamp row)) t"
  using tape_keys_sorted[OF assms] by (simp_all add: tape_between_def tape_in_blocks_def tape_in_time_def tape_within_filter)

lemma tape_at_found:
  assumes "tape_ok t"
  shows "tape_at p t = Some row \<longleftrightarrow> row \<in> set t \<and> te_point row = p"
proof -
  let ?i = "partition_point (\<lambda>row. te_point row < p) t"
  have k: "sorted_wrt (\<lambda>a b. te_point a < te_point b) t" using tape_points_sorted[OF assms] by (simp add: sorted_wrt_map)
  have "sorted_wrt (\<lambda>a b. te_point b < p \<longrightarrow> te_point a < p) t" by (rule sorted_wrt_mono_rel[OF _ k]) auto
  then have d: "drop ?i t = filter (\<lambda>row. \<not> te_point row < p) t" by (simp add: partition_filter)
  have at: "t ! ?i = hd (drop ?i t)" if "?i < length t" using that by (simp add: hd_drop_conv_nth)
  have first: "te_point (hd (drop ?i t)) = p" if "row \<in> set t" "te_point row = p" for row
  proof -
    have m: "row \<in> set (drop ?i t)" using that d by simp
    then obtain x xs where x: "drop ?i t = x # xs" by (cases "drop ?i t") auto
    have "x \<in> set (drop ?i t)" by (simp add: x)
    then have "p \<le> te_point x" unfolding d by auto
    moreover have "sorted_wrt (\<lambda>a b. te_point a < te_point b) (x # xs)" using sorted_wrt_drop[OF k, of ?i] by (simp add: x)
    then have "te_point x \<le> te_point row" using m x by auto
    ultimately show ?thesis using that by (simp add: x)
  qed
  show ?thesis
  proof
    assume "tape_at p t = Some row"
    then show "row \<in> set t \<and> te_point row = p" by (auto simp: tape_at_def Let_def in_set_conv_nth split: if_splits)
  next
    assume r: "row \<in> set t \<and> te_point row = p"
    then have "row \<in> set (drop ?i t)" using d by simp
    then have i: "?i < length t" by (cases "?i < length t") simp_all
    then have "te_point (t ! ?i) = te_point row" using first[of row] r at[OF i] by simp
    moreover have "t ! ?i \<in> set t" using i by simp
    ultimately have "t ! ?i = row" using tape_points_distinct[OF assms] r by (meson inj_onD)
    then show "tape_at p t = Some row" using i r by (simp add: tape_at_def Let_def)
  qed
qed

end
