(* ===== verification/Custody_Fold.thy ===== *)
theory Custody_Fold
  imports Market_Tape Ordered_Map
begin

text \<open>
  \<open>src/src/history/tape/custody.rs\<close>: who held each position when, folded from the transfers of a tape, and the wallet set a
  question is scoped to. The merge of two maps key by key, which the custody and the positions share, comes first.
\<close>

subsection \<open>Merging maps in key order\<close>

abbreviation om_merge :: "('v option \<Rightarrow> 'w \<Rightarrow> 'v) \<Rightarrow> ('k::linorder, 'v) omap \<Rightarrow> ('k, 'w) omap \<Rightarrow> ('k, 'v) omap" where
  "om_merge g \<equiv> foldl (\<lambda>m (k, w). om_put k (g (map_of m k) w) m)"

lemma om_merge_ok: "om_ok m \<Longrightarrow> om_ok (om_merge g m l)"
  by (induction l arbitrary: m) (auto simp: om_ok_put)

lemma map_of_om_merge:
  "om_ok m \<Longrightarrow> om_ok l \<Longrightarrow>
    map_of (om_merge g m l) k = (case map_of l k of None \<Rightarrow> map_of m k | Some w \<Rightarrow> Some (g (map_of m k) w))"
proof (induction l arbitrary: m)
  case (Cons x l)
  obtain j w where x: "x = (j, w)" by force
  have "om_ok l" and j: "map_of l j = None" using Cons.prems(2) by (force simp: x om_ok_def map_of_eq_None_iff)+
  then have "map_of (om_merge g m (x # l)) k
      = (case map_of l k of None \<Rightarrow> map_of (om_put j (g (map_of m j) w) m) k
         | Some v \<Rightarrow> Some (g (map_of (om_put j (g (map_of m j) w) m) k) v))"
    using Cons.IH[OF om_ok_put[OF Cons.prems(1)], of j "g (map_of m j) w"] by (simp add: x)
  then show ?case using Cons.prems(1) j by (auto simp: x map_of_om_put split: option.split)
qed simp

subsection \<open>The code: wallets\<close>

type_synonym wallets = "account set"

definition wallets_one :: "account \<Rightarrow> wallets" where
  "wallets_one w = {w}"

definition wallets_contains :: "wallets \<Rightarrow> account \<Rightarrow> bool" where
  "wallets_contains s w \<longleftrightarrow> w \<in> s"

definition wallets_insert :: "account \<Rightarrow> wallets \<Rightarrow> bool \<times> wallets" where
  "wallets_insert w s = (w \<notin> s, insert w s)"

definition wallets_iter :: "wallets \<Rightarrow> account list" where
  "wallets_iter s = sorted_list_of_set s"

definition wallets_collect :: "account list \<Rightarrow> wallets" where
  "wallets_collect ws = set ws"

definition wallets_extend :: "account list \<Rightarrow> wallets \<Rightarrow> wallets" where
  "wallets_extend ws s = s \<union> set ws"

subsection \<open>The code: custody\<close>

type_synonym custody = "(u256, (chain_point \<times> account) list) omap"

definition span_or_default :: "(chain_point \<times> account) list option \<Rightarrow> (chain_point \<times> account) list" where
  "span_or_default s = (case s of None \<Rightarrow> [] | Some l \<Rightarrow> l)"

definition custody_apply :: "custody \<Rightarrow> tape_event \<Rightarrow> custody" where
  "custody_apply c e = (case te_event e of
      PositionTransferred _ to p \<Rightarrow> om_put p (span_or_default (map_of c p) @ [(te_point e, to)]) c
    | _ \<Rightarrow> c)"

definition custody_combine :: "custody \<Rightarrow> custody \<Rightarrow> custody" where
  "custody_combine c later = foldl (\<lambda>c (p, timeline). om_put p (span_or_default (map_of c p) @ timeline) c) c later"

definition owner_at :: "custody \<Rightarrow> u256 \<Rightarrow> chain_point \<Rightarrow> account option" where
  "owner_at c p at' = (case map_of c p of
      None \<Rightarrow> None
    | Some timeline \<Rightarrow>
        let held = take (partition_point (\<lambda>s. fst s \<le> at') timeline) timeline
        in if held = [] then None else if snd (last held) = 0 then None else Some (snd (last held)))"

definition latest_owner :: "custody \<Rightarrow> u256 \<Rightarrow> account option" where
  "latest_owner c p = (case map_of c p of
      None \<Rightarrow> None
    | Some timeline \<Rightarrow> List.find (\<lambda>owner. owner \<noteq> 0) (map snd (rev timeline)))"

definition held_by_at :: "custody \<Rightarrow> u256 \<Rightarrow> wallets \<Rightarrow> chain_point \<Rightarrow> bool" where
  "held_by_at c p ws at' = (case owner_at c p at' of None \<Rightarrow> False | Some w \<Rightarrow> wallets_contains ws w)"

definition custody_holder :: "custody \<Rightarrow> u256 \<Rightarrow> account option" where
  "custody_holder c p = (case map_of c p of
      None \<Rightarrow> None
    | Some timeline \<Rightarrow> if timeline = [] then None else if snd (last timeline) = 0 then None else Some (snd (last timeline)))"

definition custody_held_by :: "custody \<Rightarrow> u256 \<Rightarrow> wallets \<Rightarrow> bool" where
  "custody_held_by c p ws = (case custody_holder c p of None \<Rightarrow> False | Some w \<Rightarrow> wallets_contains ws w)"

definition custody_transfers :: "custody \<Rightarrow> u256 \<Rightarrow> (chain_point \<times> account) list" where
  "custody_transfers c p = span_or_default (map_of c p)"

definition custody_positions :: "custody \<Rightarrow> u256 list" where
  "custody_positions c = map fst c"

subsection \<open>The law\<close>

lemma custody_apply_ok: "om_ok c \<Longrightarrow> om_ok (custody_apply c e)"
  by (cases "te_event e") (simp_all add: custody_apply_def om_ok_put)

lemma custody_run_ok: "om_ok c \<Longrightarrow> om_ok (foldl custody_apply c b)"
  by (induction b arbitrary: c) (simp_all add: custody_apply_ok)

text \<open>What a tape says of one position.\<close>

definition transfer_of :: "u256 \<Rightarrow> tape_event \<Rightarrow> (chain_point \<times> account) list" where
  "transfer_of p e = (case te_event e of PositionTransferred _ to q \<Rightarrow> if q = p then [(te_point e, to)] else [] | _ \<Rightarrow> [])"

abbreviation transfers_of :: "u256 \<Rightarrow> tape_event list \<Rightarrow> (chain_point \<times> account) list" where
  "transfers_of p t \<equiv> concat (map (transfer_of p) t)"

definition or_none :: "'a list \<Rightarrow> 'a list option" where
  "or_none l = (if l = [] then None else Some l)"

lemma or_none_simps [simp]: "span_or_default (or_none l) = l" "or_none [] = None" "or_none l = None \<longleftrightarrow> l = []"
  by (auto simp: or_none_def span_or_default_def)

lemma map_of_custody_run:
  assumes "om_ok c"
  shows "map_of (foldl custody_apply c b) p
    = (if transfers_of p b = [] then map_of c p else Some (span_or_default (map_of c p) @ transfers_of p b))"
  using assms
proof (induction b arbitrary: c)
  case (Cons e b)
  have "map_of (custody_apply c e) p = (if transfer_of p e = [] then map_of c p else Some (span_or_default (map_of c p) @ transfer_of p e))"
    using Cons.prems by (cases "te_event e") (simp_all add: custody_apply_def transfer_of_def map_of_om_put)
  then show ?case using Cons.IH[OF custody_apply_ok[OF Cons.prems], of e] by (simp add: span_or_default_def)
qed simp

lemma custody_of_tape: "map_of (foldl custody_apply [] t) p = or_none (transfers_of p t)"
  by (simp add: map_of_custody_run om_ok_def or_none_def span_or_default_def)

abbreviation keyed_follows :: "('k::linorder, 'v) omap \<Rightarrow> 'e list \<Rightarrow> bool" where
  "keyed_follows m b \<equiv> om_ok m"

lemma custody_segment:
  assumes "om_ok c"
  shows "custody_combine c (foldl custody_apply [] b) = foldl custody_apply c b"
proof (rule omap_eqI)
  have empty: "om_ok ([] :: custody)" by (simp add: om_ok_def)
  show "om_ok (custody_combine c (foldl custody_apply [] b))"
    unfolding custody_combine_def by (rule om_merge_ok[OF assms, of "\<lambda>s t. span_or_default s @ t"])
  show "om_ok (foldl custody_apply c b)" by (rule custody_run_ok[OF assms])
  have "map_of (custody_combine c (foldl custody_apply [] b)) p = map_of (foldl custody_apply c b) p" for p
    unfolding custody_combine_def map_of_custody_run[OF assms]
      map_of_om_merge[OF assms custody_run_ok[OF empty], of "\<lambda>s t. span_or_default s @ t"] custody_of_tape
    by (simp add: or_none_def)
  then show "map_of (custody_combine c (foldl custody_apply [] b)) = map_of (foldl custody_apply c b)" by blast
qed

interpretation custody: point_fold "[] :: custody" custody_apply custody_combine keyed_follows te_point
proof
  fix c :: custody and b e
  show "custody_combine c [] = c" by (simp add: custody_combine_def)
  show "custody_combine c (custody_apply (foldl custody_apply [] b) e) = custody_apply (custody_combine c (foldl custody_apply [] b)) e"
    if "om_ok c"
    using custody_segment[OF that, of "b @ [e]"] custody_segment[OF that, of b] by simp
qed

subsection \<open>The owner at a point\<close>

lemma transfers_filter: "filter (\<lambda>s. P (fst s)) (transfers_of p t) = transfers_of p (filter (\<lambda>e. P (te_point e)) t)"
proof (induction t)
  case (Cons e t)
  have "filter (\<lambda>s. P (fst s)) (transfer_of p e) = (if P (te_point e) then transfer_of p e else [])"
    by (cases "te_event e") (simp_all add: transfer_of_def)
  then show ?case using Cons by simp
qed simp

lemma transfers_sorted: "tape_ok t \<Longrightarrow> sorted_wrt (\<lambda>a b. fst a < fst b) (transfers_of p t)"
proof (induction t)
  case (Cons e t)
  have points: "fst s \<in> te_point ` set t" if "s \<in> set (transfers_of p t)" for s
    using that by (induction t) (auto simp: transfer_of_def split: market_event.splits if_splits)
  have later: "te_point e < te_point x" if "x \<in> set t" for x using Cons.prems that by (simp add: tape_ok_def follows_row_def)
  have IH: "sorted_wrt (\<lambda>a b. fst a < fst b) (transfers_of p t)" using Cons by (simp add: tape_ok_def)
  have "transfer_of p e = [] \<or> (\<exists>to. transfer_of p e = [(te_point e, to)])"
    by (cases "te_event e") (simp_all add: transfer_of_def)
  then consider "transfer_of p e = []" | to where "transfer_of p e = [(te_point e, to)]" by blast
  then show ?case
  proof cases
    case 2
    have "te_point e < fst s" if "s \<in> set (transfers_of p t)" for s using points[OF that] later by auto
    then show ?thesis using IH by (simp add: 2)
  qed (simp add: IH)
qed simp

text \<open>The owner at a point is whom the last transfer up to it handed the position to.\<close>

lemma owner_at_tape:
  assumes "tape_ok t"
  shows "owner_at (foldl custody_apply [] t) p at' =
    (case rev (transfers_of p (filter (\<lambda>e. te_point e \<le> at') t)) of [] \<Rightarrow> None | s # _ \<Rightarrow> if snd s = 0 then None else Some (snd s))"
proof -
  let ?l = "transfers_of p t"
  define h where "h = transfers_of p (filter (\<lambda>e. te_point e \<le> at') t)"
  have "sorted_wrt (\<lambda>a b. fst b \<le> at' \<longrightarrow> fst a \<le> at') ?l"
    by (rule sorted_wrt_mono_rel[OF _ transfers_sorted[OF assms]]) auto
  then have held: "take (partition_point (\<lambda>s. fst s \<le> at') ?l) ?l = h"
    unfolding h_def by (simp add: partition_filter transfers_filter[where P = "\<lambda>q. q \<le> at'"])
  show ?thesis
    unfolding h_def[symmetric] owner_at_def custody_of_tape
  proof (cases "?l = []")
    case True
    then have "h = []" using held by (simp only: take_Nil)
    then show "(case or_none ?l of None \<Rightarrow> None
       | Some timeline \<Rightarrow> let held = take (partition_point (\<lambda>s. fst s \<le> at') timeline) timeline
           in if held = [] then None else if snd (last held) = 0 then None else Some (snd (last held))) =
      (case rev h of [] \<Rightarrow> None | s # _ \<Rightarrow> if snd s = 0 then None else Some (snd s))"
      unfolding True by simp
  next
    case False
    then have "or_none ?l = Some ?l" by (simp only: or_none_def if_False)
    then show "(case or_none ?l of None \<Rightarrow> None
       | Some timeline \<Rightarrow> let held = take (partition_point (\<lambda>s. fst s \<le> at') timeline) timeline
           in if held = [] then None else if snd (last held) = 0 then None else Some (snd (last held))) =
      (case rev h of [] \<Rightarrow> None | s # _ \<Rightarrow> if snd s = 0 then None else Some (snd s))"
      by (cases h rule: rev_exhaust) (simp_all add: held Let_def)
  qed
qed

end
