(* ===== verification/Positions_Fold.thy ===== *)
theory Positions_Fold
  imports Custody_Fold Activity_Fold Range_Liquidity
begin

text \<open>
  \<open>src/src/history/replay/positions.rs\<close>: every position a tape mentions, sized by its swaps and its liquidity changes. A
  segment that did not see an open, a price or a pool knows less; \<open>positions_combine\<close> supplies it from the segment before, and
  the segment law of \<open>Chain_Fold\<close> says that what results is what one fold of both would have known.
\<close>

subsection \<open>The code: one position\<close>

instance perp_delta :: comm_monoid_add
  by standard (auto simp: plus_perp_delta_def zero_perp_delta_def add_ac)

instance usdc_delta :: comm_monoid_add
  by standard (auto simp: plus_usdc_delta_def zero_usdc_delta_def add_ac)

datatype position_kind =
    UnknownKind
  | TakerKind perp_delta usdc_delta bool
  | MakerKind "tick_range option" l_delta bool "price option" perp_delta usdc_delta

definition l_delta_wrapping_add :: "l_delta \<Rightarrow> l_delta \<Rightarrow> l_delta" where
  "l_delta_wrapping_add a b = LDelta (l_delta a + l_delta b)"

definition opt_or :: "'a option \<Rightarrow> 'a option \<Rightarrow> 'a option" where
  "opt_or a b = (case a of None \<Rightarrow> b | Some _ \<Rightarrow> a)"

fun kind_combine :: "position_kind \<Rightarrow> position_kind \<Rightarrow> bool \<Rightarrow> position_kind" where
  "kind_combine k UnknownKind opened_here = k"
| "kind_combine UnknownKind k opened_here = k"
| "kind_combine (TakerKind m u s) (TakerKind m' u' s') opened_here = TakerKind (m + m') (u + u') (s \<or> s')"
| "kind_combine (MakerKind r l s d m u) (MakerKind r' l' s' d' m' u') opened_here =
     MakerKind (opt_or r r') (l_delta_wrapping_add l l') (s \<or> s') (if opened_here then d else d') (m + m') (u + u')"
| "kind_combine (MakerKind _ _ s _ m u) (TakerKind m' u' s') opened_here = TakerKind (m + m') (u + u') (s \<or> s')"
| "kind_combine (TakerKind m u s) (MakerKind _ _ s' _ m' u') opened_here = TakerKind (m + m') (u + u') (s \<or> s')"

record position_state =
  po_kind :: position_kind
  po_opened :: "chain_point first"
  po_last :: "chain_point latest"
  po_closed :: "chain_point first"
  po_liquidations :: u32
  po_margin :: "usdc_atoms option"
  po_unpriced :: u32

definition level_known :: "position_state \<Rightarrow> bool" where
  "level_known s = (case po_kind s of
      TakerKind _ _ sized \<Rightarrow> sized \<and> po_unpriced s = 0
    | MakerKind _ _ sized _ _ _ \<Rightarrow> sized
    | UnknownKind \<Rightarrow> False)"

definition position_is_open :: "position_state \<Rightarrow> bool" where
  "position_is_open s \<longleftrightarrow> \<not> first_is_set (po_closed s)"

definition taker_size :: "position_state \<Rightarrow> perp_delta option" where
  "taker_size s = (case po_kind s of
      TakerKind moved _ sized \<Rightarrow> if sized \<and> po_unpriced s = 0 then Some moved else None | _ \<Rightarrow> None)"

definition taker_usd :: "position_state \<Rightarrow> usdc_delta option" where
  "taker_usd s = (case po_kind s of
      TakerKind _ usd sized \<Rightarrow> if sized \<and> po_unpriced s = 0 then Some usd else None | _ \<Rightarrow> None)"

definition position_band :: "position_state \<Rightarrow> maker_band option" where
  "position_band s = (case po_kind s of
      MakerKind (Some r) l True _ _ _ \<Rightarrow>
        if 0 \<le> sint (l_delta l) \<and> l_delta l \<noteq> 0 then Some \<lparr>band_range = r, band_liquidity = LUnits (l_delta l)\<rparr> else None
    | _ \<Rightarrow> None)"

definition deposit_pool_price :: "position_state \<Rightarrow> price option" where
  "deposit_pool_price s = (case po_kind s of MakerKind _ _ _ d _ _ \<Rightarrow> d | _ \<Rightarrow> None)"

definition position_first :: "chain_point \<Rightarrow> position_state" where
  "position_first p = \<lparr>po_kind = UnknownKind, po_opened = first_default, po_last = latest_stated p, po_closed = first_default,
     po_liquidations = 0, po_margin = None, po_unpriced = 0\<rparr>"

datatype seed_position =
    SeedTaker perp_delta usdc_delta usdc_atoms
  | SeedMaker tick_range l_delta perp_delta usdc_delta usdc_atoms
  | SeedUnknown usdc_atoms

fun position_seeded :: "seed_position \<Rightarrow> position_state" where
  "position_seeded (SeedTaker moved usd margin) = \<lparr>po_kind = TakerKind moved usd True, po_opened = first_default, po_last = latest_default,
     po_closed = first_default, po_liquidations = 0, po_margin = Some margin, po_unpriced = 0\<rparr>"
| "position_seeded (SeedMaker r l moved usd margin) = \<lparr>po_kind = MakerKind (Some r) l True None moved usd, po_opened = first_default,
     po_last = latest_default, po_closed = first_default, po_liquidations = 0, po_margin = Some margin, po_unpriced = 0\<rparr>"
| "position_seeded (SeedUnknown margin) = \<lparr>po_kind = UnknownKind, po_opened = first_default, po_last = latest_default,
     po_closed = first_default, po_liquidations = 0, po_margin = Some margin, po_unpriced = 0\<rparr>"

definition position_swapped :: "swap_info \<Rightarrow> bool \<Rightarrow> position_state \<Rightarrow> position_state" where
  "position_swapped sw opens s = s\<lparr>po_kind := (case po_kind s of
      TakerKind m u sized \<Rightarrow> TakerKind (m + si_perp_delta sw) (u + si_usd_delta sw) (sized \<or> opens)
    | MakerKind _ _ sized _ m u \<Rightarrow> TakerKind (m + si_perp_delta sw) (u + si_usd_delta sw) (sized \<or> opens)
    | UnknownKind \<Rightarrow> TakerKind (si_perp_delta sw) (si_usd_delta sw) opens)\<rparr>"

definition position_moved :: "perp_delta \<Rightarrow> usdc_delta \<Rightarrow> position_state \<Rightarrow> position_state" where
  "position_moved m' u' s = s\<lparr>po_kind := (case po_kind s of
      MakerKind r l sized d m u \<Rightarrow> MakerKind r l sized d (m + m') (u + u')
    | TakerKind m u sized \<Rightarrow> TakerKind (m + m') (u + u') sized
    | UnknownKind \<Rightarrow> UnknownKind)\<rparr>"

definition liquidity_changed :: "tick_range option \<Rightarrow> l_delta \<Rightarrow> (perp_delta \<times> usdc_delta) option \<Rightarrow> position_state \<Rightarrow> position_state" where
  "liquidity_changed r d moves s =
     (let s = s\<lparr>po_kind := (case po_kind s of
            MakerKind known l sized dep m u \<Rightarrow> MakerKind (opt_or known r) (l_delta_wrapping_add l d) sized dep m u
          | UnknownKind \<Rightarrow> MakerKind r d False None 0 0
          | TakerKind m u sized \<Rightarrow> TakerKind m u sized)\<rparr>
      in case moves of Some (m, u) \<Rightarrow> position_moved m u s | None \<Rightarrow> s\<lparr>po_unpriced := po_unpriced s + 1\<rparr>)"

definition position_priced :: "perp_delta \<Rightarrow> usdc_delta \<Rightarrow> position_state \<Rightarrow> position_state" where
  "position_priced m u s = (let s = position_moved m u s in s\<lparr>po_unpriced := po_unpriced s - 1\<rparr>)"

definition maker_opened :: "chain_point \<Rightarrow> price option \<Rightarrow> position_state \<Rightarrow> position_state" where
  "maker_opened at' pool_price s =
     (let s = (case po_kind s of UnknownKind \<Rightarrow> s\<lparr>po_kind := MakerKind None (LDelta 0) False None 0 0\<rparr> | _ \<Rightarrow> s)
      in if first_is_set (po_opened s) then s
         else s\<lparr>po_opened := first_set at' (po_opened s),
                po_kind := (case po_kind s of
                    MakerKind r l _ _ m u \<Rightarrow> MakerKind r l True pool_price m u
                  | TakerKind m u _ \<Rightarrow> TakerKind m u True
                  | UnknownKind \<Rightarrow> UnknownKind)\<rparr>)"

definition deposit_priced_at :: "price option \<Rightarrow> position_state \<Rightarrow> position_state" where
  "deposit_priced_at price_at_cut s =
     (if \<not> first_is_set (po_opened s) then s
      else case po_kind s of
        MakerKind r l sized None m u \<Rightarrow> s\<lparr>po_kind := MakerKind r l sized price_at_cut m u\<rparr>
      | _ \<Rightarrow> s)"

definition position_converted :: "position_state \<Rightarrow> position_state" where
  "position_converted s = s\<lparr>po_kind := (case po_kind s of
      MakerKind _ _ sized _ m u \<Rightarrow> TakerKind m u sized
    | UnknownKind \<Rightarrow> TakerKind 0 0 False
    | TakerKind m u sized \<Rightarrow> TakerKind m u sized)\<rparr>"

definition position_combine :: "position_state \<Rightarrow> position_state \<Rightarrow> position_state" where
  "position_combine s later =
     \<lparr>po_kind = kind_combine (po_kind s) (po_kind later) (first_is_set (po_opened s)),
      po_opened = first_combine (po_opened s) (po_opened later), po_last = latest_combine (po_last s) (po_last later),
      po_closed = first_combine (po_closed s) (po_closed later), po_liquidations = po_liquidations s + po_liquidations later,
      po_margin = po_margin later, po_unpriced = po_unpriced s + po_unpriced later\<rparr>"

subsection \<open>The code: every position\<close>

record pool_point =
  pp_sqrt_price :: sqrt_price
  pp_tick :: i32

record liquidity_change =
  lc_range :: tick_range
  lc_delta :: l_delta

definition pool_point_price :: "pool_point \<Rightarrow> liquidity_change \<Rightarrow> (perp_delta \<times> usdc_delta) option" where
  "pool_point_price p c = (case liquidity_change_delta (pp_sqrt_price p) (pp_tick p) (lc_range c) (lc_delta c) of
      Inr moves \<Rightarrow> Some moves | Inl _ \<Rightarrow> None)"

record positions =
  pt_by_id :: "(u256, position_state) omap"
  pt_pool_price :: "price latest"
  pt_pool :: "pool_point latest"
  pt_waiting :: "(u256, liquidity_change list) omap"

definition positions_default :: positions where
  "positions_default = \<lparr>pt_by_id = [], pt_pool_price = latest_default, pt_pool = latest_default, pt_waiting = []\<rparr>"

definition positions_seeded :: "price \<Rightarrow> pool_point \<Rightarrow> (u256 \<times> seed_position) list \<Rightarrow> positions" where
  "positions_seeded pool_price pool ps =
     \<lparr>pt_by_id = foldl (\<lambda>m (p, sp). om_put p (position_seeded sp) m) [] ps,
      pt_pool_price = latest_stated pool_price, pt_pool = latest_stated pool, pt_waiting = []\<rparr>"

definition positions_open :: "positions \<Rightarrow> (u256 \<times> position_state) list" where
  "positions_open ps = filter (\<lambda>e. position_is_open (snd e)) (pt_by_id ps)"

definition positions_held_by :: "wallets \<Rightarrow> custody \<Rightarrow> positions \<Rightarrow> (u256 \<times> position_state) list" where
  "positions_held_by ws c ps = filter (\<lambda>e. custody_held_by c (fst e) ws) (positions_open ps)"

definition touched :: "chain_point \<Rightarrow> position_state option \<Rightarrow> position_state" where
  "touched at' o' = (let s = (case o' of None \<Rightarrow> position_first at' | Some s \<Rightarrow> s)
     in s\<lparr>po_last := latest_set at' (po_last s), po_margin := None\<rparr>)"

definition touch :: "u256 \<Rightarrow> chain_point \<Rightarrow> (position_state \<Rightarrow> position_state) \<Rightarrow> positions \<Rightarrow> positions" where
  "touch p at' f ps = ps\<lparr>pt_by_id := om_put p (f (touched at' (map_of (pt_by_id ps) p))) (pt_by_id ps)\<rparr>"

definition waiting_or_default :: "liquidity_change list option \<Rightarrow> liquidity_change list" where
  "waiting_or_default w = (case w of None \<Rightarrow> [] | Some l \<Rightarrow> l)"

definition wait_for_price :: "u256 \<Rightarrow> liquidity_change list \<Rightarrow> positions \<Rightarrow> positions" where
  "wait_for_price p cs ps = ps\<lparr>pt_waiting := om_put p (waiting_or_default (map_of (pt_waiting ps) p) @ cs) (pt_waiting ps)\<rparr>"

definition count_if :: "bool \<Rightarrow> position_state \<Rightarrow> position_state" where
  "count_if liq s = s\<lparr>po_liquidations := po_liquidations s + (if liq then 1 else 0)\<rparr>"

definition close_at :: "chain_point \<Rightarrow> position_state \<Rightarrow> position_state" where
  "close_at p s = s\<lparr>po_closed := first_set p (po_closed s)\<rparr>"

definition positions_modify :: "chain_point \<Rightarrow> i32 \<Rightarrow> i32 \<Rightarrow> l_delta \<Rightarrow> u256 \<Rightarrow> positions \<Rightarrow> positions" where
  "positions_modify at' lo up d p ps =
     (let range = (case tick_range_new lo up of Inr r \<Rightarrow> Some r | Inl _ \<Rightarrow> None);
          change = map_option (\<lambda>r. \<lparr>lc_range = r, lc_delta = d\<rparr>) range;
          pool = latest_get (pt_pool ps);
          moves = (case (pool, change) of (Some pool, Some change) \<Rightarrow> pool_point_price pool change | _ \<Rightarrow> None);
          ps = touch p at' (liquidity_changed range d moves) ps
      in case (pool, change) of (None, Some change) \<Rightarrow> wait_for_price p [change] ps | _ \<Rightarrow> ps)"

definition positions_apply :: "positions \<Rightarrow> tape_event \<Rightarrow> positions" where
  "positions_apply ps e = (let at' = te_point e in case te_event e of
      ModifyLiquidity _ _ lo up d salt \<Rightarrow> positions_modify at' lo up d salt ps
    | PoolInitialized _ sp t \<Rightarrow> ps\<lparr>pt_pool := latest_set \<lparr>pp_sqrt_price = sp, pp_tick = t\<rparr> (pt_pool ps)\<rparr>
    | PoolSwapped _ _ sp _ t \<Rightarrow> ps\<lparr>pt_pool := latest_set \<lparr>pp_sqrt_price = sp, pp_tick = t\<rparr> (pt_pool ps)\<rparr>
    | MakerOpened p \<Rightarrow> touch p at' (maker_opened at' (latest_get (pt_pool_price ps))) ps
    | MakerAdjusted p _ \<Rightarrow> touch p at' (\<lambda>s. s) ps
    | MakerBackstopped p _ _ _ \<Rightarrow> touch p at' (\<lambda>s. s) ps
    | TakerBackstopped p _ _ _ _ \<Rightarrow> touch p at' (\<lambda>s. s) ps
    | MakerConverted p _ _ liq \<Rightarrow> touch p at' (\<lambda>s. count_if liq (position_converted s)) ps
    | MakerClosed p _ _ liq \<Rightarrow> touch p at' (\<lambda>s. count_if liq (close_at at' s)) ps
    | MakerLiquidated p _ _ \<Rightarrow> touch p at' (count_if True) ps
    | TakerLiquidated p _ _ \<Rightarrow> touch p at' (count_if True) ps
    | TakerOpened p sw \<Rightarrow>
        touch p at' (\<lambda>s. (position_swapped sw True s)\<lparr>po_opened := first_set at' (po_opened s)\<rparr>)
          (ps\<lparr>pt_pool_price := latest_set (si_pool_price sw) (pt_pool_price ps)\<rparr>)
    | TakerAdjusted p sw _ _ \<Rightarrow>
        touch p at' (position_swapped sw False) (ps\<lparr>pt_pool_price := latest_set (si_pool_price sw) (pt_pool_price ps)\<rparr>)
    | TakerClosed p sw _ _ _ liq \<Rightarrow>
        touch p at' (\<lambda>s. count_if liq (close_at at' (position_swapped sw False s)))
          (ps\<lparr>pt_pool_price := latest_set (si_pool_price sw) (pt_pool_price ps)\<rparr>)
    | _ \<Rightarrow> ps)"

text \<open>One position's waiting changes priced at the cut, as \<open>filter_map\<close> goes over them.\<close>

definition priced_at_cut :: "pool_point \<Rightarrow> liquidity_change list \<Rightarrow> position_state \<Rightarrow> position_state" where
  "priced_at_cut pool cs s =
     foldl (\<lambda>s c. case pool_point_price pool c of Some (m, u) \<Rightarrow> position_priced m u s | None \<Rightarrow> s) s cs"

definition positions_combine :: "positions \<Rightarrow> positions \<Rightarrow> positions" where
  "positions_combine ps later =
     (let (ps, by_id) = foldl (\<lambda>(ps, by_id) (p, cs). case latest_get (pt_pool ps) of
            None \<Rightarrow> (wait_for_price p cs ps, by_id)
          | Some pool \<Rightarrow> (case map_of by_id p of
              None \<Rightarrow> (ps, by_id)
            | Some s \<Rightarrow> (ps, om_put p (priced_at_cut pool cs s) by_id))) (ps, pt_by_id later) (pt_waiting later);
          price_at_cut = latest_get (pt_pool_price ps)
      in ps\<lparr>pt_pool := latest_combine (pt_pool ps) (pt_pool later),
            pt_by_id := foldl (\<lambda>m (p, s). let s = deposit_priced_at price_at_cut s
                in om_put p (case map_of m p of None \<Rightarrow> s | Some mine \<Rightarrow> position_combine mine s) m) (pt_by_id ps) by_id,
            pt_pool_price := latest_combine (pt_pool_price ps) (pt_pool_price later)\<rparr>)"

subsection \<open>What an event does, one step for each field\<close>

definition swap_price_said :: "market_event \<Rightarrow> price option" where
  "swap_price_said ev = map_option (\<lambda>sw. si_pool_price (tsw_info sw)) (taker_swap_of ev)"

definition pool_said :: "market_event \<Rightarrow> pool_point option" where
  "pool_said ev = (case ev of
      PoolInitialized _ sp t \<Rightarrow> Some \<lparr>pp_sqrt_price = sp, pp_tick = t\<rparr>
    | PoolSwapped _ _ sp _ t \<Rightarrow> Some \<lparr>pp_sqrt_price = sp, pp_tick = t\<rparr>
    | _ \<Rightarrow> None)"

definition change_said :: "market_event \<Rightarrow> (u256 \<times> tick_range option \<times> l_delta) option" where
  "change_said ev = (case ev of
      ModifyLiquidity _ _ lo up d salt \<Rightarrow> Some (salt, case tick_range_new lo up of Inr r \<Rightarrow> Some r | Inl _ \<Rightarrow> None, d)
    | _ \<Rightarrow> None)"

definition change_of :: "tick_range option \<Rightarrow> l_delta \<Rightarrow> liquidity_change option" where
  "change_of r d = map_option (\<lambda>r. \<lparr>lc_range = r, lc_delta = d\<rparr>) r"

definition moves_at :: "pool_point option \<Rightarrow> liquidity_change option \<Rightarrow> (perp_delta \<times> usdc_delta) option" where
  "moves_at pool c = (case (pool, c) of (Some p, Some c) \<Rightarrow> pool_point_price p c | _ \<Rightarrow> None)"

text \<open>The position an event touches and what it makes of it, apart from a liquidity change.\<close>

definition touch_said :: "chain_point \<Rightarrow> price option \<Rightarrow> market_event \<Rightarrow> (u256 \<times> (position_state \<Rightarrow> position_state)) option" where
  "touch_said at' pool_price ev = (case ev of
      MakerOpened p \<Rightarrow> Some (p, maker_opened at' pool_price)
    | MakerAdjusted p _ \<Rightarrow> Some (p, \<lambda>s. s)
    | MakerBackstopped p _ _ _ \<Rightarrow> Some (p, \<lambda>s. s)
    | TakerBackstopped p _ _ _ _ \<Rightarrow> Some (p, \<lambda>s. s)
    | MakerConverted p _ _ liq \<Rightarrow> Some (p, \<lambda>s. count_if liq (position_converted s))
    | MakerClosed p _ _ liq \<Rightarrow> Some (p, \<lambda>s. count_if liq (close_at at' s))
    | MakerLiquidated p _ _ \<Rightarrow> Some (p, count_if True)
    | TakerLiquidated p _ _ \<Rightarrow> Some (p, count_if True)
    | TakerOpened p sw \<Rightarrow> Some (p, \<lambda>s. (position_swapped sw True s)\<lparr>po_opened := first_set at' (po_opened s)\<rparr>)
    | TakerAdjusted p sw _ _ \<Rightarrow> Some (p, position_swapped sw False)
    | TakerClosed p sw _ _ _ liq \<Rightarrow> Some (p, \<lambda>s. count_if liq (close_at at' (position_swapped sw False s)))
    | _ \<Rightarrow> None)"

definition position_effect :: "positions \<Rightarrow> tape_event \<Rightarrow> (u256 \<times> (position_state \<Rightarrow> position_state)) option" where
  "position_effect ps e = (case change_said (te_event e) of
      Some (p, r, d) \<Rightarrow> Some (p, liquidity_changed r d (moves_at (latest_get (pt_pool ps)) (change_of r d)))
    | None \<Rightarrow> touch_said (te_point e) (latest_get (pt_pool_price ps)) (te_event e))"

definition waits :: "pool_point option \<Rightarrow> market_event \<Rightarrow> (u256 \<times> liquidity_change) option" where
  "waits pool ev = (case (pool, change_said ev) of
      (None, Some (p, r, d)) \<Rightarrow> map_option (Pair p) (change_of r d)
    | _ \<Rightarrow> None)"

lemma touch_fields [simp]:
  "pt_by_id (touch p at' f ps) = om_put p (f (touched at' (map_of (pt_by_id ps) p))) (pt_by_id ps)"
  "pt_pool_price (touch p at' f ps) = pt_pool_price ps" "pt_pool (touch p at' f ps) = pt_pool ps"
  "pt_waiting (touch p at' f ps) = pt_waiting ps"
  by (simp_all add: touch_def)

lemma positions_apply_fields:
  "pt_by_id (positions_apply ps e) = (case position_effect ps e of None \<Rightarrow> pt_by_id ps
     | Some (p, f) \<Rightarrow> om_put p (f (touched (te_point e) (map_of (pt_by_id ps) p))) (pt_by_id ps))" (is ?by_id)
  "pt_pool_price (positions_apply ps e) = latest_step (pt_pool_price ps) (swap_price_said (te_event e))" (is ?price)
  "pt_pool (positions_apply ps e) = latest_step (pt_pool ps) (pool_said (te_event e))" (is ?pool)
  "pt_waiting (positions_apply ps e) = (case waits (latest_get (pt_pool ps)) (te_event e) of None \<Rightarrow> pt_waiting ps
     | Some (p, c) \<Rightarrow> om_put p (waiting_or_default (map_of (pt_waiting ps) p) @ [c]) (pt_waiting ps))" (is ?waiting)
proof -
  have "?by_id \<and> ?price \<and> ?pool \<and> ?waiting"
  proof (cases "change_said (te_event e)")
    case (Some x)
    then obtain a b lo up d salt where e: "te_event e = ModifyLiquidity a b lo up d salt"
      by (cases "te_event e") (simp_all add: change_said_def)
    show ?thesis
      by (cases "latest_get (pt_pool ps)"; cases "tick_range_new lo up")
        (simp_all add: e positions_apply_def positions_modify_def position_effect_def change_said_def change_of_def moves_at_def waits_def
          wait_for_price_def swap_price_said_def taker_swap_of_def pool_said_def latest_step_def Let_def)
  next
    case None
    then show ?thesis
      by (cases "latest_get (pt_pool ps)"; cases "te_event e")
        (simp_all add: positions_apply_def position_effect_def change_said_def touch_said_def waits_def swap_price_said_def
          taker_swap_of_def pool_said_def latest_step_def Let_def)
  qed
  then show ?by_id ?price ?pool ?waiting by blast+
qed

subsection \<open>One position across a cut\<close>

text \<open>
  What combining makes of a later state before it joins an earlier one: the waiting changes priced, their sum \<open>m\<close>, \<open>u\<close>
  and number \<open>n\<close>, and an open that saw no price classified at the cut's.
\<close>

definition mended :: "price option \<Rightarrow> perp_delta \<Rightarrow> usdc_delta \<Rightarrow> u32 \<Rightarrow> position_state \<Rightarrow> position_state" where
  "mended pr m u n s = deposit_priced_at pr ((position_moved m u s)\<lparr>po_unpriced := po_unpriced s - n\<rparr>)"

definition joined :: "position_state option \<Rightarrow> position_state \<Rightarrow> position_state" where
  "joined mine s = (case mine of None \<Rightarrow> s | Some mine \<Rightarrow> position_combine mine s)"

text \<open>A position that was seen to open has a kind and a size; a band that was not has no deposit price.\<close>

definition position_ok :: "position_state \<Rightarrow> bool" where
  "position_ok s \<longleftrightarrow> (case po_kind s of
      UnknownKind \<Rightarrow> first_get (po_opened s) = None
    | TakerKind _ _ sized \<Rightarrow> first_get (po_opened s) \<noteq> None \<longrightarrow> sized
    | MakerKind _ _ sized d _ _ \<Rightarrow> if first_get (po_opened s) = None then d = None else sized)"

definition later_fits :: "perp_delta \<Rightarrow> usdc_delta \<Rightarrow> position_state \<Rightarrow> bool" where
  "later_fits m u s \<longleftrightarrow> position_ok s \<and> (po_kind s = UnknownKind \<longrightarrow> m = 0 \<and> u = 0)"

lemma l_delta_wrapping_add_simps:
  "l_delta_wrapping_add (l_delta_wrapping_add a b) c = l_delta_wrapping_add a (l_delta_wrapping_add b c)"
  "l_delta_wrapping_add a (LDelta 0) = a" "l_delta_wrapping_add (LDelta 0) a = a"
  by (simp_all add: l_delta_wrapping_add_def add.assoc)

lemma opt_or_simps [simp]: "opt_or None a = a" "opt_or (Some v) a = Some v" "opt_or a None = a" "opt_or (opt_or a b) c = opt_or a (opt_or b c)"
  by (cases a; simp add: opt_or_def)+

lemmas position_defs = mended_def joined_def position_combine_def position_moved_def deposit_priced_at_def first_is_set_def first_combine_def
  latest_combine_def

lemma touched_joined:
  "touched p (Some (joined mine (mended pr m u n s))) = joined mine (mended pr m u n (touched p (Some s)))"
  by (cases mine; cases "po_kind s") (auto simp: position_defs touched_def latest_set_def split: option.splits position_kind.splits)

lemma first_combine_None: "first_combine f (First None) = f"
  by (simp add: first_combine_def first.expand)

lemma touched_first: "touched p mine = joined mine (mended pr 0 0 0 (touched p None))"
proof (cases mine)
  case (Some s)
  show ?thesis
    by (rule position_state.equality)
      (simp_all add: Some mended_def joined_def position_combine_def position_moved_def deposit_priced_at_def first_is_set_def
        latest_combine_def touched_def latest_set_def position_first_def first_default_def first_combine_None)
qed (simp add: position_defs touched_def position_first_def first_default_def)

lemma touched_fits: "later_fits m u s \<Longrightarrow> later_fits m u (touched p (Some s))" "later_fits 0 0 (touched p None)"
  by (simp_all add: later_fits_def position_ok_def touched_def position_first_def first_default_def split: position_kind.splits)

text \<open>The kind and the other fields apart.\<close>

fun mended_kind :: "price option \<Rightarrow> perp_delta \<Rightarrow> usdc_delta \<Rightarrow> bool \<Rightarrow> position_kind \<Rightarrow> position_kind" where
  "mended_kind pr m u opened UnknownKind = UnknownKind"
| "mended_kind pr m u opened (TakerKind a b z) = TakerKind (a + m) (b + u) z"
| "mended_kind pr m u opened (MakerKind r l z d a b) = MakerKind r l z (if opened then opt_or d pr else d) (a + m) (b + u)"

lemma mended_fields [simp]:
  "po_kind (mended pr m u n s) = mended_kind pr m u (first_get (po_opened s) \<noteq> None) (po_kind s)"
  "po_opened (mended pr m u n s) = po_opened s" "po_last (mended pr m u n s) = po_last s" "po_closed (mended pr m u n s) = po_closed s"
  "po_liquidations (mended pr m u n s) = po_liquidations s" "po_margin (mended pr m u n s) = po_margin s"
  "po_unpriced (mended pr m u n s) = po_unpriced s - n"
  by (cases "po_kind s"; auto simp: mended_def deposit_priced_at_def position_moved_def first_is_set_def opt_or_def split: option.splits)+

lemma joined_fields [simp]:
  "po_kind (joined mine s) = (case mine of None \<Rightarrow> po_kind s
     | Some q \<Rightarrow> kind_combine (po_kind q) (po_kind s) (first_get (po_opened q) \<noteq> None))"
  "po_opened (joined mine s) = (case mine of None \<Rightarrow> po_opened s | Some q \<Rightarrow> first_combine (po_opened q) (po_opened s))"
  "po_last (joined mine s) = (case mine of None \<Rightarrow> po_last s | Some q \<Rightarrow> latest_combine (po_last q) (po_last s))"
  "po_closed (joined mine s) = (case mine of None \<Rightarrow> po_closed s | Some q \<Rightarrow> first_combine (po_closed q) (po_closed s))"
  "po_liquidations (joined mine s) = (case mine of None \<Rightarrow> po_liquidations s | Some q \<Rightarrow> po_liquidations q + po_liquidations s)"
  "po_margin (joined mine s) = po_margin s"
  "po_unpriced (joined mine s) = (case mine of None \<Rightarrow> po_unpriced s | Some q \<Rightarrow> po_unpriced q + po_unpriced s)"
  by (cases mine; simp add: joined_def position_combine_def first_is_set_def)+

lemma first_combine_set: "first_combine f (first_set p g) = first_set p (first_combine f g)"
  by (auto simp: first_combine_def first_set_def intro: first.expand)

lemma first_set_get: "first_get (first_set p f) \<noteq> None" "first_get (first_combine f g) = opt_or (first_get f) (first_get g)"
  by (auto simp: first_combine_def first_set_def opt_or_def split: option.splits)

text \<open>The acts, each a change of the kind and perhaps one other field.\<close>

fun swapped_kind :: "perp_delta \<Rightarrow> usdc_delta \<Rightarrow> bool \<Rightarrow> position_kind \<Rightarrow> position_kind" where
  "swapped_kind m' u' opens UnknownKind = TakerKind m' u' opens"
| "swapped_kind m' u' opens (TakerKind m u z) = TakerKind (m + m') (u + u') (z \<or> opens)"
| "swapped_kind m' u' opens (MakerKind _ _ z _ m u) = TakerKind (m + m') (u + u') (z \<or> opens)"

fun converted_kind :: "position_kind \<Rightarrow> position_kind" where
  "converted_kind UnknownKind = TakerKind 0 0 False"
| "converted_kind (TakerKind m u z) = TakerKind m u z"
| "converted_kind (MakerKind _ _ z _ m u) = TakerKind m u z"

fun opened_kind :: "price option \<Rightarrow> position_kind \<Rightarrow> position_kind" where
  "opened_kind pool UnknownKind = MakerKind None (LDelta 0) True pool 0 0"
| "opened_kind pool (TakerKind m u z) = TakerKind m u True"
| "opened_kind pool (MakerKind r l _ _ m u) = MakerKind r l True pool m u"

fun liquid_kind :: "tick_range option \<Rightarrow> l_delta \<Rightarrow> perp_delta \<Rightarrow> usdc_delta \<Rightarrow> position_kind \<Rightarrow> position_kind" where
  "liquid_kind r d m' u' UnknownKind = MakerKind r d False None m' u'"
| "liquid_kind r d m' u' (TakerKind m u z) = TakerKind (m + m') (u + u') z"
| "liquid_kind r d m' u' (MakerKind k l z dep m u) = MakerKind (opt_or k r) (l_delta_wrapping_add l d) z dep (m + m') (u + u')"

lemma act_kinds:
  "position_swapped sw opens s = s\<lparr>po_kind := swapped_kind (si_perp_delta sw) (si_usd_delta sw) opens (po_kind s)\<rparr>"
  "position_converted s = s\<lparr>po_kind := converted_kind (po_kind s)\<rparr>"
  "position_ok s \<Longrightarrow> maker_opened p pool s = (if first_get (po_opened s) \<noteq> None then s
     else s\<lparr>po_opened := first_set p (po_opened s), po_kind := opened_kind pool (po_kind s)\<rparr>)"
  "liquidity_changed r d moves s = (case moves of
     Some (m, u) \<Rightarrow> s\<lparr>po_kind := liquid_kind r d m u (po_kind s)\<rparr>
   | None \<Rightarrow> s\<lparr>po_kind := liquid_kind r d 0 0 (po_kind s), po_unpriced := po_unpriced s + 1\<rparr>)"
  by (cases "po_kind s"; simp add: position_swapped_def position_converted_def maker_opened_def liquidity_changed_def position_moved_def
      first_is_set_def position_ok_def Let_def split: option.split)+

lemma kind_acts_joined:
  assumes "k = UnknownKind \<Longrightarrow> m = 0 \<and> u = 0"
  shows "swapped_kind m' u' z (mended_kind pr m u op k) = mended_kind pr m u op (swapped_kind m' u' z k)"
    and "swapped_kind m' u' z (kind_combine q (mended_kind pr m u op k) oq) = kind_combine q (mended_kind pr m u op (swapped_kind m' u' z k)) oq"
    and "converted_kind (mended_kind pr m u op k) = mended_kind pr m u op (converted_kind k)"
    and "converted_kind (kind_combine q (mended_kind pr m u op k) oq) = kind_combine q (mended_kind pr m u op (converted_kind k)) oq"
  using assms by (cases k; cases q; auto simp: add_ac)+

lemma liquid_kind_joined:
  assumes "k = UnknownKind \<Longrightarrow> m = 0 \<and> u = 0" "k = UnknownKind \<Longrightarrow> \<not> op" "dm = dm' + x" "du = du' + y"
  shows "liquid_kind r d dm du (mended_kind pr m u op k) = mended_kind pr (m + x) (u + y) op (liquid_kind r d dm' du' k)"
  using assms by (cases k) (auto simp: add_ac)

lemma liquid_kind_combined:
  assumes "k = UnknownKind \<Longrightarrow> m = 0 \<and> u = 0" "k = UnknownKind \<Longrightarrow> \<not> op"
    and "\<not> oq \<Longrightarrow> case q of MakerKind _ _ _ dep _ _ \<Rightarrow> dep = None | _ \<Rightarrow> True"
    and "dm = dm' + x" "du = du' + y"
  shows "liquid_kind r d dm du (kind_combine q (mended_kind pr m u op k) oq)
    = kind_combine q (mended_kind pr (m + x) (u + y) op (liquid_kind r d dm' du' k)) oq"
  using assms by (cases k; cases q) (auto simp: add_ac l_delta_wrapping_add_simps)

lemma swapped_joined:
  assumes "later_fits m u s"
  shows "position_swapped sw opens (joined mine (mended pr m u n s)) = joined mine (mended pr m u n (position_swapped sw opens s))"
  by (rule position_state.equality)
    (use assms in \<open>cases mine; simp add: act_kinds(1) kind_acts_joined(1,2) later_fits_def\<close>)+

lemma converted_joined:
  assumes "later_fits m u s"
  shows "position_converted (joined mine (mended pr m u n s)) = joined mine (mended pr m u n (position_converted s))"
  by (rule position_state.equality)
    (use assms in \<open>cases mine; simp add: act_kinds(2) kind_acts_joined(3,4) later_fits_def\<close>)+

lemma counted_joined: "count_if liq (joined mine (mended pr m u n s)) = joined mine (mended pr m u n (count_if liq s))"
  by (rule position_state.equality) (cases mine; simp add: count_if_def add.assoc)+

lemma closed_joined: "close_at p (joined mine (mended pr m u n s)) = joined mine (mended pr m u n (close_at p s))"
  by (rule position_state.equality) (cases mine; simp add: close_at_def first_combine_set)+

lemma opened_joined:
  assumes "po_kind s = TakerKind a b z"
  shows "(joined mine (mended pr m u n s))\<lparr>po_opened := first_set p (po_opened (joined mine (mended pr m u n s)))\<rparr>
    = joined mine (mended pr m u n (s\<lparr>po_opened := first_set p (po_opened s)\<rparr>))"
  by (rule position_state.equality) (use assms in \<open>cases mine; simp add: first_combine_set\<close>)+

text \<open>A change made at once, or waited for and priced at the cut: then \<open>x\<close>, \<open>y\<close> is what it is priced at.\<close>

lemma liquid_across:
  assumes "later_fits m u s" "\<And>q. mine = Some q \<Longrightarrow> position_ok q"
    and "po_kind s' = liquid_kind r d a b (po_kind s)" "po_opened s' = po_opened s"
  shows "liquid_kind r d (a + x) (b + y) (po_kind (joined mine (mended pr m u n s))) = po_kind (joined mine (mended pr (m + x) (u + y) n' s'))"
proof -
  have k: "po_kind s = UnknownKind \<Longrightarrow> m = 0 \<and> u = 0" "po_kind s = UnknownKind \<Longrightarrow> \<not> first_get (po_opened s) \<noteq> None"
    using assms(1) by (simp_all add: later_fits_def position_ok_def)
  show ?thesis
  proof (cases mine)
    case None
    then show ?thesis using liquid_kind_joined[OF k refl refl, where r = r and d = d and pr = pr] assms(3,4) by simp
  next
    case (Some q)
    have "case po_kind q of MakerKind _ _ _ dep _ _ \<Rightarrow> dep = None | _ \<Rightarrow> True" if "\<not> first_get (po_opened q) \<noteq> None"
      using assms(2)[OF Some] that by (simp add: position_ok_def split: position_kind.splits)
    then have "liquid_kind r d (a + x) (b + y) (kind_combine (po_kind q) (mended_kind pr m u (first_get (po_opened s) \<noteq> None) (po_kind s)) (first_get (po_opened q) \<noteq> None))
      = kind_combine (po_kind q) (mended_kind pr (m + x) (u + y) (first_get (po_opened s) \<noteq> None) (liquid_kind r d a b (po_kind s)))
          (first_get (po_opened q) \<noteq> None)"
      by (intro liquid_kind_combined[OF k _ refl refl])
    then show ?thesis using Some assms(3,4) by simp
  qed
qed

lemma liquidity_joined:
  assumes "later_fits m u s" "\<And>q. mine = Some q \<Longrightarrow> position_ok q"
  shows "liquidity_changed r d moves (joined mine (mended pr m u n s)) = joined mine (mended pr m u n (liquidity_changed r d moves s))"
proof -
  obtain a b where ab: "po_kind (liquidity_changed r d moves t) = liquid_kind r d a b (po_kind t)" for t
    by (cases moves) (auto simp: act_kinds(4))
  have o': "po_opened (liquidity_changed r d moves s) = po_opened s" by (simp add: act_kinds(4) split: option.split)
  have kind: "po_kind (liquidity_changed r d moves (joined mine (mended pr m u n s))) = po_kind (joined mine (mended pr m u n (liquidity_changed r d moves s)))"
    using liquid_across[OF assms ab o', where x = 0 and y = 0 and pr = pr and n = n and n' = n] unfolding ab by simp
  show ?thesis
    by (rule position_state.equality[OF kind]) (cases mine; cases moves; auto simp: act_kinds(4))+
qed

lemma liquidity_waited:
  assumes "later_fits m u s" "\<And>q. mine = Some q \<Longrightarrow> position_ok q"
  shows "liquidity_changed r d (Some (dm, du)) (joined mine (mended pr m u n s))
    = joined mine (mended pr (m + dm) (u + du) (n + 1) (liquidity_changed r d None s))"
proof -
  have "po_kind (liquidity_changed r d None s) = liquid_kind r d 0 0 (po_kind s)" "po_opened (liquidity_changed r d None s) = po_opened s"
    by (simp_all add: act_kinds(4))
  from liquid_across[OF assms this, where x = dm and y = du and pr = pr and n = n and n' = "n + 1"]
  have kind: "po_kind (liquidity_changed r d (Some (dm, du)) (joined mine (mended pr m u n s)))
      = po_kind (joined mine (mended pr (m + dm) (u + du) (n + 1) (liquidity_changed r d None s)))"
    unfolding act_kinds(4)[of r d "Some (dm, du)"] by (simp del: joined_fields(1) mended_fields(1))
  show ?thesis
    by (rule position_state.equality[OF kind]) (cases mine; simp add: act_kinds(4))+
qed

lemma opened_kind_combined:
  assumes "k = UnknownKind \<Longrightarrow> m = 0 \<and> u = 0"
  shows "opened_kind (opt_or pool pr) (mended_kind pr m u False k) = mended_kind pr m u True (opened_kind pool k)"
    and "opened_kind (opt_or pool pr) (kind_combine q (mended_kind pr m u False k) False)
      = kind_combine q (mended_kind pr m u True (opened_kind pool k)) False"
  using assms by (cases k; cases q; auto simp: l_delta_wrapping_add_simps)+

lemma reopened_kind_combined:
  assumes "k = UnknownKind \<Longrightarrow> m = 0 \<and> u = 0"
    and "case q of UnknownKind \<Rightarrow> False | TakerKind _ _ z \<Rightarrow> z | MakerKind _ _ z _ _ _ \<Rightarrow> z"
  shows "kind_combine q (mended_kind pr m u False k) True = kind_combine q (mended_kind pr m u True (opened_kind pool k)) True"
  using assms by (cases k; cases q) (auto simp: l_delta_wrapping_add_simps)

lemma joined_ok:
  assumes "later_fits m u s" "\<And>q. mine = Some q \<Longrightarrow> position_ok q"
  shows "position_ok (joined mine (mended pr m u n s))"
proof (cases mine)
  case None
  then show ?thesis using assms(1)
    by (cases "po_kind s") (auto simp: position_ok_def later_fits_def opt_or_def split: option.splits)
next
  case (Some q)
  have "position_ok q" using assms(2) Some by simp
  then show ?thesis using assms(1) Some
    by (cases "po_kind s"; cases "po_kind q") (auto simp: position_ok_def later_fits_def first_set_get opt_or_def split: option.splits if_splits)
qed

lemma maker_opened_joined:
  assumes "later_fits m u s" "\<And>q. mine = Some q \<Longrightarrow> position_ok q"
  shows "maker_opened p (opt_or pool pr) (joined mine (mended pr m u n s)) = joined mine (mended pr m u n (maker_opened p pool s))"
proof -
  have s: "position_ok s" "po_kind s = UnknownKind \<Longrightarrow> m = 0 \<and> u = 0" using assms(1) by (simp_all add: later_fits_def)
  note act = act_kinds(3)[OF joined_ok[OF assms]] act_kinds(3)[OF s(1)]
  show ?thesis
  proof (cases "first_get (po_opened s)")
    case Some
    then have "first_get (po_opened (joined mine (mended pr m u n s))) \<noteq> None"
      by (cases mine) (simp_all add: first_set_get(2) opt_or_def split: option.splits)
    then show ?thesis using Some by (simp add: act)
  next
    case None
    note k = opened_kind_combined[where k = "po_kind s" and pool = pool and pr = pr, OF s(2)]
    show ?thesis
    proof (cases mine)
      case n: None
      show ?thesis by (rule position_state.equality) (simp_all add: act n None first_set_get k)
    next
      case q: (Some q)
      show ?thesis
      proof (cases "first_get (po_opened q)")
        case n: None
        show ?thesis by (rule position_state.equality) (simp_all add: act n q None first_set_get k first_combine_set)
      next
        case (Some v)
        have "case po_kind q of UnknownKind \<Rightarrow> False | TakerKind _ _ z \<Rightarrow> z | MakerKind _ _ z _ _ _ \<Rightarrow> z"
          using assms(2)[OF q] Some by (auto simp: position_ok_def split: position_kind.splits)
        note kq = reopened_kind_combined[where k = "po_kind s" and pool = pool and pr = pr, OF s(2) this]
        have "first_set p (first_combine (po_opened q) f) = first_combine (po_opened q) f" for f
          using Some by (simp add: first_combine_def first_set_def)
        then show ?thesis
          by (intro position_state.equality) (use kq in \<open>simp_all add: act q None Some first_set_get first_combine_set\<close>)
      qed
    qed
  qed
qed

lemma first_set_opened: "first_get (first_set p f) = None \<longleftrightarrow> False"
  by (simp add: first_set_def)

lemma touch_said_joined:
  assumes fits: "later_fits m u s" "\<And>q. mine = Some q \<Longrightarrow> position_ok q"
    and said: "touch_said p pool ev = Some (pos, f)" "touch_said p (opt_or pool pr) ev = Some (pos', g)"
  shows "pos' = pos \<and> g (joined mine (mended pr m u n s)) = joined mine (mended pr m u n (f s)) \<and> later_fits m u (f s)"
proof -
  have conv: "later_fits m u (position_converted s)" "later_fits m u (position_swapped sw z s)" for sw z
    using fits(1) by (cases "po_kind s"; auto simp: later_fits_def position_ok_def act_kinds)+
  have op: "later_fits m u (maker_opened p pool s)"
    using fits(1) by (cases "po_kind s") (auto simp: later_fits_def position_ok_def act_kinds(3) first_set_opened)
  have keep: "later_fits m u (count_if liq t) = later_fits m u t" "later_fits m u (close_at p t) = later_fits m u t" for liq t
    by (simp_all add: later_fits_def position_ok_def count_if_def close_at_def split: position_kind.split)
  have sw: "later_fits m u ((position_swapped x True s)\<lparr>po_opened := first_set p (po_opened s)\<rparr>)" for x
    by (cases "po_kind s") (simp_all add: later_fits_def position_ok_def act_kinds(1))
  have sj: "(position_swapped x True (joined mine (mended pr m u n s)))\<lparr>po_opened := first_set p (po_opened (joined mine (mended pr m u n s)))\<rparr>
      = joined mine (mended pr m u n ((position_swapped x True s)\<lparr>po_opened := first_set p (po_opened s)\<rparr>))" for x
  proof -
    obtain a b z where k: "po_kind (position_swapped x True s) = TakerKind a b z" by (cases "po_kind s") (simp_all add: act_kinds(1))
    have same: "po_opened (position_swapped x True t) = po_opened t" for t by (simp add: act_kinds(1))
    show ?thesis using opened_joined[OF k, where mine = mine and pr = pr and m = m and u = u and n = n and p = p] unfolding same by (simp add: swapped_joined[OF fits(1), symmetric] same del: joined_fields mended_fields)
  qed
  show ?thesis using said
    by (cases ev) (auto simp: touch_said_def conv op keep sw sj[unfolded swapped_joined[OF fits(1)]] maker_opened_joined[OF fits] converted_joined[OF fits(1)] fits(1)
        counted_joined closed_joined swapped_joined[OF fits(1)] simp del: joined_fields mended_fields)
qed

subsection \<open>The waiting changes\<close>

fun gains :: "pool_point option \<Rightarrow> liquidity_change list \<Rightarrow> perp_delta \<times> usdc_delta \<times> u32" where
  "gains pool [] = (0, 0, 0)"
| "gains pool (c # cs) = (case moves_at pool (Some c) of
     None \<Rightarrow> gains pool cs
   | Some (m, u) \<Rightarrow> let (m', u', n) = gains pool cs in (m + m', u + u', n + 1))"

lemma gains_None [simp]: "gains None cs = (0, 0, 0)"
  by (induction cs) (simp_all add: moves_at_def)

lemma gains_snoc:
  "gains pool (cs @ [c]) = (case moves_at pool (Some c) of
     None \<Rightarrow> gains pool cs
   | Some (m, u) \<Rightarrow> let (m', u', n) = gains pool cs in (m' + m, u' + u, n + 1))"
  by (induction cs) (auto simp: add_ac split: option.splits prod.splits)

lemma position_moved_moved: "position_moved a b (position_moved c d s) = position_moved (c + a) (d + b) s"
  by (cases "po_kind s") (simp_all add: position_moved_def add_ac)

lemma position_moved_simps:
  "position_moved 0 0 s = s" "po_unpriced (position_moved a b s) = po_unpriced s"
  "position_moved a b (s\<lparr>po_unpriced := x\<rparr>) = (position_moved a b s)\<lparr>po_unpriced := x\<rparr>"
  by (cases "po_kind s"; simp add: position_moved_def)+

lemma priced_gains:
  "priced_at_cut pool cs s = (let (m, u, n) = gains (Some pool) cs in (position_moved m u s)\<lparr>po_unpriced := po_unpriced s - n\<rparr>)"
proof (induction cs arbitrary: s)
  case Nil
  then show ?case by (simp add: priced_at_cut_def position_moved_simps)
next
  case (Cons c cs)
  obtain m' u' n where g: "gains (Some pool) cs = (m', u', n)" by (metis prod_cases3)
  show ?case
  proof (cases "pool_point_price pool c")
    case None
    then have "priced_at_cut pool (c # cs) s = priced_at_cut pool cs s" by (simp add: priced_at_cut_def)
    then show ?thesis using None Cons by (simp add: moves_at_def)
  next
    case (Some x)
    obtain m u where x: "x = (m, u)" by force
    have "priced_at_cut pool (c # cs) s = priced_at_cut pool cs (position_priced m u s)" using Some x by (simp add: priced_at_cut_def)
    then show ?thesis using Some x g
      by (simp add: Cons moves_at_def position_priced_def Let_def position_moved_moved position_moved_simps diff_diff_eq add.commute)
  qed
qed

text \<open>The merge of the waiting changes, key by key.\<close>

lemma wait_fields [simp]:
  "pt_by_id (wait_for_price p cs ps) = pt_by_id ps" "pt_pool (wait_for_price p cs ps) = pt_pool ps"
  "pt_pool_price (wait_for_price p cs ps) = pt_pool_price ps"
  "pt_waiting (wait_for_price p cs ps) = om_put p (waiting_or_default (map_of (pt_waiting ps) p) @ cs) (pt_waiting ps)"
  by (simp_all add: wait_for_price_def)

definition combine_step :: "positions \<times> (u256, position_state) omap \<Rightarrow> u256 \<times> liquidity_change list \<Rightarrow> positions \<times> (u256, position_state) omap" where
  "combine_step x y = (case (x, y) of ((ps, by_id), (p, cs)) \<Rightarrow> (case latest_get (pt_pool ps) of
      None \<Rightarrow> (wait_for_price p cs ps, by_id)
    | Some pool \<Rightarrow> (case map_of by_id p of None \<Rightarrow> (ps, by_id) | Some s \<Rightarrow> (ps, om_put p (priced_at_cut pool cs s) by_id))))"

lemma combine_waiting_None:
  assumes "latest_get (pt_pool ps) = None"
  shows "foldl combine_step (ps, by_id) ws
    = (ps\<lparr>pt_waiting := om_merge (\<lambda>o' cs. waiting_or_default o' @ cs) (pt_waiting ps) ws\<rparr>, by_id)"
  using assms
proof (induction ws arbitrary: ps)
  case (Cons w ws)
  obtain p cs where w: "w = (p, cs)" by force
  show ?case using Cons.prems Cons.IH[of "wait_for_price p cs ps"] by (simp add: w combine_step_def wait_for_price_def)
qed simp

lemma combine_waiting_Some:
  assumes "latest_get (pt_pool ps) = Some pool" "om_ok by_id" "om_ok ws"
  shows "\<exists>by_id'. foldl combine_step (ps, by_id) ws = (ps, by_id') \<and> om_ok by_id' \<and> (\<forall>p. map_of by_id' p =
      (case map_of ws p of None \<Rightarrow> map_of by_id p | Some cs \<Rightarrow> map_option (priced_at_cut pool cs) (map_of by_id p)))"
  using assms
proof (induction ws arbitrary: by_id)
  case (Cons w ws)
  obtain p cs where w: "w = (p, cs)" by force
  have ws: "om_ok ws" and p: "map_of ws p = None" using Cons.prems(3) by (force simp: w om_ok_def map_of_eq_None_iff)+
  define b where "b = (case map_of by_id p of None \<Rightarrow> by_id | Some s \<Rightarrow> om_put p (priced_at_cut pool cs s) by_id)"
  have b: "om_ok b" "map_of b q = (if q = p then map_option (priced_at_cut pool cs) (map_of by_id p) else map_of by_id q)" for q
    using Cons.prems(2) by (auto simp: b_def om_ok_put map_of_om_put split: option.split)
  have step: "combine_step (ps, by_id) w = (ps, b)" using Cons.prems(1) by (simp add: w b_def combine_step_def split: option.split)
  from Cons.IH[OF Cons.prems(1) b(1) ws] obtain by_id' where
    "foldl combine_step (ps, b) ws = (ps, by_id')" "om_ok by_id'"
    "\<forall>q. map_of by_id' q = (case map_of ws q of None \<Rightarrow> map_of b q | Some cs \<Rightarrow> map_option (priced_at_cut pool cs) (map_of b q))"
    by blast
  then show ?case using p by (intro exI[of _ by_id']) (auto simp: step[unfolded w] w b(2) split: option.split)
qed simp

definition positions_ok :: "positions \<Rightarrow> bool" where
  "positions_ok ps \<longleftrightarrow> om_ok (pt_by_id ps) \<and> om_ok (pt_waiting ps) \<and> (\<forall>p s. map_of (pt_by_id ps) p = Some s \<longrightarrow> position_ok s)"

abbreviation waiting_at :: "positions \<Rightarrow> u256 \<Rightarrow> liquidity_change list" where
  "waiting_at ps p \<equiv> waiting_or_default (map_of (pt_waiting ps) p)"

text \<open>What combining leaves, position by position.\<close>

definition mended_at :: "positions \<Rightarrow> positions \<Rightarrow> u256 \<Rightarrow> position_state \<Rightarrow> position_state" where
  "mended_at ps later p s = (let (m, u, n) = gains (latest_get (pt_pool ps)) (waiting_at later p)
     in mended (latest_get (pt_pool_price ps)) m u n s)"

lemma positions_combine_steps:
  "positions_combine ps later =
     (let (ps, by_id) = foldl combine_step (ps, pt_by_id later) (pt_waiting later);
          g = (\<lambda>mine s. joined mine (deposit_priced_at (latest_get (pt_pool_price ps)) s))
      in ps\<lparr>pt_pool := latest_combine (pt_pool ps) (pt_pool later), pt_by_id := om_merge g (pt_by_id ps) by_id,
            pt_pool_price := latest_combine (pt_pool_price ps) (pt_pool_price later)\<rparr>)"
proof -
  have "combine_step = (\<lambda>(ps, by_id) (p, cs). case latest_get (pt_pool ps) of
      None \<Rightarrow> (wait_for_price p cs ps, by_id)
    | Some pool \<Rightarrow> (case map_of by_id p of None \<Rightarrow> (ps, by_id) | Some s \<Rightarrow> (ps, om_put p (priced_at_cut pool cs s) by_id)))"
    by (simp add: fun_eq_iff combine_step_def)
  then show ?thesis by (simp add: positions_combine_def joined_def Let_def)
qed

lemma mended_None: "deposit_priced_at pr s = mended pr 0 0 0 s"
  by (simp add: mended_def position_moved_simps)

lemma mended_priced: "deposit_priced_at pr (priced_at_cut pool cs s) = (let (m, u, n) = gains (Some pool) cs in mended pr m u n s)"
  by (cases "gains (Some pool) cs") (simp add: mended_def priced_gains)

lemma positions_combine_fields:
  assumes "om_ok (pt_by_id ps)" "om_ok (pt_waiting ps)" "om_ok (pt_by_id later)" "om_ok (pt_waiting later)"
  shows "om_ok (pt_by_id (positions_combine ps later))" "om_ok (pt_waiting (positions_combine ps later))"
    and "map_of (pt_by_id (positions_combine ps later)) p = (case map_of (pt_by_id later) p of
        None \<Rightarrow> map_of (pt_by_id ps) p | Some s \<Rightarrow> Some (joined (map_of (pt_by_id ps) p) (mended_at ps later p s)))"
    and "map_of (pt_waiting (positions_combine ps later)) p = (if latest_get (pt_pool ps) \<noteq> None then map_of (pt_waiting ps) p
      else case map_of (pt_waiting later) p of None \<Rightarrow> map_of (pt_waiting ps) p | Some cs \<Rightarrow> Some (waiting_at ps p @ cs))"
    and "pt_pool (positions_combine ps later) = latest_combine (pt_pool ps) (pt_pool later)"
    and "pt_pool_price (positions_combine ps later) = latest_combine (pt_pool_price ps) (pt_pool_price later)"
proof -
  let ?pr = "latest_get (pt_pool_price ps)"
  let ?g = "\<lambda>mine s. joined mine (deposit_priced_at ?pr s)"
  have "om_ok (pt_by_id (positions_combine ps later)) \<and> om_ok (pt_waiting (positions_combine ps later))
    \<and> map_of (pt_by_id (positions_combine ps later)) p = (case map_of (pt_by_id later) p of
        None \<Rightarrow> map_of (pt_by_id ps) p | Some s \<Rightarrow> Some (joined (map_of (pt_by_id ps) p) (mended_at ps later p s)))
    \<and> map_of (pt_waiting (positions_combine ps later)) p = (if latest_get (pt_pool ps) \<noteq> None then map_of (pt_waiting ps) p
      else case map_of (pt_waiting later) p of None \<Rightarrow> map_of (pt_waiting ps) p | Some cs \<Rightarrow> Some (waiting_at ps p @ cs))
    \<and> pt_pool (positions_combine ps later) = latest_combine (pt_pool ps) (pt_pool later)
    \<and> pt_pool_price (positions_combine ps later) = latest_combine (pt_pool_price ps) (pt_pool_price later)"
  proof (cases "latest_get (pt_pool ps)")
    case None
    then show ?thesis
      using om_merge_ok[OF assms(1), of ?g] om_merge_ok[OF assms(2), of "\<lambda>o' cs. waiting_or_default o' @ cs"]
        map_of_om_merge[OF assms(1,3), of ?g p] map_of_om_merge[OF assms(2,4), of "\<lambda>o' cs. waiting_or_default o' @ cs" p]
      by (cases "map_of (pt_by_id later) p"; cases "map_of (pt_waiting later) p")
        (simp_all add: positions_combine_steps combine_waiting_None Let_def mended_at_def mended_None)
  next
    case (Some pool)
    from combine_waiting_Some[OF this assms(3,4)] obtain by_id' where
      b: "foldl combine_step (ps, pt_by_id later) (pt_waiting later) = (ps, by_id')" "om_ok by_id'"
      "\<And>p. map_of by_id' p = (case map_of (pt_waiting later) p of None \<Rightarrow> map_of (pt_by_id later) p
         | Some cs \<Rightarrow> map_option (priced_at_cut pool cs) (map_of (pt_by_id later) p))"
      by blast
    have md: "mended_at ps later p s = deposit_priced_at ?pr (case map_of (pt_waiting later) p of None \<Rightarrow> s | Some cs \<Rightarrow> priced_at_cut pool cs s)" for s
      by (cases "map_of (pt_waiting later) p")
        (simp_all add: mended_at_def waiting_or_default_def Some mended_priced, simp add: mended_None)
    show ?thesis
      using om_merge_ok[OF assms(1), of ?g] map_of_om_merge[OF assms(1) b(2), of ?g p] assms(2) Some
      by (cases "map_of (pt_waiting later) p"; cases "map_of (pt_by_id later) p")
        (simp_all add: positions_combine_steps b Let_def md)
  qed
  then show "om_ok (pt_by_id (positions_combine ps later))" "om_ok (pt_waiting (positions_combine ps later))"
    and "map_of (pt_by_id (positions_combine ps later)) p = (case map_of (pt_by_id later) p of
        None \<Rightarrow> map_of (pt_by_id ps) p | Some s \<Rightarrow> Some (joined (map_of (pt_by_id ps) p) (mended_at ps later p s)))"
    and "map_of (pt_waiting (positions_combine ps later)) p = (if latest_get (pt_pool ps) \<noteq> None then map_of (pt_waiting ps) p
      else case map_of (pt_waiting later) p of None \<Rightarrow> map_of (pt_waiting ps) p | Some cs \<Rightarrow> Some (waiting_at ps p @ cs))"
    and "pt_pool (positions_combine ps later) = latest_combine (pt_pool ps) (pt_pool later)"
    and "pt_pool_price (positions_combine ps later) = latest_combine (pt_pool_price ps) (pt_pool_price later)"
    by blast+
qed

subsection \<open>The law\<close>

abbreviation positions_run :: "positions \<Rightarrow> tape_event list \<Rightarrow> positions" where
  "positions_run \<equiv> foldl positions_apply"

lemma positions_apply_om:
  assumes "om_ok (pt_by_id ps)" "om_ok (pt_waiting ps)"
  shows "om_ok (pt_by_id (positions_apply ps e))" "om_ok (pt_waiting (positions_apply ps e))"
    and "map_of (pt_by_id (positions_apply ps e)) p = (case position_effect ps e of None \<Rightarrow> map_of (pt_by_id ps) p
      | Some (q, f) \<Rightarrow> if p = q then Some (f (touched (te_point e) (map_of (pt_by_id ps) q))) else map_of (pt_by_id ps) p)"
    and "map_of (pt_waiting (positions_apply ps e)) p = (case waits (latest_get (pt_pool ps)) (te_event e) of None \<Rightarrow> map_of (pt_waiting ps) p
      | Some (q, c) \<Rightarrow> if p = q then Some (waiting_at ps q @ [c]) else map_of (pt_waiting ps) p)"
  using assms by (auto simp: positions_apply_fields om_ok_put map_of_om_put split: option.split prod.split)

lemma positions_run_om:
  "om_ok (pt_by_id ps) \<Longrightarrow> om_ok (pt_waiting ps) \<Longrightarrow> om_ok (pt_by_id (positions_run ps b)) \<and> om_ok (pt_waiting (positions_run ps b))"
  by (induction b arbitrary: ps) (simp_all add: positions_apply_om)

lemma positions_latest_across:
  "pt_pool_price (positions_run p b) = latest_combine (pt_pool_price p) (pt_pool_price (positions_run positions_default b))"
  "pt_pool (positions_run p b) = latest_combine (pt_pool p) (pt_pool (positions_run positions_default b))"
proof -
  have run: "pt_pool_price (positions_run s b) = foldl latest_step (pt_pool_price s) (map (\<lambda>e. swap_price_said (te_event e)) b)"
    "pt_pool (positions_run s b) = foldl latest_step (pt_pool s) (map (\<lambda>e. pool_said (te_event e)) b)" for s
    by (rule foldl_field, rule positions_apply_fields)+
  show "pt_pool_price (positions_run p b) = latest_combine (pt_pool_price p) (pt_pool_price (positions_run positions_default b))"
    "pt_pool (positions_run p b) = latest_combine (pt_pool p) (pt_pool (positions_run positions_default b))"
    unfolding run by (simp_all add: positions_default_def latest.segment)
qed

lemma latest_combine_get: "latest_get (latest_combine a b) = opt_or (latest_get b) (latest_get a)"
  by (auto simp: latest_combine_def opt_or_def split: option.split)

text \<open>The later segment's states fit the changes that wait for them, whatever pool those will be priced at.\<close>

definition states_fit :: "pool_point option \<Rightarrow> positions \<Rightarrow> bool" where
  "states_fit pool d \<longleftrightarrow> (\<forall>p. case map_of (pt_by_id d) p of
      None \<Rightarrow> map_of (pt_waiting d) p = None
    | Some s \<Rightarrow> (case gains pool (waiting_at d p) of (m, u, n) \<Rightarrow> later_fits m u s))"

text \<open>One event, seen by the later segment and by the fold of both.\<close>

lemma liquidity_fits: "later_fits m u s \<Longrightarrow> later_fits m' u' (liquidity_changed r d moves s)"
  by (cases "po_kind s"; cases moves) (auto simp: later_fits_def position_ok_def act_kinds(4) split: if_splits)

lemma effect_across:
  assumes fit: "states_fit (latest_get (pt_pool p)) d" and p: "positions_ok p" and d: "om_ok (pt_by_id d)" "om_ok (pt_waiting d)"
    and q: "latest_get (pt_pool q) = opt_or (latest_get (pt_pool d)) (latest_get (pt_pool p))"
      "latest_get (pt_pool_price q) = opt_or (latest_get (pt_pool_price d)) (latest_get (pt_pool_price p))"
      "\<And>i. map_of (pt_by_id q) i = (case map_of (pt_by_id d) i of
        None \<Rightarrow> map_of (pt_by_id p) i | Some s \<Rightarrow> Some (joined (map_of (pt_by_id p) i) (mended_at p d i s)))"
    and eff: "position_effect d e = Some (i, f)"
  obtains g where "position_effect q e = Some (i, g)"
    and "g (touched (te_point e) (map_of (pt_by_id q) i))
      = joined (map_of (pt_by_id p) i) (mended_at p (positions_apply d e) i (f (touched (te_point e) (map_of (pt_by_id d) i))))"
    and "case gains (latest_get (pt_pool p)) (waiting_at (positions_apply d e) i) of (m, u, n) \<Rightarrow>
      later_fits m u (f (touched (te_point e) (map_of (pt_by_id d) i)))"
proof -
  let ?pool = "latest_get (pt_pool p)" and ?pr = "latest_get (pt_pool_price p)" and ?at = "te_point e"
  let ?mine = "map_of (pt_by_id p) i" and ?t = "touched ?at (map_of (pt_by_id d) i)"
  have fi: "case map_of (pt_by_id d) i of None \<Rightarrow> map_of (pt_waiting d) i = None
    | Some s \<Rightarrow> (case gains ?pool (waiting_at d i) of (m, u, n) \<Rightarrow> later_fits m u s)"
    using fit by (simp add: states_fit_def)
  have mine: "position_ok s" if "?mine = Some s" for s using p that by (simp add: positions_ok_def)
  obtain m u n where g: "gains ?pool (waiting_at d i) = (m, u, n)" by (metis prod_cases3)
  have at: "touched ?at (map_of (pt_by_id q) i) = joined ?mine (mended ?pr m u n ?t)" and t: "later_fits m u ?t"
  proof -
    show "touched ?at (map_of (pt_by_id q) i) = joined ?mine (mended ?pr m u n ?t)"
    proof (cases "map_of (pt_by_id d) i")
      case None
      then have "waiting_at d i = []" using fi by (simp add: waiting_or_default_def)
      then show ?thesis using g None touched_first[of ?at ?mine ?pr] by (simp add: q(3))
    next
      case (Some s)
      then show ?thesis using g by (simp add: q(3) mended_at_def touched_joined)
    qed
    show "later_fits m u ?t"
    proof (cases "map_of (pt_by_id d) i")
      case None
      then have "waiting_at d i = []" using fi by (simp add: waiting_or_default_def)
      then show ?thesis using g None touched_fits(2) by simp
    next
      case (Some s)
      then have "later_fits m u s" using fi g by simp
      then show ?thesis using Some touched_fits(1) by simp
    qed
  qed
  let ?d' = "positions_apply d e"
  note w' = positions_apply_om(4)[OF d, of e i]
  show thesis
  proof (cases "change_said (te_event e)")
    case None
    then have said: "touch_said ?at (latest_get (pt_pool_price d)) (te_event e) = Some (i, f)" using eff by (simp add: position_effect_def)
    obtain i' k where k: "touch_said ?at (opt_or (latest_get (pt_pool_price d)) ?pr) (te_event e) = Some (i', k)"
      using said by (cases "te_event e") (auto simp: touch_said_def)
    note j = touch_said_joined[OF t mine said k]
    have eq: "position_effect q e = Some (i, k)" using None k j by (simp add: position_effect_def q(2))
    have "waiting_at ?d' i = waiting_at d i" using None w' by (simp add: waits_def split: option.splits)
    then show thesis using that[OF eq] j at g by (simp add: mended_at_def)
  next
    case (Some x)
    obtain r dl where x: "change_said (te_event e) = Some (i, r, dl)"
      and f: "f = liquidity_changed r dl (moves_at (latest_get (pt_pool d)) (change_of r dl))"
      using eff Some by (cases x) (auto simp: position_effect_def)
    let ?g = "liquidity_changed r dl (moves_at (latest_get (pt_pool q)) (change_of r dl))"
    have eq: "position_effect q e = Some (i, ?g)" by (simp add: position_effect_def x)
    have fits: "later_fits a b (f ?t)" for a b unfolding f by (rule liquidity_fits[OF t])
    have joined: "?g (joined ?mine (mended ?pr m u n ?t)) = joined ?mine (mended_at p ?d' i (f ?t))"
    proof (cases "latest_get (pt_pool d) = None \<and> change_of r dl \<noteq> None")
      case False
      then have "waits (latest_get (pt_pool d)) (te_event e) = None" by (auto simp: waits_def x split: option.split)
      then have w: "waiting_at ?d' i = waiting_at d i" using w' by simp
      have "moves_at (latest_get (pt_pool q)) (change_of r dl) = moves_at (latest_get (pt_pool d)) (change_of r dl)"
        using False by (cases "latest_get (pt_pool d)") (auto simp: q(1) moves_at_def split: option.split)
      then show ?thesis using liquidity_joined[OF t mine] by (simp add: mended_at_def w g f)
    next
      case True
      then obtain c where c: "change_of r dl = Some c" and pd: "latest_get (pt_pool d) = None" by auto
      have "waits (latest_get (pt_pool d)) (te_event e) = Some (i, c)" by (simp add: waits_def x c pd)
      then have w: "waiting_at ?d' i = waiting_at d i @ [c]" using w' by (simp add: waiting_or_default_def)
      have md: "moves_at (latest_get (pt_pool d)) (change_of r dl) = None" by (simp add: moves_at_def pd)
      have mq: "moves_at (latest_get (pt_pool q)) (change_of r dl) = moves_at ?pool (Some c)" by (simp add: q(1) pd c)
      show ?thesis
      proof (cases "moves_at ?pool (Some c)")
        case None
        then show ?thesis using liquidity_joined[OF t mine] by (simp add: mended_at_def w gains_snoc g f md mq)
      next
        case (Some y)
        obtain dm du where "y = (dm, du)" by force
        then show ?thesis using liquidity_waited[OF t mine] Some by (simp add: mended_at_def w gains_snoc g f md mq)
      qed
    qed
    show thesis using that[OF eq] joined at fits by (simp split: prod.split)
  qed
qed

lemma waits_touches:
  "waits pool ev = Some (i, c) \<Longrightarrow> position_effect d e = Some (j, f) \<Longrightarrow> te_event e = ev \<Longrightarrow> i = j"
  "waits pool (te_event e) = Some (i, c) \<Longrightarrow> position_effect d e \<noteq> None"
  by (auto simp: waits_def position_effect_def split: option.splits prod.splits)

lemma no_effect:
  assumes "position_effect d e = None" shows "position_effect q e = None" "waits pool (te_event e) = None"
proof -
  have said: "change_said (te_event e) = None" using assms by (auto simp: position_effect_def split: option.splits prod.splits)
  then show "waits pool (te_event e) = None" by (simp add: waits_def split: option.split)
  from said show "position_effect q e = None" using assms
    by (cases "te_event e") (simp_all add: position_effect_def touch_said_def)
qed

text \<open>The fold that goes on, written as what combining makes of the fold of the later segment alone.\<close>

definition runs_as :: "positions \<Rightarrow> positions \<Rightarrow> positions \<Rightarrow> bool" where
  "runs_as p d q \<longleftrightarrow> om_ok (pt_by_id d) \<and> om_ok (pt_waiting d) \<and> om_ok (pt_by_id q) \<and> om_ok (pt_waiting q)
    \<and> states_fit (latest_get (pt_pool p)) d
    \<and> (\<forall>i. map_of (pt_by_id q) i = (case map_of (pt_by_id d) i of
        None \<Rightarrow> map_of (pt_by_id p) i | Some s \<Rightarrow> Some (joined (map_of (pt_by_id p) i) (mended_at p d i s))))
    \<and> (\<forall>i. map_of (pt_waiting q) i = (if latest_get (pt_pool p) \<noteq> None then map_of (pt_waiting p) i
        else case map_of (pt_waiting d) i of None \<Rightarrow> map_of (pt_waiting p) i | Some cs \<Rightarrow> Some (waiting_at p i @ cs)))"

lemma runs_as_step:
  assumes r: "runs_as p d q" and p: "positions_ok p"
    and pools: "latest_get (pt_pool q) = opt_or (latest_get (pt_pool d)) (latest_get (pt_pool p))"
      "latest_get (pt_pool_price q) = opt_or (latest_get (pt_pool_price d)) (latest_get (pt_pool_price p))"
  shows "runs_as p (positions_apply d e) (positions_apply q e)"
proof -
  let ?d' = "positions_apply d e" and ?q' = "positions_apply q e"
  have d: "om_ok (pt_by_id d)" "om_ok (pt_waiting d)" and q: "om_ok (pt_by_id q)" "om_ok (pt_waiting q)"
    and fit: "states_fit (latest_get (pt_pool p)) d"
    and ids: "\<And>i. map_of (pt_by_id q) i = (case map_of (pt_by_id d) i of
        None \<Rightarrow> map_of (pt_by_id p) i | Some s \<Rightarrow> Some (joined (map_of (pt_by_id p) i) (mended_at p d i s)))"
    and wait: "\<And>i. map_of (pt_waiting q) i = (if latest_get (pt_pool p) \<noteq> None then map_of (pt_waiting p) i
        else case map_of (pt_waiting d) i of None \<Rightarrow> map_of (pt_waiting p) i | Some cs \<Rightarrow> Some (waiting_at p i @ cs))"
    using r by (simp_all add: runs_as_def)
  note d' = positions_apply_om[OF d] and q' = positions_apply_om[OF q]
  have waiting: "map_of (pt_waiting ?q') i = (if latest_get (pt_pool p) \<noteq> None then map_of (pt_waiting p) i
      else case map_of (pt_waiting ?d') i of None \<Rightarrow> map_of (pt_waiting p) i | Some cs \<Rightarrow> Some (waiting_at p i @ cs))" for i
  proof (cases "latest_get (pt_pool p)")
    case None
    then have "latest_get (pt_pool q) = latest_get (pt_pool d)" by (simp add: pools opt_or_def split: option.split)
    then show ?thesis using None by (auto simp: q'(4) d'(4) wait waiting_or_default_def split: option.split)
  next
    case (Some x)
    then have "waits (latest_get (pt_pool q)) (te_event e) = None"
      by (auto simp: waits_def pools opt_or_def split: option.splits)
    then show ?thesis using Some by (simp add: q'(4) wait)
  qed
  have "(case map_of (pt_by_id ?d') i of
      None \<Rightarrow> map_of (pt_waiting ?d') i = None
    | Some s \<Rightarrow> (case gains (latest_get (pt_pool p)) (waiting_at ?d' i) of (m, u, n) \<Rightarrow> later_fits m u s))
    \<and> map_of (pt_by_id ?q') i = (case map_of (pt_by_id ?d') i of
        None \<Rightarrow> map_of (pt_by_id p) i | Some s \<Rightarrow> Some (joined (map_of (pt_by_id p) i) (mended_at p ?d' i s)))" for i
  proof (cases "position_effect d e")
    case None
    note no = no_effect[OF this]
    have "map_of (pt_waiting ?d') i = map_of (pt_waiting d) i" "map_of (pt_by_id ?d') i = map_of (pt_by_id d) i"
      "map_of (pt_by_id ?q') i = map_of (pt_by_id q) i"
      using None no by (simp_all add: d'(3,4) q'(3))
    then show ?thesis using fit[unfolded states_fit_def, rule_format, of i] ids[of i] by (simp add: mended_at_def split: option.splits)
  next
    case (Some x)
    obtain j f where x: "position_effect d e = Some (j, f)" using Some by (cases x) auto
    obtain g where g: "position_effect q e = Some (j, g)"
      "g (touched (te_point e) (map_of (pt_by_id q) j))
        = joined (map_of (pt_by_id p) j) (mended_at p ?d' j (f (touched (te_point e) (map_of (pt_by_id d) j))))"
      "case gains (latest_get (pt_pool p)) (waiting_at ?d' j) of (m, u, n) \<Rightarrow>
        later_fits m u (f (touched (te_point e) (map_of (pt_by_id d) j)))"
      using effect_across[OF fit p d pools ids x] by blast
    show ?thesis
    proof (cases "i = j")
      case True
      then show ?thesis using g x by (simp add: d'(3) q'(3))
    next
      case False
      then have "map_of (pt_waiting ?d') i = map_of (pt_waiting d) i"
        using waits_touches(1)[OF _ x refl] by (auto simp: d'(4) split: option.split)
      then show ?thesis using False x g fit[unfolded states_fit_def, rule_format, of i] ids[of i]
        by (simp add: d'(3) q'(3) mended_at_def split: option.splits)
    qed
  qed
  then show ?thesis using d'(1,2) q'(1,2) waiting unfolding runs_as_def states_fit_def by blast
qed

lemma positions_run_as: "positions_ok p \<Longrightarrow> runs_as p (positions_run positions_default b) (positions_run p b)"
proof (induction b rule: rev_induct)
  case Nil
  then show ?case by (simp add: runs_as_def positions_ok_def positions_default_def om_ok_def states_fit_def)
next
  case (snoc e b)
  then show ?case using positions_latest_across[of p b]
    by (simp, intro runs_as_step) (simp_all add: latest_combine_get)
qed

lemma positions_segment:
  assumes p: "positions_ok p"
  shows "positions_combine p (positions_run positions_default b) = positions_run p b"
proof (rule positions.equality)
  let ?d = "positions_run positions_default b"
  have r: "runs_as p ?d (positions_run p b)" by (rule positions_run_as[OF p])
  have om: "om_ok (pt_by_id p)" "om_ok (pt_waiting p)" "om_ok (pt_by_id ?d)" "om_ok (pt_waiting ?d)"
    using p r by (simp_all add: positions_ok_def runs_as_def)
  note c = positions_combine_fields[OF om]
  show "pt_by_id (positions_combine p ?d) = pt_by_id (positions_run p b)"
    using r by (intro omap_eqI c(1) ext) (simp_all add: c(3) runs_as_def)
  show "pt_waiting (positions_combine p ?d) = pt_waiting (positions_run p b)"
    using r by (intro omap_eqI c(2) ext) (simp_all add: c(4) runs_as_def)
  show "pt_pool (positions_combine p ?d) = pt_pool (positions_run p b)"
    "pt_pool_price (positions_combine p ?d) = pt_pool_price (positions_run p b)"
    using positions_latest_across[of p b] by (simp_all add: c(5,6))
qed simp

text \<open>A fold of positions stays one: the law applies to what a fold has read already.\<close>

lemma position_effect_ok:
  assumes "position_effect ps e = Some (i, f)" "position_ok s"
  shows "position_ok (f s)"
proof (cases "change_said (te_event e)")
  case None
  have fits: "later_fits 0 0 s" using assms(2) by (simp add: later_fits_def)
  have said: "touch_said (te_point e) (latest_get (pt_pool_price ps)) (te_event e) = Some (i, f)"
    using assms(1) None by (simp add: position_effect_def)
  then have "touch_said (te_point e) (opt_or (latest_get (pt_pool_price ps)) None) (te_event e) = Some (i, f)"
    by (cases "latest_get (pt_pool_price ps)") (simp_all add: opt_or_def)
  from touch_said_joined[OF fits _ said this, of None] show ?thesis by (simp add: later_fits_def)
next
  case (Some x)
  have "later_fits 0 0 s" using assms(2) by (simp add: later_fits_def)
  from liquidity_fits[OF this] show ?thesis using assms(1) Some
    by (cases x) (auto simp: position_effect_def later_fits_def)
qed

lemma positions_apply_ok:
  assumes "positions_ok ps" shows "positions_ok (positions_apply ps e)"
proof -
  have om: "om_ok (pt_by_id ps)" "om_ok (pt_waiting ps)" and ok: "\<And>p s. map_of (pt_by_id ps) p = Some s \<Longrightarrow> position_ok s"
    using assms by (simp_all add: positions_ok_def)
  have "position_ok (touched a (map_of (pt_by_id ps) i))" for a i
    using ok touched_fits(2)[of a] touched_fits(1)[of 0 0 _ a] by (cases "map_of (pt_by_id ps) i") (auto simp: later_fits_def)
  then show ?thesis using positions_apply_om[OF om, of e] ok position_effect_ok
    by (auto simp: positions_ok_def split: option.splits if_splits)
qed

lemma positions_run_ok: "positions_ok ps \<Longrightarrow> positions_ok (positions_run ps b)"
  by (induction b arbitrary: ps) (simp_all add: positions_apply_ok)

interpretation positions: point_fold positions_default positions_apply positions_combine "\<lambda>p b. positions_ok p" te_point
proof
  fix p :: positions and b e
  assume p: "positions_ok p"
  show "positions_ok p" by (rule p)
  show "positions_combine p positions_default = p" using positions_segment[OF p, of "[]"] by simp
  show "positions_combine p (positions_apply (positions_run positions_default b) e) = positions_apply (positions_combine p (positions_run positions_default b)) e"
    using positions_segment[OF p, of "b @ [e]"] by (simp add: positions_segment[OF p])
qed

end
