(* ===== verification/Market_Replay.thy ===== *)
theory Market_Replay
  imports Market_Fold Solvency_Fold Positions_Fold Market_Tape
begin

text \<open>
  \<open>src/src/history/replay/mod.rs\<close> and \<open>seed.rs\<close>: a market rebuilt from its tape. The nine folds of the other theories are one fold
  here, kept behind the chain-order guard, with the three ways it starts and the drivers that read it through a block. The
  segment law of the whole rests on the laws of the nine, and gives the fold of a tape cut into segments for several cores.
\<close>

subsection \<open>The code: the nine folds\<close>

record market_folds =
  mf_prices :: market_prices
  mf_rates :: market_rates
  mf_utilization :: utilization
  mf_solvency :: solvency
  mf_modules :: modules
  mf_pool :: pool_fold
  mf_positions :: positions
  mf_custody :: custody
  mf_activity :: activity

definition market_default :: market_folds where
  "market_default = \<lparr>mf_prices = prices_default, mf_rates = rates_default, mf_utilization = utilization_default,
     mf_solvency = solvency_default, mf_modules = modules_default, mf_pool = pool_fold_default, mf_positions = positions_default,
     mf_custody = [], mf_activity = activity_default\<rparr>"

definition market_retain :: "retention \<Rightarrow> market_folds \<Rightarrow> market_folds" where
  "market_retain r m = m\<lparr>mf_prices := prices_retain r (mf_prices m), mf_utilization := utilization_retain r (mf_utilization m),
     mf_solvency := solvency_retain r (mf_solvency m), mf_activity := activity_retain r (mf_activity m)\<rparr>"

definition market_advance :: "unit sample \<Rightarrow> market_folds \<Rightarrow> market_folds" where
  "market_advance u m = m\<lparr>mf_prices := prices_advance u (mf_prices m), mf_utilization := utilization_advance u (mf_utilization m),
     mf_solvency := solvency_advance u (mf_solvency m), mf_activity := activity_advance u (mf_activity m)\<rparr>"

definition market_apply :: "market_folds \<Rightarrow> tape_event \<Rightarrow> market_folds" where
  "market_apply m e = \<lparr>mf_prices = prices_apply (mf_prices m) e, mf_rates = rates_apply (mf_rates m) e,
     mf_utilization = utilization_apply (mf_utilization m) e, mf_solvency = solvency_apply (mf_solvency m) e,
     mf_modules = modules_apply (mf_modules m) e, mf_pool = pool_fold_apply (mf_pool m) e,
     mf_positions = positions_apply (mf_positions m) e, mf_custody = custody_apply (mf_custody m) e,
     mf_activity = activity_apply (mf_activity m) e\<rparr>"

definition market_combine :: "market_folds \<Rightarrow> market_folds \<Rightarrow> market_folds" where
  "market_combine m later = \<lparr>mf_prices = prices_combine (mf_prices m) (mf_prices later), mf_rates = rates_combine (mf_rates m) (mf_rates later),
     mf_utilization = utilization_combine (mf_utilization m) (mf_utilization later),
     mf_solvency = solvency_combine (mf_solvency m) (mf_solvency later), mf_modules = modules_combine (mf_modules m) (mf_modules later),
     mf_pool = pool_fold_combine (mf_pool m) (mf_pool later), mf_positions = positions_combine (mf_positions m) (mf_positions later),
     mf_custody = custody_combine (mf_custody m) (mf_custody later), mf_activity = activity_combine (mf_activity m) (mf_activity later)\<rparr>"

subsection \<open>The code: the replay\<close>

datatype start = CreationStart | SeedStart | SegmentStart

record replay =
  rp_perp :: account
  rp_start :: start
  rp_events :: u64
  rp_block :: "block_context latest"
  rp_market :: "market_folds sequenced"

definition replay_default :: replay where
  "replay_default = \<lparr>rp_perp = 0, rp_start = SegmentStart, rp_events = 0, rp_block = latest_default, rp_market = sequenced_new market_default\<rparr>"

definition replay_segment_of :: "account \<Rightarrow> replay" where
  "replay_segment_of who = replay_default\<lparr>rp_perp := who\<rparr>"

definition replay_from_genesis :: "account \<Rightarrow> replay" where
  "replay_from_genesis who = \<lparr>rp_perp = who, rp_start = CreationStart, rp_events = 0, rp_block = latest_default,
     rp_market = sequenced_new (market_default\<lparr>mf_utilization := utilization_genesis, mf_solvency := solvency_genesis,
       mf_pool := pool_fold_genesis, mf_activity := activity_genesis\<rparr>)\<rparr>"

definition replay_retaining :: "retention \<Rightarrow> replay \<Rightarrow> replay" where
  "replay_retaining r p = p\<lparr>rp_market := (rp_market p)\<lparr>sq_inner := market_retain r (sq_inner (rp_market p))\<rparr>\<rparr>"

definition block_of_event :: "tape_event \<Rightarrow> block_context" where
  "block_of_event e = \<lparr>block_number = te_block_number e, block_hash = te_block_hash e, block_timestamp = te_timestamp e\<rparr>"

definition replay_apply :: "replay \<Rightarrow> tape_event \<Rightarrow> replay" where
  "replay_apply p e = (case accept market_apply te_point (rp_market p) e of
      (False, m) \<Rightarrow> p\<lparr>rp_market := m\<rparr>
    | (True, m) \<Rightarrow> p\<lparr>rp_market := m, rp_events := rp_events p + 1, rp_block := latest_set (block_of_event e) (rp_block p)\<rparr>)"

definition replay_combine :: "replay \<Rightarrow> replay \<Rightarrow> replay" where
  "replay_combine p later = \<lparr>rp_perp = (if rp_perp p = 0 then rp_perp later else rp_perp p),
     rp_start = (if p = replay_default then rp_start later else rp_start p), rp_events = rp_events p + rp_events later,
     rp_block = latest_combine (rp_block p) (rp_block later),
     rp_market = sequenced_combine market_combine (rp_market p) (rp_market later)\<rparr>"

definition replay_point :: "replay \<Rightarrow> chain_point option" where
  "replay_point p = latest_get (sq_last (rp_market p))"

definition end_of_block :: "block_context \<Rightarrow> chain_point" where
  "end_of_block b = ChainPoint (block_number b) (- 1)"

definition block_sample :: "block_context \<Rightarrow> unit sample" where
  "block_sample b = \<lparr>sm_point = end_of_block b, sm_timestamp = block_timestamp b, sm_value = ()\<rparr>"

definition stands_past :: "replay \<Rightarrow> block_context \<Rightarrow> bool" where
  "stands_past p b = (case replay_point p of None \<Rightarrow> False | Some q \<Rightarrow> end_of_block b \<le> q)"

definition read_through :: "block_context \<Rightarrow> replay \<Rightarrow> replay" where
  "read_through b p =
     (if stands_past p b then p
      else let m = stand_at (end_of_block b) (rp_market p)
           in p\<lparr>rp_block := latest_set b (rp_block p), rp_market := m\<lparr>sq_inner := market_advance (block_sample b) (sq_inner m)\<rparr>\<rparr>)"

definition read_books :: "books \<Rightarrow> replay \<Rightarrow> replay result" where
  "read_books b p =
     (if bk_perp b \<noteq> rp_perp p then Inl InvalidConfig
      else if stands_past p (bk_block b) then Inl InvalidConfig
      else let m = sq_inner (rp_market p);
               m = m\<lparr>mf_solvency := solvency_read (block_sample (bk_block b)) (bk_solvency b) (mf_solvency m)\<rparr>
           in Inr (read_through (bk_block b) (p\<lparr>rp_market := (rp_market p)\<lparr>sq_inner := m\<rparr>\<rparr>)))"

text \<open>
  The history a fold catches up from is a parameter: the tip it scans to, the tape of a range of blocks, the header of a block. What was
  applied before an error stays applied.
\<close>

record history_node =
  hn_tip :: "u64 result"
  hn_market_tape :: "u64 \<Rightarrow> u64 \<Rightarrow> tape_event list result"
  hn_block :: "u64 \<Rightarrow> block_context result"

definition catch_up :: "history_node \<Rightarrow> u64 option \<Rightarrow> replay \<Rightarrow> nat result \<times> replay" where
  "catch_up h to_block p = (case latest_get (rp_block p) of
      None \<Rightarrow> (Inl InvalidConfig, p)
    | Some b \<Rightarrow>
        let from_block = block_number b + 1
        in case (case to_block of Some to_b \<Rightarrow> Inr to_b | None \<Rightarrow> hn_tip h) of
          Inl e \<Rightarrow> (Inl e, p)
        | Inr to_b \<Rightarrow>
            if to_b < from_block then (Inr 0, p)
            else (case hn_market_tape h from_block to_b of
              Inl e \<Rightarrow> (Inl e, p)
            | Inr tape \<Rightarrow>
                let p = foldl replay_apply p tape
                in case hn_block h to_b of Inl e \<Rightarrow> (Inl e, p) | Inr b \<Rightarrow> (Inr (length tape), read_through b p)))"

subsection \<open>The code: the seed\<close>

text \<open>
  Every read at one block, and the rows of the positions with their bands, each of which may have failed. The position a row
  describes is decided as \<open>Seed::read\<close> decides it.
\<close>

record position_row =
  pw_pos_id :: u256
  pw_row :: "(u128 \<times> i256) option result"
  pw_band :: "maker_band option result"

record seed =
  sd_perp :: account
  sd_block :: block_context
  sd_pool_price :: price
  sd_index :: price
  sd_emas :: emas
  sd_funding_per_day :: funding_rate
  sd_util_fee_per_day :: "utilization_rate per_side"
  sd_cumulatives :: cumulatives
  sd_capacity :: market_capacity
  sd_solvency :: solvency_state
  sd_modules :: "account \<times> account \<times> account \<times> account \<times> account \<times> account"
  sd_ticks :: "(i32, tick_liquidity) omap"
  sd_tick :: i32
  sd_sqrt_price :: sqrt_price
  sd_positions :: "(u256 \<times> seed_position) list"

definition seed_position_of :: "position_row \<Rightarrow> (u256 \<times> seed_position) option result" where
  "seed_position_of w = rbind (pw_row w) (\<lambda>row. case row of
      None \<Rightarrow> Inr None
    | Some (margin, delta) \<Rightarrow>
        let (moved, usd) = unpack_balance_delta delta
        in rbind (pw_band w) (\<lambda>band. case band of
             Some b \<Rightarrow>
               if uint (l_units (band_liquidity b)) < 2 ^ 127
               then Inr (Some (pw_pos_id w, SeedMaker (band_range b) (LDelta (l_units (band_liquidity b))) (PerpDelta moved) (UsdcDelta usd) (UsdcAtoms margin)))
               else Inl Overflow
           | None \<Rightarrow>
               if moved = 0 then Inr (Some (pw_pos_id w, SeedUnknown (UsdcAtoms margin)))
               else Inr (Some (pw_pos_id w, SeedTaker (PerpDelta moved) (UsdcDelta usd) (UsdcAtoms margin)))))"

fun seed_positions :: "position_row list \<Rightarrow> (u256 \<times> seed_position) list result" where
  "seed_positions [] = Inr []"
| "seed_positions (w # ws) = rbind (seed_position_of w) (\<lambda>x. result_map (\<lambda>xs. case x of None \<Rightarrow> xs | Some y \<Rightarrow> y # xs) (seed_positions ws))"

definition from_seed :: "seed \<Rightarrow> replay result" where
  "from_seed s =
     (let u = block_sample (sd_block s); (b, f, fu, mr, im, pr) = sd_modules s
      in result_map (\<lambda>pool.
           \<lparr>rp_perp = sd_perp s, rp_start = SeedStart, rp_events = 0, rp_block = latest_stated (sd_block s),
            rp_market = standing_at
              \<lparr>mf_prices = prices_seeded u (sd_pool_price s) (sd_index s) (sd_emas s),
               mf_rates = rates_seeded (sd_funding_per_day s) (sd_util_fee_per_day s) (sd_cumulatives s),
               mf_utilization = utilization_seeded u (sd_capacity s), mf_solvency = solvency_seeded u (sd_solvency s),
               mf_modules = modules_seeded b f fu mr im pr, mf_pool = pool,
               mf_positions = positions_seeded (sd_pool_price s) \<lparr>pp_sqrt_price = sd_sqrt_price s, pp_tick = sd_tick s\<rparr> (sd_positions s),
               mf_custody = [], mf_activity = activity_seeded u (sd_pool_price s) (sd_index s)\<rparr>
              (end_of_block (sd_block s))\<rparr>) (pool_fold_seeded (sd_ticks s) (sd_tick s)))"

subsection \<open>The code: what the replay does not know\<close>

record unknowns =
  un_partial_positions :: u32
  un_taker_size_unknown :: u32
  un_margin_unknown :: u32

record gaps =
  gp_silences :: silences
  gp_unknowns :: unknowns
  gp_refused :: u32

definition count_unknown :: "unknowns \<Rightarrow> u256 \<times> position_state \<Rightarrow> unknowns" where
  "count_unknown n x = (let s = snd x in
     \<lparr>un_partial_positions = un_partial_positions n + (if level_known s then 0 else 1),
      un_taker_size_unknown = un_taker_size_unknown n
        + (case po_kind s of TakerKind _ _ _ \<Rightarrow> if taker_size s = None then 1 else 0 | _ \<Rightarrow> 0),
      un_margin_unknown = un_margin_unknown n + (if po_margin s = None then 1 else 0)\<rparr>)"

definition replay_gaps :: "replay \<Rightarrow> gaps" where
  "replay_gaps p = (let m = sq_inner (rp_market p) in
     \<lparr>gp_silences = solvency_silences (mf_solvency m),
      gp_unknowns = foldl count_unknown \<lparr>un_partial_positions = 0, un_taker_size_unknown = 0, un_margin_unknown = 0\<rparr> (positions_open (mf_positions m)),
      gp_refused = sq_refused (rp_market p)\<rparr>)"

definition replay_deposited :: "replay \<Rightarrow> usdc_atoms option" where
  "replay_deposited p = (if rp_start p = CreationStart then Some (sv_deposited (mf_solvency (sq_inner (rp_market p)))) else None)"

subsection \<open>The tapes the whole is kept on\<close>

fun tx_runs :: "tape_event list \<Rightarrow> bool" where
  "tx_runs [] \<longleftrightarrow> True"
| "tx_runs (e # b) \<longleftrightarrow> tx_first (Some (te_tx_hash e)) b \<and> tx_runs b"

lemma tx_first_Cons:
  "tx_first (Some t) (e # b) \<longleftrightarrow> (if te_tx_hash e = t then tx_first (Some t) b else \<forall>x \<in> set b. te_tx_hash x \<noteq> t)"
  by (simp add: tx_first_def)

lemma tx_first_absent: "\<forall>x \<in> set b. te_tx_hash x \<noteq> t \<Longrightarrow> tx_first (Some t) b"
  unfolding tx_first_def option.case by (meson set_dropWhileD)

lemma tx_first_None: "tx_first None b"
  by (simp add: tx_first_def)

lemma tx_first_tail: assumes "tx_first tx (e # b)" shows "tx_first tx b"
proof (cases tx)
  case (Some t)
  then show ?thesis using assms tx_first_absent unfolding Some tx_first_Cons by (cases "te_tx_hash e = t") (simp_all only: if_True if_False)
qed (simp only: tx_first_None)

lemma tx_first_either:
  "tx' \<in> {tx, Some (te_tx_hash e)} \<Longrightarrow> tx_first tx (e # b) \<Longrightarrow> tx_first (Some (te_tx_hash e)) b \<Longrightarrow> tx_first tx' b"
  using tx_first_tail by blast

definition market_follows :: "market_folds \<Rightarrow> tape_event list \<Rightarrow> bool" where
  "market_follows m b \<longleftrightarrow> prices_follow (mf_prices m) b \<and> utilization_follows (mf_utilization m) b \<and> solvency_follows (mf_solvency m) b
     \<and> length (mf_modules m) = 6 \<and> pool_fold_follows (mf_pool m) b \<and> positions_ok (mf_positions m) \<and> om_ok (mf_custody m)
     \<and> activity_follows (mf_activity m) b \<and> tx_runs b"

subsection \<open>A tape that follows goes on following\<close>

lemma after_through_tail:
  assumes "after_through u (e # es)" shows "after_through (Some (sample_with e ())) es" "after_through u es"
  using assms by (auto simp: after_through_def split: option.splits)

lemma series_follows_tail:
  assumes "series_follows s (e # es)" shows "series_follows (series_step s e) es"
proof -
  have f: "series_follows s [e]" using assms by (auto simp: series_follows_def after_through_def split: option.splits)
  have "series_ok (series_settle s (sr_samples s @ news [e]) (sample_with e ()))"
    by (rule series_settle_ok) (use series_run_ok[of s "[]" e] f in simp_all)
  then show ?thesis using after_through_tail(1)[of "sr_through s" e es] assms
    by (simp add: series_step_settle[OF f] series_follows_def)
qed

lemma arrivals_follow_tail:
  fixes e :: "'m option arrival" and es :: "'n arrival list"
  assumes "arrivals_follow a (arrival_with e () # es')" "map arrival_sample es' = map arrival_sample es"
  shows "arrivals_follow (arrivals_step a e) es"
proof -
  have f: "arrivals_follow a [e]" using assms(1) by (auto simp: arrivals_follow_def after_through_def split: option.splits)
  have "arrivals_ok (arrivals_settle a (watching_from a e) (av_arrivals a @ newcomers [e]) (arrival_sample e))"
    by (rule arrivals_settle_ok) (use arrivals_run_ok[of a "[]" e] f in \<open>simp_all del: newcomers.simps\<close>)
  then show ?thesis using after_through_tail(1)[of "av_through a" "arrival_sample e" "map arrival_sample es"] assms
    by (simp add: arrivals_step_settle[OF f] arrivals_follow_def del: newcomers.simps)
qed

lemma quiet_tail: "arrivals_follow p (quiet_arrivals (e # b)) \<Longrightarrow> arrivals_follow (arrivals_step p (te_arrival e m)) (quiet_arrivals b)"
  by (rule arrivals_follow_tail[of p "te_arrival e m" "quiet_arrivals b"]) simp_all

lemma activity_follows_tail:
  assumes "activity_follows a (e # b)" "tx_first (Some (te_tx_hash e)) b"
  shows "activity_follows (activity_apply a e) b"
proof -
  have "it_tx (in_tx_step pool i e) \<in> {it_tx i, Some (te_tx_hash e)}" for pool i
    by (auto simp: in_tx_step_def in_tx_swapped_def Let_def split: option.split)
  then have "tx_first (it_tx (ac_in_tx (activity_apply a e))) b"
    unfolding activity_apply_fields by (rule tx_first_either) (use assms in \<open>simp_all only: activity_follows_def\<close>)
  then show ?thesis using assms(1) unfolding activity_follows_def activity_apply_fields
    by (intro conjI quiet_tail) (simp_all only:)
qed

lemma solvency_follows_tail:
  assumes "solvency_follows s (e # b)" "tx_runs (e # b)"
  shows "solvency_follows (solvency_apply s e) b"
proof -
  note a = assms(1)[unfolded solvency_follows_def]
  let ?tr = "latest_get (sv_transfer_in_tx s)" and ?s = "solvency_apply s e"
  have e: "tx_first (Some (te_tx_hash e)) b" using assms(2) by simp
  have "map_option fst (latest_get (sv_transfer_in_tx ?s)) \<in> {map_option fst ?tr, Some (te_tx_hash e)}"
    using transfer_said_iff(2) by (auto simp: solvency_apply_fields latest_step_def latest_set_def split: option.split)
  then have tr: "tx_first (map_option fst (latest_get (sv_transfer_in_tx ?s))) b"
    by (rule tx_first_either) (use a e in blast)+
  have op: "op_tx (sv_opening ?s) = Some (case op_tx (sv_opening s) of None \<Rightarrow> te_tx_hash e | Some tx \<Rightarrow> tx)"
    by (simp add: solvency_apply_fields opening_step_def Let_def)
  have "op_tx (sv_opening ?s) \<in> {op_tx (sv_opening s), Some (te_tx_hash e)}" unfolding op by (simp split: option.split)
  then have "tx_first (op_tx (sv_opening ?s)) b" by (rule tx_first_either) (use a e in blast)+
  moreover have "tx_first (first_tx_of b) b"
  proof (cases b)
    case (Cons d c)
    then have "tx_first (Some (te_tx_hash d)) c" using assms(2) by simp
    then show ?thesis by (simp add: Cons first_tx_of_def tx_first_Cons)
  qed (simp add: first_tx_of_def tx_first_None)
  moreover have "removable b < 2 ^ 128"
  proof -
    have "removable (e # b) = uint (usdc (removed_of (te_event e))) + removable b" by (simp add: removable_def)
    moreover have "removable (e # b) < 2 ^ 128" using a by blast
    ultimately show ?thesis using uint_ge_0[of "usdc (removed_of (te_event e))"] by linarith
  qed
  moreover have "series_follows (sv_margin_stated ?s) (map (\<lambda>e. te_sample e (margin_said (te_event e))) b)"
    "series_follows (sv_debt_stated ?s) (map (\<lambda>e. te_sample e (debt_said (te_event e))) b)"
    unfolding solvency_apply_fields by (rule series_follows_tail, use a in \<open>simp only: list.map\<close>)+
  moreover have "op_tx (sv_opening ?s) \<noteq> None" unfolding op by simp
  ultimately show ?thesis using tr unfolding solvency_follows_def by blast
qed

lemma market_follows_tail:
  assumes "market_follows m (e # b)" shows "market_follows (market_apply m e) b"
proof -
  note a = assms[unfolded market_follows_def]
  have "prices_follow (prices_apply (mf_prices m) e) b" "utilization_follows (utilization_apply (mf_utilization m) e) b"
    using a by (auto simp: prices_follow_def prices_apply_fields utilization_follows_def utilization_apply_fields intro: series_follows_tail)
  moreover have "length (modules_apply (mf_modules m) e) = 6" using a by (simp add: modules_apply_def split: market_event.split)
  moreover have "pool_fold_follows (pool_fold_apply (mf_pool m) e) b" using a pool_fold_apply_ok by (simp add: pool_fold_follows_def)
  ultimately show ?thesis
    using a solvency_follows_tail activity_follows_tail positions_apply_ok custody_apply_ok by (simp add: market_follows_def market_apply_def)
qed

lemma market_follows_append: "market_follows m (a @ b) \<Longrightarrow> market_follows (foldl market_apply m a) b"
  by (induction a arbitrary: m) (simp_all add: market_follows_tail)

subsection \<open>The whole keeps the law\<close>

lemma market_run_fields:
  "mf_prices (foldl market_apply m b) = foldl prices_apply (mf_prices m) b"
  "mf_rates (foldl market_apply m b) = foldl rates_apply (mf_rates m) b"
  "mf_utilization (foldl market_apply m b) = foldl utilization_apply (mf_utilization m) b"
  "mf_solvency (foldl market_apply m b) = foldl solvency_apply (mf_solvency m) b"
  "mf_modules (foldl market_apply m b) = foldl modules_apply (mf_modules m) b"
  "mf_pool (foldl market_apply m b) = foldl pool_fold_apply (mf_pool m) b"
  "mf_positions (foldl market_apply m b) = foldl positions_apply (mf_positions m) b"
  "mf_custody (foldl market_apply m b) = foldl custody_apply (mf_custody m) b"
  "mf_activity (foldl market_apply m b) = foldl activity_apply (mf_activity m) b"
  by (induction b arbitrary: m; simp add: market_apply_def)+

lemma market_segment:
  assumes "market_follows m b"
  shows "market_combine m (foldl market_apply market_default b) = foldl market_apply m b"
proof -
  note a = assms[unfolded market_follows_def]
  have d: "foldl market_apply market_default b = \<lparr>mf_prices = foldl prices_apply prices_default b, mf_rates = foldl rates_apply rates_default b,
     mf_utilization = foldl utilization_apply utilization_default b, mf_solvency = foldl solvency_apply solvency_default b,
     mf_modules = foldl modules_apply modules_default b, mf_pool = foldl pool_fold_apply pool_fold_default b,
     mf_positions = foldl positions_apply positions_default b, mf_custody = foldl custody_apply [] b,
     mf_activity = foldl activity_apply activity_default b\<rparr>"
    by (rule market_folds.equality) (simp_all add: market_run_fields market_default_def)
  have "prices_combine (mf_prices m) (foldl prices_apply prices_default b) = foldl prices_apply (mf_prices m) b"
    "rates_combine (mf_rates m) (foldl rates_apply rates_default b) = foldl rates_apply (mf_rates m) b"
    "utilization_combine (mf_utilization m) (foldl utilization_apply utilization_default b) = foldl utilization_apply (mf_utilization m) b"
    "solvency_combine (mf_solvency m) (foldl solvency_apply solvency_default b) = foldl solvency_apply (mf_solvency m) b"
    "modules_combine (mf_modules m) (foldl modules_apply modules_default b) = foldl modules_apply (mf_modules m) b"
    "pool_fold_combine (mf_pool m) (foldl pool_fold_apply pool_fold_default b) = foldl pool_fold_apply (mf_pool m) b"
    "positions_combine (mf_positions m) (foldl positions_apply positions_default b) = foldl positions_apply (mf_positions m) b"
    "custody_combine (mf_custody m) (foldl custody_apply [] b) = foldl custody_apply (mf_custody m) b"
    "activity_combine (mf_activity m) (foldl activity_apply activity_default b) = foldl activity_apply (mf_activity m) b"
    using a prices.segment rates.segment utilization.segment solvency.segment modules.segment pool_fold.segment positions.segment
      custody.segment activity.segment by blast+
  then show ?thesis unfolding d by (intro market_folds.equality) (simp_all add: market_combine_def market_run_fields)
qed

lemma tx_runs_prefix: "tx_runs (b @ [e]) \<Longrightarrow> tx_runs b"
proof (induction b)
  case (Cons x b)
  then have "tx_first (Some (te_tx_hash x)) (b @ [e])" "tx_runs (b @ [e])" by (simp_all only: append_Cons tx_runs.simps)
  then show ?case using Cons.IH tx_first_snoc by (simp only: tx_runs.simps)
qed (simp only: tx_runs.simps)

lemma market_follows_prefix: "market_follows m (b @ [e]) \<Longrightarrow> market_follows m b"
  unfolding market_follows_def
  using prices.follows_prefix utilization.follows_prefix solvency.follows_prefix pool_fold.follows_prefix activity.follows_prefix tx_runs_prefix
  by blast

interpretation market: point_fold market_default market_apply market_combine market_follows te_point
proof
  fix m b e
  show "market_follows m b" if "market_follows m (b @ [e])" by (rule market_follows_prefix[OF that])
  show "market_combine m market_default = m" if "market_follows m []" using market_segment[OF that] by simp
  show "market_combine m (market_apply (foldl market_apply market_default b) e)
      = market_apply (market_combine m (foldl market_apply market_default b)) e" if "market_follows m (b @ [e])"
    using market_segment[OF that] market_segment[OF market_follows_prefix[OF that]] by simp
qed

definition replay_follows :: "replay \<Rightarrow> tape_event list \<Rightarrow> bool" where
  "replay_follows p b \<longleftrightarrow> market_follows (sq_inner (rp_market p)) b \<and> in_order te_point (replay_point p) b"

lemma replay_run_market: "rp_market (foldl replay_apply p b) = foldl (sequenced_apply market_apply te_point) (rp_market p) b"
  by (induction b arbitrary: p) (simp_all add: replay_apply_def sequenced_apply_def split: prod.split bool.split)

lemma replay_run_kept: "rp_perp (foldl replay_apply p b) = rp_perp p" "rp_start (foldl replay_apply p b) = rp_start p"
  by (induction b arbitrary: p; simp add: replay_apply_def split: prod.split bool.split)+

lemma replay_apply_ordered:
  assumes "after_point (replay_point p) (te_point e)"
  shows "rp_events (replay_apply p e) = rp_events p + 1" "rp_block (replay_apply p e) = latest_set (block_of_event e) (rp_block p)"
    "replay_point (replay_apply p e) = Some (te_point e)"
    "sq_inner (rp_market (replay_apply p e)) = market_apply (sq_inner (rp_market p)) e"
    "sq_refused (rp_market (replay_apply p e)) = sq_refused (rp_market p)"
  using assms
  by (auto simp: replay_apply_def accept_def replay_point_def after_point_def latest_set_def split: option.splits)

lemma replay_run_ordered:
  assumes "in_order te_point (replay_point p) b"
  shows "rp_events (foldl replay_apply p b) = rp_events p + of_nat (length b)"
    "rp_block (foldl replay_apply p b) = foldl latest_step (rp_block p) (map (\<lambda>e. Some (block_of_event e)) b)"
    "sq_inner (rp_market (foldl replay_apply p b)) = foldl market_apply (sq_inner (rp_market p)) b"
  using assms
  by (induction b arbitrary: p) (simp_all add: in_order_Cons replay_apply_ordered latest_step_def add.assoc)

lemma replay_follows_append:
  assumes "replay_follows p (a @ b)" shows "replay_follows p a" "replay_follows (foldl replay_apply p a) b"
proof -
  have o': "in_order te_point (replay_point p) a" "in_order te_point (replay_point p) (a @ b)"
    using assms by (auto simp: replay_follows_def in_order_def sorted_wrt_append)
  have "market_follows (sq_inner (rp_market p)) a"
    using assms unfolding replay_follows_def by (induction b rule: rev_induct) (auto simp flip: append_assoc dest: market_follows_prefix simp: in_order_def sorted_wrt_append)
  then show "replay_follows p a" using o' by (simp add: replay_follows_def)
  have "in_order te_point (replay_point (foldl replay_apply p a)) b"
    using o'(2) by (induction a arbitrary: p) (simp_all add: in_order_Cons replay_apply_ordered)
  then show "replay_follows (foldl replay_apply p a) b"
    using assms market_follows_append by (simp add: replay_follows_def replay_run_ordered(3)[OF o'(1)])
qed

lemma replay_default_fields:
  "rp_perp replay_default = 0" "rp_start replay_default = SegmentStart" "rp_events replay_default = 0"
  "rp_block replay_default = latest_default" "rp_market replay_default = sequenced_new market_default" "replay_point replay_default = None"
  by (simp_all add: replay_default_def replay_point_def sequenced_new_def latest_default_def)

lemma replay_segment:
  assumes "replay_follows p b"
  shows "replay_combine p (foldl replay_apply replay_default b) = foldl replay_apply p b"
proof (rule replay.equality)
  let ?d = "foldl replay_apply replay_default b"
  have o': "in_order te_point (replay_point p) b" "in_order te_point (replay_point replay_default) b"
    using assms by (auto simp: replay_follows_def in_order_def replay_default_fields after_point_def)
  show "rp_perp (replay_combine p ?d) = rp_perp (foldl replay_apply p b)" "rp_start (replay_combine p ?d) = rp_start (foldl replay_apply p b)"
    by (simp_all add: replay_combine_def replay_run_kept replay_default_fields)
  show "rp_events (replay_combine p ?d) = rp_events (foldl replay_apply p b)"
    by (simp add: replay_combine_def replay_run_ordered[OF o'(1)] replay_run_ordered[OF o'(2)] replay_default_fields)
  show "rp_block (replay_combine p ?d) = rp_block (foldl replay_apply p b)"
    unfolding replay_run_ordered[OF o'(1)] using latest.segment
    by (simp add: replay_combine_def replay_run_ordered[OF o'(2)] replay_default_fields)
  have "sequenced_combine market_combine (rp_market p) (foldl (sequenced_apply market_apply te_point) (sequenced_new market_default) b)
      = foldl (sequenced_apply market_apply te_point) (rp_market p) b"
    by (rule market.guarded.segment) (use assms in \<open>simp add: replay_follows_def replay_point_def\<close>)
  then show "rp_market (replay_combine p ?d) = rp_market (foldl replay_apply p b)"
    by (simp add: replay_combine_def replay_run_market replay_default_fields)
qed simp

text \<open>The segments folded each on its own and combined in order.\<close>

lemma replay_segments:
  "replay_follows p (concat bs) \<Longrightarrow> foldl replay_combine p (map (foldl replay_apply replay_default) bs) = foldl replay_apply p (concat bs)"
proof (induction bs arbitrary: p)
  case (Cons b bs)
  have f: "replay_follows p b" "replay_follows (foldl replay_apply p b) (concat bs)"
    using replay_follows_append Cons.prems by simp_all
  then show ?case using replay_segment Cons.IH by simp
qed simp

subsection \<open>A market from its creation\<close>

lemma tape_before:
  assumes "tape_ok t" shows "sorted_wrt before (map (\<lambda>e. te_sample e (f e)) t)"
  unfolding sorted_wrt_map by (rule sorted_wrt_mono_rel[OF _ assms[unfolded tape_ok_def]]) (simp add: follows_row_def)

lemma tape_in_order:
  assumes "tape_ok t" shows "in_order te_point None t"
  unfolding in_order_def after_point_def
  by (simp, rule sorted_wrt_mono_rel[OF _ assms[unfolded tape_ok_def]]) (simp add: follows_row_def)

lemma retain_default_follows: "tape_ok t \<Longrightarrow> series_follows (series_retain r series_default) (map (\<lambda>e. te_sample e (f e)) t)"
  using tape_before[of t f]
  by (simp add: series_follows_def series_ok_def known_through_def after_through_def series_retain_def series_trim_def series_default_def
      split: retention.split)

lemma after_origin: "0 < te_block_number e \<Longrightarrow> ChainPoint 0 0 < te_point e"
  by (simp add: te_point_def less_chain_point_def)

lemma retain_origin:
  "series_retain r (series_stated (sample_origin v)) = (series_stated (sample_origin v))\<lparr>sr_retention := r\<rparr>"
  by (cases r) (simp_all add: series_retain_def series_trim_def series_stated_def series_default_def sample_origin_def sample_with_def
      window_start_def saturating_sub_def partition_point_def)

lemma retain_origin_follows:
  assumes "tape_ok t" "\<forall>e \<in> set t. 0 < te_block_number e"
  shows "series_follows (series_retain r (series_stated (sample_origin v))) (map (\<lambda>e. te_sample e (f e)) t)"
  using tape_before[OF assms(1), of f] assms(2) after_origin unfolding retain_origin
  by (simp add: series_follows_def series_ok_def known_through_def after_through_def series_stated_def series_default_def
      sample_origin_def sample_with_def)

lemma retain_genesis_follows:
  assumes "tape_ok t" shows "arrivals_follow (arrivals_retain r arrivals_from_genesis) (quiet_arrivals t)"
  using tape_before[OF assms, of "\<lambda>_. ()"]
  by (simp add: arrivals_follow_def arrivals_ok_def known_through_def after_through_def arrivals_retain_def arrivals_trim_def
      arrivals_from_genesis_def arrivals_default_def comp_def split: retention.split)

lemma genesis_follows:
  assumes t: "tape_ok t" and runs: "tx_runs t" and fees: "removable t < 2 ^ 128" and born: "\<forall>e \<in> set t. 0 < te_block_number e"
  shows "replay_follows (replay_retaining r (replay_from_genesis who)) t"
proof -
  let ?m = "market_retain r (market_default\<lparr>mf_utilization := utilization_genesis, mf_solvency := solvency_genesis,
       mf_pool := pool_fold_genesis, mf_activity := activity_genesis\<rparr>)"
  have m: "sq_inner (rp_market (replay_retaining r (replay_from_genesis who))) = ?m" "replay_point (replay_retaining r (replay_from_genesis who)) = None"
    by (simp_all add: replay_retaining_def replay_from_genesis_def sequenced_new_def replay_point_def latest_default_def)
  have first: "tx_first (first_tx_of t) t"
  proof (cases t)
    case (Cons e b)
    then have "tx_first (Some (te_tx_hash e)) b" using runs by (simp only: tx_runs.simps)
    then show ?thesis by (simp add: Cons first_tx_of_def tx_first_Cons)
  qed (simp add: first_tx_of_def tx_first_None)
  note def = market_retain_def market_default_def
  have "prices_follow (mf_prices ?m) t"
    by (simp add: retain_default_follows[OF t] def prices_follow_def prices_retain_def prices_default_def)
  moreover have "utilization_follows (mf_utilization ?m) t"
    by (simp add: retain_origin_follows[OF t born] def utilization_follows_def utilization_retain_def utilization_genesis_def)
  moreover have "solvency_follows (mf_solvency ?m) t"
  proof -
    have s: "mf_solvency ?m = \<lparr>sv_margin = stated_with 0, sv_debt = stated_with 0, sv_transfer_in_tx = latest_default, sv_opening = opening_default,
        sv_margin_stated = series_retain r (series_stated (sample_origin 0)), sv_debt_stated = series_retain r (series_stated (sample_origin 0)), sv_deposited = 0\<rparr>"
      by (simp add: def solvency_retain_def solvency_genesis_def solvency_seeded_def sample_origin_def sample_with_def)
    show ?thesis unfolding s solvency_follows_def
      using first fees by (simp add: retain_origin_follows[OF t born] tx_first_None opening_default_def latest_default_def)
  qed
  moreover have "length (mf_modules ?m) = 6" by (simp add: def modules_default_def)
  moreover have "pool_fold_follows (mf_pool ?m) t"
    by (simp add: def pool_fold_genesis_def pool_fold_default_def pool_fold_follows_def sums_ok_empty)
  moreover have "positions_ok (mf_positions ?m)" by (simp add: def positions_default_def positions_ok_def om_ok_def)
  moreover have "om_ok (mf_custody ?m)" by (simp add: def om_ok_def)
  moreover have "activity_follows (mf_activity ?m) t"
  proof -
    have g: "mf_activity ?m = \<lparr>ac_swaps = arrivals_retain r arrivals_from_genesis, ac_liquidations = arrivals_retain r arrivals_from_genesis,
        ac_settlements = arrivals_retain r arrivals_from_genesis, ac_prints = arrivals_retain r arrivals_from_genesis,
        ac_pool_price = latest_default, ac_index = latest_default, ac_in_tx = in_tx_default\<rparr>"
      by (simp add: def activity_retain_def activity_genesis_def activity_default_def)
    show ?thesis unfolding g activity_follows_def by (simp add: retain_genesis_follows[OF t] in_tx_default_def tx_first_None)
  qed
  ultimately show ?thesis using runs tape_in_order[OF t] unfolding replay_follows_def m market_follows_def by blast
qed

end
