(* ===== verification/Replay_Properties.thy ===== *)
theory Replay_Properties
  imports Market_Replay Quotes "HOL-Library.Sublist"
begin

text \<open>
  The properties of the market's history: tapes put together from their rows, replays cut into segments, the guard against disorder, the
  custody of positions, and the pool a replay rebuilds against the pool the quotes simulate.
\<close>

definition sample_event :: "u64 \<Rightarrow> u64 \<Rightarrow> u256 \<Rightarrow> market_event \<Rightarrow> tape_event" where
  "sample_event b i tx ev = \<lparr>te_block_number = b, te_block_hash = 100 + ucast b, te_log_index = i, te_timestamp = 10 * b, te_tx_hash = tx, te_event = ev\<rparr>"

lemma sample_event_simps [simp]:
  "te_block_number (sample_event b i tx ev) = b" "te_timestamp (sample_event b i tx ev) = 10 * b" "te_tx_hash (sample_event b i tx ev) = tx"
  "te_event (sample_event b i tx ev) = ev" "te_point (sample_event b i tx ev) = ChainPoint b i" "te_log_index (sample_event b i tx ev) = i"
  "te_block_hash (sample_event b i tx ev) = 100 + ucast b"
  by (simp_all add: sample_event_def te_point_def)

definition sample_tape :: "tape_event list" where
  "sample_tape = [sample_event 1 0 7 (PositionTransferred 0 5 1), sample_event 1 2 7 (MarginTransferred (UsdcDelta 50) (UsdcAtoms 50)),
     sample_event 3 1 8 (IndexUpdated (Price 90)), sample_event 4 0 9 (PositionTransferred 5 6 1)]"

lemma sample_tape_ok: "tape_ok sample_tape"
  by (simp add: sample_tape_def tape_ok_def follows_row_def less_chain_point_def)

lemma sample_tape_follows: "tx_runs sample_tape" "removable sample_tape < 2 ^ 128" "\<forall>e \<in> set sample_tape. 0 < te_block_number e"
  by (simp_all add: sample_tape_def tx_first_def removable_def removed_of_def taker_swap_of_def zero_usdc_atoms_def)

text \<open>C3: A market replayed in parallel is the market replayed in order. Cut a tape into any number of segments, fold each on its own from
  nothing, and combine the folds in order after a replay that stands at the market's creation, under any retention: every one of the
  nine folds, the guard and the counts are those of the replay that took the events one at a time.\<close>

theorem parallel_replay:
  assumes "tape_ok t" "tx_runs t" "removable t < 2 ^ 128" "\<forall>e \<in> set t. 0 < te_block_number e"
  shows "foldl replay_combine (replay_retaining r (replay_from_genesis who)) (map (foldl replay_apply replay_default) (tape_segments n t))
    = foldl replay_apply (replay_retaining r (replay_from_genesis who)) t"
proof -
  have c: "concat (tape_segments n t) = t" by (simp add: tape_segments_def concat_cut_segments)
  then have "replay_follows (replay_retaining r (replay_from_genesis who)) (concat (tape_segments n t))" using genesis_follows[OF assms] by simp
  from replay_segments[OF this] show ?thesis unfolding c .
qed

theorem parallel_replay_witness:
  "foldl replay_combine (replay_retaining (RetainLast (Window 15)) (replay_from_genesis 3)) (map (foldl replay_apply replay_default) (tape_segments 3 sample_tape))
    = foldl replay_apply (replay_retaining (RetainLast (Window 15)) (replay_from_genesis 3)) sample_tape
  \<and> tape_segments 3 sample_tape = [take 2 sample_tape, drop 2 sample_tape]"
proof
  show "tape_segments 3 sample_tape = [take 2 sample_tape, drop 2 sample_tape]"
    by (simp add: tape_segments_def sample_tape_def cut_segments.simps[of _ "_ # _"] cut_segments.simps[of _ "[]"] block_edge.simps Let_def)
qed (rule parallel_replay[OF sample_tape_ok sample_tape_follows])

text \<open>Whatever is delivered, in whatever order.\<close>

lemma latest_step_Some: "latest_step l (Some v) = latest_set v l"
  by (simp add: latest_step_def)

lemma replay_run_taken:
  "rp_events (foldl replay_apply p es) = rp_events p + of_nat (length (taken te_point (replay_point p) es))
    \<and> rp_block (foldl replay_apply p es) = foldl latest_step (rp_block p) (map (\<lambda>e. Some (block_of_event e)) (taken te_point (replay_point p) es))"
proof (induction es arbitrary: p)
  case (Cons e es)
  show ?case
  proof (cases "case replay_point p of None \<Rightarrow> False | Some l \<Rightarrow> te_point e \<le> l")
    case True
    then have "replay_apply p e = p\<lparr>rp_market := (rp_market p)\<lparr>sq_refused := sq_refused (rp_market p) + 1\<rparr>\<rparr>"
      by (simp add: replay_apply_def accept_def replay_point_def)
    moreover from this have "replay_point (replay_apply p e) = replay_point p" by (simp add: replay_point_def)
    moreover have "taken te_point (replay_point p) (e # es) = taken te_point (replay_point p) es" using True by simp
    ultimately show ?thesis using Cons.IH[of "replay_apply p e"] by simp
  next
    case False
    then have "after_point (replay_point p) (te_point e)" by (auto simp: after_point_def not_le split: option.splits)
    note o' = replay_apply_ordered[OF this]
    have t: "taken te_point (replay_point p) (e # es) = e # taken te_point (Some (te_point e)) es" using False by simp
    show ?thesis unfolding t using Cons.IH[of "replay_apply p e"] by (simp add: o' latest_step_Some add.assoc)
  qed
qed simp

lemma subseq_taken: "subseq (taken point prev es) es"
  by (induction point prev es rule: taken.induct) auto

text \<open>C9: A replay refuses disorder and says so. Whatever a driver delivers, late, twice or out of order, the replay is that of the events
  it took, which are among those delivered, each after everything taken before it, and its count of refusals is the number of the
  others. It refuses none exactly when the events come in order after the point it stands at.\<close>

theorem replay_refuses_disorder:
  "let kept = taken te_point (replay_point p) es; q = foldl replay_apply p kept in
     foldl replay_apply p es
       = q\<lparr>rp_market := (rp_market q)\<lparr>sq_refused := sq_refused (rp_market p) + of_nat (length es - length kept)\<rparr>\<rparr>
     \<and> subseq kept es \<and> in_order te_point (replay_point p) kept \<and> (kept = es \<longleftrightarrow> in_order te_point (replay_point p) es)"
proof -
  let ?k = "taken te_point (replay_point p) es"
  have k: "in_order te_point (replay_point p) ?k" by (rule taken_in_order)
  have tk: "taken te_point (replay_point p) ?k = ?k" by (rule taken_ordered[OF k])
  have "foldl replay_apply p es
      = (foldl replay_apply p ?k)\<lparr>rp_market := (rp_market (foldl replay_apply p ?k))\<lparr>sq_refused := sq_refused (rp_market p) + of_nat (length es - length ?k)\<rparr>\<rparr>"
    by (rule replay.equality)
      (simp_all add: replay_run_taken[of p es] replay_run_taken[of p ?k] replay_run_kept tk replay_run_market sequenced_taken replay_point_def[symmetric])
  moreover have "?k = es \<longleftrightarrow> in_order te_point (replay_point p) es" using k taken_ordered[of te_point "replay_point p" es] by auto
  ultimately show ?thesis using k subseq_taken unfolding Let_def by blast
qed

text \<open>C28: A tape is recovered from its rows. However its rows are delivered, in any order and any number of times each, collecting them
  gives the tape back; and rows collect into a tape only if they are the rows of one.\<close>

theorem rows_collect_into_their_tape:
  "tape_collect rows = Inr t \<longleftrightarrow> tape_ok t \<and> set t = set rows"
  by (rule tape_collect_Inr)

text \<open>C29: The owner of a position at a point is the account the last transfer up to that point handed it to, and there is none before the
  first transfer or after a burn, whatever happened on the tape later and wherever the log was cut and combined.\<close>

theorem owner_is_last_receiver:
  assumes "tape_ok (a @ b)"
  shows "owner_at (custody_combine (foldl custody_apply [] a) (foldl custody_apply [] b)) p at' =
    (case rev (transfers_of p (filter (\<lambda>e. te_point e \<le> at') (a @ b))) of [] \<Rightarrow> None | s # _ \<Rightarrow> if snd s = 0 then None else Some (snd s))"
proof -
  have "om_ok ([] :: custody)" by (simp add: om_ok_def)
  then have "custody_combine (foldl custody_apply [] a) (foldl custody_apply [] b) = foldl custody_apply [] (a @ b)"
    by (simp add: custody_segment custody_run_ok)
  then show ?thesis using owner_at_tape[OF assms, of p at'] by simp
qed

theorem owner_is_last_receiver_witness:
  "owner_at (custody_combine (foldl custody_apply [] (take 2 sample_tape)) (foldl custody_apply [] (drop 2 sample_tape))) 1 (ChainPoint 3 5) = Some 5"
proof -
  have s: "take 2 sample_tape @ drop 2 sample_tape = sample_tape" by (rule append_take_drop_id)
  show ?thesis
    unfolding owner_is_last_receiver[of "take 2 sample_tape" "drop 2 sample_tape", unfolded s, OF sample_tape_ok]
    by (simp add: sample_tape_def transfer_of_def less_eq_chain_point_def)
qed

text \<open>C10: The pool a replay rebuilds is the pool the quotes simulate. Seed the fold from a pool as it was read and apply the event of a
  liquidity change, an add or a removal: if the hypothetical change of \<open>PoolSnapshot\<close> succeeds, and a removal takes out what positions
  of that range put in (\<open>covers_change\<close>, which every add meets), the tick map and the active liquidity the fold reports are those
  the change leaves; it reports none exactly where a tick's gross, or the active liquidity, has outgrown its signed word (\<open>2 ^ 127\<close>).\<close>

theorem replayed_pool_is_simulated:
  assumes "pool_fold_seeded (ps_ticks s) (ps_tick s) = Inr p" "with_liquidity_delta s lo up d = Inr s'"
    and "ticks_ok (ps_ticks s)" "pool_ok s" "covers_change (ps_ticks s) lo up d" "te_event e = ModifyLiquidity pool who lo up d salt"
  shows "pool_fold_ticks (pool_fold_apply p e)
      = (if \<forall>(k, l) \<in> set (ps_ticks s'). uint (l_units (gross l)) < 2 ^ 127 then Some (ps_ticks s') else None)
    \<and> pool_fold_liquidity (pool_fold_apply p e)
      = (if uint (l_units (ps_liquidity s')) < 2 ^ 127 then Some (ps_liquidity s') else None)"
proof -
  note r = pool_fold_seeded_read[OF assms(1)]
  have t: "pf_ticks (pool_fold_apply p e) = as_sums (ps_ticks s')"
    by (rule replayed_change[OF assms(2,3,5,6) r(3)])
  have w: "pf_whole (pool_fold_apply p e)" "latest_get (pf_tick (pool_fold_apply p e)) = Some (ps_tick s')"
    using r(2,4) assms(2,6) by (auto simp: pool_fold_apply_def elim: with_liquidity_run)
  have "pool_ok s'" by (rule with_liquidity_change[OF assms(2,3,5)]) (use assms(4) in blast)
  then show ?thesis using pool_fold_ticks_as_sums[OF w(1) t] pool_fold_liquidity_is_active[OF w(1) t w(2)] by simp
qed

text \<open>Liquidity added to a range of its own, and the whole of what the pool holds taken out.\<close>

theorem replayed_pool_is_simulated_witness:
  "\<exists>p. pool_fold_seeded (ps_ticks sample_snapshot) (ps_tick sample_snapshot) = Inr p
     \<and> pool_fold_ticks (pool_fold_apply p (sample_event 1 0 7 (ModifyLiquidity 0 0 (- 30) 60 (LDelta 500) 2)))
         = Some [(- 60, \<lparr>gross = LUnits 1000000, net = LDelta 1000000\<rparr>), (- 30, \<lparr>gross = LUnits 500, net = LDelta 500\<rparr>),
             (60, \<lparr>gross = LUnits 1000500, net = LDelta (- 1000500)\<rparr>)]
     \<and> pool_fold_liquidity (pool_fold_apply p (sample_event 1 0 7 (ModifyLiquidity 0 0 (- 30) 60 (LDelta 500) 2))) = Some (LUnits 1000500)
     \<and> pool_fold_ticks (pool_fold_apply p (sample_event 1 0 7 (ModifyLiquidity 0 0 (- 60) 60 (LDelta (- 1000000)) 2))) = Some []
     \<and> pool_fold_liquidity (pool_fold_apply p (sample_event 1 0 7 (ModifyLiquidity 0 0 (- 60) 60 (LDelta (- 1000000)) 2))) = Some (LUnits 0)"
proof -
  let ?ticks = "[(- 60, \<lparr>gross = LUnits 1000000, net = LDelta 1000000\<rparr>), (- 30, \<lparr>gross = LUnits 500, net = LDelta 500\<rparr>),
    (60, \<lparr>gross = LUnits 1000500, net = LDelta (- 1000500)\<rparr>)]"
  have n: "l_delta_negated (LDelta 500) = Inr (LDelta (- 500))" "l_delta_negated (LDelta (- 1000000)) = Inr (LDelta 1000000)"
    by (simp_all add: l_delta_negated_Inr)
  have add: "with_liquidity_delta sample_snapshot (- 30) 60 (LDelta 500)
      = Inr (sample_snapshot\<lparr>ps_ticks := ?ticks, ps_liquidity := LUnits 1000500\<rparr>)"
    by (simp add: with_liquidity_delta_def n apply_tick_delta_def sample_snapshot_def l_delta_checked_add_def l_checked_add_signed_def
        Let_def checked_add_s_def checked_add_def is_neg_def unsigned_abs_def in_signed_def)
  have gone: "with_liquidity_delta sample_snapshot (- 60) 60 (LDelta (- 1000000))
      = Inr (sample_snapshot\<lparr>ps_ticks := [], ps_liquidity := LUnits 0\<rparr>)"
    by (simp add: with_liquidity_delta_def n apply_tick_delta_def sample_snapshot_def l_delta_checked_add_def l_checked_add_signed_def
        Let_def checked_add_s_def checked_sub_def is_neg_def unsigned_abs_def in_signed_def om_del_def)
  obtain p where p: "pool_fold_seeded (ps_ticks sample_snapshot) (ps_tick sample_snapshot) = Inr p"
    by (simp add: pool_fold_seeded_def sample_snapshot_def)
  have ok: "ticks_ok (ps_ticks sample_snapshot)" by (simp add: ticks_ok_def om_ok_def sample_snapshot_def)
  have pool: "pool_ok sample_snapshot" using sample_quotable by (simp add: quotable_def)
  have c1: "covers_change (ps_ticks sample_snapshot) (- 30) 60 (LDelta 500)" by (rule covers_add[OF ok]) simp
  have c2: "covers_change (ps_ticks sample_snapshot) (- 60) 60 (LDelta (- 1000000))"
    by (simp add: covers_change_def gross_at_def net_at_def sample_snapshot_def)
  show ?thesis
    using p replayed_pool_is_simulated[OF p add ok pool c1, where e = "sample_event 1 0 7 (ModifyLiquidity 0 0 (- 30) 60 (LDelta 500) 2)"]
      replayed_pool_is_simulated[OF p gone ok pool c2, where e = "sample_event 1 0 7 (ModifyLiquidity 0 0 (- 60) 60 (LDelta (- 1000000)) 2)"]
    by simp
qed

text \<open>The words of a swap, decoded.\<close>

lemma unpacked_repacks: "unpack_balance_delta d = (a, b) \<Longrightarrow> word_cat a b = d"
proof -
  assume "unpack_balance_delta d = (a, b)"
  then have a: "a = ucast (drop_bit 128 d)" and b: "b = ucast (d AND ucast (- 1 :: u128))" by (simp_all add: unpack_balance_delta_def)
  show "word_cat a b = d"
    by (rule bit_word_eqI) (auto simp: a b bit_simps word_size)
qed

lemma decoded_word:
  "i256_usdc v = (if in_signed 128 (sint v) then Inr (UsdcDelta (scast v)) else Inl DecodeFailed)"
  "u256_usdc w = (if uint w < 2 ^ 128 then Inr (UsdcAtoms (ucast w)) else Inl DecodeFailed)"
  by (simp_all add: i256_usdc_def u256_usdc_def narrow_s_def narrow_def ok_or_def)

text \<open>Decoding truncates nothing. A swap's fees are decoded to the integers the contract logged, its price and its two legs to the words
  that were packed, or the log is an error; and it is an error exactly when one of the fees does not fit its width.\<close>

theorem swap_decoded_exactly:
  "case swap_info_of raw of
      Inr sw \<Rightarrow> sint (usdc_d (si_total_fee sw)) = sint (rs_total_fee raw) \<and> uint (usdc (si_lp_fee sw)) = uint (rs_lp_fee raw)
        \<and> uint (usdc (si_protocol_fee sw)) = uint (rs_protocol_fee raw) \<and> uint (usdc (si_creator_fee sw)) = uint (rs_creator_fee raw)
        \<and> uint (usdc (si_insurance_fee sw)) = uint (rs_insurance_fee raw) \<and> si_pool_price sw = Price (rs_amm_price raw)
        \<and> word_cat (perp_d (si_perp_delta sw)) (usdc_d (si_usd_delta sw)) = rs_delta raw
    | Inl err \<Rightarrow> err = DecodeFailed \<and> \<not> (in_signed 128 (sint (rs_total_fee raw)) \<and> uint (rs_lp_fee raw) < 2 ^ 128
        \<and> uint (rs_protocol_fee raw) < 2 ^ 128 \<and> uint (rs_creator_fee raw) < 2 ^ 128 \<and> uint (rs_insurance_fee raw) < 2 ^ 128)"
proof -
  obtain a b where ab: "unpack_balance_delta (rs_delta raw) = (a, b)" by force
  note w = unpacked_repacks[OF ab]
  have e: "swap_info_of raw = Inr sw \<Longrightarrow> i256_usdc (rs_total_fee raw) = Inr (si_total_fee sw) \<and> u256_usdc (rs_lp_fee raw) = Inr (si_lp_fee sw)
      \<and> u256_usdc (rs_protocol_fee raw) = Inr (si_protocol_fee sw) \<and> u256_usdc (rs_creator_fee raw) = Inr (si_creator_fee sw)
      \<and> u256_usdc (rs_insurance_fee raw) = Inr (si_insurance_fee sw) \<and> si_pool_price sw = Price (rs_amm_price raw)
      \<and> si_perp_delta sw = PerpDelta a \<and> si_usd_delta sw = UsdcDelta b" for sw
    by (auto simp: swap_info_of_def ab rbind_eq_Inr)
  show ?thesis
  proof (cases "swap_info_of raw")
    case (Inl err)
    then show ?thesis by (auto simp: swap_info_of_def ab decoded_word rbind_def split: if_splits)
  next
    case (Inr sw)
    show ?thesis using e[OF Inr] w by (simp add: Inr usdc_words_exact)
  qed
qed

end
