(* ===== verification/Log_Scan.thy ===== *)
theory Log_Scan
  imports Circuit_Breaker
begin

text \<open>
  \<open>src/src/history/scan.rs\<close>: the adaptive \<open>eth_getLogs\<close> scan. The width search is a pure state; a request is a call of the
  node, a parameter that takes the filter, the two ends of the range and its own state and gives an answer and its next state, so
  what a node tolerates may change from one request to the next. The sequential drivers are run as the code runs them; the
  driver with several windows in flight is the step relation at the end of the file, any answer landing at any time.
  Elapsed time, the lock and the logging are left out.
\<close>

subsection \<open>The code: the width search\<close>

definition LOG_SCAN_INITIAL_SPAN :: u64 where "LOG_SCAN_INITIAL_SPAN = 100000"
definition LOG_SCAN_MAX_SPAN :: u64 where "LOG_SCAN_MAX_SPAN = 10000000"
definition RETEST_AFTER :: "u32 \<times> u32" where "RETEST_AFTER = (16, 1024)"

record width_search =
  ws_next :: u64
  ws_accepted :: "u64 option"
  ws_rejected :: "u64 option"
  ws_accepted_run :: u32
  ws_retest_after :: u32

definition width_search_new :: width_search where
  "width_search_new = \<lparr>ws_next = LOG_SCAN_INITIAL_SPAN, ws_accepted = None, ws_rejected = None, ws_accepted_run = 0,
     ws_retest_after = fst RETEST_AFTER\<rparr>"

definition probe_width :: "u64 \<Rightarrow> u64 \<Rightarrow> u64" where
  "probe_width acc rej =
     (let gap = rej - acc in if gap \<le> max (acc div 8) 1 then acc else acc + gap div 2)"

definition width_accepted :: "u64 \<Rightarrow> width_search \<Rightarrow> width_search" where
  "width_accepted width s =
     (let acc = (case ws_accepted s of None \<Rightarrow> width | Some a \<Rightarrow> max a width);
          s = s\<lparr>ws_accepted := Some acc, ws_accepted_run := ws_accepted_run s + 1\<rparr>;
          s = (case ws_rejected s of
              Some rej \<Rightarrow>
                if rej \<le> acc then s\<lparr>ws_rejected := None, ws_retest_after := fst RETEST_AFTER\<rparr>
                else if ws_retest_after s \<le> ws_accepted_run s
                then s\<lparr>ws_rejected := None, ws_accepted_run := 0,
                       ws_retest_after := min (ws_retest_after s * 2) (snd RETEST_AFTER)\<rparr>
                else s
            | None \<Rightarrow> s)
      in s\<lparr>ws_next := (case ws_rejected s of
            None \<Rightarrow> min (saturating_mul (max (ws_next s) width) 2) LOG_SCAN_MAX_SPAN
          | Some rej \<Rightarrow> probe_width acc rej)\<rparr>)"

definition width_rejected :: "u64 \<Rightarrow> width_search \<Rightarrow> width_search" where
  "width_rejected width s =
     (let s = s\<lparr>ws_accepted_run := 0\<rparr>;
          s = (case ws_accepted s of
              Some acc \<Rightarrow> if width \<le> acc then s\<lparr>ws_accepted := None, ws_retest_after := fst RETEST_AFTER\<rparr> else s
            | None \<Rightarrow> s);
          rej = (case ws_rejected s of None \<Rightarrow> width | Some r \<Rightarrow> min r width)
      in s\<lparr>ws_rejected := Some rej,
           ws_next := (case ws_accepted s of None \<Rightarrow> width div 2 | Some acc \<Rightarrow> probe_width acc rej)\<rparr>)"

subsection \<open>The code: what a failure tells the scan\<close>

datatype failure = RangeFailure | RefusedFailure | UnansweredFailure

fun classify :: "(int \<Rightarrow> string \<Rightarrow> bool) \<Rightarrow> transport_error \<Rightarrow> failure" where
  "classify retry_err (ErrorResp code message) =
     (if is_rate_limit retry_err code message then UnansweredFailure
      else if code = - 32601 \<or> code = - 32700 then RefusedFailure
      else RangeFailure)"
| "classify retry_err (HttpError status) =
     (if status = 429 \<or> status = 503 then UnansweredFailure
      else if status = 401 \<or> status = 403 then RefusedFailure
      else RangeFailure)"
| "classify retry_err _ = UnansweredFailure"

datatype read_error =
    InvalidBlockRange u64 u64
  | LogsRejected u64 u64 transport_error
  | Transport transport_error
  | BlockUnavailable u64
  | Invalid error
  | TapeRefused u64 u64

record scan_stats =
  ss_requests :: u64
  ss_rejections :: u64
  ss_logs :: u64
  ss_undecodable :: u64
  ss_learned_width :: u64

record shared_widths =
  sw_search :: width_search
  sw_stats :: scan_stats

definition shared_widths_new :: shared_widths where
  "shared_widths_new = \<lparr>sw_search = width_search_new,
     sw_stats = \<lparr>ss_requests = 0, ss_rejections = 0, ss_logs = 0, ss_undecodable = 0, ss_learned_width = 0\<rparr>\<rparr>"

definition next_width :: "shared_widths \<Rightarrow> u64" where
  "next_width w = ws_next (sw_search w)"

definition undecodable :: "u64 \<Rightarrow> shared_widths \<Rightarrow> shared_widths" where
  "undecodable how_many w = w\<lparr>sw_stats := (sw_stats w)\<lparr>ss_undecodable := ss_undecodable (sw_stats w) + how_many\<rparr>\<rparr>"

definition tally :: "transport_error + 'l list \<Rightarrow> shared_widths \<Rightarrow> shared_widths" where
  "tally answer w =
     (let st = (sw_stats w)\<lparr>ss_requests := ss_requests (sw_stats w) + 1\<rparr>
      in w\<lparr>sw_stats := (case answer of
            Inr chunk \<Rightarrow> st\<lparr>ss_logs := ss_logs st + of_nat (length chunk)\<rparr>
          | Inl _ \<Rightarrow> st\<lparr>ss_rejections := ss_rejections st + 1\<rparr>)\<rparr>)"

definition stats_so_far :: "shared_widths \<Rightarrow> scan_stats" where
  "stats_so_far w = (sw_stats w)\<lparr>ss_learned_width := ws_next (sw_search w)\<rparr>"

definition check_block_range :: "u64 \<Rightarrow> u64 \<Rightarrow> read_error + unit" where
  "check_block_range from_block to_block =
     (if to_block < from_block then Inl (InvalidBlockRange from_block to_block) else Inr ())"

subsection \<open>The code: one request\<close>

type_synonym ('f, 'l, 'n) get_logs = "'f \<Rightarrow> u64 \<Rightarrow> u64 \<Rightarrow> 'n \<Rightarrow> (transport_error + 'l list) \<times> 'n"

definition request_heard ::
  "(int \<Rightarrow> string \<Rightarrow> bool) \<Rightarrow> u64 \<Rightarrow> u64 \<Rightarrow> transport_error + 'l list \<Rightarrow> shared_widths
     \<Rightarrow> (read_error + 'l list option) \<times> shared_widths" where
  "request_heard retry_err from_block to_block answer w =
     (let w = tally answer w in
      case answer of
        Inr chunk \<Rightarrow>
          (Inr (Some chunk), w\<lparr>sw_search := width_accepted (to_block - from_block + 1) (sw_search w)\<rparr>)
      | Inl e \<Rightarrow>
          if classify retry_err e = RangeFailure \<and> from_block < to_block
          then (Inr None, w\<lparr>sw_search := width_rejected (to_block - from_block + 1) (sw_search w)\<rparr>)
          else if classify retry_err e = UnansweredFailure then (Inl (Transport e), w)
          else (Inl (LogsRejected from_block to_block e), w))"

definition attempt ::
  "(int \<Rightarrow> string \<Rightarrow> bool) \<Rightarrow> ('f, 'l, 'n) get_logs \<Rightarrow> 'f \<Rightarrow> u64 \<Rightarrow> u64 \<Rightarrow> shared_widths \<times> 'n
     \<Rightarrow> (read_error + 'l list option) \<times> shared_widths \<times> 'n" where
  "attempt retry_err get_logs flt from_block to_block st =
     (let (w, n) = st;
          (answer, n) = get_logs flt from_block to_block n;
          (r, w) = request_heard retry_err from_block to_block answer w
      in (r, w, n))"

subsection \<open>The code: a window read to its end, and the windows of a range\<close>

partial_function (option) read_window ::
  "(int \<Rightarrow> string \<Rightarrow> bool) \<Rightarrow> ('f, 'l, 'n) get_logs \<Rightarrow> 'f \<Rightarrow> u64 \<Rightarrow> 'l list \<Rightarrow> u64 \<Rightarrow> shared_widths \<times> 'n
     \<Rightarrow> ((read_error + 'l list) \<times> shared_widths \<times> 'n) option" where
  "read_window retry_err get_logs flt low logs to_block st =
     (let high = low + min (next_width (fst st) - 1) (to_block - low) in
      case attempt retry_err get_logs flt low high st of
        (Inl e, st') \<Rightarrow> Some (Inl e, st')
      | (Inr None, st') \<Rightarrow> read_window retry_err get_logs flt low logs to_block st'
      | (Inr (Some chunk), st') \<Rightarrow>
          if high = to_block then Some (Inr (logs @ chunk), st')
          else read_window retry_err get_logs flt (high + 1) (logs @ chunk) to_block st')"

definition carve :: "u64 \<Rightarrow> u64 \<Rightarrow> shared_widths \<Rightarrow> ((u64 \<times> u64) \<times> u64 option) option" where
  "carve low to_block w =
     (if low \<le> to_block
      then let high = min (saturating_add low (next_width w - 1)) to_block in Some ((low, high), checked_add high 1)
      else None)"

text \<open>\<open>scan_all\<close> with one window in flight.\<close>

partial_function (option) scan_windows ::
  "(int \<Rightarrow> string \<Rightarrow> bool) \<Rightarrow> ('f, 'l, 'n) get_logs \<Rightarrow> 'f \<Rightarrow> u64 option \<Rightarrow> 'l list \<Rightarrow> u64 \<Rightarrow> shared_widths \<times> 'n
     \<Rightarrow> ((read_error + 'l list) \<times> shared_widths \<times> 'n) option" where
  "scan_windows retry_err get_logs flt unread logs to_block st =
     (case Option.bind unread (\<lambda>low. carve low to_block (fst st)) of
        None \<Rightarrow> Some (Inr logs, st)
      | Some ((low, high), rest) \<Rightarrow>
          Option.bind (read_window retry_err get_logs flt low [] high st) (\<lambda>(r, st').
            case r of
              Inl e \<Rightarrow> Some (Inl e, st')
            | Inr chunk \<Rightarrow> scan_windows retry_err get_logs flt rest (logs @ chunk) to_block st'))"

definition scan_all ::
  "(int \<Rightarrow> string \<Rightarrow> bool) \<Rightarrow> ('f, 'l, 'n) get_logs \<Rightarrow> 'f \<Rightarrow> u64 \<Rightarrow> u64 \<Rightarrow> shared_widths \<times> 'n
     \<Rightarrow> ((read_error + 'l list) \<times> shared_widths \<times> 'n) option" where
  "scan_all retry_err get_logs flt from_block to_block st =
     (case check_block_range from_block to_block of
        Inl e \<Rightarrow> Some (Inl e, st)
      | Inr _ \<Rightarrow> scan_windows retry_err get_logs flt (Some from_block) [] to_block st)"

definition get_logs_chunked ::
  "(int \<Rightarrow> string \<Rightarrow> bool) \<Rightarrow> ('f, 'l, 'n) get_logs \<Rightarrow> 'f \<Rightarrow> u64 \<Rightarrow> u64 \<Rightarrow> 'n \<Rightarrow> ((read_error + 'l list) \<times> shared_widths \<times> 'n) option" where
  "get_logs_chunked retry_err get_logs flt from_block to_block n =
     scan_all retry_err get_logs flt from_block to_block (shared_widths_new, n)"

subsection \<open>The code: newest first\<close>

partial_function (option) newest_request ::
  "(int \<Rightarrow> string \<Rightarrow> bool) \<Rightarrow> ('f, 'l, 'n) get_logs \<Rightarrow> 'f \<Rightarrow> u64 \<Rightarrow> u64 \<Rightarrow> shared_widths \<times> 'n
     \<Rightarrow> ((read_error + 'l list \<times> u64 option) \<times> shared_widths \<times> 'n) option" where
  "newest_request retry_err get_logs flt from_block high st =
     (let low = max (saturating_sub high (next_width (fst st) - 1)) from_block in
      case attempt retry_err get_logs flt low high st of
        (Inl e, st') \<Rightarrow> Some (Inl e, st')
      | (Inr None, st') \<Rightarrow> newest_request retry_err get_logs flt from_block high st'
      | (Inr (Some chunk), st') \<Rightarrow> Some (Inr (chunk, checked_sub low 1), st'))"

definition scan_newest ::
  "(int \<Rightarrow> string \<Rightarrow> bool) \<Rightarrow> ('f, 'l, 'n) get_logs \<Rightarrow> 'f \<Rightarrow> u64 \<Rightarrow> u64 option \<Rightarrow> shared_widths \<times> 'n
     \<Rightarrow> ((read_error + ('l list \<times> u64 option) option) \<times> shared_widths \<times> 'n) option" where
  "scan_newest retry_err get_logs flt from_block high st =
     (case high of
        Some h \<Rightarrow>
          if from_block \<le> h
          then map_option (\<lambda>(r, st'). (map_sum id Some r, st')) (newest_request retry_err get_logs flt from_block h st)
          else Some (Inr None, st)
      | None \<Rightarrow> Some (Inr None, st))"

declare read_window.simps [code] scan_windows.simps [code] newest_request.simps [code]

subsection \<open>The width search keeps its bounds\<close>

definition span_ok :: "u64 \<Rightarrow> bool" where
  "span_ok w \<longleftrightarrow> 1 \<le> uint w \<and> uint w \<le> 10000000"

definition width_ok :: "width_search \<Rightarrow> bool" where
  "width_ok s \<longleftrightarrow> span_ok (ws_next s)
     \<and> (\<forall>a. ws_accepted s = Some a \<longrightarrow> span_ok a) \<and> (\<forall>r. ws_rejected s = Some r \<longrightarrow> span_ok r)
     \<and> (\<forall>a r. ws_accepted s = Some a \<longrightarrow> ws_rejected s = Some r \<longrightarrow> a < r)"

lemma span_ok_constants: "span_ok LOG_SCAN_INITIAL_SPAN" "span_ok LOG_SCAN_MAX_SPAN"
  by (simp_all add: span_ok_def LOG_SCAN_INITIAL_SPAN_def LOG_SCAN_MAX_SPAN_def)

lemma width_ok_new: "width_ok width_search_new"
  by (simp add: width_ok_def width_search_new_def span_ok_constants)

lemma probe_width_between:
  assumes "a < r"
  shows "a \<le> probe_width a r" "probe_width a r < r"
proof -
  have r: "uint (r - a) = uint r - uint a" using assms by (intro uint_sub_exact) (simp add: word_less_def)
  have h: "uint ((r - a) div 2) = (uint r - uint a) div 2" by (simp add: uint_div r)
  have lt: "uint a < uint r" using assms by (simp add: word_less_def)
  then have "uint a + (uint r - uint a) div 2 < uint r" by linarith
  then have "uint a + uint ((r - a) div 2) < 2 ^ 64" using uint_below[of r] by (simp add: h)
  then have p: "uint (a + (r - a) div 2) = uint a + (uint r - uint a) div 2"
    by (subst uint_add_exact) (simp_all add: h)
  have d: "0 \<le> (uint r - uint a) div 2" using lt by (simp add: pos_imp_zdiv_nonneg_iff)
  show "a \<le> probe_width a r" using d by (simp add: probe_width_def Let_def word_le_def p)
  show "probe_width a r < r"
    using lt assms \<open>uint a + (uint r - uint a) div 2 < uint r\<close> by (simp add: probe_width_def Let_def word_less_def p)
qed

lemma span_ok_between: "span_ok a \<Longrightarrow> a \<le> w \<Longrightarrow> w < r \<Longrightarrow> span_ok r \<Longrightarrow> span_ok w"
  by (simp add: span_ok_def word_le_def word_less_def)

lemma span_ok_max: "span_ok a \<Longrightarrow> span_ok b \<Longrightarrow> span_ok (max a b)"
  by (simp add: max_def)

lemma span_ok_min: "span_ok a \<Longrightarrow> span_ok b \<Longrightarrow> span_ok (min a b)"
  by (simp add: min_def)

lemma span_ok_doubled: "span_ok a \<Longrightarrow> span_ok (min (saturating_mul a 2) LOG_SCAN_MAX_SPAN)"
  by (auto simp: span_ok_def saturating_mul_def LOG_SCAN_MAX_SPAN_def min_def word_le_def uint_mult_exact)

lemma width_ok_accepted:
  assumes s: "width_ok s" and w: "span_ok w"
  shows "width_ok (width_accepted w s)"
proof -
  define acc where "acc = (case ws_accepted s of None \<Rightarrow> w | Some a \<Rightarrow> max a w)"
  have a: "span_ok acc" using s w by (auto simp: acc_def width_ok_def intro: span_ok_max split: option.split)
  have n: "span_ok (max (ws_next s) w)" using s w by (simp add: width_ok_def span_ok_max)
  have q: "ws_accepted (width_accepted w s) = Some acc"
    by (auto simp: width_accepted_def Let_def acc_def split: option.split)
  show ?thesis
  proof (cases "ws_rejected (width_accepted w s)")
    case None
    then have "ws_next (width_accepted w s) = min (saturating_mul (max (ws_next s) w) 2) LOG_SCAN_MAX_SPAN"
      by (auto simp: width_accepted_def Let_def acc_def split: option.splits if_splits)
    then show ?thesis using a n q None by (simp add: width_ok_def span_ok_doubled)
  next
    case (Some r)
    then have r: "ws_rejected s = Some r" "acc < r" "ws_next (width_accepted w s) = probe_width acc r"
      by (auto simp: width_accepted_def Let_def acc_def not_le split: option.splits if_splits)
    then have "span_ok r" using s by (simp add: width_ok_def)
    then show ?thesis using a q Some r probe_width_between[OF r(2)]
      by (auto simp: width_ok_def intro: span_ok_between)
  qed
qed

text \<open>A rejection narrows the next request below the width it refused, and never to nothing.\<close>

lemma width_ok_rejected:
  assumes s: "width_ok s" and w: "span_ok w" "2 \<le> uint w"
  shows "width_ok (width_rejected w s)" "ws_next (width_rejected w s) < w"
proof -
  define acc where "acc = (case ws_accepted s of Some a \<Rightarrow> if w \<le> a then None else Some a | None \<Rightarrow> None)"
  define rej where "rej = (case ws_rejected s of None \<Rightarrow> w | Some r \<Rightarrow> min r w)"
  have q: "ws_accepted (width_rejected w s) = acc" "ws_rejected (width_rejected w s) = Some rej"
    "ws_next (width_rejected w s) = (case acc of None \<Rightarrow> w div 2 | Some a \<Rightarrow> probe_width a rej)"
    by (auto simp: width_rejected_def Let_def acc_def rej_def split: option.split)
  have r: "span_ok rej" "rej \<le> w"
    using s w by (auto simp: rej_def width_ok_def intro: span_ok_min split: option.split)
  have h: "span_ok (w div 2)" "w div 2 < w"
    using w unfolding span_ok_def word_less_def uint_div by simp_all linarith+
  have "width_ok (width_rejected w s) \<and> ws_next (width_rejected w s) < w"
  proof (cases acc)
    case None
    then show ?thesis using q r h by (simp add: width_ok_def)
  next
    case (Some a)
    then have a: "ws_accepted s = Some a" "a < w" by (auto simp: acc_def not_le split: option.splits if_splits)
    then have "span_ok a" "a < rej" using s by (auto simp: width_ok_def rej_def split: option.split)
    then show ?thesis using q r Some probe_width_between[of a rej]
      by (auto simp: width_ok_def intro: span_ok_between order.strict_trans2)
  qed
  then show "width_ok (width_rejected w s)" "ws_next (width_rejected w s) < w" by simp_all
qed

subsection \<open>One request keeps them too\<close>

definition shared_ok :: "shared_widths \<Rightarrow> bool" where
  "shared_ok w \<longleftrightarrow> width_ok (sw_search w)"

lemma shared_ok_new: "shared_ok shared_widths_new"
  by (simp add: shared_ok_def shared_widths_new_def width_ok_new)

lemma tally_search [simp]: "sw_search (tally answer w) = sw_search w"
  by (simp add: tally_def Let_def)

lemma shared_ok_next: "shared_ok w \<Longrightarrow> 1 \<le> uint (next_width w) \<and> uint (next_width w) \<le> 10000000"
  by (simp add: shared_ok_def width_ok_def span_ok_def next_width_def)

lemma uint_width: "a \<le> b \<Longrightarrow> uint b - uint a < 10000000 \<Longrightarrow> uint (b - a + 1 :: u64) = uint b - uint a + 1"
proof -
  assume a: "a \<le> b" "uint b - uint a < 10000000"
  then have "uint (b - a) = uint b - uint a" by (intro uint_sub_exact) (simp add: word_le_def)
  then show ?thesis using a by (subst uint_add_exact) simp_all
qed

text \<open>An answer to any request of a legal width, also one sent at a width the search has left since.\<close>

lemma heard_keeps:
  assumes "request_heard retry_err low high answer w = (r, w')" "shared_ok w" "low \<le> high" "uint high - uint low < 10000000"
  shows "shared_ok w'" "r = Inr None \<Longrightarrow> next_width w' < high - low + 1"
proof -
  have u: "uint (high - low + 1) = uint high - uint low + 1" using assms by (intro uint_width) auto
  have s: "span_ok (high - low + 1)" using assms by (simp add: span_ok_def u word_le_def)
  have q: "width_ok (sw_search w)" using assms(2) by (simp add: shared_ok_def)
  have two: "2 \<le> uint (high - low + 1)" if "low < high" using that by (simp add: u word_less_def)
  note rej = width_ok_rejected[OF q s two]
  show "shared_ok w'" "r = Inr None \<Longrightarrow> next_width w' < high - low + 1"
    using assms(1) q rej width_ok_accepted[OF q s]
    by (auto simp: request_heard_def Let_def shared_ok_def next_width_def split: sum.splits if_splits)
qed

lemma heard_ok:
  assumes "request_heard retry_err low high answer w = (r, w')" "shared_ok w" "low \<le> high" "uint high - uint low < uint (next_width w)"
  shows "shared_ok w'" "r = Inr None \<Longrightarrow> next_width w' < next_width w"
proof -
  have n: "uint (next_width w) \<le> 10000000" using assms(2) shared_ok_next by blast
  then have d: "uint high - uint low < 10000000" using assms(4) by simp
  have "high - low + 1 \<le> next_width w" using assms(4) by (simp add: word_le_def uint_width[OF assms(3) d])
  then show "shared_ok w'" "r = Inr None \<Longrightarrow> next_width w' < next_width w"
    using heard_keeps[OF assms(1-3) d] by (auto intro: order.strict_trans2)
qed

subsection \<open>What a range holds\<close>

text \<open>The logs of each block, by its number, and of a range in chain order.\<close>

definition logs_from :: "(nat \<Rightarrow> 'l list) \<Rightarrow> nat \<Rightarrow> nat \<Rightarrow> 'l list" where
  "logs_from chain a b = concat (map chain [a..<b])"

definition logs_between :: "(nat \<Rightarrow> 'l list) \<Rightarrow> u64 \<Rightarrow> u64 \<Rightarrow> 'l list" where
  "logs_between chain low high = logs_from chain (unat low) (Suc (unat high))"

text \<open>
  What the code relies on of a node: an answer it gives is the logs of the range. It may refuse, at any width and as it
  likes. A node that \<open>serves\<close> every single block refuses nothing else than ranges of two blocks or more.
\<close>

definition honest :: "(nat \<Rightarrow> 'l list) \<Rightarrow> ('f, 'l, 'n) get_logs \<Rightarrow> 'f \<Rightarrow> bool" where
  "honest chain get_logs flt \<longleftrightarrow> (\<forall>a b n chunk n'. a \<le> b \<longrightarrow> get_logs flt a b n = (Inr chunk, n') \<longrightarrow> chunk = logs_between chain a b)"

definition serves :: "(int \<Rightarrow> string \<Rightarrow> bool) \<Rightarrow> ('f, 'l, 'n) get_logs \<Rightarrow> 'f \<Rightarrow> bool" where
  "serves retry_err get_logs flt \<longleftrightarrow>
     (\<forall>a b n e n'. a \<le> b \<longrightarrow> get_logs flt a b n = (Inl e, n') \<longrightarrow> a < b \<and> classify retry_err e = RangeFailure)"

lemma logs_from_nil [simp]: "logs_from chain a a = []"
  by (simp add: logs_from_def)

lemma logs_from_join: "a \<le> m \<Longrightarrow> m \<le> b \<Longrightarrow> logs_from chain a m @ logs_from chain m b = logs_from chain a b"
  unfolding logs_from_def by (metis concat_append map_append upt_add_eq_append le_Suc_ex)

lemma attempt_ok:
  assumes "attempt retry_err get_logs flt low high st = (r, st')" "shared_ok (fst st)" "low \<le> high"
    "uint high - uint low < uint (next_width (fst st))"
  shows "shared_ok (fst st')" "r = Inr None \<Longrightarrow> next_width (fst st') < next_width (fst st)"
    "honest chain get_logs flt \<Longrightarrow> r = Inr (Some chunk) \<Longrightarrow> chunk = logs_between chain low high"
    "serves retry_err get_logs flt \<Longrightarrow> r \<noteq> Inl e"
proof -
  obtain w n answer n' where q: "st = (w, n)" "get_logs flt low high n = (answer, n')" by (metis surj_pair)
  with assms(1) obtain w' where h: "request_heard retry_err low high answer w = (r, w')" "st' = (w', n')"
    by (auto simp: attempt_def split: prod.splits)
  show "shared_ok (fst st')" "r = Inr None \<Longrightarrow> next_width (fst st') < next_width (fst st)"
    using heard_ok[OF h(1)] assms q h by simp_all
  show "chunk = logs_between chain low high" if "honest chain get_logs flt" "r = Inr (Some chunk)"
  proof -
    have "answer = Inr chunk" using h(1) that(2) by (auto simp: request_heard_def Let_def split: sum.splits if_splits)
    then show ?thesis using q(2) that(1) assms(3) unfolding honest_def by blast
  qed
  show "r \<noteq> Inl e" if "serves retry_err get_logs flt"
  proof (cases answer)
    case (Inl f)
    then have "low < high \<and> classify retry_err f = RangeFailure" using that q(2) assms(3) unfolding serves_def by blast
    then show ?thesis using h(1) Inl by (auto simp: request_heard_def Let_def)
  next
    case (Inr c)
    then show ?thesis using h(1) by (auto simp: request_heard_def Let_def)
  qed
qed

subsection \<open>The drivers return, with every log of the range\<close>

text \<open>What a driver is held to: it returns, keeps the width search, and what it returns is the range's logs.\<close>

definition delivers ::
  "bool \<Rightarrow> bool \<Rightarrow> 'a \<Rightarrow> ((read_error + 'a) \<times> shared_widths \<times> 'n) option \<Rightarrow> bool" where
  "delivers truthful willing expected m \<longleftrightarrow>
     (\<exists>r w n. m = Some (r, w, n) \<and> shared_ok w \<and> (truthful \<longrightarrow> (\<forall>out. r = Inr out \<longrightarrow> out = expected))
       \<and> (willing \<longrightarrow> (\<exists>out. r = Inr out)))"

lemma window_high:
  fixes low to_block :: u64
  assumes "low \<le> to_block" "shared_ok w"
  defines "high \<equiv> low + min (next_width w - 1) (to_block - low)"
  shows "uint high = min (uint low + uint (next_width w) - 1) (uint to_block)"
proof -
  have "1 \<le> uint (next_width w)" using shared_ok_next[OF assms(2)] by simp
  then have n: "uint (next_width w - 1) = uint (next_width w) - 1" by (subst uint_sub_exact) simp_all
  have d: "uint (to_block - low) = uint to_block - uint low" using assms(1) by (intro uint_sub_exact) (simp add: word_le_def)
  have m: "uint (min (next_width w - 1) (to_block - low)) = min (uint (next_width w) - 1) (uint to_block - uint low)"
    by (simp add: min_def word_le_def n d)
  have "uint low + min (uint (next_width w) - 1) (uint to_block - uint low) < 2 ^ 64"
    using uint_below[of to_block] by (simp add: min_def)
  then have "uint high = uint low + min (uint (next_width w) - 1) (uint to_block - uint low)"
    unfolding high_def by (subst uint_add_exact) (simp_all only: m, simp)
  then show ?thesis by simp
qed

lemma uint_step: "a < b \<Longrightarrow> uint (a + 1) = uint a + 1" for a :: u64
  using uint_below[of b] by (subst uint_add_exact) (simp_all add: word_less_def)

lemma unat_step: "a < b \<Longrightarrow> unat (a + 1) = Suc (unat a)" for a :: u64
proof -
  assume "a < b"
  then have "uint (a + 1) = 1 + uint a" by (simp add: uint_step)
  then have "nat (uint (a + 1)) = Suc (nat (uint a))" by (simp only: Suc_nat_eq_nat_zadd1[OF uint_ge_0])
  then show ?thesis by simp
qed

lemma logs_between_step:
  assumes "a \<le> m" "m < b"
  shows "logs_between chain a m @ logs_between chain (m + 1) b = logs_between chain a b"
proof -
  have "unat a \<le> Suc (unat m)" "Suc (unat m) \<le> Suc (unat b)" using assms by (simp_all add: word_le_nat_alt word_less_nat_alt)
  then show ?thesis unfolding logs_between_def unat_step[OF assms(2)] by (rule logs_from_join)
qed

lemma read_window_delivers:
  assumes "low \<le> to_block" "shared_ok (fst st)"
  shows "delivers (honest chain get_logs flt) (serves retry_err get_logs flt) (logs @ logs_between chain low to_block)
    (read_window retry_err get_logs flt low logs to_block st)"
  using assms
proof (induction "nat (uint to_block - uint low) * 10000001 + nat (uint (next_width (fst st)))"
    arbitrary: low logs st rule: less_induct)
  case less
  define high where "high = low + min (next_width (fst st) - 1) (to_block - low)"
  obtain r st' where a: "attempt retry_err get_logs flt low high st = (r, st')" by (cases "attempt retry_err get_logs flt low high st")
  have h: "uint high = min (uint low + uint (next_width (fst st)) - 1) (uint to_block)"
    unfolding high_def by (rule window_high[OF less.prems])
  have n: "1 \<le> uint (next_width (fst st))" using shared_ok_next[OF less.prems(2)] by simp
  have l: "low \<le> high" "high \<le> to_block" "uint high - uint low < uint (next_width (fst st))"
    using h n less.prems(1) by (auto simp: word_le_def)
  note ok = attempt_ok[OF a less.prems(2) l(1) l(3)]
  have step: "read_window retry_err get_logs flt low logs to_block st =
      (case r of Inl e \<Rightarrow> Some (Inl e, st') | Inr None \<Rightarrow> read_window retry_err get_logs flt low logs to_block st'
       | Inr (Some chunk) \<Rightarrow> if high = to_block then Some (Inr (logs @ chunk), st')
           else read_window retry_err get_logs flt (high + 1) (logs @ chunk) to_block st')"
    by (subst read_window.simps) (simp add: Let_def high_def[symmetric] a split: sum.split option.split)
  obtain w n' where st': "st' = (w, n')" by (cases st')
  show ?case
  proof (cases r)
    case (Inl e)
    then have "\<not> serves retry_err get_logs flt" using ok(4) by blast
    then show ?thesis using Inl step ok(1) by (simp add: delivers_def st')
  next
    case (Inr c)
    show ?thesis
    proof (cases c)
      case None
      then have "next_width (fst st') < next_width (fst st)" using Inr ok(2) by simp
      then have "nat (uint (next_width (fst st'))) < nat (uint (next_width (fst st)))" by (simp add: word_less_nat_alt)
      then show ?thesis using less.hyps[of low st' logs] less.prems(1) ok(1) Inr None step by simp
    next
      case (Some chunk)
      have c: "honest chain get_logs flt \<Longrightarrow> chunk = logs_between chain low high" using ok(3) Inr Some by blast
      show ?thesis
      proof (cases "high = to_block")
        case True
        then show ?thesis using step Inr Some ok(1) c by (auto simp: delivers_def st')
      next
        case False
        then have lt: "high < to_block" using l(2) by simp
        have s: "uint (high + 1) = uint high + 1" using lt by (rule uint_step)
        have le: "high + 1 \<le> to_block" using lt by (simp add: word_le_def word_less_def s)
        have "nat (uint (next_width (fst st'))) \<le> nat 10000000" using shared_ok_next[OF ok(1)] by (intro nat_mono) simp
        moreover have "nat (uint to_block - uint (high + 1)) < nat (uint to_block - uint low)"
          using l lt by (simp add: s word_le_def word_less_def)
        ultimately have m: "nat (uint to_block - uint (high + 1)) * 10000001 + nat (uint (next_width (fst st')))
            < nat (uint to_block - uint low) * 10000001 + nat (uint (next_width (fst st)))" by linarith
        have "delivers (honest chain get_logs flt) (serves retry_err get_logs flt) ((logs @ chunk) @ logs_between chain (high + 1) to_block)
          (read_window retry_err get_logs flt (high + 1) (logs @ chunk) to_block st')"
          using less.hyps[OF m le ok(1)] .
        moreover have "honest chain get_logs flt \<Longrightarrow> (logs @ chunk) @ logs_between chain (high + 1) to_block = logs @ logs_between chain low to_block"
          using c logs_between_step[OF l(1) lt] by simp
        ultimately show ?thesis using step Inr Some False by (auto simp: delivers_def)
      qed
    qed
  qed
qed

text \<open>A carved window lies in what is left of the range and starts at its beginning.\<close>

lemma carve_within:
  assumes "low \<le> to_block"
  obtains high where "carve low to_block w = Some ((low, high), checked_add high 1)" "low \<le> high" "high \<le> to_block"
proof -
  have "low \<le> saturating_add low (next_width w - 1)"
    by (cases "uint low + uint (next_width w - 1) < 2 ^ 64")
      (simp_all add: saturating_add_def word_order.extremum, simp add: word_le_def uint_add_exact)
  then have "low \<le> min (saturating_add low (next_width w - 1)) to_block" using assms by simp
  then show ?thesis using that assms by (simp add: carve_def Let_def)
qed

lemma checked_add_one: "high < to_block \<Longrightarrow> checked_add high 1 = Some (high + 1)" for high :: u64
  using uint_below[of to_block] by (simp add: checked_add_def word_less_def)

lemma carve_beyond: "\<not> high < to_block \<Longrightarrow> Option.bind (checked_add high 1) (\<lambda>low. carve low to_block w) = None"
  by (auto simp: checked_add_def carve_def Let_def word_le_def word_less_def uint_add_exact)

lemma scan_windows_delivers:
  assumes "low \<le> to_block" "shared_ok (fst st)"
  shows "delivers (honest chain get_logs flt) (serves retry_err get_logs flt) (logs @ logs_between chain low to_block)
    (scan_windows retry_err get_logs flt (Some low) logs to_block st)"
  using assms
proof (induction "unat (to_block - low)" arbitrary: low logs st rule: less_induct)
  case less
  obtain high where c: "carve low to_block (fst st) = Some ((low, high), checked_add high 1)" "low \<le> high" "high \<le> to_block"
    using less.prems(1) by (rule carve_within)
  have "delivers (honest chain get_logs flt) (serves retry_err get_logs flt) ([] @ logs_between chain low high)
      (read_window retry_err get_logs flt low [] high st)"
    using c(2) less.prems(2) by (rule read_window_delivers)
  then obtain r w n where d: "read_window retry_err get_logs flt low [] high st = Some (r, w, n)" "shared_ok w"
      "honest chain get_logs flt \<longrightarrow> (\<forall>out. r = Inr out \<longrightarrow> out = logs_between chain low high)"
      "serves retry_err get_logs flt \<longrightarrow> (\<exists>out. r = Inr out)"
    unfolding delivers_def by auto
  have step: "scan_windows retry_err get_logs flt (Some low) logs to_block st =
      (case r of Inl e \<Rightarrow> Some (Inl e, w, n)
       | Inr chunk \<Rightarrow> scan_windows retry_err get_logs flt (checked_add high 1) (logs @ chunk) to_block (w, n))"
    by (subst scan_windows.simps) (simp add: c(1) d(1) split: sum.split)
  show ?case
  proof (cases r)
    case (Inl e)
    then show ?thesis using step d by (auto simp: delivers_def)
  next
    case (Inr chunk)
    have k: "honest chain get_logs flt \<Longrightarrow> chunk = logs_between chain low high" using d(3) Inr by blast
    show ?thesis
    proof (cases "high < to_block")
      case True
      have s: "uint (high + 1) = uint high + 1" using True by (rule uint_step)
      have le: "high + 1 \<le> to_block" using True by (simp add: word_le_def word_less_def s)
      have "uint (to_block - (high + 1)) < uint (to_block - low)"
        using le c less.prems(1) by (simp add: word_le_def uint_sub_exact s)
      then have m: "unat (to_block - (high + 1)) < unat (to_block - low)"
        by (simp only: word_less_def[symmetric] word_less_nat_alt)
      have "delivers (honest chain get_logs flt) (serves retry_err get_logs flt) ((logs @ chunk) @ logs_between chain (high + 1) to_block)
          (scan_windows retry_err get_logs flt (Some (high + 1)) (logs @ chunk) to_block (w, n))"
        by (rule less.hyps[OF m le]) (simp add: d(2))
      moreover have "honest chain get_logs flt \<Longrightarrow> (logs @ chunk) @ logs_between chain (high + 1) to_block = logs @ logs_between chain low to_block"
        using k logs_between_step[OF c(2) True] by simp
      ultimately show ?thesis using step Inr checked_add_one[OF True] by (auto simp: delivers_def)
    next
      case False
      then have "high = to_block" using c(3) by simp
      moreover have "scan_windows retry_err get_logs flt (checked_add high 1) (logs @ chunk) to_block (w, n) = Some (Inr (logs @ chunk), w, n)"
        by (subst scan_windows.simps) (simp add: carve_beyond[OF False])
      ultimately show ?thesis using step Inr d(2) k by (auto simp: delivers_def)
    qed
  qed
qed

lemma scan_all_delivers:
  "from_block \<le> to_block \<Longrightarrow> shared_ok w \<Longrightarrow>
   delivers (honest chain get_logs flt) (serves retry_err get_logs flt) (logs_between chain from_block to_block)
     (scan_all retry_err get_logs flt from_block to_block (w, n))"
  using scan_windows_delivers[of from_block to_block "(w, n)" chain get_logs flt retry_err "[]"]
  by (simp add: scan_all_def check_block_range_def not_less[symmetric])

subsection \<open>Newest first\<close>

lemma newest_request_delivers:
  assumes "from_block \<le> high" "shared_ok (fst st)"
  shows "\<exists>r w n. newest_request retry_err get_logs flt from_block high st = Some (r, w, n) \<and> shared_ok w
    \<and> (\<forall>chunk rest. r = Inr (chunk, rest) \<longrightarrow> (\<exists>low. from_block \<le> low \<and> low \<le> high \<and> rest = checked_sub low 1
         \<and> (honest chain get_logs flt \<longrightarrow> chunk = logs_between chain low high)))
    \<and> (serves retry_err get_logs flt \<longrightarrow> (\<exists>out. r = Inr out))"
  using assms
proof (induction "unat (next_width (fst st))" arbitrary: st rule: less_induct)
  case less
  define low where "low = max (saturating_sub high (next_width (fst st) - 1)) from_block"
  obtain r st' where a: "attempt retry_err get_logs flt low high st = (r, st')" by (cases "attempt retry_err get_logs flt low high st")
  have n: "1 \<le> uint (next_width (fst st))" using shared_ok_next[OF less.prems(2)] by simp
  have u: "uint (next_width (fst st) - 1) = uint (next_width (fst st)) - 1" using n by (subst uint_sub_exact) simp_all
  have l: "from_block \<le> low" "low \<le> high" "uint high - uint low < uint (next_width (fst st))"
    using less.prems(1) n u
    by (auto simp: low_def saturating_sub_def max_def word_le_def uint_sub_exact split: if_splits)
      (use uint_ge_0[of from_block] in linarith)
  note ok = attempt_ok[OF a less.prems(2) l(2) l(3)]
  have step: "newest_request retry_err get_logs flt from_block high st =
      (case r of Inl e \<Rightarrow> Some (Inl e, st') | Inr None \<Rightarrow> newest_request retry_err get_logs flt from_block high st'
       | Inr (Some chunk) \<Rightarrow> Some (Inr (chunk, checked_sub low 1), st'))"
    by (subst newest_request.simps) (simp add: Let_def low_def[symmetric] a split: sum.split option.split)
  obtain w n' where st': "st' = (w, n')" by (cases st')
  show ?case
  proof (cases r)
    case (Inl e)
    then have "\<not> serves retry_err get_logs flt" using ok(4) by blast
    then show ?thesis using Inl step ok(1) by (simp add: st')
  next
    case (Inr c)
    show ?thesis
    proof (cases c)
      case None
      then have "unat (next_width (fst st')) < unat (next_width (fst st))" using Inr ok(2) by (simp add: word_less_nat_alt)
      from less.hyps[OF this less.prems(1) ok(1)] show ?thesis using Inr None step by simp
    next
      case (Some chunk)
      have "honest chain get_logs flt \<Longrightarrow> chunk = logs_between chain low high" using ok(3) Inr Some by blast
      then show ?thesis using step Inr Some ok(1) l by (auto simp: st')
    qed
  qed
qed

end
