(* ===== verification/Scan_Windows.thy ===== *)
theory Scan_Windows
  imports Log_Scan "HOL-Library.Multiset"
begin

text \<open>
  \<open>scan_all\<close> of \<open>src/src/history/scan.rs\<close> with up to \<open>in_flight\<close> windows being read at once. The driver carves a window when
  one may start, every window's worker sends its requests and takes their answers at its own pace over the shared width search,
  and the finished windows are delivered in the order of the range. A step is one of those actions; the order they come in,
  and what the node answers, are free.
\<close>

subsection \<open>The code: the windows in flight\<close>

datatype window_phase = Idle | Asking (asked_to: u64) | Done | Failed read_error

record 'l scan_window =
  wd_from :: u64
  wd_to :: u64
  wd_low :: u64
  wd_logs :: "'l list"
  wd_phase :: window_phase

record ('l, 'n) scan_run =
  sr_unread :: "u64 option"
  sr_flight :: "'l scan_window list"
  sr_out :: "read_error + 'l list"
  sr_shared :: shared_widths
  sr_node :: 'n

definition window_open :: "u64 \<times> u64 \<Rightarrow> 'l scan_window" where
  "window_open b = \<lparr>wd_from = fst b, wd_to = snd b, wd_low = fst b, wd_logs = [], wd_phase = Idle\<rparr>"

definition window_sent :: "shared_widths \<Rightarrow> 'l scan_window \<Rightarrow> 'l scan_window" where
  "window_sent w win = win\<lparr>wd_phase := Asking (wd_low win + min (next_width w - 1) (wd_to win - wd_low win))\<rparr>"

definition window_heard :: "read_error + 'l list option \<Rightarrow> u64 \<Rightarrow> 'l scan_window \<Rightarrow> 'l scan_window" where
  "window_heard r high win = (case r of
      Inl e \<Rightarrow> win\<lparr>wd_phase := Failed e\<rparr>
    | Inr None \<Rightarrow> win\<lparr>wd_phase := Idle\<rparr>
    | Inr (Some chunk) \<Rightarrow>
        if high = wd_to win then win\<lparr>wd_logs := wd_logs win @ chunk, wd_phase := Done\<rparr>
        else win\<lparr>wd_logs := wd_logs win @ chunk, wd_low := high + 1, wd_phase := Idle\<rparr>)"

definition scan_start :: "u64 \<Rightarrow> shared_widths \<Rightarrow> 'n \<Rightarrow> ('l, 'n) scan_run" where
  "scan_start from_block w n =
     \<lparr>sr_unread = Some from_block, sr_flight = [], sr_out = Inr [], sr_shared = w, sr_node = n\<rparr>"

inductive scan_step ::
  "(int \<Rightarrow> string \<Rightarrow> bool) \<Rightarrow> ('f, 'l, 'n) get_logs \<Rightarrow> 'f \<Rightarrow> nat \<Rightarrow> u64 \<Rightarrow> ('l, 'n) scan_run \<Rightarrow> ('l, 'n) scan_run \<Rightarrow> bool"
  for retry_err get_logs flt in_flight to_block where
  Carve: "sr_out s = Inr out \<Longrightarrow> length (sr_flight s) < max in_flight 1 \<Longrightarrow>
    Option.bind (sr_unread s) (\<lambda>low. carve low to_block (sr_shared s)) = Some (b, rest) \<Longrightarrow>
    scan_step retry_err get_logs flt in_flight to_block s
      (s\<lparr>sr_unread := rest, sr_flight := sr_flight s @ [window_open b]\<rparr>)"
| Send: "sr_out s = Inr out \<Longrightarrow> sr_flight s = xs @ win # ys \<Longrightarrow> wd_phase win = Idle \<Longrightarrow>
    scan_step retry_err get_logs flt in_flight to_block s
      (s\<lparr>sr_flight := xs @ window_sent (sr_shared s) win # ys\<rparr>)"
| Hear: "sr_out s = Inr out \<Longrightarrow> sr_flight s = xs @ win # ys \<Longrightarrow> wd_phase win = Asking high \<Longrightarrow>
    get_logs flt (wd_low win) high (sr_node s) = (answer, n) \<Longrightarrow>
    request_heard retry_err (wd_low win) high answer (sr_shared s) = (r, w) \<Longrightarrow>
    scan_step retry_err get_logs flt in_flight to_block s
      (s\<lparr>sr_flight := xs @ window_heard r high win # ys, sr_shared := w, sr_node := n\<rparr>)"
| Deliver: "sr_out s = Inr out \<Longrightarrow> sr_flight s = win # ys \<Longrightarrow> wd_phase win = Done \<Longrightarrow>
    scan_step retry_err get_logs flt in_flight to_block s
      (s\<lparr>sr_flight := ys, sr_out := Inr (out @ wd_logs win)\<rparr>)"
| Fail: "sr_out s = Inr out \<Longrightarrow> sr_flight s = win # ys \<Longrightarrow> wd_phase win = Failed e \<Longrightarrow>
    scan_step retry_err get_logs flt in_flight to_block s (s\<lparr>sr_flight := ys, sr_out := Inl e\<rparr>)"

inductive_cases scan_stepE: "scan_step retry_err get_logs flt in_flight to_block s s'"

subsection \<open>What every window keeps\<close>

definition window_ok :: "bool \<Rightarrow> bool \<Rightarrow> (nat \<Rightarrow> 'l list) \<Rightarrow> 'l scan_window \<Rightarrow> bool" where
  "window_ok truthful willing chain win \<longleftrightarrow> wd_from win \<le> wd_low win \<and> wd_low win \<le> wd_to win
     \<and> (case wd_phase win of
          Idle \<Rightarrow> truthful \<longrightarrow> wd_logs win = logs_from chain (unat (wd_from win)) (unat (wd_low win))
        | Asking high \<Rightarrow> wd_low win \<le> high \<and> high \<le> wd_to win \<and> uint high - uint (wd_low win) < 10000000
            \<and> (truthful \<longrightarrow> wd_logs win = logs_from chain (unat (wd_from win)) (unat (wd_low win)))
        | Done \<Rightarrow> truthful \<longrightarrow> wd_logs win = logs_between chain (wd_from win) (wd_to win)
        | Failed e \<Rightarrow> \<not> willing)"

primrec tiles :: "nat \<Rightarrow> 'l scan_window list \<Rightarrow> nat \<Rightarrow> bool" where
  "tiles a [] b \<longleftrightarrow> a = b"
| "tiles a (win # ws) b \<longleftrightarrow> unat (wd_from win) = a \<and> wd_from win \<le> wd_to win \<and> tiles (Suc (unat (wd_to win))) ws b"

definition frontier :: "u64 \<Rightarrow> u64 option \<Rightarrow> nat" where
  "frontier to_block unread = (case unread of None \<Rightarrow> Suc (unat to_block) | Some low \<Rightarrow> unat low)"

definition run_ok ::
  "bool \<Rightarrow> bool \<Rightarrow> (nat \<Rightarrow> 'l list) \<Rightarrow> u64 \<Rightarrow> u64 \<Rightarrow> ('l, 'n) scan_run \<Rightarrow> bool" where
  "run_ok truthful willing chain from_block to_block s \<longleftrightarrow>
     shared_ok (sr_shared s) \<and> (\<forall>win \<in> set (sr_flight s). window_ok truthful willing chain win)
     \<and> frontier to_block (sr_unread s) \<le> Suc (unat to_block)
     \<and> (case sr_out s of
          Inl e \<Rightarrow> \<not> willing
        | Inr out \<Rightarrow> (\<exists>a. unat from_block \<le> a \<and> (truthful \<longrightarrow> out = logs_from chain (unat from_block) a)
             \<and> tiles a (sr_flight s) (frontier to_block (sr_unread s))))"

lemma tiles_append: "tiles a (xs @ ys) b \<longleftrightarrow> (\<exists>m. tiles a xs m \<and> tiles m ys b)"
  by (induction xs arbitrary: a) auto

lemma window_sent_fields [simp]:
  "wd_from (window_sent w win) = wd_from win" "wd_to (window_sent w win) = wd_to win"
  "wd_low (window_sent w win) = wd_low win" "wd_logs (window_sent w win) = wd_logs win"
  by (simp_all add: window_sent_def)

lemma window_heard_fields [simp]:
  "wd_from (window_heard r high win) = wd_from win" "wd_to (window_heard r high win) = wd_to win"
  by (simp_all add: window_heard_def split: sum.split option.split)

lemma window_open_fields [simp]:
  "wd_from (window_open b) = fst b" "wd_to (window_open b) = snd b" "wd_low (window_open b) = fst b"
  "wd_phase (window_open b) = Idle"
  by (simp_all add: window_open_def)

lemma window_ok_open: "fst b \<le> snd b \<Longrightarrow> window_ok truthful willing chain (window_open b)"
  by (simp add: window_ok_def window_open_def)

lemma window_ok_sent:
  assumes "window_ok truthful willing chain win" "wd_phase win = Idle" "shared_ok w"
  shows "window_ok truthful willing chain (window_sent w win)"
    "wd_phase (window_sent w win) = Asking high \<Longrightarrow> unat (high - wd_low win) < unat (next_width w)"
proof -
  define h where "h = wd_low win + min (next_width w - 1) (wd_to win - wd_low win)"
  have le: "wd_low win \<le> wd_to win" using assms by (simp add: window_ok_def)
  note u = window_high[OF le assms(3), folded h_def]
  have n: "1 \<le> uint (next_width w)" "uint (next_width w) \<le> 10000000" using shared_ok_next[OF assms(3)] by simp_all
  have l: "wd_low win \<le> h" "h \<le> wd_to win" "uint h - uint (wd_low win) < uint (next_width w)"
    using u n le by (auto simp: word_le_def)
  then show "window_ok truthful willing chain (window_sent w win)"
    using assms n by (simp add: window_ok_def window_sent_def h_def[symmetric])
  have "uint (h - wd_low win) < uint (next_width w)" using l by (subst uint_sub_exact) (simp_all add: word_le_def)
  then have "unat (h - wd_low win) < unat (next_width w)" by (simp only: word_less_def[symmetric] word_less_nat_alt)
  then show "wd_phase (window_sent w win) = Asking high \<Longrightarrow> unat (high - wd_low win) < unat (next_width w)"
    by (simp add: window_sent_def h_def)
qed

lemma heard_answer:
  assumes "request_heard retry_err low high answer w = (r, w')"
  shows "r = Inr (Some chunk) \<Longrightarrow> answer = Inr chunk"
    "r = Inl e \<Longrightarrow> \<exists>f. answer = Inl f \<and> \<not> (classify retry_err f = RangeFailure \<and> low < high)"
  using assms by (auto simp: request_heard_def Let_def split: sum.splits if_splits)

lemma window_ok_heard:
  assumes ok: "window_ok (honest chain get_logs flt) (serves retry_err get_logs flt) chain win" and asking: "wd_phase win = Asking high"
    and got: "get_logs flt (wd_low win) high n = (answer, n')" and h: "request_heard retry_err (wd_low win) high answer w = (r, w')"
  shows "window_ok (honest chain get_logs flt) (serves retry_err get_logs flt) chain (window_heard r high win)"
proof -
  have l: "wd_from win \<le> wd_low win" "wd_low win \<le> high" "high \<le> wd_to win"
      "honest chain get_logs flt \<longrightarrow> wd_logs win = logs_from chain (unat (wd_from win)) (unat (wd_low win))"
    using ok asking by (auto simp: window_ok_def)
  show ?thesis
  proof (cases r)
    case (Inl e)
    then obtain f where "answer = Inl f" "\<not> (classify retry_err f = RangeFailure \<and> wd_low win < high)"
      using heard_answer(2)[OF h] by blast
    then have "\<not> serves retry_err get_logs flt" using got l(2) unfolding serves_def by blast
    then show ?thesis using Inl l by (simp add: window_heard_def window_ok_def)
  next
    case (Inr c)
    show ?thesis
    proof (cases c)
      case None
      then show ?thesis using Inr l by (simp add: window_heard_def window_ok_def)
    next
      case (Some chunk)
      then have "answer = Inr chunk" using heard_answer(1)[OF h] Inr by blast
      then have "honest chain get_logs flt \<Longrightarrow> chunk = logs_between chain (wd_low win) high"
        using got l(2) unfolding honest_def by blast
      moreover have "unat (wd_from win) \<le> unat (wd_low win)" "unat (wd_low win) \<le> Suc (unat high)"
        using l by (simp_all add: word_le_nat_alt)
      ultimately have logs: "honest chain get_logs flt \<Longrightarrow> wd_logs win @ chunk = logs_between chain (wd_from win) high"
        using l(4) by (simp add: logs_between_def logs_from_join)
      show ?thesis
      proof (cases "high = wd_to win")
        case True
        then show ?thesis using Inr Some l logs by (simp add: window_heard_def window_ok_def)
      next
        case False
        then have lt: "high < wd_to win" using l(3) by simp
        have "wd_from win \<le> high + 1" "high + 1 \<le> wd_to win"
          using l lt by (simp_all add: word_le_def word_less_def uint_step[OF lt])
        then show ?thesis using Inr Some False logs
          by (simp add: window_heard_def window_ok_def logs_between_def unat_step[OF lt])
      qed
    qed
  qed
qed

subsection \<open>Every step keeps the run\<close>

lemma carve_frontier:
  assumes "Option.bind unread (\<lambda>low. carve low to_block w) = Some (b, rest)"
  shows "unat (fst b) = frontier to_block unread" "fst b \<le> snd b" "snd b \<le> to_block"
    "frontier to_block rest = Suc (unat (snd b))" "unread = Some (fst b)"
proof -
  obtain low where low: "unread = Some low" "low \<le> to_block" "carve low to_block w = Some (b, rest)"
    using assms by (cases unread) (auto simp: carve_def Let_def split: if_splits)
  obtain high where h: "carve low to_block w = Some ((low, high), checked_add high 1)" "low \<le> high" "high \<le> to_block"
    using low(2) by (rule carve_within)
  have b: "b = (low, high)" "rest = checked_add high 1" using h(1) low(3) by auto
  show "unat (fst b) = frontier to_block unread" "fst b \<le> snd b" "snd b \<le> to_block" "unread = Some (fst b)"
    using low h b by (simp_all add: frontier_def)
  show "frontier to_block rest = Suc (unat (snd b))"
  proof (cases "uint high + 1 < 2 ^ 64")
    case True
    then have "uint (high + 1) = 1 + uint high" by (subst uint_add_exact) simp_all
    then have "nat (uint (high + 1)) = Suc (nat (uint high))" by (simp only: Suc_nat_eq_nat_zadd1[OF uint_ge_0])
    then show ?thesis using True b by (simp add: frontier_def checked_add_def)
  next
    case False
    then have "uint high = uint to_block" using h(3) uint_below[of to_block] by (simp add: word_le_def)
    then have "high = to_block" by (rule word_eq_uintI)
    then show ?thesis using False b by (simp add: frontier_def checked_add_def)
  qed
qed

lemma run_ok_start:
  "from_block \<le> to_block \<Longrightarrow> shared_ok w \<Longrightarrow> run_ok truthful willing chain from_block to_block (scan_start from_block w n)"
  by (simp add: run_ok_def scan_start_def frontier_def word_le_nat_alt)

lemma run_ok_step:
  assumes "scan_step retry_err get_logs flt in_flight to_block s s'"
    "run_ok (honest chain get_logs flt) (serves retry_err get_logs flt) chain from_block to_block s"
  shows "run_ok (honest chain get_logs flt) (serves retry_err get_logs flt) chain from_block to_block s'"
  using assms
proof cases
  case (Carve out b rest)
  note c = carve_frontier[OF Carve(4)]
  have "unat (snd b) \<le> unat to_block" using c(3) by (simp add: word_le_nat_alt)
  then show ?thesis using assms(2) Carve c window_ok_open[of b]
    by (auto simp: run_ok_def tiles_append)
next
  case (Send out xs win ys)
  then show ?thesis using assms(2) window_ok_sent(1)[of _ _ _ win "sr_shared s"]
    by (auto simp: run_ok_def tiles_append)
next
  case (Hear out xs win ys high answer n r w)
  have ok: "window_ok (honest chain get_logs flt) (serves retry_err get_logs flt) chain win" "shared_ok (sr_shared s)"
    using assms(2) Hear(3) by (auto simp: run_ok_def)
  then have "shared_ok w" using heard_keeps(1)[OF Hear(6)] Hear(4) by (auto simp: window_ok_def)
  then show ?thesis using assms(2) Hear window_ok_heard[OF ok(1) Hear(4-6)]
    by (auto simp: run_ok_def tiles_append)
next
  case (Deliver out win ys)
  have ok: "window_ok (honest chain get_logs flt) (serves retry_err get_logs flt) chain win"
    using assms(2) Deliver(3) by (auto simp: run_ok_def)
  obtain a where a: "unat from_block \<le> a" "honest chain get_logs flt \<longrightarrow> out = logs_from chain (unat from_block) a"
      "tiles a (win # ys) (frontier to_block (sr_unread s))"
    using assms(2) Deliver by (auto simp: run_ok_def)
  have le: "a \<le> Suc (unat (wd_to win))" "unat (wd_from win) = a" using a(3) by (auto simp: word_le_nat_alt)
  have "honest chain get_logs flt \<longrightarrow> wd_logs win = logs_from chain (unat (wd_from win)) (Suc (unat (wd_to win)))"
    using ok Deliver(4) by (simp add: window_ok_def logs_between_def)
  then have "honest chain get_logs flt \<longrightarrow> out @ wd_logs win = logs_from chain (unat from_block) (Suc (unat (wd_to win)))"
    using a(2) logs_from_join[OF a(1) le(1), of chain] le(2) by simp
  moreover have "tiles (Suc (unat (wd_to win))) ys (frontier to_block (sr_unread s))" using a(3) by simp
  moreover have "unat from_block \<le> Suc (unat (wd_to win))" using a(1) le(1) by simp
  ultimately have "\<exists>a. unat from_block \<le> a
      \<and> (honest chain get_logs flt \<longrightarrow> out @ wd_logs win = logs_from chain (unat from_block) a)
      \<and> tiles a ys (frontier to_block (sr_unread s))" by blast
  then show ?thesis using assms(2) Deliver by (simp add: run_ok_def)
next
  case (Fail out win ys e)
  then have "window_ok (honest chain get_logs flt) (serves retry_err get_logs flt) chain win"
    using assms(2) by (simp add: run_ok_def)
  then have "\<not> serves retry_err get_logs flt" using Fail(4) by (simp add: window_ok_def)
  then show ?thesis using assms(2) Fail by (simp add: run_ok_def)
qed

subsection \<open>Every step gets somewhere\<close>

text \<open>
  Carving uses up the range, an accepted answer the blocks to read. A rejection does neither; it puts the idle windows below
  the width it refused, so the bag of the widths to be tried gets smaller.
\<close>

definition still_unread :: "u64 \<Rightarrow> u64 option \<Rightarrow> nat" where
  "still_unread to_block unread = Suc (unat to_block) - frontier to_block unread"

definition still_to_read :: "'l scan_window \<Rightarrow> nat" where
  "still_to_read win = (case wd_phase win of
      Idle \<Rightarrow> Suc (unat (wd_to win)) - unat (wd_low win)
    | Asking high \<Rightarrow> Suc (unat (wd_to win)) - unat (wd_low win)
    | _ \<Rightarrow> 0)"

definition still_to_try :: "shared_widths \<Rightarrow> 'l scan_window \<Rightarrow> nat" where
  "still_to_try w win = (case wd_phase win of
      Idle \<Rightarrow> Suc (2 * unat (next_width w))
    | Asking high \<Rightarrow> 2 * Suc (unat (high - wd_low win))
    | _ \<Rightarrow> 0)"

definition scan_progress :: "u64 \<Rightarrow> ('l, 'n) scan_run \<Rightarrow> nat \<times> nat \<times> nat \<times> nat multiset" where
  "scan_progress to_block s =
     ((case sr_out s of Inl _ \<Rightarrow> 0 | Inr _ \<Rightarrow> 1), still_unread to_block (sr_unread s),
      sum_list (map still_to_read (sr_flight s)), mset (map (still_to_try (sr_shared s)) (sr_flight s)))"

definition progress_order :: "((nat \<times> nat \<times> nat \<times> nat multiset) \<times> nat \<times> nat \<times> nat \<times> nat multiset) set" where
  "progress_order = less_than <*lex*> less_than <*lex*> less_than <*lex*> mult less_than"

lemma wf_progress_order: "wf progress_order"
  by (simp add: progress_order_def wf_lex_prod wf_mult)

lemma mult_less_front: "k < j \<Longrightarrow> (add_mset k M, add_mset j M) \<in> mult less_than"
  using one_step_implies_mult[of "{#j#}" "{#k#}" less_than M] by simp

text \<open>After a rejection only the idle windows changed their weight, all of them to one below the request's.\<close>

lemma retry_decreases:
  assumes "next_width w' < high - wd_low win + 1" "wd_phase win = Asking high" "uint high - uint (wd_low win) < 10000000" "wd_low win \<le> high"
  shows "(mset (map (still_to_try w') (xs @ win\<lparr>wd_phase := Idle\<rparr> # ys)), mset (map (still_to_try w) (xs @ win # ys))) \<in> mult less_than"
proof -
  let ?idle = "\<lambda>v. wd_phase v = Idle" and ?zs = "xs @ ys"
  let ?I = "mset (map (still_to_try w) (filter (\<lambda>v. \<not> ?idle v) ?zs))"
  let ?K = "\<lambda>u. mset (map (still_to_try u) (filter ?idle ?zs))"
  have same: "map (still_to_try w') (filter (\<lambda>v. \<not> ?idle v) ?zs) = map (still_to_try w) (filter (\<lambda>v. \<not> ?idle v) ?zs)"
    by (rule map_cong[OF refl]) (auto simp: still_to_try_def split: window_phase.split)
  have part: "mset (map f ?zs) = mset (map f (filter (\<lambda>v. \<not> ?idle v) ?zs)) + mset (map f (filter ?idle ?zs))" for f :: "'a scan_window \<Rightarrow> nat"
    by (induction xs; induction ys) auto
  have cons: "mset (map f (xs @ v # ys)) = add_mset (f v) (mset (map f ?zs))" for f :: "'a scan_window \<Rightarrow> nat" and v by simp
  have width: "unat (high - wd_low win + 1) = Suc (unat (high - wd_low win))"
  proof -
    have "uint (high - wd_low win + 1) = 1 + uint (high - wd_low win)"
      using assms(3,4) by (simp add: uint_width word_le_def uint_sub_exact)
    then have "nat (uint (high - wd_low win + 1)) = Suc (nat (uint (high - wd_low win)))"
      by (simp only: Suc_nat_eq_nat_zadd1[OF uint_ge_0])
    then show ?thesis by simp
  qed
  have lt: "Suc (2 * unat (next_width w')) < 2 * Suc (unat (high - wd_low win))"
    using assms(1) unfolding word_less_nat_alt width by simp
  have smaller: "k \<le> Suc (2 * unat (next_width w'))" if "k \<in># add_mset (Suc (2 * unat (next_width w'))) (?K w')" for k
    using that by (auto simp: still_to_try_def)
  have "(?I + add_mset (Suc (2 * unat (next_width w'))) (?K w'), ?I + add_mset (2 * Suc (unat (high - wd_low win))) (?K w)) \<in> mult less_than"
  proof (rule one_step_implies_mult)
    show "\<forall>k \<in> set_mset (add_mset (Suc (2 * unat (next_width w'))) (?K w')).
        \<exists>j \<in> set_mset (add_mset (2 * Suc (unat (high - wd_low win))) (?K w)). (k, j) \<in> less_than"
      using le_less_trans[OF smaller lt] by auto
  qed simp
  moreover have "mset (map (still_to_try w') (xs @ win\<lparr>wd_phase := Idle\<rparr> # ys)) = add_mset (Suc (2 * unat (next_width w'))) (?I + ?K w')"
    unfolding cons part same by (simp add: still_to_try_def)
  moreover have "mset (map (still_to_try w) (xs @ win # ys)) = add_mset (2 * Suc (unat (high - wd_low win))) (?I + ?K w)"
    unfolding cons part using assms(2) by (simp add: still_to_try_def)
  ultimately show ?thesis by simp
qed

lemma still_to_read_heard:
  assumes "window_ok truthful willing chain win" "wd_phase win = Asking high" "r \<noteq> Inr None"
  shows "still_to_read (window_heard r high win) < still_to_read win"
proof -
  have l: "wd_low win \<le> high" "high \<le> wd_to win" using assms by (auto simp: window_ok_def)
  then have u: "unat (wd_low win) \<le> unat high" "unat high \<le> unat (wd_to win)" by (simp_all add: word_le_nat_alt)
  show ?thesis
  proof (cases r)
    case (Inl e)
    then show ?thesis using u assms(2) by (simp add: still_to_read_def window_heard_def)
  next
    case (Inr c)
    then obtain chunk where c: "c = Some chunk" using assms(3) by (cases c) auto
    show ?thesis
    proof (cases "high = wd_to win")
      case True
      then show ?thesis using Inr c u assms(2) by (simp add: still_to_read_def window_heard_def)
    next
      case False
      then have "high < wd_to win" using l(2) by simp
      then show ?thesis using Inr c u assms(2) False
        by (simp add: still_to_read_def window_heard_def unat_step word_less_nat_alt)
    qed
  qed
qed

lemma scan_step_progress:
  assumes "scan_step retry_err get_logs flt in_flight to_block s s'" "run_ok truthful willing chain from_block to_block s"
  shows "(scan_progress to_block s', scan_progress to_block s) \<in> progress_order"
  using assms
proof cases
  case (Carve out b rest)
  note c = carve_frontier[OF Carve(4)]
  have "unat (fst b) \<le> unat (snd b)" "unat (snd b) \<le> unat to_block" using c(2,3) by (simp_all add: word_le_nat_alt)
  then have "still_unread to_block rest < still_unread to_block (sr_unread s)"
    using c(1,4) by (simp add: still_unread_def)
  then show ?thesis using Carve by (simp add: scan_progress_def progress_order_def)
next
  case (Send out xs win ys)
  have ok: "window_ok truthful willing chain win" "shared_ok (sr_shared s)" using assms(2) Send by (auto simp: run_ok_def)
  obtain high where high: "wd_phase (window_sent (sr_shared s) win) = Asking high" by (simp add: window_sent_def)
  have "unat (high - wd_low win) < unat (next_width (sr_shared s))"
    using window_ok_sent(2)[OF ok(1) Send(4) ok(2) high] .
  then have "still_to_try (sr_shared s) (window_sent (sr_shared s) win) < still_to_try (sr_shared s) win"
    using Send(4) high by (simp add: still_to_try_def)
  moreover have "still_to_read (window_sent (sr_shared s) win) = still_to_read win"
    using Send(4) high by (simp add: still_to_read_def)
  ultimately show ?thesis using Send by (simp add: scan_progress_def progress_order_def mult_less_front)
next
  case (Hear out xs win ys high answer n r w)
  have ok: "window_ok truthful willing chain win" "shared_ok (sr_shared s)" using assms(2) Hear by (auto simp: run_ok_def)
  show ?thesis
  proof (cases "r = Inr None")
    case True
    have l: "wd_low win \<le> high" "uint high - uint (wd_low win) < 10000000" using ok(1) Hear(4) by (auto simp: window_ok_def)
    have "next_width w < high - wd_low win + 1" using heard_keeps(2)[OF Hear(6) ok(2) l True] .
    note d = retry_decreases[OF this Hear(4) l(2,1), of xs ys "sr_shared s"]
    have win: "window_heard r high win = win\<lparr>wd_phase := Idle\<rparr>" using True by (simp add: window_heard_def)
    then have "still_to_read (window_heard r high win) = still_to_read win" using Hear(4) by (simp add: still_to_read_def)
    then show ?thesis using Hear d win by (simp add: scan_progress_def progress_order_def)
  next
    case False
    show ?thesis using still_to_read_heard[OF ok(1) Hear(4) False] Hear
      by (simp add: scan_progress_def progress_order_def)
  qed
next
  case (Deliver out win ys)
  have "(mset (map (still_to_try (sr_shared s)) ys), add_mset 0 (mset (map (still_to_try (sr_shared s)) ys))) \<in> mult less_than"
    using one_step_implies_mult[of "{#0#}" "{#}" less_than "mset (map (still_to_try (sr_shared s)) ys)"] by simp
  then show ?thesis using Deliver by (simp add: scan_progress_def progress_order_def still_to_read_def still_to_try_def)
next
  case (Fail out win ys e)
  then show ?thesis by (simp add: scan_progress_def progress_order_def)
qed

subsection \<open>A run that cannot go on has finished\<close>

lemma scan_step_possible:
  assumes "sr_out s = Inr out" "sr_flight s \<noteq> [] \<or> Option.bind (sr_unread s) (\<lambda>low. carve low to_block (sr_shared s)) \<noteq> None"
  shows "\<exists>s'. scan_step retry_err get_logs flt in_flight to_block s s'"
proof (cases "sr_flight s")
  case Nil
  then obtain b rest where "Option.bind (sr_unread s) (\<lambda>low. carve low to_block (sr_shared s)) = Some (b, rest)"
    using assms(2) by auto
  then show ?thesis using scan_step.Carve[OF assms(1)] Nil by fastforce
next
  case (Cons win ys)
  then have c: "sr_flight s = [] @ win # ys" by simp
  show ?thesis
  proof (cases "wd_phase win")
    case Idle
    show ?thesis by (rule exI, rule scan_step.Send[OF assms(1) c Idle])
  next
    case (Asking high)
    obtain answer n r w where "get_logs flt (wd_low win) high (sr_node s) = (answer, n)"
        "request_heard retry_err (wd_low win) high answer (sr_shared s) = (r, w)" by (metis surj_pair)
    then show ?thesis by (intro exI) (rule scan_step.Hear[OF assms(1) c Asking])
  next
    case Done
    show ?thesis by (rule exI, rule scan_step.Deliver[OF assms(1) Cons Done])
  next
    case (Failed e)
    show ?thesis by (rule exI, rule scan_step.Fail[OF assms(1) Cons Failed])
  qed
qed

lemma run_ok_reachable:
  assumes "(scan_step retry_err get_logs flt in_flight to_block)\<^sup>*\<^sup>* s s'"
    "run_ok (honest chain get_logs flt) (serves retry_err get_logs flt) chain from_block to_block s"
  shows "run_ok (honest chain get_logs flt) (serves retry_err get_logs flt) chain from_block to_block s'"
  using assms by (induction rule: rtranclp_induct) (auto intro: run_ok_step)

lemma run_finished:
  assumes ok: "run_ok truthful willing chain from_block to_block s"
    and stuck: "\<nexists>s'. scan_step retry_err get_logs flt in_flight to_block s s'"
  shows "case sr_out s of Inl e \<Rightarrow> \<not> willing | Inr out \<Rightarrow> truthful \<longrightarrow> out = logs_between chain from_block to_block"
proof (cases "sr_out s")
  case (Inr out)
  then have e: "sr_flight s = []" "Option.bind (sr_unread s) (\<lambda>low. carve low to_block (sr_shared s)) = None"
    using stuck scan_step_possible[OF Inr] by metis+
  have "Suc (unat to_block) \<le> frontier to_block (sr_unread s)"
    using e(2) by (cases "sr_unread s") (auto simp: frontier_def carve_def Let_def word_le_nat_alt split: if_splits)
  then show ?thesis using ok Inr e(1) by (auto simp: run_ok_def logs_between_def)
qed (use ok in \<open>simp add: run_ok_def\<close>)

lemma scan_comes_to_an_end:
  assumes "run_ok (honest chain get_logs flt) (serves retry_err get_logs flt) chain from_block to_block s"
  shows "\<exists>s'. (scan_step retry_err get_logs flt in_flight to_block)\<^sup>*\<^sup>* s s'
    \<and> (\<nexists>s''. scan_step retry_err get_logs flt in_flight to_block s' s'')"
  using assms
proof (induction "scan_progress to_block s" arbitrary: s rule: wf_induct_rule[OF wf_progress_order])
  case 1
  show ?case
  proof (cases "\<exists>s'. scan_step retry_err get_logs flt in_flight to_block s s'")
    case True
    then obtain s' where s': "scan_step retry_err get_logs flt in_flight to_block s s'" ..
    from 1(1)[OF scan_step_progress[OF s' 1(2)] run_ok_step[OF s' 1(2)]] s'
    show ?thesis by (meson converse_rtranclp_into_rtranclp)
  qed blast
qed

subsection \<open>What a scan promises\<close>

text \<open>
  A node of the kind that counts results: it refuses a range of more than four blocks, keeps count of the requests, and every
  even block has a log.
\<close>

definition sample_chain :: "nat \<Rightarrow> nat list" where
  "sample_chain k = (if even k then [k] else [])"

definition sample_node :: "(unit, nat, nat) get_logs" where
  "sample_node flt a b n =
     (if uint b - uint a \<ge> 4 then (Inl (ErrorResp (- 32602) ''range too wide''), n + 1)
      else (Inr (logs_between sample_chain a b), n + 1))"

lemma sample_node_ok: "honest sample_chain sample_node ()" "serves (\<lambda>_ _. False) sample_node ()"
  by (auto simp: honest_def serves_def sample_node_def is_rate_limit_def word_less_def split: if_splits)

text \<open>C32: A chunked scan always returns, whatever the node answers to each request: every rejection sends the next request
  strictly narrower and every answer takes it further. If the node's answers are the logs of the ranges it is asked for, what
  comes back is every log of the range, once, in chain order, or an error; and if the node refuses nothing but ranges of several
  blocks, at whatever widths and times it likes, it is not an error. An inverted range is refused before any request.\<close>

theorem chunked_scan_total:
  "\<exists>r w n'. get_logs_chunked retry_err get_logs flt from_block to_block n = Some (r, w, n')
     \<and> (to_block < from_block \<longrightarrow> r = Inl (InvalidBlockRange from_block to_block) \<and> n' = n)
     \<and> (from_block \<le> to_block \<longrightarrow> honest chain get_logs flt \<longrightarrow>
          (\<forall>out. r = Inr out \<longrightarrow> out = logs_between chain from_block to_block))
     \<and> (from_block \<le> to_block \<longrightarrow> serves retry_err get_logs flt \<longrightarrow> (\<exists>out. r = Inr out))"
proof (cases "from_block \<le> to_block")
  case True
  then show ?thesis
    using scan_all_delivers[OF True shared_ok_new, of chain get_logs flt retry_err n]
    by (auto simp: get_logs_chunked_def delivers_def)
next
  case False
  then have "to_block < from_block" by simp
  then show ?thesis using False by (simp add: get_logs_chunked_def scan_all_def check_block_range_def)
qed

theorem chunked_scan_total_witness:
  "\<exists>w n'. get_logs_chunked (\<lambda>_ _. False) sample_node () 3 1000003 0 = Some (Inr (logs_between sample_chain 3 1000003), w, n')"
  using chunked_scan_total[of "\<lambda>_ _. False" sample_node "()" 3 1000003 0 sample_chain] sample_node_ok by auto

text \<open>C4: With any number of windows in flight, their requests and answers interleaved in any way: no request is empty or wider
  than the scan's largest span, and a scan that can go no further has finished, with every log of the range, once, in chain
  order, or with an error only a node that refused single blocks or more than ranges can have caused.\<close>

theorem concurrent_scan_exact:
  assumes "from_block \<le> to_block" "shared_ok w" "honest chain get_logs flt"
    and "(scan_step retry_err get_logs flt in_flight to_block)\<^sup>*\<^sup>* (scan_start from_block w n) s"
  shows "(\<forall>win high. win \<in> set (sr_flight s) \<longrightarrow> wd_phase win = Asking high \<longrightarrow>
      wd_low win \<le> high \<and> uint high - uint (wd_low win) < uint LOG_SCAN_MAX_SPAN)
    \<and> ((\<nexists>s'. scan_step retry_err get_logs flt in_flight to_block s s') \<longrightarrow>
      (case sr_out s of Inl e \<Rightarrow> \<not> serves retry_err get_logs flt | Inr out \<Rightarrow> out = logs_between chain from_block to_block))"
proof (intro conjI allI impI)
  have ok: "run_ok (honest chain get_logs flt) (serves retry_err get_logs flt) chain from_block to_block s"
    by (rule run_ok_reachable[OF assms(4) run_ok_start[OF assms(1,2)]])
  fix win high
  assume w: "win \<in> set (sr_flight s)" "wd_phase win = Asking high"
  then have "window_ok (honest chain get_logs flt) (serves retry_err get_logs flt) chain win" using ok by (simp add: run_ok_def)
  then show "wd_low win \<le> high" "uint high - uint (wd_low win) < uint LOG_SCAN_MAX_SPAN"
    using w(2) by (simp_all add: window_ok_def LOG_SCAN_MAX_SPAN_def)
next
  assume stuck: "\<nexists>s'. scan_step retry_err get_logs flt in_flight to_block s s'"
  have "run_ok (honest chain get_logs flt) (serves retry_err get_logs flt) chain from_block to_block s"
    by (rule run_ok_reachable[OF assms(4) run_ok_start[OF assms(1,2)]])
  from run_finished[OF this stuck] assms(3)
  show "case sr_out s of Inl e \<Rightarrow> \<not> serves retry_err get_logs flt | Inr out \<Rightarrow> out = logs_between chain from_block to_block"
    by (simp split: sum.splits)
qed

theorem concurrent_scan_exact_witness:
  "\<exists>s. (scan_step (\<lambda>_ _. False) sample_node () 4 20)\<^sup>*\<^sup>* (scan_start 3 shared_widths_new (0 :: nat)) s
     \<and> sr_out s = Inr (logs_between sample_chain 3 20)"
proof -
  have "(3 :: u64) \<le> 20" by simp
  have "run_ok (honest sample_chain sample_node ()) (serves (\<lambda>_ _. False) sample_node ()) sample_chain 3 20
      (scan_start 3 shared_widths_new (0 :: nat))"
    using \<open>3 \<le> 20\<close> shared_ok_new by (rule run_ok_start)
  note ends = scan_comes_to_an_end[where in_flight = 4, OF this]
  obtain s where s: "(scan_step (\<lambda>_ _. False) sample_node () 4 20)\<^sup>*\<^sup>* (scan_start 3 shared_widths_new (0 :: nat)) s"
      "\<nexists>s'. scan_step (\<lambda>_ _. False) sample_node () 4 20 s s'"
    using ends by blast
  show ?thesis
    using s concurrent_scan_exact[OF \<open>3 \<le> 20\<close> shared_ok_new sample_node_ok(1) s(1)] sample_node_ok(2)
    by (auto split: sum.splits)
qed

text \<open>C33: No interleaving keeps a scan going for ever, also against a node that rejects what it accepted a moment ago: a run
  of steps from the start of a scan is finite.\<close>

theorem concurrent_scan_terminates:
  assumes "from_block \<le> to_block" "shared_ok w"
  shows "\<not> (\<exists>run. run 0 = scan_start from_block w n
    \<and> (\<forall>i. scan_step retry_err get_logs flt in_flight to_block (run i) (run (Suc i))))"
proof
  assume "\<exists>run. run 0 = scan_start from_block w n
    \<and> (\<forall>i. scan_step retry_err get_logs flt in_flight to_block (run i) (run (Suc i)))"
  then obtain run where run: "run 0 = scan_start from_block w n"
      "\<And>i. scan_step retry_err get_logs flt in_flight to_block (run i) (run (Suc i))" by blast
  let ?ok = "run_ok (honest (\<lambda>_. []) get_logs flt) (serves retry_err get_logs flt) (\<lambda>_. []) from_block to_block"
  have "?ok (run i)" for i
    by (induction i) (auto simp: run(1) run_ok_start[OF assms] intro: run_ok_step[OF run(2)])
  then have "(scan_progress to_block (run (Suc i)), scan_progress to_block (run i)) \<in> progress_order" for i
    by (rule scan_step_progress[OF run(2)])
  then have "\<exists>f. \<forall>i. (f (Suc i), f i) \<in> progress_order" by (intro exI[of _ "\<lambda>i. scan_progress to_block (run i)"]) simp
  then show False using wf_progress_order unfolding wf_iff_no_infinite_down_chain by blast
qed

lemma sample_scan_starts: "shared_ok shared_widths_new \<and> (3 :: u64) \<le> 20"
  by (simp add: shared_ok_new)

theorem concurrent_scan_terminates_witness:
  "\<not> (\<exists>run. run 0 = scan_start 3 shared_widths_new (0 :: nat)
    \<and> (\<forall>i. scan_step (\<lambda>_ _. False) sample_node () 4 20 (run i) (run (Suc i))))"
  using sample_scan_starts by (intro concurrent_scan_terminates) simp_all

end
