(* ===== verification/Log_Reader.thy ===== *)
theory Log_Reader
  imports Log_Scan Market_Tape Scaling "HOL-Library.Option_ord" "HOL-Library.Product_Lexorder"
begin

text \<open>
  \<open>src/src/history/tape/read.rs\<close>, \<open>beacon.rs\<close>, \<open>transfers.rs\<close>, \<open>recording.rs\<close> and the handle of \<open>mod.rs\<close>: what is
  read from a node through the scan. A reader takes the driver of the scan, or of the newest-first scan, as a function; the drivers
  of \<open>Log_Scan\<close> are what the code calls. The header of a block and the head of the chain are parameters, as the node gives them,
  the same each time they are asked for. What alloy makes of a log, its event, its print or its transfer, comes with the log.
  The two scans of a join run one after the other, and headers are read in the order of their blocks.
\<close>

subsection \<open>The code: logs, filters and reads\<close>

record chain_log =
  cl_mined :: mined_log
  cl_timestamp :: "u64 option"
  cl_address :: account
  cl_topic1 :: "u256 option"
  cl_raw :: raw_log
  cl_print :: "u256 option"
  cl_transfer :: "(account \<times> account \<times> u256) option"

datatype signature = SigInitialize | SigPoolSwap | SigModifyLiquidity | SigIndexUpdated | SigTransfer

text \<open>An empty list matches anything.\<close>

record log_filter =
  lf_addresses :: "account list"
  lf_signatures :: "signature list"
  lf_topic1 :: "u256 list"
  lf_topic2 :: "u256 list"

type_synonym ('a, 's) reads = "'s \<Rightarrow> ((read_error + 'a) \<times> 's) option"
type_synonym 's scanner = "log_filter \<Rightarrow> u64 \<Rightarrow> u64 \<Rightarrow> (chain_log list, 's) reads"
type_synonym 's newest = "log_filter \<Rightarrow> u64 \<Rightarrow> u64 option \<Rightarrow> ((chain_log list \<times> u64 option) option, 's) reads"
type_synonym header_of = "u64 \<Rightarrow> transport_error + block_context option"

definition read_bind :: "('a, 's) reads \<Rightarrow> ('a \<Rightarrow> ('b, 's) reads) \<Rightarrow> ('b, 's) reads" where
  "read_bind m f st = Option.bind (m st) (\<lambda>(r, st'). case r of Inl e \<Rightarrow> Some (Inl e, st') | Inr x \<Rightarrow> f x st')"

definition read_lift :: "read_error + 'a \<Rightarrow> ('a, 's) reads" where
  "read_lift r st = Some (r, st)"

definition try_bind :: "read_error + 'a \<Rightarrow> ('a \<Rightarrow> read_error + 'b) \<Rightarrow> read_error + 'b" where
  "try_bind m f = (case m of Inl e \<Rightarrow> Inl e | Inr x \<Rightarrow> f x)"

fun try_map :: "('a \<Rightarrow> read_error + 'b) \<Rightarrow> 'a list \<Rightarrow> read_error + 'b list" where
  "try_map f [] = Inr []"
| "try_map f (x # xs) = try_bind (f x) (\<lambda>y. try_bind (try_map f xs) (\<lambda>ys. Inr (y # ys)))"

definition invalid :: "'a result \<Rightarrow> read_error + 'a" where
  "invalid m = (case m of Inl e \<Rightarrow> Inl (Invalid e) | Inr x \<Rightarrow> Inr x)"

abbreviation cl_block :: "chain_log \<Rightarrow> u64 option" where
  "cl_block l \<equiv> ml_block_number (cl_mined l)"

subsection \<open>The code: block timestamps\<close>

definition block_of :: "header_of \<Rightarrow> u64 \<Rightarrow> read_error + block_context" where
  "block_of header number = (case header number of
      Inl e \<Rightarrow> Inl (Transport e)
    | Inr None \<Rightarrow> Inl (BlockUnavailable number)
    | Inr (Some b) \<Rightarrow> Inr b)"

definition block_timestamps :: "header_of \<Rightarrow> chain_log list \<Rightarrow> read_error + (u64 \<times> u64) list" where
  "block_timestamps header logs =
     try_map (\<lambda>number. try_bind (block_of header number) (\<lambda>b. Inr (number, block_timestamp b)))
       (sorted_list_of_set (set (List.map_filter cl_block (filter (\<lambda>l. cl_timestamp l = None) logs))))"

definition stamp_timestamps :: "header_of \<Rightarrow> chain_log list \<Rightarrow> read_error + chain_log list" where
  "stamp_timestamps header logs =
     try_bind (block_timestamps header logs) (\<lambda>headers.
     Inr (map (\<lambda>l. case (cl_timestamp l, cl_block l) of
         (None, Some number) \<Rightarrow> l\<lparr>cl_timestamp := map_of headers number\<rparr>
       | _ \<Rightarrow> l) logs))"

subsection \<open>The code: from logs to a tape\<close>

definition decoded :: "chain_log \<Rightarrow> (chain_log \<times> market_event) option" where
  "decoded l = (case decode_log (cl_raw l) of Inr (Some ev) \<Rightarrow> Some (l, ev) | _ \<Rightarrow> None)"

definition will_not_decode :: "chain_log \<Rightarrow> bool" where
  "will_not_decode l = (case decode_log (cl_raw l) of Inl _ \<Rightarrow> True | Inr _ \<Rightarrow> False)"

definition decode_known :: "chain_log list \<Rightarrow> shared_widths \<times> 'n \<Rightarrow> (chain_log \<times> market_event) list \<times> shared_widths \<times> 'n" where
  "decode_known logs st =
     (let gaps = length (filter will_not_decode logs)
      in (List.map_filter decoded logs,
          (if 0 < gaps then undecodable (of_nat gaps) (fst st) else fst st), snd st))"

definition row_of :: "(u64 \<times> u64) list \<Rightarrow> chain_log \<times> market_event \<Rightarrow> read_error + tape_event" where
  "row_of headers d =
     (let (l, ev) = d in
      try_bind (case (cl_timestamp l, cl_block l) of
          (Some timestamp, _) \<Rightarrow> Inr timestamp
        | (None, Some number) \<Rightarrow> (case map_of headers number of Some timestamp \<Rightarrow> Inr timestamp | None \<Rightarrow> Inl (Invalid Panic))
        | (None, None) \<Rightarrow> Inl (Invalid DecodeFailed)) (\<lambda>timestamp.
      invalid (stamped (cl_mined l) ev timestamp)))"

definition new_tape :: "tape_event list \<Rightarrow> read_error + tape_event list" where
  "new_tape rows = (case tape_new rows of Inl iv \<Rightarrow> Inl (TapeRefused (iv_block iv) (iv_log_index iv)) | Inr t \<Rightarrow> Inr t)"

definition tape_rows :: "header_of \<Rightarrow> (chain_log \<times> market_event) list \<Rightarrow> read_error + tape_event list" where
  "tape_rows header ds =
     try_bind (block_timestamps header (map fst ds)) (\<lambda>headers.
     try_bind (try_map (row_of headers) ds) new_tape)"

definition decoded_tape :: "header_of \<Rightarrow> chain_log list \<Rightarrow> (tape_event list, shared_widths \<times> 'n) reads" where
  "decoded_tape header logs st = (let (ds, st) = decode_known logs st in Some (tape_rows header ds, st))"

definition perp_filter :: "account \<Rightarrow> read_error + log_filter" where
  "perp_filter perp_address =
     (if perp_address = 0 then Inl (Invalid InvalidConfig)
      else Inr \<lparr>lf_addresses = [perp_address], lf_signatures = [], lf_topic1 = [], lf_topic2 = []\<rparr>)"

record tape_addresses =
  ta_perp :: account
  ta_beacon :: account
  ta_pool_manager :: account
  ta_pool_id :: u256

definition pool_filter :: "account \<Rightarrow> u256 list \<Rightarrow> log_filter" where
  "pool_filter pool_manager pool_ids =
     \<lparr>lf_addresses = [pool_manager], lf_signatures = [SigInitialize, SigPoolSwap, SigModifyLiquidity],
      lf_topic1 = pool_ids, lf_topic2 = []\<rparr>"

definition tape_filters :: "tape_addresses \<Rightarrow> read_error + log_filter \<times> log_filter" where
  "tape_filters a =
     (if ta_perp a = 0 \<or> ta_beacon a = 0 \<or> ta_pool_manager a = 0 then Inl (Invalid InvalidConfig)
      else Inr (\<lparr>lf_addresses = [ta_perp a, ta_beacon a], lf_signatures = [], lf_topic1 = [], lf_topic2 = []\<rparr>,
                pool_filter (ta_pool_manager a) [ta_pool_id a]))"

definition chain_order :: "chain_log list \<Rightarrow> chain_log list" where
  "chain_order logs = sort_key (\<lambda>l. (cl_block l, ml_log_index (cl_mined l))) logs"

definition market_events_with ::
  "(shared_widths \<times> 'n) scanner \<Rightarrow> header_of \<Rightarrow> account \<Rightarrow> u64 \<Rightarrow> u64 \<Rightarrow> (tape_event list, shared_widths \<times> 'n) reads" where
  "market_events_with scan header perp_address from_block to_block =
     read_bind (read_lift (perp_filter perp_address)) (\<lambda>flt.
     read_bind (scan flt from_block to_block) (decoded_tape header))"

definition market_logs_with :: "'s scanner \<Rightarrow> tape_addresses \<Rightarrow> u64 \<Rightarrow> u64 \<Rightarrow> (chain_log list, 's) reads" where
  "market_logs_with scan addresses from_block to_block =
     read_bind (read_lift (tape_filters addresses)) (\<lambda>(market, pool).
     read_bind (scan market from_block to_block) (\<lambda>logs.
     read_bind (scan pool from_block to_block) (\<lambda>pool_logs.
     read_lift (Inr (chain_order (logs @ pool_logs))))))"

definition market_tape_with ::
  "(shared_widths \<times> 'n) scanner \<Rightarrow> header_of \<Rightarrow> tape_addresses \<Rightarrow> u64 \<Rightarrow> u64 \<Rightarrow> (tape_event list, shared_widths \<times> 'n) reads" where
  "market_tape_with scan header addresses from_block to_block =
     read_bind (market_logs_with scan addresses from_block to_block) (decoded_tape header)"

subsection \<open>The code: the newest of them\<close>

text \<open>The loop of the two newest-first readers: chunks are pulled until \<open>limit\<close> are held, and put together oldest first.\<close>

partial_function (option) pull_newest ::
  "(u64 option \<Rightarrow> (('l list \<times> u64 option) option, 's) reads) \<Rightarrow> ('l list \<Rightarrow> 's \<Rightarrow> 'k list \<times> 's) \<Rightarrow> nat \<Rightarrow> u64 option \<Rightarrow> 'k list
     \<Rightarrow> 's \<Rightarrow> ((read_error + 'k list) \<times> 's) option" where
  "pull_newest next_chunk keep limit high acc st =
     (if limit \<le> length acc then Some (Inr acc, st)
      else Option.bind (next_chunk high st) (\<lambda>(r, st').
        case r of
          Inl e \<Rightarrow> Some (Inl e, st')
        | Inr None \<Rightarrow> Some (Inr acc, st')
        | Inr (Some p) \<Rightarrow> pull_newest next_chunk keep limit (snd p) (fst (keep (fst p) st') @ acc) (snd (keep (fst p) st'))))"

declare pull_newest.simps [code]

definition newest_of :: "nat \<Rightarrow> 'a list \<Rightarrow> 'a list" where
  "newest_of limit xs = drop (length xs - limit) xs"

definition latest_market_events_with ::
  "(shared_widths \<times> 'n) newest \<Rightarrow> header_of \<Rightarrow> account \<Rightarrow> u64 \<Rightarrow> u64 \<Rightarrow> nat \<Rightarrow> (tape_event list, shared_widths \<times> 'n) reads" where
  "latest_market_events_with newest header perp_address from_block to_block limit =
     read_bind (read_lift (perp_filter perp_address)) (\<lambda>flt.
     read_bind (read_lift (check_block_range from_block to_block)) (\<lambda>_.
     if limit = 0 then read_lift (Inr [])
     else read_bind (pull_newest (newest flt from_block) decode_known limit (Some to_block) []) (\<lambda>ds.
       read_lift (try_bind (tape_rows header ds) (\<lambda>events. new_tape (newest_of limit events))))))"

text \<open>Several markets from one scan each of their addresses and their pools.\<close>

definition belongs :: "tape_addresses \<Rightarrow> chain_log \<Rightarrow> bool" where
  "belongs a l \<longleftrightarrow> cl_address l = ta_perp a \<or> cl_address l = ta_beacon a
     \<or> (cl_address l = ta_pool_manager a \<and> cl_topic1 l = Some (ta_pool_id a))"

definition check_markets :: "tape_addresses list \<Rightarrow> read_error + unit" where
  "check_markets markets =
     try_bind (try_map (\<lambda>a. try_bind (tape_filters a) (\<lambda>_.
       if ta_pool_manager a \<noteq> ta_pool_manager (hd markets) then Inl (Invalid InvalidConfig)
       else if 1 < length (filter (\<lambda>b. ta_perp b = ta_perp a) markets) then Inl (Invalid InvalidConfig)
       else Inr ())) markets) (\<lambda>_. Inr ())"

definition markets_tape_with ::
  "(shared_widths \<times> 'n) scanner \<Rightarrow> header_of \<Rightarrow> tape_addresses list \<Rightarrow> u64 \<Rightarrow> u64 \<Rightarrow> bool
     \<Rightarrow> ((account \<times> tape_event list) list, shared_widths \<times> 'n) reads" where
  "markets_tape_with scan header markets from_block to_block include_pool =
     (if markets = [] then read_lift (Inr [])
      else read_bind (read_lift (check_markets markets)) (\<lambda>_.
        let market = \<lparr>lf_addresses = remdups_adj (sort (concat (map (\<lambda>a. [ta_perp a, ta_beacon a]) markets))),
              lf_signatures = [], lf_topic1 = [], lf_topic2 = []\<rparr>;
            pool = pool_filter (ta_pool_manager (hd markets)) (map ta_pool_id markets)
        in read_bind (scan market from_block to_block) (\<lambda>logs.
           read_bind (if include_pool then scan pool from_block to_block else read_lift (Inr [])) (\<lambda>pool_logs.
           (\<lambda>st. let (ds, st) = decode_known (chain_order (logs @ pool_logs)) st in
             Some (try_map (\<lambda>a. try_bind (tape_rows header (filter (belongs a \<circ> fst) ds)) (\<lambda>t. Inr (ta_perp a, t)))
               (sort_key ta_perp markets), st))))))"

end
