(* ===== verification/History_Handle.thy ===== *)
theory History_Handle
  imports Log_Reader
begin

text \<open>
  \<open>src/src/history/beacon.rs\<close>, \<open>transfers.rs\<close>, \<open>recording.rs\<close> and the \<open>History\<close> handle of \<open>mod.rs\<close>: the prints of a
  beacon, the transfers of a token, a market's logs kept with their manifest and checked against the chain again, and the handle
  that resolves where a read stops. The serialization of a recording and its hash are parameters; files and clocks are
  arguments.
\<close>

subsection \<open>The code: the prints of a beacon\<close>

record index_print =
  ip_block_number :: u64
  ip_log_index :: u64
  ip_timestamp :: u64
  ip_index :: price

definition index_updated_filter :: "account \<Rightarrow> read_error + log_filter" where
  "index_updated_filter beacon =
     (if beacon = 0 then Inl (Invalid InvalidConfig)
      else Inr \<lparr>lf_addresses = [beacon], lf_signatures = [SigIndexUpdated], lf_topic1 = [], lf_topic2 = []\<rparr>)"

definition print_of :: "(u64 \<times> u64) list \<Rightarrow> chain_log \<Rightarrow> read_error + index_print" where
  "print_of headers l = (case (cl_block l, ml_log_index (cl_mined l), cl_print l) of
      (Some block, Some index, Some value) \<Rightarrow>
        try_bind (case cl_timestamp l of
            Some timestamp \<Rightarrow> Inr timestamp
          | None \<Rightarrow> (case map_of headers block of Some timestamp \<Rightarrow> Inr timestamp | None \<Rightarrow> Inl (Invalid Panic)))
          (\<lambda>timestamp. Inr \<lparr>ip_block_number = block, ip_log_index = index, ip_timestamp = timestamp, ip_index = Price value\<rparr>)
    | _ \<Rightarrow> Inl (Invalid DecodeFailed))"

definition with_timestamps :: "header_of \<Rightarrow> chain_log list \<Rightarrow> read_error + index_print list" where
  "with_timestamps header logs =
     try_bind (block_timestamps header logs) (\<lambda>headers. try_map (print_of headers) logs)"

definition beacon_prints_with ::
  "'s scanner \<Rightarrow> header_of \<Rightarrow> account \<Rightarrow> u64 \<Rightarrow> u64 \<Rightarrow> (index_print list, 's) reads" where
  "beacon_prints_with scan header beacon from_block to_block =
     read_bind (read_lift (index_updated_filter beacon)) (\<lambda>flt.
     read_bind (scan flt from_block to_block) (\<lambda>logs. read_lift (with_timestamps header logs)))"

definition latest_beacon_prints_with ::
  "'s newest \<Rightarrow> header_of \<Rightarrow> account \<Rightarrow> u64 \<Rightarrow> u64 \<Rightarrow> nat \<Rightarrow> (index_print list, 's) reads" where
  "latest_beacon_prints_with newest header beacon from_block to_block limit =
     read_bind (read_lift (index_updated_filter beacon)) (\<lambda>flt.
     read_bind (read_lift (check_block_range from_block to_block)) (\<lambda>_.
     if limit = 0 then read_lift (Inr [])
     else read_bind (pull_newest (newest flt from_block) Pair limit (Some to_block) []) (\<lambda>logs.
       read_lift (with_timestamps header (newest_of limit logs)))))"

subsection \<open>The code: the transfers of a token\<close>

definition LOG_FILTER_MAX_TOPIC_VALUES :: nat where "LOG_FILTER_MAX_TOPIC_VALUES = 1000"

record token_transfer =
  tt_block_number :: u64
  tt_log_index :: u64
  tt_tx_hash :: u256
  tt_from :: account
  tt_to :: account
  tt_value :: u256

definition topic_values :: "account list option \<Rightarrow> read_error + u256 list option" where
  "topic_values accounts = (case accounts of
      None \<Rightarrow> Inr None
    | Some as \<Rightarrow> if LOG_FILTER_MAX_TOPIC_VALUES < length as then Inl (Invalid InvalidConfig) else Inr (Some (map ucast as)))"

definition transfer_filter ::
  "account \<Rightarrow> account list option \<Rightarrow> account list option \<Rightarrow> u64 \<Rightarrow> u64 \<Rightarrow> read_error + log_filter option" where
  "transfer_filter token senders recipients from_block to_block =
     (if token = 0 then Inl (Invalid InvalidConfig)
      else if senders = None \<and> recipients = None then Inl (Invalid InvalidConfig)
      else try_bind (check_block_range from_block to_block) (\<lambda>_.
        try_bind (topic_values senders) (\<lambda>senders.
        try_bind (topic_values recipients) (\<lambda>recipients.
        if senders = Some [] \<or> recipients = Some [] then Inr None
        else Inr (Some \<lparr>lf_addresses = [token], lf_signatures = [SigTransfer],
          lf_topic1 = (case senders of None \<Rightarrow> [] | Some vs \<Rightarrow> vs),
          lf_topic2 = (case recipients of None \<Rightarrow> [] | Some vs \<Rightarrow> vs)\<rparr>)))))"

definition decode_transfer :: "chain_log \<Rightarrow> read_error + token_transfer" where
  "decode_transfer l = (case (cl_block l, ml_log_index (cl_mined l), ml_tx_hash (cl_mined l), cl_transfer l) of
      (Some block, Some index, Some tx, Some (a, b, value)) \<Rightarrow>
        Inr \<lparr>tt_block_number = block, tt_log_index = index, tt_tx_hash = tx, tt_from = a, tt_to = b, tt_value = value\<rparr>
    | _ \<Rightarrow> Inl (Invalid DecodeFailed))"

definition token_transfers_with ::
  "'s scanner \<Rightarrow> account \<Rightarrow> account list option \<Rightarrow> account list option \<Rightarrow> u64 \<Rightarrow> u64 \<Rightarrow> (token_transfer list, 's) reads" where
  "token_transfers_with scan token senders recipients from_block to_block =
     read_bind (read_lift (transfer_filter token senders recipients from_block to_block)) (\<lambda>flt.
     case flt of
       None \<Rightarrow> read_lift (Inr [])
     | Some flt \<Rightarrow> read_bind (scan flt from_block to_block) (\<lambda>logs. read_lift (try_map decode_transfer logs)))"

subsection \<open>The code: the handle\<close>

definition DEFAULT_IN_FLIGHT :: nat where "DEFAULT_IN_FLIGHT = 4"

record history =
  hy_lag :: u64
  hy_in_flight :: nat
  hy_widths :: shared_widths

definition history_new :: history where
  "history_new = \<lparr>hy_lag = SNAPSHOT_BLOCK_LAG, hy_in_flight = DEFAULT_IN_FLIGHT, hy_widths = shared_widths_new\<rparr>"

definition with_lag :: "u64 \<Rightarrow> history \<Rightarrow> history" where
  "with_lag blocks h = h\<lparr>hy_lag := blocks\<rparr>"

definition with_in_flight :: "nat \<Rightarrow> history \<Rightarrow> history" where
  "with_in_flight requests h = h\<lparr>hy_in_flight := max requests 1\<rparr>"

definition history_stats :: "history \<Rightarrow> scan_stats" where
  "history_stats h = stats_so_far (hy_widths h)"

text \<open>The head is what the node answers when it is asked for it.\<close>

definition history_tip :: "history \<Rightarrow> transport_error + u64 \<Rightarrow> read_error + u64" where
  "history_tip h head = (case head of Inl e \<Rightarrow> Inl (Transport e) | Inr b \<Rightarrow> Inr (saturating_sub b (hy_lag h)))"

definition history_resolve :: "history \<Rightarrow> transport_error + u64 \<Rightarrow> u64 option \<Rightarrow> read_error + u64" where
  "history_resolve h head to_block = (case to_block of Some block \<Rightarrow> Inr block | None \<Rightarrow> history_tip h head)"

definition history_logs ::
  "'s scanner \<Rightarrow> history \<Rightarrow> transport_error + u64 \<Rightarrow> log_filter \<Rightarrow> u64 \<Rightarrow> u64 option \<Rightarrow> (chain_log list, 's) reads" where
  "history_logs scan h head flt from_block to_block =
     read_bind (read_lift (history_resolve h head to_block)) (\<lambda>to_b. scan flt from_block to_b)"

definition history_beacon_prints ::
  "'s scanner \<Rightarrow> header_of \<Rightarrow> history \<Rightarrow> transport_error + u64 \<Rightarrow> account \<Rightarrow> u64 \<Rightarrow> u64 option \<Rightarrow> (index_print list, 's) reads" where
  "history_beacon_prints scan header h head beacon from_block to_block =
     read_bind (read_lift (history_resolve h head to_block)) (\<lambda>to_b. beacon_prints_with scan header beacon from_block to_b)"

definition history_latest_beacon_prints ::
  "'s newest \<Rightarrow> header_of \<Rightarrow> history \<Rightarrow> transport_error + u64 \<Rightarrow> account \<Rightarrow> u64 \<Rightarrow> u64 option \<Rightarrow> nat \<Rightarrow> (index_print list, 's) reads" where
  "history_latest_beacon_prints newest header h head beacon from_block to_block limit =
     read_bind (read_lift (history_resolve h head to_block)) (\<lambda>to_b.
     latest_beacon_prints_with newest header beacon from_block to_b limit)"

definition history_market_events ::
  "(shared_widths \<times> 'n) scanner \<Rightarrow> header_of \<Rightarrow> history \<Rightarrow> transport_error + u64 \<Rightarrow> account \<Rightarrow> u64 \<Rightarrow> u64 option
     \<Rightarrow> (tape_event list, shared_widths \<times> 'n) reads" where
  "history_market_events scan header h head perp_address from_block to_block =
     read_bind (read_lift (history_resolve h head to_block)) (\<lambda>to_b. market_events_with scan header perp_address from_block to_b)"

definition history_market_tape ::
  "(shared_widths \<times> 'n) scanner \<Rightarrow> header_of \<Rightarrow> history \<Rightarrow> transport_error + u64 \<Rightarrow> tape_addresses \<Rightarrow> u64 \<Rightarrow> u64 option
     \<Rightarrow> (tape_event list, shared_widths \<times> 'n) reads" where
  "history_market_tape scan header h head addresses from_block to_block =
     read_bind (read_lift (history_resolve h head to_block)) (\<lambda>to_b. market_tape_with scan header addresses from_block to_b)"

definition history_markets_tape ::
  "(shared_widths \<times> 'n) scanner \<Rightarrow> header_of \<Rightarrow> history \<Rightarrow> transport_error + u64 \<Rightarrow> tape_addresses list \<Rightarrow> u64 \<Rightarrow> u64 option \<Rightarrow> bool
     \<Rightarrow> ((account \<times> tape_event list) list, shared_widths \<times> 'n) reads" where
  "history_markets_tape scan header h head markets from_block to_block include_pool =
     read_bind (read_lift (history_resolve h head to_block)) (\<lambda>to_b.
     markets_tape_with scan header markets from_block to_b include_pool)"

definition history_latest_market_events ::
  "(shared_widths \<times> 'n) newest \<Rightarrow> header_of \<Rightarrow> history \<Rightarrow> transport_error + u64 \<Rightarrow> account \<Rightarrow> u64 \<Rightarrow> u64 option \<Rightarrow> nat
     \<Rightarrow> (tape_event list, shared_widths \<times> 'n) reads" where
  "history_latest_market_events newest header h head perp_address from_block to_block limit =
     read_bind (read_lift (history_resolve h head to_block)) (\<lambda>to_b.
     latest_market_events_with newest header perp_address from_block to_b limit)"

definition history_token_transfers ::
  "'s scanner \<Rightarrow> history \<Rightarrow> transport_error + u64 \<Rightarrow> account \<Rightarrow> account list option \<Rightarrow> account list option \<Rightarrow> u64 \<Rightarrow> u64 option
     \<Rightarrow> (token_transfer list, 's) reads" where
  "history_token_transfers scan h head token senders recipients from_block to_block =
     read_bind (read_lift (history_resolve h head to_block)) (\<lambda>to_b.
     token_transfers_with scan token senders recipients from_block to_b)"

subsection \<open>The code: recordings\<close>

definition FORMAT :: u32 where "FORMAT = 1"

record manifest =
  mf_format :: u32
  mf_chain_id :: u64
  mf_addresses :: tape_addresses
  mf_from_block :: u64
  mf_to_block :: u64
  mf_tip_hash :: u256
  mf_recorded_at :: u64
  mf_crate_version :: string
  mf_logs :: u64
  mf_logs_hash :: u256
  mf_undecodable :: u64

record recording =
  rg_manifest :: manifest
  rg_logs :: "chain_log list"

record tail_check =
  tc_tip_hash_matches :: bool
  tc_logs_match :: bool
  tc_blocks :: u64
  tc_recorded :: nat
  tc_rescanned :: nat

definition tail_holds :: "tail_check \<Rightarrow> bool" where
  "tail_holds c \<longleftrightarrow> tc_tip_hash_matches c \<and> tc_logs_match c"

definition header_hash :: "header_of \<Rightarrow> u64 \<Rightarrow> read_error + u256" where
  "header_hash header number = try_bind (block_of header number) (\<lambda>b. Inr (block_hash b))"

text \<open>\<open>hash_of\<close> is the hash of the file the logs are written to; the chain's id, the clock and the crate's version are arguments.\<close>

definition record_market ::
  "(chain_log list \<Rightarrow> u256) \<Rightarrow> 's scanner \<Rightarrow> header_of \<Rightarrow> history \<Rightarrow> transport_error + u64 \<Rightarrow> transport_error + u64 \<Rightarrow> u64 \<Rightarrow> string
     \<Rightarrow> tape_addresses \<Rightarrow> u64 \<Rightarrow> u64 option \<Rightarrow> (recording, 's) reads" where
  "record_market hash_of scan header h head chain_id now version addresses from_block to_block =
     read_bind (read_lift (history_resolve h head to_block)) (\<lambda>to_b.
     read_bind (market_logs_with scan addresses from_block to_b) (\<lambda>logs.
     read_lift (
       try_bind (stamp_timestamps header logs) (\<lambda>logs.
       try_bind (case chain_id of Inl e \<Rightarrow> Inl (Transport e) | Inr c \<Rightarrow> Inr c) (\<lambda>chain_id.
       try_bind (header_hash header to_b) (\<lambda>tip_hash.
       Inr \<lparr>rg_manifest = \<lparr>mf_format = FORMAT, mf_chain_id = chain_id, mf_addresses = addresses, mf_from_block = from_block,
              mf_to_block = to_b, mf_tip_hash = tip_hash, mf_recorded_at = now, mf_crate_version = version,
              mf_logs = of_nat (length logs), mf_logs_hash = hash_of logs,
              mf_undecodable = of_nat (length (filter will_not_decode logs))\<rparr>,
            rg_logs = logs\<rparr>))))))"

definition recorded_row :: "chain_log \<Rightarrow> read_error + tape_event option" where
  "recorded_row l =
     try_bind (invalid (decode_log (cl_raw l))) (\<lambda>ev. case ev of
         None \<Rightarrow> Inr None
       | Some ev \<Rightarrow> (case cl_timestamp l of
             None \<Rightarrow> Inl (Invalid DecodeFailed)
           | Some timestamp \<Rightarrow> try_bind (invalid (stamped (cl_mined l) ev timestamp)) (\<lambda>row. Inr (Some row))))"

definition recording_tape :: "recording \<Rightarrow> read_error + tape_event list" where
  "recording_tape r = try_bind (try_map recorded_row (rg_logs r)) (\<lambda>rows. new_tape (List.map_filter id rows))"

text \<open>A file: its manifest, and its lines with what they hash to and what parsing them gives.\<close>

definition recording_read :: "manifest \<Rightarrow> u256 \<Rightarrow> read_error + chain_log list \<Rightarrow> read_error + recording" where
  "recording_read m hash parsed =
     (if mf_format m \<noteq> FORMAT then Inl (Invalid DecodeFailed)
      else if hash \<noteq> mf_logs_hash m then Inl (Invalid DecodeFailed)
      else try_bind parsed (\<lambda>logs. Inr \<lparr>rg_manifest = m, rg_logs = logs\<rparr>))"

definition check_tail :: "'s scanner \<Rightarrow> header_of \<Rightarrow> u64 \<Rightarrow> recording \<Rightarrow> (tail_check, 's) reads" where
  "check_tail scan header blocks r =
     (let to_b = mf_to_block (rg_manifest r);
          from_b = max (saturating_sub to_b (saturating_sub blocks 1)) (mf_from_block (rg_manifest r))
      in read_bind (market_logs_with scan (mf_addresses (rg_manifest r)) from_b to_b) (\<lambda>rescanned.
         read_lift (
           try_bind (header_hash header to_b) (\<lambda>hash.
           try_bind (stamp_timestamps header rescanned) (\<lambda>rescanned.
           let recorded = filter (\<lambda>l. case cl_block l of Some b \<Rightarrow> from_b \<le> b | None \<Rightarrow> False) (rg_logs r)
           in Inr \<lparr>tc_tip_hash_matches = (hash = mf_tip_hash (rg_manifest r)),
                   tc_logs_match = (length recorded = length rescanned \<and> list_all2 (=) recorded rescanned),
                   tc_blocks = to_b - from_b + 1, tc_recorded = length recorded, tc_rescanned = length rescanned\<rparr>)))))"

end
