(* ===== verification/History_Reads.thy ===== *)
theory History_Reads
  imports History_Handle
begin

text \<open>
  What the readers of \<open>Log_Reader\<close> and \<open>History_Handle\<close> promise, from two interfaces: a scan that returns the logs of a range, and
  a newest-first scan that returns them chunk by chunk from the top. Both are stated as locales and hold of the drivers
  of \<open>Log_Scan\<close> over any node; a node that answers truthfully gives the contents.
\<close>

subsection \<open>Reads and their results\<close>

lemma read_simps [simp]:
  "read_lift r st = Some (r, st)"
  "read_bind (read_lift (Inr x)) f = f x"
  "read_bind (read_lift (Inl e)) f = read_lift (Inl e)"
  by (auto simp: read_lift_def read_bind_def fun_eq_iff)

lemma read_bind_Inr:
  "read_bind m f st = Some (Inr y, st') \<longleftrightarrow> (\<exists>x st1. m st = Some (Inr x, st1) \<and> f x st1 = Some (Inr y, st'))"
  by (auto simp: read_bind_def split: Option.bind_splits sum.splits)

lemma read_bind_returns:
  "m st = Some (r, st1) \<Longrightarrow> (\<And>x. r = Inr x \<Longrightarrow> \<exists>r' st2. f x st1 = Some (r', st2)) \<Longrightarrow> \<exists>r' st2. read_bind m f st = Some (r', st2)"
  by (auto simp: read_bind_def split: sum.split)

lemma try_bind_simps [simp]: "try_bind (Inr x) f = f x" "try_bind (Inl e) f = Inl e"
  by (simp_all add: try_bind_def)

lemma try_bind_Inr: "try_bind m f = Inr y \<longleftrightarrow> (\<exists>x. m = Inr x \<and> f x = Inr y)"
  by (cases m) simp_all

lemma try_map_Inr: "try_map f xs = Inr ys \<longleftrightarrow> list_all2 (\<lambda>x y. f x = Inr y) xs ys"
  by (induction xs arbitrary: ys) (auto simp: try_bind_Inr list_all2_Cons1)

lemma try_map_eq: "list_all2 (\<lambda>x y. f x = Inr y) xs ys \<Longrightarrow> list_all2 (\<lambda>x y. f x = Inr y) xs zs \<Longrightarrow> ys = zs"
  by (induction xs arbitrary: ys zs) (auto simp: list_all2_Cons1)

lemma invalid_Inr [simp]: "invalid m = Inr x \<longleftrightarrow> m = Inr x"
  by (simp add: invalid_def split: sum.split)

lemma new_tape_Inr: "new_tape rows = Inr t \<longleftrightarrow> t = rows \<and> tape_ok rows"
  using tape_new_Inr[of rows t] by (auto simp: new_tape_def split: sum.split)

subsection \<open>A log's time does not depend on the read it came with\<close>

definition time_of :: "header_of \<Rightarrow> chain_log \<Rightarrow> read_error + u64" where
  "time_of header l = (case (cl_timestamp l, cl_block l) of
      (Some timestamp, _) \<Rightarrow> Inr timestamp
    | (None, Some number) \<Rightarrow> try_bind (block_of header number) (\<lambda>b. Inr (block_timestamp b))
    | (None, None) \<Rightarrow> Inl (Invalid DecodeFailed))"

lemma pairs_map_of:
  "list_all2 (\<lambda>n p. try_bind (h n) (\<lambda>b. Inr (n, g b)) = Inr p) ns ps \<Longrightarrow> n \<in> set ns \<Longrightarrow>
   \<exists>b. h n = Inr b \<and> map_of ps n = Some (g b)"
  by (induction ns arbitrary: ps) (auto simp: list_all2_Cons1 try_bind_Inr)

lemma block_timestamps_found:
  assumes "block_timestamps header logs = Inr hs" "l \<in> set logs" "cl_timestamp l = None" "cl_block l = Some n"
  shows "\<exists>b. block_of header n = Inr b \<and> map_of hs n = Some (block_timestamp b)"
proof (rule pairs_map_of)
  show "list_all2 (\<lambda>n p. try_bind (block_of header n) (\<lambda>b. Inr (n, block_timestamp b)) = Inr p)
      (sorted_list_of_set (set (List.map_filter cl_block (filter (\<lambda>l. cl_timestamp l = None) logs)))) hs"
    using assms(1) by (simp add: block_timestamps_def try_map_Inr)
  show "n \<in> set (sorted_list_of_set (set (List.map_filter cl_block (filter (\<lambda>l. cl_timestamp l = None) logs))))"
    using assms(2-4) by (force simp: List.map_filter_def)
qed

definition row_in :: "header_of \<Rightarrow> chain_log \<times> market_event \<Rightarrow> read_error + tape_event" where
  "row_in header d = try_bind (time_of header (fst d)) (\<lambda>timestamp. invalid (stamped (cl_mined (fst d)) (snd d) timestamp))"

lemma row_of_in:
  assumes "block_timestamps header (map fst ds) = Inr hs" "d \<in> set ds"
  shows "row_of hs d = row_in header d"
proof (cases "cl_timestamp (fst d)")
  case None
  then show ?thesis
  proof (cases "cl_block (fst d)")
    case (Some n)
    obtain b where "block_of header n = Inr b" "map_of hs n = Some (block_timestamp b)"
      using block_timestamps_found[OF assms(1) _ None Some] assms(2) by auto
    then show ?thesis using None Some by (simp add: row_of_def row_in_def time_of_def case_prod_beta)
  qed (simp add: row_of_def row_in_def time_of_def case_prod_beta)
qed (simp add: row_of_def row_in_def time_of_def case_prod_beta)

lemma list_all2_same: "(\<And>x. x \<in> set xs \<Longrightarrow> f x = g x) \<Longrightarrow> list_all2 (\<lambda>x y. f x = Inr y) xs ys \<longleftrightarrow> list_all2 (\<lambda>x y. g x = Inr y) xs ys"
  by (intro list.rel_cong_simp refl) (auto simp: simp_implies_def)

lemma tape_rows_Inr:
  assumes "tape_rows header ds = Inr tape"
  shows "tape_ok tape \<and> list_all2 (\<lambda>d row. row_in header d = Inr row) ds tape"
proof -
  obtain hs rows where h: "block_timestamps header (map fst ds) = Inr hs" "try_map (row_of hs) ds = Inr rows" "new_tape rows = Inr tape"
    using assms by (auto simp: tape_rows_def try_bind_Inr)
  have "list_all2 (\<lambda>d row. row_of hs d = Inr row) ds rows" using h(2) by (simp add: try_map_Inr)
  then have "list_all2 (\<lambda>d row. row_in header d = Inr row) ds rows"
    by (subst (asm) list_all2_same[OF row_of_in[OF h(1)]]) simp_all
  then show ?thesis using h(3) by (simp add: new_tape_Inr)
qed

definition print_in :: "header_of \<Rightarrow> chain_log \<Rightarrow> read_error + index_print" where
  "print_in header l = (case (cl_block l, ml_log_index (cl_mined l), cl_print l) of
      (Some block, Some index, Some value) \<Rightarrow>
        try_bind (time_of header l)
          (\<lambda>timestamp. Inr \<lparr>ip_block_number = block, ip_log_index = index, ip_timestamp = timestamp, ip_index = Price value\<rparr>)
    | _ \<Rightarrow> Inl (Invalid DecodeFailed))"

lemma print_of_in:
  assumes "block_timestamps header logs = Inr hs" "l \<in> set logs"
  shows "print_of hs l = print_in header l"
proof (cases "cl_timestamp l")
  case None
  then show ?thesis
  proof (cases "cl_block l")
    case (Some n)
    obtain b where "block_of header n = Inr b" "map_of hs n = Some (block_timestamp b)"
      using block_timestamps_found[OF assms None Some] by auto
    then show ?thesis using None Some by (simp add: print_of_def print_in_def time_of_def split: option.split)
  qed (simp add: print_of_def print_in_def)
qed (simp add: print_of_def print_in_def time_of_def split: option.split)

lemma with_timestamps_Inr:
  assumes "with_timestamps header logs = Inr ys"
  shows "list_all2 (\<lambda>l y. print_in header l = Inr y) logs ys"
proof -
  obtain hs where hs: "block_timestamps header logs = Inr hs" "list_all2 (\<lambda>l y. print_of hs l = Inr y) logs ys"
    using assms by (auto simp: with_timestamps_def try_bind_Inr try_map_Inr)
  show ?thesis using hs(2) by (subst (asm) list_all2_same[OF print_of_in[OF hs(1)]]) simp_all
qed

definition stamp_in :: "header_of \<Rightarrow> chain_log \<Rightarrow> chain_log" where
  "stamp_in header l = (case (cl_timestamp l, cl_block l) of
      (None, Some number) \<Rightarrow> l\<lparr>cl_timestamp := (case block_of header number of Inr b \<Rightarrow> Some (block_timestamp b) | Inl _ \<Rightarrow> None)\<rparr>
    | _ \<Rightarrow> l)"

lemma stamp_timestamps_Inr:
  assumes "stamp_timestamps header logs = Inr out"
  shows "out = map (stamp_in header) logs"
proof -
  obtain hs where hs: "block_timestamps header logs = Inr hs"
      "out = map (\<lambda>l. case (cl_timestamp l, cl_block l) of (None, Some number) \<Rightarrow> l\<lparr>cl_timestamp := map_of hs number\<rparr> | _ \<Rightarrow> l) logs"
    using assms by (auto simp: stamp_timestamps_def try_bind_Inr)
  show ?thesis unfolding hs(2)
  proof (rule map_cong[OF refl])
    fix l assume "l \<in> set logs"
    then show "(case (cl_timestamp l, cl_block l) of (None, Some number) \<Rightarrow> l\<lparr>cl_timestamp := map_of hs number\<rparr> | _ \<Rightarrow> l) = stamp_in header l"
      using block_timestamps_found[OF hs(1), of l]
      by (cases "cl_timestamp l"; cases "cl_block l") (auto simp: stamp_in_def)
  qed
qed

subsection \<open>The interface: a scan that returns the logs of a range\<close>

locale log_source =
  fixes scan :: "(shared_widths \<times> 'n) scanner" and chain :: "log_filter \<Rightarrow> nat \<Rightarrow> chain_log list" and truthful :: "log_filter \<Rightarrow> bool"
  assumes scan_returns: "shared_ok (fst st) \<Longrightarrow> \<exists>r st'. scan flt a b st = Some (r, st') \<and> shared_ok (fst st')"
    and scan_exact: "shared_ok (fst st) \<Longrightarrow> truthful flt \<Longrightarrow> scan flt a b st = Some (Inr logs, st') \<Longrightarrow>
      a \<le> b \<and> logs = logs_between (chain flt) a b"
    and scan_gaps: "scan flt a b st = Some (r, st') \<Longrightarrow> ss_undecodable (sw_stats (fst st')) = ss_undecodable (sw_stats (fst st))"
begin

lemma scan_ok: "shared_ok (fst st) \<Longrightarrow> scan flt a b st = Some (r, st') \<Longrightarrow> shared_ok (fst st')"
  using scan_returns[of st flt a b] by auto

lemma market_logs:
  assumes "shared_ok (fst st)" "truthful mkt" "truthful pool" "tape_filters addresses = Inr (mkt, pool)"
    "market_logs_with scan addresses a b st = Some (Inr logs, st')"
  shows "a \<le> b" "logs = chain_order (logs_between (chain mkt) a b @ logs_between (chain pool) a b)"
    "ss_undecodable (sw_stats (fst st')) = ss_undecodable (sw_stats (fst st))"
proof -
  obtain l1 s1 l2 where m: "scan mkt a b st = Some (Inr l1, s1)" "scan pool a b s1 = Some (Inr l2, st')" "logs = chain_order (l1 @ l2)"
    using assms(4,5) by (auto simp: market_logs_with_def read_bind_Inr)
  have "shared_ok (fst s1)" using scan_ok[OF assms(1) m(1)] .
  then show "a \<le> b" "logs = chain_order (logs_between (chain mkt) a b @ logs_between (chain pool) a b)"
    using scan_exact[OF assms(1,2) m(1)] scan_exact[OF _ assms(3) m(2)] m(3) by simp_all
  show "ss_undecodable (sw_stats (fst st')) = ss_undecodable (sw_stats (fst st))"
    using scan_gaps[OF m(1)] scan_gaps[OF m(2)] by simp
qed

lemma market_logs_return:
  assumes "shared_ok (fst st)"
  shows "\<exists>r st'. market_logs_with scan addresses a b st = Some (r, st')"
proof (cases "tape_filters addresses")
  case (Inr f)
  obtain mkt pool where f: "f = (mkt, pool)" by (cases f)
  obtain r1 s1 where 1: "scan mkt a b st = Some (r1, s1)" "shared_ok (fst s1)" using scan_returns[OF assms] by blast
  obtain r2 s2 where 2: "scan pool a b s1 = Some (r2, s2)" using scan_returns[OF 1(2)] by blast
  have "\<exists>r' st2. read_bind (scan pool a b) (\<lambda>l2. read_lift (Inr (chain_order (l1 @ l2)))) s1 = Some (r', st2)" for l1
    using 2 by (rule read_bind_returns) simp
  then have "\<exists>r' st2. read_bind (scan mkt a b) (\<lambda>l1. read_bind (scan pool a b) (\<lambda>l2. read_lift (Inr (chain_order (l1 @ l2))))) st
      = Some (r', st2)"
    by (intro read_bind_returns[where m = "scan mkt a b" and st = st, OF 1(1)]) simp
  then show ?thesis unfolding market_logs_with_def Inr f by simp
qed (simp add: market_logs_with_def)

lemma market_tape_rows:
  assumes "shared_ok (fst st)" "truthful mkt" "truthful pool" "tape_filters addresses = Inr (mkt, pool)"
    "market_tape_with scan header addresses a b st = Some (Inr tape, st')"
  defines "logs \<equiv> chain_order (logs_between (chain mkt) a b @ logs_between (chain pool) a b)"
  shows "tape_ok tape \<and> list_all2 (\<lambda>d row. row_in header d = Inr row) (List.map_filter decoded logs) tape
    \<and> ss_undecodable (sw_stats (fst st')) = ss_undecodable (sw_stats (fst st)) + of_nat (length (filter will_not_decode logs))"
proof -
  obtain out s1 where m: "market_logs_with scan addresses a b st = Some (Inr out, s1)" "decoded_tape header out s1 = Some (Inr tape, st')"
    using assms(5) by (auto simp: market_tape_with_def read_bind_Inr)
  note l = market_logs[OF assms(1-4) m(1)]
  have "tape_rows header (List.map_filter decoded logs) = Inr tape"
      "fst st' = (if 0 < length (filter will_not_decode logs) then undecodable (of_nat (length (filter will_not_decode logs))) (fst s1) else fst s1)"
    using m(2) l(2) by (auto simp: decoded_tape_def decode_known_def Let_def logs_def)
  then show ?thesis using l(3) tape_rows_Inr by (auto simp: undecodable_def)
qed

end

lemma attempt_gaps:
  "attempt retry_err get_logs flt a b st = (r, st') \<Longrightarrow> ss_undecodable (sw_stats (fst st')) = ss_undecodable (sw_stats (fst st))"
  by (auto simp: attempt_def request_heard_def tally_def Let_def split: prod.splits sum.splits if_splits)

lemma read_window_gaps:
  assumes "read_window retry_err get_logs flt low logs b st = Some (r, st')"
  shows "ss_undecodable (sw_stats (fst st')) = ss_undecodable (sw_stats (fst st))"
proof -
  have "ss_undecodable (sw_stats (fst (snd p))) = ss_undecodable (sw_stats (fst st))"
    if "read_window retry_err get_logs flt low logs b st = Some p" for p
  proof (rule read_window.raw_induct[where P = "\<lambda>_ _ _ _ _ _ st p. ss_undecodable (sw_stats (fst (snd p))) = ss_undecodable (sw_stats (fst st))", OF _ that], goal_cases)
    case 1
    then show ?case by (auto simp: Let_def dest!: attempt_gaps split: prod.splits sum.splits option.splits if_splits)
  qed
  from this[OF assms] show ?thesis by simp
qed

lemma scan_windows_gaps:
  assumes "scan_windows retry_err get_logs flt unread logs b st = Some (r, st')"
  shows "ss_undecodable (sw_stats (fst st')) = ss_undecodable (sw_stats (fst st))"
proof -
  have "ss_undecodable (sw_stats (fst (snd p))) = ss_undecodable (sw_stats (fst st))"
    if "scan_windows retry_err get_logs flt unread logs b st = Some p" for p
  proof (rule scan_windows.raw_induct[where P = "\<lambda>_ _ _ _ _ _ st p. ss_undecodable (sw_stats (fst (snd p))) = ss_undecodable (sw_stats (fst st))", OF _ that], goal_cases)
    case (1 sw retry_err get_logs flt unread logs b st p)
    show ?case
    proof (cases "Option.bind unread (\<lambda>low. carve low b (fst st))")
      case None
      then show ?thesis using 1(2) by auto
    next
      case (Some c)
      obtain low high rest where c: "c = ((low, high), rest)" by (metis surj_pair)
      then obtain r1 st1 where r: "read_window retry_err get_logs flt low [] high st = Some (r1, st1)"
          "(case r1 of Inl e \<Rightarrow> Some (Inl e, st1) | Inr chunk \<Rightarrow> sw retry_err get_logs flt rest (logs @ chunk) b st1) = Some p"
        using 1(2) Some by (auto split: Option.bind_splits)
      show ?thesis using r(2) 1(1) read_window_gaps[OF r(1)] by (cases r1) auto
    qed
  qed
  from this[OF assms] show ?thesis by simp
qed

interpretation scanned: log_source "scan_all retry_err get_logs" chain "\<lambda>flt. honest (chain flt) get_logs flt"
  for retry_err get_logs chain
proof
  fix st :: "shared_widths \<times> 'a" and flt a b
  assume ok: "shared_ok (fst st)"
  obtain w n where st: "st = (w, n)" by (cases st)
  show "\<exists>r st'. scan_all retry_err get_logs flt a b st = Some (r, st') \<and> shared_ok (fst st')"
    using ok scan_all_delivers[of a b w "chain flt" get_logs flt retry_err n] not_less[of b a]
    by (cases "b < a") (auto simp: st delivers_def scan_all_def check_block_range_def)
  fix logs st'
  assume "honest (chain flt) get_logs flt" "scan_all retry_err get_logs flt a b st = Some (Inr logs, st')"
  then show "a \<le> b \<and> logs = logs_between (chain flt) a b"
    using ok scan_all_delivers[of a b w "chain flt" get_logs flt retry_err n] not_less[of b a]
    by (cases "b < a") (auto simp: st delivers_def scan_all_def check_block_range_def)
next
  fix flt a b r and st st' :: "shared_widths \<times> 'a"
  assume "scan_all retry_err get_logs flt a b st = Some (r, st')"
  then show "ss_undecodable (sw_stats (fst st')) = ss_undecodable (sw_stats (fst st))"
    by (auto simp: scan_all_def check_block_range_def dest: scan_windows_gaps split: if_splits)
qed

subsection \<open>The interface: newest first\<close>

text \<open>One past the block the next request ends at: all from there on has been read.\<close>

definition read_above :: "u64 option \<Rightarrow> nat" where
  "read_above high = (case high of None \<Rightarrow> 0 | Some h \<Rightarrow> Suc (unat h))"

lemma read_above_below: "read_above (checked_sub low 1) = unat low" for low :: u64
proof (cases "low = 0")
  case False
  then have "1 \<le> uint low" by (metis uint_0_iff uint_ge_0 int_one_le_iff_zero_less order_le_less)
  then have u: "uint (low - 1) = uint low - 1" by (subst uint_sub_exact) simp_all
  have "Suc (nat (uint (low - 1))) = nat (1 + uint (low - 1))" by (simp only: Suc_nat_eq_nat_zadd1[OF uint_ge_0])
  also have "\<dots> = nat (uint low)" by (simp add: u)
  finally show ?thesis using \<open>1 \<le> uint low\<close> by (simp add: read_above_def checked_sub_def)
qed (simp add: read_above_def checked_sub_def)

lemma newest_of_append: "limit \<le> length ys \<Longrightarrow> newest_of limit (xs @ ys) = newest_of limit ys"
  by (simp add: newest_of_def)

lemma newest_of_rel: "list_all2 R xs ys \<Longrightarrow> list_all2 R (newest_of limit xs) (newest_of limit ys)"
  by (simp add: newest_of_def list_all2_lengthD list_all2_dropI)

locale newest_source =
  fixes newest :: "(shared_widths \<times> 'n) newest" and chain :: "log_filter \<Rightarrow> nat \<Rightarrow> chain_log list" and truthful :: "log_filter \<Rightarrow> bool"
  assumes ended: "high = None \<or> (\<exists>h. high = Some h \<and> h < a) \<Longrightarrow> newest flt a high st = Some (Inr None, st)"
    and next_chunk: "a \<le> h \<Longrightarrow> shared_ok (fst st) \<Longrightarrow> \<exists>r st'. newest flt a (Some h) st = Some (r, st') \<and> shared_ok (fst st')
      \<and> r \<noteq> Inr None \<and> (\<forall>chunk rest. r = Inr (Some (chunk, rest)) \<longrightarrow> (\<exists>low. a \<le> low \<and> low \<le> h \<and> rest = checked_sub low 1
          \<and> (truthful flt \<longrightarrow> chunk = logs_between (chain flt) low h)))"
begin

text \<open>The loop returns a suffix of the range that is all of it or holds what was asked for.\<close>

lemma pull_suffix:
  assumes keep: "\<And>c st. fst (keep c st) = dec c" "\<And>c st. shared_ok (fst st) \<Longrightarrow> shared_ok (fst (snd (keep c st)))"
    and dec: "\<And>xs ys. dec (xs @ ys) = dec xs @ dec ys"
  shows "shared_ok (fst st) \<Longrightarrow> unat a \<le> read_above high \<Longrightarrow> read_above high \<le> last_read \<Longrightarrow>
    (truthful flt \<longrightarrow> acc = dec (logs_from (chain flt) (read_above high) last_read)) \<Longrightarrow>
    \<exists>r st'. pull_newest (newest flt a) keep limit high acc st = Some (r, st') \<and> shared_ok (fst st')
      \<and> (\<forall>out. r = Inr out \<longrightarrow> truthful flt \<longrightarrow> (\<exists>m. unat a \<le> m \<and> m \<le> last_read \<and> out = dec (logs_from (chain flt) m last_read)
           \<and> (limit \<le> length out \<or> m = unat a)))"
proof (induction "read_above high" arbitrary: high acc st rule: less_induct)
  case less
  show ?case
  proof (cases "limit \<le> length acc")
    case True
    then show ?thesis using less.prems by (subst pull_newest.simps) auto
  next
    case short: False
    show ?thesis
    proof (cases "high = None \<or> (\<exists>h. high = Some h \<and> h < a)")
      case True
      then have "read_above high \<le> unat a" by (auto simp: read_above_def word_less_nat_alt Suc_leI)
      then have e: "read_above high = unat a" using less.prems(2) by simp
      show ?thesis using less.prems short ended[OF True, of flt st]
        by (subst pull_newest.simps) (auto simp: e)
    next
      case False
      then obtain h where h: "high = Some h" "a \<le> h" by (cases high) auto
      obtain r st' where n: "newest flt a (Some h) st = Some (r, st')" "shared_ok (fst st')" "r \<noteq> Inr None"
          "\<forall>chunk rest. r = Inr (Some (chunk, rest)) \<longrightarrow> (\<exists>low. a \<le> low \<and> low \<le> h \<and> rest = checked_sub low 1
          \<and> (truthful flt \<longrightarrow> chunk = logs_between (chain flt) low h))"
        using next_chunk[OF h(2) less.prems(1), of flt] by blast
      show ?thesis
      proof (cases r)
        case (Inl e)
        then show ?thesis using n short h(1) by (subst pull_newest.simps) auto
      next
        case (Inr p)
        then obtain chunk rest where p: "p = Some (chunk, rest)" using n(3) by (cases p) auto
        then obtain low where l: "a \<le> low" "low \<le> h" "rest = checked_sub low 1" "truthful flt \<longrightarrow> chunk = logs_between (chain flt) low h"
          using n(4) Inr by blast
        have u: "unat a \<le> unat low" "unat low \<le> unat h" "read_above rest = unat low" "read_above high = Suc (unat h)"
          using l h(1) by (simp_all add: word_le_nat_alt read_above_below read_above_def[of "Some h"])
        have "truthful flt \<longrightarrow> dec chunk @ acc = dec (logs_from (chain flt) (read_above rest) last_read)"
          using l(4) less.prems(3,4) u logs_from_join[of "unat low" "Suc (unat h)" last_read "chain flt"]
          by (simp add: logs_between_def dec[symmetric])
        then have "\<exists>r st''. pull_newest (newest flt a) keep limit rest (dec chunk @ acc) (snd (keep chunk st')) = Some (r, st'')
            \<and> shared_ok (fst st'')
            \<and> (\<forall>out. r = Inr out \<longrightarrow> truthful flt \<longrightarrow> (\<exists>m. unat a \<le> m \<and> m \<le> last_read \<and> out = dec (logs_from (chain flt) m last_read)
               \<and> (limit \<le> length out \<or> m = unat a)))"
          using u less.prems(3) keep(2)[OF n(2)] by (intro less.hyps) simp_all
        then show ?thesis using short n(1) Inr p h(1) keep(1) by (subst pull_newest.simps) simp
      qed
    qed
  qed
qed

text \<open>So a newest-first read of at least the limit ends as the read of the whole range does.\<close>

lemma pull_newest_tail:
  assumes "\<And>c st. fst (keep c st) = dec c" "\<And>c st. shared_ok (fst st) \<Longrightarrow> shared_ok (fst (snd (keep c st)))"
    "\<And>xs ys. dec (xs @ ys) = dec xs @ dec ys" "dec [] = []" "shared_ok (fst st)" "a \<le> b"
  shows "\<exists>r st'. pull_newest (newest flt a) keep limit (Some b) [] st = Some (r, st')
    \<and> (\<forall>out. r = Inr out \<longrightarrow> truthful flt \<longrightarrow> newest_of limit out = newest_of limit (dec (logs_between (chain flt) a b)))"
proof -
  have "unat a \<le> Suc (unat b)" using assms(6) by (simp add: word_le_nat_alt)
  then obtain r st' where p: "pull_newest (newest flt a) keep limit (Some b) [] st = Some (r, st')"
      "\<forall>out. r = Inr out \<longrightarrow> truthful flt \<longrightarrow> (\<exists>m. unat a \<le> m \<and> m \<le> Suc (unat b) \<and> out = dec (logs_from (chain flt) m (Suc (unat b)))
         \<and> (limit \<le> length out \<or> m = unat a))"
    using pull_suffix[where keep = keep and dec = dec and st = st, OF assms(1-3,5), where a = a and high = "Some b" and last_read = "Suc (unat b)" and flt = flt and acc = "[]" and limit = limit] assms(4) by (auto simp: read_above_def)
  have "newest_of limit out = newest_of limit (dec (logs_between (chain flt) a b))" if out: "r = Inr out" and t: "truthful flt" for out
  proof -
    obtain m where m: "unat a \<le> m" "m \<le> Suc (unat b)" "out = dec (logs_from (chain flt) m (Suc (unat b)))"
        "limit \<le> length out \<or> m = unat a" using p(2) out t by blast
    have "dec (logs_between (chain flt) a b) = dec (logs_from (chain flt) (unat a) m) @ out"
      using logs_from_join[OF m(1,2), of "chain flt"] by (simp add: logs_between_def m(3) assms(3)[symmetric])
    then show ?thesis using m(3,4) assms(4) by (auto simp: newest_of_append)
  qed
  then show ?thesis using p(1) by blast
qed

end

interpretation newest: newest_source "scan_newest retry_err get_logs" chain "\<lambda>flt. honest (chain flt) get_logs flt"
  for retry_err get_logs chain
proof
  fix high :: "u64 option" and a flt and st :: "shared_widths \<times> 'a"
  assume "high = None \<or> (\<exists>h. high = Some h \<and> h < a)"
  then show "scan_newest retry_err get_logs flt a high st = Some (Inr None, st)" by (auto simp: scan_newest_def)
next
  fix a h :: u64 and flt and st :: "shared_widths \<times> 'a"
  show "a \<le> h \<Longrightarrow> shared_ok (fst st) \<Longrightarrow> \<exists>r st'. scan_newest retry_err get_logs flt a (Some h) st = Some (r, st') \<and> shared_ok (fst st')
      \<and> r \<noteq> Inr None \<and> (\<forall>chunk rest. r = Inr (Some (chunk, rest)) \<longrightarrow> (\<exists>low. a \<le> low \<and> low \<le> h \<and> rest = checked_sub low 1
          \<and> (honest (chain flt) get_logs flt \<longrightarrow> chunk = logs_between (chain flt) low h)))"
  proof -
    assume ok: "a \<le> h" "shared_ok (fst st)"
    obtain r w n where r: "newest_request retry_err get_logs flt a h st = Some (r, w, n)" "shared_ok w"
        "\<forall>chunk rest. r = Inr (chunk, rest) \<longrightarrow> (\<exists>low. a \<le> low \<and> low \<le> h \<and> rest = checked_sub low 1
          \<and> (honest (chain flt) get_logs flt \<longrightarrow> chunk = logs_between (chain flt) low h))"
      using newest_request_delivers[OF ok, of retry_err get_logs flt "chain flt"] by blast
    then have "scan_newest retry_err get_logs flt a (Some h) st = Some (map_sum id Some r, w, n)" using ok by (simp add: scan_newest_def)
    moreover have "map_sum id Some r \<noteq> Inr None" by (cases r) simp_all
    ultimately show ?thesis using r(2,3) by (intro exI[of _ "map_sum id Some r"] exI[of _ "(w, n)"]) (cases r; auto)
  qed
qed

end
