(* ===== verification/Read_Properties.thy ===== *)
theory Read_Properties
  imports History_Reads
begin

text \<open>
  The properties of the readers over a node that answers truthfully: a market's tape is everything the chain says about it, the
  newest events and prints are the end of all of them, and a recording stands as long as the chain it was made from does.
\<close>

subsection \<open>A node and a chain to try them on\<close>

definition sample_log :: "u64 \<Rightarrow> u64 \<Rightarrow> u64 option \<Rightarrow> chain_log" where
  "sample_log block index timestamp =
     \<lparr>cl_mined = \<lparr>ml_block_number = Some block, ml_block_hash = Some (ucast block), ml_log_index = Some index, ml_tx_hash = Some 7\<rparr>,
      cl_timestamp = timestamp, cl_address = 1, cl_topic1 = None,
      cl_raw = \<lparr>rl_topics = 1, rl_is_transfer = False,
        rl_decoded = (if index = 2 then Inl () else Inr (RawIndexUpdated (ucast block))), rl_known = True\<rparr>,
      cl_print = Some (ucast block), cl_transfer = None\<rparr>"

text \<open>Logs of the market, one without a timestamp and one that will not decode, and one of the pool.\<close>

definition sample_contents :: "log_filter \<Rightarrow> nat \<Rightarrow> chain_log list" where
  "sample_contents flt k =
     (if k = 5 then (if lf_topic1 flt = [] then [sample_log 5 0 None] else [sample_log 5 1 (Some 50)])
      else if k = 7 then (if lf_topic1 flt = [] then [sample_log 7 2 (Some 70)] else [])
     else if k = 9 then (if lf_topic1 flt = [] then [sample_log 9 0 (Some 90)] else []) else [])"

definition truthful_node :: "(log_filter, chain_log, nat) get_logs" where
  "truthful_node flt a b n =
     (if uint b - uint a \<ge> 4 then (Inl (HttpError 413), n + 1) else (Inr (logs_between (sample_contents flt) a b), n + 1))"

definition sample_header :: header_of where
  "sample_header number = Inr (Some \<lparr>block_number = number, block_hash = ucast number, block_timestamp = 10 * number\<rparr>)"

definition sample_addresses :: tape_addresses where
  "sample_addresses = \<lparr>ta_perp = 1, ta_beacon = 2, ta_pool_manager = 3, ta_pool_id = 4\<rparr>"

lemma truthful_node_ok:
  "honest (sample_contents flt) truthful_node flt" "serves (\<lambda>_ _. False) truthful_node flt"
  by (auto simp: honest_def serves_def truthful_node_def word_less_def split: if_splits)

lemma sample_blocks: "l \<in> set (sample_contents flt k) \<Longrightarrow> cl_block l = Some (of_nat k)"
  by (auto simp: sample_contents_def sample_log_def split: if_splits)

subsection \<open>A market's tape\<close>

definition market_contents ::
  "(log_filter \<Rightarrow> nat \<Rightarrow> chain_log list) \<Rightarrow> log_filter \<times> log_filter \<Rightarrow> u64 \<Rightarrow> u64 \<Rightarrow> chain_log list" where
  "market_contents chain filters a b =
     chain_order (logs_between (chain (fst filters)) a b @ logs_between (chain (snd filters)) a b)"

text \<open>A row that says what its log says: its place, its time and its event.\<close>

definition row_says :: "header_of \<Rightarrow> chain_log \<times> market_event \<Rightarrow> tape_event \<Rightarrow> bool" where
  "row_says header d row \<longleftrightarrow>
     cl_mined (fst d) = \<lparr>ml_block_number = Some (te_block_number row), ml_block_hash = Some (te_block_hash row),
       ml_log_index = Some (te_log_index row), ml_tx_hash = Some (te_tx_hash row)\<rparr>
     \<and> time_of header (fst d) = Inr (te_timestamp row) \<and> te_event row = snd d"

lemma stamped_Inr:
  "stamped l ev t = Inr row \<longleftrightarrow>
   l = \<lparr>ml_block_number = Some (te_block_number row), ml_block_hash = Some (te_block_hash row),
       ml_log_index = Some (te_log_index row), ml_tx_hash = Some (te_tx_hash row)\<rparr> \<and> te_timestamp row = t \<and> te_event row = ev"
  by (cases l; cases row) (auto simp: stamped_def split: option.splits)

lemma row_in_says: "row_in header d = Inr row \<longleftrightarrow> row_says header d row"
  by (auto simp: row_in_def row_says_def try_bind_Inr stamped_Inr)

text \<open>C34: A market's tape over a range, read through the adaptive scan from a node that answers truthfully, is what the chain
  says about the market: the logs of the perp, the beacon and the pool put in one chain order, a row for each of them the
  vocabulary covers, with its place, its block's time and its event, none missing, repeated or out of order; and the logs that
  would not decode are on the count of gaps, one for each.\<close>

theorem market_tape_of_the_chain:
  assumes "\<forall>flt. honest (chain flt) get_logs flt" "shared_ok w" "tape_filters addresses = Inr filters"
    and "market_tape_with (scan_all retry_err get_logs) header addresses from_block to_block (w, n) = Some (Inr tape, w', n')"
  shows "tape_ok tape
    \<and> list_all2 (row_says header) (List.map_filter decoded (market_contents chain filters from_block to_block)) tape
    \<and> ss_undecodable (sw_stats w') = ss_undecodable (sw_stats w)
        + of_nat (length (filter will_not_decode (market_contents chain filters from_block to_block)))"
proof -
  obtain mkt pool where f: "filters = (mkt, pool)" by (cases filters)
  have "shared_ok (fst (w, n))" "tape_filters addresses = Inr (mkt, pool)" using assms(2,3) f by simp_all
  note rows = scanned.market_tape_rows[OF this(1) spec[OF assms(1), of mkt] spec[OF assms(1), of pool] this(2) assms(4)]
  then show ?thesis unfolding row_in_says market_contents_def f by simp
qed

lemma answered: "(case m of Some (Inr x, s) \<Rightarrow> P x | _ \<Rightarrow> False) \<Longrightarrow> \<exists>x s. m = Some (Inr x, s) \<and> P x"
  by (cases m) (auto split: sum.splits)

lemma sample_market_tape:
  "case market_tape_with (scan_all (\<lambda>_ _. False) truthful_node) sample_header sample_addresses 4 9 (shared_widths_new, 0)
     of Some (Inr tape, st) \<Rightarrow> length tape = 3 | _ \<Rightarrow> False"
  by code_simp

theorem market_tape_of_the_chain_witness:
  "\<exists>tape. length tape = 3 \<and> tape_ok tape
     \<and> (\<forall>filters. tape_filters sample_addresses = Inr filters \<longrightarrow>
          list_all2 (row_says sample_header) (List.map_filter decoded (market_contents sample_contents filters 4 9)) tape)"
proof -
  obtain tape w n where t: "length tape = 3"
      "market_tape_with (scan_all (\<lambda>_ _. False) truthful_node) sample_header sample_addresses 4 9 (shared_widths_new, 0) = Some (Inr tape, w, n)"
    using answered[OF sample_market_tape] by auto
  obtain filters where f: "tape_filters sample_addresses = Inr filters" by (simp add: tape_filters_def sample_addresses_def)
  have "\<forall>flt. honest (sample_contents flt) truthful_node flt" by (simp add: truthful_node_ok)
  from market_tape_of_the_chain[OF this shared_ok_new f t(2)] t(1) f show ?thesis by auto
qed

subsection \<open>The newest of them\<close>

lemma decode_known_fields:
  "fst (decode_known c st) = List.map_filter decoded c"
  "shared_ok (fst st) \<Longrightarrow> shared_ok (fst (snd (decode_known c st)))"
  by (simp_all add: decode_known_def Let_def undecodable_def shared_ok_def)

lemma map_filter_append: "List.map_filter f (xs @ ys) = List.map_filter f xs @ List.map_filter f ys"
  by (simp add: List.map_filter_def)

lemma newest_of_functional:
  assumes "list_all2 (\<lambda>x y. f x = Inr y) xs us" "list_all2 (\<lambda>x y. f x = Inr y) ys vs" "newest_of limit xs = newest_of limit ys"
  shows "newest_of limit us = newest_of limit vs"
  using newest_of_rel[OF assms(1), of limit] newest_of_rel[OF assms(2), of limit] assms(3) by (auto intro: try_map_eq)

text \<open>C35: Reading a market's newest events from the top of a range down, stopping as soon as enough have been decoded, gives what
  reading the whole range and keeping its end gives, however the requests were narrowed and wherever the undecodable logs lie.\<close>

theorem latest_events_are_the_tail:
  assumes "\<forall>flt. honest (chain flt) get_logs flt" "shared_ok w" "shared_ok w1"
    and "market_events_with (scan_all retry_err get_logs) header perp_address from_block to_block (w, n) = Some (Inr tape, st)"
    and "latest_market_events_with (scan_newest retry_err get_logs) header perp_address from_block to_block limit (w1, n1) = Some (Inr newest, st1)"
  shows "newest = newest_of limit tape"
proof -
  obtain flt where f: "perp_filter perp_address = Inr flt" using assms(4) by (cases "perp_filter perp_address") (simp_all add: market_events_with_def)
  have h: "honest (chain flt) get_logs flt" using assms(1) by blast
  obtain logs s where l: "scan_all retry_err get_logs flt from_block to_block (w, n) = Some (Inr logs, s)"
      "decoded_tape header logs s = Some (Inr tape, st)"
    using assms(4) by (auto simp: market_events_with_def f read_bind_Inr)
  have e: "from_block \<le> to_block" "logs = logs_between (chain flt) from_block to_block"
    using scanned.scan_exact[where chain = chain and st = "(w, n)", OF _ h l(1)] assms(2) by simp_all
  have "tape_rows header (List.map_filter decoded logs) = Inr tape"
    using l(2) decode_known_fields(1)[of logs s] by (simp add: decoded_tape_def case_prod_beta)
  then have rows: "list_all2 (\<lambda>d row. row_in header d = Inr row) (List.map_filter decoded logs) tape"
    by (blast dest: tape_rows_Inr)
  show ?thesis
  proof (cases "limit = 0")
    case True
    then have "newest = []" using assms(5) by (simp add: latest_market_events_with_def f check_block_range_def split: if_splits)
    then show ?thesis using True by (simp add: newest_of_def)
  next
    case False
    then obtain ds s1 where d: "pull_newest (scan_newest retry_err get_logs flt from_block) decode_known limit (Some to_block) [] (w1, n1) = Some (Inr ds, s1)"
        "try_bind (tape_rows header ds) (\<lambda>events. new_tape (newest_of limit events)) = Inr newest"
      using assms(5) e(1) by (auto simp: latest_market_events_with_def f check_block_range_def read_bind_Inr)
    have "newest_of limit ds = newest_of limit (List.map_filter decoded logs)"
      using newest.pull_newest_tail[where keep = decode_known and dec = "List.map_filter decoded" and st = "(w1, n1)" and chain = chain
          and flt = flt and limit = limit and a = from_block and b = to_block and retry_err = retry_err and get_logs = get_logs,
          OF decode_known_fields map_filter_append map_filter_simps(1)]
        d(1) h e assms(3) by auto
    moreover obtain events where ev: "tape_rows header ds = Inr events" "newest = newest_of limit events"
      using d(2) by (auto simp: try_bind_Inr new_tape_Inr)
    ultimately show ?thesis using newest_of_functional[OF conjunct2[OF tape_rows_Inr[OF ev(1)]] rows] by simp
  qed
qed

lemma sample_events:
  "case market_events_with (scan_all (\<lambda>_ _. False) truthful_node) sample_header 1 2 10 (shared_widths_new, 0)
     of Some (Inr tape, st) \<Rightarrow> map te_block_number tape = [5, 9] | _ \<Rightarrow> False"
  by code_simp

lemma sample_newest:
  "case latest_market_events_with (scan_newest (\<lambda>_ _. False) truthful_node) sample_header 1 2 10 1 (shared_widths_new, 0)
     of Some (Inr tape, st) \<Rightarrow> map te_block_number tape = [9] | _ \<Rightarrow> False"
  by code_simp

theorem latest_events_are_the_tail_witness:
  "\<exists>tape newest :: tape_event list. map te_block_number tape = [5, 9] \<and> map te_block_number newest = [9] \<and> newest = newest_of 1 tape"
proof -
  obtain tape st where t: "market_events_with (scan_all (\<lambda>_ _. False) truthful_node) sample_header 1 2 10 (shared_widths_new, 0) = Some (Inr tape, st)"
      "map te_block_number tape = [5, 9]"
    using answered[OF sample_events] by (elim exE conjE)
  obtain newest st1 where u: "latest_market_events_with (scan_newest (\<lambda>_ _. False) truthful_node) sample_header 1 2 10 1 (shared_widths_new, 0) = Some (Inr newest, st1)"
      "map te_block_number newest = [9]"
    using answered[OF sample_newest] by (elim exE conjE)
  have "\<forall>flt. honest (sample_contents flt) truthful_node flt" by (simp add: truthful_node_ok)
  from latest_events_are_the_tail[OF this shared_ok_new shared_ok_new t(1) u(1)] t(2) u(2)
  show ?thesis by (intro exI[of _ tape] exI[of _ newest] conjI)
qed

text \<open>The prints of a beacon the same way.\<close>

theorem latest_prints_are_the_tail:
  assumes "\<forall>flt. honest (chain flt) get_logs flt" "shared_ok w" "shared_ok w1"
    and "beacon_prints_with (scan_all retry_err get_logs) header beacon from_block to_block (w, n) = Some (Inr prints, st)"
    and "latest_beacon_prints_with (scan_newest retry_err get_logs) header beacon from_block to_block limit (w1, n1) = Some (Inr newest, st1)"
  shows "newest = newest_of limit prints"
proof -
  obtain flt where f: "index_updated_filter beacon = Inr flt"
    using assms(4) by (cases "index_updated_filter beacon") (simp_all add: beacon_prints_with_def)
  have h: "honest (chain flt) get_logs flt" using assms(1) by blast
  obtain logs s where l: "scan_all retry_err get_logs flt from_block to_block (w, n) = Some (Inr logs, s)"
      "with_timestamps header logs = Inr prints"
    using assms(4) by (auto simp: beacon_prints_with_def f read_bind_Inr)
  have e: "from_block \<le> to_block" "logs = logs_between (chain flt) from_block to_block"
    using scanned.scan_exact[where chain = chain and st = "(w, n)", OF _ h l(1)] assms(2) by simp_all
  show ?thesis
  proof (cases "limit = 0")
    case True
    then have "newest = []" using assms(5) by (simp add: latest_beacon_prints_with_def f check_block_range_def split: if_splits)
    then show ?thesis using True by (simp add: newest_of_def)
  next
    case False
    then obtain got s1 where d: "pull_newest (scan_newest retry_err get_logs flt from_block) Pair limit (Some to_block) [] (w1, n1) = Some (Inr got, s1)"
        "with_timestamps header (newest_of limit got) = Inr newest"
      using assms(5) e(1) by (auto simp: latest_beacon_prints_with_def f check_block_range_def read_bind_Inr)
    have "newest_of limit got = newest_of limit logs"
      using newest.pull_newest_tail[where keep = Pair and dec = "\<lambda>c. c" and st = "(w1, n1)" and chain = chain
          and flt = flt and limit = limit and a = from_block and b = to_block and retry_err = retry_err and get_logs = get_logs]
        d(1) h e assms(3) by auto
    then have "list_all2 (\<lambda>l y. print_in header l = Inr y) (newest_of limit logs) newest"
      using with_timestamps_Inr[OF d(2)] by simp
    moreover have "list_all2 (\<lambda>l y. print_in header l = Inr y) (newest_of limit logs) (newest_of limit prints)"
      using newest_of_rel[OF with_timestamps_Inr[OF l(2)]] .
    ultimately show ?thesis by (rule try_map_eq)
  qed
qed

subsection \<open>Recordings\<close>

lemma stamp_in_keeps [simp]:
  "cl_mined (stamp_in header l) = cl_mined l" "cl_raw (stamp_in header l) = cl_raw l"
  by (auto simp: stamp_in_def split: option.split)

lemma filter_map_keep: "(\<And>x. P (f x) = P x) \<Longrightarrow> filter P (map f xs) = map f (filter P xs)"
  by (induction xs) simp_all

text \<open>Of a range's logs, those from a later block on are the logs of the rest of the range.\<close>

lemma logs_from_later:
  assumes "\<And>k l. l \<in> set (chain k) \<Longrightarrow> cl_block l = Some (of_nat k)" "a \<le> c" "c \<le> b"
  shows "filter (\<lambda>l. case cl_block l of Some n \<Rightarrow> c \<le> n | None \<Rightarrow> False) (logs_between chain a b) = logs_between chain c b"
proof -
  let ?P = "\<lambda>l. case cl_block l of Some n \<Rightarrow> c \<le> n | None \<Rightarrow> False"
  have fits: "unat (of_nat k :: u64) = k" if "k \<le> unat b" for k
    using le_less_trans[OF that unsigned_less[of b]] by (simp add: unsigned_of_nat take_bit_nat_eq_self)
  have block: "?P l \<longleftrightarrow> unat c \<le> k" if "l \<in> set (chain k)" "k \<le> unat b" for l k
    using assms(1)[OF that(1)] fits[OF that(2)] by (simp add: word_le_nat_alt)
  have le: "unat a \<le> unat c" "unat c \<le> Suc (unat b)" using assms(2,3) by (simp_all add: word_le_nat_alt)
  have "filter ?P (logs_from chain (unat a) (unat c)) = []"
    using le block unfolding logs_from_def by (fastforce simp: filter_empty_conv)
  moreover have "filter ?P (logs_from chain (unat c) (Suc (unat b))) = logs_from chain (unat c) (Suc (unat b))"
    using le block unfolding logs_from_def by (fastforce simp: filter_id_conv)
  ultimately show ?thesis
    unfolding logs_between_def logs_from_join[OF le, symmetric] by simp
qed

definition recording_of ::
  "(log_filter \<Rightarrow> nat \<Rightarrow> chain_log list) \<Rightarrow> header_of \<Rightarrow> log_filter \<times> log_filter \<Rightarrow> u64 \<Rightarrow> u64 \<Rightarrow> chain_log list" where
  "recording_of chain header filters a b = map (stamp_in header) (market_contents chain filters a b)"

lemma recorded_logs:
  assumes "\<forall>flt. honest (chain flt) get_logs flt" "shared_ok w" "tape_filters addresses = Inr filters"
    "market_logs_with (scan_all retry_err get_logs) addresses a b (w, n) = Some (Inr logs, st)" "stamp_timestamps header logs = Inr out"
  shows "a \<le> b \<and> out = recording_of chain header filters a b"
proof -
  obtain mkt pool where f: "filters = (mkt, pool)" by (cases filters)
  have "shared_ok (fst (w, n))" "tape_filters addresses = Inr (mkt, pool)" using assms(2,3) f by simp_all
  note l = scanned.market_logs[OF this(1) spec[OF assms(1), of mkt] spec[OF assms(1), of pool] this(2) assms(4)]
  then show ?thesis using stamp_timestamps_Inr[OF assms(5)] by (simp add: recording_of_def market_contents_def f)
qed

lemma recording_of_later:
  assumes "\<forall>flt k l. l \<in> set (chain flt k) \<longrightarrow> cl_block l = Some (of_nat k)" "a \<le> c" "c \<le> b"
  shows "filter (\<lambda>l. case cl_block l of Some n \<Rightarrow> c \<le> n | None \<Rightarrow> False) (recording_of chain header filters a b)
    = recording_of chain header filters c b"
  using assms logs_from_later[of "chain (fst filters)" a c b] logs_from_later[of "chain (snd filters)" a c b]
  by (simp add: recording_of_def market_contents_def chain_order_def filter_map_keep filter_sort)

lemma record_market_says:
  assumes "\<forall>flt. honest (chain flt) get_logs flt" "shared_ok w"
    "record_market hash_of (scan_all retry_err get_logs) header h head chain_id now version addresses a (Some b) (w, n) = Some (Inr r, st)"
  shows "\<exists>filters. tape_filters addresses = Inr filters \<and> a \<le> b \<and> rg_logs r = recording_of chain header filters a b
    \<and> mf_addresses (rg_manifest r) = addresses \<and> mf_from_block (rg_manifest r) = a \<and> mf_to_block (rg_manifest r) = b
    \<and> header_hash header b = Inr (mf_tip_hash (rg_manifest r))"
proof -
  obtain logs s where l: "market_logs_with (scan_all retry_err get_logs) addresses a b (w, n) = Some (Inr logs, s)"
      "stamp_timestamps header logs = Inr (rg_logs r)" "header_hash header b = Inr (mf_tip_hash (rg_manifest r))"
      "mf_addresses (rg_manifest r) = addresses" "mf_from_block (rg_manifest r) = a" "mf_to_block (rg_manifest r) = b"
    using assms(3) by (auto simp: record_market_def history_resolve_def read_bind_Inr try_bind_Inr)
  obtain filters where f: "tape_filters addresses = Inr filters"
    using l(1) by (cases "tape_filters addresses") (simp_all add: market_logs_with_def)
  show ?thesis using recorded_logs[OF assms(1,2) f l(1,2)] f l(3-6) by blast
qed

lemma check_tail_holds:
  assumes chain: "\<forall>flt. honest (chain flt) get_logs flt" "\<forall>flt k l. l \<in> set (chain flt k) \<longrightarrow> cl_block l = Some (of_nat k)"
    and ok: "shared_ok w" and r: "tape_filters (mf_addresses (rg_manifest r)) = Inr filters"
    "mf_from_block (rg_manifest r) \<le> mf_to_block (rg_manifest r)"
    "rg_logs r = recording_of chain header filters (mf_from_block (rg_manifest r)) (mf_to_block (rg_manifest r))"
    "header_hash header (mf_to_block (rg_manifest r)) = Inr (mf_tip_hash (rg_manifest r))"
    and c: "check_tail (scan_all retry_err get_logs) header blocks r (w, n) = Some (Inr c, st)"
  shows "tail_holds c \<and> tc_recorded c = tc_rescanned c"
proof -
  let ?b = "mf_to_block (rg_manifest r)"
  define a where "a = max (saturating_sub ?b (saturating_sub blocks 1)) (mf_from_block (rg_manifest r))"
  let ?recorded = "filter (\<lambda>l. case cl_block l of Some b \<Rightarrow> a \<le> b | None \<Rightarrow> False) (rg_logs r)"
  obtain logs s out where l: "market_logs_with (scan_all retry_err get_logs) (mf_addresses (rg_manifest r)) a ?b (w, n) = Some (Inr logs, s)"
      "stamp_timestamps header logs = Inr out" "tc_tip_hash_matches c"
      "tc_logs_match c = (length ?recorded = length out \<and> list_all2 (=) ?recorded out)"
      "tc_recorded c = length ?recorded" "tc_rescanned c = length out"
    using c r(4) unfolding check_tail_def Let_def a_def[symmetric] by (auto simp: read_bind_Inr try_bind_Inr)
  have out: "a \<le> ?b" "out = recording_of chain header filters a ?b" using recorded_logs[OF chain(1) ok r(1) l(1,2)] by simp_all
  have "?recorded = out" unfolding r(3) out(2)
    by (rule recording_of_later[OF chain(2) _ out(1)]) (simp add: a_def)
  then show ?thesis using l(3-6) by (simp add: tail_holds_def list.rel_eq)
qed

lemma recorded_rows:
  "list_all2 (\<lambda>l row. recorded_row (stamp_in header l) = Inr row) logs rows \<Longrightarrow>
   list_all2 (\<lambda>d row. row_in header d = Inr row) (List.map_filter decoded logs) (List.map_filter id rows)"
proof (induction logs arbitrary: rows)
  case (Cons l logs)
  then obtain row rows' where r: "rows = row # rows'" "recorded_row (stamp_in header l) = Inr row"
      "list_all2 (\<lambda>l row. recorded_row (stamp_in header l) = Inr row) logs rows'"
    by (auto simp: list_all2_Cons1)
  note ih = Cons.IH[OF r(3)]
  obtain e where e: "decode_log (cl_raw l) = Inr e" using r(2) by (auto simp: recorded_row_def try_bind_Inr)
  show ?case
  proof (cases e)
    case None
    then show ?thesis using r(1,2) ih e by (simp add: recorded_row_def invalid_def decoded_def map_filter_simps)
  next
    case (Some ev)
    then obtain t row' where t: "cl_timestamp (stamp_in header l) = Some t" "stamped (cl_mined l) ev t = Inr row'" "row = Some row'"
      using r(2) e by (auto simp: recorded_row_def invalid_def try_bind_Inr split: option.splits sum.splits)
    have "time_of header l = Inr t"
      using t(1) by (auto simp: stamp_in_def time_of_def split: option.splits sum.splits)
    then show ?thesis using r(1) ih e Some t by (simp add: decoded_def map_filter_simps row_in_def)
  qed
qed (simp add: map_filter_simps)

lemma recording_tape_rows:
  assumes "recording_tape r = Inr tape" "rg_logs r = recording_of chain header filters a b"
  shows "list_all2 (\<lambda>d row. row_in header d = Inr row) (List.map_filter decoded (market_contents chain filters a b)) tape"
proof -
  obtain rows where rows: "try_map recorded_row (rg_logs r) = Inr rows" "tape = List.map_filter id rows"
    using assms(1) by (auto simp: recording_tape_def try_bind_Inr new_tape_Inr)
  then show ?thesis using recorded_rows by (simp add: try_map_Inr assms(2) recording_of_def list_all2_map1)
qed

text \<open>C36: A recording stands as long as its chain does: recording a market and then checking the recording's end, over any
  number of blocks, against the same chain finds the header's hash and exactly the logs recorded there, in whatever
  widths either scan was answered; and the tape decoded from the recording with no node is the tape the node gives.\<close>

theorem recording_stands:
  assumes "\<forall>flt. honest (chain flt) get_logs flt" "\<forall>flt k l. l \<in> set (chain flt k) \<longrightarrow> cl_block l = Some (of_nat k)"
    and "shared_ok w" "shared_ok w1" "shared_ok w2"
    and "record_market hash_of (scan_all retry_err get_logs) header h head chain_id now version addresses from_block (Some to_block) (w, n)
      = Some (Inr r, st)"
    and "check_tail (scan_all retry_err get_logs) header blocks r (w1, n1) = Some (Inr c, st1)"
    and "recording_tape r = Inr tape"
    and "market_tape_with (scan_all retry_err get_logs) header addresses from_block to_block (w2, n2) = Some (Inr tape', st2)"
  shows "tail_holds c \<and> tc_recorded c = tc_rescanned c \<and> tape' = tape"
proof -
  obtain filters where r: "tape_filters addresses = Inr filters" "from_block \<le> to_block"
      "rg_logs r = recording_of chain header filters from_block to_block"
      "mf_addresses (rg_manifest r) = addresses" "mf_from_block (rg_manifest r) = from_block" "mf_to_block (rg_manifest r) = to_block"
      "header_hash header to_block = Inr (mf_tip_hash (rg_manifest r))"
    using record_market_says[OF assms(1,3,6)] by blast
  have "tail_holds c \<and> tc_recorded c = tc_rescanned c"
    using check_tail_holds[OF assms(1,2,4) _ _ _ _ assms(7), of filters] r by simp
  moreover obtain mkt pool where f: "filters = (mkt, pool)" by (cases filters)
  have ok: "shared_ok (fst (w2, n2))" "tape_filters addresses = Inr (mkt, pool)" using assms(5) r(1) f by simp_all
  have "list_all2 (\<lambda>d row. row_in header d = Inr row) (List.map_filter decoded (market_contents chain filters from_block to_block)) tape'"
    using scanned.market_tape_rows[OF ok(1) spec[OF assms(1), of mkt] spec[OF assms(1), of pool] ok(2) assms(9)]
    by (simp add: market_contents_def f)
  then have "tape' = tape" using recording_tape_rows[OF assms(8) r(3)] by (rule try_map_eq)
  ultimately show ?thesis by simp
qed

definition sample_record :: "(recording, shared_widths \<times> nat) reads" where
  "sample_record = record_market (\<lambda>_. 0) (scan_all (\<lambda>_ _. False) truthful_node) sample_header history_new (Inr 20) (Inr 1) 100 ''1''
     sample_addresses 4 (Some 6)"

lemma sample_recorded:
  "case sample_record (shared_widths_new, 0) of
     Some (Inr r, st) \<Rightarrow>
       (case check_tail (scan_all (\<lambda>_ _. False) truthful_node) sample_header 2 r (shared_widths_new, 1) of
          Some (Inr c, st) \<Rightarrow> tc_rescanned c = 2 | _ \<Rightarrow> False)
       \<and> (case recording_tape r of Inr tape \<Rightarrow> map te_timestamp tape = [50, 50] | Inl _ \<Rightarrow> False)
   | _ \<Rightarrow> False"
  by code_simp

lemma sample_recorded_market:
  "case market_tape_with (scan_all (\<lambda>_ _. False) truthful_node) sample_header sample_addresses 4 6 (shared_widths_new, 2)
     of Some (Inr tape, st) \<Rightarrow> map te_timestamp tape = [50, 50] | _ \<Rightarrow> False"
  by code_simp

theorem recording_stands_witness:
  "\<exists>r c tape st st1. sample_record (shared_widths_new, 0) = Some (Inr r, st)
     \<and> check_tail (scan_all (\<lambda>_ _. False) truthful_node) sample_header 2 r (shared_widths_new, 1) = Some (Inr c, st1)
     \<and> recording_tape r = Inr tape \<and> map te_timestamp tape = [50, 50] \<and> tail_holds c \<and> tc_recorded c = 2"
proof -
  obtain r st where r: "sample_record (shared_widths_new, 0) = Some (Inr r, st)"
      "case check_tail (scan_all (\<lambda>_ _. False) truthful_node) sample_header 2 r (shared_widths_new, 1) of
          Some (Inr c, st) \<Rightarrow> tc_rescanned c = 2 | _ \<Rightarrow> False"
      "case recording_tape r of Inr tape \<Rightarrow> map te_timestamp tape = [50, 50] | Inl _ \<Rightarrow> False"
    using answered[OF sample_recorded] by (elim exE conjE)
  obtain c st1 where c: "check_tail (scan_all (\<lambda>_ _. False) truthful_node) sample_header 2 r (shared_widths_new, 1) = Some (Inr c, st1)"
      "tc_rescanned c = 2"
    using answered[OF r(2)] by (elim exE conjE)
  obtain tape where t: "recording_tape r = Inr tape" "map te_timestamp tape = [50, 50]"
    using r(3) by (cases "recording_tape r") simp_all
  obtain tape' st2 where m: "market_tape_with (scan_all (\<lambda>_ _. False) truthful_node) sample_header sample_addresses 4 6 (shared_widths_new, 2) = Some (Inr tape', st2)"
    using answered[OF sample_recorded_market] by (elim exE conjE)
  have "\<forall>flt. honest (sample_contents flt) truthful_node flt"
    "\<forall>flt k l. l \<in> set (sample_contents flt k) \<longrightarrow> cl_block l = Some (of_nat k)"
    using truthful_node_ok sample_blocks by blast+
  from recording_stands[OF this shared_ok_new shared_ok_new shared_ok_new r(1)[unfolded sample_record_def] c(1) t(1) m]
  show ?thesis using r(1) c t by (intro exI[of _ r] exI[of _ c] exI[of _ tape] exI[of _ st] exI[of _ st1]) simp
qed

end
