(* ===== verification/Latency_Tracker.thy ===== *)
theory Latency_Tracker
  imports SDK_Prelude "HOL-Library.Multiset"
begin

text \<open>
  \<open>src/src/hft/latency.rs\<close>: the rolling window of latencies, a ring of the last 1024 samples with counters over all of them.
  An index of the ring is a \<open>nat\<close>; what is recorded and counted keeps its width.
\<close>

subsection \<open>The code\<close>

definition MAX_SAMPLES :: nat where "MAX_SAMPLES = 1024"

record latency_stats =
  ls_count :: u64
  ls_min_ns :: u64
  ls_max_ns :: u64
  ls_avg_ns :: u64
  ls_p50_ns :: u64
  ls_p95_ns :: u64
  ls_p99_ns :: u64

record latency_tracker =
  lt_samples :: "u64 list"
  lt_sample_count :: nat
  lt_write_index :: nat
  lt_total_count :: u64
  lt_min_ns :: u64
  lt_max_ns :: u64

definition tracker_new :: latency_tracker where
  "tracker_new = \<lparr>lt_samples = replicate MAX_SAMPLES 0, lt_sample_count = 0, lt_write_index = 0, lt_total_count = 0,
     lt_min_ns = - 1, lt_max_ns = 0\<rparr>"

definition tracker_record :: "latency_tracker \<Rightarrow> u64 \<Rightarrow> latency_tracker" where
  "tracker_record t latency_ns =
     (let idx = lt_write_index t AND (MAX_SAMPLES - 1)
      in t\<lparr>lt_samples := (lt_samples t)[idx := latency_ns],
           lt_write_index := idx + 1,
           lt_sample_count := (if lt_sample_count t < MAX_SAMPLES then lt_sample_count t + 1 else lt_sample_count t),
           lt_total_count := lt_total_count t + 1,
           lt_min_ns := min (lt_min_ns t) latency_ns,
           lt_max_ns := max (lt_max_ns t) latency_ns\<rparr>)"

definition record_elapsed :: "latency_tracker \<Rightarrow> u64 \<Rightarrow> u64 \<Rightarrow> u64 \<times> latency_tracker" where
  "record_elapsed t start_ns end_ns = (let elapsed = saturating_sub end_ns start_ns in (elapsed, tracker_record t elapsed))"

definition percentile :: "u64 list \<Rightarrow> nat \<Rightarrow> u64" where
  "percentile sorted_ns p =
     (let n = length sorted_ns; rank = (n * p + 99) div 100 in sorted_ns ! min (rank - 1) (n - 1))"

definition tracker_stats :: "latency_tracker \<Rightarrow> latency_stats option" where
  "tracker_stats t =
     (if lt_sample_count t = 0 then None
      else let n = lt_sample_count t;
               sorted_ns = sort (take n (lt_samples t));
               window_sum = (\<Sum>x\<leftarrow>sorted_ns. ucast x :: u128)
           in Some \<lparr>ls_count = lt_total_count t, ls_min_ns = lt_min_ns t, ls_max_ns = lt_max_ns t,
                ls_avg_ns = ucast (window_sum div of_nat n),
                ls_p50_ns = percentile sorted_ns 50, ls_p95_ns = percentile sorted_ns 95,
                ls_p99_ns = percentile sorted_ns 99\<rparr>)"

definition tracker_reset :: "latency_tracker \<Rightarrow> latency_tracker" where
  "tracker_reset t = tracker_new"

subsection \<open>The ring holds the last samples\<close>

definition last_samples :: "u64 list \<Rightarrow> u64 list" where
  "last_samples xs = drop (length xs - MAX_SAMPLES) xs"

definition ring_ok :: "u64 list \<Rightarrow> latency_tracker \<Rightarrow> bool" where
  "ring_ok xs t \<longleftrightarrow>
     length (lt_samples t) = MAX_SAMPLES \<and> lt_sample_count t = min (length xs) MAX_SAMPLES
     \<and> lt_write_index t mod MAX_SAMPLES = length xs mod MAX_SAMPLES
     \<and> (if length xs < MAX_SAMPLES then take (length xs) (lt_samples t) = xs
        else rotate (length xs mod MAX_SAMPLES) (lt_samples t) = last_samples xs)
     \<and> lt_total_count t = of_nat (length xs)
     \<and> lt_min_ns t = foldl min (- 1) xs \<and> lt_max_ns t = foldl max 0 xs"

lemma masked_index: "i AND (MAX_SAMPLES - 1) = i mod MAX_SAMPLES"
  using take_bit_eq_mask[of 10 i] by (simp add: MAX_SAMPLES_def take_bit_eq_mod mask_eq_exp_minus_1)

lemma rotate_update:
  assumes "i < length s"
  shows "rotate (Suc i mod length s) (s[i := x]) = tl (rotate i s) @ [x]"
proof (cases "Suc i = length s")
  case True
  then have "s[i := x] = take i s @ [x]" using assms by (simp add: upd_conv_take_nth_drop)
  moreover have "drop i s = [s ! i]" using assms True by (simp add: Cons_nth_drop_Suc[symmetric])
  ultimately show ?thesis using assms True by (simp add: rotate_drop_take)
next
  case False
  then have i: "Suc i < length s" using assms by simp
  have "drop i s = s ! i # drop (Suc i) s" using assms by (simp add: Cons_nth_drop_Suc)
  then have "tl (rotate i s) = drop (Suc i) s @ take i s" using assms by (simp add: rotate_drop_take)
  moreover have "take (Suc i) (s[i := x]) = take i s @ [x]" "drop (Suc i) (s[i := x]) = drop (Suc i) s"
    using assms by (simp_all add: take_Suc_conv_app_nth)
  ultimately show ?thesis using i by (simp add: rotate_drop_take)
qed

lemma last_samples_snoc: "MAX_SAMPLES \<le> length xs \<Longrightarrow> last_samples (xs @ [x]) = tl (last_samples xs) @ [x]"
proof -
  assume le: "MAX_SAMPLES \<le> length xs"
  have "tl (drop (length xs - MAX_SAMPLES) xs) = drop (Suc (length xs - MAX_SAMPLES)) xs" by (simp only: drop_Suc tl_drop)
  then show ?thesis using le by (simp add: last_samples_def Suc_diff_le[symmetric] MAX_SAMPLES_def)
qed

lemma ring_ok_new: "ring_ok [] tracker_new"
  by (simp add: ring_ok_def tracker_new_def MAX_SAMPLES_def)

lemma ring_ok_record:
  assumes "ring_ok xs t"
  shows "ring_ok (xs @ [x]) (tracker_record t x)"
proof -
  let ?i = "length xs mod MAX_SAMPLES"
  have n: "0 < MAX_SAMPLES" "length (lt_samples t) = MAX_SAMPLES" using assms by (simp_all add: ring_ok_def MAX_SAMPLES_def)
  then have i: "?i < length (lt_samples t)" by simp
  have idx: "lt_write_index t AND (MAX_SAMPLES - 1) = ?i" unfolding masked_index using assms by (simp add: ring_ok_def)
  have ring: "if length (xs @ [x]) < MAX_SAMPLES then take (length (xs @ [x])) ((lt_samples t)[?i := x]) = xs @ [x]
      else rotate (length (xs @ [x]) mod MAX_SAMPLES) ((lt_samples t)[?i := x]) = last_samples (xs @ [x])"
  proof (cases "length xs < MAX_SAMPLES")
    case True
    then have "take (Suc (length xs)) ((lt_samples t)[?i := x]) = xs @ [x]"
      using assms n by (simp add: ring_ok_def take_Suc_conv_app_nth)
    moreover have "rotate 0 ((lt_samples t)[?i := x]) = take MAX_SAMPLES ((lt_samples t)[?i := x])" using n by simp
    ultimately show ?thesis using True by (cases "Suc (length xs) = MAX_SAMPLES") (auto simp: last_samples_def)
  next
    case False
    then have le: "MAX_SAMPLES \<le> length xs" by simp
    have "length (xs @ [x]) mod MAX_SAMPLES = Suc ?i mod length (lt_samples t)" using n(2) by (simp add: mod_Suc_eq)
    then have "rotate (length (xs @ [x]) mod MAX_SAMPLES) ((lt_samples t)[?i := x]) = tl (rotate ?i (lt_samples t)) @ [x]"
      using rotate_update[OF i, of x] by simp
    also have "\<dots> = last_samples (xs @ [x])" using assms False by (simp add: ring_ok_def last_samples_snoc[OF le])
    finally show ?thesis using False by simp
  qed
  have fields: "lt_samples (tracker_record t x) = (lt_samples t)[?i := x]" "lt_write_index (tracker_record t x) = Suc ?i"
      "lt_total_count (tracker_record t x) = lt_total_count t + 1" "lt_min_ns (tracker_record t x) = min (lt_min_ns t) x"
      "lt_max_ns (tracker_record t x) = max (lt_max_ns t) x"
      "lt_sample_count (tracker_record t x) = (if lt_sample_count t < MAX_SAMPLES then lt_sample_count t + 1 else lt_sample_count t)"
    unfolding tracker_record_def Let_def idx by simp_all
  have "lt_sample_count (tracker_record t x) = min (length (xs @ [x])) MAX_SAMPLES"
    using assms by (auto simp: fields ring_ok_def min_def)
  moreover have "Suc ?i mod MAX_SAMPLES = length (xs @ [x]) mod MAX_SAMPLES" by (simp add: mod_Suc_eq)
  moreover have "lt_total_count t + 1 = of_nat (length (xs @ [x]))" "lt_min_ns t = foldl min (- 1) xs" "lt_max_ns t = foldl max 0 xs"
    using assms by (simp_all add: ring_ok_def)
  ultimately show ?thesis using n(2) ring unfolding ring_ok_def fields by simp
qed

definition recorded_tracker :: "u64 list \<Rightarrow> latency_tracker" where
  "recorded_tracker xs = foldl tracker_record tracker_new xs"

lemma ring_ok_recorded: "ring_ok xs (recorded_tracker xs)"
  by (induction xs rule: rev_induct) (simp_all add: recorded_tracker_def ring_ok_new ring_ok_record)

lemma window_samples:
  assumes "ring_ok xs t"
  shows "sort (take (lt_sample_count t) (lt_samples t)) = sort (last_samples xs)"
proof (cases "length xs < MAX_SAMPLES")
  case True
  then show ?thesis using assms by (simp add: ring_ok_def last_samples_def)
next
  case False
  then have "rotate (length xs mod MAX_SAMPLES) (lt_samples t) = last_samples xs" "lt_sample_count t = length (lt_samples t)"
    using assms by (simp_all add: ring_ok_def)
  moreover have "mset (rotate k s) = mset s" for k and s :: "u64 list"
    by (metis append_take_drop_id mset_append add.commute rotate_drop_take)
  ultimately show ?thesis by (metis properties_for_sort take_all_iff le_refl mset_sort sorted_sort)
qed

subsection \<open>What the statistics say\<close>

text \<open>
  The nearest rank, by counting: enough samples are no greater than the value, and fewer than that are smaller.
\<close>

definition nearest_rank :: "nat \<Rightarrow> u64 list \<Rightarrow> u64 \<Rightarrow> bool" where
  "nearest_rank p xs v \<longleftrightarrow> v \<in> set xs \<and> length xs * p \<le> 100 * length (filter (\<lambda>x. x \<le> v) xs)
     \<and> 100 * length (filter (\<lambda>x. x < v) xs) < length xs * p"

lemma length_filter_sort: "length (filter P (sort xs)) = length (filter P xs)" for xs :: "u64 list"
  by (simp add: filter_sort)

lemma percentile_nearest_rank:
  assumes "xs \<noteq> []" "0 < p" "p \<le> 100"
  shows "nearest_rank p xs (percentile (sort xs) p)"
proof -
  let ?s = "sort xs" and ?n = "length xs"
  define k where "k = min ((?n * p + 99) div 100 - 1) (?n - 1)"
  have n: "0 < ?n" using assms(1) by simp
  have "0 < ?n * p" "?n * p \<le> ?n * 100" using n assms(2,3) by simp_all
  moreover define r where "r = (?n * p + 99) div 100"
  moreover have "?n * p + 99 = 100 * r + (?n * p + 99) mod 100" "(?n * p + 99) mod 100 < 100" unfolding r_def by simp_all
  ultimately have r: "1 \<le> r" "r \<le> ?n" "?n * p \<le> 100 * r" "100 * r < ?n * p + 100" by linarith+
  then have "k = r - 1" unfolding k_def r_def[symmetric] by simp
  then have "Suc k = r" using r(1) by simp
  then have k: "k < ?n" "100 * k < ?n * p" "?n * p \<le> 100 * Suc k" using r by simp_all
  have v: "percentile ?s p = ?s ! k" by (simp add: percentile_def Let_def k_def)
  have "?s ! k \<in> set ?s" using k(1) by (intro nth_mem) simp
  moreover have "Suc k \<le> length (filter (\<lambda>x. x \<le> ?s ! k) ?s)"
  proof -
    have "{..k} \<subseteq> {i. i < length ?s \<and> ?s ! i \<le> ?s ! k}" using k(1) by (auto intro: sorted_nth_mono)
    then have "card {..k} \<le> card {i. i < length ?s \<and> ?s ! i \<le> ?s ! k}" by (intro card_mono) auto
    then show ?thesis by (simp add: length_filter_conv_card)
  qed
  moreover have "length (filter (\<lambda>x. x < ?s ! k) ?s) \<le> k"
  proof -
    have "i < k" if "i < length ?s" "?s ! i < ?s ! k" for i
      using sorted_nth_mono[of ?s k i] that k(1) by (fastforce simp: not_less[symmetric])
    then have "{i. i < length ?s \<and> ?s ! i < ?s ! k} \<subseteq> {..<k}" by auto
    then have "card {i. i < length ?s \<and> ?s ! i < ?s ! k} \<le> card {..<k}" by (intro card_mono) auto
    then show ?thesis by (simp add: length_filter_conv_card)
  qed
  ultimately show ?thesis using k unfolding nearest_rank_def v length_filter_sort by auto
qed

lemma foldl_min_Min: "foldl min a xs = Min (insert a (set xs))" for a :: u64
proof -
  have "(\<lambda>x s. min s x) = (min :: u64 \<Rightarrow> u64 \<Rightarrow> u64)" by (intro ext) (simp add: min.commute)
  then show ?thesis using Min.set_eq_fold[of a xs] by (simp add: foldl_conv_fold)
qed

lemma foldl_max_Max: "foldl max a xs = Max (insert a (set xs))" for a :: u64
proof -
  have "(\<lambda>x s. max s x) = (max :: u64 \<Rightarrow> u64 \<Rightarrow> u64)" by (intro ext) (simp add: max.commute)
  then show ?thesis using Max.set_eq_fold[of a xs] by (simp add: foldl_conv_fold)
qed

lemma sum_ucast_exact:
  "length xs \<le> 1024 \<Longrightarrow> uint (\<Sum>x\<leftarrow>xs. ucast x :: u128) = (\<Sum>x\<leftarrow>xs. uint x)
     \<and> (\<Sum>x\<leftarrow>xs. uint x) \<le> int (length xs) * (2 ^ 64 - 1)" for xs :: "u64 list"
proof (induction xs)
  case (Cons x xs)
  have "uint x \<le> 2 ^ 64 - 1" using uint_below[of x] by simp
  moreover have "uint (ucast x :: u128) = uint x" by (rule uint_ucast_up) simp
  moreover have "(\<Sum>x\<leftarrow>xs. uint x) \<le> int (length xs) * (2 ^ 64 - 1)" using Cons by simp
  moreover have "int (length xs) \<le> 1023" using Cons.prems by simp
  moreover have "0 \<le> (\<Sum>x\<leftarrow>xs. uint x)" by (intro sum_list_nonneg) auto
  ultimately show ?case using Cons by (auto simp: uint_add_exact algebra_simps)
qed simp

text \<open>C37: The statistics of a latency tracker are those of the samples recorded: the count and the extremes of all of them, and
  over the last 1024 the mean rounded down, with a sum that does not overflow, and the nearest-rank percentiles, whatever the
  ring has overwritten.\<close>

theorem latency_stats_of_the_window:
  assumes "xs \<noteq> []"
  shows "\<exists>st. tracker_stats (recorded_tracker xs) = Some st \<and> ls_count st = of_nat (length xs)
    \<and> ls_min_ns st = Min (set xs) \<and> ls_max_ns st = Max (set xs)
    \<and> uint (ls_avg_ns st) = (\<Sum>x\<leftarrow>last_samples xs. uint x) div int (length (last_samples xs))
    \<and> nearest_rank 50 (last_samples xs) (ls_p50_ns st) \<and> nearest_rank 95 (last_samples xs) (ls_p95_ns st)
    \<and> nearest_rank 99 (last_samples xs) (ls_p99_ns st)"
proof -
  let ?t = "recorded_tracker xs" and ?w = "last_samples xs"
  note ok = ring_ok_recorded[of xs]
  have w: "?w \<noteq> []" "length ?w = lt_sample_count ?t" "length ?w \<le> 1024"
    using assms ok by (auto simp: last_samples_def ring_ok_def MAX_SAMPLES_def)
  have sorted: "sort (take (length ?w) (lt_samples ?t)) = sort ?w" using window_samples[OF ok] w(2) by simp
  let ?sum = "\<Sum>x\<leftarrow>sort ?w. ucast x :: u128"
  have sum: "uint ?sum = (\<Sum>x\<leftarrow>?w. uint x)" "uint ?sum \<le> int (length ?w) * (2 ^ 64 - 1)"
    using sum_ucast_exact[of "sort ?w"] w(3) sum_mset_sum_list[of "map uint ?w"] sum_mset_sum_list[of "map uint (sort ?w)"] by simp_all
  have len: "uint (of_nat (length ?w) :: u128) = int (length ?w)" using w(3) by (simp add: unsigned_of_nat take_bit_nat_eq_self)
  then have avg: "uint (?sum div of_nat (length ?w)) = (\<Sum>x\<leftarrow>?w. uint x) div int (length ?w)" by (simp add: uint_div sum(1))
  have "uint ?sum div int (length ?w) \<le> int (length ?w) * (2 ^ 64 - 1) div int (length ?w)" using sum(2) 
    by (rule zdiv_mono1) (use w(1) in simp)
  then have "(\<Sum>x\<leftarrow>?w. uint x) div int (length ?w) < 2 ^ 64" using w(1) by (simp add: sum(1))
  then have "uint (ucast (?sum div of_nat (length ?w)) :: u64) = (\<Sum>x\<leftarrow>?w. uint x) div int (length ?w)"
    using avg by (subst uint_ucast_exact) simp_all
  moreover have "foldl min (- 1) xs = Min (set xs)" "foldl max 0 xs = Max (set xs)"
    using assms by (simp_all add: foldl_min_Min foldl_max_Max min_absorb2 max_absorb2 word_order.extremum)
  moreover have "0 < MAX_SAMPLES" by (simp add: MAX_SAMPLES_def)
  ultimately show ?thesis using w sorted ok percentile_nearest_rank[OF w(1)]
    by (auto simp: tracker_stats_def Let_def ring_ok_def)
qed

theorem latency_stats_of_the_window_witness:
  "\<exists>st. tracker_stats (recorded_tracker [300, 100, 200]) = Some st \<and> uint (ls_avg_ns st) = 200 \<and> ls_min_ns st = 100"
proof -
  have "last_samples [300, 100, 200] = [300, 100, 200]" by (simp add: last_samples_def MAX_SAMPLES_def)
  then show ?thesis using latency_stats_of_the_window[of "[300, 100, 200]"] by fastforce
qed

end
