(* ===== verification/State_Reads.thy ===== *)
theory State_Reads
  imports Solvency_Fold Circuit_Breaker "HOL-Library.Sublist"
begin

text \<open>
  \<open>src/src/client/state.rs\<close> with \<open>src/src/storage.rs\<close> and what they take of \<open>queries.rs\<close>, \<open>chain.rs\<close> and \<open>contracts.rs\<close>: the reads
  of a market pinned to one block. The node at that block is the record \<open>pinned_node\<close>, a parameter: what it answers to each call,
  the same each time the same call is made. A view comes as alloy decodes it; a row of a multicall comes as bytes, and its decoding is the
  parameter \<open>abi\<close>. \<open>keccak\<close> is the hash. Reads that are joined are made one after the other.
\<close>

subsection \<open>Errors\<close>

text \<open>
  A contract call fails in the transport or otherwise; a typed multicall also in its decoding. \<open>pinned_error\<close> is \<open>PerpCityError\<close> in the
  variants these reads meet, the contexts of a failed storage read left out.
\<close>

datatype call_error = TransportFailed transport_error | OtherCallError

datatype multicall_failure = McTransport transport_error | McDecode | McOther

datatype pinned_error =
    Rpc transport_error
  | Abi call_error
  | StorageReadFailed "transport_error option"
  | PinnedBlockUnavailable u64
  | StateUnavailable u64
  | MulticallFailed
  | ModuleNotRegistered
  | PinnedInvalid error

definition pin_bind :: "pinned_error + 'a \<Rightarrow> ('a \<Rightarrow> pinned_error + 'b) \<Rightarrow> pinned_error + 'b" where
  "pin_bind m f = (case m of Inl e \<Rightarrow> Inl e | Inr x \<Rightarrow> f x)"

definition pin_valid :: "'a result \<Rightarrow> pinned_error + 'a" where
  "pin_valid m = (case m of Inl e \<Rightarrow> Inl (PinnedInvalid e) | Inr x \<Rightarrow> Inr x)"

definition is_transient :: "pinned_error \<Rightarrow> bool" where
  "is_transient e = (case e of
      Rpc _ \<Rightarrow> True
    | PinnedBlockUnavailable _ \<Rightarrow> True
    | StorageReadFailed src \<Rightarrow> src \<noteq> None
    | _ \<Rightarrow> False)"

definition to_ascii_lowercase :: "string \<Rightarrow> string" where
  "to_ascii_lowercase s = map (\<lambda>c. let n = of_char c :: nat in if 65 \<le> n \<and> n \<le> 90 then char_of (n + 32) else c) s"

definition state_pruned :: "string \<Rightarrow> bool" where
  "state_pruned message \<longleftrightarrow> sublist ''historical state'' message \<or> sublist ''missing trie node'' message"

definition block_missing :: "string \<Rightarrow> bool" where
  "block_missing message \<longleftrightarrow> sublist ''header not found'' message \<or> sublist ''unknown block'' message
     \<or> sublist ''block not found'' message"

definition pinned_read_error :: "pinned_error \<Rightarrow> u64 \<Rightarrow> pinned_error" where
  "pinned_read_error err number = (case err of
      Abi (TransportFailed (ErrorResp code message)) \<Rightarrow>
        (let message = to_ascii_lowercase message in
         if state_pruned message then StateUnavailable number
         else if block_missing message then PinnedBlockUnavailable number
         else err)
    | _ \<Rightarrow> err)"

definition storage_read_error :: "transport_error \<Rightarrow> pinned_error" where
  "storage_read_error e = (case e of ErrorResp _ _ \<Rightarrow> Abi (TransportFailed e) | _ \<Rightarrow> StorageReadFailed (Some e))"

definition multicall_error :: "multicall_failure \<Rightarrow> pinned_error" where
  "multicall_error e = (case e of
      McTransport e \<Rightarrow> Abi (TransportFailed e)
    | McDecode \<Rightarrow> PinnedInvalid DecodeFailed
    | McOther \<Rightarrow> MulticallFailed)"

text \<open>A failure of a chunk's shared read, reshaped so that every id of the chunk can carry it.\<close>

datatype chunk_failure =
    ChunkStorage "transport_error option"
  | ChunkBlockUnavailable u64
  | ChunkStateUnavailable u64

definition chunk_failure_new :: "pinned_error \<Rightarrow> chunk_failure" where
  "chunk_failure_new err = (case err of
      Rpc e \<Rightarrow> ChunkStorage (Some e)
    | Abi (TransportFailed e) \<Rightarrow> ChunkStorage (Some e)
    | StorageReadFailed src \<Rightarrow> ChunkStorage src
    | PinnedBlockUnavailable number \<Rightarrow> ChunkBlockUnavailable number
    | StateUnavailable number \<Rightarrow> ChunkStateUnavailable number
    | _ \<Rightarrow> ChunkStorage None)"

definition chunk_failure_error :: "chunk_failure \<Rightarrow> pinned_error" where
  "chunk_failure_error f = (case f of
      ChunkStorage src \<Rightarrow> StorageReadFailed src
    | ChunkBlockUnavailable number \<Rightarrow> PinnedBlockUnavailable number
    | ChunkStateUnavailable number \<Rightarrow> StateUnavailable number)"

subsection \<open>Storage slots\<close>

type_synonym bytes = "8 word list"

definition be_bytes :: "nat \<Rightarrow> 'a::len word \<Rightarrow> bytes" where
  "be_bytes n x = map (\<lambda>i. ucast (drop_bit (8 * i) x)) (rev [0..<n])"

definition PERP_TICKS_SLOT :: u256 where "PERP_TICKS_SLOT = 6"
definition PERP_EMAS_SLOT :: u256 where "PERP_EMAS_SLOT = 11"
definition TICK_FUNDING_DIV_SQRT_P_OPP_OFFSET :: u256 where "TICK_FUNDING_DIV_SQRT_P_OPP_OFFSET = 1"
definition POOL_MANAGER_POOLS_SLOT :: u256 where "POOL_MANAGER_POOLS_SLOT = 6"
definition FEE_GROWTH_GLOBAL1_OFFSET :: u256 where "FEE_GROWTH_GLOBAL1_OFFSET = 2"
definition TICKS_OFFSET :: u256 where "TICKS_OFFSET = 4"
definition TICK_BITMAP_OFFSET :: u256 where "TICK_BITMAP_OFFSET = 5"
definition POSITIONS_OFFSET :: u256 where "POSITIONS_OFFSET = 6"
definition TICK_FEE_GROWTH_OUTSIDE1_OFFSET :: u256 where "TICK_FEE_GROWTH_OUTSIDE1_OFFSET = 2"
definition POSITION_FEE_GROWTH_INSIDE1_OFFSET :: u256 where "POSITION_FEE_GROWTH_INSIDE1_OFFSET = 2"

type_synonym keccak = "bytes \<Rightarrow> u256"

definition mapping_slot :: "keccak \<Rightarrow> u256 \<Rightarrow> u256 \<Rightarrow> u256" where
  "mapping_slot keccak key base = keccak (be_bytes 32 key @ be_bytes 32 base)"

definition mapping_slot_signed :: "keccak \<Rightarrow> i32 \<Rightarrow> u256 \<Rightarrow> u256" where
  "mapping_slot_signed keccak key base = mapping_slot keccak (word_of_int key) base"

definition perp_tick_funding_slots :: "keccak \<Rightarrow> i32 \<Rightarrow> u256 \<times> u256" where
  "perp_tick_funding_slots keccak t =
     (let base = mapping_slot_signed keccak t PERP_TICKS_SLOT in (base, base + TICK_FUNDING_DIV_SQRT_P_OPP_OFFSET))"

definition perp_emas_slot :: u256 where "perp_emas_slot = PERP_EMAS_SLOT"

definition stored_emas :: "u256 \<Rightarrow> price_pair" where
  "stored_emas w = \<lparr>pair_amm = ucast (w AND ucast (- 1 :: u128)), pair_index = ucast (drop_bit 128 w)\<rparr>"

definition pool_state_slot :: "keccak \<Rightarrow> u256 \<Rightarrow> u256" where
  "pool_state_slot keccak pool_id = mapping_slot keccak pool_id POOL_MANAGER_POOLS_SLOT"

definition v4_fee_growth_global1_slot :: "keccak \<Rightarrow> u256 \<Rightarrow> u256" where
  "v4_fee_growth_global1_slot keccak pool_id = pool_state_slot keccak pool_id + FEE_GROWTH_GLOBAL1_OFFSET"

definition v4_tick_slot :: "keccak \<Rightarrow> u256 \<Rightarrow> i32 \<Rightarrow> u256" where
  "v4_tick_slot keccak pool_id t = mapping_slot_signed keccak t (pool_state_slot keccak pool_id + TICKS_OFFSET)"

definition v4_tick_fee_growth_outside1_slot :: "keccak \<Rightarrow> u256 \<Rightarrow> i32 \<Rightarrow> u256" where
  "v4_tick_fee_growth_outside1_slot keccak pool_id t = v4_tick_slot keccak pool_id t + TICK_FEE_GROWTH_OUTSIDE1_OFFSET"

definition v4_tick_bitmap_slot :: "keccak \<Rightarrow> u256 \<Rightarrow> i32 \<Rightarrow> u256" where
  "v4_tick_bitmap_slot keccak pool_id w = mapping_slot_signed keccak w (pool_state_slot keccak pool_id + TICK_BITMAP_OFFSET)"

definition v4_position_slot :: "keccak \<Rightarrow> u256 \<Rightarrow> account \<Rightarrow> i32 \<Rightarrow> i32 \<Rightarrow> u256 \<Rightarrow> u256" where
  "v4_position_slot keccak pool_id owner tick_lower tick_upper salt =
     (let packed = be_bytes 20 owner @ tl (be_bytes 4 (word_of_int tick_lower :: u32))
                     @ tl (be_bytes 4 (word_of_int tick_upper :: u32)) @ be_bytes 32 salt
      in mapping_slot keccak (keccak packed) (pool_state_slot keccak pool_id + POSITIONS_OFFSET))"

definition v4_position_fee_growth_inside1_slot :: "keccak \<Rightarrow> u256 \<Rightarrow> account \<Rightarrow> i32 \<Rightarrow> i32 \<Rightarrow> u256 \<Rightarrow> u256" where
  "v4_position_fee_growth_inside1_slot keccak pool_id owner tick_lower tick_upper salt =
     v4_position_slot keccak pool_id owner tick_lower tick_upper salt + POSITION_FEE_GROWTH_INSIDE1_OFFSET"

subsection \<open>What the contracts return\<close>

record position_view =
  pr_delta :: i256
  pr_margin :: u128
  pr_liq_margin_ratio :: "24 word"
  pr_backstop_margin_ratio :: "24 word"
  pr_last_cuml_funding :: i256

record maker_funding_row =
  mf_below :: i256
  mf_within :: i256
  mf_div_sqrt_price_within :: i256

record maker_row =
  mr_tick_lower :: "24 word"
  mr_tick_upper :: "24 word"
  mr_liquidity :: u128
  mr_last_long_util_earnings :: u256
  mr_last_short_util_earnings :: u256
  mr_capacity :: "u128 \<times> u128"
  mr_last_cuml_funding :: maker_funding_row

record taker_row =
  tr_last_long_util_payments :: u256
  tr_last_short_util_payments :: u256

record rates_row =
  rr_funding_per_day :: "88 word"
  rr_long_util_fee_per_day :: u64
  rr_short_util_fee_per_day :: u64
  rr_last_touch :: "40 word"

record modules_row =
  md_beacon :: account
  md_fees :: account
  md_funding :: account
  md_margin_ratios :: account
  md_price_impact :: account
  md_pricing :: account

record pool_state_row =
  po_tick :: "24 word"
  po_sqrt_price :: "160 word"
  po_amm_price :: u256
  po_liquidity :: u128

record pool_key_row =
  pk_tick_spacing :: "24 word"
  pk_hooks :: account

record market_views =
  mv_modules :: modules_row
  mv_pool_state :: pool_state_row
  mv_rates :: rates_row
  mv_ema_window :: u256
  mv_cumulatives :: raw_cumulatives
  mv_capacity :: "u128 \<times> u128"
  mv_open_interest :: "u128 \<times> u128"

text \<open>Which views a typed multicall adds.\<close>

datatype view_set = CapacityViews | MarkViews | TakerViews | MakerViews

record multicall_row =
  row_success :: bool
  row_data :: bytes

record abi =
  positions_call :: "u256 \<Rightarrow> bytes"
  taker_details_call :: "u256 \<Rightarrow> bytes"
  maker_details_call :: "u256 \<Rightarrow> bytes"
  owner_of_call :: "u256 \<Rightarrow> bytes"
  positions_returns :: "bytes \<Rightarrow> position_view option"
  taker_details_returns :: "bytes \<Rightarrow> taker_row option"
  maker_details_returns :: "bytes \<Rightarrow> maker_row option"
  owner_of_returns :: "bytes \<Rightarrow> account option"
  token_does_not_exist :: bytes

record pinned_node =
  nd_solvency :: "call_error + u128 \<times> u128"
  nd_next_pos_id :: "call_error + u256"
  nd_position :: "u256 \<Rightarrow> call_error + position_view"
  nd_maker_details :: "u256 \<Rightarrow> call_error + maker_row"
  nd_modules :: "call_error + modules_row"
  nd_rates :: "call_error + rates_row"
  nd_cumulatives :: "call_error + raw_cumulatives"
  nd_pool_state :: "call_error + pool_state_row"
  nd_usdc_balance :: "account \<Rightarrow> call_error + u256"
  nd_maker_ratios :: "account \<Rightarrow> call_error + 24 word \<times> 24 word \<times> 24 word"
  nd_taker_ratios :: "account \<Rightarrow> call_error + 24 word \<times> 24 word \<times> 24 word"
  nd_index :: "account \<Rightarrow> call_error + u256"
  nd_sqrt_price_bounds :: "account \<Rightarrow> u256 \<Rightarrow> u256 \<Rightarrow> u256 \<Rightarrow> u256 \<Rightarrow> call_error + u256 \<times> u256"
  nd_views :: "view_set \<Rightarrow> multicall_failure + market_views"
  nd_aggregate3 :: "bytes list \<Rightarrow> call_error + multicall_row list"
  nd_extsload :: "u256 list \<Rightarrow> call_error + u256 list"
  nd_get_proof :: "u256 list \<Rightarrow> transport_error + (u256 \<times> u256) list"
  nd_storage_at :: "u256 \<Rightarrow> transport_error + u256"

subsection \<open>The handle\<close>

record chain_head =
  ch_number :: "transport_error + u64"
  ch_header :: "u64 \<Rightarrow> transport_error + block_context option"

definition block_at :: "chain_head \<Rightarrow> u64 \<Rightarrow> pinned_error + block_context" where
  "block_at ch number = (case ch_header ch number of
      Inl e \<Rightarrow> Inl (Rpc e)
    | Inr None \<Rightarrow> Inl (PinnedBlockUnavailable number)
    | Inr (Some b) \<Rightarrow> Inr b)"

definition lagged_snapshot_block :: "chain_head \<Rightarrow> pinned_error + block_context" where
  "lagged_snapshot_block ch = (case ch_number ch of
      Inl e \<Rightarrow> Inl (Rpc e)
    | Inr head \<Rightarrow> block_at ch (saturating_sub head SNAPSHOT_BLOCK_LAG))"

record state_at =
  sa_perp :: account
  sa_block :: block_context

definition market_state :: "account \<Rightarrow> chain_head \<Rightarrow> pinned_error + state_at" where
  "market_state perp_address ch = pin_bind (lagged_snapshot_block ch) (\<lambda>b. Inr \<lparr>sa_perp = perp_address, sa_block = b\<rparr>)"

definition market_state_at :: "account \<Rightarrow> chain_head \<Rightarrow> u64 \<Rightarrow> pinned_error + state_at" where
  "market_state_at perp_address ch number = pin_bind (block_at ch number) (\<lambda>b. Inr \<lparr>sa_perp = perp_address, sa_block = b\<rparr>)"

definition market_state_at_head :: "account \<Rightarrow> chain_head \<Rightarrow> pinned_error + state_at" where
  "market_state_at_head perp_address ch = (case ch_number ch of
      Inl e \<Rightarrow> Inl (Rpc e)
    | Inr head \<Rightarrow> market_state_at perp_address ch head)"

definition state_read_error :: "state_at \<Rightarrow> call_error \<Rightarrow> pinned_error" where
  "state_read_error st e = pinned_read_error (Abi e) (block_number (sa_block st))"

definition multicall_read_error :: "state_at \<Rightarrow> multicall_failure \<Rightarrow> pinned_error" where
  "multicall_read_error st e = pinned_read_error (multicall_error e) (block_number (sa_block st))"

definition pinned_call :: "state_at \<Rightarrow> call_error + 'a \<Rightarrow> pinned_error + 'a" where
  "pinned_call st m = (case m of Inl e \<Rightarrow> Inl (state_read_error st e) | Inr x \<Rightarrow> Inr x)"

definition pinned_multicall :: "state_at \<Rightarrow> multicall_failure + 'a \<Rightarrow> pinned_error + 'a" where
  "pinned_multicall st m = (case m of Inl e \<Rightarrow> Inl (multicall_read_error st e) | Inr x \<Rightarrow> Inr x)"

subsection \<open>Single reads\<close>

definition registered_module :: "account \<Rightarrow> pinned_error + account" where
  "registered_module addr = (if addr = 0 then Inl ModuleNotRegistered else Inr addr)"

definition read_price :: "u256 \<Rightarrow> price result" where
  "read_price x96 = (if x96 = 0 then Inl InvalidPrice else Inr (Price x96))"

record margin_ratio_triple =
  tri_init :: ratio
  tri_liquidation :: ratio
  tri_backstop :: ratio

record margin_ratios =
  ratios_maker :: margin_ratio_triple
  ratios_taker :: margin_ratio_triple

record contract_rates =
  rates_funding_per_day :: funding_rate
  rates_util_fee_per_day :: "utilization_rate per_side"
  rates_last_touch :: u64

definition read_solvency :: "pinned_node \<Rightarrow> state_at \<Rightarrow> pinned_error + solvency_state" where
  "read_solvency nd st =
     pin_bind (pinned_call st (nd_solvency nd)) (\<lambda>(bad, total).
     Inr \<lparr>ss_bad_debt = UsdcAtoms bad, ss_total_margin = UsdcAtoms total\<rparr>)"

definition state_books :: "pinned_node \<Rightarrow> state_at \<Rightarrow> pinned_error + books" where
  "state_books nd st =
     pin_bind (read_solvency nd st) (\<lambda>s. Inr \<lparr>bk_perp = sa_perp st, bk_block = sa_block st, bk_solvency = s\<rparr>)"

definition read_next_pos_id :: "pinned_node \<Rightarrow> state_at \<Rightarrow> pinned_error + u64" where
  "read_next_pos_id nd st =
     pin_bind (pinned_call st (nd_next_pos_id nd)) (\<lambda>n. pin_valid (ok_or Overflow (narrow n)))"

definition held_position :: "position_view \<Rightarrow> position_view option" where
  "held_position p = (if pr_margin p \<noteq> 0 \<or> pr_delta p \<noteq> 0 then Some p else None)"

definition read_position :: "pinned_node \<Rightarrow> state_at \<Rightarrow> u256 \<Rightarrow> pinned_error + position_view option" where
  "read_position nd st pos_id = pin_bind (pinned_call st (nd_position nd pos_id)) (\<lambda>p. Inr (held_position p))"

definition band_of_row :: "maker_row \<Rightarrow> pinned_error + maker_band option" where
  "band_of_row m =
     (if mr_liquidity m = 0 then Inr None
      else pin_bind (pin_valid (tick_range_new (sint (mr_tick_lower m)) (sint (mr_tick_upper m)))) (\<lambda>r.
           Inr (Some \<lparr>band_range = r, band_liquidity = LUnits (mr_liquidity m)\<rparr>)))"

definition read_maker_band :: "pinned_node \<Rightarrow> state_at \<Rightarrow> u256 \<Rightarrow> pinned_error + maker_band option" where
  "read_maker_band nd st pos_id = pin_bind (pinned_call st (nd_maker_details nd pos_id)) band_of_row"

definition read_modules :: "pinned_node \<Rightarrow> state_at \<Rightarrow> pinned_error + modules_row" where
  "read_modules nd st = pinned_call st (nd_modules nd)"

definition read_rates :: "pinned_node \<Rightarrow> state_at \<Rightarrow> pinned_error + contract_rates" where
  "read_rates nd st =
     pin_bind (pinned_call st (nd_rates nd)) (\<lambda>r.
     Inr \<lparr>rates_funding_per_day = FundingRate (scast (rr_funding_per_day r)),
          rates_util_fee_per_day = PerSide (UtilizationRate (rr_long_util_fee_per_day r)) (UtilizationRate (rr_short_util_fee_per_day r)),
          rates_last_touch = ucast (rr_last_touch r)\<rparr>)"

definition read_cumulatives :: "pinned_node \<Rightarrow> state_at \<Rightarrow> pinned_error + cumulatives" where
  "read_cumulatives nd st = pin_bind (pinned_call st (nd_cumulatives nd)) (\<lambda>c. Inr (cumulatives_of c))"

definition stored_emas_at :: "pinned_node \<Rightarrow> pinned_error + price_pair" where
  "stored_emas_at nd = (case nd_storage_at nd perp_emas_slot of
      Inl e \<Rightarrow> Inl (storage_read_error e)
    | Inr w \<Rightarrow> Inr (stored_emas w))"

definition index_x96_at :: "pinned_node \<Rightarrow> account \<Rightarrow> pinned_error + u256" where
  "index_x96_at nd beacon = (case nd_index nd beacon of
      Inl e \<Rightarrow> Inl (Abi e)
    | Inr index \<Rightarrow> if index = 0 then Inl (PinnedInvalid InvalidPrice) else Inr index)"

text \<open>The mapping of a failure that the reads of \<open>chain.rs\<close> leave to the handle.\<close>

definition at_block :: "state_at \<Rightarrow> pinned_error + 'a \<Rightarrow> pinned_error + 'a" where
  "at_block st m = (case m of Inl e \<Rightarrow> Inl (pinned_read_error e (block_number (sa_block st))) | Inr x \<Rightarrow> Inr x)"

definition read_emas :: "pinned_node \<Rightarrow> state_at \<Rightarrow> pinned_error + emas" where
  "read_emas nd st =
     pin_bind (read_rates nd st) (\<lambda>r.
     pin_bind (at_block st (stored_emas_at nd)) (\<lambda>stored.
     Inr (emas_stored stored (rates_last_touch r))))"

definition read_pool_tick :: "pinned_node \<Rightarrow> state_at \<Rightarrow> pinned_error + i32" where
  "read_pool_tick nd st = pin_bind (pinned_call st (nd_pool_state nd)) (\<lambda>p. Inr (sint (po_tick p)))"

definition read_collateral :: "pinned_node \<Rightarrow> state_at \<Rightarrow> pinned_error + usdc_atoms" where
  "read_collateral nd st =
     pin_bind (pinned_call st (nd_usdc_balance nd (sa_perp st))) (\<lambda>raw. pin_valid (usdc_atoms_try_from raw))"

definition perp_pair :: "u128 \<times> u128 \<Rightarrow> perp_atoms per_side" where
  "perp_pair c = PerSide (PerpAtoms (fst c)) (PerpAtoms (snd c))"

definition read_capacity :: "pinned_node \<Rightarrow> state_at \<Rightarrow> pinned_error + market_capacity" where
  "read_capacity nd st =
     pin_bind (pinned_multicall st (nd_views nd CapacityViews)) (\<lambda>v.
     Inr \<lparr>mc_block = sa_block st, mc_capacity = perp_pair (mv_capacity v), mc_open_interest = perp_pair (mv_open_interest v)\<rparr>)"

definition ratio_triple :: "24 word \<times> 24 word \<times> 24 word \<Rightarrow> margin_ratio_triple result" where
  "ratio_triple t = (case t of (init, liq, backstop) \<Rightarrow>
     rbind (ratio_from_e6 (ucast init)) (\<lambda>i.
     rbind (ratio_from_e6 (ucast liq)) (\<lambda>l.
     rbind (ratio_from_e6 (ucast backstop)) (\<lambda>b.
     Inr \<lparr>tri_init = i, tri_liquidation = l, tri_backstop = b\<rparr>))))"

definition read_margin_ratios :: "pinned_node \<Rightarrow> state_at \<Rightarrow> pinned_error + margin_ratios" where
  "read_margin_ratios nd st =
     pin_bind (pinned_call st (nd_modules nd)) (\<lambda>modules.
     pin_bind (registered_module (md_margin_ratios modules)) (\<lambda>ratios.
     pin_bind (pinned_call st (nd_maker_ratios nd ratios)) (\<lambda>maker.
     pin_bind (pinned_call st (nd_taker_ratios nd ratios)) (\<lambda>taker.
     pin_bind (pin_valid (ratio_triple maker)) (\<lambda>m.
     pin_bind (pin_valid (ratio_triple taker)) (\<lambda>t.
     Inr \<lparr>ratios_maker = m, ratios_taker = t\<rparr>))))))"

subsection \<open>The mark\<close>

record perp_views =
  pv_modules :: modules_row
  pv_pool_state :: pool_state_row
  pv_last_touch :: u64
  pv_ema_window :: u64

definition ema_window_secs :: "u256 \<Rightarrow> pinned_error + u64" where
  "ema_window_secs window = pin_valid (ok_or Overflow (narrow window))"

definition views_of :: "market_views \<Rightarrow> pinned_error + perp_views" where
  "views_of v =
     pin_bind (ema_window_secs (mv_ema_window v)) (\<lambda>window.
     Inr \<lparr>pv_modules = mv_modules v, pv_pool_state = mv_pool_state v,
          pv_last_touch = ucast (rr_last_touch (mv_rates v)), pv_ema_window = window\<rparr>)"

definition read_perp_views :: "pinned_node \<Rightarrow> state_at \<Rightarrow> pinned_error + perp_views" where
  "read_perp_views nd st = pin_bind (pinned_multicall st (nd_views nd MarkViews)) views_of"

definition mark_from :: "pinned_node \<Rightarrow> state_at \<Rightarrow> perp_views \<Rightarrow> pinned_error + mark" where
  "mark_from nd st v =
     pin_bind (registered_module (md_beacon (pv_modules v))) (\<lambda>beacon.
     pin_bind (at_block st (index_x96_at nd beacon)) (\<lambda>index.
     pin_bind (at_block st (stored_emas_at nd)) (\<lambda>stored.
     pin_valid (mark_advanced (sa_block st) (Price (po_amm_price (pv_pool_state v))) (Price index) stored
       (pv_last_touch v) (pv_ema_window v)))))"

definition read_mark :: "pinned_node \<Rightarrow> state_at \<Rightarrow> pinned_error + mark" where
  "read_mark nd st = pin_bind (read_perp_views nd st) (mark_from nd st)"

definition impact_bounds :: "pinned_node \<Rightarrow> state_at \<Rightarrow> account \<Rightarrow> mark \<Rightarrow> pinned_error + u256 \<times> u256" where
  "impact_bounds nd st price_impact mark =
     pin_bind (registered_module price_impact) (\<lambda>module.
     pinned_call st (nd_sqrt_price_bounds nd module (price_x96 (mark_pool_price mark)) (price_x96 (mark_index mark))
       (ucast (pair_amm (mark_emas mark))) (ucast (pair_index (mark_emas mark)))))"

subsection \<open>The pool\<close>

datatype era = Legacy | Upgradeable

definition era_from_hooks :: "account \<Rightarrow> era" where
  "era_from_hooks hooks = (if hooks = 0 then Legacy else Upgradeable)"

record market_immutables =
  im_pool_id :: u256
  im_tick_spacing :: i32
  im_era :: era

text \<open>The deployment-fixed values, from the cache of the chain reader or from two calls at the head.\<close>

definition read_immutables ::
    "call_error + u256 \<Rightarrow> call_error + pool_key_row \<Rightarrow> account \<Rightarrow> (account \<rightharpoonup> market_immutables)
      \<Rightarrow> (pinned_error + market_immutables) \<times> (account \<rightharpoonup> market_immutables)" where
  "read_immutables pool_id_call pool_key_call perp_address cache = (case cache perp_address of
      Some im \<Rightarrow> (Inr im, cache)
    | None \<Rightarrow> (case pool_id_call of
          Inl e \<Rightarrow> (Inl (Abi e), cache)
        | Inr pool_id \<Rightarrow> (case pool_key_call of
              Inl e \<Rightarrow> (Inl (Abi e), cache)
            | Inr key \<Rightarrow>
                let spacing = sint (pk_tick_spacing key) in
                if spacing \<le> 0 then (Inl (PinnedInvalid InvalidConfig), cache)
                else let im = \<lparr>im_pool_id = pool_id, im_tick_spacing = spacing, im_era = era_from_hooks (pk_hooks key)\<rparr>
                     in (Inr im, cache(perp_address \<mapsto> im)))))"

definition initialized_ticks :: "i32 \<Rightarrow> i32 \<Rightarrow> u256 list \<Rightarrow> i32 list" where
  "initialized_ticks spacing min_word bitmaps =
     filter (\<lambda>t. MIN_TICK \<le> t \<and> t \<le> MAX_TICK)
       (concat (map (\<lambda>(offset, bits). map (\<lambda>b. wrap_i32 (((min_word + int offset) * 256 + int b) * spacing))
            (filter (bit bits) [0..<256])) (enumerate 0 bitmaps)))"

definition tick_of_word :: "u256 \<Rightarrow> tick_liquidity" where
  "tick_of_word raw = \<lparr>gross = LUnits (ucast (raw AND ucast (- 1 :: u128))), net = LDelta (ucast (drop_bit 128 raw))\<rparr>"

definition tick_map :: "keccak \<Rightarrow> pinned_node \<Rightarrow> state_at \<Rightarrow> market_immutables \<Rightarrow> pinned_error + (i32, tick_liquidity) omap" where
  "tick_map keccak nd st im =
     (let spacing = im_tick_spacing im;
          min_word = MIN_TICK div spacing div 256;
          max_word = MAX_TICK div spacing div 256
      in pin_bind (pinned_call st (nd_extsload nd (map (v4_tick_bitmap_slot keccak (im_pool_id im)) [min_word..max_word]))) (\<lambda>bitmaps.
         let initialized = initialized_ticks spacing min_word bitmaps in
         if initialized = [] then Inr []
         else pin_bind (pinned_call st (nd_extsload nd (map (v4_tick_slot keccak (im_pool_id im)) initialized))) (\<lambda>words.
           Inr (fold (\<lambda>(t, w). om_put t (tick_of_word w)) (zip initialized words) []))))"

definition MIN_SWAP_SQRT_PRICE_X96 :: u256 where "MIN_SWAP_SQRT_PRICE_X96 = 4295128740"

definition MAX_SWAP_SQRT_PRICE_X96 :: u256 where
  "MAX_SWAP_SQRT_PRICE_X96 = 1461446703485210103287273052203988822378723970341"

definition read_pool_snapshot :: "keccak \<Rightarrow> pinned_node \<Rightarrow> state_at \<Rightarrow> pinned_error + market_immutables \<Rightarrow> pinned_error + pool_snapshot" where
  "read_pool_snapshot keccak nd st im_read =
     pin_bind im_read (\<lambda>im.
     pin_bind (read_perp_views nd st) (\<lambda>v.
     pin_bind (mark_from nd st v) (\<lambda>mark.
     pin_bind (impact_bounds nd st (md_price_impact (pv_modules v)) mark) (\<lambda>(sqrt_min, sqrt_max).
     pin_bind (tick_map keccak nd st im) (\<lambda>ticks.
     let pool = pv_pool_state v; t = sint (po_tick pool) in
     pin_bind (pin_valid (active_liquidity ticks t)) (\<lambda>reconstructed.
     if reconstructed \<noteq> LUnits (po_liquidity pool) then Inl (StorageReadFailed None)
     else Inr \<lparr>ps_block = sa_block st, ps_sqrt_price = SqrtPrice (ucast (po_sqrt_price pool)), ps_tick = t,
        ps_liquidity = LUnits (po_liquidity pool), ps_ticks = ticks,
        protocol_sqrt_min = SqrtPrice MIN_SWAP_SQRT_PRICE_X96, protocol_sqrt_max = SqrtPrice MAX_SWAP_SQRT_PRICE_X96,
        impact_sqrt_min = SqrtPrice sqrt_min, impact_sqrt_max = SqrtPrice sqrt_max\<rparr>))))))"

end
