(* ===== verification/Pool_Read.thy ===== *)
theory Pool_Read
  imports State_Reads Quotes
begin

text \<open>
  What the pool read of \<open>State_Reads\<close> promises: over a pool manager whose storage holds a tick map, the snapshot holds that map, each
  tick found through the bitmap and read from its own word; and whatever the node answers, a snapshot that is returned belongs
  to its tick map, so that it can be quoted against where its price and tick agree and lie in the protocol's bounds.
\<close>

lemma pin_bind_simps [simp]:
  "pin_bind (Inl e) f = Inl e" "pin_bind (Inr x) f = f x"
  by (simp_all add: pin_bind_def)

lemma pin_bind_Inr: "pin_bind m f = Inr y \<longleftrightarrow> (\<exists>x. m = Inr x \<and> f x = Inr y)"
  by (cases m) simp_all

lemma pin_valid_simps [simp]: "pin_valid (Inl e) = Inl (PinnedInvalid e)" "pin_valid (Inr x) = Inr x"
  by (simp_all add: pin_valid_def)

lemma pin_valid_Inr: "pin_valid m = Inr x \<longleftrightarrow> m = Inr x"
  by (cases m) simp_all

lemma pinned_call_simps [simp]: "pinned_call st (Inr x) = Inr x" "pinned_call st (Inl e) = Inl (state_read_error st e)"
  by (simp_all add: pinned_call_def)

subsection \<open>Errors of a chunk\<close>

text \<open>C40: What a failed chunk hands to each of its ids is worth retrying exactly when the failure was, or when it was a contract call
  that failed in the transport: a missing block and pruned state keep their block, and nothing else becomes retryable.\<close>

theorem chunk_failure_classified:
  "is_transient (chunk_failure_error (chunk_failure_new e)) = (is_transient e \<or> (\<exists>t. e = Abi (TransportFailed t)))
   \<and> (\<forall>n. chunk_failure_error (chunk_failure_new e) = PinnedBlockUnavailable n \<longleftrightarrow> e = PinnedBlockUnavailable n)
   \<and> (\<forall>n. chunk_failure_error (chunk_failure_new e) = StateUnavailable n \<longleftrightarrow> e = StateUnavailable n)"
  by (auto simp: is_transient_def chunk_failure_error_def chunk_failure_new_def split: pinned_error.splits call_error.splits)

subsection \<open>Storage words\<close>

definition tick_word :: "tick_liquidity \<Rightarrow> u256" where
  "tick_word e = push_bit 128 (ucast (l_delta (net e))) OR ucast (l_units (gross e))"

lemma tick_of_tick_word [simp]: "tick_of_word (tick_word e) = e"
proof -
  have "ucast (tick_word e AND ucast (- 1 :: u128)) = l_units (gross e)"
    by (rule bit_word_eqI) (auto simp: tick_word_def bit_simps)
  moreover have "ucast (drop_bit 128 (tick_word e)) = l_delta (net e)"
    by (rule bit_word_eqI) (auto simp: tick_word_def bit_simps dest: bit_imp_le_length)
  ultimately show ?thesis by (simp add: tick_of_word_def)
qed

lemma om_put_last: "\<forall>e \<in> set m. fst e < k \<Longrightarrow> om_put k v m = m @ [(k, v)]"
  by (induction m) auto

lemma fold_om_put_sorted:
  assumes "sorted_wrt (<) (map fst (m @ es))"
  shows "fold (\<lambda>(k, v). om_put k v) es m = m @ es"
  using assms by (induction es arbitrary: m) (auto simp: om_put_last sorted_wrt_append)

lemma fold_om_put_ok: "om_ok m \<Longrightarrow> om_ok (fold (\<lambda>(k, v). om_put k (f v)) es m)"
  by (induction es arbitrary: m) (auto simp: om_ok_put)

lemma fold_om_put_words:
  "fold (\<lambda>(k, v). om_put k (f v)) (zip ks (map g ks)) m = fold (\<lambda>(k, v). om_put k v) (map (\<lambda>k. (k, f (g k))) ks) m"
  by (induction ks arbitrary: m) simp_all

subsection \<open>The bitmap\<close>

text \<open>The words of a pool manager's storage hold a tick map, as far as a snapshot's ticks go.\<close>

definition pool_stored :: "keccak \<Rightarrow> market_immutables \<Rightarrow> (u256 \<Rightarrow> u256) \<Rightarrow> (i32, tick_liquidity) omap \<Rightarrow> bool" where
  "pool_stored keccak im store ticks \<longleftrightarrow>
     om_ok ticks \<and> 0 < im_tick_spacing im \<and> im_tick_spacing im < 2 ^ 23
     \<and> (\<forall>e \<in> set ticks. MIN_TICK \<le> fst e \<and> fst e \<le> MAX_TICK \<and> im_tick_spacing im dvd fst e
          \<and> store (v4_tick_slot keccak (im_pool_id im) (fst e)) = tick_word (snd e))
     \<and> (\<forall>w. \<forall>b < 256. MIN_TICK \<le> (w * 256 + int b) * im_tick_spacing im \<longrightarrow> (w * 256 + int b) * im_tick_spacing im \<le> MAX_TICK \<longrightarrow>
          bit (store (v4_tick_bitmap_slot keccak (im_pool_id im) w)) b
            = ((w * 256 + int b) * im_tick_spacing im \<in> fst ` set ticks))"

lemma sorted_concat_blocks:
  fixes ws :: "int list"
  assumes "sorted_wrt (<) ws" "\<And>w. w \<in> set ws \<Longrightarrow> sorted_wrt (<) (g w)" "\<And>w n. w \<in> set ws \<Longrightarrow> n \<in> set (g w) \<Longrightarrow> w * 256 \<le> n \<and> n < (w + 1) * 256"
  shows "sorted_wrt (<) (concat (map g ws))"
  using assms
proof (induction ws)
  case (Cons w ws)
  have "x < y" if "x \<in> set (g w)" "v \<in> set ws" "y \<in> set (g v)" for x y v
    using Cons.prems(1) Cons.prems(3)[of w x] Cons.prems(3)[of v y] that by fastforce
  then show ?case using Cons by (auto simp: sorted_wrt_append)
qed simp

lemma enumerate_upto:
  "map (\<lambda>(offset, bits). F (a + int offset) bits) (enumerate 0 (map S [a..b])) = map (\<lambda>w. F w (S w)) [a..b]"
  by (rule nth_equalityI) (simp_all add: nth_enumerate_eq nth_upto)

lemma word_range:
  assumes "(0 :: int) < sp" "sp < 2 ^ 23" "MIN_TICK div sp div 256 \<le> w" "w \<le> MAX_TICK div sp div 256" "0 \<le> b" "b < 256"
  shows "- (2 ^ 31) \<le> (w * 256 + b) * sp" "(w * 256 + b) * sp < 2 ^ 31"
proof -
  have lo: "MIN_TICK div sp - 255 \<le> w * 256" using assms(3) by linarith
  have hi: "w * 256 \<le> MAX_TICK div sp" using assms(4) by linarith
  show "- (2 ^ 31) \<le> (w * 256 + b) * sp"
  proof (cases "sp \<le> 1000")
    case True
    have "MIN_TICK div sp * sp > MIN_TICK - sp" using assms(1) by (simp add: minus_mod_eq_div_mult[symmetric])
    moreover have "(MIN_TICK div sp - 255) * sp \<le> (w * 256 + b) * sp" using lo assms(1,5) by (intro mult_right_mono) auto
    ultimately have "MIN_TICK - 256 * sp < (w * 256 + b) * sp" by (simp add: algebra_simps)
    then show ?thesis using True by (simp add: MIN_TICK_def)
  next
    case False
    have "- 256 * sp div sp \<le> MIN_TICK div sp" using False by (intro zdiv_mono1) (simp_all add: MIN_TICK_def)
    moreover have "- 256 * sp div sp = - 256" using assms(1) by (intro nonzero_mult_div_cancel_right) simp
    ultimately have "- 256 \<le> MIN_TICK div sp" by (simp only:)
    then have "- 1 \<le> w" using assms(3) by linarith
    then have "- 256 * sp \<le> (w * 256 + b) * sp" using assms(1,5) by (intro mult_right_mono) auto
    then show ?thesis using assms(2) by simp
  qed
  have "MAX_TICK div sp * sp \<le> MAX_TICK" using assms(1) by (simp add: minus_mod_eq_div_mult[symmetric])
  moreover have "(w * 256 + b) * sp \<le> (MAX_TICK div sp + 255) * sp" using hi assms(1,6) by (intro mult_right_mono) auto
  ultimately have "(w * 256 + b) * sp \<le> MAX_TICK + 255 * sp" by (simp add: algebra_simps)
  then show "(w * 256 + b) * sp < 2 ^ 31" using assms(2) by (simp add: MAX_TICK_def)
qed

lemma initialized_ticks_stored:
  assumes "pool_stored keccak im store ticks"
  shows "initialized_ticks (im_tick_spacing im) (MIN_TICK div im_tick_spacing im div 256)
      (map store (map (v4_tick_bitmap_slot keccak (im_pool_id im))
         [MIN_TICK div im_tick_spacing im div 256..MAX_TICK div im_tick_spacing im div 256])) = map fst ticks"
proof -
  let ?sp = "im_tick_spacing im" and ?S = "\<lambda>w. store (v4_tick_bitmap_slot keccak (im_pool_id im) w)"
  let ?ws = "[MIN_TICK div ?sp div 256..MAX_TICK div ?sp div 256]"
  let ?in = "\<lambda>t. MIN_TICK \<le> t \<and> t \<le> MAX_TICK"
  define g where "g w = map (\<lambda>b. w * 256 + int b) (filter (bit (?S w)) [0..<256])" for w
  have sp: "0 < ?sp" "?sp < 2 ^ 23" and om: "sorted_wrt (<) (map fst ticks)" using assms by (simp_all add: pool_stored_def om_ok_def)
  have unwrapped: "map (\<lambda>b. wrap_i32 ((w * 256 + int b) * ?sp)) (filter (bit (?S w)) [0..<256]) = map (\<lambda>n. n * ?sp) (g w)"
    if "w \<in> set ?ws" for w
    using that word_range[OF sp, of w] by (auto simp: g_def)
  have "initialized_ticks ?sp (MIN_TICK div ?sp div 256) (map store (map (v4_tick_bitmap_slot keccak (im_pool_id im)) ?ws))
      = filter ?in (concat (map (\<lambda>w. map (\<lambda>b. wrap_i32 ((w * 256 + int b) * ?sp)) (filter (bit (?S w)) [0..<256])) ?ws))"
    unfolding initialized_ticks_def list.map_comp o_def
    by (subst enumerate_upto[where F = "\<lambda>w bits. map (\<lambda>b. wrap_i32 ((w * 256 + int b) * ?sp)) (filter (bit bits) [0..<256])"]) (rule refl)
  also have "\<dots> = filter ?in (map (\<lambda>n. n * ?sp) (concat (map g ?ws)))"
    using unwrapped by (auto simp only: map_concat list.map_comp o_def intro!: arg_cong[where f = "\<lambda>x. filter ?in (concat x)"] map_cong)
  finally have read: "initialized_ticks ?sp (MIN_TICK div ?sp div 256) (map store (map (v4_tick_bitmap_slot keccak (im_pool_id im)) ?ws))
      = filter ?in (map (\<lambda>n. n * ?sp) (concat (map g ?ws)))" .
  have "sorted_wrt (<) (concat (map g ?ws))"
    by (rule sorted_concat_blocks) (auto simp: g_def sorted_wrt_map intro!: sorted_wrt_filter)
  then have sorted: "sorted_wrt (<) (filter ?in (map (\<lambda>n. n * ?sp) (concat (map g ?ws))))"
    using sp(1) by (auto simp: sorted_wrt_map intro!: sorted_wrt_filter elim!: sorted_wrt_mono_rel[rotated])
  have "t \<in> set (filter ?in (map (\<lambda>n. n * ?sp) (concat (map g ?ws)))) \<longleftrightarrow> t \<in> set (map fst ticks)" for t
  proof
    assume "t \<in> set (filter ?in (map (\<lambda>n. n * ?sp) (concat (map g ?ws))))"
    then obtain w b where "t = (w * 256 + int b) * ?sp" "b < 256" "bit (?S w) b" "?in t" by (auto simp: g_def)
    then show "t \<in> set (map fst ticks)" using assms by (simp add: pool_stored_def)
  next
    assume t: "t \<in> set (map fst ticks)"
    then have in_range: "?in t" and dvd: "?sp dvd t" using assms by (auto simp: pool_stored_def)
    define n where "n = t div ?sp"
    have n: "t = n * ?sp" using dvd by (simp add: n_def)
    have "n = n div 256 * 256 + int (nat (n mod 256))" "nat (n mod 256) < 256" by simp_all
    moreover from this have "bit (?S (n div 256)) (nat (n mod 256))" using assms t in_range n by (auto simp: pool_stored_def)
    moreover have "MIN_TICK div ?sp \<le> n" "n \<le> MAX_TICK div ?sp" using in_range sp(1) by (auto simp: n_def intro: zdiv_mono1)
    then have "n div 256 \<in> set ?ws" by (auto intro: zdiv_mono1)
    ultimately have "n \<in> set (concat (map g ?ws))" by (force simp: g_def)
    then show "t \<in> set (filter ?in (map (\<lambda>n. n * ?sp) (concat (map g ?ws))))" using in_range n by auto
  qed
  then show ?thesis unfolding read by (intro strict_sorted_equal[OF om sorted]) blast
qed

lemma tick_map_stored:
  assumes "pool_stored keccak im store ticks" "\<And>slots. nd_extsload nd slots = Inr (map store slots)"
  shows "tick_map keccak nd st im = Inr ticks"
proof -
  have words: "map (\<lambda>k. (k, tick_of_word (store (v4_tick_slot keccak (im_pool_id im) k)))) (map fst ticks) = ticks"
    using assms(1) by (auto simp: pool_stored_def intro!: map_idI)
  have "fold (\<lambda>(t, w). om_put t (tick_of_word w)) (zip (map fst ticks) (map (\<lambda>k. store (v4_tick_slot keccak (im_pool_id im) k)) (map fst ticks))) []
      = fold (\<lambda>(k, v). om_put k v) ticks []"
    by (simp only: fold_om_put_words words)
  also have "\<dots> = ticks" using assms(1) fold_om_put_sorted[of "[]" ticks] by (simp add: pool_stored_def om_ok_def)
  finally have "fold (\<lambda>(t, w). om_put t (tick_of_word w))
      (zip (map fst ticks) (map store (map (v4_tick_slot keccak (im_pool_id im)) (map fst ticks)))) [] = ticks" by (simp add: o_def)
  then show ?thesis using initialized_ticks_stored[OF assms(1)] by (auto simp: tick_map_def Let_def assms(2))
qed

lemma tick_map_ok: "tick_map keccak nd st im = Inr ticks \<Longrightarrow> om_ok ticks"
  using fold_om_put_ok[of "[]" tick_of_word]
  by (auto simp: tick_map_def Let_def pin_bind_Inr om_ok_def split: if_splits)

subsection \<open>A sample node\<close>

definition pinned_sample_state :: state_at where
  "pinned_sample_state = \<lparr>sa_perp = 9, sa_block = \<lparr>block_number = 7, block_hash = 0, block_timestamp = 86400\<rparr>\<rparr>"

definition pinned_sample_views :: market_views where
  "pinned_sample_views = \<lparr>mv_modules = \<lparr>md_beacon = 1, md_fees = 2, md_funding = 3, md_margin_ratios = 4, md_price_impact = 5, md_pricing = 6\<rparr>,
     mv_pool_state = \<lparr>po_tick = 0, po_sqrt_price = 2 ^ 96, po_amm_price = 2 ^ 96, po_liquidity = 5\<rparr>,
     mv_rates = \<lparr>rr_funding_per_day = 0, rr_long_util_fee_per_day = 0, rr_short_util_fee_per_day = 0, rr_last_touch = 86400\<rparr>,
     mv_ema_window = 3600,
     mv_cumulatives = \<lparr>rc_funding = 0, rc_funding_div_sqrt_p = 0, rc_long_util_payments = 0, rc_short_util_payments = 0,
        rc_long_util_earnings = 0, rc_short_util_earnings = 0\<rparr>,
     mv_capacity = (1000, 1000), mv_open_interest = (10, 10)\<rparr>"

text \<open>A node that echoes a call as its row and holds the given words.\<close>

definition pinned_sample_node :: "(u256 \<Rightarrow> u256) \<Rightarrow> pinned_node" where
  "pinned_sample_node store = \<lparr>nd_solvency = Inr (0, 0), nd_next_pos_id = Inr 3, nd_position = (\<lambda>_. Inl OtherCallError),
     nd_maker_details = (\<lambda>_. Inl OtherCallError), nd_modules = Inr (mv_modules pinned_sample_views), nd_rates = Inr (mv_rates pinned_sample_views),
     nd_cumulatives = Inr (mv_cumulatives pinned_sample_views), nd_pool_state = Inr (mv_pool_state pinned_sample_views),
     nd_usdc_balance = (\<lambda>_. Inr 0), nd_maker_ratios = (\<lambda>_. Inr (1000000, 900000, 800000)), nd_taker_ratios = (\<lambda>_. Inr (100000, 50000, 20000)),
     nd_index = (\<lambda>_. Inr (2 ^ 96)), nd_sqrt_price_bounds = (\<lambda>_ _ _ _ _. Inr (MIN_SWAP_SQRT_PRICE_X96, MAX_SWAP_SQRT_PRICE_X96)),
     nd_views = (\<lambda>_. Inr pinned_sample_views),
     nd_aggregate3 = (\<lambda>calls. Inr (map (\<lambda>c. \<lparr>row_success = True, row_data = c\<rparr>) calls)),
     nd_extsload = (\<lambda>slots. Inr (map store slots)), nd_get_proof = (\<lambda>keys. Inr (map (\<lambda>k. (k, 0)) keys)),
     nd_storage_at = (\<lambda>_. Inr 0)\<rparr>"


lemma pinned_sample_mark: "\<exists>m. mark_from (pinned_sample_node store) pinned_sample_state
    \<lparr>pv_modules = mv_modules pinned_sample_views, pv_pool_state = mv_pool_state pinned_sample_views, pv_last_touch = 86400, pv_ema_window = 3600\<rparr> = Inr m
    \<and> mark_block m = sa_block pinned_sample_state"
  by (simp add: mark_from_def pinned_sample_node_def pinned_sample_views_def pinned_sample_state_def registered_module_def at_block_def index_x96_at_def
        stored_emas_at_def mark_advanced_def pair_try_from_x96_def narrow_def calculate_emas_def)

lemma pinned_sample_views_read: "views_of pinned_sample_views = Inr
    \<lparr>pv_modules = mv_modules pinned_sample_views, pv_pool_state = mv_pool_state pinned_sample_views, pv_last_touch = 86400, pv_ema_window = 3600\<rparr>"
  by (simp add: views_of_def pinned_sample_views_def ema_window_secs_def narrow_def)

subsection \<open>Properties\<close>

text \<open>C6: The pool read gives back the pool: over a pool manager whose storage holds a tick map, the bitmap's words and each tick's word
  at their slots, the snapshot's ticks are that map, exactly and in order, beside the price, tick and liquidity the market
  states.\<close>

theorem pool_read_exact:
  assumes "pool_stored keccak im store ticks" "\<And>slots. nd_extsload nd slots = Inr (map store slots)"
    and "read_perp_views nd st = Inr v" "mark_from nd st v = Inr m"
    and "impact_bounds nd st (md_price_impact (pv_modules v)) m = Inr (sqrt_min, sqrt_max)"
    and "active_liquidity ticks (sint (po_tick (pv_pool_state v))) = Inr (LUnits (po_liquidity (pv_pool_state v)))"
  shows "\<exists>p. read_pool_snapshot keccak nd st (Inr im) = Inr p \<and> ps_ticks p = ticks \<and> ps_block p = sa_block st
     \<and> ps_tick p = sint (po_tick (pv_pool_state v)) \<and> uint (sqrt_x96 (ps_sqrt_price p)) = uint (po_sqrt_price (pv_pool_state v))
     \<and> ps_liquidity p = LUnits (po_liquidity (pv_pool_state v))
     \<and> impact_sqrt_min p = SqrtPrice sqrt_min \<and> impact_sqrt_max p = SqrtPrice sqrt_max"
  using assms(3-) by (simp add: read_pool_snapshot_def tick_map_stored[OF assms(1,2)] Let_def uint_ucast_up)

definition sample_keccak :: keccak where
  "sample_keccak bs = foldl (\<lambda>a b. a * 256 + ucast b) 0 (take 32 bs)"

definition pinned_sample_ticks :: "(i32, tick_liquidity) omap" where
  "pinned_sample_ticks = [(- 138180, \<lparr>gross = LUnits 5, net = LDelta 5\<rparr>), (138180, \<lparr>gross = LUnits 5, net = LDelta (- 5)\<rparr>)]"

definition sample_store :: "u256 \<Rightarrow> u256" where
  "sample_store s =
     (if s = - 1 then 2 ^ 255 else if s = 0 then 2
      else if s = - 138180 then tick_word \<lparr>gross = LUnits 5, net = LDelta 5\<rparr>
      else if s = 138180 then tick_word \<lparr>gross = LUnits 5, net = LDelta (- 5)\<rparr>
      else 0)"

definition sample_immutables :: market_immutables where
  "sample_immutables = \<lparr>im_pool_id = 0, im_tick_spacing = 138180, im_era = Upgradeable\<rparr>"

lemma sample_slots:
  "sample_keccak (be_bytes 32 (- 1 :: u256) @ b) = - 1" "sample_keccak (be_bytes 32 (0 :: u256) @ b) = 0"
  "sample_keccak (be_bytes 32 (- 138180 :: u256) @ b) = - 138180" "sample_keccak (be_bytes 32 (138180 :: u256) @ b) = 138180"
proof -
  have front: "sample_keccak (be_bytes 32 k @ b) = foldl (\<lambda>a b. a * 256 + ucast b) 0 (be_bytes 32 k)" for k :: u256
    by (simp add: sample_keccak_def be_bytes_def)
  have "foldl (\<lambda>a b. a * 256 + ucast b) 0 (be_bytes 32 (- 1 :: u256)) = (- 1 :: u256)"
    "foldl (\<lambda>a b. a * 256 + ucast b) 0 (be_bytes 32 (0 :: u256)) = (0 :: u256)"
    "foldl (\<lambda>a b. a * 256 + ucast b) 0 (be_bytes 32 (- 138180 :: u256)) = (- 138180 :: u256)"
    "foldl (\<lambda>a b. a * 256 + ucast b) 0 (be_bytes 32 (138180 :: u256)) = (138180 :: u256)"
    by code_simp+
  then show "sample_keccak (be_bytes 32 (- 1 :: u256) @ b) = - 1" "sample_keccak (be_bytes 32 (0 :: u256) @ b) = 0"
    "sample_keccak (be_bytes 32 (- 138180 :: u256) @ b) = - 138180" "sample_keccak (be_bytes 32 (138180 :: u256) @ b) = 138180"
    by (simp_all only: front)
qed

lemma sample_pool_stored: "pool_stored sample_keccak sample_immutables sample_store pinned_sample_ticks"
proof -
  have bits: "bit (sample_store (v4_tick_bitmap_slot sample_keccak 0 w)) b = ((w * 256 + int b) * 138180 \<in> fst ` set pinned_sample_ticks)"
    if in_range: "b < 256" "- 138180 \<le> (w * 256 + int b) * 138180" "(w * 256 + int b) * 138180 \<le> 138180" for w b
  proof -
    have n: "- 1 \<le> w * 256 + int b" "w * 256 + int b \<le> 1" "0 \<le> int b" "int b \<le> 255" using in_range by (simp_all add: algebra_simps)
    then have "w = - 1 \<or> w = 0" by linarith
    then have "w = - 1 \<and> b = 255 \<or> w = 0 \<and> (b = 0 \<or> b = 1)" using n by auto
    then consider "w = - 1" "b = 255" | "w = 0" "b = 0" | "w = 0" "b = 1" by blast
    then show ?thesis
      by cases (simp_all add: v4_tick_bitmap_slot_def mapping_slot_signed_def mapping_slot_def sample_slots sample_store_def pinned_sample_ticks_def bit_simps)
  qed
  have words: "sample_store (v4_tick_slot sample_keccak 0 (fst e)) = tick_word (snd e)" if "e \<in> set pinned_sample_ticks" for e
    using that by (auto simp: pinned_sample_ticks_def v4_tick_slot_def mapping_slot_signed_def mapping_slot_def sample_slots sample_store_def)
  have "om_ok pinned_sample_ticks" "\<And>e. e \<in> set pinned_sample_ticks \<Longrightarrow> MIN_TICK \<le> fst e \<and> fst e \<le> MAX_TICK \<and> 138180 dvd fst e"
    by (auto simp: om_ok_def pinned_sample_ticks_def MIN_TICK_def MAX_TICK_def)
  then show ?thesis using bits words by (simp add: pool_stored_def sample_immutables_def MIN_TICK_def MAX_TICK_def)
qed

lemma sample_pool_reads: obtains m where
    "read_perp_views (pinned_sample_node store) pinned_sample_state = Inr \<lparr>pv_modules = mv_modules pinned_sample_views,
       pv_pool_state = mv_pool_state pinned_sample_views, pv_last_touch = 86400, pv_ema_window = 3600\<rparr>"
    "mark_from (pinned_sample_node store) pinned_sample_state \<lparr>pv_modules = mv_modules pinned_sample_views,
       pv_pool_state = mv_pool_state pinned_sample_views, pv_last_touch = 86400, pv_ema_window = 3600\<rparr> = Inr m"
    "impact_bounds (pinned_sample_node store) pinned_sample_state (md_price_impact (mv_modules pinned_sample_views)) m
       = Inr (MIN_SWAP_SQRT_PRICE_X96, MAX_SWAP_SQRT_PRICE_X96)"
proof -
  obtain m where "mark_from (pinned_sample_node store) pinned_sample_state \<lparr>pv_modules = mv_modules pinned_sample_views,
      pv_pool_state = mv_pool_state pinned_sample_views, pv_last_touch = 86400, pv_ema_window = 3600\<rparr> = Inr m"
    using pinned_sample_mark by blast
  moreover have "read_perp_views (pinned_sample_node store) pinned_sample_state = views_of pinned_sample_views"
    by (simp add: read_perp_views_def pinned_multicall_def pinned_sample_node_def)
  moreover have "impact_bounds (pinned_sample_node store) pinned_sample_state (md_price_impact (mv_modules pinned_sample_views)) m
      = Inr (MIN_SWAP_SQRT_PRICE_X96, MAX_SWAP_SQRT_PRICE_X96)"
    by (simp add: impact_bounds_def registered_module_def pinned_sample_views_def pinned_sample_node_def)
  ultimately show thesis using that pinned_sample_views_read by simp
qed

lemma sample_active: "active_liquidity pinned_sample_ticks 0 = Inr (LUnits 5)" by code_simp

theorem pool_read_exact_witness:
  "\<exists>p. read_pool_snapshot sample_keccak (pinned_sample_node sample_store) pinned_sample_state (Inr sample_immutables) = Inr p
     \<and> ps_ticks p = pinned_sample_ticks \<and> ps_liquidity p = LUnits 5"
proof -
  obtain m where m: "read_perp_views (pinned_sample_node sample_store) pinned_sample_state = Inr \<lparr>pv_modules = mv_modules pinned_sample_views,
       pv_pool_state = mv_pool_state pinned_sample_views, pv_last_touch = 86400, pv_ema_window = 3600\<rparr>"
    "mark_from (pinned_sample_node sample_store) pinned_sample_state \<lparr>pv_modules = mv_modules pinned_sample_views,
       pv_pool_state = mv_pool_state pinned_sample_views, pv_last_touch = 86400, pv_ema_window = 3600\<rparr> = Inr m"
    "impact_bounds (pinned_sample_node sample_store) pinned_sample_state (md_price_impact (mv_modules pinned_sample_views)) m
       = Inr (MIN_SWAP_SQRT_PRICE_X96, MAX_SWAP_SQRT_PRICE_X96)" by (rule sample_pool_reads)
  have "po_tick (mv_pool_state pinned_sample_views) = 0" "po_liquidity (mv_pool_state pinned_sample_views) = 5"
    by (simp_all add: pinned_sample_views_def)
  then show ?thesis using pool_read_exact[OF sample_pool_stored _ m(1,2)] m(3) sample_active
    by (fastforce simp: pinned_sample_node_def)
qed

text \<open>C38: Whatever the node answers, a snapshot the pool read returns belongs to its tick map: its ticks are in order, its liquidity is what
  they sum to up to its tick, and it carries the handle's block and the protocol's bounds. That the price and the tick the node states
  agree is not checked by the read; under the condition that they do, and that the price lies inside the protocol's bounds, the
  snapshot can be quoted against and every quote returns.\<close>

theorem pool_read_is_quotable:
  assumes "read_pool_snapshot keccak nd st im_read = Inr p"
  shows "om_ok (ps_ticks p) \<and> active_liquidity (ps_ticks p) (ps_tick p) = Inr (ps_liquidity p)
    \<and> uint (l_units (ps_liquidity p)) = net_upto (ps_ticks p) (ps_tick p) \<and> ps_block p = sa_block st
    \<and> protocol_sqrt_min p = SqrtPrice MIN_SWAP_SQRT_PRICE_X96 \<and> protocol_sqrt_max p = SqrtPrice MAX_SWAP_SQRT_PRICE_X96
    \<and> (tick_fits (uint (sqrt_x96 (ps_sqrt_price p))) (ps_tick p)
         \<and> MIN_SWAP_SQRT_PRICE_X96 \<le> sqrt_x96 (ps_sqrt_price p) \<and> sqrt_x96 (ps_sqrt_price p) \<le> MAX_SWAP_SQRT_PRICE_X96
       \<longrightarrow> quotable p \<and> (\<forall>d. quote_perp p d \<noteq> None))"
proof -
  obtain im ticks where t: "tick_map keccak nd st im = Inr ticks" and p: "ps_ticks p = ticks"
      "active_liquidity ticks (ps_tick p) = Inr (ps_liquidity p)" "ps_block p = sa_block st"
      "protocol_sqrt_min p = SqrtPrice MIN_SWAP_SQRT_PRICE_X96" "protocol_sqrt_max p = SqrtPrice MAX_SWAP_SQRT_PRICE_X96"
    using assms(1) by (auto simp: read_pool_snapshot_def pin_bind_Inr pin_valid_Inr Let_def split: if_splits)
  note r = p tick_map_ok[OF t] active_liquidity_Inr[OF p(2)]
  have "limit_ok MIN_SWAP_SQRT_PRICE_X96" "limit_ok MAX_SWAP_SQRT_PRICE_X96" by code_simp+
  then have "quotable p" if "tick_fits (uint (sqrt_x96 (ps_sqrt_price p))) (ps_tick p)"
      "MIN_SWAP_SQRT_PRICE_X96 \<le> sqrt_x96 (ps_sqrt_price p)" "sqrt_x96 (ps_sqrt_price p) \<le> MAX_SWAP_SQRT_PRICE_X96"
    using that r by (simp add: quotable_def pool_ok_def)
  then show ?thesis using quote_perp_returns r by auto
qed

theorem pool_read_is_quotable_witness:
  "\<exists>p. read_pool_snapshot sample_keccak (pinned_sample_node sample_store) pinned_sample_state (Inr sample_immutables) = Inr p
     \<and> quotable p \<and> quote_perp p (PerpDelta 1) \<noteq> None"
proof -
  obtain m where m: "read_perp_views (pinned_sample_node sample_store) pinned_sample_state = Inr \<lparr>pv_modules = mv_modules pinned_sample_views,
       pv_pool_state = mv_pool_state pinned_sample_views, pv_last_touch = 86400, pv_ema_window = 3600\<rparr>"
    "mark_from (pinned_sample_node sample_store) pinned_sample_state \<lparr>pv_modules = mv_modules pinned_sample_views,
       pv_pool_state = mv_pool_state pinned_sample_views, pv_last_touch = 86400, pv_ema_window = 3600\<rparr> = Inr m"
    "impact_bounds (pinned_sample_node sample_store) pinned_sample_state (md_price_impact (mv_modules pinned_sample_views)) m
       = Inr (MIN_SWAP_SQRT_PRICE_X96, MAX_SWAP_SQRT_PRICE_X96)" by (rule sample_pool_reads)
  have "tick_map sample_keccak (pinned_sample_node sample_store) pinned_sample_state sample_immutables = Inr pinned_sample_ticks"
    by (rule tick_map_stored[OF sample_pool_stored]) (simp add: pinned_sample_node_def)
  then obtain p where p: "read_pool_snapshot sample_keccak (pinned_sample_node sample_store) pinned_sample_state (Inr sample_immutables) = Inr p"
      "ps_sqrt_price p = SqrtPrice (2 ^ 96)" "ps_tick p = 0"
    using m sample_active by (simp add: read_pool_snapshot_def Let_def pinned_sample_views_def)
  have "tick_fits (2 ^ 96) 0" by code_simp
  then have "quotable p \<and> quote_perp p (PerpDelta 1) \<noteq> None"
    using pool_read_is_quotable[OF p(1)] p(2,3)
    by (simp add: MIN_SWAP_SQRT_PRICE_X96_def MAX_SWAP_SQRT_PRICE_X96_def)
  then show ?thesis using p(1) by blast
qed

end
