(* ===== verification/Batch_Reads.thy ===== *)
theory Batch_Reads
  imports Pool_Read Maker_Equity
begin

text \<open>
  The batched reads of \<open>src/src/client/state.rs\<close>, \<open>taker_health.rs\<close> and \<open>maker_equity.rs\<close>: many positions in chunks of row multicalls at
  one block, each id with an outcome of its own, the takers' health tests and the makers' settle previews computed from their
  rows and from raw storage. The chunks of a batch are read one after the other. \<open>eth_getProof\<close> may be known to be
  unsupported; what is known is passed along.
\<close>

subsection \<open>The code: rows\<close>

definition MAX_ROW_BATCH :: nat where "MAX_ROW_BATCH = 500"

text \<open>\<open>slice.chunks\<close>; the sizes are positive constants.\<close>

function slice_chunks :: "nat \<Rightarrow> 'a list \<Rightarrow> 'a list list" where
  "slice_chunks n xs = (if n = 0 \<or> xs = [] then [] else take n xs # slice_chunks n (drop n xs))"
  by pat_completeness auto
termination by (relation "measure (length \<circ> snd)") (auto simp: length_greater_0_conv[symmetric] simp del: length_greater_0_conv)

declare slice_chunks.simps [simp del]

record 't row_outcome =
  ro_pos_id :: u256
  ro_row :: "pinned_error + 't option"

definition decode_row :: "(bytes \<Rightarrow> 'r option) \<Rightarrow> multicall_row \<Rightarrow> pinned_error + 'r" where
  "decode_row returns row =
     (if \<not> row_success row then Inl MulticallFailed
      else case returns (row_data row) of None \<Rightarrow> Inl (PinnedInvalid DecodeFailed) | Some r \<Rightarrow> Inr r)"

definition chunk_rows :: "pinned_node \<Rightarrow> state_at \<Rightarrow> nat \<Rightarrow> (u256 \<Rightarrow> bytes list) \<Rightarrow> u256 list \<Rightarrow> pinned_error + multicall_row list" where
  "chunk_rows nd st calls encode pos_ids =
     pin_bind (pinned_call st (nd_aggregate3 nd (concat (map encode pos_ids)))) (\<lambda>rows.
     if length rows \<noteq> calls * length pos_ids then Inl MulticallFailed else Inr rows)"

definition chunk_outcomes :: "pinned_node \<Rightarrow> state_at \<Rightarrow> nat \<Rightarrow> (u256 \<Rightarrow> bytes list)
    \<Rightarrow> (u256 \<Rightarrow> multicall_row list \<Rightarrow> pinned_error + 't option) \<Rightarrow> u256 list \<Rightarrow> 't row_outcome list" where
  "chunk_outcomes nd st calls encode decode chunk = (case chunk_rows nd st calls encode chunk of
      Inr rows \<Rightarrow> map (\<lambda>(pos_id, rows). \<lparr>ro_pos_id = pos_id, ro_row = decode pos_id rows\<rparr>) (zip chunk (slice_chunks calls rows))
    | Inl e \<Rightarrow> (let failure = chunk_failure_new e in
        map (\<lambda>pos_id. \<lparr>ro_pos_id = pos_id, ro_row = Inl (chunk_failure_error failure)\<rparr>) chunk))"

definition batch_rows :: "pinned_node \<Rightarrow> state_at \<Rightarrow> nat \<Rightarrow> (u256 \<Rightarrow> bytes list)
    \<Rightarrow> (u256 \<Rightarrow> multicall_row list \<Rightarrow> pinned_error + 't option) \<Rightarrow> u256 list \<Rightarrow> 't row_outcome list" where
  "batch_rows nd st calls encode decode pos_ids =
     concat (map (chunk_outcomes nd st calls encode decode) (slice_chunks MAX_ROW_BATCH pos_ids))"

definition read_positions :: "abi \<Rightarrow> pinned_node \<Rightarrow> state_at \<Rightarrow> u256 list \<Rightarrow> position_view row_outcome list" where
  "read_positions abi nd st = batch_rows nd st 1 (\<lambda>pos_id. [positions_call abi pos_id])
     (\<lambda>pos_id rows. pin_bind (decode_row (positions_returns abi) (rows ! 0)) (\<lambda>p. Inr (held_position p)))"

definition read_owners :: "abi \<Rightarrow> pinned_node \<Rightarrow> state_at \<Rightarrow> u256 list \<Rightarrow> account row_outcome list" where
  "read_owners abi nd st = batch_rows nd st 1 (\<lambda>pos_id. [owner_of_call abi pos_id])
     (\<lambda>pos_id rows. if \<not> row_success (rows ! 0) \<and> row_data (rows ! 0) = token_does_not_exist abi then Inr None
        else pin_bind (decode_row (owner_of_returns abi) (rows ! 0)) (\<lambda>a. Inr (Some a)))"

definition read_maker_bands :: "abi \<Rightarrow> pinned_node \<Rightarrow> state_at \<Rightarrow> u256 list \<Rightarrow> maker_band row_outcome list" where
  "read_maker_bands abi nd st = batch_rows nd st 1 (\<lambda>pos_id. [maker_details_call abi pos_id])
     (\<lambda>pos_id rows. pin_bind (decode_row (maker_details_returns abi) (rows ! 0)) band_of_row)"

subsection \<open>The code: takers\<close>

definition taker_market :: "pinned_node \<Rightarrow> state_at \<Rightarrow> pinned_error + taker_market_snapshot" where
  "taker_market nd st =
     pin_bind (pinned_multicall st (nd_views nd TakerViews)) (\<lambda>mv.
     pin_bind (views_of mv) (\<lambda>v.
     pin_bind (mark_from nd st v) (\<lambda>m.
     let c = mv_cumulatives mv in
     Inr \<lparr>tms_block = sa_block st, tms_funding = Funding (rc_funding c),
          tms_util_payments = PerSide (Earnings (rc_long_util_payments c)) (Earnings (rc_short_util_payments c)),
          tms_mark = mark_fair_price m\<rparr>)))"

definition taker_state_of :: "abi \<Rightarrow> multicall_row list \<Rightarrow> pinned_error + taker_state option" where
  "taker_state_of abi rows =
     pin_bind (decode_row (positions_returns abi) (rows ! 0)) (\<lambda>p.
     pin_bind (decode_row (taker_details_returns abi) (rows ! 1)) (\<lambda>details.
     pin_bind (decode_row (maker_details_returns abi) (rows ! 2)) (\<lambda>maker.
     let (perp_word, usd_word) = unpack_balance_delta (pr_delta p) in
     if mr_liquidity maker \<noteq> 0 \<or> perp_word = 0 then Inr None
     else pin_bind (pin_valid (ratio_from_e6 (ucast (pr_liq_margin_ratio p)))) (\<lambda>r.
       Inr (Some \<lparr>ts_delta_perp = PerpDelta perp_word, ts_delta_usd = UsdcDelta usd_word,
          ts_margin = UsdcAtoms (pr_margin p), ts_liquidation_margin_ratio = r,
          ts_last_cuml_funding = Funding (pr_last_cuml_funding p),
          ts_last_util_payments = PerSide (Earnings (tr_last_long_util_payments details)) (Earnings (tr_last_short_util_payments details))\<rparr>)))))"

definition taker_outcome :: "abi \<Rightarrow> taker_market_snapshot \<Rightarrow> multicall_row list \<Rightarrow> pinned_error + taker_health option" where
  "taker_outcome abi market rows =
     pin_bind (taker_state_of abi rows) (\<lambda>t. case t of
        None \<Rightarrow> Inr None
      | Some taker \<Rightarrow> pin_bind (pin_valid (taker_health_at market taker)) (\<lambda>h. Inr (Some h)))"

definition taker_healths :: "abi \<Rightarrow> pinned_node \<Rightarrow> state_at \<Rightarrow> u256 list \<Rightarrow> pinned_error + taker_health row_outcome list" where
  "taker_healths abi nd st pos_ids =
     (if pos_ids = [] then Inr []
      else pin_bind (taker_market nd st) (\<lambda>market.
        Inr (batch_rows nd st 3 (\<lambda>pos_id. [positions_call abi pos_id, taker_details_call abi pos_id, maker_details_call abi pos_id])
          (\<lambda>pos_id. taker_outcome abi market) pos_ids)))"

subsection \<open>The code: makers\<close>

datatype maker_kind = Computed maker_breakdown | NotAMaker | Failed pinned_error

record maker_outcome =
  mo_pos_id :: u256
  mo_kind :: maker_kind

record pending_maker =
  pm_input_index :: nat
  pm_pos_id :: u256
  pm_position :: position_view
  pm_details :: maker_row
  pm_tick_lower :: i32
  pm_tick_upper :: i32

definition pending_maker_new :: "nat \<Rightarrow> u256 \<Rightarrow> position_view \<Rightarrow> maker_row \<Rightarrow> pinned_error + pending_maker" where
  "pending_maker_new input_index pos_id p details =
     (let lo = sint (mr_tick_lower details); hi = sint (mr_tick_upper details) in
      pin_bind (pin_valid (get_sqrt_ratio_at_tick lo)) (\<lambda>_.
      pin_bind (pin_valid (get_sqrt_ratio_at_tick hi)) (\<lambda>_.
      Inr \<lparr>pm_input_index = input_index, pm_pos_id = pos_id, pm_position = p, pm_details = details,
           pm_tick_lower = lo, pm_tick_upper = hi\<rparr>)))"

definition band_ticks :: "pending_maker list \<Rightarrow> i32 list" where
  "band_ticks pending = sort (remdups (concat (map (\<lambda>m. [pm_tick_lower m, pm_tick_upper m]) pending)))"

record fee_growth_layout =
  fl_tick_word :: "(i32 \<times> nat) list"
  fl_first_inside_word :: nat
  fl_word_count :: nat

definition fee_growth_layout_new ::
    "keccak \<Rightarrow> u256 \<Rightarrow> account \<Rightarrow> pending_maker list \<Rightarrow> fee_growth_layout \<times> u256 list" where
  "fee_growth_layout_new keccak pool_id perp_address pending =
     (let ticks = band_ticks pending;
          slots = [v4_fee_growth_global1_slot keccak pool_id];
          tick_word = zip ticks [length slots..<length slots + length ticks];
          slots = slots @ map (v4_tick_fee_growth_outside1_slot keccak pool_id) ticks;
          first_inside_word = length slots;
          slots = slots @ map (\<lambda>m. v4_position_fee_growth_inside1_slot keccak pool_id perp_address
                    (pm_tick_lower m) (pm_tick_upper m) (pm_pos_id m)) pending
      in (\<lparr>fl_tick_word = tick_word, fl_first_inside_word = first_inside_word, fl_word_count = length slots\<rparr>, slots))"

definition growth_outside :: "fee_growth_layout \<Rightarrow> u256 list \<Rightarrow> i32 \<Rightarrow> pinned_error + fee_growth" where
  "growth_outside layout words t = (case map_of (fl_tick_word layout) t of
      None \<Rightarrow> Inl (StorageReadFailed None)
    | Some i \<Rightarrow> Inr (FeeGrowth (words ! i)))"

definition growth_inside_last :: "fee_growth_layout \<Rightarrow> u256 list \<Rightarrow> nat \<Rightarrow> fee_growth" where
  "growth_inside_last layout words i = FeeGrowth (words ! (fl_first_inside_word layout + i))"

definition read_fee_growth :: "keccak \<Rightarrow> pinned_node \<Rightarrow> state_at \<Rightarrow> u256 \<Rightarrow> pending_maker list
    \<Rightarrow> pinned_error + fee_growth_layout \<times> u256 list" where
  "read_fee_growth keccak nd st pool_id pending =
     (let (layout, slots) = fee_growth_layout_new keccak pool_id (sa_perp st) pending in
      pin_bind (pinned_call st (nd_extsload nd slots)) (\<lambda>words.
      if length words \<noteq> fl_word_count layout then Inl (StorageReadFailed None) else Inr (layout, words)))"

definition METHOD_NOT_FOUND :: int where "METHOD_NOT_FOUND = - 32601"

definition method_unsupported :: "transport_error \<Rightarrow> bool" where
  "method_unsupported e = (case e of ErrorResp code _ \<Rightarrow> code = METHOD_NOT_FOUND | _ \<Rightarrow> False)"

definition tick_funding_of :: "u256 \<Rightarrow> u256 \<Rightarrow> tick_funding" where
  "tick_funding_of opp div_sqrt_p_opp =
     \<lparr>tf_cuml_funding_opp = Funding opp, tf_cuml_funding_div_sqrt_p_opp = FundingPerSqrtPrice div_sqrt_p_opp\<rparr>"

text \<open>One tick's words out of a proof, or by reads of their own.\<close>

definition proved_funding :: "keccak \<Rightarrow> (u256 \<times> u256) list \<Rightarrow> i32 \<Rightarrow> transport_error + tick_funding" where
  "proved_funding keccak entries t =
     (let (slot_opp, slot_div) = perp_tick_funding_slots keccak t; values = map_of (rev entries) in
      case (values slot_opp, values slot_div) of
        (Some opp, Some div_sqrt_p_opp) \<Rightarrow> Inr (tick_funding_of opp div_sqrt_p_opp)
      | _ \<Rightarrow> Inl OtherError)"

definition stored_funding :: "keccak \<Rightarrow> pinned_node \<Rightarrow> i32 \<Rightarrow> transport_error + tick_funding" where
  "stored_funding keccak nd t =
     (let (slot_opp, slot_div) = perp_tick_funding_slots keccak t in
      case nd_storage_at nd slot_opp of
        Inl e \<Rightarrow> Inl e
      | Inr opp \<Rightarrow> (case nd_storage_at nd slot_div of
            Inl e \<Rightarrow> Inl e
          | Inr div_sqrt_p_opp \<Rightarrow> Inr (tick_funding_of opp div_sqrt_p_opp)))"

definition read_tick_funding :: "keccak \<Rightarrow> pinned_node \<Rightarrow> bool \<Rightarrow> i32 list \<Rightarrow> (i32 \<times> (transport_error + tick_funding)) list \<times> bool" where
  "read_tick_funding keccak nd supports_proof ticks =
     (let fallback = map (\<lambda>t. (t, stored_funding keccak nd t)) ticks in
      if supports_proof then
        (case nd_get_proof nd (concat (map (\<lambda>t. let (a, b) = perp_tick_funding_slots keccak t in [a, b]) ticks)) of
           Inr entries \<Rightarrow> (map (\<lambda>t. (t, proved_funding keccak entries t)) ticks, supports_proof)
         | Inl e \<Rightarrow> (fallback, if method_unsupported e then False else supports_proof))
      else (fallback, supports_proof))"

definition tick_funding_for :: "(i32 \<times> (transport_error + tick_funding)) list \<Rightarrow> i32 \<Rightarrow> pinned_error + tick_funding" where
  "tick_funding_for reads t = (case map_of reads t of
      Some (Inr f) \<Rightarrow> Inr f
    | Some (Inl e) \<Rightarrow> Inl (StorageReadFailed (Some e))
    | None \<Rightarrow> Inl (StorageReadFailed None))"

definition maker_state_of :: "pending_maker \<Rightarrow> ratio \<Rightarrow> tick_funding \<Rightarrow> tick_funding \<Rightarrow> fee_growth \<Rightarrow> fee_growth \<Rightarrow> maker_state" where
  "maker_state_of m r lower_funding upper_funding inside inside_last =
     (let p = pm_position m; d = pm_details m; (perp_word, usd_word) = unpack_balance_delta (pr_delta p) in
      \<lparr>ms_margin = UsdcAtoms (pr_margin p), ms_liquidation_margin_ratio = r,
       ms_delta_perp = PerpDelta perp_word, ms_delta_usd = UsdcDelta usd_word,
       ms_last_cuml_funding = Funding (pr_last_cuml_funding p),
       ms_tick_lower = pm_tick_lower m, ms_tick_upper = pm_tick_upper m, ms_liquidity = LUnits (mr_liquidity d),
       ms_last_util_earnings = PerSide (Earnings (mr_last_long_util_earnings d)) (Earnings (mr_last_short_util_earnings d)),
       ms_capacity = perp_pair (mr_capacity d),
       ms_last_below = Funding (mf_below (mr_last_cuml_funding d)), ms_last_within = Funding (mf_within (mr_last_cuml_funding d)),
       ms_last_div_sqrt_within = FundingPerSqrtPrice (mf_div_sqrt_price_within (mr_last_cuml_funding d)),
       ms_tick_lower_funding = lower_funding, ms_tick_upper_funding = upper_funding,
       ms_fee_growth_inside1 = inside, ms_fee_growth_inside1_last = inside_last\<rparr>)"

definition pending_equity :: "maker_market \<Rightarrow> (i32 \<times> (transport_error + tick_funding)) list \<Rightarrow> fee_growth_layout \<Rightarrow> u256 list
    \<Rightarrow> nat \<times> pending_maker \<Rightarrow> pinned_error + maker_breakdown" where
  "pending_equity market funding layout words im = (case im of (i, m) \<Rightarrow>
     pin_bind (tick_funding_for funding (pm_tick_lower m)) (\<lambda>lower_funding.
     pin_bind (tick_funding_for funding (pm_tick_upper m)) (\<lambda>upper_funding.
     pin_bind (growth_outside layout words (pm_tick_lower m)) (\<lambda>out_lower.
     pin_bind (growth_outside layout words (pm_tick_upper m)) (\<lambda>out_upper.
     pin_bind (pin_valid (ratio_from_e6 (ucast (pr_liq_margin_ratio (pm_position m))))) (\<lambda>r.
     pin_valid (maker_equity market (maker_state_of m r lower_funding upper_funding
       (fee_growth_inside1 (FeeGrowth (words ! 0)) out_lower out_upper (pm_tick_lower m) (pm_tick_upper m) (mm_tick market))
       (growth_inside_last layout words i)))))))))"

definition pending_equities :: "keccak \<Rightarrow> pinned_node \<Rightarrow> state_at \<Rightarrow> maker_market \<Rightarrow> u256 \<Rightarrow> bool \<Rightarrow> pending_maker list
    \<Rightarrow> (pinned_error + maker_breakdown) list \<times> bool" where
  "pending_equities keccak nd st market pool_id supports_proof pending =
     (if pending = [] then ([], supports_proof)
      else let fee_growth = read_fee_growth keccak nd st pool_id pending;
               (funding, supports_proof) = read_tick_funding keccak nd supports_proof (band_ticks pending)
           in case fee_growth of
                Inl e \<Rightarrow> (map (\<lambda>_. Inl (chunk_failure_error (chunk_failure_new e))) pending, supports_proof)
              | Inr (layout, words) \<Rightarrow> (map (pending_equity market funding layout words) (enumerate 0 pending), supports_proof))"

definition maker_rows :: "abi \<Rightarrow> pinned_node \<Rightarrow> state_at \<Rightarrow> u256 list \<Rightarrow> (position_view \<times> maker_row) row_outcome list" where
  "maker_rows abi nd st = batch_rows nd st 2 (\<lambda>pos_id. [positions_call abi pos_id, maker_details_call abi pos_id])
     (\<lambda>pos_id rows.
        pin_bind (decode_row (positions_returns abi) (rows ! 0)) (\<lambda>p.
        pin_bind (decode_row (maker_details_returns abi) (rows ! 1)) (\<lambda>d.
        Inr (if mr_liquidity d \<noteq> 0 then Some (p, d) else None))))"

definition note_row :: "maker_kind list \<times> pending_maker list \<Rightarrow> nat \<times> (position_view \<times> maker_row) row_outcome
    \<Rightarrow> maker_kind list \<times> pending_maker list" where
  "note_row acc io = (case acc of (kinds, pending) \<Rightarrow> (case io of (i, outcome) \<Rightarrow> (case ro_row outcome of
      Inr None \<Rightarrow> (kinds, pending)
    | Inr (Some (p, d)) \<Rightarrow> (case pending_maker_new i (ro_pos_id outcome) p d of
          Inr m \<Rightarrow> (kinds, pending @ [m])
        | Inl e \<Rightarrow> (kinds[i := Failed e], pending))
    | Inl e \<Rightarrow> (kinds[i := Failed e], pending))))"

definition settle_kind :: "pinned_error + maker_breakdown \<Rightarrow> maker_kind" where
  "settle_kind r = (case r of Inr b \<Rightarrow> Computed b | Inl e \<Rightarrow> Failed e)"

definition chunk_equities :: "keccak \<Rightarrow> abi \<Rightarrow> pinned_node \<Rightarrow> state_at \<Rightarrow> maker_market \<Rightarrow> u256 \<Rightarrow> bool \<Rightarrow> u256 list
    \<Rightarrow> maker_kind list \<times> bool" where
  "chunk_equities keccak abi nd st market pool_id supports_proof pos_ids =
     (let (kinds, pending) = foldl note_row (replicate (length pos_ids) NotAMaker, []) (enumerate 0 (maker_rows abi nd st pos_ids));
          (equities, supports_proof) = pending_equities keccak nd st market pool_id supports_proof pending
      in (foldl (\<lambda>kinds (m, r). kinds[pm_input_index m := settle_kind r]) kinds (zip pending equities), supports_proof))"

definition maker_market_at :: "pinned_node \<Rightarrow> state_at \<Rightarrow> price option \<Rightarrow> pinned_error + maker_market" where
  "maker_market_at nd st mark_override =
     pin_bind (pinned_multicall st (nd_views nd MakerViews)) (\<lambda>mv.
     pin_bind (views_of mv) (\<lambda>v.
     pin_bind (mark_from nd st v) (\<lambda>m.
     let c = mv_cumulatives mv; rates = mv_rates mv in
     pin_bind (pin_valid (maker_accrued
       \<lparr>mm_block = sa_block st, mm_funding = Funding (rc_funding c), mm_funding_div_sqrt_p = FundingPerSqrtPrice (rc_funding_div_sqrt_p c),
        mm_util_earnings = PerSide (Earnings (rc_long_util_earnings c)) (Earnings (rc_short_util_earnings c)),
        mm_tick = sint (po_tick (pv_pool_state v)), mm_sqrt_price = SqrtPrice (ucast (po_sqrt_price (pv_pool_state v))),
        mm_mark = mark_fair_price m\<rparr>
       \<lparr>ai_funding_per_day = FundingRate (scast (rr_funding_per_day rates)),
        ai_util_fee_per_day = PerSide (UtilizationRate (rr_long_util_fee_per_day rates)) (UtilizationRate (rr_short_util_fee_per_day rates)),
        ai_last_touch = pv_last_touch v, ai_accrue_to = block_timestamp (sa_block st),
        ai_open_interest = perp_pair (mv_open_interest mv), ai_capacity = perp_pair (mv_capacity mv)\<rparr>)) (\<lambda>market.
     Inr (case mark_override of Some mark \<Rightarrow> with_mark market mark | None \<Rightarrow> market)))))"

fun equities_of_chunks :: "(bool \<Rightarrow> u256 list \<Rightarrow> maker_kind list \<times> bool) \<Rightarrow> bool \<Rightarrow> u256 list list \<Rightarrow> maker_kind list \<times> bool" where
  "equities_of_chunks read supports_proof [] = ([], supports_proof)"
| "equities_of_chunks read supports_proof (chunk # chunks) =
     (let (kinds, supports_proof) = read supports_proof chunk;
          (more, supports_proof) = equities_of_chunks read supports_proof chunks
      in (kinds @ more, supports_proof))"

definition maker_equities_inner :: "keccak \<Rightarrow> abi \<Rightarrow> pinned_node \<Rightarrow> state_at \<Rightarrow> pinned_error + market_immutables \<Rightarrow> bool
    \<Rightarrow> u256 list \<Rightarrow> price option \<Rightarrow> (pinned_error + maker_outcome list) \<times> bool" where
  "maker_equities_inner keccak abi nd st im_read supports_proof pos_ids mark_override =
     (if pos_ids = [] then (Inr [], supports_proof)
      else case pin_bind im_read (\<lambda>im. pin_bind (maker_market_at nd st mark_override) (\<lambda>market. Inr (im_pool_id im, market))) of
             Inl e \<Rightarrow> (Inl e, supports_proof)
           | Inr (pool_id, market) \<Rightarrow>
               let (kinds, supports_proof) = equities_of_chunks (chunk_equities keccak abi nd st market pool_id) supports_proof
                     (slice_chunks MAX_ROW_BATCH pos_ids)
               in (Inr (map (\<lambda>(pos_id, kind). \<lparr>mo_pos_id = pos_id, mo_kind = kind\<rparr>) (zip pos_ids kinds)), supports_proof))"

definition maker_equities :: "keccak \<Rightarrow> abi \<Rightarrow> pinned_node \<Rightarrow> state_at \<Rightarrow> pinned_error + market_immutables \<Rightarrow> bool
    \<Rightarrow> u256 list \<Rightarrow> (pinned_error + maker_outcome list) \<times> bool" where
  "maker_equities keccak abi nd st im_read supports_proof pos_ids =
     maker_equities_inner keccak abi nd st im_read supports_proof pos_ids None"

definition maker_equities_at_mark :: "keccak \<Rightarrow> abi \<Rightarrow> pinned_node \<Rightarrow> state_at \<Rightarrow> pinned_error + market_immutables \<Rightarrow> bool
    \<Rightarrow> u256 list \<Rightarrow> price \<Rightarrow> (pinned_error + maker_outcome list) \<times> bool" where
  "maker_equities_at_mark keccak abi nd st im_read supports_proof pos_ids mark =
     (if price_x96 mark = 0 then (Inl (PinnedInvalid InvalidPrice), supports_proof)
      else maker_equities_inner keccak abi nd st im_read supports_proof pos_ids (Some mark))"

end
