(* ===== verification/Batch_Properties.thy ===== *)
theory Batch_Properties
  imports Batch_Reads
begin

text \<open>
  What the batched reads of \<open>Batch_Reads\<close> promise. Over a node that answers a multicall call by call and a storage read slot by slot, a
  batch is what each of its ids would have got alone, whatever the chunks it was cut into, the ticks its bands share and the words
  its storage read laid side by side; a tick whose words cannot be read fails the makers of that tick and no other.
\<close>

subsection \<open>Chunks\<close>

lemma concat_slice_chunks: "0 < n \<Longrightarrow> concat (slice_chunks n xs) = xs"
  by (induction n xs rule: slice_chunks.induct) (subst slice_chunks.simps, auto)

lemma slice_chunks_uniform:
  assumes "0 < n" "\<And>x. length (f x) = n"
  shows "slice_chunks n (concat (map f xs)) = map f xs"
proof (induction xs)
  case (Cons x xs)
  have "f x \<noteq> []" using assms by (metis length_greater_0_conv)
  then show ?case using assms Cons by (subst slice_chunks.simps) simp
qed (simp add: slice_chunks.simps)

lemma length_slice_chunks: "0 < n \<Longrightarrow> length xs = n * k \<Longrightarrow> length (slice_chunks n xs) = k"
proof (induction k arbitrary: xs)
  case (Suc k)
  then have "xs \<noteq> []" by auto
  then show ?case using Suc by (subst slice_chunks.simps) simp
qed (simp add: slice_chunks.simps)

lemma slice_chunks_one: "0 < n \<Longrightarrow> slice_chunks n [x] = [[x]]"
  by (simp add: slice_chunks.simps)

lemma zip_map_same: "zip xs (map f xs) = map (\<lambda>x. (x, f x)) xs"
  by (induction xs) simp_all

definition answers_rows :: "pinned_node \<Rightarrow> (bytes \<Rightarrow> multicall_row) \<Rightarrow> bool" where
  "answers_rows nd view \<longleftrightarrow> (\<forall>calls. nd_aggregate3 nd calls = Inr (map view calls))"

lemma chunk_outcomes_pointwise:
  assumes "answers_rows nd view" "0 < calls" "\<And>i. length (encode i) = calls"
  shows "chunk_outcomes nd st calls encode decode chunk
    = map (\<lambda>i. \<lparr>ro_pos_id = i, ro_row = decode i (map view (encode i))\<rparr>) chunk"
proof -
  have "length (concat (map encode chunk)) = calls * length chunk" by (induction chunk) (simp_all add: assms(3))
  then have "chunk_rows nd st calls encode chunk = Inr (map view (concat (map encode chunk)))"
    using assms(1) by (simp add: chunk_rows_def answers_rows_def)
  moreover have "slice_chunks calls (map view (concat (map encode chunk))) = map (\<lambda>i. map view (encode i)) chunk"
    using slice_chunks_uniform[OF assms(2), of "\<lambda>i. map view (encode i)" chunk] assms(3) by (simp add: map_concat o_def)
  ultimately show ?thesis by (simp add: chunk_outcomes_def zip_map_same)
qed

lemma batch_rows_pointwise:
  assumes "answers_rows nd view" "0 < calls" "\<And>i. length (encode i) = calls"
  shows "batch_rows nd st calls encode decode pos_ids
    = map (\<lambda>i. \<lparr>ro_pos_id = i, ro_row = decode i (map view (encode i))\<rparr>) pos_ids"
proof -
  have "0 < MAX_ROW_BATCH" by (simp add: MAX_ROW_BATCH_def)
  then have "map g pos_ids = concat (map (map g) (slice_chunks MAX_ROW_BATCH pos_ids))" for g :: "u256 \<Rightarrow> 'a row_outcome"
    by (metis concat_slice_chunks map_concat)
  moreover have "chunk_outcomes nd st calls encode decode = map (\<lambda>i. \<lparr>ro_pos_id = i, ro_row = decode i (map view (encode i))\<rparr>)"
    by (intro ext) (rule chunk_outcomes_pointwise[OF assms])
  ultimately show ?thesis by (simp only: batch_rows_def)
qed

lemma chunk_outcomes_ids:
  assumes "0 < calls"
  shows "map ro_pos_id (chunk_outcomes nd st calls encode decode chunk) = chunk"
proof (cases "chunk_rows nd st calls encode chunk")
  case (Inr rows)
  then have "length rows = calls * length chunk" by (auto simp: chunk_rows_def pin_bind_Inr split: if_splits)
  then have "length (slice_chunks calls rows) = length chunk" by (rule length_slice_chunks[OF assms])
  then show ?thesis using Inr by (simp add: chunk_outcomes_def case_prod_unfold o_def)
qed (simp add: chunk_outcomes_def o_def)

lemma batch_rows_ids:
  assumes "0 < calls"
  shows "map ro_pos_id (batch_rows nd st calls encode decode pos_ids) = pos_ids"
  by (simp add: batch_rows_def map_concat o_def chunk_outcomes_ids[OF assms] concat_slice_chunks MAX_ROW_BATCH_def)

subsection \<open>Takers\<close>

lemma map_each: "map f xs = ys \<longleftrightarrow> list_all2 (\<lambda>x y. f x = y) xs ys"
  by (auto simp: list_all2_conv_all_nth list_eq_iff_nth_eq)

subsection \<open>A sample\<close>

definition sample_abi :: abi where
  "sample_abi = \<lparr>positions_call = (\<lambda>i. [1, ucast i]), taker_details_call = (\<lambda>i. [2, ucast i]), maker_details_call = (\<lambda>i. [3, ucast i]),
     owner_of_call = (\<lambda>i. [4, ucast i]),
     positions_returns = (\<lambda>_. Some \<lparr>pr_delta = push_bit 128 1000000 OR ucast (- 1000000 :: i128), pr_margin = 5000000,
        pr_liq_margin_ratio = 50000, pr_backstop_margin_ratio = 20000, pr_last_cuml_funding = 0\<rparr>),
     taker_details_returns = (\<lambda>_. Some \<lparr>tr_last_long_util_payments = 0, tr_last_short_util_payments = 0\<rparr>),
     maker_details_returns = (\<lambda>data. Some \<lparr>mr_tick_lower = - 30, mr_tick_upper = 30, mr_liquidity = (if data = [3, 1] then 1000000 else 0),
        mr_last_long_util_earnings = 0, mr_last_short_util_earnings = 0, mr_capacity = (1000, 1000),
        mr_last_cuml_funding = \<lparr>mf_below = 0, mf_within = 0, mf_div_sqrt_price_within = 0\<rparr>\<rparr>),
     owner_of_returns = (\<lambda>_. Some 1), token_does_not_exist = []\<rparr>"

lemma pinned_sample_taker_market: "\<exists>m. taker_market (pinned_sample_node store) pinned_sample_state = Inr m"
  using pinned_sample_mark[of store] pinned_sample_views_read by (auto simp: taker_market_def pinned_multicall_def pinned_sample_node_def Let_def)

lemma pinned_sample_maker_market: "\<exists>m. maker_market_at (pinned_sample_node store) pinned_sample_state None = Inr m"
proof -
  obtain m where "mark_from (pinned_sample_node store) pinned_sample_state \<lparr>pv_modules = mv_modules pinned_sample_views, pv_pool_state = mv_pool_state pinned_sample_views, pv_last_touch = 86400, pv_ema_window = 3600\<rparr> = Inr m"
    using pinned_sample_mark by blast
  then show ?thesis using pinned_sample_views_read
    by (simp add: maker_market_at_def pinned_multicall_def Let_def maker_accrued_def pinned_sample_state_def) (simp add: pinned_sample_node_def pinned_multicall_def)
qed

lemma sample_answers: "answers_rows (pinned_sample_node store) (\<lambda>c. \<lparr>row_success = True, row_data = c\<rparr>)"
  by (simp add: answers_rows_def pinned_sample_node_def)

text \<open>C39: Over a node that answers a multicall call by call, a batch of liquidation tests is what each of its ids gets when it is asked
  for alone, in the order asked, however the batch is cut into chunks; a row that fails fails its own id.\<close>

theorem taker_batch_is_each_alone:
  assumes "answers_rows nd view" "pos_ids \<noteq> []"
  shows "taker_healths abi nd st pos_ids = Inr outs
    \<longleftrightarrow> list_all2 (\<lambda>pos_id out. taker_healths abi nd st [pos_id] = Inr [out]) pos_ids outs"
proof (cases "taker_market nd st")
  case (Inl e)
  then show ?thesis using assms(2) by (cases pos_ids) (auto simp: taker_healths_def list_all2_Cons1)
next
  case (Inr market)
  define f where "f i = \<lparr>ro_pos_id = i, ro_row = taker_outcome abi market
      (map view [positions_call abi i, taker_details_call abi i, maker_details_call abi i])\<rparr>" for i
  have "taker_healths abi nd st ids = Inr (map f ids)" if "ids \<noteq> []" for ids
    using that Inr batch_rows_pointwise[OF assms(1), of 3
        "\<lambda>i. [positions_call abi i, taker_details_call abi i, maker_details_call abi i]" st "\<lambda>i. taker_outcome abi market" ids]
    by (simp add: taker_healths_def f_def)
  then show ?thesis using assms(2) by (simp add: map_each)
qed

theorem taker_batch_is_each_alone_witness:
  "\<exists>a b. taker_healths sample_abi (pinned_sample_node (\<lambda>_. 0)) pinned_sample_state [1, 2] = Inr [a, b] \<and> ro_row a = Inr None
     \<and> taker_healths sample_abi (pinned_sample_node (\<lambda>_. 0)) pinned_sample_state [2] = Inr [b]"
proof -
  obtain m where m: "taker_market (pinned_sample_node (\<lambda>_. 0)) pinned_sample_state = Inr m" using pinned_sample_taker_market by blast
  obtain a b where ab: "taker_healths sample_abi (pinned_sample_node (\<lambda>_. 0)) pinned_sample_state [1, 2] = Inr [a, b]" "ro_row a = Inr None"
    by (simp add: taker_healths_def m batch_rows_pointwise[OF sample_answers] taker_outcome_def taker_state_of_def decode_row_def
          sample_abi_def Let_def case_prod_unfold)
  then show ?thesis using taker_batch_is_each_alone[OF sample_answers, of "[1, 2]" sample_abi _ pinned_sample_state "[a, b]"] by auto
qed

subsection \<open>Storage laid side by side\<close>

definition answers_slots :: "pinned_node \<Rightarrow> (u256 \<Rightarrow> u256) \<Rightarrow> bool" where
  "answers_slots nd store \<longleftrightarrow> (\<forall>slots. nd_extsload nd slots = Inr (map store slots))"

text \<open>Proofs that hold the words of the slots kept, or none at all.\<close>

definition answers_proofs :: "pinned_node \<Rightarrow> bool \<Rightarrow> (u256 \<Rightarrow> bool) \<Rightarrow> (u256 \<Rightarrow> u256) \<Rightarrow> bool" where
  "answers_proofs nd proved kept words \<longleftrightarrow>
     (if proved then \<forall>keys. nd_get_proof nd keys = Inr (map (\<lambda>k. (k, words k)) (filter kept keys))
      else \<exists>e. \<forall>keys. nd_get_proof nd keys = Inl e)"

definition tick_answer :: "keccak \<Rightarrow> pinned_node \<Rightarrow> (u256 \<Rightarrow> bool) \<Rightarrow> (u256 \<Rightarrow> u256) \<Rightarrow> bool \<Rightarrow> i32 \<Rightarrow> transport_error + tick_funding" where
  "tick_answer keccak nd kept words by_proof t =
     (if by_proof then (let (a, b) = perp_tick_funding_slots keccak t in
        if kept a \<and> kept b then Inr (tick_funding_of (words a) (words b)) else Inl OtherError)
      else stored_funding keccak nd t)"

lemma kept_value: "k \<in> set keys \<Longrightarrow>
    map_of (rev (map (\<lambda>k. (k, words k)) (filter kept keys))) k = (if kept k then Some (words k) else None)"
  by (simp add: rev_map map_of_map_restrict restrict_map_def)

lemma read_tick_funding_answers:
  assumes "answers_proofs nd proved kept words"
  shows "\<exists>s'. read_tick_funding keccak nd s ticks = (map (\<lambda>t. (t, tick_answer keccak nd kept words (s \<and> proved) t)) ticks, s')
    \<and> (s' \<and> proved) = (s \<and> proved)"
proof (cases "s \<and> proved")
  case True
  let ?keys = "concat (map (\<lambda>t. let (a, b) = perp_tick_funding_slots keccak t in [a, b]) ticks)"
  have "proved_funding keccak (map (\<lambda>k. (k, words k)) (filter kept ?keys)) t = tick_answer keccak nd kept words True t"
    if "t \<in> set ticks" for t
  proof -
    obtain a b where ab: "perp_tick_funding_slots keccak t = (a, b)" by fastforce
    then have "a \<in> set ?keys" "b \<in> set ?keys" using that by (force simp: Let_def)+
    then show ?thesis by (simp add: proved_funding_def tick_answer_def ab kept_value Let_def)
  qed
  moreover have "nd_get_proof nd ?keys = Inr (map (\<lambda>k. (k, words k)) (filter kept ?keys))" "s"
    using True assms by (simp_all add: answers_proofs_def)
  ultimately show ?thesis using True by (auto simp: read_tick_funding_def Let_def)
next
  case False
  then show ?thesis using assms
    by (cases s; cases proved) (auto simp: read_tick_funding_def tick_answer_def answers_proofs_def Let_def)
qed

lemma tick_funding_for_map:
  "t \<in> set ticks \<Longrightarrow> tick_funding_for (map (\<lambda>t. (t, f t)) ticks) t
     = (case f t of Inr x \<Rightarrow> Inr x | Inl e \<Rightarrow> Inl (StorageReadFailed (Some e)))"
  by (simp add: tick_funding_for_def map_of_map_restrict restrict_map_def split: sum.splits)

lemma fee_growth_laid_out:
  fixes store :: "u256 \<Rightarrow> u256"
  assumes "fee_growth_layout_new keccak pool_id owner pending = (layout, slots)"
  shows "length slots = fl_word_count layout"
    and "map store slots ! 0 = store (v4_fee_growth_global1_slot keccak pool_id)"
    and "t \<in> set (band_ticks pending) \<Longrightarrow>
      growth_outside layout (map store slots) t = Inr (FeeGrowth (store (v4_tick_fee_growth_outside1_slot keccak pool_id t)))"
    and "i < length pending \<Longrightarrow> growth_inside_last layout (map store slots) i
      = FeeGrowth (store (v4_position_fee_growth_inside1_slot keccak pool_id owner
          (pm_tick_lower (pending ! i)) (pm_tick_upper (pending ! i)) (pm_pos_id (pending ! i))))"
proof -
  let ?ticks = "band_ticks pending"
  have l: "fl_tick_word layout = zip ?ticks [Suc 0..<Suc (length ?ticks)]" "fl_first_inside_word layout = Suc (length ?ticks)"
      "fl_word_count layout = Suc (length ?ticks + length pending)"
      "slots = v4_fee_growth_global1_slot keccak pool_id # map (v4_tick_fee_growth_outside1_slot keccak pool_id) ?ticks
         @ map (\<lambda>m. v4_position_fee_growth_inside1_slot keccak pool_id owner (pm_tick_lower m) (pm_tick_upper m) (pm_pos_id m)) pending"
    using assms by (auto simp: fee_growth_layout_new_def Let_def simp del: upt_Suc)
  show "length slots = fl_word_count layout" "map store slots ! 0 = store (v4_fee_growth_global1_slot keccak pool_id)"
    using l by auto
  show "growth_outside layout (map store slots) t = Inr (FeeGrowth (store (v4_tick_fee_growth_outside1_slot keccak pool_id t)))"
    if t: "t \<in> set ?ticks"
  proof -
    obtain j where j: "j < length ?ticks" "?ticks ! j = t" using t unfolding in_set_conv_nth by blast
    have "distinct ?ticks" by (simp add: band_ticks_def)
    then have "map_of (zip ?ticks [Suc 0..<Suc (length ?ticks)]) (?ticks ! j) = Some (Suc j)"
      using j(1) by (subst map_of_zip_nth) (simp_all del: upt_Suc)
    then show ?thesis using l j by (simp add: growth_outside_def nth_append del: upt_Suc)
  qed
  show "growth_inside_last layout (map store slots) i
      = FeeGrowth (store (v4_position_fee_growth_inside1_slot keccak pool_id owner
          (pm_tick_lower (pending ! i)) (pm_tick_upper (pending ! i)) (pm_pos_id (pending ! i))))" if "i < length pending"
    using l that by (auto simp: growth_inside_last_def nth_append)
qed

subsection \<open>One maker\<close>

text \<open>The settle preview of one maker from its own rows and its own slots.\<close>

definition lone_equity :: "keccak \<Rightarrow> account \<Rightarrow> maker_market \<Rightarrow> u256 \<Rightarrow> (u256 \<Rightarrow> u256)
    \<Rightarrow> (i32 \<Rightarrow> transport_error + tick_funding) \<Rightarrow> pending_maker \<Rightarrow> pinned_error + maker_breakdown" where
  "lone_equity keccak owner market pool_id store funding m =
     (let funded = (\<lambda>t. case funding t of Inr x \<Rightarrow> Inr x | Inl e \<Rightarrow> Inl (StorageReadFailed (Some e)));
          outside = (\<lambda>t. FeeGrowth (store (v4_tick_fee_growth_outside1_slot keccak pool_id t))) in
      pin_bind (funded (pm_tick_lower m)) (\<lambda>lower_funding.
      pin_bind (funded (pm_tick_upper m)) (\<lambda>upper_funding.
      pin_bind (pin_valid (ratio_from_e6 (ucast (pr_liq_margin_ratio (pm_position m))))) (\<lambda>r.
      pin_valid (maker_equity market (maker_state_of m r lower_funding upper_funding
        (fee_growth_inside1 (FeeGrowth (store (v4_fee_growth_global1_slot keccak pool_id)))
           (outside (pm_tick_lower m)) (outside (pm_tick_upper m)) (pm_tick_lower m) (pm_tick_upper m) (mm_tick market))
        (FeeGrowth (store (v4_position_fee_growth_inside1_slot keccak pool_id owner (pm_tick_lower m) (pm_tick_upper m) (pm_pos_id m))))))))))"

lemma pending_equities_alone:
  assumes "answers_slots nd store" "answers_proofs nd proved kept words"
  shows "\<exists>s'. pending_equities keccak nd st market pool_id s pending
      = (map (lone_equity keccak (sa_perp st) market pool_id store (tick_answer keccak nd kept words (s \<and> proved))) pending, s')
    \<and> (s' \<and> proved) = (s \<and> proved)"
proof (cases "pending = []")
  case False
  obtain layout slots where l: "fee_growth_layout_new keccak pool_id (sa_perp st) pending = (layout, slots)" by fastforce
  note words = fee_growth_laid_out[OF l]
  obtain s' where s': "read_tick_funding keccak nd s (band_ticks pending)
      = (map (\<lambda>t. (t, tick_answer keccak nd kept words (s \<and> proved) t)) (band_ticks pending), s')" "(s' \<and> proved) = (s \<and> proved)"
    using read_tick_funding_answers[OF assms(2)] by blast
  have growth: "read_fee_growth keccak nd st pool_id pending = Inr (layout, map store slots)"
    using assms(1) l words(1) by (simp add: read_fee_growth_def answers_slots_def)
  have "pending_equity market (map (\<lambda>t. (t, tick_answer keccak nd kept words (s \<and> proved) t)) (band_ticks pending)) layout (map store slots) (i, pending ! i)
      = lone_equity keccak (sa_perp st) market pool_id store (tick_answer keccak nd kept words (s \<and> proved)) (pending ! i)" if "i < length pending" for i
  proof -
    have "pm_tick_lower (pending ! i) \<in> set (band_ticks pending)" "pm_tick_upper (pending ! i) \<in> set (band_ticks pending)"
      using that by (auto simp: band_ticks_def)
    then show ?thesis using that words by (simp add: pending_equity_def lone_equity_def tick_funding_for_map Let_def)
  qed
  then have "map (pending_equity market (map (\<lambda>t. (t, tick_answer keccak nd kept words (s \<and> proved) t)) (band_ticks pending)) layout (map store slots)) (enumerate 0 pending)
      = map (lone_equity keccak (sa_perp st) market pool_id store (tick_answer keccak nd kept words (s \<and> proved))) pending"
    by (intro nth_equalityI) (simp_all add: nth_enumerate_eq)
  then show ?thesis using False s' growth by (simp add: pending_equities_def)
qed (simp add: pending_equities_def)

subsection \<open>A chunk of makers\<close>

definition maker_kind_of :: "(pending_maker \<Rightarrow> pinned_error + maker_breakdown) \<Rightarrow> (position_view \<times> maker_row) row_outcome \<Rightarrow> maker_kind" where
  "maker_kind_of equity_of out = (case ro_row out of
      Inl e \<Rightarrow> Failed e
    | Inr None \<Rightarrow> NotAMaker
    | Inr (Some (p, d)) \<Rightarrow> (case pending_maker_new 0 (ro_pos_id out) p d of
          Inl e \<Rightarrow> Failed e
        | Inr m \<Rightarrow> settle_kind (equity_of m)))"

text \<open>What the first pass over the rows leaves: a kind for every row, and the makers to come.\<close>

definition first_kind :: "(position_view \<times> maker_row) row_outcome \<Rightarrow> maker_kind" where
  "first_kind out = (case ro_row out of
      Inl e \<Rightarrow> Failed e
    | Inr None \<Rightarrow> NotAMaker
    | Inr (Some (p, d)) \<Rightarrow> (case pending_maker_new 0 (ro_pos_id out) p d of Inl e \<Rightarrow> Failed e | Inr m \<Rightarrow> NotAMaker))"

definition pending_at :: "nat \<Rightarrow> (position_view \<times> maker_row) row_outcome \<Rightarrow> pending_maker list" where
  "pending_at i out = (case ro_row out of
      Inr (Some (p, d)) \<Rightarrow> (case pending_maker_new i (ro_pos_id out) p d of Inl e \<Rightarrow> [] | Inr m \<Rightarrow> [m])
    | _ \<Rightarrow> [])"

fun pending_from :: "nat \<Rightarrow> (position_view \<times> maker_row) row_outcome list \<Rightarrow> pending_maker list" where
  "pending_from n [] = []"
| "pending_from n (out # outs) = pending_at n out @ pending_from (Suc n) outs"

lemma pending_maker_cases:
  obtains e where "\<And>i. pending_maker_new i pos_id p d = Inl e"
  | m where "\<And>i. pending_maker_new i pos_id p d = Inr (m\<lparr>pm_input_index := i\<rparr>)"
proof (cases "pending_maker_new 0 pos_id p d")
  case (Inl e)
  then have "pending_maker_new i pos_id p d = Inl e" for i
    by (auto simp: pending_maker_new_def Let_def pin_bind_def split: sum.splits)
  then show thesis by (rule that(1))
next
  case (Inr m)
  then have "pending_maker_new i pos_id p d = Inr (m\<lparr>pm_input_index := i\<rparr>)" for i
    by (auto simp: pending_maker_new_def Let_def pin_bind_def split: sum.splits)
  then show thesis by (rule that(2))
qed

lemma note_row_step:
  "note_row (pre @ NotAMaker # post, ps) (length pre, out) = (pre @ first_kind out # post, ps @ pending_at (length pre) out)"
proof (cases "ro_row out")
  case (Inr r)
  then show ?thesis
  proof (cases r)
    case (Some pd)
    obtain p d where pd: "pd = (p, d)" by fastforce
    show ?thesis
      by (rule pending_maker_cases[of "ro_pos_id out" p d])
         (simp_all add: note_row_def first_kind_def pending_at_def Inr Some pd)
  qed (simp add: note_row_def first_kind_def pending_at_def)
qed (simp add: note_row_def first_kind_def pending_at_def)

lemma note_rows:
  "foldl note_row (pre @ replicate (length outs) NotAMaker, ps) (enumerate (length pre) outs)
    = (pre @ map first_kind outs, ps @ pending_from (length pre) outs)"
proof (induction outs arbitrary: pre ps)
  case (Cons out outs)
  show ?case using Cons.IH[of "pre @ [first_kind out]" "ps @ pending_at (length pre) out"]
    by (simp add: note_row_step)
qed simp

lemma settle_pending:
  assumes "\<And>m i. equity_of (m\<lparr>pm_input_index := i\<rparr>) = equity_of m"
  shows "foldl (\<lambda>kinds (m, r). kinds[pm_input_index m := settle_kind r]) (pre @ map first_kind outs)
      (zip (pending_from (length pre) outs) (map equity_of (pending_from (length pre) outs)))
    = pre @ map (maker_kind_of equity_of) outs"
proof (induction outs arbitrary: pre)
  case (Cons out outs)
  have step: "foldl (\<lambda>kinds (m, r). kinds[pm_input_index m := settle_kind r]) (pre @ first_kind out # map first_kind outs)
      (zip (pending_at (length pre) out) (map equity_of (pending_at (length pre) out)))
    = pre @ maker_kind_of equity_of out # map first_kind outs"
  proof (cases "ro_row out")
    case (Inr r)
    then show ?thesis
    proof (cases r)
      case (Some pd)
      obtain p d where pd: "pd = (p, d)" by fastforce
      show ?thesis
        by (rule pending_maker_cases[of "ro_pos_id out" p d])
           (simp_all add: first_kind_def pending_at_def maker_kind_of_def Inr Some pd assms)
    qed (simp add: first_kind_def pending_at_def maker_kind_of_def)
  qed (simp add: first_kind_def pending_at_def maker_kind_of_def)
  show ?case using Cons.IH[of "pre @ [maker_kind_of equity_of out]"] step by simp
qed simp

lemma lone_equity_index [simp]: "lone_equity keccak owner market pool_id store funding (m\<lparr>pm_input_index := i\<rparr>)
    = lone_equity keccak owner market pool_id store funding m"
  by (simp add: lone_equity_def maker_state_of_def Let_def)

lemma chunk_equities_alone:
  assumes "answers_rows nd view" "answers_slots nd store" "answers_proofs nd proved kept words"
  shows "\<exists>s'. chunk_equities keccak abi nd st market pool_id s pos_ids
      = (map (maker_kind_of (lone_equity keccak (sa_perp st) market pool_id store (tick_answer keccak nd kept words (s \<and> proved))))
           (maker_rows abi nd st pos_ids), s')
    \<and> (s' \<and> proved) = (s \<and> proved)"
proof -
  let ?outs = "maker_rows abi nd st pos_ids"
  let ?equity = "lone_equity keccak (sa_perp st) market pool_id store (tick_answer keccak nd kept words (s \<and> proved))"
  have "map ro_pos_id ?outs = pos_ids" unfolding maker_rows_def by (rule batch_rows_ids) simp
  then have "length pos_ids = length ?outs" by (metis length_map)
  then have "foldl note_row (replicate (length pos_ids) NotAMaker, []) (enumerate 0 ?outs) = (map first_kind ?outs, pending_from 0 ?outs)"
    using note_rows[of "[]" ?outs "[]"] by simp
  moreover obtain s' where "pending_equities keccak nd st market pool_id s (pending_from 0 ?outs) = (map ?equity (pending_from 0 ?outs), s')"
      "(s' \<and> proved) = (s \<and> proved)"
    using pending_equities_alone[OF assms(2,3)] by blast
  ultimately show ?thesis using settle_pending[of ?equity "[]" ?outs] by (simp add: chunk_equities_def)
qed

lemma equities_of_chunks_alone:
  assumes "\<And>s chunk. \<exists>s'. read s chunk = (map (f (s \<and> proved)) chunk, s') \<and> (s' \<and> proved) = (s \<and> proved)"
  shows "fst (equities_of_chunks read s chunks) = map (f (s \<and> proved)) (concat chunks)"
proof (induction chunks arbitrary: s)
  case (Cons chunk chunks)
  obtain s' where "read s chunk = (map (f (s \<and> proved)) chunk, s')" "(s' \<and> proved) = (s \<and> proved)" using assms by blast
  then show ?case using Cons.IH[of s'] by (simp add: Let_def case_prod_unfold)
qed simp

text \<open>C5: Over a node that answers a multicall call by call and a storage read slot by slot, a batch of settle previews is what each of its
  ids gets when it is asked for alone: the chunks, the ticks that bands share and read once, the layout of the storage words and the order
  in which the makers among the ids are put back leave no trace, also where the words of some ticks cannot be read.\<close>

theorem maker_batch_is_each_alone:
  assumes "answers_rows nd view" "answers_slots nd store" "answers_proofs nd proved kept words" "pos_ids \<noteq> []"
  shows "fst (maker_equities keccak abi nd st im_read supports pos_ids) = Inr outs
    \<longleftrightarrow> list_all2 (\<lambda>pos_id out. fst (maker_equities keccak abi nd st im_read supports [pos_id]) = Inr [out]) pos_ids outs"
proof (cases "pin_bind im_read (\<lambda>im. pin_bind (maker_market_at nd st None) (\<lambda>market. Inr (im_pool_id im, market)))")
  case (Inl e)
  then show ?thesis using assms(4)
    by (cases pos_ids) (auto simp: maker_equities_def maker_equities_inner_def list_all2_Cons1)
next
  case (Inr found)
  obtain pool_id market where found: "found = (pool_id, market)" by fastforce
  define equity_of where "equity_of by_proof = lone_equity keccak (sa_perp st) market pool_id store (tick_answer keccak nd kept words by_proof)" for by_proof
  define g where "g = (\<lambda>by_proof i. maker_kind_of (equity_of by_proof) (the_elem (set (maker_rows abi nd st [i]))))"
  have rows: "maker_rows abi nd st ids = map (\<lambda>i. the_elem (set (maker_rows abi nd st [i]))) ids" for ids
    by (simp add: maker_rows_def batch_rows_pointwise[OF assms(1)])
  have chunk: "\<exists>s'. chunk_equities keccak abi nd st market pool_id s ids = (map (g (s \<and> proved)) ids, s') \<and> (s' \<and> proved) = (s \<and> proved)" for s ids
    using chunk_equities_alone[OF assms(1-3), of keccak abi st market pool_id s ids] rows[of ids] by (simp add: g_def equity_of_def o_def)
  have "fst (maker_equities keccak abi nd st im_read supports ids) = Inr (map (\<lambda>i. \<lparr>mo_pos_id = i, mo_kind = g (supports \<and> proved) i\<rparr>) ids)"
    if "ids \<noteq> []" for ids
    using that Inr equities_of_chunks_alone[OF chunk, of supports "slice_chunks MAX_ROW_BATCH ids"]
    by (simp add: maker_equities_def maker_equities_inner_def found case_prod_unfold Let_def concat_slice_chunks MAX_ROW_BATCH_def zip_map_same)
  then show ?thesis using assms(4) by (simp add: map_each)
qed

theorem maker_batch_is_each_alone_witness:
  "\<exists>a b. fst (maker_equities sample_keccak sample_abi (pinned_sample_node (\<lambda>_. 0)) pinned_sample_state (Inr sample_immutables) True [1, 2]) = Inr [a, b]
     \<and> mo_kind b = NotAMaker \<and> mo_kind a \<noteq> NotAMaker
     \<and> fst (maker_equities sample_keccak sample_abi (pinned_sample_node (\<lambda>_. 0)) pinned_sample_state (Inr sample_immutables) True [1]) = Inr [a]"
proof -
  let ?nd = "pinned_sample_node (\<lambda>_. 0)"
  have slots: "answers_slots ?nd (\<lambda>_. 0)" by (simp add: answers_slots_def pinned_sample_node_def)
  have proofs: "answers_proofs ?nd True (\<lambda>_. True) (\<lambda>_. 0)" by (simp add: answers_proofs_def pinned_sample_node_def)
  obtain m where m: "maker_market_at ?nd pinned_sample_state None = Inr m" using pinned_sample_maker_market by blast
  have one: "slice_chunks MAX_ROW_BATCH [1, 2 :: u256] = [[1, 2]]" by (simp add: slice_chunks.simps MAX_ROW_BATCH_def)
  obtain pd where rows: "maker_rows sample_abi ?nd pinned_sample_state [1, 2]
      = [\<lparr>ro_pos_id = 1, ro_row = Inr (Some pd)\<rparr>, \<lparr>ro_pos_id = 2, ro_row = Inr None\<rparr>]"
    by (simp add: maker_rows_def batch_rows_pointwise[OF sample_answers] decode_row_def sample_abi_def)
  obtain a b where "fst (maker_equities sample_keccak sample_abi ?nd pinned_sample_state (Inr sample_immutables) True [1, 2]) = Inr [a, b]"
      "mo_kind b = NotAMaker" "mo_kind a \<noteq> NotAMaker"
    using chunk_equities_alone[OF sample_answers slots proofs, of sample_keccak sample_abi pinned_sample_state m 0 True "[1, 2]"]
    by (auto simp: maker_equities_def maker_equities_inner_def m one rows sample_immutables_def maker_kind_of_def settle_kind_def
          Let_def case_prod_unfold split: sum.splits prod.splits)
  then show ?thesis
    using maker_batch_is_each_alone[OF sample_answers slots proofs, of "[1, 2]" sample_keccak sample_abi pinned_sample_state "Inr sample_immutables" True "[a, b]"]
    by auto
qed

end
