(* ===== verification/Spec2Isabelle.thy ===== *)
theory Spec2Isabelle
  imports Scaling Quotes Pricing Maker_Edge Maker_Close Rpc_Router Tx_Send Series_Queries Replay_Properties Scan_Windows Read_Properties Latency_Tracker Batch_Properties
begin

text \<open>
  A verification development for the PerpCity Rust SDK, a client of the PerpCity perpetual futures protocol (\<open>src/src\<close>).

  \<^bold>\<open>The program.\<close> The crate computes in exact integers what the protocol's contracts compute (\<open>units/\<close>, \<open>math/\<close>): a swap
  against the pool, the health of a taker, the equity of a maker and what a close would settle. It sends transactions and reads
  state through a transport of several RPC endpoints with circuit breakers (\<open>transport/\<close>), with caches, a gas table and a lock-free
  nonce counter beside it (\<open>hft/\<close>, \<open>client/transactions.rs\<close>). And it reads a market's logs in adaptive chunks, keeps them as a
  tape and rebuilds the market from it by folds that can be cut and combined (\<open>history/\<close>).

  The parts meet in three places. A quote, a health test and a settle preview take a pool snapshot, a market and a position as
  values; the replay of a tape produces such a snapshot, and \<open>replayed_pool_is_simulated\<close> says it is the one the simulation
  would go on from. A send takes its gas limit and fees from the caches, its nonce from the pipeline and its requests through the
  router; \<open>send_refines_protocol\<close> and \<open>route_request_refines_protocol\<close> say that each is a run of the protocol whose invariants
  (\<open>nonces_out_once\<close>, \<open>no_silent_hole\<close>, \<open>probe_slots_accounted\<close>) are proved for every interleaving. A tape is what the scan
  delivered; \<open>market_tape_of_the_chain\<close> joins the two.

  \<^bold>\<open>Conventions.\<close> A \<open>u64\<close>, \<open>u128\<close>, \<open>U256\<close> or \<open>U512\<close> is a word of its width and its signed twin the same word read by
  \<open>sint\<close>; the plain operators wrap, as in a release build, and \<open>debug_assert!\<close> is not part of it. An \<open>i32\<close> tick is an
  \<open>int\<close> and a \<open>usize\<close> a \<open>nat\<close>. A fallible function returns \<open>error + 'a\<close>, \<open>rbind\<close> is the \<open>?\<close> operator, and a panic is the
  error \<open>Panic\<close>; an error keeps its variant and its numbers, not its text. Mutation is a state passed and returned. What the code
  calls and this repository does not hold is a parameter: the integer square root of \<open>ruint\<close> (\<open>root2\<close>, assumed to be the floor of
  the root), an unstable sort (assumed to be a sorted permutation), the network, the node, the signer, the clock, the block
  headers, the float products of the gas buffer, the table of function selectors, which answers of a node ask for a narrower scan,
  the encoding and the hash of a recording. ABI decoding is alloy's, so a decoded log comes in as a value, one constructor for
  each event binding.

  \<^bold>\<open>Foundations.\<close> \<open>SDK_Prelude\<close> has the words, the errors, the checked and saturating operations and the lemmas that move a word
  computation to \<open>int\<close> (collections \<open>result_simps\<close> and \<open>word_to_int\<close>). \<open>Ordered_Map\<close> is the standard library's
  \<open>BTreeMap\<close>: the locale \<open>ordered_map\<close>, provided by sorted association lists (\<open>om\<close>).

  \<^bold>\<open>Numbers\<close> (\<open>units/\<close>, \<open>math/tick.rs\<close>). \<open>Fixed_Point\<close>: \<open>mul_div\<close>, \<open>s_full_mul_div\<close> and \<open>exp_wad\<close>, each one rounding of an
  exact rational. \<open>Prices\<close>, \<open>Units\<close>, \<open>Shares\<close>, \<open>Scaling\<close>: the newtypes, their operators, the conserving splits, and the
  \<open>Factor\<close> trait as the locale \<open>factor\<close> with both its implementors as interpretations. \<open>Tick_Math\<close>, \<open>Tick_Accuracy\<close>,
  \<open>Tick_Order\<close>: \<open>getSqrtRatioAtTick\<close>, the error bound of its twenty truncated products, its strict order, and its inverse search
  verified over the locale \<open>tick_grid\<close>.

  \<^bold>\<open>Pool\<close> (\<open>math/swap.rs\<close>, \<open>range.rs\<close>, \<open>liquidity.rs\<close>, \<open>capacity.rs\<close>, \<open>pricing.rs\<close>). \<open>Amount_Deltas\<close>: the Uniswap amounts as one
  rounding each. \<open>Range_Liquidity\<close> and \<open>Capacity\<close>: a band's sizing and the open interest it backs, each direction a Galois
  connection. \<open>Swap\<close> and \<open>Quotes\<close>: the swap loop. It runs with fuel \<open>sim_fuel\<close>, the number of initialized ticks and one more,
  which is enough because each iteration but the last crosses a tick that later ones never meet again; \<open>quotes_return\<close> states it
  for the entry points. \<open>Pricing\<close>: the EMAs, the overflow-free average and the fair price.

  \<^bold>\<open>Positions\<close> (\<open>math/taker.rs\<close>, \<open>maker_equity.rs\<close>, \<open>maker_equity/close.rs\<close>). \<open>Taker_Health\<close>: the legs of a health test and the search
  for the liquidation prices, verified over the locale \<open>turn_search\<close>. The gallops carry \<open>gallop_fuel = 258\<close>: a gallop doubles its
  step, so 256 doublings leave the range of a price and the search stops. \<open>Maker_Equity\<close>: the accrual replay, the settle preview,
  the revaluation along a shock and the search for the prices at which the health test turns. \<open>Maker_Edge\<close>: such a price is an edge
  of the test to the atom, with a maker that has one on either side. \<open>Maker_Close\<close>: the full close, when it is accepted, and that it
  conserves the position's worth.

  \<^bold>\<open>Transport and sending\<close> (\<open>transport/\<close>, \<open>hft/\<close>, \<open>client/transactions.rs\<close>). \<open>Circuit_Breaker\<close>, \<open>Endpoint_Pool\<close>, \<open>Rpc_Router\<close>: the
  health of an endpoint, the pool with its probe permits and selections, the retries and the hedged reads. \<open>pool_step\<close> interleaves
  the pool's operations and the invariants are proved by rule induction. \<open>State_Cache\<close> and \<open>Gas\<close>: the timed caches, one contract
  \<open>ttl_cache\<close> with an interpretation for each layer. \<open>Tx_Pipeline\<close> and \<open>Tx_Send\<close>: the nonce counter, the pipeline and the send
  path over it, \<open>tx_step\<close> interleaving any number of senders; a silent hole in the sequence is traced to \<open>TxPipeline::fail\<close>. \<open>Latency_Tracker\<close>: the ring of samples and its percentiles.

  \<^bold>\<open>History\<close> (\<open>history/\<close>, \<open>events.rs\<close>). \<open>Chain_Fold\<close> states the law of every fold, that the fold of a tape is the combination of
  the folds of its segments, as the locale \<open>segment_fold\<close> and, behind the chain-order guard, \<open>point_fold\<close>; \<open>Value_Series\<close>,
  \<open>Point_Process\<close>, \<open>Market_Fold\<close>, \<open>Custody_Fold\<close>, \<open>Activity_Fold\<close>, \<open>Solvency_Fold\<close>, \<open>Positions_Fold\<close> and \<open>Market_Replay\<close> interpret it on
  the folds of \<open>fold/series.rs\<close>, \<open>replay/\<close> and \<open>tape/custody.rs\<close>. \<open>Series_Queries\<close> has what series and arrivals answer, and that
  retention changes no answer. \<open>Market_Events\<close> and \<open>Market_Tape\<close>: the events and the tape they are kept in;
  \<open>Replay_Properties\<close>: what a replay says of its tape. \<open>Log_Scan\<close> and \<open>Scan_Windows\<close>: the adaptive scan. Its loops may depend on
  the node for their end, so they are \<open>partial_function (option)\<close>, and that they return whatever the node answers is proved
  (\<open>chunked_scan_total\<close>), as is that no interleaving of the concurrent driver \<open>scan_step\<close> goes on for ever
  (\<open>concurrent_scan_terminates\<close>). \<open>Log_Reader\<close>, \<open>History_Handle\<close>, \<open>History_Reads\<close> and \<open>Read_Properties\<close>: the tapes, prints, transfers and
  recordings read through it, over the locales \<open>log_source\<close> and \<open>newest_source\<close> that the scan provides.

  \<^bold>\<open>Reads of one block\<close> (\<open>client/state.rs\<close>, \<open>storage.rs\<close>, \<open>client/taker_health.rs\<close>, \<open>client/maker_equity.rs\<close>). \<open>State_Reads\<close>: the reads of a market
  pinned to a block over a node \<open>pinned_node\<close>, the storage slots (the hash is a parameter, and no claim needs it to be injective),
  the classification of failures, and the pool rebuilt from the bitmap and the tick words. \<open>Pool_Read\<close>: what is read is what is stored, and can
  be quoted against where its price and tick agree. \<open>Batch_Reads\<close>: the chunked row reads, the takers' health tests and the makers' settle previews;
  \<open>Batch_Properties\<close>: a batch is what each id gets alone.

  \<^bold>\<open>Simplifications.\<close> The two scans of a join run one after the other. A lock is held for the whole of an operation; the
  atomics of the pool and the pipeline are plain fields, each operation one step. Elapsed time, tracing and the
  redaction of labels leave no trace in a result and are left out.

  \<^bold>\<open>Not modelled.\<close> The floating-point views and conversions (\<open>price.rs\<close>, \<open>share.rs\<close>, \<open>rates.rs\<close>, \<open>math/position.rs\<close>,
  \<open>hft/position_manager.rs\<close>), since nothing exact is claimed of them; the cached reads at the head and the assembly of calls
  (\<open>client/queries.rs\<close>, \<open>market.rs\<close>, \<open>trades.rs\<close>), which pass values between the node and the functions modelled here; the contract
  bindings (\<open>contracts.rs\<close>), which a macro expands; the feeds, the websocket, the redaction of URLs, the transfer protocol of \<open>cctp.rs\<close>
  and the messages of \<open>errors/\<close>, which are input and output; \<open>xtask\<close>, the benchmarks and the examples, which are not part of the
  library.
\<close>

end
